(* ===== verification/Prelude.thy ===== *)
theory Prelude
  imports Main "HOL-Library.Word"
begin

text \<open>
  Shared vocabulary of the development: names for the C integer types, byte strings, the
  little-endian and big-endian codecs of \<^verbatim>\<open>sys/endian.h\<close>, and generic lemmas on lists and
  words that several components use.

  \<^item> \<open>u8\<close>, \<open>u16\<close>, \<open>u32\<close>, \<open>u64\<close> are the C types
    \<^verbatim>\<open>uint8_t\<close> .. \<^verbatim>\<open>uint64_t\<close>; arithmetic on them wraps as in C.
  \<^item> A C buffer together with its length is a list of bytes. A C pointer that may be
    \<^verbatim>\<open>NULL\<close> is an \<open>option\<close>.
  \<^item> \<open>wg_arith\<close> collects facts that turn word expressions into integer arithmetic;
    \<open>wg_len\<close> collects facts about the length of produced byte strings.
\<close>

unbundle bit_operations_syntax

type_synonym u8 = "8 word"
type_synonym u16 = "16 word"
type_synonym u32 = "32 word"
type_synonym u64 = "64 word"
type_synonym bytes = "u8 list"

named_theorems wg_arith
named_theorems wg_len

subsection \<open>Error numbers (errno.h)\<close>

text \<open>The codes the modelled functions return; 0 is success.\<close>

datatype errno =
  OK | EINVAL | EAGAIN | EAFNOSUPPORT | ECONNREFUSED | ETIMEDOUT | ENOENT | ENXIO
| ENOSPC | ESTALE | EEXIST | ECONNRESET | EBADMSG | EMSGSIZE | ENOMEM
| ENOBUFS | ENETUNREACH | EHOSTUNREACH | ELOOP | ENOTCONN | EADDRNOTAVAIL | EBUSY | EFAULT | E2BIG
| EOPNOTSUPP | ENOTTY | EPERM

subsection \<open>Time and socket addresses\<close>

text \<open>\<^verbatim>\<open>sbintime_t\<close> counts nanoseconds of the monotonic clock (\<^verbatim>\<open>macos_stubs/sys/param.h\<close>);
  it is an integer here, a reading of the clock being an argument of the function that reads it.\<close>

type_synonym sbintime = int

definition SBT_1S :: sbintime where "SBT_1S = 1000000000"

definition nstosbt :: "u32 \<Rightarrow> sbintime" where "nstosbt ns = uint ns"

text \<open>\<^verbatim>\<open>timer_expired\<close> of \<^verbatim>\<open>wg_cookie.c\<close> and \<^verbatim>\<open>noise_timer_expired\<close> of \<^verbatim>\<open>wg_noise.c\<close>
  share this test on the reading \<open>now\<close>.\<close>

definition timer_expired :: "sbintime \<Rightarrow> sbintime \<Rightarrow> u32 \<Rightarrow> u32 \<Rightarrow> bool" where
  "timer_expired now timer sec nsec \<longleftrightarrow> now > timer + uint sec * SBT_1S + nstosbt nsec"

text \<open>\<^verbatim>\<open>struct sockaddr\<close>: address and port as the bytes in network order, by family.\<close>

datatype sockaddr =
  Sin (sin_addr: bytes) (sin_port: bytes)
| Sin6 (sin6_addr: bytes) (sin6_port: bytes)
| Sa_other

subsection \<open>C strings and memcmp\<close>

definition bytes_of_string :: "string \<Rightarrow> bytes" where
  "bytes_of_string s = map of_char s"

lemma length_bytes_of_string [simp, wg_len]: "length (bytes_of_string s) = length s"
  by (simp add: bytes_of_string_def)

text \<open>\<^verbatim>\<open>memcmp\<close> on two buffers of one length: the difference at the first unequal byte.\<close>

fun memcmp :: "bytes \<Rightarrow> bytes \<Rightarrow> int" where
  "memcmp (a # as) (b # bs) = (if a = b then memcmp as bs else uint a - uint b)"
| "memcmp _ _ = 0"

lemma memcmp_refl [simp]: "memcmp a a = 0"
  by (induction a) auto

lemma memcmp_antisym: "memcmp a b = - memcmp b a"
  by (induction a b rule: memcmp.induct) auto

lemma memcmp_eq_0: "length a = length b \<Longrightarrow> memcmp a b = 0 \<longleftrightarrow> a = b"
  by (induction a b rule: memcmp.induct) (auto simp: word_uint_eq_iff)

lemma memcmp_append:
  "length a = length b \<Longrightarrow> memcmp (a @ c) (b @ d) = (if a = b then memcmp c d else memcmp a b)"
  by (induction a b rule: list_induct2) auto

lemma memcmp_trans:
  "length a = length b \<Longrightarrow> length b = length c \<Longrightarrow> 0 < memcmp a b \<Longrightarrow> 0 < memcmp b c \<Longrightarrow> 0 < memcmp a c"
proof (induction a b arbitrary: c rule: list_induct2)
  case (Cons x xs y ys)
  then obtain z zs where c: "c = z # zs" "length ys = length zs" by (cases c) auto
  with Cons show ?case by (auto split: if_splits)
qed simp

subsection \<open>Byte-wise exclusive or\<close>

definition xor_bytes :: "bytes \<Rightarrow> bytes \<Rightarrow> bytes" where
  "xor_bytes xs ys = map2 (\<lambda>x y. x XOR y) xs ys"

lemma length_xor_bytes [simp, wg_len]:
  "length (xor_bytes xs ys) = min (length xs) (length ys)"
  by (simp add: xor_bytes_def)

lemma xor_bytes_Nil [simp]: "xor_bytes [] ys = []" "xor_bytes xs [] = []"
  by (simp_all add: xor_bytes_def)

lemma xor_bytes_Cons [simp]:
  "xor_bytes (x # xs) (y # ys) = (x XOR y) # xor_bytes xs ys"
  by (simp add: xor_bytes_def)

lemma xor_bytes_cancel:
  "length xs \<le> length ys \<Longrightarrow> xor_bytes (xor_bytes xs ys) ys = xs"
proof (induction xs arbitrary: ys)
  case Nil
  then show ?case by simp
next
  case (Cons x xs)
  then obtain y ys' where "ys = y # ys'" by (cases ys) auto
  with Cons show ?case by (simp add: xor.assoc)
qed

lemma nth_xor_bytes:
  "i < length xs \<Longrightarrow> i < length ys \<Longrightarrow> xor_bytes xs ys ! i = xs ! i XOR ys ! i"
  by (simp add: xor_bytes_def)

lemma xor_bytes_append:
  "length xs = length us \<Longrightarrow>
   xor_bytes (xs @ ys) (us @ vs) = xor_bytes xs us @ xor_bytes ys vs"
  by (simp add: xor_bytes_def)

lemma xor_bytes_take_right: "xor_bytes xs ys = xor_bytes xs (take (length xs) ys)"
proof (induction xs arbitrary: ys)
  case Nil
  then show ?case by simp
next
  case (Cons x xs)
  then show ?case by (cases ys) auto
qed

subsection \<open>Lists of a given length\<close>

lemma replicate_num: "replicate (numeral k) x = x # replicate (pred_numeral k) x"
  by (simp add: numeral_eq_Suc)

subsection \<open>Writing into a buffer\<close>

text \<open>\<^verbatim>\<open>memcpy(buf + off, bs, n)\<close> on a buffer that reaches at least to \<open>off\<close>.\<close>

definition buf_put :: "nat \<Rightarrow> 'a list \<Rightarrow> 'a list \<Rightarrow> 'a list" where
  "buf_put off bs buf = take off buf @ bs @ drop (off + length bs) buf"

lemma length_buf_put [simp, wg_len]:
  "off + length bs \<le> length buf \<Longrightarrow> length (buf_put off bs buf) = length buf"
  by (simp add: buf_put_def)

lemma buf_put_append:
  "length old = length bs \<Longrightarrow> buf_put (length xs) bs (xs @ old @ ys) = xs @ bs @ ys"
  by (simp add: buf_put_def)

subsection \<open>sys/endian.h\<close>

definition le32dec :: "bytes \<Rightarrow> u32" where
  "le32dec p = ucast (p ! 0) OR push_bit 8 (ucast (p ! 1))
     OR push_bit 16 (ucast (p ! 2)) OR push_bit 24 (ucast (p ! 3))"

definition le64dec :: "bytes \<Rightarrow> u64" where
  "le64dec p = ucast (le32dec p) OR push_bit 32 (ucast (le32dec (drop 4 p)))"

definition le32enc :: "u32 \<Rightarrow> bytes" where
  "le32enc v = [ucast v, ucast (drop_bit 8 v), ucast (drop_bit 16 v), ucast (drop_bit 24 v)]"

definition le64enc :: "u64 \<Rightarrow> bytes" where
  "le64enc v = le32enc (ucast v) @ le32enc (ucast (drop_bit 32 v))"

definition be32enc :: "u32 \<Rightarrow> bytes" where
  "be32enc v = [ucast (drop_bit 24 v), ucast (drop_bit 16 v), ucast (drop_bit 8 v), ucast v]"

definition be64enc :: "u64 \<Rightarrow> bytes" where
  "be64enc v = be32enc (ucast (drop_bit 32 v)) @ be32enc (ucast v)"

lemma length_codecs [simp, wg_len]:
  "length (le32enc v) = 4" "length (le64enc w) = 8"
  "length (be32enc v) = 4" "length (be64enc w) = 8"
  by (simp_all add: le32enc_def le64enc_def be32enc_def be64enc_def)

lemma not_bit_u8 [simp]: "8 \<le> n \<Longrightarrow> \<not> bit (w :: u8) n"
  using bit_imp_le_length [of w n] by auto

lemma not_bit_u8_add [simp]:
  "\<not> bit (w :: u8) (8 + n)" "\<not> bit (w :: u8) (16 + n)" "\<not> bit (w :: u8) (24 + n)"
  by simp_all

lemma le32dec_le32enc [simp]: "le32dec (le32enc v) = v"
proof (rule bit_word_eqI)
  fix n assume "n < LENGTH(32)"
  then consider "n < 8" | "8 \<le> n" "n < 16" | "16 \<le> n" "n < 24" | "24 \<le> n" "n < 32"
    by fastforce
  then show "bit (le32dec (le32enc v)) n = bit v n"
    by cases (auto simp: le32dec_def le32enc_def bit_simps)
qed

lemma le32dec_append [simp]: "4 \<le> length xs \<Longrightarrow> le32dec (xs @ ys) = le32dec xs"
proof -
  assume "4 \<le> length xs"
  then have "0 < length xs" "1 < length xs" "2 < length xs" "3 < length xs" by linarith+
  then show ?thesis by (simp add: le32dec_def nth_append)
qed

lemma le64dec_le64enc [simp]: "le64dec (le64enc v) = v"
proof -
  have "ucast (ucast v :: u32) OR push_bit 32 (ucast (ucast (drop_bit 32 v) :: u32)) = v"
    by (rule bit_word_eqI) (auto simp: bit_simps)
  then show ?thesis by (simp add: le64dec_def le64enc_def)
qed

lemma le64dec_append [simp]: "8 \<le> length xs \<Longrightarrow> le64dec (xs @ ys) = le64dec xs"
  by (simp add: le64dec_def)

lemma le32enc_le32dec_Cons:
  "le32enc (le32dec (a # b # c # d # xs)) = [a, b, c, d]"
  by (auto simp: le32enc_def le32dec_def bit_simps intro!: bit_word_eqI)

lemma le32enc_le32dec: "length p = 4 \<Longrightarrow> le32enc (le32dec p) = p"
proof -
  assume "length p = 4"
  then obtain a b c d where "p = [a, b, c, d]"
    by (auto simp: length_Suc_conv numeral_eq_Suc)
  then show ?thesis by (simp only: le32enc_le32dec_Cons)
qed

lemma le64enc_le64dec: "length p = 8 \<Longrightarrow> le64enc (le64dec p) = p"
proof -
  assume p: "length p = 8"
  have lo: "ucast (le64dec p) = le32dec p" and hi: "ucast (drop_bit 32 (le64dec p)) = le32dec (drop 4 p)"
    unfolding le64dec_def by (rule bit_word_eqI; auto simp: bit_simps dest: bit_imp_le_length)+
  have "le32dec p = le32dec (take 4 p)"
    using le32dec_append [of "take 4 p" "drop 4 p"] p by simp
  with p show ?thesis
    by (simp add: le64enc_def lo hi le32enc_le32dec)
qed

lemma le64enc_le64dec_take: "8 \<le> length p \<Longrightarrow> le64enc (le64dec p) = take 8 p"
  using le64dec_append [of "take 8 p" "drop 8 p"] le64enc_le64dec [of "take 8 p"] by simp

subsection \<open>Word arithmetic as arithmetic on naturals\<close>

lemma unat_plus_small [wg_arith]:
  "unat a + unat b < 2 ^ LENGTH('a) \<Longrightarrow> unat (a + b :: 'a :: len word) = unat a + unat b"
  by (simp add: unat_word_ariths)

lemma unat_times_small [wg_arith]:
  "unat a * unat b < 2 ^ LENGTH('a) \<Longrightarrow> unat (a * b :: 'a :: len word) = unat a * unat b"
  by (simp add: unat_word_ariths)

lemma unat_less_numeral [wg_arith]:
  "unat (a :: u8) < 256" "unat (c :: u32) < 2 ^ 32" "unat (d :: u64) < 2 ^ 64"
  using unsigned_less [of a] unsigned_less [of c] unsigned_less [of d] by simp_all

lemma unat_ucast_u32_u64 [simp, wg_arith]: "unat (ucast (a :: u32) :: u64) = unat a"
  using unat_less_numeral(2) [of a] by (simp add: unsigned_ucast_eq take_bit_nat_eq_self)

lemma unat_ucast_u8_up [simp, wg_arith]:
  "unat (ucast (a :: u8) :: u32) = unat a" "unat (ucast (a :: u8) :: u64) = unat a"
  using unat_less_numeral(1) [of a] by (simp_all add: unsigned_ucast_eq take_bit_nat_eq_self)

lemma unat_ucast_u64_u32 [wg_arith]: "unat (ucast (a :: u64) :: u32) = unat a mod 2 ^ 32"
  by (simp add: unsigned_ucast_eq take_bit_eq_mod)

lemma unat_and_mask26 [wg_arith]:
  "unat (a AND 0x3ffffff :: u32) = unat a mod 2 ^ 26"
proof -
  have "(0x3ffffff :: u32) = mask 26" by (simp add: mask_eq_exp_minus_1)
  then have "a AND 0x3ffffff = take_bit 26 a" by (metis take_bit_eq_mask)
  then have "unat (a AND 0x3ffffff) = take_bit 26 (unat a)" by (metis unsigned_take_bit_eq)
  then show ?thesis by (simp only: take_bit_eq_mod)
qed

lemma unat_drop_bit [wg_arith]: "unat (drop_bit n a :: 'a :: len word) = unat a div 2 ^ n"
  by (simp only: unat_drop_bit_eq) (simp add: drop_bit_eq_div)

lemma unat_push_bit [wg_arith]:
  "unat (push_bit n a :: 'a :: len word) = (unat a * 2 ^ n) mod 2 ^ LENGTH('a)"
  by (simp only: unsigned_push_bit_eq) (simp add: push_bit_eq_mult take_bit_eq_mod)

lemma or_disjoint_unat:
  assumes "\<And>n. \<not> (bit a n \<and> bit b n)"
  shows "unat (a OR b :: 'a :: len word) = unat a + unat b"
proof -
  have "unat (a OR b) = unat a OR unat b" by (simp add: unsigned_or_eq)
  also have "\<dots> = unat a + unat b"
    using assms by (subst disjunctive_add_eq_or) (auto simp: bit_eq_iff bit_simps)
  finally show ?thesis .
qed

text \<open>The number a byte string denotes, least significant byte first.\<close>

fun le_num :: "bytes \<Rightarrow> nat" where
  "le_num [] = 0"
| "le_num (b # bs) = unat b + 256 * le_num bs"

lemma le_num_append: "le_num (xs @ ys) = le_num xs + 256 ^ length xs * le_num ys"
  by (induction xs) (auto simp: algebra_simps)

lemma le_num_bound: "le_num xs < 256 ^ length xs"
proof (induction xs)
  case (Cons x xs)
  have "unat x < 256" by (rule unat_less_numeral)
  with Cons show ?case by simp
qed simp

lemma le_num_replicate_0 [simp]: "le_num (replicate n 0) = 0"
  by (induction n) auto

lemma or_disjoint_range:
  assumes "unat a < 2 ^ k"
  shows "unat (a OR push_bit k b :: 'a :: len word) = unat a + (unat b * 2 ^ k) mod 2 ^ LENGTH('a)"
proof -
  have "\<not> (bit a n \<and> bit (push_bit k b) n)" for n
  proof
    assume n: "bit a n \<and> bit (push_bit k b) n"
    then have "k \<le> n" by (simp add: bit_push_bit_iff)
    moreover have "bit (unat a) n" using n by (simp add: bit_unsigned_iff)
    then have "2 ^ n \<le> unat a"
      by (metis bit_iff_odd div_less even_zero not_less)
    ultimately show False using assms
      by (meson leD le_less_trans not_le power_increasing_iff one_less_numeral_iff semiring_norm(76)
          order_less_le_trans)
  qed
  then show ?thesis by (simp add: or_disjoint_unat unat_push_bit)
qed

lemma unat_le32dec:
  assumes "4 \<le> length p"
  shows "unat (le32dec p) = le_num (take 4 p)"
proof -
  from assms obtain a b c d q where p: "p = a # b # c # d # q"
    by (auto simp: Suc_le_length_iff numeral_eq_Suc)
  have ub: "unat (x :: u8) < 256" for x by (rule unat_less_numeral)
  let ?a = "ucast a :: u32" and ?b = "ucast b :: u32" and ?c = "ucast c :: u32" and ?d = "ucast d :: u32"
  have 1: "unat (?a OR push_bit 8 ?b) = unat a + unat b * 2 ^ 8"
    using ub [of a] ub [of b] by (subst or_disjoint_range) simp_all
  have 2: "unat (?a OR push_bit 8 ?b OR push_bit 16 ?c) = unat a + unat b * 2 ^ 8 + unat c * 2 ^ 16"
    using 1 ub [of a] ub [of b] ub [of c]
    by (subst or.assoc [symmetric], subst or_disjoint_range) simp_all
  have "unat (?a OR push_bit 8 ?b OR push_bit 16 ?c OR push_bit 24 ?d)
          = unat a + unat b * 2 ^ 8 + unat c * 2 ^ 16 + unat d * 2 ^ 24"
    using 2 ub [of a] ub [of b] ub [of c] ub [of d]
    by (subst or.assoc [symmetric], subst or.assoc [symmetric], subst or_disjoint_range)
      (simp_all add: or.assoc)
  then show ?thesis by (simp add: p le32dec_def)
qed

lemma le_num_le32enc: "le_num (le32enc w) = unat w"
  using unat_le32dec [of "le32enc w"] by simp

lemma le_num_take_drop: "le_num xs = le_num (take n xs) + 256 ^ min n (length xs) * le_num (drop n xs)"
  by (metis append_take_drop_id le_num_append length_take min.commute)

end
