(* ===== verification/Text.thy ===== *)
theory Text
  imports Prelude "HOL-Library.Char_ord"
begin

text \<open>
  Text handling of \<^verbatim>\<open>src/wg_session.c\<close> and \<^verbatim>\<open>src/wgctl.c\<close>: the functions of the C library
  they rely on (\<^verbatim>\<open>strtok_r\<close>, \<^verbatim>\<open>strchr\<close>, \<^verbatim>\<open>strtol\<close>, \<^verbatim>\<open>atoi\<close>, the conversions of \<^verbatim>\<open>printf\<close>), the base64 form
  of keys, and the hexadecimal form of the configuration protocol.

  A C string is a \<open>string\<close> without its terminating NUL. A function that returns \<^verbatim>\<open>-1\<close> on
  bad input and otherwise fills a buffer returns an \<open>option\<close>.
\<close>

subsection \<open>The C library\<close>

definition code :: "char \<Rightarrow> nat" where
  "code c = of_char c"

text \<open>A C string in a buffer ends at its first NUL.\<close>

definition c_string :: "string \<Rightarrow> string" where
  "c_string s = takeWhile (\<lambda>c. c \<noteq> CHR 0x00) s"

text \<open>\<^verbatim>\<open>strtok_r\<close> with one delimiter: the pieces between delimiters that are not empty.\<close>

fun split_at :: "char \<Rightarrow> string \<Rightarrow> string list" where
  "split_at d [] = [[]]"
| "split_at d (c # cs) =
     (if c = d then [] # split_at d cs
      else (case split_at d cs of [] \<Rightarrow> [[c]] | p # ps \<Rightarrow> (c # p) # ps))"

definition strtok :: "char \<Rightarrow> string \<Rightarrow> string list" where
  "strtok d s = filter (\<lambda>p. p \<noteq> []) (split_at d s)"

text \<open>\<^verbatim>\<open>strchr\<close> and \<^verbatim>\<open>strrchr\<close>: the text before and after the first (last) occurrence.\<close>

fun strchr :: "char \<Rightarrow> string \<Rightarrow> (string \<times> string) option" where
  "strchr d [] = None"
| "strchr d (c # cs) =
     (if c = d then Some ([], cs)
      else (case strchr d cs of None \<Rightarrow> None | Some (a, b) \<Rightarrow> Some (c # a, b)))"

definition strrchr :: "char \<Rightarrow> string \<Rightarrow> (string \<times> string) option" where
  "strrchr d s = (case strchr d (rev s) of None \<Rightarrow> None | Some (a, b) \<Rightarrow> Some (rev b, rev a))"

definition isspace :: "char \<Rightarrow> bool" where
  "isspace c \<longleftrightarrow> c = CHR '' '' \<or> 9 \<le> code c \<and> code c \<le> 13"

definition isdigit :: "char \<Rightarrow> bool" where
  "isdigit c \<longleftrightarrow> 48 \<le> code c \<and> code c \<le> 57"

fun digits_val :: "int \<Rightarrow> string \<Rightarrow> int" where
  "digits_val v [] = v"
| "digits_val v (c # cs) = (if isdigit c then digits_val (v * 10 + int (code c - 48)) cs else v)"

text \<open>\<^verbatim>\<open>strtol\<close> in base 10 with a 64-bit \<^verbatim>\<open>long\<close>, saturating; \<^verbatim>\<open>atoi\<close> is its conversion to \<^verbatim>\<open>int\<close>.\<close>

definition strtol :: "string \<Rightarrow> int" where
  "strtol s =
     (let t = dropWhile isspace s;
          v = (case t of
                 [] \<Rightarrow> 0
               | c # cs \<Rightarrow> if c = CHR ''-'' then - digits_val 0 cs
                          else if c = CHR ''+'' then digits_val 0 cs else digits_val 0 t)
      in max (- (2 ^ 63)) (min (2 ^ 63 - 1) v))"

definition atoi :: "string \<Rightarrow> int" where
  "atoi s = signed_take_bit 31 (strtol s)"

text \<open>The conversions \<^verbatim>\<open>%u\<close>, \<^verbatim>\<open>%llu\<close>, \<^verbatim>\<open>%d\<close>, \<^verbatim>\<open>%lld\<close> and \<^verbatim>\<open>%08x\<close>.\<close>

definition digit_char :: "nat \<Rightarrow> char" where
  "digit_char d = char_of (48 + d)"

fun fmt_nat :: "nat \<Rightarrow> string" where
  "fmt_nat n = (if n < 10 then [digit_char n] else fmt_nat (n div 10) @ [digit_char (n mod 10)])"

declare fmt_nat.simps [simp del]

definition fmt_int :: "int \<Rightarrow> string" where
  "fmt_int i = (if i < 0 then CHR ''-'' # fmt_nat (nat (- i)) else fmt_nat (nat i))"

definition HEX :: string where
  "HEX = ''0123456789abcdef''"

definition fmt_hex8 :: "u32 \<Rightarrow> string" where
  "fmt_hex8 v = map (\<lambda>i. HEX ! unat (drop_bit (28 - 4 * i) v AND 15)) [0..<8]"

subsection \<open>base64 (wg_session.c, wgctl.c)\<close>

definition B64_ENC :: string where
  "B64_ENC = ''ABCDEFGHIJKLMNOPQRSTUVWXYZabcdefghijklmnopqrstuvwxyz0123456789+/''"

definition b64_value :: "char \<Rightarrow> nat option" where
  "b64_value c =
     (if code (CHR ''A'') \<le> code c \<and> code c \<le> code (CHR ''Z'') then Some (code c - code (CHR ''A''))
      else if code (CHR ''a'') \<le> code c \<and> code c \<le> code (CHR ''z'') then Some (code c - code (CHR ''a'') + 26)
      else if code (CHR ''0'') \<le> code c \<and> code c \<le> code (CHR ''9'') then Some (code c - code (CHR ''0'') + 52)
      else if c = CHR ''+'' then Some 62
      else if c = CHR ''/'' then Some 63
      else None)"

text \<open>The loop over groups of four characters: the bytes written, \<open>None\<close> for a bad character. It
  ends at a padding character.\<close>

fun b64_groups :: "string \<Rightarrow> bytes option" where
  "b64_groups (c0 # c1 # c2 # c3 # rest) =
     (case (b64_value c0, b64_value c1) of
        (Some v0, Some v1) \<Rightarrow>
          let o0 = push_bit 2 (of_nat v0) OR drop_bit 4 (of_nat v1) in
          if c2 = CHR ''='' then Some [o0]
          else (case b64_value c2 of
                  None \<Rightarrow> None
                | Some v2 \<Rightarrow>
                    let o1 = push_bit 4 (of_nat v1 AND 0x0f) OR drop_bit 2 (of_nat v2) in
                    if c3 = CHR ''='' then Some [o0, o1]
                    else (case b64_value c3 of
                            None \<Rightarrow> None
                          | Some v3 \<Rightarrow>
                              let o2 = push_bit 6 (of_nat v2 AND 0x03) OR of_nat v3 in
                              map_option (\<lambda>r. o0 # o1 # o2 # r) (b64_groups rest)))
      | _ \<Rightarrow> None)"
| "b64_groups _ = Some []"

definition decode_base64_32 :: "string \<Rightarrow> bytes option" where
  "decode_base64_32 s =
     (if length s \<noteq> 44 then None
      else (case b64_groups s of
              None \<Rightarrow> None
            | Some out \<Rightarrow> if length out \<noteq> 32 then None else Some out))"

text \<open>The encoder of \<^verbatim>\<open>wgctl genkey\<close> and \<^verbatim>\<open>pubkey\<close>: \<open>b64_char\<close> is one six-bit group of the 24-bit
  value \<open>v\<close>, \<open>b64_triples\<close> the loop, whose last step takes the two remaining bytes.\<close>

definition b64_char :: "u32 \<Rightarrow> nat \<Rightarrow> char" where
  "b64_char v shift = B64_ENC ! unat (drop_bit shift v AND 0x3f)"

fun b64_triples :: "bytes \<Rightarrow> string" where
  "b64_triples (a # b # c # rest) =
     (let v = push_bit 16 (ucast a) OR push_bit 8 (ucast b) OR ucast c
      in b64_char v 18 # b64_char v 12 # b64_char v 6 # b64_char v 0 # b64_triples rest)"
| "b64_triples [a, b] =
     (let v = push_bit 16 (ucast a) OR push_bit 8 (ucast b)
      in [b64_char v 18, b64_char v 12, b64_char v 6, CHR ''=''])"
| "b64_triples _ = []"

definition b64_encode_32 :: "bytes \<Rightarrow> string" where
  "b64_encode_32 key = b64_triples key"

subsection \<open>Hexadecimal (wg_session.c)\<close>

fun hex_encode :: "bytes \<Rightarrow> string" where
  "hex_encode [] = []"
| "hex_encode (b # bs) = HEX ! unat (drop_bit 4 b AND 0xf) # HEX ! unat (b AND 0xf) # hex_encode bs"

definition hex_digit :: "char \<Rightarrow> nat option" where
  "hex_digit c =
     (if code (CHR ''0'') \<le> code c \<and> code c \<le> code (CHR ''9'') then Some (code c - code (CHR ''0''))
      else if code (CHR ''a'') \<le> code c \<and> code c \<le> code (CHR ''f'') then Some (code c - code (CHR ''a'') + 10)
      else if code (CHR ''A'') \<le> code c \<and> code c \<le> code (CHR ''F'') then Some (code c - code (CHR ''A'') + 10)
      else None)"

fun hex_pairs :: "string \<Rightarrow> bytes option" where
  "hex_pairs (h # l # rest) =
     (case (hex_digit h, hex_digit l) of
        (Some hi, Some lo) \<Rightarrow> map_option (\<lambda>r. (push_bit 4 (of_nat hi) OR of_nat lo) # r) (hex_pairs rest)
      | _ \<Rightarrow> None)"
| "hex_pairs _ = Some []"

definition hex_decode :: "string \<Rightarrow> nat \<Rightarrow> bytes option" where
  "hex_decode s n = (if length s \<noteq> 2 * n then None else hex_pairs s)"

subsection \<open>Trimming (wg_session.c)\<close>

definition wgs_space :: "char \<Rightarrow> bool" where
  "wgs_space c \<longleftrightarrow> c = CHR '' '' \<or> c = CHR 0x09 \<or> c = CHR 0x0D \<or> c = CHR 0x0A"

definition wgs_trim :: "string \<Rightarrow> string" where
  "wgs_trim s =
     (let s = dropWhile wgs_space s in
      if s = [] then s else rev (dropWhile wgs_space (rev s)))"

subsection \<open>Interface names (wgctl.c)\<close>

definition iface_char :: "char \<Rightarrow> bool" where
  "iface_char c \<longleftrightarrow>
     code (CHR ''a'') \<le> code c \<and> code c \<le> code (CHR ''z'') \<or>
     code (CHR ''0'') \<le> code c \<and> code c \<le> code (CHR ''9'') \<or> c = CHR ''_'' \<or> c = CHR ''-''"

definition validate_iface :: "string \<Rightarrow> int" where
  "validate_iface iface =
     (let n = length iface in
      if n < 1 \<or> n > 15 then - 1
      else if list_all iface_char iface then 0 else - 1)"

subsection \<open>The base64 form is read back\<close>

text \<open>Each character of the alphabet has its own position as value.\<close>

definition b64_ok :: "string \<Rightarrow> nat \<Rightarrow> bool" where
  "b64_ok cs k \<longleftrightarrow> (\<forall>i < length cs. b64_value (cs ! i) = Some (k + i) \<and> cs ! i \<noteq> CHR ''='')"

lemma b64_ok_simps:
  "b64_ok [] k" "b64_ok (c # cs) k \<longleftrightarrow> b64_value c = Some k \<and> c \<noteq> CHR ''='' \<and> b64_ok cs (Suc k)"
  by (auto simp: b64_ok_def nth_Cons' less_Suc_eq_0_disj)

lemma b64_ok_ENC: "b64_ok B64_ENC 0" "length B64_ENC = 64"
  unfolding B64_ENC_def by (simp_all add: b64_ok_simps b64_value_def code_def)

lemma b64_value_ENC: "n < 64 \<Longrightarrow> b64_value (B64_ENC ! n) = Some n \<and> B64_ENC ! n \<noteq> CHR ''=''"
  using b64_ok_ENC by (simp add: b64_ok_def)

lemma unat_and_63: "unat (w AND 0x3f :: u32) < 64"
proof -
  have "w AND 0x3f \<le> 0x3f" by (rule word_and_le1)
  then show ?thesis by (simp add: word_le_nat_alt)
qed

lemma b64_value_char [simp]: "b64_value (b64_char v n) = Some (unat (drop_bit n v AND 0x3f))"
  and b64_char_pad [simp]: "b64_char v n \<noteq> CHR ''=''"
  using b64_value_ENC [OF unat_and_63] by (simp_all add: b64_char_def)

lemma of_nat_group: "(of_nat (unat (w AND 0x3f :: u32)) :: u8) = ucast w AND 0x3f"
proof -
  have "(of_nat (unat (w AND 0x3f)) :: u8) = ucast (w AND 0x3f)"
    by (rule of_nat_unat)
  then show ?thesis by (simp add: unsigned_and_eq)
qed

lemma u8_eqI:
  fixes a b :: u8
  assumes "bit a 0 = bit b 0" "bit a 1 = bit b 1" "bit a 2 = bit b 2" "bit a 3 = bit b 3"
    "bit a 4 = bit b 4" "bit a 5 = bit b 5" "bit a 6 = bit b 6" "bit a 7 = bit b 7"
  shows "a = b"
proof (rule bit_word_eqI)
  fix n :: nat
  assume "n < LENGTH(8)"
  then have "n = 0 \<or> n = 1 \<or> n = 2 \<or> n = 3 \<or> n = 4 \<or> n = 5 \<or> n = 6 \<or> n = 7" by simp arith
  with assms show "bit a n \<longleftrightarrow> bit b n" by auto
qed

lemma mask_bits8: "(0x3f :: u8) = mask 6" "(0x0f :: u8) = mask 4" "(0x03 :: u8) = mask 2"
  by (simp_all add: mask_eq_exp_minus_1)

lemma group_bits:
  fixes a b c :: u8
  defines "v \<equiv> push_bit 16 (ucast a) OR push_bit 8 (ucast b) OR ucast c :: u32"
  shows "push_bit 2 (ucast (drop_bit 18 v) AND 0x3f) OR drop_bit 4 (ucast (drop_bit 12 v) AND 0x3f) = a"
    and "push_bit 4 ((ucast (drop_bit 12 v) AND 0x3f) AND 0x0f) OR drop_bit 2 (ucast (drop_bit 6 v) AND 0x3f) = b"
    and "push_bit 6 ((ucast (drop_bit 6 v) AND 0x3f) AND 0x03) OR (ucast v AND 0x3f) = c"
  unfolding v_def mask_bits8
  by (rule u8_eqI; simp add: bit_simps)+

lemma group_bits2:
  fixes a b :: u8
  defines "v \<equiv> push_bit 16 (ucast a) OR push_bit 8 (ucast b) :: u32"
  shows "push_bit 2 (ucast (drop_bit 18 v) AND 0x3f) OR drop_bit 4 (ucast (drop_bit 12 v) AND 0x3f) = a"
    and "push_bit 4 ((ucast (drop_bit 12 v) AND 0x3f) AND 0x0f) OR drop_bit 2 (ucast (drop_bit 6 v) AND 0x3f) = b"
  using group_bits(1,2) [of a b 0] by (simp_all add: v_def)

lemma b64_groups_step:
  assumes "b64_value c0 = Some v0" "b64_value c1 = Some v1" "b64_value c2 = Some v2" "c2 \<noteq> CHR ''=''"
    "push_bit 2 (of_nat v0) OR drop_bit 4 (of_nat v1) = a"
    "push_bit 4 (of_nat v1 AND 0x0f) OR drop_bit 2 (of_nat v2) = b"
  shows "b64_groups (c0 # c1 # c2 # CHR ''='' # rest) = Some [a, b]"
    and "b64_value c3 = Some v3 \<Longrightarrow> c3 \<noteq> CHR ''='' \<Longrightarrow> push_bit 6 (of_nat v2 AND 0x03) OR of_nat v3 = c \<Longrightarrow>
      b64_groups (c0 # c1 # c2 # c3 # rest) = map_option (\<lambda>r. a # b # c # r) (b64_groups rest)"
  using assms by (simp_all add: Let_def)

lemma b64_groups_triples: "length key mod 3 \<noteq> 1 \<Longrightarrow> b64_groups (b64_triples key) = Some key"
proof (induction key rule: b64_triples.induct)
  case (1 a b c rest)
  define v :: u32 where "v = push_bit 16 (ucast a) OR push_bit 8 (ucast b) OR ucast c"
  have "length rest mod 3 \<noteq> 1" using 1(2) by (simp add: mod_Suc) presburger
  then have IH: "b64_groups (b64_triples rest) = Some rest" by (rule 1(1) [OF refl])
  have "b64_groups (b64_triples (a # b # c # rest)) = map_option (\<lambda>r. a # b # c # r) (b64_groups (b64_triples rest))"
    unfolding b64_triples.simps(1) v_def [symmetric] Let_def
    by (rule b64_groups_step(2) [OF b64_value_char b64_value_char b64_value_char b64_char_pad _ _ b64_value_char b64_char_pad])
       (simp_all only: of_nat_group v_def group_bits drop_bit_0 id_apply)
  with IH show ?case by simp
next
  case (2 a b)
  define v :: u32 where "v = push_bit 16 (ucast a) OR push_bit 8 (ucast b)"
  show ?case
    unfolding b64_triples.simps(2) v_def [symmetric] Let_def
    by (rule b64_groups_step(1) [OF b64_value_char b64_value_char b64_value_char b64_char_pad])
       (simp_all only: of_nat_group v_def group_bits2)
qed auto

lemma length_b64_triples: "length key mod 3 \<noteq> 1 \<Longrightarrow> length (b64_triples key) = 4 * ((length key + 2) div 3)"
proof (induction key rule: b64_triples.induct)
  case (1 a b c rest)
  have "length rest mod 3 \<noteq> 1" using 1(2) by (simp add: mod_Suc) presburger
  moreover have "(3 + length rest + 2) div 3 = Suc ((length rest + 2) div 3)" by presburger
  ultimately show ?case using 1(1) [OF refl] by (simp add: Let_def del: div_add_self1)
qed (auto simp: Let_def)

text \<open>A key that the encoder of \<^verbatim>\<open>wgctl\<close> prints is read back as the same 32 bytes by the parser of
  the session library.\<close>

theorem base64_roundtrip:
  assumes "length key = 32"
  shows "decode_base64_32 (b64_encode_32 key) = Some key"
  using assms by (simp add: decode_base64_32_def b64_encode_32_def b64_groups_triples length_b64_triples)

theorem base64_roundtrip_witness:
  "decode_base64_32 (b64_encode_32 (replicate 32 0xA5)) = Some (replicate 32 0xA5)"
  by (rule base64_roundtrip) simp

subsection \<open>The hexadecimal form\<close>

lemma hex_digit_HEX_all: "n < 16 \<Longrightarrow> hex_digit (HEX ! n) = Some n"
proof -
  have "list_all (\<lambda>n. hex_digit (HEX ! n) = Some n) [0..<16]"
    by (simp add: HEX_def hex_digit_def code_def upt_rec)
  then show "n < 16 \<Longrightarrow> hex_digit (HEX ! n) = Some n" by (simp add: list_all_iff)
qed

lemma unat_and_15: "unat (w AND 0xf :: u8) < 16"
proof -
  have "w AND 0xf \<le> 0xf" by (rule word_and_le1)
  then show ?thesis by (simp add: word_le_nat_alt)
qed

lemma nibbles: "push_bit 4 (drop_bit 4 b AND 0xf) OR (b AND 0xf) = (b :: u8)"
proof -
  have m: "(0xf :: u8) = mask 4" by (simp add: mask_eq_exp_minus_1)
  show ?thesis unfolding m by (rule u8_eqI; simp add: bit_simps)
qed

lemma hex_pairs_encode: "hex_pairs (hex_encode bs) = Some bs"
  proof (induction bs)
  case (Cons b bs)
  then show ?case using nibbles [of b] by (simp add: hex_digit_HEX_all unat_and_15)
qed simp

lemma length_hex_encode [simp, wg_len]: "length (hex_encode bs) = 2 * length bs"
  by (induction bs) auto

text \<open>The letters A to F as small letters.\<close>

definition lower :: "char \<Rightarrow> char" where
  "lower c = (if 65 \<le> code c \<and> code c \<le> 70 then char_of (code c + 32) else c)"

lemma code_char_of [simp]: "code (char_of n) = n mod 256"
  by (simp add: code_def)

lemma code_lt [simp]: "code c < 256"
  by (simp add: code_def)

lemma code_inj [simp]: "code c = code d \<longleftrightarrow> c = d"
  by (simp add: code_def)

lemma code_HEX: "d < 16 \<Longrightarrow> code (HEX ! d) = (if d < 10 then 48 + d else 87 + d)"
proof -
  have "list_all (\<lambda>d. code (HEX ! d) = (if d < 10 then 48 + d else 87 + d)) [0..<16]"
    by (simp add: HEX_def code_def upt_rec)
  then show "d < 16 \<Longrightarrow> ?thesis" by (simp add: list_all_iff)
qed

lemma hex_digit_iff: "hex_digit c = Some d \<longleftrightarrow> d < 16 \<and> lower c = HEX ! d"
proof -
  have l: "lower c = HEX ! d \<longleftrightarrow>
      (if 65 \<le> code c \<and> code c \<le> 70 then code c + 32 else code c) = (if d < 10 then 48 + d else 87 + d)"
    if "d < 16"
  proof -
    have "lower c = HEX ! d \<longleftrightarrow> code (lower c) = code (HEX ! d)" by simp
    then show ?thesis using that by (simp add: lower_def code_HEX)
  qed
  have k: "code CHR ''0'' = 48" "code CHR ''9'' = 57" "code CHR ''a'' = 97" "code CHR ''f'' = 102"
    "code CHR ''A'' = 65" "code CHR ''F'' = 70"
    by (simp_all add: code_def)
  show ?thesis
  proof (cases "d < 16")
    case True
    show ?thesis unfolding l [OF True] hex_digit_def k using True by (auto split: if_splits)
  next
    case False
    then show ?thesis by (auto simp: hex_digit_def k)
  qed
qed

lemma nibble_split:
  fixes b :: u8
  assumes "h < 16" "l < 16"
  shows "push_bit 4 (of_nat h) OR of_nat l = b \<longleftrightarrow> h = unat (drop_bit 4 b AND 0xf) \<and> l = unat (b AND 0xf)"
proof
  have m: "(0xf :: u8) = mask 4" by (simp add: mask_eq_exp_minus_1)
  have t: "take_bit 4 h = h" "take_bit 4 l = l" using assms by (simp_all add: take_bit_nat_eq_self)
  have nb: "\<not> bit h n" "\<not> bit l n" if "4 \<le> n" for n
    using that t by (metis bit_take_bit_iff not_le)+
  assume b: "push_bit 4 (of_nat h) OR of_nat l = b"
  have h: "of_nat h = drop_bit 4 b AND 0xf" unfolding b [symmetric] m
    by (rule u8_eqI) (simp_all add: bit_simps nb)
  have l: "of_nat l = b AND 0xf" unfolding b [symmetric] m
    by (rule u8_eqI) (simp_all add: bit_simps nb)
  have u: "unat (of_nat k :: u8) = k" if "k < 16" for k
    using that by (simp add: unsigned_of_nat take_bit_nat_eq_self)
  show "h = unat (drop_bit 4 b AND 0xf) \<and> l = unat (b AND 0xf)"
    unfolding h [symmetric] l [symmetric] using assms by (simp add: u)
next
  assume "h = unat (drop_bit 4 b AND 0xf) \<and> l = unat (b AND 0xf)"
  then show "push_bit 4 (of_nat h) OR of_nat l = b" using nibbles [of b] by simp
qed

lemma hex_pairs_iff: "even (length s) \<Longrightarrow> hex_pairs s = Some bs \<longleftrightarrow> map lower s = hex_encode bs"
proof (induction s arbitrary: bs rule: hex_pairs.induct)
  case (1 h l rest)
  show ?case
  proof (cases bs)
    case Nil
    then show ?thesis by (auto split: option.splits)
  next
    case (Cons b bs')
    have IH: "hex_pairs rest = Some bs' \<longleftrightarrow> map lower rest = hex_encode bs'"
      if "hex_digit h = Some x" "hex_digit l = Some y" for x y
      using 1 that by simp
    have "hex_pairs (h # l # rest) = Some bs \<longleftrightarrow>
        (\<exists>x y. hex_digit h = Some x \<and> hex_digit l = Some y \<and> push_bit 4 (of_nat x) OR of_nat y = b \<and>
           hex_pairs rest = Some bs')"
      using Cons by (auto split: option.splits)
    also have "\<dots> \<longleftrightarrow> (\<exists>x y. hex_digit h = Some x \<and> hex_digit l = Some y \<and>
           push_bit 4 (of_nat x) OR of_nat y = b \<and> map lower rest = hex_encode bs')"
      using IH by blast
    also have "\<dots> \<longleftrightarrow> lower h = HEX ! unat (drop_bit 4 b AND 0xf) \<and> lower l = HEX ! unat (b AND 0xf) \<and>
        map lower rest = hex_encode bs'"
      unfolding hex_digit_iff using unat_and_15 [of "drop_bit 4 b"] unat_and_15 [of b]
      by (metis nibble_split)
    finally show ?thesis by (simp add: Cons)
  qed
next
  case "2_1"
  show ?case by (cases bs) auto
qed auto

lemma hex_decode_length:
  assumes "hex_decode s n = Some bs"
  shows "length bs = n"
proof -
  have "map lower s = hex_encode bs" "length s = 2 * n"
    using assms by (auto simp: hex_decode_def hex_pairs_iff split: if_splits)
  then have "length (map lower s) = length (hex_encode bs)" by (simp only:)
  with \<open>length s = 2 * n\<close> show ?thesis by simp
qed

text \<open>\<^verbatim>\<open>hex_decode\<close> accepts exactly the strings that \<^verbatim>\<open>hex_encode\<close> prints for \<open>n\<close> bytes, with the
  letters a to f in either case, and yields those bytes; every other string is refused.\<close>

theorem hex_decode_iff:
  "hex_decode s n = Some bs \<longleftrightarrow> length bs = n \<and> map lower s = hex_encode bs"
proof -
  have "length bs = n \<longleftrightarrow> length s = 2 * n" if "map lower s = hex_encode bs"
    using arg_cong [OF that, of length] by auto
  then show ?thesis by (auto simp: hex_decode_def hex_pairs_iff)
qed

subsection \<open>Decimal numbers\<close>

lemma isdigit_digit_char: "d < 10 \<Longrightarrow> isdigit (digit_char d) \<and> code (digit_char d) = 48 + d"
  by (simp add: isdigit_def digit_char_def)

lemma fmt_nat_digits: "list_all isdigit (fmt_nat n) \<and> fmt_nat n \<noteq> []"
  by (induction n rule: fmt_nat.induct) (subst (1 2) fmt_nat.simps, auto simp: isdigit_digit_char)

lemma digits_val_append: "list_all isdigit a \<Longrightarrow> digits_val v (a @ b) = digits_val (digits_val v a) b"
  by (induction a arbitrary: v) auto

lemma digits_val_fmt_nat: "digits_val 0 (fmt_nat n) = int n"
proof (induction n rule: fmt_nat.induct)
  case (1 n)
  show ?case
  proof (cases "n < 10")
    case True
    then show ?thesis by (subst fmt_nat.simps) (simp add: isdigit_digit_char)
  next
    case False
    then show ?thesis
      by (subst fmt_nat.simps) (simp add: digits_val_append fmt_nat_digits 1 isdigit_digit_char, presburger)
  qed
qed

lemma isdigit_not: "isdigit c \<Longrightarrow> \<not> isspace c \<and> c \<noteq> CHR ''-'' \<and> c \<noteq> CHR ''+''"
  by (auto simp: isdigit_def isspace_def code_def)

lemma strtol_fmt_nat: "strtol (fmt_nat n) = min (2 ^ 63 - 1) (int n)"
proof -
  obtain c cs where c: "fmt_nat n = c # cs" "isdigit c"
    using fmt_nat_digits [of n] by (cases "fmt_nat n") auto
  have "digits_val 0 (c # cs) = int n" using digits_val_fmt_nat [of n] c by simp
  then show ?thesis using isdigit_not [OF c(2)] c(2)
    by (simp add: strtol_def c(1) del: digits_val.simps)
qed

lemma strtol_neg_fmt_nat: "strtol (CHR ''-'' # fmt_nat n) = max (- (2 ^ 63)) (- int n)"
proof -
  have "\<not> isspace CHR ''-''" by (simp add: isspace_def code_def)
  then show ?thesis
    by (simp add: strtol_def digits_val_fmt_nat)
qed

lemma atoi_fmt_int:
  assumes "- (2 ^ 31) \<le> i" "i < 2 ^ 31"
  shows "atoi (fmt_int i) = i"
proof -
  have "strtol (fmt_int i) = i"
    using assms by (auto simp: fmt_int_def strtol_fmt_nat strtol_neg_fmt_nat)
  then show ?thesis
    using assms by (simp add: atoi_def signed_take_bit_int_eq_self)
qed

end
