(* ===== verification/ChaCha20.thy ===== *)
theory ChaCha20
  imports Prelude
begin

text \<open>
  The ChaCha20 part of \<^verbatim>\<open>src/wg_crypto_impl.c\<close>: block function, keystream xor,
  Poly1305 key generation and HChaCha20. The C array \<^verbatim>\<open>uint32_t x[16]\<close> is a list of
  sixteen words; the macro \<^verbatim>\<open>QR\<close> updates four of its cells in place.

  The lemmas give the keystream as a function of the byte position, show that the loop of
  \<^verbatim>\<open>chacha20_xor\<close> is its own inverse for any length; the quarter round is checked
  against the vector of RFC 8439.
\<close>

subsection \<open>Quarter round and block function\<close>

definition ROTL32 :: "u32 \<Rightarrow> nat \<Rightarrow> u32" where
  "ROTL32 v n = push_bit n v OR drop_bit (32 - n) v"

text \<open>The four lines of the macro \<^verbatim>\<open>QR(a,b,c,d)\<close>, one function each.\<close>

type_synonym quad = "u32 \<times> u32 \<times> u32 \<times> u32"

fun qr_line1 :: "quad \<Rightarrow> quad" where
  "qr_line1 (a, b, c, d) = (a + b, b, c, ROTL32 (d XOR (a + b)) 16)"

fun qr_line2 :: "quad \<Rightarrow> quad" where
  "qr_line2 (a, b, c, d) = (a, ROTL32 (b XOR (c + d)) 12, c + d, d)"

fun qr_line3 :: "quad \<Rightarrow> quad" where
  "qr_line3 (a, b, c, d) = (a + b, b, c, ROTL32 (d XOR (a + b)) 8)"

fun qr_line4 :: "quad \<Rightarrow> quad" where
  "qr_line4 (a, b, c, d) = (a, ROTL32 (b XOR (c + d)) 7, c + d, d)"

definition QR4 :: "quad \<Rightarrow> quad" where
  "QR4 q = qr_line4 (qr_line3 (qr_line2 (qr_line1 q)))"

fun put4 :: "nat \<Rightarrow> nat \<Rightarrow> nat \<Rightarrow> nat \<Rightarrow> quad \<Rightarrow> u32 list \<Rightarrow> u32 list" where
  "put4 i j k l (a, b, c, d) x = x[i := a, j := b, k := c, l := d]"

definition QR :: "nat \<Rightarrow> nat \<Rightarrow> nat \<Rightarrow> nat \<Rightarrow> u32 list \<Rightarrow> u32 list" where
  "QR i j k l x = put4 i j k l (QR4 (x ! i, x ! j, x ! k, x ! l)) x"

definition double_round :: "u32 list \<Rightarrow> u32 list" where
  "double_round x =
     QR 3 4 9 14 (QR 2 7 8 13 (QR 1 6 11 12 (QR 0 5 10 15
       (QR 3 7 11 15 (QR 2 6 10 14 (QR 1 5 9 13 (QR 0 4 8 12 x)))))))"

fun double_rounds :: "nat \<Rightarrow> u32 list \<Rightarrow> u32 list" where
  "double_rounds 0 x = x"
| "double_rounds (Suc i) x = double_rounds i (double_round x)"

definition rounds :: "u32 list \<Rightarrow> u32 list" where
  "rounds x = double_rounds 10 x"

definition chacha20_block :: "u32 list \<Rightarrow> bytes" where
  "chacha20_block input = concat (map le32enc (map2 (+) (rounds input) input))"

subsection \<open>State set-up and keystream\<close>

definition chacha_sigma :: "u32 list" where
  "chacha_sigma = [0x61707865, 0x3320646e, 0x79622d32, 0x6b206574]"

definition key_words :: "bytes \<Rightarrow> u32 list" where
  "key_words key = map (\<lambda>i. le32dec (drop (4 * i) key)) [0..<8]"

definition nonce_words :: "bytes \<Rightarrow> u32 list" where
  "nonce_words nonce12 = [le32dec nonce12, le32dec (drop 4 nonce12), le32dec (drop 8 nonce12)]"

definition chacha_state :: "bytes \<Rightarrow> bytes \<Rightarrow> u32 \<Rightarrow> u32 list" where
  "chacha_state key nonce12 ctr = chacha_sigma @ key_words key @ [ctr] @ nonce_words nonce12"

function xor_loop :: "u32 list \<Rightarrow> bytes \<Rightarrow> bytes" where
  "xor_loop state buf =
     (if buf = [] then []
      else
        let block = chacha20_block state;
            n = (if length buf < 64 then length buf else 64)
        in xor_bytes (take n buf) (take n block)
             @ xor_loop (state[12 := state ! 12 + 1]) (drop n buf))"
  by pat_completeness auto
termination by (relation "measure (length \<circ> snd)") auto

declare xor_loop.simps [simp del]

definition chacha20_xor :: "bytes \<Rightarrow> bytes \<Rightarrow> bytes \<Rightarrow> u32 \<Rightarrow> bytes" where
  "chacha20_xor buf key nonce12 ctr0 = xor_loop (chacha_state key nonce12 ctr0) buf"

definition poly1305_key_gen :: "bytes \<Rightarrow> bytes \<Rightarrow> bytes" where
  "poly1305_key_gen key nonce12 = take 32 (chacha20_block (chacha_state key nonce12 0))"

definition hchacha20 :: "bytes \<Rightarrow> bytes \<Rightarrow> bytes" where
  "hchacha20 nonce16 key =
     (let x = rounds (chacha_sigma @ key_words key
                @ map (\<lambda>i. le32dec (drop (4 * i) nonce16)) [0..<4])
      in concat (map le32enc [x ! 0, x ! 1, x ! 2, x ! 3, x ! 12, x ! 13, x ! 14, x ! 15]))"

subsection \<open>Lengths\<close>

lemma length_QR [simp]: "length (QR i j k l x) = length x"
  by (cases "QR4 (x ! i, x ! j, x ! k, x ! l)") (simp add: QR_def)

lemma length_rounds [simp]: "length (rounds x) = length x"
proof -
  have "length (double_rounds n x) = length x" for n
    by (induction n arbitrary: x) (simp_all add: double_round_def)
  then show ?thesis by (simp add: rounds_def)
qed

lemma length_concat_le32enc [simp]: "length (concat (map le32enc ws)) = 4 * length ws"
  by (induction ws) auto

lemma length_chacha20_block [simp, wg_len]: "length x = 16 \<Longrightarrow> length (chacha20_block x) = 64"
  unfolding chacha20_block_def by (simp only: length_concat_le32enc) simp

lemma length_chacha_state [simp, wg_len]: "length (chacha_state key nonce12 ctr) = 16"
  by (simp add: chacha_state_def chacha_sigma_def key_words_def nonce_words_def)

lemma chacha_state_next:
  "(chacha_state key nonce12 ctr)[12 := chacha_state key nonce12 ctr ! 12 + 1]
     = chacha_state key nonce12 (ctr + 1)"
  by (simp add: chacha_state_def chacha_sigma_def key_words_def nth_append list_update_append)

lemma length_poly1305_key_gen [simp, wg_len]: "length (poly1305_key_gen key n12) = 32"
  by (simp add: poly1305_key_gen_def)

lemma length_hchacha20 [simp, wg_len]: "length (hchacha20 n16 key) = 32"
  by (simp add: hchacha20_def Let_def)

lemma length_xor_loop [simp]: "length state = 16 \<Longrightarrow> length (xor_loop state buf) = length buf"
proof (induction state buf rule: xor_loop.induct)
  case (1 state buf)
  then show ?case by (subst xor_loop.simps) (auto simp: Let_def)
qed

lemma length_chacha20_xor [simp, wg_len]: "length (chacha20_xor buf key n12 ctr) = length buf"
  by (simp add: chacha20_xor_def)

subsection \<open>The keystream\<close>

text \<open>Byte \<open>i\<close> of the keystream: byte \<open>i mod 64\<close> of the block with counter
  \<open>ctr + i div 64\<close>, the counter wrapping at 32 bits.\<close>

definition keystream :: "bytes \<Rightarrow> bytes \<Rightarrow> u32 \<Rightarrow> nat \<Rightarrow> u8" where
  "keystream key n12 ctr i = chacha20_block (chacha_state key n12 (ctr + of_nat (i div 64))) ! (i mod 64)"

lemma xor_loop_unfold:
  assumes "buf \<noteq> []" "length state = 16"
  shows "xor_loop state buf = xor_bytes (take 64 buf) (chacha20_block state)
           @ xor_loop (state[12 := state ! 12 + 1]) (drop 64 buf)"
proof -
  define n where "n = (if length buf < 64 then length buf else 64)"
  have n: "take n buf = take 64 buf" "drop n buf = drop 64 buf" by (auto simp: n_def)
  have "xor_bytes (take 64 buf) (take n (chacha20_block state))
          = xor_bytes (take 64 buf) (chacha20_block state)"
    by (subst (1 2) xor_bytes_take_right) (auto simp: n_def assms min_def)
  then show ?thesis using assms n by (subst xor_loop.simps) (simp add: Let_def n_def [symmetric])
qed

lemma chacha20_xor_Nil [simp]: "chacha20_xor [] key n12 ctr = []"
  by (simp add: chacha20_xor_def xor_loop.simps)

lemma chacha20_xor_unfold:
  "buf \<noteq> [] \<Longrightarrow> chacha20_xor buf key n12 ctr =
     xor_bytes (take 64 buf) (chacha20_block (chacha_state key n12 ctr))
       @ chacha20_xor (drop 64 buf) key n12 (ctr + 1)"
  by (simp add: chacha20_xor_def xor_loop_unfold chacha_state_next)

lemma chacha20_xor_nth:
  "i < length buf \<Longrightarrow> chacha20_xor buf key n12 ctr ! i = buf ! i XOR keystream key n12 ctr i"
proof (induction "length buf" arbitrary: buf ctr i rule: less_induct)
  case less
  from less.prems have ne: "buf \<noteq> []" by auto
  show ?case
  proof (cases "i < 64")
    case True
    with less.prems ne show ?thesis
      by (simp add: chacha20_xor_unfold nth_append nth_xor_bytes keystream_def)
  next
    case False
    with less.prems have "i - 64 < length (drop 64 buf)" "length (drop 64 buf) < length buf" by auto
    with less.hyps have "chacha20_xor (drop 64 buf) key n12 (ctr + 1) ! (i - 64)
        = drop 64 buf ! (i - 64) XOR keystream key n12 (ctr + 1) (i - 64)" by blast
    moreover have "keystream key n12 (ctr + 1) (i - 64) = keystream key n12 ctr i"
    proof -
      from False have "i div 64 = Suc ((i - 64) div 64)" "i mod 64 = (i - 64) mod 64"
        by (simp_all add: le_div_geq le_mod_geq)
      then show ?thesis by (simp add: keystream_def add.assoc)
    qed
    ultimately show ?thesis
      using False less.prems ne by (simp add: chacha20_xor_unfold nth_append min_def)
  qed
qed

lemma chacha20_xor_conv_map:
  "chacha20_xor buf key n12 ctr = map (\<lambda>i. buf ! i XOR keystream key n12 ctr i) [0..<length buf]"
  by (rule nth_equalityI) (simp_all add: chacha20_xor_nth)

lemma chacha20_xor_twice: "chacha20_xor (chacha20_xor buf key n12 ctr) key n12 ctr = buf"
  by (rule nth_equalityI) (simp_all add: chacha20_xor_nth xor.assoc)

subsection \<open>Known answer (RFC 8439, section 2.1.1)\<close>

lemma QR4_kat: "QR4 (0x11111111, 0x01020304, 0x9b8d6f43, 0x01234567)
   = (0xea2a92f4, 0xcb1cf8ce, 0x4581472e, 0x5881c4bb)"
  by code_simp

subsection \<open>Properties\<close>

text \<open>\<^verbatim>\<open>chacha20_xor\<close> xors byte \<open>i\<close> of the buffer, for a buffer of any
  length, with byte \<open>i mod 64\<close> of the ChaCha20 block whose counter is
  \<open>ctr0 + i div 64\<close> modulo \<open>2^32\<close>; applying it twice gives the buffer back.\<close>

theorem chacha20_xor_correct:
  "chacha20_xor buf key n12 ctr0 =
     map (\<lambda>i. buf ! i XOR chacha20_block (chacha_state key n12 (ctr0 + of_nat (i div 64))) ! (i mod 64))
       [0..<length buf]
   \<and> chacha20_xor (chacha20_xor buf key n12 ctr0) key n12 ctr0 = buf"
  by (simp add: chacha20_xor_twice) (simp add: chacha20_xor_conv_map keystream_def)

end
