(* ===== verification/Poly1305.thy ===== *)
theory Poly1305
  imports Prelude
begin

text \<open>
  The Poly1305 part of \<^verbatim>\<open>src/wg_crypto_impl.c\<close>: the incremental authenticator with five
  26-bit limbs. \<^verbatim>\<open>uint32_t h[5]\<close> and \<^verbatim>\<open>r[5]\<close> are quintuples of words, and
  \<^verbatim>\<open>buf\<close> together with \<^verbatim>\<open>buflen\<close> is the list of the buffered bytes (bytes of the array
  past \<^verbatim>\<open>buflen\<close> are never read). \<^verbatim>\<open>poly1305_block\<close> is composed of its three stretches:
  adding the message block, the products, the carry chain.

  The lemmas show that no product, sum or carry overflows its C type, that a block step is
  \<open>h := (h + m) * r\<close> modulo \<open>2^130 - 5\<close> on the numbers the limbs denote, that the update
  loop depends only on the bytes absorbed and not on how they were split, and that the final
  reduction is exact; together they give the definition of RFC 8439.
\<close>

subsection \<open>State\<close>

type_synonym limbs = "u32 \<times> u32 \<times> u32 \<times> u32 \<times> u32"
type_synonym dlimbs = "u64 \<times> u64 \<times> u64 \<times> u64 \<times> u64"

record poly1305_ctx =
  p_r :: limbs
  p_s :: "u32 \<times> u32 \<times> u32 \<times> u32"
  p_h :: limbs
  p_buf :: bytes

subsection \<open>Operations\<close>

definition poly1305_init :: "bytes \<Rightarrow> poly1305_ctx" where
  "poly1305_init key =
     (let t0 = le32dec key; t1 = le32dec (drop 4 key);
          t2 = le32dec (drop 8 key); t3 = le32dec (drop 12 key)
      in \<lparr>p_r = (t0 AND 0x3ffffff,
                 (drop_bit 26 t0 OR push_bit 6 t1) AND 0x3ffff03,
                 (drop_bit 20 t1 OR push_bit 12 t2) AND 0x3ffc0ff,
                 (drop_bit 14 t2 OR push_bit 18 t3) AND 0x3f03fff,
                 drop_bit 8 t3 AND 0x00fffff),
          p_s = (le32dec (drop 16 key), le32dec (drop 20 key),
                 le32dec (drop 24 key), le32dec (drop 28 key)),
          p_h = (0, 0, 0, 0, 0),
          p_buf = []\<rparr>)"

fun add_message :: "limbs \<Rightarrow> bytes \<Rightarrow> u32 \<Rightarrow> limbs" where
  "add_message (h0, h1, h2, h3, h4) m hibit =
     (let t0 = le32dec m; t1 = le32dec (drop 4 m);
          t2 = le32dec (drop 8 m); t3 = le32dec (drop 12 m)
      in (h0 + (t0 AND 0x3ffffff),
          h1 + ((drop_bit 26 t0 OR push_bit 6 t1) AND 0x3ffffff),
          h2 + ((drop_bit 20 t1 OR push_bit 12 t2) AND 0x3ffffff),
          h3 + ((drop_bit 14 t2 OR push_bit 18 t3) AND 0x3ffffff),
          h4 + (drop_bit 8 t3 OR hibit)))"

fun mul_limbs :: "limbs \<Rightarrow> limbs \<Rightarrow> dlimbs" where
  "mul_limbs (h0, h1, h2, h3, h4) (r0, r1, r2, r3, r4) =
     (let s1 = r1 * 5; s2 = r2 * 5; s3 = r3 * 5; s4 = r4 * 5
      in (ucast h0 * ucast r0 + ucast h1 * ucast s4 + ucast h2 * ucast s3
            + ucast h3 * ucast s2 + ucast h4 * ucast s1,
          ucast h0 * ucast r1 + ucast h1 * ucast r0 + ucast h2 * ucast s4
            + ucast h3 * ucast s3 + ucast h4 * ucast s2,
          ucast h0 * ucast r2 + ucast h1 * ucast r1 + ucast h2 * ucast r0
            + ucast h3 * ucast s4 + ucast h4 * ucast s3,
          ucast h0 * ucast r3 + ucast h1 * ucast r2 + ucast h2 * ucast r1
            + ucast h3 * ucast r0 + ucast h4 * ucast s4,
          ucast h0 * ucast r4 + ucast h1 * ucast r3 + ucast h2 * ucast r2
            + ucast h3 * ucast r1 + ucast h4 * ucast r0))"

definition carry_limbs :: "dlimbs \<Rightarrow> limbs" where
  "carry_limbs v = (case v of (d0, d1, d2, d3, d4) \<Rightarrow>
     (let c = drop_bit 26 d0; h0 = ucast d0 AND 0x3ffffff; d1 = d1 + c;
          c = drop_bit 26 d1; h1 = ucast d1 AND 0x3ffffff; d2 = d2 + c;
          c = drop_bit 26 d2; h2 = ucast d2 AND 0x3ffffff; d3 = d3 + c;
          c = drop_bit 26 d3; h3 = ucast d3 AND 0x3ffffff; d4 = d4 + c;
          c = drop_bit 26 d4; h4 = ucast d4 AND 0x3ffffff;
          h0 = h0 + ucast (c * 5);
          c = drop_bit 26 h0; h0 = h0 AND 0x3ffffff;
          h1 = h1 + c
      in (h0, h1, h2, h3, h4)))"

definition poly1305_block :: "poly1305_ctx \<Rightarrow> bytes \<Rightarrow> u32 \<Rightarrow> poly1305_ctx" where
  "poly1305_block ctx m hibit =
     ctx\<lparr>p_h := carry_limbs (mul_limbs (add_message (p_h ctx) m hibit) (p_r ctx))\<rparr>"

function full_blocks :: "poly1305_ctx \<Rightarrow> bytes \<Rightarrow> poly1305_ctx \<times> bytes" where
  "full_blocks ctx m =
     (if length m \<ge> 16 then full_blocks (poly1305_block ctx (take 16 m) (push_bit 24 1)) (drop 16 m)
      else (ctx, m))"
  by pat_completeness auto
termination by (relation "measure (length \<circ> snd)") auto

declare full_blocks.simps [simp del]

definition poly1305_update :: "poly1305_ctx \<Rightarrow> bytes \<Rightarrow> poly1305_ctx" where
  "poly1305_update ctx m =
     (let buflen = length (p_buf ctx); want = 16 - buflen in
      if buflen > 0 \<and> length m < want then ctx\<lparr>p_buf := p_buf ctx @ m\<rparr>
      else
        let (ctx1, m1) =
              (if buflen > 0
               then (poly1305_block ctx (p_buf ctx @ take want m) (push_bit 24 1)\<lparr>p_buf := []\<rparr>, drop want m)
               else (ctx, m));
            (ctx2, m2) = full_blocks ctx1 m1
        in if length m2 > 0 then ctx2\<lparr>p_buf := m2\<rparr> else ctx2)"

definition flush_partial :: "poly1305_ctx \<Rightarrow> poly1305_ctx" where
  "flush_partial ctx =
     (if length (p_buf ctx) > 0
      then poly1305_block ctx (p_buf ctx @ [1] @ replicate (15 - length (p_buf ctx)) 0) 0\<lparr>p_buf := []\<rparr>
      else ctx)"

definition full_carry :: "limbs \<Rightarrow> limbs" where
  "full_carry v = (case v of (h0, h1, h2, h3, h4) \<Rightarrow>
     (let c = drop_bit 26 h1; h1 = h1 AND 0x3ffffff; h2 = h2 + c;
          c = drop_bit 26 h2; h2 = h2 AND 0x3ffffff; h3 = h3 + c;
          c = drop_bit 26 h3; h3 = h3 AND 0x3ffffff; h4 = h4 + c;
          c = drop_bit 26 h4; h4 = h4 AND 0x3ffffff; h0 = h0 + c * 5;
          c = drop_bit 26 h0; h0 = h0 AND 0x3ffffff; h1 = h1 + c
      in (h0, h1, h2, h3, h4)))"

definition minus_p :: "limbs \<Rightarrow> limbs" where
  "minus_p v = (case v of (h0, h1, h2, h3, h4) \<Rightarrow>
     (let g0 = h0 + 5; c = drop_bit 26 g0; g0 = g0 AND 0x3ffffff;
          g1 = h1 + c; c = drop_bit 26 g1; g1 = g1 AND 0x3ffffff;
          g2 = h2 + c; c = drop_bit 26 g2; g2 = g2 AND 0x3ffffff;
          g3 = h3 + c; c = drop_bit 26 g3; g3 = g3 AND 0x3ffffff;
          g4 = h4 + c - push_bit 26 1
      in (g0, g1, g2, g3, g4)))"

fun select_limbs :: "limbs \<Rightarrow> limbs \<Rightarrow> limbs" where
  "select_limbs (h0, h1, h2, h3, h4) (g0, g1, g2, g3, g4) =
     (let mask = drop_bit 31 g4 - 1
      in ((h0 AND NOT mask) OR (g0 AND mask), (h1 AND NOT mask) OR (g1 AND mask),
          (h2 AND NOT mask) OR (g2 AND mask), (h3 AND NOT mask) OR (g3 AND mask),
          (h4 AND NOT mask) OR (g4 AND mask)))"

fun pack_limbs :: "limbs \<Rightarrow> u32 \<times> u32 \<times> u32 \<times> u32" where
  "pack_limbs (h0, h1, h2, h3, h4) =
     (h0 OR push_bit 26 h1, drop_bit 6 h1 OR push_bit 20 h2,
      drop_bit 12 h2 OR push_bit 14 h3, drop_bit 18 h3 OR push_bit 8 h4)"

fun add_pad :: "u32 \<times> u32 \<times> u32 \<times> u32 \<Rightarrow> u32 \<times> u32 \<times> u32 \<times> u32 \<Rightarrow> bytes" where
  "add_pad (h0, h1, h2, h3) (s0, s1, s2, s3) =
     (let f = (ucast h0 :: u64) + ucast s0; o0 = ucast f; f = drop_bit 32 f;
          f = f + (ucast h1 + ucast s1); o1 = ucast f; f = drop_bit 32 f;
          f = f + (ucast h2 + ucast s2); o2 = ucast f; f = drop_bit 32 f;
          f = f + (ucast h3 + ucast s3); o3 = ucast f
      in le32enc o0 @ le32enc o1 @ le32enc o2 @ le32enc o3)"

definition poly1305_finish :: "poly1305_ctx \<Rightarrow> bytes" where
  "poly1305_finish ctx0 =
     (let ctx = flush_partial ctx0; h = full_carry (p_h ctx)
      in add_pad (pack_limbs (select_limbs h (minus_p h))) (p_s ctx))"

definition poly1305_pad16 :: "poly1305_ctx \<Rightarrow> nat \<Rightarrow> poly1305_ctx" where
  "poly1305_pad16 ctx len =
     (let rem = len mod 16 in if rem \<noteq> 0 then poly1305_update ctx (replicate (16 - rem) 0) else ctx)"

fun ct_diff :: "u8 \<Rightarrow> bytes \<Rightarrow> bytes \<Rightarrow> u8" where
  "ct_diff diff (a # as) (b # bs) = ct_diff (diff OR (a XOR b)) as bs"
| "ct_diff diff as bs = diff"

definition ct_memcmp :: "bytes \<Rightarrow> bytes \<Rightarrow> u8" where
  "ct_memcmp a b = ct_diff 0 a b"

subsection \<open>Specification (RFC 8439, section 2.5)\<close>

definition prime1305 :: nat where
  "prime1305 = 2 ^ 130 - 5"

definition clamp_mask :: nat where
  "clamp_mask = 0x0ffffffc0ffffffc0ffffffc0fffffff"

function spec_blocks :: "nat \<Rightarrow> nat \<Rightarrow> bytes \<Rightarrow> nat \<times> bytes" where
  "spec_blocks r a m =
     (if length m < 16 then (a, m)
      else spec_blocks r ((a + le_num (take 16 m @ [1])) * r mod prime1305) (drop 16 m))"
  by pat_completeness auto
termination by (relation "measure (\<lambda>(r, a, m). length m)") auto

declare spec_blocks.simps [simp del]

definition spec_final :: "nat \<Rightarrow> nat \<times> bytes \<Rightarrow> nat" where
  "spec_final r am =
     (if snd am = [] then fst am else (fst am + le_num (snd am @ [1])) * r mod prime1305)"

definition poly1305_mac :: "bytes \<Rightarrow> bytes \<Rightarrow> nat" where
  "poly1305_mac key m =
     (let r = le_num (take 16 key) AND clamp_mask; s = le_num (take 16 (drop 16 key))
      in (spec_final r (spec_blocks r 0 m) + s) mod 2 ^ 128)"

subsection \<open>The numbers limbs denote\<close>

lemma carry_limbs_eq: "carry_limbs (d0, d1, d2, d3, d4) =
     (let c = drop_bit 26 d0; h0 = ucast d0 AND 0x3ffffff; d1 = d1 + c;
          c = drop_bit 26 d1; h1 = ucast d1 AND 0x3ffffff; d2 = d2 + c;
          c = drop_bit 26 d2; h2 = ucast d2 AND 0x3ffffff; d3 = d3 + c;
          c = drop_bit 26 d3; h3 = ucast d3 AND 0x3ffffff; d4 = d4 + c;
          c = drop_bit 26 d4; h4 = ucast d4 AND 0x3ffffff;
          h0 = h0 + ucast (c * 5);
          c = drop_bit 26 h0; h0 = h0 AND 0x3ffffff;
          h1 = h1 + c
      in (h0, h1, h2, h3, h4))"
  by (simp only: carry_limbs_def prod.case)

lemma full_carry_eq: "full_carry (h0, h1, h2, h3, h4) =
     (let c = drop_bit 26 h1; h1 = h1 AND 0x3ffffff; h2 = h2 + c;
          c = drop_bit 26 h2; h2 = h2 AND 0x3ffffff; h3 = h3 + c;
          c = drop_bit 26 h3; h3 = h3 AND 0x3ffffff; h4 = h4 + c;
          c = drop_bit 26 h4; h4 = h4 AND 0x3ffffff; h0 = h0 + c * 5;
          c = drop_bit 26 h0; h0 = h0 AND 0x3ffffff; h1 = h1 + c
      in (h0, h1, h2, h3, h4))"
  by (simp only: full_carry_def prod.case)

lemma minus_p_eq: "minus_p (h0, h1, h2, h3, h4) =
     (let g0 = h0 + 5; c = drop_bit 26 g0; g0 = g0 AND 0x3ffffff;
          g1 = h1 + c; c = drop_bit 26 g1; g1 = g1 AND 0x3ffffff;
          g2 = h2 + c; c = drop_bit 26 g2; g2 = g2 AND 0x3ffffff;
          g3 = h3 + c; c = drop_bit 26 g3; g3 = g3 AND 0x3ffffff;
          g4 = h4 + c - push_bit 26 1
      in (g0, g1, g2, g3, g4))"
  by (simp only: minus_p_def prod.case)

fun limbs_val :: "limbs \<Rightarrow> nat" where
  "limbs_val (h0, h1, h2, h3, h4) =
     unat h0 + 2 ^ 26 * unat h1 + 2 ^ 52 * unat h2 + 2 ^ 78 * unat h3 + 2 ^ 104 * unat h4"

text \<open>The shape of an accumulator between blocks: all limbs below \<open>2^26\<close> but the second,
  which the last carry may leave slightly above.\<close>

fun acc_ok :: "limbs \<Rightarrow> bool" where
  "acc_ok (h0, h1, h2, h3, h4) \<longleftrightarrow>
     unat h0 < 2 ^ 26 \<and> unat h1 < 2 ^ 26 + 64 \<and> unat h2 < 2 ^ 26 \<and> unat h3 < 2 ^ 26 \<and> unat h4 < 2 ^ 26"

fun limbs_lt :: "nat \<Rightarrow> limbs \<Rightarrow> bool" where
  "limbs_lt b (h0, h1, h2, h3, h4) \<longleftrightarrow>
     unat h0 < b \<and> unat h1 < b \<and> unat h2 < b \<and> unat h3 < b \<and> unat h4 < b"

fun dlimbs_val :: "dlimbs \<Rightarrow> nat" where
  "dlimbs_val (d0, d1, d2, d3, d4) =
     unat d0 + 2 ^ 26 * unat d1 + 2 ^ 52 * unat d2 + 2 ^ 78 * unat d3 + 2 ^ 104 * unat d4"

lemma mod_add_mult_pow:
  "x < 2 ^ k \<Longrightarrow> (x + y * 2 ^ k) mod 2 ^ (k + j) = x + 2 ^ k * (y mod 2 ^ j)" for x y :: nat
  by (simp add: power_add mod_mult2_eq)

text \<open>One 26-bit limb that straddles two 32-bit words.\<close>

lemma unat_splice:
  assumes "k < 26"
  shows "unat ((drop_bit (32 - k) a OR push_bit k b) AND 0x3ffffff :: u32)
           = unat a div 2 ^ (32 - k) + 2 ^ k * (unat b mod 2 ^ (26 - k))"
proof -
  have lt: "unat (drop_bit (32 - k) a) < 2 ^ k"
  proof -
    have "unat a < 2 ^ (32 - k) * 2 ^ k"
      using unat_less_numeral(2) [of a] assms by (simp flip: power_add)
    then show ?thesis by (simp add: unat_drop_bit less_mult_imp_div_less mult.commute)
  qed
  have "unat ((drop_bit (32 - k) a OR push_bit k b) AND 0x3ffffff)
      = (unat (drop_bit (32 - k) a) + unat b * 2 ^ k mod 2 ^ 32) mod 2 ^ 26"
    by (simp add: unat_and_mask26 or_disjoint_range [OF lt])
  also have "\<dots> = (unat (drop_bit (32 - k) a) + unat b * 2 ^ k) mod 2 ^ 26"
  proof -
    have "(2::nat) ^ 26 dvd 2 ^ 32" by (rule le_imp_power_dvd) simp
    then have "unat b * 2 ^ k mod 2 ^ 32 mod 2 ^ 26 = unat b * 2 ^ k mod 2 ^ 26"
      by (rule mod_mod_cancel)
    then show ?thesis by (rule mod_add_cong [OF refl])
  qed
  also have "\<dots> = unat (drop_bit (32 - k) a) + 2 ^ k * (unat b mod 2 ^ (26 - k))"
    using mod_add_mult_pow [OF lt, of "unat b" "26 - k"] assms by simp
  finally show ?thesis by (simp add: unat_drop_bit)
qed

definition words16 :: "bytes \<Rightarrow> u32 \<times> u32 \<times> u32 \<times> u32" where
  "words16 m = (le32dec m, le32dec (drop 4 m), le32dec (drop 8 m), le32dec (drop 12 m))"

lemma le_num_words16:
  assumes "16 \<le> length m" "words16 m = (t0, t1, t2, t3)"
  shows "le_num (take 16 m) = unat t0 + 2 ^ 32 * unat t1 + 2 ^ 64 * unat t2 + 2 ^ 96 * unat t3"
proof -
  have e: "take 16 m = take 4 m @ take 4 (drop 4 m) @ take 4 (drop 8 m) @ take 4 (drop 12 m)"
    using take_add [of 4 4 "drop 8 m"] take_add [of 4 12 m] take_add [of 4 8 "drop 4 m"]
      take_add [of 4 4 "drop 8 m"] by simp
  show ?thesis
    using assms by (auto simp: words16_def e le_num_append unat_le32dec)
qed

text \<open>The five 26-bit digits of a 128-bit number given by its four 32-bit words.\<close>

lemma digits26_aux:
  "m0 + 2 ^ 26 * (q0 + 2 ^ 6 * m1) + 2 ^ 52 * (q1 + 2 ^ 12 * m2)
     + 2 ^ 78 * (q2 + 2 ^ 18 * m3) + 2 ^ 104 * q3
   = (2 ^ 26 * q0 + m0) + 2 ^ 32 * (2 ^ 20 * q1 + m1) + 2 ^ 64 * (2 ^ 14 * q2 + m2)
     + 2 ^ 96 * (2 ^ 8 * q3 + m3)" for m0 m1 m2 m3 q0 q1 q2 q3 :: nat
  by (simp add: algebra_simps)

lemma digits26:
  fixes t0 t1 t2 t3 :: nat
  shows "t0 mod 2 ^ 26 + 2 ^ 26 * (t0 div 2 ^ 26 + 2 ^ 6 * (t1 mod 2 ^ 20))
          + 2 ^ 52 * (t1 div 2 ^ 20 + 2 ^ 12 * (t2 mod 2 ^ 14))
          + 2 ^ 78 * (t2 div 2 ^ 14 + 2 ^ 18 * (t3 mod 2 ^ 8)) + 2 ^ 104 * (t3 div 2 ^ 8)
         = t0 + 2 ^ 32 * t1 + 2 ^ 64 * t2 + 2 ^ 96 * t3"
  by (subst digits26_aux) (simp only: mult_div_mod_eq)

text \<open>Adding a message block adds the number it denotes, with the marker bit at \<open>2^128\<close>.\<close>

lemma unat_or_hibit:
  assumes "unat a < 2 ^ 24" "hibit = 0 \<or> hibit = push_bit 24 1"
  shows "unat (a OR hibit :: u32) = unat a + unat hibit"
  using assms(2) or_disjoint_range [OF assms(1), of 1] by auto

lemma words16_digits:
  assumes "words16 m = (t0, t1, t2, t3)"
  shows "unat (t0 AND 0x3ffffff) = unat t0 mod 2 ^ 26"
    "unat ((drop_bit 26 t0 OR push_bit 6 t1) AND 0x3ffffff) = unat t0 div 2 ^ 26 + 2 ^ 6 * (unat t1 mod 2 ^ 20)"
    "unat ((drop_bit 20 t1 OR push_bit 12 t2) AND 0x3ffffff) = unat t1 div 2 ^ 20 + 2 ^ 12 * (unat t2 mod 2 ^ 14)"
    "unat ((drop_bit 14 t2 OR push_bit 18 t3) AND 0x3ffffff) = unat t2 div 2 ^ 14 + 2 ^ 18 * (unat t3 mod 2 ^ 8)"
    "unat (drop_bit 8 t3) = unat t3 div 2 ^ 8"
    "unat (drop_bit 8 t3) < 2 ^ 24"
proof -
  show "unat (drop_bit 8 t3) < 2 ^ 24"
    using unat_less_numeral(2) [of t3] by (simp add: unat_drop_bit less_mult_imp_div_less)
qed (use unat_splice [of 6 t0 t1] unat_splice [of 12 t1 t2] unat_splice [of 18 t2 t3]
     in \<open>simp_all add: unat_and_mask26 unat_drop_bit\<close>)

lemma unat_and_mask26_lt: "unat (a AND 0x3ffffff :: u32) < 2 ^ 26"
  by (simp add: unat_and_mask26)

lemma unat_hibit: "hibit = 0 \<or> hibit = push_bit 24 1 \<Longrightarrow> unat (hibit :: u32) \<le> 2 ^ 24"
  by (auto simp: unat_push_bit)

lemma add_message_val:
  assumes "acc_ok h" "16 \<le> length m" "hibit = 0 \<or> hibit = push_bit 24 1"
  shows "limbs_val (add_message h m hibit) = limbs_val h + le_num (take 16 m) + 2 ^ 104 * unat hibit"
    "limbs_lt (2 ^ 27 + 64) (add_message h m hibit)"
proof -
  obtain h0 h1 h2 h3 h4 where h: "h = (h0, h1, h2, h3, h4)" by (cases h)
  obtain t0 t1 t2 t3 where t: "words16 m = (t0, t1, t2, t3)" by (cases "words16 m")
  note d = words16_digits [OF t]
  define m0 where "m0 = t0 AND 0x3ffffff"
  define m1 where "m1 = (drop_bit 26 t0 OR push_bit 6 t1) AND 0x3ffffff"
  define m2 where "m2 = (drop_bit 20 t1 OR push_bit 12 t2) AND 0x3ffffff"
  define m3 where "m3 = (drop_bit 14 t2 OR push_bit 18 t3) AND 0x3ffffff"
  define m4 where "m4 = drop_bit 8 t3 OR hibit"
  have e: "add_message (h0, h1, h2, h3, h4) m hibit = (h0 + m0, h1 + m1, h2 + m2, h3 + m3, h4 + m4)"
    using t by (simp add: words16_def Let_def m0_def m1_def m2_def m3_def m4_def)
  have m: "unat m0 < 2 ^ 26" "unat m1 < 2 ^ 26" "unat m2 < 2 ^ 26" "unat m3 < 2 ^ 26"
    unfolding m0_def m1_def m2_def m3_def by (rule unat_and_mask26_lt)+
  have m4: "unat m4 = unat t3 div 2 ^ 8 + unat hibit" "unat m4 \<le> 2 ^ 25"
    using unat_or_hibit [OF d(6) assms(3)] d(5,6) unat_hibit [OF assms(3)] by (simp_all add: m4_def)
  have a: "unat h0 < 2 ^ 26" "unat h1 < 2 ^ 26 + 64" "unat h2 < 2 ^ 26" "unat h3 < 2 ^ 26" "unat h4 < 2 ^ 26"
    using assms(1) by (auto simp: h)
  have s: "unat (h0 + m0) = unat h0 + unat m0" "unat (h1 + m1) = unat h1 + unat m1"
    "unat (h2 + m2) = unat h2 + unat m2" "unat (h3 + m3) = unat h3 + unat m3" "unat (h4 + m4) = unat h4 + unat m4"
    using a m m4(2) by (simp_all add: unat_plus_small)
  have "unat m0 + 2 ^ 26 * unat m1 + 2 ^ 52 * unat m2 + 2 ^ 78 * unat m3 + 2 ^ 104 * (unat t3 div 2 ^ 8)
          = le_num (take 16 m)"
    unfolding m0_def m1_def m2_def m3_def d(1-4) digits26
    by (rule le_num_words16 [OF assms(2) t, symmetric])
  then show "limbs_val (add_message h m hibit) = limbs_val h + le_num (take 16 m) + 2 ^ 104 * unat hibit"
    unfolding h e limbs_val.simps s m4(1) by (simp add: distrib_left)
  show "limbs_lt (2 ^ 27 + 64) (add_message h m hibit)"
    unfolding h e limbs_lt.simps s using a m m4(2) by simp
qed

text \<open>The products: no overflow of 64 bits, and multiplication modulo \<open>2^130 - 5\<close>.\<close>

lemma mul5:
  fixes x1 x2 x3 x4 x5 y1 y2 y3 y4 y5 :: u32
  assumes "unat x1 \<le> A" "unat x2 \<le> A" "unat x3 \<le> A" "unat x4 \<le> A" "unat x5 \<le> A"
    and "unat y1 \<le> B" "unat y2 \<le> B" "unat y3 \<le> B" "unat y4 \<le> B" "unat y5 \<le> B"
    and "5 * (A * B) < 2 ^ 64"
  shows "unat (ucast x1 * ucast y1 + ucast x2 * ucast y2 + ucast x3 * ucast y3
            + ucast x4 * ucast y4 + ucast x5 * ucast y5 :: u64)
          = unat x1 * unat y1 + unat x2 * unat y2 + unat x3 * unat y3 + unat x4 * unat y4 + unat x5 * unat y5"
    "unat x1 * unat y1 + unat x2 * unat y2 + unat x3 * unat y3 + unat x4 * unat y4 + unat x5 * unat y5
       \<le> 5 * (A * B)"
proof -
  have p: "unat x1 * unat y1 \<le> A * B" "unat x2 * unat y2 \<le> A * B" "unat x3 * unat y3 \<le> A * B"
    "unat x4 * unat y4 \<le> A * B" "unat x5 * unat y5 \<le> A * B"
    using assms by (auto intro: mult_le_mono)
  have q: "unat (ucast x * ucast y :: u64) = unat x * unat y" if "unat x * unat y \<le> A * B" for x y :: u32
    using that assms(11) by (subst unat_times_small) simp_all
  show "unat (ucast x1 * ucast y1 + ucast x2 * ucast y2 + ucast x3 * ucast y3
            + ucast x4 * ucast y4 + ucast x5 * ucast y5 :: u64)
          = unat x1 * unat y1 + unat x2 * unat y2 + unat x3 * unat y3 + unat x4 * unat y4 + unat x5 * unat y5"
    using p assms(11) q [OF p(1)] q [OF p(2)] q [OF p(3)] q [OF p(4)] q [OF p(5)]
    by (simp add: unat_plus_small)
  show "unat x1 * unat y1 + unat x2 * unat y2 + unat x3 * unat y3 + unat x4 * unat y4 + unat x5 * unat y5
       \<le> 5 * (A * B)"
    using p by linarith
qed

lemma mul_identity:
  fixes h0 h1 h2 h3 h4 r0 r1 r2 r3 r4 :: nat
  defines "K \<equiv> (h1 * r4 + h2 * r3 + h3 * r2 + h4 * r1) + 2 ^ 26 * (h2 * r4 + h3 * r3 + h4 * r2)
                 + 2 ^ 52 * (h3 * r4 + h4 * r3) + 2 ^ 78 * (h4 * r4)"
  shows "(h0 * r0 + h1 * (r4 * 5) + h2 * (r3 * 5) + h3 * (r2 * 5) + h4 * (r1 * 5))
      + 2 ^ 26 * (h0 * r1 + h1 * r0 + h2 * (r4 * 5) + h3 * (r3 * 5) + h4 * (r2 * 5))
      + 2 ^ 52 * (h0 * r2 + h1 * r1 + h2 * r0 + h3 * (r4 * 5) + h4 * (r3 * 5))
      + 2 ^ 78 * (h0 * r3 + h1 * r2 + h2 * r1 + h3 * r0 + h4 * (r4 * 5))
      + 2 ^ 104 * (h0 * r4 + h1 * r3 + h2 * r2 + h3 * r1 + h4 * r0) + (2 ^ 130 - 5) * K
    = (h0 + 2 ^ 26 * h1 + 2 ^ 52 * h2 + 2 ^ 78 * h3 + 2 ^ 104 * h4)
      * (r0 + 2 ^ 26 * r1 + 2 ^ 52 * r2 + 2 ^ 78 * r3 + 2 ^ 104 * r4)"
  unfolding K_def by (simp add: algebra_simps)

lemma mul_limbs_val:
  assumes "limbs_lt (2 ^ 27 + 64) h" "limbs_lt (2 ^ 26) r"
  shows "dlimbs_val (mul_limbs h r) mod prime1305 = limbs_val h * limbs_val r mod prime1305"
proof -
  obtain h0 h1 h2 h3 h4 where h: "h = (h0, h1, h2, h3, h4)" by (cases h)
  obtain r0 r1 r2 r3 r4 where r: "r = (r0, r1, r2, r3, r4)" by (cases r)
  define A where "A = (2 ^ 27 + 64 :: nat)"
  define B where "B = (2 ^ 26 * 5 :: nat)"
  have a: "unat h0 \<le> A" "unat h1 \<le> A" "unat h2 \<le> A" "unat h3 \<le> A" "unat h4 \<le> A"
    using assms(1) by (auto simp: h A_def)
  have b: "unat r0 \<le> B" "unat r1 \<le> B" "unat r2 \<le> B" "unat r3 \<le> B" "unat r4 \<le> B"
    using assms(2) by (auto simp: r B_def)
  have s: "unat (r1 * 5) = unat r1 * 5" "unat (r2 * 5) = unat r2 * 5" "unat (r3 * 5) = unat r3 * 5"
     "unat (r4 * 5) = unat r4 * 5"
    using assms(2) by (auto simp: r unat_times_small)
  have bs: "unat (r1 * 5) \<le> B" "unat (r2 * 5) \<le> B" "unat (r3 * 5) \<le> B" "unat (r4 * 5) \<le> B"
    using assms(2) by (auto simp: r s B_def)
  have ab: "5 * (A * B) < 2 ^ 64" by (simp add: A_def B_def)
  note m = mul5(1) [OF a _ _ _ _ _ ab]
  have "\<exists>K. dlimbs_val (mul_limbs h r) + prime1305 * K = limbs_val h * limbs_val r"
    unfolding h r mul_limbs.simps dlimbs_val.simps limbs_val.simps Let_def
      m [OF b(1) bs(4) bs(3) bs(2) bs(1)] m [OF b(2) b(1) bs(4) bs(3) bs(2)]
      m [OF b(3) b(2) b(1) bs(4) bs(3)] m [OF b(4) b(3) b(2) b(1) bs(4)]
      m [OF b(5) b(4) b(3) b(2) b(1)] s prime1305_def mul_identity [symmetric]
    by blast
  then show ?thesis by (metis mod_mult_self2)
qed

fun dlimbs_ok :: "dlimbs \<Rightarrow> bool" where
  "dlimbs_ok (d0, d1, d2, d3, d4) \<longleftrightarrow>
     unat d0 < 2 ^ 60 \<and> unat d1 < 2 ^ 60 \<and> unat d2 < 2 ^ 60 \<and> unat d3 < 2 ^ 60 \<and> unat d4 < 5 * 2 ^ 53 + 2 ^ 36"

lemma mul_limbs_ok:
  assumes "limbs_lt (2 ^ 27 + 64) h" "limbs_lt (2 ^ 26) r"
  shows "dlimbs_ok (mul_limbs h r)"
proof -
  obtain h0 h1 h2 h3 h4 where h: "h = (h0, h1, h2, h3, h4)" by (cases h)
  obtain r0 r1 r2 r3 r4 where r: "r = (r0, r1, r2, r3, r4)" by (cases r)
  define A where "A = (2 ^ 27 + 64 :: nat)"
  define B where "B = (2 ^ 26 * 5 :: nat)"
  have a: "unat h0 \<le> A" "unat h1 \<le> A" "unat h2 \<le> A" "unat h3 \<le> A" "unat h4 \<le> A"
    using assms(1) by (auto simp: h A_def)
  have b': "unat r0 \<le> 2 ^ 26" "unat r1 \<le> 2 ^ 26" "unat r2 \<le> 2 ^ 26" "unat r3 \<le> 2 ^ 26" "unat r4 \<le> 2 ^ 26"
    using assms(2) by (auto simp: r)
  then have b: "unat r0 \<le> B" "unat r1 \<le> B" "unat r2 \<le> B" "unat r3 \<le> B" "unat r4 \<le> B"
    by (auto simp: B_def)
  have bs: "unat (r1 * 5) \<le> B" "unat (r2 * 5) \<le> B" "unat (r3 * 5) \<le> B" "unat (r4 * 5) \<le> B"
    using assms(2) by (auto simp: r B_def unat_times_small)
  have ab: "5 * (A * B) < 2 ^ 64" "5 * (A * B) < 2 ^ 60" "5 * (A * 2 ^ 26) < 2 ^ 64" "5 * (A * 2 ^ 26) < 5 * 2 ^ 53 + 2 ^ 36"
    by (simp_all add: A_def B_def)
  note m = mul5 [OF a _ _ _ _ _ ab(1)]
  note m4 = mul5 [OF a b'(5) b'(4) b'(3) b'(2) b'(1) ab(3)]
  show ?thesis
    unfolding h r mul_limbs.simps dlimbs_ok.simps Let_def
      m(1) [OF b(1) bs(4) bs(3) bs(2) bs(1)] m(1) [OF b(2) b(1) bs(4) bs(3) bs(2)]
      m(1) [OF b(3) b(2) b(1) bs(4) bs(3)] m(1) [OF b(4) b(3) b(2) b(1) bs(4)]
      m4(1)
    using m(2) [OF b(1) bs(4) bs(3) bs(2) bs(1)] m(2) [OF b(2) b(1) bs(4) bs(3) bs(2)]
      m(2) [OF b(3) b(2) b(1) bs(4) bs(3)] m(2) [OF b(4) b(3) b(2) b(1) bs(4)]
      m4(2) ab(2,4)
    by (meson le_less_trans)
qed

text \<open>The carry chain keeps the value modulo \<open>2^130 - 5\<close> and restores the accumulator's shape.\<close>

lemma carry_step:
  fixes d e :: u64
  assumes "unat d < 2 ^ 62" "unat e < 2 ^ 62"
  shows "unat (e + drop_bit 26 d) = unat e + unat d div 2 ^ 26"
    "unat (ucast d AND 0x3ffffff :: u32) = unat d mod 2 ^ 26"
proof -
  have "unat d div 2 ^ 26 < 2 ^ 36"
    using assms(1) by (simp add: less_mult_imp_div_less)
  then show "unat (e + drop_bit 26 d) = unat e + unat d div 2 ^ 26"
    using assms(2) by (subst unat_plus_small) (simp_all add: unat_drop_bit)
  have "unat (ucast d AND 0x3ffffff :: u32) = unat d mod 2 ^ 32 mod 2 ^ 26"
    by (simp only: unat_and_mask26 unat_ucast_u64_u32)
  also have "\<dots> = unat d mod 2 ^ 26"
    by (rule mod_mod_cancel) (rule le_imp_power_dvd, simp)
  finally show "unat (ucast d AND 0x3ffffff :: u32) = unat d mod 2 ^ 26" .
qed

lemma carry_value:
  fixes d0 d1 d2 d3 d4 :: nat
  defines "e1 \<equiv> d1 + d0 div 2 ^ 26"
  defines "e2 \<equiv> d2 + e1 div 2 ^ 26"
  defines "e3 \<equiv> d3 + e2 div 2 ^ 26"
  defines "e4 \<equiv> d4 + e3 div 2 ^ 26"
  defines "f0 \<equiv> d0 mod 2 ^ 26 + e4 div 2 ^ 26 * 5"
  shows "f0 mod 2 ^ 26 + 2 ^ 26 * (e1 mod 2 ^ 26 + f0 div 2 ^ 26) + 2 ^ 52 * (e2 mod 2 ^ 26)
           + 2 ^ 78 * (e3 mod 2 ^ 26) + 2 ^ 104 * (e4 mod 2 ^ 26) + prime1305 * (e4 div 2 ^ 26)
         = d0 + 2 ^ 26 * d1 + 2 ^ 52 * d2 + 2 ^ 78 * d3 + 2 ^ 104 * d4"
proof -
  have split: "c * (x mod 2 ^ 26) + (c * 2 ^ 26) * (x div 2 ^ 26) = c * x" for c x :: nat
    by (metis distrib_left mod_mult_div_eq mult.assoc)
  have p: "prime1305 * (e4 div 2 ^ 26) + e4 div 2 ^ 26 * 5 = 2 ^ 130 * (e4 div 2 ^ 26)"
    by (simp add: prime1305_def)
  have f: "f0 mod 2 ^ 26 + 2 ^ 26 * (f0 div 2 ^ 26) = d0 mod 2 ^ 26 + e4 div 2 ^ 26 * 5"
    unfolding f0_def by simp
  have 4: "2 ^ 104 * (e4 mod 2 ^ 26) + 2 ^ 130 * (e4 div 2 ^ 26) = 2 ^ 104 * d4 + 2 ^ 104 * (e3 div 2 ^ 26)"
    using split [of "2 ^ 104" e4] unfolding distrib_left [symmetric] e4_def [symmetric] by (simp flip: power_add)
  have 3: "2 ^ 78 * (e3 mod 2 ^ 26) + 2 ^ 104 * (e3 div 2 ^ 26) = 2 ^ 78 * d3 + 2 ^ 78 * (e2 div 2 ^ 26)"
    using split [of "2 ^ 78" e3] unfolding distrib_left [symmetric] e3_def [symmetric] by (simp flip: power_add)
  have 2: "2 ^ 52 * (e2 mod 2 ^ 26) + 2 ^ 78 * (e2 div 2 ^ 26) = 2 ^ 52 * d2 + 2 ^ 52 * (e1 div 2 ^ 26)"
    using split [of "2 ^ 52" e2] unfolding distrib_left [symmetric] e2_def [symmetric] by (simp flip: power_add)
  have 1: "2 ^ 26 * (e1 mod 2 ^ 26) + 2 ^ 52 * (e1 div 2 ^ 26) = 2 ^ 26 * d1 + 2 ^ 26 * (d0 div 2 ^ 26)"
    using split [of "2 ^ 26" e1] unfolding distrib_left [symmetric] e1_def [symmetric] by (simp flip: power_add)
  have 0: "d0 mod 2 ^ 26 + 2 ^ 26 * (d0 div 2 ^ 26) = d0" by simp
  show ?thesis using p f 4 3 2 1 0 unfolding distrib_left by linarith
qed

lemma carry_limbs_val:
  assumes "dlimbs_ok d"
  shows "limbs_val (carry_limbs d) mod prime1305 = dlimbs_val d mod prime1305" (is ?val)
    and "acc_ok (carry_limbs d)" (is ?ok)
proof -
  obtain d0 d1 d2 d3 d4 where d: "d = (d0, d1, d2, d3, d4)" by (cases d)
  define e1 where "e1 = d1 + drop_bit 26 d0"
  define e2 where "e2 = d2 + drop_bit 26 e1"
  define e3 where "e3 = d3 + drop_bit 26 e2"
  define e4 where "e4 = d4 + drop_bit 26 e3"
  define f0 where "f0 = (ucast d0 AND 0x3ffffff) + (ucast (drop_bit 26 e4 * 5) :: u32)"
  have c: "carry_limbs (d0, d1, d2, d3, d4) = (f0 AND 0x3ffffff, (ucast e1 AND 0x3ffffff) + drop_bit 26 f0,
      ucast e2 AND 0x3ffffff, ucast e3 AND 0x3ffffff, ucast e4 AND 0x3ffffff)"
    by (simp only: carry_limbs_eq Let_def e1_def e2_def e3_def e4_def f0_def)
  have b: "unat d0 < 2 ^ 60" "unat d1 < 2 ^ 60" "unat d2 < 2 ^ 60" "unat d3 < 2 ^ 60"
    "unat d4 < 5 * 2 ^ 53 + 2 ^ 36" using assms by (simp_all add: d)
  have dv: "x < 2 ^ 62 \<Longrightarrow> x div 2 ^ 26 < 2 ^ 36" for x :: nat by (simp add: less_mult_imp_div_less)
  have e1: "unat e1 = unat d1 + unat d0 div 2 ^ 26" "unat e1 < 2 ^ 61"
    using carry_step(1) [of d0 d1] dv [of "unat d0"] b unfolding e1_def by simp_all
  have e2: "unat e2 = unat d2 + unat e1 div 2 ^ 26" "unat e2 < 2 ^ 61"
    using carry_step(1) [of e1 d2] dv [of "unat e1"] b e1(2) unfolding e2_def by simp_all
  have e3: "unat e3 = unat d3 + unat e2 div 2 ^ 26" "unat e3 < 2 ^ 61"
    using carry_step(1) [of e2 d3] dv [of "unat e2"] b e2(2) unfolding e3_def by simp_all
  have e4: "unat e4 = unat d4 + unat e3 div 2 ^ 26" "unat e4 < 5 * 2 ^ 53 + 2 ^ 37"
    using carry_step(1) [of e3 d4] dv [of "unat e3"] b e3(2) unfolding e4_def by simp_all
  have q: "unat e4 div 2 ^ 26 < 5 * 2 ^ 27 + 2 ^ 11"
    using e4(2) by (simp add: less_mult_imp_div_less)
  have q5: "unat (drop_bit 26 e4 * 5) = unat e4 div 2 ^ 26 * 5"
    using q by (subst unat_times_small) (simp_all add: unat_drop_bit)
  have mm: "unat (ucast x AND 0x3ffffff :: u32) = unat x mod 2 ^ 26" if "unat x < 2 ^ 61" for x :: u64
    using that by (intro carry_step(2) [of x 0]) simp_all
  have m0: "unat (ucast d0 AND 0x3ffffff :: u32) = unat d0 mod 2 ^ 26" by (rule mm) (use b(1) in simp)
  have m1: "unat (ucast e1 AND 0x3ffffff :: u32) = unat e1 mod 2 ^ 26" by (rule mm) (rule e1(2))
  have m2: "unat (ucast e2 AND 0x3ffffff :: u32) = unat e2 mod 2 ^ 26" by (rule mm) (rule e2(2))
  have m3: "unat (ucast e3 AND 0x3ffffff :: u32) = unat e3 mod 2 ^ 26" by (rule mm) (rule e3(2))
  have m4: "unat (ucast e4 AND 0x3ffffff :: u32) = unat e4 mod 2 ^ 26" by (rule mm) (use e4(2) in simp)
  have c5: "unat (ucast (drop_bit 26 e4 * 5) :: u32) = unat e4 div 2 ^ 26 * 5"
    using q by (simp add: unat_ucast_u64_u32 q5)
  have f0: "unat f0 = unat d0 mod 2 ^ 26 + unat e4 div 2 ^ 26 * 5"
    unfolding f0_def using q
    by (subst unat_plus_small, unfold m0 c5)
      (simp_all add: add_less_le_mono [where d = "2 ^ 32 - 2 ^ 26", of _ "2 ^ 26", simplified])
  have fd: "unat f0 div 2 ^ 26 < 64"
    using unat_less_numeral(2) [of f0] by (simp add: less_mult_imp_div_less)
  have h1: "unat ((ucast e1 AND 0x3ffffff) + drop_bit 26 f0) = unat e1 mod 2 ^ 26 + unat f0 div 2 ^ 26"
    using fd by (subst unat_plus_small)
      (simp_all only: m1 unat_drop_bit, simp_all add: add_less_le_mono [where d = "64" and b = "2 ^ 26", THEN less_trans])
  have "limbs_val (carry_limbs (d0, d1, d2, d3, d4)) + prime1305 * (unat e4 div 2 ^ 26)
        = dlimbs_val (d0, d1, d2, d3, d4)"
    unfolding c limbs_val.simps dlimbs_val.simps unat_and_mask26 [of f0] h1 m2 m3 m4 f0 e4(1) e3(1) e2(1) e1(1)
    by (rule carry_value)
  then show ?val by (metis d mod_mult_self2)
  show ?ok
    unfolding d c acc_ok.simps unat_and_mask26 [of f0] h1 m2 m3 m4
    using fd by (simp add: add_less_le_mono [where b = "2 ^ 26" and d = 64])
qed

subsection \<open>One block, and the update loop\<close>

definition ctx_ok :: "poly1305_ctx \<Rightarrow> bool" where
  "ctx_ok c \<longleftrightarrow> acc_ok (p_h c) \<and> limbs_lt (2 ^ 26) (p_r c) \<and> length (p_buf c) < 16"

definition ctx_abs :: "poly1305_ctx \<Rightarrow> nat \<times> bytes" where
  "ctx_abs c = (limbs_val (p_h c) mod prime1305, p_buf c)"

lemma poly1305_block_frame [simp]:
  "p_r (poly1305_block c m hb) = p_r c" "p_s (poly1305_block c m hb) = p_s c"
  "p_buf (poly1305_block c m hb) = p_buf c"
  by (simp_all add: poly1305_block_def)

lemma poly1305_block_step:
  assumes "acc_ok (p_h c)" "limbs_lt (2 ^ 26) (p_r c)" "16 \<le> length m" "hb = 0 \<or> hb = push_bit 24 1"
  shows "limbs_val (p_h (poly1305_block c m hb)) mod prime1305
           = (limbs_val (p_h c) mod prime1305 + le_num (take 16 m) + 2 ^ 104 * unat hb)
             * limbs_val (p_r c) mod prime1305"
    and "acc_ok (p_h (poly1305_block c m hb))"
proof -
  note a = add_message_val [OF assms(1,3,4)]
  note c = carry_limbs_val [OF mul_limbs_ok [OF a(2) assms(2)]]
  show "limbs_val (p_h (poly1305_block c m hb)) mod prime1305
           = (limbs_val (p_h c) mod prime1305 + le_num (take 16 m) + 2 ^ 104 * unat hb)
             * limbs_val (p_r c) mod prime1305"
  proof -
    have e: "p_h (poly1305_block c m hb) = carry_limbs (mul_limbs (add_message (p_h c) m hb) (p_r c))"
      by (simp add: poly1305_block_def)
    have "limbs_val (p_h (poly1305_block c m hb)) mod prime1305
        = (limbs_val (p_h c) + (le_num (take 16 m) + 2 ^ 104 * unat hb)) * limbs_val (p_r c) mod prime1305"
      by (simp only: e c(1) mul_limbs_val [OF a(2) assms(2)] a(1) add.assoc)
    also have "\<dots> = (limbs_val (p_h c) mod prime1305 + (le_num (take 16 m) + 2 ^ 104 * unat hb))
        * limbs_val (p_r c) mod prime1305"
      by (metis mod_add_left_eq mod_mult_left_eq)
    finally show ?thesis by (simp only: add.assoc)
  qed
  show "acc_ok (p_h (poly1305_block c m hb))"
    using c(2) by (simp add: poly1305_block_def)
qed

lemma le_num_marked: "length m = 16 \<Longrightarrow> le_num (m @ [1]) = le_num m + 2 ^ 104 * unat (push_bit 24 1 :: u32)"
  by (simp add: le_num_append)

lemma spec_blocks_append:
  "spec_blocks r a (m @ n) = (let (a', b) = spec_blocks r a m in spec_blocks r a' (b @ n))"
proof (induction r a m rule: spec_blocks.induct)
  case (1 r a m)
  show ?case
  proof (cases "length m < 16")
    case True
    then show ?thesis by (subst (2) spec_blocks.simps) simp
  next
    case False
    then have "spec_blocks r a (m @ n)
        = spec_blocks r ((a + le_num (take 16 m @ [1])) * r mod prime1305) (drop 16 m @ n)"
      by (subst spec_blocks.simps) simp
    with 1 [OF False] False show ?thesis by (subst (2) spec_blocks.simps) simp
  qed
qed

lemma spec_blocks_short [simp]: "length m < 16 \<Longrightarrow> spec_blocks r a m = (a, m)"
  by (subst spec_blocks.simps) simp

lemma spec_blocks_16:
  "length m = 16 \<Longrightarrow> spec_blocks r a (m @ n) = spec_blocks r ((a + le_num (m @ [1])) * r mod prime1305) n"
  by (subst spec_blocks.simps) simp

lemma full_block_abs:
  assumes "acc_ok (p_h c)" "limbs_lt (2 ^ 26) (p_r c)" "length m = 16"
  shows "limbs_val (p_h (poly1305_block c m (push_bit 24 1))) mod prime1305
           = (limbs_val (p_h c) mod prime1305 + le_num (m @ [1])) * limbs_val (p_r c) mod prime1305"
  using poly1305_block_step(1) [OF assms(1,2), of m "push_bit 24 1"] le_num_marked [OF assms(3)] assms(3)
  by (simp add: add.assoc)

lemma full_blocks_abs:
  assumes "acc_ok (p_h c)" "limbs_lt (2 ^ 26) (p_r c)" "full_blocks c m = (c', m')"
  shows "acc_ok (p_h c') \<and> p_r c' = p_r c \<and> p_s c' = p_s c \<and> p_buf c' = p_buf c \<and> length m' < 16 \<and>
    (limbs_val (p_h c') mod prime1305, m') = spec_blocks (limbs_val (p_r c)) (limbs_val (p_h c) mod prime1305) m"
  using assms
proof (induction c m rule: full_blocks.induct)
  case (1 c m)
  show ?case
  proof (cases "16 \<le> length m")
    case True
    let ?c = "poly1305_block c (take 16 m) (push_bit 24 1)"
    have "full_blocks ?c (drop 16 m) = (c', m')"
      using 1(4) True by (subst (asm) full_blocks.simps) simp
    note ih = 1(1) [OF True _ _ this]
    have "acc_ok (p_h ?c)" using True by (intro poly1305_block_step(2) 1) simp_all
    note ih = ih [OF this]
    have "spec_blocks (limbs_val (p_r c)) (limbs_val (p_h c) mod prime1305) (take 16 m @ drop 16 m)
        = spec_blocks (limbs_val (p_r c)) (limbs_val (p_h ?c) mod prime1305) (drop 16 m)"
      using True full_block_abs [OF 1(2,3), of "take 16 m"] by (subst spec_blocks_16) simp_all
    then show ?thesis using ih 1(3) by simp
  next
    case False
    then show ?thesis using 1 by (subst (asm) full_blocks.simps) auto
  qed
qed

lemma poly1305_update_abs:
  assumes "ctx_ok c"
  shows "ctx_ok (poly1305_update c m)" "p_r (poly1305_update c m) = p_r c"
    "p_s (poly1305_update c m) = p_s c"
    "ctx_abs (poly1305_update c m) = spec_blocks (limbs_val (p_r c)) (limbs_val (p_h c) mod prime1305) (p_buf c @ m)"
proof -
  have ok: "acc_ok (p_h c)" "limbs_lt (2 ^ 26) (p_r c)" "length (p_buf c) < 16"
    using assms by (simp_all add: ctx_ok_def)
  let ?P = "\<lambda>c'. ctx_ok c' \<and> p_r c' = p_r c \<and> p_s c' = p_s c \<and>
    ctx_abs c' = spec_blocks (limbs_val (p_r c)) (limbs_val (p_h c) mod prime1305) (p_buf c @ m)"
  define want where "want = 16 - length (p_buf c)"
  have "?P (poly1305_update c m)"
  proof (cases "length (p_buf c) > 0 \<and> length m < want")
    case True
    then show ?thesis using ok by (auto simp: poly1305_update_def Let_def want_def ctx_ok_def ctx_abs_def)
  next
    case False
    define c1 m1 where "c1 = (if length (p_buf c) > 0
        then poly1305_block c (p_buf c @ take want m) (push_bit 24 1)\<lparr>p_buf := []\<rparr> else c)"
      and "m1 = (if length (p_buf c) > 0 then drop want m else m)"
    have c1: "acc_ok (p_h c1) \<and> limbs_lt (2 ^ 26) (p_r c1) \<and> p_r c1 = p_r c \<and> p_s c1 = p_s c \<and> p_buf c1 = [] \<and>
        spec_blocks (limbs_val (p_r c)) (limbs_val (p_h c1) mod prime1305) m1
        = spec_blocks (limbs_val (p_r c)) (limbs_val (p_h c) mod prime1305) (p_buf c @ m)"
    proof (cases "length (p_buf c) > 0")
      case True
      then have l: "length (p_buf c @ take want m) = 16" using False ok by (auto simp: want_def)
      have "spec_blocks (limbs_val (p_r c)) (limbs_val (p_h c) mod prime1305) ((p_buf c @ take want m) @ drop want m)
          = spec_blocks (limbs_val (p_r c)) (limbs_val (p_h c1) mod prime1305) (drop want m)"
        using True by (simp only: spec_blocks_16 [OF l] c1_def if_True full_block_abs [OF ok(1,2) l, symmetric])
           simp
      moreover have "acc_ok (p_h (poly1305_block c (p_buf c @ take want m) (push_bit 24 1)))"
        using ok l by (intro poly1305_block_step(2)) simp_all
      ultimately show ?thesis using True ok by (simp add: c1_def m1_def)
    qed (use ok in \<open>auto simp: c1_def m1_def\<close>)
    obtain c2 m2 where f: "full_blocks c1 m1 = (c2, m2)" by fastforce
    have u: "poly1305_update c m = (if length m2 > 0 then c2\<lparr>p_buf := m2\<rparr> else c2)"
      using False f by (auto simp: poly1305_update_def Let_def want_def c1_def m1_def)
    show ?thesis
      unfolding u using full_blocks_abs [OF _ _ f] c1 by (auto simp: ctx_ok_def ctx_abs_def)
  qed
  then show "ctx_ok (poly1305_update c m)" "p_r (poly1305_update c m) = p_r c"
    "p_s (poly1305_update c m) = p_s c"
    "ctx_abs (poly1305_update c m) = spec_blocks (limbs_val (p_r c)) (limbs_val (p_h c) mod prime1305) (p_buf c @ m)"
    by simp_all
qed

lemma poly1305_update_fold:
  assumes "ctx_ok c"
  shows "ctx_ok (fold (\<lambda>m c. poly1305_update c m) ms c) \<and>
    p_r (fold (\<lambda>m c. poly1305_update c m) ms c) = p_r c \<and>
    p_s (fold (\<lambda>m c. poly1305_update c m) ms c) = p_s c \<and>
    ctx_abs (fold (\<lambda>m c. poly1305_update c m) ms c)
       = spec_blocks (limbs_val (p_r c)) (limbs_val (p_h c) mod prime1305) (p_buf c @ concat ms)"
  using assms
proof (induction ms arbitrary: c)
  case Nil
  then show ?case by (simp add: ctx_abs_def ctx_ok_def)
next
  case (Cons m ms)
  note u = poly1305_update_abs [OF Cons.prems, of m]
  have "spec_blocks (limbs_val (p_r c)) (limbs_val (p_h c) mod prime1305) ((p_buf c @ m) @ concat ms)
      = spec_blocks (limbs_val (p_r c)) (limbs_val (p_h (poly1305_update c m)) mod prime1305)
          (p_buf (poly1305_update c m) @ concat ms)"
    unfolding spec_blocks_append [of _ _ "p_buf c @ m"] u(4) [symmetric] by (simp add: ctx_abs_def)
  then show ?case using Cons.IH [OF u(1)] u(2,3) by simp
qed

subsection \<open>Key setup: the clamp\<close>

lemma nat_split26: "(x :: nat) = take_bit 26 x + 2 ^ 26 * drop_bit 26 x"
  by (metis add.commute bits_ident mult.commute push_bit_eq_mult)

lemma and_split26:
  fixes a b c d :: nat
  assumes "a < 2 ^ 26" "c < 2 ^ 26"
  shows "(a + 2 ^ 26 * b) AND (c + 2 ^ 26 * d) = (a AND c) + 2 ^ 26 * (b AND d)"
proof -
  have t: "take_bit 26 (x + 2 ^ 26 * y) = x" "drop_bit 26 (x + 2 ^ 26 * y) = y" if "x < 2 ^ 26" for x y :: nat
    using that by (simp_all add: take_bit_eq_mod drop_bit_eq_div)
  show ?thesis
    by (subst nat_split26) (simp only: take_bit_and drop_bit_and t [OF assms(1)] t [OF assms(2)])
qed

lemma clamp_limbs:
  assumes "a0 < 2 ^ 26" "a1 < 2 ^ 26" "a2 < 2 ^ 26" "a3 < 2 ^ 26"
  shows "(a0 + 2 ^ 26 * a1 + 2 ^ 52 * a2 + 2 ^ 78 * a3 + 2 ^ 104 * a4) AND clamp_mask
    = (a0 AND 0x3ffffff) + 2 ^ 26 * (a1 AND 0x3ffff03) + 2 ^ 52 * (a2 AND 0x3ffc0ff)
      + 2 ^ 78 * (a3 AND 0x3f03fff) + 2 ^ 104 * (a4 AND 0x00fffff)"
proof -
  have v: "a0 + 2 ^ 26 * a1 + 2 ^ 52 * a2 + 2 ^ 78 * a3 + 2 ^ 104 * a4
      = a0 + 2 ^ 26 * (a1 + 2 ^ 26 * (a2 + 2 ^ 26 * (a3 + 2 ^ 26 * a4)))" by simp
  have c: "clamp_mask
      = 0x3ffffff + 2 ^ 26 * (0x3ffff03 + 2 ^ 26 * (0x3ffc0ff + 2 ^ 26 * (0x3f03fff + 2 ^ 26 * 0x00fffff)))"
    by (simp add: clamp_mask_def)
  show ?thesis
    unfolding v c
    by (subst and_split26, use assms in simp, simp)+ (simp add: distrib_left)
qed

lemma and_mask26_absorb:
  "unat m = k \<Longrightarrow> m = m AND 0x3ffffff \<Longrightarrow> unat (x AND m :: u32) = unat (x AND 0x3ffffff) AND k"
  by (metis (no_types, lifting) and.commute and.left_commute unsigned_and_eq)

lemma poly1305_init_r:
  assumes "16 \<le> length key"
  shows "limbs_val (p_r (poly1305_init key)) = le_num (take 16 key) AND clamp_mask"
    and "limbs_lt (2 ^ 26) (p_r (poly1305_init key))"
proof -
  obtain t0 t1 t2 t3 where t: "words16 key = (t0, t1, t2, t3)" by (cases "words16 key")
  define m0 where "m0 = t0 AND 0x3ffffff"
  define m1 where "m1 = (drop_bit 26 t0 OR push_bit 6 t1) AND 0x3ffffff"
  define m2 where "m2 = (drop_bit 20 t1 OR push_bit 12 t2) AND 0x3ffffff"
  define m3 where "m3 = (drop_bit 14 t2 OR push_bit 18 t3) AND 0x3ffffff"
  define m4 where "m4 = drop_bit 8 t3"
  note d = words16_digits [OF t]
  have m: "unat m0 < 2 ^ 26" "unat m1 < 2 ^ 26" "unat m2 < 2 ^ 26" "unat m3 < 2 ^ 26"
    unfolding m0_def m1_def m2_def m3_def by (rule unat_and_mask26_lt)+
  have N: "unat m0 + 2 ^ 26 * unat m1 + 2 ^ 52 * unat m2 + 2 ^ 78 * unat m3 + 2 ^ 104 * unat m4
          = le_num (take 16 key)"
    unfolding m0_def m1_def m2_def m3_def m4_def d(1-5) digits26
    by (rule le_num_words16 [OF assms t, symmetric])
  have r: "p_r (poly1305_init key) = (m0 AND 0x3ffffff, m1 AND 0x3ffff03, m2 AND 0x3ffc0ff, m3 AND 0x3f03fff,
      m4 AND 0x00fffff)"
    using t by (simp add: poly1305_init_def words16_def m0_def m1_def m2_def m3_def m4_def Let_def and.assoc)
  have u: "unat (m0 AND 0x3ffffff) = unat m0 AND 0x3ffffff" "unat (m1 AND 0x3ffff03) = unat m1 AND 0x3ffff03"
    "unat (m2 AND 0x3ffc0ff) = unat m2 AND 0x3ffc0ff" "unat (m3 AND 0x3f03fff) = unat m3 AND 0x3f03fff"
    "unat (m4 AND 0x00fffff) = unat m4 AND 0x00fffff"
    by (simp_all add: unsigned_and_eq)
  show "limbs_val (p_r (poly1305_init key)) = le_num (take 16 key) AND clamp_mask"
    unfolding r limbs_val.simps u clamp_limbs [OF m, symmetric] N ..
  have and_lt: "unat (x AND y) < 2 ^ 26" if "unat y < 2 ^ 26" for x y :: u32
    using word_and_le1 [of x y] that by (simp add: word_le_nat_alt)
  show "limbs_lt (2 ^ 26) (p_r (poly1305_init key))"
    unfolding r limbs_lt.simps by (intro conjI and_lt) simp_all
qed

subsection \<open>The final reduction\<close>

definition mod32 :: "u32 \<times> u32 \<times> u32 \<times> u32 \<Rightarrow> nat" where
  "mod32 w = (case w of (w0, w1, w2, w3) \<Rightarrow>
     unat w0 + 2 ^ 32 * unat w1 + 2 ^ 64 * unat w2 + 2 ^ 96 * unat w3)"

lemma u32_carry:
  fixes h c :: u32
  assumes "unat h + unat c < 2 ^ 32"
  shows "unat (h + c) = unat h + unat c" "unat ((h + c) AND 0x3ffffff) = (unat h + unat c) mod 2 ^ 26"
    "unat (drop_bit 26 (h + c)) = (unat h + unat c) div 2 ^ 26"
  using assms by (simp_all add: unat_and_mask26 unat_plus_small unat_drop_bit)

lemma chain26:
  fixes h0 h1 h2 h3 h4 :: nat
  defines "e2 \<equiv> h2 + h1 div 2 ^ 26"
  defines "e3 \<equiv> h3 + e2 div 2 ^ 26"
  defines "e4 \<equiv> h4 + e3 div 2 ^ 26"
  shows "h1 mod 2 ^ 26 + 2 ^ 26 * (e2 mod 2 ^ 26) + 2 ^ 52 * (e3 mod 2 ^ 26) + 2 ^ 78 * (e4 mod 2 ^ 26)
           + 2 ^ 104 * (e4 div 2 ^ 26) = h1 + 2 ^ 26 * h2 + 2 ^ 52 * h3 + 2 ^ 78 * h4"
proof -
  have split: "c * (x mod 2 ^ 26) + (c * 2 ^ 26) * (x div 2 ^ 26) = c * x" for c x :: nat
    by (metis distrib_left mod_mult_div_eq mult.assoc)
  have 1: "h1 mod 2 ^ 26 + 2 ^ 26 * (h1 div 2 ^ 26) = h1" by simp
  have 2: "2 ^ 26 * (e2 mod 2 ^ 26) + 2 ^ 52 * (e2 div 2 ^ 26) = 2 ^ 26 * h2 + 2 ^ 26 * (h1 div 2 ^ 26)"
    using split [of "2 ^ 26" e2] unfolding distrib_left [symmetric] e2_def [symmetric] by (simp flip: power_add)
  have 3: "2 ^ 52 * (e3 mod 2 ^ 26) + 2 ^ 78 * (e3 div 2 ^ 26) = 2 ^ 52 * h3 + 2 ^ 52 * (e2 div 2 ^ 26)"
    using split [of "2 ^ 52" e3] unfolding distrib_left [symmetric] e3_def [symmetric] by (simp flip: power_add)
  have 4: "2 ^ 78 * (e4 mod 2 ^ 26) + 2 ^ 104 * (e4 div 2 ^ 26) = 2 ^ 78 * h4 + 2 ^ 78 * (e3 div 2 ^ 26)"
    using split [of "2 ^ 78" e4] unfolding distrib_left [symmetric] e4_def [symmetric] by (simp flip: power_add)
  show ?thesis using 1 2 3 4 unfolding distrib_left by linarith
qed

lemma full_carry_val:
  assumes "acc_ok h"
  shows "limbs_lt (2 ^ 26) (full_carry h)"
    and "limbs_val (full_carry h) mod prime1305 = limbs_val h mod prime1305"
proof -
  obtain h0 h1 h2 h3 h4 where h: "h = (h0, h1, h2, h3, h4)" by (cases h)
  have a: "unat h0 < 2 ^ 26" "unat h1 < 2 ^ 26 + 64" "unat h2 < 2 ^ 26" "unat h3 < 2 ^ 26" "unat h4 < 2 ^ 26"
    using assms by (auto simp: h)
  define e2 where "e2 = h2 + drop_bit 26 h1"
  define e3 where "e3 = h3 + drop_bit 26 e2"
  define e4 where "e4 = h4 + drop_bit 26 e3"
  define f0 where "f0 = h0 + drop_bit 26 e4 * 5"
  have c: "full_carry h = (f0 AND 0x3ffffff, (h1 AND 0x3ffffff) + drop_bit 26 f0, e2 AND 0x3ffffff,
      e3 AND 0x3ffffff, e4 AND 0x3ffffff)"
    by (simp only: h full_carry_eq Let_def e2_def e3_def e4_def f0_def)
  have le1: "x div 2 ^ 26 \<le> 1" if "x < 2 * 2 ^ 26" for x :: nat
    using less_mult_imp_div_less [OF that] by simp
  have d1: "unat h1 div 2 ^ 26 \<le> 1" by (rule le1) (use a in simp)
  have e2: "unat e2 = unat h2 + unat h1 div 2 ^ 26" "unat e2 \<le> 2 ^ 26"
    using u32_carry(1) [of h2 "drop_bit 26 h1"] a d1 unfolding e2_def by (simp_all add: unat_drop_bit)
  have d2: "unat e2 div 2 ^ 26 \<le> 1" by (rule le1) (use e2(2) in simp)
  have e3: "unat e3 = unat h3 + unat e2 div 2 ^ 26" "unat e3 \<le> 2 ^ 26"
    using u32_carry(1) [of h3 "drop_bit 26 e2"] a d2 unfolding e3_def by (simp_all add: unat_drop_bit)
  have d3: "unat e3 div 2 ^ 26 \<le> 1" by (rule le1) (use e3(2) in simp)
  have e4: "unat e4 = unat h4 + unat e3 div 2 ^ 26" "unat e4 \<le> 2 ^ 26"
    using u32_carry(1) [of h4 "drop_bit 26 e3"] a d3 unfolding e4_def by (simp_all add: unat_drop_bit)
  have d4: "unat e4 div 2 ^ 26 \<le> 1" by (rule le1) (use e4(2) in simp)
  have t: "unat (drop_bit 26 e4 * 5) = unat e4 div 2 ^ 26 * 5"
    using d4 by (subst unat_times_small) (simp_all add: unat_drop_bit)
  have f0: "unat f0 = unat h0 + unat e4 div 2 ^ 26 * 5" "unat f0 < 2 ^ 26 + 5"
    using u32_carry(1) [of h0 "drop_bit 26 e4 * 5"] a d4 unfolding f0_def by (simp_all add: t)
  have d5: "unat f0 div 2 ^ 26 \<le> 1" by (rule le1) (use f0(2) in simp)
  text \<open>A carry out of limb 4 happens only after one out of limb 1, which leaves limb 1 small.\<close>
  have small: "unat h1 mod 2 ^ 26 + unat f0 div 2 ^ 26 < 2 ^ 26"
  proof (cases "unat h1 < 2 ^ 26")
    case True
    then have "unat e2 < 2 ^ 26" using e2 a by simp
    then have "unat e3 < 2 ^ 26" using e3 a by simp
    then have "unat e4 < 2 ^ 26" using e4 a by simp
    then have "unat f0 < 2 ^ 26" using f0 a by simp
    then show ?thesis using True by simp
  next
    case False
    then have "unat h1 mod 2 ^ 26 = unat h1 - 2 ^ 26" "unat h1 - 2 ^ 26 < 64"
      using a(2) by (simp_all add: le_mod_geq)
    then show ?thesis using d5 by simp
  qed
  have h1: "unat ((h1 AND 0x3ffffff) + drop_bit 26 f0) = unat h1 mod 2 ^ 26 + unat f0 div 2 ^ 26"
    using small by (subst unat_plus_small) (simp_all add: unat_and_mask26 unat_drop_bit)
  show "limbs_lt (2 ^ 26) (full_carry h)"
    unfolding c limbs_lt.simps h1 using small by (simp add: unat_and_mask26)
  have "limbs_val (full_carry h) + prime1305 * (unat e4 div 2 ^ 26) = limbs_val h"
  proof -
    have p: "prime1305 * (unat e4 div 2 ^ 26) + unat e4 div 2 ^ 26 * 5 = 2 ^ 130 * (unat e4 div 2 ^ 26)"
      by (simp add: prime1305_def)
    have f: "unat f0 mod 2 ^ 26 + 2 ^ 26 * (unat f0 div 2 ^ 26) = unat h0 + unat e4 div 2 ^ 26 * 5"
      unfolding f0(1) [symmetric] by simp
    have ch: "2 ^ 26 * (unat h1 mod 2 ^ 26) + 2 ^ 52 * (unat e2 mod 2 ^ 26) + 2 ^ 78 * (unat e3 mod 2 ^ 26)
        + 2 ^ 104 * (unat e4 mod 2 ^ 26) + 2 ^ 130 * (unat e4 div 2 ^ 26)
        = 2 ^ 26 * unat h1 + 2 ^ 52 * unat h2 + 2 ^ 78 * unat h3 + 2 ^ 104 * unat h4"
      using arg_cong [OF chain26 [of "unat h1" "unat h2" "unat h3" "unat h4"], of "\<lambda>x. 2 ^ 26 * x"]
      unfolding e2(1) [symmetric] e3(1) [symmetric] e4(1) [symmetric] distrib_left mult.assoc [symmetric]
        power_add [symmetric] by simp
    show ?thesis
      unfolding c unfolding limbs_val.simps h unat_and_mask26 h1 distrib_left using p f ch by linarith
  qed
  then show "limbs_val (full_carry h) mod prime1305 = limbs_val h mod prime1305"
    by (metis mod_mult_self2)
qed

lemma chain26_full:
  fixes h0 h1 h2 h3 h4 :: nat
  defines "g0 \<equiv> h0 + 5"
  defines "g1 \<equiv> h1 + g0 div 2 ^ 26"
  defines "g2 \<equiv> h2 + g1 div 2 ^ 26"
  defines "g3 \<equiv> h3 + g2 div 2 ^ 26"
  shows "g0 mod 2 ^ 26 + 2 ^ 26 * (g1 mod 2 ^ 26) + 2 ^ 52 * (g2 mod 2 ^ 26) + 2 ^ 78 * (g3 mod 2 ^ 26)
           + 2 ^ 104 * (h4 + g3 div 2 ^ 26) = (h0 + 2 ^ 26 * h1 + 2 ^ 52 * h2 + 2 ^ 78 * h3 + 2 ^ 104 * h4) + 5"
proof -
  have split: "c * (x mod 2 ^ 26) + (c * 2 ^ 26) * (x div 2 ^ 26) = c * x" for c x :: nat
    by (metis distrib_left mod_mult_div_eq mult.assoc)
  have 0: "g0 mod 2 ^ 26 + 2 ^ 26 * (g0 div 2 ^ 26) = h0 + 5" unfolding g0_def by simp
  have 1: "2 ^ 26 * (g1 mod 2 ^ 26) + 2 ^ 52 * (g1 div 2 ^ 26) = 2 ^ 26 * h1 + 2 ^ 26 * (g0 div 2 ^ 26)"
    using split [of "2 ^ 26" g1] unfolding distrib_left [symmetric] g1_def [symmetric] by (simp flip: power_add)
  have 2: "2 ^ 52 * (g2 mod 2 ^ 26) + 2 ^ 78 * (g2 div 2 ^ 26) = 2 ^ 52 * h2 + 2 ^ 52 * (g1 div 2 ^ 26)"
    using split [of "2 ^ 52" g2] unfolding distrib_left [symmetric] g2_def [symmetric] by (simp flip: power_add)
  have 3: "2 ^ 78 * (g3 mod 2 ^ 26) + 2 ^ 104 * (g3 div 2 ^ 26) = 2 ^ 78 * h3 + 2 ^ 78 * (g2 div 2 ^ 26)"
    using split [of "2 ^ 78" g3] unfolding distrib_left [symmetric] g3_def [symmetric] by (simp flip: power_add)
  show ?thesis using 0 1 2 3 unfolding distrib_left by linarith
qed

lemma limbs_lt_val: "limbs_lt (2 ^ 26) h \<Longrightarrow> limbs_val h < 2 ^ 130"
  by (cases h) auto

lemma top_bit_clear: "unat x < 2 ^ 31 \<Longrightarrow> drop_bit 31 (x :: u32) - 1 = - 1"
proof -
  assume "unat x < 2 ^ 31"
  then have "unat (drop_bit 31 x) = 0" by (simp add: unat_drop_bit)
  then show ?thesis by (simp only: unat_eq_zero) simp
qed

lemma top_bit_set: "2 ^ 31 \<le> unat x \<Longrightarrow> drop_bit 31 (x :: u32) - 1 = 0"
proof -
  assume a: "2 ^ 31 \<le> unat x"
  have "unat x div 2 ^ 31 = 1"
    using a unat_less_numeral(2) [of x] by (intro div_nat_eqI) simp_all
  then have "unat (drop_bit 31 x) = unat (1 :: u32)" by (simp add: unat_drop_bit)
  then show ?thesis by (metis diff_self unsigned_word_eqI)
qed

text \<open>Subtracting \<open>p\<close> with a mask chosen from the borrow: the exact remainder.\<close>

lemma select_limbs_val:
  assumes "limbs_lt (2 ^ 26) h"
  shows "limbs_lt (2 ^ 26) (select_limbs h (minus_p h))"
    and "limbs_val (select_limbs h (minus_p h)) = limbs_val h mod prime1305"
proof -
  obtain h0 h1 h2 h3 h4 where h: "h = (h0, h1, h2, h3, h4)" by (cases h)
  have a: "unat h0 < 2 ^ 26" "unat h1 < 2 ^ 26" "unat h2 < 2 ^ 26" "unat h3 < 2 ^ 26" "unat h4 < 2 ^ 26"
    using assms by (auto simp: h)
  define g0 where "g0 = h0 + 5"
  define g1 where "g1 = h1 + drop_bit 26 g0"
  define g2 where "g2 = h2 + drop_bit 26 g1"
  define g3 where "g3 = h3 + drop_bit 26 g2"
  define t where "t = h4 + drop_bit 26 g3"
  define g4 where "g4 = t - push_bit 26 1"
  have m: "minus_p h = (g0 AND 0x3ffffff, g1 AND 0x3ffffff, g2 AND 0x3ffffff, g3 AND 0x3ffffff, g4)"
    by (simp only: h minus_p_eq Let_def g0_def g1_def g2_def g3_def g4_def t_def)
  have le1: "x div 2 ^ 26 \<le> 1" if "x < 2 * 2 ^ 26" for x :: nat
    using less_mult_imp_div_less [OF that] by simp
  have g0: "unat g0 = unat h0 + 5" "unat g0 < 2 * 2 ^ 26"
    using u32_carry(1) [of h0 5] a unfolding g0_def by simp_all
  have g1: "unat g1 = unat h1 + unat g0 div 2 ^ 26" "unat g1 < 2 * 2 ^ 26"
    using u32_carry(1) [of h1 "drop_bit 26 g0"] a le1 [OF g0(2)] unfolding g1_def by (simp_all add: unat_drop_bit)
  have g2: "unat g2 = unat h2 + unat g1 div 2 ^ 26" "unat g2 < 2 * 2 ^ 26"
    using u32_carry(1) [of h2 "drop_bit 26 g1"] a le1 [OF g1(2)] unfolding g2_def by (simp_all add: unat_drop_bit)
  have g3: "unat g3 = unat h3 + unat g2 div 2 ^ 26" "unat g3 < 2 * 2 ^ 26"
    using u32_carry(1) [of h3 "drop_bit 26 g2"] a le1 [OF g2(2)] unfolding g3_def by (simp_all add: unat_drop_bit)
  have t: "unat t = unat h4 + unat g3 div 2 ^ 26" "unat t \<le> 2 ^ 26"
    using u32_carry(1) [of h4 "drop_bit 26 g3"] a le1 [OF g3(2)] unfolding t_def by (simp_all add: unat_drop_bit)
  have p26: "unat (push_bit 26 1 :: u32) = 2 ^ 26" by (simp add: unat_push_bit)
  have sum: "unat g0 mod 2 ^ 26 + 2 ^ 26 * (unat g1 mod 2 ^ 26) + 2 ^ 52 * (unat g2 mod 2 ^ 26)
      + 2 ^ 78 * (unat g3 mod 2 ^ 26) + 2 ^ 104 * unat t = limbs_val h + 5"
    unfolding h limbs_val.simps t(1) g3(1) g2(1) g1(1) g0(1) by (rule chain26_full)
  have lowlt: "unat g0 mod 2 ^ 26 + 2 ^ 26 * (unat g1 mod 2 ^ 26) + 2 ^ 52 * (unat g2 mod 2 ^ 26)
      + 2 ^ 78 * (unat g3 mod 2 ^ 26) < 2 ^ 104"
    using mod_less_divisor [of "2 ^ 26" "unat g0"] mod_less_divisor [of "2 ^ 26" "unat g1"]
      mod_less_divisor [of "2 ^ 26" "unat g2"] mod_less_divisor [of "2 ^ 26" "unat g3"]
    by (simp del: mod_less_divisor)
  have vlt: "limbs_val h < 2 ^ 130" by (rule limbs_lt_val [OF assms])
  have "limbs_lt (2 ^ 26) (select_limbs h (minus_p h)) \<and>
        limbs_val (select_limbs h (minus_p h)) = limbs_val h mod prime1305"
  proof (cases "unat t = 2 ^ 26")
    case True
    then have "t = push_bit 26 1" by (metis p26 unsigned_word_eqI)
    then have g4: "g4 = 0" by (simp add: g4_def)
    have s: "select_limbs h (minus_p h) = (g0 AND 0x3ffffff, g1 AND 0x3ffffff, g2 AND 0x3ffffff, g3 AND 0x3ffffff, 0)"
      unfolding m g4 by (simp add: h)
    have "limbs_val (select_limbs h (minus_p h)) + prime1305 = limbs_val h"
      using sum True unfolding s limbs_val.simps unat_and_mask26 by (simp add: prime1305_def)
    moreover have "limbs_val (select_limbs h (minus_p h)) < prime1305"
      using calculation vlt by (simp add: prime1305_def)
    ultimately have "limbs_val (select_limbs h (minus_p h)) = limbs_val h mod prime1305"
      by (metis mod_add_self2 mod_less)
    then show ?thesis unfolding s limbs_lt.simps by (simp add: unat_and_mask26_lt [simplified])
  next
    case False
    then have lt: "unat t < 2 ^ 26" using t(2) by simp
    have "unat (t - push_bit 26 1) = unat t + 2 ^ 32 - 2 ^ 26"
      using lt p26 by (simp add: unat_sub_if_size word_size)
    then have "2 ^ 31 \<le> unat g4" by (simp add: g4_def)
    then have s: "select_limbs h (minus_p h) = h"
      unfolding m unfolding h by (simp add: top_bit_set)
    have "limbs_val h + 5 < 2 ^ 104 * (unat t + 1)" using sum lowlt by simp
    also have "\<dots> \<le> 2 ^ 104 * 2 ^ 26" using lt by simp
    finally have "limbs_val h < prime1305" by (simp add: prime1305_def)
    then show ?thesis using s assms by simp
  qed
  then show "limbs_lt (2 ^ 26) (select_limbs h (minus_p h))"
    "limbs_val (select_limbs h (minus_p h)) = limbs_val h mod prime1305" by simp_all
qed

text \<open>Packing into 32-bit words drops the bits from \<open>2^128\<close> up; adding \<open>s\<close> wraps there.\<close>

lemma pack_aux':
  fixes m1 m2 m3 m4 q1 q2 q3 q4 :: nat
  assumes "m1 + 2 ^ 6 * q1 = h1" "m2 + 2 ^ 12 * q2 = h2" "m3 + 2 ^ 18 * q3 = h3" "m4 + 2 ^ 24 * q4 = h4"
  shows "(h0 + 2 ^ 26 * m1) + 2 ^ 32 * (q1 + 2 ^ 20 * m2) + 2 ^ 64 * (q2 + 2 ^ 14 * m3)
    + 2 ^ 96 * (q3 + 2 ^ 8 * m4) + 2 ^ 128 * q4 = h0 + 2 ^ 26 * h1 + 2 ^ 52 * h2 + 2 ^ 78 * h3 + 2 ^ 104 * h4"
  unfolding assms [symmetric] by (simp add: distrib_left)

lemmas pack_aux = pack_aux' [OF mod_mult_div_eq mod_mult_div_eq mod_mult_div_eq mod_mult_div_eq]

lemma mod32_bound: "mod32 w < 2 ^ 128"
proof -
  obtain w0 w1 w2 w3 where w: "w = (w0, w1, w2, w3)" by (cases w)
  show ?thesis
    using unat_less_numeral(2) [of w0] unat_less_numeral(2) [of w1] unat_less_numeral(2) [of w2]
      unat_less_numeral(2) [of w3] by (simp add: w mod32_def)
qed

lemma unat_pack_word:
  assumes "unat a < 2 ^ k" "k < 32"
  shows "unat (a OR push_bit k b :: u32) = unat a + 2 ^ k * (unat b mod 2 ^ (32 - k))"
  using or_disjoint_range [OF assms(1), of b] assms(2)
  by (simp add: mod_mult_mult1 [of "2 ^ k" "unat b" "2 ^ (32 - k)", symmetric] mult.commute
      flip: power_add)

lemma pack_limbs_val:
  assumes "limbs_lt (2 ^ 26) h"
  shows "mod32 (pack_limbs h) = limbs_val h mod 2 ^ 128"
proof -
  obtain h0 h1 h2 h3 h4 where h: "h = (h0, h1, h2, h3, h4)" by (cases h)
  have a: "unat h0 < 2 ^ 26" "unat h1 < 2 ^ 26" "unat h2 < 2 ^ 26" "unat h3 < 2 ^ 26" "unat h4 < 2 ^ 26"
    using assms by (auto simp: h)
  have dv: "unat (drop_bit i x) < 2 ^ j" if "unat x < 2 ^ (i + j)" for i j and x :: u32
    using that unfolding unat_drop_bit by (intro less_mult_imp_div_less) (simp add: power_add mult.commute)
  have d: "unat (drop_bit 6 h1) < 2 ^ 20" "unat (drop_bit 12 h2) < 2 ^ 14" "unat (drop_bit 18 h3) < 2 ^ 8"
    using a dv [of h1 6 20] dv [of h2 12 14] dv [of h3 18 8] by simp_all
  have w: "unat (h0 OR push_bit 26 h1) = unat h0 + 2 ^ 26 * (unat h1 mod 2 ^ 6)"
    "unat (drop_bit 6 h1 OR push_bit 20 h2) = unat h1 div 2 ^ 6 + 2 ^ 20 * (unat h2 mod 2 ^ 12)"
    "unat (drop_bit 12 h2 OR push_bit 14 h3) = unat h2 div 2 ^ 12 + 2 ^ 14 * (unat h3 mod 2 ^ 18)"
    "unat (drop_bit 18 h3 OR push_bit 8 h4) = unat h3 div 2 ^ 18 + 2 ^ 8 * (unat h4 mod 2 ^ 24)"
    using unat_pack_word [of h0 26 h1, OF a(1)] unat_pack_word [of "drop_bit 6 h1" 20 h2, OF d(1)]
      unat_pack_word [of "drop_bit 12 h2" 14 h3, OF d(2)] unat_pack_word [of "drop_bit 18 h3" 8 h4, OF d(3)]
    unfolding unat_drop_bit by simp_all
  have e: "mod32 (pack_limbs h) + 2 ^ 128 * (unat h4 div 2 ^ 24) = limbs_val h"
    unfolding h pack_limbs.simps mod32_def limbs_val.simps prod.case w by (rule pack_aux)
  have "mod32 (pack_limbs h) < 2 ^ 128" by (rule mod32_bound)
  then show ?thesis using e by (metis mod_less mod_mult_self2)
qed

lemma pad_aux:
  fixes m0 m1 m2 m3 q0 q1 q2 q3 :: nat
  assumes "m0 + 2 ^ 32 * q0 = f0" "m1 + 2 ^ 32 * q1 = f1" "m2 + 2 ^ 32 * q2 = f2" "m3 + 2 ^ 32 * q3 = f3"
    and "f0 = h0 + s0" "f1 = q0 + h1 + s1" "f2 = q1 + h2 + s2" "f3 = q2 + h3 + s3"
  shows "m0 + 2 ^ 32 * m1 + 2 ^ 64 * m2 + 2 ^ 96 * m3 + 2 ^ 128 * q3
    = h0 + 2 ^ 32 * h1 + 2 ^ 64 * h2 + 2 ^ 96 * h3 + (s0 + 2 ^ 32 * s1 + 2 ^ 64 * s2 + 2 ^ 96 * s3)"
  using assms by simp

lemma add_pad_val: "le_num (add_pad h s) = (mod32 h + mod32 s) mod 2 ^ 128"
proof -
  obtain h0 h1 h2 h3 where h: "h = (h0, h1, h2, h3)" by (cases h)
  obtain s0 s1 s2 s3 where s: "s = (s0, s1, s2, s3)" by (cases s)
  define f0 where "f0 = (ucast h0 :: u64) + ucast s0"
  define f1 where "f1 = drop_bit 32 f0 + (ucast h1 + ucast s1)"
  define f2 where "f2 = drop_bit 32 f1 + (ucast h2 + ucast s2)"
  define f3 where "f3 = drop_bit 32 f2 + (ucast h3 + ucast s3)"
  have o: "add_pad h s = le32enc (ucast f0) @ le32enc (ucast f1) @ le32enc (ucast f2) @ le32enc (ucast f3)"
    unfolding h s add_pad.simps Let_def f0_def f1_def f2_def f3_def by simp
  have st: "unat (drop_bit 32 f + (ucast x + ucast y)) = unat f div 2 ^ 32 + unat x + unat y"
    for f :: u64 and x y :: u32
  proof -
    have "unat f div 2 ^ 32 < 2 ^ 32"
      using unat_less_numeral(3) [of f] by (simp add: less_mult_imp_div_less)
    moreover have "unat (ucast x + ucast y :: u64) = unat x + unat y"
      using unat_less_numeral(2) [of x] unat_less_numeral(2) [of y] by (simp add: unat_plus_small)
    ultimately show ?thesis
      using unat_less_numeral(2) [of x] unat_less_numeral(2) [of y]
      by (subst unat_plus_small) (simp_all add: unat_drop_bit)
  qed
  have f: "unat f0 = unat h0 + unat s0" "unat f1 = unat f0 div 2 ^ 32 + unat h1 + unat s1"
    "unat f2 = unat f1 div 2 ^ 32 + unat h2 + unat s2" "unat f3 = unat f2 div 2 ^ 32 + unat h3 + unat s3"
    using st [of 0 h0 s0] st [of f0 h1 s1] st [of f1 h2 s2] st [of f2 h3 s3]
    unfolding f1_def f2_def f3_def by (simp_all add: f0_def)
  define L where "L = unat f0 mod 2 ^ 32 + 2 ^ 32 * (unat f1 mod 2 ^ 32) + 2 ^ 64 * (unat f2 mod 2 ^ 32)
      + 2 ^ 96 * (unat f3 mod 2 ^ 32)"
  have "le_num (add_pad h s) = L"
    unfolding o le_num_append le_num_le32enc unat_ucast_u64_u32 length_codecs L_def by simp
  moreover have "L + 2 ^ 128 * (unat f3 div 2 ^ 32) = mod32 h + mod32 s"
    unfolding L_def h s mod32_def prod.case
    by (rule pad_aux [OF mod_mult_div_eq mod_mult_div_eq mod_mult_div_eq mod_mult_div_eq f])
  moreover have "L < 2 ^ 128"
    unfolding L_def
    using mod_less_divisor [of "2 ^ 32" "unat f0"] mod_less_divisor [of "2 ^ 32" "unat f1"]
      mod_less_divisor [of "2 ^ 32" "unat f2"] mod_less_divisor [of "2 ^ 32" "unat f3"]
    by (simp del: mod_less_divisor)
  ultimately show ?thesis by (metis mod_less mod_mult_self2)
qed

lemma poly1305_init_ok: "16 \<le> length key \<Longrightarrow> ctx_ok (poly1305_init key)"
  using poly1305_init_r(2) [of key] by (simp add: ctx_ok_def poly1305_init_def Let_def)

lemma poly1305_init_fields:
  "limbs_val (p_h (poly1305_init key)) = 0" "p_buf (poly1305_init key) = []"
  by (simp_all add: poly1305_init_def Let_def)

lemma poly1305_init_s: "length key = 32 \<Longrightarrow> mod32 (p_s (poly1305_init key)) = le_num (take 16 (drop 16 key))"
  using le_num_words16 [of "drop 16 key"]
  by (simp add: poly1305_init_def Let_def mod32_def words16_def)

lemma le_num_padded: "le_num (m @ [1] @ replicate n 0) = le_num (m @ [1])"
  by (simp add: le_num_append)

lemma flush_partial_abs:
  assumes "ctx_ok c"
  shows "acc_ok (p_h (flush_partial c)) \<and> p_s (flush_partial c) = p_s c \<and>
    limbs_val (p_h (flush_partial c)) mod prime1305 = spec_final (limbs_val (p_r c)) (ctx_abs c)"
proof (cases "p_buf c = []")
  case True
  then show ?thesis using assms by (simp add: flush_partial_def spec_final_def ctx_abs_def ctx_ok_def)
next
  case False
  let ?m = "p_buf c @ [1] @ replicate (15 - length (p_buf c)) 0"
  have ok: "acc_ok (p_h c)" "limbs_lt (2 ^ 26) (p_r c)" "length (p_buf c) < 16"
    using assms by (simp_all add: ctx_ok_def)
  then have l: "length ?m = 16" by simp
  then have t: "take 16 ?m = ?m" by (metis order_refl take_all)
  note b = poly1305_block_step [OF ok(1,2), of ?m 0]
  have v: "limbs_val (p_h (poly1305_block c ?m 0)) mod prime1305
      = (limbs_val (p_h c) mod prime1305 + le_num (p_buf c @ [1])) * limbs_val (p_r c) mod prime1305"
    using b(1) unfolding t le_num_padded using l by simp
  have "acc_ok (p_h (poly1305_block c ?m 0))" using b(2) l by simp
  then show ?thesis using False v by (simp add: flush_partial_def spec_final_def ctx_abs_def)
qed

lemma spec_final_lt: "fst am < prime1305 \<Longrightarrow> spec_final r am < prime1305"
  by (simp add: spec_final_def prime1305_def)

lemma poly1305_finish_val:
  assumes "ctx_ok c"
  shows "le_num (poly1305_finish c)
    = (spec_final (limbs_val (p_r c)) (ctx_abs c) + mod32 (p_s c)) mod 2 ^ 128"
proof -
  let ?h = "full_carry (p_h (flush_partial c))"
  note fl = flush_partial_abs [OF assms]
  have ok: "acc_ok (p_h (flush_partial c))" using fl by simp
  note fc = full_carry_val [OF ok]
  note sl = select_limbs_val [OF fc(1)]
  have "mod32 (pack_limbs (select_limbs ?h (minus_p ?h)))
      = spec_final (limbs_val (p_r c)) (ctx_abs c) mod 2 ^ 128"
    unfolding pack_limbs_val [OF sl(1)] sl(2) fc(2) using fl by simp
  then show ?thesis
    using fl by (simp add: poly1305_finish_def Let_def add_pad_val mod_add_left_eq)
qed

lemma length_poly1305_finish [simp, wg_len]: "length (poly1305_finish c) = 16"
proof -
  have "length (add_pad h s) = 16" for h s
    by (cases "(h, s)" rule: add_pad.cases) (simp add: Let_def)
  then show ?thesis by (simp add: poly1305_finish_def Let_def)
qed

lemma le_num_inject: "length xs = length ys \<Longrightarrow> le_num xs = le_num ys \<Longrightarrow> xs = ys"
proof (induction xs ys rule: list_induct2)
  case (Cons x xs y ys)
  have "unat x < 256" "unat y < 256" by (rule unat_less_numeral)+
  then have "unat x = unat y \<and> le_num xs = le_num ys"
    using arg_cong [OF Cons.prems, of "\<lambda>n. n mod 256"] arg_cong [OF Cons.prems, of "\<lambda>n. n div 256"] by simp
  then show ?case using Cons.IH by (simp add: unsigned_word_eqI)
qed simp

text \<open>The streaming facts the users of the authenticator need.\<close>

lemma poly1305_stream:
  assumes "length key = 32"
  shows "le_num (poly1305_finish (fold (\<lambda>m c. poly1305_update c m) ms (poly1305_init key)))
    = poly1305_mac key (concat ms)"
proof -
  have k: "16 \<le> length key" using assms by simp
  note f = poly1305_update_fold [OF poly1305_init_ok [OF k], of ms]
  show ?thesis
    using poly1305_finish_val [OF f [THEN conjunct1]] f
    by (simp add: poly1305_mac_def Let_def poly1305_init_fields poly1305_init_r(1) [OF k] poly1305_init_s [OF assms])
qed

lemma poly1305_stream_split:
  assumes "length key = 32" "concat ms = concat ns"
  shows "poly1305_finish (fold (\<lambda>m c. poly1305_update c m) ms (poly1305_init key))
    = poly1305_finish (fold (\<lambda>m c. poly1305_update c m) ns (poly1305_init key))"
  by (rule le_num_inject) (simp_all add: poly1305_stream assms)

lemma ct_diff_zero:
  "length a = length b \<Longrightarrow> ct_diff d a b = 0 \<longleftrightarrow> d = 0 \<and> a = b"
proof (induction a b arbitrary: d rule: list_induct2)
  case (Cons x xs y ys)
  have "x XOR y = 0 \<longleftrightarrow> x = y" by (metis xor.right_neutral xor.left_commute xor_self_eq)
  then show ?case using Cons.IH by (auto simp: or_eq_0_iff)
qed simp

lemma ct_memcmp_zero: "length a = length b \<Longrightarrow> ct_memcmp a b = 0 \<longleftrightarrow> a = b"
  by (simp add: ct_memcmp_def ct_diff_zero)

subsection \<open>Properties\<close>

text \<open>C26: the authenticator computes the Poly1305 function of RFC 8439 on the bytes absorbed.
  However a message is split over calls of \<open>poly1305_update\<close>, after \<open>poly1305_init\<close> with a
  32-byte key the 16 bytes of \<open>poly1305_finish\<close> are the little-endian form of
  \<open>((c\<^sub>1 r\<^sup>q + \<dots> + c\<^sub>q r) mod (2^130 - 5) + s) mod 2^128\<close> with the clamped \<open>r\<close>; no limb, product or
  carry overflows its C type on the way.\<close>

theorem poly1305_correct:
  assumes "length key = 32"
  shows "length (poly1305_finish (fold (\<lambda>m c. poly1305_update c m) ms (poly1305_init key))) = 16 \<and>
    le_num (poly1305_finish (fold (\<lambda>m c. poly1305_update c m) ms (poly1305_init key)))
      = poly1305_mac key (concat ms)"
  using poly1305_stream [OF assms] by simp

lemma poly1305_correct_witness:
  "le_num (poly1305_finish (fold (\<lambda>m c. poly1305_update c m) [[1, 2], [3]]
      (poly1305_init (replicate 32 7)))) = 70694140064984236135860889957290344256"
proof -
  have "le_num (replicate 16 7) = 0x07070707070707070707070707070707"
    by (simp add: replicate_num)
  then have "poly1305_mac (replicate 32 7) [1, 2, 3] = 70694140064984236135860889957290344256"
    by (simp add: poly1305_mac_def clamp_mask_def spec_final_def prime1305_def)
  then show ?thesis using poly1305_correct [of "replicate 32 7" "[[1, 2], [3]]"] by simp
qed

end
