(* ===== verification/Aead.thy ===== *)
theory Aead
  imports ChaCha20 Poly1305
begin

text \<open>
  The authenticated encryption of \<^verbatim>\<open>src/wg_crypto_impl.c\<close> (buffer functions and
  \<^verbatim>\<open>crypto_dispatch\<close>), its mbuf front end in \<^verbatim>\<open>src/wg_crypto.c\<close>, and the mbuf stub of
  \<^verbatim>\<open>macos_stubs/sys/mbuf.h\<close>.

  A C output buffer is the returned byte string; \<^verbatim>\<open>false\<close> of a decrypt function is
  \<open>None\<close>. An mbuf keeps its payload (\<^verbatim>\<open>m_len\<close> and \<^verbatim>\<open>m_pkthdr.len\<close>, always equal, are its
  length) and the allocated capacity; whether an allocation succeeds is an argument.

  The locale \<open>aead\<close> is the contract the callers use: a ciphertext opens to a message exactly
  when it is the sealed form of that message. It is interpreted on the three buffer interfaces
  of the code.
\<close>

subsection \<open>Buffer functions\<close>

definition aead_mac :: "bytes \<Rightarrow> bytes \<Rightarrow> bytes \<Rightarrow> bytes" where
  "aead_mac poly_key ad ct =
     (let mac = poly1305_init poly_key;
          mac = poly1305_pad16 (poly1305_update mac ad) (length ad);
          mac = poly1305_pad16 (poly1305_update mac ct) (length ct);
          mac = poly1305_update mac (le64enc (of_nat (length ad)));
          mac = poly1305_update mac (le64enc (of_nat (length ct)))
      in poly1305_finish mac)"

definition aead_encrypt_96 :: "bytes \<Rightarrow> bytes \<Rightarrow> bytes \<Rightarrow> bytes \<Rightarrow> bytes" where
  "aead_encrypt_96 src ad nonce12 key =
     (let poly_key = poly1305_key_gen key nonce12;
          dst = chacha20_xor src key nonce12 1
      in dst @ aead_mac poly_key ad dst)"

definition aead_decrypt_96 :: "bytes \<Rightarrow> bytes \<Rightarrow> bytes \<Rightarrow> bytes \<Rightarrow> bytes option" where
  "aead_decrypt_96 src ad nonce12 key =
     (if length src < 16 then None
      else
        let ct_len = length src - 16;
            tag = drop ct_len src;
            expected_tag = aead_mac (poly1305_key_gen key nonce12) ad (take ct_len src)
        in if ct_memcmp expected_tag tag \<noteq> 0 then None
           else Some (chacha20_xor (take ct_len src) key nonce12 1))"

definition nonce8_to_12 :: "bytes \<Rightarrow> bytes" where
  "nonce8_to_12 nonce8 = replicate 4 0 @ take 8 nonce8"

definition nonce_to_12 :: "bytes \<Rightarrow> bytes" where
  "nonce_to_12 nonce = (if length nonce = 12 then nonce else nonce8_to_12 nonce)"

definition chacha20_poly1305_encrypt :: "bytes \<Rightarrow> bytes \<Rightarrow> bytes \<Rightarrow> bytes \<Rightarrow> bytes" where
  "chacha20_poly1305_encrypt src ad nonce key = aead_encrypt_96 src ad (nonce_to_12 nonce) key"

definition chacha20_poly1305_decrypt :: "bytes \<Rightarrow> bytes \<Rightarrow> bytes \<Rightarrow> bytes \<Rightarrow> bytes option" where
  "chacha20_poly1305_decrypt src ad nonce key = aead_decrypt_96 src ad (nonce_to_12 nonce) key"

definition xchacha20_poly1305_encrypt :: "bytes \<Rightarrow> bytes \<Rightarrow> bytes \<Rightarrow> bytes \<Rightarrow> bytes" where
  "xchacha20_poly1305_encrypt src ad nonce key =
     (let subkey = hchacha20 nonce key; n12 = replicate 4 0 @ take 8 (drop 16 nonce)
      in aead_encrypt_96 src ad n12 subkey)"

definition xchacha20_poly1305_decrypt :: "bytes \<Rightarrow> bytes \<Rightarrow> bytes \<Rightarrow> bytes \<Rightarrow> bytes option" where
  "xchacha20_poly1305_decrypt src ad nonce key =
     (let subkey = hchacha20 nonce key; n12 = replicate 4 0 @ take 8 (drop 16 nonce)
      in aead_decrypt_96 src ad n12 subkey)"

subsection \<open>Message buffers (macos_stubs/sys/mbuf.h)\<close>

record mbuf =
  m_data :: bytes
  m_cap :: nat

definition m_devget :: "bool \<Rightarrow> bytes \<Rightarrow> mbuf option" where
  "m_devget alloc_ok data =
     (if alloc_ok then Some \<lparr>m_data = data, m_cap = length data + 64\<rparr> else None)"

definition m_append :: "bool \<Rightarrow> mbuf \<Rightarrow> bytes \<Rightarrow> mbuf option" where
  "m_append alloc_ok m cp =
     (let need = length (m_data m) + length cp in
      if need > m_cap m
      then (if alloc_ok then Some (m\<lparr>m_data := m_data m @ cp, m_cap := need + 64\<rparr>) else None)
      else Some (m\<lparr>m_data := m_data m @ cp\<rparr>))"

definition m_adj :: "mbuf \<Rightarrow> int \<Rightarrow> mbuf" where
  "m_adj m len =
     (if len \<ge> 0
      then (let l = (if len > int (length (m_data m)) then int (length (m_data m)) else len)
            in m\<lparr>m_data := drop (nat l) (m_data m)\<rparr>)
      else (let trim = - len;
                trim = (if trim > int (length (m_data m)) then int (length (m_data m)) else trim)
            in m\<lparr>m_data := take (length (m_data m) - nat trim) (m_data m)\<rparr>))"

subsection \<open>crypto\_dispatch and the mbuf interface\<close>

definition CRYPTO_OP_ENCRYPT :: u32 where "CRYPTO_OP_ENCRYPT = 0x01"
definition CRYPTO_OP_DECRYPT :: u32 where "CRYPTO_OP_DECRYPT = 0x02"
definition CRYPTO_OP_COMPUTE_DIGEST :: u32 where "CRYPTO_OP_COMPUTE_DIGEST = 0x04"
definition CRYPTO_OP_VERIFY_DIGEST :: u32 where "CRYPTO_OP_VERIFY_DIGEST = 0x08"
definition POLY1305_HASH_LEN :: nat where "POLY1305_HASH_LEN = 16"

lemmas crypto_consts = CRYPTO_OP_ENCRYPT_def CRYPTO_OP_DECRYPT_def CRYPTO_OP_COMPUTE_DIGEST_def
  CRYPTO_OP_VERIFY_DIGEST_def POLY1305_HASH_LEN_def

record cryptop =
  crp_op :: u32
  crp_payload_length :: nat
  crp_digest_start :: nat
  crp_iv :: bytes
  crp_cipher_key :: bytes

definition crypto_dispatch :: "cryptop \<Rightarrow> mbuf \<Rightarrow> errno \<times> mbuf" where
  "crypto_dispatch crp m =
     (let pay_len = crp_payload_length crp; tag_off = crp_digest_start crp;
          key = crp_cipher_key crp; n12 = replicate 4 0 @ take 8 (crp_iv crp);
          plain = m_data m
      in if crp_op crp AND CRYPTO_OP_ENCRYPT \<noteq> 0 then
           let ct = chacha20_xor (take pay_len plain) key n12 1;
               tag = aead_mac (poly1305_key_gen key n12) [] ct
           in (OK, m\<lparr>m_data := buf_put tag_off tag (buf_put 0 ct plain)\<rparr>)
         else
           let expected = aead_mac (poly1305_key_gen key n12) [] (take pay_len plain)
           in if ct_memcmp expected (take 16 (drop tag_off plain)) \<noteq> 0 then (EBADMSG, m)
              else (OK, m\<lparr>m_data := buf_put 0 (chacha20_xor (take pay_len plain) key n12 1) plain\<rparr>))"

definition chacha20poly1305_encrypt_mbuf :: "bool \<Rightarrow> mbuf \<Rightarrow> u64 \<Rightarrow> bytes \<Rightarrow> errno \<times> mbuf" where
  "chacha20poly1305_encrypt_mbuf alloc_ok m nonce key =
     (case m_append alloc_ok m (replicate POLY1305_HASH_LEN 0) of
        None \<Rightarrow> (ENOMEM, m)
      | Some m' \<Rightarrow>
          let pay_len = length (m_data m') - POLY1305_HASH_LEN
          in crypto_dispatch \<lparr>crp_op = CRYPTO_OP_ENCRYPT OR CRYPTO_OP_COMPUTE_DIGEST,
               crp_payload_length = pay_len, crp_digest_start = pay_len,
               crp_iv = le64enc nonce @ replicate 8 0, crp_cipher_key = key\<rparr> m')"

definition chacha20poly1305_decrypt_mbuf :: "mbuf \<Rightarrow> u64 \<Rightarrow> bytes \<Rightarrow> errno \<times> mbuf" where
  "chacha20poly1305_decrypt_mbuf m nonce key =
     (if length (m_data m) < POLY1305_HASH_LEN then (EMSGSIZE, m)
      else
        let pay_len = length (m_data m) - POLY1305_HASH_LEN;
            (ret, m') = crypto_dispatch \<lparr>crp_op = CRYPTO_OP_DECRYPT OR CRYPTO_OP_VERIFY_DIGEST,
               crp_payload_length = pay_len, crp_digest_start = pay_len,
               crp_iv = le64enc nonce @ replicate 8 0, crp_cipher_key = key\<rparr> m
        in if ret \<noteq> OK then (ret, m') else (OK, m_adj m' (- int POLY1305_HASH_LEN)))"

subsection \<open>The authenticator input\<close>

definition pad16 :: "nat \<Rightarrow> bytes" where
  "pad16 n = (if n mod 16 = 0 then [] else replicate (16 - n mod 16) 0)"

definition mac_data :: "bytes \<Rightarrow> bytes \<Rightarrow> bytes" where
  "mac_data ad ct = ad @ pad16 (length ad) @ ct @ pad16 (length ct)
     @ le64enc (of_nat (length ad)) @ le64enc (of_nat (length ct))"

lemma poly1305_update_Nil: "length (p_buf c) < 16 \<Longrightarrow> poly1305_update c [] = c"
  by (subst poly1305_update_def) (simp add: full_blocks.simps Let_def)

lemma poly1305_pad16_update:
  "ctx_ok c \<Longrightarrow> poly1305_pad16 c n = poly1305_update c (pad16 n)"
  by (simp add: poly1305_pad16_def pad16_def Let_def ctx_ok_def poly1305_update_Nil)

lemma aead_mac_fold:
  assumes "length k = 32"
  shows "aead_mac k ad ct = poly1305_finish (fold (\<lambda>m c. poly1305_update c m)
    [ad, pad16 (length ad), ct, pad16 (length ct), le64enc (of_nat (length ad)), le64enc (of_nat (length ct))]
    (poly1305_init k))"
proof -
  have "ctx_ok (poly1305_init k)" using poly1305_init_ok assms by simp
  then show ?thesis
    by (simp add: aead_mac_def Let_def poly1305_pad16_update poly1305_update_abs(1))
qed

lemma length_aead_mac [simp, wg_len]: "length (aead_mac k ad ct) = 16"
  by (simp add: aead_mac_def Let_def)

lemma aead_mac_val: "length k = 32 \<Longrightarrow> le_num (aead_mac k ad ct) = poly1305_mac k (mac_data ad ct)"
  by (simp only: aead_mac_fold poly1305_stream) (simp add: mac_data_def)

subsection \<open>The contract of the buffer functions\<close>

locale aead =
  fixes seal :: "bytes \<Rightarrow> bytes \<Rightarrow> bytes \<Rightarrow> bytes \<Rightarrow> bytes"
    and open_box :: "bytes \<Rightarrow> bytes \<Rightarrow> bytes \<Rightarrow> bytes \<Rightarrow> bytes option"
  assumes open_iff: "open_box c ad n k = Some m \<longleftrightarrow> c = seal m ad n k"
    and length_seal: "length (seal m ad n k) = length m + 16"
begin

lemma open_seal: "open_box (seal m ad n k) ad n k = Some m"
  by (simp add: open_iff)

lemma seal_inject: "seal m ad n k = seal m' ad n k \<longleftrightarrow> m = m'"
  by (metis open_seal option.inject)

lemma open_length: "open_box c ad n k = Some m \<Longrightarrow> length c = length m + 16"
  by (simp add: open_iff length_seal)

lemma open_short: "length c < 16 \<Longrightarrow> open_box c ad n k = None"
  by (cases "open_box c ad n k") (auto dest: open_length)

lemma open_None: "open_box c ad n k = None \<longleftrightarrow> (\<forall>m. c \<noteq> seal m ad n k)"
  using open_iff by (metis not_None_eq)

text \<open>Changing a tag, a ciphertext byte or the associated data in a way that is not itself a
  sealing is always detected.\<close>

lemma open_tampered:
  "c \<noteq> seal m ad n k \<Longrightarrow> open_box c ad n k \<noteq> Some m"
  by (simp add: open_iff)

end

lemma aead_96_open_iff:
  "aead_decrypt_96 c ad n12 k = Some m \<longleftrightarrow> c = aead_encrypt_96 m ad n12 k"
proof -
  let ?K = "poly1305_key_gen k n12"
  have dec: "aead_decrypt_96 c ad n12 k = Some m \<longleftrightarrow>
      16 \<le> length c \<and> drop (length c - 16) c = aead_mac ?K ad (take (length c - 16) c) \<and>
      m = chacha20_xor (take (length c - 16) c) k n12 1"
    by (auto simp: aead_decrypt_96_def Let_def ct_memcmp_zero)
  show ?thesis
  proof
    assume "aead_decrypt_96 c ad n12 k = Some m"
    then have d: "drop (length c - 16) c = aead_mac ?K ad (take (length c - 16) c)"
      "chacha20_xor m k n12 1 = take (length c - 16) c"
      using dec by (simp_all add: chacha20_xor_twice)
    then show "c = aead_encrypt_96 m ad n12 k"
      by (simp add: aead_encrypt_96_def Let_def) (metis append_take_drop_id)
  next
    assume "c = aead_encrypt_96 m ad n12 k"
    then show "aead_decrypt_96 c ad n12 k = Some m"
      unfolding dec by (simp add: aead_encrypt_96_def Let_def chacha20_xor_twice)
  qed
qed

lemma length_aead_encrypt_96 [simp, wg_len]: "length (aead_encrypt_96 m ad n12 k) = length m + 16"
  by (simp add: aead_encrypt_96_def Let_def)

interpretation box96: aead aead_encrypt_96 aead_decrypt_96
  by unfold_locales (simp_all add: aead_96_open_iff)

interpretation box: aead chacha20_poly1305_encrypt chacha20_poly1305_decrypt
  by unfold_locales
    (simp_all add: chacha20_poly1305_encrypt_def chacha20_poly1305_decrypt_def box96.open_iff)

interpretation xbox: aead xchacha20_poly1305_encrypt xchacha20_poly1305_decrypt
  by unfold_locales
    (simp_all add: xchacha20_poly1305_encrypt_def xchacha20_poly1305_decrypt_def box96.open_iff Let_def)

subsection \<open>The mbuf path\<close>

lemma crypto_op_flags [simp]:
  "CRYPTO_OP_ENCRYPT \<noteq> 0"
  "(CRYPTO_OP_ENCRYPT OR CRYPTO_OP_COMPUTE_DIGEST) AND CRYPTO_OP_ENCRYPT \<noteq> 0"
  "(CRYPTO_OP_DECRYPT OR CRYPTO_OP_VERIFY_DIGEST) AND CRYPTO_OP_ENCRYPT = 0"
  by (simp_all add: crypto_consts)

lemma nonce_le64_12 [simp]: "nonce_to_12 (le64enc n) = replicate 4 0 @ le64enc n"
  by (simp add: nonce_to_12_def nonce8_to_12_def)

lemma encrypt_mbuf_buffer:
  assumes "alloc_ok \<or> length (m_data m) + 16 \<le> m_cap m"
  shows "\<exists>cap. chacha20poly1305_encrypt_mbuf alloc_ok m nonce key
     = (OK, \<lparr>m_data = chacha20_poly1305_encrypt (m_data m) [] (le64enc nonce) key, m_cap = cap\<rparr>)"
proof -
  have "\<exists>cap. m_append alloc_ok m (replicate POLY1305_HASH_LEN 0)
      = Some \<lparr>m_data = m_data m @ replicate 16 0, m_cap = cap\<rparr>"
    using assms by (cases m) (auto simp: m_append_def POLY1305_HASH_LEN_def Let_def)
  then obtain cap where "m_append alloc_ok m (replicate POLY1305_HASH_LEN 0)
      = Some \<lparr>m_data = m_data m @ replicate 16 0, m_cap = cap\<rparr>" by blast
  then show ?thesis
    by (simp add: chacha20poly1305_encrypt_mbuf_def Let_def crypto_dispatch_def POLY1305_HASH_LEN_def
        chacha20_poly1305_encrypt_def aead_encrypt_96_def buf_put_def)
qed

lemma decrypt_mbuf_buffer:
  "chacha20poly1305_decrypt_mbuf m nonce key =
     (if length (m_data m) < 16 then (EMSGSIZE, m)
      else (case chacha20_poly1305_decrypt (m_data m) [] (le64enc nonce) key of
              None \<Rightarrow> (EBADMSG, m)
            | Some p \<Rightarrow> (OK, m\<lparr>m_data := p\<rparr>)))"
proof (cases "length (m_data m) < 16")
  case True
  then show ?thesis by (simp add: chacha20poly1305_decrypt_mbuf_def POLY1305_HASH_LEN_def)
next
  case False
  define l where "l = length (m_data m) - 16"
  have l: "length (m_data m) = l + 16" "length (take l (m_data m)) = l" using False by (simp_all add: l_def)
  have t: "take 16 (drop l (m_data m)) = drop l (m_data m)" using l by simp
  show ?thesis
    using False l(2)
    by (simp add: chacha20poly1305_decrypt_mbuf_def POLY1305_HASH_LEN_def Let_def crypto_dispatch_def
        chacha20_poly1305_decrypt_def aead_decrypt_96_def t l_def [symmetric] m_adj_def buf_put_def)
qed

subsection \<open>Properties\<close>

text \<open>C28: both public AEAD pairs (\<^verbatim>\<open>chacha20_poly1305_*\<close>, \<^verbatim>\<open>xchacha20_poly1305_*\<close>) decrypt an
  input to \<open>m\<close> exactly when the input is the encryption of \<open>m\<close> under the same key, nonce and
  associated data; every other input, in particular any shorter than a tag, is refused.\<close>

theorem aead_decrypt_iff_encrypt:
  "(chacha20_poly1305_decrypt c ad nonce key = Some m \<longleftrightarrow> c = chacha20_poly1305_encrypt m ad nonce key) \<and>
   (xchacha20_poly1305_decrypt c ad nonce key = Some m \<longleftrightarrow> c = xchacha20_poly1305_encrypt m ad nonce key) \<and>
   length (chacha20_poly1305_encrypt m ad nonce key) = length m + 16 \<and>
   length (xchacha20_poly1305_encrypt m ad nonce key) = length m + 16"
  by (simp add: box.open_iff xbox.open_iff box.length_seal xbox.length_seal)

text \<open>C27: the ciphertext is the RFC 8439 construction: the plaintext xored with the keystream from
  block 1, followed by the Poly1305 value, under the one-time key taken from block 0, of the
  associated data and the ciphertext, each padded to 16 bytes, and their two lengths.\<close>

theorem aead_encrypt_rfc8439:
  "\<exists>ct tag. chacha20_poly1305_encrypt m ad nonce key = ct @ tag \<and>
     ct = chacha20_xor m key (nonce_to_12 nonce) 1 \<and> length tag = 16 \<and>
     le_num tag = poly1305_mac (take 32 (chacha20_block (chacha_state key (nonce_to_12 nonce) 0)))
       (ad @ pad16 (length ad) @ ct @ pad16 (length ct)
         @ le64enc (of_nat (length ad)) @ le64enc (of_nat (length ct)))"
proof -
  have k: "length (poly1305_key_gen key (nonce_to_12 nonce)) = 32" by simp
  have e: "take 32 (chacha20_block (chacha_state key (nonce_to_12 nonce) 0))
      = poly1305_key_gen key (nonce_to_12 nonce)"
    by (simp add: poly1305_key_gen_def)
  show ?thesis
    unfolding e using aead_mac_val [OF k]
    by (simp add: chacha20_poly1305_encrypt_def aead_encrypt_96_def Let_def mac_data_def)
qed

text \<open>C29: the in-place mbuf path used for transport data produces and accepts exactly the bytes of
  the buffer path with empty associated data and the counter as nonce. Encryption succeeds when
  the mbuf has room for the tag (or can grow), decryption refuses an mbuf shorter than a tag with
  \<open>EMSGSIZE\<close> and a wrong tag with \<open>EBADMSG\<close>, both times leaving the mbuf as it was.\<close>

theorem mbuf_path_is_buffer_path:
  "(if alloc_ok \<or> length (m_data m) + 16 \<le> m_cap m
    then fst (chacha20poly1305_encrypt_mbuf alloc_ok m nonce key) = OK \<and>
      m_data (snd (chacha20poly1305_encrypt_mbuf alloc_ok m nonce key))
        = chacha20_poly1305_encrypt (m_data m) [] (le64enc nonce) key
    else chacha20poly1305_encrypt_mbuf alloc_ok m nonce key = (ENOMEM, m)) \<and>
   chacha20poly1305_decrypt_mbuf m nonce key =
     (if length (m_data m) < 16 then (EMSGSIZE, m)
      else (case chacha20_poly1305_decrypt (m_data m) [] (le64enc nonce) key of
              None \<Rightarrow> (EBADMSG, m)
            | Some p \<Rightarrow> (OK, m\<lparr>m_data := p\<rparr>)))"
proof (intro conjI decrypt_mbuf_buffer)
  show "if alloc_ok \<or> length (m_data m) + 16 \<le> m_cap m
    then fst (chacha20poly1305_encrypt_mbuf alloc_ok m nonce key) = OK \<and>
      m_data (snd (chacha20poly1305_encrypt_mbuf alloc_ok m nonce key))
        = chacha20_poly1305_encrypt (m_data m) [] (le64enc nonce) key
    else chacha20poly1305_encrypt_mbuf alloc_ok m nonce key = (ENOMEM, m)"
    using encrypt_mbuf_buffer [of alloc_ok m nonce key]
    by (auto simp: chacha20poly1305_encrypt_mbuf_def m_append_def POLY1305_HASH_LEN_def Let_def)
qed

end
