(* ===== verification/Blake2s.thy ===== *)
theory Blake2s
  imports Prelude
begin

text \<open>
  The BLAKE2s hash of \<^verbatim>\<open>src/wg_crypto.c\<close> (the part under \<^verbatim>\<open>COMPAT_NEED_BLAKE2S\<close>) and the
  one-shot wrapper \<^verbatim>\<open>blake2s\<close> of \<^verbatim>\<open>src/crypto.h\<close>. In \<^verbatim>\<open>struct blake2s_state\<close> the
  array \<^verbatim>\<open>buf\<close> with \<^verbatim>\<open>buflen\<close> is the list of the buffered bytes, \<^verbatim>\<open>h\<close> a list of
  eight words, \<^verbatim>\<open>t\<close> and \<^verbatim>\<open>f\<close> pairs; \<^verbatim>\<open>v\<close> and \<^verbatim>\<open>m\<close> are lists of sixteen words.
  The host is little-endian, as on every platform the program is built for.

  The specification is the hash as RFC 7693 states it, on the whole message with one 64-bit
  byte counter; the lemmas reduce any sequence of updates to it.
\<close>

subsection \<open>State and constants\<close>

definition BLAKE2S_BLOCK_SIZE :: nat where "BLAKE2S_BLOCK_SIZE = 64"

record blake2s_state =
  b_h :: "u32 list"
  b_t :: "u32 \<times> u32"
  b_f :: "u32 \<times> u32"
  b_buf :: bytes
  b_outlen :: nat

definition ror32 :: "u32 \<Rightarrow> nat \<Rightarrow> u32" where
  "ror32 w shift = drop_bit shift w OR push_bit (32 - shift) w"

definition blake2s_iv :: "u32 list" where
  "blake2s_iv = [0x6A09E667, 0xBB67AE85, 0x3C6EF372, 0xA54FF53A,
                 0x510E527F, 0x9B05688C, 0x1F83D9AB, 0x5BE0CD19]"

definition blake2s_sigma :: "nat list list" where
  "blake2s_sigma =
    [[0, 1, 2, 3, 4, 5, 6, 7, 8, 9, 10, 11, 12, 13, 14, 15],
     [14, 10, 4, 8, 9, 15, 13, 6, 1, 12, 0, 2, 11, 7, 5, 3],
     [11, 8, 12, 0, 5, 2, 15, 13, 10, 14, 3, 6, 7, 1, 9, 4],
     [7, 9, 3, 1, 13, 12, 11, 14, 2, 6, 5, 10, 4, 0, 15, 8],
     [9, 0, 5, 7, 2, 4, 10, 15, 14, 1, 11, 12, 6, 8, 3, 13],
     [2, 12, 6, 10, 0, 11, 8, 3, 4, 13, 7, 5, 15, 14, 1, 9],
     [12, 5, 1, 15, 14, 13, 4, 10, 0, 7, 6, 3, 9, 2, 8, 11],
     [13, 11, 7, 14, 12, 1, 3, 9, 5, 0, 15, 4, 8, 6, 2, 10],
     [6, 15, 14, 9, 11, 3, 0, 8, 12, 2, 13, 7, 1, 4, 10, 5],
     [10, 2, 8, 4, 7, 6, 1, 5, 15, 11, 9, 14, 3, 12, 13, 0]]"

subsection \<open>Operations\<close>

definition blake2s_set_lastblock :: "blake2s_state \<Rightarrow> blake2s_state" where
  "blake2s_set_lastblock st = st\<lparr>b_f := (- 1, snd (b_f st))\<rparr>"

fun increment_counter :: "u32 \<times> u32 \<Rightarrow> u32 \<Rightarrow> u32 \<times> u32" where
  "increment_counter (t0, t1) inc = (t0 + inc, t1 + (if t0 + inc < inc then 1 else 0))"

definition blake2s_increment_counter :: "blake2s_state \<Rightarrow> u32 \<Rightarrow> blake2s_state" where
  "blake2s_increment_counter st inc = st\<lparr>b_t := increment_counter (b_t st) inc\<rparr>"

definition blake2s_init_param :: "u32 \<Rightarrow> blake2s_state" where
  "blake2s_init_param param =
     \<lparr>b_h = blake2s_iv[0 := blake2s_iv ! 0 XOR param], b_t = (0, 0), b_f = (0, 0),
      b_buf = [], b_outlen = 0\<rparr>"

text \<open>The macro \<^verbatim>\<open>G\<close> on the cells \<open>a\<close>, \<open>b\<close>, \<open>c\<close>, \<open>d\<close> of \<open>v\<close>.\<close>

fun G_half :: "nat \<Rightarrow> nat \<Rightarrow> u32 \<Rightarrow> u32 \<times> u32 \<times> u32 \<times> u32 \<Rightarrow> u32 \<times> u32 \<times> u32 \<times> u32" where
  "G_half r1 r2 x (a, b, c, d) =
     (let a = a + (b + x); d = ror32 (d XOR a) r1; c = c + d; b = ror32 (b XOR c) r2
      in (a, b, c, d))"

definition G :: "u32 list \<Rightarrow> nat \<Rightarrow> nat \<Rightarrow> nat \<Rightarrow> nat \<Rightarrow> nat \<Rightarrow> nat \<Rightarrow> u32 list \<Rightarrow> u32 list" where
  "G m r i a b c d v =
     (case G_half 8 7 (m ! (blake2s_sigma ! r ! (2 * i + 1)))
             (G_half 16 12 (m ! (blake2s_sigma ! r ! (2 * i))) (v ! a, v ! b, v ! c, v ! d)) of
        (a', b', c', d') \<Rightarrow> v[a := a', b := b', c := c', d := d'])"

definition ROUND :: "u32 list \<Rightarrow> nat \<Rightarrow> u32 list \<Rightarrow> u32 list" where
  "ROUND m r v =
     G m r 7 3 4 9 14 (G m r 6 2 7 8 13 (G m r 5 1 6 11 12 (G m r 4 0 5 10 15
       (G m r 3 3 7 11 15 (G m r 2 2 6 10 14 (G m r 1 1 5 9 13 (G m r 0 0 4 8 12 v)))))))"

fun blake_rounds :: "u32 list \<Rightarrow> nat list \<Rightarrow> u32 list \<Rightarrow> u32 list" where
  "blake_rounds m [] v = v"
| "blake_rounds m (r # rs) v = blake_rounds m rs (ROUND m r v)"

definition compress_block :: "blake2s_state \<Rightarrow> bytes \<Rightarrow> u32 \<Rightarrow> blake2s_state" where
  "compress_block st0 block inc =
     (let st = blake2s_increment_counter st0 inc;
          m = map (\<lambda>i. le32dec (drop (4 * i) block)) [0..<16];
          v = blake_rounds m [0..<10]
                (b_h st @ [blake2s_iv ! 0, blake2s_iv ! 1, blake2s_iv ! 2, blake2s_iv ! 3,
                  blake2s_iv ! 4 XOR fst (b_t st), blake2s_iv ! 5 XOR snd (b_t st),
                  blake2s_iv ! 6 XOR fst (b_f st), blake2s_iv ! 7 XOR snd (b_f st)])
      in st\<lparr>b_h := map (\<lambda>i. b_h st ! i XOR (v ! i XOR v ! (i + 8))) [0..<8]\<rparr>)"

fun blake2s_compress :: "blake2s_state \<Rightarrow> bytes \<Rightarrow> nat \<Rightarrow> u32 \<Rightarrow> blake2s_state" where
  "blake2s_compress st block 0 inc = st"
| "blake2s_compress st block (Suc nblocks) inc =
     blake2s_compress (compress_block st block inc) (drop BLAKE2S_BLOCK_SIZE block) nblocks inc"

definition blake2s_update :: "blake2s_state \<Rightarrow> bytes \<Rightarrow> blake2s_state" where
  "blake2s_update st inp =
     (let fill = BLAKE2S_BLOCK_SIZE - length (b_buf st) in
      if length inp = 0 then st
      else
        let (st1, in1) =
              (if length inp > fill
               then (blake2s_compress st (b_buf st @ take fill inp) 1 64\<lparr>b_buf := []\<rparr>, drop fill inp)
               else (st, inp));
            (st2, in2) =
              (if length in1 > BLAKE2S_BLOCK_SIZE
               then let nblocks = (length in1 + BLAKE2S_BLOCK_SIZE - 1) div BLAKE2S_BLOCK_SIZE
                    in (blake2s_compress st1 in1 (nblocks - 1) 64,
                        drop (BLAKE2S_BLOCK_SIZE * (nblocks - 1)) in1)
               else (st1, in1))
        in st2\<lparr>b_buf := b_buf st2 @ in2\<rparr>)"

definition blake2s_init :: "nat \<Rightarrow> blake2s_state" where
  "blake2s_init outlen = blake2s_init_param (0x01010000 OR of_nat outlen)\<lparr>b_outlen := outlen\<rparr>"

definition blake2s_init_key :: "nat \<Rightarrow> bytes \<Rightarrow> blake2s_state" where
  "blake2s_init_key outlen key =
     (let st = blake2s_init_param (0x01010000 OR push_bit 8 (of_nat (length key)) OR of_nat outlen)
                 \<lparr>b_outlen := outlen\<rparr>;
          block = key @ replicate (BLAKE2S_BLOCK_SIZE - length key) 0
      in blake2s_update st block)"

definition blake2s_final :: "blake2s_state \<Rightarrow> bytes" where
  "blake2s_final st0 =
     (let st = blake2s_set_lastblock st0;
          buf = b_buf st @ replicate (BLAKE2S_BLOCK_SIZE - length (b_buf st)) 0;
          st = blake2s_compress st buf 1 (of_nat (length (b_buf st)))
      in take (b_outlen st) (concat (map le32enc (b_h st))))"

definition blake2s :: "bytes \<Rightarrow> bytes \<Rightarrow> nat \<Rightarrow> bytes" where
  "blake2s inp key outlen =
     (let st = (if length key \<noteq> 0 then blake2s_init_key outlen key else blake2s_init outlen)
      in blake2s_final (blake2s_update st inp))"

subsection \<open>Specification (RFC 7693, section 3.3)\<close>

text \<open>The compression function of the RFC on chaining value, block, byte offset and final flag.\<close>

definition spec_F :: "u32 list \<Rightarrow> bytes \<Rightarrow> nat \<Rightarrow> bool \<Rightarrow> u32 list" where
  "spec_F h block t fin =
     (let m = map (\<lambda>i. le32dec (drop (4 * i) block)) [0..<16];
          v = blake_rounds m [0..<10]
                (h @ take 4 blake2s_iv @
                 [blake2s_iv ! 4 XOR of_nat t, blake2s_iv ! 5 XOR of_nat (t div 2 ^ 32),
                  blake2s_iv ! 6 XOR (if fin then - 1 else 0), blake2s_iv ! 7])
      in map (\<lambda>i. h ! i XOR (v ! i XOR v ! (i + 8))) [0..<8])"

function spec_hash :: "u32 list \<Rightarrow> nat \<Rightarrow> bytes \<Rightarrow> u32 list" where
  "spec_hash h t d =
     (if length d \<le> 64 then spec_F h (d @ replicate (64 - length d) 0) (t + length d) True
      else spec_hash (spec_F h (take 64 d) (t + 64) False) (t + 64) (drop 64 d))"
  by pat_completeness auto
termination by (relation "measure (\<lambda>(h, t, d). length d)") auto

declare spec_hash.simps [simp del]

definition spec_blake2s :: "nat \<Rightarrow> bytes \<Rightarrow> bytes \<Rightarrow> bytes" where
  "spec_blake2s outlen key d =
     take outlen (concat (map le32enc
       (spec_hash (blake2s_iv[0 := blake2s_iv ! 0 XOR (0x01010000 OR push_bit 8 (of_nat (length key)) OR of_nat outlen)])
          0 (if key = [] then d else key @ replicate (64 - length key) 0 @ d))))"

subsection \<open>Streaming\<close>

definition ctr64 :: "nat \<Rightarrow> u32 \<times> u32" where
  "ctr64 t = (of_nat t, of_nat (t div 2 ^ 32))"

definition b2_state :: "u32 list \<Rightarrow> nat \<Rightarrow> bytes \<Rightarrow> nat \<Rightarrow> blake2s_state" where
  "b2_state h t d n = \<lparr>b_h = h, b_t = ctr64 t, b_f = (0, 0), b_buf = d, b_outlen = n\<rparr>"

function b2_absorb :: "u32 list \<Rightarrow> nat \<Rightarrow> bytes \<Rightarrow> u32 list \<times> nat \<times> bytes" where
  "b2_absorb h t d =
     (if length d \<le> 64 then (h, t, d)
      else b2_absorb (spec_F h (take 64 d) (t + 64) False) (t + 64) (drop 64 d))"
  by pat_completeness auto
termination by (relation "measure (\<lambda>(h, t, d). length d)") auto

declare b2_absorb.simps [simp del]

lemma unat_of_nat_u32: "unat (of_nat t :: u32) = t mod 2 ^ 32"
  by (simp add: unsigned_of_nat take_bit_eq_mod)

lemma increment_ctr64:
  assumes "k \<le> 64"
  shows "increment_counter (ctr64 t) (of_nat k) = ctr64 (t + k)"
proof -
  have k: "k mod 2 ^ 32 = k" using assms by simp
  have lt: "of_nat t + of_nat k < (of_nat k :: u32) \<longleftrightarrow> (t mod 2 ^ 32 + k) div 2 ^ 32 = 1"
  proof -
    have "of_nat t + of_nat k < (of_nat k :: u32) \<longleftrightarrow> (t + k) mod 2 ^ 32 < k"
      unfolding word_less_nat_alt of_nat_add [symmetric] unat_of_nat_u32 k ..
    also have "(t + k) mod 2 ^ 32 = (t mod 2 ^ 32 + k) mod 2 ^ 32" by (simp add: mod_add_left_eq)
    also have "\<dots> < k \<longleftrightarrow> (t mod 2 ^ 32 + k) div 2 ^ 32 = 1"
      using assms mod_less_divisor [of "2 ^ 32" t] by (cases "t mod 2 ^ 32 + k < 2 ^ 32") (auto simp: le_mod_geq le_div_geq not_less)
    finally show ?thesis .
  qed
  have "(t + k) div 2 ^ 32 = t div 2 ^ 32 + (t mod 2 ^ 32 + k) div 2 ^ 32"
    by (metis add.commute add.left_commute div_mult_self4 mod_mult_div_eq power_not_zero zero_neq_numeral)
  moreover have "(t mod 2 ^ 32 + k) div 2 ^ 32 \<le> 1"
  proof -
    have "t mod 2 ^ 32 + k < 2 * 2 ^ 32" using assms mod_less_divisor [of "2 ^ 32" t] by simp
    then show ?thesis using less_mult_imp_div_less by fastforce
  qed
  then have "(t mod 2 ^ 32 + k) div 2 ^ 32 = (if of_nat t + of_nat k < (of_nat k :: u32) then 1 else 0)"
    using lt by auto
  ultimately show ?thesis by (simp add: ctr64_def)
qed

lemma le32dec_take: "4 \<le> n \<Longrightarrow> le32dec (take n p) = le32dec p"
  by (simp add: le32dec_def)

lemma block_words_take:
  "map (\<lambda>i. le32dec (drop (4 * i) (take 64 p))) [0..<16] = map (\<lambda>i. le32dec (drop (4 * i) p)) [0..<16]"
  by (simp add: drop_take le32dec_take)

lemma spec_F_take: "spec_F h (take 64 p) t l = spec_F h p t l"
  by (simp only: spec_F_def block_words_take)

lemma take4_iv: "take 4 blake2s_iv = [blake2s_iv ! 0, blake2s_iv ! 1, blake2s_iv ! 2, blake2s_iv ! 3]"
  by (simp add: blake2s_iv_def)

lemma compress_block_spec:
  assumes "k \<le> 64"
  shows "compress_block (b2_state h t d n) p (of_nat k) = b2_state (spec_F h p (t + k) False) (t + k) d n"
    "compress_block (blake2s_set_lastblock (b2_state h t d n)) p (of_nat k)
       = blake2s_set_lastblock (b2_state (spec_F h p (t + k) True) (t + k) d n)"
  using increment_ctr64 [OF assms, of t]
  by (simp_all add: compress_block_def b2_state_def blake2s_increment_counter_def Let_def spec_F_def
      take4_iv ctr64_def blake2s_set_lastblock_def)

lemma b2_absorb_short [simp]: "length d \<le> 64 \<Longrightarrow> b2_absorb h t d = (h, t, d)"
  by (simp add: b2_absorb.simps)

lemma b2_absorb_long:
  "64 < length d \<Longrightarrow> b2_absorb h t d = b2_absorb (spec_F h d (t + 64) False) (t + 64) (drop 64 d)"
  by (subst b2_absorb.simps) (simp add: spec_F_take)

lemma b2_absorb_rest: "b2_absorb h t d = (h', t', d') \<Longrightarrow> length d' \<le> 64"
  by (induction h t d rule: b2_absorb.induct) (auto simp: b2_absorb.simps split: if_splits)

lemma b2_absorb_append:
  "b2_absorb h t (d @ e) = (case b2_absorb h t d of (h', t', d') \<Rightarrow> b2_absorb h' t' (d' @ e))"
proof (induction h t d rule: b2_absorb.induct)
  case (1 h t d)
  show ?case
  proof (cases "length d \<le> 64")
    case False
    then have "spec_F h (d @ e) (t + 64) False = spec_F h d (t + 64) False"
      using spec_F_take [of h "d @ e"] spec_F_take [of h d] by simp
    with False 1 [OF False] show ?thesis by (simp add: b2_absorb_long spec_F_take)
  qed simp
qed

lemma compress_absorb:
  assumes "64 * n < length p"
  shows "\<exists>h' t'. blake2s_compress (b2_state h t d o') p n 64 = b2_state h' t' d o' \<and>
    b2_absorb h t p = b2_absorb h' t' (drop (64 * n) p)"
  using assms
proof (induction n arbitrary: h t p)
  case (Suc n)
  have "blake2s_compress (b2_state h t d o') p (Suc n) 64
      = blake2s_compress (b2_state (spec_F h p (t + 64) False) (t + 64) d o') (drop 64 p) n 64"
    using compress_block_spec(1) [of 64 h t d o' p] by (simp add: BLAKE2S_BLOCK_SIZE_def)
  then show ?case
    using Suc.IH [of "drop 64 p" "spec_F h p (t + 64) False" "t + 64"] Suc.prems
    by (simp add: b2_absorb_long add.commute)
qed auto

lemma b2_buf: "b_buf (b2_state h t d n) = d" "b2_state h t d n\<lparr>b_buf := d'\<rparr> = b2_state h t d' n"
  by (simp_all add: b2_state_def)

lemma blake2s_update_absorb:
  assumes "length d \<le> 64"
  shows "blake2s_update (b2_state h t d n) m =
    (case b2_absorb h t (d @ m) of (h', t', d') \<Rightarrow> b2_state h' t' d' n)"
proof -
  define fill where "fill = 64 - length d"
  have rest: "(let (st2, in2) =
              (if length in1 > BLAKE2S_BLOCK_SIZE
               then let nblocks = (length in1 + BLAKE2S_BLOCK_SIZE - 1) div BLAKE2S_BLOCK_SIZE
                    in (blake2s_compress (b2_state h1 t1 [] n) in1 (nblocks - 1) 64,
                        drop (BLAKE2S_BLOCK_SIZE * (nblocks - 1)) in1)
               else (b2_state h1 t1 [] n, in1))
        in st2\<lparr>b_buf := b_buf st2 @ in2\<rparr>) = (case b2_absorb h1 t1 in1 of (h', t', d') \<Rightarrow> b2_state h' t' d' n)"
    for h1 t1 in1
  proof (cases "length in1 > 64")
    case True
    define nb where "nb = (length in1 + 63) div 64 - 1"
    have nbe: "(63 + length in1) div 64 - Suc 0 = nb" by (simp add: nb_def add.commute)
    have q: "(length in1 + 63) div 64 = (length in1 - 1) div 64 + 1"
      using True div_add_self2 [of 64 "length in1 - 1"] by simp
    have nb: "64 * nb < length in1" "length in1 - 64 * nb \<le> 64"
    proof -
      have e: "64 * ((length in1 - 1) div 64) + (length in1 - 1) mod 64 = length in1 - 1" by simp
      show "64 * nb < length in1" using e True unfolding nb_def q by linarith
      have "(length in1 - 1) mod 64 < 64" by simp
      then show "length in1 - 64 * nb \<le> 64" using e True unfolding nb_def q by linarith
    qed
    obtain h' t' where c: "blake2s_compress (b2_state h1 t1 [] n) in1 nb 64 = b2_state h' t' [] n"
      "b2_absorb h1 t1 in1 = b2_absorb h' t' (drop (64 * nb) in1)"
      using compress_absorb [OF nb(1)] by blast
    then show ?thesis
      using True nb nbe b2_buf by (simp add: BLAKE2S_BLOCK_SIZE_def Let_def)
  qed (simp add: BLAKE2S_BLOCK_SIZE_def b2_state_def)
  show ?thesis
  proof (cases "length m > fill")
    case True
    then have l: "64 < length (d @ m)" using assms by (simp add: fill_def)
    have t: "take 64 (d @ m) = d @ take fill m" "drop 64 (d @ m) = drop fill m"
      using assms by (simp_all add: fill_def)
    have c: "blake2s_compress (b2_state h t d n) (d @ take fill m) 1 64\<lparr>b_buf := []\<rparr>
        = b2_state (spec_F h (d @ take fill m) (t + 64) False) (t + 64) [] n"
      using compress_block_spec(1) [of 64 h t d n "d @ take fill m"] by (simp add: b2_state_def)
    have "b2_absorb h t (d @ m) = b2_absorb (spec_F h (d @ take fill m) (t + 64) False) (t + 64) (drop fill m)"
      unfolding b2_absorb_long [OF l] t(2) using spec_F_take [of h "d @ m"] t(1) by simp
    moreover have "b_buf (b2_state h t d n) = d" by (simp add: b2_state_def)
    moreover have "BLAKE2S_BLOCK_SIZE - length d = fill" by (simp add: BLAKE2S_BLOCK_SIZE_def fill_def)
    moreover have "length m \<noteq> 0" using True by auto
    ultimately show ?thesis
      using True by (simp only: blake2s_update_def Let_def if_True if_False c rest [unfolded Let_def] prod.case)
  next
    case False
    then have "\<not> length m > BLAKE2S_BLOCK_SIZE" "\<not> length m > BLAKE2S_BLOCK_SIZE - length d"
      by (simp_all add: fill_def BLAKE2S_BLOCK_SIZE_def)
    moreover have "b2_absorb h t (d @ m) = (h, t, d @ m)" using False assms by (simp add: fill_def)
    ultimately show ?thesis by (cases m) (simp_all add: blake2s_update_def b2_buf Let_def)
  qed
qed

lemma blake2s_update_fold:
  assumes "length d \<le> 64"
  shows "fold (\<lambda>m s. blake2s_update s m) ms (b2_state h t d n) =
    (case b2_absorb h t (d @ concat ms) of (h', t', d') \<Rightarrow> b2_state h' t' d' n)"
  using assms
proof (induction ms arbitrary: h t d)
  case (Cons m ms)
  obtain h' t' d' where a: "b2_absorb h t (d @ m) = (h', t', d')" by (metis prod_cases3)
  show ?case
    using Cons.IH [OF b2_absorb_rest [OF a]] b2_absorb_append [of h t "d @ m" "concat ms"]
    by (simp add: blake2s_update_absorb [OF Cons.prems] a)
qed simp

lemma spec_hash_absorb:
  "spec_hash h t d = (case b2_absorb h t d of (h', t', d') \<Rightarrow>
     spec_F h' (d' @ replicate (64 - length d') 0) (t' + length d') True)"
proof (induction h t d rule: spec_hash.induct)
  case (1 h t d)
  then show ?case
    by (cases "length d \<le> 64") (simp_all add: spec_hash.simps [of h t d] b2_absorb.simps [of h t d])
qed

lemma blake2s_final_state:
  assumes "length d \<le> 64"
  shows "blake2s_final (b2_state h t d n) =
    take n (concat (map le32enc (spec_F h (d @ replicate (64 - length d) 0) (t + length d) True)))"
proof -
  have "b_buf (b2_state h t d n) = d" by (simp add: b2_state_def)
  then show ?thesis
    using compress_block_spec(2) [OF assms, of h t d n "d @ replicate (64 - length d) 0"]
    by (simp add: blake2s_final_def Let_def BLAKE2S_BLOCK_SIZE_def blake2s_set_lastblock_def b2_state_def)
qed

lemma blake2s_stream:
  "blake2s_final (fold (\<lambda>m s. blake2s_update s m) ms (b2_state h 0 [] n))
     = take n (concat (map le32enc (spec_hash h 0 (concat ms))))"
proof -
  obtain h' t' d' where a: "b2_absorb h 0 (concat ms) = (h', t', d')" by (metis prod_cases3)
  show ?thesis
    using blake2s_final_state [OF b2_absorb_rest [OF a]] a
    by (simp add: blake2s_update_fold spec_hash_absorb)
qed

lemma blake2s_init_state:
  "blake2s_init n = b2_state (blake2s_iv[0 := blake2s_iv ! 0 XOR (0x01010000 OR of_nat n)]) 0 [] n"
  by (simp add: blake2s_init_def blake2s_init_param_def b2_state_def ctr64_def)

lemma blake2s_init_key_state:
  "blake2s_init_key n key = blake2s_update
     (b2_state (blake2s_iv[0 := blake2s_iv ! 0 XOR (0x01010000 OR push_bit 8 (of_nat (length key)) OR of_nat n)]) 0 [] n)
     (key @ replicate (64 - length key) 0)"
  by (simp add: blake2s_init_key_def blake2s_init_param_def b2_state_def ctr64_def Let_def BLAKE2S_BLOCK_SIZE_def)

lemma blake2s_init_fold:
  "blake2s_final (fold (\<lambda>m s. blake2s_update s m) ms (blake2s_init n)) = spec_blake2s n [] (concat ms)"
  by (simp add: blake2s_init_state blake2s_stream spec_blake2s_def)

lemma blake2s_init_key_fold:
  assumes "key \<noteq> []"
  shows "blake2s_final (fold (\<lambda>m s. blake2s_update s m) ms (blake2s_init_key n key)) = spec_blake2s n key (concat ms)"
  using assms blake2s_stream [of "(key @ replicate (64 - length key) 0) # ms"]
  by (simp add: blake2s_init_key_state spec_blake2s_def)

lemma blake2s_one_shot: "blake2s d key n = spec_blake2s n key d"
  using blake2s_init_fold [of "[d]" n] blake2s_init_key_fold [of key "[d]" n]
  by (simp add: blake2s_def Let_def)

lemma length_spec_F [simp]: "length (spec_F h b t l) = 8"
  by (simp add: spec_F_def Let_def)

lemma length_spec_hash [simp]: "length (spec_hash h t d) = 8"
  by (simp add: spec_hash_absorb split: prod.split)

lemma length_concat_le32enc': "length (concat (map le32enc ws)) = 4 * length ws"
  by (induction ws) auto

lemma length_spec_blake2s [simp, wg_len]: "n \<le> 32 \<Longrightarrow> length (spec_blake2s n key d) = n"
  by (simp add: spec_blake2s_def length_concat_le32enc')

lemma length_blake2s [simp, wg_len]: "n \<le> 32 \<Longrightarrow> length (blake2s d key n) = n"
  by (simp add: blake2s_one_shot)

lemma blake2s_update_one:
  "blake2s_final (blake2s_update (blake2s_init n) a) = spec_blake2s n [] a"
  "blake2s_final (blake2s_update (blake2s_update (blake2s_init n) a) b) = spec_blake2s n [] (a @ b)"
  "key \<noteq> [] \<Longrightarrow> blake2s_final (blake2s_update (blake2s_init_key n key) a) = spec_blake2s n key a"
  "key \<noteq> [] \<Longrightarrow> blake2s_final (blake2s_update (blake2s_update (blake2s_init_key n key) a) b)
     = spec_blake2s n key (a @ b)"
  using blake2s_init_fold [of "[a]" n] blake2s_init_fold [of "[a, b]" n]
    blake2s_init_key_fold [of key "[a]" n] blake2s_init_key_fold [of key "[a, b]" n] by simp_all

subsection \<open>Properties\<close>

text \<open>C30: BLAKE2s is the hash of RFC 7693. However the data is split over calls of
  \<open>blake2s_update\<close> (empty ones, ones that fill the buffer exactly, ones of several blocks), the
  result of \<open>blake2s_final\<close> after \<open>blake2s_init\<close> or, with a key, \<open>blake2s_init_key\<close> is the
  specified hash of the concatenated data; the two-word counter with its hand-written carry counts
  the bytes modulo \<open>2^64\<close>.\<close>

theorem blake2s_streaming_correct:
  "blake2s_final (fold (\<lambda>m s. blake2s_update s m) ms (blake2s_init n)) = spec_blake2s n [] (concat ms) \<and>
   blake2s_final (fold (\<lambda>m s. blake2s_update s m) ms (blake2s_init_key n (k # ks)))
     = spec_blake2s n (k # ks) (concat ms) \<and>
   blake2s (concat ms) key n = spec_blake2s n key (concat ms)"
  by (simp add: blake2s_init_fold blake2s_init_key_fold blake2s_one_shot)

end
