(* ===== verification/Ratelimit.thy ===== *)
theory Ratelimit
  imports Prelude
begin

text \<open>
  The initiation rate limiter of \<^verbatim>\<open>src/wg_cookie.c\<close> with the SipHash of
  \<^verbatim>\<open>macos_stubs/crypto/siphash/siphash.h\<close> and the callout of
  \<^verbatim>\<open>macos_stubs/sys/callout.h\<close>.

  \<^verbatim>\<open>rl_table\<close> maps a bucket index to the list of its entries, newest first, as
  \<^verbatim>\<open>LIST_INSERT_HEAD\<close> keeps them. An entry's key is the byte string of
  \<^verbatim>\<open>struct ratelimit_key\<close> (the \<^verbatim>\<open>vnet\<close> pointer, then the masked address). The callout keeps
  its generation counter and the tokens of the blocks handed to \<^verbatim>\<open>dispatch_after\<close>;
  \<^verbatim>\<open>co_dispatch\<close> says whether the platform queues blocks at all (\<^verbatim>\<open>__APPLE__\<close>). Clock
  readings and the outcome of an allocation are arguments.

  The lemmas give the table invariant, the token-bucket bound over any interleaving of requests
  and collections, and what the callout does to the collection.
\<close>

subsection \<open>SipHash\<close>

type_synonym sip = "u64 \<times> u64 \<times> u64 \<times> u64"

definition SH_ROTL64 :: "u64 \<Rightarrow> nat \<Rightarrow> u64" where
  "SH_ROTL64 x b = push_bit b x OR drop_bit (64 - b) x"

fun SH_ROUND :: "sip \<Rightarrow> sip" where
  "SH_ROUND (v0, v1, v2, v3) =
     (let v0 = v0 + v1; v1 = SH_ROTL64 v1 13;
          v1 = v1 XOR v0; v0 = SH_ROTL64 v0 32;
          v2 = v2 + v3; v3 = SH_ROTL64 v3 16;
          v3 = v3 XOR v2;
          v0 = v0 + v3; v3 = SH_ROTL64 v3 21;
          v3 = v3 XOR v0;
          v2 = v2 + v1; v1 = SH_ROTL64 v1 17;
          v1 = v1 XOR v2; v2 = SH_ROTL64 v2 32
      in (v0, v1, v2, v3))"

fun SH_ROUNDS :: "nat \<Rightarrow> sip \<Rightarrow> sip" where
  "SH_ROUNDS 0 v = v"
| "SH_ROUNDS (Suc n) v = SH_ROUNDS n (SH_ROUND v)"

fun sip_absorb :: "nat \<Rightarrow> u64 \<Rightarrow> sip \<Rightarrow> sip" where
  "sip_absorb c m (v0, v1, v2, v3) =
     (case SH_ROUNDS c (v0, v1, v2, v3 XOR m) of (v0, v1, v2, v3) \<Rightarrow> (v0 XOR m, v1, v2, v3))"

fun sip_words :: "nat \<Rightarrow> nat \<Rightarrow> bytes \<Rightarrow> sip \<Rightarrow> sip" where
  "sip_words c 0 p v = v"
| "sip_words c (Suc n) p v = sip_words c n (drop 8 p) (sip_absorb c (le64dec p) v)"

fun sip_tail :: "nat \<Rightarrow> bytes \<Rightarrow> u64" where
  "sip_tail i [] = 0"
| "sip_tail i (b # bs) = push_bit (8 * i) (ucast b) OR sip_tail (Suc i) bs"

definition SipHashX :: "nat \<Rightarrow> nat \<Rightarrow> bytes \<Rightarrow> bytes \<Rightarrow> u64" where
  "SipHashX c_rounds d_rounds key src =
     (let k0 = le64dec key; k1 = le64dec (drop 8 key);
          v = (k0 XOR 0x736f6d6570736575, k1 XOR 0x646f72616e646f6d,
               k0 XOR 0x6c7967656e657261, k1 XOR 0x7465646279746573);
          n = length src div 8;
          v = sip_words c_rounds n src v;
          b = push_bit 56 (of_nat (length src)) OR sip_tail 0 (drop (8 * n) src)
      in (case sip_absorb c_rounds b v of (v0, v1, v2, v3) \<Rightarrow>
           (case SH_ROUNDS d_rounds (v0, v1, v2 XOR 0xff, v3) of
              (v0, v1, v2, v3) \<Rightarrow> v0 XOR v1 XOR v2 XOR v3)))"

definition siphash13 :: "bytes \<Rightarrow> bytes \<Rightarrow> u64" where
  "siphash13 key src = SipHashX 1 3 key src"

subsection \<open>State\<close>

definition RATELIMIT_SIZE :: nat where "RATELIMIT_SIZE = 8192"
definition RATELIMIT_MASK :: u64 where "RATELIMIT_MASK = 8191"
definition RATELIMIT_SIZE_MAX :: nat where "RATELIMIT_SIZE_MAX = RATELIMIT_SIZE * 8"
definition INITIATION_COST :: u64 where "INITIATION_COST = 50000000"
definition TOKEN_MAX :: u64 where "TOKEN_MAX = 250000000"
definition ELEMENT_TIMEOUT :: int where "ELEMENT_TIMEOUT = 1"
definition IPV4_MASK_SIZE :: nat where "IPV4_MASK_SIZE = 4"
definition IPV6_MASK_SIZE :: nat where "IPV6_MASK_SIZE = 8"

record ratelimit_entry =
  r_key :: bytes
  r_last_time :: sbintime
  r_tokens :: u64

record callout =
  co_dispatch :: bool
  co_generation :: u32
  co_blocks :: "u32 list"

record ratelimit =
  rl_secret :: bytes
  rl_gc :: callout
  rl_table :: "nat \<Rightarrow> ratelimit_entry list"
  rl_table_num :: nat
  rl_initialized :: bool

subsection \<open>The callout\<close>

definition callout_init :: "bool \<Rightarrow> callout" where
  "callout_init apple = \<lparr>co_dispatch = apple, co_generation = 0, co_blocks = []\<rparr>"

definition callout_pending :: "callout \<Rightarrow> bool" where
  "callout_pending c \<longleftrightarrow> co_generation c \<noteq> 0"

definition callout_stop :: "callout \<Rightarrow> callout" where
  "callout_stop c = c\<lparr>co_generation := co_generation c + 1\<rparr>"

definition callout_reset :: "callout \<Rightarrow> callout" where
  "callout_reset c =
     (let gen = co_generation c + 1 in
      c\<lparr>co_generation := gen,
        co_blocks := (if co_dispatch c then co_blocks c @ [gen] else co_blocks c)\<rparr>)"

subsection \<open>Operations\<close>

definition ratelimit_init :: "bool \<Rightarrow> bytes \<Rightarrow> ratelimit" where
  "ratelimit_init apple secret =
     \<lparr>rl_secret = secret, rl_gc = callout_init apple, rl_table = (\<lambda>i. []),
      rl_table_num = 0, rl_initialized = True\<rparr>"

definition ratelimit_gc_schedule :: "ratelimit \<Rightarrow> ratelimit" where
  "ratelimit_gc_schedule rl =
     (if rl_table_num rl > 0 \<and> \<not> callout_pending (rl_gc rl)
      then rl\<lparr>rl_gc := callout_reset (rl_gc rl)\<rparr> else rl)"

definition gc_expired :: "sbintime \<Rightarrow> bool \<Rightarrow> ratelimit_entry \<Rightarrow> bool" where
  "gc_expired expiry force r \<longleftrightarrow> r_last_time r < expiry \<or> force"

fun gc_buckets :: "sbintime \<Rightarrow> bool \<Rightarrow> nat list \<Rightarrow> ratelimit \<Rightarrow> ratelimit" where
  "gc_buckets expiry force [] rl = rl"
| "gc_buckets expiry force (i # is) rl =
     gc_buckets expiry force is
       (rl\<lparr>rl_table := (rl_table rl)(i := filter (\<lambda>r. \<not> gc_expired expiry force r) (rl_table rl i)),
           rl_table_num := rl_table_num rl - length (filter (gc_expired expiry force) (rl_table rl i))\<rparr>)"

definition ratelimit_gc :: "ratelimit \<Rightarrow> bool \<Rightarrow> sbintime \<Rightarrow> ratelimit" where
  "ratelimit_gc rl force now =
     (if rl_table_num rl = 0 then rl
      else
        let expiry = now - ELEMENT_TIMEOUT * SBT_1S
        in ratelimit_gc_schedule (gc_buckets expiry force [0..<RATELIMIT_SIZE] rl))"

text \<open>The first block queued runs: it does nothing unless its token is still the generation.\<close>

definition ratelimit_gc_callout :: "ratelimit \<Rightarrow> sbintime \<Rightarrow> ratelimit" where
  "ratelimit_gc_callout rl now =
     (case co_blocks (rl_gc rl) of
        [] \<Rightarrow> rl
      | gen # rest \<Rightarrow>
          let rl' = rl\<lparr>rl_gc := (rl_gc rl)\<lparr>co_blocks := rest\<rparr>\<rparr>
          in if co_generation (rl_gc rl) \<noteq> gen then rl' else ratelimit_gc rl' False now)"

definition ratelimit_deinit :: "ratelimit \<Rightarrow> sbintime \<Rightarrow> ratelimit" where
  "ratelimit_deinit rl now =
     (if \<not> rl_initialized rl then rl
      else ratelimit_gc (rl\<lparr>rl_gc := callout_stop (rl_gc rl)\<rparr>) True now\<lparr>rl_initialized := False\<rparr>)"

definition ratelimit_key :: "u64 \<Rightarrow> sockaddr \<Rightarrow> (bytes \<times> nat) option" where
  "ratelimit_key vnet sa =
     (case sa of
        Sin a p \<Rightarrow> Some (le64enc vnet @ take IPV4_MASK_SIZE a @ replicate (IPV6_MASK_SIZE - IPV4_MASK_SIZE) 0,
                         16 - (IPV6_MASK_SIZE - IPV4_MASK_SIZE))
      | Sin6 a p \<Rightarrow> Some (le64enc vnet @ take IPV6_MASK_SIZE a, 16)
      | Sa_other \<Rightarrow> None)"

definition ratelimit_bucket :: "ratelimit \<Rightarrow> bytes \<Rightarrow> nat \<Rightarrow> nat" where
  "ratelimit_bucket rl key len = unat (siphash13 (rl_secret rl) (take len key) AND RATELIMIT_MASK)"

definition spend :: "sbintime \<Rightarrow> ratelimit_entry \<Rightarrow> bool \<times> ratelimit_entry" where
  "spend now r =
     (let diff = now - r_last_time r;
          tokens = r_tokens r + of_int diff;
          tokens = (if tokens > TOKEN_MAX then TOKEN_MAX else tokens)
      in if tokens \<ge> INITIATION_COST
         then (True, r\<lparr>r_last_time := now, r_tokens := tokens - INITIATION_COST\<rparr>)
         else (False, r\<lparr>r_last_time := now, r_tokens := tokens\<rparr>))"

text \<open>The loop over one bucket: the first entry whose key agrees on \<open>len\<close> bytes is charged.\<close>

fun charge_bucket :: "bytes \<Rightarrow> nat \<Rightarrow> sbintime \<Rightarrow> ratelimit_entry list
    \<Rightarrow> (bool \<times> ratelimit_entry list) option" where
  "charge_bucket key len now [] = None"
| "charge_bucket key len now (r # rs) =
     (if take len (r_key r) \<noteq> take len key
      then (case charge_bucket key len now rs of
              None \<Rightarrow> None
            | Some (ok, rs') \<Rightarrow> Some (ok, r # rs'))
      else (case spend now r of (ok, r') \<Rightarrow> Some (ok, r' # rs)))"

definition ratelimit_allow :: "ratelimit \<Rightarrow> sockaddr \<Rightarrow> u64 \<Rightarrow> sbintime \<Rightarrow> bool \<Rightarrow> errno \<times> ratelimit" where
  "ratelimit_allow rl sa vnet now alloc_ok =
     (case ratelimit_key vnet sa of
        None \<Rightarrow> (ECONNREFUSED, rl)
      | Some (key, len) \<Rightarrow>
          let bucket = ratelimit_bucket rl key len in
          (case charge_bucket key len now (rl_table rl bucket) of
             Some (ok, es) \<Rightarrow>
               (if ok then OK else ECONNREFUSED, rl\<lparr>rl_table := (rl_table rl)(bucket := es)\<rparr>)
           | None \<Rightarrow>
               if rl_table_num rl \<ge> RATELIMIT_SIZE_MAX then (ECONNREFUSED, rl)
               else if \<not> alloc_ok then (ECONNREFUSED, rl)
               else
                 let r = \<lparr>r_key = key, r_last_time = now, r_tokens = TOKEN_MAX - INITIATION_COST\<rparr>
                 in (OK, ratelimit_gc_schedule
                      (rl\<lparr>rl_table_num := rl_table_num rl + 1,
                          rl_table := (rl_table rl)(bucket := r # rl_table rl bucket)\<rparr>))))"

subsection \<open>The table invariant\<close>

definition entry_count :: "ratelimit \<Rightarrow> nat" where
  "entry_count rl = (\<Sum>i<RATELIMIT_SIZE. length (rl_table rl i))"

text \<open>At time \<open>t\<close>, for keys compared on \<open>len\<close> bytes: the counter counts, every entry lies in the
  bucket of its key, no key occurs twice, no bucket overflows, no entry is from the future.\<close>

definition rl_ok :: "nat \<Rightarrow> sbintime \<Rightarrow> ratelimit \<Rightarrow> bool" where
  "rl_ok len t rl \<longleftrightarrow> rl_table_num rl = entry_count rl \<and>
     (\<forall>i. distinct (map (\<lambda>r. take len (r_key r)) (rl_table rl i)) \<and>
       (\<forall>r \<in> set (rl_table rl i). ratelimit_bucket rl (r_key r) len = i \<and> r_tokens r \<le> TOKEN_MAX \<and>
          0 \<le> r_last_time r \<and> r_last_time r \<le> t))"

lemma ratelimit_bucket_lt: "ratelimit_bucket rl k len < RATELIMIT_SIZE"
proof -
  have "siphash13 (rl_secret rl) (take len k) AND RATELIMIT_MASK \<le> RATELIMIT_MASK"
    by (rule word_and_le1)
  then show ?thesis
    by (simp add: ratelimit_bucket_def RATELIMIT_SIZE_def RATELIMIT_MASK_def word_le_nat_alt)
qed

lemma ratelimit_bucket_cong:
  "rl_secret rl = rl_secret rl' \<Longrightarrow> ratelimit_bucket rl = ratelimit_bucket rl'"
  by (simp add: ratelimit_bucket_def fun_eq_iff)

lemma entry_count_upd:
  assumes "b < RATELIMIT_SIZE"
  shows "(\<Sum>i<RATELIMIT_SIZE. length ((f(b := es)) i)) + length (f b)
    = (\<Sum>i<RATELIMIT_SIZE. length (f i)) + length es"
proof -
  have "(\<Sum>i<RATELIMIT_SIZE. length (g i)) = length (g b) + (\<Sum>i\<in>{..<RATELIMIT_SIZE} - {b}. length (g i))"
    for g :: "nat \<Rightarrow> 'a list"
    using assms by (simp add: sum.remove)
  from this [of "f(b := es)"] this [of f] show ?thesis by (simp cong: sum.cong_simp)
qed

lemma rl_ok_later: "rl_ok len t rl \<Longrightarrow> t \<le> t' \<Longrightarrow> rl_ok len t' rl"
  by (fastforce simp: rl_ok_def)

lemma schedule_fields [simp]:
  "rl_table (ratelimit_gc_schedule rl) = rl_table rl"
  "rl_table_num (ratelimit_gc_schedule rl) = rl_table_num rl"
  "rl_secret (ratelimit_gc_schedule rl) = rl_secret rl"
  by (simp_all add: ratelimit_gc_schedule_def)

lemma rl_ok_cong:
  "rl_table rl = rl_table rl' \<Longrightarrow> rl_table_num rl = rl_table_num rl' \<Longrightarrow> rl_secret rl = rl_secret rl'
   \<Longrightarrow> rl_ok len t rl = rl_ok len t rl'"
  using ratelimit_bucket_cong [of rl rl'] by (simp only: rl_ok_def entry_count_def)

lemma gc_buckets_fields:
  "rl_secret (gc_buckets ex fo is rl) = rl_secret rl \<and> rl_gc (gc_buckets ex fo is rl) = rl_gc rl \<and>
   (distinct is \<longrightarrow> rl_table (gc_buckets ex fo is rl) = (\<lambda>i. if i \<in> set is
      then filter (\<lambda>r. \<not> gc_expired ex fo r) (rl_table rl i) else rl_table rl i))"
  by (induction "is" arbitrary: rl) (auto simp: fun_eq_iff)

lemma gc_buckets_count:
  assumes "rl_table_num rl = entry_count rl" "\<forall>i \<in> set is. i < RATELIMIT_SIZE"
  shows "rl_table_num (gc_buckets ex fo is rl) = entry_count (gc_buckets ex fo is rl)"
  using assms
proof (induction "is" arbitrary: rl)
  case (Cons i "is")
  let ?f = "filter (\<lambda>r. \<not> gc_expired ex fo r) (rl_table rl i)"
  have "length ?f + length (filter (gc_expired ex fo) (rl_table rl i)) = length (rl_table rl i)"
    using sum_length_filter_compl [of "gc_expired ex fo" "rl_table rl i"] by simp
  moreover define rl' where "rl' = rl\<lparr>rl_table := (rl_table rl)(i := ?f),
      rl_table_num := rl_table_num rl - length (filter (gc_expired ex fo) (rl_table rl i))\<rparr>"
  ultimately have "rl_table_num rl' = entry_count rl'"
    using Cons.prems entry_count_upd [of i "rl_table rl" ?f] by (simp add: entry_count_def)
  then show ?case using Cons.IH [of rl'] Cons.prems by (simp add: rl'_def)
qed simp

lemma rl_ok_gc:
  assumes "rl_ok len t rl"
  shows "rl_ok len t (ratelimit_gc rl fo now)"
proof (cases "rl_table_num rl = 0")
  case False
  let ?g = "gc_buckets (now - ELEMENT_TIMEOUT * SBT_1S) fo [0..<RATELIMIT_SIZE] rl"
  note f = gc_buckets_fields [of "now - ELEMENT_TIMEOUT * SBT_1S" fo "[0..<RATELIMIT_SIZE]" rl]
  have "rl_ok len t ?g"
    using assms f gc_buckets_count [of rl "[0..<RATELIMIT_SIZE]" "now - ELEMENT_TIMEOUT * SBT_1S" fo]
    by (auto simp: rl_ok_def ratelimit_bucket_cong [of ?g rl] distinct_map_filter)
  then have "rl_ok len t (ratelimit_gc_schedule ?g)"
    by (subst rl_ok_cong [of _ ?g]) simp_all
  then show ?thesis using False by (simp add: ratelimit_gc_def)
qed (simp add: ratelimit_gc_def assms)

lemma rl_ok_callout:
  assumes "rl_ok len t rl"
  shows "rl_ok len t (ratelimit_gc_callout rl now)"
proof -
  have "rl_ok len t (rl\<lparr>rl_gc := c\<rparr>)" for c
    using assms by (subst rl_ok_cong [of _ rl]) simp_all
  then show ?thesis
    using assms by (auto simp: ratelimit_gc_callout_def Let_def rl_ok_gc split: list.split)
qed

lemma rl_ok_init: "rl_ok len t (ratelimit_init apple secret)"
  by (simp add: rl_ok_def entry_count_def ratelimit_init_def)

subsection \<open>The potential of an address\<close>

abbreviation same_key :: "nat \<Rightarrow> bytes \<Rightarrow> ratelimit_entry \<Rightarrow> bool" where
  "same_key len key r \<equiv> take len (r_key r) = take len key"

definition entry_pot :: "sbintime \<Rightarrow> ratelimit_entry \<Rightarrow> int" where
  "entry_pot t r = min (uint TOKEN_MAX) (uint (r_tokens r) + (t - r_last_time r))"

definition bucket_pot :: "bytes \<Rightarrow> nat \<Rightarrow> sbintime \<Rightarrow> ratelimit_entry list \<Rightarrow> int" where
  "bucket_pot key len t es = (case find (same_key len key) es of None \<Rightarrow> uint TOKEN_MAX | Some r \<Rightarrow> entry_pot t r)"

definition pot :: "bytes \<Rightarrow> nat \<Rightarrow> sbintime \<Rightarrow> ratelimit \<Rightarrow> int" where
  "pot key len t rl = bucket_pot key len t (rl_table rl (ratelimit_bucket rl key len))"

lemma entry_pot_later: "t \<le> t' \<Longrightarrow> entry_pot t' r \<le> entry_pot t r + (t' - t)"
  by (auto simp: entry_pot_def)

lemma pot_later: "t \<le> t' \<Longrightarrow> pot key len t' rl \<le> pot key len t rl + (t' - t)"
  by (auto simp: pot_def bucket_pot_def entry_pot_later split: option.split)

lemma pot_max: "pot key len t rl \<le> uint TOKEN_MAX"
  by (auto simp: pot_def bucket_pot_def entry_pot_def split: option.split)

lemma spend_pot:
  assumes "spend now r = (ok, r')" "r_tokens r \<le> TOKEN_MAX" "r_last_time r \<le> now"
    "now - r_last_time r < 2 ^ 62"
  shows "entry_pot now r' + (if ok then uint INITIATION_COST else 0) = entry_pot now r \<and>
    r_key r' = r_key r \<and> r_tokens r' \<le> TOKEN_MAX \<and> r_last_time r' = now"
proof -
  define d where "d = now - r_last_time r"
  have d: "0 \<le> d" "d < 2 ^ 62" using assms by (simp_all add: d_def)
  have tm: "uint TOKEN_MAX = 250000000" "uint INITIATION_COST = 50000000"
    by (simp_all add: TOKEN_MAX_def INITIATION_COST_def)
  have k: "0 \<le> uint (r_tokens r)" "uint (r_tokens r) \<le> 250000000"
    using assms(2) by (simp_all add: word_le_def tm)
  have ud: "uint (of_int d :: u64) = d" using d by (simp add: unsigned_of_int take_bit_int_eq_self)
  have "uint (r_tokens r + of_int d) = uint (r_tokens r) + d"
    using k d ud by (subst uint_plus_simple) (simp_all add: no_olen_add)
  then have t: "uint (if r_tokens r + of_int d > TOKEN_MAX then TOKEN_MAX else r_tokens r + of_int d)
      = entry_pot now r"
    by (simp add: entry_pot_def d_def [symmetric] word_less_def tm min_def not_less)
  define tk where "tk = (if r_tokens r + of_int d > TOKEN_MAX then TOKEN_MAX else r_tokens r + of_int d)"
  have tk: "uint tk = entry_pot now r" using t by (simp add: tk_def)
  have max: "entry_pot now r \<le> 250000000" by (simp add: entry_pot_def tm)
  show ?thesis
  proof (cases "tk \<ge> INITIATION_COST")
    case True
    then have "uint (tk - INITIATION_COST) = uint tk - 50000000"
      by (metis tm(2) uint_minus_simple_alt)
    moreover have "ok" "r' = r\<lparr>r_last_time := now, r_tokens := tk - INITIATION_COST\<rparr>"
      using assms(1) True by (auto simp: spend_def Let_def tk_def [symmetric] d_def [symmetric])
    moreover from calculation have "entry_pot now r' = min 250000000 (uint tk - 50000000)"
      by (simp add: entry_pot_def tm)
    ultimately show ?thesis using tk max by (simp add: word_le_def tm)
  next
    case False
    then have "\<not> ok" "r' = r\<lparr>r_last_time := now, r_tokens := tk\<rparr>"
      using assms(1) by (auto simp: spend_def Let_def tk_def [symmetric] d_def [symmetric])
    moreover from calculation have "entry_pot now r' = min 250000000 (uint tk)"
      by (simp add: entry_pot_def tm)
    ultimately show ?thesis using tk max by (simp add: word_le_def tm)
  qed
qed

lemma charge_None: "charge_bucket key len now es = None \<longleftrightarrow> find (same_key len key) es = None"
proof (induction es)
  case (Cons r es)
  then show ?case by (cases "spend now r") (auto split: option.splits)
qed simp

lemma charge_Some:
  assumes "charge_bucket key len now es = Some (ok, es')"
    "\<forall>r \<in> set es. r_tokens r \<le> TOKEN_MAX \<and> 0 \<le> r_last_time r \<and> r_last_time r \<le> now" "now < 2 ^ 62"
  shows "map r_key es' = map r_key es \<and>
    (\<forall>r \<in> set es'. r_tokens r \<le> TOKEN_MAX \<and> 0 \<le> r_last_time r \<and> r_last_time r \<le> now) \<and>
    bucket_pot key' len now es' + (if ok \<and> take len key' = take len key then uint INITIATION_COST else 0)
      = bucket_pot key' len now es"
  using assms
proof (induction es arbitrary: es')
  case (Cons r es)
  show ?case
  proof (cases "same_key len key r")
    case True
    obtain ok' r' where s: "spend now r = (ok', r')" by fastforce
    have "now - r_last_time r < 2 ^ 62" using Cons.prems by auto
    then show ?thesis
      using spend_pot [OF s] s True Cons.prems by (auto simp: bucket_pot_def)
  next
    case False
    then obtain es1 where e: "charge_bucket key len now es = Some (ok, es1)" "es' = r # es1"
      using Cons.prems(1) by (auto split: option.splits)
    note ih = Cons.IH [OF e(1)]
    show ?thesis
      using ih False Cons.prems(2,3) e(2) by (auto simp: bucket_pot_def)
  qed
qed simp

lemma take_key_bucket:
  "take len k = take len k' \<Longrightarrow> ratelimit_bucket rl k len = ratelimit_bucket rl k' len"
  by (simp add: ratelimit_bucket_def)

lemma pot_gc:
  assumes "rl_ok len now rl"
  shows "pot key len now (ratelimit_gc rl False now) = pot key len now rl"
proof (cases "rl_table_num rl = 0")
  case False
  let ?ex = "now - ELEMENT_TIMEOUT * SBT_1S"
  let ?g = "gc_buckets ?ex False [0..<RATELIMIT_SIZE] rl"
  note f = gc_buckets_fields [of ?ex False "[0..<RATELIMIT_SIZE]" rl]
  define b where "b = ratelimit_bucket rl key len"
  have b: "b < RATELIMIT_SIZE" by (simp add: b_def ratelimit_bucket_lt)
  have t: "rl_table ?g b = filter (\<lambda>r. \<not> gc_expired ?ex False r) (rl_table rl b)" using f b by simp
  have bp: "bucket_pot key len now (filter (\<lambda>r. \<not> gc_expired ?ex False r) es) = bucket_pot key len now es"
    if "distinct (map (\<lambda>r. take len (r_key r)) es)" for es
    using that
  proof (induction es)
    case (Cons r es)
    show ?case
    proof (cases "same_key len key r")
      case True
      have none: "find (same_key len key) es = None"
        using Cons.prems True by (simp add: find_None_iff) (metis image_eqI)
      then have none': "find (same_key len key) (filter (\<lambda>r. \<not> gc_expired ?ex False r) es) = None"
        by (auto simp: find_None_iff)
      have "entry_pot now r = uint TOKEN_MAX" if "gc_expired ?ex False r"
      proof -
        have "r_last_time r < now - 1000000000"
          using that by (simp add: gc_expired_def ELEMENT_TIMEOUT_def SBT_1S_def)
        moreover have "0 \<le> uint (r_tokens r)" "uint TOKEN_MAX = 250000000" by (simp_all add: TOKEN_MAX_def)
        ultimately show ?thesis unfolding entry_pot_def by (intro min_absorb1) linarith
      qed
      then show ?thesis using True none' by (auto simp: bucket_pot_def)
    next
      case False
      then show ?thesis using Cons by (auto simp: bucket_pot_def)
    qed
  qed simp
  have d: "distinct (map (\<lambda>r. take len (r_key r)) (rl_table rl b))" using assms by (simp add: rl_ok_def)
  have "ratelimit_bucket ?g key len = b" using f ratelimit_bucket_cong [of ?g rl] by (simp add: b_def)
  then have "pot key len now ?g = pot key len now rl"
    using bp [OF d] t by (simp add: pot_def b_def)
  moreover have "ratelimit_bucket (ratelimit_gc_schedule ?g) = ratelimit_bucket ?g"
    by (rule ratelimit_bucket_cong) simp
  then have "pot key len now (ratelimit_gc_schedule ?g) = pot key len now ?g" by (simp add: pot_def)
  ultimately show ?thesis using False by (simp add: ratelimit_gc_def)
qed (simp add: ratelimit_gc_def)

lemma pot_gc_field [simp]: "pot key len t (rl\<lparr>rl_gc := c\<rparr>) = pot key len t rl"
proof -
  have "ratelimit_bucket (rl\<lparr>rl_gc := c\<rparr>) = ratelimit_bucket rl" by (rule ratelimit_bucket_cong) simp
  then show ?thesis by (simp add: pot_def)
qed

lemma rl_ok_gc_field [simp]: "rl_ok len t (rl\<lparr>rl_gc := c\<rparr>) = rl_ok len t rl"
  by (rule rl_ok_cong) simp_all

lemma pot_callout: "rl_ok len now rl \<Longrightarrow> pot key len now (ratelimit_gc_callout rl now) = pot key len now rl"
  by (auto simp: ratelimit_gc_callout_def Let_def pot_gc split: list.split)

lemma map_take_key: "map r_key es' = map r_key (es :: ratelimit_entry list)
  \<Longrightarrow> map (\<lambda>r. take len (r_key r)) es' = map (\<lambda>r. take len (r_key r)) es"
  by (drule arg_cong [where f = "map (take len)"]) (simp add: comp_def)

lemma rl_ok_charge:
  assumes "rl_ok len now rl" "b = ratelimit_bucket rl k len"
    "charge_bucket k len now (rl_table rl b) = Some (ok, es)" "now < 2 ^ 62"
  shows "rl_ok len now (rl\<lparr>rl_table := (rl_table rl)(b := es)\<rparr>) \<and>
    pot key len now (rl\<lparr>rl_table := (rl_table rl)(b := es)\<rparr>)
      + (if ok \<and> take len k = take len key then uint INITIATION_COST else 0) = pot key len now rl"
proof -
  let ?rl = "rl\<lparr>rl_table := (rl_table rl)(b := es)\<rparr>"
  have b: "b < RATELIMIT_SIZE" using assms(2) by (simp add: ratelimit_bucket_lt)
  have rb: "ratelimit_bucket ?rl = ratelimit_bucket rl" by (rule ratelimit_bucket_cong) simp
  have ent: "\<forall>r \<in> set (rl_table rl b). r_tokens r \<le> TOKEN_MAX \<and> 0 \<le> r_last_time r \<and> r_last_time r \<le> now"
    using assms(1) by (auto simp: rl_ok_def)
  note c = charge_Some [OF assms(3) ent assms(4)]
  have keys: "map r_key es = map r_key (rl_table rl b)" using c [of key] by simp
  then have len: "length es = length (rl_table rl b)" by (metis length_map)
  have ks: "r_key ` set es = r_key ` set (rl_table rl b)" using arg_cong [OF keys, of set] by simp
  have bk: "\<forall>r \<in> set es. ratelimit_bucket rl (r_key r) len = b"
  proof
    fix r assume "r \<in> set es"
    then have "r_key r \<in> r_key ` set (rl_table rl b)" using ks by blast
    then obtain r' where "r' \<in> set (rl_table rl b)" "r_key r = r_key r'" by auto
    then show "ratelimit_bucket rl (r_key r) len = b" using assms(1) by (auto simp: rl_ok_def)
  qed
  have dk: "distinct (map (\<lambda>r. take len (r_key r)) es)"
    unfolding map_take_key [OF keys] using assms(1) by (simp add: rl_ok_def)
  have "entry_count ?rl = entry_count rl"
    using entry_count_upd [OF b, of "rl_table rl" es] len by (simp add: entry_count_def)
  then have ok: "rl_ok len now ?rl"
    using assms(1) c [of key] bk dk by (simp add: rl_ok_def rb)
  have "pot key len now ?rl + (if ok \<and> take len k = take len key then uint INITIATION_COST else 0) = pot key len now rl"
  proof (cases "ratelimit_bucket rl key len = b")
    case True
    then show ?thesis using c [of key] by (auto simp: pot_def rb)
  next
    case False
    then have "take len k \<noteq> take len key" using assms(2) take_key_bucket by metis
    then show ?thesis using False by (simp add: pot_def rb)
  qed
  with ok show ?thesis by simp
qed

lemma rl_ok_insert:
  assumes "rl_ok len now rl" "b = ratelimit_bucket rl k len" "0 \<le> now"
    "charge_bucket k len now (rl_table rl b) = None"
  defines "rl' \<equiv> rl\<lparr>rl_table_num := rl_table_num rl + 1,
    rl_table := (rl_table rl)(b := \<lparr>r_key = k, r_last_time = now, r_tokens = TOKEN_MAX - INITIATION_COST\<rparr> # rl_table rl b)\<rparr>"
  shows "rl_ok len now rl' \<and>
    pot key len now rl' + (if take len k = take len key then uint INITIATION_COST else 0) = pot key len now rl"
proof -
  have b: "b < RATELIMIT_SIZE" using assms(2) by (simp add: ratelimit_bucket_lt)
  have rb: "ratelimit_bucket rl' = ratelimit_bucket rl" by (rule ratelimit_bucket_cong) (simp add: rl'_def)
  have none: "find (same_key len k) (rl_table rl b) = None" using assms(4) by (simp add: charge_None)
  have tm: "TOKEN_MAX - INITIATION_COST \<le> TOKEN_MAX" "uint TOKEN_MAX = 250000000"
    "uint INITIATION_COST = 50000000" "uint (TOKEN_MAX - INITIATION_COST) = 200000000"
    by (simp_all add: TOKEN_MAX_def INITIATION_COST_def)
  have new: "take len k \<notin> (\<lambda>r. take len (r_key r)) ` set (rl_table rl b)"
    using none by (auto simp: find_None_iff)
  have "entry_count rl' = entry_count rl + 1"
    using entry_count_upd [OF b, of "rl_table rl"
       "\<lparr>r_key = k, r_last_time = now, r_tokens = TOKEN_MAX - INITIATION_COST\<rparr> # rl_table rl b"]
    by (simp add: entry_count_def rl'_def)
  moreover have tn: "rl_table_num rl' = rl_table_num rl + 1"
    "rl_table rl' = (rl_table rl)(b := \<lparr>r_key = k, r_last_time = now, r_tokens = TOKEN_MAX - INITIATION_COST\<rparr> # rl_table rl b)"
    by (simp_all add: rl'_def)
  ultimately have ok: "rl_ok len now rl'"
    using assms(1-3) new tm(1) by (auto simp: rl_ok_def rb)
  have "pot key len now rl' + (if take len k = take len key then uint INITIATION_COST else 0) = pot key len now rl"
  proof (cases "take len k = take len key")
    case True
    then have "ratelimit_bucket rl key len = b" using assms(2) take_key_bucket by metis
    then show ?thesis using True none by (simp add: pot_def rb tn(2) bucket_pot_def entry_pot_def tm)
  next
    case False
    then show ?thesis by (auto simp: pot_def rb bucket_pot_def tn(2))
  qed
  with ok show ?thesis by simp
qed

lemma ratelimit_allow_step:
  assumes "rl_ok len now rl" "0 \<le> now" "now < 2 ^ 62" "ratelimit_key vnet sa = Some (k, len)"
    "ratelimit_allow rl sa vnet now a = (e, rl')"
  shows "rl_ok len now rl' \<and>
    pot key len now rl' + (if e = OK \<and> take len k = take len key then uint INITIATION_COST else 0) \<le> pot key len now rl"
proof -
  define b where "b = ratelimit_bucket rl k len"
  show ?thesis
  proof (cases "charge_bucket k len now (rl_table rl b)")
    case None
    note ins = rl_ok_insert [OF assms(1) b_def assms(2) None, of key]
    have sch: "pot key len now (ratelimit_gc_schedule r) = pot key len now r"
       "rl_ok len now (ratelimit_gc_schedule r) = rl_ok len now r" for r
      by (simp_all add: ratelimit_gc_schedule_def)
    show ?thesis
      using assms(1,4,5) None ins
      by (simp add: ratelimit_allow_def b_def [symmetric] split: if_splits) (auto simp: sch)
  next
    case (Some p)
    then obtain ok es where p: "charge_bucket k len now (rl_table rl b) = Some (ok, es)" by (cases p) auto
    show ?thesis
      using assms(4,5) p rl_ok_charge [OF assms(1) b_def p assms(3), of key]
      by (auto simp: ratelimit_allow_def b_def [symmetric] split: if_splits)
  qed
qed

subsection \<open>Any interleaving of requests and collections\<close>

datatype rl_event = Request sockaddr u64 bool sbintime | Collect sbintime

fun ev_time :: "rl_event \<Rightarrow> sbintime" where
  "ev_time (Request sa vnet a t) = t"
| "ev_time (Collect t) = t"

fun rl_step :: "ratelimit \<Rightarrow> rl_event \<Rightarrow> bool \<times> ratelimit" where
  "rl_step rl (Request sa vnet a t) = (case ratelimit_allow rl sa vnet t a of (e, rl') \<Rightarrow> (e = OK, rl'))"
| "rl_step rl (Collect t) = (False, ratelimit_gc_callout rl t)"

fun ev_for :: "bytes \<Rightarrow> nat \<Rightarrow> rl_event \<Rightarrow> bool" where
  "ev_for key len (Request sa vnet a t) = (case ratelimit_key vnet sa of
     Some (k, l) \<Rightarrow> take len k = take len key | None \<Rightarrow> False)"
| "ev_for key len (Collect t) = False"

fun ev_len :: "nat \<Rightarrow> rl_event \<Rightarrow> bool" where
  "ev_len len (Request sa vnet a t) = (case ratelimit_key vnet sa of Some (k, l) \<Rightarrow> l = len | None \<Rightarrow> False)"
| "ev_len len (Collect t) = True"

fun rl_run :: "ratelimit \<Rightarrow> rl_event list \<Rightarrow> ratelimit" where
  "rl_run rl [] = rl"
| "rl_run rl (e # es) = rl_run (snd (rl_step rl e)) es"

text \<open>How many of the requests from the given masked address were granted.\<close>

fun granted :: "bytes \<Rightarrow> nat \<Rightarrow> ratelimit \<Rightarrow> rl_event list \<Rightarrow> nat" where
  "granted key len rl [] = 0"
| "granted key len rl (e # es) =
     (if fst (rl_step rl e) \<and> ev_for key len e then 1 else 0) + granted key len (snd (rl_step rl e)) es"

fun clock_ok :: "sbintime \<Rightarrow> rl_event list \<Rightarrow> bool" where
  "clock_ok t [] \<longleftrightarrow> True"
| "clock_ok t (e # es) \<longleftrightarrow> t \<le> ev_time e \<and> ev_time e < 2 ^ 62 \<and> clock_ok (ev_time e) es"

definition end_time :: "sbintime \<Rightarrow> rl_event list \<Rightarrow> sbintime" where
  "end_time t es = (if es = [] then t else ev_time (last es))"

lemma rl_step_pot:
  assumes "rl_ok len t rl" "0 \<le> t" "t \<le> ev_time e" "ev_time e < 2 ^ 62" "ev_len len e"
  shows "rl_ok len (ev_time e) (snd (rl_step rl e)) \<and>
    pot key len (ev_time e) (snd (rl_step rl e))
      + (if fst (rl_step rl e) \<and> ev_for key len e then uint INITIATION_COST else 0)
      \<le> pot key len t rl + (ev_time e - t)"
proof (cases e)
  case (Request sa vnet a u)
  then obtain k where k: "ratelimit_key vnet sa = Some (k, len)"
    using assms(5) by (auto split: option.splits)
  obtain r rl' where r: "ratelimit_allow rl sa vnet u a = (r, rl')" by fastforce
  have "rl_ok len u rl" using rl_ok_later assms(1,3) Request by simp
  from ratelimit_allow_step [OF this _ _ k r, of key] pot_later [of t u key len rl]
  show ?thesis using assms Request k r by auto
next
  case (Collect u)
  then show ?thesis
    using pot_callout [OF rl_ok_later [OF assms(1)], of u key] rl_ok_callout [OF rl_ok_later [OF assms(1)], of u u]
      pot_later [of t u key len rl] assms by simp
qed

lemma rl_run_pot:
  assumes "rl_ok len t rl" "0 \<le> t" "clock_ok t es" "\<forall>e \<in> set es. ev_len len e"
  shows "rl_ok len (end_time t es) (rl_run rl es) \<and>
    pot key len (end_time t es) (rl_run rl es) + uint INITIATION_COST * int (granted key len rl es)
      \<le> pot key len t rl + (end_time t es - t)"
  using assms
proof (induction es arbitrary: t rl)
  case Nil
  then show ?case by (simp add: end_time_def)
next
  case (Cons e es)
  have e: "t \<le> ev_time e" "ev_time e < 2 ^ 62" "ev_len len e" "clock_ok (ev_time e) es"
    using Cons.prems by simp_all
  note st = rl_step_pot [OF Cons.prems(1,2) e(1-3), of key]
  have et: "end_time t (e # es) = end_time (ev_time e) es" by (simp add: end_time_def)
  have ih: "rl_ok len (end_time (ev_time e) es) (rl_run (snd (rl_step rl e)) es) \<and>
    pot key len (end_time (ev_time e) es) (rl_run (snd (rl_step rl e)) es)
      + uint INITIATION_COST * int (granted key len (snd (rl_step rl e)) es)
      \<le> pot key len (ev_time e) (snd (rl_step rl e)) + (end_time (ev_time e) es - ev_time e)"
    using Cons.IH [of "ev_time e" "snd (rl_step rl e)"] st e Cons.prems by simp
  then show ?case using st unfolding et by (auto simp: distrib_left)
qed

lemma pot_nonneg:
  assumes "rl_ok len t rl"
  shows "0 \<le> pot key len t rl"
proof (cases "find (same_key len key) (rl_table rl (ratelimit_bucket rl key len))")
  case None
  then show ?thesis by (simp add: pot_def bucket_pot_def)
next
  case (Some r)
  then have "r \<in> set (rl_table rl (ratelimit_bucket rl key len))"
    by (auto simp: find_Some_iff)
  then have "r_last_time r \<le> t" using assms by (auto simp: rl_ok_def)
  moreover have "0 \<le> uint (r_tokens r)" by simp
  ultimately have "0 \<le> entry_pot t r" unfolding entry_pot_def by (intro min.boundedI) auto
  then show ?thesis using Some by (simp add: pot_def bucket_pot_def)
qed

subsection \<open>The collector and its callout\<close>

text \<open>A callout whose generation is not zero counts as pending for ever: nothing but
  \<open>callout_stop\<close> changes it, and no step of the limiter calls that.\<close>

lemma schedule_pending: "callout_pending (rl_gc rl) \<Longrightarrow> ratelimit_gc_schedule rl = rl"
  by (simp add: ratelimit_gc_schedule_def)

lemma gc_pending:
  assumes "callout_pending (rl_gc rl)"
  shows "rl_gc (ratelimit_gc rl fo now) = rl_gc rl"
proof -
  have "rl_gc (gc_buckets ex fo is rl) = rl_gc rl" for ex "is" using gc_buckets_fields by blast
  then show ?thesis using assms by (simp add: ratelimit_gc_def schedule_pending)
qed

lemma step_pending:
  assumes "callout_pending (rl_gc rl)"
  shows "co_generation (rl_gc (snd (rl_step rl e))) = co_generation (rl_gc rl) \<and>
    length (co_blocks (rl_gc (snd (rl_step rl e)))) \<le> length (co_blocks (rl_gc rl)) \<and>
    (co_blocks (rl_gc rl) = [] \<longrightarrow> co_blocks (rl_gc (snd (rl_step rl e))) = [])"
proof (cases e)
  case (Request sa vnet a t)
  have "rl_gc (snd (ratelimit_allow rl sa vnet t a)) = rl_gc rl"
    using assms by (auto simp: ratelimit_allow_def Let_def schedule_pending split: option.split prod.split)
  then show ?thesis using Request by (simp add: case_prod_unfold)
next
  case (Collect t)
  show ?thesis
  proof (cases "co_blocks (rl_gc rl)")
    case (Cons g gs)
    have "callout_pending (rl_gc (rl\<lparr>rl_gc := (rl_gc rl)\<lparr>co_blocks := gs\<rparr>\<rparr>))"
      using assms by (simp add: callout_pending_def)
    then have "rl_gc (ratelimit_gc (rl\<lparr>rl_gc := (rl_gc rl)\<lparr>co_blocks := gs\<rparr>\<rparr>) False t)
        = (rl_gc rl)\<lparr>co_blocks := gs\<rparr>"
      by (simp only: gc_pending) simp
    then show ?thesis using Collect Cons by (simp add: ratelimit_gc_callout_def Let_def)
  qed (simp add: Collect ratelimit_gc_callout_def)
qed

lemma run_pending:
  assumes "callout_pending (rl_gc rl)" "co_blocks (rl_gc rl) = []"
  shows "callout_pending (rl_gc (rl_run rl es)) \<and> co_blocks (rl_gc (rl_run rl es)) = [] \<and>
    rl_table_num rl \<le> rl_table_num (rl_run rl es)"
  using assms
proof (induction es arbitrary: rl)
  case (Cons e es)
  let ?rl = "snd (rl_step rl e)"
  note s = step_pending [OF Cons.prems(1), of e]
  have p: "callout_pending (rl_gc ?rl)" using s Cons.prems by (simp add: callout_pending_def)
  have "rl_table_num rl \<le> rl_table_num ?rl"
    using Cons.prems
    by (cases e) (auto simp: ratelimit_allow_def Let_def ratelimit_gc_callout_def split: option.split prod.split)
  moreover have "rl_table_num ?rl \<le> rl_table_num (rl_run ?rl es)"
    using Cons.IH [OF p] s Cons.prems(2) by simp
  ultimately show ?case using Cons.IH [OF p] s Cons.prems(2) by simp
qed simp

definition gc_full :: "ratelimit \<Rightarrow> bool" where
  "gc_full rl \<longleftrightarrow> rl_table_num rl \<ge> RATELIMIT_SIZE_MAX"

lemma full_refuses:
  assumes "gc_full rl" "ratelimit_key vnet sa = Some (k, len)"
    "find (same_key len k) (rl_table rl (ratelimit_bucket rl k len)) = None"
  shows "ratelimit_allow rl sa vnet now a = (ECONNREFUSED, rl)"
  using assms by (simp add: ratelimit_allow_def gc_full_def charge_None [THEN iffD2] Let_def)

lemma first_request:
  assumes "ratelimit_key vnet sa = Some (k, len)"
  shows "callout_pending (rl_gc (rl_run (ratelimit_init True secret) [Request sa vnet True t0])) \<and>
    co_blocks (rl_gc (rl_run (ratelimit_init True secret) [Request sa vnet True t0])) = [1]"
  using assms
  by (simp add: ratelimit_allow_def ratelimit_init_def Let_def RATELIMIT_SIZE_MAX_def RATELIMIT_SIZE_def
      ratelimit_gc_schedule_def callout_init_def callout_pending_def callout_reset_def)

subsection \<open>Properties\<close>

text \<open>C34: the initiation limiter is a token bucket, over any interleaving of requests from any
  addresses, failed allocations and garbage collections. From any well-formed table, and with a
  clock that does not run backwards, the requests granted to one masked address (an IPv4 address,
  or the /64 of an IPv6 one) in an interval are at most 5 plus one per 50 ms of the interval, and
  the table stays well formed: its counter is exact, no key is stored twice, no token count
  exceeds the maximum. Collecting an entry never gives an address more than it would have had.\<close>

theorem ratelimit_token_bucket:
  assumes "rl_ok len t rl" "0 \<le> t" "clock_ok t es" "\<forall>e \<in> set es. ev_len len e"
  shows "50000000 * int (granted key len rl es) \<le> 250000000 + (end_time t es - t) \<and>
    rl_ok len (end_time t es) (rl_run rl es)"
  using rl_run_pot [OF assms, of key] pot_max [of key len t rl]
    pot_nonneg [of len "end_time t es" "rl_run rl es" key]
  by (auto simp: TOKEN_MAX_def INITIATION_COST_def)

lemma ratelimit_token_bucket_witness:
  "50000000 * int (granted (replicate 16 0) 12 (ratelimit_init True (replicate 16 7))
     [Request (Sin [0, 0, 0, 0] [0, 80]) 0 True 10, Collect 20, Request (Sin [10, 0, 0, 1] [0, 80]) 0 True 30])
   \<le> 250000030"
  using ratelimit_token_bucket [of 12 0 "ratelimit_init True (replicate 16 7)"
     "[Request (Sin [0, 0, 0, 0] [0, 80]) 0 True 10, Collect 20, Request (Sin [10, 0, 0, 1] [0, 80]) 0 True 30]"
     "replicate 16 0"]
  by (simp add: rl_ok_init ratelimit_key_def IPV4_MASK_SIZE_def IPV6_MASK_SIZE_def end_time_def)

text \<open>The garbage collection of the limiter runs at most once in its life (a defect of the
  callout stub, whose \<open>callout_pending\<close> is true for ever after the first reset). The first
  request queues the only block; once that block has run, whatever requests follow, no block is
  queued again and the table never shrinks, and when it has reached its maximal size every
  address without an entry is refused.\<close>

theorem ratelimit_gc_runs_once:
  assumes "ratelimit_key vnet sa = Some (k, len)"
  shows "let rl = rl_run (ratelimit_init True secret) [Request sa vnet True t0, Collect t1] in
    co_blocks (rl_gc (rl_run (ratelimit_init True secret) [Request sa vnet True t0])) = [1] \<and>
    co_blocks (rl_gc (rl_run rl es)) = [] \<and> rl_table_num rl \<le> rl_table_num (rl_run rl es) \<and>
    (gc_full (rl_run rl es) \<and> ratelimit_key vnet' sa' = Some (k', len') \<and>
       find (same_key len' k') (rl_table (rl_run rl es) (ratelimit_bucket (rl_run rl es) k' len')) = None
     \<longrightarrow> (\<forall>now a. fst (ratelimit_allow (rl_run rl es) sa' vnet' now a) = ECONNREFUSED))"
proof -
  let ?r0 = "rl_run (ratelimit_init True secret) [Request sa vnet True t0]"
  define rl where "rl = rl_run (ratelimit_init True secret) [Request sa vnet True t0, Collect t1]"
  note f = first_request [OF assms, of secret t0]
  have r: "rl = snd (rl_step ?r0 (Collect t1))" by (simp add: rl_def)
  have p: "callout_pending (rl_gc rl)"
    using step_pending [of ?r0 "Collect t1"] f unfolding r by (simp add: callout_pending_def)
  have "rl_gc (ratelimit_gc (?r0\<lparr>rl_gc := (rl_gc ?r0)\<lparr>co_blocks := []\<rparr>\<rparr>) False t1) = (rl_gc ?r0)\<lparr>co_blocks := []\<rparr>"
    using f by (subst gc_pending) (simp_all add: callout_pending_def)
  then have b: "co_blocks (rl_gc rl) = []"
    using f unfolding r by (simp add: ratelimit_gc_callout_def Let_def)
  show ?thesis
    unfolding Let_def rl_def [symmetric]
    using run_pending [OF p b, of es] f full_refuses [of "rl_run rl es" vnet' sa' k' len'] by auto
qed

lemma ratelimit_gc_runs_once_witness:
  "rl_table_num (rl_run (ratelimit_init True [])
       [Request (Sin [10, 0, 0, 1] [0, 80]) 0 True 0, Collect 1000000000])
   \<le> rl_table_num (rl_run (rl_run (ratelimit_init True [])
       [Request (Sin [10, 0, 0, 1] [0, 80]) 0 True 0, Collect 1000000000]) [Collect 9000000000])"
proof -
  have "ratelimit_key 0 (Sin [10, 0, 0, 1] [0, 80]) = Some (replicate 8 0 @ [10, 0, 0, 1] @ replicate 4 0, 12)"
    by code_simp
  from ratelimit_gc_runs_once [OF this, of "[]" 0 1000000000 "[Collect 9000000000]"]
  show ?thesis unfolding Let_def by blast
qed

end
