(* ===== verification/Cookie.thy ===== *)
theory Cookie
  imports Aead Blake2s Ratelimit
begin

text \<open>
  The cookie mechanism of \<^verbatim>\<open>src/wg_cookie.c\<close>: the checker (responder side), the maker
  (initiator side), the two MACs of a handshake message and the encrypted cookie.

  Locks are not modelled: every function runs as one step. A clock reading and the bytes of
  \<^verbatim>\<open>arc4random_buf\<close> are arguments; a function that reads the clock twice gets one reading.
  The globals \<^verbatim>\<open>ratelimit_v4\<close> and \<^verbatim>\<open>ratelimit_v6\<close> are the record \<open>cookie_globals\<close>.
  A key or MAC array of the C structures is a byte string of the array's size, which the
  predicates \<open>checker_ok\<close> and \<open>maker_ok\<close> state.
\<close>

subsection \<open>State\<close>

definition COOKIE_MAC_SIZE :: nat where "COOKIE_MAC_SIZE = 16"
definition COOKIE_KEY_SIZE :: nat where "COOKIE_KEY_SIZE = 32"
definition COOKIE_COOKIE_SIZE :: nat where "COOKIE_COOKIE_SIZE = 16"
definition COOKIE_SECRET_SIZE :: nat where "COOKIE_SECRET_SIZE = 32"
definition COOKIE_SECRET_MAX_AGE :: u32 where "COOKIE_SECRET_MAX_AGE = 120"
definition COOKIE_SECRET_LATENCY :: u32 where "COOKIE_SECRET_LATENCY = 5"

lemmas cookie_sizes = COOKIE_MAC_SIZE_def COOKIE_KEY_SIZE_def COOKIE_COOKIE_SIZE_def COOKIE_SECRET_SIZE_def

text \<open>The labels \<^verbatim>\<open>"mac1----"\<close> and \<^verbatim>\<open>"cookie--"\<close> in ASCII.\<close>

definition COOKIE_MAC1_KEY_LABEL :: bytes where
  "COOKIE_MAC1_KEY_LABEL = [0x6d, 0x61, 0x63, 0x31, 0x2d, 0x2d, 0x2d, 0x2d]"

definition COOKIE_COOKIE_KEY_LABEL :: bytes where
  "COOKIE_COOKIE_KEY_LABEL = [0x63, 0x6f, 0x6f, 0x6b, 0x69, 0x65, 0x2d, 0x2d]"

record cookie_macs =
  mac1 :: bytes
  mac2 :: bytes

record cookie_maker =
  cm_mac1_key :: bytes
  cm_cookie_key :: bytes
  cm_cookie_valid :: bool
  cm_cookie :: bytes
  cm_cookie_birthdate :: sbintime
  cm_mac1_sent :: bool
  cm_mac1_last :: bytes

record cookie_checker =
  cc_mac1_key :: bytes
  cc_cookie_key :: bytes
  cc_secret_birthdate :: sbintime
  cc_secret :: bytes

record cookie_globals =
  ratelimit_v4 :: ratelimit
  ratelimit_v6 :: ratelimit

subsection \<open>Keys and MACs\<close>

definition precompute_key :: "bytes \<Rightarrow> bytes \<Rightarrow> bytes" where
  "precompute_key input label =
     (let blake = blake2s_init COOKIE_KEY_SIZE;
          blake = blake2s_update blake label;
          blake = blake2s_update blake input
      in blake2s_final blake)"

definition macs_mac1 :: "cookie_macs \<Rightarrow> bytes \<Rightarrow> bytes \<Rightarrow> cookie_macs" where
  "macs_mac1 macs buf key =
     (let state = blake2s_init_key COOKIE_MAC_SIZE key;
          state = blake2s_update state buf
      in macs\<lparr>mac1 := blake2s_final state\<rparr>)"

definition macs_mac2 :: "cookie_macs \<Rightarrow> bytes \<Rightarrow> bytes \<Rightarrow> cookie_macs" where
  "macs_mac2 macs buf key =
     (let state = blake2s_init_key COOKIE_MAC_SIZE key;
          state = blake2s_update state buf;
          state = blake2s_update state (mac1 macs)
      in macs\<lparr>mac2 := blake2s_final state\<rparr>)"

definition timingsafe_bcmp :: "bytes \<Rightarrow> bytes \<Rightarrow> bool" where
  "timingsafe_bcmp a b \<longleftrightarrow> ct_diff 0 a b \<noteq> 0"

subsection \<open>Checker\<close>

definition cookie_init :: "bool \<Rightarrow> bytes \<Rightarrow> bytes \<Rightarrow> cookie_globals" where
  "cookie_init apple secret4 secret6 =
     \<lparr>ratelimit_v4 = ratelimit_init apple secret4, ratelimit_v6 = ratelimit_init apple secret6\<rparr>"

definition cookie_deinit :: "cookie_globals \<Rightarrow> sbintime \<Rightarrow> cookie_globals" where
  "cookie_deinit g now =
     \<lparr>ratelimit_v4 = ratelimit_deinit (ratelimit_v4 g) now, ratelimit_v6 = ratelimit_deinit (ratelimit_v6 g) now\<rparr>"

definition cookie_checker_init :: cookie_checker where
  "cookie_checker_init =
     \<lparr>cc_mac1_key = replicate 32 0, cc_cookie_key = replicate 32 0,
      cc_secret_birthdate = 0, cc_secret = replicate 32 0\<rparr>"

definition cookie_checker_free :: "cookie_checker \<Rightarrow> cookie_checker" where
  "cookie_checker_free cc =
     \<lparr>cc_mac1_key = replicate 32 0, cc_cookie_key = replicate 32 0,
      cc_secret_birthdate = 0, cc_secret = replicate 32 0\<rparr>"

definition cookie_checker_update :: "cookie_checker \<Rightarrow> bytes option \<Rightarrow> cookie_checker" where
  "cookie_checker_update cc key =
     (case key of
        Some k \<Rightarrow> cc\<lparr>cc_mac1_key := precompute_key k COOKIE_MAC1_KEY_LABEL,
                     cc_cookie_key := precompute_key k COOKIE_COOKIE_KEY_LABEL\<rparr>
      | None \<Rightarrow> cc\<lparr>cc_mac1_key := replicate COOKIE_KEY_SIZE 0, cc_cookie_key := replicate COOKIE_KEY_SIZE 0\<rparr>)"

text \<open>\<open>rnd\<close> is drawn for a new secret, \<open>rnd'\<close> for the cookie of an address of another family.\<close>

definition make_cookie :: "cookie_checker \<Rightarrow> sockaddr \<Rightarrow> sbintime \<Rightarrow> bytes \<Rightarrow> bytes \<Rightarrow> cookie_checker \<times> bytes" where
  "make_cookie cc sa now rnd rnd' =
     (let cc = (if timer_expired now (cc_secret_birthdate cc) COOKIE_SECRET_MAX_AGE 0
                then cc\<lparr>cc_secret := rnd, cc_secret_birthdate := now\<rparr> else cc);
          state = blake2s_init_key COOKIE_COOKIE_SIZE (cc_secret cc)
      in (case sa of
            Sin addr port \<Rightarrow> (cc, blake2s_final (blake2s_update (blake2s_update state addr) port))
          | Sin6 addr port \<Rightarrow> (cc, blake2s_final (blake2s_update (blake2s_update state addr) port))
          | Sa_other \<Rightarrow> (cc, rnd')))"

definition cookie_checker_create_payload ::
    "cookie_checker \<Rightarrow> cookie_macs \<Rightarrow> bytes \<Rightarrow> sockaddr \<Rightarrow> sbintime \<Rightarrow> bytes \<Rightarrow> bytes \<Rightarrow> cookie_checker \<times> bytes" where
  "cookie_checker_create_payload cc macs nonce sa now rnd rnd' =
     (let (cc, cookie) = make_cookie cc sa now rnd rnd'
      in (cc, xchacha20_poly1305_encrypt cookie (mac1 macs) nonce (cc_cookie_key cc)))"

definition cookie_checker_validate_macs ::
    "cookie_globals \<Rightarrow> cookie_checker \<Rightarrow> cookie_macs \<Rightarrow> bytes \<Rightarrow> bool \<Rightarrow> sockaddr \<Rightarrow> u64
     \<Rightarrow> sbintime \<Rightarrow> bytes \<Rightarrow> bytes \<Rightarrow> bool \<Rightarrow> errno \<times> cookie_globals \<times> cookie_checker" where
  "cookie_checker_validate_macs g cc macs buf check_cookie sa vnet now rnd rnd' alloc_ok =
     (let our_macs = macs_mac1 \<lparr>mac1 = [], mac2 = []\<rparr> buf (cc_mac1_key cc)
      in if timingsafe_bcmp (mac1 our_macs) (mac1 macs) then (EINVAL, g, cc)
         else if check_cookie then
           let (cc', cookie) = make_cookie cc sa now rnd rnd';
               our_macs = macs_mac2 our_macs buf cookie
           in if timingsafe_bcmp (mac2 our_macs) (mac2 macs) then (EAGAIN, g, cc')
              else (case sa of
                      Sin a p \<Rightarrow>
                        (case ratelimit_allow (ratelimit_v4 g) sa vnet now alloc_ok of
                           (e, rl) \<Rightarrow> (e, g\<lparr>ratelimit_v4 := rl\<rparr>, cc'))
                    | Sin6 a p \<Rightarrow>
                        (case ratelimit_allow (ratelimit_v6 g) sa vnet now alloc_ok of
                           (e, rl) \<Rightarrow> (e, g\<lparr>ratelimit_v6 := rl\<rparr>, cc'))
                    | Sa_other \<Rightarrow> (EAFNOSUPPORT, g, cc'))
         else (OK, g, cc))"

subsection \<open>Maker\<close>

definition cookie_maker_init :: "bytes \<Rightarrow> cookie_maker" where
  "cookie_maker_init key =
     \<lparr>cm_mac1_key = precompute_key key COOKIE_MAC1_KEY_LABEL,
      cm_cookie_key = precompute_key key COOKIE_COOKIE_KEY_LABEL,
      cm_cookie_valid = False, cm_cookie = replicate 16 0, cm_cookie_birthdate = 0,
      cm_mac1_sent = False, cm_mac1_last = replicate 16 0\<rparr>"

definition cookie_maker_free :: "cookie_maker \<Rightarrow> cookie_maker" where
  "cookie_maker_free cm =
     \<lparr>cm_mac1_key = replicate 32 0, cm_cookie_key = replicate 32 0, cm_cookie_valid = False,
      cm_cookie = replicate 16 0, cm_cookie_birthdate = 0, cm_mac1_sent = False, cm_mac1_last = replicate 16 0\<rparr>"

definition cookie_maker_consume_payload ::
    "cookie_maker \<Rightarrow> bytes \<Rightarrow> bytes \<Rightarrow> sbintime \<Rightarrow> errno \<times> cookie_maker" where
  "cookie_maker_consume_payload cm nonce ecookie now =
     (if \<not> cm_mac1_sent cm then (ETIMEDOUT, cm)
      else
        (case xchacha20_poly1305_decrypt ecookie (cm_mac1_last cm) nonce (cm_cookie_key cm) of
           None \<Rightarrow> (EINVAL, cm)
         | Some cookie \<Rightarrow>
             (OK, cm\<lparr>cm_cookie := cookie, cm_cookie_birthdate := now,
                     cm_cookie_valid := True, cm_mac1_sent := False\<rparr>)))"

definition cookie_maker_mac :: "cookie_maker \<Rightarrow> bytes \<Rightarrow> sbintime \<Rightarrow> cookie_maker \<times> cookie_macs" where
  "cookie_maker_mac cm buf now =
     (let macs = macs_mac1 \<lparr>mac1 = [], mac2 = []\<rparr> buf (cm_mac1_key cm);
          cm = cm\<lparr>cm_mac1_last := mac1 macs, cm_mac1_sent := True\<rparr>
      in if cm_cookie_valid cm \<and>
            \<not> timer_expired now (cm_cookie_birthdate cm) (COOKIE_SECRET_MAX_AGE - COOKIE_SECRET_LATENCY) 0
         then (cm, macs_mac2 macs buf (cm_cookie cm))
         else (cm\<lparr>cm_cookie_valid := False\<rparr>, macs\<lparr>mac2 := replicate COOKIE_MAC_SIZE 0\<rparr>))"

subsection \<open>Well-formed states\<close>

definition checker_ok :: "cookie_checker \<Rightarrow> bool" where
  "checker_ok cc \<longleftrightarrow> length (cc_mac1_key cc) = 32 \<and> length (cc_cookie_key cc) = 32 \<and> length (cc_secret cc) = 32"

definition maker_ok :: "cookie_maker \<Rightarrow> bool" where
  "maker_ok cm \<longleftrightarrow> length (cm_mac1_key cm) = 32 \<and> length (cm_cookie_key cm) = 32 \<and>
     length (cm_cookie cm) = 16 \<and> length (cm_mac1_last cm) = 16"

text \<open>The maker talks to the owner of the public key \<open>K\<close>; the checker answers for \<open>K\<close>.\<close>

definition maker_for :: "bytes \<Rightarrow> cookie_maker \<Rightarrow> bool" where
  "maker_for K cm \<longleftrightarrow> maker_ok cm \<and> cm_mac1_key cm = precompute_key K COOKIE_MAC1_KEY_LABEL \<and>
     cm_cookie_key cm = precompute_key K COOKIE_COOKIE_KEY_LABEL"

definition checker_for :: "bytes \<Rightarrow> cookie_checker \<Rightarrow> bool" where
  "checker_for K cc \<longleftrightarrow> checker_ok cc \<and> cc_mac1_key cc = precompute_key K COOKIE_MAC1_KEY_LABEL \<and>
     cc_cookie_key cc = precompute_key K COOKIE_COOKIE_KEY_LABEL"

lemma timingsafe_bcmp_neq: "length a = length b \<Longrightarrow> timingsafe_bcmp a b \<longleftrightarrow> a \<noteq> b"
  by (simp add: timingsafe_bcmp_def ct_diff_zero)

lemma precompute_key_spec: "precompute_key input label = spec_blake2s 32 [] (label @ input)"
  by (simp add: precompute_key_def COOKIE_KEY_SIZE_def Let_def blake2s_update_one)

lemma length_precompute_key [simp, wg_len]: "length (precompute_key input label) = 32"
  by (simp add: precompute_key_spec)

lemma macs_mac1_spec: "length key = 32 \<Longrightarrow> macs_mac1 m buf key = m\<lparr>mac1 := spec_blake2s 16 key buf\<rparr>"
  by (cases key) (simp_all add: macs_mac1_def COOKIE_MAC_SIZE_def blake2s_update_one)

lemma macs_mac2_spec: "length key = 16 \<Longrightarrow> macs_mac2 m buf key = m\<lparr>mac2 := spec_blake2s 16 key (buf @ mac1 m)\<rparr>"
  by (cases key) (simp_all add: macs_mac2_def COOKIE_MAC_SIZE_def blake2s_update_one)

lemma checker_for_update: "checker_ok cc \<Longrightarrow> checker_for K (cookie_checker_update cc (Some K))"
  by (simp add: checker_for_def checker_ok_def cookie_checker_update_def)

lemma checker_ok_init: "checker_ok cookie_checker_init"
  by (simp add: checker_ok_def cookie_checker_init_def)

lemma maker_for_init: "maker_for K (cookie_maker_init K)"
  by (simp add: maker_for_def maker_ok_def cookie_maker_init_def)

lemma make_cookie_spec:
  assumes "checker_ok cc" "length rnd = 32" "length rnd' = 16" "make_cookie cc sa now rnd rnd' = (cc', cookie)"
  shows "checker_ok cc' \<and> length cookie = 16 \<and> cc_mac1_key cc' = cc_mac1_key cc \<and>
    cc_cookie_key cc' = cc_cookie_key cc \<and>
    (case sa of Sin a p \<Rightarrow> cookie = spec_blake2s 16 (cc_secret cc') (a @ p)
     | Sin6 a p \<Rightarrow> cookie = spec_blake2s 16 (cc_secret cc') (a @ p) | Sa_other \<Rightarrow> True)"
proof -
  have "cc_secret c \<noteq> []" if "checker_ok c" for c using that by (auto simp: checker_ok_def)
  moreover have "rnd \<noteq> []" using assms(2) by auto
  ultimately show ?thesis
    using assms
    by (auto simp: make_cookie_def Let_def COOKIE_COOKIE_SIZE_def checker_ok_def blake2s_update_one
        split: sockaddr.splits if_splits)
qed

lemma make_cookie_fresh:
  assumes "\<not> timer_expired now (cc_secret_birthdate cc) COOKIE_SECRET_MAX_AGE 0"
  shows "fst (make_cookie cc sa now rnd rnd') = cc"
  using assms by (auto simp: make_cookie_def Let_def split: sockaddr.splits)

lemma cookie_maker_mac_spec:
  assumes "maker_ok cm" "cookie_maker_mac cm buf now = (cm', macs)"
  shows "maker_ok cm' \<and> cm_mac1_key cm' = cm_mac1_key cm \<and> cm_cookie_key cm' = cm_cookie_key cm \<and>
    cm_mac1_sent cm' \<and> mac1 macs = spec_blake2s 16 (cm_mac1_key cm) buf \<and> cm_mac1_last cm' = mac1 macs \<and>
    length (mac2 macs) = 16 \<and>
    (cm_cookie_valid cm \<and> \<not> timer_expired now (cm_cookie_birthdate cm) 115 0
      \<longrightarrow> mac2 macs = spec_blake2s 16 (cm_cookie cm) (buf @ mac1 macs) \<and> cm_cookie_valid cm') \<and>
    (\<not> (cm_cookie_valid cm \<and> \<not> timer_expired now (cm_cookie_birthdate cm) 115 0)
      \<longrightarrow> mac2 macs = replicate 16 0 \<and> \<not> cm_cookie_valid cm')"
  using assms
  by (auto simp: cookie_maker_mac_def Let_def maker_ok_def macs_mac1_spec macs_mac2_spec
      COOKIE_SECRET_MAX_AGE_def COOKIE_SECRET_LATENCY_def COOKIE_MAC_SIZE_def split: if_splits)

text \<open>What the checker decides, in terms of the hash specification.\<close>

lemma validate_macs_spec:
  assumes "checker_ok cc" "length (mac1 macs) = 16" "length (mac2 macs) = 16" "length rnd = 32" "length rnd' = 16"
    "make_cookie cc sa now rnd rnd' = (cc', cookie)"
  shows "cookie_checker_validate_macs g cc macs buf chk sa vnet now rnd rnd' a =
    (if mac1 macs \<noteq> spec_blake2s 16 (cc_mac1_key cc) buf then (EINVAL, g, cc)
     else if \<not> chk then (OK, g, cc)
     else if mac2 macs \<noteq> spec_blake2s 16 cookie (buf @ mac1 macs) then (EAGAIN, g, cc')
     else (case sa of
        Sin _ _ \<Rightarrow> (fst (ratelimit_allow (ratelimit_v4 g) sa vnet now a),
            g\<lparr>ratelimit_v4 := snd (ratelimit_allow (ratelimit_v4 g) sa vnet now a)\<rparr>, cc')
      | Sin6 _ _ \<Rightarrow> (fst (ratelimit_allow (ratelimit_v6 g) sa vnet now a),
            g\<lparr>ratelimit_v6 := snd (ratelimit_allow (ratelimit_v6 g) sa vnet now a)\<rparr>, cc')
      | Sa_other \<Rightarrow> (EAFNOSUPPORT, g, cc')))"
proof -
  have k: "length (cc_mac1_key cc) = 32" using assms(1) by (simp add: checker_ok_def)
  have c: "length cookie = 16" using make_cookie_spec [OF assms(1,4,5,6)] by simp
  show ?thesis
    using assms(2,3) k c
    by (auto simp: cookie_checker_validate_macs_def Let_def macs_mac1_spec macs_mac2_spec
        timingsafe_bcmp_neq assms(6) split: sockaddr.split prod.split)
qed

subsection \<open>Properties\<close>

text \<open>with no cookie demanded, the checker of the owner of \<open>K\<close> accepts a message exactly when
  its mac1 is the one a maker for \<open>K\<close> computes on the same bytes; it changes nothing, and with a
  wrong mac1 it answers \<open>EINVAL\<close> and changes nothing even under load (no secret is drawn, no
  limiter entry is made).\<close>

theorem mac1_accept_iff:
  assumes "maker_for K cm" "checker_for K cc" "length (mac1 macs) = 16" "length (mac2 macs) = 16"
    "length rnd = 32" "length rnd' = 16"
  shows "cookie_checker_validate_macs g cc macs buf False sa vnet now rnd rnd' a =
      (if mac1 macs = mac1 (snd (cookie_maker_mac cm buf now')) then OK else EINVAL, g, cc) \<and>
    (mac1 macs \<noteq> mac1 (snd (cookie_maker_mac cm buf now')) \<longrightarrow>
      cookie_checker_validate_macs g cc macs buf chk sa vnet now rnd rnd' a = (EINVAL, g, cc))"
proof -
  obtain cm' ms where m: "cookie_maker_mac cm buf now' = (cm', ms)" by fastforce
  obtain cc' ck where c: "make_cookie cc sa now rnd rnd' = (cc', ck)" by fastforce
  have "checker_ok cc" "maker_ok cm" "cc_mac1_key cc = cm_mac1_key cm"
    using assms(1,2) by (simp_all add: maker_for_def checker_for_def)
  then show ?thesis
    using cookie_maker_mac_spec [OF _ m] assms(3-6) m by (simp add: validate_macs_spec [OF _ _ _ _ _ c])
qed

lemma mac1_accept_iff_witness:
  "cookie_checker_validate_macs (cookie_init True [] []) (cookie_checker_update cookie_checker_init (Some [1]))
     \<lparr>mac1 = mac1 (snd (cookie_maker_mac (cookie_maker_init [1]) [2, 3] 0)), mac2 = replicate 16 0\<rparr>
     [2, 3] False Sa_other 0 5 (replicate 32 0) (replicate 16 0) True
   = (OK, cookie_init True [] [], cookie_checker_update cookie_checker_init (Some [1]))"
proof -
  obtain cm ms where m: "cookie_maker_mac (cookie_maker_init [1]) [2, 3] 0 = (cm, ms)" by fastforce
  have "length (mac1 ms) = 16"
    using cookie_maker_mac_spec [OF _ m] maker_for_init [of "[1]"] by (simp add: maker_for_def)
  with mac1_accept_iff [OF maker_for_init [of "[1]"] checker_for_update [OF checker_ok_init],
    of "\<lparr>mac1 = mac1 ms, mac2 = replicate 16 0\<rparr>" "replicate 32 0" "replicate 16 0"
       "cookie_init True [] []" "[2, 3]" Sa_other 0 5 True 0 False] m
  show ?thesis by simp
qed

text \<open>C35: the cookie dialogue works. A maker for \<open>K\<close> sends a message; the checker of \<open>K\<close> answers
  with the encrypted cookie for the sender's address; the maker accepts it, and the next message
  it authenticates within 115 s passes both MAC checks under load while the checker's secret is
  not yet 120 s old: the answer is the verdict of the rate limiter of the address family.\<close>

theorem cookie_dialogue:
  assumes "maker_for K cm" "checker_for K cc" "length rnd = 32" "length rnd' = 16"
    "sa = Sin addr port \<or> sa = Sin6 addr port"
    "cookie_maker_mac cm buf1 t1 = (cm1, macs1)"
    "cookie_checker_create_payload cc macs1 nonce sa t2 rnd rnd' = (cc1, ecookie)"
    "cookie_maker_consume_payload cm1 nonce ecookie t3 = (e, cm2)"
    "cookie_maker_mac cm2 buf2 t4 = (cm3, macs2)"
    "t4 \<le> t3 + 115 * SBT_1S" "t5 \<le> cc_secret_birthdate cc1 + 120 * SBT_1S"
    "length rnd2 = 32" "length rnd2' = 16"
  shows "e = OK \<and> length ecookie = 32 \<and>
    fst (cookie_checker_validate_macs g cc1 macs2 buf2 True sa vnet t5 rnd2 rnd2' a)
      = fst (ratelimit_allow (case sa of Sin _ _ \<Rightarrow> ratelimit_v4 g | _ \<Rightarrow> ratelimit_v6 g) sa vnet t5 a)"
proof -
  have ok: "checker_ok cc" "maker_ok cm" "cc_mac1_key cc = cm_mac1_key cm" "cc_cookie_key cc = cm_cookie_key cm"
    using assms(1,2) by (simp_all add: maker_for_def checker_for_def)
  obtain ck where c: "make_cookie cc sa t2 rnd rnd' = (cc1, ck)"
     "ecookie = xchacha20_poly1305_encrypt ck (mac1 macs1) nonce (cc_cookie_key cc1)"
    using assms(7) by (auto simp: cookie_checker_create_payload_def split: prod.splits)
  note mk = make_cookie_spec [OF ok(1) assms(3,4) c(1)]
  note m1 = cookie_maker_mac_spec [OF ok(2) assms(6)]
  have e: "e = OK \<and> cm2 = cm1\<lparr>cm_cookie := ck, cm_cookie_birthdate := t3, cm_cookie_valid := True, cm_mac1_sent := False\<rparr>"
    using assms(8) m1 mk ok(4) by (simp add: cookie_maker_consume_payload_def c(2) xbox.open_seal)
  then have ok2: "maker_ok cm2" "cm_cookie_valid cm2" "cm_cookie_birthdate cm2 = t3" "cm_cookie cm2 = ck"
    "cm_mac1_key cm2 = cm_mac1_key cm"
    using m1 mk ok(2) by (simp_all add: maker_ok_def)
  note m2 = cookie_maker_mac_spec [OF ok2(1) assms(9)]
  have fresh: "\<not> timer_expired t4 t3 115 0" using assms(10) by (simp add: timer_expired_def nstosbt_def)
  have fresh': "\<not> timer_expired t5 (cc_secret_birthdate cc1) COOKIE_SECRET_MAX_AGE 0"
    using assms(11) by (simp add: timer_expired_def nstosbt_def COOKIE_SECRET_MAX_AGE_def)
  obtain ck2 where c2: "make_cookie cc1 sa t5 rnd2 rnd2' = (cc1, ck2)"
    using make_cookie_fresh [OF fresh', of sa rnd2 rnd2'] by (metis prod.collapse)
  have ck2: "ck2 = ck"
    using make_cookie_spec [OF _ assms(12,13) c2] mk assms(5) by auto
  have macs: "length (mac1 macs2) = 16" "length (mac2 macs2) = 16" using m2 by simp_all
  show ?thesis
    using e m2 ok2 fresh mk ok(3) assms(5) ck2 macs xbox.length_seal [of ck "mac1 macs1" nonce "cc_cookie_key cc1"] c(2)
    by (auto simp: validate_macs_spec [OF _ macs assms(12,13) c2])
qed

lemma cookie_dialogue_witness:
  "\<exists>cm1 macs1 ecookie cm2 macs2.
     cookie_maker_mac (cookie_maker_init [1]) [2, 3] 0 = (cm1, macs1) \<and>
     cookie_checker_create_payload (cookie_checker_update cookie_checker_init (Some [1])) macs1 (replicate 24 9)
       (Sin [10, 0, 0, 1] [0, 80]) 0 (replicate 32 0) (replicate 16 0)
       = (cookie_checker_update cookie_checker_init (Some [1]), ecookie) \<and>
     cookie_maker_consume_payload cm1 (replicate 24 9) ecookie 0 = (OK, cm2) \<and>
     snd (cookie_maker_mac cm2 [2, 3] 5) = macs2 \<and>
     fst (cookie_checker_validate_macs (cookie_init True [] []) (cookie_checker_update cookie_checker_init (Some [1]))
       macs2 [2, 3] True (Sin [10, 0, 0, 1] [0, 80]) 0 6 (replicate 32 0) (replicate 16 0) True)
     = fst (ratelimit_allow (ratelimit_init True []) (Sin [10, 0, 0, 1] [0, 80]) 0 6 True)"
proof -
  let ?cc = "cookie_checker_update cookie_checker_init (Some [1])"
  let ?sa = "Sin [10, 0, 0, 1] [0, 80]"
  obtain cm1 macs1 where 1: "cookie_maker_mac (cookie_maker_init [1]) [2, 3] 0 = (cm1, macs1)" by fastforce
  have b: "cc_secret_birthdate ?cc = 0" by (simp add: cookie_checker_update_def cookie_checker_init_def)
  then have "\<not> timer_expired 0 (cc_secret_birthdate ?cc) COOKIE_SECRET_MAX_AGE 0"
    by (simp add: timer_expired_def nstosbt_def SBT_1S_def COOKIE_SECRET_MAX_AGE_def)
  then obtain ecookie where 2: "cookie_checker_create_payload ?cc macs1 (replicate 24 9) ?sa 0
      (replicate 32 0) (replicate 16 0) = (?cc, ecookie)"
    using make_cookie_fresh [of 0 ?cc ?sa "replicate 32 0" "replicate 16 0"]
    by (cases "make_cookie ?cc ?sa 0 (replicate 32 0) (replicate 16 0)")
      (simp add: cookie_checker_create_payload_def)
  obtain e cm2 where 3: "cookie_maker_consume_payload cm1 (replicate 24 9) ecookie 0 = (e, cm2)" by fastforce
  obtain cm3 macs2 where 4: "cookie_maker_mac cm2 [2, 3] 5 = (cm3, macs2)" by fastforce
  note d = cookie_dialogue [OF maker_for_init checker_for_update [OF checker_ok_init] _ _ _ 1 2 3 4,
      of "[10, 0, 0, 1]" "[0, 80]" 6 "replicate 32 0" "replicate 16 0" "cookie_init True [] []" 0 True]
  show ?thesis using d b 1 2 3 4 by (simp add: SBT_1S_def cookie_init_def)
qed

text \<open>A cookie reply is consumed only as the answer to a message sent since the last one, and
  only when it is the sealed form, under the responder's cookie key and bound to that message's
  mac1, of the cookie stored; any other reply leaves the maker as it was, and a second reply is
  refused with \<open>ETIMEDOUT\<close> until another message is authenticated.\<close>

theorem cookie_consume_once:
  "(case cookie_maker_consume_payload cm nonce ecookie now of
      (OK, cm') \<Rightarrow> cm_mac1_sent cm \<and> cm_cookie_valid cm' \<and> cm_cookie_birthdate cm' = now \<and>
        ecookie = xchacha20_poly1305_encrypt (cm_cookie cm') (cm_mac1_last cm) nonce (cm_cookie_key cm) \<and>
        cookie_maker_consume_payload cm' nonce' ecookie' now' = (ETIMEDOUT, cm')
    | (e, cm') \<Rightarrow> cm' = cm \<and> (e = ETIMEDOUT \<longleftrightarrow> \<not> cm_mac1_sent cm) \<and>
        (e = EINVAL \<longleftrightarrow> cm_mac1_sent cm \<and>
          (\<forall>c. ecookie \<noteq> xchacha20_poly1305_encrypt c (cm_mac1_last cm) nonce (cm_cookie_key cm))))"
proof (cases "xchacha20_poly1305_decrypt ecookie (cm_mac1_last cm) nonce (cm_cookie_key cm)")
  case None
  then show ?thesis
    using xbox.open_None [of ecookie "cm_mac1_last cm" nonce "cm_cookie_key cm"]
    by (simp add: cookie_maker_consume_payload_def)
next
  case (Some c)
  then show ?thesis
    using xbox.open_iff [of ecookie "cm_mac1_last cm" nonce "cm_cookie_key cm" c]
    by (simp add: cookie_maker_consume_payload_def xbox.open_seal)
qed

end
