(* ===== verification/SessionConfig.thy ===== *)
theory SessionConfig
  imports Text Cookie
begin

text \<open>
  The data model and the configuration parser of \<^verbatim>\<open>src/wg_session.c\<close>: \<^verbatim>\<open>struct wgs_peer\<close>, the
  configuration part of \<^verbatim>\<open>struct wg_session\<close>, CIDR, interface address and endpoint parsing, and
  \<^verbatim>\<open>parse_config_text\<close>.

  \<^item> The resolver and the address conversions of the C library are the record \<open>netlib\<close>.
  \<^item> An array with its count is a list: \<^verbatim>\<open>peers[]\<close> with \<^verbatim>\<open>n_peers\<close> is \<open>s_peers\<close>, of at most
    \<^verbatim>\<open>WGS_MAX_PEERS\<close> elements. A pointer to a peer is its index in that list; a pointer to a
    \<^verbatim>\<open>struct noise_remote\<close> is its address in the heap of \<open>NoiseState\<close>.
  \<^item> \<^verbatim>\<open>struct sockaddr_storage\<close> is a \<open>sockaddr\<close>, a zeroed one \<open>Sa_other\<close>; scope and flow
    fields of IPv6 addresses, which the library only hands back, are not kept.
\<close>

subsection \<open>The C library\<close>

text \<open>\<^verbatim>\<open>inet_pton\<close> and \<^verbatim>\<open>inet_ntop\<close> by family, \<^verbatim>\<open>getaddrinfo\<close> for a datagram socket: the first address
  of the result with its length.\<close>

record netlib =
  inet_pton4 :: "string \<Rightarrow> bytes option"
  inet_pton6 :: "string \<Rightarrow> bytes option"
  inet_ntop4 :: "bytes \<Rightarrow> string"
  inet_ntop6 :: "bytes \<Rightarrow> string"
  getaddrinfo :: "string \<Rightarrow> string \<Rightarrow> (sockaddr \<times> nat) option"

subsection \<open>Data model\<close>

definition WG_KEY_LEN :: nat where "WG_KEY_LEN = 32"
definition WG_AUTHTAG_LEN :: nat where "WG_AUTHTAG_LEN = 16"
definition WGS_MAX_ALLOWED_CIDRS :: nat where "WGS_MAX_ALLOWED_CIDRS = 16"
definition WGS_MAX_IFACE_ADDRS :: nat where "WGS_MAX_IFACE_ADDRS = 4"
definition WGS_MAX_PEERS :: nat where "WGS_MAX_PEERS = 8"

datatype af = AF_INET | AF_INET6

record wgs_allowed_cidr =
  c_family :: af
  c_addr :: bytes
  c_prefix_len :: int

record wgs_iface_addr =
  a_family :: af
  a_addr_str :: string
  a_prefix_len :: int

record wgs_peer =
  p_active :: bool
  p_pubkey :: bytes
  p_psk :: bytes
  p_has_psk :: bool
  p_has_endpoint :: bool
  p_endpoint_host :: string
  p_endpoint_port :: u16
  p_endpoint :: sockaddr
  p_endpoint_len :: nat
  p_allowed :: "wgs_allowed_cidr list"
  p_pk_sec :: int
  p_remote :: "nat option"
  p_cookie :: cookie_maker
  p_cookie_inited :: bool
  p_hs_pending :: bool
  p_hs_sent_at :: int
  p_hs_local_idx :: u32
  p_hs_attempts :: int
  p_keypair_birth :: int
  p_last_authd_tx :: int
  p_tx_pkts :: u64
  p_tx_bytes :: u64
  p_rx_pkts :: u64
  p_rx_bytes :: u64
  p_rx_dropped_aips :: u64

definition zero_cookie_maker :: cookie_maker where
  "zero_cookie_maker =
     \<lparr>cm_mac1_key = replicate 32 0, cm_cookie_key = replicate 32 0, cm_cookie_valid = False,
      cm_cookie = replicate 16 0, cm_cookie_birthdate = 0, cm_mac1_sent = False, cm_mac1_last = replicate 16 0\<rparr>"

text \<open>A peer slot as \<^verbatim>\<open>calloc\<close> and \<^verbatim>\<open>memset\<close> leave it.\<close>

definition zero_peer :: wgs_peer where
  "zero_peer =
     \<lparr>p_active = False, p_pubkey = replicate 32 0, p_psk = replicate 32 0, p_has_psk = False,
      p_has_endpoint = False, p_endpoint_host = [], p_endpoint_port = 0, p_endpoint = Sa_other,
      p_endpoint_len = 0, p_allowed = [], p_pk_sec = 0, p_remote = None, p_cookie = zero_cookie_maker,
      p_cookie_inited = False, p_hs_pending = False, p_hs_sent_at = 0, p_hs_local_idx = 0,
      p_hs_attempts = 0, p_keypair_birth = 0, p_last_authd_tx = 0, p_tx_pkts = 0, p_tx_bytes = 0,
      p_rx_pkts = 0, p_rx_bytes = 0, p_rx_dropped_aips = 0\<rparr>"

text \<open>The fields of \<^verbatim>\<open>struct wg_session\<close> that the parser fills.\<close>

record wg_config =
  s_private_key :: bytes
  s_listen_port :: u16
  s_if_addrs :: "wgs_iface_addr list"
  s_peers :: "wgs_peer list"

definition zero_config :: wg_config where
  "zero_config = \<lparr>s_private_key = replicate 32 0, s_listen_port = 0, s_if_addrs = [], s_peers = []\<rparr>"

subsection \<open>Addresses\<close>

text \<open>The text before a slash and the prefix length after it, \<open>-1\<close> without a slash.\<close>

definition cidr_parts :: "string \<Rightarrow> string \<times> int" where
  "cidr_parts s = (case strchr (CHR ''/'') s of None \<Rightarrow> (s, - 1) | Some (a, b) \<Rightarrow> (a, atoi b))"

definition parse_cidr :: "netlib \<Rightarrow> string \<Rightarrow> wgs_allowed_cidr option" where
  "parse_cidr nl s =
     (if length s \<ge> 64 then None
      else
        let (tmp, prefix) = cidr_parts s in
        (case inet_pton4 nl tmp of
           Some a \<Rightarrow>
             let plen = (if prefix < 0 then 32 else prefix) in
             if plen < 0 \<or> plen > 32 then None
             else Some \<lparr>c_family = AF_INET, c_addr = a @ replicate 12 0, c_prefix_len = plen\<rparr>
         | None \<Rightarrow>
             (case inet_pton6 nl tmp of
                Some a \<Rightarrow>
                  let plen = (if prefix < 0 then 128 else prefix) in
                  if plen < 0 \<or> plen > 128 then None
                  else Some \<lparr>c_family = AF_INET6, c_addr = a, c_prefix_len = plen\<rparr>
              | None \<Rightarrow> None)))"

definition parse_iface_addr :: "netlib \<Rightarrow> string \<Rightarrow> wgs_iface_addr option" where
  "parse_iface_addr nl s =
     (if length s \<ge> 64 then None
      else
        let (tmp, prefix) = cidr_parts s in
        (case inet_pton4 nl tmp of
           Some _ \<Rightarrow>
             Some \<lparr>a_family = AF_INET, a_addr_str = take 63 tmp, a_prefix_len = (if prefix < 0 then 32 else prefix)\<rparr>
         | None \<Rightarrow>
             (case inet_pton6 nl tmp of
                Some _ \<Rightarrow>
                  Some \<lparr>a_family = AF_INET6, a_addr_str = take 63 tmp,
                        a_prefix_len = (if prefix < 0 then 128 else prefix)\<rparr>
              | None \<Rightarrow> None)))"

text \<open>The two list parsers return the status and the entries: those read before an error stay.\<close>

fun cidr_tokens :: "netlib \<Rightarrow> string list \<Rightarrow> wgs_allowed_cidr list \<Rightarrow> int \<times> wgs_allowed_cidr list" where
  "cidr_tokens nl [] acc = (0, acc)"
| "cidr_tokens nl (t # ts) acc =
     (let p = wgs_trim t in
      if p = [] then cidr_tokens nl ts acc
      else if length acc \<ge> WGS_MAX_ALLOWED_CIDRS then (- 1, acc)
      else (case parse_cidr nl p of
              None \<Rightarrow> (- 1, acc)
            | Some c \<Rightarrow> cidr_tokens nl ts (acc @ [c])))"

definition parse_list_cidrs :: "netlib \<Rightarrow> string \<Rightarrow> wgs_peer \<Rightarrow> int \<times> wgs_peer" where
  "parse_list_cidrs nl s peer =
     (if length s \<ge> 512 then (- 1, peer)
      else (case cidr_tokens nl (strtok (CHR '','') s) (p_allowed peer) of
              (rc, cs) \<Rightarrow> (rc, peer\<lparr>p_allowed := cs\<rparr>)))"

fun iface_tokens :: "netlib \<Rightarrow> string list \<Rightarrow> wgs_iface_addr list \<Rightarrow> int \<times> wgs_iface_addr list" where
  "iface_tokens nl [] acc = (0, acc)"
| "iface_tokens nl (t # ts) acc =
     (let p = wgs_trim t in
      if p = [] then iface_tokens nl ts acc
      else if length acc \<ge> WGS_MAX_IFACE_ADDRS then (- 1, acc)
      else (case parse_iface_addr nl p of
              None \<Rightarrow> (- 1, acc)
            | Some a \<Rightarrow> iface_tokens nl ts (acc @ [a])))"

definition parse_list_iface :: "netlib \<Rightarrow> string \<Rightarrow> wg_config \<Rightarrow> int \<times> wg_config" where
  "parse_list_iface nl s sess =
     (if length s \<ge> 256 then (- 1, sess)
      else (case iface_tokens nl (strtok (CHR '','') s) (s_if_addrs sess) of
              (rc, as) \<Rightarrow> (rc, sess\<lparr>s_if_addrs := as\<rparr>)))"

text \<open>The port after the colon, if \<^verbatim>\<open>strtol\<close> reads a number from 1 to 65535.\<close>

definition port_of :: "string \<Rightarrow> u16 option" where
  "port_of s = (let p = strtol s in if p < 1 \<or> p > 65535 then None else Some (of_int p))"

definition split_endpoint :: "string \<Rightarrow> (string \<times> u16) option" where
  "split_endpoint s =
     (case strrchr (CHR '':'') s of
        None \<Rightarrow> None
      | Some (host, rest) \<Rightarrow>
          if length host = 0 \<or> length host \<ge> 128 then None
          else (case port_of rest of None \<Rightarrow> None | Some port \<Rightarrow> Some (host, port)))"

definition resolve_endpoint :: "netlib \<Rightarrow> string \<Rightarrow> u16 \<Rightarrow> (sockaddr \<times> nat) option" where
  "resolve_endpoint nl host port = getaddrinfo nl host (fmt_nat (unat port))"

subsection \<open>The parser\<close>

record parser =
  ps_config :: wg_config
  ps_in_interface :: bool
  ps_in_peer :: bool
  ps_cur_peer :: "nat option"
  ps_got_priv :: bool

definition upd_peer :: "nat \<Rightarrow> (wgs_peer \<Rightarrow> wgs_peer) \<Rightarrow> 'a wg_config_scheme \<Rightarrow> 'a wg_config_scheme" where
  "upd_peer i f c = c\<lparr>s_peers := (s_peers c)[i := f (s_peers c ! i)]\<rparr>"

text \<open>A line that opens a section, and a line \<open>key = value\<close> within one; \<open>None\<close> is the error return.\<close>

definition section_line :: "string \<Rightarrow> parser \<Rightarrow> parser option" where
  "section_line p st =
     (let st = st\<lparr>ps_in_interface := (take 11 p = ''[Interface]''), ps_in_peer := (take 6 p = ''[Peer]'')\<rparr>;
          c = ps_config st
      in if ps_in_peer st then
           if length (s_peers c) \<ge> WGS_MAX_PEERS then None
           else Some (st\<lparr>ps_cur_peer := Some (length (s_peers c)),
                         ps_config := c\<lparr>s_peers := s_peers c @ [zero_peer]\<rparr>\<rparr>)
         else Some st)"

definition interface_key :: "netlib \<Rightarrow> string \<Rightarrow> string \<Rightarrow> parser \<Rightarrow> parser option" where
  "interface_key nl p eq st =
     (let c = ps_config st in
      if p = ''PrivateKey'' then
        (case decode_base64_32 eq of
           None \<Rightarrow> None
         | Some k \<Rightarrow> Some (st\<lparr>ps_config := c\<lparr>s_private_key := k\<rparr>, ps_got_priv := True\<rparr>))
      else if p = ''ListenPort'' then
        (let lp = atoi eq in
         if lp < 1 \<or> lp > 65535 then None
         else Some (st\<lparr>ps_config := c\<lparr>s_listen_port := of_int lp\<rparr>\<rparr>))
      else
        (case parse_list_iface nl eq c of
           (rc, c) \<Rightarrow> if rc \<noteq> 0 then None else Some (st\<lparr>ps_config := c\<rparr>)))"

definition peer_key :: "netlib \<Rightarrow> string \<Rightarrow> string \<Rightarrow> nat \<Rightarrow> wg_config \<Rightarrow> wg_config option" where
  "peer_key nl p eq i c =
     (if p = ''PublicKey'' then
        (case decode_base64_32 eq of
           None \<Rightarrow> None
         | Some k \<Rightarrow> Some (upd_peer i (\<lambda>x. x\<lparr>p_pubkey := k\<rparr>) c))
      else if p = ''Endpoint'' then
        (case split_endpoint eq of
           None \<Rightarrow> None
         | Some (host, port) \<Rightarrow>
             Some (upd_peer i (\<lambda>x. x\<lparr>p_endpoint_host := host, p_endpoint_port := port, p_has_endpoint := True\<rparr>) c))
      else if p = ''PersistentKeepalive'' then
        Some (upd_peer i (\<lambda>x. x\<lparr>p_pk_sec := atoi eq\<rparr>) c)
      else if p = ''PresharedKey'' then
        (case decode_base64_32 eq of
           None \<Rightarrow> None
         | Some k \<Rightarrow> Some (upd_peer i (\<lambda>x. x\<lparr>p_psk := k, p_has_psk := True\<rparr>) c))
      else if p = ''AllowedIPs'' then
        (case parse_list_cidrs nl eq (s_peers c ! i) of
           (rc, peer) \<Rightarrow> if rc \<noteq> 0 then None else Some (upd_peer i (\<lambda>_. peer) c))
      else Some c)"

definition config_line :: "netlib \<Rightarrow> string \<Rightarrow> parser \<Rightarrow> parser option" where
  "config_line nl line st =
     (let p = wgs_trim line in
      if p = [] \<or> hd p = CHR ''#'' \<or> hd p = CHR '';'' then Some st
      else if hd p = CHR ''['' then section_line p st
      else
        (case strchr (CHR ''='') p of
           None \<Rightarrow> Some st
         | Some (p, eq) \<Rightarrow>
             let p = wgs_trim p; eq = wgs_trim eq in
             if ps_in_interface st \<and> (p = ''PrivateKey'' \<or> p = ''ListenPort'' \<or> p = ''Address'')
             then interface_key nl p eq st
             else if ps_in_peer st then
               (case ps_cur_peer st of
                  None \<Rightarrow> Some st
                | Some i \<Rightarrow> map_option (\<lambda>c. st\<lparr>ps_config := c\<rparr>) (peer_key nl p eq i (ps_config st)))
             else Some st))"

fun config_lines :: "netlib \<Rightarrow> string list \<Rightarrow> parser \<Rightarrow> parser option" where
  "config_lines nl [] st = Some st"
| "config_lines nl (l # ls) st =
     (case config_line nl l st of None \<Rightarrow> None | Some st \<Rightarrow> config_lines nl ls st)"

definition parse_config_text :: "netlib \<Rightarrow> string \<Rightarrow> wg_config \<Rightarrow> wg_config option" where
  "parse_config_text nl txt c =
     (case config_lines nl (strtok (CHR 0x0A) (c_string txt))
             \<lparr>ps_config = c, ps_in_interface = False, ps_in_peer = False, ps_cur_peer = None, ps_got_priv = False\<rparr> of
        None \<Rightarrow> None
      | Some st \<Rightarrow>
          let c = ps_config st in
          if \<not> ps_got_priv st \<or> s_peers c = [] then None
          else if list_ex (\<lambda>p. list_all (\<lambda>b. b = 0) (p_pubkey p)) (s_peers c) then None
          else Some c)"

subsection \<open>What the parser guarantees\<close>

text \<open>The lengths of addresses in binary form.\<close>

definition netlib_ok :: "netlib \<Rightarrow> bool" where
  "netlib_ok nl \<longleftrightarrow> (\<forall>s a. inet_pton4 nl s = Some a \<longrightarrow> length a = 4) \<and>
     (\<forall>s a. inet_pton6 nl s = Some a \<longrightarrow> length a = 16)"

definition cidr_ok :: "wgs_allowed_cidr \<Rightarrow> bool" where
  "cidr_ok c \<longleftrightarrow> length (c_addr c) = 16 \<and> 0 \<le> c_prefix_len c \<and>
     c_prefix_len c \<le> (if c_family c = AF_INET then 32 else 128)"

definition peer_ok :: "wgs_peer \<Rightarrow> bool" where
  "peer_ok p \<longleftrightarrow> length (p_pubkey p) = 32 \<and> length (p_psk p) = 32 \<and>
     length (p_allowed p) \<le> WGS_MAX_ALLOWED_CIDRS \<and> (\<forall>c \<in> set (p_allowed p). cidr_ok c) \<and> maker_ok (p_cookie p)"

definition config_ok :: "'a wg_config_scheme \<Rightarrow> bool" where
  "config_ok c \<longleftrightarrow> length (s_private_key c) = 32 \<and> length (s_if_addrs c) \<le> WGS_MAX_IFACE_ADDRS \<and>
     length (s_peers c) \<le> WGS_MAX_PEERS \<and> (\<forall>p \<in> set (s_peers c). peer_ok p)"

lemma zero_peer_ok [simp]: "peer_ok zero_peer"
  by (simp add: peer_ok_def zero_peer_def maker_ok_def zero_cookie_maker_def)

lemma zero_config_ok [simp]: "config_ok zero_config"
  by (simp add: config_ok_def zero_config_def)

lemma decode_base64_length: "decode_base64_32 s = Some k \<Longrightarrow> length k = 32"
  by (auto simp: decode_base64_32_def split: if_splits option.splits)

lemma parse_cidr_ok: "netlib_ok nl \<Longrightarrow> parse_cidr nl s = Some c \<Longrightarrow> cidr_ok c"
  by (auto simp: parse_cidr_def cidr_ok_def netlib_ok_def Let_def case_prod_unfold split: if_splits option.splits)

lemma cidr_tokens_ok:
  "netlib_ok nl \<Longrightarrow> cidr_tokens nl ts acc = (rc, cs) \<Longrightarrow> length acc \<le> WGS_MAX_ALLOWED_CIDRS \<Longrightarrow>
   \<forall>c \<in> set acc. cidr_ok c \<Longrightarrow> length cs \<le> WGS_MAX_ALLOWED_CIDRS \<and> (\<forall>c \<in> set cs. cidr_ok c)"
proof (induction nl ts acc arbitrary: rc cs rule: cidr_tokens.induct)
  case (2 nl t ts acc)
  then show ?case
    by (auto simp: Let_def parse_cidr_ok split: if_splits option.splits)
qed auto

lemma iface_tokens_length:
  "iface_tokens nl ts acc = (rc, as) \<Longrightarrow> length acc \<le> WGS_MAX_IFACE_ADDRS \<Longrightarrow> length as \<le> WGS_MAX_IFACE_ADDRS"
  by (induction nl ts acc arbitrary: rc "as" rule: iface_tokens.induct)
    (auto simp: Let_def split: if_splits option.splits)

lemma parse_list_cidrs_ok:
  "netlib_ok nl \<Longrightarrow> parse_list_cidrs nl s p = (rc, p') \<Longrightarrow> peer_ok p \<Longrightarrow> peer_ok p'"
  using cidr_tokens_ok [of nl]
  by (auto simp: parse_list_cidrs_def peer_ok_def split: if_splits prod.splits)

lemma config_ok_upd:
  assumes "config_ok c" "i < length (s_peers c) \<Longrightarrow> peer_ok (f (s_peers c ! i))"
  shows "config_ok (upd_peer i f c)"
proof (cases "i < length (s_peers c)")
  case True
  then show ?thesis
    using assms set_update_subset_insert [of "s_peers c" i]
    by (fastforce simp: config_ok_def upd_peer_def)
next
  case False
  then show ?thesis using assms(1) by (simp add: not_less list_update_beyond upd_peer_def config_ok_def)
qed

text \<open>Before the session is started no peer has a remote.\<close>

definition not_started :: "'a wg_config_scheme \<Rightarrow> bool" where
  "not_started c \<longleftrightarrow> (\<forall>i < length (s_peers c). p_remote (s_peers c ! i) = None)"

lemma not_started_upd:
  "not_started c \<Longrightarrow> (\<And>p. p_remote (f p) = p_remote p) \<Longrightarrow> not_started (upd_peer i f c)"
  by (cases "i < length (s_peers c)") (auto simp: not_started_def upd_peer_def nth_list_update)

definition parser_ok :: "parser \<Rightarrow> bool" where
  "parser_ok st \<longleftrightarrow> config_ok (ps_config st) \<and> not_started (ps_config st) \<and>
     (\<forall>i. ps_cur_peer st = Some i \<longrightarrow> i < length (s_peers (ps_config st)))"

lemma length_upd_peer [simp]: "length (s_peers (upd_peer i f c)) = length (s_peers c)"
  by (simp add: upd_peer_def)

lemma parse_list_cidrs_remote: "parse_list_cidrs nl s p = (rc, p') \<Longrightarrow> p_remote p' = p_remote p"
  by (auto simp: parse_list_cidrs_def split: if_splits prod.splits)

lemma peer_key_ok:
  assumes "netlib_ok nl" "config_ok c" "not_started c" "i < length (s_peers c)" "peer_key nl p eq i c = Some c'"
  shows "config_ok c' \<and> not_started c' \<and> length (s_peers c') = length (s_peers c)"
proof -
  have p: "peer_ok (s_peers c ! i)" using assms(2,4) by (simp add: config_ok_def)
  have ok: "config_ok (upd_peer i f c)" if "peer_ok (f (s_peers c ! i))" for f
    using config_ok_upd [OF assms(2), of i f] that by blast
  have ns: "not_started (upd_peer i f c)" if "p_remote (f (s_peers c ! i)) = None" for f
    using assms(3) that by (cases "i < length (s_peers c)") (auto simp: not_started_def upd_peer_def nth_list_update)
  have none: "p_remote (s_peers c ! i) = None" using assms(3,4) by (simp add: not_started_def)
  show ?thesis
    using assms(2,3,5) p none
    by (auto simp: peer_key_def Let_def split: if_splits option.splits prod.splits
        intro!: ok ns elim!: parse_list_cidrs_ok [OF assms(1)] dest: parse_list_cidrs_remote)
      (auto simp: peer_ok_def dest: decode_base64_length)
qed

lemma config_line_ok:
  assumes "netlib_ok nl" "parser_ok st" "config_line nl line st = Some st'"
  shows "parser_ok st'"
proof -
  have sec: "section_line p st = Some st' \<Longrightarrow> parser_ok st'" for p
    using assms(2) by (auto simp: section_line_def parser_ok_def config_ok_def not_started_def nth_append zero_peer_def Let_def
        split: if_splits) (simp add: zero_peer_def [symmetric])
  have int: "interface_key nl p eq st = Some st' \<Longrightarrow> parser_ok st'" for p eq
    using assms(2)
    by (auto simp: interface_key_def parser_ok_def config_ok_def not_started_def Let_def parse_list_iface_def
        split: if_splits option.splits prod.splits dest: decode_base64_length iface_tokens_length)
  have peer: "ps_cur_peer st = Some i \<Longrightarrow> peer_key nl p eq i (ps_config st) = Some c \<Longrightarrow>
      parser_ok (st\<lparr>ps_config := c\<rparr>)" for i p eq c
    using assms(2) peer_key_ok [OF assms(1), of "ps_config st" i p eq c] by (auto simp: parser_ok_def)
  show ?thesis
    using assms(2,3) sec int peer
    by (auto simp: config_line_def Let_def split: if_splits option.splits prod.splits)
qed

lemma config_lines_ok:
  "netlib_ok nl \<Longrightarrow> parser_ok st \<Longrightarrow> config_lines nl ls st = Some st' \<Longrightarrow> parser_ok st'"
  by (induction nl ls st rule: config_lines.induct) (auto split: option.splits dest: config_line_ok)

lemma parse_config_parts:
  assumes "netlib_ok nl" "parse_config_text nl txt zero_config = Some c"
  shows "config_ok c \<and> not_started c \<and> s_peers c \<noteq> [] \<and> (\<forall>p \<in> set (s_peers c). p_pubkey p \<noteq> replicate 32 0)"
proof -
  let ?st = "\<lparr>ps_config = zero_config, ps_in_interface = False, ps_in_peer = False, ps_cur_peer = None, ps_got_priv = False\<rparr>"
  obtain st where st: "config_lines nl (strtok (CHR 0x0A) (c_string txt)) ?st = Some st"
    and c: "c = ps_config st" "s_peers c \<noteq> []"
      "\<not> list_ex (\<lambda>p. list_all (\<lambda>b. b = 0) (p_pubkey p)) (s_peers c)"
    using assms(2) by (auto simp: parse_config_text_def Let_def split: option.splits if_splits)
  have "parser_ok ?st" by (simp add: parser_ok_def not_started_def zero_config_def [symmetric]) (simp add: zero_config_def)
  then have "config_ok c \<and> not_started c" using config_lines_ok [OF assms(1) _ st] by (simp add: parser_ok_def c(1))
  moreover have "p_pubkey p \<noteq> replicate 32 0" if "p \<in> set (s_peers c)" for p
    using c(3) that by (auto simp: list_ex_iff list_all_iff)
  ultimately show ?thesis using c(2) by blast
qed

text \<open>C39: A configuration that the parser accepts is well formed: one to eight peers, at most sixteen
  CIDRs each with a prefix length of their family, at most four interface addresses, keys of 32
  bytes, and no peer whose public key is all zero. (It need not have distinct public keys, and the
  keepalive interval is any \<^verbatim>\<open>int\<close>.)\<close>

theorem parse_config_valid:
  assumes "netlib_ok nl" "parse_config_text nl txt zero_config = Some c"
  shows "config_ok c \<and> s_peers c \<noteq> [] \<and> (\<forall>p \<in> set (s_peers c). p_pubkey p \<noteq> replicate 32 0)"
  using parse_config_parts [OF assms] by blast

text \<open>A resolver that knows one address, and a configuration with one peer.\<close>

definition demo_netlib :: netlib where
  "demo_netlib = \<lparr>inet_pton4 = (\<lambda>s. if s = ''10.0.0.2'' then Some [10, 0, 0, 2] else None),
     inet_pton6 = (\<lambda>s. None), inet_ntop4 = (\<lambda>a. ''10.0.0.2''), inet_ntop6 = (\<lambda>a. ''::''),
     getaddrinfo = (\<lambda>h p. None)\<rparr>"

definition demo_text :: string where
  "demo_text = ''[Interface]'' @ [CHR 0x0A] @ ''PrivateKey = '' @ replicate 43 (CHR ''A'') @ ''='' @ [CHR 0x0A] @
     ''[Peer]'' @ [CHR 0x0A] @ ''PublicKey = '' @ replicate 42 (CHR ''A'') @ ''E='' @ [CHR 0x0A] @
     ''AllowedIPs = 10.0.0.2/32'' @ [CHR 0x0A]"

lemma demo_netlib_ok: "netlib_ok demo_netlib"
  by (simp add: netlib_ok_def demo_netlib_def)

lemma demo_text_parses: "parse_config_text demo_netlib demo_text zero_config \<noteq> None"
  by code_simp

theorem parse_config_valid_witness:
  "\<exists>c. parse_config_text demo_netlib demo_text zero_config = Some c \<and> config_ok c \<and> s_peers c \<noteq> []"
  using parse_config_valid [OF demo_netlib_ok, of demo_text] demo_text_parses by blast

end
