(* ===== verification/NoiseCrypto.thy ===== *)
theory NoiseCrypto
  imports Aead Blake2s Cookie
begin

text \<open>
  The symmetric state of the handshake in \<^verbatim>\<open>src/wg_noise.c\<close>: HMAC and the key derivation,
  mixing of keys and transcripts, encryption of handshake fields, and the TAI64N timestamp.

  Curve25519 is reached through \<^verbatim>\<open>crypto/curve25519.h\<close>, which has two implementations (the
  portable C one and a Swift bridge to CryptoKit); the record \<open>curve\<close> is that interface. A
  chaining key \<open>ck\<close>, a \<open>key\<close> and a transcript \<open>hash\<close> that a C function updates in place are
  arguments and results. A function that can fail returns an \<open>option\<close>.
\<close>

subsection \<open>The curve interface (crypto/curve25519.h)\<close>

text \<open>\<open>c_dh\<close> is \<^verbatim>\<open>curve25519(shared, priv, pub)\<close>: the shared bytes and whether it returned 1;
  \<open>c_pub\<close> is \<^verbatim>\<open>curve25519_generate_public\<close>, likewise.\<close>

record curve =
  c_clamp :: "bytes \<Rightarrow> bytes"
  c_dh :: "bytes \<Rightarrow> bytes \<Rightarrow> bytes \<times> bool"
  c_pub :: "bytes \<Rightarrow> bytes \<times> bool"

text \<open>\<^verbatim>\<open>curve25519_generate_secret\<close> on the random bytes \<open>rnd\<close>.\<close>

definition generate_secret :: "curve \<Rightarrow> bytes \<Rightarrow> bytes" where
  "generate_secret cv rnd = c_clamp cv rnd"

subsection \<open>Constants\<close>

definition NOISE_PUBLIC_KEY_LEN :: nat where "NOISE_PUBLIC_KEY_LEN = 32"
definition NOISE_SYMMETRIC_KEY_LEN :: nat where "NOISE_SYMMETRIC_KEY_LEN = 32"
definition NOISE_TIMESTAMP_LEN :: nat where "NOISE_TIMESTAMP_LEN = 12"
definition NOISE_AUTHTAG_LEN :: nat where "NOISE_AUTHTAG_LEN = 16"
definition NOISE_HASH_LEN :: nat where "NOISE_HASH_LEN = 32"

lemmas noise_sizes = NOISE_PUBLIC_KEY_LEN_def NOISE_SYMMETRIC_KEY_LEN_def NOISE_TIMESTAMP_LEN_def
  NOISE_AUTHTAG_LEN_def NOISE_HASH_LEN_def

definition NOISE_HANDSHAKE_NAME :: bytes where
  "NOISE_HANDSHAKE_NAME = bytes_of_string ''Noise_IKpsk2_25519_ChaChaPoly_BLAKE2s''"

definition NOISE_IDENTIFIER_NAME :: bytes where
  "NOISE_IDENTIFIER_NAME = bytes_of_string ''WireGuard v1 zx2c4 Jason@zx2c4.com''"

subsection \<open>HMAC and key derivation\<close>

definition hmac :: "bytes \<Rightarrow> bytes \<Rightarrow> nat \<Rightarrow> bytes" where
  "hmac inp key outlen =
     (let x_key = (if length key > BLAKE2S_BLOCK_SIZE
                   then buf_put 0 (blake2s_final (blake2s_update (blake2s_init 32) key)) (replicate 64 0)
                   else buf_put 0 key (replicate 64 0));
          x_key = map (\<lambda>b. b XOR 0x36) x_key;
          i_hash = blake2s_final (blake2s_update (blake2s_update (blake2s_init 32) x_key) inp);
          x_key = map (\<lambda>b. b XOR (0x5c XOR 0x36)) x_key;
          i_hash = blake2s_final (blake2s_update (blake2s_update (blake2s_init 32) x_key) i_hash)
      in take outlen i_hash)"

text \<open>An output pointer with its length: length 0 stands for a \<^verbatim>\<open>NULL\<close> pointer too, which the code
  treats alike. A result \<open>None\<close> is an output that is not written.\<close>

definition noise_kdf :: "nat \<Rightarrow> nat \<Rightarrow> nat \<Rightarrow> bytes \<Rightarrow> bytes \<Rightarrow> bytes option \<times> bytes option \<times> bytes option" where
  "noise_kdf a_len b_len c_len x ck =
     (let sec = hmac x ck 32 in
      if a_len = 0 then (None, None, None)
      else let out = hmac [1] sec 32; a = take a_len out in
      if b_len = 0 then (Some a, None, None)
      else let out = hmac (out @ [2]) sec 32; b = take b_len out in
      if c_len = 0 then (Some a, Some b, None)
      else let out = hmac (out @ [3]) sec 32; c = take c_len out in
      (Some a, Some b, Some c))"

definition written :: "'a \<Rightarrow> 'a option \<Rightarrow> 'a" where
  "written old r = (case r of None \<Rightarrow> old | Some v \<Rightarrow> v)"

subsection \<open>Mixing\<close>

text \<open>The caller passes \<open>key_len = 0\<close> where the code passes \<^verbatim>\<open>NULL\<close> for the key.\<close>

definition noise_mix_dh :: "curve \<Rightarrow> nat \<Rightarrow> bytes \<Rightarrow> bytes \<Rightarrow> bytes \<Rightarrow> (bytes \<times> bytes) option" where
  "noise_mix_dh cv key_len ck private public =
     (case c_dh cv private public of
        (dh, ok) \<Rightarrow>
          if \<not> ok then None
          else (case noise_kdf NOISE_HASH_LEN key_len 0 dh ck of
                  (a, b, c) \<Rightarrow> Some (written ck a, written [] b)))"

definition noise_mix_ss :: "bytes \<Rightarrow> bytes \<Rightarrow> (bytes \<times> bytes) option" where
  "noise_mix_ss ck ss =
     (if \<not> timingsafe_bcmp ss (replicate NOISE_PUBLIC_KEY_LEN 0) then None
      else (case noise_kdf NOISE_HASH_LEN NOISE_SYMMETRIC_KEY_LEN 0 ss ck of
              (a, b, c) \<Rightarrow> Some (written ck a, written [] b)))"

definition noise_mix_hash :: "bytes \<Rightarrow> bytes \<Rightarrow> bytes" where
  "noise_mix_hash hash src =
     blake2s_final (blake2s_update (blake2s_update (blake2s_init NOISE_HASH_LEN) hash) src)"

definition noise_mix_psk :: "bytes \<Rightarrow> bytes \<Rightarrow> bytes \<Rightarrow> bytes \<times> bytes \<times> bytes" where
  "noise_mix_psk ck hash psk =
     (case noise_kdf NOISE_HASH_LEN NOISE_HASH_LEN NOISE_SYMMETRIC_KEY_LEN psk ck of
        (a, tmp, key) \<Rightarrow> (written ck a, noise_mix_hash hash (written [] tmp), written [] key))"

text \<open>Result: the chaining key and the transcript hash.\<close>

definition noise_param_init :: "bytes \<Rightarrow> bytes \<times> bytes" where
  "noise_param_init s =
     (let ck = blake2s NOISE_HANDSHAKE_NAME [] NOISE_HASH_LEN;
          hash = blake2s_final (blake2s_update (blake2s_update (blake2s_init NOISE_HASH_LEN) ck)
                                  NOISE_IDENTIFIER_NAME)
      in (ck, noise_mix_hash hash s))"

subsection \<open>Handshake fields\<close>

text \<open>The nonce is zero; \<^verbatim>\<open>chacha20poly1305_encrypt\<close> of \<^verbatim>\<open>crypto.h\<close> encodes it little-endian.\<close>

definition chacha20poly1305_encrypt :: "bytes \<Rightarrow> bytes \<Rightarrow> u64 \<Rightarrow> bytes \<Rightarrow> bytes" where
  "chacha20poly1305_encrypt src ad nonce key = chacha20_poly1305_encrypt src ad (le64enc nonce) key"

definition chacha20poly1305_decrypt :: "bytes \<Rightarrow> bytes \<Rightarrow> u64 \<Rightarrow> bytes \<Rightarrow> bytes option" where
  "chacha20poly1305_decrypt src ad nonce key = chacha20_poly1305_decrypt src ad (le64enc nonce) key"

definition noise_msg_encrypt :: "bytes \<Rightarrow> bytes \<Rightarrow> bytes \<Rightarrow> bytes \<times> bytes" where
  "noise_msg_encrypt src key hash =
     (let dst = chacha20poly1305_encrypt src hash 0 key in (dst, noise_mix_hash hash dst))"

definition noise_msg_decrypt :: "bytes \<Rightarrow> bytes \<Rightarrow> bytes \<Rightarrow> (bytes \<times> bytes) option" where
  "noise_msg_decrypt src key hash =
     (case chacha20poly1305_decrypt src hash 0 key of
        None \<Rightarrow> None
      | Some dst \<Rightarrow> Some (dst, noise_mix_hash hash src))"

text \<open>Result: the new chaining key and hash.\<close>

definition noise_msg_ephemeral :: "bytes \<Rightarrow> bytes \<Rightarrow> bytes \<Rightarrow> bytes \<times> bytes" where
  "noise_msg_ephemeral ck hash src =
     (let hash = noise_mix_hash hash src in
      case noise_kdf NOISE_HASH_LEN 0 0 src ck of (a, b, c) \<Rightarrow> (written ck a, hash))"

subsection \<open>Timestamps\<close>

text \<open>\<open>tv_sec\<close> and \<open>tv_nsec\<close> are the fields that \<^verbatim>\<open>getnanotime\<close> stores; the mask keeps the bits
  of the nanoseconds from 24 on.\<close>

definition REJECT_INTERVAL :: u32 where "REJECT_INTERVAL = 1000000000 div 50"
definition REJECT_INTERVAL_MASK :: u64 where "REJECT_INTERVAL_MASK = NOT (push_bit 24 1 - 1)"

definition noise_tai64n_now :: "u64 \<Rightarrow> u64 \<Rightarrow> bytes" where
  "noise_tai64n_now tv_sec tv_nsec =
     (let tv_nsec = tv_nsec AND REJECT_INTERVAL_MASK
      in be64enc (0x400000000000000a + tv_sec) @ be32enc (ucast tv_nsec))"

subsection \<open>Key derivation is HKDF\<close>

text \<open>HMAC of RFC 2104 over BLAKE2s, and the three outputs of HKDF (RFC 5869) with an empty info
  string, as the Noise specification uses it.\<close>

definition spec_hmac :: "bytes \<Rightarrow> bytes \<Rightarrow> bytes" where
  "spec_hmac key m =
     (let k0 = (if length key > 64 then spec_blake2s 32 [] key else key);
          pad = k0 @ replicate (64 - length k0) 0
      in spec_blake2s 32 [] (xor_bytes pad (replicate 64 0x5c)
           @ spec_blake2s 32 [] (xor_bytes pad (replicate 64 0x36) @ m)))"

definition spec_hkdf :: "bytes \<Rightarrow> bytes \<Rightarrow> bytes \<times> bytes \<times> bytes" where
  "spec_hkdf ck x =
     (let prk = spec_hmac ck x; t1 = spec_hmac prk [1]; t2 = spec_hmac prk (t1 @ [2]);
          t3 = spec_hmac prk (t2 @ [3])
      in (t1, t2, t3))"

lemma length_spec_hmac [simp, wg_len]: "length (spec_hmac key m) = 32"
  by (simp add: spec_hmac_def Let_def)

lemma xor_bytes_replicate: "xor_bytes xs (replicate (length xs) c) = map (\<lambda>b. b XOR c) xs"
  by (induction xs) auto

lemma hmac_spec: "hmac inp key 32 = spec_hmac key inp"
proof -
  define k0 where "k0 = (if length key > 64 then spec_blake2s 32 [] key else key)"
  define pad where "pad = k0 @ replicate (64 - length k0) (0 :: u8)"
  have k0: "length k0 \<le> 64" by (simp add: k0_def)
  then have len: "length pad = 64" by (simp add: pad_def)
  have put: "buf_put 0 k0 (replicate 64 0) = pad" using k0 by (simp add: buf_put_def pad_def)
  have x36: "map (\<lambda>b. b XOR 0x36) pad = xor_bytes pad (replicate 64 0x36)"
    using xor_bytes_replicate [of pad] by (simp add: len)
  have x5c: "map (\<lambda>b. b XOR (0x5c XOR 0x36)) (xor_bytes pad (replicate 64 0x36)) = xor_bytes pad (replicate 64 0x5c)"
  proof -
    have "(b XOR 0x36) XOR (0x5c XOR 0x36) = b XOR 0x5c" for b :: u8
      by (simp only: xor.assoc) simp
    then show ?thesis using xor_bytes_replicate [of pad "0x5c"] by (simp add: len x36 [symmetric])
  qed
  have key: "(if length key > BLAKE2S_BLOCK_SIZE
     then buf_put 0 (blake2s_final (blake2s_update (blake2s_init 32) key)) (replicate 64 0)
     else buf_put 0 key (replicate 64 0)) = pad"
    unfolding put [symmetric] by (simp add: BLAKE2S_BLOCK_SIZE_def blake2s_update_one k0_def)
  show ?thesis
    unfolding hmac_def spec_hmac_def key
    unfolding Let_def x36 x5c blake2s_update_one k0_def [symmetric] pad_def [symmetric] by simp
qed

text \<open>C31: the key derivation of the handshake is HKDF over HMAC-BLAKE2s, for every combination
  of requested outputs: the outputs not asked for are not written, and asking for fewer of them
  does not change the others.\<close>

theorem noise_kdf_is_hkdf:
  "noise_kdf a_len b_len c_len x ck =
     (case spec_hkdf ck x of (t1, t2, t3) \<Rightarrow>
        (if a_len = 0 then None else Some (take a_len t1),
         if a_len = 0 \<or> b_len = 0 then None else Some (take b_len t2),
         if a_len = 0 \<or> b_len = 0 \<or> c_len = 0 then None else Some (take c_len t3)))"
  by (simp add: noise_kdf_def spec_hkdf_def hmac_spec Let_def)

lemma kdf_spec:
  "noise_kdf a_len b_len c_len x ck =
     (case spec_hkdf ck x of (t1, t2, t3) \<Rightarrow>
        (if a_len = 0 then None else Some (take a_len t1),
         if a_len = 0 \<or> b_len = 0 then None else Some (take b_len t2),
         if a_len = 0 \<or> b_len = 0 \<or> c_len = 0 then None else Some (take c_len t3)))"
  by (simp add: noise_kdf_def spec_hkdf_def hmac_spec Let_def)

lemma mix_lengths [simp, wg_len]:
  "length (noise_mix_hash h s) = 32"
  "length (fst (noise_msg_ephemeral ck h s)) = 32"
  "length (snd (noise_msg_ephemeral ck h s)) = 32"
  "length (fst (noise_param_init s)) = 32"
  "length (snd (noise_param_init s)) = 32"
  "length (fst (noise_mix_psk ck h psk)) = 32"
  "length (fst (snd (noise_mix_psk ck h psk))) = 32"
  "length (snd (snd (noise_mix_psk ck h psk))) = 32"
  by (simp_all add: noise_mix_hash_def blake2s_update_one noise_msg_ephemeral_def noise_param_init_def
      noise_mix_psk_def noise_kdf_def hmac_spec noise_sizes written_def Let_def)

lemma mix_dh_lengths:
  "noise_mix_dh cv n ck a b = Some (ck', key) \<Longrightarrow> length ck' = 32 \<and> length key = min n 32"
  by (auto simp: noise_mix_dh_def noise_kdf_def hmac_spec noise_sizes written_def Let_def
      split: prod.splits if_splits)

lemma mix_ss_lengths:
  "noise_mix_ss ck ss = Some (ck', key) \<Longrightarrow> length ck' = 32 \<and> length key = 32"
  by (auto simp: noise_mix_ss_def noise_kdf_def hmac_spec noise_sizes written_def Let_def
      split: if_splits)

subsection \<open>Encrypted handshake fields\<close>

lemma msg_decrypt_encrypt [simp]:
  "noise_msg_decrypt (fst (noise_msg_encrypt m key h)) key h = Some (m, snd (noise_msg_encrypt m key h))"
  by (simp add: noise_msg_decrypt_def noise_msg_encrypt_def chacha20poly1305_encrypt_def
      chacha20poly1305_decrypt_def box.open_seal Let_def)

lemma msg_decrypt_iff:
  "noise_msg_decrypt c key h = Some (m, h') \<longleftrightarrow> (c, h') = noise_msg_encrypt m key h"
  by (auto simp: noise_msg_decrypt_def noise_msg_encrypt_def chacha20poly1305_encrypt_def
      chacha20poly1305_decrypt_def box.open_seal box.open_iff box.seal_inject Let_def split: option.splits)

lemma length_msg_encrypt [simp, wg_len]: "length (fst (noise_msg_encrypt m key h)) = length m + 16"
  by (simp add: noise_msg_encrypt_def chacha20poly1305_encrypt_def box.length_seal Let_def)

subsection \<open>Timestamps are ordered like the clock\<close>

lemma be32enc_rev: "be32enc w = rev (le32enc w)"
  by (simp add: be32enc_def le32enc_def)

lemma be64enc_rev: "be64enc w = rev (le64enc w)"
  by (simp add: be64enc_def le64enc_def be32enc_rev)

lemma le_num_le64enc: "le_num (le64enc w) = unat w"
proof -
  have "unat w = unat w mod 2 ^ 32 + 2 ^ 32 * (unat w div 2 ^ 32)" by simp
  moreover have "unat (ucast (drop_bit 32 w) :: u32) = unat w div 2 ^ 32"
    using unat_less_numeral(3) [of w]
    by (simp only: unat_ucast_u64_u32 unat_drop_bit) (simp add: less_mult_imp_div_less)
  ultimately show ?thesis
    by (simp add: le64enc_def le_num_append le_num_le32enc unat_ucast_u64_u32)
qed

lemma memcmp_num:
  "length a = length b \<Longrightarrow> 0 < memcmp a b \<longleftrightarrow> le_num (rev b) < le_num (rev a)"
proof (induction a b rule: list_induct2)
  case (Cons x xs y ys)
  define P where "P = (256 :: nat) ^ length xs"
  have r: "le_num (rev xs) < P" "le_num (rev ys) < P"
    using le_num_bound [of "rev xs"] le_num_bound [of "rev ys"] Cons.hyps by (simp_all add: P_def)
  have lt: "m + P * i < n + P * j" if "m < P" "i < j" for m n i j :: nat
  proof -
    have "P * Suc i \<le> P * j" using that(2) by (intro mult_le_mono) simp_all
    then show ?thesis using that(1) by simp
  qed
  show ?case
  proof (cases "x = y")
    case True
    then show ?thesis using Cons by (simp add: le_num_append)
  next
    case False
    have sum: "le_num (rev (x # xs)) = le_num (rev xs) + P * unat x"
      "le_num (rev (y # ys)) = le_num (rev ys) + P * unat y"
      using Cons.hyps by (simp_all add: le_num_append P_def)
    have "0 < memcmp (x # xs) (y # ys) \<longleftrightarrow> unat y < unat x"
      using False by (simp add: word_less_def [symmetric] word_less_nat_alt [symmetric])
    moreover have "unat x \<noteq> unat y" using False by (simp add: word_unat_eq_iff)
    ultimately show ?thesis
      unfolding sum using lt [OF r(1), of "unat x" "unat y" "le_num (rev ys)"]
        lt [OF r(2), of "unat y" "unat x" "le_num (rev xs)"] by linarith
  qed
qed simp

lemma memcmp_be: "0 < memcmp (be64enc a) (be64enc b) \<longleftrightarrow> unat b < unat a"
  "0 < memcmp (be32enc c) (be32enc d) \<longleftrightarrow> unat d < unat c"
  by (simp_all add: memcmp_num) (simp_all add: be64enc_rev be32enc_rev le_num_le64enc le_num_le32enc)

lemma unat_tai_nsec:
  assumes "unat n < 2 ^ 32"
  shows "unat (ucast (n AND REJECT_INTERVAL_MASK) :: u32) = unat n div 2 ^ 24 * 2 ^ 24"
proof -
  have "REJECT_INTERVAL_MASK = NOT (mask 24)" by (simp add: REJECT_INTERVAL_MASK_def mask_eq_exp_minus_1)
  moreover have "n AND NOT (mask 24) = push_bit 24 (drop_bit 24 n)"
    by (rule bit_word_eqI) (auto simp: bit_simps)
  ultimately have "n AND REJECT_INTERVAL_MASK = push_bit 24 (drop_bit 24 n)" by simp
  moreover have "unat n div 2 ^ 24 * 2 ^ 24 \<le> unat n" by (rule div_times_less_eq_dividend)
  ultimately show ?thesis using assms
    by (simp only: unat_ucast_u64_u32 unat_push_bit unat_drop_bit) simp
qed

text \<open>TAI64N timestamps are ordered like the readings of the clock they come from: comparing
  two of them with \<^verbatim>\<open>memcmp\<close>, as the replay check of an initiation does, compares the seconds and
  then the nanoseconds in units of \<open>2 ^ 24\<close>, so a later message of one host is accepted and an
  earlier one or one of the same interval is not.\<close>

theorem tai64n_order:
  assumes "unat sec < 2 ^ 62" "unat sec' < 2 ^ 62" "unat nsec < 10 ^ 9" "unat nsec' < 10 ^ 9"
  shows "memcmp (noise_tai64n_now sec nsec) (noise_tai64n_now sec' nsec') > 0 \<longleftrightarrow>
    unat sec' < unat sec \<or> unat sec' = unat sec \<and> unat nsec' div 2 ^ 24 < unat nsec div 2 ^ 24"
proof -
  have k: "unat (0x400000000000000a + s :: u64) = 0x400000000000000a + unat s" if "unat s < 2 ^ 62" for s
    using that by (subst unat_plus_small) simp_all
  have n: "unat nsec < 2 ^ 32" "unat nsec' < 2 ^ 32" using assms(3,4) by simp_all
  have ns: "unat (ucast (m AND REJECT_INTERVAL_MASK) :: u32) < unat (ucast (l AND REJECT_INTERVAL_MASK) :: u32)
      \<longleftrightarrow> unat m div 2 ^ 24 < unat l div 2 ^ 24"
    if "unat m < 2 ^ 32" "unat l < 2 ^ 32" for m l
    unfolding unat_tai_nsec [OF that(1)] unat_tai_nsec [OF that(2)] by simp
  note ns = ns [OF n(2,1)]
  have inj: "be64enc a = be64enc b \<longleftrightarrow> unat a = unat b" for a b :: u64
    using memcmp_be(1) [of a b] memcmp_be(1) [of b a] by (metis memcmp_refl less_irrefl linorder_neqE_nat word_unat_eq_iff)
  show ?thesis
    unfolding noise_tai64n_now_def Let_def
    by (subst memcmp_append) (simp_all add: inj memcmp_be k [OF assms(1)] k [OF assms(2)] ns)
qed

theorem tai64n_order_witness:
  "memcmp (noise_tai64n_now 7 999999999) (noise_tai64n_now 7 5) > 0 \<and>
   \<not> memcmp (noise_tai64n_now 7 16777215) (noise_tai64n_now 7 5) > 0"
  using tai64n_order [of 7 7 999999999 5] tai64n_order [of 7 7 16777215 5] by simp

end
