(* ===== verification/Keypair.thy ===== *)
theory Keypair
  imports Aead
begin

text \<open>
  Transport keypairs of \<^verbatim>\<open>src/wg_noise.c\<close>: the record \<^verbatim>\<open>struct noise_keypair\<close>, the
  sending counter, the replay window of the receiving counter, and the encryption of transport
  messages. Constants are those of a 64-bit build (\<^verbatim>\<open>__LP64__\<close>), where a word of the window has
  64 bits. A pointer to a remote is its number in the heap of \<open>Noise\<close>; the embedded
  \<^verbatim>\<open>struct noise_index\<close> is the record \<open>noise_index\<close>.

  The replay window is shown to refine an abstract receiver that remembers the set of all
  counters it has accepted.
\<close>

subsection \<open>State and constants\<close>

definition COUNTER_BITS_TOTAL :: nat where "COUNTER_BITS_TOTAL = 8192"
definition COUNTER_ORDER :: nat where "COUNTER_ORDER = 6"
definition COUNTER_BITS :: nat where "COUNTER_BITS = 64"
definition COUNTER_WINDOW_SIZE :: u64 where "COUNTER_WINDOW_SIZE = 8128"
definition REKEY_AFTER_MESSAGES :: u64 where "REKEY_AFTER_MESSAGES = push_bit 60 1"
definition REJECT_AFTER_MESSAGES :: u64 where "REJECT_AFTER_MESSAGES = - 1 - COUNTER_WINDOW_SIZE - 1"
definition REJECT_AFTER_TIME :: u32 where "REJECT_AFTER_TIME = 180"

record noise_index =
  i_local_index :: u32
  i_remote_index :: u32
  i_is_keypair :: bool

record noise_keypair =
  kp_index :: noise_index
  kp_refcnt :: nat
  kp_can_send :: bool
  kp_is_initiator :: bool
  kp_birthdate :: sbintime
  kp_remote :: nat
  kp_send :: bytes
  kp_recv :: bytes
  kp_nonce_send :: u64
  kp_nonce_recv :: u64
  kp_backtrack :: "u64 list"

subsection \<open>Operations\<close>

definition noise_keypair_nonce_next :: "noise_keypair \<Rightarrow> errno \<times> u64 \<times> noise_keypair" where
  "noise_keypair_nonce_next kp =
     (if \<not> kp_can_send kp then (EINVAL, 0, kp)
      else
        let send = kp_nonce_send kp;
            kp = kp\<lparr>kp_nonce_send := kp_nonce_send kp + 1\<rparr>
        in if send < REJECT_AFTER_MESSAGES then (OK, send, kp)
           else (EINVAL, send, kp\<lparr>kp_can_send := False\<rparr>))"

definition word_slot :: "u64 \<Rightarrow> nat" where
  "word_slot index = unat (index AND (of_nat (COUNTER_BITS_TOTAL div COUNTER_BITS) - 1))"

fun clear_words :: "nat \<Rightarrow> u64 \<Rightarrow> u64 list \<Rightarrow> u64 list" where
  "clear_words 0 index_current bt = bt"
| "clear_words (Suc i) index_current bt =
     (clear_words i index_current bt)[word_slot (of_nat (Suc i) + index_current) := 0]"

definition advance_window :: "noise_keypair \<Rightarrow> u64 \<Rightarrow> noise_keypair" where
  "advance_window kp recv =
     (let index_current = drop_bit COUNTER_ORDER (kp_nonce_recv kp);
          index = drop_bit COUNTER_ORDER recv;
          top = min (unat (index - index_current)) (COUNTER_BITS_TOTAL div COUNTER_BITS)
      in kp\<lparr>kp_backtrack := clear_words top index_current (kp_backtrack kp), kp_nonce_recv := recv\<rparr>)"

definition noise_keypair_nonce_check :: "noise_keypair \<Rightarrow> u64 \<Rightarrow> errno \<times> noise_keypair" where
  "noise_keypair_nonce_check kp recv0 =
     (if kp_nonce_recv kp \<ge> REJECT_AFTER_MESSAGES + 1 \<or> recv0 \<ge> REJECT_AFTER_MESSAGES then (EEXIST, kp)
      else
        let recv = recv0 + 1
        in if recv + COUNTER_WINDOW_SIZE < kp_nonce_recv kp then (EEXIST, kp)
           else
             let kp = (if recv > kp_nonce_recv kp then advance_window kp recv else kp);
                 index = word_slot (drop_bit COUNTER_ORDER recv);
                 bit = push_bit (unat (recv AND (of_nat COUNTER_BITS - 1))) 1
             in if kp_backtrack kp ! index AND bit \<noteq> 0 then (EEXIST, kp)
                else (OK, kp\<lparr>kp_backtrack := (kp_backtrack kp)[index := kp_backtrack kp ! index OR bit]\<rparr>))"

definition noise_keypair_encrypt :: "bool \<Rightarrow> noise_keypair \<Rightarrow> u64 \<Rightarrow> mbuf \<Rightarrow> errno \<times> u32 \<times> mbuf" where
  "noise_keypair_encrypt alloc_ok kp nonce m =
     (case chacha20poly1305_encrypt_mbuf alloc_ok m nonce (kp_send kp) of
        (ret, m') \<Rightarrow> if ret \<noteq> OK then (ret, 0, m') else (OK, i_remote_index (kp_index kp), m'))"

definition noise_keypair_decrypt :: "noise_keypair \<Rightarrow> u64 \<Rightarrow> mbuf \<Rightarrow> sbintime \<Rightarrow> errno \<times> mbuf" where
  "noise_keypair_decrypt kp nonce m now =
     (if kp_nonce_recv kp \<ge> REJECT_AFTER_MESSAGES \<or> timer_expired now (kp_birthdate kp) REJECT_AFTER_TIME 0
      then (EINVAL, m)
      else chacha20poly1305_decrypt_mbuf m nonce (kp_recv kp))"

subsection \<open>The sending counter\<close>

fun nonce_run :: "nat \<Rightarrow> noise_keypair \<Rightarrow> u64 list \<times> noise_keypair" where
  "nonce_run 0 kp = ([], kp)"
| "nonce_run (Suc n) kp =
     (case noise_keypair_nonce_next kp of (e, s, kp') \<Rightarrow>
        (case nonce_run n kp' of (ss, kp'') \<Rightarrow> (if e = OK then s # ss else ss, kp'')))"

definition reject_after :: nat where "reject_after = 2 ^ 64 - 8130"

lemma unat_reject: "unat REJECT_AFTER_MESSAGES = reject_after"
  by (simp add: REJECT_AFTER_MESSAGES_def COUNTER_WINDOW_SIZE_def reject_after_def)

lemma unat_of_nat_small: "c < reject_after \<Longrightarrow> unat (of_nat c :: u64) = c"
proof -
  assume "c < reject_after"
  also have "reject_after \<le> 2 ^ 64" by (simp add: reject_after_def)
  finally show ?thesis by (simp add: unsigned_of_nat take_bit_nat_eq_self)
qed

lemma nonce_run_stopped: "\<not> kp_can_send kp \<Longrightarrow> nonce_run n kp = ([], kp)"
  by (induction n) (auto simp: noise_keypair_nonce_next_def)

lemma nonce_run_from:
  assumes "kp_can_send kp" "kp_nonce_send kp = of_nat k" "k \<le> reject_after"
  shows "fst (nonce_run n kp) = map of_nat [k..<min (k + n) reject_after]"
  using assms
proof (induction n arbitrary: kp k)
  case (Suc n)
  have k: "k < 2 ^ 64" using Suc.prems(3) by (simp add: reject_after_def)
  then have uk: "unat (of_nat k :: u64) = k" by (simp add: unsigned_of_nat take_bit_nat_eq_self)
  have lt: "(of_nat k :: u64) < REJECT_AFTER_MESSAGES \<longleftrightarrow> k < reject_after"
    by (simp add: word_less_nat_alt uk unat_reject)
  show ?case
  proof (cases "k < reject_after")
    case True
    let ?kp = "kp\<lparr>kp_nonce_send := of_nat (Suc k)\<rparr>"
    have "noise_keypair_nonce_next kp = (OK, of_nat k, ?kp)"
      using Suc.prems True lt by (simp add: noise_keypair_nonce_next_def Let_def add.commute)
    moreover have "fst (nonce_run n ?kp) = map of_nat [Suc k..<min (Suc k + n) reject_after]"
      using Suc.prems True by (intro Suc.IH) simp_all
    moreover have "[k..<min (k + Suc n) reject_after] = k # [Suc k..<min (Suc k + n) reject_after]"
      using True by (simp add: upt_conv_Cons)
    ultimately show ?thesis by (simp add: case_prod_unfold)
  next
    case False
    then show ?thesis
      using Suc.prems lt by (simp add: noise_keypair_nonce_next_def Let_def nonce_run_stopped)
  qed
qed simp

subsection \<open>The replay window\<close>

text \<open>The window represents the set \<open>seen\<close> of accepted counters: bit \<open>c\<close> of the bitmap, for every
  \<open>c\<close> in one of the 128 words up to the current one, says whether counter \<open>c - 1\<close> was accepted.\<close>

definition in_window :: "nat \<Rightarrow> nat \<Rightarrow> bool" where
  "in_window n c \<longleftrightarrow> c div 64 \<le> n div 64 \<and> n div 64 < c div 64 + 128"

definition window_rel :: "noise_keypair \<Rightarrow> nat set \<Rightarrow> bool" where
  "window_rel kp seen \<longleftrightarrow> length (kp_backtrack kp) = 128 \<and>
     (\<forall>s \<in> seen. s < unat (kp_nonce_recv kp)) \<and> unat (kp_nonce_recv kp) \<le> reject_after \<and>
     (\<forall>c. in_window (unat (kp_nonce_recv kp)) c \<longrightarrow>
        (bit (kp_backtrack kp ! (c div 64 mod 128)) (c mod 64) \<longleftrightarrow> 0 < c \<and> c - 1 \<in> seen))"

lemma word_slot: "word_slot index = unat index mod 128"
proof -
  have "index AND 127 = take_bit 7 index" by (simp only: take_bit_eq_mask) (simp add: mask_eq_exp_minus_1)
  then have "unat (index AND 127) = take_bit 7 (unat index)" by (simp only: unsigned_take_bit_eq)
  then show ?thesis
    by (simp add: word_slot_def COUNTER_BITS_TOTAL_def COUNTER_BITS_def) (simp add: take_bit_eq_mod)
qed

lemma unat_and63: "unat (r AND 63 :: u64) = unat r mod 64"
proof -
  have "r AND 63 = take_bit 6 r" by (simp only: take_bit_eq_mask) (simp add: mask_eq_exp_minus_1)
  then have "unat (r AND 63) = take_bit 6 (unat r)" by (simp only: unsigned_take_bit_eq)
  then show ?thesis by (simp only: take_bit_eq_mod) simp
qed

lemma unat_drop6: "unat (drop_bit COUNTER_ORDER r :: u64) = unat r div 64"
  by (simp add: COUNTER_ORDER_def unat_drop_bit)

lemma and_push_bit_1: "k < 64 \<Longrightarrow> w AND push_bit k 1 \<noteq> 0 \<longleftrightarrow> bit (w :: u64) k"
  by (simp only: push_bit_of_1 and_exp_eq_0_iff_not_bit not_not)

lemma bit_or_push_bit_1: "k < 64 \<Longrightarrow> bit (w OR push_bit k 1 :: u64) j \<longleftrightarrow> bit w j \<or> j = k"
  by (auto simp: bit_simps)

lemma length_clear_words [simp]: "length (clear_words n i bt) = length bt"
  by (induction n) auto

lemma nth_clear_words:
  assumes "length bt = 128" "j < 128" "unat w + tp < 2 ^ 64"
  shows "clear_words tp w bt ! j = (if \<exists>i. 1 \<le> i \<and> i \<le> tp \<and> j = (unat w + i) mod 128 then 0 else bt ! j)"
  using assms(3)
proof (induction tp)
  case (Suc t)
  have "unat (of_nat (Suc t) + w) = Suc t + unat w"
    using Suc.prems by (subst unat_plus_small) (simp_all add: unsigned_of_nat take_bit_nat_eq_self del: of_nat_Suc)
  then have s: "word_slot (of_nat (Suc t) + w) = (unat w + Suc t) mod 128"
    by (simp add: word_slot add.commute del: of_nat_Suc)
  show ?case
    using Suc assms(1,2) by (auto simp: s nth_list_update le_Suc_eq simp del: of_nat_Suc)
qed auto

lemma mod_window_eq:
  fixes q p w :: nat
  assumes "q mod 128 = p mod 128" "q \<le> w" "p \<le> w" "w < q + 128" "w < p + 128"
  shows "q = p"
proof (rule antisym)
  have le: "a \<le> b" if "a mod 128 = b mod 128" "a < b + 128" for a b :: nat
  proof (rule ccontr)
    assume "\<not> a \<le> b"
    then have "128 dvd a - b" "a - b < 128" "0 < a - b"
      using that mod_eq_dvd_iff_nat [of b a 128] by auto
    then show False using dvd_imp_le by fastforce
  qed
  show "q \<le> p" "p \<le> q" using assms by (auto intro!: le)
qed

lemma advance_window_rel:
  assumes "window_rel kp seen" "unat (kp_nonce_recv kp) < unat r" "unat r \<le> reject_after"
  shows "window_rel (advance_window kp r) seen" "kp_nonce_recv (advance_window kp r) = r"
proof -
  define n where "n = unat (kp_nonce_recv kp)"
  define w where "w = n div 64"
  define w' where "w' = unat r div 64"
  define tp where "tp = min (w' - w) 128"
  have le: "w \<le> w'" using assms(2) by (simp add: w_def w'_def n_def div_le_mono)
  have "unat (drop_bit COUNTER_ORDER r - drop_bit COUNTER_ORDER (kp_nonce_recv kp)) = w' - w"
    using le by (subst unat_sub) (simp_all add: word_le_nat_alt unat_drop6 w_def w'_def n_def)
  then have adv: "advance_window kp r = kp\<lparr>kp_backtrack := clear_words tp (drop_bit COUNTER_ORDER (kp_nonce_recv kp))
      (kp_backtrack kp), kp_nonce_recv := r\<rparr>"
    by (simp add: advance_window_def Let_def tp_def COUNTER_BITS_TOTAL_def COUNTER_BITS_def)
  then show "kp_nonce_recv (advance_window kp r) = r" by simp
  have len: "length (kp_backtrack kp) = 128" using assms(1) by (simp add: window_rel_def)
  have small: "unat (drop_bit COUNTER_ORDER (kp_nonce_recv kp)) + tp < 2 ^ 64"
    using unat_less_numeral(3) [of "kp_nonce_recv kp"] by (simp add: unat_drop6 tp_def)
  have nth: "clear_words tp (drop_bit COUNTER_ORDER (kp_nonce_recv kp)) (kp_backtrack kp) ! (q mod 128)
      = (if \<exists>i. 1 \<le> i \<and> i \<le> tp \<and> q mod 128 = (w + i) mod 128 then 0 else kp_backtrack kp ! (q mod 128))" for q
    using nth_clear_words [OF len _ small, of "q mod 128"] by (simp add: unat_drop6 w_def n_def)
  have bits: "bit (clear_words tp (drop_bit COUNTER_ORDER (kp_nonce_recv kp)) (kp_backtrack kp) ! (c div 64 mod 128)) (c mod 64)
      \<longleftrightarrow> 0 < c \<and> c - 1 \<in> seen" if c: "in_window (unat r) c" for c
  proof (cases "c div 64 \<le> w")
    case True
    have no: "\<not> (\<exists>i. 1 \<le> i \<and> i \<le> tp \<and> c div 64 mod 128 = (w + i) mod 128)"
    proof
      assume "\<exists>i. 1 \<le> i \<and> i \<le> tp \<and> c div 64 mod 128 = (w + i) mod 128"
      then obtain i where i: "1 \<le> i" "i \<le> w' - w" "c div 64 mod 128 = (w + i) mod 128" by (auto simp: tp_def)
      have cw: "c div 64 \<le> w'" "w' < c div 64 + 128" using c by (simp_all add: in_window_def w'_def)
      have wi: "w + i \<le> w'" using i(2) le by linarith
      have "w' < w + i + 128" using cw(2) True by linarith
      with mod_window_eq [OF i(3) cw(1) wi cw(2)] have "c div 64 = w + i" by blast
      then show False using True i(1) by simp
    qed
    have "in_window n c" using c True le by (auto simp: in_window_def w_def w'_def)
    then show ?thesis using assms(1) unfolding nth if_not_P [OF no] window_rel_def n_def by blast
  next
    case False
    then have q: "w < c div 64" "c div 64 \<le> w'" using c by (simp_all add: in_window_def w'_def)
    have "\<exists>i. 1 \<le> i \<and> i \<le> tp \<and> c div 64 mod 128 = (w + i) mod 128"
    proof (cases "w' - w \<le> 128")
      case True
      then show ?thesis using q by (intro exI [of _ "c div 64 - w"]) (auto simp: tp_def)
    next
      case big: False
      define i where "i = (c div 64 - w - 1) mod 128 + 1"
      have "(w + i) mod 128 = (w + 1 + (c div 64 - w - 1) mod 128) mod 128" by (simp add: i_def ac_simps)
      also have "\<dots> = (w + 1 + (c div 64 - w - 1)) mod 128" by (rule mod_add_right_eq)
      also have "w + 1 + (c div 64 - w - 1) = c div 64" using q by simp
      finally have "c div 64 mod 128 = (w + i) mod 128" by simp
      moreover have "1 \<le> i" "i \<le> tp" using big by (simp_all add: i_def tp_def Suc_leI)
      ultimately show ?thesis by blast
    qed
    moreover have "\<not> (0 < c \<and> c - 1 \<in> seen)"
    proof
      assume "0 < c \<and> c - 1 \<in> seen"
      then have "c \<le> n" using assms(1) by (force simp: window_rel_def n_def)
      then show False using q(1) div_le_mono [of c n 64] by (simp add: w_def)
    qed
    ultimately show ?thesis by (simp add: nth)
  qed
  have "\<forall>s \<in> seen. s < unat r" using assms(1,2) by (force simp: window_rel_def)
  then show "window_rel (advance_window kp r) seen"
    using bits len assms(3) by (simp add: window_rel_def adv)
qed

text \<open>What the abstract receiver accepts: counters below the limit, not more than the window behind
  the highest one, and never one it has accepted before.\<close>

definition acceptable :: "nat \<Rightarrow> nat set \<Rightarrow> nat \<Rightarrow> bool" where
  "acceptable highest seen c \<longleftrightarrow>
     highest \<le> reject_after \<and> c < reject_after \<and> highest \<le> c + 1 + 8128 \<and> c \<notin> seen"

lemma set_bit_rel:
  assumes "window_rel kp seen" "unat r \<le> unat (kp_nonce_recv kp)" "unat (kp_nonce_recv kp) \<le> unat r + 8128" "0 < unat r"
  defines "slot \<equiv> word_slot (drop_bit COUNTER_ORDER r)" and "b \<equiv> push_bit (unat (r AND 63)) (1 :: u64)"
  shows "kp_backtrack kp ! slot AND b \<noteq> 0 \<longleftrightarrow> unat r - 1 \<in> seen"
    "window_rel (kp\<lparr>kp_backtrack := (kp_backtrack kp)[slot := kp_backtrack kp ! slot OR b]\<rparr>) (insert (unat r - 1) seen)"
proof -
  let ?n = "unat (kp_nonce_recv kp)"
  have slot: "slot = unat r div 64 mod 128" by (simp add: slot_def word_slot unat_drop6)
  have b: "b = push_bit (unat r mod 64) 1" by (simp add: b_def unat_and63)
  have win: "in_window ?n (unat r)"
    using assms(2) div_le_mono [OF assms(3), of 64] by (simp add: in_window_def div_le_mono)
  have len: "length (kp_backtrack kp) = 128" using assms(1) by (simp add: window_rel_def)
  show old: "kp_backtrack kp ! slot AND b \<noteq> 0 \<longleftrightarrow> unat r - 1 \<in> seen"
    using assms(1,4) win and_push_bit_1 [of "unat r mod 64" "kp_backtrack kp ! slot"]
    by (simp add: window_rel_def slot b)
  let ?bt = "(kp_backtrack kp)[slot := kp_backtrack kp ! slot OR b]"
  have "bit (?bt ! (c div 64 mod 128)) (c mod 64) \<longleftrightarrow> 0 < c \<and> c - 1 \<in> insert (unat r - 1) seen"
    if c: "in_window ?n c" for c
  proof -
    have was: "bit (kp_backtrack kp ! (c div 64 mod 128)) (c mod 64) \<longleftrightarrow> 0 < c \<and> c - 1 \<in> seen"
      using assms(1) c by (simp add: window_rel_def)
    have "bit (?bt ! (c div 64 mod 128)) (c mod 64) \<longleftrightarrow>
        bit (kp_backtrack kp ! (c div 64 mod 128)) (c mod 64) \<or> c div 64 mod 128 = slot \<and> c mod 64 = unat r mod 64"
      using len bit_or_push_bit_1 [of "unat r mod 64" "kp_backtrack kp ! slot" "c mod 64"]
      by (cases "c div 64 mod 128 = slot") (simp_all add: b)
    moreover have "c div 64 mod 128 = slot \<and> c mod 64 = unat r mod 64 \<longleftrightarrow> c = unat r"
    proof
      assume a: "c div 64 mod 128 = slot \<and> c mod 64 = unat r mod 64"
      have "c div 64 = unat r div 64"
      proof (rule mod_window_eq)
        show "c div 64 mod 128 = unat r div 64 mod 128" using a slot by simp
        show "c div 64 \<le> ?n div 64" "?n div 64 < c div 64 + 128" using c unfolding in_window_def by simp_all
        show "unat r div 64 \<le> ?n div 64" "?n div 64 < unat r div 64 + 128"
          using win unfolding in_window_def by simp_all
      qed
      then show "c = unat r" using a by (metis mult_div_mod_eq)
    qed (simp add: slot)
    moreover have "0 < c \<and> c - 1 = unat r - 1 \<longleftrightarrow> c = unat r" using assms(4) by linarith
    ultimately show ?thesis using was by blast
  qed
  then show "window_rel (kp\<lparr>kp_backtrack := ?bt\<rparr>) (insert (unat r - 1) seen)"
    using assms(1,2,4) len by (auto simp: window_rel_def)
qed

lemma unat_recv_succ: "unat r < reject_after \<Longrightarrow> unat (r + 1 :: u64) = unat r + 1"
  by (subst unat_plus_small) (simp_all add: reject_after_def)

lemma nonce_check_step:
  assumes "window_rel kp seen"
  shows "if acceptable (unat (kp_nonce_recv kp)) seen (unat r)
    then \<exists>kp'. noise_keypair_nonce_check kp r = (OK, kp') \<and> window_rel kp' (insert (unat r) seen) \<and>
           unat (kp_nonce_recv kp') = max (unat (kp_nonce_recv kp)) (unat r + 1)
    else noise_keypair_nonce_check kp r = (EEXIST, kp)"
proof -
  let ?n = "unat (kp_nonce_recv kp)"
  have n: "?n \<le> reject_after" using assms by (simp add: window_rel_def)
  have ur: "unat (REJECT_AFTER_MESSAGES + 1) = reject_after + 1"
    by (subst unat_plus_small) (simp_all add: unat_reject reject_after_def)
  have g1: "kp_nonce_recv kp \<ge> REJECT_AFTER_MESSAGES + 1 \<longleftrightarrow> False"
    using n by (simp add: word_le_nat_alt ur)
  have g2: "r \<ge> REJECT_AFTER_MESSAGES \<longleftrightarrow> reject_after \<le> unat r"
    by (simp add: word_le_nat_alt unat_reject)
  show ?thesis
  proof (cases "unat r < reject_after")
    case False
    then show ?thesis by (simp add: noise_keypair_nonce_check_def g1 g2 acceptable_def)
  next
    case lt: True
    note r1 = unat_recv_succ [OF lt]
    have "unat (r + 1 + COUNTER_WINDOW_SIZE) = unat r + 1 + 8128"
      using lt by (subst unat_plus_small) (simp_all add: r1 COUNTER_WINDOW_SIZE_def reject_after_def)
    then have g3: "r + 1 + COUNTER_WINDOW_SIZE < kp_nonce_recv kp \<longleftrightarrow> \<not> ?n \<le> unat r + 1 + 8128"
      by (simp add: word_less_nat_alt not_le)
    have g4: "r + 1 > kp_nonce_recv kp \<longleftrightarrow> ?n < unat r + 1" by (simp add: word_less_nat_alt r1)
    show ?thesis
    proof (cases "?n \<le> unat r + 1 + 8128")
      case False
      then show ?thesis using lt by (simp add: noise_keypair_nonce_check_def g1 g2 g3 acceptable_def Let_def)
    next
      case win: True
      define kp1 where "kp1 = (if ?n < unat r + 1 then advance_window kp (r + 1) else kp)"
      have kp1: "window_rel kp1 seen" "unat (kp_nonce_recv kp1) = max ?n (unat r + 1)"
        using advance_window_rel [OF assms, of "r + 1"] lt assms by (auto simp: kp1_def r1)
      have s: "kp_backtrack kp1 ! word_slot (drop_bit COUNTER_ORDER (r + 1)) AND push_bit (unat ((r + 1) AND 63)) 1 \<noteq> 0
          \<longleftrightarrow> unat r \<in> seen"
        "window_rel (kp1\<lparr>kp_backtrack := (kp_backtrack kp1)[word_slot (drop_bit COUNTER_ORDER (r + 1)) :=
            kp_backtrack kp1 ! word_slot (drop_bit COUNTER_ORDER (r + 1)) OR push_bit (unat ((r + 1) AND 63)) 1]\<rparr>)
          (insert (unat r) seen)"
        using set_bit_rel [OF kp1(1), of "r + 1"] kp1(2) win by (simp_all add: r1)
      have chk: "noise_keypair_nonce_check kp r =
          (if unat r \<in> seen then (EEXIST, kp1)
           else (OK, kp1\<lparr>kp_backtrack := (kp_backtrack kp1)[word_slot (drop_bit COUNTER_ORDER (r + 1)) :=
            kp_backtrack kp1 ! word_slot (drop_bit COUNTER_ORDER (r + 1)) OR push_bit (unat ((r + 1) AND 63)) 1]\<rparr>))"
      proof -
        have "(reject_after \<le> unat r) = False" "(\<not> ?n \<le> unat r + 1 + 8128) = False"
          "of_nat COUNTER_BITS - 1 = (63 :: u64)"
          using lt win by (simp_all add: COUNTER_BITS_def)
        then show ?thesis
          by (simp only: noise_keypair_nonce_check_def Let_def g1 g2 g3 g4 kp1_def [symmetric] s(1)
              simp_thms if_False)
      qed
      have "unat r \<in> seen \<Longrightarrow> kp1 = kp" using assms by (auto simp: kp1_def window_rel_def)
      then show ?thesis
        using s(2) lt win n kp1(2) unfolding chk acceptable_def by simp
    qed
  qed
qed

subsection \<open>Any sequence of received counters\<close>

text \<open>The abstract receiver on the same sequence: the answers it gives.\<close>

fun spec_receive :: "nat \<Rightarrow> nat set \<Rightarrow> nat list \<Rightarrow> bool list" where
  "spec_receive highest seen [] = []"
| "spec_receive highest seen (c # cs) =
     (if acceptable highest seen c
      then True # spec_receive (max highest (c + 1)) (insert c seen) cs
      else False # spec_receive highest seen cs)"

fun check_run :: "noise_keypair \<Rightarrow> u64 list \<Rightarrow> bool list" where
  "check_run kp [] = []"
| "check_run kp (r # rs) =
     (case noise_keypair_nonce_check kp r of (e, kp') \<Rightarrow> (e = OK) # check_run kp' rs)"

definition fresh_window :: "noise_keypair \<Rightarrow> bool" where
  "fresh_window kp \<longleftrightarrow> kp_nonce_recv kp = 0 \<and> kp_backtrack kp = replicate 128 0"

lemma fresh_window_rel: "fresh_window kp \<Longrightarrow> window_rel kp {}"
  by (simp add: fresh_window_def window_rel_def)

lemma check_run_refines:
  "window_rel kp seen \<Longrightarrow> check_run kp rs = spec_receive (unat (kp_nonce_recv kp)) seen (map unat rs)"
proof (induction rs arbitrary: kp seen)
  case (Cons r rs)
  show ?case
  proof (cases "acceptable (unat (kp_nonce_recv kp)) seen (unat r)")
    case True
    then obtain kp' where "noise_keypair_nonce_check kp r = (OK, kp')" "window_rel kp' (insert (unat r) seen)"
      "unat (kp_nonce_recv kp') = max (unat (kp_nonce_recv kp)) (unat r + 1)"
      using nonce_check_step [OF Cons.prems, of r] by auto
    then show ?thesis using True Cons.IH [of kp' "insert (unat r) seen"] by simp
  next
    case False
    then show ?thesis using nonce_check_step [OF Cons.prems, of r] Cons by simp
  qed
qed simp

lemma spec_receive_no_replay:
  "distinct (map fst (filter snd (zip cs (spec_receive h seen cs)))) \<and>
   set (map fst (filter snd (zip cs (spec_receive h seen cs)))) \<inter> seen = {}"
proof (induction h seen cs rule: spec_receive.induct)
  case (2 h seen c cs)
  then show ?case by (cases "acceptable h seen c") (auto simp: acceptable_def)
qed simp

lemma distinct_map_unat: "distinct (map unat (xs :: u64 list)) \<Longrightarrow> distinct xs"
  by (simp add: distinct_map)

lemma filter_zip_map: "map fst (filter snd (zip (map f xs) bs)) = map f (map fst (filter snd (zip xs bs)))"
  by (induction xs arbitrary: bs) (simp, case_tac bs, auto)

subsection \<open>Transport messages\<close>

lemma mbuf_roundtrip:
  assumes "noise_keypair_encrypt True kp nonce m = (e, idx, m')" "kp_recv kp2 = kp_send kp"
    "kp_nonce_recv kp2 < REJECT_AFTER_MESSAGES" "\<not> timer_expired now (kp_birthdate kp2) REJECT_AFTER_TIME 0"
  shows "e = OK \<and> idx = i_remote_index (kp_index kp) \<and>
    noise_keypair_decrypt kp2 nonce m' now = (OK, m'\<lparr>m_data := m_data m\<rparr>)"
proof -
  obtain cap where "chacha20poly1305_encrypt_mbuf True m nonce (kp_send kp)
      = (OK, \<lparr>m_data = chacha20_poly1305_encrypt (m_data m) [] (le64enc nonce) (kp_send kp), m_cap = cap\<rparr>)"
    using encrypt_mbuf_buffer [of True m nonce "kp_send kp"] by auto
  then have e: "e = OK" "idx = i_remote_index (kp_index kp)"
    "m' = \<lparr>m_data = chacha20_poly1305_encrypt (m_data m) [] (le64enc nonce) (kp_send kp), m_cap = cap\<rparr>"
    using assms(1) by (simp_all add: noise_keypair_encrypt_def)
  then show ?thesis
    using assms(2-4) by (simp add: noise_keypair_decrypt_def decrypt_mbuf_buffer box.open_seal box.length_seal not_le)
qed

subsection \<open>Properties\<close>

lemma reject_pos: "0 < REJECT_AFTER_MESSAGES"
  by (simp add: word_less_nat_alt unat_reject reject_after_def)

definition demo_keypair :: noise_keypair where
  "demo_keypair = \<lparr>kp_index = \<lparr>i_local_index = 1, i_remote_index = 2, i_is_keypair = True\<rparr>, kp_refcnt = 1,
     kp_can_send = True, kp_is_initiator = True, kp_birthdate = 0, kp_remote = 0, kp_send = replicate 32 1,
     kp_recv = replicate 32 1, kp_nonce_send = 0, kp_nonce_recv = 0, kp_backtrack = replicate 128 0\<rparr>"

text \<open>C32: a keypair never uses a counter twice. From a fresh keypair the counters handed out by
  successive calls of \<open>noise_keypair_nonce_next\<close> are 0, 1, 2, ... in order, up to but not including
  \<open>REJECT_AFTER_MESSAGES\<close>, after which every call fails and the keypair can no longer send.\<close>

theorem nonce_next_sequence:
  assumes "kp_can_send kp" "kp_nonce_send kp = 0"
  shows "fst (nonce_run n kp) = map of_nat [0..<min n reject_after] \<and> distinct (fst (nonce_run n kp))"
proof
  show e: "fst (nonce_run n kp) = map of_nat [0..<min n reject_after]"
    using nonce_run_from [of kp 0 n] assms by simp
  have "inj_on (of_nat :: nat \<Rightarrow> u64) {0..<min n reject_after}"
  proof (rule inj_onI)
    fix a b assume ab: "a \<in> {0..<min n reject_after}" "b \<in> {0..<min n reject_after}" "(of_nat a :: u64) = of_nat b"
    have u: "unat (of_nat c :: u64) = c" if "c \<in> {0..<min n reject_after}" for c
      using that by (intro unat_of_nat_small) simp
    have "a = unat (of_nat a :: u64)" by (rule u [OF ab(1), symmetric])
    also have "\<dots> = unat (of_nat b :: u64)" by (rule arg_cong [OF ab(3)])
    also have "\<dots> = b" by (rule u [OF ab(2)])
    finally show "a = b" .
  qed
  then show "distinct (fst (nonce_run n kp))" unfolding e by (simp add: distinct_map)
qed

lemma nonce_next_sequence_witness: "fst (nonce_run 3 demo_keypair) = [0, 1, 2]"
proof -
  have "[0..<min 3 reject_after] = [0, 1, 2]" by (simp add: reject_after_def upt_rec)
  then show ?thesis
    using nonce_next_sequence [of demo_keypair 3] by (simp add: demo_keypair_def)
qed

text \<open>C21: the replay window implements an unbounded memory. On any sequence of received counters a
  fresh window answers exactly as a receiver that remembers every counter accepted so far and
  accepts a counter below \<open>REJECT_AFTER_MESSAGES\<close> that is new and at most 8128 behind the next one
  expected; so no counter is ever accepted twice.\<close>

theorem replay_window_refines:
  assumes "fresh_window kp"
  shows "check_run kp rs = spec_receive 0 {} (map unat rs) \<and>
    distinct (map fst (filter snd (zip rs (check_run kp rs))))"
proof -
  have e: "check_run kp rs = spec_receive 0 {} (map unat rs)"
    using check_run_refines [OF fresh_window_rel [OF assms], of rs] assms by (simp add: fresh_window_def)
  have "distinct (map unat (map fst (filter snd (zip rs (check_run kp rs)))))"
    unfolding e filter_zip_map [symmetric] using spec_receive_no_replay by blast
  with e show ?thesis by (blast intro: distinct_map_unat)
qed

lemma replay_window_refines_witness:
  "check_run demo_keypair [5, 3, 5, 9000, 3, 4000] = [True, True, False, True, False, True]"
  using replay_window_refines [of demo_keypair "[5, 3, 5, 9000, 3, 4000]"]
  by (simp add: fresh_window_def demo_keypair_def acceptable_def reject_after_def)

text \<open>Transport round trip. A message encrypted under a keypair decrypts, under a keypair whose
  receiving key is the sender's sending key and with the same counter, to the original bytes, as
  long as the receiver has not reached the message or time limit; the sender learns the peer's
  index to put in the header.\<close>

theorem transport_roundtrip:
  assumes "noise_keypair_encrypt True kp nonce m = (e, idx, m')" "kp_recv kp2 = kp_send kp"
    "kp_nonce_recv kp2 < REJECT_AFTER_MESSAGES" "now \<le> kp_birthdate kp2 + 180 * SBT_1S"
  shows "e = OK \<and> idx = i_remote_index (kp_index kp) \<and>
    noise_keypair_decrypt kp2 nonce m' now = (OK, m'\<lparr>m_data := m_data m\<rparr>)"
  using mbuf_roundtrip [OF assms(1-3), of now] assms(4)
  by (simp add: timer_expired_def nstosbt_def REJECT_AFTER_TIME_def)

lemma transport_roundtrip_witness:
  "\<exists>m'. noise_keypair_encrypt True demo_keypair 7 \<lparr>m_data = [1, 2, 3], m_cap = 67\<rparr> = (OK, 2, m') \<and>
     m_data (snd (noise_keypair_decrypt demo_keypair 7 m' 5)) = [1, 2, 3]"
proof -
  obtain e idx m' where
    r: "noise_keypair_encrypt True demo_keypair 7 \<lparr>m_data = [1, 2, 3], m_cap = 67\<rparr> = (e, idx, m')"
    by (metis prod_cases3)
  show ?thesis
    using transport_roundtrip [OF r, of demo_keypair 5] r
    by (simp add: demo_keypair_def reject_pos SBT_1S_def)
qed

end
