(* ===== verification/NoiseState.thy ===== *)
theory NoiseState
  imports NoiseCrypto Keypair
begin

text \<open>
  The peers, keypairs and index table of one \<^verbatim>\<open>struct noise_local\<close> in \<^verbatim>\<open>src/wg_noise.c\<close>.

  The record \<open>noise_local\<close> holds the C structure together with the heap of the objects that
  belong to it: \<open>remotes\<close> and \<open>keypairs\<close> map an address (a number, handed out in order) to the
  object, \<open>freed_remotes\<close> and \<open>freed_keypairs\<close> list the addresses given back to the
  allocator. \<^verbatim>\<open>r_local\<close> is implicit: every remote belongs to the one local. A linked
  \<^verbatim>\<open>struct noise_index\<close> is named by the object that embeds it (\<open>index_ref\<close>). Lists of the C
  library are lists of addresses in their order.

  Locks and epochs are not modelled: every function is one step, and \<^verbatim>\<open>NET_EPOCH_CALL\<close> runs its
  function at once, as \<^verbatim>\<open>macos_stubs/sys/epoch.h\<close> defines it. A function that reads the clock more
  than once gets one reading \<open>now\<close>. \<^verbatim>\<open>arc4random\<close> is a list \<open>draws\<close> of the values it returns;
  a function that finds only indices in use in that list has the result \<open>None\<close>: the code would
  go on drawing. A reference count is a natural number.
\<close>

subsection \<open>State\<close>

definition REKEY_TIMEOUT :: u32 where "REKEY_TIMEOUT = 5"
definition KEEPALIVE_TIMEOUT :: u32 where "KEEPALIVE_TIMEOUT = 10"
definition REKEY_AFTER_TIME :: u32 where "REKEY_AFTER_TIME = 120"
definition TIMER_RESET :: sbintime where "TIMER_RESET = SBT_1S * - (uint REKEY_TIMEOUT + 1)"
definition HT_INDEX_SIZE :: nat where "HT_INDEX_SIZE = 2 ^ 13"
definition HT_INDEX_MASK :: u32 where "HT_INDEX_MASK = 8191"
definition HT_REMOTE_SIZE :: nat where "HT_REMOTE_SIZE = 2 ^ 11"
definition HT_REMOTE_MASK :: u64 where "HT_REMOTE_MASK = 2047"
definition MAX_REMOTE_PER_LOCAL :: nat where "MAX_REMOTE_PER_LOCAL = 2 ^ 20"

record noise_handshake =
  hs_e :: bytes
  hs_hash :: bytes
  hs_ck :: bytes

datatype noise_handshake_state = HANDSHAKE_DEAD | HANDSHAKE_INITIATOR | HANDSHAKE_RESPONDER

record noise_remote =
  r_index :: noise_index
  r_entry_inserted :: bool
  r_public :: bytes
  r_handshake :: noise_handshake
  r_handshake_state :: noise_handshake_state
  r_last_sent :: sbintime
  r_last_init_recv :: sbintime
  r_timestamp :: bytes
  r_psk :: bytes
  r_ss :: bytes
  r_refcnt :: nat
  r_arg :: nat
  r_next :: "nat option"
  r_current :: "nat option"
  r_previous :: "nat option"
  r_cleanup :: bool

datatype index_ref = IdxRemote nat | IdxKeypair nat

datatype cleanup_call = Cleanup_local | Cleanup_remote nat

record noise_local =
  l_has_identity :: bool
  l_public :: bytes
  l_private :: bytes
  l_refcnt :: nat
  l_hash_key :: bytes
  l_arg :: nat
  l_cleanup :: bool
  l_remote_num :: nat
  l_remote_hash :: "nat \<Rightarrow> nat list"
  l_index_hash :: "nat \<Rightarrow> index_ref list"
  remotes :: "nat \<Rightarrow> noise_remote"
  keypairs :: "nat \<Rightarrow> noise_keypair"
  next_remote :: nat
  next_keypair :: nat
  freed_remotes :: "nat list"
  freed_keypairs :: "nat list"
  l_freed :: bool
  cleanup_calls :: "cleanup_call list"

definition zero_handshake :: noise_handshake where
  "zero_handshake = \<lparr>hs_e = replicate 32 0, hs_hash = replicate 32 0, hs_ck = replicate 32 0\<rparr>"

definition zero_index :: noise_index where
  "zero_index = \<lparr>i_local_index = 0, i_remote_index = 0, i_is_keypair = False\<rparr>"

text \<open>Objects as \<^verbatim>\<open>malloc\<close> with \<^verbatim>\<open>M_ZERO\<close> returns them.\<close>

definition zero_remote :: noise_remote where
  "zero_remote = \<lparr>r_index = zero_index, r_entry_inserted = False, r_public = replicate 32 0,
     r_handshake = zero_handshake, r_handshake_state = HANDSHAKE_DEAD, r_last_sent = 0,
     r_last_init_recv = 0, r_timestamp = replicate 12 0, r_psk = replicate 32 0, r_ss = replicate 32 0,
     r_refcnt = 0, r_arg = 0, r_next = None, r_current = None, r_previous = None, r_cleanup = False\<rparr>"

definition zero_keypair :: noise_keypair where
  "zero_keypair = \<lparr>kp_index = zero_index, kp_refcnt = 0, kp_can_send = False, kp_is_initiator = False,
     kp_birthdate = 0, kp_remote = 0, kp_send = replicate 32 0, kp_recv = replicate 32 0,
     kp_nonce_send = 0, kp_nonce_recv = 0, kp_backtrack = replicate 128 0\<rparr>"

definition upd_remote :: "nat \<Rightarrow> (noise_remote \<Rightarrow> noise_remote) \<Rightarrow> noise_local \<Rightarrow> noise_local" where
  "upd_remote r f s = s\<lparr>remotes := (remotes s)(r := f (remotes s r))\<rparr>"

definition upd_keypair :: "nat \<Rightarrow> (noise_keypair \<Rightarrow> noise_keypair) \<Rightarrow> noise_local \<Rightarrow> noise_local" where
  "upd_keypair k f s = s\<lparr>keypairs := (keypairs s)(k := f (keypairs s k))\<rparr>"

text \<open>\<^verbatim>\<open>refcount_release\<close>: the new count and whether it reached zero.\<close>

definition refcount_release :: "nat \<Rightarrow> nat \<times> bool" where
  "refcount_release n = (n - 1, n = 1)"

subsection \<open>Lists of the C library (sys/ck.h)\<close>

definition CK_LIST_REMOVE :: "'a \<Rightarrow> (nat \<Rightarrow> 'a list) \<Rightarrow> nat \<Rightarrow> 'a list" where
  "CK_LIST_REMOVE x h = (\<lambda>b. remove1 x (h b))"

definition CK_LIST_INSERT_HEAD :: "nat \<Rightarrow> 'a \<Rightarrow> (nat \<Rightarrow> 'a list) \<Rightarrow> nat \<Rightarrow> 'a list" where
  "CK_LIST_INSERT_HEAD b x h = h(b := x # h b)"

fun insert_before :: "'a \<Rightarrow> 'a \<Rightarrow> 'a list \<Rightarrow> 'a list" where
  "insert_before x y [] = []"
| "insert_before x y (z # zs) = (if z = x then y # z # zs else z # insert_before x y zs)"

definition CK_LIST_INSERT_BEFORE :: "'a \<Rightarrow> 'a \<Rightarrow> (nat \<Rightarrow> 'a list) \<Rightarrow> nat \<Rightarrow> 'a list" where
  "CK_LIST_INSERT_BEFORE x y h = (\<lambda>b. insert_before x y (h b))"

text \<open>\<^verbatim>\<open>CK_LIST_FOREACH\<close> with a \<^verbatim>\<open>break\<close> at the first match is \<open>List.find\<close>.\<close>

subsection \<open>Local configuration\<close>

definition siphash24 :: "bytes \<Rightarrow> bytes \<Rightarrow> u64" where
  "siphash24 key src = SipHashX 2 4 key src"

definition noise_local_alloc :: "nat \<Rightarrow> bytes \<Rightarrow> noise_local" where
  "noise_local_alloc arg hash_key =
     \<lparr>l_has_identity = False, l_public = replicate NOISE_PUBLIC_KEY_LEN 0,
      l_private = replicate NOISE_PUBLIC_KEY_LEN 0, l_refcnt = 1, l_hash_key = hash_key, l_arg = arg,
      l_cleanup = False, l_remote_num = 0, l_remote_hash = (\<lambda>_. []), l_index_hash = (\<lambda>_. []),
      remotes = (\<lambda>_. zero_remote), keypairs = (\<lambda>_. zero_keypair), next_remote = 0, next_keypair = 0,
      freed_remotes = [], freed_keypairs = [], l_freed = False, cleanup_calls = []\<rparr>"

definition noise_local_ref :: "noise_local \<Rightarrow> noise_local" where
  "noise_local_ref l = l\<lparr>l_refcnt := l_refcnt l + 1\<rparr>"

definition noise_local_put :: "noise_local \<Rightarrow> noise_local" where
  "noise_local_put l =
     (case refcount_release (l_refcnt l) of
        (n, last_ref) \<Rightarrow>
          let l = l\<lparr>l_refcnt := n\<rparr> in
          if last_ref
          then (let l = (if l_cleanup l then l\<lparr>cleanup_calls := Cleanup_local # cleanup_calls l\<rparr> else l)
                in l\<lparr>l_freed := True\<rparr>)
          else l)"

definition noise_local_free :: "noise_local \<Rightarrow> bool \<Rightarrow> noise_local" where
  "noise_local_free l cleanup = noise_local_put (l\<lparr>l_cleanup := cleanup\<rparr>)"

definition noise_local_arg :: "noise_local \<Rightarrow> nat" where
  "noise_local_arg l = l_arg l"

text \<open>Result: public and private key, or \<^verbatim>\<open>ENXIO\<close>.\<close>

definition noise_local_keys :: "noise_local \<Rightarrow> errno \<times> (bytes \<times> bytes) option" where
  "noise_local_keys l =
     (if l_has_identity l then (OK, Some (l_public l, l_private l)) else (ENXIO, None))"

definition noise_precompute_ss :: "curve \<Rightarrow> nat \<Rightarrow> noise_local \<Rightarrow> noise_local" where
  "noise_precompute_ss cv r l =
     (case c_dh cv (l_private l) (r_public (remotes l r)) of
        (ss, ok) \<Rightarrow>
          if \<not> l_has_identity l \<or> \<not> ok
          then upd_remote r (r_ss_update (\<lambda>_. replicate NOISE_PUBLIC_KEY_LEN 0)) l
          else upd_remote r (r_ss_update (\<lambda>_. ss)) l)"

subsection \<open>Remotes\<close>

definition noise_remote_alloc :: "curve \<Rightarrow> noise_local \<Rightarrow> nat \<Rightarrow> bytes \<Rightarrow> nat \<times> noise_local" where
  "noise_remote_alloc cv l arg public =
     (let r = next_remote l;
          l = l\<lparr>next_remote := r + 1,
                remotes := (remotes l)(r := zero_remote\<lparr>r_public := public, r_handshake_state := HANDSHAKE_DEAD,
                                               r_last_sent := TIMER_RESET, r_last_init_recv := TIMER_RESET\<rparr>)\<rparr>;
          l = noise_precompute_ss cv r l;
          l = noise_local_ref (upd_remote r (\<lambda>x. x\<lparr>r_refcnt := 1, r_arg := arg\<rparr>) l)
      in (r, l))"

definition remote_bucket :: "noise_local \<Rightarrow> bytes \<Rightarrow> nat" where
  "remote_bucket l public = unat (siphash24 (l_hash_key l) public AND HT_REMOTE_MASK)"

definition noise_remote_enable :: "nat \<Rightarrow> noise_local \<Rightarrow> errno \<times> noise_local" where
  "noise_remote_enable r l =
     (let idx = remote_bucket l (r_public (remotes l r)) in
      if \<not> r_entry_inserted (remotes l r) then
        if l_remote_num l < MAX_REMOTE_PER_LOCAL
        then (OK, (upd_remote r (r_entry_inserted_update (\<lambda>_. True)) l)
                    \<lparr>l_remote_num := l_remote_num l + 1,
                     l_remote_hash := CK_LIST_INSERT_HEAD idx r (l_remote_hash l)\<rparr>)
        else (ENOSPC, l)
      else (OK, l))"

definition noise_remote_disable :: "nat \<Rightarrow> noise_local \<Rightarrow> noise_local" where
  "noise_remote_disable r l =
     (if r_entry_inserted (remotes l r)
      then (upd_remote r (r_entry_inserted_update (\<lambda>_. False)) l)
             \<lparr>l_remote_hash := CK_LIST_REMOVE r (l_remote_hash l), l_remote_num := l_remote_num l - 1\<rparr>
      else l)"

definition noise_remote_ref :: "nat \<Rightarrow> noise_local \<Rightarrow> noise_local" where
  "noise_remote_ref r l = upd_remote r (r_refcnt_update (\<lambda>n. n + 1)) l"

text \<open>\<^verbatim>\<open>refcount_acquire_if_not_zero\<close> on a remote that was found.\<close>

definition acquire_remote :: "nat \<Rightarrow> noise_local \<Rightarrow> nat option \<times> noise_local" where
  "acquire_remote r l =
     (if r_refcnt (remotes l r) \<noteq> 0 then (Some r, noise_remote_ref r l) else (None, l))"

definition noise_remote_lookup :: "noise_local \<Rightarrow> bytes \<Rightarrow> nat option \<times> noise_local" where
  "noise_remote_lookup l public =
     (case List.find (\<lambda>r. \<not> timingsafe_bcmp (r_public (remotes l r)) public)
             (l_remote_hash l (remote_bucket l public)) of
        None \<Rightarrow> (None, l)
      | Some r \<Rightarrow> acquire_remote r l)"

subsection \<open>The index table\<close>

definition index_bucket :: "u32 \<Rightarrow> nat" where
  "index_bucket i = unat (i AND HT_INDEX_MASK)"

text \<open>The \<^verbatim>\<open>struct noise_index\<close> that a reference names.\<close>

definition ref_index :: "noise_local \<Rightarrow> index_ref \<Rightarrow> noise_index" where
  "ref_index l i = (case i of IdxRemote r \<Rightarrow> r_index (remotes l r) | IdxKeypair k \<Rightarrow> kp_index (keypairs l k))"

definition noise_remote_index_remove :: "nat \<Rightarrow> noise_local \<Rightarrow> bool \<times> noise_local" where
  "noise_remote_index_remove r l =
     (if r_handshake_state (remotes l r) \<noteq> HANDSHAKE_DEAD
      then (True, (upd_remote r (r_handshake_state_update (\<lambda>_. HANDSHAKE_DEAD)) l)
                    \<lparr>l_index_hash := CK_LIST_REMOVE (IdxRemote r) (l_index_hash l)\<rparr>)
      else (False, l))"

text \<open>The loop at label \<^verbatim>\<open>assign_id\<close>; the remaining draws are returned.\<close>

fun assign_id :: "nat \<Rightarrow> u32 list \<Rightarrow> noise_local \<Rightarrow> (noise_local \<times> u32 list) option" where
  "assign_id r [] l = None"
| "assign_id r (d # ds) l =
     (let l = upd_remote r (r_index_update (i_local_index_update (\<lambda>_. d))) l; idx = index_bucket d
      in if list_ex (\<lambda>i. i_local_index (ref_index l i) = d) (l_index_hash l idx)
         then assign_id r ds l
         else Some (l\<lparr>l_index_hash := CK_LIST_INSERT_HEAD idx (IdxRemote r) (l_index_hash l)\<rparr>, ds))"

definition noise_remote_index_insert :: "nat \<Rightarrow> u32 list \<Rightarrow> noise_local \<Rightarrow> (noise_local \<times> u32 list) option" where
  "noise_remote_index_insert r draws l = assign_id r draws (snd (noise_remote_index_remove r l))"

definition noise_remote_index_lookup :: "noise_local \<Rightarrow> u32 \<Rightarrow> bool \<Rightarrow> nat option \<times> noise_local" where
  "noise_remote_index_lookup l idx0 lookup_keypair =
     (case List.find (\<lambda>i. i_local_index (ref_index l i) = idx0) (l_index_hash l (index_bucket idx0)) of
        None \<Rightarrow> (None, l)
      | Some (IdxRemote r) \<Rightarrow> acquire_remote r l
      | Some (IdxKeypair k) \<Rightarrow>
          if lookup_keypair then acquire_remote (kp_remote (keypairs l k)) l else (None, l))"

definition noise_remote_index :: "noise_local \<Rightarrow> u32 \<Rightarrow> nat option \<times> noise_local" where
  "noise_remote_index l idx = noise_remote_index_lookup l idx True"

subsection \<open>Releasing remotes and keypairs\<close>

definition noise_remote_smr_free :: "nat \<Rightarrow> noise_local \<Rightarrow> noise_local" where
  "noise_remote_smr_free r l =
     (let l = (if r_cleanup (remotes l r)
               then l\<lparr>cleanup_calls := Cleanup_remote r # cleanup_calls l\<rparr> else l);
          l = noise_local_put l
      in l\<lparr>freed_remotes := r # freed_remotes l\<rparr>)"

definition noise_remote_put :: "nat \<Rightarrow> noise_local \<Rightarrow> noise_local" where
  "noise_remote_put r l =
     (case refcount_release (r_refcnt (remotes l r)) of
        (n, last_ref) \<Rightarrow>
          let l = upd_remote r (r_refcnt_update (\<lambda>_. n)) l
          in if last_ref then noise_remote_smr_free r l else l)"

definition noise_keypair_smr_free :: "nat \<Rightarrow> noise_local \<Rightarrow> noise_local" where
  "noise_keypair_smr_free k l =
     (let l = noise_remote_put (kp_remote (keypairs l k)) l
      in l\<lparr>freed_keypairs := k # freed_keypairs l\<rparr>)"

definition noise_keypair_put :: "nat \<Rightarrow> noise_local \<Rightarrow> noise_local" where
  "noise_keypair_put k l =
     (case refcount_release (kp_refcnt (keypairs l k)) of
        (n, last_ref) \<Rightarrow>
          let l = upd_keypair k (kp_refcnt_update (\<lambda>_. n)) l
          in if last_ref then noise_keypair_smr_free k l else l)"

definition noise_keypair_drop :: "nat option \<Rightarrow> noise_local \<Rightarrow> noise_local" where
  "noise_keypair_drop kp l =
     (case kp of
        None \<Rightarrow> l
      | Some k \<Rightarrow> noise_keypair_put k (l\<lparr>l_index_hash := CK_LIST_REMOVE (IdxKeypair k) (l_index_hash l)\<rparr>))"

definition noise_remote_handshake_clear :: "nat \<Rightarrow> noise_local \<Rightarrow> noise_local" where
  "noise_remote_handshake_clear r l =
     (case noise_remote_index_remove r l of
        (removed, l) \<Rightarrow>
          let l = (if removed then upd_remote r (r_handshake_update (\<lambda>_. zero_handshake)) l else l)
          in upd_remote r (r_last_sent_update (\<lambda>_. TIMER_RESET)) l)"

definition noise_remote_keypairs_clear :: "nat \<Rightarrow> noise_local \<Rightarrow> noise_local" where
  "noise_remote_keypairs_clear r l =
     (let kp = r_next (remotes l r);
          l = noise_keypair_drop kp (upd_remote r (r_next_update (\<lambda>_. None)) l);
          kp = r_current (remotes l r);
          l = noise_keypair_drop kp (upd_remote r (r_current_update (\<lambda>_. None)) l);
          kp = r_previous (remotes l r)
      in noise_keypair_drop kp (upd_remote r (r_previous_update (\<lambda>_. None)) l))"

definition noise_remote_free :: "nat \<Rightarrow> bool \<Rightarrow> noise_local \<Rightarrow> noise_local" where
  "noise_remote_free r cleanup l =
     (let l = upd_remote r (r_cleanup_update (\<lambda>_. cleanup)) l;
          l = noise_remote_disable r l;
          l = noise_remote_handshake_clear r l;
          l = noise_remote_keypairs_clear r l
      in noise_remote_put r l)"

text \<open>\<^verbatim>\<open>noise_remote_local\<close> takes a reference of the local and returns it.\<close>

definition noise_remote_local :: "nat \<Rightarrow> noise_local \<Rightarrow> noise_local" where
  "noise_remote_local r l = noise_local_ref l"

definition noise_remote_arg :: "noise_local \<Rightarrow> nat \<Rightarrow> nat" where
  "noise_remote_arg l r = r_arg (remotes l r)"

definition noise_remote_set_psk :: "nat \<Rightarrow> bytes option \<Rightarrow> noise_local \<Rightarrow> noise_local" where
  "noise_remote_set_psk r psk l =
     (case psk of
        None \<Rightarrow> upd_remote r (r_psk_update (\<lambda>_. replicate NOISE_SYMMETRIC_KEY_LEN 0)) l
      | Some k \<Rightarrow> upd_remote r (r_psk_update (\<lambda>_. k)) l)"

text \<open>Result: \<^verbatim>\<open>ENOENT\<close> when the pre-shared key is null, with both keys in any case.\<close>

definition noise_remote_keys :: "noise_local \<Rightarrow> nat \<Rightarrow> errno \<times> bytes \<times> bytes" where
  "noise_remote_keys l r =
     (let psk = r_psk (remotes l r)
      in (if timingsafe_bcmp psk (replicate NOISE_SYMMETRIC_KEY_LEN 0) then OK else ENOENT,
          r_public (remotes l r), psk))"

definition noise_remote_initiation_expired :: "noise_local \<Rightarrow> nat \<Rightarrow> sbintime \<Rightarrow> bool" where
  "noise_remote_initiation_expired l r now = timer_expired now (r_last_sent (remotes l r)) REKEY_TIMEOUT 0"

definition noise_remote_expire_current :: "nat \<Rightarrow> noise_local \<Rightarrow> noise_local" where
  "noise_remote_expire_current r l =
     (let l = noise_remote_handshake_clear r l;
          l = (case r_next (remotes l r) of
                 None \<Rightarrow> l | Some k \<Rightarrow> upd_keypair k (kp_can_send_update (\<lambda>_. False)) l)
      in (case r_current (remotes l r) of
            None \<Rightarrow> l | Some k \<Rightarrow> upd_keypair k (kp_can_send_update (\<lambda>_. False)) l))"

definition noise_local_private :: "curve \<Rightarrow> bytes \<Rightarrow> noise_local \<Rightarrow> noise_local" where
  "noise_local_private cv private l =
     (let l = l\<lparr>l_private := c_clamp cv private\<rparr>;
          l = (case c_pub cv (l_private l) of (pub, ok) \<Rightarrow> l\<lparr>l_public := pub, l_has_identity := ok\<rparr>)
      in fold (\<lambda>i l. fold (\<lambda>r l. noise_remote_expire_current r (noise_precompute_ss cv r l))
                          (l_remote_hash l i) l)
              [0..<HT_REMOTE_SIZE] l)"

subsection \<open>Keypairs\<close>

definition add_to_slots :: "nat \<Rightarrow> nat \<Rightarrow> noise_local \<Rightarrow> noise_local" where
  "add_to_slots r k l =
     (let nxt = r_next (remotes l r); cur = r_current (remotes l r); prev = r_previous (remotes l r) in
      if kp_is_initiator (keypairs l k) then
        let l = (case nxt of
                   Some n \<Rightarrow>
                     noise_keypair_drop cur (upd_remote r (\<lambda>x. x\<lparr>r_next := None, r_previous := Some n\<rparr>) l)
                 | None \<Rightarrow> upd_remote r (r_previous_update (\<lambda>_. cur)) l);
            l = noise_keypair_drop prev l
        in upd_remote r (r_current_update (\<lambda>_. Some k)) l
      else
        let l = upd_remote r (r_next_update (\<lambda>_. Some k)) l;
            l = noise_keypair_drop nxt l;
            l = upd_remote r (r_previous_update (\<lambda>_. None)) l
        in noise_keypair_drop prev l)"

definition noise_add_new_keypair :: "nat \<Rightarrow> nat \<Rightarrow> noise_local \<Rightarrow> noise_local" where
  "noise_add_new_keypair r k l =
     (let l = add_to_slots r k l;
          l = upd_keypair k (kp_index_update (\<lambda>_. \<lparr>i_local_index = i_local_index (r_index (remotes l r)),
                i_remote_index = i_remote_index (r_index (remotes l r)), i_is_keypair = True\<rparr>)) l;
          l = l\<lparr>l_index_hash := CK_LIST_INSERT_BEFORE (IdxRemote r) (IdxKeypair k) (l_index_hash l)\<rparr>;
          l = upd_remote r (r_handshake_state_update (\<lambda>_. HANDSHAKE_DEAD)) l;
          l = l\<lparr>l_index_hash := CK_LIST_REMOVE (IdxRemote r) (l_index_hash l)\<rparr>
      in upd_remote r (r_handshake_update (\<lambda>_. zero_handshake)) l)"

definition noise_begin_session :: "nat \<Rightarrow> sbintime \<Rightarrow> bool \<Rightarrow> noise_local \<Rightarrow> errno \<times> noise_local" where
  "noise_begin_session r now alloc_ok l =
     (if \<not> alloc_ok then (ENOSPC, l)
      else
        let k = next_keypair l;
            initiator = (r_handshake_state (remotes l r) = HANDSHAKE_INITIATOR);
            l = noise_remote_ref r l;
            (k1, k2, _) = noise_kdf NOISE_SYMMETRIC_KEY_LEN NOISE_SYMMETRIC_KEY_LEN 0 []
                            (hs_ck (r_handshake (remotes l r)));
            kp = zero_keypair\<lparr>kp_refcnt := 1, kp_can_send := True, kp_is_initiator := initiator,
                             kp_birthdate := now, kp_remote := r\<rparr>;
            kp = (if initiator then kp\<lparr>kp_send := written [] k1, kp_recv := written [] k2\<rparr>
                  else kp\<lparr>kp_recv := written [] k1, kp_send := written [] k2\<rparr>);
            l = l\<lparr>next_keypair := k + 1, keypairs := (keypairs l)(k := kp)\<rparr>
        in (OK, noise_add_new_keypair r k l))"

definition noise_keypair_ref :: "nat \<Rightarrow> noise_local \<Rightarrow> noise_local" where
  "noise_keypair_ref k l = upd_keypair k (kp_refcnt_update (\<lambda>n. n + 1)) l"

definition acquire_keypair :: "nat \<Rightarrow> noise_local \<Rightarrow> nat option \<times> noise_local" where
  "acquire_keypair k l =
     (if kp_refcnt (keypairs l k) \<noteq> 0 then (Some k, noise_keypair_ref k l) else (None, l))"

definition noise_keypair_lookup :: "noise_local \<Rightarrow> u32 \<Rightarrow> nat option \<times> noise_local" where
  "noise_keypair_lookup l idx0 =
     (case List.find (\<lambda>i. i_local_index (ref_index l i) = idx0 \<and> i_is_keypair (ref_index l i))
             (l_index_hash l (index_bucket idx0)) of
        Some (IdxKeypair k) \<Rightarrow> acquire_keypair k l
      | _ \<Rightarrow> (None, l))"

definition noise_keypair_current :: "nat \<Rightarrow> sbintime \<Rightarrow> noise_local \<Rightarrow> nat option \<times> noise_local" where
  "noise_keypair_current r now l =
     (case r_current (remotes l r) of
        None \<Rightarrow> (None, l)
      | Some k \<Rightarrow>
          if kp_can_send (keypairs l k) then
            if timer_expired now (kp_birthdate (keypairs l k)) REJECT_AFTER_TIME 0
            then (None, upd_keypair k (kp_can_send_update (\<lambda>_. False)) l)
            else acquire_keypair k l
          else (None, l))"

definition noise_keypair_received_with :: "nat \<Rightarrow> noise_local \<Rightarrow> errno \<times> noise_local" where
  "noise_keypair_received_with k l =
     (let r = kp_remote (keypairs l k) in
      if r_next (remotes l r) \<noteq> Some k then (OK, l)
      else
        let old = r_previous (remotes l r);
            l = upd_remote r (\<lambda>x. x\<lparr>r_previous := r_current x\<rparr>) l;
            l = noise_keypair_drop old l;
            l = upd_remote r (\<lambda>x. x\<lparr>r_current := Some k, r_next := None\<rparr>) l
        in (ECONNRESET, l))"

definition noise_keypair_remote :: "nat \<Rightarrow> noise_local \<Rightarrow> nat \<times> noise_local" where
  "noise_keypair_remote k l =
     (kp_remote (keypairs l k), noise_remote_ref (kp_remote (keypairs l k)) l)"

definition noise_keep_key_fresh_send :: "noise_local \<Rightarrow> nat \<Rightarrow> sbintime \<Rightarrow> errno" where
  "noise_keep_key_fresh_send l r now =
     (case r_current (remotes l r) of
        None \<Rightarrow> OK
      | Some k \<Rightarrow>
          let kp = keypairs l k in
          if \<not> kp_can_send kp then OK
          else if kp_nonce_send kp > REKEY_AFTER_MESSAGES then ESTALE
          else if kp_is_initiator kp \<and> timer_expired now (kp_birthdate kp) REKEY_AFTER_TIME 0 then ESTALE
          else OK)"

definition noise_keep_key_fresh_recv :: "noise_local \<Rightarrow> nat \<Rightarrow> sbintime \<Rightarrow> errno" where
  "noise_keep_key_fresh_recv l r now =
     (case r_current (remotes l r) of
        None \<Rightarrow> OK
      | Some k \<Rightarrow>
          let kp = keypairs l k in
          if kp_can_send kp \<and> kp_is_initiator kp \<and>
             timer_expired now (kp_birthdate kp) (REJECT_AFTER_TIME - KEEPALIVE_TIMEOUT - REKEY_TIMEOUT) 0
          then ESTALE else OK)"

end
