(* ===== verification/Handshake.thy ===== *)
theory Handshake
  imports NoiseState
begin

text \<open>
  The four handshake functions of \<^verbatim>\<open>src/wg_noise.c\<close>: creating and consuming an initiation
  and a response (Noise IKpsk2 as WireGuard uses it).

  The message fields are values: \<open>s_idx\<close>, \<open>ue\<close>, \<open>es\<close>, \<open>ets\<close> of an initiation, \<open>s_idx\<close>,
  \<open>r_idx\<close>, \<open>ue\<close>, \<open>en\<close> of a response. The clock reading \<open>now\<close>, the wall clock
  \<open>(tv_sec, tv_nsec)\<close>, the 32 random bytes \<open>rnd\<close> of an ephemeral secret and the draws of
  \<^verbatim>\<open>arc4random\<close> are arguments. A function that draws an index returns an \<open>option\<close>, \<open>None\<close>
  when the given draws are used up (see \<open>NoiseState\<close>).
  The C code updates \<^verbatim>\<open>hs_ck\<close> and \<^verbatim>\<open>hs_hash\<close> of a remote in place; \<open>set_hs\<close> is that update, and
  it is kept on the error paths.
\<close>

subsection \<open>Operations\<close>

record initiation_fields =
  in_s_idx :: u32
  in_ue :: bytes
  in_es :: bytes
  in_ets :: bytes

record response_fields =
  rs_s_idx :: u32
  rs_r_idx :: u32
  rs_ue :: bytes
  rs_en :: bytes

definition set_hs :: "nat \<Rightarrow> bytes \<Rightarrow> bytes \<Rightarrow> noise_local \<Rightarrow> noise_local" where
  "set_hs r ck hash l = upd_remote r (r_handshake_update (\<lambda>h. h\<lparr>hs_ck := ck, hs_hash := hash\<rparr>)) l"

definition set_hs_e :: "nat \<Rightarrow> bytes \<Rightarrow> noise_local \<Rightarrow> noise_local" where
  "set_hs_e r e l = upd_remote r (r_handshake_update (\<lambda>h. h\<lparr>hs_e := e\<rparr>)) l"

text \<open>The part of \<^verbatim>\<open>noise_create_initiation\<close> that computes the fields \<open>ue\<close>, \<open>es\<close>, \<open>ets\<close>; it changes
  the handshake of the remote even when it fails.\<close>

definition write_initiation ::
    "curve \<Rightarrow> nat \<Rightarrow> u64 \<times> u64 \<Rightarrow> bytes \<Rightarrow> noise_local \<Rightarrow> (bytes \<times> bytes \<times> bytes) option \<times> noise_local" where
  "write_initiation cv r time rnd l =
     (let (ck, hash) = noise_param_init (r_public (remotes l r));
          e = generate_secret cv rnd;
          l = set_hs_e r e (set_hs r ck hash l);
          (ue, ok) = c_pub cv e
      in if \<not> ok then (None, l)
      else
        let (ck, hash) = noise_msg_ephemeral ck hash ue in
        (case noise_mix_dh cv NOISE_SYMMETRIC_KEY_LEN ck e (r_public (remotes l r)) of
           None \<Rightarrow> (None, set_hs r ck hash l)
         | Some (ck, key) \<Rightarrow>
             let (es, hash) = noise_msg_encrypt (l_public l) key hash in
             (case noise_mix_ss ck (r_ss (remotes l r)) of
                None \<Rightarrow> (None, set_hs r ck hash l)
              | Some (ck, key) \<Rightarrow>
                  let ets = noise_tai64n_now (fst time) (snd time);
                      (ets, hash) = noise_msg_encrypt ets key hash
                  in (Some (ue, es, ets), set_hs r ck hash l))))"

definition noise_create_initiation ::
    "curve \<Rightarrow> nat \<Rightarrow> sbintime \<Rightarrow> u64 \<times> u64 \<Rightarrow> bytes \<Rightarrow> u32 list \<Rightarrow> noise_local
     \<Rightarrow> (errno \<times> initiation_fields option \<times> noise_local) option" where
  "noise_create_initiation cv r now time rnd draws l =
     (if \<not> l_has_identity l then Some (EINVAL, None, l)
      else if \<not> timer_expired now (r_last_sent (remotes l r)) REKEY_TIMEOUT 0 then Some (EINVAL, None, l)
      else
        (case write_initiation cv r time rnd l of
           (None, l) \<Rightarrow> Some (EINVAL, None, l)
         | (Some (ue, es, ets), l) \<Rightarrow>
             (case noise_remote_index_insert r draws l of
                None \<Rightarrow> None
              | Some (l, _) \<Rightarrow>
                  let l = upd_remote r (\<lambda>x. x\<lparr>r_handshake_state := HANDSHAKE_INITIATOR,
                                             r_last_sent := now\<rparr>) l
                  in Some (OK, Some \<lparr>in_s_idx = i_local_index (r_index (remotes l r)), in_ue = ue,
                                     in_es = es, in_ets = ets\<rparr>, l))))"

text \<open>The part of \<^verbatim>\<open>noise_consume_initiation\<close> up to the timestamp: the remote found, the
  decrypted timestamp, and the handshake in \<open>hs\<close>. The reference that the lookup took is held
  exactly when the first component is \<open>Some\<close>.\<close>

definition read_initiation ::
    "curve \<Rightarrow> bytes \<Rightarrow> bytes \<Rightarrow> bytes \<Rightarrow> noise_local
     \<Rightarrow> nat option \<times> (bytes \<times> noise_handshake) option \<times> noise_local" where
  "read_initiation cv ue es ets l =
     (let (ck, hash) = noise_param_init (l_public l);
          (ck, hash) = noise_msg_ephemeral ck hash ue
      in (case noise_mix_dh cv NOISE_SYMMETRIC_KEY_LEN ck (l_private l) ue of
           None \<Rightarrow> (None, None, l)
         | Some (ck, key) \<Rightarrow>
         (case noise_msg_decrypt es key hash of
           None \<Rightarrow> (None, None, l)
         | Some (pk, hash) \<Rightarrow>
         (case noise_remote_lookup l pk of
           (None, l) \<Rightarrow> (None, None, l)
         | (Some r, l) \<Rightarrow>
         (case noise_mix_ss ck (r_ss (remotes l r)) of
           None \<Rightarrow> (Some r, None, l)
         | Some (ck, key) \<Rightarrow>
         (case noise_msg_decrypt ets key hash of
           None \<Rightarrow> (Some r, None, l)
         | Some (timestamp, hash) \<Rightarrow>
             (Some r, Some (timestamp, \<lparr>hs_e = ue, hs_hash = hash, hs_ck = ck\<rparr>), l)))))))"

definition noise_consume_initiation ::
    "curve \<Rightarrow> u32 \<Rightarrow> bytes \<Rightarrow> bytes \<Rightarrow> bytes \<Rightarrow> sbintime \<Rightarrow> u32 list \<Rightarrow> noise_local
     \<Rightarrow> (errno \<times> nat option \<times> noise_local) option" where
  "noise_consume_initiation cv s_idx ue es ets now draws l =
     (if \<not> l_has_identity l then Some (EINVAL, None, l)
      else
        (case read_initiation cv ue es ets l of
           (None, _, l) \<Rightarrow> Some (EINVAL, None, l)
         | (Some r, None, l) \<Rightarrow> Some (EINVAL, None, noise_remote_put r l)
         | (Some r, Some (timestamp, hs), l) \<Rightarrow>
             if \<not> memcmp timestamp (r_timestamp (remotes l r)) > 0
             then Some (EINVAL, None, noise_remote_put r l)
             else
               let l = upd_remote r (r_timestamp_update (\<lambda>_. timestamp)) l in
               if \<not> timer_expired now (r_last_init_recv (remotes l r)) 0 REJECT_INTERVAL
               then Some (EINVAL, None, noise_remote_put r l)
               else
                 let l = upd_remote r (r_last_init_recv_update (\<lambda>_. now)) l in
                 (case noise_remote_index_insert r draws l of
                    None \<Rightarrow> None
                  | Some (l, _) \<Rightarrow>
                      let l = upd_remote r (\<lambda>x. x\<lparr>r_index := (r_index x)\<lparr>i_remote_index := s_idx\<rparr>,
                                r_handshake_state := HANDSHAKE_RESPONDER, r_handshake := hs\<rparr>) l;
                          l = noise_remote_ref r l
                      in Some (OK, Some r, noise_remote_put r l))))"

text \<open>The part of \<^verbatim>\<open>noise_create_response\<close> that computes \<open>ue\<close> and \<open>en\<close>.\<close>

definition write_response :: "curve \<Rightarrow> nat \<Rightarrow> bytes \<Rightarrow> noise_local \<Rightarrow> (bytes \<times> bytes) option \<times> noise_local" where
  "write_response cv r rnd l =
     (let e = generate_secret cv rnd; (ue, ok) = c_pub cv e in
      if \<not> ok then (None, l)
      else
        let hs = r_handshake (remotes l r);
            (ck, hash) = noise_msg_ephemeral (hs_ck hs) (hs_hash hs) ue
        in (case noise_mix_dh cv 0 ck e (hs_e hs) of
              None \<Rightarrow> (None, set_hs r ck hash l)
            | Some (ck, _) \<Rightarrow>
            (case noise_mix_dh cv 0 ck e (r_public (remotes l r)) of
              None \<Rightarrow> (None, set_hs r ck hash l)
            | Some (ck, _) \<Rightarrow>
                let (ck, hash, key) = noise_mix_psk ck hash (r_psk (remotes l r));
                    (en, hash) = noise_msg_encrypt [] key hash
                in (Some (ue, en), set_hs r ck hash l))))"

definition noise_create_response ::
    "curve \<Rightarrow> nat \<Rightarrow> sbintime \<Rightarrow> bytes \<Rightarrow> bool \<Rightarrow> noise_local
     \<Rightarrow> errno \<times> response_fields option \<times> noise_local" where
  "noise_create_response cv r now rnd alloc_ok l =
     (if r_handshake_state (remotes l r) \<noteq> HANDSHAKE_RESPONDER then (EINVAL, None, l)
      else
        (case write_response cv r rnd l of
           (None, l) \<Rightarrow> (EINVAL, None, l)
         | (Some (ue, en), l) \<Rightarrow>
             (case noise_begin_session r now alloc_ok l of
                (ret, l) \<Rightarrow>
                  if ret \<noteq> OK then (ret, None, l)
                  else
                    let l = upd_remote r (r_last_sent_update (\<lambda>_. now)) l;
                        i = r_index (remotes l r)
                    in (OK, Some \<lparr>rs_s_idx = i_local_index i, rs_r_idx = i_remote_index i,
                                  rs_ue = ue, rs_en = en\<rparr>, l))))"

text \<open>The computation of \<^verbatim>\<open>noise_consume_response\<close> on its copy of the handshake.\<close>

definition read_response ::
    "curve \<Rightarrow> noise_handshake \<Rightarrow> bytes \<Rightarrow> bytes \<Rightarrow> bytes \<Rightarrow> bytes \<Rightarrow> noise_handshake option" where
  "read_response cv hs private psk ue en =
     (let (ck, hash) = noise_msg_ephemeral (hs_ck hs) (hs_hash hs) ue in
      (case noise_mix_dh cv 0 ck (hs_e hs) ue of
        None \<Rightarrow> None
      | Some (ck, _) \<Rightarrow>
      (case noise_mix_dh cv 0 ck private ue of
        None \<Rightarrow> None
      | Some (ck, _) \<Rightarrow>
          let (ck, hash, key) = noise_mix_psk ck hash psk in
          (case noise_msg_decrypt en key hash of
             None \<Rightarrow> None
           | Some (_, hash) \<Rightarrow> Some (hs\<lparr>hs_ck := ck, hs_hash := hash\<rparr>)))))"

definition noise_consume_response ::
    "curve \<Rightarrow> u32 \<Rightarrow> u32 \<Rightarrow> bytes \<Rightarrow> bytes \<Rightarrow> sbintime \<Rightarrow> bool \<Rightarrow> noise_local
     \<Rightarrow> errno \<times> nat option \<times> noise_local" where
  "noise_consume_response cv s_idx r_idx ue en now alloc_ok l =
     (case noise_remote_index_lookup l r_idx False of
        (None, l) \<Rightarrow> (EINVAL, None, l)
      | (Some r, l) \<Rightarrow>
          if \<not> l_has_identity l then (EINVAL, None, noise_remote_put r l)
          else if r_handshake_state (remotes l r) \<noteq> HANDSHAKE_INITIATOR
          then (EINVAL, None, noise_remote_put r l)
          else
            (case read_response cv (r_handshake (remotes l r)) (l_private l) (r_psk (remotes l r)) ue en of
               None \<Rightarrow> (EINVAL, None, noise_remote_put r l)
             | Some hs \<Rightarrow>
                 if r_handshake_state (remotes l r) = HANDSHAKE_INITIATOR \<and>
                    i_local_index (r_index (remotes l r)) = r_idx
                 then
                   let l = upd_remote r (\<lambda>x. x\<lparr>r_handshake := hs,
                             r_index := (r_index x)\<lparr>i_remote_index := s_idx\<rparr>\<rparr>) l
                   in (case noise_begin_session r now alloc_ok l of
                         (ret, l) \<Rightarrow>
                           if ret = OK then (OK, Some r, noise_remote_put r (noise_remote_ref r l))
                           else (ret, None, noise_remote_put r l))
                 else (EINVAL, None, noise_remote_put r l)))"

end
