(* ===== verification/AllowedIPs.thy ===== *)
theory AllowedIPs
  imports Prelude
begin

text \<open>
  \<^verbatim>\<open>src/allowedips.c\<close>: the bit trie that maps CIDRs to peers.

  A \<^verbatim>\<open>struct aips_node *\<close> is a value of \<open>aips_node\<close>: \<open>Null\<close> is the null pointer,
  \<open>Node p l r\<close> a node with its peer pointer (\<open>None\<close> for NULL) and its two children.
  The loops over bit positions consume the list of the bits they would read. \<^verbatim>\<open>calloc\<close> may
  fail: \<open>mem\<close> is the number of nodes it still serves, and the walk of
  \<^verbatim>\<open>aips_insert\<close> stops where it fails, leaving the nodes made so far.
  The trie and address pointers are never NULL in the model (every caller passes the address
  of a struct member); the peer pointer may be.

  The abstract view of a trie is the map \<open>aips_view\<close> from bit prefixes to peers. The lemmas
  show that insert and remove are map update and deletion, that lookup is longest-prefix match
  over that map, and that \<open>entries\<close> counts it. The locale \<open>cidr_table\<close> is the
  interface the session relies on.
\<close>

subsection \<open>State\<close>

datatype 'p aips_node = Null | Node "'p option" "'p aips_node" "'p aips_node"

record 'p aips_trie =
  root :: "'p aips_node"
  max_bits :: nat
  entries :: nat

definition node_alloc :: "'p aips_node" where
  "node_alloc = Node None Null Null"

definition bit_at :: "bytes \<Rightarrow> nat \<Rightarrow> bool" where
  "bit_at addr i \<longleftrightarrow> drop_bit (7 - i mod 8) (addr ! (i div 8)) AND 1 = 1"

definition addr_bits :: "bytes \<Rightarrow> nat \<Rightarrow> bool list" where
  "addr_bits addr n = map (bit_at addr) [0..<n]"

subsection \<open>Operations\<close>

definition aips_init :: "nat \<Rightarrow> 'p aips_trie" where
  "aips_init mb = \<lparr>root = Null, max_bits = mb, entries = 0\<rparr>"

fun node_free_recursive :: "'p aips_node \<Rightarrow> nat" where
  "node_free_recursive Null = 0"
| "node_free_recursive (Node p l r) = node_free_recursive l + node_free_recursive r + 1"

definition aips_destroy :: "'p aips_trie \<Rightarrow> 'p aips_trie" where
  "aips_destroy t = t\<lparr>root := Null, entries := 0\<rparr>"

text \<open>
  The walk of \<^verbatim>\<open>aips_insert\<close> below an existing node. The result is the new node, the
  memory left and \<open>None\<close> if an allocation failed, else whether the final node had no peer.
\<close>

fun child :: "bool \<Rightarrow> 'p aips_node \<Rightarrow> 'p aips_node" where
  "child b Null = Null"
| "child b (Node q l r) = (if b then r else l)"

fun set_child :: "bool \<Rightarrow> 'p aips_node \<Rightarrow> 'p aips_node \<Rightarrow> 'p aips_node" where
  "set_child b c Null = Null"
| "set_child b c (Node q l r) = (if b then Node q l c else Node q c r)"

fun set_peer :: "'p option \<Rightarrow> 'p aips_node \<Rightarrow> 'p aips_node" where
  "set_peer p Null = Null"
| "set_peer p (Node q l r) = Node p l r"

fun node_peer :: "'p aips_node \<Rightarrow> 'p option" where
  "node_peer Null = None"
| "node_peer (Node q l r) = q"

fun insert_walk :: "'p \<Rightarrow> nat \<Rightarrow> bool list \<Rightarrow> 'p aips_node \<Rightarrow> 'p aips_node \<times> nat \<times> bool option" where
  "insert_walk p mem [] n = (set_peer (Some p) n, mem, Some (node_peer n = None))"
| "insert_walk p mem (b # bs) n =
     (if child b n = Null \<and> mem = 0 then (n, mem, None)
      else
        let (c, mem1) = (if child b n = Null then (node_alloc, mem - 1) else (child b n, mem));
            (c', mem', res) = insert_walk p mem1 bs c
        in (set_child b c' n, mem', res))"

definition aips_insert_mem ::
    "nat \<Rightarrow> 'p aips_trie \<Rightarrow> bytes \<Rightarrow> nat \<Rightarrow> 'p option \<Rightarrow> int \<times> 'p aips_trie \<times> nat" where
  "aips_insert_mem mem t addr prefix_len peer =
     (case peer of None \<Rightarrow> (-1, t, mem)
      | Some p \<Rightarrow>
        if prefix_len > max_bits t then (-1, t, mem)
        else if root t = Null \<and> mem = 0 then (-1, t, mem)
        else
          let (n0, mem0) = (if root t = Null then (node_alloc, mem - 1) else (root t, mem));
              (n1, mem1, res) = insert_walk p mem0 (addr_bits addr prefix_len) n0;
              t1 = t\<lparr>root := n1\<rparr>
          in (case res of
                None \<Rightarrow> (-1, t1, mem1)
              | Some was_null \<Rightarrow>
                  (0, (if was_null then t1\<lparr>entries := entries t1 + 1\<rparr> else t1), mem1)))"

text \<open>The same call when every allocation succeeds: \<open>prefix_len + 1\<close> nodes are enough.\<close>

definition aips_insert :: "'p aips_trie \<Rightarrow> bytes \<Rightarrow> nat \<Rightarrow> 'p option \<Rightarrow> int \<times> 'p aips_trie" where
  "aips_insert t addr prefix_len peer =
     (let (rc, t', _) = aips_insert_mem (prefix_len + 1) t addr prefix_len peer in (rc, t'))"

fun lookup_walk :: "bool list \<Rightarrow> 'p aips_node \<Rightarrow> 'p option \<Rightarrow> 'p option" where
  "lookup_walk bs Null best = best"
| "lookup_walk [] (Node q l r) best = (if q \<noteq> None then q else best)"
| "lookup_walk (b # bs) (Node q l r) best =
     lookup_walk bs (if b then r else l) (if q \<noteq> None then q else best)"

definition aips_lookup :: "'p aips_trie \<Rightarrow> bytes \<Rightarrow> 'p option" where
  "aips_lookup t addr =
     (if root t = Null then None
      else lookup_walk (addr_bits addr (max_bits t)) (root t) None)"

fun remove_walk :: "bool list \<Rightarrow> 'p aips_node \<Rightarrow> 'p aips_node option" where
  "remove_walk [] n = (if node_peer n = None then None else Some (set_peer None n))"
| "remove_walk (b # bs) n =
     (if child b n = Null then None
      else map_option (\<lambda>c. set_child b c n) (remove_walk bs (child b n)))"

definition aips_remove :: "'p aips_trie \<Rightarrow> bytes \<Rightarrow> nat \<Rightarrow> int \<times> 'p aips_trie" where
  "aips_remove t addr prefix_len =
     (if root t = Null \<or> prefix_len > max_bits t then (-1, t)
      else case remove_walk (addr_bits addr prefix_len) (root t) of
             None \<Rightarrow> (-1, t)
           | Some n \<Rightarrow>
               (0, t\<lparr>root := n, entries := (if entries t > 0 then entries t - 1 else entries t)\<rparr>))"

definition v4_to_be :: "u32 \<Rightarrow> bytes" where
  "v4_to_be a = [ucast (drop_bit 24 a AND 0xff), ucast (drop_bit 16 a AND 0xff),
                 ucast (drop_bit 8 a AND 0xff), ucast (a AND 0xff)]"

definition aips_insert_v4 :: "'p aips_trie \<Rightarrow> u32 \<Rightarrow> nat \<Rightarrow> 'p option \<Rightarrow> int \<times> 'p aips_trie" where
  "aips_insert_v4 t addr_host prefix_len peer = aips_insert t (v4_to_be addr_host) prefix_len peer"

definition aips_lookup_v4 :: "'p aips_trie \<Rightarrow> u32 \<Rightarrow> 'p option" where
  "aips_lookup_v4 t addr_host = aips_lookup t (v4_to_be addr_host)"

subsection \<open>Abstract view and longest-prefix match\<close>

fun node_view :: "'p aips_node \<Rightarrow> bool list \<Rightarrow> 'p option" where
  "node_view Null bs = None"
| "node_view (Node q l r) [] = q"
| "node_view (Node q l r) (b # bs) = node_view (if b then r else l) bs"

fun node_count :: "'p aips_node \<Rightarrow> nat" where
  "node_count Null = 0"
| "node_count (Node q l r) = (if q = None then 0 else 1) + node_count l + node_count r"

definition aips_view :: "'p aips_trie \<Rightarrow> bool list \<Rightarrow> 'p option" where
  "aips_view t = node_view (root t)"

definition aips_inv :: "'p aips_trie \<Rightarrow> bool" where
  "aips_inv t \<longleftrightarrow> entries t = node_count (root t)"

text \<open>Longest-prefix match of \<open>bs\<close> in a map of prefixes, written over the map alone.\<close>

fun lpm :: "(bool list \<Rightarrow> 'p option) \<Rightarrow> bool list \<Rightarrow> 'p option" where
  "lpm m [] = m []"
| "lpm m (b # bs) = (case lpm (\<lambda>xs. m (b # xs)) bs of Some p \<Rightarrow> Some p | None \<Rightarrow> m [])"

lemma lpm_None_iff: "lpm m bs = None \<longleftrightarrow> (\<forall>n \<le> length bs. m (take n bs) = None)"
proof (induction bs arbitrary: m)
  case Nil
  then show ?case by simp
next
  case (Cons b bs)
  have "(\<forall>n \<le> length (b # bs). m (take n (b # bs)) = None) \<longleftrightarrow>
        m [] = None \<and> (\<forall>n \<le> length bs. m (b # take n bs) = None)"
    by (auto simp: take_Cons split: nat.splits)
  with Cons.IH [of "\<lambda>xs. m (b # xs)"] show ?case
    by (auto split: option.splits)
qed

lemma lpm_Some_iff:
  "lpm m bs = Some p \<longleftrightarrow>
   (\<exists>n \<le> length bs. m (take n bs) = Some p \<and> (\<forall>k. n < k \<and> k \<le> length bs \<longrightarrow> m (take k bs) = None))"
  (is "_ \<longleftrightarrow> ?R m bs")
proof (induction bs arbitrary: m)
  case Nil
  then show ?case by simp
next
  case (Cons b bs)
  show ?case
  proof (cases "lpm (\<lambda>xs. m (b # xs)) bs")
    case None
    then have tl: "m (b # take n bs) = None" if "n \<le> length bs" for n
      using that by (simp add: lpm_None_iff)
    have "m (take k (b # bs)) = None" if "0 < k" "k \<le> length (b # bs)" for k
      using that tl [of "k - 1"] by (cases k) auto
    then have "?R m (b # bs) \<longleftrightarrow> m [] = Some p"
      by (metis gr0I le0 option.distinct(1) take0)
    with None show ?thesis by simp
  next
    case (Some q)
    have "?R (\<lambda>xs. m (b # xs)) bs \<longleftrightarrow> ?R m (b # bs)"
    proof
      assume "?R (\<lambda>xs. m (b # xs)) bs"
      then obtain n where "n \<le> length bs" "m (b # take n bs) = Some p"
        and k: "\<And>k. n < k \<Longrightarrow> k \<le> length bs \<Longrightarrow> m (b # take k bs) = None" by blast
      moreover have "m (take k (b # bs)) = None" if "Suc n < k" "k \<le> length (b # bs)" for k
        using that k [of "k - 1"] by (cases k) auto
      ultimately show "?R m (b # bs)" by (intro exI [of _ "Suc n"]) auto
    next
      assume "?R m (b # bs)"
      then obtain n where n: "n \<le> length (b # bs)" "m (take n (b # bs)) = Some p"
        and k: "\<And>k. n < k \<Longrightarrow> k \<le> length (b # bs) \<Longrightarrow> m (take k (b # bs)) = None" by blast
      from Some Cons.IH [of "\<lambda>xs. m (b # xs)"] obtain i where
        "i \<le> length bs" "m (b # take i bs) \<noteq> None"
        by (metis (no_types, lifting) lpm_None_iff option.distinct(1))
      with k [of "Suc i"] have "n \<noteq> 0" by (cases "n = 0") auto
      then obtain n' where n': "n = Suc n'" by (cases n) auto
      have "m (b # take k bs) = None" if "n' < k" "k \<le> length bs" for k
        using that k [of "Suc k"] n' by simp
      with n n' show "?R (\<lambda>xs. m (b # xs)) bs" by (intro exI [of _ n']) auto
    qed
    with Cons.IH [of "\<lambda>xs. m (b # xs)"] Some show ?thesis by auto
  qed
qed

subsection \<open>Correctness of the walks\<close>

lemma node_view_node_alloc [simp]: "node_view node_alloc = (\<lambda>_. None)"
proof
  fix bs :: "bool list"
  show "node_view node_alloc bs = None" by (cases bs) (auto simp: node_alloc_def)
qed

lemma node_alloc_not_Null [simp]: "node_alloc \<noteq> Null"
  by (simp add: node_alloc_def)

lemma node_count_node_alloc [simp]: "node_count node_alloc = 0"
  by (simp add: node_alloc_def)

lemma lookup_walk_lpm:
  "lookup_walk bs n best = (case lpm (node_view n) bs of Some p \<Rightarrow> Some p | None \<Rightarrow> best)"
proof (induction bs n best rule: lookup_walk.induct)
  case (1 bs best)
  then show ?case by (simp add: lpm_None_iff [THEN iffD2])
qed (auto split: option.splits)

lemma child_simps [simp]:
  "n \<noteq> Null \<Longrightarrow> child b (set_child b c n) = c"
  "n \<noteq> Null \<Longrightarrow> b \<noteq> b' \<Longrightarrow> child b (set_child b' c n) = child b n"
  "node_peer (set_child b c n) = node_peer n"
  "child b (set_peer p n) = child b n"
  "set_child b c n = Null \<longleftrightarrow> n = Null"
  "set_peer p n = Null \<longleftrightarrow> n = Null"
  "n \<noteq> Null \<Longrightarrow> node_peer (set_peer p n) = p"
  by (cases n; simp)+

lemma node_view_Nil: "node_view n [] = node_peer n"
  by (cases n) auto

lemma node_view_Cons: "node_view n (b # bs) = node_view (child b n) bs"
  by (cases n) auto

lemma child_node_alloc [simp]: "child b node_alloc = Null"
  by (simp add: node_alloc_def)

lemma node_view_set_child:
  "n \<noteq> Null \<Longrightarrow> node_view (set_child b c n) =
     (\<lambda>xs. case xs of [] \<Rightarrow> node_view n [] | x # ys \<Rightarrow> if x = b then node_view c ys else node_view n xs)"
  by (auto simp: fun_eq_iff node_view_Nil node_view_Cons split: list.splits)

lemma node_view_child: "node_view (child b n) = (\<lambda>xs. node_view n (b # xs))"
  by (simp add: fun_eq_iff node_view_Cons)

lemma node_count_set_child:
  "n \<noteq> Null \<Longrightarrow> node_count (set_child b c n) + node_count (child b n) = node_count n + node_count c"
  by (cases n) auto

lemma node_count_set_peer:
  "n \<noteq> Null \<Longrightarrow> node_count (set_peer p n) + (if node_peer n = None then 0 else 1)
     = node_count n + (if p = None then 0 else 1)"
  by (cases n) auto

lemma insert_walk_step:
  assumes "insert_walk p mem (b # bs) n = (n', mem', res)" "\<not> (child b n = Null \<and> mem = 0)"
  obtains c mem1 c' where "node_view c = node_view (child b n)" "node_count c = node_count (child b n)"
    "c \<noteq> Null" "mem1 = (if child b n = Null then mem - 1 else mem)"
    "insert_walk p mem1 bs c = (c', mem', res)" "n' = set_child b c' n"
proof -
  define c where "c = (if child b n = Null then node_alloc else child b n)"
  define mem1 where "mem1 = (if child b n = Null then mem - 1 else mem)"
  obtain c' mem2 res2 where w: "insert_walk p mem1 bs c = (c', mem2, res2)"
    by (metis prod_cases3)
  have "node_view c = node_view (child b n)" "node_count c = node_count (child b n)" "c \<noteq> Null"
    by (auto simp: c_def)
  moreover have "mem2 = mem'" "res2 = res" "n' = set_child b c' n"
    using assms w by (auto simp: c_def mem1_def split: if_splits)
  ultimately show ?thesis using that w mem1_def by blast
qed

lemma insert_walk_not_Null: "n \<noteq> Null \<Longrightarrow> insert_walk p mem bs n = (n', mem', res) \<Longrightarrow> n' \<noteq> Null"
  by (cases bs) (auto split: if_splits prod.splits simp: Let_def)

lemma insert_walk_view:
  assumes "insert_walk p mem bs n = (n', mem', res)" "n \<noteq> Null"
  shows "case res of
           None \<Rightarrow> node_view n' = node_view n \<and> node_count n' = node_count n
         | Some wn \<Rightarrow> node_view n' = (node_view n)(bs \<mapsto> p) \<and> wn = (node_view n bs = None)
                       \<and> node_count n' = node_count n + (if wn then 1 else 0)"
  using assms
proof (induction bs arbitrary: mem n n' mem' res)
  case Nil
  then show ?case
    using node_count_set_peer [of n "Some p"]
    by (auto simp: fun_eq_iff node_view_Nil node_view_Cons neq_Nil_conv)
next
  case (Cons b bs)
  show ?case
  proof (cases "child b n = Null \<and> mem = 0")
    case True
    with Cons.prems show ?thesis by auto
  next
    case False
    with Cons.prems(1) obtain c mem1 c' where c: "node_view c = node_view (child b n)"
        "node_count c = node_count (child b n)" "c \<noteq> Null"
        "insert_walk p mem1 bs c = (c', mem', res)" "n' = set_child b c' n"
      by (rule insert_walk_step)
    note IH = Cons.IH [OF c(4) c(3)]
    show ?thesis
      using IH c Cons.prems(2) node_count_set_child [of n b c']
      by (auto split: option.splits list.splits simp: node_view_set_child fun_eq_iff node_view_Cons)
  qed
qed

lemma insert_walk_enough:
  "length bs \<le> mem \<Longrightarrow> insert_walk p mem bs n = (n', mem', res) \<Longrightarrow> res \<noteq> None"
proof (induction bs arbitrary: mem n n' mem' res)
  case Nil
  then show ?case by auto
next
  case (Cons b bs)
  from Cons.prems(1) have "\<not> (child b n = Null \<and> mem = 0)" by auto
  with Cons.prems(2) obtain c mem1 c' where
    "mem1 = (if child b n = Null then mem - 1 else mem)" "insert_walk p mem1 bs c = (c', mem', res)"
    by (rule insert_walk_step)
  with Cons.IH [of mem1 c c' mem' res] Cons.prems(1) show ?case
    by (cases "child b n = Null") auto
qed

lemma remove_walk_view:
  assumes "n \<noteq> Null"
  shows "case remove_walk bs n of
           None \<Rightarrow> node_view n bs = None
         | Some n' \<Rightarrow> n' \<noteq> Null \<and> node_view n' = (node_view n)(bs := None) \<and> node_view n bs \<noteq> None
                       \<and> node_count n = Suc (node_count n')"
  using assms
proof (induction bs arbitrary: n)
  case Nil
  then show ?case
    using node_count_set_peer [of n None]
    by (auto simp: fun_eq_iff node_view_Nil node_view_Cons neq_Nil_conv)
next
  case (Cons b bs)
  show ?case
  proof (cases "child b n = Null")
    case True
    then show ?thesis by (simp add: node_view_Cons)
  next
    case False
    show ?thesis
    proof (cases "remove_walk bs (child b n)")
      case None
      with Cons.IH [OF False] False show ?thesis by (simp add: node_view_Cons)
    next
      case (Some c)
      with Cons.IH [OF False] have c: "node_view c = (node_view (child b n))(bs := None)"
        "node_view (child b n) bs \<noteq> None" "node_count (child b n) = Suc (node_count c)" by auto
      have "node_view (set_child b c n) = (node_view n)(b # bs := None)"
        using Cons.prems c(1)
        by (auto simp: node_view_set_child fun_eq_iff node_view_Cons split: list.splits)
      moreover have "node_count n = Suc (node_count (set_child b c n))"
        using node_count_set_child [OF Cons.prems, of b c] c(3) by simp
      ultimately show ?thesis using Some False Cons.prems c(2) by (simp add: node_view_Cons)
    qed
  qed
qed

subsection \<open>The operations on whole tries\<close>

lemma length_addr_bits [simp, wg_len]: "length (addr_bits a n) = n"
  by (simp add: addr_bits_def)

lemma take_addr_bits: "k \<le> n \<Longrightarrow> take k (addr_bits a n) = addr_bits a k"
  by (simp add: addr_bits_def take_map)

lemma lpm_Null [simp]: "lpm (node_view Null) bs = None" "lpm (\<lambda>_. None) bs = None"
  by (simp_all add: lpm_None_iff)

lemma aips_lookup_lpm: "aips_lookup t addr = lpm (aips_view t) (addr_bits addr (max_bits t))"
  by (auto simp: aips_lookup_def aips_view_def lookup_walk_lpm split: option.splits)

lemma aips_insert_mem_bad:
  "peer = None \<or> max_bits t < n \<Longrightarrow> aips_insert_mem mem t addr n peer = (-1, t, mem)"
  by (auto simp: aips_insert_mem_def split: option.splits)

lemma aips_insert_mem_cases:
  assumes "aips_insert_mem mem t addr n (Some p) = (rc, t', mem')" "n \<le> max_bits t"
  obtains "rc = -1" "t' = t" "root t = Null" "mem = 0"
  | n0 m0 n1 res where "n0 \<noteq> Null" "node_view n0 = node_view (root t)" "node_count n0 = node_count (root t)"
      "insert_walk p m0 (addr_bits addr n) n0 = (n1, mem', res)"
      "m0 = (if root t = Null then mem - 1 else mem)" "\<not> (root t = Null \<and> mem = 0)"
      "(case res of None \<Rightarrow> rc = -1 \<and> t' = t\<lparr>root := n1\<rparr>
        | Some wn \<Rightarrow> rc = 0 \<and> t' = t\<lparr>root := n1, entries := entries t + (if wn then 1 else 0)\<rparr>)"
proof (cases "root t = Null \<and> mem = 0")
  case True
  with assms that(1) show ?thesis by (simp add: aips_insert_mem_def)
next
  case False
  define n0 where "n0 = (if root t = Null then node_alloc else root t)"
  define m0 where "m0 = (if root t = Null then mem - 1 else mem)"
  obtain n1 m1 res where w: "insert_walk p m0 (addr_bits addr n) n0 = (n1, m1, res)"
    by (metis prod_cases3)
  have "n0 \<noteq> Null" "node_view n0 = node_view (root t)" "node_count n0 = node_count (root t)"
    by (auto simp: n0_def fun_eq_iff)
  moreover have "m1 = mem'" "case res of None \<Rightarrow> rc = -1 \<and> t' = t\<lparr>root := n1\<rparr>
        | Some wn \<Rightarrow> rc = 0 \<and> t' = t\<lparr>root := n1, entries := entries t + (if wn then 1 else 0)\<rparr>"
    using assms w False
    by (cases res; auto simp: aips_insert_mem_def n0_def m0_def Let_def split: if_splits)+
  ultimately show ?thesis using that(2) w m0_def False by blast
qed

lemma aips_insert_mem_max_bits:
  "aips_insert_mem mem t addr n p = (rc, t', mem') \<Longrightarrow> max_bits t' = max_bits t"
  by (auto simp: aips_insert_mem_def Let_def split: option.splits if_splits prod.splits)

lemma aips_insert_mem_view:
  assumes "aips_insert_mem mem t addr n (Some p) = (rc, t', mem')" "n \<le> max_bits t"
  shows "rc = 0 \<and> aips_view t' = (aips_view t)(addr_bits addr n \<mapsto> p) \<or>
         rc = -1 \<and> aips_view t' = aips_view t"
  using assms
  by (rule aips_insert_mem_cases)
    (auto simp: aips_view_def dest!: insert_walk_view split: option.splits)

lemma aips_insert_mem_inv:
  assumes "aips_insert_mem mem t addr n (Some p) = (rc, t', mem')" "aips_inv t"
  shows "aips_inv t'"
proof (cases "n \<le> max_bits t")
  case True
  with assms(1) show ?thesis
    by (rule aips_insert_mem_cases)
      (use assms(2) in \<open>auto simp: aips_inv_def dest!: insert_walk_view split: option.splits if_splits\<close>)
next
  case False
  with assms show ?thesis by (simp add: aips_insert_mem_def)
qed

lemma aips_insert_mem_enough:
  assumes "aips_insert_mem mem t addr n (Some p) = (rc, t', mem')" "n \<le> max_bits t" "n < mem"
  shows "rc = 0"
  using assms(1,2)
proof (rule aips_insert_mem_cases)
  assume "mem = 0"
  with assms(3) show "rc = 0" by simp
next
  fix n0 m0 n1 res
  assume "insert_walk p m0 (addr_bits addr n) n0 = (n1, mem', res)"
    "m0 = (if root t = Null then mem - 1 else mem)"
    "case res of None \<Rightarrow> rc = -1 \<and> t' = t\<lparr>root := n1\<rparr>
        | Some wn \<Rightarrow> rc = 0 \<and> t' = t\<lparr>root := n1, entries := entries t + (if wn then 1 else 0)\<rparr>"
  moreover from this(2) assms(3) have "n \<le> m0" by (auto split: if_splits)
  ultimately show "rc = 0"
    using insert_walk_enough [of "addr_bits addr n" m0 p n0 n1 mem' res] by (auto split: option.splits)
qed

lemma aips_insert_ok:
  "n \<le> max_bits t \<Longrightarrow> fst (aips_insert t addr n (Some p)) = 0"
  "n \<le> max_bits t \<Longrightarrow>
     aips_view (snd (aips_insert t addr n (Some p))) = (aips_view t)(addr_bits addr n \<mapsto> p)"
  "max_bits (snd (aips_insert t addr n q)) = max_bits t"
  using aips_insert_mem_enough [of "n + 1" t addr n p] aips_insert_mem_view [of "n + 1" t addr n p]
    aips_insert_mem_max_bits [of "n + 1" t addr n q]
  by (auto simp: aips_insert_def split: prod.splits)

lemma aips_insert_bad: "max_bits t < n \<or> p = None \<Longrightarrow> aips_insert t addr n p = (-1, t)"
  by (auto simp: aips_insert_def aips_insert_mem_def split: option.splits)

lemma aips_remove_view:
  assumes "aips_remove t addr n = (rc, t')"
  shows "rc = 0 \<and> n \<le> max_bits t \<and> aips_view t (addr_bits addr n) \<noteq> None
           \<and> aips_view t' = (aips_view t)(addr_bits addr n := None)
       \<or> rc = -1 \<and> t' = t \<and> (n \<le> max_bits t \<longrightarrow> aips_view t (addr_bits addr n) = None)"
proof (cases "root t = Null \<or> n > max_bits t")
  case True
  with assms show ?thesis by (auto simp: aips_remove_def aips_view_def)
next
  case False
  with remove_walk_view [of "root t" "addr_bits addr n"] assms show ?thesis
    by (auto simp: aips_remove_def aips_view_def split: option.splits)
qed

lemma aips_remove_inv:
  assumes "aips_remove t addr n = (rc, t')" "aips_inv t"
  shows "aips_inv t'"
proof (cases "root t = Null \<or> n > max_bits t")
  case True
  with assms show ?thesis by (auto simp: aips_remove_def)
next
  case False
  with remove_walk_view [of "root t" "addr_bits addr n"] assms show ?thesis
    by (auto simp: aips_remove_def aips_inv_def split: option.splits)
qed

subsection \<open>The interface of the session\<close>

text \<open>
  What the data plane needs of a CIDR table: inserting binds a prefix, lookup is longest-prefix
  match. \<open>build_table\<close> is the loop of \<^verbatim>\<open>wg_session_create\<close> and
  \<^verbatim>\<open>rebuild_aips\<close>: insert every CIDR of every peer, in order.
\<close>

definition build_table ::
    "('t \<Rightarrow> bytes \<Rightarrow> nat \<Rightarrow> 'p \<Rightarrow> 't) \<Rightarrow> 't \<Rightarrow> (bytes \<times> nat \<times> 'p) list \<Rightarrow> 't" where
  "build_table ins e cs = foldl (\<lambda>t (a, n, p). ins t a n p) e cs"

lemma build_table_Nil [simp]: "build_table ins e [] = e"
  by (simp add: build_table_def)

lemma build_table_snoc [simp]:
  "build_table ins e (cs @ [(a, n, p)]) = ins (build_table ins e cs) a n p"
  by (simp add: build_table_def)

locale cidr_table =
  fixes tbl_inv :: "'t \<Rightarrow> bool"
    and tbl_empty :: 't
    and tbl_insert :: "'t \<Rightarrow> bytes \<Rightarrow> nat \<Rightarrow> 'p \<Rightarrow> 't"
    and tbl_lookup :: "'t \<Rightarrow> bytes \<Rightarrow> 'p option"
    and tbl_view :: "'t \<Rightarrow> bool list \<Rightarrow> 'p option"
    and width :: nat
  assumes inv_empty: "tbl_inv tbl_empty"
    and inv_insert: "tbl_inv t \<Longrightarrow> tbl_inv (tbl_insert t a n p)"
    and view_empty: "tbl_view tbl_empty = (\<lambda>_. None)"
    and view_insert: "tbl_inv t \<Longrightarrow> n \<le> width \<Longrightarrow>
          tbl_view (tbl_insert t a n p) = (tbl_view t)(addr_bits a n \<mapsto> p)"
    and insert_too_long: "tbl_inv t \<Longrightarrow> width < n \<Longrightarrow> tbl_insert t a n p = t"
    and lookup_lpm: "tbl_inv t \<Longrightarrow> tbl_lookup t a = lpm (tbl_view t) (addr_bits a width)"
begin

lemma inv_build: "tbl_inv (build_table tbl_insert tbl_empty cs)"
  by (induction cs rule: rev_induct) (auto intro: inv_empty inv_insert)

lemma view_build_Some:
  "tbl_view (build_table tbl_insert tbl_empty cs) bs = Some p \<Longrightarrow>
   \<exists>a n. (a, n, p) \<in> set cs \<and> n \<le> width \<and> bs = addr_bits a n"
proof (induction cs rule: rev_induct)
  case Nil
  then show ?case by (simp add: view_empty)
next
  case (snoc c cs)
  obtain a n q where c: "c = (a, n, q)" by (cases c) auto
  show ?case
  proof (cases "n \<le> width")
    case True
    with snoc show ?thesis
      by (auto simp: c view_insert [OF inv_build] split: if_splits)
  next
    case False
    with snoc show ?thesis by (auto simp: c insert_too_long [OF inv_build])
  qed
qed

lemma view_build_bound:
  "(a, n, p) \<in> set cs \<Longrightarrow> n \<le> width \<Longrightarrow>
   tbl_view (build_table tbl_insert tbl_empty cs) (addr_bits a n) \<noteq> None"
proof (induction cs rule: rev_induct)
  case Nil
  then show ?case by simp
next
  case (snoc c cs)
  obtain a' n' q where c: "c = (a', n', q)" by (cases c) auto
  show ?case
  proof (cases "n' \<le> width")
    case True
    with snoc show ?thesis by (auto simp: c view_insert [OF inv_build])
  next
    case False
    with snoc show ?thesis by (auto simp: c insert_too_long [OF inv_build])
  qed
qed

text \<open>As a map: the last of equal prefixes wins.\<close>

lemma view_build:
  "\<forall>(a, n, p) \<in> set cs. n \<le> width \<Longrightarrow>
   tbl_view (build_table tbl_insert tbl_empty cs) = map_of (rev (map (\<lambda>(a, n, p). (addr_bits a n, p)) cs))"
proof (induction cs rule: rev_induct)
  case Nil
  then show ?case by (simp add: view_empty)
next
  case (snoc c cs)
  then show ?case by (cases c) (simp add: view_insert [OF inv_build])
qed

lemma lookup_build_sound:
  assumes "tbl_lookup (build_table tbl_insert tbl_empty cs) x = Some p"
  shows "\<exists>a n. (a, n, p) \<in> set cs \<and> n \<le> width \<and> addr_bits a n = addr_bits x n"
proof -
  from assms obtain n where n: "n \<le> width"
    "tbl_view (build_table tbl_insert tbl_empty cs) (addr_bits x n) = Some p"
    by (auto simp: lookup_lpm [OF inv_build] lpm_Some_iff take_addr_bits)
  from view_build_Some [OF n(2)] obtain a m where am:
    "(a, m, p) \<in> set cs" "m \<le> width" "addr_bits x n = addr_bits a m" by blast
  then have "n = m" by (metis length_addr_bits)
  with am show ?thesis by metis
qed

lemma lookup_build_complete:
  assumes "(a, n, p) \<in> set cs" "n \<le> width" "addr_bits a n = addr_bits x n"
  shows "\<exists>q. tbl_lookup (build_table tbl_insert tbl_empty cs) x = Some q"
proof -
  have "tbl_view (build_table tbl_insert tbl_empty cs) (take n (addr_bits x width)) \<noteq> None"
    using view_build_bound [OF assms(1,2)] assms by (simp add: take_addr_bits)
  then have "lpm (tbl_view (build_table tbl_insert tbl_empty cs)) (addr_bits x width) \<noteq> None"
    using assms(2) by (auto simp: lpm_None_iff)
  then show ?thesis by (simp add: lookup_lpm [OF inv_build])
qed

text \<open>The winner is at least as specific as every other CIDR that covers the address.\<close>

lemma lookup_build_longest:
  assumes "tbl_lookup (build_table tbl_insert tbl_empty cs) x = Some p"
  shows "\<exists>a n. (a, n, p) \<in> set cs \<and> addr_bits a n = addr_bits x n \<and>
           (\<forall>b m q. (b, m, q) \<in> set cs \<longrightarrow> m \<le> width \<longrightarrow> addr_bits b m = addr_bits x m \<longrightarrow> m \<le> n)"
proof -
  let ?v = "tbl_view (build_table tbl_insert tbl_empty cs)"
  from assms obtain n where n: "n \<le> width" "?v (addr_bits x n) = Some p"
    and top: "\<forall>k. n < k \<and> k \<le> width \<longrightarrow> ?v (addr_bits x k) = None"
    by (auto simp: lookup_lpm [OF inv_build] lpm_Some_iff take_addr_bits)
  from view_build_Some [OF n(2)] obtain a m where am:
    "(a, m, p) \<in> set cs" "addr_bits x n = addr_bits a m" by blast
  then have "n = m" by (metis length_addr_bits)
  have "m' \<le> n" if "(b, m', q) \<in> set cs" "m' \<le> width" "addr_bits b m' = addr_bits x m'" for b m' q
    using top view_build_bound [OF that(1,2)] that by (metis leI)
  with am \<open>n = m\<close> show ?thesis by metis
qed

end

definition aips_put :: "'p aips_trie \<Rightarrow> bytes \<Rightarrow> nat \<Rightarrow> 'p \<Rightarrow> 'p aips_trie" where
  "aips_put t a n p = snd (aips_insert t a n (Some p))"

lemma aips_init_simps [simp]:
  "aips_view (aips_init mb) = (\<lambda>_. None)" "max_bits (aips_init mb) = mb" "aips_inv (aips_init mb)"
  by (auto simp: aips_init_def aips_view_def aips_inv_def)

interpretation v4: cidr_table "\<lambda>t. max_bits t = 32" "aips_init 32" aips_put aips_lookup aips_view 32
  by unfold_locales (auto simp: aips_put_def aips_insert_ok aips_insert_bad aips_lookup_lpm)

interpretation v6: cidr_table "\<lambda>t. max_bits t = 128" "aips_init 128" aips_put aips_lookup aips_view 128
  by unfold_locales (auto simp: aips_put_def aips_insert_ok aips_insert_bad aips_lookup_lpm)

subsection \<open>Properties\<close>

text \<open>C20: \<^verbatim>\<open>aips_lookup\<close> is longest-prefix match: it returns the peer bound to the
  longest prefix of the address that the trie holds, and NULL only if no prefix is bound.\<close>

theorem aips_lookup_longest_prefix:
  "(aips_lookup t addr = Some p \<longleftrightarrow>
     (\<exists>n \<le> max_bits t. aips_view t (addr_bits addr n) = Some p \<and>
        (\<forall>k. n < k \<and> k \<le> max_bits t \<longrightarrow> aips_view t (addr_bits addr k) = None))) \<and>
   (aips_lookup t addr = None \<longleftrightarrow> (\<forall>n \<le> max_bits t. aips_view t (addr_bits addr n) = None))"
  by (auto simp: aips_lookup_lpm lpm_Some_iff lpm_None_iff take_addr_bits)

definition demo_trie :: "nat aips_trie" where
  "demo_trie = aips_put (aips_put (aips_init 32) [10, 0, 0, 0] 8 1) [10, 1, 0, 0] 16 2"

lemma demo_trie_view:
  "aips_view demo_trie = [addr_bits [10, 0, 0, 0] 8 \<mapsto> 1, addr_bits [10, 1, 0, 0] 16 \<mapsto> 2]"
  "max_bits demo_trie = 32"
  by (simp_all add: demo_trie_def aips_put_def aips_insert_ok)

lemma aips_lookup_longest_prefix_witness:
  "aips_lookup demo_trie [10, 1, 2, 3] = Some 2 \<and> aips_lookup demo_trie [10, 9, 2, 3] = Some 1
   \<and> aips_lookup demo_trie [11, 1, 2, 3] = None
   \<and> aips_view demo_trie (addr_bits [11, 1, 2, 3] 8) = None"
proof -
  have l: "aips_lookup demo_trie [10, 1, 2, 3] = Some 2" "aips_lookup demo_trie [10, 9, 2, 3] = Some 1"
    "aips_lookup demo_trie [11, 1, 2, 3] = None"
    by code_simp+
  with aips_lookup_longest_prefix [of demo_trie "[11, 1, 2, 3]"] show ?thesis
    by (simp add: demo_trie_view(2))
qed

text \<open>C40: \<^verbatim>\<open>aips_insert\<close> with an allocator that may fail at any node: it either succeeds and
  binds exactly the given prefix, replacing an old peer, or returns -1 with every lookup
  unchanged (the nodes it left behind carry no peer); with \<open>prefix_len + 1\<close> free nodes it
  succeeds; a NULL peer or a prefix longer than the trie is refused and changes nothing.\<close>

theorem aips_insert_correct:
  assumes "aips_insert_mem mem t addr n peer = (rc, t', mem')"
  shows "(peer = None \<or> max_bits t < n \<longrightarrow> rc = -1 \<and> t' = t) \<and>
         (\<forall>p. peer = Some p \<and> n \<le> max_bits t \<longrightarrow>
            (rc = 0 \<and> aips_view t' = (aips_view t)(addr_bits addr n \<mapsto> p) \<or>
             rc = -1 \<and> aips_view t' = aips_view t) \<and>
            (n < mem \<longrightarrow> rc = 0))"
  using aips_insert_mem_view [of mem t addr n _ rc t' mem']
    aips_insert_mem_enough [of mem t addr n _ rc t' mem'] assms
  by (cases peer) (auto simp: aips_insert_mem_bad)

lemma aips_insert_correct_witness:
  "aips_view (fst (snd (aips_insert_mem 9 (aips_init 32) [10, 0, 0, 0] 8 (Some (7::nat)))))
     = [addr_bits [10, 0, 0, 0] 8 \<mapsto> 7]
   \<and> fst (aips_insert_mem 3 (aips_init 32) [10, 0, 0, 0] 8 (Some (7::nat))) = -1"
proof -
  obtain rc t' m where r: "aips_insert_mem 9 (aips_init 32) [10, 0, 0, 0] 8 (Some (7::nat)) = (rc, t', m)"
    by (metis prod_cases3)
  have "fst (aips_insert_mem 3 (aips_init 32) [10, 0, 0, 0] 8 (Some (7::nat))) = -1"
    by code_simp
  with aips_insert_correct [OF r] r show ?thesis by auto
qed

text \<open>\<^verbatim>\<open>aips_remove\<close> succeeds exactly when the CIDR is present, and then unbinds exactly
  that prefix; otherwise it returns -1 and the trie is unchanged.\<close>

theorem aips_remove_correct:
  assumes "aips_remove t addr n = (rc, t')"
  shows "(rc = 0 \<longleftrightarrow> n \<le> max_bits t \<and> aips_view t (addr_bits addr n) \<noteq> None) \<and>
         (rc = 0 \<longrightarrow> aips_view t' = (aips_view t)(addr_bits addr n := None)) \<and>
         (rc \<noteq> 0 \<longrightarrow> rc = -1 \<and> t' = t)"
  using aips_remove_view [OF assms] by auto

lemma aips_remove_correct_witness:
  "aips_view (snd (aips_remove demo_trie [10, 1, 99, 99] 16)) = [addr_bits [10, 0, 0, 0] 8 \<mapsto> 1]"
proof -
  obtain rc t' where r: "aips_remove demo_trie [10, 1, 99, 99] 16 = (rc, t')" by fastforce
  have e: "addr_bits [10, 1, 99, 99] 16 = addr_bits [10, 1, 0, 0] 16"
    "addr_bits [10, 0, 0, 0] 8 \<noteq> addr_bits [10, 1, 0, 0] 16" by code_simp+
  from aips_remove_correct [OF r] r e show ?thesis
    by (simp add: demo_trie_view fun_eq_iff)
qed

subsection \<open>Sequences of operations\<close>

datatype 'p aips_op = Insert nat bytes nat "'p option" | Remove bytes nat | Destroy

fun aips_run :: "'p aips_trie \<Rightarrow> 'p aips_op list \<Rightarrow> 'p aips_trie" where
  "aips_run t [] = t"
| "aips_run t (Insert mem a n p # ops) = aips_run (fst (snd (aips_insert_mem mem t a n p))) ops"
| "aips_run t (Remove a n # ops) = aips_run (snd (aips_remove t a n)) ops"
| "aips_run t (Destroy # ops) = aips_run (aips_destroy t) ops"

lemma finite_dom_node_view [simp]: "finite (dom (node_view n))"
  and card_dom_node_view: "card (dom (node_view n)) = node_count n"
proof (induction n)
  case Null
  { case 1 then show ?case by (simp add: dom_def) }
  { case 2 then show ?case by (simp add: dom_def) }
next
  case (Node q l r)
  have d: "dom (node_view (Node q l r)) =
      (if q = None then {} else {[]}) \<union> (Cons False ` dom (node_view l) \<union> Cons True ` dom (node_view r))"
    (is "_ = ?a \<union> (?b \<union> ?c)")
  proof (rule set_eqI)
    fix xs show "xs \<in> dom (node_view (Node q l r)) \<longleftrightarrow> xs \<in> ?a \<union> (?b \<union> ?c)"
      by (cases xs) (auto simp: dom_def)
  qed
  { case 1 with d Node show ?case by simp }
  { case 2
    have "card (?a \<union> (?b \<union> ?c)) = card ?a + (card ?b + card ?c)"
      using Node by (subst card_Un_disjoint; auto simp: card_Un_disjoint)+
    with d Node show ?case by (simp add: card_image) }
qed

text \<open>The counter \<open>entries\<close> is the number of CIDRs in the trie, whatever sequence of
  inserts (successful or not) and removes produced it.\<close>

theorem aips_entries_counts:
  assumes "aips_inv t"
  shows "entries (aips_run t ops) = card (dom (aips_view (aips_run t ops)))"
proof -
  have "aips_inv (aips_run t ops)"
    using assms
  proof (induction t ops rule: aips_run.induct)
    case (2 t mem a n p ops)
    obtain rc t' m where r: "aips_insert_mem mem t a n p = (rc, t', m)" by (metis prod_cases3)
    have "aips_inv t'"
      using 2(2) r aips_insert_mem_inv [of mem t a n _ rc t' m]
      by (cases p) (auto simp: aips_insert_mem_def)
    with 2 r show ?case by simp
  next
    case (3 t a n ops)
    then show ?case using aips_remove_inv [of t a n] by (metis aips_run.simps(3) prod.collapse)
  qed (auto simp: aips_destroy_def aips_inv_def)
  then show ?thesis
    by (simp add: aips_inv_def aips_view_def card_dom_node_view)
qed

lemma aips_entries_counts_witness:
  "entries (aips_run (aips_init 32) [Insert 2 [10, 0, 0, 0] 8 (Some (1::nat)), Insert 9 [10, 0, 0, 0] 8 (Some 2),
      Insert 0 [10, 0, 0, 0] 8 (Some 3), Remove [9, 0, 0, 0] 8]) = 1 \<and>
   card (dom (aips_view (aips_run (aips_init 32) [Insert 9 [10, 0, 0, 0] 8 (Some (1::nat))]))) = 1"
proof
  show "entries (aips_run (aips_init 32) [Insert 2 [10, 0, 0, 0] 8 (Some (1::nat)), Insert 9 [10, 0, 0, 0] 8 (Some 2),
      Insert 0 [10, 0, 0, 0] 8 (Some 3), Remove [9, 0, 0, 0] 8]) = 1"
    by code_simp
  have "entries (aips_run (aips_init 32) [Insert 9 [10, 0, 0, 0] 8 (Some (1::nat))]) = 1"
    by code_simp
  with aips_entries_counts [of "aips_init 32" "[Insert 9 [10, 0, 0, 0] 8 (Some (1::nat))]"]
  show "card (dom (aips_view (aips_run (aips_init 32) [Insert 9 [10, 0, 0, 0] 8 (Some (1::nat))]))) = 1"
    by simp
qed

end
