(* ===== verification/SessionState.thy ===== *)
theory SessionState
  imports SessionConfig Handshake AllowedIPs
begin

text \<open>
  The running session of \<^verbatim>\<open>src/wg_session.c\<close>: \<^verbatim>\<open>struct wg_session\<close>, sending and receiving of
  handshake and data messages, and the three entry points \<^verbatim>\<open>wg_session_handle_udp\<close>,
  \<^verbatim>\<open>wg_session_handle_tun\<close> and \<^verbatim>\<open>wg_session_tick\<close>.

  \<^item> The callbacks are values of \<open>upcall\<close>, appended to \<open>s_out\<close> in the order of the calls;
    \<open>s_cb\<close> says which function pointers are set.
  \<^item> \<open>env\<close> is what one call takes from outside: the clocks, random bytes, the draws of
    \<^verbatim>\<open>arc4random\<close> (see \<open>NoiseState\<close>), and the allocations that succeed. \<open>e_globals\<close> are the rate
    limiters of \<^verbatim>\<open>wg_cookie.c\<close>, which the session passes on but never uses, because it never
    reports load.
  \<^item> Messages are the bytes of the packed C structures on a little-endian host. A datagram comes
    with the address \<open>from\<close> and its length.
  \<^item> A function returns the C result with the new session; those that may draw indices or
    reach a peer whose \<^verbatim>\<open>remote\<close> is \<^verbatim>\<open>NULL\<close> return an \<open>option\<close>, where \<open>None\<close> is the run that does not
    come back: the draws are used up, or the NULL pointer is dereferenced.
  \<^item> The session pointer and the data pointers are not NULL.
\<close>

subsection \<open>State\<close>

definition REKEY_TIMEOUT_SEC :: int where "REKEY_TIMEOUT_SEC = 5"
definition REKEY_AFTER_TIME_SEC :: int where "REKEY_AFTER_TIME_SEC = 120"
definition MAX_HANDSHAKE_ATTEMPTS :: int where "MAX_HANDSHAKE_ATTEMPTS = 18"

definition WGS_PKT_INITIATION :: u32 where "WGS_PKT_INITIATION = 1"
definition WGS_PKT_RESPONSE :: u32 where "WGS_PKT_RESPONSE = 2"
definition WGS_PKT_COOKIE :: u32 where "WGS_PKT_COOKIE = 3"
definition WGS_PKT_DATA :: u32 where "WGS_PKT_DATA = 4"

lemmas wgs_pkts = WGS_PKT_INITIATION_def WGS_PKT_RESPONSE_def WGS_PKT_COOKIE_def WGS_PKT_DATA_def

record wg_session_callbacks =
  cb_send_udp :: bool
  cb_deliver_ip :: bool
  cb_log_line :: bool

datatype upcall =
  Send_udp bytes sockaddr nat
| Deliver_ip bytes
| Log_line string

record wg_session = wg_config +
  s_local :: noise_local
  s_checker :: cookie_checker
  s_checker_inited :: bool
  s_aips_v4 :: "nat aips_trie"
  s_aips_v6 :: "nat aips_trie"
  s_aips_inited :: bool
  s_cb :: wg_session_callbacks
  s_out :: "upcall list"

record env =
  e_time :: int
  e_uptime :: sbintime
  e_wall :: "u64 \<times> u64"
  e_rnd :: bytes
  e_draws :: "u32 list"
  e_alloc :: bool
  e_mbuf :: bool
  e_append :: bool
  e_globals :: cookie_globals

subsection \<open>Upcalls\<close>

definition wgs_log :: "string \<Rightarrow> wg_session \<Rightarrow> wg_session" where
  "wgs_log msg s = (if cb_log_line (s_cb s) then s\<lparr>s_out := s_out s @ [Log_line (take 511 msg)]\<rparr> else s)"

definition send_udp :: "bytes \<Rightarrow> sockaddr \<Rightarrow> nat \<Rightarrow> wg_session \<Rightarrow> wg_session" where
  "send_udp pkt sa salen s =
     (if cb_send_udp (s_cb s) then s\<lparr>s_out := s_out s @ [Send_udp pkt sa salen]\<rparr> else s)"

definition deliver_ip :: "bytes \<Rightarrow> wg_session \<Rightarrow> wg_session" where
  "deliver_ip pkt s = (if cb_deliver_ip (s_cb s) then s\<lparr>s_out := s_out s @ [Deliver_ip pkt]\<rparr> else s)"

definition set_endpoint :: "sockaddr \<Rightarrow> nat \<Rightarrow> wgs_peer \<Rightarrow> wgs_peer" where
  "set_endpoint from from_len p =
     p\<lparr>p_endpoint := (if from_len = 0 then p_endpoint p else from), p_endpoint_len := from_len\<rparr>"

subsection \<open>Routing\<close>

definition session_lookup_dst :: "wg_session \<Rightarrow> bytes \<Rightarrow> nat option" where
  "session_lookup_dst s inner =
     (if length inner < 1 then None
      else
        let ver = drop_bit 4 (inner ! 0) in
        if ver = 4 \<and> length inner \<ge> 20 then aips_lookup (s_aips_v4 s) (drop 16 inner)
        else if ver = 6 \<and> length inner \<ge> 40 then aips_lookup (s_aips_v6 s) (drop 24 inner)
        else None)"

definition session_lookup_inner_src :: "wg_session \<Rightarrow> bytes \<Rightarrow> nat option" where
  "session_lookup_inner_src s inner =
     (if length inner < 1 then None
      else
        let ver = drop_bit 4 (inner ! 0) in
        if ver = 4 \<and> length inner \<ge> 20 then aips_lookup (s_aips_v4 s) (drop 12 inner)
        else if ver = 6 \<and> length inner \<ge> 40 then aips_lookup (s_aips_v6 s) (drop 8 inner)
        else None)"

definition inner_ip_len :: "bytes \<Rightarrow> int" where
  "inner_ip_len p =
     (let cap = length p in
      if cap < 1 then - 1
      else
        let ver = drop_bit 4 (p ! 0) in
        if ver = 4 then
          (if cap < 20 then - 1
           else
             let total = unat (push_bit 8 (ucast (p ! 2)) OR ucast (p ! 3) :: u16) in
             if total < 20 \<or> total > cap then - 1 else int total)
        else if ver = 6 then
          (if cap < 40 then - 1
           else
             let payload = unat (push_bit 8 (ucast (p ! 4)) OR ucast (p ! 5) :: u16); t = payload + 40
             in if t > cap then - 1 else int t)
        else - 1)"

subsection \<open>Data messages\<close>

definition padded_len :: "nat \<Rightarrow> nat" where
  "padded_len n = (let padded = (n + 15) div 16 * 16 in if padded = 0 then 16 else padded)"

definition nonce_next_at :: "nat \<Rightarrow> noise_local \<Rightarrow> errno \<times> u64 \<times> noise_local" where
  "nonce_next_at k l =
     (case noise_keypair_nonce_next (keypairs l k) of (e, nonce, kp) \<Rightarrow> (e, nonce, upd_keypair k (\<lambda>_. kp) l))"

text \<open>The part of \<^verbatim>\<open>wgs_encap\<close> that builds the datagram: the keypair, the counter, the encryption and
  the header. The keypair is released in every case.\<close>

definition wgs_seal :: "env \<Rightarrow> nat \<Rightarrow> bytes \<Rightarrow> noise_local \<Rightarrow> bytes option \<times> noise_local" where
  "wgs_seal env r scratch l =
     (case noise_keypair_current r (e_uptime env) l of
        (None, l) \<Rightarrow> (None, l)
      | (Some k, l) \<Rightarrow>
          (case nonce_next_at k l of
             (e, nonce, l) \<Rightarrow>
               if e \<noteq> OK then (None, noise_keypair_put k l)
               else
                 (case m_devget (e_mbuf env) scratch of
                    None \<Rightarrow> (None, noise_keypair_put k l)
                  | Some m \<Rightarrow>
                      (case noise_keypair_encrypt (e_append env) (keypairs l k) nonce m of
                         (e, r_idx, m) \<Rightarrow>
                           if e \<noteq> OK then (None, noise_keypair_put k l)
                           else
                             let out = le32enc WGS_PKT_DATA @ le32enc r_idx @ le64enc nonce @ m_data m in
                             if length out > 2048 then (None, noise_keypair_put k l)
                             else (Some out, noise_keypair_put k l)))))"

definition wgs_encap :: "env \<Rightarrow> nat \<Rightarrow> bytes \<Rightarrow> wg_session \<Rightarrow> (int \<times> wg_session) option" where
  "wgs_encap env i plain s =
     (let p = s_peers s ! i in
      if p_endpoint_len p = 0 then Some (- 1, s)
      else
        let padded = padded_len (length plain) in
        if padded > 2000 then Some (- 1, s)
        else
          let scratch = plain @ replicate (padded - length plain) 0 in
          (case p_remote p of
             None \<Rightarrow> None
           | Some r \<Rightarrow>
               (case wgs_seal env r scratch (s_local s) of
                  (None, l) \<Rightarrow> Some (- 1, s\<lparr>s_local := l\<rparr>)
                | (Some out, l) \<Rightarrow>
                    let s = send_udp out (p_endpoint p) (p_endpoint_len p) s;
                        s = upd_peer i (\<lambda>p. p\<lparr>p_tx_pkts := p_tx_pkts p + 1,
                              p_tx_bytes := p_tx_bytes p + of_nat (length plain), p_last_authd_tx := e_time env\<rparr>) s
                    in Some (0, s\<lparr>s_local := l\<rparr>))))"

text \<open>The part of \<^verbatim>\<open>wgs_handle_data\<close> that opens the datagram: the keypair and the padded packet, or
  the line to log if there is one.\<close>

definition wgs_open :: "env \<Rightarrow> bytes \<Rightarrow> noise_local \<Rightarrow> (string option + nat \<times> bytes) \<times> noise_local" where
  "wgs_open env pkt l =
     (let r_idx = le32dec (drop 4 pkt); nonce = le64dec (drop 8 pkt) in
      (case noise_keypair_lookup l r_idx of
         (None, l) \<Rightarrow> (Inl (Some (''[rx] no keypair for r_idx 0x'' @ fmt_hex8 r_idx)), l)
       | (Some k, l) \<Rightarrow>
           (case m_devget (e_mbuf env) (drop 16 pkt) of
              None \<Rightarrow> (Inl None, noise_keypair_put k l)
            | Some m \<Rightarrow>
                (case noise_keypair_decrypt (keypairs l k) nonce m (e_uptime env) of
                   (e, m) \<Rightarrow>
                     if e \<noteq> OK
                     then (Inl (Some (''[rx] decrypt failed (nonce='' @ fmt_nat (unat nonce) @ '')'')), noise_keypair_put k l)
                     else (Inr (k, m_data m), l)))))"

text \<open>What \<^verbatim>\<open>wgs_handle_data\<close> does with the packet \<open>m\<close> authenticated as coming from peer \<open>i\<close>.\<close>

definition wgs_receive :: "nat \<Rightarrow> bytes \<Rightarrow> sockaddr \<Rightarrow> nat \<Rightarrow> wg_session \<Rightarrow> int \<times> wg_session" where
  "wgs_receive i m from from_len s =
     (let s = upd_peer i (set_endpoint from from_len) s in
      if length m = 0 then (0, upd_peer i (\<lambda>p. p\<lparr>p_rx_pkts := p_rx_pkts p + 1\<rparr>) s)
      else
        let ilen = inner_ip_len m in
        if ilen < 0 then (- 1, s)
        else if session_lookup_inner_src s (take (nat ilen) m) \<noteq> Some i
        then (0, wgs_log ''[rx] DROP inner src not in peer's allowed-ips''
                   (upd_peer i (\<lambda>p. p\<lparr>p_rx_dropped_aips := p_rx_dropped_aips p + 1\<rparr>) s))
        else
          let s = upd_peer i (\<lambda>p. p\<lparr>p_rx_pkts := p_rx_pkts p + 1,
                                  p_rx_bytes := p_rx_bytes p + of_int ilen\<rparr>) s
          in (0, deliver_ip (take (nat ilen) m) s))"

definition wgs_handle_data :: "env \<Rightarrow> bytes \<Rightarrow> sockaddr \<Rightarrow> nat \<Rightarrow> wg_session \<Rightarrow> int \<times> wg_session" where
  "wgs_handle_data env pkt from from_len s =
     (if length pkt < 16 + WG_AUTHTAG_LEN then (- 1, s)
      else
        (case wgs_open env pkt (s_local s) of
           (Inl None, l) \<Rightarrow> (- 1, s\<lparr>s_local := l\<rparr>)
         | (Inl (Some msg), l) \<Rightarrow> (- 1, wgs_log msg (s\<lparr>s_local := l\<rparr>))
         | (Inr (k, m), l) \<Rightarrow>
             let l = snd (noise_keypair_received_with k l);
                 (r, l) = noise_keypair_remote k l;
                 i = noise_remote_arg l r;
                 l = noise_remote_put r l;
                 (rc, s) = wgs_receive i m from from_len (s\<lparr>s_local := l\<rparr>)
             in (rc, s\<lparr>s_local := noise_keypair_put k (s_local s)\<rparr>)))"

subsection \<open>Handshake messages\<close>

text \<open>The parts of \<^verbatim>\<open>wgs_send_initiation\<close> and \<^verbatim>\<open>wgs_handle_initiation\<close> after the message has been
  computed: the MACs, the upcall and the bookkeeping.\<close>

definition initiation_pkt :: "initiation_fields \<Rightarrow> bytes" where
  "initiation_pkt msg = le32enc WGS_PKT_INITIATION @ le32enc (in_s_idx msg) @ in_ue msg @ in_es msg @ in_ets msg"

definition initiation_sent :: "env \<Rightarrow> nat \<Rightarrow> string \<Rightarrow> initiation_fields \<Rightarrow> wg_session \<Rightarrow> wg_session" where
  "initiation_sent env i why msg s =
     (let p = s_peers s ! i; pkt = initiation_pkt msg;
          (cm, m) = cookie_maker_mac (p_cookie p) pkt (e_uptime env);
          s = upd_peer i (\<lambda>p. p\<lparr>p_cookie := cm\<rparr>) s;
          s = send_udp (pkt @ mac1 m @ mac2 m) (p_endpoint p) (p_endpoint_len p) s;
          s = upd_peer i (\<lambda>p. p\<lparr>p_hs_pending := True, p_hs_sent_at := e_time env,
                p_hs_local_idx := in_s_idx msg, p_hs_attempts := p_hs_attempts p + 1,
                p_last_authd_tx := e_time env\<rparr>) s
      in wgs_log (''[hs] '' @ why @ '': initiation sent (attempt '' @ fmt_int (p_hs_attempts (s_peers s ! i)) @ '')'') s)"

definition response_pkt :: "response_fields \<Rightarrow> bytes" where
  "response_pkt msg = le32enc WGS_PKT_RESPONSE @ le32enc (rs_s_idx msg) @ le32enc (rs_r_idx msg) @ rs_ue msg @ rs_en msg"

definition response_sent ::
    "env \<Rightarrow> nat \<Rightarrow> nat \<Rightarrow> response_fields \<Rightarrow> sockaddr \<Rightarrow> nat \<Rightarrow> wg_session \<Rightarrow> wg_session" where
  "response_sent env i r msg from from_len s =
     (let resp = response_pkt msg;
          (cm, m) = cookie_maker_mac (p_cookie (s_peers s ! i)) resp (e_uptime env);
          s = upd_peer i (\<lambda>p. p\<lparr>p_cookie := cm\<rparr>) s;
          s = send_udp (resp @ mac1 m @ mac2 m) from from_len s;
          s = s\<lparr>s_local := noise_remote_put r (s_local s)\<rparr>;
          s = upd_peer i (set_endpoint from from_len) s;
          s = upd_peer i (\<lambda>p. p\<lparr>p_keypair_birth := e_time env,
                p_last_authd_tx := e_time env, p_hs_pending := False\<rparr>) s
      in wgs_log ''[hs] responded to incoming initiation'' s)"

definition wgs_send_initiation ::
    "curve \<Rightarrow> env \<Rightarrow> nat \<Rightarrow> string \<Rightarrow> wg_session \<Rightarrow> (int \<times> wg_session) option" where
  "wgs_send_initiation cv env i why s =
     (let p = s_peers s ! i in
      if \<not> p_has_endpoint p \<or> p_endpoint_len p = 0 then Some (- 1, s)
      else
        (case p_remote p of
           None \<Rightarrow> None
         | Some r \<Rightarrow>
             (case noise_create_initiation cv r (e_uptime env) (e_wall env) (e_rnd env) (e_draws env) (s_local s) of
                None \<Rightarrow> None
              | Some (_, None, l) \<Rightarrow>
                  Some (- 1, wgs_log (''[hs] '' @ why @ '': noise_create_initiation failed'') (s\<lparr>s_local := l\<rparr>))
              | Some (_, Some msg, l) \<Rightarrow> Some (0, initiation_sent env i why msg (s\<lparr>s_local := l\<rparr>)))))"

text \<open>The first active peer with a pending handshake under the given local index.\<close>

definition find_pending :: "wg_session \<Rightarrow> u32 \<Rightarrow> nat option" where
  "find_pending s r_idx =
     List.find (\<lambda>i. p_active (s_peers s ! i) \<and> p_hs_pending (s_peers s ! i) \<and> p_hs_local_idx (s_peers s ! i) = r_idx)
       [0..<length (s_peers s)]"

definition wgs_handle_initiation ::
    "curve \<Rightarrow> env \<Rightarrow> bytes \<Rightarrow> sockaddr \<Rightarrow> nat \<Rightarrow> wg_session \<Rightarrow> (int \<times> wg_session) option" where
  "wgs_handle_initiation cv env pkt from from_len s =
     (if length pkt < 148 then Some (- 1, s)
      else
        let s_idx = le32dec (drop 4 pkt); ue = take 32 (drop 8 pkt); es = take 48 (drop 40 pkt);
            ets = take 28 (drop 88 pkt);
            m = \<lparr>mac1 = take 16 (drop 116 pkt), mac2 = take 16 (drop 132 pkt)\<rparr>
        in (case cookie_checker_validate_macs (e_globals env) (s_checker s) m (take 116 pkt) False from 0
                   (e_uptime env) [] [] True of
              (rc, _, cc) \<Rightarrow>
                let s = s\<lparr>s_checker := cc\<rparr> in
                if rc \<noteq> OK then Some (- 1, wgs_log ''[hs] initiation mac1 failed'' s)
                else
                  (case noise_consume_initiation cv s_idx ue es ets (e_uptime env) (e_draws env) (s_local s) of
                     None \<Rightarrow> None
                   | Some (_, None, l) \<Rightarrow>
                       Some (- 1, wgs_log ''[hs] noise_consume_initiation failed'' (s\<lparr>s_local := l\<rparr>))
                   | Some (_, Some r, l) \<Rightarrow>
                       let i = noise_remote_arg l r in
                       (case noise_create_response cv r (e_uptime env) (e_rnd env) (e_alloc env) l of
                          (_, None, l) \<Rightarrow> Some (- 1, s\<lparr>s_local := noise_remote_put r l\<rparr>)
                        | (_, Some msg, l) \<Rightarrow>
                            Some (0, response_sent env i r msg from from_len (s\<lparr>s_local := l\<rparr>))))))"

definition wgs_handle_response :: "curve \<Rightarrow> env \<Rightarrow> bytes \<Rightarrow> wg_session \<Rightarrow> int \<times> wg_session" where
  "wgs_handle_response cv env pkt s =
     (if length pkt < 92 then (- 1, s)
      else
        let s_idx = le32dec (drop 4 pkt); r_idx = le32dec (drop 8 pkt); ue = take 32 (drop 12 pkt);
            en = take 16 (drop 44 pkt)
        in (case find_pending s r_idx of
              None \<Rightarrow> (- 1, wgs_log (''[hs] response r_idx 0x'' @ fmt_hex8 r_idx @ '' has no pending peer'') s)
            | Some i \<Rightarrow>
                (case noise_consume_response cv s_idx r_idx ue en (e_uptime env) (e_alloc env) (s_local s) of
                   (_, None, l) \<Rightarrow> (- 1, wgs_log ''[hs] noise_consume_response failed'' (s\<lparr>s_local := l\<rparr>))
                 | (_, Some r, l) \<Rightarrow>
                     let s = s\<lparr>s_local := noise_remote_put r l\<rparr> in
                     if p_remote (s_peers s ! i) \<noteq> Some r then (- 1, s)
                     else
                       let s = upd_peer i (\<lambda>p. p\<lparr>p_hs_pending := False, p_hs_attempts := 0,
                                 p_keypair_birth := e_time env\<rparr>) s
                       in (0, wgs_log ''[hs] rekey complete'' s))))"

definition wgs_handle_cookie :: "env \<Rightarrow> bytes \<Rightarrow> wg_session \<Rightarrow> int \<times> wg_session" where
  "wgs_handle_cookie env pkt s =
     (if length pkt < 64 then (- 1, s)
      else
        let r_idx = le32dec (drop 4 pkt); nonce = take 24 (drop 8 pkt); ec = take 32 (drop 32 pkt) in
        (case find_pending s r_idx of
           None \<Rightarrow> (- 1, s)
         | Some i \<Rightarrow>
             (case cookie_maker_consume_payload (p_cookie (s_peers s ! i)) nonce ec (e_uptime env) of
                (rc, cm) \<Rightarrow>
                  let s = upd_peer i (\<lambda>p. p\<lparr>p_cookie := cm\<rparr>) s
                  in (0, if rc = OK then wgs_log ''[rx] cookie reply consumed'' s else s))))"

subsection \<open>Entry points\<close>

definition wg_session_handle_udp ::
    "curve \<Rightarrow> env \<Rightarrow> bytes \<Rightarrow> sockaddr \<Rightarrow> nat \<Rightarrow> wg_session \<Rightarrow> (int \<times> wg_session) option" where
  "wg_session_handle_udp cv env pkt from from_len s =
     (if length pkt < 4 then Some (- 1, s)
      else
        let t = le32dec pkt in
        if t = WGS_PKT_DATA then Some (wgs_handle_data env pkt from from_len s)
        else if t = WGS_PKT_INITIATION then wgs_handle_initiation cv env pkt from from_len s
        else if t = WGS_PKT_RESPONSE then Some (wgs_handle_response cv env pkt s)
        else if t = WGS_PKT_COOKIE then Some (wgs_handle_cookie env pkt s)
        else Some (- 1, wgs_log (''[rx] unknown pkt type 0x'' @ fmt_hex8 t) s))"

definition wg_session_handle_tun :: "env \<Rightarrow> bytes \<Rightarrow> wg_session \<Rightarrow> (int \<times> wg_session) option" where
  "wg_session_handle_tun env pkt s =
     (if length pkt < 1 then Some (- 1, s)
      else
        (case session_lookup_dst s pkt of
           None \<Rightarrow> Some (- 1, wgs_log ''[tx] no peer owns inner dst; dropping'' s)
         | Some i \<Rightarrow> wgs_encap env i pkt s))"

text \<open>One round of the loop of \<^verbatim>\<open>wg_session_tick\<close>, in its three parts.\<close>

definition tick_retransmit :: "curve \<Rightarrow> int \<Rightarrow> env \<Rightarrow> nat \<Rightarrow> wg_session \<Rightarrow> wg_session option" where
  "tick_retransmit cv now env i s =
     (let p = s_peers s ! i in
      if p_hs_pending p \<and> now - p_hs_sent_at p \<ge> REKEY_TIMEOUT_SEC then
        let s = upd_peer i (\<lambda>p. p\<lparr>p_hs_sent_at := now\<rparr>) s in
        if p_hs_attempts p \<ge> MAX_HANDSHAKE_ATTEMPTS then
          Some (upd_peer i (\<lambda>p. p\<lparr>p_hs_pending := False, p_hs_attempts := 0\<rparr>)
                 (wgs_log (''[hs] giving up after '' @ fmt_int (p_hs_attempts p) @ '' attempts'') s))
        else map_option snd (wgs_send_initiation cv env i ''retransmit'' s)
      else Some s)"

definition tick_rekey :: "curve \<Rightarrow> int \<Rightarrow> env \<Rightarrow> nat \<Rightarrow> wg_session \<Rightarrow> wg_session option" where
  "tick_rekey cv now env i s =
     (let p = s_peers s ! i in
      if \<not> p_hs_pending p \<and> p_keypair_birth p \<noteq> 0 \<and> p_endpoint_len p > 0 \<and>
         now - p_keypair_birth p \<ge> REKEY_AFTER_TIME_SEC
      then map_option snd (wgs_send_initiation cv env i ''rekey'' (upd_peer i (\<lambda>p. p\<lparr>p_hs_attempts := 0\<rparr>) s))
      else Some s)"

definition tick_keepalive :: "int \<Rightarrow> env \<Rightarrow> nat \<Rightarrow> wg_session \<Rightarrow> wg_session option" where
  "tick_keepalive now env i s =
     (let p = s_peers s ! i in
      if p_pk_sec p > 0 \<and> p_last_authd_tx p > 0 \<and> now - p_last_authd_tx p \<ge> p_pk_sec p
      then map_option snd (wgs_encap env i [] s)
      else Some s)"

definition tick_peer :: "curve \<Rightarrow> int \<Rightarrow> env \<Rightarrow> nat \<Rightarrow> wg_session \<Rightarrow> wg_session option" where
  "tick_peer cv now env i s =
     (if \<not> p_active (s_peers s ! i) then Some s
      else Option.bind (tick_retransmit cv now env i s)
             (\<lambda>s. Option.bind (tick_rekey cv now env i s) (tick_keepalive now env i)))"

fun tick_peers :: "curve \<Rightarrow> int \<Rightarrow> (nat \<Rightarrow> env) \<Rightarrow> nat list \<Rightarrow> wg_session \<Rightarrow> wg_session option" where
  "tick_peers cv now envs [] s = Some s"
| "tick_peers cv now envs (i # is) s =
     (case tick_peer cv now (envs i) i s of None \<Rightarrow> None | Some s \<Rightarrow> tick_peers cv now envs is s)"

definition wg_session_tick :: "curve \<Rightarrow> int \<Rightarrow> (nat \<Rightarrow> env) \<Rightarrow> wg_session \<Rightarrow> wg_session option" where
  "wg_session_tick cv now envs s = tick_peers cv now envs [0..<length (s_peers s)] s"

definition wg_session_kick :: "curve \<Rightarrow> env \<Rightarrow> wg_session \<Rightarrow> (int \<times> wg_session) option" where
  "wg_session_kick cv env s =
     (case List.find (\<lambda>i. p_active (s_peers s ! i) \<and> p_has_endpoint (s_peers s ! i) \<and> p_endpoint_len (s_peers s ! i) > 0)
             [0..<length (s_peers s)] of
        None \<Rightarrow> Some (- 1, s)
      | Some i \<Rightarrow> wgs_send_initiation cv env i ''startup'' s)"

end
