(* ===== verification/SessionApi.thy ===== *)
theory SessionApi
  imports SessionState
begin

text \<open>
  The life cycle and the configuration protocol of \<^verbatim>\<open>src/wg_session.c\<close>: creation and
  destruction of a session, the getters, \<^verbatim>\<open>wg_session_get_uapi\<close>, \<^verbatim>\<open>wg_session_set_uapi\<close> and
  \<^verbatim>\<open>wg_session_status\<close>.

  Allocation of a session, of scratch copies and of trie nodes succeeds. A getter that returns
  \<^verbatim>\<open>-1\<close> or fills its output arguments returns an \<open>option\<close>.
\<close>

subsection \<open>Creation\<close>

definition session_of :: "wg_config \<Rightarrow> bytes \<Rightarrow> wg_session_callbacks \<Rightarrow> wg_session" where
  "session_of c hash_key cb =
     \<lparr>s_private_key = s_private_key c, s_listen_port = s_listen_port c, s_if_addrs = s_if_addrs c,
      s_peers = s_peers c, s_local = noise_local_alloc 0 hash_key, s_checker = cookie_checker_init,
      s_checker_inited = False, s_aips_v4 = aips_init 0, s_aips_v6 = aips_init 0, s_aips_inited = False,
      s_cb = cb, s_out = []\<rparr>"

text \<open>The loop body of \<^verbatim>\<open>wg_session_create\<close> for peer \<open>i\<close>, with whether it succeeded.\<close>

definition start_peer :: "curve \<Rightarrow> netlib \<Rightarrow> nat \<Rightarrow> wg_session \<Rightarrow> bool \<times> wg_session" where
  "start_peer cv nl i s =
     (let (r, l) = noise_remote_alloc cv (s_local s) i (p_pubkey (s_peers s ! i));
          s = upd_peer i (\<lambda>p. p\<lparr>p_active := True, p_remote := Some r\<rparr>) s;
          (e, l) = noise_remote_enable r l;
          s = s\<lparr>s_local := l\<rparr>
      in if e \<noteq> OK then (False, s)
      else
        let s = upd_peer i (\<lambda>p. p\<lparr>p_cookie := cookie_maker_init (p_pubkey p), p_cookie_inited := True\<rparr>) s;
            p = s_peers s ! i;
            s = (if p_has_psk p then s\<lparr>s_local := noise_remote_set_psk r (Some (p_psk p)) (s_local s)\<rparr> else s)
        in (True,
            if p_has_endpoint p then
              (case resolve_endpoint nl (p_endpoint_host p) (p_endpoint_port p) of
                 None \<Rightarrow> upd_peer i (\<lambda>p. p\<lparr>p_endpoint_len := 0\<rparr>)
                           (wgs_log (''peer #'' @ fmt_nat i @ '': endpoint resolution failed'') s)
               | Some (sa, n) \<Rightarrow> upd_peer i (set_endpoint sa n) s)
            else s))"

fun start_peers :: "curve \<Rightarrow> netlib \<Rightarrow> nat list \<Rightarrow> wg_session \<Rightarrow> bool \<times> wg_session" where
  "start_peers cv nl [] s = (True, s)"
| "start_peers cv nl (i # is) s =
     (case start_peer cv nl i s of (ok, s) \<Rightarrow> if ok then start_peers cv nl is s else (False, s))"

text \<open>The two loops that fill the tries: peer \<open>i\<close> and its CIDRs.\<close>

definition add_cidr :: "nat \<Rightarrow> wgs_allowed_cidr \<Rightarrow> wg_session \<Rightarrow> wg_session" where
  "add_cidr i c s =
     (if c_family c = AF_INET
      then s\<lparr>s_aips_v4 := snd (aips_insert (s_aips_v4 s) (c_addr c) (nat (c_prefix_len c)) (Some i))\<rparr>
      else s\<lparr>s_aips_v6 := snd (aips_insert (s_aips_v6 s) (c_addr c) (nat (c_prefix_len c)) (Some i))\<rparr>)"

definition add_peer_cidrs :: "nat \<Rightarrow> wg_session \<Rightarrow> wg_session" where
  "add_peer_cidrs i s = fold (add_cidr i) (p_allowed (s_peers s ! i)) s"

definition wg_session_destroy :: "wg_session \<Rightarrow> wg_session" where
  "wg_session_destroy s =
     (let s = (if s_aips_inited s
               then s\<lparr>s_aips_v4 := aips_destroy (s_aips_v4 s), s_aips_v6 := aips_destroy (s_aips_v6 s)\<rparr> else s);
          s = (if s_checker_inited s then s\<lparr>s_checker := cookie_checker_free (s_checker s)\<rparr> else s);
          s = fold (\<lambda>i s.
                let s = (if p_cookie_inited (s_peers s ! i)
                         then upd_peer i (\<lambda>p. p\<lparr>p_cookie := cookie_maker_free (p_cookie p)\<rparr>) s else s)
                in (case p_remote (s_peers s ! i) of
                      None \<Rightarrow> s
                    | Some r \<Rightarrow> s\<lparr>s_local := noise_remote_put r (s_local s)\<rparr>))
                [0..<length (s_peers s)] s
      in s\<lparr>s_local := noise_local_put (s_local s)\<rparr>)"

text \<open>\<^verbatim>\<open>wg_session_create\<close>: the new session, or the upcalls made before \<^verbatim>\<open>NULL\<close> was returned.
  \<open>len = 0\<close> stands for the length of the string. \<open>crypto_ok\<close> is the result of \<^verbatim>\<open>crypto_init\<close>.\<close>

definition wg_session_create ::
    "curve \<Rightarrow> netlib \<Rightarrow> bytes \<Rightarrow> bool \<Rightarrow> string option \<Rightarrow> nat \<Rightarrow> wg_session_callbacks \<Rightarrow> upcall list + wg_session" where
  "wg_session_create cv nl hash_key crypto_ok config_text len cb =
     (case config_text of
        None \<Rightarrow> Inl []
      | Some txt \<Rightarrow>
          let txt = (if len = 0 then c_string txt else take len txt) in
          if \<not> crypto_ok then Inl []
          else
            (case parse_config_text nl txt zero_config of
               None \<Rightarrow> Inl (s_out (wgs_log ''config parse failed'' (session_of zero_config hash_key cb)))
             | Some c \<Rightarrow>
                 let s = session_of c hash_key cb;
                     s = s\<lparr>s_local := noise_local_private cv (s_private_key s) (s_local s)\<rparr>;
                     (ok, s) = start_peers cv nl [0..<length (s_peers s)] s
                 in if \<not> ok then Inl (s_out (wg_session_destroy s))
                 else
                   let s = s\<lparr>s_checker := cookie_checker_init, s_checker_inited := True\<rparr>;
                       s = (case noise_local_keys (s_local s) of
                              (OK, Some (pub, _)) \<Rightarrow> s\<lparr>s_checker := cookie_checker_update (s_checker s) (Some pub)\<rparr>
                            | _ \<Rightarrow> s);
                       s = s\<lparr>s_aips_v4 := aips_init 32, s_aips_v6 := aips_init 128, s_aips_inited := True\<rparr>;
                       s = fold add_peer_cidrs [0..<length (s_peers s)] s
                   in Inr (wgs_log (''session created: '' @ fmt_nat (length (s_peers s)) @
                                '' peer(s), listen_port='' @ fmt_nat (unat (s_listen_port s))) s)))"

subsection \<open>Getters\<close>

definition wg_session_listen_port :: "wg_session \<Rightarrow> u16" where
  "wg_session_listen_port s = s_listen_port s"

definition wg_session_iface_addr_count :: "wg_session \<Rightarrow> nat" where
  "wg_session_iface_addr_count s = length (s_if_addrs s)"

definition wg_session_iface_addr_get :: "wg_session \<Rightarrow> int \<Rightarrow> (string \<times> int \<times> af) option" where
  "wg_session_iface_addr_get s i =
     (if i < 0 \<or> i \<ge> int (length (s_if_addrs s)) then None
      else let a = s_if_addrs s ! nat i in Some (take 63 (a_addr_str a), a_prefix_len a, a_family a))"

definition wg_session_peer_count :: "wg_session \<Rightarrow> nat" where
  "wg_session_peer_count s = length (s_peers s)"

definition peer_index :: "wg_session \<Rightarrow> int \<Rightarrow> nat option" where
  "peer_index s i = (if i < 0 \<or> i \<ge> int (length (s_peers s)) then None else Some (nat i))"

definition wg_session_peer_pubkey :: "wg_session \<Rightarrow> int \<Rightarrow> bytes option" where
  "wg_session_peer_pubkey s i =
     (case peer_index s i of
        None \<Rightarrow> None
      | Some i \<Rightarrow> if \<not> p_active (s_peers s ! i) then None else Some (p_pubkey (s_peers s ! i)))"

definition wg_session_peer_allowed_count :: "wg_session \<Rightarrow> int \<Rightarrow> nat" where
  "wg_session_peer_allowed_count s i =
     (case peer_index s i of
        None \<Rightarrow> 0
      | Some i \<Rightarrow> if \<not> p_active (s_peers s ! i) then 0 else length (p_allowed (s_peers s ! i)))"

definition inet_ntop :: "netlib \<Rightarrow> wgs_allowed_cidr \<Rightarrow> string" where
  "inet_ntop nl c =
     (case c_family c of AF_INET \<Rightarrow> inet_ntop4 nl (take 4 (c_addr c)) | AF_INET6 \<Rightarrow> inet_ntop6 nl (c_addr c))"

definition wg_session_peer_allowed_get :: "netlib \<Rightarrow> wg_session \<Rightarrow> int \<Rightarrow> int \<Rightarrow> (string \<times> int \<times> af) option" where
  "wg_session_peer_allowed_get nl s i j =
     (case peer_index s i of
        None \<Rightarrow> None
      | Some i \<Rightarrow>
          if j < 0 \<or> j \<ge> int (length (p_allowed (s_peers s ! i))) then None
          else let c = p_allowed (s_peers s ! i) ! nat j in Some (inet_ntop nl c, c_prefix_len c, c_family c))"

text \<open>\<^verbatim>\<open>ntohs\<close> on the two bytes of a port.\<close>

definition ntohs :: "bytes \<Rightarrow> u16" where
  "ntohs p = push_bit 8 (ucast (p ! 0)) OR ucast (p ! 1)"

definition wg_session_peer_endpoint :: "netlib \<Rightarrow> wg_session \<Rightarrow> int \<Rightarrow> (string \<times> u16) option" where
  "wg_session_peer_endpoint nl s i =
     (case peer_index s i of
        None \<Rightarrow> None
      | Some i \<Rightarrow>
          let p = s_peers s ! i in
          if p_endpoint_len p = 0 then None
          else (case p_endpoint p of
                  Sin a port \<Rightarrow> Some (inet_ntop4 nl a, ntohs port)
                | Sin6 a port \<Rightarrow> Some (inet_ntop6 nl a, ntohs port)
                | Sa_other \<Rightarrow> None))"

definition wg_session_peer_keepalive :: "wg_session \<Rightarrow> int \<Rightarrow> int" where
  "wg_session_peer_keepalive s i =
     (case peer_index s i of None \<Rightarrow> 0 | Some i \<Rightarrow> p_pk_sec (s_peers s ! i))"

definition wg_session_peer_transfer :: "wg_session \<Rightarrow> int \<Rightarrow> (u64 \<times> u64) option" where
  "wg_session_peer_transfer s i =
     (case peer_index s i of None \<Rightarrow> None | Some i \<Rightarrow> Some (p_rx_bytes (s_peers s ! i), p_tx_bytes (s_peers s ! i)))"

definition wg_session_peer_handshake_age :: "int \<Rightarrow> wg_session \<Rightarrow> int \<Rightarrow> int" where
  "wg_session_peer_handshake_age now s i =
     (case peer_index s i of
        None \<Rightarrow> - 1
      | Some i \<Rightarrow>
          if p_keypair_birth (s_peers s ! i) = 0 then - 1
          else signed_take_bit 31 (now - p_keypair_birth (s_peers s ! i)))"

subsection \<open>UAPI GET\<close>

text \<open>\<^verbatim>\<open>append_fmt\<close> on the accumulator: the text stored so far, the capacity left and the total length.\<close>

fun append_fmt :: "string \<Rightarrow> string \<times> nat \<times> nat \<Rightarrow> string \<times> nat \<times> nat" where
  "append_fmt msg (buf, cap, len) =
     (let need = length msg; len = len + need in
      if need < cap then (buf @ msg, cap - need, len)
      else if cap > 0 then (buf @ take (cap - 1) msg, 1, len)
      else (buf, cap, len))"

definition nl_char :: string where "nl_char = [CHR 0x0A]"

definition peer_lines :: "netlib \<Rightarrow> wgs_peer \<Rightarrow> string list" where
  "peer_lines nl p =
     [''public_key='' @ hex_encode (p_pubkey p) @ nl_char,
      ''preshared_key='' @ (if p_has_psk p then hex_encode (p_psk p) else replicate 64 (CHR ''0'')) @ nl_char] @
     (if p_endpoint_len p > 0 then
        (case p_endpoint p of
           Sin a port \<Rightarrow> [''endpoint='' @ inet_ntop4 nl a @ '':'' @ fmt_nat (unat (ntohs port)) @ nl_char]
         | Sin6 a port \<Rightarrow> [''endpoint=['' @ inet_ntop6 nl a @ '']:'' @ fmt_nat (unat (ntohs port)) @ nl_char]
         | Sa_other \<Rightarrow> [])
      else []) @
     [''last_handshake_time_sec='' @ (if p_keypair_birth p \<noteq> 0 then fmt_int (p_keypair_birth p) else ''0'') @ nl_char @
        ''last_handshake_time_nsec=0'' @ nl_char,
      ''tx_bytes='' @ fmt_nat (unat (p_tx_bytes p)) @ nl_char @
        ''rx_bytes='' @ fmt_nat (unat (p_rx_bytes p)) @ nl_char] @
     (if p_pk_sec p > 0 then [''persistent_keepalive_interval='' @ fmt_int (p_pk_sec p) @ nl_char] else []) @
     map (\<lambda>c. ''allowed_ip='' @ inet_ntop nl c @ ''/'' @ fmt_int (c_prefix_len c) @ nl_char) (p_allowed p) @
     [''protocol_version=1'' @ nl_char]"

definition uapi_lines :: "netlib \<Rightarrow> wg_session \<Rightarrow> string list" where
  "uapi_lines nl s =
     [''private_key=none'' @ nl_char, ''listen_port='' @ fmt_nat (unat (s_listen_port s)) @ nl_char, ''fwmark=0'' @ nl_char] @
     concat (map (peer_lines nl) (filter p_active (s_peers s))) @ [''errno=0'' @ nl_char @ nl_char]"

text \<open>The returned length and the C string left in the buffer of \<open>buf_len\<close> bytes.\<close>

definition wg_session_get_uapi :: "netlib \<Rightarrow> wg_session \<Rightarrow> nat \<Rightarrow> nat \<times> string" where
  "wg_session_get_uapi nl s buf_len =
     (case fold append_fmt (uapi_lines nl s) ([], buf_len, 0) of
        (buf, _, len) \<Rightarrow> (len, if buf_len > 0 then take (min (buf_len - 1) len) buf else buf))"

subsection \<open>UAPI SET\<close>

definition find_peer_by_pubkey :: "wg_session \<Rightarrow> bytes \<Rightarrow> nat option" where
  "find_peer_by_pubkey s pubkey =
     List.find (\<lambda>i. p_active (s_peers s ! i) \<and> memcmp (p_pubkey (s_peers s ! i)) pubkey = 0) [0..<length (s_peers s)]"

definition alloc_peer_slot :: "wg_session \<Rightarrow> nat option \<times> wg_session" where
  "alloc_peer_slot s =
     (case List.find (\<lambda>i. \<not> p_active (s_peers s ! i)) [0..<length (s_peers s)] of
        Some i \<Rightarrow> (Some i, s)
      | None \<Rightarrow>
          if length (s_peers s) \<ge> WGS_MAX_PEERS then (None, s)
          else (Some (length (s_peers s)), s\<lparr>s_peers := s_peers s @ [zero_peer]\<rparr>))"

definition peer_tombstone :: "nat \<Rightarrow> wg_session \<Rightarrow> wg_session" where
  "peer_tombstone i s =
     (let s = (case p_remote (s_peers s ! i) of
                 None \<Rightarrow> s
               | Some r \<Rightarrow> s\<lparr>s_local := noise_remote_put r (noise_remote_disable r (s_local s))\<rparr>);
          s = upd_peer i (\<lambda>p. if p_cookie_inited p
                              then p\<lparr>p_cookie := cookie_maker_free (p_cookie p), p_cookie_inited := False\<rparr> else p) s
      in upd_peer i (\<lambda>_. zero_peer) s)"

definition peer_set_endpoint_str :: "netlib \<Rightarrow> string \<Rightarrow> wgs_peer \<Rightarrow> wgs_peer option" where
  "peer_set_endpoint_str nl spec p =
     (let hp = (if spec \<noteq> [] \<and> hd spec = CHR ''['' then
                  (case strchr (CHR '']'') (tl spec) of
                     None \<Rightarrow> None
                   | Some (host, rest) \<Rightarrow>
                       if rest = [] \<or> hd rest \<noteq> CHR '':'' then None
                       else if length host = 0 \<or> length host \<ge> 128 then None
                       else (case port_of (tl rest) of None \<Rightarrow> None | Some port \<Rightarrow> Some (host, port)))
                else split_endpoint spec)
      in (case hp of
            None \<Rightarrow> None
          | Some (host, port) \<Rightarrow>
              (case resolve_endpoint nl host port of
                 None \<Rightarrow> None
               | Some (sa, n) \<Rightarrow>
                   Some ((set_endpoint sa n p)\<lparr>p_has_endpoint := True, p_endpoint_host := take 127 host,
                                              p_endpoint_port := port\<rparr>))))"

definition rebuild_aips :: "wg_session \<Rightarrow> wg_session" where
  "rebuild_aips s =
     (let s = (if s_aips_inited s
               then s\<lparr>s_aips_v4 := aips_destroy (s_aips_v4 s), s_aips_v6 := aips_destroy (s_aips_v6 s)\<rparr> else s);
          s = s\<lparr>s_aips_v4 := aips_init 32, s_aips_v6 := aips_init 128, s_aips_inited := True\<rparr>
      in fold (\<lambda>i s. if p_active (s_peers s ! i) then add_peer_cidrs i s else s) [0..<length (s_peers s)] s)"

definition peer_init_runtime :: "curve \<Rightarrow> nat \<Rightarrow> bytes \<Rightarrow> wg_session \<Rightarrow> int \<times> wg_session" where
  "peer_init_runtime cv i pubkey s =
     (let (r, l) = noise_remote_alloc cv (s_local s) i pubkey;
          s = upd_peer i (\<lambda>_. zero_peer\<lparr>p_pubkey := pubkey, p_active := True, p_remote := Some r\<rparr>) s;
          (e, l) = noise_remote_enable r l
      in if e \<noteq> OK
      then (- 1, (upd_peer i (\<lambda>p. p\<lparr>p_remote := None\<rparr>) s)\<lparr>s_local := noise_remote_put r l\<rparr>)
      else (0, (upd_peer i (\<lambda>p. p\<lparr>p_cookie := cookie_maker_init pubkey, p_cookie_inited := True\<rparr>) s)\<lparr>s_local := l\<rparr>))"

text \<open>A line of a SET request with the current peer \<open>cur\<close>: \<open>Inl\<close> is \<^verbatim>\<open>goto done\<close> with \<^verbatim>\<open>rc = -1\<close>, \<open>Inr\<close> the
  next line.\<close>

definition set_public_key :: "curve \<Rightarrow> string \<Rightarrow> wg_session \<Rightarrow> wg_session + wg_session \<times> nat option" where
  "set_public_key cv val s =
     (case hex_decode val WG_KEY_LEN of
        None \<Rightarrow> Inl (wgs_log ''[set] bad public_key hex'' s)
      | Some pk \<Rightarrow>
          (case find_peer_by_pubkey s pk of
             Some i \<Rightarrow> Inr (s, Some i)
           | None \<Rightarrow>
               (case alloc_peer_slot s of
                  (None, s) \<Rightarrow> Inl (wgs_log (''[set] peer add: no free slot (max '' @ fmt_nat WGS_MAX_PEERS @ '')'') s)
                | (Some i, s) \<Rightarrow>
                    (case peer_init_runtime cv i pk s of
                       (rc, s) \<Rightarrow>
                         if rc \<noteq> 0 then Inl (wgs_log ''[set] peer add: noise alloc failed'' s)
                         else Inr (wgs_log ''[set] peer added'' s, Some i)))))"

definition set_preshared_key :: "string \<Rightarrow> nat \<Rightarrow> wg_session \<Rightarrow> wg_session + wg_session \<times> nat option" where
  "set_preshared_key val i s =
     (case hex_decode val WG_KEY_LEN of
        None \<Rightarrow> Inl (wgs_log ''[set] bad preshared_key hex'' s)
      | Some psk \<Rightarrow>
          let nonzero = list_ex (\<lambda>b. b \<noteq> 0) psk;
              s = upd_peer i (\<lambda>p. p\<lparr>p_psk := psk, p_has_psk := nonzero\<rparr>) s;
              s = (case p_remote (s_peers s ! i) of
                     None \<Rightarrow> s
                   | Some r \<Rightarrow> s\<lparr>s_local := noise_remote_set_psk r (Some psk) (s_local s)\<rparr>)
          in Inr (wgs_log (''[set] preshared_key '' @ (if nonzero then ''updated'' else ''cleared'')) s, Some i))"

definition set_endpoint_line :: "netlib \<Rightarrow> string \<Rightarrow> nat \<Rightarrow> wg_session \<Rightarrow> wg_session + wg_session \<times> nat option" where
  "set_endpoint_line nl val i s =
     (case peer_set_endpoint_str nl val (s_peers s ! i) of
        None \<Rightarrow> Inl (wgs_log (''[set] bad endpoint '' @ [CHR 0x27] @ val @ [CHR 0x27]) s)
      | Some p \<Rightarrow>
          let s = upd_peer i (\<lambda>_. p) s
          in Inr (wgs_log (''[set] endpoint updated to '' @ p_endpoint_host p @ '':'' @
                     fmt_nat (unat (p_endpoint_port p))) s, Some i))"

definition set_allowed_ip :: "netlib \<Rightarrow> string \<Rightarrow> nat \<Rightarrow> wg_session \<Rightarrow> wg_session + wg_session \<times> nat option" where
  "set_allowed_ip nl val i s =
     (if length (p_allowed (s_peers s ! i)) \<ge> WGS_MAX_ALLOWED_CIDRS
      then Inl (wgs_log ''[set] too many allowed_ip'' s)
      else
        (case parse_cidr nl val of
           None \<Rightarrow> Inl (wgs_log (''[set] bad allowed_ip '' @ [CHR 0x27] @ val @ [CHR 0x27]) s)
         | Some c \<Rightarrow> Inr (upd_peer i (\<lambda>p. p\<lparr>p_allowed := p_allowed p @ [c]\<rparr>) s, Some i)))"

definition set_peer_key :: "netlib \<Rightarrow> string \<Rightarrow> string \<Rightarrow> nat \<Rightarrow> wg_session \<Rightarrow> wg_session + wg_session \<times> nat option" where
  "set_peer_key nl key val i s =
     (if key = ''remove'' then
        if val = ''true'' then Inr (peer_tombstone i (wgs_log ''[set] peer removed'' s), None) else Inr (s, Some i)
      else if key = ''preshared_key'' then set_preshared_key val i s
      else if key = ''endpoint'' then set_endpoint_line nl val i s
      else if key = ''persistent_keepalive_interval'' then
        (let n = atoi val in
         if n < 0 \<or> n > 65535 then Inl s
         else Inr (wgs_log (''[set] persistent_keepalive_interval='' @ fmt_int n)
                     (upd_peer i (\<lambda>p. p\<lparr>p_pk_sec := n\<rparr>) s), Some i))
      else if key = ''replace_allowed_ips'' then
        Inr (if val = ''true'' then upd_peer i (\<lambda>p. p\<lparr>p_allowed := []\<rparr>) s else s, Some i)
      else if key = ''allowed_ip'' then set_allowed_ip nl val i s
      else if key = ''protocol_version'' \<or> key = ''errno'' then Inr (s, Some i)
      else Inr (wgs_log (''[set] unknown field '' @ [CHR 0x27] @ key @ [CHR 0x27]) s, Some i))"

definition set_line ::
    "curve \<Rightarrow> netlib \<Rightarrow> string \<Rightarrow> wg_session \<times> nat option \<Rightarrow> wg_session + wg_session \<times> nat option" where
  "set_line cv nl line st =
     (let (s, cur) = st; line = wgs_trim line in
      if line = [] then Inr st
      else
        (case strchr (CHR ''='') line of
           None \<Rightarrow> Inr st
         | Some (k, v) \<Rightarrow>
             let key = wgs_trim k; val = wgs_trim v in
             if key = ''set'' then Inr st
             else if key = ''private_key'' \<or> key = ''fwmark'' \<or> key = ''replace_peers'' then
               Inl (wgs_log (''[set] field '' @ [CHR 0x27] @ key @ [CHR 0x27] @ '' not supported (rejected)'') s)
             else if key = ''listen_port'' then
               (let lp = atoi val in
                if lp < 0 \<or> lp > 65535 then Inl s
                else Inr (wgs_log (''[set] listen_port='' @ fmt_int lp @ '' (Swift must rebind)'')
                            (s\<lparr>s_listen_port := of_int lp\<rparr>), cur))
             else if key = ''public_key'' then set_public_key cv val s
             else
               (case cur of
                  None \<Rightarrow> Inr (wgs_log (''[set] field '' @ [CHR 0x27] @ key @ [CHR 0x27] @ '' before public_key'') s, None)
                | Some i \<Rightarrow> set_peer_key nl key val i s)))"

fun set_lines :: "curve \<Rightarrow> netlib \<Rightarrow> string list \<Rightarrow> wg_session \<times> nat option \<Rightarrow> int \<times> wg_session" where
  "set_lines cv nl [] st = (0, fst st)"
| "set_lines cv nl (x # xs) st =
     (case set_line cv nl x st of Inl s \<Rightarrow> (- 1, s) | Inr st \<Rightarrow> set_lines cv nl xs st)"

definition wg_session_set_uapi :: "curve \<Rightarrow> netlib \<Rightarrow> string \<Rightarrow> nat \<Rightarrow> wg_session \<Rightarrow> int \<times> wg_session" where
  "wg_session_set_uapi cv nl txt len s =
     (let txt = (if len = 0 then c_string txt else take len txt) in
      (case set_lines cv nl (strtok (CHR 0x0A) (c_string txt)) (s, None) of
         (rc, s) \<Rightarrow> (rc, rebuild_aips s)))"

subsection \<open>Status\<close>

definition status_line :: "int \<Rightarrow> wg_session \<Rightarrow> nat \<Rightarrow> string" where
  "status_line now s i =
     (let p = s_peers s ! i in
      ''peer #'' @ fmt_nat i @ '': tx='' @ fmt_nat (unat (p_tx_pkts p)) @ ''/'' @ fmt_nat (unat (p_tx_bytes p)) @
      ''B rx='' @ fmt_nat (unat (p_rx_pkts p)) @ ''/'' @ fmt_nat (unat (p_rx_bytes p)) @ ''B kp_age='' @
      fmt_int (if p_keypair_birth p \<noteq> 0 then now - p_keypair_birth p else - 1) @ ''s hs='' @
      (if p_hs_pending p then ''pending'' else ''idle'') @ nl_char)"

text \<open>The offset after each \<^verbatim>\<open>snprintf\<close> and the text in the buffer; the loop ends when it is full.\<close>

fun status_loop :: "int \<Rightarrow> wg_session \<Rightarrow> nat \<Rightarrow> nat list \<Rightarrow> nat \<Rightarrow> string \<Rightarrow> nat \<times> string" where
  "status_loop now s buf_len [] off buf = (off, buf)"
| "status_loop now s buf_len (i # is) off buf =
     (if off \<ge> buf_len then (off, buf)
      else if \<not> p_active (s_peers s ! i) then status_loop now s buf_len is off buf
      else let msg = status_line now s i
           in status_loop now s buf_len is (off + length msg) (buf @ take (buf_len - off - 1) msg))"

definition wg_session_status :: "int \<Rightarrow> wg_session \<Rightarrow> nat \<Rightarrow> nat \<times> string" where
  "wg_session_status now s buf_len =
     (if buf_len = 0 then (0, [])
      else
        let msg = ''peers: '' @ fmt_nat (length (s_peers s)) @ ''  listen_port: '' @
                    fmt_nat (unat (s_listen_port s)) @ nl_char
        in status_loop now s buf_len [0..<length (s_peers s)] (length msg) (take (buf_len - 1) msg))"

end
