(* ===== verification/NoiseInv.thy ===== *)
theory NoiseInv
  imports Handshake
begin

text \<open>
  The structural invariant of the peers, keypairs and index table of a \<^verbatim>\<open>noise_local\<close>, and its
  preservation by every operation of \<open>NoiseState\<close> and \<open>Handshake\<close>.

  \<^item> \<open>index_ok\<close>: the buckets of \<^verbatim>\<open>l_index_hash\<close> hold no object twice, every object stands in the
    bucket of its local index, and no two linked objects share a local index.
  \<^item> \<open>link_ok\<close>: a remote is linked exactly while a handshake is pending, a keypair exactly while
    it is in one of the three slots of a remote.
  \<^item> \<open>slot_ok\<close>: the slots of a remote hold distinct keypairs of that remote.
  \<^item> \<open>remote_ok\<close>: the buckets of \<^verbatim>\<open>l_remote_hash\<close> hold exactly the remotes marked as inserted,
    each in the bucket of its public key, and \<^verbatim>\<open>l_remote_num\<close> counts them.

  \<open>noise_step\<close> is the relation of one call of the interface, whatever its arguments and result.
\<close>

subsection \<open>Updates\<close>

lemma upd_remote_fields [simp]:
  "l_has_identity (upd_remote r f l) = l_has_identity l" "l_public (upd_remote r f l) = l_public l"
  "l_private (upd_remote r f l) = l_private l" "l_refcnt (upd_remote r f l) = l_refcnt l"
  "l_hash_key (upd_remote r f l) = l_hash_key l" "l_arg (upd_remote r f l) = l_arg l"
  "l_remote_num (upd_remote r f l) = l_remote_num l" "l_remote_hash (upd_remote r f l) = l_remote_hash l"
  "l_index_hash (upd_remote r f l) = l_index_hash l" "keypairs (upd_remote r f l) = keypairs l"
  "next_remote (upd_remote r f l) = next_remote l" "next_keypair (upd_remote r f l) = next_keypair l"
  "freed_remotes (upd_remote r f l) = freed_remotes l" "freed_keypairs (upd_remote r f l) = freed_keypairs l"
  "l_cleanup (upd_remote r f l) = l_cleanup l"
  "remotes (upd_remote r f l) x = (if x = r then f (remotes l r) else remotes l x)"
  by (simp_all add: upd_remote_def)

lemma upd_keypair_fields [simp]:
  "l_has_identity (upd_keypair k g l) = l_has_identity l" "l_public (upd_keypair k g l) = l_public l"
  "l_private (upd_keypair k g l) = l_private l" "l_refcnt (upd_keypair k g l) = l_refcnt l"
  "l_hash_key (upd_keypair k g l) = l_hash_key l" "l_arg (upd_keypair k g l) = l_arg l"
  "l_remote_num (upd_keypair k g l) = l_remote_num l" "l_remote_hash (upd_keypair k g l) = l_remote_hash l"
  "l_index_hash (upd_keypair k g l) = l_index_hash l" "remotes (upd_keypair k g l) = remotes l"
  "next_remote (upd_keypair k g l) = next_remote l" "next_keypair (upd_keypair k g l) = next_keypair l"
  "freed_remotes (upd_keypair k g l) = freed_remotes l" "freed_keypairs (upd_keypair k g l) = freed_keypairs l"
  "l_cleanup (upd_keypair k g l) = l_cleanup l"
  "keypairs (upd_keypair k g l) x = (if x = k then g (keypairs l k) else keypairs l x)"
  by (simp_all add: upd_keypair_def)

subsection \<open>What the reference counting functions leave alone\<close>

lemma local_ref_frame [simp]:
  "l_index_hash (noise_local_ref l) = l_index_hash l" "l_remote_hash (noise_local_ref l) = l_remote_hash l"
  "l_remote_num (noise_local_ref l) = l_remote_num l" "next_remote (noise_local_ref l) = next_remote l"
  "next_keypair (noise_local_ref l) = next_keypair l" "l_hash_key (noise_local_ref l) = l_hash_key l"
  "l_public (noise_local_ref l) = l_public l" "l_private (noise_local_ref l) = l_private l"
  "l_has_identity (noise_local_ref l) = l_has_identity l" "l_arg (noise_local_ref l) = l_arg l"
  "r_index (remotes (noise_local_ref l) x) = r_index (remotes l x)" "r_entry_inserted (remotes (noise_local_ref l) x) = r_entry_inserted (remotes l x)"
  "r_public (remotes (noise_local_ref l) x) = r_public (remotes l x)" "r_handshake (remotes (noise_local_ref l) x) = r_handshake (remotes l x)"
  "r_handshake_state (remotes (noise_local_ref l) x) = r_handshake_state (remotes l x)" "r_last_sent (remotes (noise_local_ref l) x) = r_last_sent (remotes l x)"
  "r_last_init_recv (remotes (noise_local_ref l) x) = r_last_init_recv (remotes l x)" "r_timestamp (remotes (noise_local_ref l) x) = r_timestamp (remotes l x)"
  "r_psk (remotes (noise_local_ref l) x) = r_psk (remotes l x)" "r_ss (remotes (noise_local_ref l) x) = r_ss (remotes l x)"
  "r_arg (remotes (noise_local_ref l) x) = r_arg (remotes l x)" "r_next (remotes (noise_local_ref l) x) = r_next (remotes l x)"
  "r_current (remotes (noise_local_ref l) x) = r_current (remotes l x)" "r_previous (remotes (noise_local_ref l) x) = r_previous (remotes l x)"
  "kp_index (keypairs (noise_local_ref l) x) = kp_index (keypairs l x)" "kp_remote (keypairs (noise_local_ref l) x) = kp_remote (keypairs l x)"
  "kp_can_send (keypairs (noise_local_ref l) x) = kp_can_send (keypairs l x)" "kp_is_initiator (keypairs (noise_local_ref l) x) = kp_is_initiator (keypairs l x)"
  "kp_birthdate (keypairs (noise_local_ref l) x) = kp_birthdate (keypairs l x)" "kp_send (keypairs (noise_local_ref l) x) = kp_send (keypairs l x)"
  "kp_recv (keypairs (noise_local_ref l) x) = kp_recv (keypairs l x)" "kp_nonce_send (keypairs (noise_local_ref l) x) = kp_nonce_send (keypairs l x)"
  "kp_nonce_recv (keypairs (noise_local_ref l) x) = kp_nonce_recv (keypairs l x)" "kp_backtrack (keypairs (noise_local_ref l) x) = kp_backtrack (keypairs l x)"
  by (simp_all add: noise_local_ref_def)

lemma local_put_frame [simp]:
  "l_index_hash (noise_local_put l) = l_index_hash l" "l_remote_hash (noise_local_put l) = l_remote_hash l"
  "l_remote_num (noise_local_put l) = l_remote_num l" "next_remote (noise_local_put l) = next_remote l"
  "next_keypair (noise_local_put l) = next_keypair l" "l_hash_key (noise_local_put l) = l_hash_key l"
  "l_public (noise_local_put l) = l_public l" "l_private (noise_local_put l) = l_private l"
  "l_has_identity (noise_local_put l) = l_has_identity l" "l_arg (noise_local_put l) = l_arg l"
  "r_index (remotes (noise_local_put l) x) = r_index (remotes l x)" "r_entry_inserted (remotes (noise_local_put l) x) = r_entry_inserted (remotes l x)"
  "r_public (remotes (noise_local_put l) x) = r_public (remotes l x)" "r_handshake (remotes (noise_local_put l) x) = r_handshake (remotes l x)"
  "r_handshake_state (remotes (noise_local_put l) x) = r_handshake_state (remotes l x)" "r_last_sent (remotes (noise_local_put l) x) = r_last_sent (remotes l x)"
  "r_last_init_recv (remotes (noise_local_put l) x) = r_last_init_recv (remotes l x)" "r_timestamp (remotes (noise_local_put l) x) = r_timestamp (remotes l x)"
  "r_psk (remotes (noise_local_put l) x) = r_psk (remotes l x)" "r_ss (remotes (noise_local_put l) x) = r_ss (remotes l x)"
  "r_arg (remotes (noise_local_put l) x) = r_arg (remotes l x)" "r_next (remotes (noise_local_put l) x) = r_next (remotes l x)"
  "r_current (remotes (noise_local_put l) x) = r_current (remotes l x)" "r_previous (remotes (noise_local_put l) x) = r_previous (remotes l x)"
  "kp_index (keypairs (noise_local_put l) x) = kp_index (keypairs l x)" "kp_remote (keypairs (noise_local_put l) x) = kp_remote (keypairs l x)"
  "kp_can_send (keypairs (noise_local_put l) x) = kp_can_send (keypairs l x)" "kp_is_initiator (keypairs (noise_local_put l) x) = kp_is_initiator (keypairs l x)"
  "kp_birthdate (keypairs (noise_local_put l) x) = kp_birthdate (keypairs l x)" "kp_send (keypairs (noise_local_put l) x) = kp_send (keypairs l x)"
  "kp_recv (keypairs (noise_local_put l) x) = kp_recv (keypairs l x)" "kp_nonce_send (keypairs (noise_local_put l) x) = kp_nonce_send (keypairs l x)"
  "kp_nonce_recv (keypairs (noise_local_put l) x) = kp_nonce_recv (keypairs l x)" "kp_backtrack (keypairs (noise_local_put l) x) = kp_backtrack (keypairs l x)"
  by (simp_all add: noise_local_put_def Let_def split: prod.split)

lemma remote_ref_frame [simp]:
  "l_index_hash (noise_remote_ref r l) = l_index_hash l" "l_remote_hash (noise_remote_ref r l) = l_remote_hash l"
  "l_remote_num (noise_remote_ref r l) = l_remote_num l" "next_remote (noise_remote_ref r l) = next_remote l"
  "next_keypair (noise_remote_ref r l) = next_keypair l" "l_hash_key (noise_remote_ref r l) = l_hash_key l"
  "l_public (noise_remote_ref r l) = l_public l" "l_private (noise_remote_ref r l) = l_private l"
  "l_has_identity (noise_remote_ref r l) = l_has_identity l" "l_arg (noise_remote_ref r l) = l_arg l"
  "r_index (remotes (noise_remote_ref r l) x) = r_index (remotes l x)" "r_entry_inserted (remotes (noise_remote_ref r l) x) = r_entry_inserted (remotes l x)"
  "r_public (remotes (noise_remote_ref r l) x) = r_public (remotes l x)" "r_handshake (remotes (noise_remote_ref r l) x) = r_handshake (remotes l x)"
  "r_handshake_state (remotes (noise_remote_ref r l) x) = r_handshake_state (remotes l x)" "r_last_sent (remotes (noise_remote_ref r l) x) = r_last_sent (remotes l x)"
  "r_last_init_recv (remotes (noise_remote_ref r l) x) = r_last_init_recv (remotes l x)" "r_timestamp (remotes (noise_remote_ref r l) x) = r_timestamp (remotes l x)"
  "r_psk (remotes (noise_remote_ref r l) x) = r_psk (remotes l x)" "r_ss (remotes (noise_remote_ref r l) x) = r_ss (remotes l x)"
  "r_arg (remotes (noise_remote_ref r l) x) = r_arg (remotes l x)" "r_next (remotes (noise_remote_ref r l) x) = r_next (remotes l x)"
  "r_current (remotes (noise_remote_ref r l) x) = r_current (remotes l x)" "r_previous (remotes (noise_remote_ref r l) x) = r_previous (remotes l x)"
  "kp_index (keypairs (noise_remote_ref r l) x) = kp_index (keypairs l x)" "kp_remote (keypairs (noise_remote_ref r l) x) = kp_remote (keypairs l x)"
  "kp_can_send (keypairs (noise_remote_ref r l) x) = kp_can_send (keypairs l x)" "kp_is_initiator (keypairs (noise_remote_ref r l) x) = kp_is_initiator (keypairs l x)"
  "kp_birthdate (keypairs (noise_remote_ref r l) x) = kp_birthdate (keypairs l x)" "kp_send (keypairs (noise_remote_ref r l) x) = kp_send (keypairs l x)"
  "kp_recv (keypairs (noise_remote_ref r l) x) = kp_recv (keypairs l x)" "kp_nonce_send (keypairs (noise_remote_ref r l) x) = kp_nonce_send (keypairs l x)"
  "kp_nonce_recv (keypairs (noise_remote_ref r l) x) = kp_nonce_recv (keypairs l x)" "kp_backtrack (keypairs (noise_remote_ref r l) x) = kp_backtrack (keypairs l x)"
  by (simp_all add: noise_remote_ref_def)

lemma keypair_ref_frame [simp]:
  "l_index_hash (noise_keypair_ref k l) = l_index_hash l" "l_remote_hash (noise_keypair_ref k l) = l_remote_hash l"
  "l_remote_num (noise_keypair_ref k l) = l_remote_num l" "next_remote (noise_keypair_ref k l) = next_remote l"
  "next_keypair (noise_keypair_ref k l) = next_keypair l" "l_hash_key (noise_keypair_ref k l) = l_hash_key l"
  "l_public (noise_keypair_ref k l) = l_public l" "l_private (noise_keypair_ref k l) = l_private l"
  "l_has_identity (noise_keypair_ref k l) = l_has_identity l" "l_arg (noise_keypair_ref k l) = l_arg l"
  "r_index (remotes (noise_keypair_ref k l) x) = r_index (remotes l x)" "r_entry_inserted (remotes (noise_keypair_ref k l) x) = r_entry_inserted (remotes l x)"
  "r_public (remotes (noise_keypair_ref k l) x) = r_public (remotes l x)" "r_handshake (remotes (noise_keypair_ref k l) x) = r_handshake (remotes l x)"
  "r_handshake_state (remotes (noise_keypair_ref k l) x) = r_handshake_state (remotes l x)" "r_last_sent (remotes (noise_keypair_ref k l) x) = r_last_sent (remotes l x)"
  "r_last_init_recv (remotes (noise_keypair_ref k l) x) = r_last_init_recv (remotes l x)" "r_timestamp (remotes (noise_keypair_ref k l) x) = r_timestamp (remotes l x)"
  "r_psk (remotes (noise_keypair_ref k l) x) = r_psk (remotes l x)" "r_ss (remotes (noise_keypair_ref k l) x) = r_ss (remotes l x)"
  "r_arg (remotes (noise_keypair_ref k l) x) = r_arg (remotes l x)" "r_next (remotes (noise_keypair_ref k l) x) = r_next (remotes l x)"
  "r_current (remotes (noise_keypair_ref k l) x) = r_current (remotes l x)" "r_previous (remotes (noise_keypair_ref k l) x) = r_previous (remotes l x)"
  "kp_index (keypairs (noise_keypair_ref k l) x) = kp_index (keypairs l x)" "kp_remote (keypairs (noise_keypair_ref k l) x) = kp_remote (keypairs l x)"
  "kp_can_send (keypairs (noise_keypair_ref k l) x) = kp_can_send (keypairs l x)" "kp_is_initiator (keypairs (noise_keypair_ref k l) x) = kp_is_initiator (keypairs l x)"
  "kp_birthdate (keypairs (noise_keypair_ref k l) x) = kp_birthdate (keypairs l x)" "kp_send (keypairs (noise_keypair_ref k l) x) = kp_send (keypairs l x)"
  "kp_recv (keypairs (noise_keypair_ref k l) x) = kp_recv (keypairs l x)" "kp_nonce_send (keypairs (noise_keypair_ref k l) x) = kp_nonce_send (keypairs l x)"
  "kp_nonce_recv (keypairs (noise_keypair_ref k l) x) = kp_nonce_recv (keypairs l x)" "kp_backtrack (keypairs (noise_keypair_ref k l) x) = kp_backtrack (keypairs l x)"
  by (simp_all add: noise_keypair_ref_def)

lemma remote_put_frame [simp]:
  "l_index_hash (noise_remote_put r l) = l_index_hash l" "l_remote_hash (noise_remote_put r l) = l_remote_hash l"
  "l_remote_num (noise_remote_put r l) = l_remote_num l" "next_remote (noise_remote_put r l) = next_remote l"
  "next_keypair (noise_remote_put r l) = next_keypair l" "l_hash_key (noise_remote_put r l) = l_hash_key l"
  "l_public (noise_remote_put r l) = l_public l" "l_private (noise_remote_put r l) = l_private l"
  "l_has_identity (noise_remote_put r l) = l_has_identity l" "l_arg (noise_remote_put r l) = l_arg l"
  "r_index (remotes (noise_remote_put r l) x) = r_index (remotes l x)" "r_entry_inserted (remotes (noise_remote_put r l) x) = r_entry_inserted (remotes l x)"
  "r_public (remotes (noise_remote_put r l) x) = r_public (remotes l x)" "r_handshake (remotes (noise_remote_put r l) x) = r_handshake (remotes l x)"
  "r_handshake_state (remotes (noise_remote_put r l) x) = r_handshake_state (remotes l x)" "r_last_sent (remotes (noise_remote_put r l) x) = r_last_sent (remotes l x)"
  "r_last_init_recv (remotes (noise_remote_put r l) x) = r_last_init_recv (remotes l x)" "r_timestamp (remotes (noise_remote_put r l) x) = r_timestamp (remotes l x)"
  "r_psk (remotes (noise_remote_put r l) x) = r_psk (remotes l x)" "r_ss (remotes (noise_remote_put r l) x) = r_ss (remotes l x)"
  "r_arg (remotes (noise_remote_put r l) x) = r_arg (remotes l x)" "r_next (remotes (noise_remote_put r l) x) = r_next (remotes l x)"
  "r_current (remotes (noise_remote_put r l) x) = r_current (remotes l x)" "r_previous (remotes (noise_remote_put r l) x) = r_previous (remotes l x)"
  "kp_index (keypairs (noise_remote_put r l) x) = kp_index (keypairs l x)" "kp_remote (keypairs (noise_remote_put r l) x) = kp_remote (keypairs l x)"
  "kp_can_send (keypairs (noise_remote_put r l) x) = kp_can_send (keypairs l x)" "kp_is_initiator (keypairs (noise_remote_put r l) x) = kp_is_initiator (keypairs l x)"
  "kp_birthdate (keypairs (noise_remote_put r l) x) = kp_birthdate (keypairs l x)" "kp_send (keypairs (noise_remote_put r l) x) = kp_send (keypairs l x)"
  "kp_recv (keypairs (noise_remote_put r l) x) = kp_recv (keypairs l x)" "kp_nonce_send (keypairs (noise_remote_put r l) x) = kp_nonce_send (keypairs l x)"
  "kp_nonce_recv (keypairs (noise_remote_put r l) x) = kp_nonce_recv (keypairs l x)" "kp_backtrack (keypairs (noise_remote_put r l) x) = kp_backtrack (keypairs l x)"
  by (simp_all add: noise_remote_put_def noise_remote_smr_free_def refcount_release_def Let_def)

lemma keypair_put_frame [simp]:
  "l_index_hash (noise_keypair_put k l) = l_index_hash l" "l_remote_hash (noise_keypair_put k l) = l_remote_hash l"
  "l_remote_num (noise_keypair_put k l) = l_remote_num l" "next_remote (noise_keypair_put k l) = next_remote l"
  "next_keypair (noise_keypair_put k l) = next_keypair l" "l_hash_key (noise_keypair_put k l) = l_hash_key l"
  "l_public (noise_keypair_put k l) = l_public l" "l_private (noise_keypair_put k l) = l_private l"
  "l_has_identity (noise_keypair_put k l) = l_has_identity l" "l_arg (noise_keypair_put k l) = l_arg l"
  "r_index (remotes (noise_keypair_put k l) x) = r_index (remotes l x)" "r_entry_inserted (remotes (noise_keypair_put k l) x) = r_entry_inserted (remotes l x)"
  "r_public (remotes (noise_keypair_put k l) x) = r_public (remotes l x)" "r_handshake (remotes (noise_keypair_put k l) x) = r_handshake (remotes l x)"
  "r_handshake_state (remotes (noise_keypair_put k l) x) = r_handshake_state (remotes l x)" "r_last_sent (remotes (noise_keypair_put k l) x) = r_last_sent (remotes l x)"
  "r_last_init_recv (remotes (noise_keypair_put k l) x) = r_last_init_recv (remotes l x)" "r_timestamp (remotes (noise_keypair_put k l) x) = r_timestamp (remotes l x)"
  "r_psk (remotes (noise_keypair_put k l) x) = r_psk (remotes l x)" "r_ss (remotes (noise_keypair_put k l) x) = r_ss (remotes l x)"
  "r_arg (remotes (noise_keypair_put k l) x) = r_arg (remotes l x)" "r_next (remotes (noise_keypair_put k l) x) = r_next (remotes l x)"
  "r_current (remotes (noise_keypair_put k l) x) = r_current (remotes l x)" "r_previous (remotes (noise_keypair_put k l) x) = r_previous (remotes l x)"
  "kp_index (keypairs (noise_keypair_put k l) x) = kp_index (keypairs l x)" "kp_remote (keypairs (noise_keypair_put k l) x) = kp_remote (keypairs l x)"
  "kp_can_send (keypairs (noise_keypair_put k l) x) = kp_can_send (keypairs l x)" "kp_is_initiator (keypairs (noise_keypair_put k l) x) = kp_is_initiator (keypairs l x)"
  "kp_birthdate (keypairs (noise_keypair_put k l) x) = kp_birthdate (keypairs l x)" "kp_send (keypairs (noise_keypair_put k l) x) = kp_send (keypairs l x)"
  "kp_recv (keypairs (noise_keypair_put k l) x) = kp_recv (keypairs l x)" "kp_nonce_send (keypairs (noise_keypair_put k l) x) = kp_nonce_send (keypairs l x)"
  "kp_nonce_recv (keypairs (noise_keypair_put k l) x) = kp_nonce_recv (keypairs l x)" "kp_backtrack (keypairs (noise_keypair_put k l) x) = kp_backtrack (keypairs l x)"
  by (simp_all add: noise_keypair_put_def noise_keypair_smr_free_def refcount_release_def Let_def)

lemma keypair_drop_frame [simp]:
  "l_remote_hash (noise_keypair_drop kp l) = l_remote_hash l" "l_remote_num (noise_keypair_drop kp l) = l_remote_num l"
  "next_remote (noise_keypair_drop kp l) = next_remote l" "next_keypair (noise_keypair_drop kp l) = next_keypair l"
  "l_hash_key (noise_keypair_drop kp l) = l_hash_key l" "l_public (noise_keypair_drop kp l) = l_public l"
  "l_private (noise_keypair_drop kp l) = l_private l" "l_has_identity (noise_keypair_drop kp l) = l_has_identity l"
  "l_arg (noise_keypair_drop kp l) = l_arg l" "r_index (remotes (noise_keypair_drop kp l) x) = r_index (remotes l x)"
  "r_entry_inserted (remotes (noise_keypair_drop kp l) x) = r_entry_inserted (remotes l x)" "r_public (remotes (noise_keypair_drop kp l) x) = r_public (remotes l x)"
  "r_handshake (remotes (noise_keypair_drop kp l) x) = r_handshake (remotes l x)" "r_handshake_state (remotes (noise_keypair_drop kp l) x) = r_handshake_state (remotes l x)"
  "r_last_sent (remotes (noise_keypair_drop kp l) x) = r_last_sent (remotes l x)" "r_last_init_recv (remotes (noise_keypair_drop kp l) x) = r_last_init_recv (remotes l x)"
  "r_timestamp (remotes (noise_keypair_drop kp l) x) = r_timestamp (remotes l x)" "r_psk (remotes (noise_keypair_drop kp l) x) = r_psk (remotes l x)"
  "r_ss (remotes (noise_keypair_drop kp l) x) = r_ss (remotes l x)" "r_arg (remotes (noise_keypair_drop kp l) x) = r_arg (remotes l x)"
  "r_next (remotes (noise_keypair_drop kp l) x) = r_next (remotes l x)" "r_current (remotes (noise_keypair_drop kp l) x) = r_current (remotes l x)"
  "r_previous (remotes (noise_keypair_drop kp l) x) = r_previous (remotes l x)" "kp_index (keypairs (noise_keypair_drop kp l) x) = kp_index (keypairs l x)"
  "kp_remote (keypairs (noise_keypair_drop kp l) x) = kp_remote (keypairs l x)" "kp_can_send (keypairs (noise_keypair_drop kp l) x) = kp_can_send (keypairs l x)"
  "kp_is_initiator (keypairs (noise_keypair_drop kp l) x) = kp_is_initiator (keypairs l x)" "kp_birthdate (keypairs (noise_keypair_drop kp l) x) = kp_birthdate (keypairs l x)"
  "kp_send (keypairs (noise_keypair_drop kp l) x) = kp_send (keypairs l x)" "kp_recv (keypairs (noise_keypair_drop kp l) x) = kp_recv (keypairs l x)"
  "kp_nonce_send (keypairs (noise_keypair_drop kp l) x) = kp_nonce_send (keypairs l x)" "kp_nonce_recv (keypairs (noise_keypair_drop kp l) x) = kp_nonce_recv (keypairs l x)"
  "kp_backtrack (keypairs (noise_keypair_drop kp l) x) = kp_backtrack (keypairs l x)"
  by (simp_all add: noise_keypair_drop_def split: option.split)

lemma drop_index_hash [simp]:
  "l_index_hash (noise_keypair_drop kp l) =
     (case kp of None \<Rightarrow> l_index_hash l | Some k \<Rightarrow> CK_LIST_REMOVE (IdxKeypair k) (l_index_hash l))"
  by (simp add: noise_keypair_drop_def split: option.split)

lemma acquire_cases:
  "acquire_remote r l = (Some r, noise_remote_ref r l) \<or> acquire_remote r l = (None, l)"
  "acquire_keypair k l = (Some k, noise_keypair_ref k l) \<or> acquire_keypair k l = (None, l)"
  by (simp_all add: acquire_remote_def acquire_keypair_def)

subsection \<open>The invariant\<close>

definition linked :: "noise_local \<Rightarrow> index_ref \<Rightarrow> bool" where
  "linked l i \<longleftrightarrow> (\<exists>b. i \<in> set (l_index_hash l b))"

definition idx :: "noise_local \<Rightarrow> index_ref \<Rightarrow> u32" where
  "idx l i = i_local_index (ref_index l i)"

definition index_ok :: "noise_local \<Rightarrow> bool" where
  "index_ok l \<longleftrightarrow> (\<forall>b. distinct (l_index_hash l b)) \<and>
     (\<forall>b i. i \<in> set (l_index_hash l b) \<longrightarrow> index_bucket (idx l i) = b) \<and>
     (\<forall>i j. linked l i \<longrightarrow> linked l j \<longrightarrow> idx l i = idx l j \<longrightarrow> i = j)"

definition slots :: "noise_remote \<Rightarrow> nat list" where
  "slots x = (case r_next x of None \<Rightarrow> [] | Some k \<Rightarrow> [k]) @ (case r_current x of None \<Rightarrow> [] | Some k \<Rightarrow> [k])
     @ (case r_previous x of None \<Rightarrow> [] | Some k \<Rightarrow> [k])"

definition link_ok :: "noise_local \<Rightarrow> bool" where
  "link_ok l \<longleftrightarrow> (\<forall>r. linked l (IdxRemote r) \<longleftrightarrow> r_handshake_state (remotes l r) \<noteq> HANDSHAKE_DEAD) \<and>
     (\<forall>k. linked l (IdxKeypair k) \<longleftrightarrow> (\<exists>r. k \<in> set (slots (remotes l r))))"

definition slot_ok :: "noise_local \<Rightarrow> bool" where
  "slot_ok l \<longleftrightarrow> (\<forall>r. distinct (slots (remotes l r))) \<and>
     (\<forall>r k. k \<in> set (slots (remotes l r)) \<longrightarrow>
        kp_remote (keypairs l k) = r \<and> k < next_keypair l \<and> i_is_keypair (kp_index (keypairs l k))) \<and>
     (\<forall>r. \<not> i_is_keypair (r_index (remotes l r)))"

definition remote_ok :: "noise_local \<Rightarrow> bool" where
  "remote_ok l \<longleftrightarrow> (\<forall>b. distinct (l_remote_hash l b)) \<and>
     (\<forall>b r. r \<in> set (l_remote_hash l b) \<longleftrightarrow>
        r_entry_inserted (remotes l r) \<and> remote_bucket l (r_public (remotes l r)) = b) \<and>
     l_remote_num l = card {r. r_entry_inserted (remotes l r)}"

definition fresh_ok :: "noise_local \<Rightarrow> bool" where
  "fresh_ok l \<longleftrightarrow> (\<forall>r \<ge> next_remote l. r_handshake_state (remotes l r) = HANDSHAKE_DEAD \<and>
     slots (remotes l r) = [] \<and> \<not> r_entry_inserted (remotes l r))"

definition noise_inv :: "noise_local \<Rightarrow> bool" where
  "noise_inv l \<longleftrightarrow> index_ok l \<and> link_ok l \<and> slot_ok l \<and> remote_ok l \<and> fresh_ok l"

text \<open>The invariant does not look at reference counts, keys, nonces and handshakes. \<open>same_shape\<close>
  says that two states agree on what it looks at.\<close>

definition same_shape :: "noise_local \<Rightarrow> noise_local \<Rightarrow> bool" where
  "same_shape l l' \<longleftrightarrow> l_index_hash l' = l_index_hash l \<and> l_remote_hash l' = l_remote_hash l \<and>
     l_remote_num l' = l_remote_num l \<and> next_remote l' = next_remote l \<and> next_keypair l' = next_keypair l \<and>
     l_hash_key l' = l_hash_key l \<and>
     (\<forall>r. i_local_index (r_index (remotes l' r)) = i_local_index (r_index (remotes l r)) \<and>
          i_is_keypair (r_index (remotes l' r)) = i_is_keypair (r_index (remotes l r)) \<and>
          r_entry_inserted (remotes l' r) = r_entry_inserted (remotes l r) \<and>
          r_public (remotes l' r) = r_public (remotes l r) \<and>
          r_handshake_state (remotes l' r) = r_handshake_state (remotes l r) \<and>
          r_next (remotes l' r) = r_next (remotes l r) \<and> r_current (remotes l' r) = r_current (remotes l r) \<and>
          r_previous (remotes l' r) = r_previous (remotes l r)) \<and>
     (\<forall>k. kp_index (keypairs l' k) = kp_index (keypairs l k) \<and> kp_remote (keypairs l' k) = kp_remote (keypairs l k))"

lemma same_shape_inv: "noise_inv l \<Longrightarrow> same_shape l l' \<Longrightarrow> noise_inv l'"
proof -
  assume i: "noise_inv l" and s: "same_shape l l'"
  have "linked l' = linked l" using s by (auto simp: linked_def same_shape_def)
  moreover have "idx l' = idx l"
    using s by (auto simp: idx_def ref_index_def same_shape_def fun_eq_iff split: index_ref.split)
  moreover have "slots (remotes l' r) = slots (remotes l r)" for r
    using s by (simp add: slots_def same_shape_def)
  moreover have "remote_bucket l' = remote_bucket l"
    using s by (simp add: fun_eq_iff remote_bucket_def same_shape_def)
  ultimately show ?thesis
    using i s unfolding noise_inv_def index_ok_def link_ok_def slot_ok_def remote_ok_def fresh_ok_def same_shape_def
    by simp
qed

lemma same_shape_refl [simp]: "same_shape l l"
  by (simp add: same_shape_def)

lemma same_shape_trans: "same_shape a b \<Longrightarrow> same_shape b c \<Longrightarrow> same_shape a c"
  unfolding same_shape_def by simp

lemma same_shape_counts [simp]:
  "same_shape l (noise_local_ref l)" "same_shape l (noise_local_put l)"
  "same_shape l (noise_remote_ref r l)" "same_shape l (noise_remote_put r l)"
  "same_shape l (noise_keypair_ref k l)" "same_shape l (noise_keypair_put k l)"
  by (simp_all add: same_shape_def)

lemma counts_inv:
  assumes "noise_inv l"
  shows "noise_inv (noise_local_ref l)" "noise_inv (noise_local_put l)" "noise_inv (noise_remote_ref r l)"
    "noise_inv (noise_remote_put r l)" "noise_inv (noise_keypair_ref k l)" "noise_inv (noise_keypair_put k l)"
  by (rule same_shape_inv [OF assms], simp)+

subsection \<open>Linking and unlinking\<close>

lemma CK_LIST_REMOVE_ok:
  assumes "\<forall>b. distinct (h b)"
  shows "distinct (CK_LIST_REMOVE x h b)" "set (CK_LIST_REMOVE x h b) = set (h b) - {x}"
  using assms by (simp_all add: CK_LIST_REMOVE_def distinct_remove1 set_remove1_eq)

lemma insert_before_replaces:
  "x \<in> set xs \<Longrightarrow> distinct xs \<Longrightarrow> y \<notin> set xs \<Longrightarrow>
   set (remove1 x (insert_before x y xs)) = insert y (set xs - {x}) \<and> distinct (remove1 x (insert_before x y xs))"
proof (induction xs)
  case (Cons z zs)
  then have "y \<noteq> x" by auto
  then show ?case
  proof (cases "z = x")
    case True
    then show ?thesis using Cons.prems \<open>y \<noteq> x\<close> by auto
  next
    case False
    then show ?thesis using Cons by auto
  qed
qed simp

lemma insert_before_absent: "x \<notin> set xs \<Longrightarrow> remove1 x (insert_before x y xs) = xs"
  by (induction xs) (auto simp: remove1_idem)

lemma index_okD:
  assumes "index_ok l"
  shows "distinct (l_index_hash l b)"
    "i \<in> set (l_index_hash l b) \<longleftrightarrow> linked l i \<and> b = index_bucket (idx l i)"
    "linked l i \<Longrightarrow> linked l j \<Longrightarrow> idx l i = idx l j \<Longrightarrow> i = j"
proof -
  have 1: "\<And>b. distinct (l_index_hash l b)"
    and 2: "\<And>b i. i \<in> set (l_index_hash l b) \<Longrightarrow> index_bucket (idx l i) = b"
    and 3: "\<And>i j. linked l i \<Longrightarrow> linked l j \<Longrightarrow> idx l i = idx l j \<Longrightarrow> i = j"
    using assms by (simp_all add: index_ok_def)
  show "distinct (l_index_hash l b)" by (rule 1)
  show "i \<in> set (l_index_hash l b) \<longleftrightarrow> linked l i \<and> b = index_bucket (idx l i)"
    using 2 by (metis linked_def)
  show "linked l i \<Longrightarrow> linked l j \<Longrightarrow> idx l i = idx l j \<Longrightarrow> i = j" by (rule 3)
qed

text \<open>The three parts of \<open>index_ok\<close> for a state whose links are given by \<open>P\<close>.\<close>

lemma index_okI:
  assumes "\<And>b. distinct (l_index_hash l b)"
    "\<And>b i. i \<in> set (l_index_hash l b) \<longleftrightarrow> P i \<and> b = index_bucket (idx l i)"
    "\<And>i j. P i \<Longrightarrow> P j \<Longrightarrow> idx l i = idx l j \<Longrightarrow> i = j"
  shows "index_ok l" "linked l i \<longleftrightarrow> P i"
proof -
  have l: "linked l i \<longleftrightarrow> P i" for i using assms(2) by (auto simp: linked_def)
  then show "linked l i \<longleftrightarrow> P i" .
  show "index_ok l" using assms by (simp add: index_ok_def l)
qed

lemma index_ok_cong:
  assumes "index_ok l" "l_index_hash m = l_index_hash l" "\<And>i. linked l i \<Longrightarrow> idx m i = idx l i"
  shows "index_ok m"
proof (rule index_okI(1) [where P = "linked l"])
  show "i \<in> set (l_index_hash m b) \<longleftrightarrow> linked l i \<and> b = index_bucket (idx m i)" for b i
    using index_okD(2) [OF assms(1), of i b] assms(2,3) by auto
  show "linked l i \<Longrightarrow> linked l j \<Longrightarrow> idx m i = idx m j \<Longrightarrow> i = j" for i j
    using index_okD(3) [OF assms(1)] assms(3) by simp
qed (use assms index_okD(1) in simp)

lemma unlink_ok:
  assumes "index_ok l" "l_index_hash l' = CK_LIST_REMOVE x (l_index_hash l)"
    "\<And>i. i \<noteq> x \<Longrightarrow> linked l i \<Longrightarrow> idx l' i = idx l i"
  shows "index_ok l'" "linked l' i \<longleftrightarrow> linked l i \<and> i \<noteq> x"
proof -
  have d: "\<forall>b. distinct (l_index_hash l b)" using assms(1) by (simp add: index_ok_def)
  have 1: "distinct (l_index_hash l' b)" for b by (simp add: assms(2) CK_LIST_REMOVE_ok [OF d])
  have 2: "i \<in> set (l_index_hash l' b) \<longleftrightarrow> (linked l i \<and> i \<noteq> x) \<and> b = index_bucket (idx l' i)" for b i
    using assms(3) by (auto simp: assms(2) CK_LIST_REMOVE_ok [OF d] index_okD [OF assms(1)])
  have 3: "i = j" if "linked l i \<and> i \<noteq> x" "linked l j \<and> j \<noteq> x" "idx l' i = idx l' j" for i j
    using that assms(3) index_okD(3) [OF assms(1)] by metis
  show "index_ok l'" "linked l' i \<longleftrightarrow> linked l i \<and> i \<noteq> x"
    using index_okI [of l' "\<lambda>i. linked l i \<and> i \<noteq> x", OF 1 2 3] by blast+
qed

lemma idx_drop [simp]: "idx (noise_keypair_drop kp l) = idx l"
  by (simp add: fun_eq_iff idx_def ref_index_def split: index_ref.split)

lemma drop_ok:
  assumes "index_ok l"
  shows "index_ok (noise_keypair_drop kp l)"
    "linked (noise_keypair_drop kp l) i \<longleftrightarrow> linked l i \<and> (\<forall>k. kp = Some k \<longrightarrow> i \<noteq> IdxKeypair k)"
proof (induction kp)
  case None
  { case 1 then show ?case using assms by (simp add: noise_keypair_drop_def) }
  { case 2 then show ?case by (simp add: noise_keypair_drop_def) }
next
  case (Some k)
  note u = unlink_ok [OF assms, where l' = "noise_keypair_drop (Some k) l" and x = "IdxKeypair k"]
  { case 1 then show ?case using u(1) by simp }
  { case 2 then show ?case using u(2) by simp }
qed

subsection \<open>Slots\<close>

lemma in_slots: "k \<in> set (slots x) \<longleftrightarrow> r_next x = Some k \<or> r_current x = Some k \<or> r_previous x = Some k"
  by (auto simp: slots_def split: option.splits)

lemma distinct_slots:
  "distinct (slots x) \<longleftrightarrow> (\<forall>k. r_next x = Some k \<longrightarrow> r_current x \<noteq> Some k \<and> r_previous x \<noteq> Some k) \<and>
     (\<forall>k. r_current x = Some k \<longrightarrow> r_previous x \<noteq> Some k)"
  by (auto simp: slots_def split: option.splits)

lemma slots_Nil: "slots x = [] \<longleftrightarrow> r_next x = None \<and> r_current x = None \<and> r_previous x = None"
  by (auto simp: slots_def split: option.splits)

lemma remote_ok_same:
  assumes "remote_ok l" "l_remote_hash l' = l_remote_hash l" "l_remote_num l' = l_remote_num l"
    "l_hash_key l' = l_hash_key l"
    "\<And>x. r_entry_inserted (remotes l' x) = r_entry_inserted (remotes l x)"
    "\<And>x. r_public (remotes l' x) = r_public (remotes l x)"
  shows "remote_ok l'"
proof -
  have "remote_bucket l' = remote_bucket l" by (simp add: fun_eq_iff remote_bucket_def assms)
  then show ?thesis using assms(1) by (simp add: remote_ok_def assms(2-6))
qed

text \<open>The slots of one remote may be rearranged while the keypairs \<open>D\<close> are dropped from them.\<close>

lemma reslot_inv:
  assumes i: "noise_inv l" and ix: "index_ok l'"
    and lk: "\<And>i. linked l' i \<longleftrightarrow> linked l i \<and> i \<notin> IdxKeypair ` D"
    and h: "l_remote_hash l' = l_remote_hash l" "l_remote_num l' = l_remote_num l" "l_hash_key l' = l_hash_key l"
      "next_remote l' = next_remote l" "next_keypair l' = next_keypair l"
    and rm: "\<And>x. r_index (remotes l' x) = r_index (remotes l x) \<and>
          r_entry_inserted (remotes l' x) = r_entry_inserted (remotes l x) \<and>
          r_public (remotes l' x) = r_public (remotes l x) \<and>
          r_handshake_state (remotes l' x) = r_handshake_state (remotes l x)"
    and kp: "\<And>k. kp_index (keypairs l' k) = kp_index (keypairs l k) \<and> kp_remote (keypairs l' k) = kp_remote (keypairs l k)"
    and oth: "\<And>x. x \<noteq> r \<Longrightarrow> slots (remotes l' x) = slots (remotes l x)"
    and sl: "set (slots (remotes l' r)) = set (slots (remotes l r)) - D" "D \<subseteq> set (slots (remotes l r))"
      "distinct (slots (remotes l' r))"
  shows "noise_inv l'"
proof -
  have own: "k \<in> set (slots (remotes l x)) \<Longrightarrow> kp_remote (keypairs l k) = x" for k x
    using i by (simp add: noise_inv_def slot_ok_def)
  have mem: "k \<in> set (slots (remotes l' x)) \<longleftrightarrow> k \<in> set (slots (remotes l x)) \<and> k \<notin> D" for k x
  proof (cases "x = r")
    case False
    then have "k \<notin> D" if "k \<in> set (slots (remotes l x))"
      using own [OF that] own [of k r] sl(2) by blast
    then show ?thesis using oth [OF False] by auto
  qed (use sl(1) in auto)
  then have sub: "set (slots (remotes l' x)) \<subseteq> set (slots (remotes l x))" for x by blast
  have "link_ok l'"
    using i rm by (auto simp: noise_inv_def link_ok_def lk mem)
  moreover have "slot_ok l'"
    using i sub sl(3) oth rm kp h unfolding noise_inv_def slot_ok_def by (metis subsetD)
  moreover have "remote_ok l'"
    by (rule remote_ok_same [of l]) (use i in \<open>simp_all add: noise_inv_def rm h\<close>)
  moreover have "fresh_ok l'"
    using i sub rm h unfolding noise_inv_def fresh_ok_def by (metis empty_set subset_empty set_empty)
  ultimately show ?thesis using ix by (simp add: noise_inv_def)
qed

lemma idx_same:
  assumes "\<And>x. r_index (remotes l' x) = r_index (remotes l x)" "\<And>k. kp_index (keypairs l' k) = kp_index (keypairs l k)"
  shows "idx l' = idx l"
  using assms by (simp add: fun_eq_iff idx_def ref_index_def split: index_ref.split)

text \<open>Emptying or shifting slots and dropping what was in one of them.\<close>

lemma drop_from_slots:
  assumes "noise_inv l"
    and f: "\<And>x. r_index (f x) = r_index x \<and> r_entry_inserted (f x) = r_entry_inserted x \<and>
      r_public (f x) = r_public x \<and> r_handshake_state (f x) = r_handshake_state x"
    and "set (slots (f (remotes l r))) = set (slots (remotes l r)) - set_option kp"
    and "set_option kp \<subseteq> set (slots (remotes l r))" "distinct (slots (f (remotes l r)))"
  shows "noise_inv (noise_keypair_drop kp (upd_remote r f l))"
proof -
  let ?m = "upd_remote r f l"
  have ih: "idx ?m = idx l" by (rule idx_same) (simp_all add: f)
  have lm: "linked ?m = linked l" by (simp add: linked_def fun_eq_iff)
  have "index_ok ?m"
    using assms(1) by (simp add: noise_inv_def index_ok_def ih lm)
  note d = drop_ok [OF this, of kp]
  show ?thesis
  proof (rule reslot_inv [OF assms(1) d(1), where D = "set_option kp" and r = r])
    show "linked (noise_keypair_drop kp ?m) i \<longleftrightarrow> linked l i \<and> i \<notin> IdxKeypair ` set_option kp" for i
      using d(2) [of i] by (auto simp: lm)
  qed (use assms in \<open>simp_all add: slots_def\<close>)
qed

lemma clear_slot:
  assumes "noise_inv l"
    and f: "\<And>x. r_index (f x) = r_index x \<and> r_entry_inserted (f x) = r_entry_inserted x \<and>
      r_public (f x) = r_public x \<and> r_handshake_state (f x) = r_handshake_state x"
    and s: "\<And>x. distinct (slots x) \<Longrightarrow> set (slots (f x)) = set (slots x) - set_option (sel x) \<and>
      set_option (sel x) \<subseteq> set (slots x) \<and> distinct (slots (f x))"
  shows "noise_inv (noise_keypair_drop (sel (remotes l r)) (upd_remote r f l))"
proof -
  have "distinct (slots (remotes l r))" using assms(1) by (simp add: noise_inv_def slot_ok_def)
  note s = s [OF this]
  show ?thesis by (rule drop_from_slots [OF assms(1)]) (use f s in simp_all)
qed

lemma keypairs_clear_inv: "noise_inv l \<Longrightarrow> noise_inv (noise_remote_keypairs_clear r l)"
  unfolding noise_remote_keypairs_clear_def Let_def
  by (intro clear_slot [where sel = r_next] clear_slot [where sel = r_current] clear_slot [where sel = r_previous])
    (auto simp: in_slots distinct_slots)

lemma received_with_inv: "noise_inv l \<Longrightarrow> noise_inv (snd (noise_keypair_received_with k l))"
proof -
  assume i: "noise_inv l"
  define r where "r = kp_remote (keypairs l k)"
  have d: "distinct (slots (remotes l r))" using i by (simp add: noise_inv_def slot_ok_def)
  show ?thesis
  proof (cases "r_next (remotes l r) = Some k")
    case True
    let ?f = "\<lambda>x. x\<lparr>r_previous := r_current x, r_current := Some k, r_next := None\<rparr>"
    have "noise_inv (noise_keypair_drop (r_previous (remotes l r)) (upd_remote r ?f l))"
      by (rule drop_from_slots [OF i]) (use d True in \<open>auto simp: in_slots distinct_slots\<close>)
    moreover have "same_shape (noise_keypair_drop (r_previous (remotes l r)) (upd_remote r ?f l))
        (snd (noise_keypair_received_with k l))"
      using True by (simp add: noise_keypair_received_with_def Let_def r_def [symmetric] same_shape_def
          split: option.split)
    ultimately show ?thesis by (rule same_shape_inv)
  next
    case False
    then show ?thesis using i by (simp add: noise_keypair_received_with_def Let_def r_def [symmetric])
  qed
qed

subsection \<open>Handshake states and the index table\<close>

lemma index_remove_inv:
  assumes "noise_inv l"
  shows "noise_inv (snd (noise_remote_index_remove r l))"
    "r_handshake_state (remotes (snd (noise_remote_index_remove r l)) r) = HANDSHAKE_DEAD"
proof -
  show "r_handshake_state (remotes (snd (noise_remote_index_remove r l)) r) = HANDSHAKE_DEAD"
    by (simp add: noise_remote_index_remove_def)
  show "noise_inv (snd (noise_remote_index_remove r l))"
  proof (cases "r_handshake_state (remotes l r) = HANDSHAKE_DEAD")
    case True
    then show ?thesis using assms by (simp add: noise_remote_index_remove_def)
  next
    case False
    define m where "m = snd (noise_remote_index_remove r l)"
    have m: "m = (upd_remote r (r_handshake_state_update (\<lambda>_. HANDSHAKE_DEAD)) l)
                   \<lparr>l_index_hash := CK_LIST_REMOVE (IdxRemote r) (l_index_hash l)\<rparr>"
      using False by (simp add: m_def noise_remote_index_remove_def)
    have id: "idx m = idx l" by (rule idx_same) (simp_all add: m)
    have ix: "index_ok l" using assms by (simp add: noise_inv_def)
    have eq: "l_index_hash m = CK_LIST_REMOVE (IdxRemote r) (l_index_hash l)" by (simp add: m)
    have ix2: "index_ok m" by (rule unlink_ok(1) [OF ix eq]) (simp add: id)
    have lk: "linked m i \<longleftrightarrow> linked l i \<and> i \<noteq> IdxRemote r" for i
      by (rule unlink_ok(2) [OF ix eq]) (simp add: id)
    have sl: "slots (remotes m x) = slots (remotes l x)" for x by (simp add: m slots_def)
    have "link_ok m"
      using assms unfolding noise_inv_def link_ok_def lk sl by (auto simp: m)
    moreover have "slot_ok m" using assms unfolding noise_inv_def slot_ok_def sl by (simp add: m)
    moreover have "remote_ok m"
      by (rule remote_ok_same [of l]) (use assms in \<open>simp_all add: noise_inv_def m\<close>)
    moreover have "fresh_ok m" using assms unfolding noise_inv_def fresh_ok_def sl by (simp add: m)
    ultimately have "noise_inv m" using ix2 by (simp add: noise_inv_def)
    then show ?thesis by (simp add: m_def)
  qed
qed

lemma handshake_clear_inv: "noise_inv l \<Longrightarrow> noise_inv (noise_remote_handshake_clear r l)"
proof -
  assume "noise_inv l"
  then have "noise_inv (snd (noise_remote_index_remove r l))" by (rule index_remove_inv)
  moreover have "same_shape (snd (noise_remote_index_remove r l)) (noise_remote_handshake_clear r l)"
    by (simp add: noise_remote_handshake_clear_def Let_def case_prod_unfold same_shape_def)
  ultimately show ?thesis by (rule same_shape_inv)
qed

lemma expire_current_inv: "noise_inv l \<Longrightarrow> noise_inv (noise_remote_expire_current r l)"
proof -
  assume "noise_inv l"
  then have "noise_inv (noise_remote_handshake_clear r l)" by (rule handshake_clear_inv)
  moreover have "same_shape (noise_remote_handshake_clear r l) (noise_remote_expire_current r l)"
    by (simp add: noise_remote_expire_current_def Let_def same_shape_def split: option.split)
  ultimately show ?thesis by (rule same_shape_inv)
qed

lemma precompute_ss_shape: "same_shape l (noise_precompute_ss cv r l)"
  by (simp add: noise_precompute_ss_def same_shape_def split: prod.split)

lemma fold_inv: "(\<And>x l. P l \<Longrightarrow> P (f x l)) \<Longrightarrow> P l \<Longrightarrow> P (fold f xs l)"
  by (induction xs arbitrary: l) auto

lemma local_private_inv:
  assumes "noise_inv l"
  shows "noise_inv (noise_local_private cv private l)"
proof -
  have pub: "noise_inv (case c_pub cv (c_clamp cv private) of (pub, ok) \<Rightarrow>
      (l\<lparr>l_private := c_clamp cv private, l_public := pub, l_has_identity := ok\<rparr>))"
    using assms by (rule same_shape_inv) (simp add: same_shape_def split: prod.split)
  have one: "noise_inv (noise_remote_expire_current r (noise_precompute_ss cv r m))" if "noise_inv m" for r m
    using that by (intro expire_current_inv same_shape_inv [OF that precompute_ss_shape])
  have bucket: "noise_inv (fold (\<lambda>r l. noise_remote_expire_current r (noise_precompute_ss cv r l)) rs m)"
    if "noise_inv m" for rs m
    by (rule fold_inv [of noise_inv, OF one that])
  have all: "noise_inv (fold (\<lambda>i l. fold (\<lambda>r l. noise_remote_expire_current r (noise_precompute_ss cv r l))
      (l_remote_hash l i) l) is m)" if "noise_inv m" for "is" m
    by (rule fold_inv [of noise_inv, OF bucket that])
  show ?thesis
    using all [OF pub] by (simp add: noise_local_private_def Let_def case_prod_unfold)
qed

text \<open>The first unused draw becomes the local index.\<close>

lemma assign_id_cases:
  "assign_id r ds l = Some (l', rest) \<Longrightarrow>
   \<exists>d. l' = (upd_remote r (r_index_update (i_local_index_update (\<lambda>_. d))) l)
              \<lparr>l_index_hash := CK_LIST_INSERT_HEAD (index_bucket d) (IdxRemote r) (l_index_hash l)\<rparr> \<and>
       d \<in> set ds \<and> (\<forall>i \<in> set (l_index_hash l (index_bucket d)). i \<noteq> IdxRemote r \<longrightarrow> idx l i \<noteq> d) \<and>
       IdxRemote r \<notin> set (l_index_hash l (index_bucket d))"
proof (induction ds arbitrary: l)
  case (Cons d ds)
  let ?m = "upd_remote r (r_index_update (i_local_index_update (\<lambda>_. d))) l"
  have twice: "upd_remote r (r_index_update (i_local_index_update (\<lambda>_. e))) ?m
      = upd_remote r (r_index_update (i_local_index_update (\<lambda>_. e))) l" for e
    by (simp add: upd_remote_def comp_def)
  have other: "i \<noteq> IdxRemote r \<Longrightarrow> idx ?m i = idx l i" for i
    by (cases i) (simp_all add: idx_def ref_index_def)
  have self: "idx ?m (IdxRemote r) = d" by (simp add: idx_def ref_index_def)
  show ?case
  proof (cases "list_ex (\<lambda>i. i_local_index (ref_index ?m i) = d) (l_index_hash l (index_bucket d))")
    case True
    then have "assign_id r ds ?m = Some (l', rest)" using Cons.prems by (simp add: Let_def)
    from Cons.IH [OF this] show ?thesis using other by (auto simp: twice)
  next
    case False
    then have "\<forall>i \<in> set (l_index_hash l (index_bucket d)). idx ?m i \<noteq> d"
      by (simp add: list_ex_iff idx_def)
    moreover from this have "IdxRemote r \<notin> set (l_index_hash l (index_bucket d))" using self by blast
    ultimately show ?thesis using False Cons.prems other by (auto simp: Let_def)
  qed
qed simp

text \<open>After an insertion the remote is linked while its state is still dead; marking it pending
  restores the invariant.\<close>

lemma index_insert_inv:
  assumes "noise_inv l" "r < next_remote l" "noise_remote_index_insert r ds l = Some (l', rest)" "st \<noteq> HANDSHAKE_DEAD"
  shows "noise_inv (upd_remote r (r_handshake_state_update (\<lambda>_. st)) l')"
proof -
  define m where "m = snd (noise_remote_index_remove r l)"
  have im: "noise_inv m" "r_handshake_state (remotes m r) = HANDSHAKE_DEAD"
    using index_remove_inv [OF assms(1)] by (simp_all add: m_def)
  have nx: "r < next_remote m" using assms(2) by (simp add: m_def noise_remote_index_remove_def)
  obtain d where d: "l' = (upd_remote r (r_index_update (i_local_index_update (\<lambda>_. d))) m)
              \<lparr>l_index_hash := CK_LIST_INSERT_HEAD (index_bucket d) (IdxRemote r) (l_index_hash m)\<rparr>"
    and used: "\<forall>i \<in> set (l_index_hash m (index_bucket d)). i \<noteq> IdxRemote r \<longrightarrow> idx m i \<noteq> d"
    using assign_id_cases assms(3) unfolding noise_remote_index_insert_def m_def [symmetric] by blast
  have ix: "index_ok m" and lk: "link_ok m" using im by (simp_all add: noise_inv_def)
  have nl: "\<not> linked m (IdxRemote r)" using lk im(2) by (simp add: link_ok_def)
  define l2 where "l2 = upd_remote r (r_handshake_state_update (\<lambda>_. st)) l'"
  have id: "idx l2 i = (if i = IdxRemote r then d else idx m i)" for i
    by (cases i) (simp_all add: l2_def d idx_def ref_index_def)
  have ih: "l_index_hash l2 b = (if b = index_bucket d then IdxRemote r # l_index_hash m b else l_index_hash m b)" for b
    by (simp add: l2_def d CK_LIST_INSERT_HEAD_def)
  have fresh_d: "idx m i \<noteq> d" if "linked m i" for i
    using that used nl index_okD(2) [OF ix] by metis
  have 1: "distinct (l_index_hash l2 b)" for b
    using index_okD(1) [OF ix] nl by (auto simp: ih linked_def)
  have 2: "i \<in> set (l_index_hash l2 b) \<longleftrightarrow> (i = IdxRemote r \<or> linked m i) \<and> b = index_bucket (idx l2 i)" for i b
    using index_okD(2) [OF ix] nl by (auto simp: ih id)
  have 3: "i = j" if "i = IdxRemote r \<or> linked m i" "j = IdxRemote r \<or> linked m j" "idx l2 i = idx l2 j" for i j
    using that fresh_d index_okD(3) [OF ix] nl by (auto simp: id split: if_splits)
  have k: "index_ok l2" "linked l2 i \<longleftrightarrow> i = IdxRemote r \<or> linked m i" for i
    using index_okI [of l2 "\<lambda>i. i = IdxRemote r \<or> linked m i", OF 1 2 3] by blast+
  have sl: "slots (remotes l2 x) = slots (remotes m x)" for x by (simp add: l2_def d slots_def)
  have "link_ok l2"
    using lk assms(4) unfolding link_ok_def k sl by (auto simp: l2_def d)
  moreover have "slot_ok l2" using im(1) unfolding noise_inv_def slot_ok_def sl by (simp add: l2_def d)
  moreover have "remote_ok l2"
    by (rule remote_ok_same [of m]) (use im in \<open>simp_all add: noise_inv_def l2_def d\<close>)
  moreover have "fresh_ok l2" using im(1) nx unfolding noise_inv_def fresh_ok_def sl by (auto simp: l2_def d)
  ultimately show ?thesis using k(1) by (simp add: noise_inv_def l2_def)
qed

subsection \<open>New keypairs\<close>

lemma add_to_slots_frame [simp]:
  "l_remote_hash (add_to_slots r k l) = l_remote_hash l" "l_remote_num (add_to_slots r k l) = l_remote_num l"
  "next_remote (add_to_slots r k l) = next_remote l" "next_keypair (add_to_slots r k l) = next_keypair l"
  "l_hash_key (add_to_slots r k l) = l_hash_key l" "l_public (add_to_slots r k l) = l_public l"
  "l_private (add_to_slots r k l) = l_private l" "l_has_identity (add_to_slots r k l) = l_has_identity l"
  "l_arg (add_to_slots r k l) = l_arg l" "r_index (remotes (add_to_slots r k l) x) = r_index (remotes l x)"
  "r_entry_inserted (remotes (add_to_slots r k l) x) = r_entry_inserted (remotes l x)" "r_public (remotes (add_to_slots r k l) x) = r_public (remotes l x)"
  "r_handshake (remotes (add_to_slots r k l) x) = r_handshake (remotes l x)" "r_handshake_state (remotes (add_to_slots r k l) x) = r_handshake_state (remotes l x)"
  "r_last_sent (remotes (add_to_slots r k l) x) = r_last_sent (remotes l x)" "r_last_init_recv (remotes (add_to_slots r k l) x) = r_last_init_recv (remotes l x)"
  "r_timestamp (remotes (add_to_slots r k l) x) = r_timestamp (remotes l x)" "r_psk (remotes (add_to_slots r k l) x) = r_psk (remotes l x)"
  "r_ss (remotes (add_to_slots r k l) x) = r_ss (remotes l x)" "r_arg (remotes (add_to_slots r k l) x) = r_arg (remotes l x)"
  "kp_index (keypairs (add_to_slots r k l) x) = kp_index (keypairs l x)" "kp_remote (keypairs (add_to_slots r k l) x) = kp_remote (keypairs l x)"
  "kp_can_send (keypairs (add_to_slots r k l) x) = kp_can_send (keypairs l x)" "kp_is_initiator (keypairs (add_to_slots r k l) x) = kp_is_initiator (keypairs l x)"
  "kp_birthdate (keypairs (add_to_slots r k l) x) = kp_birthdate (keypairs l x)" "kp_send (keypairs (add_to_slots r k l) x) = kp_send (keypairs l x)"
  "kp_recv (keypairs (add_to_slots r k l) x) = kp_recv (keypairs l x)" "kp_nonce_send (keypairs (add_to_slots r k l) x) = kp_nonce_send (keypairs l x)"
  "kp_nonce_recv (keypairs (add_to_slots r k l) x) = kp_nonce_recv (keypairs l x)" "kp_backtrack (keypairs (add_to_slots r k l) x) = kp_backtrack (keypairs l x)"
  by (simp_all add: add_to_slots_def Let_def split: option.split)


lemma linked_upd [simp]: "linked (upd_remote r f l) = linked l" "linked (upd_keypair k g l) = linked l"
  by (simp_all add: linked_def fun_eq_iff)

lemma idx_upd_remote: "(\<And>x. r_index (f x) = r_index x) \<Longrightarrow> idx (upd_remote r f l) = idx l"
  by (rule idx_same) simp_all

lemma index_ok_upd_remote: "(\<And>x. r_index (f x) = r_index x) \<Longrightarrow> index_ok (upd_remote r f l) = index_ok l"
  by (simp add: index_ok_def idx_upd_remote)

lemma slots_upd_remote: "slots (remotes (upd_remote r f l) x) = (if x = r then slots (f (remotes l r)) else slots (remotes l x))"
  by simp

lemma add_to_slots_slots:
  "r_next (remotes (add_to_slots r k l) x) = (if x = r then (if kp_is_initiator (keypairs l k) then None else Some k) else r_next (remotes l x))"
  "r_current (remotes (add_to_slots r k l) x) = (if x = r then (if kp_is_initiator (keypairs l k) then Some k else r_current (remotes l r)) else r_current (remotes l x))"
  "r_previous (remotes (add_to_slots r k l) x) = (if x = r then (if kp_is_initiator (keypairs l k) then (case r_next (remotes l r) of Some n \<Rightarrow> Some n | None \<Rightarrow> r_current (remotes l r)) else None) else r_previous (remotes l x))"
  by (simp_all add: add_to_slots_def Let_def split: option.split)

definition displaced :: "nat \<Rightarrow> nat \<Rightarrow> noise_local \<Rightarrow> nat set" where
  "displaced r k l = (if kp_is_initiator (keypairs l k)
     then (if r_next (remotes l r) = None then {} else set_option (r_current (remotes l r)))
     else set_option (r_next (remotes l r))) \<union> set_option (r_previous (remotes l r))"

lemma add_to_slots_links:
  assumes "index_ok l"
  shows "index_ok (add_to_slots r k l)" (is ?A)
    "linked (add_to_slots r k l) i \<longleftrightarrow> linked l i \<and> i \<notin> IdxKeypair ` displaced r k l" (is ?B)
proof -
  have c: "?A \<and> ?B"
  proof (cases "kp_is_initiator (keypairs l k)")
    case True
    show ?thesis
    proof (cases "r_next (remotes l r)")
      case None
      then show ?thesis using True assms
        by (auto simp: add_to_slots_def Let_def index_ok_upd_remote drop_ok displaced_def)
    next
      case (Some n)
      then show ?thesis using True assms
        by (auto simp: add_to_slots_def Let_def index_ok_upd_remote drop_ok displaced_def)
    qed
  next
    case False
    then show ?thesis using assms
      by (auto simp: add_to_slots_def Let_def index_ok_upd_remote drop_ok displaced_def)
  qed
  show ?A ?B using c by blast+
qed

lemma idx_add_to_slots [simp]: "idx (add_to_slots r k l) = idx l"
  by (rule idx_same) simp_all

lemma add_to_slots_set:
  assumes "distinct (slots (remotes l r))" "k \<notin> set (slots (remotes l r))"
  shows "set (slots (remotes (add_to_slots r k l) r)) = insert k (set (slots (remotes l r)) - displaced r k l)"
    "distinct (slots (remotes (add_to_slots r k l) r))"
    "displaced r k l \<subseteq> set (slots (remotes l r))"
    "x \<noteq> r \<Longrightarrow> slots (remotes (add_to_slots r k l) x) = slots (remotes l x)"
  using assms
  by (auto simp: in_slots distinct_slots add_to_slots_slots displaced_def split: option.splits if_splits)
    (simp_all add: slots_def add_to_slots_slots)

lemma replace_link_ok:
  assumes ix: "index_ok m" and lr: "linked m (IdxRemote r)" and lk: "\<not> linked m (IdxKeypair k)"
    and h: "\<And>b. l_index_hash l' b = remove1 (IdxRemote r) (insert_before (IdxRemote r) (IdxKeypair k) (l_index_hash m b))"
    and id: "\<And>i. idx l' i = (if i = IdxKeypair k then idx m (IdxRemote r) else idx m i)"
  shows "index_ok l'" "linked l' i \<longleftrightarrow> linked m i \<and> i \<noteq> IdxRemote r \<or> i = IdxKeypair k"
proof -
  let ?P = "\<lambda>i. linked m i \<and> i \<noteq> IdxRemote r \<or> i = IdxKeypair k"
  have s: "set (l_index_hash l' b) = (if b = index_bucket (idx m (IdxRemote r))
      then insert (IdxKeypair k) (set (l_index_hash m b) - {IdxRemote r}) else set (l_index_hash m b))
      \<and> distinct (l_index_hash l' b)" for b
  proof (cases "b = index_bucket (idx m (IdxRemote r))")
    case True
    then have "IdxRemote r \<in> set (l_index_hash m b)" using lr index_okD(2) [OF ix] by blast
    moreover have "IdxKeypair k \<notin> set (l_index_hash m b)" using lk by (auto simp: linked_def)
    ultimately show ?thesis
      using insert_before_replaces [OF _ index_okD(1) [OF ix]] True by (simp add: h)
  next
    case False
    then have "IdxRemote r \<notin> set (l_index_hash m b)" using index_okD(2) [OF ix] by blast
    then show ?thesis using False index_okD(1) [OF ix] by (simp add: h insert_before_absent)
  qed
  have 1: "distinct (l_index_hash l' b)" for b using s by blast
  have 2: "i \<in> set (l_index_hash l' b) \<longleftrightarrow> ?P i \<and> b = index_bucket (idx l' i)" for i b
  proof (cases "i = IdxKeypair k")
    case True
    have "i \<notin> set (l_index_hash m b)" using lk True by (auto simp: linked_def)
    then show ?thesis using s [of b] True by (simp add: id)
  next
    case False
    have "i \<in> set (l_index_hash l' b) \<longleftrightarrow> i \<in> set (l_index_hash m b) \<and> i \<noteq> IdxRemote r"
      using s [of b] False index_okD(2) [OF ix, of "IdxRemote r" b] by (cases "i = IdxRemote r") simp_all
    then show ?thesis using False index_okD(2) [OF ix, of i b] by (auto simp: id)
  qed
  have 3: "i = j" if "?P i" "?P j" "idx l' i = idx l' j" for i j
  proof (cases "i = IdxKeypair k \<or> j = IdxKeypair k")
    case True
    then show ?thesis
      using that lr index_okD(3) [OF ix, of i "IdxRemote r"] index_okD(3) [OF ix, of j "IdxRemote r"]
      unfolding id by metis
  next
    case False
    then show ?thesis using that index_okD(3) [OF ix, of i j] by (simp add: id)
  qed
  show "index_ok l'" "linked l' i \<longleftrightarrow> ?P i" using index_okI [of l' ?P, OF 1 2 3] by blast+
qed

lemma add_new_keypair_inv:
  assumes i: "noise_inv l" and k: "\<And>x. k \<notin> set (slots (remotes l x))" "k < next_keypair l"
    and kr: "kp_remote (keypairs l k) = r" and st: "r_handshake_state (remotes l r) \<noteq> HANDSHAKE_DEAD"
  shows "noise_inv (noise_add_new_keypair r k l)"
proof -
  define m where "m = add_to_slots r k l"
  define l' where "l' = noise_add_new_keypair r k l"
  have ok: "index_ok l" "link_ok l" "slot_ok l" "remote_ok l" "fresh_ok l" using i by (simp_all add: noise_inv_def)
  have ds: "distinct (slots (remotes l r))" using ok(3) by (simp add: slot_ok_def)
  have nr: "r < next_remote l" using st ok(5) by (force simp: fresh_ok_def not_le [symmetric])
  have mi: "index_ok m" "linked m i \<longleftrightarrow> linked l i \<and> i \<notin> IdxKeypair ` displaced r k l" for i
    using add_to_slots_links [OF ok(1)] by (simp_all add: m_def)
  note ms = add_to_slots_set [OF ds k(1), folded m_def]
  have lr: "linked m (IdxRemote r)" using ok(2) st by (auto simp: mi link_ok_def)
  have nk: "\<not> linked m (IdxKeypair k)" using ok(2) k(1) by (simp add: mi link_ok_def)
  have h: "l_index_hash l' b = remove1 (IdxRemote r) (insert_before (IdxRemote r) (IdxKeypair k) (l_index_hash m b))" for b
    by (simp add: l'_def noise_add_new_keypair_def Let_def m_def CK_LIST_REMOVE_def CK_LIST_INSERT_BEFORE_def)
  have rm: "r_index (remotes l' x) = r_index (remotes l x)"
      "r_entry_inserted (remotes l' x) = r_entry_inserted (remotes l x)"
      "r_public (remotes l' x) = r_public (remotes l x)" "slots (remotes l' x) = slots (remotes m x)"
      "r_handshake_state (remotes l' x) = (if x = r then HANDSHAKE_DEAD else r_handshake_state (remotes l x))" for x
    by (simp_all add: l'_def noise_add_new_keypair_def Let_def m_def slots_def)
  have kp: "kp_index (keypairs l' x) = (if x = k then \<lparr>i_local_index = i_local_index (r_index (remotes l r)),
                i_remote_index = i_remote_index (r_index (remotes l r)), i_is_keypair = True\<rparr> else kp_index (keypairs l x))"
      "kp_remote (keypairs l' x) = kp_remote (keypairs l x)" for x
    by (simp_all add: l'_def noise_add_new_keypair_def Let_def)
  have fr: "l_remote_hash l' = l_remote_hash l" "l_remote_num l' = l_remote_num l" "l_hash_key l' = l_hash_key l"
      "next_remote l' = next_remote l" "next_keypair l' = next_keypair l"
    by (simp_all add: l'_def noise_add_new_keypair_def Let_def)
  have id: "idx l' i = (if i = IdxKeypair k then idx m (IdxRemote r) else idx m i)" for i
    by (cases i) (simp_all add: m_def idx_def ref_index_def rm kp)
  note li = replace_link_ok [OF mi(1) lr nk h id]
  have sl: "x \<noteq> r \<Longrightarrow> slots (remotes l' x) = slots (remotes l x)" for x by (simp add: rm ms)
  have slr: "set (slots (remotes l' r)) = insert k (set (slots (remotes l r)) - displaced r k l)"
    "distinct (slots (remotes l' r))" by (simp_all add: rm ms)
  have own: "j \<in> set (slots (remotes l x)) \<Longrightarrow> kp_remote (keypairs l j) = x" for j x
    using ok(3) by (simp add: slot_ok_def)
  have mem: "(\<exists>x. j \<in> set (slots (remotes l' x))) \<longleftrightarrow>
      j = k \<or> (\<exists>x. j \<in> set (slots (remotes l x))) \<and> j \<notin> displaced r k l" for j
  proof
    assume "\<exists>x. j \<in> set (slots (remotes l' x))"
    then obtain x where x: "j \<in> set (slots (remotes l' x))" ..
    show "j = k \<or> (\<exists>x. j \<in> set (slots (remotes l x))) \<and> j \<notin> displaced r k l"
    proof (cases "x = r")
      case False
      then have "j \<in> set (slots (remotes l x))" using x sl by simp
      moreover have "j \<notin> displaced r k l" using ms(3) own [OF calculation] own [of j r] False by blast
      ultimately show ?thesis by blast
    qed (use x slr in auto)
  next
    assume "j = k \<or> (\<exists>x. j \<in> set (slots (remotes l x))) \<and> j \<notin> displaced r k l"
    then show "\<exists>x. j \<in> set (slots (remotes l' x))" using slr(1) sl by (metis DiffI insertCI)
  qed
  have "link_ok l'"
    using ok(2) unfolding link_ok_def li(2) mi(2) mem rm(5) by auto
  moreover have "slot_ok l'"
    unfolding slot_ok_def
  proof (intro conjI allI impI)
    show "distinct (slots (remotes l' x))" for x
      using slr(2) sl ok(3) by (cases "x = r") (simp_all add: slot_ok_def)
    fix x j assume "j \<in> set (slots (remotes l' x))"
    then have "j = k \<and> x = r \<or> j \<in> set (slots (remotes l x))"
      using slr(1) sl by (cases "x = r") auto
    then show "kp_remote (keypairs l' j) = x" "j < next_keypair l'" "i_is_keypair (kp_index (keypairs l' j))"
      using ok(3) k(2) kr by (auto simp: kp fr slot_ok_def)
  next
    show "\<not> i_is_keypair (r_index (remotes l' x))" for x using ok(3) by (simp add: rm slot_ok_def)
  qed
  moreover have "remote_ok l'" by (rule remote_ok_same [OF ok(4)]) (simp_all add: fr rm)
  moreover have "fresh_ok l'" using ok(5) nr sl by (auto simp: fresh_ok_def fr rm(2,3,5))
  ultimately show ?thesis using li(1) by (simp add: noise_inv_def l'_def)
qed

lemma keypairs_remote_ref [simp]: "keypairs (noise_remote_ref r l) = keypairs l"
  by (simp add: noise_remote_ref_def)

definition session_keypair :: "nat \<Rightarrow> sbintime \<Rightarrow> noise_local \<Rightarrow> noise_keypair" where
  "session_keypair r now l =
     (let initiator = (r_handshake_state (remotes l r) = HANDSHAKE_INITIATOR);
          (t1, t2, t3) = spec_hkdf (hs_ck (r_handshake (remotes l r))) []
      in zero_keypair\<lparr>kp_refcnt := 1, kp_can_send := True, kp_is_initiator := initiator,
           kp_birthdate := now, kp_remote := r, kp_send := (if initiator then t1 else t2),
           kp_recv := (if initiator then t2 else t1)\<rparr>)"

lemma length_spec_hkdf:
  "spec_hkdf ck x = (t1, t2, t3) \<Longrightarrow> length t1 = 32 \<and> length t2 = 32 \<and> length t3 = 32"
  by (auto simp: spec_hkdf_def Let_def)

lemma begin_session_eq:
  "noise_begin_session r now alloc_ok l =
     (if \<not> alloc_ok then (ENOSPC, l)
      else (OK, noise_add_new_keypair r (next_keypair l)
        ((noise_remote_ref r l)\<lparr>next_keypair := next_keypair l + 1,
           keypairs := (keypairs l)(next_keypair l := session_keypair r now l)\<rparr>)))"
proof (cases "spec_hkdf (hs_ck (r_handshake (remotes l r))) []")
  case (fields t1 t2 t3)
  then have kdf: "noise_kdf 32 32 0 [] (hs_ck (r_handshake (remotes l r))) = (Some t1, Some t2, None)"
    using length_spec_hkdf [OF fields] by (simp add: kdf_spec)
  show ?thesis
    by (simp add: noise_begin_session_def Let_def noise_sizes kdf written_def session_keypair_def fields zero_keypair_def)
qed

lemma begin_session_inv:
  assumes i: "noise_inv l" and st: "r_handshake_state (remotes l r) \<noteq> HANDSHAKE_DEAD"
  shows "noise_inv (snd (noise_begin_session r now alloc_ok l))"
proof (cases alloc_ok)
  case True
  have ok: "index_ok l" "link_ok l" "slot_ok l" "remote_ok l" "fresh_ok l" using i by (simp_all add: noise_inv_def)
  let ?k = "next_keypair l"
  have k: "?k \<notin> set (slots (remotes l x))" for x using ok(3) by (auto simp: slot_ok_def)
  have base: "noise_inv m" if m: "m = (noise_remote_ref r l)\<lparr>next_keypair := ?k + 1, keypairs := (keypairs l)(?k := kp)\<rparr>" for m kp
  proof -
    have sl: "slots (remotes m x) = slots (remotes l x)" for x by (simp add: m slots_def)
    have lm: "linked m = linked l" by (simp add: m linked_def fun_eq_iff)
    have nl: "\<not> linked l (IdxKeypair ?k)" using ok(2) k by (simp add: link_ok_def)
    have id: "linked l i \<Longrightarrow> idx m i = idx l i" for i
      using nl by (cases i) (auto simp: m idx_def ref_index_def)
    have "index_ok m" by (rule index_ok_cong [OF ok(1) _ id]) (simp_all add: m)
    moreover have "link_ok m" using ok(2) by (simp add: link_ok_def lm sl) (simp add: m)
    moreover have "slot_ok m" using ok(3) k unfolding slot_ok_def sl by (auto simp: m less_Suc_eq)
    moreover have "remote_ok m" by (rule remote_ok_same [OF ok(4)]) (simp_all add: m)
    moreover have "fresh_ok m" using ok(5) unfolding fresh_ok_def sl by (simp add: m)
    ultimately show ?thesis by (simp add: noise_inv_def)
  qed
  show ?thesis
  proof -
    define m where "m = (noise_remote_ref r l)\<lparr>next_keypair := ?k + 1,
        keypairs := (keypairs l)(?k := session_keypair r now l)\<rparr>"
    have sm: "slots (remotes m x) = slots (remotes l x)" for x by (simp add: m_def slots_def)
    have "noise_inv (noise_add_new_keypair r ?k m)"
    proof (rule add_new_keypair_inv [OF base [OF m_def]])
      show "?k \<notin> set (slots (remotes m x))" for x using k by (simp add: sm)
      show "?k < next_keypair m" by (simp add: m_def)
      show "kp_remote (keypairs m ?k) = r" by (simp add: m_def session_keypair_def Let_def case_prod_unfold)
      show "r_handshake_state (remotes m r) \<noteq> HANDSHAKE_DEAD" using st by (simp add: m_def)
    qed
    then show ?thesis using True by (simp add: begin_session_eq m_def)
  qed
qed (use i in \<open>simp add: noise_begin_session_def\<close>)

subsection \<open>Adding and removing remotes\<close>

lemma remote_alloc_inv:
  assumes i: "noise_inv l"
  shows "noise_inv (snd (noise_remote_alloc cv l arg public))"
proof -
  have ok: "index_ok l" "link_ok l" "slot_ok l" "remote_ok l" "fresh_ok l" using i by (simp_all add: noise_inv_def)
  let ?r = "next_remote l"
  define m where "m = l\<lparr>next_remote := ?r + 1,
      remotes := (remotes l)(?r := zero_remote\<lparr>r_public := public, r_handshake_state := HANDSHAKE_DEAD,
        r_last_sent := TIMER_RESET, r_last_init_recv := TIMER_RESET\<rparr>)\<rparr>"
  have dead: "r_handshake_state (remotes l ?r) = HANDSHAKE_DEAD" "slots (remotes l ?r) = []"
    "\<not> r_entry_inserted (remotes l ?r)" using ok(5) by (simp_all add: fresh_ok_def)
  have nl: "\<not> linked l (IdxRemote ?r)" using ok(2) dead by (simp add: link_ok_def)
  have lm: "linked m = linked l" by (simp add: m_def linked_def fun_eq_iff)
  have id: "linked l i \<Longrightarrow> idx m i = idx l i" for i
    using nl by (cases i) (auto simp: m_def idx_def ref_index_def)
  have sl: "slots (remotes m x) = slots (remotes l x)" for x
    using dead(2) by (simp add: m_def zero_remote_def slots_def)
  have ins: "r_entry_inserted (remotes m x) = r_entry_inserted (remotes l x)" for x
    using dead(3) by (simp add: m_def zero_remote_def)
  have pub: "x \<noteq> ?r \<Longrightarrow> remotes m x = remotes l x" for x by (simp add: m_def)
  have bk: "remote_bucket m = remote_bucket l" by (simp add: m_def fun_eq_iff remote_bucket_def)
  have "index_ok m" by (rule index_ok_cong [OF ok(1) _ id]) (simp_all add: m_def)
  moreover have "link_ok m"
    using ok(2) dead(1) unfolding link_ok_def lm sl by (auto simp: m_def)
  moreover have "slot_ok m"
    using ok(3) unfolding slot_ok_def sl by (auto simp: m_def zero_remote_def zero_index_def)
  moreover have "remote_ok m"
    unfolding remote_ok_def
  proof (intro conjI allI)
    show "distinct (l_remote_hash m b)" for b using ok(4) by (simp add: remote_ok_def m_def)
    show "x \<in> set (l_remote_hash m b) \<longleftrightarrow> r_entry_inserted (remotes m x) \<and> remote_bucket m (r_public (remotes m x)) = b" for b x
      using ok(4) dead(3) pub [of x] ins [of x] by (cases "x = ?r") (auto simp: remote_ok_def bk, auto simp: m_def)
    show "l_remote_num m = card {r. r_entry_inserted (remotes m r)}"
      unfolding ins using ok(4) by (simp add: remote_ok_def m_def)
  qed
  moreover have "fresh_ok m"
    using ok(5) unfolding fresh_ok_def sl ins by (auto simp: m_def)
  ultimately have "noise_inv m" by (simp add: noise_inv_def)
  moreover have "same_shape m (snd (noise_remote_alloc cv l arg public))"
    unfolding noise_remote_alloc_def Let_def m_def [symmetric]
    by (simp add: same_shape_def noise_precompute_ss_def split: prod.split)
  ultimately show ?thesis by (rule same_shape_inv)
qed

lemma inserted_finite: "fresh_ok l \<Longrightarrow> finite {r. r_entry_inserted (remotes l r)}"
  by (rule finite_subset [of _ "{..<next_remote l}"]) (auto simp: fresh_ok_def not_le [symmetric])

lemma remote_enable_inv:
  assumes i: "noise_inv l" and r: "r < next_remote l"
  shows "noise_inv (snd (noise_remote_enable r l))"
proof (cases "\<not> r_entry_inserted (remotes l r) \<and> l_remote_num l < MAX_REMOTE_PER_LOCAL")
  case True
  have ok: "index_ok l" "link_ok l" "slot_ok l" "remote_ok l" "fresh_ok l" using i by (simp_all add: noise_inv_def)
  define b0 where "b0 = remote_bucket l (r_public (remotes l r))"
  define m where "m = snd (noise_remote_enable r l)"
  have m: "m = (upd_remote r (r_entry_inserted_update (\<lambda>_. True)) l)
      \<lparr>l_remote_num := l_remote_num l + 1, l_remote_hash := CK_LIST_INSERT_HEAD b0 r (l_remote_hash l)\<rparr>"
    using True by (simp add: m_def noise_remote_enable_def b0_def)
  have lm: "linked m = linked l" by (simp add: m linked_def fun_eq_iff)
  have sl: "slots (remotes m x) = slots (remotes l x)" for x by (simp add: m slots_def)
  have id: "idx m = idx l" by (rule idx_same) (simp_all add: m)
  have bk: "remote_bucket m = remote_bucket l" by (simp add: m fun_eq_iff remote_bucket_def)
  have notin: "r \<notin> set (l_remote_hash l b)" for b using ok(4) True by (simp add: remote_ok_def)
  have "index_ok m" by (rule index_ok_cong [OF ok(1)]) (simp add: m, simp add: id)
  moreover have "link_ok m" using ok(2) unfolding link_ok_def lm sl by (simp add: m)
  moreover have "slot_ok m" using ok(3) unfolding slot_ok_def sl by (simp add: m)
  moreover have "remote_ok m"
    unfolding remote_ok_def bk
  proof (intro conjI allI)
    show "distinct (l_remote_hash m b)" for b
      using ok(4) notin by (simp add: m CK_LIST_INSERT_HEAD_def remote_ok_def)
    show "x \<in> set (l_remote_hash m b) \<longleftrightarrow> r_entry_inserted (remotes m x) \<and> remote_bucket l (r_public (remotes m x)) = b" for b x
      using ok(4) notin by (auto simp: m CK_LIST_INSERT_HEAD_def remote_ok_def b0_def)
    have "{x. r_entry_inserted (remotes m x)} = insert r {x. r_entry_inserted (remotes l x)}" by (auto simp: m)
    then show "l_remote_num m = card {r. r_entry_inserted (remotes m r)}"
      using ok(4) True inserted_finite [OF ok(5)] by (simp add: m remote_ok_def)
  qed
  moreover have "fresh_ok m" using ok(5) r unfolding fresh_ok_def sl by (simp add: m)
  ultimately show ?thesis by (simp add: noise_inv_def m_def)
qed (use i in \<open>auto simp: noise_remote_enable_def Let_def\<close>)

lemma remote_disable_inv:
  assumes i: "noise_inv l"
  shows "noise_inv (noise_remote_disable r l)"
proof (cases "r_entry_inserted (remotes l r)")
  case True
  have ok: "index_ok l" "link_ok l" "slot_ok l" "remote_ok l" "fresh_ok l" using i by (simp_all add: noise_inv_def)
  define m where "m = noise_remote_disable r l"
  have m: "m = (upd_remote r (r_entry_inserted_update (\<lambda>_. False)) l)
             \<lparr>l_remote_hash := CK_LIST_REMOVE r (l_remote_hash l), l_remote_num := l_remote_num l - 1\<rparr>"
    using True by (simp add: m_def noise_remote_disable_def)
  have lm: "linked m = linked l" by (simp add: m linked_def fun_eq_iff)
  have sl: "slots (remotes m x) = slots (remotes l x)" for x by (simp add: m slots_def)
  have id: "idx m = idx l" by (rule idx_same) (simp_all add: m)
  have bk: "remote_bucket m = remote_bucket l" by (simp add: m fun_eq_iff remote_bucket_def)
  have dr: "\<forall>b. distinct (l_remote_hash l b)" using ok(4) by (simp add: remote_ok_def)
  have "index_ok m" by (rule index_ok_cong [OF ok(1)]) (simp add: m, simp add: id)
  moreover have "link_ok m" using ok(2) unfolding link_ok_def lm sl by (simp add: m)
  moreover have "slot_ok m" using ok(3) unfolding slot_ok_def sl by (simp add: m)
  moreover have "remote_ok m"
    unfolding remote_ok_def bk
  proof (intro conjI allI)
    show "distinct (l_remote_hash m b)" for b using dr by (simp add: m CK_LIST_REMOVE_ok)
    show "x \<in> set (l_remote_hash m b) \<longleftrightarrow> r_entry_inserted (remotes m x) \<and> remote_bucket l (r_public (remotes m x)) = b" for b x
      using ok(4) by (auto simp: m CK_LIST_REMOVE_ok [OF dr] remote_ok_def)
    have "{x. r_entry_inserted (remotes m x)} = {x. r_entry_inserted (remotes l x)} - {r}" by (auto simp: m)
    then show "l_remote_num m = card {r. r_entry_inserted (remotes m r)}"
      using ok(4) True inserted_finite [OF ok(5)] by (simp add: m remote_ok_def)
  qed
  moreover have "fresh_ok m" using ok(5) unfolding fresh_ok_def sl by (simp add: m)
  ultimately show ?thesis by (simp add: noise_inv_def m_def)
qed (use i in \<open>simp add: noise_remote_disable_def\<close>)

lemma remote_free_inv: "noise_inv l \<Longrightarrow> noise_inv (noise_remote_free r c l)"
proof -
  assume "noise_inv l"
  then have "noise_inv (upd_remote r (r_cleanup_update (\<lambda>_. c)) l)"
    by (rule same_shape_inv) (simp add: same_shape_def)
  then have "noise_inv (noise_remote_keypairs_clear r (noise_remote_handshake_clear r
      (noise_remote_disable r (upd_remote r (r_cleanup_update (\<lambda>_. c)) l))))"
    by (intro keypairs_clear_inv handshake_clear_inv remote_disable_inv)
  then show ?thesis
    unfolding noise_remote_free_def Let_def by (rule same_shape_inv) simp
qed

subsection \<open>Handshake messages\<close>

lemma set_hs_shape [simp]: "same_shape l (set_hs r ck h l)" "same_shape l (set_hs_e r e l)"
  by (simp_all add: same_shape_def set_hs_def set_hs_e_def)

lemma remote_lookup_shape: "same_shape l (snd (noise_remote_lookup l pk))"
  using acquire_cases by (auto simp: noise_remote_lookup_def split: option.split) (metis same_shape_counts(3) same_shape_refl snd_conv)

lemma index_lookup_shape: "same_shape l (snd (noise_remote_index_lookup l i kp))"
proof -
  have a: "same_shape l (snd (acquire_remote r l))" for r
    using acquire_cases(1) [of r l] by auto
  show ?thesis by (auto simp: noise_remote_index_lookup_def a split: option.split index_ref.split)
qed

lemma write_initiation_shape: "same_shape l (snd (write_initiation cv r time rnd l))"
proof -
  have hs: "same_shape l (set_hs r a b (set_hs_e r e (set_hs r c d l)))"
    "same_shape l (set_hs_e r e (set_hs r c d l))" for a b c d e
    by (simp_all add: same_shape_def set_hs_def set_hs_e_def)
  show ?thesis
    unfolding write_initiation_def Let_def using hs by (simp add: case_prod_unfold split: option.split)
qed

lemma create_initiation_inv:
  assumes i: "noise_inv l" "r < next_remote l" and c: "noise_create_initiation cv r now time rnd draws l = Some (e, out, l')"
  shows "noise_inv l'"
proof -
  obtain x l1 where w: "write_initiation cv r time rnd l = (x, l1)" by (metis surj_pair)
  have sh: "same_shape l l1" using write_initiation_shape [of l cv r time rnd] w by simp
  have i1: "noise_inv l1" using i(1) sh by (rule same_shape_inv)
  have n1: "r < next_remote l1" using i(2) sh by (simp add: same_shape_def)
  show ?thesis
  proof (cases "x = None \<or> noise_remote_index_insert r draws l1 = None")
    case True
    then show ?thesis using c i(1) i1
      by (auto simp: noise_create_initiation_def w split: if_splits option.splits)
  next
    case False
    then obtain y l2 rest where y: "x = Some y" and l2: "noise_remote_index_insert r draws l1 = Some (l2, rest)" by auto
    have "noise_inv (upd_remote r (r_handshake_state_update (\<lambda>_. HANDSHAKE_INITIATOR)) l2)"
      by (rule index_insert_inv [OF i1 n1 l2]) simp
    then have "noise_inv (upd_remote r (\<lambda>x. x\<lparr>r_handshake_state := HANDSHAKE_INITIATOR, r_last_sent := now\<rparr>) l2)"
      by (rule same_shape_inv) (simp add: same_shape_def)
    then show ?thesis using c i(1) l2
      by (auto simp: noise_create_initiation_def w y Let_def case_prod_unfold split: if_splits)
  qed
qed

lemma lookup_inserted:
  assumes "noise_inv l" "noise_remote_lookup l pk = (Some r, l')"
  shows "r < next_remote l" "r_entry_inserted (remotes l r)" "r_public (remotes l r) = pk \<or> timingsafe_bcmp (r_public (remotes l r)) pk = False"
proof -
  obtain x where x: "List.find (\<lambda>r. \<not> timingsafe_bcmp (r_public (remotes l r)) pk) (l_remote_hash l (remote_bucket l pk)) = Some x"
    using assms(2) by (auto simp: noise_remote_lookup_def split: option.splits)
  have "x = r" using assms(2) x acquire_cases(1) [of x l] by (auto simp: noise_remote_lookup_def)
  then have r: "r \<in> set (l_remote_hash l (remote_bucket l pk))" "\<not> timingsafe_bcmp (r_public (remotes l r)) pk"
    using x by (auto simp: find_Some_iff)
  then show "r_entry_inserted (remotes l r)" using assms(1) by (auto simp: noise_inv_def remote_ok_def)
  then show "r < next_remote l" using assms(1) by (force simp: noise_inv_def fresh_ok_def not_le [symmetric])
  show "r_public (remotes l r) = pk \<or> timingsafe_bcmp (r_public (remotes l r)) pk = False" using r(2) by simp
qed

lemma read_initiation_shape:
  "read_initiation cv ue es ets l = (ro, x, l') \<Longrightarrow> same_shape l l' \<and> (ro = None \<longrightarrow> x = None) \<and>
     (\<forall>r. ro = Some r \<longrightarrow> (\<exists>pk. noise_remote_lookup l pk = (Some r, l')))"
  using remote_lookup_shape [of l]
  unfolding read_initiation_def Let_def
  by (simp add: case_prod_unfold split: option.splits prod.splits) (auto simp: prod_eq_iff)

lemma consume_initiation_inv:
  assumes i: "noise_inv l" and c: "noise_consume_initiation cv s_idx ue es ets now draws l = Some (e, out, l')"
  shows "noise_inv l'"
proof -
  obtain ro x l1 where rd: "read_initiation cv ue es ets l = (ro, x, l1)" by (metis prod_cases3)
  note sh = read_initiation_shape [OF rd]
  have i1: "noise_inv l1" using i sh by (auto intro: same_shape_inv)
  have put: "noise_inv (noise_remote_put r m)" if "noise_inv m" for r m
    using that by (rule same_shape_inv) simp
  have ts: "same_shape m (upd_remote r (r_timestamp_update (\<lambda>_. t)) m)"
    "same_shape m (upd_remote r (r_last_init_recv_update (\<lambda>_. t')) m)" for m r t t'
    by (simp_all add: same_shape_def)
  show ?thesis
  proof (cases ro)
    case None
    then show ?thesis using c rd sh i i1 by (auto simp: noise_consume_initiation_def split: if_splits)
  next
    case (Some r)
    then obtain pk where lk: "noise_remote_lookup l pk = (Some r, l1)" using sh by blast
    have rn: "r < next_remote l" using lookup_inserted [OF i lk] by blast
    show ?thesis
    proof (cases x)
      case None
      then show ?thesis using Some c rd i put [OF i1] by (auto simp: noise_consume_initiation_def split: if_splits)
    next
      case (Some y)
      obtain t hs where y: "y = (t, hs)" by (cases y)
      define l2 where "l2 = upd_remote r (r_timestamp_update (\<lambda>_. t)) l1"
      define l3 where "l3 = upd_remote r (r_last_init_recv_update (\<lambda>_. now)) l2"
      have i2: "noise_inv l2" using i1 ts(1) unfolding l2_def by (rule same_shape_inv)
      have i3: "noise_inv l3" using i2 ts(2) unfolding l3_def by (rule same_shape_inv)
      have n3: "r < next_remote l3" using rn sh by (simp add: l3_def l2_def same_shape_def)
      note rd' = rd [unfolded \<open>ro = Some r\<close> \<open>x = Some y\<close> y]
      show ?thesis
      proof (cases "noise_remote_index_insert r draws l3")
        case None
        then show ?thesis
          using c i put [OF i1] put [OF i2] unfolding noise_consume_initiation_def rd'
          by (auto simp: Let_def l2_def [symmetric] l3_def [symmetric] split: if_splits)
      next
        case (Some z)
        obtain l4 rest where z: "z = (l4, rest)" by (cases z)
        have i4: "noise_inv (upd_remote r (r_handshake_state_update (\<lambda>_. HANDSHAKE_RESPONDER)) l4)"
          using index_insert_inv [OF i3 n3] Some z by simp
        have "noise_inv (noise_remote_put r (noise_remote_ref r (upd_remote r (\<lambda>x. x\<lparr>r_index := (r_index x)\<lparr>i_remote_index := s_idx\<rparr>,
             r_handshake_state := HANDSHAKE_RESPONDER, r_handshake := hs\<rparr>) l4)))"
          by (rule same_shape_inv [OF i4]) (simp add: same_shape_def)
        then show ?thesis
          using c i put [OF i1] put [OF i2] Some z unfolding noise_consume_initiation_def rd'
          by (auto simp: Let_def l2_def [symmetric] l3_def [symmetric] split: if_splits)
      qed
    qed
  qed
qed

lemma write_response_shape: "same_shape l (snd (write_response cv r rnd l))"
  unfolding write_response_def Let_def by (simp add: case_prod_unfold split: option.split)

lemma create_response_inv:
  assumes i: "noise_inv l"
  shows "noise_inv (snd (snd (noise_create_response cv r now rnd alloc_ok l)))"
proof (cases "r_handshake_state (remotes l r) = HANDSHAKE_RESPONDER")
  case True
  obtain x l1 where w: "write_response cv r rnd l = (x, l1)" by (metis surj_pair)
  have sh: "same_shape l l1" using write_response_shape [of l cv r rnd] w by simp
  have i1: "noise_inv l1" using i sh by (rule same_shape_inv)
  have b: "noise_inv (snd (noise_begin_session r now alloc_ok l1))"
    by (rule begin_session_inv [OF i1]) (use True sh in \<open>simp add: same_shape_def\<close>)
  have "noise_inv (upd_remote r (r_last_sent_update (\<lambda>_. now)) (snd (noise_begin_session r now alloc_ok l1)))"
    by (rule same_shape_inv [OF b]) (simp add: same_shape_def)
  then show ?thesis
    using i1 b True by (simp add: noise_create_response_def w Let_def case_prod_unfold split: option.split)
qed (use i in \<open>simp add: noise_create_response_def\<close>)

lemma consume_response_inv:
  assumes i: "noise_inv l"
  shows "noise_inv (snd (snd (noise_consume_response cv s_idx r_idx ue en now alloc_ok l)))"
proof -
  obtain ro l1 where lk: "noise_remote_index_lookup l r_idx False = (ro, l1)" by (metis surj_pair)
  have i1: "noise_inv l1" using same_shape_inv [OF i index_lookup_shape] lk by (metis snd_conv)
  have put: "noise_inv (noise_remote_put r m)" if "noise_inv m" for r m
    using that by (rule same_shape_inv) simp
  have ref: "noise_inv (noise_remote_ref r m)" if "noise_inv m" for r m
    using that by (rule same_shape_inv) simp
  have hs: "noise_inv (upd_remote r (\<lambda>x. x\<lparr>r_handshake := hs, r_index := (r_index x)\<lparr>i_remote_index := s_idx\<rparr>\<rparr>) l1)" for r hs
    by (rule same_shape_inv [OF i1]) (simp add: same_shape_def)
  have bs: "noise_inv (snd (noise_begin_session r now alloc_ok (upd_remote r (\<lambda>x. x\<lparr>r_handshake := hs,
       r_index := (r_index x)\<lparr>i_remote_index := s_idx\<rparr>\<rparr>) l1)))"
    if "r_handshake_state (remotes l1 r) = HANDSHAKE_INITIATOR" for r hs
    by (rule begin_session_inv [OF hs]) (simp add: that)
  show ?thesis
    unfolding noise_consume_response_def Let_def lk
    using i1 bs put ref by (simp add: case_prod_unfold split: option.split)
qed

subsection \<open>Reachable states\<close>

text \<open>One call of the interface of \<^verbatim>\<open>wg_noise.h\<close>. A caller passes remotes it has got from
  \<^verbatim>\<open>noise_remote_alloc\<close>, and the encrypted timestamp of an initiation has the size of its array; all other arguments and the outcomes of clock, random numbers and
  allocations are free.\<close>

inductive noise_step :: "curve \<Rightarrow> noise_local \<Rightarrow> noise_local \<Rightarrow> bool" for cv where
  "noise_step cv l (noise_local_ref l)"
| "noise_step cv l (noise_local_put l)"
| "noise_step cv l (noise_local_free l c)"
| "noise_step cv l (noise_local_private cv private l)"
| "noise_step cv l (snd (noise_remote_alloc cv l arg public))"
| "r < next_remote l \<Longrightarrow> noise_step cv l (snd (noise_remote_enable r l))"
| "noise_step cv l (noise_remote_disable r l)"
| "noise_step cv l (snd (noise_remote_lookup l public))"
| "noise_step cv l (snd (noise_remote_index l i))"
| "noise_step cv l (noise_remote_ref r l)"
| "noise_step cv l (noise_remote_put r l)"
| "noise_step cv l (noise_remote_free r c l)"
| "noise_step cv l (noise_remote_local r l)"
| "noise_step cv l (noise_remote_set_psk r psk l)"
| "noise_step cv l (noise_remote_handshake_clear r l)"
| "noise_step cv l (noise_remote_keypairs_clear r l)"
| "noise_step cv l (snd (noise_keypair_lookup l i))"
| "noise_step cv l (snd (noise_keypair_current r now l))"
| "noise_step cv l (noise_keypair_ref k l)"
| "noise_step cv l (snd (noise_keypair_received_with k l))"
| "noise_step cv l (noise_keypair_put k l)"
| "noise_step cv l (snd (noise_keypair_remote k l))"
| "noise_step cv l (upd_keypair k (\<lambda>kp. snd (snd (noise_keypair_nonce_next kp))) l)"
| "noise_step cv l (upd_keypair k (\<lambda>kp. snd (noise_keypair_nonce_check kp recv)) l)"
| "r < next_remote l \<Longrightarrow> noise_create_initiation cv r now time rnd draws l = Some (e, out, l') \<Longrightarrow> noise_step cv l l'"
| "length ets = 28 \<Longrightarrow> noise_consume_initiation cv s_idx ue es ets now draws l = Some (e, ro, l') \<Longrightarrow> noise_step cv l l'"
| "noise_step cv l (snd (snd (noise_create_response cv r now rnd alloc_ok l)))"
| "noise_step cv l (snd (snd (noise_consume_response cv s_idx r_idx ue en now alloc_ok l)))"

inductive noise_reach :: "curve \<Rightarrow> noise_local \<Rightarrow> bool" for cv where
  init: "noise_reach cv (noise_local_alloc arg hash_key)"
| step: "noise_reach cv l \<Longrightarrow> noise_step cv l l' \<Longrightarrow> noise_reach cv l'"

lemma local_alloc_inv: "noise_inv (noise_local_alloc arg hash_key)"
  by (simp add: noise_inv_def index_ok_def link_ok_def slot_ok_def remote_ok_def fresh_ok_def linked_def
      noise_local_alloc_def zero_remote_def zero_index_def slots_def)

lemma nonce_shape:
  "kp_index (snd (snd (noise_keypair_nonce_next kp))) = kp_index kp"
  "kp_remote (snd (snd (noise_keypair_nonce_next kp))) = kp_remote kp"
  "kp_index (snd (noise_keypair_nonce_check kp recv)) = kp_index kp"
  "kp_remote (snd (noise_keypair_nonce_check kp recv)) = kp_remote kp"
  by (simp_all add: noise_keypair_nonce_next_def noise_keypair_nonce_check_def advance_window_def Let_def)

lemma noise_step_inv: "noise_step cv l l' \<Longrightarrow> noise_inv l \<Longrightarrow> noise_inv l'"
proof (induction rule: noise_step.induct)
  case (3 l c)
  then show ?case by (rule same_shape_inv) (simp add: noise_local_free_def same_shape_def)
next
  case (8 l public)
  then show ?case using remote_lookup_shape by (rule same_shape_inv)
next
  case (9 l i)
  then show ?case unfolding noise_remote_index_def using index_lookup_shape by (rule same_shape_inv)
next
  case (17 l i)
  have "same_shape l (snd (noise_keypair_lookup l i))"
    using acquire_cases(2) [of _ l]
    by (auto simp: noise_keypair_lookup_def acquire_keypair_def split: option.split index_ref.split)
  with 17 show ?case by (rule same_shape_inv)
next
  case (18 l r now)
  have "same_shape l (snd (noise_keypair_current r now l))"
    by (simp add: noise_keypair_current_def acquire_keypair_def same_shape_def split: option.split)
  with 18 show ?case by (rule same_shape_inv)
next
  case (14 l r psk)
  then show ?case
    by (rule same_shape_inv) (simp add: noise_remote_set_psk_def same_shape_def split: option.split)
next
  case (23 l k)
  then show ?case by (rule same_shape_inv) (simp add: same_shape_def nonce_shape)
next
  case (24 l k recv)
  then show ?case by (rule same_shape_inv) (simp add: same_shape_def nonce_shape)
qed (auto intro: local_private_inv remote_alloc_inv remote_enable_inv remote_disable_inv remote_free_inv
    handshake_clear_inv keypairs_clear_inv received_with_inv create_initiation_inv consume_initiation_inv
    create_response_inv consume_response_inv counts_inv
    simp: noise_remote_local_def noise_keypair_remote_def)

lemma noise_reach_inv: "noise_reach cv l \<Longrightarrow> noise_inv l"
  by (induction rule: noise_reach.induct) (auto intro: local_alloc_inv noise_step_inv)

text \<open>C14: in every state that calls of the interface can reach, the tables are consistent: no
  object is linked twice, every linked object stands in the bucket of its local index, no two
  linked objects share a local index, a remote is linked exactly while its handshake is pending, a
  keypair exactly while it is in a slot of its remote, a remote's slots hold distinct keypairs, and
  the table of remotes holds exactly the enabled ones, which \<^verbatim>\<open>l_remote_num\<close> counts.\<close>

theorem noise_tables_consistent:
  assumes "noise_reach cv l"
  shows "index_ok l \<and> link_ok l \<and> slot_ok l \<and> remote_ok l"
  using noise_reach_inv [OF assms] by (simp add: noise_inv_def)

definition demo_curve :: curve where
  "demo_curve = \<lparr>c_clamp = (\<lambda>b. b), c_dh = (\<lambda>a b. (xor_bytes a b, True)), c_pub = (\<lambda>a. (a, True))\<rparr>"

lemma demo_reach:
  "noise_reach demo_curve (snd (noise_remote_enable 0 (snd (noise_remote_alloc demo_curve
     (noise_local_alloc 0 (replicate 16 0)) 7 (replicate 32 9)))))"
  by (rule noise_reach.step [OF noise_reach.step [OF noise_reach.init]], rule noise_step.intros(5),
      rule noise_step.intros(6)) (simp add: noise_remote_alloc_def noise_local_alloc_def Let_def noise_precompute_ss_def
        noise_local_ref_def split: prod.split)

theorem noise_tables_consistent_witness:
  "remote_ok (snd (noise_remote_enable 0 (snd (noise_remote_alloc demo_curve
     (noise_local_alloc 0 (replicate 16 0)) 7 (replicate 32 9)))))"
  using noise_tables_consistent [OF demo_reach] by simp

lemma find_Some_iff_unique:
  assumes "\<And>x y. x \<in> set xs \<Longrightarrow> y \<in> set xs \<Longrightarrow> P x \<Longrightarrow> P y \<Longrightarrow> x = y"
  shows "List.find P xs = Some x \<longleftrightarrow> x \<in> set xs \<and> P x"
  using assms by (induction xs) auto

lemma index_find:
  assumes "index_ok l"
  shows "List.find (\<lambda>i. i_local_index (ref_index l i) = d) (l_index_hash l (index_bucket d)) = Some i
    \<longleftrightarrow> linked l i \<and> idx l i = d"
proof -
  have "List.find (\<lambda>i. idx l i = d) (l_index_hash l (index_bucket d)) = Some i
      \<longleftrightarrow> i \<in> set (l_index_hash l (index_bucket d)) \<and> idx l i = d"
    using index_okD(2,3) [OF assms] by (intro find_Some_iff_unique) blast
  then show ?thesis using index_okD(2) [OF assms] by (auto simp: idx_def)
qed

lemma keypair_lookup_parts:
  assumes "noise_reach cv l"
  shows "fst (noise_keypair_lookup l i) = Some k \<longleftrightarrow>
      k \<in> set (slots (remotes l (kp_remote (keypairs l k)))) \<and> i_local_index (kp_index (keypairs l k)) = i \<and>
      kp_refcnt (keypairs l k) \<noteq> 0"
    and "snd (noise_keypair_lookup l i) =
      (case fst (noise_keypair_lookup l i) of None \<Rightarrow> l | Some k \<Rightarrow> noise_keypair_ref k l)"
proof -
  have inv: "index_ok l" "link_ok l" "slot_ok l" using noise_reach_inv [OF assms] by (simp_all add: noise_inv_def)
  have kp: "i_is_keypair (ref_index l j) \<longleftrightarrow> (\<exists>k. j = IdxKeypair k)" if "linked l j" for j
    using inv(2,3) that by (cases j) (auto simp: ref_index_def link_ok_def slot_ok_def)
  have f: "List.find (\<lambda>j. i_local_index (ref_index l j) = i \<and> i_is_keypair (ref_index l j)) (l_index_hash l (index_bucket i)) = Some j
      \<longleftrightarrow> linked l j \<and> idx l j = i \<and> i_is_keypair (ref_index l j)" for j
  proof -
    have "List.find (\<lambda>j. idx l j = i \<and> i_is_keypair (ref_index l j)) (l_index_hash l (index_bucket i)) = Some j
        \<longleftrightarrow> j \<in> set (l_index_hash l (index_bucket i)) \<and> idx l j = i \<and> i_is_keypair (ref_index l j)"
      using index_okD(2,3) [OF inv(1)] by (intro find_Some_iff_unique) blast
    then show ?thesis using index_okD(2) [OF inv(1)] by (auto simp: idx_def)
  qed
  have s: "linked l (IdxKeypair k) \<longleftrightarrow> k \<in> set (slots (remotes l (kp_remote (keypairs l k))))" for k
    using inv(2,3) by (auto simp: link_ok_def slot_ok_def)
  let ?F = "List.find (\<lambda>j. i_local_index (ref_index l j) = i \<and> i_is_keypair (ref_index l j)) (l_index_hash l (index_bucket i))"
  show "fst (noise_keypair_lookup l i) = Some k \<longleftrightarrow>
      k \<in> set (slots (remotes l (kp_remote (keypairs l k)))) \<and> i_local_index (kp_index (keypairs l k)) = i \<and>
      kp_refcnt (keypairs l k) \<noteq> 0"
  proof (cases "?F = Some (IdxKeypair k)")
    case True
    then show ?thesis using f [of "IdxKeypair k"] s [of k]
      by (simp add: noise_keypair_lookup_def acquire_keypair_def idx_def ref_index_def)
  next
    case False
    then have "\<not> (linked l (IdxKeypair k) \<and> idx l (IdxKeypair k) = i)" using f [of "IdxKeypair k"] kp by blast
    moreover have "fst (noise_keypair_lookup l i) \<noteq> Some k"
      using False by (auto simp: noise_keypair_lookup_def acquire_keypair_def split: option.split index_ref.split)
    ultimately show ?thesis using s [of k] by (auto simp: idx_def ref_index_def)
  qed
  show "snd (noise_keypair_lookup l i) =
      (case fst (noise_keypair_lookup l i) of None \<Rightarrow> l | Some k \<Rightarrow> noise_keypair_ref k l)"
    by (auto simp: noise_keypair_lookup_def acquire_keypair_def split: option.split index_ref.split)
qed

text \<open>\<^verbatim>\<open>noise_keypair_lookup\<close> finds a keypair by a local index exactly when one with that
  index is in a slot of its remote and still has a reference; it then takes one more reference, and
  a failed lookup changes nothing. At most one keypair can be found under an index.\<close>

theorem keypair_lookup_exact:
  assumes "noise_reach cv l"
  shows "(fst (noise_keypair_lookup l i) = Some k \<longleftrightarrow>
      k \<in> set (slots (remotes l (kp_remote (keypairs l k)))) \<and> i_local_index (kp_index (keypairs l k)) = i \<and>
      kp_refcnt (keypairs l k) \<noteq> 0) \<and>
    snd (noise_keypair_lookup l i) =
      (case fst (noise_keypair_lookup l i) of None \<Rightarrow> l | Some k \<Rightarrow> noise_keypair_ref k l)"
  using keypair_lookup_parts [OF assms] by blast

theorem keypair_lookup_exact_witness:
  "fst (noise_keypair_lookup (snd (noise_remote_enable 0 (snd (noise_remote_alloc demo_curve
     (noise_local_alloc 0 (replicate 16 0)) 7 (replicate 32 9))))) 5) \<noteq> Some 3"
  using keypair_lookup_exact [OF demo_reach, of 5 3]
  by (simp add: noise_remote_enable_def noise_remote_alloc_def noise_local_alloc_def Let_def noise_precompute_ss_def
      noise_local_ref_def zero_keypair_def zero_remote_def slots_def demo_curve_def)

subsection \<open>Drawing an index ends\<close>

lemma assign_id_None:
  "assign_id r ds l = None \<Longrightarrow> IdxRemote r \<notin> (\<Union>b. set (l_index_hash l b)) \<Longrightarrow>
   \<forall>d \<in> set ds. \<exists>i. linked l i \<and> idx l i = d"
proof (induction ds arbitrary: l)
  case (Cons d ds)
  let ?m = "upd_remote r (r_index_update (i_local_index_update (\<lambda>_. d))) l"
  have other: "i \<noteq> IdxRemote r \<Longrightarrow> idx ?m i = idx l i" for i
    by (cases i) (simp_all add: idx_def ref_index_def)
  have nl: "\<not> linked l (IdxRemote r)" using Cons.prems(2) by (auto simp: linked_def)
  have ex: "list_ex (\<lambda>i. i_local_index (ref_index ?m i) = d) (l_index_hash l (index_bucket d))"
    using Cons.prems(1) by (simp add: Let_def split: if_splits)
  then obtain i where i: "i \<in> set (l_index_hash l (index_bucket d))" "idx ?m i = d"
    by (auto simp: list_ex_iff idx_def)
  then have "linked l i" by (auto simp: linked_def)
  moreover from this have "idx l i = d" using i(2) other nl by metis
  ultimately have "\<exists>i. linked l i \<and> idx l i = d" by blast
  moreover have "assign_id r ds ?m = None" using Cons.prems(1) ex by (simp add: Let_def)
  then have "\<forall>d \<in> set ds. \<exists>i. linked ?m i \<and> idx ?m i = d" using Cons.prems(2) by (intro Cons.IH) simp_all
  then have "\<forall>d \<in> set ds. \<exists>i. linked l i \<and> idx l i = d" using other nl by (metis linked_upd(1))
  ultimately show ?case by simp
qed simp

lemma linked_card:
  assumes "noise_inv l"
  shows "finite {i. linked l i}" "card {i. linked l i} \<le> next_remote l + next_keypair l"
proof -
  have sub: "{i. linked l i} \<subseteq> IdxRemote ` {..<next_remote l} \<union> IdxKeypair ` {..<next_keypair l}"
  proof
    fix i assume "i \<in> {i. linked l i}"
    then have i: "linked l i" by simp
    show "i \<in> IdxRemote ` {..<next_remote l} \<union> IdxKeypair ` {..<next_keypair l}"
    proof (cases i)
      case (IdxRemote r)
      then have "r_handshake_state (remotes l r) \<noteq> HANDSHAKE_DEAD"
        using assms i by (simp add: noise_inv_def link_ok_def)
      then have "\<not> next_remote l \<le> r" using assms by (auto simp: noise_inv_def fresh_ok_def)
      then show ?thesis using IdxRemote by simp
    next
      case (IdxKeypair k)
      then show ?thesis using assms i by (auto simp: noise_inv_def link_ok_def slot_ok_def)
    qed
  qed
  show "finite {i. linked l i}" by (rule finite_subset [OF sub]) simp
  have "card {i. linked l i} \<le> card (IdxRemote ` {..<next_remote l} \<union> IdxKeypair ` {..<next_keypair l})"
    by (rule card_mono [OF _ sub]) simp
  also have "\<dots> \<le> card (IdxRemote ` {..<next_remote l}) + card (IdxKeypair ` {..<next_keypair l})"
    by (rule card_Un_le)
  also have "\<dots> \<le> next_remote l + next_keypair l"
    using card_image_le [of "{..<next_remote l}" IdxRemote] card_image_le [of "{..<next_keypair l}" IdxKeypair]
    by simp
  finally show "card {i. linked l i} \<le> next_remote l + next_keypair l" .
qed

lemma index_insert_total:
  assumes i: "noise_inv l" and d: "distinct draws" "next_remote l + next_keypair l < length draws"
  shows "\<exists>l' rest. noise_remote_index_insert r draws l = Some (l', rest)"
proof (rule ccontr)
  assume no: "\<not> (\<exists>l' rest. noise_remote_index_insert r draws l = Some (l', rest))"
  define m where "m = snd (noise_remote_index_remove r l)"
  have none: "assign_id r draws m = None"
    using no by (cases "assign_id r draws m") (auto simp: noise_remote_index_insert_def m_def)
  have im: "noise_inv m" "\<not> linked m (IdxRemote r)"
    using index_remove_inv [OF i, of r] by (simp_all add: m_def noise_inv_def link_ok_def)
  have cnt: "next_remote m = next_remote l" "next_keypair m = next_keypair l"
    by (simp_all add: m_def noise_remote_index_remove_def)
  have "set draws \<subseteq> idx m ` {i. linked m i}"
  proof
    fix d assume "d \<in> set draws"
    moreover have "IdxRemote r \<notin> (\<Union>b. set (l_index_hash m b))" using im(2) by (auto simp: linked_def)
    ultimately obtain i where "linked m i" "idx m i = d" using assign_id_None [OF none] by blast
    then show "d \<in> idx m ` {i. linked m i}" by blast
  qed
  then have "card (set draws) \<le> card (idx m ` {i. linked m i})"
    using linked_card(1) [OF im(1)] by (intro card_mono) auto
  also have "\<dots> \<le> card {i. linked m i}" by (rule card_image_le [OF linked_card(1) [OF im(1)]])
  also have "\<dots> \<le> next_remote l + next_keypair l" using linked_card(2) [OF im(1)] by (simp add: cnt)
  finally show False using d by (simp add: distinct_card)
qed

text \<open>The loop that draws a local index ends: once the generator has returned more different
  values than there are remotes and keypairs, one of them was unused. The remote is then linked
  under an index that no other linked object has.\<close>

theorem index_insert_terminates:
  assumes "noise_reach cv l" "distinct draws" "next_remote l + next_keypair l < length draws" "r < next_remote l"
  shows "\<exists>l' rest. noise_remote_index_insert r draws l = Some (l', rest) \<and> linked l' (IdxRemote r) \<and>
    idx l' (IdxRemote r) \<in> set draws \<and> (\<forall>i. linked l' i \<longrightarrow> i \<noteq> IdxRemote r \<longrightarrow> idx l' i \<noteq> idx l' (IdxRemote r))"
proof -
  have inv: "noise_inv l" by (rule noise_reach_inv [OF assms(1)])
  obtain l' rest where ins: "noise_remote_index_insert r draws l = Some (l', rest)"
    using index_insert_total [OF inv assms(2,3)] by blast
  let ?p = "upd_remote r (r_handshake_state_update (\<lambda>_. HANDSHAKE_INITIATOR)) l'"
  have p: "noise_inv ?p" by (rule index_insert_inv [OF inv assms(4) ins]) simp
  have id: "idx ?p = idx l'" by (rule idx_upd_remote) simp
  have ok: "index_ok ?p" and "link_ok ?p" using p by (simp_all add: noise_inv_def)
  then have lk: "linked l' (IdxRemote r)" by (simp add: link_ok_def)
  obtain d where "l' = (upd_remote r (r_index_update (i_local_index_update (\<lambda>_. d))) (snd (noise_remote_index_remove r l)))
      \<lparr>l_index_hash := CK_LIST_INSERT_HEAD (index_bucket d) (IdxRemote r) (l_index_hash (snd (noise_remote_index_remove r l)))\<rparr>"
    "d \<in> set draws"
    using assign_id_cases ins unfolding noise_remote_index_insert_def by blast
  then have "idx l' (IdxRemote r) \<in> set draws" by (simp add: idx_def ref_index_def)
  moreover have "idx l' i \<noteq> idx l' (IdxRemote r)" if "linked l' i" "i \<noteq> IdxRemote r" for i
    using index_okD(3) [OF ok, of i "IdxRemote r"] that lk by (auto simp: id)
  ultimately show ?thesis using ins lk by blast
qed

theorem index_insert_terminates_witness:
  "\<exists>l' rest. noise_remote_index_insert 0 [4, 7, 8] (snd (noise_remote_enable 0 (snd (noise_remote_alloc demo_curve
     (noise_local_alloc 0 (replicate 16 0)) 7 (replicate 32 9))))) = Some (l', rest)"
  using index_insert_terminates [OF demo_reach, of "[4, 7, 8]" 0]
  by (auto simp: noise_remote_enable_def noise_remote_alloc_def noise_local_alloc_def Let_def noise_precompute_ss_def
      noise_local_ref_def demo_curve_def)

subsection \<open>Taking and returning a reference\<close>

lemma put_ref_remote: "r_refcnt (remotes l r) \<noteq> 0 \<Longrightarrow> noise_remote_put r (noise_remote_ref r l) = l"
  by (simp add: noise_remote_put_def noise_remote_ref_def refcount_release_def Let_def upd_remote_def)

lemma acquired_ref:
  "acquire_remote r l = (Some x, l') \<Longrightarrow> x = r \<and> l' = noise_remote_ref r l \<and> r_refcnt (remotes l r) \<noteq> 0"
  by (auto simp: acquire_remote_def split: if_splits)

lemma lookup_ref:
  "noise_remote_lookup l pk = (Some r, l') \<Longrightarrow> l' = noise_remote_ref r l \<and> r_refcnt (remotes l r) \<noteq> 0"
  "noise_remote_lookup l pk = (None, l') \<Longrightarrow> l' = l"
  by (auto simp: noise_remote_lookup_def acquire_remote_def split: option.splits if_splits)

lemma index_lookup_ref:
  "noise_remote_index_lookup l i b = (Some r, l') \<Longrightarrow> l' = noise_remote_ref r l \<and> r_refcnt (remotes l r) \<noteq> 0"
  "noise_remote_index_lookup l i b = (None, l') \<Longrightarrow> l' = l"
  by (auto simp: noise_remote_index_lookup_def acquire_remote_def split: option.splits index_ref.splits if_splits)

lemma read_initiation_ref:
  "read_initiation cv ue es ets l = (Some r, x, l') \<Longrightarrow> l' = noise_remote_ref r l \<and> r_refcnt (remotes l r) \<noteq> 0"
  "read_initiation cv ue es ets l = (None, x, l') \<Longrightarrow> l' = l \<and> x = None"
  by (auto simp: read_initiation_def Let_def split: prod.splits option.splits dest: lookup_ref)

end
