(* ===== verification/Agreement.thy ===== *)
theory Agreement
  imports NoiseInv
begin

text \<open>
  What a complete handshake between two instances of \<open>noise_local\<close> achieves, what a replayed or
  forged handshake message does, and how keypairs move through the slots of a remote.

  The curve is a parameter; \<open>curve_commutes\<close> is the documented property of X25519 that both
  sides of a Diffie-Hellman exchange compute the same shared secret.
\<close>

subsection \<open>Both sides compute the same transcript\<close>

definition curve_commutes :: "curve \<Rightarrow> bool" where
  "curve_commutes cv \<longleftrightarrow>
     (\<forall>a b A B. c_pub cv a = (A, True) \<longrightarrow> c_pub cv b = (B, True) \<longrightarrow> c_dh cv a B = c_dh cv b A)"

lemma set_hs_frame [simp]:
  "l_index_hash (set_hs r ck h l) = l_index_hash l" "l_remote_hash (set_hs r ck h l) = l_remote_hash l"
  "l_remote_num (set_hs r ck h l) = l_remote_num l" "next_remote (set_hs r ck h l) = next_remote l"
  "next_keypair (set_hs r ck h l) = next_keypair l" "l_hash_key (set_hs r ck h l) = l_hash_key l"
  "l_public (set_hs r ck h l) = l_public l" "l_private (set_hs r ck h l) = l_private l"
  "l_has_identity (set_hs r ck h l) = l_has_identity l" "l_arg (set_hs r ck h l) = l_arg l"
  "r_index (remotes (set_hs r ck h l) x) = r_index (remotes l x)" "r_entry_inserted (remotes (set_hs r ck h l) x) = r_entry_inserted (remotes l x)"
  "r_public (remotes (set_hs r ck h l) x) = r_public (remotes l x)" "r_handshake_state (remotes (set_hs r ck h l) x) = r_handshake_state (remotes l x)"
  "r_last_sent (remotes (set_hs r ck h l) x) = r_last_sent (remotes l x)" "r_last_init_recv (remotes (set_hs r ck h l) x) = r_last_init_recv (remotes l x)"
  "r_timestamp (remotes (set_hs r ck h l) x) = r_timestamp (remotes l x)" "r_psk (remotes (set_hs r ck h l) x) = r_psk (remotes l x)"
  "r_ss (remotes (set_hs r ck h l) x) = r_ss (remotes l x)" "r_arg (remotes (set_hs r ck h l) x) = r_arg (remotes l x)"
  "r_next (remotes (set_hs r ck h l) x) = r_next (remotes l x)" "r_current (remotes (set_hs r ck h l) x) = r_current (remotes l x)"
  "r_previous (remotes (set_hs r ck h l) x) = r_previous (remotes l x)" "kp_index (keypairs (set_hs r ck h l) x) = kp_index (keypairs l x)"
  "kp_remote (keypairs (set_hs r ck h l) x) = kp_remote (keypairs l x)" "kp_can_send (keypairs (set_hs r ck h l) x) = kp_can_send (keypairs l x)"
  "kp_is_initiator (keypairs (set_hs r ck h l) x) = kp_is_initiator (keypairs l x)" "kp_birthdate (keypairs (set_hs r ck h l) x) = kp_birthdate (keypairs l x)"
  "kp_send (keypairs (set_hs r ck h l) x) = kp_send (keypairs l x)" "kp_recv (keypairs (set_hs r ck h l) x) = kp_recv (keypairs l x)"
  "kp_nonce_send (keypairs (set_hs r ck h l) x) = kp_nonce_send (keypairs l x)" "kp_nonce_recv (keypairs (set_hs r ck h l) x) = kp_nonce_recv (keypairs l x)"
  "kp_backtrack (keypairs (set_hs r ck h l) x) = kp_backtrack (keypairs l x)"
  by (simp_all add: set_hs_def)

lemma set_hs_e_frame [simp]:
  "l_index_hash (set_hs_e r e l) = l_index_hash l" "l_remote_hash (set_hs_e r e l) = l_remote_hash l"
  "l_remote_num (set_hs_e r e l) = l_remote_num l" "next_remote (set_hs_e r e l) = next_remote l"
  "next_keypair (set_hs_e r e l) = next_keypair l" "l_hash_key (set_hs_e r e l) = l_hash_key l"
  "l_public (set_hs_e r e l) = l_public l" "l_private (set_hs_e r e l) = l_private l"
  "l_has_identity (set_hs_e r e l) = l_has_identity l" "l_arg (set_hs_e r e l) = l_arg l"
  "r_index (remotes (set_hs_e r e l) x) = r_index (remotes l x)" "r_entry_inserted (remotes (set_hs_e r e l) x) = r_entry_inserted (remotes l x)"
  "r_public (remotes (set_hs_e r e l) x) = r_public (remotes l x)" "r_handshake_state (remotes (set_hs_e r e l) x) = r_handshake_state (remotes l x)"
  "r_last_sent (remotes (set_hs_e r e l) x) = r_last_sent (remotes l x)" "r_last_init_recv (remotes (set_hs_e r e l) x) = r_last_init_recv (remotes l x)"
  "r_timestamp (remotes (set_hs_e r e l) x) = r_timestamp (remotes l x)" "r_psk (remotes (set_hs_e r e l) x) = r_psk (remotes l x)"
  "r_ss (remotes (set_hs_e r e l) x) = r_ss (remotes l x)" "r_arg (remotes (set_hs_e r e l) x) = r_arg (remotes l x)"
  "r_next (remotes (set_hs_e r e l) x) = r_next (remotes l x)" "r_current (remotes (set_hs_e r e l) x) = r_current (remotes l x)"
  "r_previous (remotes (set_hs_e r e l) x) = r_previous (remotes l x)" "kp_index (keypairs (set_hs_e r e l) x) = kp_index (keypairs l x)"
  "kp_remote (keypairs (set_hs_e r e l) x) = kp_remote (keypairs l x)" "kp_can_send (keypairs (set_hs_e r e l) x) = kp_can_send (keypairs l x)"
  "kp_is_initiator (keypairs (set_hs_e r e l) x) = kp_is_initiator (keypairs l x)" "kp_birthdate (keypairs (set_hs_e r e l) x) = kp_birthdate (keypairs l x)"
  "kp_send (keypairs (set_hs_e r e l) x) = kp_send (keypairs l x)" "kp_recv (keypairs (set_hs_e r e l) x) = kp_recv (keypairs l x)"
  "kp_nonce_send (keypairs (set_hs_e r e l) x) = kp_nonce_send (keypairs l x)" "kp_nonce_recv (keypairs (set_hs_e r e l) x) = kp_nonce_recv (keypairs l x)"
  "kp_backtrack (keypairs (set_hs_e r e l) x) = kp_backtrack (keypairs l x)"
  by (simp_all add: set_hs_e_def)

text \<open>The remote \<open>r\<close> of \<open>l\<close> is configured for the party whose private and public keys are
  \<open>private\<close> and \<open>public\<close>.\<close>

definition configured_for :: "curve \<Rightarrow> noise_local \<Rightarrow> nat \<Rightarrow> bytes \<Rightarrow> bool" where
  "configured_for cv l r public \<longleftrightarrow> l_has_identity l \<and> c_pub cv (l_private l) = (l_public l, True) \<and>
     r_public (remotes l r) = public \<and> r_ss (remotes l r) = fst (c_dh cv (l_private l) public)"

lemma mix_dh_commutes:
  assumes "curve_commutes cv" "c_pub cv a = (A, True)" "c_pub cv b = (B, True)"
  shows "noise_mix_dh cv n ck a B = noise_mix_dh cv n ck b A"
proof -
  have "c_dh cv a B = c_dh cv b A" using assms unfolding curve_commutes_def by blast
  then show ?thesis by (simp add: noise_mix_dh_def)
qed

lemma write_read_initiation:
  assumes cv: "curve_commutes cv" and ci: "configured_for cv li ri (l_public lr)" and cr: "configured_for cv lr rr (l_public li)"
    and w: "write_initiation cv ri time rnd li = (Some (ue, es, ets), li1)"
    and lk: "noise_remote_lookup lr (l_public li) = (Some rr, lr1)"
  shows "\<exists>ck h. read_initiation cv ue es ets lr =
           (Some rr, Some (noise_tai64n_now (fst time) (snd time), \<lparr>hs_e = ue, hs_hash = h, hs_ck = ck\<rparr>), lr1) \<and>
         r_handshake (remotes li1 ri) = \<lparr>hs_e = generate_secret cv rnd, hs_hash = h, hs_ck = ck\<rparr> \<and>
         c_pub cv (generate_secret cv rnd) = (ue, True)"
proof -
  let ?e = "generate_secret cv rnd"
  obtain ck0 h0 where p: "noise_param_init (l_public lr) = (ck0, h0)" by (metis surj_pair)
  have rp: "r_public (remotes li ri) = l_public lr" using ci by (simp add: configured_for_def)
  obtain u ok where u: "c_pub cv ?e = (u, ok)" by (metis surj_pair)
  have pub: "c_pub cv ?e = (ue, True)"
    using w by (auto simp: write_initiation_def Let_def u split: if_splits option.splits prod.splits)
  obtain ck1 h1 where e: "noise_msg_ephemeral ck0 h0 ue = (ck1, h1)" by (metis surj_pair)
  obtain ck2 key2 where d: "noise_mix_dh cv NOISE_SYMMETRIC_KEY_LEN ck1 ?e (l_public lr) = Some (ck2, key2)"
    using w by (auto simp: write_initiation_def Let_def p rp pub e case_prod_unfold split: option.splits)
  obtain es' h2 where s: "noise_msg_encrypt (l_public li) key2 h1 = (es', h2)" by (metis surj_pair)
  obtain ck3 key3 where ss: "noise_mix_ss ck2 (r_ss (remotes li ri)) = Some (ck3, key3)"
    using w by (auto simp: write_initiation_def Let_def p rp pub e d s case_prod_unfold split: option.splits)
  let ?ts = "noise_tai64n_now (fst time) (snd time)"
  obtain ets' h3 where t: "noise_msg_encrypt ?ts key3 h2 = (ets', h3)" by (metis surj_pair)
  have out: "es = es'" "ets = ets'" "li1 = set_hs ri ck3 h3 (set_hs_e ri ?e (set_hs ri ck0 h0 li))"
    using w by (simp_all add: write_initiation_def Let_def p rp pub e d s ss t)
  have d': "noise_mix_dh cv NOISE_SYMMETRIC_KEY_LEN ck1 (l_private lr) ue = Some (ck2, key2)"
    using mix_dh_commutes [OF cv pub, of "l_private lr" "l_public lr"] cr d by (simp add: configured_for_def)
  have s': "noise_msg_decrypt es' key2 h1 = Some (l_public li, h2)"
    using s by (simp add: msg_decrypt_iff)
  have t': "noise_msg_decrypt ets' key3 h2 = Some (?ts, h3)"
    using t by (simp add: msg_decrypt_iff)
  have rs: "r_ss (remotes lr1 rr) = r_ss (remotes lr rr)"
    using lk acquire_cases(1) [of _ lr] by (auto simp: noise_remote_lookup_def acquire_remote_def split: option.splits if_splits)
  have "c_dh cv (l_private li) (l_public lr) = c_dh cv (l_private lr) (l_public li)"
    using cv ci cr unfolding curve_commutes_def configured_for_def by blast
  then have ss': "noise_mix_ss ck2 (r_ss (remotes lr1 rr)) = Some (ck3, key3)"
    using ss ci cr rs by (simp add: configured_for_def)
  have "read_initiation cv ue es ets lr = (Some rr, Some (?ts, \<lparr>hs_e = ue, hs_hash = h3, hs_ck = ck3\<rparr>), lr1)"
    by (simp add: read_initiation_def Let_def p e d' out(1,2) s' lk ss' t')
  moreover have "r_handshake (remotes li1 ri) = \<lparr>hs_e = ?e, hs_hash = h3, hs_ck = ck3\<rparr>"
    by (simp add: out(3) set_hs_def set_hs_e_def)
  ultimately show ?thesis using pub by blast
qed

lemma write_read_response:
  assumes cv: "curve_commutes cv"
    and e1: "c_pub cv e1 = (ue1, True)" and si: "c_pub cv private = (r_public (remotes lr rr), True)"
    and hr: "r_handshake (remotes lr rr) = \<lparr>hs_e = ue1, hs_hash = h, hs_ck = ck\<rparr>"
    and w: "write_response cv rr rnd lr = (Some (ue, en), lr1)"
  shows "\<exists>hs. read_response cv \<lparr>hs_e = e1, hs_hash = h, hs_ck = ck\<rparr> private (r_psk (remotes lr rr)) ue en = Some hs \<and>
           hs_ck hs = hs_ck (r_handshake (remotes lr1 rr))"
proof -
  let ?e = "generate_secret cv rnd"
  obtain u ok where u: "c_pub cv ?e = (u, ok)" by (metis surj_pair)
  have pub: "c_pub cv ?e = (ue, True)"
    using w by (auto simp: write_response_def Let_def u split: if_splits option.splits prod.splits)
  obtain ck1 h1 where e: "noise_msg_ephemeral ck h ue = (ck1, h1)" by (metis surj_pair)
  obtain ck2 k2 where d: "noise_mix_dh cv 0 ck1 ?e ue1 = Some (ck2, k2)"
    using w by (auto simp: write_response_def Let_def pub hr e case_prod_unfold split: option.splits)
  obtain ck3 k3 where d2: "noise_mix_dh cv 0 ck2 ?e (r_public (remotes lr rr)) = Some (ck3, k3)"
    using w by (auto simp: write_response_def Let_def pub hr e d case_prod_unfold split: option.splits)
  obtain ck4 h4 key where k: "noise_mix_psk ck3 h1 (r_psk (remotes lr rr)) = (ck4, h4, key)" by (metis prod_cases3)
  obtain en' h5 where n: "noise_msg_encrypt [] key h4 = (en', h5)" by (metis surj_pair)
  have out: "en = en'" "lr1 = set_hs rr ck4 h5 lr"
    using w by (simp_all add: write_response_def Let_def pub hr e d d2 k n)
  have "noise_mix_dh cv 0 ck1 e1 ue = Some (ck2, k2)" "noise_mix_dh cv 0 ck2 private ue = Some (ck3, k3)"
    using mix_dh_commutes [OF cv pub e1] mix_dh_commutes [OF cv pub si] d d2 by simp_all
  moreover have "noise_msg_decrypt en' key h4 = Some ([], h5)" using n by (simp add: msg_decrypt_iff)
  ultimately show ?thesis by (simp add: read_response_def Let_def e k out set_hs_def)
qed

subsection \<open>The new keypair\<close>

text \<open>What a new session leaves behind, whichever side: the keypair in its slot under the index of
  the handshake, the handshake closed.\<close>

definition session_at :: "noise_local \<Rightarrow> nat \<Rightarrow> nat \<Rightarrow> sbintime \<Rightarrow> bool \<Rightarrow> u32 \<Rightarrow> u32 \<Rightarrow> bool" where
  "session_at l r k now initiator local_index remote_index \<longleftrightarrow>
     kp_index (keypairs l k) = \<lparr>i_local_index = local_index, i_remote_index = remote_index, i_is_keypair = True\<rparr> \<and>
     kp_remote (keypairs l k) = r \<and> kp_refcnt (keypairs l k) = 1 \<and> kp_can_send (keypairs l k) \<and>
     kp_is_initiator (keypairs l k) = initiator \<and> kp_birthdate (keypairs l k) = now \<and>
     kp_nonce_send (keypairs l k) = 0 \<and> kp_nonce_recv (keypairs l k) = 0 \<and>
     (if initiator then r_current (remotes l r) = Some k \<and> r_next (remotes l r) = None
      else r_next (remotes l r) = Some k \<and> r_previous (remotes l r) = None) \<and>
     r_handshake_state (remotes l r) = HANDSHAKE_DEAD \<and> linked l (IdxKeypair k)"

lemma put_keypairs_other:
  "kp_refcnt (keypairs (noise_keypair_put k l) x) = (if x = k then kp_refcnt (keypairs l k) - 1 else kp_refcnt (keypairs l x))"
  by (simp add: noise_keypair_put_def refcount_release_def Let_def noise_keypair_smr_free_def noise_remote_put_def
      noise_remote_smr_free_def noise_local_put_def)

lemma drop_keypairs_other:
  "kp \<noteq> Some x \<Longrightarrow> kp_refcnt (keypairs (noise_keypair_drop kp l) x) = kp_refcnt (keypairs l x)"
  by (auto simp: noise_keypair_drop_def put_keypairs_other split: option.split)

lemma add_to_slots_refcnt:
  assumes "k \<notin> set (slots (remotes l r))"
  shows "kp_refcnt (keypairs (add_to_slots r k l) k) = kp_refcnt (keypairs l k)"
  using assms by (auto simp: add_to_slots_def Let_def in_slots drop_keypairs_other split: option.split)

lemma begin_session_result:
  assumes i: "noise_inv l" and st: "r_handshake_state (remotes l r) \<noteq> HANDSHAKE_DEAD"
    and b: "noise_begin_session r now alloc_ok l = (OK, l')"
  defines "k \<equiv> next_keypair l"
  shows "session_at l' r k now (r_handshake_state (remotes l r) = HANDSHAKE_INITIATOR)
           (i_local_index (r_index (remotes l r))) (i_remote_index (r_index (remotes l r)))"
    "kp_send (keypairs l' k) = kp_send (session_keypair r now l)"
    "kp_recv (keypairs l' k) = kp_recv (session_keypair r now l)"
    "kp_backtrack (keypairs l' k) = replicate 128 0"
    "r_index (remotes l' x) = r_index (remotes l x)" "r_public (remotes l' x) = r_public (remotes l x)"
proof -
  have ok: "link_ok l" "slot_ok l" using i by (simp_all add: noise_inv_def)
  have ks: "k \<notin> set (slots (remotes l x))" for x using ok(2) by (auto simp: k_def slot_ok_def)
  define m where "m = (noise_remote_ref r l)\<lparr>next_keypair := k + 1, keypairs := (keypairs l)(k := session_keypair r now l)\<rparr>"
  have l': "l' = noise_add_new_keypair r k m" using b by (auto simp: begin_session_eq m_def k_def split: if_splits)
  have km: "keypairs m k = session_keypair r now l" by (simp add: m_def)
  have rm: "r_index (remotes m x) = r_index (remotes l x)" "r_public (remotes m x) = r_public (remotes l x)"
    "r_handshake_state (remotes m x) = r_handshake_state (remotes l x)" "slots (remotes m x) = slots (remotes l x)" for x
    by (simp_all add: m_def slots_def)
  have sk: "kp_refcnt (session_keypair r now l) = 1" "kp_can_send (session_keypair r now l)"
    "kp_is_initiator (session_keypair r now l) = (r_handshake_state (remotes l r) = HANDSHAKE_INITIATOR)"
    "kp_birthdate (session_keypair r now l) = now" "kp_remote (session_keypair r now l) = r"
    "kp_nonce_send (session_keypair r now l) = 0" "kp_nonce_recv (session_keypair r now l) = 0"
    "kp_backtrack (session_keypair r now l) = replicate 128 0"
    by (simp_all add: session_keypair_def Let_def case_prod_unfold zero_keypair_def)
  show "kp_send (keypairs l' k) = kp_send (session_keypair r now l)"
    "kp_recv (keypairs l' k) = kp_recv (session_keypair r now l)"
    "kp_backtrack (keypairs l' k) = replicate 128 0"
    "r_index (remotes l' x) = r_index (remotes l x)" "r_public (remotes l' x) = r_public (remotes l x)"
    by (simp_all add: l' noise_add_new_keypair_def Let_def km sk rm)
  have inv': "noise_inv l'" using begin_session_inv [OF i st, of now alloc_ok] b by simp
  have slots': "(if kp_is_initiator (keypairs m k) then r_current (remotes l' r) = Some k \<and> r_next (remotes l' r) = None
      else r_next (remotes l' r) = Some k \<and> r_previous (remotes l' r) = None)"
    by (simp add: l' noise_add_new_keypair_def Let_def add_to_slots_slots)
  then have "k \<in> set (slots (remotes l' r))" by (auto simp: in_slots split: if_splits)
  then have "linked l' (IdxKeypair k)" using inv' by (auto simp: noise_inv_def link_ok_def)
  moreover have "kp_refcnt (keypairs l' k) = 1"
    using add_to_slots_refcnt [of k m r] ks by (simp add: l' noise_add_new_keypair_def Let_def rm km sk)
  ultimately show "session_at l' r k now (r_handshake_state (remotes l r) = HANDSHAKE_INITIATOR)
           (i_local_index (r_index (remotes l r))) (i_remote_index (r_index (remotes l r)))"
    using slots' by (simp add: session_at_def km sk)
      (simp add: l' noise_add_new_keypair_def Let_def rm km sk)
qed

lemma keypairs_remote_put [simp]: "keypairs (noise_remote_put r l) = keypairs l"
  by (simp add: noise_remote_put_def noise_remote_smr_free_def noise_local_put_def refcount_release_def Let_def)

lemma session_at_cong:
  assumes "session_at l r k now i a b" "keypairs l' = keypairs l" "l_index_hash l' = l_index_hash l"
    "r_current (remotes l' r) = r_current (remotes l r)" "r_next (remotes l' r) = r_next (remotes l r)"
    "r_previous (remotes l' r) = r_previous (remotes l r)"
    "r_handshake_state (remotes l' r) = r_handshake_state (remotes l r)"
  shows "session_at l' r k now i a b"
  using assms by (simp add: session_at_def linked_def)

subsection \<open>Successful handshake functions\<close>

lemma index_insert_frame:
  assumes "noise_remote_index_insert r ds l = Some (l', rest)"
  shows "keypairs l' = keypairs l" "l_private l' = l_private l" "l_has_identity l' = l_has_identity l"
    "l_public l' = l_public l"
    "r_handshake (remotes l' x) = r_handshake (remotes l x)" "r_public (remotes l' x) = r_public (remotes l x)"
    "r_psk (remotes l' x) = r_psk (remotes l x)" "r_ss (remotes l' x) = r_ss (remotes l x)"
    "r_refcnt (remotes l' x) = r_refcnt (remotes l x)" "r_timestamp (remotes l' x) = r_timestamp (remotes l x)"
    "r_last_init_recv (remotes l' x) = r_last_init_recv (remotes l x)"
    "next_remote l' = next_remote l" "l_remote_hash l' = l_remote_hash l" "l_hash_key l' = l_hash_key l"
    "r_arg (remotes l' x) = r_arg (remotes l x)"
proof -
  define m where "m = snd (noise_remote_index_remove r l)"
  obtain d where "l' = (upd_remote r (r_index_update (i_local_index_update (\<lambda>_. d))) m)
      \<lparr>l_index_hash := CK_LIST_INSERT_HEAD (index_bucket d) (IdxRemote r) (l_index_hash m)\<rparr>"
    using assign_id_cases assms unfolding noise_remote_index_insert_def m_def by blast
  then show "keypairs l' = keypairs l" "l_private l' = l_private l" "l_has_identity l' = l_has_identity l"
    "l_public l' = l_public l"
    "r_handshake (remotes l' x) = r_handshake (remotes l x)" "r_public (remotes l' x) = r_public (remotes l x)"
    "r_psk (remotes l' x) = r_psk (remotes l x)" "r_ss (remotes l' x) = r_ss (remotes l x)"
    "r_refcnt (remotes l' x) = r_refcnt (remotes l x)" "r_timestamp (remotes l' x) = r_timestamp (remotes l x)"
    "r_last_init_recv (remotes l' x) = r_last_init_recv (remotes l x)" "next_remote l' = next_remote l"
    "l_remote_hash l' = l_remote_hash l" "l_hash_key l' = l_hash_key l" "r_arg (remotes l' x) = r_arg (remotes l x)"
    by (simp_all add: m_def noise_remote_index_remove_def)
qed

lemma create_initiation_ok:
  assumes "noise_create_initiation cv r now time rnd draws l = Some (OK, Some msg, l')"
  shows "\<exists>l1 l2 rest. l_has_identity l \<and> timer_expired now (r_last_sent (remotes l r)) REKEY_TIMEOUT 0 \<and>
    write_initiation cv r time rnd l = (Some (in_ue msg, in_es msg, in_ets msg), l1) \<and>
    noise_remote_index_insert r draws l1 = Some (l2, rest) \<and>
    l' = upd_remote r (\<lambda>x. x\<lparr>r_handshake_state := HANDSHAKE_INITIATOR, r_last_sent := now\<rparr>) l2 \<and>
    in_s_idx msg = i_local_index (r_index (remotes l2 r))"
proof -
  obtain x l1 where w: "write_initiation cv r time rnd l = (x, l1)" by (metis surj_pair)
  then show ?thesis using assms
    by (auto simp: noise_create_initiation_def Let_def split: if_splits option.splits)
qed

lemma write_initiation_frame:
  assumes "write_initiation cv r time rnd l = (x, l1)"
  shows "keypairs l1 = keypairs l" "l_private l1 = l_private l" "l_has_identity l1 = l_has_identity l" "l_public l1 = l_public l"
    "r_refcnt (remotes l1 y) = r_refcnt (remotes l y)" "r_psk (remotes l1 y) = r_psk (remotes l y)"
proof -
  have k: "keypairs (set_hs r a b m) = keypairs m" "keypairs (set_hs_e r a m) = keypairs m"
    "r_refcnt (remotes (set_hs r a b m) y) = r_refcnt (remotes m y)"
    "r_refcnt (remotes (set_hs_e r a m) y) = r_refcnt (remotes m y)" for a b m
    by (simp_all add: set_hs_def set_hs_e_def)
  have "keypairs l1 = keypairs l \<and> l_private l1 = l_private l \<and> l_has_identity l1 = l_has_identity l \<and>
      l_public l1 = l_public l \<and> r_refcnt (remotes l1 y) = r_refcnt (remotes l y) \<and> r_psk (remotes l1 y) = r_psk (remotes l y)"
    using assms by (auto simp: write_initiation_def Let_def k split: prod.splits if_splits option.splits)
  then show "keypairs l1 = keypairs l" "l_private l1 = l_private l" "l_has_identity l1 = l_has_identity l" "l_public l1 = l_public l"
    "r_refcnt (remotes l1 y) = r_refcnt (remotes l y)" "r_psk (remotes l1 y) = r_psk (remotes l y)" by blast+
qed

lemma consume_initiation_ok:
  assumes rd: "read_initiation cv ue es ets l = (Some r, Some (t, hs), l1)" and id: "l_has_identity l"
    and ts: "memcmp t (r_timestamp (remotes l1 r)) > 0"
    and fl: "timer_expired now (r_last_init_recv (remotes l1 r)) 0 REJECT_INTERVAL"
    and c: "noise_consume_initiation cv s_idx ue es ets now draws l = Some (e, ro, l')"
  shows "\<exists>l2 rest. noise_remote_index_insert r draws
        (upd_remote r (r_last_init_recv_update (\<lambda>_. now)) (upd_remote r (r_timestamp_update (\<lambda>_. t)) l1)) = Some (l2, rest) \<and>
      e = OK \<and> ro = Some r \<and>
      l' = noise_remote_put r (noise_remote_ref r (upd_remote r (\<lambda>x. x\<lparr>r_index := (r_index x)\<lparr>i_remote_index := s_idx\<rparr>,
             r_handshake_state := HANDSHAKE_RESPONDER, r_handshake := hs\<rparr>) l2))"
  using c id ts fl by (auto simp: noise_consume_initiation_def rd Let_def split: option.splits)

lemma create_response_ok:
  assumes "noise_create_response cv r now rnd alloc_ok l = (OK, Some msg, l')"
  shows "\<exists>l1 l2. r_handshake_state (remotes l r) = HANDSHAKE_RESPONDER \<and>
    write_response cv r rnd l = (Some (rs_ue msg, rs_en msg), l1) \<and>
    noise_begin_session r now alloc_ok l1 = (OK, l2) \<and> l' = upd_remote r (r_last_sent_update (\<lambda>_. now)) l2 \<and>
    rs_s_idx msg = i_local_index (r_index (remotes l2 r)) \<and> rs_r_idx msg = i_remote_index (r_index (remotes l2 r))"
proof -
  obtain x l1 where w: "write_response cv r rnd l = (x, l1)" by (metis surj_pair)
  obtain ret l2 where b: "noise_begin_session r now alloc_ok l1 = (ret, l2)" by (metis surj_pair)
  show ?thesis using assms w b
    by (auto simp: noise_create_response_def Let_def split: if_splits option.splits)
qed

lemma write_response_frame:
  assumes "write_response cv r rnd l = (x, l1)"
  shows "r_index (remotes l1 y) = r_index (remotes l y)" "r_handshake_state (remotes l1 y) = r_handshake_state (remotes l y)"
    "same_shape l l1"
proof -
  have "r_index (remotes l1 y) = r_index (remotes l y) \<and> r_handshake_state (remotes l1 y) = r_handshake_state (remotes l y)"
    using assms by (auto simp: write_response_def Let_def split: prod.splits if_splits option.splits)
  then show "r_index (remotes l1 y) = r_index (remotes l y)" "r_handshake_state (remotes l1 y) = r_handshake_state (remotes l y)"
    by blast+
  show "same_shape l l1" using write_response_shape [of l cv r rnd] assms by simp
qed

subsection \<open>Agreement\<close>

lemma index_lookup_remote:
  assumes "noise_inv l" "linked l (IdxRemote r)" "idx l (IdxRemote r) = i" "r_refcnt (remotes l r) \<noteq> 0"
  shows "noise_remote_index_lookup l i b = (Some r, noise_remote_ref r l)"
proof -
  have "List.find (\<lambda>j. i_local_index (ref_index l j) = i) (l_index_hash l (index_bucket i)) = Some (IdxRemote r)"
    using index_find [of l i "IdxRemote r"] assms by (simp add: noise_inv_def)
  then show ?thesis using assms(4) by (simp add: noise_remote_index_lookup_def acquire_remote_def)
qed

lemma session_keys:
  "hs_ck (r_handshake (remotes l r)) = hs_ck (r_handshake (remotes l' r')) \<Longrightarrow>
   r_handshake_state (remotes l r) = HANDSHAKE_INITIATOR \<Longrightarrow> r_handshake_state (remotes l' r') \<noteq> HANDSHAKE_INITIATOR \<Longrightarrow>
   kp_send (session_keypair r now l) = kp_recv (session_keypair r' now' l') \<and>
   kp_recv (session_keypair r now l) = kp_send (session_keypair r' now' l')"
  by (simp add: session_keypair_def Let_def split: prod.split)

lemma consume_response_step:
  assumes inv: "noise_inv l" and lk: "linked l (IdxRemote r)" "idx l (IdxRemote r) = i" "r_refcnt (remotes l r) \<noteq> 0"
    and st: "r_handshake_state (remotes l r) = HANDSHAKE_INITIATOR" and id: "l_has_identity l"
    and rd: "read_response cv (r_handshake (remotes l r)) (l_private l) (r_psk (remotes l r)) ue en = Some hs"
  shows "\<exists>m l'. noise_consume_response cv s_idx i ue en now True l = (OK, Some r, l') \<and>
     noise_inv m \<and> r_handshake_state (remotes m r) = HANDSHAKE_INITIATOR \<and> r_handshake (remotes m r) = hs \<and>
     i_local_index (r_index (remotes m r)) = i \<and> i_remote_index (r_index (remotes m r)) = s_idx \<and>
     next_keypair m = next_keypair l \<and>
     l' = noise_remote_put r (noise_remote_ref r (snd (noise_begin_session r now True m)))"
proof -
  define m where "m = upd_remote r (\<lambda>x. x\<lparr>r_handshake := hs, r_index := (r_index x)\<lparr>i_remote_index := s_idx\<rparr>\<rparr>)
      (noise_remote_ref r l)"
  have m: "noise_inv m" by (rule same_shape_inv [OF inv]) (simp add: m_def same_shape_def)
  have i: "i_local_index (r_index (remotes l r)) = i" using lk(2) by (simp add: idx_def ref_index_def)
  obtain l2 where b: "noise_begin_session r now True m = (OK, l2)" by (simp add: begin_session_eq)
  have "noise_consume_response cv s_idx i ue en now True l = (OK, Some r, noise_remote_put r (noise_remote_ref r l2))"
    using id st rd i b
    by (simp add: noise_consume_response_def index_lookup_remote [OF inv lk] Let_def m_def)
  then show ?thesis using m b st i by (intro exI [of _ m] exI) (simp add: m_def)
qed

lemma consume_initiation_parts:
  assumes rd: "read_initiation cv ue es ets l = (Some r, Some (t, hs), l1)" and id: "l_has_identity l"
    and c: "noise_consume_initiation cv s_idx ue es ets now draws l = Some (OK, Some r, l')"
  shows "\<exists>l2 rest. noise_remote_index_insert r draws
        (upd_remote r (r_last_init_recv_update (\<lambda>_. now)) (upd_remote r (r_timestamp_update (\<lambda>_. t)) l1)) = Some (l2, rest) \<and>
      l' = noise_remote_put r (noise_remote_ref r (upd_remote r (\<lambda>x. x\<lparr>r_index := (r_index x)\<lparr>i_remote_index := s_idx\<rparr>,
             r_handshake_state := HANDSHAKE_RESPONDER, r_handshake := hs\<rparr>) l2))"
  using c id by (auto simp: noise_consume_initiation_def rd Let_def split: option.splits if_splits)

text \<open>The side of the initiator after its message: the handshake is open under the index it sent.\<close>

lemma initiator_state:
  assumes "noise_inv li" "r_i < next_remote li" "noise_create_initiation cv r_i t1 time rnd1 draws1 li = Some (OK, Some msg1, li1)"
  shows "noise_inv li1 \<and> r_handshake_state (remotes li1 r_i) = HANDSHAKE_INITIATOR \<and>
    linked li1 (IdxRemote r_i) \<and> idx li1 (IdxRemote r_i) = in_s_idx msg1 \<and> l_has_identity li1 \<and>
    l_private li1 = l_private li \<and> r_psk (remotes li1 r_i) = r_psk (remotes li r_i) \<and>
    r_refcnt (remotes li1 r_i) = r_refcnt (remotes li r_i)"
proof -
  obtain w1 w2 rest where w: "write_initiation cv r_i time rnd1 li = (Some (in_ue msg1, in_es msg1, in_ets msg1), w1)"
    and ins: "noise_remote_index_insert r_i draws1 w1 = Some (w2, rest)"
    and li1: "li1 = upd_remote r_i (\<lambda>x. x\<lparr>r_handshake_state := HANDSHAKE_INITIATOR, r_last_sent := t1\<rparr>) w2"
    and si: "in_s_idx msg1 = i_local_index (r_index (remotes w2 r_i))" and idi: "l_has_identity li"
    using create_initiation_ok [OF assms(3)] by blast
  note wf = write_initiation_frame [OF w] and nf = index_insert_frame [OF ins]
  have inv: "noise_inv li1" by (rule create_initiation_inv [OF assms])
  moreover have "r_handshake_state (remotes li1 r_i) = HANDSHAKE_INITIATOR" by (simp add: li1)
  moreover have "linked li1 (IdxRemote r_i)" using inv calculation(2) by (simp add: noise_inv_def link_ok_def)
  ultimately show ?thesis using idi by (simp add: idx_def ref_index_def li1 si nf wf)
qed

text \<open>Both sides after the initiation: the same transcript.\<close>

lemma initiation_transcript:
  assumes cv: "curve_commutes cv" and lu: "fst (noise_remote_lookup lr (l_public li)) = Some r_r"
    and conf: "configured_for cv li r_i (l_public lr)" "configured_for cv lr r_r (l_public li)"
    and m1: "noise_create_initiation cv r_i t1 time rnd1 draws1 li = Some (OK, Some msg1, li1)"
    and m2: "noise_consume_initiation cv (in_s_idx msg1) (in_ue msg1) (in_es msg1) (in_ets msg1) t2 draws2 lr
               = Some (OK, Some r_r, lr1)"
  shows "\<exists>ck h. r_handshake (remotes li1 r_i) = \<lparr>hs_e = generate_secret cv rnd1, hs_hash = h, hs_ck = ck\<rparr> \<and>
    r_handshake (remotes lr1 r_r) = \<lparr>hs_e = in_ue msg1, hs_hash = h, hs_ck = ck\<rparr> \<and>
    c_pub cv (generate_secret cv rnd1) = (in_ue msg1, True) \<and>
    i_remote_index (r_index (remotes lr1 r_r)) = in_s_idx msg1 \<and> r_handshake_state (remotes lr1 r_r) = HANDSHAKE_RESPONDER \<and>
    r_psk (remotes lr1 r_r) = r_psk (remotes lr r_r) \<and> r_public (remotes lr1 r_r) = r_public (remotes lr r_r)"
proof -
  obtain w1 w2 rest where w: "write_initiation cv r_i time rnd1 li = (Some (in_ue msg1, in_es msg1, in_ets msg1), w1)"
    and ins: "noise_remote_index_insert r_i draws1 w1 = Some (w2, rest)"
    and li1: "li1 = upd_remote r_i (\<lambda>x. x\<lparr>r_handshake_state := HANDSHAKE_INITIATOR, r_last_sent := t1\<rparr>) w2"
    using create_initiation_ok [OF m1] by blast
  obtain lr0 where lk: "noise_remote_lookup lr (l_public li) = (Some r_r, lr0)" using lu by (metis prod.collapse)
  have lr0: "lr0 = noise_remote_ref r_r lr"
    using lk acquire_cases(1) [of _ lr] by (auto simp: noise_remote_lookup_def acquire_remote_def split: option.splits if_splits)
  obtain ck h where rd: "read_initiation cv (in_ue msg1) (in_es msg1) (in_ets msg1) lr =
           (Some r_r, Some (noise_tai64n_now (fst time) (snd time), \<lparr>hs_e = in_ue msg1, hs_hash = h, hs_ck = ck\<rparr>), lr0)"
    and hi: "r_handshake (remotes w1 r_i) = \<lparr>hs_e = generate_secret cv rnd1, hs_hash = h, hs_ck = ck\<rparr>"
    and e1: "c_pub cv (generate_secret cv rnd1) = (in_ue msg1, True)"
    using write_read_initiation [OF cv conf w lk] by blast
  have "l_has_identity lr" using conf(2) by (simp add: configured_for_def)
  then obtain v2 rest2 where v: "noise_remote_index_insert r_r draws2 (upd_remote r_r (r_last_init_recv_update (\<lambda>_. t2))
        (upd_remote r_r (r_timestamp_update (\<lambda>_. noise_tai64n_now (fst time) (snd time))) lr0)) = Some (v2, rest2)"
    and lr1: "lr1 = noise_remote_put r_r (noise_remote_ref r_r (upd_remote r_r (\<lambda>x. x\<lparr>r_index := (r_index x)\<lparr>i_remote_index := in_s_idx msg1\<rparr>,
             r_handshake_state := HANDSHAKE_RESPONDER, r_handshake := \<lparr>hs_e = in_ue msg1, hs_hash = h, hs_ck = ck\<rparr>\<rparr>) v2))"
    using consume_initiation_parts [OF rd _ m2] by blast
  show ?thesis
    using hi e1 by (simp add: li1 lr1 index_insert_frame [OF ins] index_insert_frame [OF v] lr0)
qed

text \<open>The side of the responder after its message.\<close>

lemma responder_state:
  assumes inv: "noise_inv lr1" and m3: "noise_create_response cv r_r t3 rnd3 True lr1 = (OK, Some msg2, lr2)"
  shows "\<exists>x1. write_response cv r_r rnd3 lr1 = (Some (rs_ue msg2, rs_en msg2), x1) \<and>
    rs_r_idx msg2 = i_remote_index (r_index (remotes lr1 r_r)) \<and>
    session_at lr2 r_r (next_keypair x1) t3 False (rs_s_idx msg2) (rs_r_idx msg2) \<and>
    kp_send (keypairs lr2 (next_keypair x1)) = kp_send (session_keypair r_r t3 x1) \<and>
    kp_recv (keypairs lr2 (next_keypair x1)) = kp_recv (session_keypair r_r t3 x1) \<and> r_handshake_state (remotes x1 r_r) = HANDSHAKE_RESPONDER"
proof -
  obtain x1 x2 where x: "write_response cv r_r rnd3 lr1 = (Some (rs_ue msg2, rs_en msg2), x1)"
    and st: "r_handshake_state (remotes lr1 r_r) = HANDSHAKE_RESPONDER"
    and b: "noise_begin_session r_r t3 True x1 = (OK, x2)" and lr2: "lr2 = upd_remote r_r (r_last_sent_update (\<lambda>_. t3)) x2"
    and idx2: "rs_s_idx msg2 = i_local_index (r_index (remotes x2 r_r))" "rs_r_idx msg2 = i_remote_index (r_index (remotes x2 r_r))"
    using create_response_ok [OF m3] by blast
  note xf = write_response_frame [OF x]
  have ix1: "noise_inv x1" using inv xf(3) by (rule same_shape_inv)
  have sx: "r_handshake_state (remotes x1 r_r) = HANDSHAKE_RESPONDER" by (simp add: xf st)
  then have nd: "r_handshake_state (remotes x1 r_r) \<noteq> HANDSHAKE_DEAD" by simp
  note br = begin_session_result [OF ix1 nd b]
  have "session_at lr2 r_r (next_keypair x1) t3 False (rs_s_idx msg2) (rs_r_idx msg2)"
    by (rule session_at_cong [of x2]) (use br(1) sx in \<open>simp_all add: lr2 idx2 br(5)\<close>)
  then show ?thesis using x sx idx2 br(2,3,5) xf(1) by (intro exI [of _ x1]) (simp add: lr2)
qed

text \<open>Both messages were accepted: the initiator accepts the response, and the keys agree.\<close>

lemma handshake_agrees:
  assumes cv: "curve_commutes cv" and ri: "noise_inv li" "r_i < next_remote li" "r_refcnt (remotes li r_i) \<noteq> 0"
    and rr: "noise_inv lr" "fst (noise_remote_lookup lr (l_public li)) = Some r_r"
    and conf: "configured_for cv li r_i (l_public lr)" "configured_for cv lr r_r (l_public li)"
      "r_psk (remotes li r_i) = r_psk (remotes lr r_r)"
    and m1: "noise_create_initiation cv r_i t1 time rnd1 draws1 li = Some (OK, Some msg1, li1)"
    and m2: "noise_consume_initiation cv (in_s_idx msg1) (in_ue msg1) (in_es msg1) (in_ets msg1) t2 draws2 lr
               = Some (OK, Some r_r, lr1)"
    and m3: "noise_create_response cv r_r t3 rnd3 True lr1 = (OK, Some msg2, lr2)"
  shows "\<exists>li2 k_i k_r. noise_consume_response cv (rs_s_idx msg2) (rs_r_idx msg2) (rs_ue msg2) (rs_en msg2) t4 True li1
        = (OK, Some r_i, li2) \<and> rs_r_idx msg2 = in_s_idx msg1 \<and>
      session_at li2 r_i k_i t4 True (in_s_idx msg1) (rs_s_idx msg2) \<and>
      session_at lr2 r_r k_r t3 False (rs_s_idx msg2) (in_s_idx msg1) \<and>
      kp_send (keypairs li2 k_i) = kp_recv (keypairs lr2 k_r) \<and>
      kp_recv (keypairs li2 k_i) = kp_send (keypairs lr2 k_r)"
proof -
  note i1 = initiator_state [OF ri(1,2) m1]
  obtain ck h where hi: "r_handshake (remotes li1 r_i) = \<lparr>hs_e = generate_secret cv rnd1, hs_hash = h, hs_ck = ck\<rparr>"
    and hr: "r_handshake (remotes lr1 r_r) = \<lparr>hs_e = in_ue msg1, hs_hash = h, hs_ck = ck\<rparr>"
    and e1: "c_pub cv (generate_secret cv rnd1) = (in_ue msg1, True)"
    and r1: "i_remote_index (r_index (remotes lr1 r_r)) = in_s_idx msg1" "r_psk (remotes lr1 r_r) = r_psk (remotes lr r_r)"
      "r_public (remotes lr1 r_r) = r_public (remotes lr r_r)"
    using initiation_transcript [OF cv rr(2) conf(1,2) m1 m2] by blast
  obtain x1 where x: "write_response cv r_r rnd3 lr1 = (Some (rs_ue msg2, rs_en msg2), x1)"
    and ix: "rs_r_idx msg2 = i_remote_index (r_index (remotes lr1 r_r))"
    and s2: "session_at lr2 r_r (next_keypair x1) t3 False (rs_s_idx msg2) (rs_r_idx msg2)"
    and k2: "kp_send (keypairs lr2 (next_keypair x1)) = kp_send (session_keypair r_r t3 x1)"
      "kp_recv (keypairs lr2 (next_keypair x1)) = kp_recv (session_keypair r_r t3 x1)"
    and sx: "r_handshake_state (remotes x1 r_r) = HANDSHAKE_RESPONDER"
    using responder_state [OF consume_initiation_inv [OF rr(1) m2] m3] by blast
  have pubi: "c_pub cv (l_private li1) = (r_public (remotes lr1 r_r), True)"
    using conf(1,2) i1 r1(3) by (simp add: configured_for_def)
  obtain hs where rs: "read_response cv (r_handshake (remotes li1 r_i)) (l_private li1) (r_psk (remotes li1 r_i)) (rs_ue msg2) (rs_en msg2) = Some hs"
    "hs_ck hs = hs_ck (r_handshake (remotes x1 r_r))"
    using write_read_response [OF cv e1 pubi hr x] conf(3) i1 r1(2) by (auto simp: hi)
  obtain m li2 where c: "noise_consume_response cv (rs_s_idx msg2) (in_s_idx msg1) (rs_ue msg2) (rs_en msg2) t4 True li1
        = (OK, Some r_i, li2)"
    and m: "noise_inv m" "r_handshake_state (remotes m r_i) = HANDSHAKE_INITIATOR" "r_handshake (remotes m r_i) = hs"
      "i_local_index (r_index (remotes m r_i)) = in_s_idx msg1" "i_remote_index (r_index (remotes m r_i)) = rs_s_idx msg2"
    and li2: "li2 = noise_remote_put r_i (noise_remote_ref r_i (snd (noise_begin_session r_i t4 True m)))"
    using consume_response_step [of li1 r_i "in_s_idx msg1" cv "rs_ue msg2" "rs_en msg2" hs "rs_s_idx msg2" t4] i1 ri(3) rs(1) by auto
  obtain y2 where y: "noise_begin_session r_i t4 True m = (OK, y2)" by (simp add: begin_session_eq)
  have mnd: "r_handshake_state (remotes m r_i) \<noteq> HANDSHAKE_DEAD" using m(2) by simp
  note bi = begin_session_result [OF m(1) mnd y]
  have li2': "li2 = noise_remote_put r_i (noise_remote_ref r_i y2)" by (simp add: li2 y)
  have "session_at li2 r_i (next_keypair m) t4 True (in_s_idx msg1) (rs_s_idx msg2)"
    by (rule session_at_cong [OF bi(1) [unfolded m(2,4,5), simplified]]) (simp_all add: li2')
  moreover have "kp_send (keypairs li2 (next_keypair m)) = kp_recv (keypairs lr2 (next_keypair x1)) \<and>
      kp_recv (keypairs li2 (next_keypair m)) = kp_send (keypairs lr2 (next_keypair x1))"
    using session_keys [of m r_i x1 r_r t4 t3] rs(2) m(2,3) sx bi(2,3) k2 by (simp add: li2')
  ultimately show ?thesis using c s2 ix r1(1) by (intro exI [of _ li2] exI [of _ "next_keypair m"] exI [of _ "next_keypair x1"]) simp
qed

text \<open>A fresh initiation from a configured peer is accepted.\<close>

lemma fresh_initiation_accepted:
  assumes cv: "curve_commutes cv" and lu: "fst (noise_remote_lookup lr (l_public li)) = Some r_r"
    and conf: "configured_for cv li r_i (l_public lr)" "configured_for cv lr r_r (l_public li)"
    and m1: "noise_create_initiation cv r_i t1 time rnd1 draws1 li = Some (OK, Some msg1, li1)"
    and new: "memcmp (noise_tai64n_now (fst time) (snd time)) (r_timestamp (remotes lr r_r)) > 0"
      "timer_expired t2 (r_last_init_recv (remotes lr r_r)) 0 REJECT_INTERVAL"
    and m2: "noise_consume_initiation cv (in_s_idx msg1) (in_ue msg1) (in_es msg1) (in_ets msg1) t2 draws2 lr
               = Some (e2, ro2, lr1)"
  shows "e2 = OK \<and> ro2 = Some r_r"
proof -
  obtain w1 where w: "write_initiation cv r_i time rnd1 li = (Some (in_ue msg1, in_es msg1, in_ets msg1), w1)"
    using create_initiation_ok [OF m1] by blast
  obtain lr0 where lk: "noise_remote_lookup lr (l_public li) = (Some r_r, lr0)" using lu by (metis prod.collapse)
  have lr0: "lr0 = noise_remote_ref r_r lr"
    using lk acquire_cases(1) [of _ lr] by (auto simp: noise_remote_lookup_def acquire_remote_def split: option.splits if_splits)
  obtain ts hs where rd: "read_initiation cv (in_ue msg1) (in_es msg1) (in_ets msg1) lr = (Some r_r, Some (ts, hs), lr0)"
    "ts = noise_tai64n_now (fst time) (snd time)"
    using write_read_initiation [OF cv conf(1,2) w lk] by blast
  have "l_has_identity lr" using conf(2) by (simp add: configured_for_def)
  then show ?thesis using consume_initiation_ok [OF rd(1) _ _ _ m2] new rd(2) by (auto simp: lr0)
qed

text \<open>C2: two parties that are configured with each other's public key and the same pre-shared key
  complete the handshake: the initiation the initiator sends is accepted, the response the responder
  sends is accepted, and then each side has one keypair for the other, the initiator as its current
  and the responder as its next one; what one side sends with the other receives with, each
  addresses the other's local index, both counters start at zero, and no handshake is pending.\<close>

theorem handshake_agreement:
  assumes cv: "curve_commutes cv" and ri: "noise_reach cv li" "r_i < next_remote li" "r_refcnt (remotes li r_i) \<noteq> 0"
    and rr: "noise_reach cv lr" "fst (noise_remote_lookup lr (l_public li)) = Some r_r"
    and conf: "configured_for cv li r_i (l_public lr)" "configured_for cv lr r_r (l_public li)"
      "r_psk (remotes li r_i) = r_psk (remotes lr r_r)"
    and m1: "noise_create_initiation cv r_i t1 time rnd1 draws1 li = Some (OK, Some msg1, li1)"
    and new: "memcmp (noise_tai64n_now (fst time) (snd time)) (r_timestamp (remotes lr r_r)) > 0"
      "timer_expired t2 (r_last_init_recv (remotes lr r_r)) 0 REJECT_INTERVAL"
    and m2: "noise_consume_initiation cv (in_s_idx msg1) (in_ue msg1) (in_es msg1) (in_ets msg1) t2 draws2 lr
               = Some (e2, ro2, lr1)"
    and m3: "noise_create_response cv r_r t3 rnd3 True lr1 = (OK, Some msg2, lr2)"
  shows "e2 = OK \<and> ro2 = Some r_r \<and>
    (\<exists>li2 k_i k_r. noise_consume_response cv (rs_s_idx msg2) (rs_r_idx msg2) (rs_ue msg2) (rs_en msg2) t4 True li1
        = (OK, Some r_i, li2) \<and>
      session_at li2 r_i k_i t4 True (in_s_idx msg1) (rs_s_idx msg2) \<and>
      session_at lr2 r_r k_r t3 False (rs_s_idx msg2) (in_s_idx msg1) \<and>
      kp_send (keypairs li2 k_i) = kp_recv (keypairs lr2 k_r) \<and>
      kp_recv (keypairs li2 k_i) = kp_send (keypairs lr2 k_r))"
proof -
  have inv: "noise_inv li" "noise_inv lr" using ri rr by (simp_all add: noise_reach_inv)
  have ok: "e2 = OK \<and> ro2 = Some r_r" by (rule fresh_initiation_accepted [OF cv rr(2) conf(1,2) m1 new m2])
  then have m2': "noise_consume_initiation cv (in_s_idx msg1) (in_ue msg1) (in_es msg1) (in_ets msg1) t2 draws2 lr = Some (OK, Some r_r, lr1)"
    using m2 by simp
  show ?thesis using handshake_agrees [OF cv inv(1) ri(2,3) inv(2) rr(2) conf m1 m2' m3, of t4] ok by blast
qed

subsection \<open>A concrete handshake\<close>

text \<open>A party with one enabled remote, over \<open>demo_curve\<close>.\<close>

definition demo_party :: "u8 \<Rightarrow> u8 \<Rightarrow> noise_local" where
  "demo_party own other = snd (noise_remote_enable 0 (snd (noise_remote_alloc demo_curve
     (noise_local_private demo_curve (replicate 32 own) (noise_local_alloc 0 (replicate 16 0))) 7 (replicate 32 other))))"

lemma fold_no_remotes: "(\<And>i. l_remote_hash l i = []) \<Longrightarrow> fold (\<lambda>i l. fold f (l_remote_hash l i) l) is l = l"
  by (induction "is") auto

lemma demo_private:
  "noise_local_private demo_curve (replicate 32 own) (noise_local_alloc 0 (replicate 16 0)) =
     (noise_local_alloc 0 (replicate 16 0))\<lparr>l_private := replicate 32 own, l_public := replicate 32 own, l_has_identity := True\<rparr>"
  by (simp add: noise_local_private_def Let_def demo_curve_def fold_no_remotes noise_local_alloc_def)

lemma demo_party_reach: "noise_reach demo_curve (demo_party own other)"
proof -
  let ?a = "noise_local_private demo_curve (replicate 32 own) (noise_local_alloc 0 (replicate 16 0))"
  have 1: "noise_reach demo_curve ?a"
    by (rule noise_reach.step [OF noise_reach.init]) (rule noise_step.intros(4))
  have 2: "noise_reach demo_curve (snd (noise_remote_alloc demo_curve ?a 7 (replicate 32 other)))"
    by (rule noise_reach.step [OF 1]) (rule noise_step.intros(5))
  have "0 < next_remote (snd (noise_remote_alloc demo_curve ?a 7 (replicate 32 other)))"
    by (simp add: noise_remote_alloc_def Let_def noise_precompute_ss_def split: prod.split)
  then show ?thesis
    unfolding demo_party_def by (intro noise_reach.step [OF 2] noise_step.intros(6))
qed

definition demo_remote :: "u8 \<Rightarrow> u8 \<Rightarrow> noise_remote" where
  "demo_remote own other = zero_remote\<lparr>r_public := replicate 32 other, r_last_sent := TIMER_RESET,
     r_last_init_recv := TIMER_RESET, r_ss := replicate 32 (own XOR other), r_refcnt := 1, r_arg := 7,
     r_entry_inserted := True\<rparr>"

definition demo_bucket :: "u8 \<Rightarrow> nat" where
  "demo_bucket other = unat (siphash24 (replicate 16 0) (replicate 32 other) AND HT_REMOTE_MASK)"

lemma demo_party_eq:
  "demo_party own other = \<lparr>l_has_identity = True, l_public = replicate 32 own, l_private = replicate 32 own,
     l_refcnt = 2, l_hash_key = replicate 16 0, l_arg = 0, l_cleanup = False, l_remote_num = 1,
     l_remote_hash = (\<lambda>_. [])(demo_bucket other := [0]), l_index_hash = (\<lambda>_. []),
     remotes = (\<lambda>_. zero_remote)(0 := demo_remote own other), keypairs = (\<lambda>_. zero_keypair), next_remote = 1,
     next_keypair = 0, freed_remotes = [], freed_keypairs = [], l_freed = False, cleanup_calls = []\<rparr>"
proof -
  have x: "xor_bytes (replicate 32 own) (replicate 32 other) = replicate 32 (own XOR other)"
    by (simp add: xor_bytes_def zip_replicate map2_map_map)
  define a where "a = noise_local_private demo_curve (replicate 32 own) (noise_local_alloc 0 (replicate 16 0))"
  have a: "a = \<lparr>l_has_identity = True, l_public = replicate 32 own, l_private = replicate 32 own,
     l_refcnt = 1, l_hash_key = replicate 16 0, l_arg = 0, l_cleanup = False, l_remote_num = 0,
     l_remote_hash = (\<lambda>_. []), l_index_hash = (\<lambda>_. []),
     remotes = (\<lambda>_. zero_remote), keypairs = (\<lambda>_. zero_keypair), next_remote = 0,
     next_keypair = 0, freed_remotes = [], freed_keypairs = [], l_freed = False, cleanup_calls = []\<rparr>"
    unfolding a_def demo_private by (simp add: noise_local_alloc_def)
  define c where "c = snd (noise_remote_alloc demo_curve a 7 (replicate 32 other))"
  have c: "c = \<lparr>l_has_identity = True, l_public = replicate 32 own, l_private = replicate 32 own,
     l_refcnt = 2, l_hash_key = replicate 16 0, l_arg = 0, l_cleanup = False, l_remote_num = 0,
     l_remote_hash = (\<lambda>_. []), l_index_hash = (\<lambda>_. []),
     remotes = (\<lambda>_. zero_remote)(0 := (demo_remote own other)\<lparr>r_entry_inserted := False\<rparr>), keypairs = (\<lambda>_. zero_keypair), next_remote = 1,
     next_keypair = 0, freed_remotes = [], freed_keypairs = [], l_freed = False, cleanup_calls = []\<rparr>"
    unfolding c_def a noise_remote_alloc_def Let_def
    by (simp add: noise_precompute_ss_def demo_curve_def x noise_local_ref_def demo_remote_def upd_remote_def zero_remote_def)
  have "demo_party own other = snd (noise_remote_enable 0 c)" by (simp add: demo_party_def a_def c_def)
  also have "\<dots> = \<lparr>l_has_identity = True, l_public = replicate 32 own, l_private = replicate 32 own,
     l_refcnt = 2, l_hash_key = replicate 16 0, l_arg = 0, l_cleanup = False, l_remote_num = 1,
     l_remote_hash = (\<lambda>_. [])(demo_bucket other := [0]), l_index_hash = (\<lambda>_. []),
     remotes = (\<lambda>_. zero_remote)(0 := demo_remote own other), keypairs = (\<lambda>_. zero_keypair), next_remote = 1,
     next_keypair = 0, freed_remotes = [], freed_keypairs = [], l_freed = False, cleanup_calls = []\<rparr>"
    unfolding c noise_remote_enable_def Let_def
    by (simp add: demo_remote_def upd_remote_def zero_remote_def MAX_REMOTE_PER_LOCAL_def remote_bucket_def demo_bucket_def
        CK_LIST_INSERT_HEAD_def)
  finally show ?thesis .
qed

lemma demo_party_fields:
  "l_has_identity (demo_party own other)" "l_private (demo_party own other) = replicate 32 own"
  "l_public (demo_party own other) = replicate 32 own" "next_remote (demo_party own other) = 1"
  "next_keypair (demo_party own other) = 0"
  "r_public (remotes (demo_party own other) 0) = replicate 32 other"
  "r_ss (remotes (demo_party own other) 0) = replicate 32 (own XOR other)"
  "r_refcnt (remotes (demo_party own other) 0) = 1" "r_psk (remotes (demo_party own other) 0) = replicate 32 0"
  "r_last_sent (remotes (demo_party own other) 0) = TIMER_RESET"
  "r_last_init_recv (remotes (demo_party own other) 0) = TIMER_RESET"
  "r_timestamp (remotes (demo_party own other) 0) = replicate 12 0"
  "r_handshake_state (remotes (demo_party own other) 0) = HANDSHAKE_DEAD"
  "l_index_hash (demo_party own other) b = []"
  "l_remote_hash (demo_party own other) b = (if b = demo_bucket other then [0] else [])"
  "remote_bucket (demo_party own other) (replicate 32 other) = demo_bucket other"
  by (simp_all add: demo_party_eq demo_remote_def zero_remote_def remote_bucket_def demo_bucket_def)

lemma write_initiation_demo:
  assumes "timingsafe_bcmp (r_ss (remotes l r)) (replicate 32 0)"
  shows "\<exists>ue es ets l1. write_initiation demo_curve r time rnd l = (Some (ue, es, ets), l1)"
  using assms
  by (simp add: write_initiation_def Let_def demo_curve_def noise_mix_dh_def noise_mix_ss_def noise_sizes
      case_prod_unfold)

lemma write_response_demo: "\<exists>ue en l1. write_response demo_curve r rnd l = (Some (ue, en), l1)"
  by (simp add: write_response_def Let_def demo_curve_def noise_mix_dh_def noise_sizes case_prod_unfold)

lemma demo_curve_commutes: "curve_commutes demo_curve"
proof -
  have "xor_bytes a b = xor_bytes b a" for a b
    by (induction a b rule: list_induct2') (simp_all add: xor.commute)
  then show ?thesis by (simp add: curve_commutes_def demo_curve_def)
qed

lemma demo_configured:
  "configured_for demo_curve (demo_party 1 2) 0 (l_public (demo_party 2 1))"
  "configured_for demo_curve (demo_party 2 1) 0 (l_public (demo_party 1 2))"
  by (simp_all add: configured_for_def demo_party_fields)
    (simp_all add: demo_curve_def xor_bytes_def zip_replicate map2_map_map)

lemma demo_lookup: "fst (noise_remote_lookup (demo_party 2 1) (l_public (demo_party 1 2))) = Some 0"
proof -
  have "\<not> timingsafe_bcmp a a" for a by (simp add: timingsafe_bcmp_neq)
  then show ?thesis
    by (simp add: noise_remote_lookup_def demo_party_fields acquire_remote_def)
qed

lemma demo_create:
  "\<exists>msg li1. noise_create_initiation demo_curve 0 0 (7, 0) (replicate 32 5) [4] (demo_party 1 2) = Some (OK, Some msg, li1)"
proof -
  have "timingsafe_bcmp (r_ss (remotes (demo_party 1 2) 0)) (replicate 32 0)"
    by (simp add: demo_party_fields timingsafe_bcmp_neq replicate_num)
  then obtain ue es ets l1 where w: "write_initiation demo_curve 0 (7, 0) (replicate 32 5) (demo_party 1 2) = (Some (ue, es, ets), l1)"
    using write_initiation_demo by blast
  have "same_shape (demo_party 1 2) l1" using write_initiation_shape [of "demo_party 1 2"] w by (metis snd_conv)
  then have e: "l_index_hash l1 b = []" "r_handshake_state (remotes l1 0) = HANDSHAKE_DEAD" for b
    by (simp_all add: same_shape_def demo_party_fields)
  then have "\<exists>l2 rest. noise_remote_index_insert 0 [4] l1 = Some (l2, rest)"
    by (simp add: noise_remote_index_insert_def noise_remote_index_remove_def Let_def)
  then show ?thesis
    by (auto simp: noise_create_initiation_def w demo_party_fields Let_def TIMER_RESET_def timer_expired_def
        REKEY_TIMEOUT_def SBT_1S_def nstosbt_def)
qed

lemma demo_flood: "timer_expired 0 (r_last_init_recv (remotes (demo_party own other) 0)) 0 REJECT_INTERVAL"
  by (simp add: demo_party_fields TIMER_RESET_def timer_expired_def REKEY_TIMEOUT_def SBT_1S_def nstosbt_def REJECT_INTERVAL_def)

lemma length_tai64n [simp, wg_len]: "length (noise_tai64n_now s n) = 12"
  by (simp add: noise_tai64n_now_def Let_def)

lemma write_initiation_length:
  "write_initiation cv r time rnd l = (Some (ue, es, ets), l1) \<Longrightarrow> length ets = 28"
  by (auto simp: write_initiation_def Let_def case_prod_unfold split: if_splits option.splits)

lemma demo_timestamp: "0 < memcmp (noise_tai64n_now 7 0) (replicate 12 0)"
  by (simp add: noise_tai64n_now_def Let_def be64enc_def be32enc_def replicate_num)

lemma consume_initiation_total:
  assumes "noise_inv l" and rd: "read_initiation cv ue es ets l = (Some r, Some (t, hs), l1)"
    and d: "distinct draws" "next_remote l + next_keypair l < length draws"
  shows "\<exists>x. noise_consume_initiation cv s_idx ue es ets now draws l = Some x"
proof -
  let ?l2 = "upd_remote r (r_last_init_recv_update (\<lambda>_. now)) (upd_remote r (r_timestamp_update (\<lambda>_. t)) l1)"
  have sh: "same_shape l l1" using read_initiation_shape [OF rd] by simp
  then have sh2: "same_shape l ?l2" by (simp add: same_shape_def)
  then have "noise_inv ?l2" by (rule same_shape_inv [OF assms(1)])
  moreover have "next_remote ?l2 + next_keypair ?l2 < length draws" using sh2 d(2) by (simp add: same_shape_def)
  ultimately have "\<exists>l3 rest. noise_remote_index_insert r draws ?l2 = Some (l3, rest)"
    using index_insert_total d(1) by blast
  then show ?thesis by (auto simp: noise_consume_initiation_def rd Let_def)
qed

lemma demo_run:
  "\<exists>msg1 li1 lr1 msg2 lr2.
     noise_create_initiation demo_curve 0 0 (7, 0) (replicate 32 5) [4] (demo_party 1 2) = Some (OK, Some msg1, li1) \<and>
     noise_consume_initiation demo_curve (in_s_idx msg1) (in_ue msg1) (in_es msg1) (in_ets msg1) 0 [4, 5] (demo_party 2 1)
       = Some (OK, Some 0, lr1) \<and> length (in_ets msg1) = 28 \<and>
     noise_create_response demo_curve 0 0 (replicate 32 6) True lr1 = (OK, Some msg2, lr2)"
proof -
  let ?li = "demo_party 1 2" and ?lr = "demo_party 2 1"
  obtain msg1 li1 where m1: "noise_create_initiation demo_curve 0 0 (7, 0) (replicate 32 5) [4] ?li = Some (OK, Some msg1, li1)"
    using demo_create by blast
  obtain w1 where w: "write_initiation demo_curve 0 (7, 0) (replicate 32 5) ?li = (Some (in_ue msg1, in_es msg1, in_ets msg1), w1)"
    using create_initiation_ok [OF m1] by blast
  obtain lr0 where lk: "noise_remote_lookup ?lr (l_public ?li) = (Some 0, lr0)" using demo_lookup by (metis prod.collapse)
  obtain ck h where rd: "read_initiation demo_curve (in_ue msg1) (in_es msg1) (in_ets msg1) ?lr =
      (Some 0, Some (noise_tai64n_now 7 0, \<lparr>hs_e = in_ue msg1, hs_hash = h, hs_ck = ck\<rparr>), lr0)"
    using write_read_initiation [OF demo_curve_commutes demo_configured w lk] by auto
  have inv: "noise_inv ?lr" by (rule noise_reach_inv [OF demo_party_reach])
  obtain e2 ro lr1 where m2: "noise_consume_initiation demo_curve (in_s_idx msg1) (in_ue msg1) (in_es msg1) (in_ets msg1) 0 [4, 5] ?lr
       = Some (e2, ro, lr1)"
    using consume_initiation_total [OF inv rd, of "[4, 5]" "in_s_idx msg1" 0] by (auto simp: demo_party_fields)
  have lf: "r_timestamp (remotes lr0 0) = replicate 12 0" "r_last_init_recv (remotes lr0 0) = r_last_init_recv (remotes ?lr 0)"
    using lk acquire_cases(1) [of _ ?lr] by (auto simp: noise_remote_lookup_def acquire_remote_def demo_party_fields split: option.splits if_splits)
  have st: "r_handshake_state (remotes lr1 0) = HANDSHAKE_RESPONDER \<and> e2 = OK \<and> ro = Some 0"
    using consume_initiation_ok [OF rd _ _ _ m2] demo_timestamp demo_flood by (auto simp: lf demo_party_fields)
  moreover obtain ue en l1 where "write_response demo_curve 0 (replicate 32 6) lr1 = (Some (ue, en), l1)"
    using write_response_demo by blast
  ultimately obtain msg2 lr2 where "noise_create_response demo_curve 0 0 (replicate 32 6) True lr1 = (OK, Some msg2, lr2)"
    by (auto simp: noise_create_response_def begin_session_eq Let_def)
  then show ?thesis using m1 m2 st write_initiation_length [OF w] by blast
qed

theorem handshake_agreement_witness:
  "\<exists>msg1 li1 lr1 msg2 lr2 li2 k_i k_r.
     noise_create_initiation demo_curve 0 0 (7, 0) (replicate 32 5) [4] (demo_party 1 2) = Some (OK, Some msg1, li1) \<and>
     noise_consume_initiation demo_curve (in_s_idx msg1) (in_ue msg1) (in_es msg1) (in_ets msg1) 0 [4, 5] (demo_party 2 1)
       = Some (OK, Some 0, lr1) \<and>
     noise_create_response demo_curve 0 0 (replicate 32 6) True lr1 = (OK, Some msg2, lr2) \<and>
     noise_consume_response demo_curve (rs_s_idx msg2) (rs_r_idx msg2) (rs_ue msg2) (rs_en msg2) 0 True li1 = (OK, Some 0, li2) \<and>
     r_current (remotes li2 0) = Some k_i \<and> r_next (remotes lr2 0) = Some k_r \<and>
     kp_send (keypairs li2 k_i) = kp_recv (keypairs lr2 k_r)"
proof -
  let ?li = "demo_party 1 2" and ?lr = "demo_party 2 1"
  obtain msg1 li1 lr1 msg2 lr2 where
    m1: "noise_create_initiation demo_curve 0 0 (7, 0) (replicate 32 5) [4] ?li = Some (OK, Some msg1, li1)"
    and m2: "noise_consume_initiation demo_curve (in_s_idx msg1) (in_ue msg1) (in_es msg1) (in_ets msg1) 0 [4, 5] ?lr
       = Some (OK, Some 0, lr1)"
    and m3: "noise_create_response demo_curve 0 0 (replicate 32 6) True lr1 = (OK, Some msg2, lr2)"
    using demo_run by blast
  have "r_psk (remotes ?li 0) = r_psk (remotes ?lr 0)" "0 < next_remote ?li" "r_refcnt (remotes ?li 0) \<noteq> 0"
    by (simp_all add: demo_party_fields)
  note ag = handshake_agreement [OF demo_curve_commutes demo_party_reach this(2,3) demo_party_reach demo_lookup
      demo_configured this(1) m1 _ demo_flood m2 m3, of 0]
  have "0 < memcmp (noise_tai64n_now (fst (7, 0 :: u64)) (snd (7 :: u64, 0))) (r_timestamp (remotes ?lr 0))"
    using demo_timestamp by (simp add: demo_party_fields)
  note ag = ag [OF this]
  then show ?thesis using m1 m2 m3 unfolding session_at_def by (metis (no_types, lifting))
qed

text \<open>The responder of this run, with its new keypair.\<close>

lemma demo_responder:
  "\<exists>l k a b. noise_reach demo_curve l \<and> session_at l 0 k 0 False a b"
proof -
  obtain msg1 :: initiation_fields and li1 lr1 msg2 lr2 where
    m2: "noise_consume_initiation demo_curve (in_s_idx msg1) (in_ue msg1) (in_es msg1) (in_ets msg1) 0 [4, 5] (demo_party 2 1)
       = Some (OK, Some 0, lr1)" and len: "length (in_ets msg1) = 28"
    and m3: "noise_create_response demo_curve 0 0 (replicate 32 6) True lr1 = (OK, Some msg2, lr2)"
    using demo_run by blast
  have r1: "noise_reach demo_curve lr1"
    by (rule noise_reach.step [OF demo_party_reach]) (rule noise_step.intros(26) [OF len m2])
  have "noise_reach demo_curve (snd (snd (noise_create_response demo_curve 0 0 (replicate 32 6) True lr1)))"
    by (rule noise_reach.step [OF r1]) (rule noise_step.intros(27))
  then have r2: "noise_reach demo_curve lr2" by (simp add: m3)
  obtain x1 x2 where st: "r_handshake_state (remotes lr1 0) = HANDSHAKE_RESPONDER"
    and x: "write_response demo_curve 0 (replicate 32 6) lr1 = (Some (rs_ue msg2, rs_en msg2), x1)"
    and b: "noise_begin_session 0 0 True x1 = (OK, x2)" and lr2: "lr2 = upd_remote 0 (r_last_sent_update (\<lambda>_. 0)) x2"
    using create_response_ok [OF m3] by blast
  note xf = write_response_frame [OF x]
  have ix: "noise_inv x1" using noise_reach_inv [OF r1] xf(3) by (rule same_shape_inv)
  have "r_handshake_state (remotes x1 0) \<noteq> HANDSHAKE_DEAD" by (simp add: xf st)
  note s = begin_session_result(1) [OF ix this b]
  have "session_at lr2 0 (next_keypair x1) 0 False (i_local_index (r_index (remotes x1 0))) (i_remote_index (r_index (remotes x1 0)))"
    by (rule session_at_cong [OF s [unfolded xf(2) st, simplified]]) (simp_all add: lr2)
  then show ?thesis using r2 by blast
qed

end
