(* ===== verification/NoiseProps.thy ===== *)
theory NoiseProps
  imports Agreement
begin

text \<open>
  Properties of the handshake and of the keypair slots in every reachable state: rejected
  messages change nothing, an initiation is accepted once, the first data message confirms a
  session.
\<close>

subsection \<open>Rejected handshake messages\<close>

lemma consume_response_error:
  assumes "noise_consume_response cv s_idx r_idx ue en now alloc_ok l = (e, ro, l')" "e \<noteq> OK" "e \<noteq> ENOSPC"
  shows "e = EINVAL \<and> ro = None \<and> l' = l"
proof (cases "noise_remote_index_lookup l r_idx False")
  case (Pair x l1)
  show ?thesis
  proof (cases x)
    case None
    then show ?thesis using assms Pair index_lookup_ref(2) [of l r_idx False l1]
      by (simp add: noise_consume_response_def)
  next
    case (Some r)
    have l1: "noise_remote_put r l1 = l"
      using index_lookup_ref(1) Pair Some put_ref_remote by metis
    show ?thesis using assms Pair Some l1
      by (auto simp: noise_consume_response_def begin_session_eq Let_def split: if_splits option.splits)
  qed
qed

lemma consume_initiation_error:
  assumes "noise_consume_initiation cv s_idx ue es ets now draws l = Some (e, ro, l')" "e \<noteq> OK"
  shows "e = EINVAL \<and> ro = None \<and> (l' = l \<or> (\<exists>r t hs l1. l' = upd_remote r (r_timestamp_update (\<lambda>_. t)) l \<and>
     read_initiation cv ue es ets l = (Some r, Some (t, hs), l1) \<and>
     memcmp t (r_timestamp (remotes l r)) > 0 \<and> \<not> timer_expired now (r_last_init_recv (remotes l r)) 0 REJECT_INTERVAL))"
proof (cases "l_has_identity l")
  case False
  then show ?thesis using assms by (simp add: noise_consume_initiation_def)
next
  case True
  obtain ro' x l1 where rd: "read_initiation cv ue es ets l = (ro', x, l1)" by (metis prod_cases3)
  show ?thesis
  proof (cases ro')
    case None
    then show ?thesis using assms True rd read_initiation_ref(2) [of cv ue es ets l x l1]
      by (simp add: noise_consume_initiation_def)
  next
    case (Some r)
    have l1: "l1 = noise_remote_ref r l" and n: "r_refcnt (remotes l r) \<noteq> 0"
      using read_initiation_ref(1) [of cv ue es ets l r x l1] rd Some by simp_all
    have put: "noise_remote_put r l1 = l" using put_ref_remote [OF n] by (simp add: l1)
    have put2: "noise_remote_put r (upd_remote r (r_timestamp_update (\<lambda>_. t)) l1)
        = upd_remote r (r_timestamp_update (\<lambda>_. t)) l" for t
    proof -
      have "upd_remote r (r_timestamp_update (\<lambda>_. t)) l1
          = noise_remote_ref r (upd_remote r (r_timestamp_update (\<lambda>_. t)) l)"
        by (cases "remotes l r") (simp add: l1 noise_remote_ref_def upd_remote_def)
      then show ?thesis using n by (simp add: put_ref_remote)
    qed
    have f: "r_timestamp (remotes l1 r) = r_timestamp (remotes l r)"
      "r_last_init_recv (remotes l1 r) = r_last_init_recv (remotes l r)" by (simp_all add: l1)
    show ?thesis
    proof (cases x)
      case None
      then show ?thesis using assms True rd Some put by (simp add: noise_consume_initiation_def)
    next
      case (Some y)
      obtain t hs where y: "y = (t, hs)" by (cases y)
      show ?thesis
      proof (cases "memcmp t (r_timestamp (remotes l r)) > 0")
        case False
        then show ?thesis using assms True rd Some \<open>ro' = Some r\<close> y put
          by (simp add: noise_consume_initiation_def f)
      next
        case newer: True
        show ?thesis
        proof (cases "timer_expired now (r_last_init_recv (remotes l r)) 0 REJECT_INTERVAL")
          case False
          then show ?thesis using assms True rd Some \<open>ro' = Some r\<close> y put2 newer
            by (auto simp: noise_consume_initiation_def f Let_def)
        next
          case True
          then show ?thesis using assms \<open>l_has_identity l\<close> rd Some \<open>ro' = Some r\<close> y newer
            by (auto simp: noise_consume_initiation_def f Let_def split: option.splits)
        qed
      qed
    qed
  qed
qed

text \<open>C25: a handshake message that is not accepted does no harm. A response that is rejected, for
  whatever reason but a failed allocation, leaves the whole state as it was, so a forged response
  cannot disturb a pending handshake. An initiation that is rejected does so too, except that one
  which is authentic and newer but comes within 20 ms of the last accepted one advances the
  timestamp of its peer.\<close>

theorem rejected_messages_harmless:
  "(\<forall>e ro l'. noise_consume_response cv s_idx r_idx ue en now alloc_ok l = (e, ro, l') \<longrightarrow> e \<noteq> OK \<longrightarrow> e \<noteq> ENOSPC \<longrightarrow>
      e = EINVAL \<and> ro = None \<and> l' = l) \<and>
   (\<forall>e ro l'. noise_consume_initiation cv s_idx ue es ets now draws l = Some (e, ro, l') \<longrightarrow> e \<noteq> OK \<longrightarrow>
      e = EINVAL \<and> ro = None \<and> (l' = l \<or> (\<exists>r t. l' = upd_remote r (r_timestamp_update (\<lambda>_. t)) l \<and>
        memcmp t (r_timestamp (remotes l r)) > 0 \<and>
        \<not> timer_expired now (r_last_init_recv (remotes l r)) 0 REJECT_INTERVAL)))"
  using consume_response_error [of cv s_idx r_idx ue en now alloc_ok l] consume_initiation_error [of cv s_idx ue es ets now draws l]
  by blast

theorem rejected_messages_harmless_witness:
  "snd (snd (noise_consume_response demo_curve 3 4 (replicate 32 1) (replicate 16 0) 0 True (demo_party 1 2))) = demo_party 1 2"
proof -
  obtain e ro l' where c: "noise_consume_response demo_curve 3 4 (replicate 32 1) (replicate 16 0) 0 True (demo_party 1 2) = (e, ro, l')"
    by (metis prod_cases3)
  moreover have "e = EINVAL"
    using c by (simp add: noise_consume_response_def noise_remote_index_lookup_def demo_party_fields)
  ultimately show ?thesis
    using rejected_messages_harmless [of demo_curve 3 4 "replicate 32 1" "replicate 16 0" 0 True "demo_party 1 2"] by simp
qed

subsection \<open>The first data message\<close>

text \<open>C24: once a handshake has left its keypair in the responder's next slot, the initiator's first
  data message, with any payload and counter, is attributed to that keypair by the index it carries
  and decrypts to what was sent; receiving it makes the keypair the current one, moves the old
  current one to the previous slot and reports \<^verbatim>\<open>ECONNRESET\<close>, after which the responder may send
  with it; a second message does not move it again.\<close>

theorem first_message_confirms:
  assumes reach: "noise_reach cv l" and s: "session_at l r k t False a b"
    and kp: "kp_send kp = kp_recv (keypairs l k)" "i_remote_index (kp_index kp) = a"
    and age: "\<not> timer_expired now t REJECT_AFTER_TIME 0"
    and enc: "noise_keypair_encrypt True kp nonce m = (e, i, m')"
  shows "e = OK \<and> fst (noise_keypair_lookup l i) = Some k \<and>
    fst (noise_keypair_decrypt (keypairs l k) nonce m' now) = OK \<and>
    m_data (snd (noise_keypair_decrypt (keypairs l k) nonce m' now)) = m_data m \<and>
    (\<exists>l'. noise_keypair_received_with k l = (ECONNRESET, l') \<and> r_current (remotes l' r) = Some k \<and>
       r_next (remotes l' r) = None \<and> r_previous (remotes l' r) = r_current (remotes l r) \<and>
       fst (noise_keypair_current r now l') = Some k \<and> noise_keypair_received_with k l' = (OK, l'))"
proof -
  have k: "kp_remote (keypairs l k) = r" "kp_refcnt (keypairs l k) = 1" "i_local_index (kp_index (keypairs l k)) = a"
    "kp_nonce_recv (keypairs l k) = 0" "kp_birthdate (keypairs l k) = t" "r_next (remotes l r) = Some k"
    "r_previous (remotes l r) = None" "kp_can_send (keypairs l k)"
    using s by (simp_all add: session_at_def)
  have d: "e = OK \<and> i = a \<and> fst (noise_keypair_decrypt (keypairs l k) nonce m' now) = OK \<and>
      m_data (snd (noise_keypair_decrypt (keypairs l k) nonce m' now)) = m_data m"
    using mbuf_roundtrip [OF enc kp(1) [symmetric]] kp(2) age reject_pos k(4,5) by simp
  have "k \<in> set (slots (remotes l r))" using k(6) by (simp add: in_slots)
  then have lk: "fst (noise_keypair_lookup l i) = Some k"
    using keypair_lookup_parts(1) [OF reach, of i k] k d by simp
  define l' where "l' = snd (noise_keypair_received_with k l)"
  have l': "l' = upd_remote r (\<lambda>x. x\<lparr>r_current := Some k, r_next := None\<rparr>) (upd_remote r (\<lambda>x. x\<lparr>r_previous := r_current x\<rparr>) l)"
    using k by (simp add: l'_def noise_keypair_received_with_def Let_def noise_keypair_drop_def)
  have "noise_keypair_received_with k l = (ECONNRESET, l')"
    using k by (simp add: l'_def noise_keypair_received_with_def Let_def)
  moreover have "fst (noise_keypair_current r now l') = Some k"
    using k age by (simp add: l' noise_keypair_current_def acquire_keypair_def)
  moreover have "noise_keypair_received_with k l' = (OK, l')"
    using k by (simp add: l' noise_keypair_received_with_def Let_def)
  ultimately show ?thesis using d lk by (simp add: l')
qed

theorem first_message_confirms_witness:
  "\<exists>l k kp e i m'. noise_keypair_encrypt True kp 0 \<lparr>m_data = [1, 2, 3], m_cap = 67\<rparr> = (e, i, m') \<and>
     m_data (snd (noise_keypair_decrypt (keypairs l k) 0 m' 5)) = [1, 2, 3] \<and>
     fst (noise_keypair_received_with k l) = ECONNRESET"
proof -
  obtain l k a b where l: "noise_reach demo_curve l" "session_at l 0 k 0 False a b" using demo_responder by blast
  define kp where "kp = demo_keypair\<lparr>kp_send := kp_recv (keypairs l k),
      kp_index := \<lparr>i_local_index = 9, i_remote_index = a, i_is_keypair = True\<rparr>\<rparr>"
  obtain e i m' where enc: "noise_keypair_encrypt True kp 0 \<lparr>m_data = [1, 2, 3], m_cap = 67\<rparr> = (e, i, m')"
    by (metis prod_cases3)
  have kp: "kp_send kp = kp_recv (keypairs l k)" "i_remote_index (kp_index kp) = a" by (simp_all add: kp_def)
  have age: "\<not> timer_expired 5 0 REJECT_AFTER_TIME 0"
    by (simp add: timer_expired_def REJECT_AFTER_TIME_def SBT_1S_def nstosbt_def)
  have "m_data (snd (noise_keypair_decrypt (keypairs l k) 0 m' 5)) = [1, 2, 3]"
    "fst (noise_keypair_received_with k l) = ECONNRESET"
    using first_message_confirms [OF l kp age enc] by auto
  then show ?thesis using enc by blast
qed

subsection \<open>An initiation is accepted once\<close>

definition same_ts :: "noise_local \<Rightarrow> noise_local \<Rightarrow> bool" where
  "same_ts l l' \<longleftrightarrow> next_remote l' = next_remote l \<and>
     (\<forall>r. r_timestamp (remotes l' r) = r_timestamp (remotes l r) \<and> r_arg (remotes l' r) = r_arg (remotes l r) \<and>
        r_public (remotes l' r) = r_public (remotes l r))"

text \<open>A remote keeps its public key and its argument for life.\<close>

definition ident_kept :: "noise_local \<Rightarrow> noise_local \<Rightarrow> bool" where
  "ident_kept l l' \<longleftrightarrow> next_remote l \<le> next_remote l' \<and>
     (\<forall>r < next_remote l. r_arg (remotes l' r) = r_arg (remotes l r) \<and> r_public (remotes l' r) = r_public (remotes l r))"

lemma same_ts_ident: "same_ts l l' \<Longrightarrow> ident_kept l l'"
  by (simp add: same_ts_def ident_kept_def)

lemma ident_kept_trans: "ident_kept a b \<Longrightarrow> ident_kept b c \<Longrightarrow> ident_kept a c"
  by (simp add: ident_kept_def)

definition ts_grows :: "noise_local \<Rightarrow> noise_local \<Rightarrow> bool" where
  "ts_grows l l' \<longleftrightarrow> next_remote l \<le> next_remote l' \<and>
     (\<forall>r < next_remote l. r_timestamp (remotes l' r) = r_timestamp (remotes l r) \<or>
        memcmp (r_timestamp (remotes l' r)) (r_timestamp (remotes l r)) > 0)"

definition ts_len :: "noise_local \<Rightarrow> bool" where
  "ts_len l \<longleftrightarrow> (\<forall>r. length (r_timestamp (remotes l r)) = 12)"

lemma same_ts_grows: "same_ts l l' \<Longrightarrow> ts_len l \<Longrightarrow> ts_len l' \<and> ts_grows l l'"
  by (simp add: same_ts_def ts_grows_def ts_len_def)

lemma same_ts_refl [simp]: "same_ts l l"
  by (simp add: same_ts_def)

lemma ts_grows_refl [simp]: "ts_grows l l"
  by (simp add: ts_grows_def)

lemma same_ts_trans [trans]: "same_ts a b \<Longrightarrow> same_ts b c \<Longrightarrow> same_ts a c"
  by (simp add: same_ts_def)

lemma ts_index_remove: "same_ts l (snd (noise_remote_index_remove r l))"
  by (simp add: same_ts_def noise_remote_index_remove_def)

lemma ts_handshake_clear: "same_ts l (noise_remote_handshake_clear r l)"
  using ts_index_remove [of l r]
  by (simp add: same_ts_def noise_remote_handshake_clear_def Let_def case_prod_unfold)

lemma ts_expire: "same_ts l (noise_remote_expire_current r (noise_precompute_ss cv r l))"
proof -
  have "same_ts l (noise_precompute_ss cv r l)"
    by (simp add: same_ts_def noise_precompute_ss_def split: prod.split)
  also have "same_ts (noise_precompute_ss cv r l) (noise_remote_handshake_clear r (noise_precompute_ss cv r l))"
    by (rule ts_handshake_clear)
  also have "same_ts m (noise_remote_expire_current r l)" if "m = noise_remote_handshake_clear r l" for l m
    unfolding that by (simp add: same_ts_def noise_remote_expire_current_def Let_def split: option.split)
  from this [OF refl] have "same_ts (noise_remote_handshake_clear r (noise_precompute_ss cv r l))
      (noise_remote_expire_current r (noise_precompute_ss cv r l))" .
  finally show ?thesis .
qed

lemma ts_local_private: "same_ts l (noise_local_private cv private l)"
proof -
  define P where "P = same_ts l"
  have one: "P (noise_remote_expire_current r (noise_precompute_ss cv r m))" if "P m" for r m
    using that ts_expire unfolding P_def by (rule same_ts_trans)
  have bucket: "P (fold (\<lambda>r l. noise_remote_expire_current r (noise_precompute_ss cv r l)) rs m)" if "P m" for rs m
    by (rule fold_inv [of P, OF one that])
  have all: "P (fold (\<lambda>i l. fold (\<lambda>r l. noise_remote_expire_current r (noise_precompute_ss cv r l))
      (l_remote_hash l i) l) is m)" if "P m" for "is" m
    by (rule fold_inv [of P, OF bucket that])
  have "P (case c_pub cv (c_clamp cv private) of (pub, ok) \<Rightarrow>
      (l\<lparr>l_private := c_clamp cv private, l_public := pub, l_has_identity := ok\<rparr>))"
    by (simp add: P_def same_ts_def split: prod.split)
  from all [OF this] show ?thesis
    by (simp add: P_def noise_local_private_def Let_def case_prod_unfold)
qed

lemma ts_disable: "same_ts l (noise_remote_disable r l)"
  by (simp add: same_ts_def noise_remote_disable_def)

lemma ts_keypairs_clear: "same_ts l (noise_remote_keypairs_clear r l)"
  by (simp add: same_ts_def noise_remote_keypairs_clear_def Let_def)

lemma ts_free: "same_ts l (noise_remote_free r c l)"
proof -
  let ?a = "upd_remote r (r_cleanup_update (\<lambda>_. c)) l"
  have "same_ts l ?a" by (simp add: same_ts_def)
  also note ts_disable [of ?a r]
  also note ts_handshake_clear [of "noise_remote_disable r ?a" r]
  also note ts_keypairs_clear [of "noise_remote_handshake_clear r (noise_remote_disable r ?a)" r]
  finally show ?thesis by (simp add: same_ts_def noise_remote_free_def Let_def)
qed

lemma ts_begin_session: "same_ts l (snd (noise_begin_session r now ok l))"
  by (simp add: same_ts_def begin_session_eq noise_add_new_keypair_def Let_def)

lemma ts_write:
  "same_ts l (snd (write_initiation cv r time rnd l))" "same_ts l (snd (write_response cv r rnd l))"
proof -
  have hs: "same_ts l (set_hs r a b (set_hs_e r e (set_hs r c d l)))" "same_ts l (set_hs r a b l)"
    "same_ts l (set_hs_e r e (set_hs r c d l))" for a b c d e
    by (simp_all add: same_ts_def)
  show "same_ts l (snd (write_initiation cv r time rnd l))"
    unfolding write_initiation_def Let_def using hs by (simp add: case_prod_unfold split: option.split)
  show "same_ts l (snd (write_response cv r rnd l))"
    unfolding write_response_def Let_def using hs by (simp add: case_prod_unfold split: option.split)
qed

lemma ts_insert:
  "noise_remote_index_insert r ds l = Some (l', rest) \<Longrightarrow> same_ts l l'"
  by (simp add: same_ts_def index_insert_frame)

lemma ts_create_initiation:
  assumes "noise_create_initiation cv r now time rnd draws l = Some (e, out, l')"
  shows "same_ts l l'"
proof -
  obtain x l1 where w: "write_initiation cv r time rnd l = (x, l1)" by (metis surj_pair)
  then have 1: "same_ts l l1" using ts_write(1) [of l cv r time rnd] by simp
  show ?thesis
    using assms 1 ts_insert [of r draws l1]
    by (auto simp: noise_create_initiation_def w Let_def same_ts_def split: if_splits option.splits)
qed

lemma ts_create_response: "same_ts l (snd (snd (noise_create_response cv r now rnd ok l)))"
proof -
  obtain x l1 where w: "write_response cv r rnd l = (x, l1)" by (metis surj_pair)
  then have 1: "same_ts l l1" using ts_write(2) [of l cv r rnd] by simp
  then have "same_ts l (snd (noise_begin_session r now ok l1))" using ts_begin_session by (rule same_ts_trans)
  then show ?thesis using 1
    by (simp add: noise_create_response_def w Let_def same_ts_def case_prod_unfold split: option.split)
qed

lemma ts_consume_response: "same_ts l (snd (snd (noise_consume_response cv s_idx r_idx ue en now ok l)))"
proof -
  obtain x l1 where lk: "noise_remote_index_lookup l r_idx False = (x, l1)" by (metis surj_pair)
  have 1: "same_ts l l1"
    using index_lookup_ref [of l r_idx False] lk by (cases x) (auto simp: same_ts_def)
  have 2: "same_ts l (snd (noise_begin_session r now ok (upd_remote r (\<lambda>x. x\<lparr>r_handshake := hs,
      r_index := (r_index x)\<lparr>i_remote_index := s_idx\<rparr>\<rparr>) l1)))" for r hs
    by (rule same_ts_trans [OF _ ts_begin_session]) (use 1 in \<open>simp add: same_ts_def\<close>)
  have 3: "same_ts l (noise_remote_put r m)" "same_ts l (noise_remote_put r (noise_remote_ref r m))" if "same_ts l m" for r m
    using that by (simp_all add: same_ts_def)
  show ?thesis
    unfolding noise_consume_response_def Let_def lk
    using 1 2 3 by (simp add: case_prod_unfold split: option.split)
qed

lemma consume_initiation_accepted:
  assumes "noise_consume_initiation cv s_idx ue es ets now draws l = Some (OK, ro, l')"
  shows "\<exists>r t hs l1. ro = Some r \<and> read_initiation cv ue es ets l = (Some r, Some (t, hs), l1) \<and>
    memcmp t (r_timestamp (remotes l r)) > 0 \<and> timer_expired now (r_last_init_recv (remotes l r)) 0 REJECT_INTERVAL \<and>
    r_timestamp (remotes l' r) = t \<and> r_last_init_recv (remotes l' r) = now \<and> next_remote l' = next_remote l \<and>
    (\<forall>x. x \<noteq> r \<longrightarrow> r_timestamp (remotes l' x) = r_timestamp (remotes l x))"
proof -
  have id: "l_has_identity l" using assms by (auto simp: noise_consume_initiation_def split: if_splits)
  obtain ro' x l1 where rd: "read_initiation cv ue es ets l = (ro', x, l1)" by (metis prod_cases3)
  obtain r where r: "ro' = Some r" using assms rd id by (cases ro') (auto simp: noise_consume_initiation_def)
  obtain t hs where x: "x = Some (t, hs)" using assms rd id r by (cases x) (auto simp: noise_consume_initiation_def)
  have l1: "l1 = noise_remote_ref r l" using read_initiation_ref(1) [of cv ue es ets l r x l1] rd r by simp
  have c: "memcmp t (r_timestamp (remotes l1 r)) > 0" "timer_expired now (r_last_init_recv (remotes l1 r)) 0 REJECT_INTERVAL"
    using assms rd id r x by (auto simp: noise_consume_initiation_def Let_def split: if_splits)
  obtain l2 rest where ins: "noise_remote_index_insert r draws (upd_remote r (r_last_init_recv_update (\<lambda>_. now))
        (upd_remote r (r_timestamp_update (\<lambda>_. t)) l1)) = Some (l2, rest)" and ro: "ro = Some r"
    and l': "l' = noise_remote_put r (noise_remote_ref r (upd_remote r (\<lambda>x. x\<lparr>r_index := (r_index x)\<lparr>i_remote_index := s_idx\<rparr>,
             r_handshake_state := HANDSHAKE_RESPONDER, r_handshake := hs\<rparr>) l2))"
    using consume_initiation_ok [OF rd [unfolded r x] id c assms] by blast
  note f = index_insert_frame [OF ins]
  show ?thesis using rd r x ro c by (simp add: l' f l1)
qed

lemma msg_decrypt_length: "noise_msg_decrypt c key h = Some (m, h') \<Longrightarrow> length c = length m + 16"
  using length_msg_encrypt [of m key h] by (auto simp: msg_decrypt_iff prod_eq_iff)

lemma read_initiation_ts_length:
  assumes "read_initiation cv ue es ets l = (ro, Some (t, hs), l1)" "length ets = 28"
  shows "length t = 12"
proof -
  have "\<exists>key h h'. noise_msg_decrypt ets key h = Some (t, h')"
    using assms(1) by (auto simp: read_initiation_def Let_def split: prod.splits option.splits)
  then show ?thesis using msg_decrypt_length assms(2) by fastforce
qed

lemma consume_initiation_ts:
  assumes "noise_consume_initiation cv s_idx ue es ets now draws l = Some (e, ro, l')" "length ets = 28" "ts_len l"
  shows "ts_len l' \<and> ts_grows l l'"
proof (cases "e = OK")
  case True
  then obtain r t hs l1 where c: "read_initiation cv ue es ets l = (Some r, Some (t, hs), l1)"
    "memcmp t (r_timestamp (remotes l r)) > 0" "r_timestamp (remotes l' r) = t" "next_remote l' = next_remote l"
    "\<And>x. x \<noteq> r \<Longrightarrow> r_timestamp (remotes l' x) = r_timestamp (remotes l x)"
    using consume_initiation_accepted assms(1) by blast
  have "length t = 12" using read_initiation_ts_length [OF c(1) assms(2)] .
  then show ?thesis using assms(3) c(2-) unfolding ts_len_def ts_grows_def by (metis order_refl)
next
  case False
  have "ts_grows l l'"
    using consume_initiation_error [OF assms(1) False] by (auto simp: ts_grows_def)
  moreover have "ts_len l'"
    using consume_initiation_error [OF assms(1) False] assms(2,3) read_initiation_ts_length
    by (auto simp: ts_len_def)
  ultimately show ?thesis by blast
qed


lemma noise_step_ts: "noise_step cv l l' \<Longrightarrow> ts_len l \<Longrightarrow> ts_len l' \<and> ts_grows l l'"
proof (induction rule: noise_step.induct)
  case (5 l arg public)
  then show ?case
    by (auto simp: ts_len_def ts_grows_def noise_remote_alloc_def Let_def noise_precompute_ss_def zero_remote_def
        split: prod.split)
next
  case (8 l public)
  then show ?case using lookup_ref [of l public]
    by (intro same_ts_grows) (cases "noise_remote_lookup l public", cases "fst (noise_remote_lookup l public)",
        auto simp: same_ts_def)
next
  case (9 l i)
  then show ?case using index_lookup_ref [of l i True]
    by (intro same_ts_grows) (cases "noise_remote_index l i", cases "fst (noise_remote_index l i)",
        auto simp: same_ts_def noise_remote_index_def)
next
  case (26 ets s_idx ue es now draws l e ro l')
  then show ?case using consume_initiation_ts by blast
qed (auto intro!: same_ts_grows intro: ts_local_private ts_disable ts_free ts_handshake_clear ts_keypairs_clear
    ts_create_initiation ts_create_response ts_consume_response
    simp: same_ts_def noise_local_free_def noise_remote_enable_def noise_remote_local_def noise_remote_set_psk_def
      noise_keypair_lookup_def acquire_keypair_def noise_keypair_current_def noise_keypair_received_with_def
      noise_keypair_remote_def Let_def
    split: option.split index_ref.split)

lemma consume_initiation_ident:
  assumes "noise_consume_initiation cv s_idx ue es ets now draws l = Some (e, ro, l')"
  shows "ident_kept l l'"
proof -
  have rr: "same_ts l l1" if "read_initiation cv ue es ets l = (ro, x, l1)" for ro x l1
    using that by (cases ro) (auto simp: same_ts_def dest: read_initiation_ref)
  show ?thesis
    using assms
    by (auto simp: noise_consume_initiation_def Let_def ident_kept_def index_insert_frame same_ts_def
        split: if_splits option.splits prod.splits dest!: rr)
qed

lemma noise_step_ident: "noise_step cv l l' \<Longrightarrow> ident_kept l l'"
proof (induction rule: noise_step.induct)
  case (5 l arg public)
  then show ?case
    by (auto simp: ident_kept_def noise_remote_alloc_def Let_def noise_precompute_ss_def split: prod.split)
next
  case (8 l public)
  then show ?case using lookup_ref [of l public]
    by (intro same_ts_ident) (cases "noise_remote_lookup l public", cases "fst (noise_remote_lookup l public)",
        auto simp: same_ts_def)
next
  case (9 l i)
  then show ?case using index_lookup_ref [of l i True]
    by (intro same_ts_ident) (cases "noise_remote_index l i", cases "fst (noise_remote_index l i)",
        auto simp: same_ts_def noise_remote_index_def)
next
  case (26 ets s_idx ue es now draws l e ro l')
  then show ?case using consume_initiation_ident by blast
qed (auto intro!: same_ts_ident intro: ts_local_private ts_disable ts_free ts_handshake_clear ts_keypairs_clear
    ts_create_initiation ts_create_response ts_consume_response
    simp: same_ts_def noise_local_free_def noise_remote_enable_def noise_remote_local_def noise_remote_set_psk_def
      noise_keypair_lookup_def acquire_keypair_def noise_keypair_current_def noise_keypair_received_with_def
      noise_keypair_remote_def Let_def
    split: option.split index_ref.split)

lemma noise_reach_ts: "noise_reach cv l \<Longrightarrow> ts_len l"
proof (induction rule: noise_reach.induct)
  case (init arg hash_key)
  then show ?case by (simp add: ts_len_def noise_local_alloc_def zero_remote_def)
qed (use noise_step_ts in blast)

lemma ts_grows_trans:
  assumes "ts_len a" "ts_len b" "ts_len c" "ts_grows a b" "ts_grows b c"
  shows "ts_grows a c"
  unfolding ts_grows_def
proof (intro conjI allI impI)
  show "next_remote a \<le> next_remote c" using assms(4,5) by (simp add: ts_grows_def)
  fix r assume "r < next_remote a"
  then have "r_timestamp (remotes b r) = r_timestamp (remotes a r) \<or> memcmp (r_timestamp (remotes b r)) (r_timestamp (remotes a r)) > 0"
    "r_timestamp (remotes c r) = r_timestamp (remotes b r) \<or> memcmp (r_timestamp (remotes c r)) (r_timestamp (remotes b r)) > 0"
    using assms(4,5) by (auto simp: ts_grows_def)
  then show "r_timestamp (remotes c r) = r_timestamp (remotes a r) \<or> memcmp (r_timestamp (remotes c r)) (r_timestamp (remotes a r)) > 0"
    using memcmp_trans [of "r_timestamp (remotes c r)" "r_timestamp (remotes b r)" "r_timestamp (remotes a r)"] assms(1-3)
    by (auto simp: ts_len_def)
qed

lemma noise_steps_ts: "(noise_step cv)\<^sup>*\<^sup>* l l' \<Longrightarrow> ts_len l \<Longrightarrow> ts_len l' \<and> ts_grows l l'"
proof (induction rule: rtranclp_induct)
  case (step y z)
  then have "ts_len y \<and> ts_grows l y" "ts_len z \<and> ts_grows y z" using noise_step_ts by blast+
  then show ?case using ts_grows_trans step.prems by blast
qed simp

lemma read_initiation_det:
  assumes "read_initiation cv ue es ets l = (Some r, Some (t, hs), l1)" "read_initiation cv ue es ets l' = (Some r, x, l1')"
    "l_private l' = l_private l" "l_public l' = l_public l" "r_ss (remotes l' r) = r_ss (remotes l r)"
  shows "x = Some (t, hs)"
proof -
  have ss: "r_ss (remotes m' x) = r_ss (remotes m x)" if "noise_remote_lookup m pk = (Some y, m')" for m m' pk x y
    using lookup_ref(1) [OF that] by simp
  show ?thesis using assms
    by (auto simp: read_initiation_def Let_def ss split: prod.splits option.splits)
qed


lemma consume_initiation_keeps:
  assumes "noise_consume_initiation cv s_idx ue es ets now draws l = Some (OK, Some r, l')"
  shows "l_private l' = l_private l \<and> l_public l' = l_public l \<and> l_remote_hash l' = l_remote_hash l \<and>
    l_hash_key l' = l_hash_key l \<and> (\<forall>x. r_ss (remotes l' x) = r_ss (remotes l x) \<and> r_public (remotes l' x) = r_public (remotes l x) \<and>
      (r_refcnt (remotes l x) \<noteq> 0 \<longrightarrow> r_refcnt (remotes l' x) \<noteq> 0))"
proof -
  have id: "l_has_identity l" using assms by (auto simp: noise_consume_initiation_def split: if_splits)
  obtain t hs l1 where rd: "read_initiation cv ue es ets l = (Some r, Some (t, hs), l1)"
    and c: "memcmp t (r_timestamp (remotes l r)) > 0" "timer_expired now (r_last_init_recv (remotes l r)) 0 REJECT_INTERVAL"
    using consume_initiation_accepted [OF assms] by blast
  have l1: "l1 = noise_remote_ref r l" using read_initiation_ref(1) [OF rd] by simp
  have c1: "memcmp t (r_timestamp (remotes l1 r)) > 0" "timer_expired now (r_last_init_recv (remotes l1 r)) 0 REJECT_INTERVAL"
    using c by (simp_all add: l1)
  obtain l2 rest where ins: "noise_remote_index_insert r draws (upd_remote r (r_last_init_recv_update (\<lambda>_. now))
        (upd_remote r (r_timestamp_update (\<lambda>_. t)) l1)) = Some (l2, rest)"
    and l': "l' = noise_remote_put r (noise_remote_ref r (upd_remote r (\<lambda>x. x\<lparr>r_index := (r_index x)\<lparr>i_remote_index := s_idx\<rparr>,
             r_handshake_state := HANDSHAKE_RESPONDER, r_handshake := hs\<rparr>) l2))"
    using consume_initiation_ok [OF rd id c1 assms] by blast
  note f = index_insert_frame [OF ins]
  have rc: "r_refcnt (remotes l2 r) \<noteq> 0" by (simp add: f l1 noise_remote_ref_def)
  let ?m = "upd_remote r (\<lambda>x. x\<lparr>r_index := (r_index x)\<lparr>i_remote_index := s_idx\<rparr>,
             r_handshake_state := HANDSHAKE_RESPONDER, r_handshake := hs\<rparr>) l2"
  have "l' = ?m" unfolding l' by (rule put_ref_remote) (use rc in simp)
  then show ?thesis by (simp add: f l1) (simp add: noise_remote_ref_def)
qed

lemma lookup_same:
  assumes "fst (noise_remote_lookup l pk) = Some r" "l_remote_hash l' = l_remote_hash l" "l_hash_key l' = l_hash_key l"
    "\<And>x. r_public (remotes l' x) = r_public (remotes l x)"
    "\<And>x. r_refcnt (remotes l x) \<noteq> 0 \<Longrightarrow> r_refcnt (remotes l' x) \<noteq> 0"
  shows "fst (noise_remote_lookup l' pk) = Some r"
  using assms(1-4) assms(5) [of r]
  by (auto simp: noise_remote_lookup_def remote_bucket_def acquire_remote_def split: option.splits if_splits)

lemma read_initiation_again:
  assumes "read_initiation cv ue es ets l = (Some r, x, l1)" "l_private l' = l_private l" "l_public l' = l_public l"
    "\<And>pk. fst (noise_remote_lookup l pk) = Some r \<Longrightarrow> fst (noise_remote_lookup l' pk) = Some r"
  shows "fst (read_initiation cv ue es ets l') = Some r"
proof -
  have "noise_remote_lookup l pk = (Some r, m) \<Longrightarrow> \<exists>m'. noise_remote_lookup l' pk = (Some r, m')" for pk m
    using assms(4) [of pk] by (metis fst_conv prod.collapse)
  then show ?thesis using assms(1-3)
    by (fastforce simp: read_initiation_def Let_def split: prod.splits option.splits)
qed


end
