(* ===== verification/SessionInv.thy ===== *)
theory SessionInv
  imports SessionApi NoiseProps
begin

text \<open>
  The invariant of a session of \<^verbatim>\<open>src/wg_session.c\<close>: what holds after \<^verbatim>\<open>wg_session_create\<close> and
  any sequence of calls of the public functions (\<open>session_reach\<close>).

  \<open>run\<close> says that the noise state moved by calls of the noise interface that create no remote,
  \<open>frame_ok\<close> that a session function changed only what the data plane may change. Every
  function but \<^verbatim>\<open>wg_session_set_uapi\<close> is a \<open>frame_ok\<close> step.
\<close>

subsection \<open>Runs of the noise interface\<close>

definition run :: "curve \<Rightarrow> noise_local \<Rightarrow> noise_local \<Rightarrow> bool" where
  "run cv l l' \<longleftrightarrow> (noise_step cv)\<^sup>*\<^sup>* l l' \<and> next_remote l' = next_remote l"

lemma run_refl [simp]: "run cv l l"
  by (simp add: run_def)

lemma run_trans [trans]: "run cv a b \<Longrightarrow> run cv b c \<Longrightarrow> run cv a c"
  by (auto simp: run_def)

lemma run_step: "noise_step cv l l' \<Longrightarrow> next_remote l' = next_remote l \<Longrightarrow> run cv l l'"
  by (auto simp: run_def)

lemma run_same_ts: "noise_step cv l l' \<Longrightarrow> same_ts l l' \<Longrightarrow> run cv l l'"
  by (auto simp: run_def same_ts_def)

lemma steps_ident: "(noise_step cv)\<^sup>*\<^sup>* l l' \<Longrightarrow> ident_kept l l'"
  by (induction rule: rtranclp_induct) (auto simp: ident_kept_def dest: noise_step_ident)

lemma run_ident:
  "run cv l l' \<Longrightarrow> r < next_remote l \<Longrightarrow>
   r_arg (remotes l' r) = r_arg (remotes l r) \<and> r_public (remotes l' r) = r_public (remotes l r)"
  by (auto simp: run_def ident_kept_def dest: steps_ident)

lemma steps_reach: "(noise_step cv)\<^sup>*\<^sup>* l l' \<Longrightarrow> noise_reach cv l \<Longrightarrow> noise_reach cv l'"
  by (induction rule: rtranclp_induct) (auto intro: noise_reach.step)

lemma run_puts [simp]: "run cv l (noise_keypair_put k l)" "run cv l (noise_remote_put r l)"
  by (auto intro!: run_step noise_step.intros)

lemma run_upd_nonce: "run cv l (snd (snd (nonce_next_at k l)))"
proof -
  have "snd (snd (nonce_next_at k l)) = upd_keypair k (\<lambda>kp. snd (snd (noise_keypair_nonce_next kp))) l"
    by (simp add: nonce_next_at_def upd_keypair_def case_prod_unfold)
  then show ?thesis by (simp add: run_step noise_step.intros)
qed

lemma same_ts_current: "same_ts l (snd (noise_keypair_current r now l))"
  by (simp add: same_ts_def noise_keypair_current_def acquire_keypair_def split: option.split)

lemma same_ts_keypair_lookup: "same_ts l (snd (noise_keypair_lookup l i))"
  by (simp add: same_ts_def noise_keypair_lookup_def acquire_keypair_def split: option.split index_ref.split)

lemma same_ts_received_with: "same_ts l (snd (noise_keypair_received_with k l))"
  by (simp add: same_ts_def noise_keypair_received_with_def Let_def)

lemma run_interface:
  "run cv l (snd (noise_keypair_current r now l))"
  "run cv l (snd (noise_keypair_lookup l i))"
  "run cv l (snd (noise_keypair_received_with k l))"
  "run cv l (snd (noise_keypair_remote k l))"
  "run cv l (snd (snd (noise_create_response cv r now rnd ok l)))"
  "run cv l (snd (snd (noise_consume_response cv s_idx r_idx ue en now ok l)))"
  by (auto intro!: run_same_ts noise_step.intros same_ts_current same_ts_keypair_lookup same_ts_received_with
      ts_create_response ts_consume_response simp: same_ts_def noise_keypair_remote_def)

lemma run_create_initiation:
  "r < next_remote l \<Longrightarrow> noise_create_initiation cv r now time rnd draws l = Some (e, out, l') \<Longrightarrow> run cv l l'"
  by (blast intro: run_same_ts noise_step.intros(25) ts_create_initiation)

lemma run_consume_initiation:
  assumes "length ets = 28" "noise_consume_initiation cv s_idx ue es ets now draws l = Some (e, ro, l')"
  shows "run cv l l'"
proof -
  have "next_remote l' = next_remote l"
    using consume_initiation_accepted [of cv s_idx ue es ets now draws l ro l'] consume_initiation_error [OF assms(2)] assms(2)
    by (cases "e = OK") auto
  with run_step noise_step.intros(26) [OF assms] show ?thesis by blast
qed

lemma run_seal: "run cv l (snd (wgs_seal env r scratch l))"
proof -
  obtain ko l1 where c: "noise_keypair_current r (e_uptime env) l = (ko, l1)" by fastforce
  then have 1: "run cv l l1" using run_interface(1) [of cv l r "e_uptime env"] by simp
  have 2: "run cv l (snd (snd (nonce_next_at k l1)))" for k using 1 run_upd_nonce by (rule run_trans)
  then have "run cv l (noise_keypair_put k (snd (snd (nonce_next_at k l1))))" for k
    using run_puts(1) by (rule run_trans)
  then show ?thesis using 1
    by (simp add: wgs_seal_def c Let_def case_prod_unfold split: option.split)
qed

lemma run_open: "run cv l (snd (wgs_open env pkt l))"
proof -
  obtain ko l1 where c: "noise_keypair_lookup l (le32dec (drop 4 pkt)) = (ko, l1)" by fastforce
  then have 1: "run cv l l1" using run_interface(2) [of cv l "le32dec (drop 4 pkt)"] by simp
  then have "run cv l (noise_keypair_put k l1)" for k using run_puts(1) by (rule run_trans)
  then show ?thesis using 1
    by (simp add: wgs_open_def c Let_def case_prod_unfold split: option.split)
qed

subsection \<open>What the data plane keeps\<close>

definition peer_kept :: "wgs_peer \<Rightarrow> wgs_peer \<Rightarrow> bool" where
  "peer_kept p p' \<longleftrightarrow> p_active p' = p_active p \<and> p_pubkey p' = p_pubkey p \<and> p_psk p' = p_psk p \<and>
     p_has_psk p' = p_has_psk p \<and> p_allowed p' = p_allowed p \<and> p_pk_sec p' = p_pk_sec p \<and> p_remote p' = p_remote p \<and>
     (maker_ok (p_cookie p) \<longrightarrow> maker_ok (p_cookie p'))"

definition frame_ok :: "curve \<Rightarrow> wg_session \<Rightarrow> wg_session \<Rightarrow> bool" where
  "frame_ok cv s s' \<longleftrightarrow> run cv (s_local s) (s_local s') \<and> length (s_peers s') = length (s_peers s) \<and>
     (\<forall>i < length (s_peers s). peer_kept (s_peers s ! i) (s_peers s' ! i)) \<and>
     s_private_key s' = s_private_key s \<and> s_listen_port s' = s_listen_port s \<and> s_if_addrs s' = s_if_addrs s \<and>
     s_checker s' = s_checker s \<and> s_checker_inited s' = s_checker_inited s \<and>
     s_aips_v4 s' = s_aips_v4 s \<and> s_aips_v6 s' = s_aips_v6 s \<and> s_aips_inited s' = s_aips_inited s \<and> s_cb s' = s_cb s"

lemma peer_kept_refl [simp]: "peer_kept p p"
  by (simp add: peer_kept_def)

lemma frame_refl [simp]: "frame_ok cv s s"
  by (simp add: frame_ok_def)

lemma frame_trans [trans]:
  assumes "frame_ok cv a b" "frame_ok cv b c"
  shows "frame_ok cv a c"
proof -
  have "peer_kept (s_peers a ! i) (s_peers c ! i)" if "i < length (s_peers a)" for i
  proof -
    have "peer_kept (s_peers a ! i) (s_peers b ! i)" "peer_kept (s_peers b ! i) (s_peers c ! i)"
      using assms that by (simp_all add: frame_ok_def)
    then show ?thesis by (simp add: peer_kept_def)
  qed
  then show ?thesis using assms run_trans by (auto simp: frame_ok_def)
qed

lemma frame_local: "run cv (s_local s) l \<Longrightarrow> frame_ok cv s (s\<lparr>s_local := l\<rparr>)"
  by (simp add: frame_ok_def)

lemma frame_upd_peer:
  "(i < length (s_peers s) \<Longrightarrow> peer_kept (s_peers s ! i) (f (s_peers s ! i))) \<Longrightarrow> frame_ok cv s (upd_peer i f s)"
  by (cases "i < length (s_peers s)") (auto simp: frame_ok_def upd_peer_def nth_list_update)

lemma frame_upcalls [simp]:
  "frame_ok cv s (wgs_log msg s)" "frame_ok cv s (send_udp pkt sa n s)" "frame_ok cv s (deliver_ip pkt s)"
  by (simp_all add: frame_ok_def wgs_log_def send_udp_def deliver_ip_def)

lemmas frame_log = frame_trans [OF _ frame_upcalls(1)]
  and frame_send = frame_trans [OF _ frame_upcalls(2)]
  and frame_deliver = frame_trans [OF _ frame_upcalls(3)]

lemma frame_peer_trans:
  "frame_ok cv s t \<Longrightarrow> (i < length (s_peers t) \<Longrightarrow> peer_kept (s_peers t ! i) (f (s_peers t ! i))) \<Longrightarrow>
   frame_ok cv s (upd_peer i f t)"
  by (rule frame_trans [OF _ frame_upd_peer])

lemma frame_local_trans:
  "frame_ok cv s t \<Longrightarrow> run cv (s_local t) l \<Longrightarrow> frame_ok cv s (t\<lparr>s_local := l\<rparr>)"
  by (rule frame_trans [OF _ frame_local])

lemma s_local_frames [simp]:
  "s_local (upd_peer i f s) = s_local s" "s_local (wgs_log msg s) = s_local s" "s_local (send_udp pkt sa n s) = s_local s"
  "s_local (deliver_ip pkt s) = s_local s"
  by (simp_all add: upd_peer_def wgs_log_def send_udp_def deliver_ip_def)

lemma s_peers_upcalls [simp]:
  "s_peers (wgs_log msg s) = s_peers s" "s_peers (send_udp pkt sa n s) = s_peers s"
  "s_peers (deliver_ip pkt s) = s_peers s"
  by (simp_all add: wgs_log_def send_udp_def deliver_ip_def)

lemma set_endpoint_kept [simp]: "peer_kept p (set_endpoint sa n p)"
  by (simp add: peer_kept_def set_endpoint_def)

subsection \<open>Every call of the data plane is a frame step\<close>

lemma frame_encap: "wgs_encap env i plain s = Some (rc, s') \<Longrightarrow> frame_ok cv s s'"
proof -
  have 1: "frame_ok cv s (s\<lparr>s_local := l\<rparr>)" if "wgs_seal env r scratch (s_local s) = (out, l)" for r scratch out l
    using run_seal [of cv "s_local s" env r scratch] that by (intro frame_local) simp
  have 2: "frame_ok cv s ((upd_peer i f (send_udp out sa n s))\<lparr>s_local := l\<rparr>)"
    if "wgs_seal env r scratch (s_local s) = (x, l)" "\<And>p. peer_kept p (f p)" for r scratch x l f out sa n
    using run_seal [of cv "s_local s" env r scratch] that
    by (intro frame_local_trans frame_peer_trans frame_send) simp_all
  show "wgs_encap env i plain s = Some (rc, s') \<Longrightarrow> frame_ok cv s s'"
    by (auto simp: wgs_encap_def Let_def peer_kept_def split: if_splits option.splits prod.splits intro!: 1 2)
qed

lemma frame_receive: "frame_ok cv s (snd (wgs_receive i m from n s))"
  by (auto simp: wgs_receive_def Let_def intro!: frame_peer_trans frame_log frame_deliver)
    (auto simp: peer_kept_def)

lemma frame_handle_data: "frame_ok cv s (snd (wgs_handle_data env pkt from n s))"
proof -
  obtain x l where o: "wgs_open env pkt (s_local s) = (x, l)" by fastforce
  then have l: "run cv (s_local s) l" using run_open [of cv "s_local s" env pkt] by simp
  have 1: "frame_ok cv s (s\<lparr>s_local := l\<rparr>)" using l by (rule frame_local)
  have 2: "run cv (s_local s) (noise_remote_put r (snd (noise_keypair_remote k (snd (noise_keypair_received_with k l)))))" for k r
    by (rule run_trans [OF run_trans [OF run_trans [OF l run_interface(3)] run_interface(4)] run_puts(2)])
  have 3: "frame_ok cv s (t\<lparr>s_local := noise_keypair_put k (s_local t)\<rparr>)" if "frame_ok cv s t" for t k
    using that by (rule frame_local_trans) simp
  have 4: "frame_ok cv s (snd (wgs_receive i m from n (s\<lparr>s_local := noise_remote_put r (snd (noise_keypair_remote k
      (snd (noise_keypair_received_with k l))))\<rparr>)))" for i m k r
    using frame_local [OF 2] frame_receive by (rule frame_trans)
  show ?thesis
    using 1 4 by (auto simp: wgs_handle_data_def o Let_def case_prod_unfold split: option.split sum.split
        intro!: frame_log 3)
qed

lemma maker_mac_kept: "cookie_maker_mac (p_cookie p) buf now = (cm, ms) \<Longrightarrow> peer_kept p (p\<lparr>p_cookie := cm\<rparr>)"
  using cookie_maker_mac_spec by (simp add: peer_kept_def)

text \<open>The pointers to remotes that the peers hold are valid.\<close>

definition remotes_valid :: "wg_session \<Rightarrow> bool" where
  "remotes_valid s \<longleftrightarrow> (\<forall>i < length (s_peers s). \<forall>r. p_remote (s_peers s ! i) = Some r \<longrightarrow> r < next_remote (s_local s))"

lemma frame_remotes_valid: "frame_ok cv s s' \<Longrightarrow> remotes_valid s \<Longrightarrow> remotes_valid s'"
  by (auto simp: frame_ok_def remotes_valid_def peer_kept_def run_def)

lemma frame_initiation_sent: "frame_ok cv s (initiation_sent env i why msg s)"
proof -
  obtain cm m where c: "cookie_maker_mac (p_cookie (s_peers s ! i)) (initiation_pkt msg) (e_uptime env) = (cm, m)"
    by fastforce
  show ?thesis
    unfolding initiation_sent_def Let_def c prod.case
    by (intro frame_log frame_peer_trans frame_send frame_refl)
      (use maker_mac_kept [OF c] in \<open>auto simp: peer_kept_def\<close>)
qed

lemma frame_response_sent: "frame_ok cv s (response_sent env i r msg from n s)"
proof -
  obtain cm m where c: "cookie_maker_mac (p_cookie (s_peers s ! i)) (response_pkt msg) (e_uptime env) = (cm, m)"
    by fastforce
  show ?thesis
    unfolding response_sent_def Let_def c prod.case
    by (intro frame_log frame_peer_trans frame_local_trans frame_send frame_refl)
      (use maker_mac_kept [OF c] in \<open>auto simp: peer_kept_def set_endpoint_def\<close>)
qed

lemma frame_send_initiation:
  assumes "remotes_valid s" "i < length (s_peers s)" "wgs_send_initiation cv env i why s = Some (rc, s')"
  shows "frame_ok cv s s'"
proof -
  have 1: "frame_ok cv s (s\<lparr>s_local := l\<rparr>)"
    if "noise_create_initiation cv r now time rnd draws (s_local s) = Some (e, out, l)" "p_remote (s_peers s ! i) = Some r"
    for r now time rnd draws e out l
    using run_create_initiation [OF _ that(1)] that(2) assms(1,2) by (intro frame_local) (simp add: remotes_valid_def)
  show ?thesis
    using assms(3)
    by (auto simp: wgs_send_initiation_def Let_def split: if_splits option.splits
        intro!: frame_log [OF 1] frame_trans [OF 1 frame_initiation_sent])
qed

lemma validate_unloaded: "snd (snd (cookie_checker_validate_macs g cc m buf False sa vnet now rnd rnd' a)) = cc"
  by (simp add: cookie_checker_validate_macs_def Let_def)

lemma frame_handle_initiation:
  assumes "wgs_handle_initiation cv env pkt from n s = Some (rc, s')"
  shows "frame_ok cv s s'"
proof (cases "length pkt < 148")
  case False
  let ?m = "\<lparr>mac1 = take 16 (drop 116 pkt), mac2 = take 16 (drop 132 pkt)\<rparr>"
  obtain e g where v: "cookie_checker_validate_macs (e_globals env) (s_checker s) ?m (take 116 pkt) False from 0
      (e_uptime env) [] [] True = (e, g, s_checker s)"
    using validate_unloaded by (metis prod.collapse)
  have s: "s\<lparr>s_checker := s_checker s\<rparr> = s" by simp
  have ets: "length (take 28 (drop 88 pkt)) = 28" using False by simp
  have 1: "run cv (s_local s) l"
    if "noise_consume_initiation cv s_idx ue es (take 28 (drop 88 pkt)) now draws (s_local s) = Some (e, ro, l)"
    for s_idx ue es now draws e ro l
    by (rule run_consume_initiation [OF ets that])
  have 2: "run cv (s_local s) m" if "run cv (s_local s) l" "noise_create_response cv r now rnd ok l = (e, x, m)"
    for r now rnd ok l e x m
    using run_trans [OF that(1) run_interface(5) [of cv l r now rnd ok]] by (simp add: that(2))
  have 3: "run cv (s_local s) (noise_remote_put r m)"
    if "run cv (s_local s) l" "noise_create_response cv r now rnd ok l = (e, x, m)" for r now rnd ok l e x m
    using 2 [OF that] run_puts(2) by (rule run_trans)
  show ?thesis
    using assms False
    by (auto simp: wgs_handle_initiation_def v s Let_def split: if_splits option.splits prod.splits
        dest!: 1 intro: 3 intro!: frame_log frame_local frame_trans [OF frame_local [OF 2] frame_response_sent])
qed (use assms in \<open>simp add: wgs_handle_initiation_def\<close>)

lemma frame_handle_response: "frame_ok cv s (snd (wgs_handle_response cv env pkt s))"
proof -
  have 1: "run cv (s_local s) l"
    if "noise_consume_response cv a b ue en now ok (s_local s) = (e, x, l)" for a b ue en now ok e x l
    using run_interface(6) [of cv "s_local s" a b ue en now ok] by (simp add: that)
  have 2: "run cv (s_local s) (noise_remote_put r l)"
    if "noise_consume_response cv a b ue en now ok (s_local s) = (e, x, l)" for a b ue en now ok e x l r
    using 1 [OF that] run_puts(2) by (rule run_trans)
  show ?thesis
    by (auto simp: wgs_handle_response_def Let_def split: option.splits prod.splits
        intro!: frame_log frame_peer_trans frame_local 1 2) (auto simp: peer_kept_def)
qed

lemma consume_payload_ok:
  assumes "maker_ok cm" "length ecookie = 32" "cookie_maker_consume_payload cm nonce ecookie now = (e, cm')"
  shows "maker_ok cm'"
proof (cases "xchacha20_poly1305_decrypt ecookie (cm_mac1_last cm) nonce (cm_cookie_key cm)")
  case (Some c)
  then have "ecookie = xchacha20_poly1305_encrypt c (cm_mac1_last cm) nonce (cm_cookie_key cm)"
    using xbox.open_iff by blast
  then have "length c = 16" using assms(2) xbox.length_seal by simp
  then show ?thesis using assms Some by (auto simp: cookie_maker_consume_payload_def maker_ok_def split: if_splits)
qed (use assms in \<open>auto simp: cookie_maker_consume_payload_def split: if_splits\<close>)

lemma frame_handle_cookie: "frame_ok cv s (snd (wgs_handle_cookie env pkt s))"
proof (cases "length pkt < 64")
  case False
  then have "length (take 32 (drop 32 pkt)) = 32" by simp
  note ok = consume_payload_ok [OF _ this]
  have 1: "frame_ok cv s (upd_peer i (\<lambda>p. p\<lparr>p_cookie := cm\<rparr>) s)"
    if "cookie_maker_consume_payload (p_cookie (s_peers s ! i)) nonce (take 32 (drop 32 pkt)) now = (e, cm)"
    for i nonce now e cm
    using ok that by (intro frame_upd_peer) (auto simp: peer_kept_def)
  show ?thesis
    by (auto simp: wgs_handle_cookie_def Let_def split: option.splits prod.splits intro!: frame_log 1)
qed (simp add: wgs_handle_cookie_def)

lemma frame_handle_udp:
  "wg_session_handle_udp cv env pkt from n s = Some (rc, s') \<Longrightarrow> frame_ok cv s s'"
  using frame_handle_data [of cv s env pkt "from" n] frame_handle_response [of cv s env pkt]
    frame_handle_cookie [of cv s env pkt] frame_handle_initiation [of cv env pkt "from" n s rc s']
  by (auto simp: wg_session_handle_udp_def Let_def split: if_splits)

lemma frame_handle_tun: "wg_session_handle_tun env pkt s = Some (rc, s') \<Longrightarrow> frame_ok cv s s'"
  by (auto simp: wg_session_handle_tun_def split: if_splits option.splits intro: frame_encap)

lemma frame_length: "frame_ok cv s s' \<Longrightarrow> length (s_peers s') = length (s_peers s)"
  by (simp add: frame_ok_def)

lemma frame_tick_retransmit:
  assumes "remotes_valid s" "i < length (s_peers s)" "tick_retransmit cv now env i s = Some s'"
  shows "frame_ok cv s s'"
proof -
  have 1: "frame_ok cv s (upd_peer i (\<lambda>p. p\<lparr>p_hs_sent_at := now\<rparr>) s)"
    by (rule frame_upd_peer) (simp add: peer_kept_def)
  have 2: "frame_ok cv s t" if "wgs_send_initiation cv env i why (upd_peer i (\<lambda>p. p\<lparr>p_hs_sent_at := now\<rparr>) s) = Some (rc, t)"
    for why rc t
    using frame_send_initiation [OF frame_remotes_valid [OF 1 assms(1)] _ that] assms(2) frame_trans [OF 1]
    by (simp add: frame_length [OF 1])
  have 3: "frame_ok cv s (upd_peer i (\<lambda>p. p\<lparr>p_hs_pending := False, p_hs_attempts := 0\<rparr>)
      (wgs_log msg (upd_peer i (\<lambda>p. p\<lparr>p_hs_sent_at := now\<rparr>) s)))" for msg
    using 1 by (intro frame_peer_trans frame_log) (simp_all add: peer_kept_def)
  show ?thesis
    using assms(3) 2 3 by (auto simp: tick_retransmit_def Let_def split: if_splits)
qed

lemma frame_tick_rekey:
  assumes "remotes_valid s" "i < length (s_peers s)" "tick_rekey cv now env i s = Some s'"
  shows "frame_ok cv s s'"
proof -
  have 1: "frame_ok cv s (upd_peer i (\<lambda>p. p\<lparr>p_hs_attempts := 0\<rparr>) s)"
    by (rule frame_upd_peer) (simp add: peer_kept_def)
  have 2: "frame_ok cv s t" if "wgs_send_initiation cv env i why (upd_peer i (\<lambda>p. p\<lparr>p_hs_attempts := 0\<rparr>) s) = Some (rc, t)"
    for why rc t
    using frame_send_initiation [OF frame_remotes_valid [OF 1 assms(1)] _ that] assms(2) frame_trans [OF 1]
    by (simp add: frame_length [OF 1])
  show ?thesis using assms(3) 2 by (auto simp: tick_rekey_def Let_def split: if_splits)
qed

lemma frame_tick_keepalive: "tick_keepalive now env i s = Some s' \<Longrightarrow> frame_ok cv s s'"
  by (auto simp: tick_keepalive_def Let_def split: if_splits intro: frame_encap)

lemma frame_tick_peer:
  assumes "remotes_valid s" "i < length (s_peers s)" "tick_peer cv now env i s = Some s'"
  shows "frame_ok cv s s'"
proof (cases "p_active (s_peers s ! i)")
  case True
  then obtain t u where t: "tick_retransmit cv now env i s = Some t" "tick_rekey cv now env i t = Some u"
    "tick_keepalive now env i u = Some s'"
    using assms(3) by (auto simp: tick_peer_def bind_eq_Some_conv)
  have 1: "frame_ok cv s t" by (rule frame_tick_retransmit [OF assms(1,2) t(1)])
  have 2: "frame_ok cv t u"
    using frame_tick_rekey [OF frame_remotes_valid [OF 1 assms(1)] _ t(2)] assms(2) by (simp add: frame_length [OF 1])
  show ?thesis by (rule frame_trans [OF frame_trans [OF 1 2] frame_tick_keepalive [OF t(3)]])
qed (use assms in \<open>simp add: tick_peer_def\<close>)

lemma frame_tick_peers:
  "tick_peers cv now envs is s = Some s' \<Longrightarrow> remotes_valid s \<Longrightarrow> \<forall>i \<in> set is. i < length (s_peers s) \<Longrightarrow>
   frame_ok cv s s'"
proof (induction "is" arbitrary: s)
  case (Cons i "is")
  then obtain t where t: "tick_peer cv now (envs i) i s = Some t" "tick_peers cv now envs is t = Some s'"
    by (auto split: option.splits)
  have 1: "frame_ok cv s t" using frame_tick_peer [OF Cons.prems(2) _ t(1)] Cons.prems(3) by simp
  have "frame_ok cv t s'"
    using Cons.IH [OF t(2) frame_remotes_valid [OF 1 Cons.prems(2)]] Cons.prems(3) by (simp add: frame_length [OF 1])
  with 1 show ?case by (rule frame_trans)
qed simp

lemma frame_tick: "wg_session_tick cv now envs s = Some s' \<Longrightarrow> remotes_valid s \<Longrightarrow> frame_ok cv s s'"
  unfolding wg_session_tick_def by (rule frame_tick_peers) auto

lemma frame_kick:
  "wg_session_kick cv env s = Some (rc, s') \<Longrightarrow> remotes_valid s \<Longrightarrow> frame_ok cv s s'"
  by (auto simp: wg_session_kick_def find_Some_iff split: option.splits intro: frame_send_initiation)

end
