(* ===== verification/SessionReach.thy ===== *)
theory SessionReach
  imports SessionInv
begin

text \<open>
  The states a session of \<^verbatim>\<open>src/wg_session.c\<close> can reach, its invariant, and routing: what the
  tries answer in terms of the AllowedIPs of the active peers, through the interpretations of the
  locale \<open>cidr_table\<close> on the trie of \<^verbatim>\<open>allowedips.c\<close>.
\<close>

subsection \<open>The routing tables\<close>

text \<open>The CIDRs of the active peers for one family, in the order of the loops that insert them.\<close>

definition peer_cidrs :: "af \<Rightarrow> nat \<Rightarrow> wgs_peer \<Rightarrow> (bytes \<times> nat \<times> nat) list" where
  "peer_cidrs fam i p =
     map (\<lambda>c. (c_addr c, nat (c_prefix_len c), i)) (filter (\<lambda>c. c_family c = fam) (p_allowed p))"

definition cidrs_of :: "af \<Rightarrow> wgs_peer list \<Rightarrow> (bytes \<times> nat \<times> nat) list" where
  "cidrs_of fam ps =
     concat (map (\<lambda>i. if p_active (ps ! i) then peer_cidrs fam i (ps ! i) else []) [0..<length ps])"

definition routing_ok :: "wg_session \<Rightarrow> bool" where
  "routing_ok s \<longleftrightarrow> s_aips_inited s \<and>
     s_aips_v4 s = build_table aips_put (aips_init 32) (cidrs_of AF_INET (s_peers s)) \<and>
     s_aips_v6 s = build_table aips_put (aips_init 128) (cidrs_of AF_INET6 (s_peers s))"

lemma build_table_append:
  "build_table ins e (xs @ ys) = build_table ins (build_table ins e xs) ys"
  by (simp add: build_table_def)

lemma add_cidrs_eq:
  "fold (add_cidr i) cs s =
     s\<lparr>s_aips_v4 := build_table aips_put (s_aips_v4 s)
          (map (\<lambda>c. (c_addr c, nat (c_prefix_len c), i)) (filter (\<lambda>c. c_family c = AF_INET) cs)),
       s_aips_v6 := build_table aips_put (s_aips_v6 s)
          (map (\<lambda>c. (c_addr c, nat (c_prefix_len c), i)) (filter (\<lambda>c. c_family c = AF_INET6) cs))\<rparr>"
proof (induction cs arbitrary: s)
  case (Cons c cs)
  have "c_family c = AF_INET \<or> c_family c = AF_INET6" by (cases "c_family c") simp_all
  then show ?case
    unfolding fold_simps Cons.IH
    by (elim disjE) (simp_all add: add_cidr_def aips_put_def build_table_def)
qed simp

lemma add_peer_cidrs_eq:
  "add_peer_cidrs i s =
     s\<lparr>s_aips_v4 := build_table aips_put (s_aips_v4 s) (peer_cidrs AF_INET i (s_peers s ! i)),
       s_aips_v6 := build_table aips_put (s_aips_v6 s) (peer_cidrs AF_INET6 i (s_peers s ! i))\<rparr>"
  by (simp add: add_peer_cidrs_def add_cidrs_eq peer_cidrs_def)

lemma add_all_cidrs_eq:
  "fold (\<lambda>i s. if p_active (s_peers s ! i) then add_peer_cidrs i s else s) is s =
     s\<lparr>s_aips_v4 := build_table aips_put (s_aips_v4 s)
          (concat (map (\<lambda>i. if p_active (s_peers s ! i) then peer_cidrs AF_INET i (s_peers s ! i) else []) is)),
       s_aips_v6 := build_table aips_put (s_aips_v6 s)
          (concat (map (\<lambda>i. if p_active (s_peers s ! i) then peer_cidrs AF_INET6 i (s_peers s ! i) else []) is))\<rparr>"
proof (induction "is" arbitrary: s)
  case (Cons i "is")
  show ?case
    unfolding fold_simps Cons.IH
    by (cases "p_active (s_peers s ! i)") (simp_all add: add_peer_cidrs_eq build_table_append cong: if_cong)
qed simp

lemma add_active_cidrs:
  "\<forall>i \<in> set is. p_active (s_peers s ! i) \<Longrightarrow>
   fold add_peer_cidrs is s = fold (\<lambda>i s. if p_active (s_peers s ! i) then add_peer_cidrs i s else s) is s"
proof (induction "is" arbitrary: s)
  case (Cons i "is")
  then show ?case by (simp add: add_peer_cidrs_eq [of i s])
qed simp

lemma rebuild_aips_eq:
  "rebuild_aips s =
     s\<lparr>s_aips_v4 := build_table aips_put (aips_init 32) (cidrs_of AF_INET (s_peers s)),
       s_aips_v6 := build_table aips_put (aips_init 128) (cidrs_of AF_INET6 (s_peers s)), s_aips_inited := True\<rparr>"
  by (simp add: rebuild_aips_def Let_def add_all_cidrs_eq cidrs_of_def cong: if_cong)

lemma routing_rebuild: "routing_ok (rebuild_aips s)"
  by (simp add: routing_ok_def rebuild_aips_eq)

lemma routing_frame:
  assumes "frame_ok cv s s'" "routing_ok s"
  shows "routing_ok s'"
proof -
  have "cidrs_of fam (s_peers s') = cidrs_of fam (s_peers s)" for fam
    using assms(1)
    by (auto simp: cidrs_of_def peer_cidrs_def frame_ok_def peer_kept_def intro!: arg_cong [where f = concat])
  then show ?thesis using assms by (simp add: routing_ok_def frame_ok_def)
qed

subsection \<open>The invariant\<close>

text \<open>A peer points to its own remote, which points back; every remote points to a slot in use.\<close>

definition links_ok :: "wg_session \<Rightarrow> bool" where
  "links_ok s \<longleftrightarrow> (\<forall>r < next_remote (s_local s). r_arg (remotes (s_local s) r) < length (s_peers s)) \<and>
     (\<forall>i < length (s_peers s). \<forall>r. p_remote (s_peers s ! i) = Some r \<longrightarrow>
        p_active (s_peers s ! i) \<and> r < next_remote (s_local s) \<and> r_arg (remotes (s_local s) r) = i \<and>
        r_public (remotes (s_local s) r) = p_pubkey (s_peers s ! i))"

definition core_inv :: "curve \<Rightarrow> wg_session \<Rightarrow> bool" where
  "core_inv cv s \<longleftrightarrow> noise_reach cv (s_local s) \<and> config_ok s \<and> checker_ok (s_checker s) \<and> links_ok s"

definition session_inv :: "curve \<Rightarrow> wg_session \<Rightarrow> bool" where
  "session_inv cv s \<longleftrightarrow> core_inv cv s \<and> routing_ok s"

lemma links_remotes_valid: "links_ok s \<Longrightarrow> remotes_valid s"
  by (auto simp: links_ok_def remotes_valid_def)

lemma core_frame:
  assumes "frame_ok cv s s'" "core_inv cv s"
  shows "core_inv cv s'"
proof -
  have reach: "noise_reach cv (s_local s')"
    using assms steps_reach by (auto simp: frame_ok_def run_def core_inv_def)
  have peer: "peer_ok (s_peers s' ! i)" if "i < length (s_peers s')" for i
  proof -
    have "peer_kept (s_peers s ! i) (s_peers s' ! i)" "peer_ok (s_peers s ! i)"
      using assms that by (simp_all add: frame_ok_def core_inv_def config_ok_def)
    then show ?thesis by (simp add: peer_kept_def peer_ok_def)
  qed
  then have "\<forall>p \<in> set (s_peers s'). peer_ok p" by (metis in_set_conv_nth)
  then have conf: "config_ok s'"
    using assms by (simp add: frame_ok_def core_inv_def config_ok_def)
  have nx: "next_remote (s_local s') = next_remote (s_local s)" using assms(1) by (simp add: frame_ok_def run_def)
  have arg: "r_arg (remotes (s_local s') r) = r_arg (remotes (s_local s) r) \<and>
      r_public (remotes (s_local s') r) = r_public (remotes (s_local s) r)" if "r < next_remote (s_local s)" for r
    by (rule run_ident [of cv, OF _ that]) (use assms(1) in \<open>simp add: frame_ok_def\<close>)
  have "links_ok s'"
    using assms nx arg by (simp add: links_ok_def core_inv_def frame_ok_def peer_kept_def)
  then show ?thesis using reach conf assms by (simp add: core_inv_def frame_ok_def)
qed

lemma session_frame: "frame_ok cv s s' \<Longrightarrow> session_inv cv s \<Longrightarrow> session_inv cv s'"
  using core_frame routing_frame by (auto simp: session_inv_def)

lemma core_log [simp]: "core_inv cv (wgs_log msg s) \<longleftrightarrow> core_inv cv s"
  by (simp add: core_inv_def config_ok_def links_ok_def wgs_log_def)

lemma core_upd_peer:
  assumes "core_inv cv s"
    "i < length (s_peers s) \<Longrightarrow> peer_ok (s_peers s ! i) \<Longrightarrow> peer_ok (f (s_peers s ! i)) \<and>
      (p_remote (f (s_peers s ! i)) = None \<or>
       p_remote (f (s_peers s ! i)) = p_remote (s_peers s ! i) \<and> p_active (f (s_peers s ! i)) = p_active (s_peers s ! i) \<and>
       p_pubkey (f (s_peers s ! i)) = p_pubkey (s_peers s ! i))"
  shows "core_inv cv (upd_peer i f s)"
proof -
  have "i < length (s_peers s) \<Longrightarrow> peer_ok (s_peers s ! i)" using assms(1) by (simp add: core_inv_def config_ok_def)
  then have "config_ok (upd_peer i f s)" using assms by (intro config_ok_upd) (simp_all add: core_inv_def)
  moreover have "links_ok (upd_peer i f s)"
    using assms \<open>i < length (s_peers s) \<Longrightarrow> peer_ok (s_peers s ! i)\<close>
    by (cases "i < length (s_peers s)") (auto simp: core_inv_def links_ok_def upd_peer_def nth_list_update)
  ultimately show ?thesis using assms(1) by (simp add: core_inv_def upd_peer_def)
qed

lemma core_local:
  assumes "core_inv cv s" "noise_step cv (s_local s) l" "next_remote l = next_remote (s_local s)"
  shows "core_inv cv (s\<lparr>s_local := l\<rparr>)"
  using core_frame [OF frame_local [OF run_step [OF assms(2,3)]] assms(1)] .

subsection \<open>UAPI SET keeps the invariant\<close>

lemma remote_alloc_result:
  assumes "noise_remote_alloc cv l arg pk = (r, l')"
  shows "r = next_remote l" "next_remote l' = Suc (next_remote l)" "r_arg (remotes l' r) = arg"
    "r_public (remotes l' r) = pk" "x \<noteq> r \<Longrightarrow> remotes l' x = remotes l x"
  using assms
  by (auto simp: noise_remote_alloc_def Let_def noise_precompute_ss_def upd_remote_def noise_local_ref_def split: prod.splits)

text \<open>Enabling a new remote fails only when the table of \<^verbatim>\<open>wg_noise.c\<close> is full.\<close>

lemma remote_num_le: "noise_inv l \<Longrightarrow> l_remote_num l \<le> next_remote l"
proof -
  assume inv: "noise_inv l"
  then have "{r. r_entry_inserted (remotes l r)} \<subseteq> {..<next_remote l}"
    by (force simp: noise_inv_def fresh_ok_def not_less [symmetric])
  then have "card {r. r_entry_inserted (remotes l r)} \<le> card {..<next_remote l}" by (intro card_mono) simp_all
  with inv show ?thesis by (simp add: noise_inv_def remote_ok_def)
qed

lemma remote_enable_ok:
  assumes "noise_reach cv l" "Suc (next_remote l) < MAX_REMOTE_PER_LOCAL" "noise_remote_alloc cv l arg pk = (r, l1)"
  shows "\<exists>l2. noise_remote_enable r l1 = (OK, l2)"
proof -
  have "noise_reach cv l1"
    using assms(1,3) noise_reach.step [OF _ noise_step.intros(5) [of cv l arg pk]] by simp
  then have "l_remote_num l1 < MAX_REMOTE_PER_LOCAL"
    using remote_num_le [OF noise_reach_inv] assms(2) remote_alloc_result(2) [OF assms(3)] by fastforce
  then show ?thesis
    by (cases "r_entry_inserted (remotes l1 r)") (simp_all add: noise_remote_enable_def Let_def)
qed

text \<open>A new remote for slot \<open>i\<close> with the key \<open>pk\<close>.\<close>

lemma core_new_remote:
  assumes inv: "core_inv cv s" and i: "i < length (s_peers s)"
    and al: "noise_remote_alloc cv (s_local s) i pk = (r, l)" and en: "noise_remote_enable r l = (e, l')"
    and p: "p_remote p = Some r" "p_active p" "p_pubkey p = pk" "peer_ok p"
  shows "core_inv cv ((upd_peer i (\<lambda>_. p) s)\<lparr>s_local := l'\<rparr>)"
proof -
  note a = remote_alloc_result [OF al]
  have en': "next_remote l' = next_remote l" "\<And>x. r_arg (remotes l' x) = r_arg (remotes l x)"
    "\<And>x. r_public (remotes l' x) = r_public (remotes l x)"
    using en by (auto simp: noise_remote_enable_def Let_def split: if_splits)
  have "noise_reach cv l"
    using inv al noise_reach.step [OF _ noise_step.intros(5) [of cv "s_local s" i pk]] by (simp add: core_inv_def)
  then have reach: "noise_reach cv l'"
    using noise_reach.step [OF _ noise_step.intros(6) [of r l cv]] a en by simp
  have conf: "config_ok (upd_peer i (\<lambda>_. p) s)"
    using inv p(4) by (intro config_ok_upd) (simp_all add: core_inv_def)
  have "links_ok ((upd_peer i (\<lambda>_. p) s)\<lparr>s_local := l'\<rparr>)"
    unfolding links_ok_def
  proof (intro conjI allI impI)
    let ?s = "(upd_peer i (\<lambda>_. p) s)\<lparr>s_local := l'\<rparr>"
    fix x assume "x < next_remote (s_local ?s)"
    then have "x = r \<or> x < next_remote (s_local s)" using a en' by auto
    then show "r_arg (remotes (s_local ?s) x) < length (s_peers ?s)"
      using inv i a(3,5) en' by (cases "x = r") (auto simp: core_inv_def links_ok_def)
  next
    let ?s = "(upd_peer i (\<lambda>_. p) s)\<lparr>s_local := l'\<rparr>"
    fix j x assume j: "j < length (s_peers ?s)" "p_remote (s_peers ?s ! j) = Some x"
    have "p_active (s_peers ?s ! j) \<and> x < next_remote l' \<and> r_arg (remotes l' x) = j \<and> r_public (remotes l' x) = p_pubkey (s_peers ?s ! j)"
    proof (cases "j = i")
      case True
      then show ?thesis using j p a en' i by (simp add: upd_peer_def)
    next
      case False
      then have "j < length (s_peers s)" "p_remote (s_peers s ! j) = Some x" "s_peers ?s ! j = s_peers s ! j"
        using j by (simp_all add: upd_peer_def)
      then show ?thesis
        using inv a(1,2,5) en' by (auto simp: core_inv_def links_ok_def)
    qed
    then show "p_active (s_peers ?s ! j)" "x < next_remote (s_local ?s)" "r_arg (remotes (s_local ?s) x) = j"
      "r_public (remotes (s_local ?s) x) = p_pubkey (s_peers ?s ! j)" by simp_all
  qed
  then show ?thesis using reach conf inv by (simp add: core_inv_def config_ok_def upd_peer_def)
qed

lemma core_local_run:
  assumes "core_inv cv s" "run cv (s_local s) l"
  shows "core_inv cv (s\<lparr>s_local := l\<rparr>)"
  using core_frame [OF frame_local [OF assms(2)] assms(1)] .

lemma run_disable_put: "run cv l (noise_remote_put r (noise_remote_disable r l))"
proof -
  have "run cv l (noise_remote_disable r l)"
    by (rule run_step [OF noise_step.intros(7)]) (simp add: noise_remote_disable_def)
  then show ?thesis using run_puts(2) by (rule run_trans)
qed

lemma run_set_psk: "run cv l (noise_remote_set_psk r psk l)"
  by (rule run_step [OF noise_step.intros(14)]) (simp add: noise_remote_set_psk_def split: option.split)

lemma length_upd_peer_session [simp]: "length (s_peers (upd_peer i f s)) = length (s_peers s)"
  by (simp add: upd_peer_def)

lemma core_tombstone:
  assumes "core_inv cv s"
  shows "core_inv cv (peer_tombstone i s) \<and> length (s_peers (peer_tombstone i s)) = length (s_peers s)"
proof -
  define t where "t = (case p_remote (s_peers s ! i) of None \<Rightarrow> s
      | Some r \<Rightarrow> s\<lparr>s_local := noise_remote_put r (noise_remote_disable r (s_local s))\<rparr>)"
  have t: "core_inv cv t" "length (s_peers t) = length (s_peers s)"
    using core_local_run [OF assms run_disable_put] assms by (auto simp: t_def split: option.split)
  define u where "u = upd_peer i (\<lambda>p. if p_cookie_inited p
      then p\<lparr>p_cookie := cookie_maker_free (p_cookie p), p_cookie_inited := False\<rparr> else p) t"
  have "core_inv cv u"
    unfolding u_def by (rule core_upd_peer [OF t(1)]) (simp add: peer_ok_def cookie_maker_free_def maker_ok_def)
  then have "core_inv cv (upd_peer i (\<lambda>_. zero_peer) u)"
    by (rule core_upd_peer) (simp add: zero_peer_def [symmetric], simp add: zero_peer_def)
  moreover have "peer_tombstone i s = upd_peer i (\<lambda>_. zero_peer) u"
    by (simp add: peer_tombstone_def u_def t_def Let_def)
  ultimately show ?thesis using t(2) by (simp add: u_def)
qed

lemma core_alloc_slot:
  assumes "core_inv cv s" "alloc_peer_slot s = (io, s')"
  shows "core_inv cv s' \<and> (\<forall>i. io = Some i \<longrightarrow> i < length (s_peers s'))"
proof (cases "List.find (\<lambda>i. \<not> p_active (s_peers s ! i)) [0..<length (s_peers s)]")
  case None
  show ?thesis
  proof (cases "length (s_peers s) \<ge> WGS_MAX_PEERS")
    case False
    then have s': "s' = s\<lparr>s_peers := s_peers s @ [zero_peer]\<rparr>" "io = Some (length (s_peers s))"
      using assms(2) None by (simp_all add: alloc_peer_slot_def)
    have "p_remote zero_peer = None" by (simp add: zero_peer_def)
    then have "core_inv cv s'"
      using assms(1) False by (auto simp: s' core_inv_def config_ok_def links_ok_def nth_append less_Suc_eq)
    then show ?thesis by (simp add: s')
  qed (use assms None in \<open>auto simp: alloc_peer_slot_def\<close>)
next
  case (Some i)
  then have "i < length (s_peers s)" by (auto simp: find_Some_iff)
  with Some show ?thesis using assms by (auto simp: alloc_peer_slot_def)
qed

lemma core_init_runtime:
  assumes "core_inv cv s" "i < length (s_peers s)" "length pk = 32" "peer_init_runtime cv i pk s = (rc, s')"
  shows "core_inv cv s' \<and> length (s_peers s') = length (s_peers s)"
proof -
  obtain r l where al: "noise_remote_alloc cv (s_local s) i pk = (r, l)" by fastforce
  obtain e l' where en: "noise_remote_enable r l = (e, l')" by fastforce
  define p where "p = zero_peer\<lparr>p_pubkey := pk, p_active := True, p_remote := Some r\<rparr>"
  have p: "p_remote p = Some r" "p_active p" "p_pubkey p = pk" "peer_ok p"
    using assms(3) by (simp_all add: p_def) (simp add: peer_ok_def zero_peer_def maker_ok_def zero_cookie_maker_def)
  let ?t = "(upd_peer i (\<lambda>_. p) s)\<lparr>s_local := l'\<rparr>"
  have t: "core_inv cv ?t" by (rule core_new_remote [OF assms(1,2) al en p])
  have s': "s' = (if e \<noteq> OK then (upd_peer i (\<lambda>p. p\<lparr>p_remote := None\<rparr>) ?t)\<lparr>s_local := noise_remote_put r l'\<rparr>
      else upd_peer i (\<lambda>p. p\<lparr>p_cookie := cookie_maker_init pk, p_cookie_inited := True\<rparr>) ?t)"
    using assms(4) by (auto simp: peer_init_runtime_def al en p_def upd_peer_def split: if_splits)
  have 1: "core_inv cv (upd_peer i (\<lambda>p. p\<lparr>p_remote := None\<rparr>) ?t)"
    by (rule core_upd_peer [OF t]) (simp add: peer_ok_def)
  have 2: "core_inv cv ((upd_peer i (\<lambda>p. p\<lparr>p_remote := None\<rparr>) ?t)\<lparr>s_local := noise_remote_put r l'\<rparr>)"
    by (rule core_local_run [OF 1]) (simp add: upd_peer_def)
  have 3: "core_inv cv (upd_peer i (\<lambda>p. p\<lparr>p_cookie := cookie_maker_init pk, p_cookie_inited := True\<rparr>) ?t)"
    using maker_for_init by (intro core_upd_peer [OF t]) (simp add: peer_ok_def maker_for_def)
  show ?thesis using 2 3 by (simp add: s')
qed

text \<open>What a line of a request yields: \<open>Inl\<close> ends the request, \<open>Inr\<close> goes on with a valid peer.\<close>

definition line_ok :: "curve \<Rightarrow> wg_session + wg_session \<times> nat option \<Rightarrow> bool" where
  "line_ok cv res \<longleftrightarrow>
     (case res of
        Inl s \<Rightarrow> core_inv cv s
      | Inr (s, cur) \<Rightarrow> core_inv cv s \<and> (\<forall>i. cur = Some i \<longrightarrow> i < length (s_peers s)))"

lemma line_ok_simps [simp]:
  "line_ok cv (Inl s) \<longleftrightarrow> core_inv cv s"
  "line_ok cv (Inr (s, cur)) \<longleftrightarrow> core_inv cv s \<and> (\<forall>i. cur = Some i \<longrightarrow> i < length (s_peers s))"
  by (simp_all add: line_ok_def)

lemma set_public_key_ok:
  assumes "core_inv cv s"
  shows "line_ok cv (set_public_key cv val s)"
proof (cases "hex_decode val WG_KEY_LEN")
  case None
  then show ?thesis using assms by (simp add: set_public_key_def)
next
  case (Some pk)
  then have len: "length pk = 32" using hex_decode_length by (auto simp: WG_KEY_LEN_def)
  obtain io t where al: "alloc_peer_slot s = (io, t)" by fastforce
  note t = core_alloc_slot [OF assms al]
  have init: "core_inv cv u \<and> i < length (s_peers u)" if "io = Some i" "peer_init_runtime cv i pk t = (rc, u)" for i rc u
    using core_init_runtime [OF _ _ len that(2)] t that(1) by auto
  show ?thesis
    using assms t init Some
    by (auto simp: set_public_key_def al find_peer_by_pubkey_def find_Some_iff split: option.split prod.split)
qed

lemma set_preshared_key_ok:
  assumes "core_inv cv s" "i < length (s_peers s)"
  shows "line_ok cv (set_preshared_key val i s)"
proof (cases "hex_decode val WG_KEY_LEN")
  case (Some psk)
  then have "length psk = 32" using hex_decode_length by (auto simp: WG_KEY_LEN_def)
  then have 1: "core_inv cv (upd_peer i (\<lambda>p. p\<lparr>p_psk := psk, p_has_psk := list_ex (\<lambda>b. b \<noteq> 0) psk\<rparr>) s)"
    by (intro core_upd_peer [OF assms(1)]) (simp add: peer_ok_def)
  then show ?thesis
    using Some assms(2) core_local_run [OF 1 run_set_psk]
    by (auto simp: set_preshared_key_def Let_def split: option.split)
qed (use assms in \<open>simp add: set_preshared_key_def\<close>)

lemma set_endpoint_line_ok:
  assumes "core_inv cv s" "i < length (s_peers s)"
  shows "line_ok cv (set_endpoint_line nl val i s)"
proof (cases "peer_set_endpoint_str nl val (s_peers s ! i)")
  case (Some p)
  then have "p_remote p = p_remote (s_peers s ! i) \<and> p_active p = p_active (s_peers s ! i) \<and>
      p_pubkey p = p_pubkey (s_peers s ! i) \<and> (peer_ok (s_peers s ! i) \<longrightarrow> peer_ok p)"
    by (auto simp: peer_set_endpoint_str_def set_endpoint_def peer_ok_def Let_def split: option.splits prod.splits)
  then have "core_inv cv (upd_peer i (\<lambda>_. p) s)" by (intro core_upd_peer [OF assms(1)]) simp
  then show ?thesis using Some assms(2) by (simp add: set_endpoint_line_def Let_def)
qed (use assms in \<open>simp add: set_endpoint_line_def\<close>)

lemma set_allowed_ip_ok:
  assumes "netlib_ok nl" "core_inv cv s" "i < length (s_peers s)"
  shows "line_ok cv (set_allowed_ip nl val i s)"
proof (cases "length (p_allowed (s_peers s ! i)) \<ge> WGS_MAX_ALLOWED_CIDRS")
  case False
  have "core_inv cv (upd_peer i (\<lambda>p. p\<lparr>p_allowed := p_allowed p @ [c]\<rparr>) s)" if "parse_cidr nl val = Some c" for c
    using False parse_cidr_ok [OF assms(1) that] by (intro core_upd_peer [OF assms(2)]) (auto simp: peer_ok_def)
  then show ?thesis using assms False by (auto simp: set_allowed_ip_def split: option.split)
qed (use assms in \<open>simp add: set_allowed_ip_def\<close>)

lemma set_peer_key_ok:
  assumes "netlib_ok nl" "core_inv cv s" "i < length (s_peers s)"
  shows "line_ok cv (set_peer_key nl key val i s)"
proof -
  have 1: "core_inv cv (peer_tombstone i (wgs_log msg s))" for msg
    using core_tombstone [of cv "wgs_log msg s" i] assms(2) by simp
  have 2: "core_inv cv (upd_peer i (\<lambda>p. p\<lparr>p_pk_sec := n\<rparr>) s)" for n
    by (rule core_upd_peer [OF assms(2)]) (simp add: peer_ok_def)
  have 3: "core_inv cv (upd_peer i (\<lambda>p. p\<lparr>p_allowed := []\<rparr>) s)"
    by (rule core_upd_peer [OF assms(2)]) (simp add: peer_ok_def)
  show ?thesis
    using 1 2 3 assms(2,3) set_preshared_key_ok [OF assms(2,3)] set_endpoint_line_ok [OF assms(2,3)]
      set_allowed_ip_ok [OF assms]
    by (simp add: set_peer_key_def Let_def)
qed

lemma set_line_ok:
  assumes "netlib_ok nl" "line_ok cv (Inr st)"
  shows "line_ok cv (set_line cv nl line st)"
proof -
  obtain s cur where st: "st = (s, cur)" by fastforce
  have 1: "core_inv cv (s\<lparr>s_listen_port := n\<rparr>)" for n
    using assms(2) by (simp add: st core_inv_def config_ok_def links_ok_def)
  have 2: "core_inv cv s" "\<And>i. cur = Some i \<Longrightarrow> i < length (s_peers s)" using assms(2) by (simp_all add: st)
  show ?thesis
    using 1 2 set_public_key_ok [OF 2(1)] set_peer_key_ok [OF assms(1) 2(1)]
    by (simp add: st set_line_def Let_def split: option.split prod.split)
qed

lemma set_lines_ok:
  "netlib_ok nl \<Longrightarrow> line_ok cv (Inr st) \<Longrightarrow> core_inv cv (snd (set_lines cv nl xs st))"
proof (induction xs arbitrary: st)
  case Nil
  then show ?case by (cases st) simp
next
  case (Cons x xs)
  have "line_ok cv (set_line cv nl x st)" using Cons.prems by (rule set_line_ok)
  then show ?case using Cons.IH [OF Cons.prems(1)] by (cases "set_line cv nl x st") auto
qed

lemma set_uapi_inv:
  assumes "netlib_ok nl" "core_inv cv s" "wg_session_set_uapi cv nl txt len s = (rc, s')"
  shows "session_inv cv s'"
proof -
  obtain rc' t where t: "set_lines cv nl (strtok (CHR 0x0A) (c_string (if len = 0 then c_string txt else take len txt)))
      (s, None) = (rc', t)" by fastforce
  then have "core_inv cv t"
    using set_lines_ok [OF assms(1), of cv "(s, None)"] assms(2) by (metis line_ok_simps(2) option.distinct(1) snd_conv)
  moreover have "s' = rebuild_aips t" using assms(3) t by (simp add: wg_session_set_uapi_def Let_def)
  ultimately show ?thesis
    using routing_rebuild
    by (simp add: session_inv_def rebuild_aips_eq core_inv_def config_ok_def links_ok_def)
qed

subsection \<open>Creation establishes the invariant\<close>

lemma start_peer_ok:
  assumes inv: "core_inv cv s" and i: "i < length (s_peers s)" and st: "start_peer cv nl i s = (ok, s')"
  shows "core_inv cv s' \<and> length (s_peers s') = length (s_peers s) \<and> p_active (s_peers s' ! i) \<and>
    (\<forall>j. p_active (s_peers s ! j) \<longrightarrow> p_active (s_peers s' ! j)) \<and> (ok \<longrightarrow> p_remote (s_peers s' ! i) \<noteq> None)"
proof -
  obtain r l where al: "noise_remote_alloc cv (s_local s) i (p_pubkey (s_peers s ! i)) = (r, l)" by fastforce
  obtain e l' where en: "noise_remote_enable r l = (e, l')" by fastforce
  define p where "p = (s_peers s ! i)\<lparr>p_active := True, p_remote := Some r\<rparr>"
  have pok: "peer_ok (s_peers s ! i)" using inv i by (simp add: core_inv_def config_ok_def)
  define t where "t = (upd_peer i (\<lambda>_. p) s)\<lparr>s_local := l'\<rparr>"
  have t: "core_inv cv t"
    unfolding t_def using pok by (intro core_new_remote [OF inv i al en]) (simp_all add: p_def peer_ok_def)
  have ti: "s_peers t ! i = p" "length (s_peers t) = length (s_peers s)" "i < length (s_peers t)"
    "\<And>j. j \<noteq> i \<Longrightarrow> s_peers t ! j = s_peers s ! j"
    using i by (simp_all add: t_def upd_peer_def)
  define u where "u = upd_peer i (\<lambda>p. p\<lparr>p_cookie := cookie_maker_init (p_pubkey p), p_cookie_inited := True\<rparr>) t"
  have u: "core_inv cv u"
    unfolding u_def using maker_for_init by (intro core_upd_peer [OF t]) (simp add: peer_ok_def maker_for_def)
  define v where "v = (if p_has_psk (s_peers u ! i)
      then u\<lparr>s_local := noise_remote_set_psk r (Some (p_psk (s_peers u ! i))) (s_local u)\<rparr> else u)"
  have v: "core_inv cv v" using u core_local_run [OF u run_set_psk] by (simp add: v_def)
  have vi: "s_peers v = s_peers u" "p_active (s_peers v ! i)" "p_remote (s_peers v ! i) = Some r"
    using ti by (simp_all add: v_def u_def upd_peer_def p_def)
  have len: "length (s_peers v) = length (s_peers s)" by (simp add: vi u_def ti)
  have act: "p_active (s_peers s ! j) \<longrightarrow> p_active (s_peers v ! j)" for j
    using vi ti by (cases "j = i") (simp_all add: u_def upd_peer_def p_def)
  have w: "core_inv cv (upd_peer i f v) \<and> length (s_peers (upd_peer i f v)) = length (s_peers s) \<and>
      p_active (s_peers (upd_peer i f v) ! i) \<and> (\<forall>j. p_active (s_peers s ! j) \<longrightarrow> p_active (s_peers (upd_peer i f v) ! j)) \<and>
      p_remote (s_peers (upd_peer i f v) ! i) \<noteq> None" if "f = set_endpoint sa n \<or> f = p_endpoint_len_update (\<lambda>_. 0)" for f sa n
  proof -
    have f: "p_active (f p) = p_active p" "p_remote (f p) = p_remote p" "p_pubkey (f p) = p_pubkey p"
      "peer_ok p \<longrightarrow> peer_ok (f p)" for p
      using that by (auto simp: set_endpoint_def peer_ok_def)
    have "core_inv cv (upd_peer i f v)" by (rule core_upd_peer [OF v]) (simp add: f)
    moreover have "p_active (s_peers (upd_peer i f v) ! j) = p_active (s_peers v ! j)"
      "p_remote (s_peers (upd_peer i f v) ! j) = p_remote (s_peers v ! j)" for j
      using len i by (cases "i = j"; simp add: upd_peer_def f)+
    ultimately show ?thesis using vi act len by simp
  qed
  have logv: "s_peers (upd_peer i f (wgs_log msg v)) = s_peers (upd_peer i f v)"
    "core_inv cv (upd_peer i f (wgs_log msg v)) \<longleftrightarrow> core_inv cv (upd_peer i f v)" for f msg
    by (simp_all add: upd_peer_def wgs_log_def core_inv_def config_ok_def links_ok_def)
  have ts: "(upd_peer i (\<lambda>p. p\<lparr>p_active := True, p_remote := Some r\<rparr>) s)\<lparr>s_local := l'\<rparr> = t"
    by (simp add: t_def p_def upd_peer_def)
  have s': "(ok, s') = (if e \<noteq> OK then (False, t) else (True,
      if p_has_endpoint (s_peers u ! i) then
        (case resolve_endpoint nl (p_endpoint_host (s_peers u ! i)) (p_endpoint_port (s_peers u ! i)) of
           None \<Rightarrow> upd_peer i (\<lambda>p. p\<lparr>p_endpoint_len := 0\<rparr>)
                     (wgs_log (''peer #'' @ fmt_nat i @ '': endpoint resolution failed'') v)
         | Some (sa, n) \<Rightarrow> upd_peer i (set_endpoint sa n) v)
      else v))"
    unfolding st [symmetric] start_peer_def al en Let_def prod.case ts u_def [symmetric] v_def [symmetric] ..
  show ?thesis
  proof (cases "e = OK")
    case False
    have "p_active (s_peers s ! j) \<longrightarrow> p_active (s_peers t ! j)" for j
      using ti by (cases "j = i") (simp_all add: p_def)
    then show ?thesis using False s' t ti by (simp add: p_def)
  next
    case True
    then show ?thesis
      using s' v vi len act w [OF disjI1 [OF refl]] w [OF disjI2 [OF refl]]
      by (auto simp: logv split: if_splits option.splits)
  qed
qed

lemma start_peers_ok:
  "core_inv cv s \<Longrightarrow> \<forall>i \<in> set is. i < length (s_peers s) \<Longrightarrow> start_peers cv nl is s = (ok, s') \<Longrightarrow>
   core_inv cv s' \<and> length (s_peers s') = length (s_peers s) \<and>
   (\<forall>j. p_active (s_peers s ! j) \<longrightarrow> p_active (s_peers s' ! j)) \<and>
   (ok \<longrightarrow> (\<forall>i \<in> set is. p_active (s_peers s' ! i)))"
proof (induction "is" arbitrary: s)
  case (Cons i "is")
  obtain o1 t where t: "start_peer cv nl i s = (o1, t)" by fastforce
  note k = start_peer_ok [OF Cons.prems(1) _ t]
  show ?case
  proof (cases o1)
    case True
    then have "start_peers cv nl is t = (ok, s')" using Cons.prems(3) t by simp
    then show ?thesis using Cons.IH [of t] Cons.prems k by auto
  next
    case False
    then show ?thesis using Cons.prems t k by auto
  qed
qed simp

lemma session_of_core:
  fixes cv :: curve and hash_key :: bytes and cb :: wg_session_callbacks
  assumes "netlib_ok nl" "parse_config_text nl tx zero_config = Some c"
  defines "s0 \<equiv> (session_of c hash_key cb)\<lparr>s_local := noise_local_private cv (s_private_key c) (noise_local_alloc 0 hash_key)\<rparr>"
  shows "core_inv cv s0" "next_remote (s_local s0) = 0"
proof -
  have "noise_reach cv (noise_local_private cv (s_private_key c) (noise_local_alloc 0 hash_key))"
    by (rule noise_reach.step [OF noise_reach.init noise_step.intros(4)])
  moreover have "next_remote (noise_local_private cv (s_private_key c) (noise_local_alloc 0 hash_key)) = 0"
    using ts_local_private [of "noise_local_alloc 0 hash_key" cv "s_private_key c"]
    by (simp add: same_ts_def noise_local_alloc_def)
  ultimately show "core_inv cv s0" "next_remote (s_local s0) = 0"
    using parse_config_parts [OF assms(1,2)] checker_ok_init
    by (simp_all add: s0_def session_of_def core_inv_def config_ok_def links_ok_def not_started_def)
qed

lemma create_inv:
  assumes nl: "netlib_ok nl" and cr: "wg_session_create cv nl hash_key crypto_ok txt len cb = Inr s"
  shows "session_inv cv s"
proof -
  obtain x c where x: "txt = Some x" "crypto_ok"
    and c: "parse_config_text nl (if len = 0 then c_string x else take len x) zero_config = Some c"
    using cr by (auto simp: wg_session_create_def Let_def split: option.splits if_splits)
  define s0 where "s0 = (session_of c hash_key cb)\<lparr>s_local := noise_local_private cv (s_private_key c) (noise_local_alloc 0 hash_key)\<rparr>"
  obtain ok t where t: "start_peers cv nl [0..<length (s_peers s0)] s0 = (ok, t)" by fastforce
  note s0 = session_of_core(1) [OF nl c, of cv hash_key cb, folded s0_def]
  note k = start_peers_ok [OF s0 _ t]
  define cc where "cc = (case noise_local_keys (s_local t) of
      (OK, Some (pub, _)) \<Rightarrow> cookie_checker_update cookie_checker_init (Some pub) | _ \<Rightarrow> cookie_checker_init)"
  define v where "v = t\<lparr>s_checker := cc, s_checker_inited := True, s_aips_v4 := aips_init 32,
      s_aips_v6 := aips_init 128, s_aips_inited := True\<rparr>"
  define w where "w = fold add_peer_cidrs [0..<length (s_peers v)] v"
  have s0': "(session_of c hash_key cb)\<lparr>s_local := noise_local_private cv (s_private_key (session_of c hash_key cb))
      (s_local (session_of c hash_key cb))\<rparr> = s0"
    by (simp add: s0_def session_of_def)
  have v': "(case noise_local_keys (s_local (t\<lparr>s_checker := cookie_checker_init, s_checker_inited := True\<rparr>)) of
      (OK, Some (pub, _)) \<Rightarrow> t\<lparr>s_checker := cookie_checker_init, s_checker_inited := True\<rparr>\<lparr>s_checker :=
        cookie_checker_update (s_checker (t\<lparr>s_checker := cookie_checker_init, s_checker_inited := True\<rparr>)) (Some pub)\<rparr>
      | _ \<Rightarrow> t\<lparr>s_checker := cookie_checker_init, s_checker_inited := True\<rparr>)
      \<lparr>s_aips_v4 := aips_init 32, s_aips_v6 := aips_init 128, s_aips_inited := True\<rparr> = v"
    by (simp add: v_def cc_def split: prod.split errno.split option.split)
  have "Inr s = (if \<not> ok then Inl (s_out (wg_session_destroy t))
      else Inr (wgs_log (''session created: '' @ fmt_nat (length (s_peers w)) @
                   '' peer(s), listen_port='' @ fmt_nat (unat (s_listen_port w))) w))"
    unfolding cr [symmetric] wg_session_create_def x option.case Let_def c s0' t prod.case v' w_def [symmetric]
    using x(2) by simp
  then obtain msg where s: "ok" "s = wgs_log msg w" by (auto split: if_splits)
  have "\<forall>i \<in> set [0..<length (s_peers v)]. p_active (s_peers v ! i)"
    using k s(1) by (simp add: v_def)
  then have w: "w = v\<lparr>s_aips_v4 := build_table aips_put (aips_init 32) (cidrs_of AF_INET (s_peers v)),
      s_aips_v6 := build_table aips_put (aips_init 128) (cidrs_of AF_INET6 (s_peers v))\<rparr>"
    by (simp add: w_def add_active_cidrs add_all_cidrs_eq) (simp add: v_def cidrs_of_def cong: if_cong)
  have "checker_ok cc"
    using checker_for_update [OF checker_ok_init] checker_ok_init
    by (simp add: cc_def checker_for_def split: prod.split errno.split option.split)
  moreover have "core_inv cv t" using k by simp
  ultimately have "core_inv cv w \<and> routing_ok w"
    by (simp add: w v_def core_inv_def config_ok_def links_ok_def routing_ok_def)
  then show ?thesis
    by (simp add: s session_inv_def) (simp add: routing_ok_def wgs_log_def)
qed

subsection \<open>Reachable sessions\<close>

inductive session_step :: "curve \<Rightarrow> netlib \<Rightarrow> wg_session \<Rightarrow> wg_session \<Rightarrow> bool" for cv nl where
  udp: "wg_session_handle_udp cv env pkt sa n s = Some (rc, s') \<Longrightarrow> session_step cv nl s s'"
| tun: "wg_session_handle_tun env pkt s = Some (rc, s') \<Longrightarrow> session_step cv nl s s'"
| tick: "wg_session_tick cv now envs s = Some s' \<Longrightarrow> session_step cv nl s s'"
| kick: "wg_session_kick cv env s = Some (rc, s') \<Longrightarrow> session_step cv nl s s'"
| set_uapi: "wg_session_set_uapi cv nl tx len s = (rc, s') \<Longrightarrow> session_step cv nl s s'"

inductive session_reach :: "curve \<Rightarrow> netlib \<Rightarrow> wg_session \<Rightarrow> bool" for cv nl where
  create: "wg_session_create cv nl hash_key crypto_ok tx len cb = Inr s \<Longrightarrow> session_reach cv nl s"
| step: "session_reach cv nl s \<Longrightarrow> session_step cv nl s s' \<Longrightarrow> session_reach cv nl s'"

lemma session_step_inv:
  assumes "netlib_ok nl" "session_step cv nl s s'" "session_inv cv s"
  shows "session_inv cv s'"
proof -
  have rv: "remotes_valid s" and core: "core_inv cv s"
    using assms(3) links_remotes_valid by (auto simp: session_inv_def core_inv_def)
  from assms(2) show ?thesis
  proof cases
    case (udp env pkt sa n rc)
    then show ?thesis using session_frame frame_handle_udp assms(3) by blast
  next
    case (tun env pkt rc)
    then show ?thesis using session_frame frame_handle_tun assms(3) by blast
  next
    case (tick now envs)
    then show ?thesis using session_frame frame_tick rv assms(3) by blast
  next
    case (kick env rc)
    then show ?thesis using session_frame frame_kick rv assms(3) by blast
  next
    case (set_uapi tx len rc)
    then show ?thesis using set_uapi_inv [OF assms(1) core] by blast
  qed
qed

lemma session_reach_inv: "session_reach cv nl s \<Longrightarrow> netlib_ok nl \<Longrightarrow> session_inv cv s"
  by (induction rule: session_reach.induct) (auto intro: create_inv session_step_inv)

end
