(* ===== verification/SessionWire.thy ===== *)
theory SessionWire
  imports SessionReach
begin

text \<open>
  What a session of \<^verbatim>\<open>src/wg_session.c\<close> does with datagrams and packets: delivery from end to end,
  the check of inner sources, rejected datagrams, replayed datagrams and keepalives.
\<close>

subsection \<open>Opening and sealing\<close>

text \<open>The datagram \<open>pkt\<close> is a data message that the keypair \<open>k\<close> of a noise state opens to \<open>m\<close>.\<close>

definition opens :: "env \<Rightarrow> noise_local \<Rightarrow> bytes \<Rightarrow> nat \<Rightarrow> bytes \<Rightarrow> bool" where
  "opens env l pkt k m \<longleftrightarrow> 32 \<le> length pkt \<and> le32dec pkt = WGS_PKT_DATA \<and> e_mbuf env \<and>
     fst (noise_keypair_lookup l (le32dec (drop 4 pkt))) = Some k \<and>
     kp_nonce_recv (keypairs l k) < REJECT_AFTER_MESSAGES \<and>
     \<not> timer_expired (e_uptime env) (kp_birthdate (keypairs l k)) REJECT_AFTER_TIME 0 \<and>
     chacha20_poly1305_decrypt (drop 16 pkt) [] (le64enc (le64dec (drop 8 pkt))) (kp_recv (keypairs l k)) = Some m"

definition data_ok :: "env \<Rightarrow> wg_session \<Rightarrow> bytes \<Rightarrow> nat \<Rightarrow> bytes \<Rightarrow> bool" where
  "data_ok env s = opens env (s_local s)"

text \<open>The slot of the peer that a keypair belongs to.\<close>

definition owner_of :: "wg_session \<Rightarrow> nat \<Rightarrow> nat" where
  "owner_of s k = r_arg (remotes (s_local s) (kp_remote (keypairs (s_local s) k)))"

text \<open>The noise state after a message under keypair \<open>k\<close> has been received.\<close>

definition received_state :: "nat \<Rightarrow> noise_local \<Rightarrow> noise_local" where
  "received_state k l =
     (let l = snd (noise_keypair_received_with k (noise_keypair_ref k l)); (r, l) = noise_keypair_remote k l
      in noise_keypair_put k (noise_remote_put r l))"

lemma keypair_ref_keys [simp]:
  "kp_recv (keypairs (noise_keypair_ref k l) x) = kp_recv (keypairs l x)"
  "kp_nonce_recv (keypairs (noise_keypair_ref k l) x) = kp_nonce_recv (keypairs l x)"
  "kp_birthdate (keypairs (noise_keypair_ref k l) x) = kp_birthdate (keypairs l x)"
  "kp_remote (keypairs (noise_keypair_ref k l) x) = kp_remote (keypairs l x)"
  "remotes (noise_keypair_ref k l) = remotes l"
  by (simp_all add: noise_keypair_ref_def upd_keypair_def)

lemma wgs_open_iff:
  assumes "noise_reach cv (s_local s)" "32 \<le> length pkt" "le32dec pkt = WGS_PKT_DATA"
  shows "wgs_open env pkt (s_local s) = (Inr (k, m), l) \<longleftrightarrow> data_ok env s pkt k m \<and> l = noise_keypair_ref k (s_local s)"
proof -
  have lk: "noise_keypair_lookup (s_local s) i = (Some k, l) \<longleftrightarrow>
      fst (noise_keypair_lookup (s_local s) i) = Some k \<and> l = noise_keypair_ref k (s_local s)" for i k l
    using keypair_lookup_parts(2) [OF assms(1), of i] by (cases "noise_keypair_lookup (s_local s) i") auto
  show ?thesis
    using assms(2,3)
    by (auto simp: wgs_open_def data_ok_def opens_def Let_def m_devget_def lk noise_keypair_decrypt_def decrypt_mbuf_buffer
        split: option.splits prod.splits if_splits)
qed

lemma received_with_frame [simp]:
  "kp_remote (keypairs (snd (noise_keypair_received_with k l)) x) = kp_remote (keypairs l x)"
  "kp_recv (keypairs (snd (noise_keypair_received_with k l)) x) = kp_recv (keypairs l x)"
  "kp_nonce_recv (keypairs (snd (noise_keypair_received_with k l)) x) = kp_nonce_recv (keypairs l x)"
  "kp_birthdate (keypairs (snd (noise_keypair_received_with k l)) x) = kp_birthdate (keypairs l x)"
  "kp_index (keypairs (snd (noise_keypair_received_with k l)) x) = kp_index (keypairs l x)"
  "r_arg (remotes (snd (noise_keypair_received_with k l)) r) = r_arg (remotes l r)"
  by (simp_all add: noise_keypair_received_with_def Let_def)

lemma receive_local: "wgs_receive i m sa n (s\<lparr>s_local := l\<rparr>) =
    (fst (wgs_receive i m sa n s), (snd (wgs_receive i m sa n s))\<lparr>s_local := l\<rparr>)"
proof -
  have src: "session_lookup_inner_src (t\<lparr>s_local := l\<rparr>) p = session_lookup_inner_src t p" for t p
    by (simp add: session_lookup_inner_src_def Let_def)
  have upd: "upd_peer i f (t\<lparr>s_local := l\<rparr>) = (upd_peer i f t)\<lparr>s_local := l\<rparr>" for f t
    by (simp add: upd_peer_def)
  have out: "wgs_log msg (t\<lparr>s_local := l\<rparr>) = (wgs_log msg t)\<lparr>s_local := l\<rparr>"
    "deliver_ip p (t\<lparr>s_local := l\<rparr>) = (deliver_ip p t)\<lparr>s_local := l\<rparr>" for msg p t
    by (simp_all add: wgs_log_def deliver_ip_def)
  show ?thesis by (simp add: wgs_receive_def Let_def upd src out)
qed

lemma receive_s_local [simp]: "s_local (snd (wgs_receive i m sa n s)) = s_local s"
  by (simp add: wgs_receive_def Let_def)

lemma handle_udp_data:
  assumes "noise_reach cv (s_local s)" "data_ok env s pkt k m"
  shows "wg_session_handle_udp cv env pkt sa n s =
    Some (fst (wgs_receive (owner_of s k) m sa n s),
      (snd (wgs_receive (owner_of s k) m sa n s))\<lparr>s_local := received_state k (s_local s)\<rparr>)"
proof -
  have d: "32 \<le> length pkt" "le32dec pkt = WGS_PKT_DATA" using assms(2) by (simp_all add: data_ok_def opens_def)
  then have o: "wgs_open env pkt (s_local s) = (Inr (k, m), noise_keypair_ref k (s_local s))"
    using wgs_open_iff [OF assms(1)] assms(2) by simp
  show ?thesis
    using d by (simp add: wg_session_handle_udp_def wgs_handle_data_def WG_AUTHTAG_LEN_def o Let_def
        noise_keypair_remote_def noise_remote_arg_def receive_local owner_of_def received_state_def case_prod_unfold)
qed

lemma chacha_length: "chacha20_poly1305_decrypt c ad nonce key = Some m \<Longrightarrow> length c = length m + 16"
  by (simp add: box.open_iff box.length_seal)

subsection \<open>The check of inner sources\<close>

text \<open>No delivery among the new upcalls.\<close>

definition quiet :: "wg_session \<Rightarrow> wg_session \<Rightarrow> bool" where
  "quiet s s' \<longleftrightarrow> (\<exists>xs. s_out s' = s_out s @ xs \<and> (\<forall>p. Deliver_ip p \<notin> set xs))"

lemma s_out_upd [simp]: "s_out (upd_peer i f s) = s_out s"
  by (simp add: upd_peer_def)

lemma quiet_intros:
  "quiet s s" "quiet s t \<Longrightarrow> quiet s (wgs_log msg t)" "quiet s t \<Longrightarrow> quiet s (send_udp pkt sa n t)"
  "quiet s t \<Longrightarrow> quiet s (upd_peer i f t)" "quiet s t \<Longrightarrow> quiet s (t\<lparr>s_local := l\<rparr>)" "quiet s t \<Longrightarrow> quiet s (t\<lparr>s_checker := cc\<rparr>)"
  by (auto simp: quiet_def wgs_log_def send_udp_def)

lemma quiet_response_sent: "quiet s t \<Longrightarrow> quiet s (response_sent env i r msg sa n t)"
  by (simp add: response_sent_def Let_def case_prod_unfold quiet_intros)

lemma quiet_handle_initiation:
  "wgs_handle_initiation cv env pkt sa n s = Some (rc, s') \<Longrightarrow> quiet s s'"
  by (auto simp: wgs_handle_initiation_def Let_def split: if_splits option.splits prod.splits
      intro!: quiet_intros quiet_response_sent)

lemma quiet_handle_response: "quiet s (snd (wgs_handle_response cv env pkt s))"
  by (auto simp: wgs_handle_response_def Let_def split: option.splits prod.splits intro!: quiet_intros)

lemma quiet_handle_cookie: "quiet s (snd (wgs_handle_cookie env pkt s))"
  by (auto simp: wgs_handle_cookie_def Let_def split: option.splits prod.splits intro!: quiet_intros)

lemma receive_out:
  "s_out (snd (wgs_receive i m sa n s)) = s_out s @ xs \<Longrightarrow> Deliver_ip p \<in> set xs \<Longrightarrow>
   xs = [Deliver_ip p] \<and> 0 \<le> inner_ip_len m \<and> p = take (nat (inner_ip_len m)) m \<and>
   session_lookup_inner_src s p = Some i \<and> fst (wgs_receive i m sa n s) = 0"
proof -
  have src: "session_lookup_inner_src (upd_peer i f t) q = session_lookup_inner_src t q" for f t q
    by (simp add: session_lookup_inner_src_def Let_def upd_peer_def)
  show "s_out (snd (wgs_receive i m sa n s)) = s_out s @ xs \<Longrightarrow> Deliver_ip p \<in> set xs \<Longrightarrow> ?thesis"
    by (auto simp: wgs_receive_def Let_def src wgs_log_def deliver_ip_def split: if_splits)
qed

lemma udp_delivery:
  assumes reach: "noise_reach cv (s_local s)" and udp: "wg_session_handle_udp cv env pkt sa n s = Some (rc, s')"
    and out: "s_out s' = s_out s @ xs" "Deliver_ip p \<in> set xs"
  shows "\<exists>k m. data_ok env s pkt k m \<and> p = take (nat (inner_ip_len m)) m \<and> 0 \<le> inner_ip_len m \<and>
    session_lookup_inner_src s p = Some (owner_of s k) \<and> xs = [Deliver_ip p] \<and> rc = 0"
proof -
  have q: "\<not> quiet s s'" using out by (auto simp: quiet_def)
  show ?thesis
  proof (cases "length pkt < 4 \<or> le32dec pkt \<noteq> WGS_PKT_DATA \<or> length pkt < 32")
    case True
    then have "quiet s s'"
      using udp quiet_handle_initiation [of cv env pkt sa n s rc s'] quiet_handle_response [of s cv env pkt]
        quiet_handle_cookie [of s env pkt]
      by (auto simp: wg_session_handle_udp_def Let_def wgs_handle_data_def WG_AUTHTAG_LEN_def
          split: if_splits intro: quiet_intros)
    with q show ?thesis by simp
  next
    case False
    then have d: "32 \<le> length pkt" "le32dec pkt = WGS_PKT_DATA" by simp_all
    obtain x l where o: "wgs_open env pkt (s_local s) = (x, l)" by fastforce
    show ?thesis
    proof (cases x)
      case (Inl msg)
      then have "quiet s s'"
        using udp d o by (auto simp: wg_session_handle_udp_def wgs_handle_data_def WG_AUTHTAG_LEN_def
            split: option.splits intro!: quiet_intros)
      with q show ?thesis by simp
    next
      case (Inr y)
      then obtain k m where "x = Inr (k, m)" by (cases y) simp
      then have ok: "data_ok env s pkt k m" using wgs_open_iff [OF reach d] o by simp
      let ?r = "wgs_receive (owner_of s k) m sa n s"
      have "rc = fst ?r" "s_out s' = s_out (snd ?r)"
        using handle_udp_data [OF reach ok, of sa n] udp by auto
      then show ?thesis
        using receive_out [of "owner_of s k" m sa n s xs p] out ok by auto
    qed
  qed
qed


subsection \<open>From end to end\<close>

text \<open>The datagram for the padded packet \<open>m\<close> under the keypair \<open>kp\<close> with the counter \<open>nonce\<close>.\<close>

definition data_dg :: "noise_keypair \<Rightarrow> u64 \<Rightarrow> bytes \<Rightarrow> bytes" where
  "data_dg kp nonce m =
     le32enc WGS_PKT_DATA @ le32enc (i_remote_index (kp_index kp)) @ le64enc nonce @
     chacha20_poly1305_encrypt m [] (le64enc nonce) (kp_send kp)"

definition padded_packet :: "bytes \<Rightarrow> bytes" where
  "padded_packet plain = plain @ replicate (padded_len (length plain) - length plain) 0"

text \<open>The session can send to peer \<open>i\<close> under keypair \<open>k\<close>.\<close>

definition can_send :: "env \<Rightarrow> wg_session \<Rightarrow> nat \<Rightarrow> nat \<Rightarrow> bool" where
  "can_send env s i k \<longleftrightarrow>
     (let l = s_local s; kp = keypairs l k; p = s_peers s ! i in
      p_endpoint_len p \<noteq> 0 \<and> (\<exists>r. p_remote p = Some r \<and> r_current (remotes l r) = Some k) \<and>
      kp_can_send kp \<and> kp_refcnt kp \<noteq> 0 \<and> \<not> timer_expired (e_uptime env) (kp_birthdate kp) REJECT_AFTER_TIME 0 \<and>
      kp_nonce_send kp < REJECT_AFTER_MESSAGES \<and> e_mbuf env \<and> e_append env \<and> cb_send_udp (s_cb s))"

text \<open>A noise state can take what is sent under the keypair \<open>kp\<close> of another: its keypair \<open>k\<close> matches.\<close>

definition takes :: "env \<Rightarrow> noise_local \<Rightarrow> nat \<Rightarrow> noise_keypair \<Rightarrow> bool" where
  "takes env l k kp \<longleftrightarrow>
     (let kp' = keypairs l k in
      fst (noise_keypair_lookup l (i_remote_index (kp_index kp))) = Some k \<and> kp_recv kp' = kp_send kp \<and>
      kp_nonce_recv kp' < REJECT_AFTER_MESSAGES \<and>
      \<not> timer_expired (e_uptime env) (kp_birthdate kp') REJECT_AFTER_TIME 0 \<and> e_mbuf env)"

text \<open>The session can receive under keypair \<open>k\<close> what is sent under \<open>kp\<close>.\<close>

definition can_receive :: "env \<Rightarrow> wg_session \<Rightarrow> nat \<Rightarrow> noise_keypair \<Rightarrow> bool" where
  "can_receive env s = takes env (s_local s)"

lemma padded_len_bounds: "n \<le> padded_len n" "padded_len n < n + 17" "padded_len n \<le> 2000 \<longleftrightarrow> n \<le> 2000"
  by (auto simp: padded_len_def Let_def)

lemma length_padded_packet [simp]: "length (padded_packet plain) = padded_len (length plain)"
  using padded_len_bounds(1) [of "length plain"] by (simp add: padded_packet_def)

lemma seal_ok:
  assumes k: "r_current (remotes l r) = Some k" "kp_can_send (keypairs l k)" "kp_refcnt (keypairs l k) \<noteq> 0"
    "\<not> timer_expired (e_uptime env) (kp_birthdate (keypairs l k)) REJECT_AFTER_TIME 0"
    "kp_nonce_send (keypairs l k) < REJECT_AFTER_MESSAGES"
    and e: "e_mbuf env" "e_append env" and m: "length m \<le> 2000"
  shows "fst (wgs_seal env r m l) = Some (data_dg (keypairs l k) (kp_nonce_send (keypairs l k)) m)"
proof -
  let ?kp = "keypairs l k"
  obtain cap where c: "chacha20poly1305_encrypt_mbuf True \<lparr>m_data = m, m_cap = length m + 64\<rparr> (kp_nonce_send ?kp) (kp_send ?kp)
      = (OK, \<lparr>m_data = chacha20_poly1305_encrypt m [] (le64enc (kp_nonce_send ?kp)) (kp_send ?kp), m_cap = cap\<rparr>)"
    using encrypt_mbuf_buffer [of True "\<lparr>m_data = m, m_cap = length m + 64\<rparr>" "kp_nonce_send ?kp" "kp_send ?kp"] by auto
  show ?thesis
    using k e m c
    by (simp add: wgs_seal_def noise_keypair_current_def acquire_keypair_def nonce_next_at_def noise_keypair_nonce_next_def
        noise_keypair_ref_def upd_keypair_def m_devget_def noise_keypair_encrypt_def data_dg_def Let_def box.length_seal)
qed

lemma encap_sends:
  assumes "can_send env s i k" "length plain \<le> 2000"
  shows "\<exists>s'. wgs_encap env i plain s = Some (0, s') \<and>
    s_out s' = s_out s @ [Send_udp (data_dg (keypairs (s_local s) k) (kp_nonce_send (keypairs (s_local s) k)) (padded_packet plain))
      (p_endpoint (s_peers s ! i)) (p_endpoint_len (s_peers s ! i))]"
proof -
  obtain r where r: "p_remote (s_peers s ! i) = Some r" "r_current (remotes (s_local s) r) = Some k"
    using assms(1) by (auto simp: can_send_def Let_def)
  note cs = assms(1) [unfolded can_send_def Let_def]
  have len: "length (padded_packet plain) \<le> 2000" using assms(2) by (simp add: padded_len_bounds(3))
  have "fst (wgs_seal env r (padded_packet plain) (s_local s)) =
      Some (data_dg (keypairs (s_local s) k) (kp_nonce_send (keypairs (s_local s) k)) (padded_packet plain))"
    by (rule seal_ok [OF r(2) _ _ _ _ _ _ len]) (use cs in simp_all)
  then obtain l where "wgs_seal env r (padded_packet plain) (s_local s) =
      (Some (data_dg (keypairs (s_local s) k) (kp_nonce_send (keypairs (s_local s) k)) (padded_packet plain)), l)"
    by (metis prod.collapse)
  then show ?thesis
    using cs r(1) len
    by (simp add: wgs_encap_def Let_def padded_packet_def [symmetric] send_udp_def)
qed

lemma le32dec_enc_append: "le32dec (le32enc v @ xs) = v" "le64dec (le64enc w @ xs) = w"
  by simp_all

lemma data_dg_fields:
  "le32dec (data_dg kp nonce m) = WGS_PKT_DATA" "le32dec (drop 4 (data_dg kp nonce m)) = i_remote_index (kp_index kp)"
  "le64dec (drop 8 (data_dg kp nonce m)) = nonce"
  "drop 16 (data_dg kp nonce m) = chacha20_poly1305_encrypt m [] (le64enc nonce) (kp_send kp)"
  "length (data_dg kp nonce m) = length m + 32"
  by (simp_all add: data_dg_def box.length_seal)

lemma data_dg_opens: "takes env l k kp \<Longrightarrow> opens env l (data_dg kp nonce m) k m"
  by (simp add: takes_def opens_def data_dg_fields Let_def box.open_seal)

lemma data_dg_ok: "can_receive env t k kp \<Longrightarrow> data_ok env t (data_dg kp nonce m) k m"
  by (simp add: can_receive_def data_ok_def data_dg_opens)

lemma inner_len_padded:
  assumes "inner_ip_len p = int (length p)"
  shows "inner_ip_len (p @ z) = int (length p)"
proof -
  consider "drop_bit 4 (p ! 0) = 4" "20 \<le> length p" | "drop_bit 4 (p ! 0) = 6" "40 \<le> length p"
    using assms by (auto simp: inner_ip_len_def Let_def simp del: of_nat_unat split: if_splits)
  then show ?thesis
  proof cases
    case 1
    then have "(p @ z) ! 0 = p ! 0" "(p @ z) ! 2 = p ! 2" "(p @ z) ! 3 = p ! 3" by (auto simp: nth_append)
    with 1 show ?thesis using assms by (simp add: inner_ip_len_def Let_def del: of_nat_unat split: if_splits)
  next
    case 2
    then have "(p @ z) ! 0 = p ! 0" "(p @ z) ! 4 = p ! 4" "(p @ z) ! 5 = p ! 5" by (auto simp: nth_append)
    with 2 show ?thesis using assms by (simp add: inner_ip_len_def Let_def del: of_nat_unat split: if_splits)
  qed
qed


lemma wgs_receive_ok:
  assumes "inner_ip_len p = int (length p)" "session_lookup_inner_src t p = Some i" "cb_deliver_ip (s_cb t)" "i < length (s_peers t)"
  shows "\<exists>t'. wgs_receive i (p @ z) sa n t = (0, t') \<and> s_out t' = s_out t @ [Deliver_ip p] \<and>
    p_rx_pkts (s_peers t' ! i) = p_rx_pkts (s_peers t ! i) + 1 \<and>
    p_rx_bytes (s_peers t' ! i) = p_rx_bytes (s_peers t ! i) + of_nat (length p)"
proof -
  have ne: "p \<noteq> []" using assms(1) by (auto simp: inner_ip_len_def)
  have src: "session_lookup_inner_src (upd_peer i f t) q = session_lookup_inner_src t q" for f q
    by (simp add: session_lookup_inner_src_def Let_def upd_peer_def)
  show ?thesis
    using assms ne
    by (simp add: wgs_receive_def Let_def inner_len_padded src deliver_ip_def) (simp add: upd_peer_def set_endpoint_def)
qed

text \<open>C4: A packet crosses the tunnel unchanged. When the session \<open>s\<close> routes the IP packet \<open>pkt\<close> to a
  peer it has a usable keypair for, and the session \<open>t\<close> holds the matching keypair for a peer that
  owns the inner source, then \<^verbatim>\<open>wg_session_handle_tun\<close> of \<open>s\<close> makes exactly one datagram, to the endpoint of the
  peer, and \<^verbatim>\<open>wg_session_handle_udp\<close> of \<open>t\<close> makes exactly one packet of it, which is \<open>pkt\<close>
  without the padding, and counts it.\<close>

theorem end_to_end_delivery:
  assumes a: "session_lookup_dst s pkt = Some i" "can_send env s i k"
    and p: "inner_ip_len pkt = int (length pkt)" "length pkt \<le> 2000"
    and b: "noise_reach cv (s_local t)" "can_receive env' t k' (keypairs (s_local s) k)" "cb_deliver_ip (s_cb t)"
      "owner_of t k' < length (s_peers t)" "session_lookup_inner_src t pkt = Some (owner_of t k')"
  shows "\<exists>dg s' t'. wg_session_handle_tun env pkt s = Some (0, s') \<and>
    s_out s' = s_out s @ [Send_udp dg (p_endpoint (s_peers s ! i)) (p_endpoint_len (s_peers s ! i))] \<and>
    wg_session_handle_udp cv env' dg sa n t = Some (0, t') \<and> s_out t' = s_out t @ [Deliver_ip pkt] \<and>
    p_rx_pkts (s_peers t' ! owner_of t k') = p_rx_pkts (s_peers t ! owner_of t k') + 1 \<and>
    p_rx_bytes (s_peers t' ! owner_of t k') = p_rx_bytes (s_peers t ! owner_of t k') + of_nat (length pkt)"
proof -
  let ?kp = "keypairs (s_local s) k"
  let ?dg = "data_dg ?kp (kp_nonce_send ?kp) (padded_packet pkt)"
  have "\<not> length pkt < 1" using a(1) by (auto simp: session_lookup_dst_def)
  then have "wg_session_handle_tun env pkt s = wgs_encap env i pkt s"
    by (simp add: wg_session_handle_tun_def a(1))
  moreover obtain t' where
    "wgs_receive (owner_of t k') (padded_packet pkt) sa n t = (0, t')" "s_out t' = s_out t @ [Deliver_ip pkt]"
    "p_rx_pkts (s_peers t' ! owner_of t k') = p_rx_pkts (s_peers t ! owner_of t k') + 1"
    "p_rx_bytes (s_peers t' ! owner_of t k') = p_rx_bytes (s_peers t ! owner_of t k') + of_nat (length pkt)"
    unfolding padded_packet_def using wgs_receive_ok [OF p(1) b(5,3,4)] by blast
  ultimately show ?thesis
    using encap_sends [OF a(2) p(2)] handle_udp_data [OF b(1) data_dg_ok [OF b(2)], of "kp_nonce_send ?kp" "padded_packet pkt" sa n]
    by (intro exI [of _ ?dg]) fastforce
qed


subsection \<open>A concrete pair of sessions\<close>

text \<open>A session over the noise state \<open>l\<close> in which every IPv4 address belongs to peer \<open>i\<close>.\<close>

definition demo_wire :: "noise_local \<Rightarrow> nat \<Rightarrow> wg_session" where
  "demo_wire l i =
     (session_of zero_config (replicate 16 0) \<lparr>cb_send_udp = True, cb_deliver_ip = True, cb_log_line = True\<rparr>)
       \<lparr>s_local := l, s_peers := replicate (Suc i) (zero_peer\<lparr>p_endpoint_len := 16, p_remote := Some 0\<rparr>),
        s_aips_v4 := snd (aips_insert (aips_init 32) [0, 0, 0, 0] 0 (Some i))\<rparr>"

definition demo_packet :: bytes where
  "demo_packet = 0x45 # 0 # 0 # 20 # replicate 16 0"

definition demo_env :: env where
  "demo_env = \<lparr>e_time = 100, e_uptime = 5, e_wall = (7, 0), e_rnd = replicate 32 5, e_draws = [4, 5], e_alloc = True,
     e_mbuf = True, e_append = True,
     e_globals = \<lparr>ratelimit_v4 = ratelimit_init False (replicate 16 0),
       ratelimit_v6 = ratelimit_init False (replicate 16 0)\<rparr>\<rparr>"

lemma demo_wire_fields [simp]:
  "s_local (demo_wire l i) = l" "length (s_peers (demo_wire l i)) = Suc i" "s_out (demo_wire l i) = []"
  "s_cb (demo_wire l i) = \<lparr>cb_send_udp = True, cb_deliver_ip = True, cb_log_line = True\<rparr>"
  "j \<le> i \<Longrightarrow> s_peers (demo_wire l i) ! j = zero_peer\<lparr>p_endpoint_len := 16, p_remote := Some 0\<rparr>"
  by (simp_all add: demo_wire_def session_of_def del: replicate_Suc)

lemma demo_wire_v4: "aips_lookup (s_aips_v4 (demo_wire l i)) a = Some i"
proof -
  have "s_aips_v4 (demo_wire l i) = \<lparr>root = Node (Some i) Null Null, max_bits = 32, entries = 1\<rparr>"
    by (simp add: demo_wire_def session_of_def aips_insert_def aips_insert_mem_def aips_init_def node_alloc_def
        addr_bits_def Let_def)
  then show ?thesis by (cases "addr_bits a 32") (simp_all add: aips_lookup_def)
qed

lemma demo_packet_facts:
  "inner_ip_len demo_packet = 20" "length demo_packet = 20" "drop_bit 4 (demo_packet ! 0) = 4"
  by (simp_all add: inner_ip_len_def demo_packet_def)

lemma demo_wire_lookup:
  "session_lookup_dst (demo_wire l i) demo_packet = Some i" "session_lookup_inner_src (demo_wire l i) demo_packet = Some i"
  by (simp_all add: session_lookup_dst_def session_lookup_inner_src_def demo_packet_facts demo_wire_v4)

text \<open>The sender for a receiver in the noise state \<open>l\<close> with the keypair \<open>k\<close>.\<close>

definition demo_sender :: "noise_local \<Rightarrow> nat \<Rightarrow> u32 \<Rightarrow> wg_session" where
  "demo_sender l k a = demo_wire ((noise_local_alloc 0 (replicate 16 0))
     \<lparr>remotes := (\<lambda>_. zero_remote\<lparr>r_current := Some 0\<rparr>),
      keypairs := (\<lambda>_. demo_keypair\<lparr>kp_send := kp_recv (keypairs l k),
         kp_index := \<lparr>i_local_index = 9, i_remote_index = a, i_is_keypair = True\<rparr>\<rparr>)\<rparr>) 0"

lemma demo_can_send: "can_send demo_env (demo_sender l k a) 0 0"
  by (simp add: can_send_def demo_sender_def demo_env_def demo_keypair_def Let_def reject_pos timer_expired_def
      REJECT_AFTER_TIME_def SBT_1S_def nstosbt_def)

lemma demo_can_receive:
  assumes "noise_reach cv l" "session_at l 0 k 0 False a b"
  shows "can_receive demo_env (demo_wire l i) k (keypairs (s_local (demo_sender l k a)) 0)"
proof -
  have k: "kp_remote (keypairs l k) = 0" "kp_refcnt (keypairs l k) = 1" "i_local_index (kp_index (keypairs l k)) = a"
    "kp_nonce_recv (keypairs l k) = 0" "kp_birthdate (keypairs l k) = 0" "r_next (remotes l 0) = Some k"
    using assms(2) by (simp_all add: session_at_def)
  moreover have "k \<in> set (slots (remotes l 0))" using k(6) by (simp add: in_slots)
  ultimately have "fst (noise_keypair_lookup l a) = Some k"
    using keypair_lookup_parts(1) [OF assms(1), of a k] by simp
  then show ?thesis
    using k by (simp add: can_receive_def takes_def demo_sender_def demo_env_def Let_def reject_pos timer_expired_def
      REJECT_AFTER_TIME_def SBT_1S_def nstosbt_def)
qed


lemma demo_pair:
  "\<exists>l k a. noise_reach demo_curve l \<and> owner_of (demo_wire l (r_arg (remotes l 0))) k = r_arg (remotes l 0) \<and>
     can_receive demo_env (demo_wire l (r_arg (remotes l 0))) k (keypairs (s_local (demo_sender l k a)) 0)"
proof -
  obtain l k a b where l: "noise_reach demo_curve l" "session_at l 0 k 0 False a b" using demo_responder by blast
  then have "kp_remote (keypairs l k) = 0" by (simp add: session_at_def)
  then have "owner_of (demo_wire l (r_arg (remotes l 0))) k = r_arg (remotes l 0)" by (simp add: owner_of_def)
  then show ?thesis using l(1) demo_can_receive [OF l] by blast
qed

theorem end_to_end_delivery_witness:
  "\<exists>l k a i dg s' t'. wg_session_handle_tun demo_env demo_packet (demo_sender l k a) = Some (0, s') \<and>
     s_out s' = [Send_udp dg Sa_other 16] \<and>
     wg_session_handle_udp demo_curve demo_env dg Sa_other 16 (demo_wire l i) = Some (0, t') \<and>
     s_out t' = [Deliver_ip demo_packet]"
proof -
  obtain l k a where l: "noise_reach demo_curve l"
    "owner_of (demo_wire l (r_arg (remotes l 0))) k = r_arg (remotes l 0)"
    "can_receive demo_env (demo_wire l (r_arg (remotes l 0))) k (keypairs (s_local (demo_sender l k a)) 0)"
    using demo_pair by blast
  have "session_lookup_dst (demo_sender l k a) demo_packet = Some 0" "s_out (demo_sender l k a) = []"
    "s_peers (demo_sender l k a) ! 0 = zero_peer\<lparr>p_endpoint_len := 16, p_remote := Some 0\<rparr>"
    by (simp_all add: demo_sender_def demo_wire_lookup)
  then show ?thesis
    using end_to_end_delivery [of "demo_sender l k a" demo_packet 0 demo_env 0 demo_curve
        "demo_wire l (r_arg (remotes l 0))" demo_env k Sa_other 16] l
    by (simp add: demo_can_send demo_packet_facts demo_wire_lookup zero_peer_def) blast
qed



subsection \<open>Replayed data and keepalives\<close>

lemma received_state_frame [simp]:
  "kp_recv (keypairs (received_state k l) x) = kp_recv (keypairs l x)"
  "kp_nonce_recv (keypairs (received_state k l) x) = kp_nonce_recv (keypairs l x)"
  "kp_birthdate (keypairs (received_state k l) x) = kp_birthdate (keypairs l x)"
  "kp_remote (keypairs (received_state k l) x) = kp_remote (keypairs l x)"
  "kp_index (keypairs (received_state k l) x) = kp_index (keypairs l x)"
  "r_arg (remotes (received_state k l) r) = r_arg (remotes l r)"
  by (simp_all add: received_state_def noise_keypair_remote_def Let_def noise_keypair_received_with_def
      noise_keypair_ref_def upd_keypair_def)

lemma received_state_refcnt:
  assumes "kp_refcnt (keypairs l k) \<noteq> 0" "distinct (slots (remotes l (kp_remote (keypairs l k))))"
  shows "kp_refcnt (keypairs (received_state k l) k) \<noteq> 0"
proof -
  let ?r = "kp_remote (keypairs l k)"
  have "r_previous (remotes l ?r) \<noteq> Some k" if "r_next (remotes l ?r) = Some k"
    using assms(2) that by (auto simp: slots_def split: option.splits)
  then show ?thesis
    using assms(1)
    by (simp add: received_state_def noise_keypair_remote_def noise_keypair_received_with_def Let_def put_keypairs_other
        drop_keypairs_other noise_keypair_ref_def upd_keypair_def)
qed

lemma received_state_slots:
  "k \<in> set (slots (remotes l (kp_remote (keypairs l k)))) \<Longrightarrow>
   k \<in> set (slots (remotes (received_state k l) (kp_remote (keypairs l k))))"
  by (auto simp: received_state_def noise_keypair_remote_def noise_keypair_received_with_def Let_def in_slots
      noise_keypair_ref_def upd_keypair_def)

lemma run_received_state:
  assumes "noise_reach cv l" "fst (noise_keypair_lookup l i) = Some k"
  shows "run cv l (received_state k l)"
proof -
  have "run cv l (noise_keypair_ref k l)"
    using run_interface(2) [of cv l i] keypair_lookup_parts(2) [OF assms(1), of i] assms(2) by simp
  then show ?thesis
    unfolding received_state_def noise_keypair_remote_def Let_def prod.case
    by (intro run_trans [OF _ run_puts(1)] run_trans [OF _ run_puts(2)] run_trans [OF _ run_interface(3)]
        run_trans [OF _ run_interface(4) [unfolded noise_keypair_remote_def snd_conv]])
qed


lemma opens_again:
  assumes reach: "noise_reach cv l" and ok: "opens env l pkt k m"
  shows "opens env (received_state k l) pkt k m" "noise_reach cv (received_state k l)"
proof -
  let ?i = "le32dec (drop 4 pkt)"
  have lk: "fst (noise_keypair_lookup l ?i) = Some k" using ok by (simp add: opens_def)
  note k = keypair_lookup_parts(1) [OF reach, THEN iffD1, OF lk]
  show reach': "noise_reach cv (received_state k l)"
    using run_received_state [OF reach lk] steps_reach [OF _ reach] by (simp add: run_def)
  have "distinct (slots (remotes l (kp_remote (keypairs l k))))"
    using noise_reach_inv [OF reach] by (simp add: noise_inv_def slot_ok_def)
  then have "fst (noise_keypair_lookup (received_state k l) ?i) = Some k"
    using k received_state_slots [of k l] received_state_refcnt [of l k] keypair_lookup_parts(1) [OF reach', of ?i k]
    by simp
  then show "opens env (received_state k l) pkt k m" using ok by (simp add: opens_def)
qed

lemma data_ok_again:
  assumes "noise_reach cv (s_local t)" "data_ok env t pkt k m" "s_local t' = received_state k (s_local t)"
  shows "data_ok env t' pkt k m \<and> noise_reach cv (s_local t') \<and> owner_of t' k = owner_of t k"
  using opens_again [OF assms(1) assms(2) [unfolded data_ok_def]] assms(3) by (simp add: data_ok_def owner_of_def)

lemma receive_again:
  assumes "s_out (snd (wgs_receive i m sa n t)) = s_out t @ [Deliver_ip p]"
    "s_aips_v4 t' = s_aips_v4 t" "s_aips_v6 t' = s_aips_v6 t" "s_cb t' = s_cb t"
  shows "fst (wgs_receive i m sa n t') = 0 \<and> s_out (snd (wgs_receive i m sa n t')) = s_out t' @ [Deliver_ip p]"
proof -
  have src: "session_lookup_inner_src (upd_peer i f u) q = session_lookup_inner_src u q" for f u q
    by (simp add: session_lookup_inner_src_def Let_def upd_peer_def)
  have "session_lookup_inner_src t' q = session_lookup_inner_src t q" for q
    using assms(2,3) by (simp add: session_lookup_inner_src_def Let_def)
  moreover have "0 \<le> inner_ip_len m" "p = take (nat (inner_ip_len m)) m" "session_lookup_inner_src t p = Some i"
    using receive_out [OF assms(1), of p] by auto
  moreover have "cb_deliver_ip (s_cb t)"
    using assms(1) by (auto simp: wgs_receive_def Let_def wgs_log_def deliver_ip_def upd_peer_def split: if_splits)
  moreover have "m \<noteq> []" using calculation(2) by (auto simp: inner_ip_len_def)
  ultimately show ?thesis
    using assms(4) by (simp add: wgs_receive_def Let_def src deliver_ip_def) (simp add: upd_peer_def)
qed

text \<open>C22: Data datagrams are not checked for replay. \<^verbatim>\<open>wgs_handle_data\<close> never calls
  \<^verbatim>\<open>noise_keypair_nonce_check\<close>, so whenever a datagram made the session deliver a packet, the very same
  datagram, handled once more in the resulting state, delivers the same packet again and is reported
  as a success again.\<close>

theorem replayed_datagram_delivered_again:
  assumes "noise_reach cv (s_local t)" "wg_session_handle_udp cv env pkt sa n t = Some (rc, t')"
    "s_out t' = s_out t @ [Deliver_ip p]"
  shows "\<exists>t''. wg_session_handle_udp cv env pkt sa n t' = Some (0, t'') \<and> s_out t'' = s_out t' @ [Deliver_ip p]"
proof -
  obtain k m where ok: "data_ok env t pkt k m"
    using udp_delivery [OF assms] by auto
  let ?r = "wgs_receive (owner_of t k) m sa n t"
  have t': "t' = (snd ?r)\<lparr>s_local := received_state k (s_local t)\<rparr>"
    using handle_udp_data [OF assms(1) ok, of sa n] assms(2) by simp
  have again: "data_ok env t' pkt k m" "noise_reach cv (s_local t')" "owner_of t' k = owner_of t k"
    using data_ok_again [OF assms(1) ok, of t'] by (simp_all add: t')
  have "s_aips_v4 t' = s_aips_v4 t" "s_aips_v6 t' = s_aips_v6 t" "s_cb t' = s_cb t"
    using frame_receive [of cv t "owner_of t k" m sa n] by (simp_all add: t' frame_ok_def)
  moreover have "s_out (snd ?r) = s_out t @ [Deliver_ip p]" using assms(3) by (simp add: t')
  ultimately have "fst (wgs_receive (owner_of t k) m sa n t') = 0 \<and>
      s_out (snd (wgs_receive (owner_of t k) m sa n t')) = s_out t' @ [Deliver_ip p]"
    by (intro receive_again)
  then show ?thesis
    using handle_udp_data [OF again(2,1), of sa n] again(3) by simp
qed

lemma demo_delivery:
  "\<exists>l k a s'. noise_reach demo_curve l \<and>
     wg_session_handle_udp demo_curve demo_env (data_dg (keypairs (s_local (demo_sender l k a)) 0) 0 (padded_packet demo_packet))
       Sa_other 16 (demo_wire l (r_arg (remotes l 0))) = Some (0, s') \<and> s_out s' = [Deliver_ip demo_packet]"
proof -
  obtain l k a where l: "noise_reach demo_curve l"
    "owner_of (demo_wire l (r_arg (remotes l 0))) k = r_arg (remotes l 0)"
    "can_receive demo_env (demo_wire l (r_arg (remotes l 0))) k (keypairs (s_local (demo_sender l k a)) 0)"
    using demo_pair by blast
  let ?t = "demo_wire l (r_arg (remotes l 0))"
  obtain t' where t': "wgs_receive (r_arg (remotes l 0)) (padded_packet demo_packet) Sa_other 16 ?t = (0, t')"
    "s_out t' = s_out ?t @ [Deliver_ip demo_packet]"
    unfolding padded_packet_def
    using wgs_receive_ok [of demo_packet ?t "r_arg (remotes l 0)"] demo_wire_lookup demo_packet_facts by fastforce
  have "noise_reach demo_curve (s_local ?t)" using l(1) by simp
  from handle_udp_data [OF this data_dg_ok [OF l(3)], of 0 "padded_packet demo_packet" Sa_other 16]
  show ?thesis using l(1,2) t' by (intro exI conjI) (assumption | simp)+
qed

theorem replayed_datagram_delivered_again_witness:
  "\<exists>l dg t' t''. wg_session_handle_udp demo_curve demo_env dg Sa_other 16 (demo_wire l (r_arg (remotes l 0))) = Some (0, t') \<and>
     wg_session_handle_udp demo_curve demo_env dg Sa_other 16 t' = Some (0, t'') \<and>
     s_out t'' = [Deliver_ip demo_packet, Deliver_ip demo_packet]"
proof -
  obtain l k a s' where l: "noise_reach demo_curve l"
    "wg_session_handle_udp demo_curve demo_env (data_dg (keypairs (s_local (demo_sender l k a)) 0) 0 (padded_packet demo_packet))
       Sa_other 16 (demo_wire l (r_arg (remotes l 0))) = Some (0, s')" "s_out s' = [Deliver_ip demo_packet]"
    using demo_delivery by blast
  have "noise_reach demo_curve (s_local (demo_wire l (r_arg (remotes l 0))))" using l(1) by simp
  from replayed_datagram_delivered_again [OF this l(2)] show ?thesis using l(2,3) by fastforce
qed

text \<open>A persistent keepalive reaches the peer as an invalid packet. \<^verbatim>\<open>wgs_encap\<close> pads the empty packet
  to sixteen zero bytes, and \<^verbatim>\<open>wgs_handle_data\<close> takes only a plaintext of length zero for a
  keepalive: the keepalive of one session makes \<^verbatim>\<open>wg_session_handle_udp\<close> of the other return \<open>-1\<close>,
  deliver nothing and leave the receive counters alone, although its tag was valid, the endpoint of the
  peer is updated and the keypair is confirmed.\<close>

theorem keepalive_is_rejected:
  assumes a: "can_send env s i k"
    and b: "noise_reach cv (s_local t)" "can_receive env' t k' (keypairs (s_local s) k)"
  shows "\<exists>dg s' t'. wgs_encap env i [] s = Some (0, s') \<and>
    s_out s' = s_out s @ [Send_udp dg (p_endpoint (s_peers s ! i)) (p_endpoint_len (s_peers s ! i))] \<and>
    wg_session_handle_udp cv env' dg sa n t = Some (- 1, t') \<and> s_out t' = s_out t \<and>
    s_peers t' = (s_peers t)[owner_of t k' := set_endpoint sa n (s_peers t ! owner_of t k')] \<and>
    s_local t' = received_state k' (s_local t)"
proof -
  let ?kp = "keypairs (s_local s) k"
  have pad: "padded_packet [] = replicate 16 0" by (simp add: padded_packet_def padded_len_def Let_def)
  have "inner_ip_len (replicate 16 0) = - 1" by (simp add: inner_ip_len_def)
  then have "wgs_receive (owner_of t k') (padded_packet []) sa n t = (- 1, upd_peer (owner_of t k') (set_endpoint sa n) t)"
    by (simp add: wgs_receive_def Let_def pad)
  then show ?thesis
    using encap_sends [OF a, of "[]"] handle_udp_data [OF b(1) data_dg_ok [OF b(2)], of "kp_nonce_send ?kp" "padded_packet []" sa n]
    by (intro exI [of _ "data_dg ?kp (kp_nonce_send ?kp) (padded_packet [])"]) (auto simp: upd_peer_def)
qed

theorem keepalive_is_rejected_witness:
  "\<exists>l k a i dg s' t'. wgs_encap demo_env 0 [] (demo_sender l k a) = Some (0, s') \<and> s_out s' = [Send_udp dg Sa_other 16] \<and>
     wg_session_handle_udp demo_curve demo_env dg Sa_other 16 (demo_wire l i) = Some (- 1, t') \<and> s_out t' = []"
proof -
  obtain l k a where l: "noise_reach demo_curve l"
    "can_receive demo_env (demo_wire l (r_arg (remotes l 0))) k (keypairs (s_local (demo_sender l k a)) 0)"
    using demo_pair by blast
  have "s_out (demo_sender l k a) = []" "s_peers (demo_sender l k a) ! 0 = zero_peer\<lparr>p_endpoint_len := 16, p_remote := Some 0\<rparr>"
    by (simp_all add: demo_sender_def)
  then show ?thesis
    using keepalive_is_rejected [OF demo_can_send, of demo_curve "demo_wire l (r_arg (remotes l 0))" demo_env k l k a Sa_other 16] l
    by (simp add: zero_peer_def) blast
qed

end
