(* ===== verification/SessionRoam.thy ===== *)
theory SessionRoam
  imports SessionWire
begin

text \<open>
  Where a session of \<^verbatim>\<open>src/wg_session.c\<close> sends to: which datagrams may change the endpoint of a
  peer, and what no datagram can change.
\<close>

subsection \<open>Endpoints\<close>

definition same_endpoints :: "wg_session \<Rightarrow> wg_session \<Rightarrow> bool" where
  "same_endpoints s t \<longleftrightarrow> length (s_peers t) = length (s_peers s) \<and> (\<forall>j. p_endpoint (s_peers t ! j) = p_endpoint (s_peers s ! j) \<and>
     p_endpoint_len (s_peers t ! j) = p_endpoint_len (s_peers s ! j))"

lemma s_peers_frames [simp]:
  "s_peers (wgs_log msg s) = s_peers s" "s_peers (send_udp pkt sa n s) = s_peers s" "s_peers (deliver_ip pkt s) = s_peers s"
  by (simp_all add: wgs_log_def send_udp_def deliver_ip_def)

lemma same_endpoints_intros:
  "same_endpoints s s" "same_endpoints s t \<Longrightarrow> same_endpoints s (wgs_log msg t)"
  "same_endpoints s t \<Longrightarrow> same_endpoints s (send_udp pkt sa n t)" "same_endpoints s t \<Longrightarrow> same_endpoints s (deliver_ip pkt t)"
  "same_endpoints s t \<Longrightarrow> same_endpoints s (t\<lparr>s_local := l\<rparr>)" "same_endpoints s t \<Longrightarrow> same_endpoints s (t\<lparr>s_checker := cc\<rparr>)"
  by (simp_all add: same_endpoints_def)

lemma nth_upd_peer:
  "s_peers (upd_peer i f s) ! j = (if j = i \<and> i < length (s_peers s) then f (s_peers s ! i) else s_peers s ! j)"
  by (auto simp: upd_peer_def nth_list_update list_update_beyond)

lemma same_endpoints_upd:
  "same_endpoints s t \<Longrightarrow> (\<And>p. p_endpoint (f p) = p_endpoint p \<and> p_endpoint_len (f p) = p_endpoint_len p) \<Longrightarrow>
   same_endpoints s (upd_peer i f t)"
  by (simp add: same_endpoints_def nth_upd_peer)

text \<open>The endpoint of peer \<open>i\<close> may have become \<open>sa\<close>.\<close>

definition roamed :: "nat \<Rightarrow> sockaddr \<Rightarrow> nat \<Rightarrow> wg_session \<Rightarrow> wg_session \<Rightarrow> bool" where
  "roamed i sa n s t \<longleftrightarrow> same_endpoints (upd_peer i (set_endpoint sa n) s) t"

lemma roamed_receive: "roamed i sa n s (snd (wgs_receive i m sa n s))"
  by (auto simp: roamed_def wgs_receive_def Let_def intro!: same_endpoints_intros same_endpoints_upd)

lemma roamed_response_sent: "same_endpoints s t \<Longrightarrow> roamed i sa n s (response_sent env i r msg sa n t)"
  by (auto simp: roamed_def response_sent_def Let_def case_prod_unfold same_endpoints_def nth_upd_peer set_endpoint_def
      intro: list_eq_iff_nth_eq [THEN iffD2])

lemma handle_response_endpoints: "same_endpoints s (snd (wgs_handle_response cv env pkt s))"
  by (auto simp: wgs_handle_response_def Let_def split: option.splits prod.splits
      intro!: same_endpoints_intros same_endpoints_upd)

lemma handle_cookie_endpoints: "same_endpoints s (snd (wgs_handle_cookie env pkt s))"
  by (auto simp: wgs_handle_cookie_def Let_def split: option.splits prod.splits
      intro!: same_endpoints_intros same_endpoints_upd)

text \<open>The check of the first MAC and the consumption of the initiation in \<open>pkt\<close>.\<close>

definition accepts_initiation :: "curve \<Rightarrow> env \<Rightarrow> cookie_checker \<Rightarrow> noise_local \<Rightarrow> bytes \<Rightarrow> sockaddr \<Rightarrow> nat \<Rightarrow> bool" where
  "accepts_initiation cv env cc l pkt sa i \<longleftrightarrow> 148 \<le> length pkt \<and> le32dec pkt = WGS_PKT_INITIATION \<and>
     fst (cookie_checker_validate_macs (e_globals env) cc
       \<lparr>mac1 = take 16 (drop 116 pkt), mac2 = take 16 (drop 132 pkt)\<rparr> (take 116 pkt) False sa 0 (e_uptime env) [] [] True) = OK \<and>
     (\<exists>e r l'. noise_consume_initiation cv (le32dec (drop 4 pkt)) (take 32 (drop 8 pkt)) (take 48 (drop 40 pkt))
        (take 28 (drop 88 pkt)) (e_uptime env) (e_draws env) l = Some (e, Some r, l') \<and> r_arg (remotes l' r) = i)"

definition initiation_ok :: "curve \<Rightarrow> env \<Rightarrow> wg_session \<Rightarrow> bytes \<Rightarrow> sockaddr \<Rightarrow> nat \<Rightarrow> bool" where
  "initiation_ok cv env s = accepts_initiation cv env (s_checker s) (s_local s)"

lemma initiation_roams:
  assumes "le32dec pkt = WGS_PKT_INITIATION" "148 \<le> length pkt"
    "fst (cookie_checker_validate_macs (e_globals env) (s_checker s)
       \<lparr>mac1 = take 16 (drop 116 pkt), mac2 = take 16 (drop 132 pkt)\<rparr> (take 116 pkt) False sa 0 (e_uptime env) [] [] True) = OK"
    "noise_consume_initiation cv (le32dec (drop 4 pkt)) (take 32 (drop 8 pkt)) (take 48 (drop 40 pkt))
      (take 28 (drop 88 pkt)) (e_uptime env) (e_draws env) (s_local s) = Some (e, Some r, l)"
    "same_endpoints s t"
  shows "\<exists>i. initiation_ok cv env s pkt sa i \<and> roamed i sa n s (response_sent env (r_arg (remotes l r)) r msg sa n t)"
  using assms roamed_response_sent [OF assms(5)] unfolding initiation_ok_def accepts_initiation_def by blast

lemma handle_initiation_endpoints:
  assumes "le32dec pkt = WGS_PKT_INITIATION" "wgs_handle_initiation cv env pkt sa n s = Some (rc, s')" "\<not> same_endpoints s s'"
  shows "\<exists>i. initiation_ok cv env s pkt sa i \<and> roamed i sa n s s'"
  using assms
  by (auto simp: wgs_handle_initiation_def noise_remote_arg_def Let_def case_prod_unfold not_less same_endpoints_intros
      split: if_splits option.splits intro!: initiation_roams)




end
