(* ===== verification/SessionProps.thy ===== *)
theory SessionProps
  imports SessionReach
begin

text \<open>
  The properties of the sessions of \<^verbatim>\<open>src/wg_session.c\<close>: creation, the invariant, routing, and what
  happens to a datagram.
\<close>

subsection \<open>Creation\<close>

lemma start_peer_succeeds:
  assumes inv: "core_inv cv s" and i: "i < length (s_peers s)" and n: "Suc (next_remote (s_local s)) < MAX_REMOTE_PER_LOCAL"
  shows "\<exists>s'. start_peer cv nl i s = (True, s') \<and> next_remote (s_local s') = Suc (next_remote (s_local s)) \<and>
    s_cb s' = s_cb s"
proof -
  obtain r l where al: "noise_remote_alloc cv (s_local s) i (p_pubkey (s_peers s ! i)) = (r, l)" by fastforce
  have "\<exists>l'. noise_remote_enable r l = (OK, l')"
    by (rule remote_enable_ok [OF _ n al]) (use inv in \<open>simp add: core_inv_def\<close>)
  then obtain l' where en: "noise_remote_enable r l = (OK, l')" ..
  then have nx: "next_remote l' = next_remote l" by (auto simp: noise_remote_enable_def Let_def split: if_splits)
  have psk: "next_remote (noise_remote_set_psk r k m) = next_remote m" for k m
    by (simp add: noise_remote_set_psk_def split: option.split)
  show ?thesis
    using nx remote_alloc_result(2) [OF al] psk
    by (simp add: start_peer_def al en Let_def upd_peer_def wgs_log_def split: option.split prod.split)
qed

lemma start_peers_succeed:
  "core_inv cv s \<Longrightarrow> \<forall>i \<in> set is. i < length (s_peers s) \<Longrightarrow>
   next_remote (s_local s) + length is < MAX_REMOTE_PER_LOCAL \<Longrightarrow> \<exists>s'. start_peers cv nl is s = (True, s')"
proof (induction "is" arbitrary: s)
  case (Cons i "is")
  then obtain t where t: "start_peer cv nl i s = (True, t)" "next_remote (s_local t) = Suc (next_remote (s_local s))"
    using start_peer_succeeds [of cv s i nl] by auto
  have "core_inv cv t \<and> length (s_peers t) = length (s_peers s)"
    using start_peer_ok [OF Cons.prems(1) _ t(1)] Cons.prems(2) by simp
  then show ?case using Cons.IH [of t] Cons.prems t by simp
qed simp

lemma create_Inr:
  assumes "netlib_ok nl" "parse_config_text nl (if len = 0 then c_string tx else take len tx) zero_config = Some c"
  shows "\<exists>s. wg_session_create cv nl hash_key True (Some tx) len cb = Inr s"
proof -
  define s0 where "s0 = (session_of c hash_key cb)\<lparr>s_local := noise_local_private cv (s_private_key c) (noise_local_alloc 0 hash_key)\<rparr>"
  note core = session_of_core [OF assms, of cv hash_key cb, folded s0_def]
  have "length (s_peers s0) \<le> 8" using core(1) by (simp add: core_inv_def config_ok_def WGS_MAX_PEERS_def)
  then obtain t where t: "start_peers cv nl [0..<length (s_peers s0)] s0 = (True, t)"
    using start_peers_succeed [OF core(1), of "[0..<length (s_peers s0)]" nl] core(2) by (auto simp: MAX_REMOTE_PER_LOCAL_def)
  have s0': "(session_of c hash_key cb)\<lparr>s_local := noise_local_private cv (s_private_key (session_of c hash_key cb))
      (s_local (session_of c hash_key cb))\<rparr> = s0"
    by (simp add: s0_def session_of_def)
  show ?thesis
    unfolding wg_session_create_def option.case Let_def assms(2) s0' t prod.case by simp
qed

lemma demo_text_length: "length demo_text \<noteq> 0"
  by (simp add: demo_text_def)

lemma demo_session:
  "\<exists>s. wg_session_create demo_curve demo_netlib (replicate 16 0) True (Some demo_text) (length demo_text)
     \<lparr>cb_send_udp = True, cb_deliver_ip = True, cb_log_line = True\<rparr> = Inr s"
  using create_Inr [OF demo_netlib_ok] demo_text_parses demo_text_length by auto

text \<open>\<^verbatim>\<open>wg_session_create\<close> returns a session exactly when there is a text, \<^verbatim>\<open>crypto_init\<close> succeeds
  and the text parses: once a configuration is accepted, none of the later steps (the peer table of
  the noise layer, the resolution of endpoints) makes creation fail.\<close>

theorem create_iff_parses:
  assumes "netlib_ok nl"
  shows "(\<exists>s. wg_session_create cv nl hash_key crypto_ok (Some tx) len cb = Inr s) \<longleftrightarrow>
    crypto_ok \<and> parse_config_text nl (if len = 0 then c_string tx else take len tx) zero_config \<noteq> None"
proof (cases "parse_config_text nl (if len = 0 then c_string tx else take len tx) zero_config")
  case None
  then show ?thesis by (simp add: wg_session_create_def Let_def)
next
  case (Some c)
  then show ?thesis
    using create_Inr [OF assms Some] by (cases crypto_ok) (auto simp: wg_session_create_def)
qed

theorem create_iff_parses_witness:
  "\<exists>s. wg_session_create demo_curve demo_netlib (replicate 16 0) True (Some demo_text) (length demo_text)
     \<lparr>cb_send_udp = True, cb_deliver_ip = False, cb_log_line = True\<rparr> = Inr s"
  using create_iff_parses [OF demo_netlib_ok, of demo_curve "replicate 16 0" True demo_text "length demo_text"]
    demo_text_parses demo_text_length by simp

subsection \<open>The invariant\<close>

text \<open>C15: The invariant of a session: in every state that the public functions reach, the noise
  state is consistent, there are at most eight peers with well-formed keys and CIDRs, the remote of a
  peer carries the key of the peer and points back to its slot, every remote ever made points to a
  slot in use, and the tries hold exactly the CIDRs of the active peers, in order.\<close>

theorem session_invariant:
  assumes "netlib_ok nl" "session_reach cv nl s"
  shows "noise_reach cv (s_local s) \<and> config_ok s \<and> checker_ok (s_checker s) \<and> links_ok s \<and> routing_ok s"
  using session_reach_inv [OF assms(2,1)] by (simp add: session_inv_def core_inv_def)

theorem session_invariant_witness:
  "\<exists>s. session_reach demo_curve demo_netlib s \<and>
     routing_ok (snd (wg_session_set_uapi demo_curve demo_netlib ''listen_port=7'' 0 s))"
proof -
  obtain s where "wg_session_create demo_curve demo_netlib (replicate 16 0) True (Some demo_text) (length demo_text)
     \<lparr>cb_send_udp = True, cb_deliver_ip = True, cb_log_line = True\<rparr> = Inr s"
    using demo_session by blast
  then have s: "session_reach demo_curve demo_netlib s" by (rule session_reach.create)
  have "session_reach demo_curve demo_netlib (snd (wg_session_set_uapi demo_curve demo_netlib ''listen_port=7'' 0 s))"
    by (rule session_reach.step [OF s session_step.set_uapi]) (rule prod.collapse [symmetric])
  then show ?thesis using session_invariant [OF demo_netlib_ok] s by blast
qed

subsection \<open>Routing\<close>

text \<open>The CIDRs as a map from prefixes; the last of equal prefixes wins.\<close>

definition route_map :: "af \<Rightarrow> wg_session \<Rightarrow> bool list \<Rightarrow> nat option" where
  "route_map fam s = map_of (rev (map (\<lambda>(a, n, i). (addr_bits a n, i)) (cidrs_of fam (s_peers s))))"

text \<open>C19: Routing refines longest-prefix match over the configuration. In every reachable state the
  destination of an outgoing packet and the source of an incoming one are looked up in the map from
  the AllowedIPs of the active peers, longest prefix first; of two equal prefixes the later one in the
  order of the peers wins, and a packet that is not IPv4 or IPv6, or too short, belongs to nobody.\<close>

theorem routing_longest_prefix:
  assumes "netlib_ok nl" "session_reach cv nl s"
  shows "session_lookup_dst s pkt =
      (if pkt = [] then None
       else if drop_bit 4 (pkt ! 0) = 4 \<and> 20 \<le> length pkt then lpm (route_map AF_INET s) (addr_bits (drop 16 pkt) 32)
       else if drop_bit 4 (pkt ! 0) = 6 \<and> 40 \<le> length pkt then lpm (route_map AF_INET6 s) (addr_bits (drop 24 pkt) 128)
       else None) \<and>
    session_lookup_inner_src s pkt =
      (if pkt = [] then None
       else if drop_bit 4 (pkt ! 0) = 4 \<and> 20 \<le> length pkt then lpm (route_map AF_INET s) (addr_bits (drop 12 pkt) 32)
       else if drop_bit 4 (pkt ! 0) = 6 \<and> 40 \<le> length pkt then lpm (route_map AF_INET6 s) (addr_bits (drop 8 pkt) 128)
       else None)"
proof -
  have inv: "routing_ok s" "config_ok s"
    using session_reach_inv [OF assms(2,1)] by (simp_all add: session_inv_def core_inv_def)
  have len: "n \<le> (if fam = AF_INET then 32 else 128)" if mem: "(a, n, i) \<in> set (cidrs_of fam (s_peers s))" for fam a n i
  proof -
    obtain c j where c: "n = nat (c_prefix_len c)" "c_family c = fam" "j < length (s_peers s)" "c \<in> set (p_allowed (s_peers s ! j))"
      using mem by (auto simp: cidrs_of_def peer_cidrs_def split: if_splits)
    then have "cidr_ok c" using inv(2) by (auto simp: config_ok_def peer_ok_def)
    with c show ?thesis by (auto simp: cidr_ok_def split: if_splits)
  qed
  have r4: "\<forall>(a, n, i) \<in> set (cidrs_of AF_INET (s_peers s)). n \<le> 32"
    and r6: "\<forall>(a, n, i) \<in> set (cidrs_of AF_INET6 (s_peers s)). n \<le> 128"
    using len [of _ _ _ AF_INET] len [of _ _ _ AF_INET6] by fastforce+
  have 4: "aips_lookup (s_aips_v4 s) a = lpm (route_map AF_INET s) (addr_bits a 32)" for a
    using inv(1) by (simp add: routing_ok_def route_map_def v4.lookup_lpm [OF v4.inv_build] v4.view_build [OF r4])
  have 6: "aips_lookup (s_aips_v6 s) a = lpm (route_map AF_INET6 s) (addr_bits a 128)" for a
    using inv(1) by (simp add: routing_ok_def route_map_def v6.lookup_lpm [OF v6.inv_build] v6.view_build [OF r6])
  show ?thesis
    by (cases pkt) (auto simp: session_lookup_dst_def session_lookup_inner_src_def Let_def 4 6)
qed

theorem routing_longest_prefix_witness:
  "\<exists>s. session_reach demo_curve demo_netlib s \<and>
     session_lookup_dst s (0x45 # replicate 15 1 @ [10, 0, 0, 2]) = lpm (route_map AF_INET s) (addr_bits [10, 0, 0, 2] 32)"
proof -
  obtain s where s: "wg_session_create demo_curve demo_netlib (replicate 16 0) True (Some demo_text) (length demo_text)
     \<lparr>cb_send_udp = True, cb_deliver_ip = True, cb_log_line = True\<rparr> = Inr s"
    using demo_session by blast
  have "drop 16 (0x45 # replicate 15 1 @ [10, 0, 0, 2 :: u8]) = [10, 0, 0, 2]" "drop_bit 4 (0x45 :: u8) = 4"
    by simp_all
  then show ?thesis
    using routing_longest_prefix [OF demo_netlib_ok session_reach.create [OF s], of "0x45 # replicate 15 1 @ [10, 0, 0, 2]"]
      session_reach.create [OF s] by auto
qed

end
