(* ===== verification/Curve25519.thy ===== *)
theory Curve25519
  imports Prelude
begin

text \<open>
  X25519 of \<^verbatim>\<open>src/curve25519_portable.c\<close>: the field of \<open>2^255 - 19\<close> elements in five limbs of 51
  bits, the Montgomery ladder with conditional swaps, and the public functions.

  The 128-bit accumulators of the compilers with \<^verbatim>\<open>__uint128_t\<close> are words of 128 bits; the shim for the
  other compilers computes the same sums in two halves and is not modelled. A \<^verbatim>\<open>fe\<close> array is a
  tuple of its limbs; functions that write in place return the new value.
\<close>

subsection \<open>Field elements\<close>

type_synonym u128 = "128 word"
type_synonym fe = "u64 \<times> u64 \<times> u64 \<times> u64 \<times> u64"

definition MASK51 :: u64 where "MASK51 = 0x7ffffffffffff"

definition fe_frombytes :: "bytes \<Rightarrow> fe" where
  "fe_frombytes s =
     (ucast (s ! 0) OR push_bit 8 (ucast (s ! 1)) OR push_bit 16 (ucast (s ! 2)) OR push_bit 24 (ucast (s ! 3)) OR
        push_bit 32 (ucast (s ! 4)) OR push_bit 40 (ucast (s ! 5)) OR push_bit 48 (ucast (s ! 6) AND 0x07),
      drop_bit 3 (ucast (s ! 6)) OR push_bit 5 (ucast (s ! 7)) OR push_bit 13 (ucast (s ! 8)) OR push_bit 21 (ucast (s ! 9)) OR
        push_bit 29 (ucast (s ! 10)) OR push_bit 37 (ucast (s ! 11)) OR push_bit 45 (ucast (s ! 12) AND 0x3f),
      drop_bit 6 (ucast (s ! 12)) OR push_bit 2 (ucast (s ! 13)) OR push_bit 10 (ucast (s ! 14)) OR push_bit 18 (ucast (s ! 15)) OR
        push_bit 26 (ucast (s ! 16)) OR push_bit 34 (ucast (s ! 17)) OR push_bit 42 (ucast (s ! 18)) OR
        push_bit 50 (ucast (s ! 19) AND 0x01),
      drop_bit 1 (ucast (s ! 19)) OR push_bit 7 (ucast (s ! 20)) OR push_bit 15 (ucast (s ! 21)) OR push_bit 23 (ucast (s ! 22)) OR
        push_bit 31 (ucast (s ! 23)) OR push_bit 39 (ucast (s ! 24)) OR push_bit 47 (ucast (s ! 25) AND 0x0f),
      drop_bit 4 (ucast (s ! 25)) OR push_bit 4 (ucast (s ! 26)) OR push_bit 12 (ucast (s ! 27)) OR push_bit 20 (ucast (s ! 28)) OR
        push_bit 28 (ucast (s ! 29)) OR push_bit 36 (ucast (s ! 30)) OR push_bit 44 (ucast (s ! 31) AND 0x7f))"

text \<open>The two halves of \<^verbatim>\<open>fe_tobytes\<close>: the reduction and the packing.\<close>

definition fe_reduce :: "fe \<Rightarrow> fe" where
  "fe_reduce h = (case h of (t0, t1, t2, t3, t4) \<Rightarrow>
     (let c = drop_bit 51 (t0 + 19); c = drop_bit 51 (t1 + c); c = drop_bit 51 (t2 + c);
          c = drop_bit 51 (t3 + c); c = drop_bit 51 (t4 + c);
          t0 = t0 + 19 * c;
          c = drop_bit 51 t0; t0 = t0 AND 0x7ffffffffffff; t1 = t1 + c;
          c = drop_bit 51 t1; t1 = t1 AND 0x7ffffffffffff; t2 = t2 + c;
          c = drop_bit 51 t2; t2 = t2 AND 0x7ffffffffffff; t3 = t3 + c;
          c = drop_bit 51 t3; t3 = t3 AND 0x7ffffffffffff; t4 = t4 + c;
          t4 = t4 AND 0x7ffffffffffff
      in (t0, t1, t2, t3, t4)))"

fun fe_pack :: "fe \<Rightarrow> bytes" where
  "fe_pack (t0, t1, t2, t3, t4) =
     [ucast t0, ucast (drop_bit 8 t0), ucast (drop_bit 16 t0), ucast (drop_bit 24 t0), ucast (drop_bit 32 t0),
      ucast (drop_bit 40 t0), ucast (drop_bit 48 t0 OR push_bit 3 t1),
      ucast (drop_bit 5 t1), ucast (drop_bit 13 t1), ucast (drop_bit 21 t1), ucast (drop_bit 29 t1), ucast (drop_bit 37 t1),
      ucast (drop_bit 45 t1 OR push_bit 6 t2),
      ucast (drop_bit 2 t2), ucast (drop_bit 10 t2), ucast (drop_bit 18 t2), ucast (drop_bit 26 t2), ucast (drop_bit 34 t2),
      ucast (drop_bit 42 t2), ucast (drop_bit 50 t2 OR push_bit 1 t3),
      ucast (drop_bit 7 t3), ucast (drop_bit 15 t3), ucast (drop_bit 23 t3), ucast (drop_bit 31 t3), ucast (drop_bit 39 t3),
      ucast (drop_bit 47 t3 OR push_bit 4 t4),
      ucast (drop_bit 4 t4), ucast (drop_bit 12 t4), ucast (drop_bit 20 t4), ucast (drop_bit 28 t4), ucast (drop_bit 36 t4),
      ucast (drop_bit 44 t4)]"

definition fe_tobytes :: "fe \<Rightarrow> bytes" where
  "fe_tobytes h = fe_pack (fe_reduce h)"

fun fe_add :: "fe \<Rightarrow> fe \<Rightarrow> fe" where
  "fe_add (f0, f1, f2, f3, f4) (g0, g1, g2, g3, g4) = (f0 + g0, f1 + g1, f2 + g2, f3 + g3, f4 + g4)"

fun fe_sub :: "fe \<Rightarrow> fe \<Rightarrow> fe" where
  "fe_sub (f0, f1, f2, f3, f4) (g0, g1, g2, g3, g4) =
     (f0 + 0xfffffffffffda - g0, f1 + 0xffffffffffffe - g1, f2 + 0xffffffffffffe - g2,
      f3 + 0xffffffffffffe - g3, f4 + 0xffffffffffffe - g4)"

text \<open>The carry chain that ends \<^verbatim>\<open>fe_mul\<close> and \<^verbatim>\<open>fe_mul121666\<close>.\<close>

type_synonym fe_wide = "u128 \<times> u128 \<times> u128 \<times> u128 \<times> u128"

definition fe_carry :: "fe_wide \<Rightarrow> fe" where
  "fe_carry t = (case t of (t0, t1, t2, t3, t4) \<Rightarrow>
     (let c = ucast (drop_bit 51 t0) :: u64; h0 = ucast t0 AND MASK51; t1 = t1 + ucast c;
          c = ucast (drop_bit 51 t1) :: u64; h1 = ucast t1 AND MASK51; t2 = t2 + ucast c;
          c = ucast (drop_bit 51 t2) :: u64; h2 = ucast t2 AND MASK51; t3 = t3 + ucast c;
          c = ucast (drop_bit 51 t3) :: u64; h3 = ucast t3 AND MASK51; t4 = t4 + ucast c;
          c = ucast (drop_bit 51 t4) :: u64; h4 = ucast t4 AND MASK51;
          h0 = h0 + c * 19;
          c = drop_bit 51 h0; h0 = h0 AND MASK51; h1 = h1 + c
      in (h0, h1, h2, h3, h4)))"

definition fe_products :: "fe \<Rightarrow> fe \<Rightarrow> fe_wide" where
  "fe_products f g = (case (f, g) of ((f0, f1, f2, f3, f4), (g0, g1, g2, g3, g4)) \<Rightarrow>
     (let g1_19 = g1 * 19; g2_19 = g2 * 19; g3_19 = g3 * 19; g4_19 = g4 * 19
      in (ucast f0 * ucast g0 + ucast f1 * ucast g4_19 + ucast f2 * ucast g3_19 + ucast f3 * ucast g2_19 + ucast f4 * ucast g1_19,
          ucast f0 * ucast g1 + ucast f1 * ucast g0 + ucast f2 * ucast g4_19 + ucast f3 * ucast g3_19 + ucast f4 * ucast g2_19,
          ucast f0 * ucast g2 + ucast f1 * ucast g1 + ucast f2 * ucast g0 + ucast f3 * ucast g4_19 + ucast f4 * ucast g3_19,
          ucast f0 * ucast g3 + ucast f1 * ucast g2 + ucast f2 * ucast g1 + ucast f3 * ucast g0 + ucast f4 * ucast g4_19,
          ucast f0 * ucast g4 + ucast f1 * ucast g3 + ucast f2 * ucast g2 + ucast f3 * ucast g1 + ucast f4 * ucast g0)))"

definition fe_mul :: "fe \<Rightarrow> fe \<Rightarrow> fe" where
  "fe_mul f g = fe_carry (fe_products f g)"

definition fe_sq :: "fe \<Rightarrow> fe" where
  "fe_sq f = fe_mul f f"

fun fe_mul121666 :: "fe \<Rightarrow> fe" where
  "fe_mul121666 (f0, f1, f2, f3, f4) =
     fe_carry (ucast f0 * 121665, ucast f1 * 121665, ucast f2 * 121665, ucast f3 * 121665, ucast f4 * 121665)"

definition fe_invert :: "fe \<Rightarrow> fe" where
  "fe_invert z =
     (let t0 = fe_sq z;
          t1 = fe_sq t0;
          t1 = fe_sq t1;
          t1 = fe_mul z t1;
          t0 = fe_mul t0 t1;
          t2 = fe_sq t0;
          t1 = fe_mul t1 t2;
          t2 = (fe_sq ^^ 4) (fe_sq t1);
          t1 = fe_mul t2 t1;
          t2 = (fe_sq ^^ 9) (fe_sq t1);
          t2 = fe_mul t2 t1;
          t3 = (fe_sq ^^ 19) (fe_sq t2);
          t2 = fe_mul t3 t2;
          t2 = (fe_sq ^^ 9) (fe_sq t2);
          t1 = fe_mul t2 t1;
          t2 = (fe_sq ^^ 49) (fe_sq t1);
          t2 = fe_mul t2 t1;
          t3 = (fe_sq ^^ 99) (fe_sq t2);
          t2 = fe_mul t3 t2;
          t2 = (fe_sq ^^ 49) (fe_sq t2);
          t1 = fe_mul t2 t1;
          t1 = (fe_sq ^^ 4) (fe_sq t1)
      in fe_mul t1 t0)"

subsection \<open>The ladder\<close>

definition cswap_limb :: "u64 \<Rightarrow> u64 \<Rightarrow> u64 \<Rightarrow> u64 \<times> u64" where
  "cswap_limb m x y = (let t = m AND (x XOR y) in (x XOR t, y XOR t))"

text \<open>The loop over the limbs with \<^verbatim>\<open>mask = (uint64_t)(-(int64_t)swap)\<close>.\<close>

definition fe_cswap :: "u32 \<Rightarrow> fe \<Rightarrow> fe \<Rightarrow> fe \<times> fe" where
  "fe_cswap sw x y = (case (x, y) of ((x0, x1, x2, x3, x4), (y0, y1, y2, y3, y4)) \<Rightarrow>
     (let m = - (ucast sw :: u64);
          (x0, y0) = cswap_limb m x0 y0; (x1, y1) = cswap_limb m x1 y1; (x2, y2) = cswap_limb m x2 y2;
          (x3, y3) = cswap_limb m x3 y3; (x4, y4) = cswap_limb m x4 y4
      in ((x0, x1, x2, x3, x4), (y0, y1, y2, y3, y4))))"

text \<open>The differential addition and doubling of one round.\<close>

definition ladder_step :: "fe \<Rightarrow> fe \<times> fe \<times> fe \<times> fe \<Rightarrow> fe \<times> fe \<times> fe \<times> fe" where
  "ladder_step x1 st = (case st of (x2, z2, x3, z3) \<Rightarrow>
     (let a = fe_add x2 z2;
          aa = fe_sq a;
          b = fe_sub x2 z2;
          bb = fe_sq b;
          e = fe_sub aa bb;
          c = fe_add x3 z3;
          d = fe_sub x3 z3;
          da = fe_mul d a;
          cb = fe_mul c b;
          tmp0 = fe_add da cb;
          x3 = fe_sq tmp0;
          tmp0 = fe_sub da cb;
          tmp1 = fe_sq tmp0;
          z3 = fe_mul x1 tmp1;
          x2 = fe_mul aa bb;
          tmp0 = fe_mul121666 e;
          tmp1 = fe_add aa tmp0;
          z2 = fe_mul e tmp1
      in (x2, z2, x3, z3)))"

definition scalar_bit :: "bytes \<Rightarrow> nat \<Rightarrow> u32" where
  "scalar_bit e pos = drop_bit (pos mod 8) (ucast (e ! (pos div 8))) AND 1"

text \<open>The rounds \<open>pos = n - 1, ..., 0\<close>; \<open>sw\<close> is the variable \<^verbatim>\<open>swap\<close>.\<close>

fun ladder_loop :: "bytes \<Rightarrow> fe \<Rightarrow> nat \<Rightarrow> u32 \<times> fe \<times> fe \<times> fe \<times> fe \<Rightarrow> u32 \<times> fe \<times> fe \<times> fe \<times> fe" where
  "ladder_loop e x1 0 st = st"
| "ladder_loop e x1 (Suc pos) (sw, x2, z2, x3, z3) =
     (let b = scalar_bit e pos;
          sw = sw XOR b;
          (x2, x3) = fe_cswap sw x2 x3; (z2, z3) = fe_cswap sw z2 z3
      in ladder_loop e x1 pos (b, ladder_step x1 (x2, z2, x3, z3)))"

definition curve25519_clamp_secret :: "bytes \<Rightarrow> bytes" where
  "curve25519_clamp_secret k = k[0 := k ! 0 AND 248, 31 := (k ! 31 AND 127) OR 64]"

definition x25519_ladder :: "bytes \<Rightarrow> bytes \<Rightarrow> bytes" where
  "x25519_ladder scalar point =
     (let e = scalar[0 := scalar ! 0 AND 248];
          e = e[31 := e ! 31 AND 127];
          e = e[31 := e ! 31 OR 64];
          x1 = fe_frombytes point;
          x2 = (1, 0, 0, 0, 0);
          z2 = (0, 0, 0, 0, 0);
          x3 = x1;
          z3 = (1, 0, 0, 0, 0);
          (sw, x2, z2, x3, z3) = ladder_loop e x1 255 (0, x2, z2, x3, z3);
          (x2, x3) = fe_cswap sw x2 x3; (z2, z3) = fe_cswap sw z2 z3;
          z2 = fe_invert z2;
          x2 = fe_mul x2 z2
      in fe_tobytes x2)"

subsection \<open>Public functions\<close>

definition basepoint :: bytes where "basepoint = 9 # replicate 31 0"

definition curve25519_generate_public :: "bytes \<Rightarrow> bytes \<times> bool" where
  "curve25519_generate_public priv = (x25519_ladder priv basepoint, True)"

definition curve25519 :: "bytes \<Rightarrow> bytes \<Rightarrow> bytes \<times> bool" where
  "curve25519 priv pub =
     (let shared = x25519_ladder priv pub in (shared, fold (OR) shared 0 \<noteq> 0))"

text \<open>On the 32 random bytes the operating system returns.\<close>

definition curve25519_generate_secret :: "bytes \<Rightarrow> bytes" where
  "curve25519_generate_secret rnd = curve25519_clamp_secret rnd"

end
