(* ===== verification/CurveField.thy ===== *)
theory CurveField
  imports Curve25519
begin

text \<open>
  The limb arithmetic of \<^verbatim>\<open>src/curve25519_portable.c\<close> is arithmetic modulo \<open>2^255 - 19\<close>: no
  operation overflows on the limbs that the ladder produces, and \<open>fe_tobytes\<close> and \<open>fe_frombytes\<close> are the
  little-endian codecs of the field.
\<close>

definition p25519 :: nat where "p25519 = 2 ^ 255 - 19"

fun fe_val :: "fe \<Rightarrow> nat" where
  "fe_val (h0, h1, h2, h3, h4) =
     unat h0 + 2 ^ 51 * unat h1 + 2 ^ 102 * unat h2 + 2 ^ 153 * unat h3 + 2 ^ 204 * unat h4"

fun fe_lt :: "nat \<Rightarrow> fe \<Rightarrow> bool" where
  "fe_lt B (h0, h1, h2, h3, h4) \<longleftrightarrow> unat h0 < B \<and> unat h1 < B \<and> unat h2 < B \<and> unat h3 < B \<and> unat h4 < B"

text \<open>What a multiplication leaves: only the second limb may exceed 51 bits.\<close>

fun fe_tight :: "fe \<Rightarrow> bool" where
  "fe_tight (h0, h1, h2, h3, h4) \<longleftrightarrow>
     unat h0 < 2 ^ 51 \<and> unat h1 < 2 ^ 51 + 2 ^ 13 \<and> unat h2 < 2 ^ 51 \<and> unat h3 < 2 ^ 51 \<and> unat h4 < 2 ^ 51"

fun wide_val :: "fe_wide \<Rightarrow> nat" where
  "wide_val (t0, t1, t2, t3, t4) =
     unat t0 + 2 ^ 51 * unat t1 + 2 ^ 102 * unat t2 + 2 ^ 153 * unat t3 + 2 ^ 204 * unat t4"

fun wide_ok :: "fe_wide \<Rightarrow> bool" where
  "wide_ok (t0, t1, t2, t3, t4) \<longleftrightarrow> unat t0 < 77 * 2 ^ 108 \<and> unat t1 < 77 * 2 ^ 108 \<and> unat t2 < 77 * 2 ^ 108 \<and>
     unat t3 < 77 * 2 ^ 108 \<and> unat t4 < 5 * 2 ^ 108"

subsection \<open>Words\<close>

lemma unat_less_64: "unat (a :: u64) < 2 ^ 64"
  using unsigned_less [of a] by simp

lemma unat_and_mask51: "unat (a AND MASK51 :: u64) = unat a mod 2 ^ 51"
proof -
  have "MASK51 = mask 51" by (simp add: MASK51_def mask_eq_exp_minus_1)
  then have "a AND MASK51 = take_bit 51 a" by (metis take_bit_eq_mask)
  then have "unat (a AND MASK51) = take_bit 51 (unat a)" by (metis unsigned_take_bit_eq)
  then show ?thesis by (simp only: take_bit_eq_mod)
qed

lemma unat_ucast_up128 [simp]: "unat (ucast (a :: u64) :: u128) = unat a"
  using unat_less_64 [of a] by (simp add: unsigned_ucast_eq take_bit_nat_eq_self)

lemma unat_ucast_down64: "unat (ucast (a :: u128) :: u64) = unat a mod 2 ^ 64"
  by (simp add: unsigned_ucast_eq take_bit_eq_mod)

lemma carry_step128:
  fixes d e :: u128
  assumes "unat d < 2 ^ 115" "unat e < 2 ^ 115"
  shows "unat (e + ucast (ucast (drop_bit 51 d) :: u64)) = unat e + unat d div 2 ^ 51"
    "unat (ucast d AND MASK51 :: u64) = unat d mod 2 ^ 51"
    "unat (ucast (drop_bit 51 d) :: u64) = unat d div 2 ^ 51"
proof -
  have q: "unat d div 2 ^ 51 < 2 ^ 64"
    using assms(1) by (simp add: less_mult_imp_div_less)
  then show c: "unat (ucast (drop_bit 51 d) :: u64) = unat d div 2 ^ 51"
    by (simp add: unat_ucast_down64 unat_drop_bit)
  show "unat (e + ucast (ucast (drop_bit 51 d) :: u64)) = unat e + unat d div 2 ^ 51"
    using assms(2) q by (subst unat_plus_small) (simp_all add: c)
  have "unat (ucast d AND MASK51 :: u64) = unat d mod 2 ^ 64 mod 2 ^ 51"
    by (simp only: unat_and_mask51 unat_ucast_down64)
  also have "\<dots> = unat d mod 2 ^ 51"
    by (rule mod_mod_cancel) (rule le_imp_power_dvd, simp)
  finally show "unat (ucast d AND MASK51 :: u64) = unat d mod 2 ^ 51" .
qed

subsection \<open>The carry chain\<close>

lemma carry51_linear:
  fixes d0 d1 d2 d3 d4 q0 q1 q2 q3 q4 q5 r0 r1 r2 r3 r4 r5 :: nat
  assumes "d0 = 2251799813685248 * q0 + r0" "d1 + q0 = 2251799813685248 * q1 + r1" "d2 + q1 = 2251799813685248 * q2 + r2"
    "d3 + q2 = 2251799813685248 * q3 + r3" "d4 + q3 = 2251799813685248 * q4 + r4" "r0 + q4 * 19 = 2251799813685248 * q5 + r5"
  shows "r5 + 2 ^ 51 * (r1 + q5) + 2 ^ 102 * r2 + 2 ^ 153 * r3 + 2 ^ 204 * r4 + p25519 * q4
         = d0 + 2 ^ 51 * d1 + 2 ^ 102 * d2 + 2 ^ 153 * d3 + 2 ^ 204 * d4"
  using assms unfolding p25519_def by simp

lemma carry51_value:
  fixes d0 d1 d2 d3 d4 :: nat
  defines "e1 \<equiv> d1 + d0 div 2 ^ 51"
  defines "e2 \<equiv> d2 + e1 div 2 ^ 51"
  defines "e3 \<equiv> d3 + e2 div 2 ^ 51"
  defines "e4 \<equiv> d4 + e3 div 2 ^ 51"
  defines "f0 \<equiv> d0 mod 2 ^ 51 + e4 div 2 ^ 51 * 19"
  shows "f0 mod 2 ^ 51 + 2 ^ 51 * (e1 mod 2 ^ 51 + f0 div 2 ^ 51) + 2 ^ 102 * (e2 mod 2 ^ 51)
           + 2 ^ 153 * (e3 mod 2 ^ 51) + 2 ^ 204 * (e4 mod 2 ^ 51) + p25519 * (e4 div 2 ^ 51)
         = d0 + 2 ^ 51 * d1 + 2 ^ 102 * d2 + 2 ^ 153 * d3 + 2 ^ 204 * d4"
proof -
  have split: "x = 2251799813685248 * (x div 2 ^ 51) + x mod 2 ^ 51" for x :: nat
    using mult_div_mod_eq [of "2 ^ 51" x] by simp
  have "d1 + d0 div 2 ^ 51 = 2251799813685248 * (e1 div 2 ^ 51) + e1 mod 2 ^ 51"
    "d2 + e1 div 2 ^ 51 = 2251799813685248 * (e2 div 2 ^ 51) + e2 mod 2 ^ 51"
    "d3 + e2 div 2 ^ 51 = 2251799813685248 * (e3 div 2 ^ 51) + e3 mod 2 ^ 51"
    "d4 + e3 div 2 ^ 51 = 2251799813685248 * (e4 div 2 ^ 51) + e4 mod 2 ^ 51"
    "d0 mod 2 ^ 51 + e4 div 2 ^ 51 * 19 = 2251799813685248 * (f0 div 2 ^ 51) + f0 mod 2 ^ 51"
    using split [of e1] split [of e2] split [of e3] split [of e4] split [of f0]
    by (simp_all only: e1_def e2_def e3_def e4_def f0_def)
  then show ?thesis by (rule carry51_linear [OF split])
qed

lemma fe_carry_eq: "fe_carry (t0, t1, t2, t3, t4) =
    (let e1 = t1 + ucast (ucast (drop_bit 51 t0) :: u64); e2 = t2 + ucast (ucast (drop_bit 51 e1) :: u64);
         e3 = t3 + ucast (ucast (drop_bit 51 e2) :: u64); e4 = t4 + ucast (ucast (drop_bit 51 e3) :: u64);
         f0 = (ucast t0 AND MASK51) + ucast (drop_bit 51 e4) * 19
     in (f0 AND MASK51, (ucast e1 AND MASK51) + drop_bit 51 f0, ucast e2 AND MASK51, ucast e3 AND MASK51,
         ucast e4 AND MASK51))"
  by (simp only: fe_carry_def Let_def prod.case)

lemma fe_carry_val:
  assumes "wide_ok t"
  shows "fe_val (fe_carry t) mod p25519 = wide_val t mod p25519" (is ?val)
    and "fe_tight (fe_carry t)" (is ?ok)
proof -
  obtain t0 t1 t2 t3 t4 where t: "t = (t0, t1, t2, t3, t4)" by (cases t)
  define e1 where "e1 = t1 + ucast (ucast (drop_bit 51 t0) :: u64)"
  define e2 where "e2 = t2 + ucast (ucast (drop_bit 51 e1) :: u64)"
  define e3 where "e3 = t3 + ucast (ucast (drop_bit 51 e2) :: u64)"
  define e4 where "e4 = t4 + ucast (ucast (drop_bit 51 e3) :: u64)"
  define f0 :: u64 where "f0 = (ucast t0 AND MASK51) + ucast (drop_bit 51 e4) * 19"
  have c: "fe_carry (t0, t1, t2, t3, t4) = (f0 AND MASK51, (ucast e1 AND MASK51) + drop_bit 51 f0,
      ucast e2 AND MASK51, ucast e3 AND MASK51, ucast e4 AND MASK51)"
    by (simp only: fe_carry_eq Let_def e1_def e2_def e3_def e4_def f0_def)
  have b: "unat t0 < 77 * 2 ^ 108" "unat t1 < 77 * 2 ^ 108" "unat t2 < 77 * 2 ^ 108" "unat t3 < 77 * 2 ^ 108"
    "unat t4 < 5 * 2 ^ 108" using assms by (simp_all add: t)
  have dv: "x < 2 ^ 115 \<Longrightarrow> x div 2 ^ 51 < 2 ^ 64" for x :: nat by (simp add: less_mult_imp_div_less)
  have e1: "unat e1 = unat t1 + unat t0 div 2 ^ 51" "unat e1 < 2 ^ 115"
    using carry_step128(1) [of t0 t1] dv [of "unat t0"] b unfolding e1_def by simp_all
  have e2: "unat e2 = unat t2 + unat e1 div 2 ^ 51" "unat e2 < 2 ^ 115"
    using carry_step128(1) [of e1 t2] dv [of "unat e1"] b e1(2) unfolding e2_def by simp_all
  have e3: "unat e3 = unat t3 + unat e2 div 2 ^ 51" "unat e3 < 2 ^ 115"
    using carry_step128(1) [of e2 t3] dv [of "unat e2"] b e2(2) unfolding e3_def by simp_all
  have e4: "unat e4 = unat t4 + unat e3 div 2 ^ 51" "unat e4 < 5 * 2 ^ 108 + 2 ^ 64"
    using carry_step128(1) [of e3 t4] dv [of "unat e3"] b e3(2) unfolding e4_def by simp_all
  have e4': "unat e4 < 2 ^ 115" using e4(2) by simp
  have q: "unat e4 div 2 ^ 51 < 5 * 2 ^ 57 + 2 ^ 13"
    using e4(2) by (simp add: less_mult_imp_div_less)
  have q19: "unat (ucast (drop_bit 51 e4) * 19 :: u64) = unat e4 div 2 ^ 51 * 19"
    using q by (subst unat_times_small) (simp_all add: carry_step128(3) [OF e4' e4'])
  have m0: "unat (ucast t0 AND MASK51 :: u64) = unat t0 mod 2 ^ 51" by (rule carry_step128(2) [of t0 0]) (use b(1) in simp_all)
  note m1 = carry_step128(2) [OF e1(2) e1(2)] and m2 = carry_step128(2) [OF e2(2) e2(2)]
    and m3 = carry_step128(2) [OF e3(2) e3(2)] and m4 = carry_step128(2) [OF e4' e4']
  have r: "unat t0 mod 2 ^ 51 < 2 ^ 51" "unat e1 mod 2 ^ 51 < 2 ^ 51" by simp_all
  have f0: "unat f0 = unat t0 mod 2 ^ 51 + unat e4 div 2 ^ 51 * 19"
    unfolding f0_def using q r(1) by (subst unat_plus_small, unfold m0 q19) simp_all
  have fd: "unat f0 div 2 ^ 51 < 2 ^ 13"
    using unat_less_64 [of f0] by (simp add: less_mult_imp_div_less)
  have h1: "unat ((ucast e1 AND MASK51) + drop_bit 51 f0) = unat e1 mod 2 ^ 51 + unat f0 div 2 ^ 51"
    using fd r(2) by (subst unat_plus_small, unfold m1 unat_drop_bit) simp_all
  have "fe_val (fe_carry (t0, t1, t2, t3, t4)) + p25519 * (unat e4 div 2 ^ 51) = wide_val (t0, t1, t2, t3, t4)"
    unfolding c fe_val.simps wide_val.simps unat_and_mask51 [of f0] h1 m2 m3 m4 f0 e4(1) e3(1) e2(1) e1(1)
    by (rule carry51_value)
  then show ?val by (metis t mod_mult_self2)
  show ?ok
    unfolding t c fe_tight.simps unat_and_mask51 [of f0] h1 m2 m3 m4
    using fd r(2) by (auto intro: add_less_mono)
qed

subsection \<open>Multiplication\<close>

lemma products5:
  fixes x1 x2 x3 x4 x5 y1 y2 y3 y4 y5 :: u64
  assumes "unat x1 \<le> A" "unat x2 \<le> A" "unat x3 \<le> A" "unat x4 \<le> A" "unat x5 \<le> A"
    and "unat y1 \<le> B1" "unat y2 \<le> B" "unat y3 \<le> B" "unat y4 \<le> B" "unat y5 \<le> B"
    and "A * B1 + 4 * (A * B) < 2 ^ 128"
  shows "unat (ucast x1 * ucast y1 + ucast x2 * ucast y2 + ucast x3 * ucast y3
            + ucast x4 * ucast y4 + ucast x5 * ucast y5 :: u128)
          = unat x1 * unat y1 + unat x2 * unat y2 + unat x3 * unat y3 + unat x4 * unat y4 + unat x5 * unat y5"
    "unat x1 * unat y1 + unat x2 * unat y2 + unat x3 * unat y3 + unat x4 * unat y4 + unat x5 * unat y5
       \<le> A * B1 + 4 * (A * B)"
proof -
  have p: "unat x1 * unat y1 \<le> A * B1" "unat x2 * unat y2 \<le> A * B" "unat x3 * unat y3 \<le> A * B"
    "unat x4 * unat y4 \<le> A * B" "unat x5 * unat y5 \<le> A * B"
    using assms by (auto intro: mult_le_mono)
  have q: "unat (ucast x * ucast y :: u128) = unat x * unat y" if "unat x * unat y < 2 ^ 128" for x y :: u64
    using that by (subst unat_times_small) simp_all
  have q': "unat (ucast x1 * ucast y1 :: u128) = unat x1 * unat y1" "unat (ucast x2 * ucast y2 :: u128) = unat x2 * unat y2"
    "unat (ucast x3 * ucast y3 :: u128) = unat x3 * unat y3" "unat (ucast x4 * ucast y4 :: u128) = unat x4 * unat y4"
    "unat (ucast x5 * ucast y5 :: u128) = unat x5 * unat y5"
    by (rule q, use p assms(11) in linarith)+
  show "unat (ucast x1 * ucast y1 + ucast x2 * ucast y2 + ucast x3 * ucast y3
            + ucast x4 * ucast y4 + ucast x5 * ucast y5 :: u128)
          = unat x1 * unat y1 + unat x2 * unat y2 + unat x3 * unat y3 + unat x4 * unat y4 + unat x5 * unat y5"
    using p assms(11) q' by (simp add: unat_plus_small)
  show "unat x1 * unat y1 + unat x2 * unat y2 + unat x3 * unat y3 + unat x4 * unat y4 + unat x5 * unat y5
       \<le> A * B1 + 4 * (A * B)"
    using p by linarith
qed

lemma mul19_identity:
  fixes h0 h1 h2 h3 h4 r0 r1 r2 r3 r4 :: nat
  defines "K \<equiv> (h1 * r4 + h2 * r3 + h3 * r2 + h4 * r1) + 2 ^ 51 * (h2 * r4 + h3 * r3 + h4 * r2)
                 + 2 ^ 102 * (h3 * r4 + h4 * r3) + 2 ^ 153 * (h4 * r4)"
  shows "(h0 * r0 + h1 * (r4 * 19) + h2 * (r3 * 19) + h3 * (r2 * 19) + h4 * (r1 * 19))
      + 2 ^ 51 * (h0 * r1 + h1 * r0 + h2 * (r4 * 19) + h3 * (r3 * 19) + h4 * (r2 * 19))
      + 2 ^ 102 * (h0 * r2 + h1 * r1 + h2 * r0 + h3 * (r4 * 19) + h4 * (r3 * 19))
      + 2 ^ 153 * (h0 * r3 + h1 * r2 + h2 * r1 + h3 * r0 + h4 * (r4 * 19))
      + 2 ^ 204 * (h0 * r4 + h1 * r3 + h2 * r2 + h3 * r1 + h4 * r0) + (2 ^ 255 - 19) * K
    = (h0 + 2 ^ 51 * h1 + 2 ^ 102 * h2 + 2 ^ 153 * h3 + 2 ^ 204 * h4)
      * (r0 + 2 ^ 51 * r1 + 2 ^ 102 * r2 + 2 ^ 153 * r3 + 2 ^ 204 * r4)"
  unfolding K_def by (simp add: algebra_simps)

lemma fe_products_val:
  assumes "fe_lt (2 ^ 54) f" "fe_lt (2 ^ 54) g"
  shows "wide_val (fe_products f g) mod p25519 = fe_val f * fe_val g mod p25519" "wide_ok (fe_products f g)"
proof -
  obtain h0 h1 h2 h3 h4 where h: "f = (h0, h1, h2, h3, h4)" by (cases f)
  obtain r0 r1 r2 r3 r4 where r: "g = (r0, r1, r2, r3, r4)" by (cases g)
  define A where "A = (2 ^ 54 - 1 :: nat)"
  define B where "B = (19 * (2 ^ 54 - 1) :: nat)"
  have a: "unat h0 \<le> A" "unat h1 \<le> A" "unat h2 \<le> A" "unat h3 \<le> A" "unat h4 \<le> A"
    using assms(1) by (auto simp: h A_def)
  have b: "unat r0 \<le> A" "unat r1 \<le> A" "unat r2 \<le> A" "unat r3 \<le> A" "unat r4 \<le> A"
    using assms(2) by (auto simp: r A_def)
  then have b': "unat r0 \<le> B" "unat r1 \<le> B" "unat r2 \<le> B" "unat r3 \<le> B" "unat r4 \<le> B"
    by (auto simp: A_def B_def)
  have s: "unat (r1 * 19) = unat r1 * 19" "unat (r2 * 19) = unat r2 * 19" "unat (r3 * 19) = unat r3 * 19"
     "unat (r4 * 19) = unat r4 * 19"
    using assms(2) by (auto simp: r unat_times_small)
  have bs: "unat (r1 * 19) \<le> B" "unat (r2 * 19) \<le> B" "unat (r3 * 19) \<le> B" "unat (r4 * 19) \<le> B"
    using b by (auto simp: s A_def B_def)
  have ab: "A * A + 4 * (A * B) < 2 ^ 128" "A * A + 4 * (A * B) < 77 * 2 ^ 108" "A * A + 4 * (A * A) < 2 ^ 128"
    "A * A + 4 * (A * A) < 5 * 2 ^ 108"
    by (simp_all add: A_def B_def)
  note m = products5 [OF a _ _ _ _ _ ab(1)]
  note m0 = m [OF b(1) bs(4) bs(3) bs(2) bs(1)] and m1 = m [OF b(2) b'(1) bs(4) bs(3) bs(2)]
    and m2 = m [OF b(3) b'(2) b'(1) bs(4) bs(3)] and m3 = m [OF b(4) b'(3) b'(2) b'(1) bs(4)]
    and m4 = products5 [OF a b(5) b(4) b(3) b(2) b(1) ab(3)]
  have "\<exists>K. wide_val (fe_products f g) + p25519 * K = fe_val f * fe_val g"
    unfolding h r fe_products_def prod.case wide_val.simps fe_val.simps Let_def
      m0(1) m1(1) m2(1) m3(1) m4(1) s p25519_def mul19_identity [symmetric]
    by blast
  then show "wide_val (fe_products f g) mod p25519 = fe_val f * fe_val g mod p25519" by (metis mod_mult_self2)
  show "wide_ok (fe_products f g)"
    unfolding h r fe_products_def prod.case wide_ok.simps Let_def m0(1) m1(1) m2(1) m3(1) m4(1)
    using m0(2) m1(2) m2(2) m3(2) m4(2) ab(2,4) by (meson le_less_trans)
qed

lemma fe_mul_val:
  assumes "fe_lt (2 ^ 54) f" "fe_lt (2 ^ 54) g"
  shows "fe_val (fe_mul f g) mod p25519 = fe_val f * fe_val g mod p25519" "fe_tight (fe_mul f g)"
  using fe_carry_val [OF fe_products_val(2) [OF assms]] fe_products_val(1) [OF assms] by (simp_all add: fe_mul_def)

lemma fe_mul121666_val:
  assumes "fe_lt (2 ^ 54) f"
  shows "fe_val (fe_mul121666 f) mod p25519 = 121665 * fe_val f mod p25519" "fe_tight (fe_mul121666 f)"
proof -
  obtain h0 h1 h2 h3 h4 where h: "f = (h0, h1, h2, h3, h4)" by (cases f)
  have b: "unat h0 < 2 ^ 54" "unat h1 < 2 ^ 54" "unat h2 < 2 ^ 54" "unat h3 < 2 ^ 54" "unat h4 < 2 ^ 54"
    using assms by (simp_all add: h)
  have m: "unat (ucast x * 121665 :: u128) = unat x * 121665" if "unat x < 2 ^ 54" for x :: u64
    using that by (subst unat_times_small) simp_all
  let ?t = "(ucast h0 * 121665, ucast h1 * 121665, ucast h2 * 121665, ucast h3 * 121665, ucast h4 * 121665) :: fe_wide"
  have ok: "wide_ok ?t" using b by (simp add: m)
  have "wide_val ?t = 121665 * fe_val f" using b by (simp add: m h)
  then show "fe_val (fe_mul121666 f) mod p25519 = 121665 * fe_val f mod p25519" "fe_tight (fe_mul121666 f)"
    using fe_carry_val [OF ok] by (simp_all add: h)
qed

subsection \<open>Addition and subtraction\<close>

lemma fe_add_val:
  assumes "fe_lt (2 ^ 53) f" "fe_lt (2 ^ 53) g"
  shows "fe_val (fe_add f g) = fe_val f + fe_val g" "fe_lt (2 ^ 54) (fe_add f g)"
  using assms by (cases f; cases g; simp add: unat_plus_small)+

lemma fe_sub_limb:
  fixes f g k :: u64
  assumes "unat f < 2 ^ 53" "unat g \<le> unat k" "unat k < 2 ^ 52"
  shows "unat (f + k - g) = unat f + unat k - unat g" "unat (f + k - g) < 2 ^ 54"
proof -
  have s: "unat (f + k) = unat f + unat k" using assms by (intro unat_plus_small) simp
  then have "g \<le> f + k" using assms(2) by (simp add: word_le_nat_alt)
  then show "unat (f + k - g) = unat f + unat k - unat g" by (simp add: unat_sub s)
  then show "unat (f + k - g) < 2 ^ 54" using assms by simp
qed

text \<open>The constants are the limbs of \<open>2 p\<close>; a tight second operand does not underflow.\<close>

lemma fe_sub_val:
  assumes "fe_lt (2 ^ 53) f" "fe_tight g"
  shows "fe_val (fe_sub f g) + fe_val g = fe_val f + 2 * p25519" "fe_lt (2 ^ 54) (fe_sub f g)"
proof -
  obtain f0 f1 f2 f3 f4 where f: "f = (f0, f1, f2, f3, f4)" by (cases f)
  obtain g0 g1 g2 g3 g4 where g: "g = (g0, g1, g2, g3, g4)" by (cases g)
  have b: "unat f0 < 2 ^ 53" "unat f1 < 2 ^ 53" "unat f2 < 2 ^ 53" "unat f3 < 2 ^ 53" "unat f4 < 2 ^ 53"
    using assms(1) by (simp_all add: f)
  have c: "unat g0 \<le> unat (0xfffffffffffda :: u64)" "unat g1 \<le> unat (0xffffffffffffe :: u64)"
    "unat g2 \<le> unat (0xffffffffffffe :: u64)" "unat g3 \<le> unat (0xffffffffffffe :: u64)" "unat g4 \<le> unat (0xffffffffffffe :: u64)"
    using assms(2) by (simp_all add: g)
  have k: "unat (0xfffffffffffda :: u64) < 2 ^ 52" "unat (0xffffffffffffe :: u64) < 2 ^ 52" by simp_all
  note s = fe_sub_limb [OF b(1) c(1) k(1)] fe_sub_limb [OF b(2) c(2) k(2)] fe_sub_limb [OF b(3) c(3) k(2)]
    fe_sub_limb [OF b(4) c(4) k(2)] fe_sub_limb [OF b(5) c(5) k(2)]
  show "fe_lt (2 ^ 54) (fe_sub f g)" using s by (simp add: f g)
  have l: "x - y + y = x" if "y \<le> x" for x y :: nat using that by simp
  show "fe_val (fe_sub f g) + fe_val g = fe_val f + 2 * p25519"
    unfolding f g fe_sub.simps fe_val.simps s using c by (simp add: p25519_def)
qed

lemma fe_tight_lt: "fe_tight f \<Longrightarrow> fe_lt (2 ^ 52) f"
  by (cases f) simp

lemma fe_lt_mono: "fe_lt A f \<Longrightarrow> A \<le> B \<Longrightarrow> fe_lt B f"
  by (cases f) auto

end
