(* ===== verification/CurveCodec.thy ===== *)
theory CurveCodec
  imports CurveField
begin

text \<open>
  \<^verbatim>\<open>fe_frombytes\<close> reads the number below \<open>2^255\<close> that 32 bytes denote, \<^verbatim>\<open>fe_tobytes\<close> writes the
  canonical representative modulo \<open>2^255 - 19\<close>.
\<close>

subsection \<open>Disjoint parts of a word\<close>

text \<open>Parts \<open>(k, w, v)\<close>: the value \<open>v\<close> of at most \<open>w\<close> bits, shifted by \<open>k\<close>.\<close>

fun or_parts :: "(nat \<times> nat \<times> u64) list \<Rightarrow> u64" where
  "or_parts [] = 0"
| "or_parts ((k, w, v) # ps) = push_bit k v OR or_parts ps"

fun parts_ok :: "nat \<Rightarrow> (nat \<times> nat \<times> u64) list \<Rightarrow> bool" where
  "parts_ok n [] \<longleftrightarrow> n \<le> 64"
| "parts_ok n ((k, w, v) # ps) \<longleftrightarrow> n \<le> k \<and> unat v < 2 ^ w \<and> parts_ok (k + w) ps"

fun parts_sum :: "(nat \<times> nat \<times> u64) list \<Rightarrow> nat" where
  "parts_sum [] = 0"
| "parts_sum ((k, w, v) # ps) = 2 ^ k * unat v + parts_sum ps"

lemma bit_above: "unat (v :: 'a :: len word) < 2 ^ w \<Longrightarrow> bit v n \<Longrightarrow> n < w"
proof (rule ccontr)
  assume "unat v < 2 ^ w" "bit v n" "\<not> n < w"
  then have "unat v < 2 ^ n" by (meson le_less_trans linorder_not_less power_increasing one_le_numeral order_less_le_trans)
  moreover have "bit (unat v) n" using \<open>bit v n\<close> by (simp add: bit_unsigned_iff)
  ultimately show False by (metis bit_iff_odd div_less even_zero)
qed

lemma parts_ok_64: "parts_ok n ps \<Longrightarrow> n \<le> 64"
  by (induction n ps rule: parts_ok.induct) auto

lemma or_parts_sum:
  "parts_ok n ps \<Longrightarrow> (\<forall>i < n. \<not> bit (or_parts ps) i) \<and> unat (or_parts ps) = parts_sum ps"
proof (induction n ps rule: parts_ok.induct)
  case (2 n k w v ps)
  then have ih: "\<forall>i < k + w. \<not> bit (or_parts ps) i" "unat (or_parts ps) = parts_sum ps"
    and v: "unat v < 2 ^ w" "n \<le> k" "k + w \<le> 64" using parts_ok_64 by auto
  have b: "bit (push_bit k v) i \<longleftrightarrow> k \<le> i \<and> bit v (i - k) \<and> i < 64" for i
    by (auto simp: bit_simps)
  have "unat v * 2 ^ k < 2 ^ w * 2 ^ k" using v(1) by simp
  also have "\<dots> \<le> 2 ^ 64" using power_increasing [OF v(3), of "2 :: nat"] by (simp add: power_add mult.commute)
  finally have p: "unat (push_bit k v) = 2 ^ k * unat v" by (simp add: unat_push_bit mult.commute)
  have "\<not> (bit (push_bit k v) i \<and> bit (or_parts ps) i)" for i
    using ih(1) bit_above [OF v(1), of "i - k"] by (auto simp: b not_less)
  then have "unat (or_parts ((k, w, v) # ps)) = parts_sum ((k, w, v) # ps)"
    by (simp add: or_disjoint_unat p ih(2))
  moreover have "\<forall>i < n. \<not> bit (or_parts ((k, w, v) # ps)) i" using ih(1) v(2) by (auto simp: bit_simps)
  ultimately show ?case by simp
qed simp

lemma unat_or_parts: "parts_ok 0 ps \<Longrightarrow> unat (or_parts ps) = parts_sum ps"
  using or_parts_sum by blast

lemma unat_byte_low:
  "unat (ucast (b :: u8) AND 0x07 :: u64) = unat b mod 8" "unat (ucast (b :: u8) AND 0x3f :: u64) = unat b mod 64"
  "unat (ucast (b :: u8) AND 0x01 :: u64) = unat b mod 2" "unat (ucast (b :: u8) AND 0x0f :: u64) = unat b mod 16"
  "unat (ucast (b :: u8) AND 0x7f :: u64) = unat b mod 128"
proof -
  have m: "unat (ucast b AND mask n :: u64) = unat b mod 2 ^ n" for n
  proof -
    have "ucast b AND mask n = (take_bit n (ucast b) :: u64)" by (metis take_bit_eq_mask)
    then have "unat (ucast b AND mask n :: u64) = take_bit n (unat (ucast b :: u64))" by (metis unsigned_take_bit_eq)
    then show ?thesis by (simp add: take_bit_eq_mod)
  qed
  show "unat (ucast (b :: u8) AND 0x07 :: u64) = unat b mod 8" "unat (ucast (b :: u8) AND 0x3f :: u64) = unat b mod 64"
    "unat (ucast (b :: u8) AND 0x01 :: u64) = unat b mod 2" "unat (ucast (b :: u8) AND 0x0f :: u64) = unat b mod 16"
    "unat (ucast (b :: u8) AND 0x7f :: u64) = unat b mod 128"
    using m [of 3] m [of 6] m [of 1] m [of 4] m [of 7] by (simp_all add: mask_eq_exp_minus_1)
qed

lemma unat_u8_div: "unat (b :: u8) div 8 < 32" "unat b div 64 < 4" "unat b div 2 < 128" "unat b div 16 < 16"
  using unat_less_numeral(1) [of b] by (simp_all add: less_mult_imp_div_less)

subsection \<open>Reading\<close>

lemma le_num_drop: "k < length xs \<Longrightarrow> le_num (drop k xs) = unat (xs ! k) + 256 * le_num (drop (Suc k) xs)"
  by (metis Cons_nth_drop_Suc le_num.simps(2))

lemma limb_sums:
  fixes s :: bytes
  defines "f \<equiv> fe_frombytes s"
  shows "fe_val f = unat (s ! 0) + 2 ^ 8 * unat (s ! 1) + 2 ^ 16 * unat (s ! 2) + 2 ^ 24 * unat (s ! 3) + 2 ^ 32 * unat (s ! 4) +
      2 ^ 40 * unat (s ! 5) + 2 ^ 48 * (unat (s ! 6) mod 8) +
    2 ^ 51 * (unat (s ! 6) div 8 + 2 ^ 5 * unat (s ! 7) + 2 ^ 13 * unat (s ! 8) + 2 ^ 21 * unat (s ! 9) + 2 ^ 29 * unat (s ! 10) +
      2 ^ 37 * unat (s ! 11) + 2 ^ 45 * (unat (s ! 12) mod 64)) +
    2 ^ 102 * (unat (s ! 12) div 64 + 2 ^ 2 * unat (s ! 13) + 2 ^ 10 * unat (s ! 14) + 2 ^ 18 * unat (s ! 15) +
      2 ^ 26 * unat (s ! 16) + 2 ^ 34 * unat (s ! 17) + 2 ^ 42 * unat (s ! 18) + 2 ^ 50 * (unat (s ! 19) mod 2)) +
    2 ^ 153 * (unat (s ! 19) div 2 + 2 ^ 7 * unat (s ! 20) + 2 ^ 15 * unat (s ! 21) + 2 ^ 23 * unat (s ! 22) +
      2 ^ 31 * unat (s ! 23) + 2 ^ 39 * unat (s ! 24) + 2 ^ 47 * (unat (s ! 25) mod 16)) +
    2 ^ 204 * (unat (s ! 25) div 16 + 2 ^ 4 * unat (s ! 26) + 2 ^ 12 * unat (s ! 27) + 2 ^ 20 * unat (s ! 28) +
      2 ^ 28 * unat (s ! 29) + 2 ^ 36 * unat (s ! 30) + 2 ^ 44 * (unat (s ! 31) mod 128))" (is ?sum)
    and "fe_lt (2 ^ 51) f" (is ?lt)
proof -
  have u: "unat (s ! i) < 256" for i by (rule unat_less_numeral)
  note w = unat_byte_low unat_drop_bit unat_u8_div
  let ?c = "\<lambda>i. ucast (s ! i) :: u64"
  define a0 where "a0 = or_parts [(0, 8, ?c 0), (8, 8, ?c 1), (16, 8, ?c 2), (24, 8, ?c 3), (32, 8, ?c 4), (40, 8, ?c 5), (48, 3, ?c 6 AND 0x07)]"
  define a1 where "a1 = or_parts [(0, 5, drop_bit 3 (?c 6)), (5, 8, ?c 7), (13, 8, ?c 8), (21, 8, ?c 9), (29, 8, ?c 10), (37, 8, ?c 11), (45, 6, ?c 12 AND 0x3f)]"
  define a2 where "a2 = or_parts [(0, 2, drop_bit 6 (?c 12)), (2, 8, ?c 13), (10, 8, ?c 14), (18, 8, ?c 15), (26, 8, ?c 16), (34, 8, ?c 17), (42, 8, ?c 18), (50, 1, ?c 19 AND 0x01)]"
  define a3 where "a3 = or_parts [(0, 7, drop_bit 1 (?c 19)), (7, 8, ?c 20), (15, 8, ?c 21), (23, 8, ?c 22), (31, 8, ?c 23), (39, 8, ?c 24), (47, 4, ?c 25 AND 0x0f)]"
  define a4 where "a4 = or_parts [(0, 4, drop_bit 4 (?c 25)), (4, 8, ?c 26), (12, 8, ?c 27), (20, 8, ?c 28), (28, 8, ?c 29), (36, 8, ?c 30), (44, 7, ?c 31 AND 0x7f)]"
  have f: "f = (a0, a1, a2, a3, a4)"
    by (simp add: f_def fe_frombytes_def a0_def a1_def a2_def a3_def a4_def or.assoc)
  have s0: "unat a0 = unat (s ! 0) + 2 ^ 8 * unat (s ! 1) + 2 ^ 16 * unat (s ! 2) + 2 ^ 24 * unat (s ! 3) + 2 ^ 32 * unat (s ! 4) +
      2 ^ 40 * unat (s ! 5) + 2 ^ 48 * (unat (s ! 6) mod 8)"
    unfolding a0_def by (subst unat_or_parts) (use u in \<open>simp_all add: w\<close>)
  have s1: "unat a1 = unat (s ! 6) div 8 + 2 ^ 5 * unat (s ! 7) + 2 ^ 13 * unat (s ! 8) + 2 ^ 21 * unat (s ! 9) + 2 ^ 29 * unat (s ! 10) +
      2 ^ 37 * unat (s ! 11) + 2 ^ 45 * (unat (s ! 12) mod 64)"
    unfolding a1_def by (subst unat_or_parts) (use u in \<open>simp_all add: w\<close>)
  have s2: "unat a2 = unat (s ! 12) div 64 + 2 ^ 2 * unat (s ! 13) + 2 ^ 10 * unat (s ! 14) + 2 ^ 18 * unat (s ! 15) +
      2 ^ 26 * unat (s ! 16) + 2 ^ 34 * unat (s ! 17) + 2 ^ 42 * unat (s ! 18) + 2 ^ 50 * (unat (s ! 19) mod 2)"
    unfolding a2_def by (subst unat_or_parts) (use u in \<open>simp_all add: w\<close>)
  have s3: "unat a3 = unat (s ! 19) div 2 + 2 ^ 7 * unat (s ! 20) + 2 ^ 15 * unat (s ! 21) + 2 ^ 23 * unat (s ! 22) +
      2 ^ 31 * unat (s ! 23) + 2 ^ 39 * unat (s ! 24) + 2 ^ 47 * (unat (s ! 25) mod 16)"
    unfolding a3_def by (subst unat_or_parts) (use u in \<open>simp_all add: w\<close>)
  have s4: "unat a4 = unat (s ! 25) div 16 + 2 ^ 4 * unat (s ! 26) + 2 ^ 12 * unat (s ! 27) + 2 ^ 20 * unat (s ! 28) +
      2 ^ 28 * unat (s ! 29) + 2 ^ 36 * unat (s ! 30) + 2 ^ 44 * (unat (s ! 31) mod 128)"
    unfolding a4_def by (subst unat_or_parts) (use u in \<open>simp_all add: w\<close>)
  show ?sum unfolding f fe_val.simps s0 s1 s2 s3 s4 by (rule refl)
  have m: "x mod 8 \<le> 7" "x mod 64 \<le> 63" "x mod 2 \<le> 1" "x mod 16 \<le> 15" "x mod 128 \<le> 127" for x :: nat by simp_all
  have u': "unat (s ! i) \<le> 255" for i using u [of i] by simp
  have d: "unat (s ! i) div 8 \<le> 31" "unat (s ! i) div 64 \<le> 3" "unat (s ! i) div 2 \<le> 127" "unat (s ! i) div 16 \<le> 15" for i
    using unat_u8_div [of "s ! i"] by simp_all
  show ?lt unfolding f fe_lt.simps s0 s1 s2 s3 s4
    by (intro conjI) (use u' [of 0] u' [of 1] u' [of 2] u' [of 3] u' [of 4] u' [of 5] m(1) [of "unat (s ! 6)"] in simp,
      use d(1) [of 6] u' [of 7] u' [of 8] u' [of 9] u' [of 10] u' [of 11] m(2) [of "unat (s ! 12)"] in simp,
      use d(2) [of 12] u' [of 13] u' [of 14] u' [of 15] u' [of 16] u' [of 17] u' [of 18] m(3) [of "unat (s ! 19)"] in simp,
      use d(3) [of 19] u' [of 20] u' [of 21] u' [of 22] u' [of 23] u' [of 24] m(4) [of "unat (s ! 25)"] in simp,
      use d(4) [of 25] u' [of 26] u' [of 27] u' [of 28] u' [of 29] u' [of 30] m(5) [of "unat (s ! 31)"] in simp)
qed


text \<open>The arithmetic of reading: the bytes from each position on, with those that straddle two limbs split.\<close>

lemma bytes_to_limbs:
  fixes L0 L1 L2 L3 L4 L5 L6 L7 L8 L9 L10 L11 L12 L13 L14 L15 L16 L17 L18 L19 L20 L21 L22 L23 L24 L25 L26 L27 L28 L29 L30 L31
      b0 b1 b2 b3 b4 b5 b7 b8 b9 b10 b11 b13 b14 b15 b16 b17 b18 b20 b21 b22 b23 b24 b26 b27 b28 b29 b30
      q6 r6 q12 r12 q19 r19 q25 r25 q31 r31 v :: nat
  assumes "L0 = b0 + 256 * L1" "L1 = b1 + 256 * L2" "L2 = b2 + 256 * L3" "L3 = b3 + 256 * L4" "L4 = b4 + 256 * L5"
      "L5 = b5 + 256 * L6" "L6 = (8 * q6 + r6) + 256 * L7" "L7 = b7 + 256 * L8" "L8 = b8 + 256 * L9" "L9 = b9 + 256 * L10"
      "L10 = b10 + 256 * L11" "L11 = b11 + 256 * L12" "L12 = (64 * q12 + r12) + 256 * L13" "L13 = b13 + 256 * L14"
      "L14 = b14 + 256 * L15" "L15 = b15 + 256 * L16" "L16 = b16 + 256 * L17" "L17 = b17 + 256 * L18" "L18 = b18 + 256 * L19"
      "L19 = (2 * q19 + r19) + 256 * L20" "L20 = b20 + 256 * L21" "L21 = b21 + 256 * L22" "L22 = b22 + 256 * L23"
      "L23 = b23 + 256 * L24" "L24 = b24 + 256 * L25" "L25 = (16 * q25 + r25) + 256 * L26" "L26 = b26 + 256 * L27"
      "L27 = b27 + 256 * L28" "L28 = b28 + 256 * L29" "L29 = b29 + 256 * L30" "L30 = b30 + 256 * L31"
      "L31 = 128 * q31 + r31"
      "v = b0 + 2 ^ 8 * b1 + 2 ^ 16 * b2 + 2 ^ 24 * b3 + 2 ^ 32 * b4 + 2 ^ 40 * b5 + 2 ^ 48 * r6 +
    2 ^ 51 * (q6 + 2 ^ 5 * b7 + 2 ^ 13 * b8 + 2 ^ 21 * b9 + 2 ^ 29 * b10 + 2 ^ 37 * b11 + 2 ^ 45 * r12) +
    2 ^ 102 * (q12 + 2 ^ 2 * b13 + 2 ^ 10 * b14 + 2 ^ 18 * b15 + 2 ^ 26 * b16 + 2 ^ 34 * b17 + 2 ^ 42 * b18 + 2 ^ 50 * r19) +
    2 ^ 153 * (q19 + 2 ^ 7 * b20 + 2 ^ 15 * b21 + 2 ^ 23 * b22 + 2 ^ 31 * b23 + 2 ^ 39 * b24 + 2 ^ 47 * r25) +
    2 ^ 204 * (q25 + 2 ^ 4 * b26 + 2 ^ 12 * b27 + 2 ^ 20 * b28 + 2 ^ 28 * b29 + 2 ^ 36 * b30 + 2 ^ 44 * r31)"
  shows "L0 = v + 2 ^ 255 * q31"
  unfolding assms by (simp add: algebra_simps)

lemma fe_frombytes_val:
  assumes "length s = 32"
  shows "fe_val (fe_frombytes s) = le_num s mod 2 ^ 255" "fe_lt (2 ^ 51) (fe_frombytes s)"
proof -
  have d: "le_num (drop k s) = unat (s ! k) + 256 * le_num (drop j s)" if "j = Suc k" "k < 32" for j k
    unfolding that(1) using that(2) assms by (intro le_num_drop) simp
  have e: "le_num (drop 32 s) = 0" using assms by simp
  have split: "unat (s ! 6) = 8 * (unat (s ! 6) div 8) + unat (s ! 6) mod 8"
    "unat (s ! 12) = 64 * (unat (s ! 12) div 64) + unat (s ! 12) mod 64"
    "unat (s ! 19) = 2 * (unat (s ! 19) div 2) + unat (s ! 19) mod 2"
    "unat (s ! 25) = 16 * (unat (s ! 25) div 16) + unat (s ! 25) mod 16"
    "unat (s ! 31) = 128 * (unat (s ! 31) div 128) + unat (s ! 31) mod 128" by simp_all
  have D:
    "le_num (drop 1 s) = unat (s ! 1) + 256 * le_num (drop 2 s)"
    "le_num (drop 2 s) = unat (s ! 2) + 256 * le_num (drop 3 s)"
    "le_num (drop 3 s) = unat (s ! 3) + 256 * le_num (drop 4 s)"
    "le_num (drop 4 s) = unat (s ! 4) + 256 * le_num (drop 5 s)"
    "le_num (drop 5 s) = unat (s ! 5) + 256 * le_num (drop 6 s)"
    "le_num (drop 7 s) = unat (s ! 7) + 256 * le_num (drop 8 s)"
    "le_num (drop 8 s) = unat (s ! 8) + 256 * le_num (drop 9 s)"
    "le_num (drop 9 s) = unat (s ! 9) + 256 * le_num (drop 10 s)"
    "le_num (drop 10 s) = unat (s ! 10) + 256 * le_num (drop 11 s)"
    "le_num (drop 11 s) = unat (s ! 11) + 256 * le_num (drop 12 s)"
    "le_num (drop 13 s) = unat (s ! 13) + 256 * le_num (drop 14 s)"
    "le_num (drop 14 s) = unat (s ! 14) + 256 * le_num (drop 15 s)"
    "le_num (drop 15 s) = unat (s ! 15) + 256 * le_num (drop 16 s)"
    "le_num (drop 16 s) = unat (s ! 16) + 256 * le_num (drop 17 s)"
    "le_num (drop 17 s) = unat (s ! 17) + 256 * le_num (drop 18 s)"
    "le_num (drop 18 s) = unat (s ! 18) + 256 * le_num (drop 19 s)"
    "le_num (drop 20 s) = unat (s ! 20) + 256 * le_num (drop 21 s)"
    "le_num (drop 21 s) = unat (s ! 21) + 256 * le_num (drop 22 s)"
    "le_num (drop 22 s) = unat (s ! 22) + 256 * le_num (drop 23 s)"
    "le_num (drop 23 s) = unat (s ! 23) + 256 * le_num (drop 24 s)"
    "le_num (drop 24 s) = unat (s ! 24) + 256 * le_num (drop 25 s)"
    "le_num (drop 26 s) = unat (s ! 26) + 256 * le_num (drop 27 s)"
    "le_num (drop 27 s) = unat (s ! 27) + 256 * le_num (drop 28 s)"
    "le_num (drop 28 s) = unat (s ! 28) + 256 * le_num (drop 29 s)"
    "le_num (drop 29 s) = unat (s ! 29) + 256 * le_num (drop 30 s)"
    "le_num (drop 30 s) = unat (s ! 30) + 256 * le_num (drop 31 s)"
    by (rule d; simp)+
  have L0: "le_num s = unat (s ! 0) + 256 * le_num (drop 1 s)" using d [of 1 0] by simp
  have L6: "le_num (drop 6 s) = (8 * (unat (s ! 6) div 8) + unat (s ! 6) mod 8) + 256 * le_num (drop 7 s)"
    using d [of 7 6] by simp
  have L12: "le_num (drop 12 s) = (64 * (unat (s ! 12) div 64) + unat (s ! 12) mod 64) + 256 * le_num (drop 13 s)"
    using d [of 13 12] by simp
  have L19: "le_num (drop 19 s) = (2 * (unat (s ! 19) div 2) + unat (s ! 19) mod 2) + 256 * le_num (drop 20 s)"
    using d [of 20 19] by simp
  have L25: "le_num (drop 25 s) = (16 * (unat (s ! 25) div 16) + unat (s ! 25) mod 16) + 256 * le_num (drop 26 s)"
    using d [of 26 25] by simp
  have L31: "le_num (drop 31 s) = 128 * (unat (s ! 31) div 128) + unat (s ! 31) mod 128"
    using d [of 32 31] e by simp
  note bytes_to_limbs [OF L0 D(1) D(2) D(3) D(4) D(5) L6 D(6) D(7) D(8) D(9) D(10) L12 D(11) D(12) D(13) D(14) D(15) D(16) L19 D(17) D(18) D(19) D(20) D(21) L25 D(22) D(23) D(24) D(25) D(26) L31 limb_sums(1)]
  moreover have lt: "fe_lt (2 ^ 51) (fe_frombytes s)" by (rule limb_sums(2))
  then have "fe_val (fe_frombytes s) < 2 ^ 255" by (cases "fe_frombytes s") simp
  ultimately show "fe_val (fe_frombytes s) = le_num s mod 2 ^ 255" "fe_lt (2 ^ 51) (fe_frombytes s)"
    using lt by simp_all
qed


subsection \<open>Writing\<close>

text \<open>A number cut at bit \<open>j\<close>, and then into bytes.\<close>

lemma cut_byte: "(x :: nat) div 2 ^ k = x div 2 ^ k mod 256 + 256 * (x div 2 ^ (k + 8))"
proof -
  have "x div 2 ^ (k + 8) = x div 2 ^ k div 256" by (simp add: power_add div_mult2_eq)
  then show ?thesis by simp
qed

lemma cut_limb5:
  assumes "k1 = j + 8" "k2 = j + 16" "k3 = j + 24" "k4 = j + 32" "k5 = j + 40"
  shows "(x :: nat) = x mod 2 ^ j + 2 ^ j * (x div 2 ^ j mod 256 + 256 * (x div 2 ^ k1 mod 256 + 256 * (x div 2 ^ k2 mod 256 +
     256 * (x div 2 ^ k3 mod 256 + 256 * (x div 2 ^ k4 mod 256 + 256 * (x div 2 ^ k5))))))"
proof -
  have c: "x div 2 ^ k mod 256 + 256 * (x div 2 ^ l) = x div 2 ^ k" if "l = k + 8" for k l
    unfolding that by (rule cut_byte [symmetric])
  have "k5 = k4 + 8" "k4 = k3 + 8" "k3 = k2 + 8" "k2 = k1 + 8" "k1 = j + 8" using assms by simp_all
  then show ?thesis by (simp only: c mod_mult_div_eq)
qed

lemma cut_limb6:
  assumes "k1 = j + 8" "k2 = j + 16" "k3 = j + 24" "k4 = j + 32" "k5 = j + 40" "k6 = j + 48"
  shows "(x :: nat) = x mod 2 ^ j + 2 ^ j * (x div 2 ^ j mod 256 + 256 * (x div 2 ^ k1 mod 256 + 256 * (x div 2 ^ k2 mod 256 +
     256 * (x div 2 ^ k3 mod 256 + 256 * (x div 2 ^ k4 mod 256 + 256 * (x div 2 ^ k5 mod 256 + 256 * (x div 2 ^ k6)))))))"
proof -
  have "x div 2 ^ k5 mod 256 + 256 * (x div 2 ^ k6) = x div 2 ^ k5"
    using cut_byte [of x k5] assms(5,6) by (simp add: add.commute [of j])
  then show ?thesis using cut_limb5 [OF assms(1-5), of x] by simp
qed

lemma limbs_to_bytes:
  fixes t0 t1 t2 t3 t4 a0 a1 a2 a3 a4 a5 q0 r1 b0 b1 b2 b3 b4 q1 r2 c0 c1 c2 c3 c4 c5 q2 r3 d0 d1 d2 d3 d4 q3 r4 e0 e1 e2 e3 e4 q4 :: nat
  assumes "t0 = a0 + 256 * (a1 + 256 * (a2 + 256 * (a3 + 256 * (a4 + 256 * (a5 + 256 * q0)))))"
    "t1 = r1 + 2 ^ 5 * (b0 + 256 * (b1 + 256 * (b2 + 256 * (b3 + 256 * (b4 + 256 * q1)))))"
    "t2 = r2 + 2 ^ 2 * (c0 + 256 * (c1 + 256 * (c2 + 256 * (c3 + 256 * (c4 + 256 * (c5 + 256 * q2))))))"
    "t3 = r3 + 2 ^ 7 * (d0 + 256 * (d1 + 256 * (d2 + 256 * (d3 + 256 * (d4 + 256 * q3)))))"
    "t4 = r4 + 2 ^ 4 * (e0 + 256 * (e1 + 256 * (e2 + 256 * (e3 + 256 * (e4 + 256 * q4)))))"
  shows "a0 + 256 * (a1 + 256 * (a2 + 256 * (a3 + 256 * (a4 + 256 * (a5 + 256 * ((q0 + 8 * r1) +
      256 * (b0 + 256 * (b1 + 256 * (b2 + 256 * (b3 + 256 * (b4 + 256 * ((q1 + 64 * r2) +
      256 * (c0 + 256 * (c1 + 256 * (c2 + 256 * (c3 + 256 * (c4 + 256 * (c5 + 256 * ((q2 + 2 * r3) +
      256 * (d0 + 256 * (d1 + 256 * (d2 + 256 * (d3 + 256 * (d4 + 256 * ((q3 + 16 * r4) +
      256 * (e0 + 256 * (e1 + 256 * (e2 + 256 * (e3 + 256 * (e4 + 256 * q4))))))))))))))))))))))))))))))
    = t0 + 2 ^ 51 * t1 + 2 ^ 102 * t2 + 2 ^ 153 * t3 + 2 ^ 204 * t4"
  unfolding assms by algebra

lemma unat_low_byte: "unat (ucast (t :: u64) :: u8) = unat t mod 256" "unat (ucast (drop_bit k t) :: u8) = unat t div 2 ^ k mod 256"
  by (simp_all add: unsigned_ucast_eq take_bit_eq_mod unat_drop_bit)

lemma unat_split_byte:
  fixes a b :: u64
  assumes "unat a < 2 ^ (k + m)" "m \<le> 8"
  shows "unat (ucast (drop_bit k a OR push_bit m b) :: u8) = unat a div 2 ^ k + 2 ^ m * (unat b mod 2 ^ (8 - m))"
proof -
  have q: "unat (drop_bit k a) < 2 ^ m"
    using assms(1) by (simp add: unat_drop_bit less_mult_imp_div_less power_add mult.commute)
  have "unat (ucast (drop_bit k a OR push_bit m b) :: u8) = (unat (drop_bit k a) + unat b * 2 ^ m mod 2 ^ 64) mod 2 ^ 8"
    by (simp add: unsigned_ucast_eq take_bit_eq_mod or_disjoint_range [OF q])
  also have "\<dots> = (unat (drop_bit k a) + unat b * 2 ^ m) mod 2 ^ (m + (8 - m))"
  proof -
    have "(2 :: nat) ^ 8 dvd 2 ^ 64" by (rule le_imp_power_dvd) simp
    then have "unat b * 2 ^ m mod 2 ^ 64 mod 2 ^ 8 = unat b * 2 ^ m mod 2 ^ 8" by (rule mod_mod_cancel)
    then have "(unat (drop_bit k a) + unat b * 2 ^ m mod 2 ^ 64) mod 2 ^ 8 = (unat (drop_bit k a) + unat b * 2 ^ m) mod 2 ^ 8"
      by (rule mod_add_cong [OF refl])
    moreover have "m + (8 - m) = 8" using assms(2) by simp
    ultimately show ?thesis by simp
  qed
  also have "\<dots> = unat (drop_bit k a) + 2 ^ m * (unat b mod 2 ^ (8 - m))"
    using q by (simp add: power_add mod_mult2_eq)
  finally show ?thesis by (simp add: unat_drop_bit)
qed

lemma fe_pack_val:
  assumes "fe_lt (2 ^ 51) t"
  shows "le_num (fe_pack t) = fe_val t"
proof -
  obtain t0 t1 t2 t3 t4 where t: "t = (t0, t1, t2, t3, t4)" by (cases t)
  have b: "unat t0 < 2 ^ 51" "unat t1 < 2 ^ 51" "unat t2 < 2 ^ 51" "unat t3 < 2 ^ 51" "unat t4 < 2 ^ 51"
    using assms by (simp_all add: t)
  have top: "unat t4 div 2 ^ 44 mod 256 = unat t4 div 2 ^ 44"
  proof -
    have "unat t4 div 2 ^ 44 < 2 ^ 7" using b(5) by (simp add: less_mult_imp_div_less)
    then show ?thesis by simp
  qed
  have s: "unat (ucast (drop_bit 48 t0 OR push_bit 3 t1) :: u8) = unat t0 div 2 ^ 48 + 8 * (unat t1 mod 2 ^ 5)"
    "unat (ucast (drop_bit 45 t1 OR push_bit 6 t2) :: u8) = unat t1 div 2 ^ 45 + 64 * (unat t2 mod 2 ^ 2)"
    "unat (ucast (drop_bit 50 t2 OR push_bit 1 t3) :: u8) = unat t2 div 2 ^ 50 + 2 * (unat t3 mod 2 ^ 7)"
    "unat (ucast (drop_bit 47 t3 OR push_bit 4 t4) :: u8) = unat t3 div 2 ^ 47 + 16 * (unat t4 mod 2 ^ 4)"
    using unat_split_byte [of t0 48 3 t1] unat_split_byte [of t1 45 6 t2] unat_split_byte [of t2 50 1 t3]
      unat_split_byte [of t3 47 4 t4] b by simp_all
  have t0: "unat t0 = unat t0 mod 256 + 256 * (unat t0 div 2 ^ 8 mod 256 + 256 * (unat t0 div 2 ^ 16 mod 256 +
      256 * (unat t0 div 2 ^ 24 mod 256 + 256 * (unat t0 div 2 ^ 32 mod 256 + 256 * (unat t0 div 2 ^ 40 mod 256 +
      256 * (unat t0 div 2 ^ 48))))))"
    using cut_limb6 [of 8 0 16 24 32 40 48 "unat t0"] by (simp only: add_0 power_0 div_by_1 mod_by_1 mult_1 simp_thms)
  note l = limbs_to_bytes [OF t0 cut_limb5 [of 13 5 21 29 37 45] cut_limb6 [of 10 2 18 26 34 42 50]
      cut_limb5 [of 15 7 23 31 39 47] cut_limb5 [of 12 4 20 28 36 44]]
  show ?thesis
    unfolding t fe_pack.simps le_num.simps s unat_low_byte(2) unat_low_byte(1) [of t0] top mult_0_right add_0_right fe_val.simps
    by (rule l) simp_all
qed


subsection \<open>The canonical representative\<close>

lemma chain_linear:
  fixes t0 t1 t2 t3 t4 c0 c1 c2 c3 c4 r0 r1 r2 r3 r4 k :: nat
  assumes "t0 + k = 2 ^ 51 * c0 + r0" "t1 + c0 = 2 ^ 51 * c1 + r1" "t2 + c1 = 2 ^ 51 * c2 + r2"
    "t3 + c2 = 2 ^ 51 * c3 + r3" "t4 + c3 = 2 ^ 51 * c4 + r4"
  shows "(t0 + 2 ^ 51 * t1 + 2 ^ 102 * t2 + 2 ^ 153 * t3 + 2 ^ 204 * t4) + k =
    (r0 + 2 ^ 51 * r1 + 2 ^ 102 * r2 + 2 ^ 153 * r3 + 2 ^ 204 * r4) + 2 ^ 255 * c4"
  using assms by algebra

lemma chain51:
  fixes t0 t1 t2 t3 t4 k :: nat
  defines "e0 \<equiv> t0 + k"
  defines "e1 \<equiv> t1 + e0 div 2 ^ 51"
  defines "e2 \<equiv> t2 + e1 div 2 ^ 51"
  defines "e3 \<equiv> t3 + e2 div 2 ^ 51"
  defines "e4 \<equiv> t4 + e3 div 2 ^ 51"
  shows "(t0 + 2 ^ 51 * t1 + 2 ^ 102 * t2 + 2 ^ 153 * t3 + 2 ^ 204 * t4) + k =
    (e0 mod 2 ^ 51 + 2 ^ 51 * (e1 mod 2 ^ 51) + 2 ^ 102 * (e2 mod 2 ^ 51) + 2 ^ 153 * (e3 mod 2 ^ 51) +
     2 ^ 204 * (e4 mod 2 ^ 51)) + 2 ^ 255 * (e4 div 2 ^ 51)"
proof -
  have split: "2 ^ 51 * (x div 2 ^ 51) + x mod 2 ^ 51 = x" for x :: nat by (rule mult_div_mod_eq)
  show ?thesis
    by (rule chain_linear [where ?c0.0 = "e0 div 2 ^ 51" and ?c1.0 = "e1 div 2 ^ 51" and ?c2.0 = "e2 div 2 ^ 51" and ?c3.0 = "e3 div 2 ^ 51"])
      (simp_all only: split, simp_all only: e0_def e1_def e2_def e3_def e4_def)
qed

lemma digits51_lt:
  fixes r0 r1 r2 r3 r4 :: nat
  assumes "r0 < 2 ^ 51" "r1 < 2 ^ 51" "r2 < 2 ^ 51" "r3 < 2 ^ 51" "r4 < 2 ^ 51"
  shows "r0 + 2 ^ 51 * r1 + 2 ^ 102 * r2 + 2 ^ 153 * r3 + 2 ^ 204 * r4 < 2 ^ 255"
  using assms by simp

text \<open>The carry out of \<open>V + 19\<close> is the multiple of the prime to take away.\<close>

lemma reduce_arith:
  fixes V R S q d :: nat
  assumes "V + 19 = R + 2 ^ 255 * q" "V + 19 * q = S + 2 ^ 255 * d" "R < 2 ^ 255" "S < 2 ^ 255" "V < 2 * p25519"
  shows "S = V mod p25519"
proof -
  have p: "p25519 + 19 = 2 ^ 255" by (simp add: p25519_def)
  have "q < 2"
  proof (rule ccontr)
    assume "\<not> q < 2"
    then have "2 ^ 255 * 2 \<le> 2 ^ 255 * q" by (intro mult_le_mono2) simp
    then show False using assms(1,5) p by linarith
  qed
  then consider "q = 0" | "q = 1" by linarith
  then show ?thesis
  proof cases
    assume "q = 0"
    then have "V + 19 = R" using assms(1) by simp
    then have "V < p25519" using assms(3) p by linarith
    moreover have "V = S + 2 ^ 255 * d" using assms(2) \<open>q = 0\<close> by simp
    then have "d = 0" using \<open>V < p25519\<close> p by (cases d) auto
    ultimately show ?thesis using \<open>V = S + 2 ^ 255 * d\<close> by simp
  next
    assume q: "q = 1"
    have V: "V + 19 = R + 2 ^ 255" "V + 19 = S + 2 ^ 255 * d" using assms(1,2) q by simp_all
    have "d = 1"
    proof -
      have "2 ^ 255 * d < 2 ^ 255 * 2" using V(2) assms(5) p by linarith
      moreover have "d \<noteq> 0" using V assms(4) by (intro notI) simp
      ultimately show ?thesis by simp
    qed
    then have "V = S + p25519" using V(2) p by simp
    moreover from this have "S < p25519" using assms(5) by linarith
    ultimately show ?thesis by simp
  qed
qed

lemma unat_mask51: "unat (a AND 0x7ffffffffffff :: u64) = unat a mod 2 ^ 51"
  using unat_and_mask51 [of a] by (simp only: MASK51_def)

lemma carry51:
  fixes t c :: u64
  assumes "unat t < 2 ^ 52" "unat c < 2 ^ 13"
  shows "unat (t + c) = unat t + unat c" "unat (drop_bit 51 (t + c)) = (unat t + unat c) div 2 ^ 51"
    "unat (drop_bit 51 (t + c)) < 2 ^ 13"
proof -
  show e: "unat (t + c) = unat t + unat c" using assms by (intro unat_plus_small) simp
  show "unat (drop_bit 51 (t + c)) = (unat t + unat c) div 2 ^ 51" by (simp add: unat_drop_bit e)
  have "unat t + unat c < 2 ^ 13 * 2 ^ 51" using assms by simp
  then show "unat (drop_bit 51 (t + c)) < 2 ^ 13" by (simp add: unat_drop_bit e less_mult_imp_div_less)
qed

lemma fe_reduce_eq: "fe_reduce (t0, t1, t2, t3, t4) =
    (let c0 = drop_bit 51 (t0 + 19); c1 = drop_bit 51 (t1 + c0); c2 = drop_bit 51 (t2 + c1); c3 = drop_bit 51 (t3 + c2);
         q = drop_bit 51 (t4 + c3); u0 = t0 + 19 * q; u1 = t1 + drop_bit 51 u0; u2 = t2 + drop_bit 51 u1;
         u3 = t3 + drop_bit 51 u2; u4 = t4 + drop_bit 51 u3
     in (u0 AND 0x7ffffffffffff, u1 AND 0x7ffffffffffff, u2 AND 0x7ffffffffffff, u3 AND 0x7ffffffffffff, u4 AND 0x7ffffffffffff))"
  by (simp only: fe_reduce_def Let_def prod.case)

lemma fe_reduce_val:
  assumes "fe_tight h"
  shows "fe_val (fe_reduce h) = fe_val h mod p25519" "fe_lt (2 ^ 51) (fe_reduce h)"
proof -
  obtain t0 t1 t2 t3 t4 where h: "h = (t0, t1, t2, t3, t4)" by (cases h)
  have b: "unat t0 < 2 ^ 51" "unat t1 < 2 ^ 51 + 2 ^ 13" "unat t2 < 2 ^ 51" "unat t3 < 2 ^ 51" "unat t4 < 2 ^ 51"
    using assms by (simp_all add: h)
  then have b': "unat t0 < 2 ^ 52" "unat t1 < 2 ^ 52" "unat t2 < 2 ^ 52" "unat t3 < 2 ^ 52" "unat t4 < 2 ^ 52"
    by simp_all
  define c0 where "c0 = drop_bit 51 (t0 + 19)"
  define c1 where "c1 = drop_bit 51 (t1 + c0)"
  define c2 where "c2 = drop_bit 51 (t2 + c1)"
  define c3 where "c3 = drop_bit 51 (t3 + c2)"
  define q where "q = drop_bit 51 (t4 + c3)"
  have k: "unat (19 :: u64) < 2 ^ 13" and uq: "unat (19 :: u64) = 19" by simp_all
  note c0 = carry51 [OF b'(1) k, folded c0_def, unfolded uq]
  note c1 = carry51 [OF b'(2) c0(3), folded c1_def] note c2 = carry51 [OF b'(3) c1(3), folded c2_def]
  note c3 = carry51 [OF b'(4) c2(3), folded c3_def] note q = carry51 [OF b'(5) c3(3), folded q_def]
  have q1: "unat q \<le> 1" 
  proof -
    have "unat t4 + unat c3 < 2 * 2 ^ 51" using b(5) c3(3) by simp
    then have "unat q < 2" unfolding q(2) by (rule less_mult_imp_div_less)
    then show ?thesis by simp
  qed
  have q19: "unat (19 * q) = 19 * unat q" using q1 by (subst unat_times_small) simp_all
  have q19': "unat (19 * q) < 2 ^ 13" using q1 q19 by simp
  define u0 where "u0 = t0 + 19 * q"
  define u1 where "u1 = t1 + drop_bit 51 u0"
  define u2 where "u2 = t2 + drop_bit 51 u1"
  define u3 where "u3 = t3 + drop_bit 51 u2"
  define u4 where "u4 = t4 + drop_bit 51 u3"
  note u0 = carry51 [OF b'(1) q19', folded u0_def] note u1 = carry51 [OF b'(2) u0(3), folded u1_def]
  note u2 = carry51 [OF b'(3) u1(3), folded u2_def] note u3 = carry51 [OF b'(4) u2(3), folded u3_def]
  note u4 = carry51 [OF b'(5) u3(3), folded u4_def]
  have r: "fe_reduce h = (u0 AND 0x7ffffffffffff, u1 AND 0x7ffffffffffff, u2 AND 0x7ffffffffffff, u3 AND 0x7ffffffffffff, u4 AND 0x7ffffffffffff)"
    by (simp only: h fe_reduce_eq Let_def c0_def c1_def c2_def c3_def q_def u0_def u1_def u2_def u3_def u4_def)
  have "fe_val h < 2 ^ 255 + 2 ^ 64"
    using digits51_lt [of "unat t0" "unat t1 - 2 ^ 13" "unat t2" "unat t3" "unat t4"] b by (simp add: h)
  then have small: "fe_val h < 2 * p25519" by (simp add: p25519_def)
  have m: "x mod 2 ^ 51 < 2 ^ 51" for x :: nat by simp
  note n = u0(1) u1(1) u2(1) u3(1) u4(1) u0(2) u1(2) u2(2) u3(2) q19
  note first = chain51 [of "unat t0" "unat t1" "unat t2" "unat t3" "unat t4" 19,
      folded c0(2), folded c1(2), folded c2(2), folded c3(2), folded q(2)]
  note second = chain51 [of "unat t0" "unat t1" "unat t2" "unat t3" "unat t4" "19 * unat q"]
  have "fe_val h + 19 * unat q = fe_val (fe_reduce h) + 2 ^ 255 * (unat (drop_bit 51 u4))"
    unfolding r u4(2) unfolding h fe_val.simps unat_mask51 n by (rule second)
  moreover have "fe_val (fe_reduce h) < 2 ^ 255"
    unfolding r fe_val.simps unat_mask51 by (rule digits51_lt [OF m m m m m])
  ultimately show "fe_val (fe_reduce h) = fe_val h mod p25519"
    using small unfolding h fe_val.simps by (intro reduce_arith [OF first _ digits51_lt [OF m m m m m]])
  show "fe_lt (2 ^ 51) (fe_reduce h)" unfolding r fe_lt.simps unat_mask51 by simp
qed

lemma fe_tobytes_val: "fe_tight h \<Longrightarrow> le_num (fe_tobytes h) = fe_val h mod p25519"
  using fe_reduce_val [of h] fe_pack_val by (simp add: fe_tobytes_def)

lemma length_fe_tobytes [simp, wg_len]: "length (fe_tobytes h) = 32"
  by (cases "fe_reduce h") (simp add: fe_tobytes_def)

end
