(* ===== verification/CurveLadder.thy ===== *)
theory CurveLadder
  imports CurveCodec
begin

text \<open>
  The ladder of \<^verbatim>\<open>src/curve25519_portable.c\<close> against the function X25519 of RFC 7748: a
  limb vector represents a residue, the swaps and the swap-free recursion on the scalar agree,
  \<open>fe_invert\<close> raises to the power \<open>p - 2\<close>.
\<close>

subsection \<open>X25519 on residues\<close>

text \<open>
  Projective x-coordinates \<open>(X, Z)\<close> on the curve with coefficient 486662, by the textbook formulas.
\<close>

definition xdbl :: "int \<times> int \<Rightarrow> int \<times> int" where
  "xdbl P = (case P of (X, Z) \<Rightarrow>
     ((X\<^sup>2 - Z\<^sup>2)\<^sup>2 mod int p25519, 4 * X * Z * (X\<^sup>2 + 486662 * X * Z + Z\<^sup>2) mod int p25519))"

text \<open>The sum of two points whose difference has the affine coordinate \<open>u\<close>.\<close>

definition xadd :: "int \<Rightarrow> int \<times> int \<Rightarrow> int \<times> int \<Rightarrow> int \<times> int" where
  "xadd u P Q = (case (P, Q) of ((X, Z), (X', Z')) \<Rightarrow>
     (4 * (X * X' - Z * Z')\<^sup>2 mod int p25519, u * (4 * (X * Z' - Z * X')\<^sup>2) mod int p25519))"

text \<open>The points \<open>n P\<close> and \<open>(n + 1) P\<close>, from the bits of \<open>n\<close>.\<close>

fun multiples :: "int \<Rightarrow> nat \<Rightarrow> (int \<times> int) \<times> (int \<times> int)" where
  "multiples u 0 = ((1, 0), (u, 1))"
| "multiples u (Suc m) = (let n = Suc m; (P, Q) = multiples u (n div 2)
     in if odd n then (xadd u P Q, xdbl Q) else (xdbl P, xadd u P Q))"

definition decode_scalar :: "nat \<Rightarrow> nat" where
  "decode_scalar k = 8 * (k div 8 mod 2 ^ 251) + 2 ^ 254"

definition x25519_spec :: "nat \<Rightarrow> nat \<Rightarrow> nat" where
  "x25519_spec k u = (case fst (multiples (int (u mod 2 ^ 255)) (decode_scalar k)) of (X, Z) \<Rightarrow>
     nat (X * Z ^ (p25519 - 2) mod int p25519))"

lemma multiples_rec:
  assumes "0 < n"
  shows "multiples u n = (case multiples u (n div 2) of (P, Q) \<Rightarrow>
     if odd n then (xadd u P Q, xdbl Q) else (xdbl P, xadd u P Q))"
  using assms by (cases n) (auto simp: Let_def split: prod.split)

subsection \<open>Limb vectors that represent a residue\<close>

definition rep :: "fe \<Rightarrow> int \<Rightarrow> bool" where
  "rep f a \<longleftrightarrow> int (fe_val f) mod int p25519 = a mod int p25519"

named_theorems fe_rep

lemma fe_lt_intros [fe_rep]:
  "fe_tight f \<Longrightarrow> fe_lt (2 ^ 53) f" "fe_tight f \<Longrightarrow> fe_lt (2 ^ 54) f"
  by (cases f; simp)+

lemma rep_cong: "rep f a \<Longrightarrow> a mod int p25519 = b mod int p25519 \<Longrightarrow> rep f b"
  by (simp add: rep_def)

lemma rep_mod [simp]: "rep f (a mod int p25519) = rep f a"
  by (simp add: rep_def)

lemma rep_mul [fe_rep]:
  assumes "rep f a" "rep g b" "fe_lt (2 ^ 54) f" "fe_lt (2 ^ 54) g"
  shows "rep (fe_mul f g) (a * b)"
proof -
  have "int (fe_val (fe_mul f g)) mod int p25519 = int (fe_val f) * int (fe_val g) mod int p25519"
    using fe_mul_val(1) [OF assms(3,4)] by (metis of_nat_mod of_nat_mult)
  also have "\<dots> = a * b mod int p25519"
    using assms(1,2) unfolding rep_def by (rule mod_mult_cong)
  finally show ?thesis by (simp only: rep_def)
qed

lemma tight_mul [fe_rep]: "fe_lt (2 ^ 54) f \<Longrightarrow> fe_lt (2 ^ 54) g \<Longrightarrow> fe_tight (fe_mul f g)"
  by (rule fe_mul_val(2))

lemma rep_sq [fe_rep]: "rep f a \<Longrightarrow> fe_lt (2 ^ 54) f \<Longrightarrow> rep (fe_sq f) (a * a)"
  by (simp add: fe_sq_def rep_mul)

lemma tight_sq [fe_rep]: "fe_lt (2 ^ 54) f \<Longrightarrow> fe_tight (fe_sq f)"
  by (simp add: fe_sq_def tight_mul)

lemma rep_mul121666 [fe_rep]:
  assumes "rep f a" "fe_lt (2 ^ 54) f"
  shows "rep (fe_mul121666 f) (121665 * a)"
proof -
  have "int (fe_val (fe_mul121666 f)) mod int p25519 = 121665 * int (fe_val f) mod int p25519"
    using fe_mul121666_val(1) [OF assms(2)] by (metis of_nat_mod of_nat_mult of_nat_numeral)
  also have "\<dots> = 121665 * a mod int p25519"
    using assms(1) unfolding rep_def by (rule mod_mult_cong [OF refl])
  finally show ?thesis by (simp only: rep_def)
qed

lemma tight_mul121666 [fe_rep]: "fe_lt (2 ^ 54) f \<Longrightarrow> fe_tight (fe_mul121666 f)"
  by (rule fe_mul121666_val(2))

lemma rep_add [fe_rep]:
  assumes "rep f a" "rep g b" "fe_lt (2 ^ 53) f" "fe_lt (2 ^ 53) g"
  shows "rep (fe_add f g) (a + b)"
  using assms(1,2) unfolding rep_def fe_add_val(1) [OF assms(3,4)] of_nat_add by (rule mod_add_cong)

lemma lt_add [fe_rep]: "fe_lt (2 ^ 53) f \<Longrightarrow> fe_lt (2 ^ 53) g \<Longrightarrow> fe_lt (2 ^ 54) (fe_add f g)"
  by (rule fe_add_val(2))

lemma rep_sub [fe_rep]:
  assumes "rep f a" "rep g b" "fe_lt (2 ^ 53) f" "fe_tight g"
  shows "rep (fe_sub f g) (a - b)"
proof -
  have "int (fe_val (fe_sub f g)) + int (fe_val g) = int (fe_val f) + 2 * int p25519"
    using fe_sub_val(1) [OF assms(3,4)] by (metis of_nat_add of_nat_mult of_nat_numeral)
  then have "int (fe_val (fe_sub f g)) = int (fe_val f) - int (fe_val g) + 2 * int p25519" by simp
  then have "int (fe_val (fe_sub f g)) mod int p25519 = (int (fe_val f) - int (fe_val g)) mod int p25519"
    by (simp only: mod_mult_self2 mult.commute [of 2])
  also have "\<dots> = (a - b) mod int p25519" using assms(1,2) unfolding rep_def by (rule mod_diff_cong)
  finally show ?thesis by (simp only: rep_def)
qed

lemma lt_sub [fe_rep]: "fe_lt (2 ^ 53) f \<Longrightarrow> fe_tight g \<Longrightarrow> fe_lt (2 ^ 54) (fe_sub f g)"
  by (rule fe_sub_val(2))


subsection \<open>A round of the ladder\<close>

fun reps :: "fe \<times> fe \<times> fe \<times> fe \<Rightarrow> (int \<times> int) \<times> (int \<times> int) \<Rightarrow> bool" where
  "reps (x2, z2, x3, z3) ((X, Z), (X', Z')) \<longleftrightarrow> rep x2 X \<and> rep z2 Z \<and> rep x3 X' \<and> rep z3 Z' \<and>
     fe_tight x2 \<and> fe_tight z2 \<and> fe_tight x3 \<and> fe_tight z3"

lemma xadd_commute: "xadd u P Q = xadd u Q P"
proof -
  have "(X * X' - Z * Z')\<^sup>2 = (X' * X - Z' * Z)\<^sup>2" "(X * Z' - Z * X')\<^sup>2 = (X' * Z - Z' * X)\<^sup>2" for X X' Z Z' :: int
    by algebra+
  then show ?thesis by (simp add: xadd_def split: prod.split)
qed

lemma ladder_step_reps:
  assumes "reps (x2, z2, x3, z3) (P, Q)" "rep x1 u" "fe_tight x1"
  shows "reps (ladder_step x1 (x2, z2, x3, z3)) (xdbl P, xadd u P Q)"
proof -
  obtain X Z where P: "P = (X, Z)" by (cases P)
  obtain X' Z' where Q: "Q = (X', Z')" by (cases Q)
  have r: "rep x2 X" "rep z2 Z" "rep x3 X'" "rep z3 Z'" "fe_tight x2" "fe_tight z2" "fe_tight x3" "fe_tight z3"
    using assms(1) by (simp_all add: P Q)
  define a where "a = fe_add x2 z2" define b where "b = fe_sub x2 z2"
  define c where "c = fe_add x3 z3" define d where "d = fe_sub x3 z3"
  have ab: "rep a (X + Z)" "rep b (X - Z)" "rep c (X' + Z')" "rep d (X' - Z')"
    "fe_lt (2 ^ 54) a" "fe_lt (2 ^ 54) b" "fe_lt (2 ^ 54) c" "fe_lt (2 ^ 54) d"
    unfolding a_def b_def c_def d_def using r by (simp_all only: fe_rep)
  define aa where "aa = fe_sq a" define bb where "bb = fe_sq b"
  define da where "da = fe_mul d a" define cb where "cb = fe_mul c b"
  have sq: "rep aa ((X + Z) * (X + Z))" "rep bb ((X - Z) * (X - Z))" "rep da ((X' - Z') * (X + Z))" "rep cb ((X' + Z') * (X - Z))"
    "fe_tight aa" "fe_tight bb" "fe_tight da" "fe_tight cb"
    unfolding aa_def bb_def da_def cb_def using ab by (simp_all only: fe_rep)
  define e where "e = fe_sub aa bb" define s where "s = fe_add da cb" define t where "t = fe_sub da cb"
  have e: "rep e ((X + Z) * (X + Z) - (X - Z) * (X - Z))" "fe_lt (2 ^ 54) e"
    and st: "rep s ((X' - Z') * (X + Z) + (X' + Z') * (X - Z))" "fe_lt (2 ^ 54) s"
      "rep t ((X' - Z') * (X + Z) - (X' + Z') * (X - Z))" "fe_lt (2 ^ 54) t"
    unfolding e_def s_def t_def using sq by (simp_all only: fe_rep)
  have r1: "rep (fe_mul aa bb) (((X + Z) * (X + Z)) * ((X - Z) * (X - Z)))"
    using sq by (simp only: fe_rep)
  have r2: "rep (fe_mul e (fe_add aa (fe_mul121666 e))) (((X + Z) * (X + Z) - (X - Z) * (X - Z)) *
      ((X + Z) * (X + Z) + 121665 * ((X + Z) * (X + Z) - (X - Z) * (X - Z))))"
    using sq e by (simp only: fe_rep)
  have r3: "rep (fe_sq s) (((X' - Z') * (X + Z) + (X' + Z') * (X - Z)) * ((X' - Z') * (X + Z) + (X' + Z') * (X - Z)))"
    using st by (simp only: fe_rep)
  have r4: "rep (fe_mul x1 (fe_sq t)) (u * (((X' - Z') * (X + Z) - (X' + Z') * (X - Z)) * ((X' - Z') * (X + Z) - (X' + Z') * (X - Z))))"
    using st assms(2,3) by (simp only: fe_rep)
  have "((X + Z) * (X + Z)) * ((X - Z) * (X - Z)) = (X\<^sup>2 - Z\<^sup>2)\<^sup>2" by algebra
  moreover have "((X + Z) * (X + Z) - (X - Z) * (X - Z)) * ((X + Z) * (X + Z) + 121665 * ((X + Z) * (X + Z) - (X - Z) * (X - Z)))
      = 4 * X * Z * (X\<^sup>2 + 486662 * X * Z + Z\<^sup>2)" by algebra
  moreover have "((X' - Z') * (X + Z) + (X' + Z') * (X - Z)) * ((X' - Z') * (X + Z) + (X' + Z') * (X - Z)) =
      4 * (X * X' - Z * Z')\<^sup>2" by algebra
  moreover have "((X' - Z') * (X + Z) - (X' + Z') * (X - Z)) * ((X' - Z') * (X + Z) - (X' + Z') * (X - Z)) =
      4 * (X * Z' - Z * X')\<^sup>2" by algebra
  moreover have "fe_tight (fe_mul aa bb)" "fe_tight (fe_mul e (fe_add aa (fe_mul121666 e)))" "fe_tight (fe_sq s)" "fe_tight (fe_mul x1 (fe_sq t))"
    using sq e st assms(3) by (simp_all only: fe_rep)
  ultimately show ?thesis
    using r1 r2 r3 r4 unfolding ladder_step_def Let_def prod.case xdbl_def xadd_def P Q reps.simps rep_mod
    by (simp only: a_def b_def c_def d_def aa_def bb_def da_def cb_def e_def s_def t_def)
qed

subsection \<open>The conditional swap\<close>

lemma fe_cswap_0: "fe_cswap 0 x y = (x, y)"
  by (cases x; cases y) (simp add: fe_cswap_def cswap_limb_def)

lemma fe_cswap_1: "fe_cswap 1 x y = (y, x)"
proof -
  have "(- 1 :: u64) AND w = w" "v XOR (v XOR w) = w" "w XOR (v XOR w) = v" for v w :: u64
    by (simp, (rule bit_word_eqI, auto simp: bit_simps)+)
  then show ?thesis by (cases x; cases y) (simp add: fe_cswap_def cswap_limb_def)
qed

subsection \<open>The rounds\<close>

lemma bit_le_num: "i < 8 * length e \<Longrightarrow> bit (le_num e) i = bit (e ! (i div 8)) (i mod 8)"
proof (induction e arbitrary: i)
  case Nil
  then show ?case by simp
next
  case (Cons x e)
  show ?case
  proof (cases "i < 8")
    case True
    have "take_bit 8 (unat x + 256 * le_num e) = take_bit 8 (unat x)"
      by (simp add: take_bit_eq_mod)
    then have "bit (unat x + 256 * le_num e) i = bit (unat x) i"
      using True by (metis bit_take_bit_iff)
    then show ?thesis using True by (simp add: bit_simps)
  next
    case False
    then obtain j where i: "i = 8 + j" by (metis le_add_diff_inverse not_less)
    have "(unat x + 256 * le_num e) div 2 ^ i = le_num e div 2 ^ j"
      using unsigned_less [of x, where ?'a = nat] by (simp add: i power_add div_mult2_eq)
    moreover have "(8 + j) div 8 = Suc (j div 8)" by simp
    ultimately show ?thesis using Cons i by (simp add: bit_iff_odd)
  qed
qed

lemma scalar_bit_eq:
  assumes "i < 8 * length e"
  shows "scalar_bit e i = of_bool (bit (le_num e) i)"
proof -
  have "drop_bit (i mod 8) (ucast x :: u32) AND 1 = of_bool (bit x (i mod 8))" for x :: u8
    by (rule bit_word_eqI) (auto simp: bit_simps less_eq_iff_succ_less [symmetric])
  then show ?thesis using bit_le_num [OF assms] by (simp add: scalar_bit_def)
qed

definition swap_if :: "bool \<Rightarrow> 'a \<times> 'a \<Rightarrow> 'a \<times> 'a" where
  "swap_if b p = (if b then (snd p, fst p) else p)"

lemma fe_cswap_bool: "fe_cswap (of_bool b) x y = swap_if b (x, y)"
  using fe_cswap_0 fe_cswap_1 by (cases b) (simp_all add: swap_if_def)

lemma swap_if_twice: "swap_if a (swap_if b p) = swap_if (a \<noteq> b) p"
  by (auto simp: swap_if_def)

text \<open>The four coordinates in the order that the bits so far give.\<close>

fun points :: "fe \<times> fe \<times> fe \<times> fe \<Rightarrow> (fe \<times> fe) \<times> (fe \<times> fe)" where
  "points (x2, z2, x3, z3) = ((x2, z2), (x3, z3))"

definition reps_swapped :: "bool \<Rightarrow> fe \<times> fe \<times> fe \<times> fe \<Rightarrow> (int \<times> int) \<times> (int \<times> int) \<Rightarrow> bool" where
  "reps_swapped b st R \<longleftrightarrow> reps st (swap_if b R)"

lemma cswap_reps:
  assumes "reps_swapped b (x2, z2, x3, z3) R"
  shows "case fe_cswap (of_bool b') x2 x3 of (y2, y3) \<Rightarrow> case fe_cswap (of_bool b') z2 z3 of (w2, w3) \<Rightarrow>
    reps_swapped (b \<noteq> b') (y2, w2, y3, w3) R"
  using assms unfolding fe_cswap_bool reps_swapped_def by (cases R) (auto simp: swap_if_def)

lemma round_reps:
  assumes "reps_swapped b st (multiples u (n div 2))" "b = odd n" "0 < n" "rep x1 u" "fe_tight x1"
  shows "reps_swapped b (ladder_step x1 st) (multiples u n)"
proof -
  obtain x2 z2 x3 z3 where st: "st = (x2, z2, x3, z3)" by (cases st)
  obtain P Q where m: "multiples u (n div 2) = (P, Q)" by (cases "multiples u (n div 2)")
  have s: "reps (ladder_step x1 st) (xdbl A, xadd u A B)" if "reps st (A, B)" for A B
    using ladder_step_reps [OF that [unfolded st] assms(4,5)] by (simp only: st)
  show ?thesis
    using assms(1,2) s [of P Q] s [of Q P] multiples_rec [OF assms(3), of u] unfolding xadd_commute [of u Q P]
    by (cases "odd n") (simp_all add: reps_swapped_def swap_if_def m del: reps.simps)
qed

lemma ladder_loop_reps:
  assumes "reps_swapped b st (multiples u (le_num e div 2 ^ n))" "b = odd (le_num e div 2 ^ n)"
    "n \<le> 255" "length e = 32" "bit (le_num e) 254" "rep x1 u" "fe_tight x1"
  shows "case ladder_loop e x1 n (of_bool b, st) of (sw, st') \<Rightarrow>
    sw = of_bool (odd (le_num e)) \<and> reps_swapped (odd (le_num e)) st' (multiples u (le_num e))"
  using assms
proof (induction n arbitrary: b st)
  case 0
  then show ?case by simp
next
  case (Suc n)
  define b' where "b' = bit (le_num e) n"
  obtain x2 z2 x3 z3 where st: "st = (x2, z2, x3, z3)" by (cases st)
  obtain y2 y3 where y: "fe_cswap (of_bool (b \<noteq> b')) x2 x3 = (y2, y3)" by (cases "fe_cswap (of_bool (b \<noteq> b')) x2 x3")
  obtain w2 w3 where w: "fe_cswap (of_bool (b \<noteq> b')) z2 z3 = (w2, w3)" by (cases "fe_cswap (of_bool (b \<noteq> b')) z2 z3")
  let ?m = "le_num e div 2 ^ n"
  have half: "le_num e div 2 ^ Suc n = ?m div 2" by (simp only: power_Suc2 div_mult2_eq)
  have odd: "b' = odd ?m" by (simp add: b'_def bit_iff_odd)
  have "reps_swapped (b \<noteq> (b \<noteq> b')) (y2, w2, y3, w3) (multiples u (?m div 2))"
    using cswap_reps [OF Suc.prems(1) [unfolded st], of "b \<noteq> b'"] by (simp only: y w prod.case half)
  moreover have "(b \<noteq> (b \<noteq> b')) = b'" by auto
  ultimately have r: "reps_swapped b' (y2, w2, y3, w3) (multiples u (?m div 2))" by simp
  have pos: "0 < ?m"
  proof -
    have "2 ^ n \<le> (2 ^ 254 :: nat)" using Suc.prems(3) by (intro power_increasing) simp_all
    also have "2 ^ 254 \<le> le_num e" using Suc.prems(5) bit_imp_take_bit_positive by (metis bit_iff_odd div_less even_zero linorder_not_less)
    finally show ?thesis by (simp add: div_greater_zero_iff)
  qed
  note r' = round_reps [OF r odd pos Suc.prems(6,7)]
  have ih: "case ladder_loop e x1 n (of_bool b', ladder_step x1 (y2, w2, y3, w3)) of (sw, st') \<Rightarrow>
      sw = of_bool (odd (le_num e)) \<and> reps_swapped (odd (le_num e)) st' (multiples u (le_num e))"
    using Suc.prems(3) by (intro Suc.IH [OF r' odd _ Suc.prems(4-7)]) simp
  have bit: "scalar_bit e n = of_bool b'" using Suc.prems(3,4) by (simp add: scalar_bit_eq b'_def)
  have x: "(of_bool b XOR of_bool b' :: u32) = of_bool (b \<noteq> b')" by (cases b; cases b') simp_all
  show ?case
    using ih unfolding st by (simp only: ladder_loop.simps Let_def bit x y w prod.case)
qed

subsection \<open>The inversion\<close>

lemma rep_sq_pow:
  assumes "rep f (a ^ k)" "fe_tight f"
  shows "rep ((fe_sq ^^ n) f) (a ^ (k * 2 ^ n))" "fe_tight ((fe_sq ^^ n) f)"
proof (induction n)
  case 0
  { case 1 show ?case using assms by simp next case 2 show ?case using assms by simp }
next
  case (Suc n)
  note lt = fe_lt_intros(2) [OF Suc(2)]
  { case 1
    have "k * 2 ^ n + k * 2 ^ n = k * 2 ^ Suc n" by simp
    then have "a ^ (k * 2 ^ n) * a ^ (k * 2 ^ n) = a ^ (k * 2 ^ Suc n)" by (simp only: power_add [symmetric])
    then show ?case using rep_sq [OF Suc(1) lt] by simp
  next
    case 2 show ?case using tight_sq [OF lt] by simp }
qed

lemma rep_pow_mul:
  assumes "rep f (a ^ i)" "rep g (a ^ j)" "fe_tight f" "fe_tight g"
  shows "rep (fe_mul f g) (a ^ (i + j)) \<and> fe_tight (fe_mul f g)"
  unfolding power_add by (intro conjI fe_rep assms)

lemma rep_pow_sq:
  assumes "rep f (a ^ k)" "fe_tight f"
  shows "rep ((fe_sq ^^ n) (fe_sq f)) (a ^ (k * 2 ^ Suc n)) \<and> fe_tight ((fe_sq ^^ n) (fe_sq f))"
  using rep_sq_pow [OF assms, of "Suc n"] by (simp only: funpow_Suc_right o_apply)

lemma fe_invert_rep:
  assumes "rep z a" "fe_tight z"
  shows "rep (fe_invert z) (a ^ (p25519 - 2))" "fe_tight (fe_invert z)"
proof -
  have z: "rep z (a ^ 1) \<and> fe_tight z" using assms by simp
  have sq: "rep (fe_sq f) (a ^ (2 * k)) \<and> fe_tight (fe_sq f)" if "rep f (a ^ k) \<and> fe_tight f" for f k
    using that rep_pow_sq [of f a k 0] by (simp add: mult.commute)
  have pow: "rep ((fe_sq ^^ n) (fe_sq f)) (a ^ (k * 2 ^ Suc n)) \<and> fe_tight ((fe_sq ^^ n) (fe_sq f))"
    if "rep f (a ^ k) \<and> fe_tight f" for f k n using that rep_pow_sq by blast
  have mul: "rep (fe_mul f g) (a ^ (i + j)) \<and> fe_tight (fe_mul f g)"
    if "rep f (a ^ i) \<and> fe_tight f" "rep g (a ^ j) \<and> fe_tight g" for f g i j using that rep_pow_mul by blast
  define t2 where "t2 = fe_sq z"
  define t9 where "t9 = fe_mul z (fe_sq (fe_sq t2))"
  define t11 where "t11 = fe_mul t2 t9"
  define e5 where "e5 = fe_mul t9 (fe_sq t11)"
  define e10 where "e10 = fe_mul ((fe_sq ^^ 4) (fe_sq e5)) e5"
  define e20 where "e20 = fe_mul ((fe_sq ^^ 9) (fe_sq e10)) e10"
  define e40 where "e40 = fe_mul ((fe_sq ^^ 19) (fe_sq e20)) e20"
  define e50 where "e50 = fe_mul ((fe_sq ^^ 9) (fe_sq e40)) e10"
  define e100 where "e100 = fe_mul ((fe_sq ^^ 49) (fe_sq e50)) e50"
  define e200 where "e200 = fe_mul ((fe_sq ^^ 99) (fe_sq e100)) e100"
  define e250 where "e250 = fe_mul ((fe_sq ^^ 49) (fe_sq e200)) e50"
  note t2 = sq [OF z, folded t2_def]
  note t9 = mul [OF z sq [OF sq [OF t2]], folded t9_def]
  note t11 = mul [OF t2 t9, folded t11_def]
  note e5 = mul [OF t9 sq [OF t11], folded e5_def]
  note e10 = mul [OF pow [OF e5] e5, of 4, folded e10_def]
  note e20 = mul [OF pow [OF e10] e10, of 9, folded e20_def]
  note e40 = mul [OF pow [OF e20] e20, of 19, folded e40_def]
  note e50 = mul [OF pow [OF e40] e10, of 9, folded e50_def]
  note e100 = mul [OF pow [OF e50] e50, of 49, folded e100_def]
  note e200 = mul [OF pow [OF e100] e100, of 99, folded e200_def]
  note e250 = mul [OF pow [OF e200] e50, of 49, folded e250_def]
  note r = mul [OF pow [OF e250] t11, of 4]
  have i: "fe_invert z = fe_mul ((fe_sq ^^ 4) (fe_sq e250)) t11"
    by (simp only: fe_invert_def Let_def t2_def t9_def t11_def e5_def e10_def e20_def e40_def e50_def e100_def e200_def e250_def)
  show "rep (fe_invert z) (a ^ (p25519 - 2))" "fe_tight (fe_invert z)"
    using r unfolding i by (simp_all add: p25519_def)
qed

subsection \<open>The clamped scalar\<close>

lemma bit_248: "bit (248 :: u8) n \<longleftrightarrow> 3 \<le> n \<and> n < 8"
  by (cases "n < 8") (auto simp: numeral_eq_Suc less_Suc_eq dest: bit_imp_le_length)

lemma and_248: "b AND 248 = push_bit 3 (drop_bit 3 (b :: u8))"
proof (rule bit_word_eqI)
  fix n
  assume "n < LENGTH(8)"
  then show "bit (b AND 248) n = bit (push_bit 3 (drop_bit 3 b)) n"
    unfolding bit_and_iff bit_248 by (auto simp: bit_simps)
qed

lemma unat_and_248: "unat (b AND 248 :: u8) = 8 * (unat b div 8)"
proof -
  have "unat b div 8 < 32" using unsigned_less [of b, where ?'a = nat] by simp
  moreover have "unat (b AND 248 :: u8) = push_bit 3 (unat (drop_bit 3 b)) mod 256"
    unfolding and_248 unsigned_push_bit_eq take_bit_eq_mod by simp
  ultimately show ?thesis by (simp add: unat_drop_bit push_bit_eq_mult)
qed

lemma clamp_top: "(b AND 127) OR 64 = take_bit 6 (b :: u8) OR 64"
  by (rule bit_word_eqI) (auto simp: bit_simps numeral_eq_Suc less_Suc_eq)

lemma unat_clamp_top: "unat ((b AND 127) OR 64 :: u8) = unat b mod 64 + 64"
proof -
  have "take_bit 6 b AND 64 = 0" by (rule bit_word_eqI) (auto simp: bit_simps numeral_eq_Suc less_Suc_eq)
  then have "take_bit 6 b OR 64 = take_bit 6 b + 64" by (metis word_plus_and_or add.right_neutral add_0)
  moreover have t: "unat (take_bit 6 b) = unat b mod 64" by (simp only: unsigned_take_bit_eq) (simp add: take_bit_eq_mod)
  moreover have "unat (take_bit 6 b + 64) = unat (take_bit 6 b) + unat (64 :: u8)"
    unfolding t by (rule unat_plus_small [of "take_bit 6 b", unfolded t]) simp
  ultimately show ?thesis unfolding clamp_top by simp
qed

definition clamped :: "bytes \<Rightarrow> bytes" where
  "clamped s = s[0 := s ! 0 AND 248, 31 := (s ! 31 AND 127) OR 64]"

lemma decode_scalar_bounds: "decode_scalar k < 2 ^ 255" "bit (decode_scalar k) 254"
proof -
  have b: "8 * (k div 8 mod 2 ^ 251) < 2 ^ 254" by simp
  then show "decode_scalar k < 2 ^ 255" by (simp add: decode_scalar_def)
  have "decode_scalar k div 2 ^ 254 = 1" using b by (simp add: decode_scalar_def div_add_self2)
  then show "bit (decode_scalar k) 254" by (simp add: bit_iff_odd)
qed

lemma clamp_arith:
  fixes a m z :: nat
  assumes "m < 256 ^ 30" "a < 256"
  shows "8 * (a div 8) + 256 * (m + 256 ^ 30 * (z mod 64 + 64)) =
    8 * ((a + 256 * (m + 256 ^ 30 * z)) div 8 mod 2 ^ 251) + 2 ^ 254"
proof -
  have "(a + 256 * (m + 256 ^ 30 * z)) div 8 = a div 8 + 32 * m + 2 ^ 245 * z" by simp
  also have "\<dots> mod 2 ^ 251 = (a div 8 + 32 * m) + 2 ^ 245 * (z mod 64)"
  proof -
    have d: "a div 8 + 32 * m + 2 ^ 245 * z = (a div 8 + 32 * m + 2 ^ 245 * (z mod 64)) + 2 ^ 251 * (z div 64)"
    proof -
      have "x + 2 ^ 245 * z' = (x + 2 ^ 245 * r) + 2 ^ 251 * q" if "64 * q + r = z'" for x z' q r :: nat
        using that by auto
      then show ?thesis using mult_div_mod_eq [of 64 z] by blast
    qed
    have "a div 8 + 32 * m + 2 ^ 245 * (z mod 64) < 2 ^ 251"
    proof -
      have "a div 8 + 32 * m < 2 ^ 245" "z mod 64 \<le> 63" using assms by simp_all
      then show ?thesis by simp
    qed
    then show ?thesis by (simp only: d mod_mult_self2 mod_less)
  qed
  finally show ?thesis by simp
qed

lemma le_num_clamped:
  assumes "length s = 32"
  shows "le_num (clamped s) = decode_scalar (le_num s)" "length (clamped s) = 32"
proof -
  obtain x m z where s: "s = x # m @ [z]" and m: "length m = 30"
  proof -
    obtain x t where "s = x # t" "length t = 31" using assms by (cases s) auto
    moreover from this obtain m z where "t = m @ [z]" by (cases t rule: rev_cases) auto
    ultimately show ?thesis using that by simp
  qed
  have "clamped s = (x AND 248) # m @ [(z AND 127) OR 64]"
    by (simp add: clamped_def s nth_append list_update_append m)
  then show "le_num (clamped s) = decode_scalar (le_num s)"
    using clamp_arith [of "le_num m" "unat x" "unat z"] le_num_bound [of m] unsigned_less [of x, where ?'a = nat]
    by (simp only: s le_num.simps le_num_append decode_scalar_def m unat_and_248 unat_clamp_top mult_0_right add_0_right) simp
  show "length (clamped s) = 32" using assms by (simp add: clamped_def)
qed

subsection \<open>The whole function\<close>

lemma x25519_ladder_eq:
  assumes "length scalar = 32"
  shows "x25519_ladder scalar point = (case ladder_loop (clamped scalar) (fe_frombytes point) 255
      (0, (1, 0, 0, 0, 0), (0, 0, 0, 0, 0), fe_frombytes point, (1, 0, 0, 0, 0)) of (sw, x2, z2, x3, z3) \<Rightarrow>
      fe_tobytes (fe_mul (fst (fe_cswap sw x2 x3)) (fe_invert (fst (fe_cswap sw z2 z3)))))"
proof -
  have "scalar[0 := scalar ! 0 AND 248, 31 := scalar[0 := scalar ! 0 AND 248] ! 31 AND 127,
      31 := scalar[0 := scalar ! 0 AND 248, 31 := scalar[0 := scalar ! 0 AND 248] ! 31 AND 127] ! 31 OR 64] = clamped scalar"
    using assms by (simp add: clamped_def)
  then show ?thesis by (simp only: x25519_ladder_def Let_def split_beta fst_conv snd_conv)
qed

lemma x25519_ladder_rep:
  assumes "length scalar = 32" "length point = 32"
  shows "\<exists>h X Z. x25519_ladder scalar point = fe_tobytes h \<and> fe_tight h \<and> rep h (X * Z ^ (p25519 - 2)) \<and>
    fst (multiples (int (le_num point mod 2 ^ 255)) (decode_scalar (le_num scalar))) = (X, Z)"
proof -
  define u where "u = int (le_num point mod 2 ^ 255)"
  define x1 where "x1 = fe_frombytes point"
  have x1: "rep x1 u" "fe_tight x1"
    using fe_frombytes_val [OF assms(2)] by (simp add: rep_def u_def x1_def, cases x1, simp add: x1_def)
  let ?e = "clamped scalar"
  note e = le_num_clamped [OF assms(1)]
  note top = decode_scalar_bounds(2) [of "le_num scalar", folded e(1)]
  note small = decode_scalar_bounds(1) [of "le_num scalar", folded e(1)]
  let ?st = "((1, 0, 0, 0, 0), (0, 0, 0, 0, 0), x1, (1, 0, 0, 0, 0)) :: fe \<times> fe \<times> fe \<times> fe"
  have "reps_swapped False ?st (multiples u (le_num ?e div 2 ^ 255))"
    using x1 small by (simp add: reps_swapped_def swap_if_def rep_def)
  then have "case ladder_loop ?e x1 255 (of_bool False, ?st) of (sw, st') \<Rightarrow>
    sw = of_bool (odd (le_num ?e)) \<and> reps_swapped (odd (le_num ?e)) st' (multiples u (le_num ?e))"
    using small by (intro ladder_loop_reps [OF _ _ _ e(2) top x1]) simp_all
  then obtain x2 z2 x3 z3 where l: "ladder_loop ?e x1 255 (0, ?st) = (of_bool (odd (le_num ?e)), x2, z2, x3, z3)"
    and r: "reps_swapped (odd (le_num ?e)) (x2, z2, x3, z3) (multiples u (le_num ?e))"
    by (cases "ladder_loop ?e x1 255 (0, ?st)") auto
  obtain X Z Q where m: "multiples u (le_num ?e) = ((X, Z), Q)" by (metis surj_pair)
  define x where "x = fst (fe_cswap (of_bool (odd (le_num ?e))) x2 x3)"
  define z where "z = fst (fe_cswap (of_bool (odd (le_num ?e))) z2 z3)"
  have xz: "rep x X" "fe_tight x" "rep z Z" "fe_tight z"
    using r unfolding x_def z_def fe_cswap_bool
    by (cases Q; cases "odd (le_num ?e)"; simp add: reps_swapped_def swap_if_def m)+
  note i = fe_invert_rep [OF xz(3,4)]
  have "rep (fe_mul x (fe_invert z)) (X * Z ^ (p25519 - 2))" "fe_tight (fe_mul x (fe_invert z))"
    using xz i by (simp_all only: fe_rep)
  moreover have "x25519_ladder scalar point = fe_tobytes (fe_mul x (fe_invert z))"
    unfolding x25519_ladder_eq [OF assms(1)] x1_def [symmetric] l prod.case x_def z_def ..
  moreover have "fst (multiples (int (le_num point mod 2 ^ 255)) (decode_scalar (le_num scalar))) = (X, Z)"
    using m by (simp only: e(1) u_def fst_conv)
  ultimately show ?thesis by blast
qed

lemma x25519_ladder_spec:
  assumes "length scalar = 32" "length point = 32"
  shows "le_num (x25519_ladder scalar point) = x25519_spec (le_num scalar) (le_num point)"
    "length (x25519_ladder scalar point) = 32"
proof -
  obtain h X Z where h: "x25519_ladder scalar point = fe_tobytes h" "fe_tight h" "rep h (X * Z ^ (p25519 - 2))"
    and XZ: "fst (multiples (int (le_num point mod 2 ^ 255)) (decode_scalar (le_num scalar))) = (X, Z)"
    using x25519_ladder_rep [OF assms] by blast
  have "int (fe_val h mod p25519) = X * Z ^ (p25519 - 2) mod int p25519"
    using h(3) by (simp only: rep_def zmod_int)
  then have "fe_val h mod p25519 = x25519_spec (le_num scalar) (le_num point)"
    unfolding x25519_spec_def XZ prod.case by (metis nat_int)
  then show "le_num (x25519_ladder scalar point) = x25519_spec (le_num scalar) (le_num point)"
    using fe_tobytes_val [OF h(2)] by (simp only: h(1))
  show "length (x25519_ladder scalar point) = 32" by (simp only: h(1) length_fe_tobytes)
qed

lemma fold_or_0: "fold (OR) bs a = 0 \<longleftrightarrow> a = 0 \<and> le_num bs = 0" for a :: u8
proof (induction bs arbitrary: a)
  case Nil
  then show ?case by simp
next
  case (Cons b bs)
  have "b OR a = 0 \<longleftrightarrow> b = 0 \<and> a = 0" by (simp add: or_eq_0_iff)
  moreover have "unat b = 0 \<longleftrightarrow> b = 0" by (simp add: unat_eq_0)
  ultimately show ?case by (auto simp: Cons.IH)
qed

text \<open>C12: the portable Curve25519 computes X25519 of RFC 7748: for every secret and every public key
  of 32 bytes, the limb arithmetic with its lazy carries, the conditional swaps and the addition
  chain of the inversion return the canonical little-endian bytes of \<open>X * Z^(p-2)\<close>, where \<open>(X : Z)\<close> is the
  multiple of the point by the clamped scalar under the textbook formulas; no word overflows on the way.
  \<open>curve25519\<close> reports success exactly when the shared secret is not zero; the public key of a secret is
  its multiple of the base point 9.\<close>

theorem x25519_rfc7748:
  assumes "length priv = 32" "length pub = 32"
  shows "\<exists>shared ok own. curve25519 priv pub = (shared, ok) \<and> curve25519_generate_public priv = (own, True) \<and>
    length shared = 32 \<and> le_num shared = x25519_spec (le_num priv) (le_num pub) \<and>
    (ok \<longleftrightarrow> x25519_spec (le_num priv) (le_num pub) \<noteq> 0) \<and>
    length own = 32 \<and> le_num own = x25519_spec (le_num priv) 9"
proof -
  have "length basepoint = 32" "le_num basepoint = 9" by (simp_all add: basepoint_def)
  then show ?thesis
    using x25519_ladder_spec [OF assms] x25519_ladder_spec [OF assms(1), of basepoint] fold_or_0 [of "x25519_ladder priv pub" 0]
    by (simp add: curve25519_def curve25519_generate_public_def)
qed

theorem x25519_rfc7748_witness:
  "\<exists>shared ok own. curve25519 (replicate 32 7) basepoint = (shared, ok) \<and>
    curve25519_generate_public (replicate 32 7) = (own, True) \<and>
    length shared = 32 \<and> le_num shared = x25519_spec (le_num (replicate 32 7)) (le_num basepoint) \<and>
    (ok \<longleftrightarrow> x25519_spec (le_num (replicate 32 7)) (le_num basepoint) \<noteq> 0) \<and>
    length own = 32 \<and> le_num own = x25519_spec (le_num (replicate 32 7)) 9"
  by (rule x25519_rfc7748) (simp_all add: basepoint_def)

end
