(* ===== verification/CurveShim.thy ===== *)
theory CurveShim
  imports Curve25519
begin

text \<open>
  The accumulators of \<^verbatim>\<open>src/curve25519_portable.c\<close> for compilers without a 128-bit type: a pair of
  64-bit halves, and the multiplications written with it. Each is equal to the one on 128-bit words.
\<close>

subsection \<open>The halves\<close>

record u128_t =
  u_lo :: u64
  u_hi :: u64

text \<open>The intrinsics of the compiler, as it documents them: the 128-bit product in two halves, and the sum with a carry in and out.\<close>

definition umul128 :: "u64 \<Rightarrow> u64 \<Rightarrow> u64 \<times> u64" where
  "umul128 a b = (let m = ucast a * ucast b :: u128 in (ucast m, ucast (drop_bit 64 m)))"

definition addcarry_u64 :: "bool \<Rightarrow> u64 \<Rightarrow> u64 \<Rightarrow> bool \<times> u64" where
  "addcarry_u64 c a b = (2 ^ 64 \<le> unat a + unat b + of_bool c, a + b + of_bool c)"

definition u128_mul64 :: "u64 \<Rightarrow> u64 \<Rightarrow> u128_t" where
  "u128_mul64 a b = (let (l, h) = umul128 a b in \<lparr>u_lo = l, u_hi = h\<rparr>)"

definition u128_add :: "u128_t \<Rightarrow> u128_t \<Rightarrow> u128_t" where
  "u128_add a b =
     (let (c, l) = addcarry_u64 False (u_lo a) (u_lo b); (c', h) = addcarry_u64 c (u_hi a) (u_hi b)
      in \<lparr>u_lo = l, u_hi = h\<rparr>)"

definition u128_add_u64 :: "u128_t \<Rightarrow> u64 \<Rightarrow> u128_t" where
  "u128_add_u64 a b =
     (let (c, l) = addcarry_u64 False (u_lo a) b; (c', h) = addcarry_u64 c (u_hi a) 0
      in \<lparr>u_lo = l, u_hi = h\<rparr>)"

definition u128_shr51 :: "u128_t \<Rightarrow> u64" where
  "u128_shr51 a = drop_bit 51 (u_lo a) OR push_bit 13 (u_hi a)"

subsection \<open>The multiplications\<close>

type_synonym fe_halves = "u128_t \<times> u128_t \<times> u128_t \<times> u128_t \<times> u128_t"

definition fe_carry_shim :: "fe_halves \<Rightarrow> fe" where
  "fe_carry_shim t = (case t of (t0, t1, t2, t3, t4) \<Rightarrow>
     (let c = u128_shr51 t0; h0 = u_lo t0 AND MASK51; t1 = u128_add_u64 t1 c;
          c = u128_shr51 t1; h1 = u_lo t1 AND MASK51; t2 = u128_add_u64 t2 c;
          c = u128_shr51 t2; h2 = u_lo t2 AND MASK51; t3 = u128_add_u64 t3 c;
          c = u128_shr51 t3; h3 = u_lo t3 AND MASK51; t4 = u128_add_u64 t4 c;
          c = u128_shr51 t4; h4 = u_lo t4 AND MASK51;
          h0 = h0 + c * 19;
          c = drop_bit 51 h0; h0 = h0 AND MASK51; h1 = h1 + c
      in (h0, h1, h2, h3, h4)))"

definition fe_mul_shim :: "fe \<Rightarrow> fe \<Rightarrow> fe" where
  "fe_mul_shim f g = (case (f, g) of ((f0, f1, f2, f3, f4), (g0, g1, g2, g3, g4)) \<Rightarrow>
     (let g1_19 = g1 * 19; g2_19 = g2 * 19; g3_19 = g3 * 19; g4_19 = g4 * 19;
          t0 = u128_add (u128_add (u128_mul64 f0 g0) (u128_mul64 f1 g4_19))
                 (u128_add (u128_add (u128_mul64 f2 g3_19) (u128_mul64 f3 g2_19)) (u128_mul64 f4 g1_19));
          t1 = u128_add (u128_add (u128_mul64 f0 g1) (u128_mul64 f1 g0))
                 (u128_add (u128_add (u128_mul64 f2 g4_19) (u128_mul64 f3 g3_19)) (u128_mul64 f4 g2_19));
          t2 = u128_add (u128_add (u128_mul64 f0 g2) (u128_mul64 f1 g1))
                 (u128_add (u128_add (u128_mul64 f2 g0) (u128_mul64 f3 g4_19)) (u128_mul64 f4 g3_19));
          t3 = u128_add (u128_add (u128_mul64 f0 g3) (u128_mul64 f1 g2))
                 (u128_add (u128_add (u128_mul64 f2 g1) (u128_mul64 f3 g0)) (u128_mul64 f4 g4_19));
          t4 = u128_add (u128_add (u128_mul64 f0 g4) (u128_mul64 f1 g3))
                 (u128_add (u128_add (u128_mul64 f2 g2) (u128_mul64 f3 g1)) (u128_mul64 f4 g0))
      in fe_carry_shim (t0, t1, t2, t3, t4)))"

fun fe_mul121666_shim :: "fe \<Rightarrow> fe" where
  "fe_mul121666_shim (f0, f1, f2, f3, f4) =
     fe_carry_shim (u128_mul64 f0 121665, u128_mul64 f1 121665, u128_mul64 f2 121665, u128_mul64 f3 121665, u128_mul64 f4 121665)"

subsection \<open>The halves denote a 128-bit word\<close>

definition joined :: "u128_t \<Rightarrow> u128" where
  "joined a = push_bit 64 (ucast (u_hi a)) OR ucast (u_lo a)"

lemma bit_joined: "bit (joined a) n = (if n < 64 then bit (u_lo a) n else bit (u_hi a) (n - 64))"
  by (auto simp: joined_def bit_simps dest: bit_imp_le_length)

lemma joined_lo: "ucast (joined a) = u_lo a"
  by (rule bit_word_eqI) (simp add: bit_simps bit_joined)

lemma joined_shr51: "ucast (drop_bit 51 (joined a)) = u128_shr51 a"
proof (rule bit_word_eqI)
  fix n
  assume n: "n < LENGTH(64)"
  have "bit (u_lo a) (51 + n) \<Longrightarrow> n < 13" using bit_imp_le_length [of "u_lo a" "51 + n"] by simp
  then show "bit (ucast (drop_bit 51 (joined a)) :: u64) n = bit (u128_shr51 a) n"
    using n by (auto simp: u128_shr51_def bit_or_iff bit_push_bit_iff bit_drop_bit_eq bit_ucast_iff bit_joined)
qed

lemma unat_joined: "unat (joined a) = unat (u_lo a) + 2 ^ 64 * unat (u_hi a)"
proof -
  have "push_bit 64 (ucast (u_hi a)) AND ucast (u_lo a) = (0 :: u128)"
    by (rule bit_word_eqI) (auto simp: bit_simps dest: bit_imp_le_length)
  then have "joined a = push_bit 64 (ucast (u_hi a)) + ucast (u_lo a)"
    unfolding joined_def by (metis word_plus_and_or add.right_neutral add_0)
  moreover have h: "unat (push_bit 64 (ucast (u_hi a)) :: u128) = 2 ^ 64 * unat (u_hi a)"
    using unsigned_less [of "u_hi a", where ?'a = nat]
    by (simp only: unsigned_push_bit_eq) (simp add: push_bit_eq_mult take_bit_eq_mod unsigned_ucast_eq)
  moreover have l: "unat (ucast (u_lo a) :: u128) = unat (u_lo a)"
    using unsigned_less [of "u_lo a", where ?'a = nat] by (simp add: unsigned_ucast_eq take_bit_eq_mod)
  moreover have "unat (push_bit 64 (ucast (u_hi a)) :: u128) + unat (ucast (u_lo a) :: u128) < 2 ^ LENGTH(128)"
    using unsigned_less [of "u_hi a", where ?'a = nat] unsigned_less [of "u_lo a", where ?'a = nat] unfolding h l by simp
  ultimately show ?thesis by (simp add: unat_plus_small)
qed

lemma joined_mul64: "joined (u128_mul64 a b) = ucast a * ucast b"
  by (rule bit_word_eqI) (auto simp: bit_joined u128_mul64_def umul128_def Let_def bit_simps)

lemma unat_addcarry:
  assumes "addcarry_u64 c a b = (c', r)"
  shows "unat a + unat b + of_bool c = unat r + 2 ^ 64 * of_bool c'"
proof -
  have r: "unat r = (unat a + unat b + of_bool c) mod 2 ^ 64" and c': "c' = (2 ^ 64 \<le> unat a + unat b + of_bool c)"
    using assms by (auto simp: addcarry_u64_def unat_word_ariths mod_simps)
  have "unat a + unat b + of_bool c < 2 * 2 ^ 64"
    using unsigned_less [of a, where ?'a = nat] unsigned_less [of b, where ?'a = nat] by (cases c) simp_all
  then show ?thesis by (simp only: r c') (auto simp: mod_if [of _ "2 ^ 64"] not_le le_mod_geq)
qed

lemma join_sum:
  assumes "addcarry_u64 False (u_lo a) l = (c, l')" "addcarry_u64 c (u_hi a) h = (c', h')"
  shows "joined \<lparr>u_lo = l', u_hi = h'\<rparr> = joined a + joined \<lparr>u_lo = l, u_hi = h\<rparr>"
proof -
  have "unat (joined a) + unat (joined \<lparr>u_lo = l, u_hi = h\<rparr>) = unat (joined \<lparr>u_lo = l', u_hi = h'\<rparr>) + 2 ^ 128 * of_bool c'"
    using unat_addcarry [OF assms(1)] unat_addcarry [OF assms(2)] by (simp add: unat_joined)
  then have "(unat (joined a) + unat (joined \<lparr>u_lo = l, u_hi = h\<rparr>)) mod 2 ^ 128 = unat (joined \<lparr>u_lo = l', u_hi = h'\<rparr>) mod 2 ^ 128"
    by simp
  then show ?thesis
    using unsigned_less [of "joined \<lparr>u_lo = l', u_hi = h'\<rparr>", where ?'a = nat]
    by (intro word_unat_eq_iff [THEN iffD2]) (simp add: unat_word_ariths)
qed

lemma joined_add: "joined (u128_add a b) = joined a + joined b"
  using join_sum [of a "u_lo b" _ _ "u_hi b"] by (cases b) (simp add: u128_add_def split: prod.split)

lemma joined_add_u64: "joined (u128_add_u64 a b) = joined a + ucast b"
proof -
  have "joined \<lparr>u_lo = b, u_hi = 0\<rparr> = ucast b" by (simp add: joined_def)
  then show ?thesis using join_sum [of a b _ _ 0] by (simp add: u128_add_u64_def split: prod.split)
qed

subsection \<open>The two variants agree\<close>

lemma fe_carry_shim_eq:
  "fe_carry_shim (t0, t1, t2, t3, t4) = fe_carry (joined t0, joined t1, joined t2, joined t3, joined t4)"
  unfolding fe_carry_shim_def fe_carry_def Let_def prod.case
  by (simp only: joined_shr51 joined_lo joined_add_u64 [symmetric])

lemma fe_mul_shim_eq: "fe_mul_shim f g = fe_mul f g"
proof -
  obtain f0 f1 f2 f3 f4 where f: "f = (f0, f1, f2, f3, f4)" by (cases f)
  obtain g0 g1 g2 g3 g4 where g: "g = (g0, g1, g2, g3, g4)" by (cases g)
  show ?thesis
    unfolding f g fe_mul_shim_def fe_mul_def fe_products_def Let_def prod.case fe_carry_shim_eq
    by (simp only: joined_add joined_mul64 add.assoc)
qed

lemma fe_mul121666_shim_eq: "fe_mul121666_shim f = fe_mul121666 f"
  by (cases f) (simp add: fe_carry_shim_eq joined_mul64)

end
