(* ===== verification/CoreConfig.thy ===== *)
theory CoreConfig
  imports SessionConfig
begin

text \<open>
  The configuration file of the driver \<^verbatim>\<open>src/wg_core.c\<close>: \<^verbatim>\<open>struct peer_state\<close>,
  \<^verbatim>\<open>struct client_config\<close> and \<^verbatim>\<open>load_config\<close> with the list parsers it calls.

  The driver has its own copies of \<^verbatim>\<open>b64_value\<close>, \<^verbatim>\<open>decode_base64_32\<close>, \<^verbatim>\<open>trim\<close>, \<^verbatim>\<open>parse_cidr\<close>,
  \<^verbatim>\<open>split_endpoint\<close>, \<^verbatim>\<open>resolve_endpoint\<close> and \<^verbatim>\<open>inner_ip_len\<close>, which are those of \<^verbatim>\<open>wg_session.c\<close> but for
  layout and diagnostics; their definitions are shared with the session. What differs is modelled here.

  A file is the characters read from it; \<^verbatim>\<open>struct allowed_cidr\<close> and \<^verbatim>\<open>struct iface_addr\<close> have the fields of
  the session's records; diagnostics on \<^verbatim>\<open>stderr\<close> are not part of the result.
\<close>

subsection \<open>Data model\<close>

definition WG_BUF_MAX :: nat where "WG_BUF_MAX = 16384"
definition WG_MAX_LINE :: nat where "WG_MAX_LINE = 512"
definition WG_MAX_ALLOWED_CIDRS :: nat where "WG_MAX_ALLOWED_CIDRS = 16"
definition WG_MAX_IFACE_ADDRS :: nat where "WG_MAX_IFACE_ADDRS = 4"
definition WG_MAX_PEERS :: nat where "WG_MAX_PEERS = 64"

type_synonym allowed_cidr = wgs_allowed_cidr
type_synonym iface_addr = wgs_iface_addr

record peer_state =
  q_pubkey :: bytes
  q_has_endpoint :: bool
  q_endpoint_host :: string
  q_endpoint_port :: u16
  q_endpoint :: sockaddr
  q_endpoint_len :: nat
  q_allowed :: "allowed_cidr list"
  q_pk_sec :: int
  q_remote :: "nat option"
  q_cookie :: cookie_maker
  q_cookie_inited :: bool
  q_hs_pending :: bool
  q_hs_sent_at :: int
  q_hs_local_idx :: u32
  q_hs_attempts :: int
  q_keypair_birth :: int
  q_last_authd_tx :: int
  q_rekey_jitter_sec :: int
  q_tx_pkts :: u64
  q_tx_bytes :: u64
  q_rx_pkts :: u64
  q_rx_bytes :: u64
  q_rx_dropped_aips :: u64
  q_tx_fd :: int
  q_tx_ep :: sockaddr
  q_tx_ep_len :: nat
  q_tx_err_last :: int
  q_tx_retry_at :: int
  q_tx_send_errs :: u64
  q_nokp_log_last :: int

text \<open>A slot of \<^verbatim>\<open>peers[]\<close> after the \<^verbatim>\<open>memset\<close> of \<^verbatim>\<open>load_config\<close>; its \<^verbatim>\<open>tx_fd\<close> is 0.\<close>

definition zero_peer_state :: peer_state where
  "zero_peer_state =
     \<lparr>q_pubkey = replicate 32 0, q_has_endpoint = False, q_endpoint_host = [], q_endpoint_port = 0,
      q_endpoint = Sa_other, q_endpoint_len = 0, q_allowed = [], q_pk_sec = 0, q_remote = None,
      q_cookie = zero_cookie_maker, q_cookie_inited = False, q_hs_pending = False, q_hs_sent_at = 0,
      q_hs_local_idx = 0, q_hs_attempts = 0, q_keypair_birth = 0, q_last_authd_tx = 0, q_rekey_jitter_sec = 0,
      q_tx_pkts = 0, q_tx_bytes = 0, q_rx_pkts = 0, q_rx_bytes = 0, q_rx_dropped_aips = 0, q_tx_fd = 0,
      q_tx_ep = Sa_other, q_tx_ep_len = 0, q_tx_err_last = 0, q_tx_retry_at = 0, q_tx_send_errs = 0,
      q_nokp_log_last = 0\<rparr>"

record client_config =
  cc_private_key :: bytes
  cc_listen_port :: u16
  cc_mtu :: int
  cc_if_addrs :: "iface_addr list"
  cc_peers :: "peer_state list"

definition zero_client_config :: client_config where
  "zero_client_config =
     \<lparr>cc_private_key = replicate 32 0, cc_listen_port = 0, cc_mtu = 0, cc_if_addrs = [], cc_peers = []\<rparr>"

definition upd_cfg_peer :: "nat \<Rightarrow> (peer_state \<Rightarrow> peer_state) \<Rightarrow> client_config \<Rightarrow> client_config" where
  "upd_cfg_peer i f c = c\<lparr>cc_peers := (cc_peers c)[i := f (cc_peers c ! i)]\<rparr>"

subsection \<open>Lists of addresses\<close>

definition core_parse_iface_addr :: "netlib \<Rightarrow> string \<Rightarrow> iface_addr option" where
  "core_parse_iface_addr nl s =
     (if length s \<ge> 64 then None
      else
        let (tmp, prefix) = cidr_parts s in
        (case inet_pton4 nl tmp of
           Some _ \<Rightarrow>
             let plen = (if prefix < 0 then 32 else prefix) in
             if plen < 0 \<or> plen > 32 then None
             else Some \<lparr>a_family = AF_INET, a_addr_str = take 63 tmp, a_prefix_len = plen\<rparr>
         | None \<Rightarrow>
             (case inet_pton6 nl tmp of
                Some _ \<Rightarrow>
                  let plen = (if prefix < 0 then 128 else prefix) in
                  if plen < 0 \<or> plen > 128 then None
                  else Some \<lparr>a_family = AF_INET6, a_addr_str = take 63 tmp, a_prefix_len = plen\<rparr>
              | None \<Rightarrow> None)))"

text \<open>The trimming of blanks and tabs around an entry of a list.\<close>

definition is_blank :: "char \<Rightarrow> bool" where
  "is_blank c \<longleftrightarrow> c = CHR '' '' \<or> c = CHR 0x09"

definition trim_entry :: "string \<Rightarrow> string" where
  "trim_entry s = rev (dropWhile is_blank (rev (dropWhile is_blank s)))"

text \<open>On an error the entries read so far stay in the structure, but the whole configuration is rejected.\<close>

fun iface_entries :: "netlib \<Rightarrow> string list \<Rightarrow> iface_addr list \<Rightarrow> iface_addr list option" where
  "iface_entries nl [] acc = Some acc"
| "iface_entries nl (t # ts) acc =
     (let p = trim_entry t in
      if p = [] then iface_entries nl ts acc
      else if length acc \<ge> WG_MAX_IFACE_ADDRS then None
      else (case core_parse_iface_addr nl p of
              None \<Rightarrow> None
            | Some a \<Rightarrow> iface_entries nl ts (acc @ [a])))"

definition parse_iface_addrs :: "netlib \<Rightarrow> string \<Rightarrow> client_config \<Rightarrow> client_config option" where
  "parse_iface_addrs nl s cfg =
     (if length s \<ge> 256 then None
      else map_option (\<lambda>as. cfg\<lparr>cc_if_addrs := as\<rparr>) (iface_entries nl (strtok (CHR '','') s) (cc_if_addrs cfg)))"

fun allowed_entries :: "netlib \<Rightarrow> string list \<Rightarrow> allowed_cidr list \<Rightarrow> allowed_cidr list option" where
  "allowed_entries nl [] acc = Some acc"
| "allowed_entries nl (t # ts) acc =
     (let p = trim_entry t in
      if p = [] then allowed_entries nl ts acc
      else if length acc \<ge> WG_MAX_ALLOWED_CIDRS then None
      else (case parse_cidr nl p of
              None \<Rightarrow> None
            | Some c \<Rightarrow> allowed_entries nl ts (acc @ [c])))"

definition parse_allowed_ips :: "netlib \<Rightarrow> string \<Rightarrow> peer_state \<Rightarrow> peer_state option" where
  "parse_allowed_ips nl s peer =
     (if length s \<ge> 512 then None
      else map_option (\<lambda>cs. peer\<lparr>q_allowed := cs\<rparr>) (allowed_entries nl (strtok (CHR '','') s) (q_allowed peer)))"

subsection \<open>The file\<close>

text \<open>\<^verbatim>\<open>fgets\<close> with room for \<open>n\<close> characters: a line with its newline, or its first \<open>n\<close> characters.\<close>

fun fgets_line :: "nat \<Rightarrow> string \<Rightarrow> string \<times> string" where
  "fgets_line 0 s = ([], s)"
| "fgets_line (Suc n) [] = ([], [])"
| "fgets_line (Suc n) (c # s) =
     (if c = CHR 0x0A then ([c], s) else (case fgets_line n s of (l, r) \<Rightarrow> (c # l, r)))"

lemma fgets_line_append: "fgets_line n s = (l, r) \<Longrightarrow> s = l @ r"
  by (induction n s arbitrary: l rule: fgets_line.induct) (auto split: if_splits prod.splits)

lemma fgets_line_shorter:
  assumes "(l, r) = fgets_line n s" "0 < n" "s \<noteq> []"
  shows "length r < length s"
proof -
  have "l \<noteq> []" using assms by (cases n; cases s) (auto split: if_splits prod.splits)
  then show ?thesis using fgets_line_append [OF assms(1) [symmetric]] by simp
qed

function fgets_lines :: "nat \<Rightarrow> string \<Rightarrow> string list" where
  "fgets_lines n s = (if n = 0 \<or> s = [] then [] else (case fgets_line n s of (l, r) \<Rightarrow> l # fgets_lines n r))"
  by auto
termination
  by (relation "measure (\<lambda>(n, s). length s)") (auto dest: fgets_line_shorter)

declare fgets_lines.simps [simp del]

record loader =
  ld_config :: client_config
  ld_in_interface :: bool
  ld_in_peer :: bool
  ld_cur_peer :: "nat option"
  ld_got_priv :: bool

definition load_section :: "string \<Rightarrow> loader \<Rightarrow> loader option" where
  "load_section p st =
     (let st = st\<lparr>ld_in_interface := (take 11 p = ''[Interface]''), ld_in_peer := (take 6 p = ''[Peer]'')\<rparr>;
          c = ld_config st
      in if ld_in_peer st then
           if length (cc_peers c) \<ge> WG_MAX_PEERS then None
           else Some (st\<lparr>ld_cur_peer := Some (length (cc_peers c)),
                         ld_config := c\<lparr>cc_peers := cc_peers c @ [zero_peer_state]\<rparr>\<rparr>)
         else Some st)"

definition load_peer_key :: "netlib \<Rightarrow> string \<Rightarrow> string \<Rightarrow> nat \<Rightarrow> client_config \<Rightarrow> client_config option" where
  "load_peer_key nl p eq i c =
     (if p = ''PublicKey'' then
        (case decode_base64_32 eq of
           None \<Rightarrow> None
         | Some k \<Rightarrow> Some (upd_cfg_peer i (\<lambda>x. x\<lparr>q_pubkey := k\<rparr>) c))
      else if p = ''Endpoint'' then
        (case split_endpoint eq of
           None \<Rightarrow> None
         | Some (host, port) \<Rightarrow>
             Some (upd_cfg_peer i (\<lambda>x. x\<lparr>q_endpoint_host := host, q_endpoint_port := port, q_has_endpoint := True\<rparr>) c))
      else if p = ''PersistentKeepalive'' then
        Some (upd_cfg_peer i (\<lambda>x. x\<lparr>q_pk_sec := atoi eq\<rparr>) c)
      else if p = ''AllowedIPs'' then
        (case parse_allowed_ips nl eq (cc_peers c ! i) of
           None \<Rightarrow> None
         | Some peer \<Rightarrow> Some (upd_cfg_peer i (\<lambda>_. peer) c))
      else Some c)"

definition load_key :: "netlib \<Rightarrow> string \<Rightarrow> string \<Rightarrow> loader \<Rightarrow> loader option" where
  "load_key nl p eq st =
     (let c = ld_config st in
      if ld_in_interface st \<and> p = ''PrivateKey'' then
        (case decode_base64_32 eq of
           None \<Rightarrow> None
         | Some k \<Rightarrow> Some (st\<lparr>ld_config := c\<lparr>cc_private_key := k\<rparr>, ld_got_priv := True\<rparr>))
      else if ld_in_interface st \<and> p = ''ListenPort'' then
        (let lp = atoi eq in
         if lp < 1 \<or> lp > 65535 then None
         else Some (st\<lparr>ld_config := c\<lparr>cc_listen_port := of_int lp\<rparr>\<rparr>))
      else if ld_in_interface st \<and> p = ''MTU'' then
        (let m = atoi eq in
         if m < 576 \<or> m > int WG_BUF_MAX - 256 then None
         else Some (st\<lparr>ld_config := c\<lparr>cc_mtu := m\<rparr>\<rparr>))
      else if ld_in_interface st \<and> p = ''Address'' then
        map_option (\<lambda>c. st\<lparr>ld_config := c\<rparr>) (parse_iface_addrs nl eq c)
      else if ld_in_peer st then
        (case ld_cur_peer st of
           None \<Rightarrow> Some st
         | Some i \<Rightarrow> map_option (\<lambda>c. st\<lparr>ld_config := c\<rparr>) (load_peer_key nl p eq i c))
      else Some st)"

definition load_line :: "netlib \<Rightarrow> string \<Rightarrow> loader \<Rightarrow> loader option" where
  "load_line nl line st =
     (let p = wgs_trim (c_string line) in
      if p = [] \<or> hd p = CHR ''#'' \<or> hd p = CHR '';'' then Some st
      else if hd p = CHR ''['' then load_section p st
      else
        (case strchr (CHR ''='') p of
           None \<Rightarrow> Some st
         | Some (p, eq) \<Rightarrow> load_key nl (wgs_trim p) (wgs_trim eq) st))"

fun load_lines :: "netlib \<Rightarrow> string list \<Rightarrow> loader \<Rightarrow> loader option" where
  "load_lines nl [] st = Some st"
| "load_lines nl (l # ls) st =
     (case load_line nl l st of None \<Rightarrow> None | Some st \<Rightarrow> load_lines nl ls st)"

text \<open>\<^verbatim>\<open>None\<close> for the file is a failed \<^verbatim>\<open>fopen\<close>.\<close>

definition load_config :: "netlib \<Rightarrow> string option \<Rightarrow> client_config option" where
  "load_config nl file =
     (case file of
        None \<Rightarrow> None
      | Some txt \<Rightarrow>
          (case load_lines nl (fgets_lines (WG_MAX_LINE - 1) txt)
                  \<lparr>ld_config = zero_client_config, ld_in_interface = False, ld_in_peer = False, ld_cur_peer = None,
                   ld_got_priv = False\<rparr> of
             None \<Rightarrow> None
           | Some st \<Rightarrow>
               let c = ld_config st in
               if \<not> ld_got_priv st then None
               else if cc_peers c = [] then None
               else if list_ex (\<lambda>p. list_all (\<lambda>b. b = 0) (q_pubkey p)) (cc_peers c) then None
               else if \<not> list_ex q_has_endpoint (cc_peers c) \<and> cc_listen_port c = 0 then None
               else Some c))"

subsection \<open>What the loader guarantees\<close>

definition iface_ok :: "iface_addr \<Rightarrow> bool" where
  "iface_ok a \<longleftrightarrow> 0 \<le> a_prefix_len a \<and> a_prefix_len a \<le> (if a_family a = AF_INET then 32 else 128) \<and>
     length (a_addr_str a) < 64"

definition peer_state_ok :: "peer_state \<Rightarrow> bool" where
  "peer_state_ok p \<longleftrightarrow> length (q_pubkey p) = 32 \<and> length (q_allowed p) \<le> WG_MAX_ALLOWED_CIDRS \<and>
     (\<forall>c \<in> set (q_allowed p). cidr_ok c) \<and> maker_ok (q_cookie p)"

definition client_config_ok :: "client_config \<Rightarrow> bool" where
  "client_config_ok c \<longleftrightarrow> length (cc_private_key c) = 32 \<and> (cc_mtu c = 0 \<or> 576 \<le> cc_mtu c \<and> cc_mtu c \<le> 16128) \<and>
     length (cc_if_addrs c) \<le> WG_MAX_IFACE_ADDRS \<and> (\<forall>a \<in> set (cc_if_addrs c). iface_ok a) \<and>
     length (cc_peers c) \<le> WG_MAX_PEERS \<and> (\<forall>p \<in> set (cc_peers c). peer_state_ok p)"

text \<open>What \<open>load_config\<close> leaves of a slot for \<open>main\<close> to fill.\<close>

definition peer_fresh :: "peer_state \<Rightarrow> bool" where
  "peer_fresh p \<longleftrightarrow> q_endpoint_len p = 0 \<and> q_remote p = None \<and> \<not> q_cookie_inited p \<and> \<not> q_hs_pending p \<and>
     q_keypair_birth p = 0 \<and> q_tx_fd p = 0 \<and> q_tx_ep_len p = 0 \<and> q_tx_retry_at p = 0"

lemma zero_peer_state_ok [simp]: "peer_state_ok zero_peer_state" "peer_fresh zero_peer_state"
  by (simp_all add: peer_state_ok_def peer_fresh_def zero_peer_state_def maker_ok_def zero_cookie_maker_def)

lemma core_parse_iface_addr_ok: "core_parse_iface_addr nl s = Some a \<Longrightarrow> iface_ok a"
  by (auto simp: core_parse_iface_addr_def iface_ok_def Let_def split: if_splits option.splits prod.splits)

lemma iface_entries_ok:
  "iface_entries nl ts acc = Some as \<Longrightarrow> length acc \<le> WG_MAX_IFACE_ADDRS \<and> (\<forall>a \<in> set acc. iface_ok a) \<Longrightarrow>
   length as \<le> WG_MAX_IFACE_ADDRS \<and> (\<forall>a \<in> set as. iface_ok a)"
  by (induction nl ts acc rule: iface_entries.induct)
    (auto simp: Let_def split: if_splits option.splits dest: core_parse_iface_addr_ok)

lemma allowed_entries_ok:
  "allowed_entries nl ts acc = Some cs \<Longrightarrow> netlib_ok nl \<Longrightarrow> length acc \<le> WG_MAX_ALLOWED_CIDRS \<and> (\<forall>c \<in> set acc. cidr_ok c) \<Longrightarrow>
   length cs \<le> WG_MAX_ALLOWED_CIDRS \<and> (\<forall>c \<in> set cs. cidr_ok c)"
  by (induction nl ts acc rule: allowed_entries.induct)
    (auto simp: Let_def split: if_splits option.splits dest: parse_cidr_ok)

definition loader_ok :: "loader \<Rightarrow> bool" where
  "loader_ok st \<longleftrightarrow> client_config_ok (ld_config st) \<and> list_all peer_fresh (cc_peers (ld_config st)) \<and>
     (\<forall>i. ld_cur_peer st = Some i \<longrightarrow> i < length (cc_peers (ld_config st)))"

lemma upd_cfg_peer_ok:
  assumes "client_config_ok c" "list_all peer_fresh (cc_peers c)" "i < length (cc_peers c)"
    "peer_state_ok (f (cc_peers c ! i))" "peer_fresh (f (cc_peers c ! i))"
  shows "client_config_ok (upd_cfg_peer i f c) \<and> list_all peer_fresh (cc_peers (upd_cfg_peer i f c)) \<and>
    length (cc_peers (upd_cfg_peer i f c)) = length (cc_peers c)"
  using assms set_update_subset_insert [of "cc_peers c" i]
  by (fastforce simp: client_config_ok_def upd_cfg_peer_def list_all_iff)

lemma load_peer_key_ok:
  assumes "netlib_ok nl" "client_config_ok c" "list_all peer_fresh (cc_peers c)" "i < length (cc_peers c)"
    "load_peer_key nl p eq i c = Some c'"
  shows "client_config_ok c' \<and> list_all peer_fresh (cc_peers c') \<and> length (cc_peers c') = length (cc_peers c)"
proof -
  have p: "peer_state_ok (cc_peers c ! i)" "peer_fresh (cc_peers c ! i)"
    using assms(2-4) by (simp_all add: client_config_ok_def list_all_length)
  have ips: "peer_state_ok q \<and> peer_fresh q" if "parse_allowed_ips nl eq (cc_peers c ! i) = Some q" for q
    using that p allowed_entries_ok [OF _ assms(1)]
    by (auto simp: parse_allowed_ips_def peer_state_ok_def peer_fresh_def split: if_splits)
  show ?thesis
    using assms(2,3,5) p ips
    by (auto simp: load_peer_key_def split: if_splits option.splits prod.splits intro!: upd_cfg_peer_ok [OF assms(2,3,4)])
      (auto simp: peer_state_ok_def peer_fresh_def dest: decode_base64_length)
qed

lemma load_key_ok:
  assumes "netlib_ok nl" "loader_ok st" "load_key nl p eq st = Some st'"
  shows "loader_ok st'"
proof -
  have addr: "client_config_ok c \<and> cc_peers c = cc_peers (ld_config st)" if "parse_iface_addrs nl eq (ld_config st) = Some c" for c
    using that assms(2) iface_entries_ok [of nl]
    by (fastforce simp: parse_iface_addrs_def loader_ok_def client_config_ok_def split: if_splits)
  have peer: "loader_ok (st\<lparr>ld_config := c\<rparr>)"
    if "ld_cur_peer st = Some i" "load_peer_key nl p eq i (ld_config st) = Some c" for i c
    using that assms(2) load_peer_key_ok [OF assms(1) _ _ _ that(2)] by (auto simp: loader_ok_def)
  have key: "loader_ok (st\<lparr>ld_config := (ld_config st)\<lparr>cc_private_key := k\<rparr>, ld_got_priv := True\<rparr>)"
    if "decode_base64_32 eq = Some k" for k
    using assms(2) decode_base64_length [OF that] by (auto simp: loader_ok_def client_config_ok_def)
  have nums: "loader_ok (st\<lparr>ld_config := (ld_config st)\<lparr>cc_listen_port := w\<rparr>\<rparr>)"
    "576 \<le> m \<Longrightarrow> m \<le> 16128 \<Longrightarrow> loader_ok (st\<lparr>ld_config := (ld_config st)\<lparr>cc_mtu := m\<rparr>\<rparr>)" for w m
    using assms(2) by (auto simp: loader_ok_def client_config_ok_def)
  show ?thesis
    using assms(2,3) addr peer key nums
    by (auto simp: load_key_def Let_def WG_BUF_MAX_def split: if_splits option.splits) (auto simp: loader_ok_def)
qed

lemma load_section_ok: "loader_ok st \<Longrightarrow> load_section p st = Some st' \<Longrightarrow> loader_ok st'"
  by (auto simp: load_section_def loader_ok_def client_config_ok_def Let_def split: if_splits)

lemma load_line_ok: "netlib_ok nl \<Longrightarrow> loader_ok st \<Longrightarrow> load_line nl line st = Some st' \<Longrightarrow> loader_ok st'"
  by (auto simp: load_line_def Let_def split: if_splits option.splits intro: load_key_ok load_section_ok)

lemma load_lines_ok: "netlib_ok nl \<Longrightarrow> loader_ok st \<Longrightarrow> load_lines nl ls st = Some st' \<Longrightarrow> loader_ok st'"
  by (induction nl ls st rule: load_lines.induct) (auto split: option.splits dest: load_line_ok)

lemma load_config_parts:
  assumes "netlib_ok nl" "load_config nl file = Some c"
  shows "client_config_ok c \<and> list_all peer_fresh (cc_peers c) \<and> cc_peers c \<noteq> [] \<and>
    (\<forall>p \<in> set (cc_peers c). q_pubkey p \<noteq> replicate 32 0) \<and>
    ((\<exists>p \<in> set (cc_peers c). q_has_endpoint p) \<or> cc_listen_port c \<noteq> 0)"
proof -
  let ?st = "\<lparr>ld_config = zero_client_config, ld_in_interface = False, ld_in_peer = False, ld_cur_peer = None, ld_got_priv = False\<rparr>"
  obtain t st where st: "load_lines nl (fgets_lines (WG_MAX_LINE - 1) t) ?st = Some st"
    and c: "c = ld_config st" "cc_peers c \<noteq> []" "\<not> list_ex (\<lambda>p. list_all (\<lambda>b. b = 0) (q_pubkey p)) (cc_peers c)"
      "list_ex q_has_endpoint (cc_peers c) \<or> cc_listen_port c \<noteq> 0"
    using assms(2) by (auto simp: load_config_def Let_def split: option.splits if_splits)
  have "loader_ok ?st" by (simp add: loader_ok_def client_config_ok_def zero_client_config_def)
  then have "loader_ok st" using load_lines_ok [OF assms(1) _ st] by blast
  moreover have "q_pubkey p \<noteq> replicate 32 0" if "p \<in> set (cc_peers c)" for p
    using c(3) that by (auto simp: list_ex_iff list_all_iff)
  ultimately show ?thesis using c by (auto simp: loader_ok_def list_ex_iff)
qed

text \<open>A file with one peer and a port.\<close>

definition demo_file :: string where
  "demo_file = ''[Interface]'' @ [CHR 0x0A] @ ''PrivateKey = '' @ replicate 43 (CHR ''A'') @ ''='' @ [CHR 0x0A] @
     ''ListenPort = 9'' @ [CHR 0x0A] @
     ''[Peer]'' @ [CHR 0x0A] @ ''PublicKey = '' @ replicate 42 (CHR ''A'') @ ''E='' @ [CHR 0x0A] @
     ''AllowedIPs = 10.0.0.2/32'' @ [CHR 0x0A]"

lemma demo_file_loads: "load_config demo_netlib (Some demo_file) \<noteq> None"
  by code_simp

text \<open>A file that \<^verbatim>\<open>load_config\<close> accepts is well formed: one to 64 peers with 32-byte keys that are
  not all zero, at most sixteen CIDRs and four interface addresses, each with a prefix length of its
  family, an MTU that is absent or fits the buffers, and a way to start: some peer has an endpoint or the
  interface a port. The slots of the peers are otherwise as \<^verbatim>\<open>memset\<close> left them.\<close>

theorem load_config_valid:
  assumes "netlib_ok nl" "load_config nl file = Some c"
  shows "client_config_ok c \<and> list_all peer_fresh (cc_peers c) \<and> cc_peers c \<noteq> [] \<and>
    (\<forall>p \<in> set (cc_peers c). q_pubkey p \<noteq> replicate 32 0) \<and>
    ((\<exists>p \<in> set (cc_peers c). q_has_endpoint p) \<or> cc_listen_port c \<noteq> 0)"
  using load_config_parts [OF assms] .

theorem load_config_valid_witness:
  "\<exists>c. load_config demo_netlib (Some demo_file) = Some c \<and> client_config_ok c \<and> cc_peers c \<noteq> []"
  using load_config_valid [OF demo_netlib_ok, of "Some demo_file"] demo_file_loads by blast

end
