(* ===== verification/CoreState.thy ===== *)
theory CoreState
  imports CoreConfig SessionState
begin

text \<open>
  The running tunnel of the driver \<^verbatim>\<open>src/wg_core.c\<close>: the sockets of the peers, handshake and data
  messages in both directions, the timers, and the rounds of \<^verbatim>\<open>run_tunnel\<close>.

  \<^item> \<open>tunnel_ctx\<close> is \<^verbatim>\<open>tunnel_ctx\<close> with the shared noise state and the two globals that the functions
    write or depend on, \<^verbatim>\<open>g_connected_tx\<close> and \<^verbatim>\<open>g_bound_port\<close>. A peer pointer is an index into \<open>t_peers\<close>.
  \<^item> \<open>t_io\<close> is what left the process: sockets opened and closed, datagrams that the kernel took, packets
    written to the utun device. Lines on \<^verbatim>\<open>stderr\<close> are not kept.
  \<^item> \<open>core_env\<close> adds to the outside of one call what the system calls return: \<open>e_socket\<close> the
    descriptor or \<open>-1\<close>, given those that are open, \<open>e_send\<close> the result of \<^verbatim>\<open>send\<close> by the classes of \<^verbatim>\<open>errno\<close> the code separates.
  \<^item> A function runs to its end before the next one starts: the default single-threaded loop. The
    locks, which order the two threads of \<^verbatim>\<open>WG_TX_THREAD=1\<close>, have no effect here.
  \<^item> As for the session, \<open>None\<close> is a run that does not come back: the draws are used up, or a peer
    without remote is reached.
\<close>

subsection \<open>State\<close>

definition REKEY_JITTER_MAX_SEC :: int where "REKEY_JITTER_MAX_SEC = 30"

datatype send_result = Sent | Dropped | Send_failed

record core_env = env +
  e_socket :: "int set \<Rightarrow> int"
  e_bind :: bool
  e_connect :: bool
  e_send :: send_result
  e_sendto :: bool
  e_utun_write :: bool
  e_jitter :: int

datatype io =
  Opened int
| Closed int
| Sent_on int bytes sockaddr
| Sent_to bytes sockaddr nat
| Wrote_utun bytes

record tunnel_ctx =
  t_local :: noise_local
  t_checker :: "cookie_checker option"
  t_aips_v4 :: "nat aips_trie"
  t_aips_v6 :: "nat aips_trie"
  t_peers :: "peer_state list"
  t_connected_tx :: bool
  t_bound_port :: u16
  t_io :: "io list"

definition upd_q :: "nat \<Rightarrow> (peer_state \<Rightarrow> peer_state) \<Rightarrow> tunnel_ctx \<Rightarrow> tunnel_ctx" where
  "upd_q i f t = t\<lparr>t_peers := (t_peers t)[i := f (t_peers t ! i)]\<rparr>"

definition do_io :: "io \<Rightarrow> tunnel_ctx \<Rightarrow> tunnel_ctx" where
  "do_io x t = t\<lparr>t_io := t_io t @ [x]\<rparr>"

subsection \<open>Endpoints and sockets\<close>

definition sockaddr_same :: "sockaddr \<Rightarrow> nat \<Rightarrow> sockaddr \<Rightarrow> nat \<Rightarrow> bool" where
  "sockaddr_same a alen b blen =
     (if alen = 0 \<or> blen = 0 then False
      else
        (case (a, b) of
           (Sin x p, Sin y q) \<Rightarrow> p = q \<and> x = y
         | (Sin6 x p, Sin6 y q) \<Rightarrow> p = q \<and> x = y
         | _ \<Rightarrow> False))"

definition same_family :: "sockaddr \<Rightarrow> sockaddr \<Rightarrow> bool" where
  "same_family a b =
     (case (a, b) of (Sin _ _, Sin _ _) \<Rightarrow> True | (Sin6 _ _, Sin6 _ _) \<Rightarrow> True | (Sa_other, Sa_other) \<Rightarrow> True | _ \<Rightarrow> False)"

text \<open>The size of \<^verbatim>\<open>struct sockaddr_storage\<close> is 128.\<close>

definition peer_set_endpoint :: "sockaddr \<Rightarrow> nat \<Rightarrow> peer_state \<Rightarrow> peer_state" where
  "peer_set_endpoint from from_len p =
     (if from_len = 0 \<or> from_len > 128 then p
      else if sockaddr_same (q_endpoint p) (q_endpoint_len p) from from_len then p
      else p\<lparr>q_endpoint := from, q_endpoint_len := from_len\<rparr>)"

definition peer_tx_close :: "nat \<Rightarrow> tunnel_ctx \<Rightarrow> tunnel_ctx" where
  "peer_tx_close i t =
     (let fd = q_tx_fd (t_peers t ! i);
          t = (if fd \<ge> 0 then do_io (Closed fd) t else t)
      in upd_q i (\<lambda>p. p\<lparr>q_tx_fd := - 1, q_tx_ep_len := 0\<rparr>) t)"

text \<open>The descriptors that are open after some input and output.\<close>

fun open_fds :: "io list \<Rightarrow> int set \<Rightarrow> int set" where
  "open_fds [] S = S"
| "open_fds (Opened fd # xs) S = open_fds xs (insert fd S)"
| "open_fds (Closed fd # xs) S = open_fds xs (S - {fd})"
| "open_fds (_ # xs) S = open_fds xs S"

text \<open>The part of \<^verbatim>\<open>peer_tx_socket\<close> that opens and binds a socket, and the part that connects it.\<close>

definition tx_open :: "'a core_env_scheme \<Rightarrow> nat \<Rightarrow> tunnel_ctx \<Rightarrow> bool \<times> tunnel_ctx" where
  "tx_open env i t =
     (let fd = e_socket env (open_fds (t_io t) {}) in
      if fd < 0 then (False, t)
      else
        let t = do_io (Opened fd) t in
        if \<not> e_bind env then (False, do_io (Closed fd) (t\<lparr>t_connected_tx := False\<rparr>))
        else (True, upd_q i (\<lambda>p. p\<lparr>q_tx_fd := fd\<rparr>) t))"

definition tx_connect :: "'a core_env_scheme \<Rightarrow> nat \<Rightarrow> tunnel_ctx \<Rightarrow> int \<times> tunnel_ctx" where
  "tx_connect env i t =
     (if \<not> e_connect env
      then (- 1, peer_tx_close i (upd_q i (\<lambda>p. p\<lparr>q_tx_retry_at := e_time env + 10\<rparr>) t))
      else
        (q_tx_fd (t_peers t ! i),
         upd_q i (\<lambda>p. p\<lparr>q_tx_retry_at := 0, q_tx_ep := q_endpoint p, q_tx_ep_len := q_endpoint_len p\<rparr>) t))"

definition peer_tx_socket :: "'a core_env_scheme \<Rightarrow> nat \<Rightarrow> tunnel_ctx \<Rightarrow> int \<times> tunnel_ctx" where
  "peer_tx_socket env i t =
     (let p = t_peers t ! i in
      if \<not> t_connected_tx t \<or> q_endpoint_len p = 0 \<or> t_bound_port t = 0 then (- 1, t)
      else if q_tx_fd p \<ge> 0 \<and> sockaddr_same (q_tx_ep p) (q_tx_ep_len p) (q_endpoint p) (q_endpoint_len p)
      then (q_tx_fd p, t)
      else if q_tx_retry_at p \<noteq> 0 \<and> e_time env < q_tx_retry_at p then (- 1, t)
      else
        let t = (if q_tx_fd p \<ge> 0 \<and> \<not> same_family (q_tx_ep p) (q_endpoint p) then peer_tx_close i t else t)
        in if q_tx_fd (t_peers t ! i) < 0
           then (case tx_open env i t of (ok, t) \<Rightarrow> if ok then tx_connect env i t else (- 1, t))
           else tx_connect env i t)"

text \<open>\<^verbatim>\<open>peer_send\<close>: 0 when the datagram left, by the connected socket or by the listener.\<close>

definition send_listener :: "'a core_env_scheme \<Rightarrow> nat \<Rightarrow> bytes \<Rightarrow> sockaddr \<Rightarrow> nat \<Rightarrow> tunnel_ctx \<Rightarrow> int \<times> tunnel_ctx" where
  "send_listener env i buf ep ep_len t =
     (if ep_len = 0 then (- 1, t)
      else if \<not> e_sendto env
      then (- 1, upd_q i (\<lambda>p. p\<lparr>q_tx_err_last := (if e_time env - q_tx_err_last p \<ge> 10 then e_time env else q_tx_err_last p)\<rparr>) t)
      else (0, do_io (Sent_to buf ep ep_len) t))"

definition tx_failed :: "'a core_env_scheme \<Rightarrow> nat \<Rightarrow> int \<Rightarrow> tunnel_ctx \<Rightarrow> tunnel_ctx" where
  "tx_failed env i fd t =
     (let t = upd_q i (\<lambda>p. p\<lparr>q_tx_send_errs := q_tx_send_errs p + 1,
                q_tx_err_last := (if e_time env - q_tx_err_last p \<ge> 10 then e_time env else q_tx_err_last p)\<rparr>) t
      in if q_tx_fd (t_peers t ! i) = fd then peer_tx_close i t else t)"

definition peer_send :: "'a core_env_scheme \<Rightarrow> nat \<Rightarrow> bytes \<Rightarrow> tunnel_ctx \<Rightarrow> int \<times> tunnel_ctx" where
  "peer_send env i buf t =
     (case peer_tx_socket env i t of
        (fd, t) \<Rightarrow>
          let ep = q_endpoint (t_peers t ! i); ep_len = q_endpoint_len (t_peers t ! i) in
          if fd \<ge> 0 then
            (case e_send env of
               Sent \<Rightarrow> (0, do_io (Sent_on fd buf (q_tx_ep (t_peers t ! i))) t)
             | Dropped \<Rightarrow> (- 1, t)
             | Send_failed \<Rightarrow> send_listener env i buf ep ep_len (tx_failed env i fd t))
          else send_listener env i buf ep ep_len t)"

subsection \<open>Data messages\<close>

definition core_seal :: "env \<Rightarrow> nat \<Rightarrow> bytes \<Rightarrow> noise_local \<Rightarrow> bytes option \<times> noise_local" where
  "core_seal env k scratch l =
     (case nonce_next_at k l of
        (e, nonce, l) \<Rightarrow>
          if e \<noteq> OK then (None, l)
          else
            (case m_devget (e_mbuf env) scratch of
               None \<Rightarrow> (None, l)
             | Some m \<Rightarrow>
                 (case noise_keypair_encrypt (e_append env) (keypairs l k) nonce m of
                    (e, r_idx, m) \<Rightarrow>
                      if e \<noteq> OK then (None, l)
                      else
                        let out = le32enc WGS_PKT_DATA @ le32enc r_idx @ le64enc nonce @ m_data m in
                        if length out > WG_BUF_MAX then (None, l) else (Some out, l))))"

definition wg_encap :: "core_env \<Rightarrow> nat \<Rightarrow> bytes \<Rightarrow> tunnel_ctx \<Rightarrow> (int \<times> tunnel_ctx) option" where
  "wg_encap env i plain t =
     (let p = t_peers t ! i in
      if q_endpoint_len p = 0 then Some (- 1, t)
      else
        let padded = padded_len (length plain) in
        if padded > WG_BUF_MAX then Some (- 1, t)
        else
          let scratch = plain @ replicate (padded - length plain) 0 in
          (case q_remote p of
             None \<Rightarrow> None
           | Some r \<Rightarrow>
               (case noise_keypair_current r (e_uptime env) (t_local t) of
                  (None, l) \<Rightarrow>
                    Some (- 1, upd_q i (\<lambda>p. p\<lparr>q_nokp_log_last :=
                                 (if e_time env - q_nokp_log_last p \<ge> 10 then e_time env else q_nokp_log_last p)\<rparr>)
                               (t\<lparr>t_local := l\<rparr>))
                | (Some k, l) \<Rightarrow>
                    (case core_seal (env.truncate env) k scratch l of
                       (None, l) \<Rightarrow> Some (- 1, t\<lparr>t_local := noise_keypair_put k l\<rparr>)
                     | (Some out, l) \<Rightarrow>
                         (case peer_send env i out (t\<lparr>t_local := l\<rparr>) of
                            (rc, t) \<Rightarrow> Some (if rc \<noteq> 0 then - 1 else 0, t\<lparr>t_local := noise_keypair_put k (t_local t)\<rparr>))))))"

text \<open>\<^verbatim>\<open>wg_decap\<close>: the result, the inner packet written to \<^verbatim>\<open>out_pkt\<close> and \<^verbatim>\<open>*out_peer\<close>.\<close>

definition wg_decap :: "env \<Rightarrow> bytes \<Rightarrow> nat \<Rightarrow> noise_local \<Rightarrow> (int \<times> bytes \<times> nat option) \<times> noise_local" where
  "wg_decap env pkt out_cap l =
     (if length pkt < 16 + WG_AUTHTAG_LEN then ((- 1, [], None), l)
      else if le32dec pkt \<noteq> WGS_PKT_DATA then ((- 1, [], None), l)
      else
        (case noise_keypair_lookup l (le32dec (drop 4 pkt)) of
           (None, l) \<Rightarrow> ((- 1, [], None), l)
         | (Some k, l) \<Rightarrow>
             let nonce = le64dec (drop 8 pkt) in
             (case m_devget (e_mbuf env) (drop 16 pkt) of
                None \<Rightarrow> ((- 1, [], None), noise_keypair_put k l)
              | Some m \<Rightarrow>
                  (case noise_keypair_decrypt (keypairs l k) nonce m (e_uptime env) of
                     (e, m) \<Rightarrow>
                       if e \<noteq> OK then ((- 1, [], None), noise_keypair_put k l)
                       else
                         let l = snd (noise_keypair_received_with k l);
                             (r, l) = noise_keypair_remote k l;
                             i = noise_remote_arg l r;
                             l = noise_remote_put r l;
                             ilen = inner_ip_len (m_data m)
                         in if length (m_data m) = 0 then ((0, [], Some i), noise_keypair_put k l)
                            else if ilen < 0 then ((- 1, [], Some i), noise_keypair_put k l)
                            else if nat ilen > out_cap then ((- 1, [], Some i), noise_keypair_put k l)
                            else ((ilen, take (nat ilen) (m_data m), Some i), noise_keypair_put k l)))))"

text \<open>The frames of the utun device: four bytes with the \<^verbatim>\<open>AF_\<close> constant of macOS, then the packet.\<close>

definition utun_read :: "bytes \<Rightarrow> nat \<Rightarrow> bytes option" where
  "utun_read buf out_cap =
     (if length buf < 4 then None else if length buf - 4 > out_cap then None else Some (drop 4 buf))"

definition utun_write :: "core_env \<Rightarrow> bytes \<Rightarrow> tunnel_ctx \<Rightarrow> int \<times> tunnel_ctx" where
  "utun_write env pkt t =
     (if length pkt < 1 then (- 1, t)
      else if \<not> e_utun_write env then (- 1, t)
      else
        let family = (if drop_bit 4 (pkt ! 0) = 6 then 30 else 2 :: u32);
            hdr = [ucast (drop_bit 24 family), ucast (drop_bit 16 family), ucast (drop_bit 8 family), ucast family]
        in (0, do_io (Wrote_utun (hdr @ pkt)) t))"

definition aips_lookup_inner_src :: "tunnel_ctx \<Rightarrow> bytes \<Rightarrow> nat option" where
  "aips_lookup_inner_src t inner =
     (if length inner < 1 then None
      else
        let ver = drop_bit 4 (inner ! 0) in
        if ver = 4 then (if length inner < 20 then None else aips_lookup (t_aips_v4 t) (drop 12 inner))
        else if ver = 6 then (if length inner < 40 then None else aips_lookup (t_aips_v6 t) (drop 8 inner))
        else None)"

subsection \<open>Handshake messages\<close>

definition send_initiation :: "curve \<Rightarrow> core_env \<Rightarrow> nat \<Rightarrow> tunnel_ctx \<Rightarrow> (u32 option \<times> tunnel_ctx) option" where
  "send_initiation cv env i t =
     (let p = t_peers t ! i in
      if q_endpoint_len p = 0 then Some (None, t)
      else
        (case q_remote p of
           None \<Rightarrow> None
         | Some r \<Rightarrow>
             (case noise_create_initiation cv r (e_uptime env) (e_wall env) (e_rnd env) (e_draws env) (t_local t) of
                None \<Rightarrow> None
              | Some (_, None, l) \<Rightarrow> Some (None, t\<lparr>t_local := l\<rparr>)
              | Some (_, Some msg, l) \<Rightarrow>
                  let pkt = initiation_pkt msg;
                      (cm, m) = cookie_maker_mac (q_cookie p) pkt (e_uptime env);
                      t = upd_q i (\<lambda>p. p\<lparr>q_cookie := cm\<rparr>) (t\<lparr>t_local := l\<rparr>);
                      (rc, t) = peer_send env i (pkt @ mac1 m @ mac2 m) t
                  in Some (if rc \<noteq> 0 then None else Some (in_s_idx msg), t))))"

definition tunnel_send_initiation :: "curve \<Rightarrow> int \<Rightarrow> core_env \<Rightarrow> nat \<Rightarrow> tunnel_ctx \<Rightarrow> (int \<times> tunnel_ctx) option" where
  "tunnel_send_initiation cv now env i t =
     (case send_initiation cv env i t of
        None \<Rightarrow> None
      | Some (None, t) \<Rightarrow> Some (- 1, t)
      | Some (Some s_idx, t) \<Rightarrow>
          Some (0, upd_q i (\<lambda>p. p\<lparr>q_hs_pending := True, q_hs_sent_at := now, q_hs_local_idx := s_idx,
                     q_hs_attempts := q_hs_attempts p + 1, q_last_authd_tx := now\<rparr>) t))"

text \<open>\<open>e_jitter\<close> is the result of \<^verbatim>\<open>arc4random_uniform(REKEY_JITTER_MAX_SEC)\<close>.\<close>

definition peer_stamp_keypair :: "int \<Rightarrow> int \<Rightarrow> peer_state \<Rightarrow> peer_state" where
  "peer_stamp_keypair now jitter p = p\<lparr>q_keypair_birth := now, q_last_authd_tx := now, q_rekey_jitter_sec := jitter\<rparr>"

text \<open>The part of \<^verbatim>\<open>tunnel_consume_initiation\<close> after the response has been computed for remote \<open>r\<close> of
  peer \<open>i\<close>: its MACs, the datagram, and the bookkeeping when it left.\<close>

definition answer_initiation ::
    "core_env \<Rightarrow> nat \<Rightarrow> nat \<Rightarrow> response_fields \<Rightarrow> sockaddr \<Rightarrow> nat \<Rightarrow> tunnel_ctx \<Rightarrow> int \<times> tunnel_ctx" where
  "answer_initiation env i r msg from from_len t =
     (let resp = response_pkt msg;
          (cm, m) = cookie_maker_mac (q_cookie (t_peers t ! i)) resp (e_uptime env);
          t = upd_q i (\<lambda>p. p\<lparr>q_cookie := cm\<rparr>) t
      in if \<not> e_sendto env then (- 1, t\<lparr>t_local := noise_remote_put r (t_local t)\<rparr>)
         else
           let t = do_io (Sent_to (resp @ mac1 m @ mac2 m) from from_len) t;
               t = t\<lparr>t_local := noise_remote_put r (t_local t)\<rparr>
           in (0, upd_q i (\<lambda>p. peer_stamp_keypair (e_time env) (e_jitter env) (peer_set_endpoint from from_len p)) t))"

definition tunnel_consume_initiation ::
    "curve \<Rightarrow> core_env \<Rightarrow> bytes \<Rightarrow> sockaddr \<Rightarrow> nat \<Rightarrow> tunnel_ctx \<Rightarrow> (int \<times> tunnel_ctx) option" where
  "tunnel_consume_initiation cv env pkt from from_len t =
     (if length pkt < 148 then Some (- 1, t)
      else
        (case t_checker t of
           None \<Rightarrow> Some (- 1, t)
         | Some cc \<Rightarrow>
             let s_idx = le32dec (drop 4 pkt); ue = take 32 (drop 8 pkt); es = take 48 (drop 40 pkt);
                 ets = take 28 (drop 88 pkt);
                 m = \<lparr>mac1 = take 16 (drop 116 pkt), mac2 = take 16 (drop 132 pkt)\<rparr>
             in (case cookie_checker_validate_macs (e_globals env) cc m (take 116 pkt) False from 0
                        (e_uptime env) [] [] True of
                   (rc, _, cc) \<Rightarrow>
                     let t = t\<lparr>t_checker := Some cc\<rparr> in
                     if rc \<noteq> OK then Some (- 1, t)
                     else
                       (case noise_consume_initiation cv s_idx ue es ets (e_uptime env) (e_draws env) (t_local t) of
                          None \<Rightarrow> None
                        | Some (_, None, l) \<Rightarrow> Some (- 1, t\<lparr>t_local := l\<rparr>)
                        | Some (_, Some r, l) \<Rightarrow>
                            let i = noise_remote_arg l r in
                            (case noise_create_response cv r (e_uptime env) (e_rnd env) (e_alloc env) l of
                               (_, None, l) \<Rightarrow> Some (- 1, t\<lparr>t_local := noise_remote_put r l\<rparr>)
                             | (_, Some msg, l) \<Rightarrow>
                                 Some (answer_initiation env i r msg from from_len (t\<lparr>t_local := l\<rparr>)))))))"

definition find_peer_pending_response :: "tunnel_ctx \<Rightarrow> u32 \<Rightarrow> nat option" where
  "find_peer_pending_response t r_idx =
     List.find (\<lambda>i. q_hs_pending (t_peers t ! i) \<and> q_hs_local_idx (t_peers t ! i) = r_idx) [0..<length (t_peers t)]"

definition tunnel_consume_response :: "curve \<Rightarrow> core_env \<Rightarrow> bytes \<Rightarrow> tunnel_ctx \<Rightarrow> int \<times> tunnel_ctx" where
  "tunnel_consume_response cv env pkt t =
     (if length pkt < 92 then (- 1, t)
      else
        let s_idx = le32dec (drop 4 pkt); r_idx = le32dec (drop 8 pkt); ue = take 32 (drop 12 pkt);
            en = take 16 (drop 44 pkt)
        in (case find_peer_pending_response t r_idx of
              None \<Rightarrow> (- 1, t)
            | Some i \<Rightarrow>
                (case noise_consume_response cv s_idx r_idx ue en (e_uptime env) (e_alloc env) (t_local t) of
                   (_, None, l) \<Rightarrow> (- 1, t\<lparr>t_local := l\<rparr>)
                 | (_, Some r, l) \<Rightarrow>
                     let t = t\<lparr>t_local := noise_remote_put r l\<rparr> in
                     if q_remote (t_peers t ! i) \<noteq> Some r then (- 1, t)
                     else (0, upd_q i (\<lambda>p. peer_stamp_keypair (e_time env) (e_jitter env)
                                        (p\<lparr>q_hs_pending := False, q_hs_attempts := 0\<rparr>)) t))))"

text \<open>The branch of \<^verbatim>\<open>rx_handle_datagram\<close> for cookie replies.\<close>

definition core_handle_cookie :: "core_env \<Rightarrow> bytes \<Rightarrow> tunnel_ctx \<Rightarrow> tunnel_ctx" where
  "core_handle_cookie env pkt t =
     (if length pkt < 64 then t
      else
        let r_idx = le32dec (drop 4 pkt); nonce = take 24 (drop 8 pkt); ec = take 32 (drop 32 pkt) in
        (case find_peer_pending_response t r_idx of
           None \<Rightarrow> t
         | Some i \<Rightarrow>
             upd_q i (\<lambda>p. p\<lparr>q_cookie := snd (cookie_maker_consume_payload (q_cookie p) nonce ec (e_uptime env))\<rparr>) t))"

subsection \<open>Timers\<close>

definition core_tick_retransmit :: "curve \<Rightarrow> int \<Rightarrow> core_env \<Rightarrow> nat \<Rightarrow> tunnel_ctx \<Rightarrow> tunnel_ctx option" where
  "core_tick_retransmit cv now env i t =
     (let p = t_peers t ! i in
      if q_hs_pending p \<and> now - q_hs_sent_at p \<ge> REKEY_TIMEOUT_SEC then
        let t = upd_q i (\<lambda>p. p\<lparr>q_hs_sent_at := now\<rparr>) t in
        if q_hs_attempts p \<ge> MAX_HANDSHAKE_ATTEMPTS
        then Some (upd_q i (\<lambda>p. p\<lparr>q_hs_pending := False, q_hs_attempts := 0\<rparr>) t)
        else map_option snd (tunnel_send_initiation cv now env i t)
      else Some t)"

definition core_tick_handshake :: "curve \<Rightarrow> int \<Rightarrow> core_env \<Rightarrow> nat \<Rightarrow> tunnel_ctx \<Rightarrow> tunnel_ctx option" where
  "core_tick_handshake cv now env i t =
     (let p = t_peers t ! i in
      if \<not> q_hs_pending p \<and> q_has_endpoint p then
        let needs_initial = (q_keypair_birth p = 0);
            needs_rekey = (q_keypair_birth p > 0 \<and>
              now - q_keypair_birth p \<ge> REKEY_AFTER_TIME_SEC + q_rekey_jitter_sec p)
        in if needs_initial \<or> needs_rekey
           then map_option snd (tunnel_send_initiation cv now env i (upd_q i (\<lambda>p. p\<lparr>q_hs_attempts := 0\<rparr>) t))
           else Some t
      else Some t)"

definition core_tick_keepalive :: "int \<Rightarrow> core_env \<Rightarrow> nat \<Rightarrow> tunnel_ctx \<Rightarrow> tunnel_ctx option" where
  "core_tick_keepalive now env i t =
     (let p = t_peers t ! i in
      if q_pk_sec p > 0 \<and> q_last_authd_tx p > 0 \<and> now - q_last_authd_tx p \<ge> q_pk_sec p
      then
        (case wg_encap env i [] t of
           None \<Rightarrow> None
         | Some (rc, t) \<Rightarrow> Some (if rc = 0 then upd_q i (\<lambda>p. p\<lparr>q_last_authd_tx := now\<rparr>) t else t))
      else Some t)"

text \<open>The three parts take what the outside returns in turn.\<close>

definition tunnel_tick_peer ::
    "curve \<Rightarrow> int \<Rightarrow> core_env \<times> core_env \<times> core_env \<Rightarrow> nat \<Rightarrow> tunnel_ctx \<Rightarrow> tunnel_ctx option" where
  "tunnel_tick_peer cv now envs i t =
     (case envs of (e1, e2, e3) \<Rightarrow>
        Option.bind (core_tick_retransmit cv now e1 i t)
          (\<lambda>t. Option.bind (core_tick_handshake cv now e2 i t) (core_tick_keepalive now e3 i)))"

fun tunnel_tick_peers ::
    "curve \<Rightarrow> int \<Rightarrow> (nat \<Rightarrow> core_env \<times> core_env \<times> core_env) \<Rightarrow> nat list \<Rightarrow> tunnel_ctx \<Rightarrow> tunnel_ctx option" where
  "tunnel_tick_peers cv now envs [] t = Some t"
| "tunnel_tick_peers cv now envs (i # is) t =
     (case tunnel_tick_peer cv now (envs i) i t of None \<Rightarrow> None | Some t \<Rightarrow> tunnel_tick_peers cv now envs is t)"

definition tunnel_tick ::
    "curve \<Rightarrow> int \<Rightarrow> (nat \<Rightarrow> core_env \<times> core_env \<times> core_env) \<Rightarrow> tunnel_ctx \<Rightarrow> tunnel_ctx option" where
  "tunnel_tick cv now envs t = tunnel_tick_peers cv now envs [0..<length (t_peers t)] t"

subsection \<open>Packets and datagrams\<close>

definition tx_handle_packet :: "int \<Rightarrow> core_env \<Rightarrow> bytes \<Rightarrow> tunnel_ctx \<Rightarrow> tunnel_ctx option" where
  "tx_handle_packet now env inner t =
     (let ver = drop_bit 4 (inner ! 0);
          dst = (if ver = 4 \<and> length inner \<ge> 20 then aips_lookup (t_aips_v4 t) (drop 16 inner)
                 else if ver = 6 \<and> length inner \<ge> 40 then aips_lookup (t_aips_v6 t) (drop 24 inner)
                 else None)
      in (case dst of
            None \<Rightarrow> Some t
          | Some i \<Rightarrow>
              (case wg_encap env i inner t of
                 None \<Rightarrow> None
               | Some (rc, t) \<Rightarrow>
                   Some (if rc = 0
                         then upd_q i (\<lambda>p. p\<lparr>q_tx_pkts := q_tx_pkts p + 1,
                                q_tx_bytes := q_tx_bytes p + of_nat (length inner), q_last_authd_tx := now\<rparr>) t
                         else t))))"

text \<open>The branch of \<^verbatim>\<open>rx_handle_datagram\<close> for data messages, after \<^verbatim>\<open>wg_decap\<close>.\<close>

definition core_receive ::
    "core_env \<Rightarrow> int \<Rightarrow> bytes \<Rightarrow> nat option \<Rightarrow> sockaddr \<Rightarrow> nat \<Rightarrow> tunnel_ctx \<Rightarrow> tunnel_ctx" where
  "core_receive env inner buf src from from_len t =
     (case src of
        None \<Rightarrow> t
      | Some i \<Rightarrow>
          if inner > 0 then
            (if aips_lookup_inner_src t buf \<noteq> Some i
             then upd_q i (\<lambda>p. p\<lparr>q_rx_dropped_aips := q_rx_dropped_aips p + 1\<rparr>) t
             else
               (case utun_write env buf t of
                  (rc, t) \<Rightarrow>
                    if rc = 0
                    then upd_q i (\<lambda>p. peer_set_endpoint from from_len
                           (p\<lparr>q_rx_pkts := q_rx_pkts p + 1, q_rx_bytes := q_rx_bytes p + of_int inner\<rparr>)) t
                    else t))
          else if inner = 0 then
            upd_q i (\<lambda>p. peer_set_endpoint from from_len (p\<lparr>q_rx_pkts := q_rx_pkts p + 1\<rparr>)) t
          else t)"

definition rx_handle_datagram ::
    "curve \<Rightarrow> core_env \<Rightarrow> bytes \<Rightarrow> sockaddr \<Rightarrow> nat \<Rightarrow> tunnel_ctx \<Rightarrow> tunnel_ctx option" where
  "rx_handle_datagram cv env pkt from from_len t =
     (if length pkt < 4 then Some t
      else
        let ty = le32dec pkt in
        if ty = WGS_PKT_DATA then
          (case wg_decap (env.truncate env) pkt WG_BUF_MAX (t_local t) of
             ((inner, buf, src), l) \<Rightarrow> Some (core_receive env inner buf src from from_len (t\<lparr>t_local := l\<rparr>)))
        else if ty = WGS_PKT_INITIATION then map_option snd (tunnel_consume_initiation cv env pkt from from_len t)
        else if ty = WGS_PKT_RESPONSE then Some (snd (tunnel_consume_response cv env pkt t))
        else if ty = WGS_PKT_COOKIE then Some (core_handle_cookie env pkt t)
        else Some t)"

subsection \<open>The loop\<close>

definition WG_RX_BATCH :: nat where "WG_RX_BATCH = 64"
definition WG_TX_BATCH :: nat where "WG_TX_BATCH = 64"

text \<open>What one round reads from the utun device, up to a frame that \<^verbatim>\<open>utun_read\<close> rejects.\<close>

fun tun_batch :: "int \<Rightarrow> (core_env \<times> bytes) list \<Rightarrow> tunnel_ctx \<Rightarrow> tunnel_ctx option" where
  "tun_batch now [] t = Some t"
| "tun_batch now ((env, raw) # rs) t =
     (case utun_read raw WG_BUF_MAX of
        None \<Rightarrow> Some t
      | Some pkt \<Rightarrow>
          Option.bind (if length pkt > 0 then tx_handle_packet now env pkt t else Some t) (tun_batch now rs))"

fun udp_batch :: "curve \<Rightarrow> (core_env \<times> bytes \<times> sockaddr \<times> nat) list \<Rightarrow> tunnel_ctx \<Rightarrow> tunnel_ctx option" where
  "udp_batch cv [] t = Some t"
| "udp_batch cv ((env, pkt, from, from_len) # rs) t =
     Option.bind (rx_handle_datagram cv env pkt from from_len t) (udp_batch cv rs)"

text \<open>One round of the loop of \<^verbatim>\<open>run_tunnel\<close>: the timers, then what the utun device and each readable
  socket deliver.\<close>

definition tunnel_round ::
    "curve \<Rightarrow> int \<Rightarrow> (nat \<Rightarrow> core_env \<times> core_env \<times> core_env) \<Rightarrow> (core_env \<times> bytes) list \<Rightarrow>
     (core_env \<times> bytes \<times> sockaddr \<times> nat) list list \<Rightarrow> tunnel_ctx \<Rightarrow> tunnel_ctx option" where
  "tunnel_round cv now envs tun udps t =
     Option.bind (tunnel_tick cv now envs t)
       (\<lambda>t. Option.bind (tun_batch now (take WG_TX_BATCH tun) t)
          (udp_batch cv (concat (map (take WG_RX_BATCH) udps))))"

end
