(* ===== verification/CoreStart.thy ===== *)
theory CoreStart
  imports CoreState
begin

text \<open>
  What \<^verbatim>\<open>main\<close> of \<^verbatim>\<open>src/wg_core.c\<close> does around the tunnel: the noise and cookie state of the peers,
  the checker, the socket of the listener, the tries, and the release of everything at \<^verbatim>\<open>out\<close>.

  The listener's descriptor and its closing are left out, as are the command line, the utun device and the
  files under \<^verbatim>\<open>/var/run/wireguard\<close>. Allocations succeed.
\<close>

definition tunnel_of :: "client_config \<Rightarrow> bytes \<Rightarrow> bool \<Rightarrow> tunnel_ctx" where
  "tunnel_of cfg hash_key connected_tx =
     \<lparr>t_local = noise_local_alloc 0 hash_key, t_checker = None, t_aips_v4 = aips_init 0, t_aips_v6 = aips_init 0,
      t_peers = cc_peers cfg, t_connected_tx = connected_tx, t_bound_port = 0, t_io = []\<rparr>"

text \<open>The loop over the peers: whether peer \<open>i\<close> could be set up.\<close>

definition core_start_peer :: "curve \<Rightarrow> netlib \<Rightarrow> nat \<Rightarrow> tunnel_ctx \<Rightarrow> bool \<times> tunnel_ctx" where
  "core_start_peer cv nl i t =
     (let t = upd_q i (\<lambda>p. p\<lparr>q_tx_fd := - 1\<rparr>) t;
          (r, l) = noise_remote_alloc cv (t_local t) i (q_pubkey (t_peers t ! i));
          t = upd_q i (\<lambda>p. p\<lparr>q_remote := Some r\<rparr>) t;
          (e, l) = noise_remote_enable r l;
          t = t\<lparr>t_local := l\<rparr>
      in if e \<noteq> OK then (False, t)
      else
        let t = upd_q i (\<lambda>p. p\<lparr>q_cookie := cookie_maker_init (q_pubkey p), q_cookie_inited := True\<rparr>) t;
            p = t_peers t ! i
        in if q_has_endpoint p then
             (case resolve_endpoint nl (q_endpoint_host p) (q_endpoint_port p) of
                None \<Rightarrow> (False, t)
              | Some (sa, n) \<Rightarrow> (True, upd_q i (\<lambda>p. p\<lparr>q_endpoint := sa, q_endpoint_len := n\<rparr>) t))
           else (True, t))"

fun core_start_peers :: "curve \<Rightarrow> netlib \<Rightarrow> nat list \<Rightarrow> tunnel_ctx \<Rightarrow> bool \<times> tunnel_ctx" where
  "core_start_peers cv nl [] t = (True, t)"
| "core_start_peers cv nl (i # is) t =
     (case core_start_peer cv nl i t of (ok, t) \<Rightarrow> if ok then core_start_peers cv nl is t else (False, t))"

text \<open>The loops that fill the tries, which stop at the first insertion that fails.\<close>

definition core_add_cidr :: "nat \<Rightarrow> allowed_cidr \<Rightarrow> tunnel_ctx \<Rightarrow> bool \<times> tunnel_ctx" where
  "core_add_cidr i c t =
     (if c_family c = AF_INET then
        (case aips_insert (t_aips_v4 t) (c_addr c) (nat (c_prefix_len c)) (Some i) of
           (rc, a) \<Rightarrow> (rc = 0, t\<lparr>t_aips_v4 := a\<rparr>))
      else
        (case aips_insert (t_aips_v6 t) (c_addr c) (nat (c_prefix_len c)) (Some i) of
           (rc, a) \<Rightarrow> (rc = 0, t\<lparr>t_aips_v6 := a\<rparr>)))"

fun core_add_list :: "nat \<Rightarrow> allowed_cidr list \<Rightarrow> tunnel_ctx \<Rightarrow> bool \<times> tunnel_ctx" where
  "core_add_list i [] t = (True, t)"
| "core_add_list i (c # cs) t = (case core_add_cidr i c t of (ok, t) \<Rightarrow> if ok then core_add_list i cs t else (False, t))"

fun core_add_peers :: "nat list \<Rightarrow> tunnel_ctx \<Rightarrow> bool \<times> tunnel_ctx" where
  "core_add_peers [] t = (True, t)"
| "core_add_peers (i # is) t =
     (case core_add_list i (q_allowed (t_peers t ! i)) t of (ok, t) \<Rightarrow> if ok then core_add_peers is t else (False, t))"

definition core_add_cidrs :: "tunnel_ctx \<Rightarrow> bool \<times> tunnel_ctx" where
  "core_add_cidrs t =
     core_add_peers [0..<length (t_peers t)] (t\<lparr>t_aips_v4 := aips_init 32, t_aips_v6 := aips_init 128\<rparr>)"

text \<open>The label \<^verbatim>\<open>out\<close>.\<close>

definition core_release_peer :: "nat \<Rightarrow> tunnel_ctx \<Rightarrow> tunnel_ctx" where
  "core_release_peer i t =
     (let t = peer_tx_close i t;
          t = (if q_cookie_inited (t_peers t ! i)
               then upd_q i (\<lambda>p. p\<lparr>q_cookie := cookie_maker_free (q_cookie p)\<rparr>) t else t)
      in (case q_remote (t_peers t ! i) of
            None \<Rightarrow> t
          | Some r \<Rightarrow> t\<lparr>t_local := noise_remote_put r (t_local t)\<rparr>))"

definition core_stop :: "bool \<Rightarrow> tunnel_ctx \<Rightarrow> tunnel_ctx" where
  "core_stop aips_inited t =
     (let t = (if aips_inited then t\<lparr>t_aips_v4 := aips_destroy (t_aips_v4 t), t_aips_v6 := aips_destroy (t_aips_v6 t)\<rparr> else t);
          t = t\<lparr>t_checker := map_option cookie_checker_free (t_checker t)\<rparr>;
          t = fold core_release_peer [0..<length (t_peers t)] t
      in t\<lparr>t_local := noise_local_put (t_local t)\<rparr>)"

text \<open>From the configuration to the tunnel: \<open>Inr\<close> the state that \<^verbatim>\<open>run_tunnel\<close> starts with, \<open>Inl\<close> the state
  at the end of a failed start. \<open>bound\<close> is the port of the listener, if \<^verbatim>\<open>udp_open_unconnected\<close> succeeds.\<close>

definition core_start ::
    "curve \<Rightarrow> netlib \<Rightarrow> bytes \<Rightarrow> bool \<Rightarrow> u16 option \<Rightarrow> client_config \<Rightarrow> tunnel_ctx + tunnel_ctx" where
  "core_start cv nl hash_key connected_tx bound cfg =
     (let t = tunnel_of cfg hash_key connected_tx;
          t = t\<lparr>t_local := noise_local_private cv (cc_private_key cfg) (t_local t)\<rparr>;
          (ok, t) = core_start_peers cv nl [0..<length (t_peers t)] t
      in if \<not> ok then Inl (core_stop False t)
      else
        let cc = cookie_checker_init;
            cc = (case noise_local_keys (t_local t) of
                    (OK, Some (pub, _)) \<Rightarrow> cookie_checker_update cc (Some pub)
                  | _ \<Rightarrow> cc);
            t = t\<lparr>t_checker := Some cc\<rparr>
        in (case bound of
              None \<Rightarrow> Inl (core_stop False t)
            | Some port \<Rightarrow>
                (case core_add_cidrs (t\<lparr>t_bound_port := port\<rparr>) of
                   (ok, t) \<Rightarrow> if ok then Inr t else Inl (core_stop True t))))"

end
