(* ===== verification/CoreFds.thy ===== *)
theory CoreFds
  imports CoreStart
begin

text \<open>
  The descriptors of the connected sockets of \<^verbatim>\<open>src/wg_core.c\<close>: a kernel that hands out numbers that
  are not in use never sees a socket used after it was closed, closed twice, or left open when no
  peer refers to it; and a datagram that left went to the endpoint of its peer.
\<close>

subsection \<open>What the kernel sees\<close>

text \<open>The set of open descriptors after some input and output, or \<open>None\<close> at the first misuse.\<close>

fun fd_run :: "io list \<Rightarrow> int set \<Rightarrow> int set option" where
  "fd_run [] S = Some S"
| "fd_run (Opened fd # xs) S = (if fd \<in> S then None else fd_run xs (insert fd S))"
| "fd_run (Closed fd # xs) S = (if fd \<in> S then fd_run xs (S - {fd}) else None)"
| "fd_run (Sent_on fd _ _ # xs) S = (if fd \<in> S then fd_run xs S else None)"
| "fd_run (Sent_to _ _ _ # xs) S = fd_run xs S"
| "fd_run (Wrote_utun _ # xs) S = fd_run xs S"

lemma fd_run_append: "fd_run (xs @ ys) S = Option.bind (fd_run xs S) (fd_run ys)"
  by (induction xs S rule: fd_run.induct) simp_all

definition own_fd :: "int \<Rightarrow> int set" where
  "own_fd fd = (if fd < 0 then {} else {fd})"

definition other_fds :: "nat \<Rightarrow> tunnel_ctx \<Rightarrow> int set" where
  "other_fds i t = \<Union> ((\<lambda>j. own_fd (q_tx_fd (t_peers t ! j))) ` ({..<length (t_peers t)} - {i}))"

definition peer_fds :: "tunnel_ctx \<Rightarrow> int set" where
  "peer_fds t = \<Union> ((\<lambda>j. own_fd (q_tx_fd (t_peers t ! j))) ` {..<length (t_peers t)})"

definition fds_disjoint :: "nat set \<Rightarrow> tunnel_ctx \<Rightarrow> bool" where
  "fds_disjoint I t \<longleftrightarrow> (\<forall>i \<in> I. \<forall>j \<in> I. i \<noteq> j \<longrightarrow> own_fd (q_tx_fd (t_peers t ! i)) \<inter> own_fd (q_tx_fd (t_peers t ! j)) = {})"

text \<open>The kernel's open descriptors are those of the peers, each of one peer.\<close>

definition fds_ok :: "tunnel_ctx \<Rightarrow> bool" where
  "fds_ok t \<longleftrightarrow> fd_run (t_io t) {} = Some (peer_fds t) \<and> fds_disjoint {..<length (t_peers t)} t"

text \<open>A new descriptor, if there is one, is not one of those in use.\<close>

definition kernel_ok :: "'a core_env_scheme \<Rightarrow> bool" where
  "kernel_ok env \<longleftrightarrow> (\<forall>S. 0 \<le> e_socket env S \<longrightarrow> e_socket env S \<notin> S)"

lemma fd_run_open: "fd_run xs S = Some R \<Longrightarrow> open_fds xs S = R"
  by (induction xs S rule: fd_run.induct) (auto split: if_splits)

lemma peer_fds_split: "i < length (t_peers t) \<Longrightarrow> peer_fds t = own_fd (q_tx_fd (t_peers t ! i)) \<union> other_fds i t"
  unfolding peer_fds_def other_fds_def by (subst insert_Diff [of i "{..<length (t_peers t)}", symmetric]) auto

text \<open>The invariant seen from peer \<open>i\<close>: the others hold \<open>S\<close>, the peer holds \<open>fd\<close>.\<close>

definition fds_at :: "nat \<Rightarrow> int set \<Rightarrow> tunnel_ctx \<Rightarrow> bool" where
  "fds_at i S t \<longleftrightarrow> i < length (t_peers t) \<and> other_fds i t = S \<and> fds_disjoint ({..<length (t_peers t)} - {i}) t \<and>
     own_fd (q_tx_fd (t_peers t ! i)) \<inter> S = {} \<and> fd_run (t_io t) {} = Some (own_fd (q_tx_fd (t_peers t ! i)) \<union> S)"

lemma fds_ok_at: "i < length (t_peers t) \<Longrightarrow> fds_ok t \<longleftrightarrow> fds_at i (other_fds i t) t"
proof -
  assume i: "i < length (t_peers t)"
  have "fds_disjoint {..<length (t_peers t)} t \<longleftrightarrow> fds_disjoint ({..<length (t_peers t)} - {i}) t \<and>
      own_fd (q_tx_fd (t_peers t ! i)) \<inter> other_fds i t = {}"
    using i unfolding fds_disjoint_def other_fds_def by blast
  then show ?thesis using i by (simp add: fds_ok_def fds_at_def peer_fds_split [OF i] conj_ac)
qed

lemma fds_at_ok: "fds_at i S t \<Longrightarrow> fds_ok t"
  using fds_ok_at [of i t] by (auto simp: fds_at_def)

subsection \<open>The socket of a peer\<close>

lemma upd_q_simps [simp]:
  "length (t_peers (upd_q i f t)) = length (t_peers t)" "t_local (upd_q i f t) = t_local t" "t_io (upd_q i f t) = t_io t"
  "t_connected_tx (upd_q i f t) = t_connected_tx t" "t_bound_port (upd_q i f t) = t_bound_port t"
  "t_aips_v4 (upd_q i f t) = t_aips_v4 t" "t_aips_v6 (upd_q i f t) = t_aips_v6 t" "t_checker (upd_q i f t) = t_checker t"
  by (simp_all add: upd_q_def)

lemma do_io_simps [simp]:
  "t_peers (do_io x t) = t_peers t" "t_local (do_io x t) = t_local t" "t_io (do_io x t) = t_io t @ [x]"
  "t_connected_tx (do_io x t) = t_connected_tx t" "t_bound_port (do_io x t) = t_bound_port t"
  "t_aips_v4 (do_io x t) = t_aips_v4 t" "t_aips_v6 (do_io x t) = t_aips_v6 t" "t_checker (do_io x t) = t_checker t"
  by (simp_all add: do_io_def)

lemma upd_q_nth [simp]:
  "i < length (t_peers t) \<Longrightarrow> t_peers (upd_q i f t) ! i = f (t_peers t ! i)" "j \<noteq> i \<Longrightarrow> t_peers (upd_q i f t) ! j = t_peers t ! j"
  by (simp_all add: upd_q_def)

lemma fds_at_change:
  assumes "fds_at i S t" "length (t_peers t') = length (t_peers t)" "\<And>j. j \<noteq> i \<Longrightarrow> t_peers t' ! j = t_peers t ! j"
    "own_fd (q_tx_fd (t_peers t' ! i)) \<inter> S = {}" "fd_run (t_io t') {} = Some (own_fd (q_tx_fd (t_peers t' ! i)) \<union> S)"
  shows "fds_at i S t'"
proof -
  have "other_fds i t' = other_fds i t" using assms(2,3) by (auto simp: other_fds_def)
  moreover have "fds_disjoint ({..<length (t_peers t)} - {i}) t' = fds_disjoint ({..<length (t_peers t)} - {i}) t"
    using assms(3) by (auto simp: fds_disjoint_def)
  ultimately show ?thesis using assms by (simp add: fds_at_def)
qed

lemma fds_at_upd:
  assumes "fds_at i S t" "\<And>p. q_tx_fd (f p) = q_tx_fd p"
  shows "fds_at i S (upd_q i f t)"
  by (rule fds_at_change [OF assms(1)]) (use assms in \<open>auto simp: fds_at_def\<close>)

lemma fds_at_ctx:
  assumes "fds_at i S t" "t_peers t' = t_peers t" "t_io t' = t_io t"
  shows "fds_at i S t'"
  by (rule fds_at_change [OF assms(1)]) (use assms in \<open>auto simp: fds_at_def\<close>)

lemma peer_tx_close_fds: "fds_at i S t \<Longrightarrow> fds_at i S (peer_tx_close i t)"
  by (rule fds_at_change [of i S t])
    (auto simp: peer_tx_close_def Let_def fds_at_def own_fd_def fd_run_append split: if_splits)

lemma peer_tx_close_fd: "i < length (t_peers t) \<Longrightarrow> q_tx_fd (t_peers (peer_tx_close i t) ! i) = - 1"
  by (simp add: peer_tx_close_def Let_def)

lemma tx_connect_fds:
  assumes "fds_at i S t"
  shows "fds_at i S (snd (tx_connect env i t))"
  using assms by (auto simp: tx_connect_def intro!: fds_at_upd peer_tx_close_fds)

lemma tx_open_fds:
  assumes "fds_at i S t" "q_tx_fd (t_peers t ! i) < 0" "kernel_ok env"
  shows "fds_at i S (snd (tx_open env i t))"
proof -
  have run: "fd_run (t_io t) {} = Some S" using assms(1,2) by (simp add: fds_at_def own_fd_def)
  then have "e_socket env (open_fds (t_io t) {}) \<notin> S \<or> e_socket env (open_fds (t_io t) {}) < 0" using assms(3)
    unfolding kernel_ok_def fd_run_open [OF run] by (meson not_less)
  then show ?thesis
    by (intro fds_at_change [OF assms(1)])
      (use assms run in \<open>auto simp: tx_open_def Let_def fds_at_def own_fd_def fd_run_append split: if_splits\<close>)
qed

lemma peer_tx_socket_fds:
  assumes "fds_at i S t" "kernel_ok env"
  shows "fds_at i S (snd (peer_tx_socket env i t))"
proof -
  note f = assms(2)
  let ?c = "peer_tx_close i t"
  have c: "fds_at i S ?c" "q_tx_fd (t_peers ?c ! i) < 0"
    using peer_tx_close_fds [OF assms(1)] peer_tx_close_fd [of i t] assms(1) by (simp_all add: fds_at_def)
  show ?thesis
    using assms(1) c f tx_open_fds [OF c(1,2) f] tx_open_fds [OF assms(1) _ f]
    by (auto simp: peer_tx_socket_def Let_def case_prod_unfold intro!: tx_connect_fds)
qed

text \<open>The descriptor that \<^verbatim>\<open>peer_tx_socket\<close> returns is the peer's, connected to the endpoint of the peer.\<close>

lemma peer_tx_socket_result:
  assumes "i < length (t_peers t)" "peer_tx_socket env i t = (fd, t')" "0 \<le> fd"
  shows "q_tx_fd (t_peers t' ! i) = fd" "q_tx_ep (t_peers t' ! i) = q_endpoint (t_peers t ! i)"
  using assms
  by (auto simp: peer_tx_socket_def tx_connect_def tx_open_def peer_tx_close_def sockaddr_same_def Let_def case_prod_unfold
      split: if_splits sockaddr.splits)

subsection \<open>Sending\<close>

definition tx_only :: "peer_state \<Rightarrow> peer_state \<Rightarrow> bool" where
  "tx_only p p' \<longleftrightarrow> p' = p\<lparr>q_tx_fd := q_tx_fd p', q_tx_ep := q_tx_ep p', q_tx_ep_len := q_tx_ep_len p',
     q_tx_err_last := q_tx_err_last p', q_tx_retry_at := q_tx_retry_at p', q_tx_send_errs := q_tx_send_errs p'\<rparr>"

lemma tx_only_refl [simp]: "tx_only p p"
  by (simp add: tx_only_def)

lemma tx_only_trans: "tx_only p q \<Longrightarrow> tx_only q r \<Longrightarrow> tx_only p r"
  by (cases p; cases q; cases r) (simp add: tx_only_def)

text \<open>What the socket functions may change: the socket fields of one peer, the input and output, and the
  switch of the fast path.\<close>

definition sock_frame :: "nat \<Rightarrow> tunnel_ctx \<Rightarrow> tunnel_ctx \<Rightarrow> bool" where
  "sock_frame i t t' \<longleftrightarrow> t_local t' = t_local t \<and> t_checker t' = t_checker t \<and> t_aips_v4 t' = t_aips_v4 t \<and>
     t_aips_v6 t' = t_aips_v6 t \<and> t_bound_port t' = t_bound_port t \<and> length (t_peers t') = length (t_peers t) \<and>
     (\<forall>j. j \<noteq> i \<longrightarrow> t_peers t' ! j = t_peers t ! j) \<and> (i < length (t_peers t) \<longrightarrow> tx_only (t_peers t ! i) (t_peers t' ! i))"

lemma sock_frame_refl [simp]: "sock_frame i t t"
  by (simp add: sock_frame_def)

lemma sock_frame_trans: "sock_frame i t u \<Longrightarrow> sock_frame i u v \<Longrightarrow> sock_frame i t v"
  using tx_only_trans by (fastforce simp: sock_frame_def)

lemma sock_frame_steps:
  "(\<And>p. tx_only p (f p)) \<Longrightarrow> sock_frame i t (upd_q i f t)"
  "sock_frame i t (do_io x t)" "sock_frame i t (t\<lparr>t_connected_tx := b\<rparr>)"
  by (auto simp: sock_frame_def)

lemma sock_frame_close: "sock_frame i t (peer_tx_close i t)"
  unfolding peer_tx_close_def Let_def
  by (rule sock_frame_trans [OF _ sock_frame_steps(1)]) (simp_all add: sock_frame_steps tx_only_def)

lemma sock_frame_connect: "sock_frame i t (snd (tx_connect env i t))"
  by (auto simp: tx_connect_def tx_only_def intro: sock_frame_trans [OF sock_frame_steps(1) sock_frame_close] sock_frame_steps)

lemma sock_frame_open: "sock_frame i t (snd (tx_open env i t))"
  by (simp add: tx_open_def Let_def sock_frame_def tx_only_def)

lemma sock_frame_socket: "sock_frame i t (snd (peer_tx_socket env i t))"
  by (auto simp: peer_tx_socket_def Let_def case_prod_unfold intro!: sock_frame_close sock_frame_open
      sock_frame_trans [OF _ sock_frame_connect] sock_frame_trans [OF sock_frame_close sock_frame_open])

lemma sock_frame_listener: "sock_frame i t (snd (send_listener env i buf ep n t))"
  by (auto simp: send_listener_def tx_only_def intro!: sock_frame_steps)

lemma sock_frame_failed: "sock_frame i t (tx_failed env i fd t)"
proof -
  have "sock_frame i t (upd_q i (\<lambda>p. p\<lparr>q_tx_send_errs := q_tx_send_errs p + 1,
      q_tx_err_last := (if e_time env - q_tx_err_last p \<ge> 10 then e_time env else q_tx_err_last p)\<rparr>) t)" (is "sock_frame i t ?u")
    by (rule sock_frame_steps) (simp add: tx_only_def)
  then show ?thesis using sock_frame_trans [OF _ sock_frame_close] by (simp add: tx_failed_def Let_def)
qed

lemma sock_frame_send: "sock_frame i t (snd (peer_send env i buf t))"
proof -
  obtain fd u where u: "peer_tx_socket env i t = (fd, u)" by fastforce
  then have "sock_frame i t u" using sock_frame_socket [of i t env] by simp
  then show ?thesis
    by (auto simp: peer_send_def u Let_def split: send_result.split
        intro!: sock_frame_trans [OF _ sock_frame_steps(2)] sock_frame_trans [OF _ sock_frame_listener]
          sock_frame_trans [OF _ sock_frame_failed])
qed

lemma send_listener_fds: "fds_at i S t \<Longrightarrow> fds_at i S (snd (send_listener env i buf ep n t))"
proof -
  assume a: "fds_at i S t"
  have "fds_at i S (do_io (Sent_to buf ep n) t)"
    by (rule fds_at_change [OF a]) (use a in \<open>auto simp: fds_at_def fd_run_append\<close>)
  then show ?thesis using a by (auto simp: send_listener_def intro: fds_at_upd)
qed

lemma tx_failed_fds: "fds_at i S t \<Longrightarrow> fds_at i S (tx_failed env i fd t)"
  by (auto simp: tx_failed_def Let_def intro!: fds_at_upd peer_tx_close_fds)

lemma peer_send_fds_at:
  assumes "fds_at i S t" "kernel_ok env"
  shows "fds_at i S (snd (peer_send env i buf t))"
proof -
  obtain fd u where u: "peer_tx_socket env i t = (fd, u)" by fastforce
  then have a: "fds_at i S u" using peer_tx_socket_fds [OF assms] by (metis snd_conv)
  have "q_tx_fd (t_peers u ! i) = fd" if "0 \<le> fd"
    using peer_tx_socket_result(1) [OF _ u that] assms(1) by (simp add: fds_at_def)
  then have "fds_at i S (do_io (Sent_on fd buf ep) u)" if "0 \<le> fd" for ep
    using that by (intro fds_at_change [OF a]) (use a in \<open>auto simp: fds_at_def fd_run_append own_fd_def\<close>)
  then show ?thesis
    using a by (auto simp: peer_send_def u Let_def split: send_result.split intro!: send_listener_fds tx_failed_fds)
qed

lemma peer_send_fds:
  assumes "fds_ok t" "kernel_ok env" "i < length (t_peers t)"
  shows "fds_ok (snd (peer_send env i buf t))"
  using assms peer_send_fds_at [of i "other_fds i t" t env buf] fds_ok_at [OF assms(3)] by (auto intro: fds_at_ok)

text \<open>A datagram that left, left once and went to the endpoint of the peer.\<close>

definition admin :: "io list \<Rightarrow> bool" where
  "admin xs \<longleftrightarrow> (\<forall>x \<in> set xs. \<exists>fd. x = Opened fd \<or> x = Closed fd)"

definition sent_once :: "bytes \<Rightarrow> sockaddr \<Rightarrow> io list \<Rightarrow> io list \<Rightarrow> bool" where
  "sent_once buf ep xs ys \<longleftrightarrow>
     (\<exists>zs. admin zs \<and> ((\<exists>fd. ys = xs @ zs @ [Sent_on fd buf ep]) \<or> (\<exists>n. ys = xs @ zs @ [Sent_to buf ep n])))"

definition admin_io :: "tunnel_ctx \<Rightarrow> tunnel_ctx \<Rightarrow> bool" where
  "admin_io t t' \<longleftrightarrow> (\<exists>zs. t_io t' = t_io t @ zs \<and> admin zs)"

lemma admin_io_refl: "t_io t' = t_io t \<Longrightarrow> admin_io t t'"
  by (simp add: admin_io_def admin_def)

lemma admin_io_trans: "admin_io t u \<Longrightarrow> admin_io u v \<Longrightarrow> admin_io t v"
  by (fastforce simp: admin_io_def admin_def)

lemma admin_close: "admin_io t (peer_tx_close i t)"
  by (auto simp: admin_io_def peer_tx_close_def Let_def admin_def)

lemma admin_connect: "admin_io t (snd (tx_connect env i t))"
  using admin_io_trans [OF admin_io_refl admin_close] by (auto simp: tx_connect_def intro: admin_io_refl)

lemma admin_open: "admin_io t (snd (tx_open env i t))"
  by (auto simp: admin_io_def tx_open_def Let_def admin_def)

lemma admin_socket: "admin_io t (snd (peer_tx_socket env i t))"
  by (auto simp: peer_tx_socket_def Let_def case_prod_unfold intro!: admin_close admin_open admin_io_refl
      admin_io_trans [OF _ admin_connect] admin_io_trans [OF admin_close admin_open])

lemma admin_failed: "admin_io t (tx_failed env i fd t)"
  using admin_io_trans [OF admin_io_refl admin_close] by (auto simp: tx_failed_def Let_def intro: admin_io_refl)

lemma sock_frame_endpoint:
  "sock_frame i t t' \<Longrightarrow> i < length (t_peers t) \<Longrightarrow>
   q_endpoint (t_peers t' ! i) = q_endpoint (t_peers t ! i) \<and> q_endpoint_len (t_peers t' ! i) = q_endpoint_len (t_peers t ! i)"
  by (cases "t_peers t ! i"; cases "t_peers t' ! i") (auto simp: sock_frame_def tx_only_def)

text \<open>When \<^verbatim>\<open>peer_send\<close> returns 0 the datagram left once, to the endpoint of the peer; otherwise nothing left.\<close>

lemma peer_send_result:
  assumes "i < length (t_peers t)" "peer_send env i buf t = (rc, t')"
  shows "rc = 0 \<and> sent_once buf (q_endpoint (t_peers t ! i)) (t_io t) (t_io t') \<or> rc = - 1 \<and> admin_io t t'"
proof -
  let ?ep = "q_endpoint (t_peers t ! i)"
  obtain fd u where u: "peer_tx_socket env i t = (fd, u)" by fastforce
  have a: "admin_io t u" and f: "sock_frame i t u"
    using admin_socket [of t env i] sock_frame_socket [of i t env] by (simp_all add: u)
  have ep: "q_endpoint (t_peers u ! i) = ?ep" using sock_frame_endpoint [OF f assms(1)] by simp
  have fast: "sent_once buf ?ep (t_io t) (t_io (do_io (Sent_on fd buf (q_tx_ep (t_peers u ! i))) u))" if "0 \<le> fd"
    using a peer_tx_socket_result(2) [OF assms(1) u that] by (auto simp: sent_once_def admin_io_def)
  have slow: "rc = 0 \<and> sent_once buf ?ep (t_io t) (t_io t') \<or> rc = - 1 \<and> admin_io t t'"
    if "send_listener env i buf ?ep n v = (rc, t')" "admin_io t v" for n v
  proof (cases "n = 0 \<or> \<not> e_sendto env")
    case True
    then have "rc = - 1" "admin_io v t'" using that(1) by (auto simp: send_listener_def intro: admin_io_refl split: if_splits)
    then show ?thesis using admin_io_trans [OF that(2)] by blast
  next
    case False
    then show ?thesis using that by (auto simp: send_listener_def sent_once_def admin_io_def)
  qed
  show ?thesis
  proof (cases "0 \<le> fd")
    case True
    then show ?thesis
      using assms(2) fast a slow [OF _ admin_io_trans [OF a admin_failed]] by (auto simp: peer_send_def u ep Let_def split: send_result.splits)
  next
    case False
    then show ?thesis using assms(2) slow [OF _ a] by (auto simp: peer_send_def u ep Let_def)
  qed
qed

lemma admin_no_datagram:
  "admin_io t t' \<Longrightarrow> \<exists>zs. t_io t' = t_io t @ zs \<and> (\<forall>p ep fd n. Sent_on fd p ep \<notin> set zs \<and> Sent_to p ep n \<notin> set zs \<and> Wrote_utun p \<notin> set zs)"
  by (fastforce simp: admin_io_def admin_def)

end
