(* ===== verification/CoreInv.thy ===== *)
theory CoreInv
  imports CoreFds SessionReach
begin

text \<open>
  The invariant of the tunnel of \<^verbatim>\<open>src/wg_core.c\<close>: what holds from the start of \<^verbatim>\<open>run_tunnel\<close> on.
  \<open>tunnel_frame\<close> says what the data plane leaves alone, \<open>fds_kept\<close> that the sockets stay in order; every
  operation of the loop is both.
\<close>

subsection \<open>Frames\<close>

definition q_kept :: "peer_state \<Rightarrow> peer_state \<Rightarrow> bool" where
  "q_kept p p' \<longleftrightarrow> q_pubkey p' = q_pubkey p \<and> q_has_endpoint p' = q_has_endpoint p \<and> q_allowed p' = q_allowed p \<and>
     q_pk_sec p' = q_pk_sec p \<and> q_remote p' = q_remote p \<and> q_cookie_inited p' = q_cookie_inited p \<and>
     (maker_ok (q_cookie p) \<longrightarrow> maker_ok (q_cookie p'))"

definition tunnel_frame :: "curve \<Rightarrow> tunnel_ctx \<Rightarrow> tunnel_ctx \<Rightarrow> bool" where
  "tunnel_frame cv t t' \<longleftrightarrow> run cv (t_local t) (t_local t') \<and> length (t_peers t') = length (t_peers t) \<and>
     (\<forall>i < length (t_peers t). q_kept (t_peers t ! i) (t_peers t' ! i)) \<and> t_checker t' = t_checker t \<and>
     t_aips_v4 t' = t_aips_v4 t \<and> t_aips_v6 t' = t_aips_v6 t \<and> t_bound_port t' = t_bound_port t"

lemma q_kept_refl [simp]: "q_kept p p"
  by (simp add: q_kept_def)

lemma q_kept_trans: "q_kept p q \<Longrightarrow> q_kept q r \<Longrightarrow> q_kept p r"
  by (simp add: q_kept_def)

lemma tunnel_frame_refl [simp]: "tunnel_frame cv t t"
  by (simp add: tunnel_frame_def)

lemma tunnel_frame_trans [trans]:
  assumes "tunnel_frame cv a b" "tunnel_frame cv b c"
  shows "tunnel_frame cv a c"
proof -
  have "run cv (t_local a) (t_local c)" using assms run_trans unfolding tunnel_frame_def by blast
  moreover have "q_kept (t_peers a ! i) (t_peers c ! i)" if "i < length (t_peers a)" for i
    using assms that q_kept_trans [of _ "t_peers b ! i"] by (simp add: tunnel_frame_def)
  ultimately show ?thesis using assms by (simp add: tunnel_frame_def)
qed

lemma tunnel_frame_local: "run cv (t_local t) l \<Longrightarrow> tunnel_frame cv t (t\<lparr>t_local := l\<rparr>)"
  by (simp add: tunnel_frame_def)

lemma tunnel_frame_upd:
  "(i < length (t_peers t) \<Longrightarrow> q_kept (t_peers t ! i) (f (t_peers t ! i))) \<Longrightarrow> tunnel_frame cv t (upd_q i f t)"
  by (cases "i < length (t_peers t)") (auto simp: tunnel_frame_def upd_q_def nth_list_update)

lemma tunnel_frame_io: "tunnel_frame cv t (do_io x t)"
  by (simp add: tunnel_frame_def)

lemma tunnel_frame_sock: "sock_frame i t t' \<Longrightarrow> tunnel_frame cv t t'"
proof -
  assume s: "sock_frame i t t'"
  have "q_kept (t_peers t ! j) (t_peers t' ! j)" if "j < length (t_peers t)" for j
  proof (cases "j = i")
    case True
    then show ?thesis using s that by (cases "t_peers t ! i"; cases "t_peers t' ! i") (simp add: sock_frame_def tx_only_def q_kept_def)
  next
    case False
    then show ?thesis using s by (simp add: sock_frame_def)
  qed
  then show ?thesis using s by (simp add: tunnel_frame_def sock_frame_def)
qed

lemma tunnel_frame_send: "tunnel_frame cv t (snd (peer_send env i buf t))"
  by (rule tunnel_frame_sock [OF sock_frame_send])

text \<open>The sockets: an operation with the outside \<open>env\<close> keeps the descriptors in order.\<close>

definition fds_kept :: "'a core_env_scheme \<Rightarrow> tunnel_ctx \<Rightarrow> tunnel_ctx \<Rightarrow> bool" where
  "fds_kept env t t' \<longleftrightarrow> (kernel_ok env \<longrightarrow> fds_ok t \<longrightarrow> fds_ok t')"

definition fds_same :: "tunnel_ctx \<Rightarrow> tunnel_ctx \<Rightarrow> bool" where
  "fds_same t t' \<longleftrightarrow> map q_tx_fd (t_peers t') = map q_tx_fd (t_peers t) \<and> fd_run (t_io t') {} = fd_run (t_io t) {}"

lemma fds_same_ok: "fds_same t t' \<Longrightarrow> fds_ok t \<Longrightarrow> fds_ok t'"
proof -
  assume a: "fds_same t t'" "fds_ok t"
  then have n: "length (t_peers t') = length (t_peers t)" by (metis fds_same_def length_map)
  have "q_tx_fd (t_peers t' ! i) = q_tx_fd (t_peers t ! i)" if "i < length (t_peers t)" for i
    using a(1) that n unfolding fds_same_def by (metis nth_map)
  then show ?thesis using a n by (simp add: fds_ok_def fds_same_def peer_fds_def fds_disjoint_def)
qed

lemma fds_kept_refl [simp]: "fds_kept env t t"
  by (simp add: fds_kept_def)

lemma fds_kept_same: "fds_same t t' \<Longrightarrow> fds_kept env t t'"
  using fds_same_ok by (simp add: fds_kept_def)

lemma fds_kept_trans [trans]: "fds_kept env a b \<Longrightarrow> fds_kept env b c \<Longrightarrow> fds_kept env a c"
  by (simp add: fds_kept_def)

lemma fds_same_upd: "(\<And>p. q_tx_fd (f p) = q_tx_fd p) \<Longrightarrow> fds_same t (upd_q i f t)"
proof -
  assume "\<And>p. q_tx_fd (f p) = q_tx_fd p"
  then have "(map q_tx_fd (t_peers t))[i := q_tx_fd (f (t_peers t ! i))] = map q_tx_fd (t_peers t)"
    by (cases "i < length (t_peers t)") (simp_all add: list_update_same_conv list_update_beyond not_less)
  then show ?thesis by (simp add: fds_same_def upd_q_def map_update)
qed

lemma fds_same_local [simp]: "fds_same t (t\<lparr>t_local := l\<rparr>)" "fds_same t (t\<lparr>t_checker := c\<rparr>)"
  by (simp_all add: fds_same_def)

lemma fds_kept_send: "i < length (t_peers t) \<Longrightarrow> fds_kept env t (snd (peer_send env i buf t))"
  using peer_send_fds by (auto simp: fds_kept_def)

text \<open>Both at once.\<close>

definition op_ok :: "curve \<Rightarrow> 'a core_env_scheme \<Rightarrow> tunnel_ctx \<Rightarrow> tunnel_ctx \<Rightarrow> bool" where
  "op_ok cv env t t' \<longleftrightarrow> tunnel_frame cv t t' \<and> fds_kept env t t'"

lemma op_refl [simp]: "op_ok cv env t t"
  by (simp add: op_ok_def)

lemma op_trans [trans]: "op_ok cv env a b \<Longrightarrow> op_ok cv env b c \<Longrightarrow> op_ok cv env a c"
  using tunnel_frame_trans fds_kept_trans by (auto simp: op_ok_def)

lemma op_local: "op_ok cv env s t \<Longrightarrow> run cv (t_local t) l \<Longrightarrow> op_ok cv env s (t\<lparr>t_local := l\<rparr>)"
  by (erule op_trans) (simp add: op_ok_def tunnel_frame_local fds_kept_same)

lemma op_upd:
  "op_ok cv env s t \<Longrightarrow> (\<And>p. q_kept p (f p) \<and> q_tx_fd (f p) = q_tx_fd p) \<Longrightarrow> op_ok cv env s (upd_q i f t)"
  by (erule op_trans) (simp add: op_ok_def tunnel_frame_upd fds_kept_same fds_same_upd)

lemma op_send: "op_ok cv env s t \<Longrightarrow> i < length (t_peers t) \<Longrightarrow> op_ok cv env s (snd (peer_send env i buf t))"
  by (erule op_trans) (simp add: op_ok_def tunnel_frame_send fds_kept_send)

lemma op_length: "op_ok cv env t t' \<Longrightarrow> length (t_peers t') = length (t_peers t)"
  by (simp add: op_ok_def tunnel_frame_def)

lemma op_io:
  assumes "op_ok cv env s t" "x = Sent_to buf ep n \<or> x = Wrote_utun p"
  shows "op_ok cv env s (do_io x t)"
proof -
  have "fds_same t (do_io x t)"
    using assms(2) by (cases "fd_run (t_io t) {}") (auto simp: fds_same_def fd_run_append)
  then show ?thesis
    using op_trans [OF assms(1)] by (simp add: op_ok_def tunnel_frame_io fds_kept_same)
qed

lemma op_wrote: "op_ok cv env s t \<Longrightarrow> op_ok cv env s (do_io (Wrote_utun p) t)"
  by (rule op_io [where p = p]) simp_all

subsection \<open>Every operation of the loop\<close>

lemma peer_set_endpoint_kept [simp]:
  "q_kept p (peer_set_endpoint sa n p)" "q_tx_fd (peer_set_endpoint sa n p) = q_tx_fd p"
  "q_kept p' p \<Longrightarrow> q_kept p' (peer_set_endpoint sa n p)"
  by (simp_all add: peer_set_endpoint_def q_kept_def)

lemma q_kept_counters [simp]:
  "q_kept p (p\<lparr>q_rx_pkts := a\<rparr>)" "q_kept p (p\<lparr>q_rx_pkts := a, q_rx_bytes := b\<rparr>)" "q_kept p (p\<lparr>q_rx_dropped_aips := a\<rparr>)"
  "q_kept p (p\<lparr>q_tx_pkts := a, q_tx_bytes := b, q_last_authd_tx := c\<rparr>)"
  by (simp_all add: q_kept_def)

lemma peer_stamp_kept [simp]:
  "q_tx_fd (peer_stamp_keypair now j p) = q_tx_fd p" "q_kept p' p \<Longrightarrow> q_kept p' (peer_stamp_keypair now j p)"
  by (simp_all add: peer_stamp_keypair_def q_kept_def)

lemma run_core_seal: "run cv l (snd (core_seal env k scratch l))"
  using run_upd_nonce [of cv l k]
  by (auto simp: core_seal_def Let_def case_prod_unfold split: option.split)

lemma op_encap:
  assumes "i < length (t_peers t)" "wg_encap env i plain t = Some (rc, t')"
  shows "op_ok cv env t t'"
proof -
  have cur: "op_ok cv env t (t\<lparr>t_local := l\<rparr>)" if "noise_keypair_current r now (t_local t) = (ko, l)" for r now ko l
    using run_interface(1) [of cv "t_local t" r now] that by (intro op_local) simp_all
  have seal: "run cv l l'" if "core_seal e k m l = (x, l')" for e k m l x l'
    using run_core_seal [of cv l e k m] that by simp
  have cur_seal: "op_ok cv env t (t\<lparr>t_local := l'\<rparr>)"
    if "noise_keypair_current r now (t_local t) = (ko, l)" "core_seal e k m l = (x, l')" for r now ko l e k m x l'
    using op_local [OF cur [OF that(1)], of l'] seal [OF that(2)] by simp
  have put: "op_ok cv env t (u\<lparr>t_local := noise_keypair_put k (t_local u)\<rparr>)" if "op_ok cv env t u" for u k
    using op_local [OF that, of "noise_keypair_put k (t_local u)"] by simp
  have cur_put: "op_ok cv env t (t\<lparr>t_local := noise_keypair_put k' l'\<rparr>)"
    if "noise_keypair_current r now (t_local t) = (ko, l)" "core_seal e k m l = (x, l')" for r now ko l e k k' m x l'
    using put [OF cur_seal [OF that], of k'] by simp
  have send: "op_ok cv env t u" if "op_ok cv env t v" "i < length (t_peers v)" "peer_send env i buf v = (rc, u)" for u v buf rc
    using op_send [OF that(1,2), of buf] that(3) by simp
  show ?thesis
    using assms
    by (auto simp: wg_encap_def Let_def q_kept_def split: if_splits option.splits prod.splits
        intro!: op_upd [OF cur] cur_put put [OF send [OF cur_seal]])
qed

lemma run_decap: "run cv l (snd (wg_decap env pkt cap l))"
proof -
  obtain ko l1 where c: "noise_keypair_lookup l (le32dec (drop 4 pkt)) = (ko, l1)" by fastforce
  then have 1: "run cv l l1" using run_interface(2) [of cv l "le32dec (drop 4 pkt)"] by simp
  then have 2: "run cv l (noise_keypair_put k l1)" for k using run_puts(1) by (rule run_trans)
  have 3: "run cv l (noise_keypair_put k' (noise_remote_put r (snd (noise_keypair_remote k
      (snd (noise_keypair_received_with k l1))))))" for k k' r
    by (rule run_trans [OF run_trans [OF run_trans [OF run_trans [OF 1 run_interface(3)] run_interface(4)] run_puts(2)] run_puts(1)])
  show ?thesis
    using 1 2 3 by (simp add: wg_decap_def c Let_def case_prod_unfold split: option.split)
qed

definition remotes_in :: "tunnel_ctx \<Rightarrow> bool" where
  "remotes_in t \<longleftrightarrow> (\<forall>i < length (t_peers t). \<forall>r. q_remote (t_peers t ! i) = Some r \<longrightarrow> r < next_remote (t_local t))"

lemma maker_mac_q_kept: "cookie_maker_mac (q_cookie p) buf now = (cm, ms) \<Longrightarrow> maker_ok (q_cookie p) \<Longrightarrow> maker_ok cm"
  using cookie_maker_mac_spec by simp

text \<open>The new cookie maker is put into the slot it came from.\<close>

lemma op_cookie:
  assumes "op_ok cv env s t" "maker_ok (q_cookie (t_peers t ! i)) \<Longrightarrow> maker_ok cm"
  shows "op_ok cv env s (upd_q i (\<lambda>p. p\<lparr>q_cookie := cm\<rparr>) t)"
  by (rule op_trans [OF assms(1)])
    (use assms(2) in \<open>simp add: op_ok_def tunnel_frame_upd q_kept_def fds_kept_same fds_same_upd\<close>)

lemma op_send_initiation:
  assumes "remotes_in t" "i < length (t_peers t)" "send_initiation cv env i t = Some (x, t')"
  shows "op_ok cv env t t'"
proof -
  have init: "op_ok cv env t (t\<lparr>t_local := l\<rparr>)"
    if "noise_create_initiation cv r a b c d (t_local t) = Some (e, out, l)" "q_remote (t_peers t ! i) = Some r"
    for r a b c d e out l
    using run_create_initiation [OF _ that(1)] that(2) assms(1,2) by (intro op_local) (auto simp: remotes_in_def)
  have send: "op_ok cv env t u"
    if "op_ok cv env t (t\<lparr>t_local := l\<rparr>)" "cookie_maker_mac (q_cookie (t_peers t ! i)) pkt now = (cm, m)"
      "peer_send env i buf (upd_q i (q_cookie_update (\<lambda>_. cm)) (t\<lparr>t_local := l\<rparr>)) = (rc, u)" for u l cm buf rc pkt now m
  proof -
    have c: "op_ok cv env t (upd_q i (\<lambda>p. p\<lparr>q_cookie := cm\<rparr>) (t\<lparr>t_local := l\<rparr>))"
      using maker_mac_q_kept [OF that(2)] by (intro op_cookie [OF that(1)]) simp
    show ?thesis using op_send [OF c, where i = i and buf = buf] that(3) assms(2) by simp
  qed
  show ?thesis
    using assms(3)
    by (auto simp: send_initiation_def Let_def split: if_splits option.splits prod.splits
        intro!: init dest!: init intro: send)
qed

lemma op_tunnel_initiation:
  assumes "remotes_in t" "i < length (t_peers t)" "tunnel_send_initiation cv now env i t = Some (rc, t')"
  shows "op_ok cv env t t'"
proof -
  have 1: "op_ok cv env t u" if "send_initiation cv env i t = Some (x, u)" for x u
    by (rule op_send_initiation [OF assms(1,2) that])
  have 2: "op_ok cv env t (upd_q i (\<lambda>p. p\<lparr>q_hs_pending := True, q_hs_sent_at := now, q_hs_local_idx := s_idx,
      q_hs_attempts := q_hs_attempts p + 1, q_last_authd_tx := now\<rparr>) u)" if "op_ok cv env t u" for s_idx u
    by (rule op_upd [OF that]) (simp add: q_kept_def)
  show ?thesis
    using assms(3) 1 2 by (auto simp: tunnel_send_initiation_def split: option.splits)
qed

lemma op_answer: "op_ok cv env t (snd (answer_initiation env i r msg sa n t))"
proof -
  obtain cm m where c: "cookie_maker_mac (q_cookie (t_peers t ! i)) (response_pkt msg) (e_uptime env) = (cm, m)" by fastforce
  have 1: "op_ok cv env t (upd_q i (\<lambda>p. p\<lparr>q_cookie := cm\<rparr>) t)"
    using maker_mac_q_kept [OF c] by (intro op_cookie) simp_all
  show ?thesis
    using op_local [OF 1 run_puts(2)]
    by (auto simp: answer_initiation_def c Let_def intro!: op_upd op_local op_io 1)
qed

lemma op_consume_initiation:
  assumes "tunnel_consume_initiation cv env pkt sa n t = Some (rc, t')"
  shows "op_ok cv env t t'"
proof (cases "length pkt < 148 \<or> t_checker t = None")
  case False
  then obtain cc where cc: "t_checker t = Some cc" "t\<lparr>t_checker := Some cc\<rparr> = t" by (cases t) auto
  let ?m = "\<lparr>mac1 = take 16 (drop 116 pkt), mac2 = take 16 (drop 132 pkt)\<rparr>"
  obtain e g where v: "cookie_checker_validate_macs (e_globals env) cc ?m (take 116 pkt) False sa 0
      (e_uptime env) [] [] True = (e, g, cc)"
    using validate_unloaded by (metis prod.collapse)
  have ets: "length (take 28 (drop 88 pkt)) = 28" using False by auto
  have 1: "run cv (t_local t) l"
    if "noise_consume_initiation cv a ue es (take 28 (drop 88 pkt)) now draws (t_local t) = Some (e, ro, l)"
    for a ue es now draws e ro l
    by (rule run_consume_initiation [OF ets that])
  have 2: "run cv (t_local t) m" if "run cv (t_local t) l" "noise_create_response cv r now rnd ok l = (e, x, m)"
    for r now rnd ok l e x m
    using run_trans [OF that(1) run_interface(5) [of cv l r now rnd ok]] by (simp add: that(2))
  have 3: "run cv (t_local t) (noise_remote_put r m)"
    if "run cv (t_local t) l" "noise_create_response cv r now rnd ok l = (e, x, m)" for r now rnd ok l e x m
    using 2 [OF that] run_puts(2) by (rule run_trans)
  have 4: "op_ok cv env t u" if "run cv (t_local t) l" "answer_initiation env i r msg sa n (t\<lparr>t_local := l\<rparr>) = (rc, u)" for l i r msg rc u
    using op_trans [OF op_local [OF op_refl that(1)] op_answer [of cv env "t\<lparr>t_local := l\<rparr>" i r msg sa n]] by (simp add: that(2))
  show ?thesis
    using assms False
    by (auto simp: tunnel_consume_initiation_def cc v Let_def split: if_splits option.splits prod.splits
        dest!: 1 intro: 3 4 [OF 2] intro!: op_local)
qed (use assms in \<open>auto simp: tunnel_consume_initiation_def split: if_splits\<close>)

lemma op_consume_response: "op_ok cv env t (snd (tunnel_consume_response cv env pkt t))"
proof -
  have 1: "run cv (t_local t) l" if "noise_consume_response cv a b ue en now ok (t_local t) = (e, x, l)" for a b ue en now ok e x l
    using run_interface(6) [of cv "t_local t" a b ue en now ok] by (simp add: that)
  have 2: "run cv (t_local t) (noise_remote_put r l)"
    if "noise_consume_response cv a b ue en now ok (t_local t) = (e, x, l)" for a b ue en now ok e x l r
    using 1 [OF that] run_puts(2) by (rule run_trans)
  show ?thesis
    by (auto simp: tunnel_consume_response_def Let_def split: option.splits prod.splits
        intro!: op_upd op_local 1 2) (simp_all add: q_kept_def peer_stamp_keypair_def)
qed

lemma op_cookie_reply: "op_ok cv env t (core_handle_cookie env pkt t)"
proof (cases "length pkt < 64")
  case False
  then have len: "length (take 32 (drop 32 pkt)) = 32" by simp
  have "op_ok cv env t (upd_q i (\<lambda>p. p\<lparr>q_cookie := snd (cookie_maker_consume_payload (q_cookie p) nonce (take 32 (drop 32 pkt)) now)\<rparr>) t)"
    for i nonce now
    using consume_payload_ok [OF _ len] by (intro op_upd op_refl) (simp add: q_kept_def, metis prod.collapse)
  then show ?thesis by (simp add: core_handle_cookie_def Let_def split: option.split)
qed (simp add: core_handle_cookie_def)

lemma remotes_in_frame: "op_ok cv env t t' \<Longrightarrow> remotes_in t \<Longrightarrow> remotes_in t'"
  by (auto simp: op_ok_def tunnel_frame_def remotes_in_def q_kept_def run_def)

lemma op_tick_retransmit:
  assumes "remotes_in t" "i < length (t_peers t)" "core_tick_retransmit cv now env i t = Some t'"
  shows "op_ok cv env t t'"
proof -
  have 1: "op_ok cv env t (upd_q i (\<lambda>p. p\<lparr>q_hs_sent_at := now\<rparr>) t)"
    by (rule op_upd) (simp_all add: q_kept_def)
  have 2: "op_ok cv env t u" if "tunnel_send_initiation cv now env i (upd_q i (\<lambda>p. p\<lparr>q_hs_sent_at := now\<rparr>) t) = Some (rc, u)" for rc u
    using op_trans [OF 1 op_tunnel_initiation [OF remotes_in_frame [OF 1 assms(1)] _ that]] assms(2) by simp
  show ?thesis
    using assms(3) 2 op_upd [OF 1, of "\<lambda>p. p\<lparr>q_hs_pending := False, q_hs_attempts := 0\<rparr>" i]
    by (auto simp: core_tick_retransmit_def Let_def q_kept_def split: if_splits)
qed

lemma op_tick_handshake:
  assumes "remotes_in t" "i < length (t_peers t)" "core_tick_handshake cv now env i t = Some t'"
  shows "op_ok cv env t t'"
proof -
  have 1: "op_ok cv env t (upd_q i (\<lambda>p. p\<lparr>q_hs_attempts := 0\<rparr>) t)"
    by (rule op_upd) (simp_all add: q_kept_def)
  have 2: "op_ok cv env t u" if "tunnel_send_initiation cv now env i (upd_q i (\<lambda>p. p\<lparr>q_hs_attempts := 0\<rparr>) t) = Some (rc, u)" for rc u
    using op_trans [OF 1 op_tunnel_initiation [OF remotes_in_frame [OF 1 assms(1)] _ that]] assms(2) by simp
  show ?thesis using assms(3) 2 by (auto simp: core_tick_handshake_def Let_def split: if_splits)
qed

lemma op_tick_keepalive:
  assumes "i < length (t_peers t)" "core_tick_keepalive now env i t = Some t'"
  shows "op_ok cv env t t'"
  using assms(2) op_encap [OF assms(1)]
  by (auto simp: core_tick_keepalive_def Let_def q_kept_def split: if_splits option.splits intro!: op_upd)

text \<open>An index that a trie returns is a peer.\<close>

definition targets_ok :: "tunnel_ctx \<Rightarrow> bool" where
  "targets_ok t \<longleftrightarrow> (\<forall>a i. aips_lookup (t_aips_v4 t) a = Some i \<longrightarrow> i < length (t_peers t)) \<and>
     (\<forall>a i. aips_lookup (t_aips_v6 t) a = Some i \<longrightarrow> i < length (t_peers t))"

lemma op_tx_packet:
  assumes "targets_ok t" "tx_handle_packet now env inner t = Some t'"
  shows "op_ok cv env t t'"
proof -
  define ver where "ver = drop_bit 4 (inner ! 0)"
  define dst where "dst = (if ver = 4 \<and> length inner \<ge> 20 then aips_lookup (t_aips_v4 t) (drop 16 inner)
      else if ver = 6 \<and> length inner \<ge> 40 then aips_lookup (t_aips_v6 t) (drop 24 inner) else None)"
  show ?thesis
  proof (cases dst)
    case None
    then show ?thesis using assms(2) by (simp add: tx_handle_packet_def Let_def ver_def [symmetric] dst_def [symmetric])
  next
    case (Some i)
    then have i: "i < length (t_peers t)" using assms(1) by (auto simp: dst_def targets_ok_def split: if_splits)
    obtain rc u where u: "wg_encap env i inner t = Some (rc, u)"
      using assms(2) Some by (auto simp: tx_handle_packet_def Let_def ver_def [symmetric] dst_def [symmetric] split: option.splits)
    note ok = op_encap [OF i u, of cv]
    have "op_ok cv env t (upd_q i (\<lambda>p. p\<lparr>q_tx_pkts := q_tx_pkts p + 1,
        q_tx_bytes := q_tx_bytes p + of_nat (length inner), q_last_authd_tx := now\<rparr>) u)"
      by (rule op_upd [OF ok]) simp
    then show ?thesis
      using assms(2) ok Some u by (simp add: tx_handle_packet_def Let_def ver_def [symmetric] dst_def [symmetric] split: if_splits)
  qed
qed

lemma op_receive: "op_ok cv env t (core_receive env inner buf src sa n t)"
proof -
  have 1: "op_ok cv env t u" if "utun_write env buf t = (rc, u)" for rc u
    using that by (auto simp: utun_write_def Let_def split: if_splits intro!: op_wrote)
  have 2: "op_ok cv env t (upd_q i (\<lambda>p. p\<lparr>q_rx_dropped_aips := q_rx_dropped_aips p + 1\<rparr>) t)" for i
    by (rule op_upd) (simp_all add: q_kept_def)
  have 3: "op_ok cv env t (upd_q i (\<lambda>p. peer_set_endpoint sa n (p\<lparr>q_rx_pkts := q_rx_pkts p + 1\<rparr>)) t)" for i
    by (rule op_upd) simp_all
  have 4: "op_ok cv env t (upd_q i (\<lambda>p. peer_set_endpoint sa n (p\<lparr>q_rx_pkts := q_rx_pkts p + 1, q_rx_bytes := q_rx_bytes p + b\<rparr>)) u)"
    if "op_ok cv env t u" for i b u
    by (rule op_upd [OF that]) simp
  show ?thesis
    using 2 3 by (auto simp: core_receive_def split: option.split prod.split intro: 4 [OF 1] 1)
qed

lemma op_datagram:
  assumes "rx_handle_datagram cv env pkt sa n t = Some t'"
  shows "op_ok cv env t t'"
proof -
  have 1: "op_ok cv env t (core_receive env inner buf src sa n (t\<lparr>t_local := l\<rparr>))"
    if "wg_decap e pkt cap (t_local t) = (x, l)" for e cap x l inner buf src
  proof -
    have "run cv (t_local t) l" using run_decap [of cv "t_local t" e pkt cap] that by simp
    then show ?thesis using op_trans [OF op_local [OF op_refl] op_receive] by blast
  qed
  show ?thesis
    using assms op_consume_response [of cv env t pkt] op_cookie_reply [of cv env t pkt] op_consume_initiation [of cv env pkt sa n t]
    by (auto simp: rx_handle_datagram_def Let_def split: if_splits prod.splits intro: 1)
qed

end
