(* ===== verification/CoreReach.thy ===== *)
theory CoreReach
  imports CoreInv CoreStart
begin

text \<open>
  The states that the loop of \<^verbatim>\<open>src/wg_core.c\<close> reaches from a configuration file, and their invariant;
  the end of a failed start.
\<close>

subsection \<open>The invariant\<close>

definition core_cidrs :: "af \<Rightarrow> peer_state list \<Rightarrow> (bytes \<times> nat \<times> nat) list" where
  "core_cidrs fam ps =
     concat (map (\<lambda>i. map (\<lambda>c. (c_addr c, nat (c_prefix_len c), i)) (filter (\<lambda>c. c_family c = fam) (q_allowed (ps ! i))))
       [0..<length ps])"

definition core_routing :: "tunnel_ctx \<Rightarrow> bool" where
  "core_routing t \<longleftrightarrow> t_aips_v4 t = build_table aips_put (aips_init 32) (core_cidrs AF_INET (t_peers t)) \<and>
     t_aips_v6 t = build_table aips_put (aips_init 128) (core_cidrs AF_INET6 (t_peers t))"

text \<open>As for the session: a peer points to its own remote, which points back.\<close>

definition core_links :: "tunnel_ctx \<Rightarrow> bool" where
  "core_links t \<longleftrightarrow> (\<forall>r < next_remote (t_local t). r_arg (remotes (t_local t) r) < length (t_peers t)) \<and>
     (\<forall>i < length (t_peers t). \<forall>r. q_remote (t_peers t ! i) = Some r \<longrightarrow>
        r < next_remote (t_local t) \<and> r_arg (remotes (t_local t) r) = i \<and>
        r_public (remotes (t_local t) r) = q_pubkey (t_peers t ! i))"

definition tunnel_inv :: "curve \<Rightarrow> tunnel_ctx \<Rightarrow> bool" where
  "tunnel_inv cv t \<longleftrightarrow> noise_reach cv (t_local t) \<and> (\<forall>p \<in> set (t_peers t). peer_state_ok p \<and> q_remote p \<noteq> None) \<and>
     (\<exists>cc. t_checker t = Some cc \<and> checker_ok cc) \<and> core_links t \<and> core_routing t \<and> fds_ok t"

lemma links_remotes_in: "core_links t \<Longrightarrow> remotes_in t"
  by (auto simp: core_links_def remotes_in_def)

lemma core_cidrs_peer: "(a, n, i) \<in> set (core_cidrs fam ps) \<Longrightarrow> i < length ps"
  by (auto simp: core_cidrs_def)

lemma routing_targets: "core_routing t \<Longrightarrow> targets_ok t"
  unfolding targets_ok_def core_routing_def
  by (metis core_cidrs_peer v4.lookup_build_sound v6.lookup_build_sound)

lemma tunnel_frame_links: "tunnel_frame cv t t' \<Longrightarrow> core_links t \<Longrightarrow> core_links t'"
proof -
  assume f: "tunnel_frame cv t t'" and l: "core_links t"
  have nx: "next_remote (t_local t') = next_remote (t_local t)" using f by (simp add: tunnel_frame_def run_def)
  have arg: "r_arg (remotes (t_local t') r) = r_arg (remotes (t_local t) r) \<and>
      r_public (remotes (t_local t') r) = r_public (remotes (t_local t) r)" if "r < next_remote (t_local t)" for r
    by (rule run_ident [of cv, OF _ that]) (use f in \<open>simp add: tunnel_frame_def\<close>)
  show ?thesis using f l nx arg by (simp add: core_links_def tunnel_frame_def q_kept_def)
qed

lemma core_cidrs_cong:
  assumes "length ps' = length ps" "\<forall>i < length ps. q_allowed (ps' ! i) = q_allowed (ps ! i)"
  shows "core_cidrs fam ps' = core_cidrs fam ps"
  unfolding core_cidrs_def assms(1) using assms(2) by (intro arg_cong [where f = concat] map_cong) auto

lemma inv_op:
  assumes "op_ok cv env t t'" "kernel_ok env" "tunnel_inv cv t"
  shows "tunnel_inv cv t'"
proof -
  have f: "tunnel_frame cv t t'" using assms(1) by (simp add: op_ok_def)
  have reach: "noise_reach cv (t_local t')"
    using f assms(3) steps_reach by (auto simp: tunnel_frame_def run_def tunnel_inv_def)
  have peer: "peer_state_ok (t_peers t' ! i) \<and> q_remote (t_peers t' ! i) \<noteq> None" if "i < length (t_peers t')" for i
  proof -
    have "q_kept (t_peers t ! i) (t_peers t' ! i)" "peer_state_ok (t_peers t ! i)" "q_remote (t_peers t ! i) \<noteq> None"
      using f assms(3) that by (simp_all add: tunnel_frame_def tunnel_inv_def)
    then show ?thesis by (simp add: q_kept_def peer_state_ok_def)
  qed
  then have peers: "\<forall>p \<in> set (t_peers t'). peer_state_ok p \<and> q_remote p \<noteq> None" by (metis in_set_conv_nth)
  have cidrs: "core_cidrs fam (t_peers t') = core_cidrs fam (t_peers t)" for fam
    using f by (intro core_cidrs_cong) (simp_all add: tunnel_frame_def q_kept_def)
  have "core_routing t'" using f assms(3) cidrs by (simp add: core_routing_def tunnel_frame_def tunnel_inv_def)
  moreover have "fds_ok t'" using assms by (simp add: op_ok_def fds_kept_def tunnel_inv_def)
  ultimately show ?thesis
    using reach peers f assms(3) tunnel_frame_links [OF f] by (simp add: tunnel_inv_def tunnel_frame_def)
qed

subsection \<open>Rounds\<close>

lemma inv_tick_peer:
  assumes "tunnel_tick_peer cv now (e1, e2, e3) i t = Some t'" "tunnel_inv cv t" "i < length (t_peers t)"
    "kernel_ok e1 \<and> kernel_ok e2 \<and> kernel_ok e3"
  shows "tunnel_inv cv t' \<and> length (t_peers t') = length (t_peers t)"
proof -
  have rem: "remotes_in u" if "tunnel_inv cv u" for u using that links_remotes_in by (simp add: tunnel_inv_def)
  obtain u v where u: "core_tick_retransmit cv now e1 i t = Some u" and v: "core_tick_handshake cv now e2 i u = Some v"
    and w: "core_tick_keepalive now e3 i v = Some t'"
    using assms(1) by (auto simp: tunnel_tick_peer_def bind_eq_Some_conv)
  note 1 = op_tick_retransmit [OF rem [OF assms(2)] assms(3) u]
  have iu: "tunnel_inv cv u" "i < length (t_peers u)" using inv_op [OF 1 _ assms(2)] assms(3,4) op_length [OF 1] by simp_all
  note 2 = op_tick_handshake [OF rem [OF iu(1)] iu(2) v]
  have iv: "tunnel_inv cv v" "i < length (t_peers v)" using inv_op [OF 2 _ iu(1)] iu(2) assms(4) op_length [OF 2] by simp_all
  note 3 = op_tick_keepalive [OF iv(2) w, of cv]
  show ?thesis using inv_op [OF 3 _ iv(1)] assms(4) op_length [OF 1] op_length [OF 2] op_length [OF 3] by simp
qed

lemma inv_tick_peers:
  "tunnel_tick_peers cv now envs is t = Some t' \<Longrightarrow> tunnel_inv cv t \<Longrightarrow> \<forall>i \<in> set is. i < length (t_peers t) \<Longrightarrow>
   \<forall>i. kernel_ok (fst (envs i)) \<and> kernel_ok (fst (snd (envs i))) \<and> kernel_ok (snd (snd (envs i))) \<Longrightarrow> tunnel_inv cv t'"
proof (induction "is" arbitrary: t)
  case (Cons i "is")
  then obtain u where u: "tunnel_tick_peer cv now (envs i) i t = Some u" "tunnel_tick_peers cv now envs is u = Some t'"
    by (auto split: option.splits)
  obtain e1 e2 e3 where e: "envs i = (e1, e2, e3)" by (cases "envs i")
  have "kernel_ok e1 \<and> kernel_ok e2 \<and> kernel_ok e3" using Cons.prems(4) [rule_format, of i] by (simp add: e)
  then have "tunnel_inv cv u \<and> length (t_peers u) = length (t_peers t)"
    using inv_tick_peer [of cv now e1 e2 e3 i t u] u(1) Cons.prems(2,3) by (simp add: e)
  then show ?case using Cons.IH [OF u(2)] Cons.prems(3,4) by simp
qed simp

lemma inv_tun_batch:
  "tun_batch now ds t = Some t' \<Longrightarrow> \<forall>d \<in> set ds. kernel_ok (fst d) \<Longrightarrow> tunnel_inv cv t \<Longrightarrow> tunnel_inv cv t'"
proof (induction now ds t rule: tun_batch.induct)
  case (2 now env raw rs t)
  show ?case
  proof (cases "utun_read raw WG_BUF_MAX")
    case None
    then show ?thesis using 2 by simp
  next
    case (Some pkt)
    obtain u where u: "(if length pkt > 0 then tx_handle_packet now env pkt t else Some t) = Some u"
      and v: "tun_batch now rs u = Some t'"
      using 2(2) Some by (auto simp: bind_eq_Some_conv)
    have "tunnel_inv cv u"
    proof (cases "length pkt > 0")
      case True
      have "targets_ok t" using 2(4) routing_targets by (simp add: tunnel_inv_def)
      then have "op_ok cv env t u" using u True by (simp add: op_tx_packet)
      then show ?thesis by (rule inv_op) (use 2(3,4) in simp_all)
    qed (use u 2(4) in simp)
    then show ?thesis using 2(1) [OF Some u v] 2(3) by simp
  qed
qed simp

lemma inv_udp_batch:
  "udp_batch cv ds t = Some t' \<Longrightarrow> \<forall>d \<in> set ds. kernel_ok (fst d) \<Longrightarrow> tunnel_inv cv t \<Longrightarrow> tunnel_inv cv t'"
proof (induction cv ds t rule: udp_batch.induct)
  case (2 cv env pkt sa n rs t)
  then show ?case using inv_op [OF op_datagram] by (auto simp: bind_eq_Some_conv)
qed simp

text \<open>The outside of one round is a kernel.\<close>

definition round_ok ::
    "(nat \<Rightarrow> core_env \<times> core_env \<times> core_env) \<Rightarrow> (core_env \<times> bytes) list \<Rightarrow> (core_env \<times> bytes \<times> sockaddr \<times> nat) list list \<Rightarrow> bool" where
  "round_ok envs tun udps \<longleftrightarrow>
     (\<forall>i. kernel_ok (fst (envs i)) \<and> kernel_ok (fst (snd (envs i))) \<and> kernel_ok (snd (snd (envs i)))) \<and>
     (\<forall>d \<in> set tun. kernel_ok (fst d)) \<and> (\<forall>ds \<in> set udps. \<forall>d \<in> set ds. kernel_ok (fst d))"

lemma inv_round:
  assumes "tunnel_round cv now envs tun udps t = Some t'" "round_ok envs tun udps" "tunnel_inv cv t"
  shows "tunnel_inv cv t'"
proof -
  obtain u v where u: "tunnel_tick cv now envs t = Some u" and v: "tun_batch now (take WG_TX_BATCH tun) u = Some v"
    and w: "udp_batch cv (concat (map (take WG_RX_BATCH) udps)) v = Some t'"
    using assms(1) by (auto simp: tunnel_round_def bind_eq_Some_conv)
  have "tunnel_inv cv u"
    using inv_tick_peers [OF u [unfolded tunnel_tick_def] assms(3)] assms(2) by (simp add: round_ok_def)
  then have "tunnel_inv cv v"
    using inv_tun_batch [OF v] assms(2) by (auto simp: round_ok_def dest: in_set_takeD)
  then show ?thesis
    using inv_udp_batch [OF w] assms(2) by (fastforce simp: round_ok_def dest: in_set_takeD)
qed

subsection \<open>The start\<close>

text \<open>The state after the first \<open>k\<close> peers have been set up: the rest is as \<^verbatim>\<open>load_config\<close> left it.\<close>

definition start_inv :: "curve \<Rightarrow> nat \<Rightarrow> tunnel_ctx \<Rightarrow> bool" where
  "start_inv cv k t \<longleftrightarrow> noise_reach cv (t_local t) \<and> next_remote (t_local t) = k \<and> core_links t \<and> (\<forall>p \<in> set (t_peers t). peer_state_ok p) \<and>
     (\<forall>i < k. q_tx_fd (t_peers t ! i) = - 1 \<and> q_remote (t_peers t ! i) \<noteq> None) \<and>
     (\<forall>i < length (t_peers t). k \<le> i \<longrightarrow> peer_fresh (t_peers t ! i)) \<and> t_io t = []"

text \<open>A new remote for peer \<open>k\<close>.\<close>

lemma core_links_new:
  assumes l: "core_links t" and k: "k < length (t_peers t)"
    and al: "noise_remote_alloc cv (t_local t) k (q_pubkey (t_peers t ! k)) = (r, l1)" and en: "noise_remote_enable r l1 = (e, l2)"
    and p: "q_remote p = Some r" "q_pubkey p = q_pubkey (t_peers t ! k)"
  shows "core_links ((upd_q k (\<lambda>_. p) t)\<lparr>t_local := l2\<rparr>)"
proof -
  note a = remote_alloc_result [OF al]
  have en': "next_remote l2 = next_remote l1" "\<And>x. r_arg (remotes l2 x) = r_arg (remotes l1 x)"
    "\<And>x. r_public (remotes l2 x) = r_public (remotes l1 x)"
    using en by (auto simp: noise_remote_enable_def Let_def split: if_splits)
  have arg: "r_arg (remotes l2 x) < length (t_peers t)" if "x < next_remote l2" for x
  proof (cases "x = r")
    case False
    then have "x < next_remote (t_local t)" using that a en' by auto
    then show ?thesis using l a(5) [OF False] en' by (simp add: core_links_def)
  qed (use a en' k in simp)
  have to: "x < next_remote l2 \<and> r_arg (remotes l2 x) = j \<and> r_public (remotes l2 x) = q_pubkey (t_peers (upd_q k (\<lambda>_. p) t) ! j)"
    if "j < length (t_peers t)" "q_remote (t_peers (upd_q k (\<lambda>_. p) t) ! j) = Some x" for j x
  proof (cases "j = k")
    case True
    then show ?thesis using that p a en' k by simp
  next
    case False
    then have "x < next_remote (t_local t) \<and> r_arg (remotes (t_local t) x) = j \<and>
        r_public (remotes (t_local t) x) = q_pubkey (t_peers t ! j)"
      using that l by (simp add: core_links_def)
    then show ?thesis using a(1,2) a(5) [of x] en' False by auto
  qed
  show ?thesis using arg to by (simp add: core_links_def)
qed

lemma core_links_upd:
  "core_links t \<Longrightarrow> (\<And>p. q_remote (f p) = q_remote p \<and> q_pubkey (f p) = q_pubkey p) \<Longrightarrow> core_links (upd_q i f t)"
  by (cases "i < length (t_peers t)") (auto simp: core_links_def upd_q_def nth_list_update)

text \<open>Setting up one peer: the rest of the context stays.\<close>

definition start_frame :: "nat \<Rightarrow> tunnel_ctx \<Rightarrow> tunnel_ctx \<Rightarrow> bool" where
  "start_frame k t t' \<longleftrightarrow> length (t_peers t') = length (t_peers t) \<and> (\<forall>j > k. t_peers t' ! j = t_peers t ! j) \<and>
     map q_allowed (t_peers t') = map q_allowed (t_peers t) \<and> t_io t' = t_io t"

lemma start_frame_intro:
  assumes "t_peers t' = (t_peers t)[k := p]" "q_allowed p = q_allowed (t_peers t ! k)" "t_io t' = t_io t"
  shows "start_frame k t t'"
proof -
  have "map q_allowed (t_peers t') = map q_allowed (t_peers t)"
    using assms(1,2) by (cases "k < length (t_peers t)") (simp_all add: map_update list_update_same_conv list_update_beyond)
  then show ?thesis using assms by (simp add: start_frame_def)
qed

lemma start_inv_peer:
  assumes inv: "start_inv cv k t" and k: "k < length (t_peers t)"
    and al: "noise_remote_alloc cv (t_local t) k (q_pubkey (t_peers t ! k)) = (r, l1)" and en: "noise_remote_enable r l1 = (e, l2)"
    and p: "q_remote p = Some r" "q_pubkey p = q_pubkey (t_peers t ! k)" "peer_state_ok p" "q_tx_fd p = - 1"
  shows "start_inv cv (Suc k) ((upd_q k (\<lambda>_. p) t)\<lparr>t_local := l2\<rparr>)"
proof -
  have "noise_reach cv l1"
    using inv al noise_reach.step [OF _ noise_step.intros(5) [of cv "t_local t" k "q_pubkey (t_peers t ! k)"]]
    by (simp add: start_inv_def)
  then have reach: "noise_reach cv l2"
    using noise_reach.step [OF _ noise_step.intros(6) [of r l1 cv]] remote_alloc_result(1,2) [OF al] en by simp
  have nx: "next_remote l2 = Suc k"
    using inv remote_alloc_result(2) [OF al] en by (auto simp: start_inv_def noise_remote_enable_def Let_def split: if_splits)
  have "peer_state_ok q" if "q \<in> set ((t_peers t)[k := p])" for q
    using that inv p(3) set_update_subset_insert [of "t_peers t" k p] by (auto simp: start_inv_def)
  then have ok: "\<forall>q \<in> set ((t_peers t)[k := p]). peer_state_ok q" by blast
  show ?thesis
    using inv reach nx ok core_links_new [OF _ k al en p(1,2)] p k
    by (auto simp: start_inv_def upd_q_def nth_list_update less_Suc_eq)
qed

lemma core_start_peer_inv:
  assumes inv: "start_inv cv k t" and k: "k < length (t_peers t)" and st: "core_start_peer cv nl k t = (ok, t')"
  shows "start_inv cv (Suc k) t' \<and> start_frame k t t'"
proof -
  obtain r l1 where al: "noise_remote_alloc cv (t_local t) k (q_pubkey (t_peers t ! k)) = (r, l1)" by fastforce
  obtain e l2 where en: "noise_remote_enable r l1 = (e, l2)" by fastforce
  define q where "q = (t_peers t ! k)\<lparr>q_tx_fd := - 1, q_remote := Some r\<rparr>"
  define q' where "q' = q\<lparr>q_cookie := cookie_maker_init (q_pubkey q), q_cookie_inited := True\<rparr>"
  have ok: "peer_state_ok (t_peers t ! k)" using inv k by (simp add: start_inv_def)
  have mk: "maker_ok (cookie_maker_init pk)" for pk using maker_for_init [of pk] by (simp add: maker_for_def)
  define p where "p = t_peers t' ! k"
  have "t' = t\<lparr>t_local := l2, t_peers := (t_peers t)[k := p]\<rparr> \<and>
      (p = q \<or> p = q' \<or> p = q'\<lparr>q_endpoint := q_endpoint p, q_endpoint_len := q_endpoint_len p\<rparr>)"
    using st k al
    by (auto simp: core_start_peer_def Let_def en p_def q_def q'_def upd_q_def split: if_splits option.splits prod.splits)
  then have t': "t' = (upd_q k (\<lambda>_. p) t)\<lparr>t_local := l2\<rparr>"
    and p: "p = q \<or> p = q' \<or> (\<exists>sa n. p = q'\<lparr>q_endpoint := sa, q_endpoint_len := n\<rparr>)" by (auto simp: upd_q_def)
  have props: "q_remote p = Some r" "q_pubkey p = q_pubkey (t_peers t ! k)" "peer_state_ok p" "q_tx_fd p = - 1"
    "q_allowed p = q_allowed (t_peers t ! k)"
    using p ok mk by (auto simp: q_def q'_def peer_state_ok_def)
  have "start_frame k t t'" by (rule start_frame_intro [where p = p]) (simp_all add: t' upd_q_def props)
  then show ?thesis using start_inv_peer [OF inv k al en props(1-4)] by (simp add: t')
qed

lemma start_frame_trans: "start_frame k t u \<Longrightarrow> start_frame j u v \<Longrightarrow> k \<le> j \<Longrightarrow> start_frame j t v"
  by (simp add: start_frame_def)

text \<open>The endpoint of a peer is found, if it has one.\<close>

definition resolves :: "netlib \<Rightarrow> peer_state \<Rightarrow> bool" where
  "resolves nl p \<longleftrightarrow> q_has_endpoint p \<longrightarrow> resolve_endpoint nl (q_endpoint_host p) (q_endpoint_port p) \<noteq> None"

lemma core_start_peer_result:
  assumes "start_inv cv k t" "k < length (t_peers t)" "length (t_peers t) \<le> WG_MAX_PEERS"
  shows "fst (core_start_peer cv nl k t) \<longleftrightarrow> resolves nl (t_peers t ! k)"
proof -
  obtain r l1 where al: "noise_remote_alloc cv (t_local t) k (q_pubkey (t_peers t ! k)) = (r, l1)" by fastforce
  have "\<exists>l2. noise_remote_enable r l1 = (OK, l2)"
    by (rule remote_enable_ok [OF _ _ al])
      (use assms in \<open>simp_all add: start_inv_def WG_MAX_PEERS_def MAX_REMOTE_PER_LOCAL_def\<close>)
  then obtain l2 where "noise_remote_enable r l1 = (OK, l2)" ..
  then show ?thesis
    using assms(2) al
    by (simp add: core_start_peer_def Let_def resolves_def split: option.split prod.split)
qed

text \<open>The loop over the peers stops at the first peer \<open>j\<close> that does not resolve; those after it are untouched.\<close>

lemma core_start_peers_inv:
  "start_inv cv k t \<Longrightarrow> n = length (t_peers t) \<Longrightarrow> n \<le> WG_MAX_PEERS \<Longrightarrow> k < n \<Longrightarrow>
   core_start_peers cv nl [k..<n] t = (ok, t') \<Longrightarrow>
   \<exists>j. k \<le> j \<and> j < n \<and> (ok \<longrightarrow> Suc j = n) \<and> start_inv cv (Suc j) t' \<and> start_frame j t t' \<and>
     (\<forall>i. k \<le> i \<and> i < j \<longrightarrow> resolves nl (t_peers t ! i)) \<and> (ok \<longleftrightarrow> resolves nl (t_peers t ! j))"
proof (induction "n - k" arbitrary: k t)
  case (Suc m)
  obtain o1 u where u: "core_start_peer cv nl k t = (o1, u)" by fastforce
  have k: "start_inv cv (Suc k) u" "start_frame k t u" "o1 \<longleftrightarrow> resolves nl (t_peers t ! k)"
    using core_start_peer_inv [OF Suc.prems(1) _ u] core_start_peer_result [OF Suc.prems(1), of nl] Suc.prems(2-4) u
    by simp_all
  have cons: "[k..<n] = k # [Suc k..<n]" using Suc.prems(4) by (rule upt_conv_Cons)
  show ?case
  proof (cases "o1 \<and> Suc k < n")
    case True
    then have rest: "core_start_peers cv nl [Suc k..<n] u = (ok, t')" using Suc.prems(5) u by (simp add: cons)
    have m: "m = n - Suc k" using Suc.hyps(2) by simp
    have len: "n = length (t_peers u)" using Suc.prems(2) k(2) by (simp add: start_frame_def)
    obtain j where j: "Suc k \<le> j" "j < n" "ok \<longrightarrow> Suc j = n" "start_inv cv (Suc j) t'" "start_frame j u t'"
      "\<forall>i. Suc k \<le> i \<and> i < j \<longrightarrow> resolves nl (t_peers u ! i)" "ok \<longleftrightarrow> resolves nl (t_peers u ! j)"
      using Suc.hyps(1) [OF m k(1) len Suc.prems(3) _ rest] True by blast
    have same: "t_peers u ! i = t_peers t ! i" if "Suc k \<le> i" for i using that k(2) by (simp add: start_frame_def)
    have "resolves nl (t_peers t ! i)" if "k \<le> i" "i < j" for i
    proof (cases "i = k")
      case False
      then have "Suc k \<le> i" using that(1) by simp
      then show ?thesis using that(2) j(6) same [of i] by auto
    qed (use k(3) True in simp)
    moreover have "ok \<longleftrightarrow> resolves nl (t_peers t ! j)" using j(7) same [OF j(1)] by simp
    ultimately show ?thesis using j(1-4) start_frame_trans [OF k(2) j(5)] by (intro exI [of _ j]) simp
  next
    case False
    then have "t' = u \<and> (ok \<longrightarrow> Suc k = n) \<and> ok = o1"
      using Suc.prems(4,5) u by (cases o1) (auto simp: cons)
    then show ?thesis using k Suc.prems(4) by (intro exI [of _ k]) auto
  qed
qed simp

lemma tunnel_of_inv:
  assumes "client_config_ok cfg" "list_all peer_fresh (cc_peers cfg)"
  shows "start_inv cv 0 ((tunnel_of cfg hash_key ctx)\<lparr>t_local := noise_local_private cv (cc_private_key cfg) (noise_local_alloc 0 hash_key)\<rparr>)"
proof -
  let ?l = "noise_local_private cv (cc_private_key cfg) (noise_local_alloc 0 hash_key)"
  have "noise_reach cv ?l" by (rule noise_reach.step [OF noise_reach.init noise_step.intros(4)])
  moreover have "next_remote ?l = 0"
    using ts_local_private [of "noise_local_alloc 0 hash_key" cv "cc_private_key cfg"]
    by (simp add: same_ts_def noise_local_alloc_def)
  moreover have "q_remote p = None" if "p \<in> set (cc_peers cfg)" for p
    using that assms(2) by (simp add: list_all_iff peer_fresh_def)
  ultimately show ?thesis
    using assms by (auto simp: start_inv_def tunnel_of_def core_links_def client_config_ok_def list_all_iff)
qed

text \<open>The loops that fill the tries build the tables of \<open>core_routing\<close>; with valid CIDRs no insertion fails.\<close>

lemma core_add_list_ok:
  "max_bits (t_aips_v4 t) = 32 \<Longrightarrow> max_bits (t_aips_v6 t) = 128 \<Longrightarrow> \<forall>c \<in> set cs. cidr_ok c \<Longrightarrow>
   core_add_list i cs t =
     (True, t\<lparr>t_aips_v4 := build_table aips_put (t_aips_v4 t)
          (map (\<lambda>c. (c_addr c, nat (c_prefix_len c), i)) (filter (\<lambda>c. c_family c = AF_INET) cs)),
       t_aips_v6 := build_table aips_put (t_aips_v6 t)
          (map (\<lambda>c. (c_addr c, nat (c_prefix_len c), i)) (filter (\<lambda>c. c_family c = AF_INET6) cs))\<rparr>)"
proof (induction cs arbitrary: t)
  case (Cons c cs)
  have f: "c_family c = AF_INET \<or> c_family c = AF_INET6" by (cases "c_family c") simp_all
  define u where "u = snd (core_add_cidr i c t)"
  have c: "core_add_cidr i c t = (True, u)" "max_bits (t_aips_v4 u) = 32" "max_bits (t_aips_v6 u) = 128"
    using Cons.prems aips_insert_ok(1) [of "nat (c_prefix_len c)" "t_aips_v4 t" "c_addr c" i]
      aips_insert_ok(1) [of "nat (c_prefix_len c)" "t_aips_v6 t" "c_addr c" i]
      aips_insert_ok(3) [of "t_aips_v4 t" "c_addr c" "nat (c_prefix_len c)" "Some i"]
      aips_insert_ok(3) [of "t_aips_v6 t" "c_addr c" "nat (c_prefix_len c)" "Some i"]
    by (auto simp: core_add_cidr_def u_def cidr_ok_def nat_le_iff split: prod.split if_splits)
  show ?case
    using f Cons.IH [OF c(2,3)] Cons.prems(3)
    by (elim disjE) (simp_all add: c(1), simp_all add: u_def core_add_cidr_def aips_put_def build_table_def split: prod.split)
qed (simp add: build_table_def)

lemma max_bits_build: "max_bits (build_table aips_put t cs) = max_bits t"
  by (induction cs rule: rev_induct) (auto simp: build_table_def aips_put_def aips_insert_ok(3))

lemma core_add_peers_ok:
  "max_bits (t_aips_v4 t) = 32 \<Longrightarrow> max_bits (t_aips_v6 t) = 128 \<Longrightarrow> \<forall>i \<in> set is. \<forall>c \<in> set (q_allowed (t_peers t ! i)). cidr_ok c \<Longrightarrow>
   core_add_peers is t =
     (True, t\<lparr>t_aips_v4 := build_table aips_put (t_aips_v4 t)
          (concat (map (\<lambda>i. map (\<lambda>c. (c_addr c, nat (c_prefix_len c), i))
            (filter (\<lambda>c. c_family c = AF_INET) (q_allowed (t_peers t ! i)))) is)),
       t_aips_v6 := build_table aips_put (t_aips_v6 t)
          (concat (map (\<lambda>i. map (\<lambda>c. (c_addr c, nat (c_prefix_len c), i))
            (filter (\<lambda>c. c_family c = AF_INET6) (q_allowed (t_peers t ! i)))) is))\<rparr>)"
proof (induction "is" arbitrary: t)
  case (Cons i "is")
  have "\<forall>c \<in> set (q_allowed (t_peers t ! i)). cidr_ok c" using Cons.prems(3) by simp
  note l = core_add_list_ok [OF Cons.prems(1,2) this, of i]
  let ?u = "snd (core_add_list i (q_allowed (t_peers t ! i)) t)"
  have "max_bits (t_aips_v4 ?u) = 32" "max_bits (t_aips_v6 ?u) = 128" "t_peers ?u = t_peers t"
    using Cons.prems(1,2) by (simp_all add: l max_bits_build)
  then show ?case using Cons.IH [of ?u] Cons.prems(3) by (simp add: l build_table_append)
qed (simp add: build_table_def)

lemma core_add_cidrs_eq:
  assumes "\<forall>p \<in> set (t_peers t). peer_state_ok p"
  shows "core_add_cidrs t = (True, t\<lparr>t_aips_v4 := build_table aips_put (aips_init 32) (core_cidrs AF_INET (t_peers t)),
     t_aips_v6 := build_table aips_put (aips_init 128) (core_cidrs AF_INET6 (t_peers t))\<rparr>)"
proof -
  have "\<forall>i \<in> set [0..<length (t_peers t)]. \<forall>c \<in> set (q_allowed (t_peers t ! i)). cidr_ok c"
    using assms by (auto simp: peer_state_ok_def)
  then show ?thesis
    using core_add_peers_ok [of "t\<lparr>t_aips_v4 := aips_init 32, t_aips_v6 := aips_init 128\<rparr>" "[0..<length (t_peers t)]"]
    by (simp add: core_add_cidrs_def core_cidrs_def)
qed

lemma core_start_inv:
  assumes nl: "netlib_ok nl" and ld: "load_config nl file = Some cfg"
    and st: "core_start cv nl hash_key ctx bound cfg = Inr t"
  shows "tunnel_inv cv t"
proof -
  note parts = load_config_parts [OF nl ld]
  define t0 where "t0 = (tunnel_of cfg hash_key ctx)\<lparr>t_local := noise_local_private cv (cc_private_key cfg) (noise_local_alloc 0 hash_key)\<rparr>"
  have t0: "(tunnel_of cfg hash_key ctx)\<lparr>t_local := noise_local_private cv (cc_private_key cfg)
      (t_local (tunnel_of cfg hash_key ctx))\<rparr> = t0"
    by (simp add: t0_def tunnel_of_def)
  have inv0: "start_inv cv 0 t0" unfolding t0_def by (rule tunnel_of_inv) (use parts in simp_all)
  have n: "0 < length (t_peers t0)" using parts by (simp add: t0_def tunnel_of_def)
  have le: "length (t_peers t0) \<le> WG_MAX_PEERS" using parts by (simp add: t0_def tunnel_of_def client_config_ok_def)
  obtain ok u where u: "core_start_peers cv nl [0..<length (t_peers t0)] t0 = (ok, u)" by fastforce
  define cc where "cc = (case noise_local_keys (t_local u) of
      (OK, Some (pub, _)) \<Rightarrow> cookie_checker_update cookie_checker_init (Some pub) | _ \<Rightarrow> cookie_checker_init)"
  obtain port where ok: "ok" and t: "core_add_cidrs (u\<lparr>t_checker := Some cc, t_bound_port := port\<rparr>) = (True, t)"
    using st unfolding core_start_def Let_def t0 u prod.case cc_def [symmetric] by (auto split: if_splits option.splits prod.splits)
  obtain j where "Suc j = length (t_peers t0)" "start_inv cv (Suc j) u" "start_frame j t0 u"
    using core_start_peers_inv [OF inv0 refl le n u] ok by blast
  then have inv: "start_inv cv (length (t_peers u)) u" by (simp add: start_frame_def)
  have "checker_ok cc"
    using checker_for_update [OF checker_ok_init] checker_ok_init
    by (simp add: cc_def checker_for_def split: prod.split errno.split option.split)
  moreover have "\<forall>p \<in> set (t_peers u). peer_state_ok p \<and> q_remote p \<noteq> None"
    using inv by (auto simp: start_inv_def in_set_conv_nth)
  moreover have "fd_run (t_io u) {} = Some {} \<and> (\<forall>i < length (t_peers u). own_fd (q_tx_fd (t_peers u ! i)) = {})"
    using inv by (simp add: start_inv_def own_fd_def)
  moreover have "t = u\<lparr>t_checker := Some cc, t_bound_port := port, t_aips_v4 := build_table aips_put (aips_init 32) (core_cidrs AF_INET (t_peers u)),
      t_aips_v6 := build_table aips_put (aips_init 128) (core_cidrs AF_INET6 (t_peers u))\<rparr>"
    using t inv core_add_cidrs_eq [of "u\<lparr>t_checker := Some cc, t_bound_port := port\<rparr>"] by (simp add: start_inv_def)
  ultimately show ?thesis
    using inv
    by (auto simp: tunnel_inv_def start_inv_def core_links_def core_routing_def fds_ok_def
        peer_fds_def fds_disjoint_def own_fd_def)
qed

subsection \<open>The end of a failed start\<close>

definition closing :: "peer_state \<Rightarrow> io list" where
  "closing p = (if q_tx_fd p \<ge> 0 then [Closed (q_tx_fd p)] else [])"

lemma core_release_one:
  assumes "i < length (t_peers t)"
  shows "t_io (core_release_peer i t) = t_io t @ closing (t_peers t ! i)"
    "length (t_peers (core_release_peer i t)) = length (t_peers t)"
    "j \<noteq> i \<Longrightarrow> t_peers (core_release_peer i t) ! j = t_peers t ! j"
    "q_remote (t_peers (core_release_peer i t) ! j) = q_remote (t_peers t ! j)"
proof -
  show "t_io (core_release_peer i t) = t_io t @ closing (t_peers t ! i)"
    "length (t_peers (core_release_peer i t)) = length (t_peers t)"
    "j \<noteq> i \<Longrightarrow> t_peers (core_release_peer i t) ! j = t_peers t ! j"
    by (simp_all add: core_release_peer_def peer_tx_close_def closing_def Let_def split: option.split)
  show "q_remote (t_peers (core_release_peer i t) ! j) = q_remote (t_peers t ! j)"
    using assms by (cases "j = i") (simp_all add: core_release_peer_def peer_tx_close_def Let_def split: option.split)
qed

lemma core_release_all:
  "distinct is \<Longrightarrow> \<forall>i \<in> set is. i < length (t_peers t) \<Longrightarrow>
   t_io (fold core_release_peer is t) = t_io t @ concat (map (\<lambda>i. closing (t_peers t ! i)) is) \<and>
   (\<forall>j. q_remote (t_peers (fold core_release_peer is t) ! j) = q_remote (t_peers t ! j))"
proof (induction "is" arbitrary: t)
  case (Cons i "is")
  have i: "i < length (t_peers t)" "i \<notin> set is" "distinct is" using Cons.prems by simp_all
  note r = core_release_one [OF i(1)]
  have "t_peers (core_release_peer i t) ! j = t_peers t ! j" if "j \<in> set is" for j
    using r(3) [of j] i(2) that by blast
  then have m: "concat (map (\<lambda>j. closing (t_peers (core_release_peer i t) ! j)) is) = concat (map (\<lambda>j. closing (t_peers t ! j)) is)"
    by (intro arg_cong [where f = concat] map_cong [OF refl]) simp
  then show ?case using Cons.IH [OF i(3), of "core_release_peer i t"] Cons.prems(2) r(1,2,4) by simp
qed simp

lemma concat_closed:
  "concat (map (\<lambda>i. if i < k then [] else [x]) [0..<n]) = replicate (n - k) x"
proof (induction n)
  case (Suc n)
  then show ?case by (cases "n < k") (simp_all add: Suc_diff_le replicate_append_same)
qed simp

lemma core_stop_io:
  assumes "start_inv cv k t" "k \<le> length (t_peers t)"
  shows "t_io (core_stop False (t\<lparr>t_checker := c\<rparr>)) = replicate (length (t_peers t) - k) (Closed 0) \<and>
    (\<forall>i < length (t_peers t). q_remote (t_peers (core_stop False (t\<lparr>t_checker := c\<rparr>)) ! i) \<noteq> None \<longleftrightarrow> i < k)"
proof -
  have "concat (map (\<lambda>i. closing (t_peers t ! i)) [0..<length (t_peers t)])
      = concat (map (\<lambda>i. if i < k then [] else [Closed 0]) [0..<length (t_peers t)])"
    using assms
    by (intro arg_cong [where f = concat] map_cong [OF refl]) (auto simp: start_inv_def peer_fresh_def closing_def)
  then have io: "concat (map (\<lambda>i. closing (t_peers t ! i)) [0..<length (t_peers t)]) = replicate (length (t_peers t) - k) (Closed 0)"
    by (simp add: concat_closed)
  have "q_remote (t_peers t ! i) \<noteq> None \<longleftrightarrow> i < k" if "i < length (t_peers t)" for i
    using assms(1) that by (cases "i < k") (auto simp: start_inv_def peer_fresh_def)
  then show ?thesis
    using assms(1) io core_release_all [of "[0..<length (t_peers t)]" "t\<lparr>t_checker := map_option cookie_checker_free c\<rparr>"]
    by (simp add: core_stop_def Let_def start_inv_def)
qed

text \<open>The state before the loop over the peers.\<close>

definition core_ready :: "curve \<Rightarrow> bytes \<Rightarrow> bool \<Rightarrow> client_config \<Rightarrow> tunnel_ctx" where
  "core_ready cv hash_key ctx cfg =
     (tunnel_of cfg hash_key ctx)\<lparr>t_local := noise_local_private cv (cc_private_key cfg) (noise_local_alloc 0 hash_key)\<rparr>"

lemma core_ready_facts:
  assumes "netlib_ok nl" "load_config nl file = Some cfg"
  shows "start_inv cv 0 (core_ready cv hash_key ctx cfg)" "t_peers (core_ready cv hash_key ctx cfg) = cc_peers cfg"
    "0 < length (cc_peers cfg)" "length (cc_peers cfg) \<le> WG_MAX_PEERS"
  using load_config_parts [OF assms] tunnel_of_inv [of cfg cv hash_key ctx]
  by (simp_all add: core_ready_def client_config_ok_def) (simp add: tunnel_of_def)

lemma core_start_ready:
  "core_start cv nl hash_key ctx bound cfg =
     (case core_start_peers cv nl [0..<length (cc_peers cfg)] (core_ready cv hash_key ctx cfg) of
        (ok, t) \<Rightarrow>
          if \<not> ok then Inl (core_stop False t)
          else
            let t = t\<lparr>t_checker := Some (case noise_local_keys (t_local t) of
                  (OK, Some (pub, _)) \<Rightarrow> cookie_checker_update cookie_checker_init (Some pub) | _ \<Rightarrow> cookie_checker_init)\<rparr>
            in (case bound of None \<Rightarrow> Inl (core_stop False t)
                | Some port \<Rightarrow> (case core_add_cidrs (t\<lparr>t_bound_port := port\<rparr>) of
                     (ok, t) \<Rightarrow> if ok then Inr t else Inl (core_stop True t))))"
proof -
  have "(tunnel_of cfg hash_key ctx)\<lparr>t_local := noise_local_private cv (cc_private_key cfg) (t_local (tunnel_of cfg hash_key ctx))\<rparr>
      = core_ready cv hash_key ctx cfg" "t_peers (core_ready cv hash_key ctx cfg) = cc_peers cfg"
    by (simp_all add: core_ready_def tunnel_of_def)
  then show ?thesis unfolding core_start_def Let_def by simp
qed

text \<open>How the loop over all peers ends.\<close>

lemma core_start_loop:
  assumes "netlib_ok nl" "load_config nl file = Some cfg"
    "core_start_peers cv nl [0..<length (cc_peers cfg)] (core_ready cv hash_key ctx cfg) = (ok, u)"
  shows "\<exists>j < length (cc_peers cfg). (ok \<longrightarrow> Suc j = length (cc_peers cfg)) \<and> start_inv cv (Suc j) u \<and>
    length (t_peers u) = length (cc_peers cfg) \<and> (\<forall>i < j. resolves nl (cc_peers cfg ! i)) \<and> (ok \<longleftrightarrow> resolves nl (cc_peers cfg ! j))"
proof -
  note r = core_ready_facts(1,2) [OF assms(1,2), of cv hash_key ctx] core_ready_facts(3,4) [OF assms(1,2)]
  have n: "length (cc_peers cfg) = length (t_peers (core_ready cv hash_key ctx cfg))" by (simp add: r(2))
  obtain j where "j < length (cc_peers cfg)" "ok \<longrightarrow> Suc j = length (cc_peers cfg)" "start_inv cv (Suc j) u"
    "start_frame j (core_ready cv hash_key ctx cfg) u" "\<forall>i. 0 \<le> i \<and> i < j \<longrightarrow> resolves nl (cc_peers cfg ! i)"
    "ok \<longleftrightarrow> resolves nl (cc_peers cfg ! j)"
    using core_start_peers_inv [OF r(1) n r(4,3) assms(3)] unfolding r(2) by blast
  then show ?thesis using n by (intro exI [of _ j]) (simp add: start_frame_def)
qed

text \<open>Filling the tries does not fail.\<close>

lemma core_add_started:
  assumes "start_inv cv k u"
  shows "fst (core_add_cidrs (u\<lparr>t_checker := c, t_bound_port := p\<rparr>))"
    "length (t_peers (snd (core_add_cidrs (u\<lparr>t_checker := c, t_bound_port := p\<rparr>)))) = length (t_peers u)"
  using assms core_add_cidrs_eq [of "u\<lparr>t_checker := c, t_bound_port := p\<rparr>"] by (simp_all add: start_inv_def)

lemma core_start_result:
  assumes "netlib_ok nl" "load_config nl file = Some cfg"
  shows "(\<exists>t. core_start cv nl hash_key ctx bound cfg = Inr t) \<longleftrightarrow> (\<forall>p \<in> set (cc_peers cfg). resolves nl p) \<and> bound \<noteq> None"
proof -
  obtain ok u where u: "core_start_peers cv nl [0..<length (cc_peers cfg)] (core_ready cv hash_key ctx cfg) = (ok, u)" by fastforce
  obtain j where j: "j < length (cc_peers cfg)" "ok \<longrightarrow> Suc j = length (cc_peers cfg)" "\<forall>i < j. resolves nl (cc_peers cfg ! i)"
    "ok \<longleftrightarrow> resolves nl (cc_peers cfg ! j)" "start_inv cv (Suc j) u"
    using core_start_loop [OF assms u] by blast
  have "ok \<longleftrightarrow> (\<forall>i < length (cc_peers cfg). resolves nl (cc_peers cfg ! i))"
  proof
    assume ok
    then have "length (cc_peers cfg) = Suc j" using j(2) by simp
    then show "\<forall>i < length (cc_peers cfg). resolves nl (cc_peers cfg ! i)" using j(3,4) \<open>ok\<close> by (auto simp: less_Suc_eq)
  qed (use j(1,4) in simp)
  also have "\<dots> \<longleftrightarrow> (\<forall>p \<in> set (cc_peers cfg). resolves nl p)" by (metis in_set_conv_nth)
  finally show ?thesis
    by (cases bound) (simp_all add: core_start_ready u Let_def case_prod_unfold core_add_started [OF j(5)])
qed

lemma core_start_length:
  assumes "netlib_ok nl" "load_config nl file = Some cfg" "core_start cv nl hash_key ctx bound cfg = Inr t"
  shows "length (t_peers t) = length (cc_peers cfg)"
proof -
  obtain ok u where u: "core_start_peers cv nl [0..<length (cc_peers cfg)] (core_ready cv hash_key ctx cfg) = (ok, u)" by fastforce
  obtain j where "length (t_peers u) = length (cc_peers cfg)" "start_inv cv (Suc j) u"
    using core_start_loop [OF assms(1,2) u] by blast
  then show ?thesis
    using assms(3) u core_add_started [of cv "Suc j" u]
    by (auto simp: core_start_ready Let_def case_prod_unfold split: if_splits option.splits)
qed

lemma core_start_failed:
  assumes "netlib_ok nl" "load_config nl file = Some cfg" "core_start cv nl hash_key ctx bound cfg = Inl t"
  shows "\<exists>j < length (cc_peers cfg). t_io t = replicate (length (cc_peers cfg) - Suc j) (Closed 0) \<and>
    (\<forall>i < length (cc_peers cfg). q_remote (t_peers t ! i) \<noteq> None \<longleftrightarrow> i \<le> j) \<and>
    (\<forall>i < j. resolves nl (cc_peers cfg ! i)) \<and> (resolves nl (cc_peers cfg ! j) \<longrightarrow> Suc j = length (cc_peers cfg))"
proof -
  obtain ok u where u: "core_start_peers cv nl [0..<length (cc_peers cfg)] (core_ready cv hash_key ctx cfg) = (ok, u)" by fastforce
  obtain j where j: "j < length (cc_peers cfg)" "ok \<longrightarrow> Suc j = length (cc_peers cfg)" "start_inv cv (Suc j) u"
    "length (t_peers u) = length (cc_peers cfg)" "\<forall>i < j. resolves nl (cc_peers cfg ! i)" "ok \<longleftrightarrow> resolves nl (cc_peers cfg ! j)"
    using core_start_loop [OF assms(1,2) u] by blast
  obtain c where t: "t = core_stop False (u\<lparr>t_checker := c\<rparr>)"
  proof (cases ok)
    case True
    have "\<exists>c. t = core_stop False (u\<lparr>t_checker := c\<rparr>)" using assms(3) u True
      by (cases bound) (auto simp: core_start_ready Let_def case_prod_unfold core_add_started [OF j(3)])
    then show ?thesis using that by blast
  next
    case False
    then have "t = core_stop False (u\<lparr>t_checker := t_checker u\<rparr>)" using assms(3) u by (simp add: core_start_ready)
    then show ?thesis by (rule that)
  qed
  show ?thesis
    using core_stop_io [OF j(3), of c] j by (intro exI [of _ j]) (auto simp: t less_Suc_eq_le)
qed

subsection \<open>Reachable states\<close>

inductive core_reach :: "curve \<Rightarrow> netlib \<Rightarrow> tunnel_ctx \<Rightarrow> bool" for cv nl where
  start: "load_config nl file = Some cfg \<Longrightarrow> core_start cv nl hash_key ctx bound cfg = Inr t \<Longrightarrow> core_reach cv nl t"
| round: "core_reach cv nl t \<Longrightarrow> round_ok envs tun udps \<Longrightarrow> tunnel_round cv now envs tun udps t = Some t' \<Longrightarrow> core_reach cv nl t'"

lemma core_reach_inv: "core_reach cv nl t \<Longrightarrow> netlib_ok nl \<Longrightarrow> tunnel_inv cv t"
  by (induction rule: core_reach.induct) (blast intro: core_start_inv inv_round)+

end
