(* ===== verification/CoreWire.thy ===== *)
theory CoreWire
  imports CoreReach SessionRoam
begin

text \<open>
  What the driver \<^verbatim>\<open>src/wg_core.c\<close> does with datagrams and packets: the packets that reach the utun
  device, the endpoints that move, and the exchange of packets between the driver and a session of \<^verbatim>\<open>src/wg_session.c\<close>.
\<close>

subsection \<open>Opening a datagram\<close>

definition core_owner :: "noise_local \<Rightarrow> nat \<Rightarrow> nat" where
  "core_owner l k = r_arg (remotes l (kp_remote (keypairs l k)))"

text \<open>What \<^verbatim>\<open>wg_decap\<close> makes of an opened plaintext.\<close>

definition decap_result :: "nat \<Rightarrow> nat \<Rightarrow> bytes \<Rightarrow> int \<times> bytes \<times> nat option" where
  "decap_result cap i m =
     (if length m = 0 then (0, [], Some i)
      else if inner_ip_len m < 0 \<or> nat (inner_ip_len m) > cap then (- 1, [], Some i)
      else (inner_ip_len m, take (nat (inner_ip_len m)) m, Some i))"

lemma wg_decap_eq:
  assumes reach: "noise_reach cv l"
  shows "wg_decap env pkt cap l = (x, l') \<Longrightarrow>
    x = (- 1, [], None) \<and> (\<forall>k m. \<not> opens env l pkt k m) \<or>
    (\<exists>k m. opens env l pkt k m \<and> x = decap_result cap (core_owner l k) m \<and> l' = received_state k l)"
proof -
  assume d: "wg_decap env pkt cap l = (x, l')"
  let ?i = "le32dec (drop 4 pkt)"
  obtain ko l1 where lk: "noise_keypair_lookup l ?i = (ko, l1)" by fastforce
  have ref: "l1 = noise_keypair_ref k l" if "ko = Some k" for k
    using keypair_lookup_parts(2) [OF reach, of ?i] lk that by (cases "noise_keypair_lookup l ?i") auto
  show ?thesis
  proof (cases "\<exists>k m. opens env l pkt k m")
    case True
    then obtain k m where o: "opens env l pkt k m" by blast
    then have k: "ko = Some k" using lk by (simp add: opens_def)
    show ?thesis
      using d o ref [OF k] lk k
      by (auto simp: wg_decap_def opens_def WG_AUTHTAG_LEN_def m_devget_def noise_keypair_decrypt_def decrypt_mbuf_buffer Let_def
          case_prod_unfold noise_keypair_remote_def noise_remote_arg_def core_owner_def decap_result_def received_state_def
          split: option.splits if_splits)
  next
    case False
    then show ?thesis
      using d ref lk
      by (auto simp: wg_decap_def opens_def WG_AUTHTAG_LEN_def m_devget_def noise_keypair_decrypt_def decrypt_mbuf_buffer Let_def
          case_prod_unfold split: option.splits if_splits)
  qed
qed

lemma wg_decap_opens:
  assumes "noise_reach cv l" "opens env l pkt k m"
  shows "wg_decap env pkt cap l = (decap_result cap (core_owner l k) m, received_state k l)"
proof -
  obtain x l' where d: "wg_decap env pkt cap l = (x, l')" by fastforce
  obtain k' m' where "opens env l pkt k' m'" "x = decap_result cap (core_owner l k') m'" "l' = received_state k' l"
    using wg_decap_eq [OF assms(1) d] assms(2) by blast
  moreover from this(1) have "k' = k \<and> m' = m" using assms(2) by (simp add: opens_def)
  ultimately show ?thesis using d by simp
qed

lemma rx_data:
  assumes "noise_reach cv (t_local t)" "opens (env.truncate env) (t_local t) pkt k m"
  shows "rx_handle_datagram cv env pkt sa n t =
    (case decap_result WG_BUF_MAX (core_owner (t_local t) k) m of
       (inner, buf, src) \<Rightarrow> Some (core_receive env inner buf src sa n (t\<lparr>t_local := received_state k (t_local t)\<rparr>)))"
  using assms(2) wg_decap_opens [OF assms, of WG_BUF_MAX]
  by (simp add: rx_handle_datagram_def opens_def Let_def)

subsection \<open>What reaches the utun device\<close>

text \<open>The frame of an inner packet.\<close>

definition utun_frame :: "bytes \<Rightarrow> bytes" where
  "utun_frame p = [0, 0, 0, if drop_bit 4 (p ! 0) = 6 then 30 else 2] @ p"

lemma utun_write_frame:
  "utun_write env p t = (if p = [] \<or> \<not> e_utun_write env then (- 1, t) else (0, do_io (Wrote_utun (utun_frame p)) t))"
  by (auto simp: utun_write_def utun_frame_def Let_def Suc_le_eq)

text \<open>The frames that \<^verbatim>\<open>utun_read\<close> takes.\<close>

lemma utun_read_frame: "length p \<le> cap \<Longrightarrow> utun_read (utun_frame p) cap = Some p"
  by (simp add: utun_read_def utun_frame_def)

definition no_write :: "tunnel_ctx \<Rightarrow> tunnel_ctx \<Rightarrow> bool" where
  "no_write t t' \<longleftrightarrow> (\<exists>xs. t_io t' = t_io t @ xs \<and> (\<forall>f. Wrote_utun f \<notin> set xs))"

lemma no_write_same: "t_io t' = t_io t \<Longrightarrow> no_write t t'"
  by (simp add: no_write_def)

lemma no_write_handshakes:
  "tunnel_consume_initiation cv env pkt sa n t = Some (rc, t') \<Longrightarrow> no_write t t'"
  "no_write t (snd (tunnel_consume_response cv env pkt t))" "no_write t (core_handle_cookie env pkt t)"
  by (auto simp: tunnel_consume_initiation_def tunnel_consume_response_def core_handle_cookie_def answer_initiation_def
      Let_def no_write_same split: if_splits option.splits prod.splits)
    (simp_all add: no_write_def)

lemma lookup_inner_src_cong:
  "t_aips_v4 t' = t_aips_v4 t \<Longrightarrow> t_aips_v6 t' = t_aips_v6 t \<Longrightarrow> aips_lookup_inner_src t' p = aips_lookup_inner_src t p"
  by (simp add: aips_lookup_inner_src_def Let_def)

lemma core_receive_io:
  assumes "t_io (core_receive env inner buf src sa n t) = t_io t @ xs" "xs \<noteq> []"
  shows "\<exists>i. src = Some i \<and> 0 < inner \<and> buf \<noteq> [] \<and> aips_lookup_inner_src t buf = Some i \<and> xs = [Wrote_utun (utun_frame buf)]"
  using assms by (auto simp: core_receive_def utun_write_frame split: option.splits if_splits prod.splits)

text \<open>A frame comes from a data message whose inner source is a peer's own.\<close>

lemma core_delivery:
  assumes reach: "noise_reach cv (t_local t)" and rx: "rx_handle_datagram cv env pkt sa n t = Some t'"
    and io: "t_io t' = t_io t @ xs" "Wrote_utun f \<in> set xs"
  shows "\<exists>k m. opens (env.truncate env) (t_local t) pkt k m \<and> 0 < inner_ip_len m \<and>
    xs = [Wrote_utun (utun_frame (take (nat (inner_ip_len m)) m))] \<and>
    aips_lookup_inner_src t (take (nat (inner_ip_len m)) m) = Some (core_owner (t_local t) k)"
proof (cases "\<exists>k m. opens (env.truncate env) (t_local t) pkt k m")
  case True
  then obtain k m where o: "opens (env.truncate env) (t_local t) pkt k m" by blast
  obtain inner buf src where d: "decap_result WG_BUF_MAX (core_owner (t_local t) k) m = (inner, buf, src)"
    by (cases "decap_result WG_BUF_MAX (core_owner (t_local t) k) m")
  have t': "t' = core_receive env inner buf src sa n (t\<lparr>t_local := received_state k (t_local t)\<rparr>)"
    using rx rx_data [OF reach o, of sa n] d by simp
  have "xs \<noteq> []" using io(2) by auto
  then obtain i where "src = Some i" "0 < inner" "aips_lookup_inner_src t buf = Some i" "xs = [Wrote_utun (utun_frame buf)]"
    using core_receive_io [of env inner buf src sa n "t\<lparr>t_local := received_state k (t_local t)\<rparr>" xs] io(1) t'
      lookup_inner_src_cong [of "t\<lparr>t_local := received_state k (t_local t)\<rparr>" t] by auto
  then show ?thesis using o d by (auto simp: decap_result_def split: if_splits)
next
  case False
  have "no_write t t'"
  proof (cases "le32dec pkt = WGS_PKT_DATA \<and> 4 \<le> length pkt")
    case True
    obtain x l where d: "wg_decap (env.truncate env) pkt WG_BUF_MAX (t_local t) = (x, l)" by fastforce
    have "x = (- 1, [], None)" using wg_decap_eq [OF reach d] False by blast
    then have "t' = t\<lparr>t_local := l\<rparr>" using rx True d by (simp add: rx_handle_datagram_def Let_def core_receive_def)
    then show ?thesis by (simp add: no_write_same)
  next
    case False
    then show ?thesis
      using rx no_write_handshakes by (auto simp: rx_handle_datagram_def Let_def no_write_same split: if_splits)
  qed
  then show ?thesis using io by (auto simp: no_write_def)
qed

subsection \<open>Sending a packet\<close>

text \<open>The driver can send to peer \<open>i\<close> under keypair \<open>k\<close>, and the kernel takes the datagram.\<close>

definition core_can_send :: "core_env \<Rightarrow> tunnel_ctx \<Rightarrow> nat \<Rightarrow> nat \<Rightarrow> bool" where
  "core_can_send env t i k \<longleftrightarrow>
     (let l = t_local t; kp = keypairs l k; p = t_peers t ! i in
      i < length (t_peers t) \<and> q_endpoint_len p \<noteq> 0 \<and> (\<exists>r. q_remote p = Some r \<and> r_current (remotes l r) = Some k) \<and>
      kp_can_send kp \<and> kp_refcnt kp \<noteq> 0 \<and> \<not> timer_expired (e_uptime env) (kp_birthdate kp) REJECT_AFTER_TIME 0 \<and>
      kp_nonce_send kp < REJECT_AFTER_MESSAGES \<and> e_mbuf env \<and> e_append env \<and> e_sendto env \<and> e_send env \<noteq> Dropped)"

lemma peer_send_ok:
  assumes "i < length (t_peers t)" "q_endpoint_len (t_peers t ! i) \<noteq> 0" "e_sendto env" "e_send env \<noteq> Dropped"
  shows "fst (peer_send env i buf t) = 0"
proof -
  obtain fd u where u: "peer_tx_socket env i t = (fd, u)" by fastforce
  have "q_endpoint_len (t_peers u ! i) \<noteq> 0"
    using sock_frame_endpoint [OF sock_frame_socket assms(1), of env] assms(2) by (simp add: u)
  then show ?thesis
    using assms(3,4) by (auto simp: peer_send_def u Let_def send_listener_def split: send_result.split)
qed

lemma core_seal_ok:
  assumes k: "kp_can_send (keypairs l k)" "\<not> timer_expired (e_uptime env) (kp_birthdate (keypairs l k)) REJECT_AFTER_TIME 0"
    "kp_nonce_send (keypairs l k) < REJECT_AFTER_MESSAGES"
    and e: "e_mbuf env" "e_append env" and m: "length m \<le> 16352"
  shows "fst (core_seal env k m (noise_keypair_ref k l)) = Some (data_dg (keypairs l k) (kp_nonce_send (keypairs l k)) m)"
proof -
  let ?kp = "keypairs l k"
  obtain cap where c: "chacha20poly1305_encrypt_mbuf True \<lparr>m_data = m, m_cap = length m + 64\<rparr> (kp_nonce_send ?kp) (kp_send ?kp)
      = (OK, \<lparr>m_data = chacha20_poly1305_encrypt m [] (le64enc (kp_nonce_send ?kp)) (kp_send ?kp), m_cap = cap\<rparr>)"
    using encrypt_mbuf_buffer [of True "\<lparr>m_data = m, m_cap = length m + 64\<rparr>" "kp_nonce_send ?kp" "kp_send ?kp"] by auto
  show ?thesis
    using k e m c
    by (simp add: core_seal_def nonce_next_at_def noise_keypair_nonce_next_def noise_keypair_ref_def upd_keypair_def
        m_devget_def noise_keypair_encrypt_def data_dg_def Let_def box.length_seal WG_BUF_MAX_def)
qed

lemma padded_len_16352: "padded_len n \<le> 16352 \<longleftrightarrow> n \<le> 16352"
  by (auto simp: padded_len_def Let_def)

lemma sent_once_cong: "sent_once buf ep xs ys \<Longrightarrow> xs' = xs \<Longrightarrow> ys' = ys \<Longrightarrow> sent_once buf ep xs' ys'"
  by simp

lemma core_encap_sends:
  assumes "core_can_send env t i k" "length plain \<le> 16352"
  shows "\<exists>t'. wg_encap env i plain t = Some (0, t') \<and>
    sent_once (data_dg (keypairs (t_local t) k) (kp_nonce_send (keypairs (t_local t) k)) (padded_packet plain))
      (q_endpoint (t_peers t ! i)) (t_io t) (t_io t')"
proof -
  let ?l = "t_local t"
  let ?dg = "data_dg (keypairs ?l k) (kp_nonce_send (keypairs ?l k)) (padded_packet plain)"
  note cs = assms(1) [unfolded core_can_send_def Let_def]
  obtain r where r: "q_remote (t_peers t ! i) = Some r" "r_current (remotes ?l r) = Some k" using cs by blast
  have len: "length (padded_packet plain) \<le> 16352" using assms(2) by (simp add: padded_len_16352)
  have cur: "noise_keypair_current r (e_uptime env) ?l = (Some k, noise_keypair_ref k ?l)"
    using cs r(2) by (simp add: noise_keypair_current_def acquire_keypair_def Let_def)
  have tr: "e_uptime (env.truncate env) = e_uptime env" "e_mbuf (env.truncate env) = e_mbuf env" "e_append (env.truncate env) = e_append env"
    by (simp_all add: env.defs)
  have "fst (core_seal (env.truncate env) k (padded_packet plain) (noise_keypair_ref k ?l)) = Some ?dg"
    by (rule core_seal_ok) (use cs len in \<open>simp_all add: tr\<close>)
  then obtain l' where sl: "core_seal (env.truncate env) k (padded_packet plain) (noise_keypair_ref k ?l) = (Some ?dg, l')"
    by (metis prod.collapse)
  obtain rc u where u: "peer_send env i ?dg (t\<lparr>t_local := l'\<rparr>) = (rc, u)" by fastforce
  have rc: "rc = 0" using peer_send_ok [of i "t\<lparr>t_local := l'\<rparr>" env ?dg] cs u by simp
  have "sent_once ?dg (q_endpoint (t_peers t ! i)) (t_io t) (t_io u)"
    using peer_send_result [OF _ u] cs rc by simp
  moreover have "\<not> WG_BUF_MAX < padded_len (length plain)" using len by (simp add: WG_BUF_MAX_def)
  ultimately show ?thesis
    using cs r(1) cur sl u rc
    by (simp add: wg_encap_def Let_def padded_packet_def [symmetric])
qed

text \<open>Where \<^verbatim>\<open>tx_handle_packet\<close> sends a packet.\<close>

definition core_lookup_dst :: "tunnel_ctx \<Rightarrow> bytes \<Rightarrow> nat option" where
  "core_lookup_dst t pkt =
     (if drop_bit 4 (pkt ! 0) = 4 \<and> 20 \<le> length pkt then aips_lookup (t_aips_v4 t) (drop 16 pkt)
      else if drop_bit 4 (pkt ! 0) = 6 \<and> 40 \<le> length pkt then aips_lookup (t_aips_v6 t) (drop 24 pkt) else None)"

lemma core_sends:
  assumes "core_lookup_dst t pkt = Some i" "core_can_send env t i k" "length pkt \<le> 16352"
  shows "\<exists>t'. tx_handle_packet now env pkt t = Some t' \<and>
    sent_once (data_dg (keypairs (t_local t) k) (kp_nonce_send (keypairs (t_local t) k)) (padded_packet pkt))
      (q_endpoint (t_peers t ! i)) (t_io t) (t_io t')"
proof -
  obtain u where "wg_encap env i pkt t = Some (0, u)"
    "sent_once (data_dg (keypairs (t_local t) k) (kp_nonce_send (keypairs (t_local t) k)) (padded_packet pkt))
      (q_endpoint (t_peers t ! i)) (t_io t) (t_io u)"
    using core_encap_sends [OF assms(2,3)] by blast
  then show ?thesis using assms(1) by (simp add: tx_handle_packet_def core_lookup_dst_def Let_def)
qed

text \<open>The driver takes what is sent under a matching keypair.\<close>

lemma core_takes:
  assumes reach: "noise_reach cv (t_local t)" and k: "takes (env.truncate env) (t_local t) k kp" and w: "e_utun_write env"
    and p: "inner_ip_len p = int (length p)" "length p \<le> WG_BUF_MAX" "aips_lookup_inner_src t p = Some (core_owner (t_local t) k)"
  shows "\<exists>t'. rx_handle_datagram cv env (data_dg kp nonce (p @ z)) sa n t = Some t' \<and>
    t_io t' = t_io t @ [Wrote_utun (utun_frame p)]"
proof -
  have ne: "p \<noteq> []" using p(1) by (auto simp: inner_ip_len_def)
  have d: "decap_result WG_BUF_MAX i (p @ z) = (int (length p), p, Some i)" for i
    using p(1,2) ne by (simp add: decap_result_def inner_len_padded)
  have src: "aips_lookup_inner_src (t\<lparr>t_local := l\<rparr>) p = aips_lookup_inner_src t p" for l
    by (rule lookup_inner_src_cong) simp_all
  show ?thesis
    using rx_data [OF reach data_dg_opens [OF k], of nonce "p @ z" sa n] p(3) ne w
    by (simp add: d core_receive_def src utun_write_frame)
qed

subsection \<open>Endpoints\<close>

definition same_ends :: "tunnel_ctx \<Rightarrow> tunnel_ctx \<Rightarrow> bool" where
  "same_ends t t' \<longleftrightarrow> length (t_peers t') = length (t_peers t) \<and>
     (\<forall>i. q_endpoint (t_peers t' ! i) = q_endpoint (t_peers t ! i) \<and> q_endpoint_len (t_peers t' ! i) = q_endpoint_len (t_peers t ! i))"

lemma same_ends_simps [simp]: "same_ends t t" "same_ends s (t\<lparr>t_local := l\<rparr>) \<longleftrightarrow> same_ends s t"
  "same_ends s (t\<lparr>t_checker := c\<rparr>) \<longleftrightarrow> same_ends s t"
  by (simp_all add: same_ends_def)

lemma same_ends_upd:
  assumes "same_ends s t" "\<And>p. q_endpoint (f p) = q_endpoint p \<and> q_endpoint_len (f p) = q_endpoint_len p"
  shows "same_ends s (upd_q i f t)"
proof -
  have "q_endpoint (t_peers (upd_q i f t) ! j) = q_endpoint (t_peers t ! j) \<and>
      q_endpoint_len (t_peers (upd_q i f t) ! j) = q_endpoint_len (t_peers t ! j)" for j
    using assms(2) by (cases "i < length (t_peers t) \<and> j = i") (auto simp: upd_q_def nth_list_update list_update_beyond)
  then show ?thesis using assms(1) by (simp add: same_ends_def)
qed

lemma same_ends_ctx: "same_ends s t \<Longrightarrow> t_peers t' = t_peers t \<Longrightarrow> same_ends s t'"
  by (simp add: same_ends_def)

text \<open>Peer \<open>i\<close> moved to \<open>sa\<close>, as \<^verbatim>\<open>peer_set_endpoint\<close> moves it.\<close>

definition moved_to :: "nat \<Rightarrow> sockaddr \<Rightarrow> nat \<Rightarrow> tunnel_ctx \<Rightarrow> tunnel_ctx \<Rightarrow> bool" where
  "moved_to i sa n t t' \<longleftrightarrow> (\<exists>u f. same_ends t u \<and> t_peers t' = t_peers (upd_q i f u) \<and>
     (\<forall>p. q_endpoint (f p) = q_endpoint (peer_set_endpoint sa n p) \<and> q_endpoint_len (f p) = q_endpoint_len (peer_set_endpoint sa n p)))"

lemma peer_set_endpoint_cong:
  "q_endpoint p = q_endpoint q \<Longrightarrow> q_endpoint_len p = q_endpoint_len q \<Longrightarrow>
   q_endpoint (peer_set_endpoint sa n p) = q_endpoint (peer_set_endpoint sa n q) \<and>
   q_endpoint_len (peer_set_endpoint sa n p) = q_endpoint_len (peer_set_endpoint sa n q)"
  by (simp add: peer_set_endpoint_def)

lemma moved_to_peer:
  assumes "moved_to i sa n t t'"
    "q_endpoint (t_peers t' ! j) \<noteq> q_endpoint (t_peers t ! j) \<or> q_endpoint_len (t_peers t' ! j) \<noteq> q_endpoint_len (t_peers t ! j)"
  shows "j = i \<and> i < length (t_peers t) \<and> q_endpoint (t_peers t' ! j) = sa \<and> q_endpoint_len (t_peers t' ! j) = n"
proof -
  obtain u f where u: "same_ends t u" "t_peers t' = t_peers (upd_q i f u)"
    and f: "\<And>p. q_endpoint (f p) = q_endpoint (peer_set_endpoint sa n p) \<and> q_endpoint_len (f p) = q_endpoint_len (peer_set_endpoint sa n p)"
    using assms(1) unfolding moved_to_def by blast
  have ji: "j = i \<and> i < length (t_peers u)"
  proof (rule ccontr)
    assume "\<not> (j = i \<and> i < length (t_peers u))"
    then have "t_peers t' ! j = t_peers u ! j"
      using u(2) by (cases "i < length (t_peers u)") (auto simp: upd_q_def list_update_beyond)
    then show False using assms(2) u(1) by (simp add: same_ends_def)
  qed
  then have e: "q_endpoint (t_peers t' ! j) = q_endpoint (peer_set_endpoint sa n (t_peers u ! j))"
    "q_endpoint_len (t_peers t' ! j) = q_endpoint_len (peer_set_endpoint sa n (t_peers u ! j))"
    using u(2) f by simp_all
  have same: "q_endpoint (t_peers u ! j) = q_endpoint (t_peers t ! j)" "q_endpoint_len (t_peers u ! j) = q_endpoint_len (t_peers t ! j)"
    "length (t_peers u) = length (t_peers t)"
    using u(1) by (simp_all add: same_ends_def)
  have "q_endpoint (t_peers t' ! j) = sa \<and> q_endpoint_len (t_peers t' ! j) = n"
    using assms(2) e same by (auto simp: peer_set_endpoint_def split: if_splits)
  then show ?thesis using ji same(3) by simp
qed

lemma response_ends: "same_ends t (snd (tunnel_consume_response cv env pkt t))"
  by (auto simp: tunnel_consume_response_def Let_def peer_stamp_keypair_def split: option.split prod.split
      intro!: same_ends_upd)

lemma cookie_ends: "same_ends t (core_handle_cookie env pkt t)"
  by (auto simp: core_handle_cookie_def Let_def split: option.split intro!: same_ends_upd)

lemma answer_ends:
  "same_ends s t \<Longrightarrow> answer_initiation env i r msg sa n t = (rc, t') \<Longrightarrow> same_ends s t' \<or> moved_to i sa n s t'"
proof -
  assume s: "same_ends s t" and a: "answer_initiation env i r msg sa n t = (rc, t')"
  obtain cm m where c: "cookie_maker_mac (q_cookie (t_peers t ! i)) (response_pkt msg) (e_uptime env) = (cm, m)" by fastforce
  define u where "u = upd_q i (\<lambda>p. p\<lparr>q_cookie := cm\<rparr>) t"
  have u: "same_ends s u" unfolding u_def by (rule same_ends_upd [OF s]) simp
  show ?thesis
  proof (cases "e_sendto env")
    case False
    then have "t_peers t' = t_peers u" using a by (auto simp: answer_initiation_def c Let_def u_def)
    then show ?thesis using same_ends_ctx [OF u] by simp
  next
    case True
    then have "t_peers t' = t_peers (upd_q i (\<lambda>p. peer_stamp_keypair (e_time env) (e_jitter env) (peer_set_endpoint sa n p)) u)"
      using a by (auto simp: answer_initiation_def c Let_def u_def upd_q_def do_io_def)
    then show ?thesis
      using u unfolding moved_to_def
      by (intro disjI2 exI [of _ u] exI [of _ "\<lambda>p. peer_stamp_keypair (e_time env) (e_jitter env) (peer_set_endpoint sa n p)"])
        (simp add: peer_stamp_keypair_def)
  qed
qed

lemma initiation_ends:
  assumes "le32dec pkt = WGS_PKT_INITIATION" "tunnel_consume_initiation cv env pkt sa n t = Some (rc, t')" "\<not> same_ends t t'"
  shows "\<exists>cc i. t_checker t = Some cc \<and> accepts_initiation cv (env.truncate env) cc (t_local t) pkt sa i \<and> moved_to i sa n t t'"
proof -
  let ?m = "\<lparr>mac1 = take 16 (drop 116 pkt), mac2 = take 16 (drop 132 pkt)\<rparr>"
  obtain cc where cc: "t_checker t = Some cc" "148 \<le> length pkt"
    using assms(2,3) by (auto simp: tunnel_consume_initiation_def split: if_splits option.splits)
  obtain e g cc' where v: "cookie_checker_validate_macs (e_globals env) cc ?m (take 116 pkt) False sa 0 (e_uptime env) [] [] True = (e, g, cc')"
    using prod_cases3 by blast
  have ok: "e = OK" using assms(2,3) cc v by (cases "e = OK") (auto simp: tunnel_consume_initiation_def Let_def not_less)
  obtain e' ro l where ci: "noise_consume_initiation cv (le32dec (drop 4 pkt)) (take 32 (drop 8 pkt)) (take 48 (drop 40 pkt))
        (take 28 (drop 88 pkt)) (e_uptime env) (e_draws env) (t_local t) = Some (e', ro, l)"
    using assms(2) cc v ok by (auto simp: tunnel_consume_initiation_def Let_def not_less split: option.splits)
  obtain r where r: "ro = Some r"
    using assms(2,3) cc v ok ci by (cases ro) (auto simp: tunnel_consume_initiation_def Let_def not_less)
  obtain e2 mo l2 where cr: "noise_create_response cv r (e_uptime env) (e_rnd env) (e_alloc env) l = (e2, mo, l2)"
    using prod_cases3 by blast
  obtain msg where "mo = Some msg" "answer_initiation env (r_arg (remotes l r)) r msg sa n (t\<lparr>t_checker := Some cc', t_local := l2\<rparr>) = (rc, t')"
    using assms(2,3) cc v ok ci r cr
    by (cases mo) (auto simp: tunnel_consume_initiation_def Let_def not_less noise_remote_arg_def)
  moreover have "same_ends t (t\<lparr>t_checker := Some cc', t_local := l2\<rparr>)" by simp
  ultimately have "moved_to (r_arg (remotes l r)) sa n t t'" using answer_ends assms(3) by blast
  moreover have "accepts_initiation cv (env.truncate env) cc (t_local t) pkt sa (r_arg (remotes l r))"
    using assms(1) cc v ok ci r by (simp add: accepts_initiation_def env.defs)
  ultimately show ?thesis using cc by blast
qed

text \<open>A data message moves an endpoint only after the check of the inner source, or as a keepalive.\<close>

lemma receive_ends:
  assumes "core_receive env inner buf src sa n t = t'" "\<not> same_ends t t'"
  shows "\<exists>i. src = Some i \<and> moved_to i sa n t t' \<and> (inner = 0 \<or> 0 < inner \<and> aips_lookup_inner_src t buf = Some i)"
proof -
  obtain i where i: "src = Some i" using assms by (cases src) (auto simp: core_receive_def)
  have drop: "same_ends t (upd_q i (\<lambda>p. p\<lparr>q_rx_dropped_aips := q_rx_dropped_aips p + 1\<rparr>) t)"
    by (rule same_ends_upd) simp_all
  have ct: "inner = 0 \<or> 0 < inner \<and> aips_lookup_inner_src t buf = Some i \<and> fst (utun_write env buf t) = 0"
    using assms i drop by (auto simp: core_receive_def utun_write_frame same_ends_def split: if_splits prod.splits)
  then consider "inner = 0" | "0 < inner" "aips_lookup_inner_src t buf = Some i" "buf \<noteq> []" "e_utun_write env"
    by (auto simp: utun_write_frame split: if_splits)
  then show ?thesis
  proof cases
    case 1
    then have "moved_to i sa n t t'"
      using assms(1) i unfolding moved_to_def
      by (intro exI [of _ t] exI [of _ "\<lambda>p. peer_set_endpoint sa n (p\<lparr>q_rx_pkts := q_rx_pkts p + 1\<rparr>)"])
        (auto simp: core_receive_def peer_set_endpoint_def)
    then show ?thesis using i 1 by simp
  next
    case 2
    let ?f = "\<lambda>p. peer_set_endpoint sa n (p\<lparr>q_rx_pkts := q_rx_pkts p + 1, q_rx_bytes := q_rx_bytes p + of_int inner\<rparr>)"
    have "t_peers t' = t_peers (upd_q i ?f t)"
      using assms(1) i 2 by (auto simp: core_receive_def utun_write_frame upd_q_def do_io_def)
    then have "moved_to i sa n t t'"
      unfolding moved_to_def by (intro exI [of _ t] exI [of _ ?f]) (simp add: peer_set_endpoint_def)
    then show ?thesis using i 2 by simp
  qed
qed

lemma inner_len_nonzero: "inner_ip_len m \<noteq> 0"
  by (simp add: inner_ip_len_def Let_def del: of_nat_unat)

lemma rx_ends:
  assumes reach: "noise_reach cv (t_local t)" and rx: "rx_handle_datagram cv env pkt sa n t = Some t'" and ne: "\<not> same_ends t t'"
  shows "\<exists>i. moved_to i sa n t t' \<and>
    ((\<exists>k m. opens (env.truncate env) (t_local t) pkt k m \<and> core_owner (t_local t) k = i \<and>
        (m = [] \<or> aips_lookup_inner_src t (take (nat (inner_ip_len m)) m) = Some i)) \<or>
     (\<exists>cc. t_checker t = Some cc \<and> accepts_initiation cv (env.truncate env) cc (t_local t) pkt sa i))"
proof (cases "4 \<le> length pkt \<and> le32dec pkt = WGS_PKT_DATA")
  case True
  obtain inner buf src l where d: "wg_decap (env.truncate env) pkt WG_BUF_MAX (t_local t) = ((inner, buf, src), l)"
    by (metis surj_pair)
  let ?t = "t\<lparr>t_local := l\<rparr>"
  have "rx_handle_datagram cv env pkt sa n t = Some (core_receive env inner buf src sa n ?t)"
    using True unfolding rx_handle_datagram_def Let_def d prod.case by simp
  then have t': "core_receive env inner buf src sa n ?t = t'" using rx by simp
  have ne': "\<not> same_ends ?t t'" using ne by (simp add: same_ends_def)
  obtain i where i: "src = Some i" "moved_to i sa n ?t t'" "inner = 0 \<or> 0 < inner \<and> aips_lookup_inner_src ?t buf = Some i"
    using receive_ends [OF t' ne'] by blast
  obtain k m where k: "opens (env.truncate env) (t_local t) pkt k m"
    "(inner, buf, src) = decap_result WG_BUF_MAX (core_owner (t_local t) k) m"
    using wg_decap_eq [OF reach d] i(1) by auto
  have m: "moved_to i sa n t t'" using i(2) by (simp add: moved_to_def same_ends_def)
  have o: "core_owner (t_local t) k = i" using k(2) i(1) by (auto simp: decap_result_def split: if_splits)
  have "aips_lookup_inner_src t (take (nat (inner_ip_len m)) m) = Some i" if ne: "m \<noteq> []"
  proof -
    have "inner \<noteq> 0" using k(2) ne inner_len_nonzero [of m] by (simp add: decap_result_def split: if_splits)
    then have "0 < inner" "aips_lookup_inner_src ?t buf = Some i" using i(3) by simp_all
    moreover have "0 < inner \<longrightarrow> buf = take (nat (inner_ip_len m)) m" using k(2) ne by (simp add: decap_result_def split: if_splits)
    ultimately show ?thesis using lookup_inner_src_cong [of ?t t] by simp
  qed
  then show ?thesis using m o k(1) by blast
next
  case False
  have "le32dec pkt = WGS_PKT_INITIATION \<and> (\<exists>rc. tunnel_consume_initiation cv env pkt sa n t = Some (rc, t'))"
    using rx ne False response_ends [of t cv env pkt] cookie_ends [of t env pkt]
    by (auto simp: rx_handle_datagram_def Let_def split: if_splits)
  then show ?thesis using initiation_ends [OF _ _ ne] by blast
qed

end
