(* ===== verification/CoreProps.thy ===== *)
theory CoreProps
  imports CoreWire
begin

text \<open>
  The properties of the driver \<^verbatim>\<open>src/wg_core.c\<close>: its start, its invariant, authenticity, roaming, and the
  exchange of packets with a session of \<^verbatim>\<open>src/wg_session.c\<close>.
\<close>

subsection \<open>A concrete driver\<close>

definition demo_core_env :: core_env where
  "demo_core_env = \<lparr>e_time = 100, e_uptime = 5, e_wall = (7, 0), e_rnd = replicate 32 5, e_draws = [4, 5], e_alloc = True,
     e_mbuf = True, e_append = True,
     e_globals = \<lparr>ratelimit_v4 = ratelimit_init False (replicate 16 0), ratelimit_v6 = ratelimit_init False (replicate 16 0)\<rparr>,
     e_socket = \<lambda>S. - 1, e_bind = True, e_connect = True, e_send = Sent, e_sendto = True, e_utun_write = True, e_jitter = 0\<rparr>"

lemma demo_core_truncate [simp]: "env.truncate demo_core_env = demo_env"
  by (simp add: env.defs demo_core_env_def demo_env_def)

text \<open>A driver over the noise state \<open>l\<close> in which every IPv4 address belongs to peer \<open>i\<close>.\<close>

definition demo_tunnel :: "noise_local \<Rightarrow> nat \<Rightarrow> tunnel_ctx" where
  "demo_tunnel l i =
     \<lparr>t_local = l, t_checker = None, t_aips_v4 = s_aips_v4 (demo_wire l i), t_aips_v6 = aips_init 128,
      t_peers = replicate (Suc i) (zero_peer_state\<lparr>q_endpoint_len := 16, q_remote := Some 0\<rparr>),
      t_connected_tx = False, t_bound_port = 0, t_io = []\<rparr>"

lemma demo_tunnel_simps [simp]:
  "t_local (demo_tunnel l i) = l" "length (t_peers (demo_tunnel l i)) = Suc i" "t_io (demo_tunnel l i) = []"
  "j \<le> i \<Longrightarrow> t_peers (demo_tunnel l i) ! j = zero_peer_state\<lparr>q_endpoint_len := 16, q_remote := Some 0\<rparr>"
  by (simp_all add: demo_tunnel_def del: replicate_Suc)

lemma demo_tunnel_lookup:
  "core_lookup_dst (demo_tunnel l i) demo_packet = Some i" "aips_lookup_inner_src (demo_tunnel l i) demo_packet = Some i"
  by (simp_all add: core_lookup_dst_def aips_lookup_inner_src_def demo_packet_facts)
    (simp_all add: demo_tunnel_def demo_wire_v4)

lemma demo_core_pair:
  "\<exists>l k a. noise_reach demo_curve l \<and> core_owner l k = r_arg (remotes l 0) \<and>
     takes demo_env l k (keypairs (s_local (demo_sender l k a)) 0)"
  using demo_pair by (simp add: can_receive_def owner_of_def core_owner_def)

lemma demo_core_can_send: "core_can_send demo_core_env (demo_tunnel (s_local (demo_sender l k a)) 0) 0 0"
  by (simp add: core_can_send_def demo_sender_def demo_core_env_def demo_keypair_def Let_def reject_pos timer_expired_def
      REJECT_AFTER_TIME_def SBT_1S_def nstosbt_def)

subsection \<open>Packets in and out\<close>

text \<open>C5: No spoofed packet reaches the utun device. If a datagram makes the driver write a frame, then it is a data
  message that a live keypair of a peer opened (its tag was valid under the receiving key), the
  frame is the packet at the front of the plaintext, cut at its own length, after the four bytes that
  name its family, and the source address of the packet belongs, by longest-prefix match, to the
  peer whose keypair opened it. One datagram writes at most one frame.\<close>

theorem core_delivery_authentic:
  assumes "noise_reach cv (t_local t)" "rx_handle_datagram cv env pkt sa n t = Some t'"
    "t_io t' = t_io t @ xs" "Wrote_utun f \<in> set xs"
  shows "\<exists>k m p. xs = [Wrote_utun f] \<and> f = utun_frame p \<and> int (length p) = inner_ip_len m \<and> p = take (length p) m \<and>
    drop 16 pkt = chacha20_poly1305_encrypt m [] (take 8 (drop 8 pkt)) (kp_recv (keypairs (t_local t) k)) \<and>
    fst (noise_keypair_lookup (t_local t) (le32dec (drop 4 pkt))) = Some k \<and>
    aips_lookup_inner_src t p = Some (r_arg (remotes (t_local t) (kp_remote (keypairs (t_local t) k))))"
proof -
  obtain k m where k: "opens (env.truncate env) (t_local t) pkt k m" "0 < inner_ip_len m"
    "xs = [Wrote_utun (utun_frame (take (nat (inner_ip_len m)) m))]"
    "aips_lookup_inner_src t (take (nat (inner_ip_len m)) m) = Some (core_owner (t_local t) k)"
    using core_delivery [OF assms] by blast
  let ?p = "take (nat (inner_ip_len m)) m"
  have "inner_ip_len m \<le> int (length m)" by (auto simp: inner_ip_len_def Let_def simp del: of_nat_unat)
  then have p: "int (length ?p) = inner_ip_len m" "?p = take (length ?p) m" using k(2) by simp_all
  have "le64enc (le64dec (drop 8 pkt)) = take 8 (drop 8 pkt)"
    using k(1) by (intro le64enc_le64dec_take) (auto simp: opens_def)
  then show ?thesis
    using k p assms(4) by (intro exI [of _ k] exI [of _ m] exI [of _ ?p]) (auto simp: opens_def core_owner_def box.open_iff)
qed

text \<open>What the driver sends under a matching keypair, the session delivers.\<close>

lemma core_to_session:
  assumes a: "core_lookup_dst t pkt = Some i" "core_can_send env t i k"
    and p: "inner_ip_len pkt = int (length pkt)" "length pkt \<le> 16352"
    and b: "noise_reach cv (s_local s)" "can_receive env' s k' (keypairs (t_local t) k)" "cb_deliver_ip (s_cb s)"
      "owner_of s k' < length (s_peers s)" "session_lookup_inner_src s pkt = Some (owner_of s k')"
  shows "\<exists>dg t' s'. tx_handle_packet now env pkt t = Some t' \<and>
    sent_once dg (q_endpoint (t_peers t ! i)) (t_io t) (t_io t') \<and>
    wg_session_handle_udp cv env' dg sa n s = Some (0, s') \<and> s_out s' = s_out s @ [Deliver_ip pkt]"
proof -
  let ?kp = "keypairs (t_local t) k"
  obtain s' where "wgs_receive (owner_of s k') (padded_packet pkt) sa n s = (0, s')" "s_out s' = s_out s @ [Deliver_ip pkt]"
    unfolding padded_packet_def using wgs_receive_ok [OF p(1) b(5,3,4)] by blast
  then show ?thesis
    using core_sends [OF a p(2), of now]
      handle_udp_data [OF b(1) data_dg_ok [OF b(2)], of "kp_nonce_send ?kp" "padded_packet pkt" sa n]
    by fastforce
qed

text \<open>C6: A packet crosses from the driver to a session. When the driver routes an IP packet to a peer it has a usable
  keypair for and the session holds the matching keypair for a peer that owns the inner source, then
  \<^verbatim>\<open>tx_handle_packet\<close> sends exactly one datagram, to the endpoint of the peer, through the connected
  socket or the listener, and \<^verbatim>\<open>wg_session_handle_udp\<close> makes exactly one packet of it, the one that went in.\<close>

theorem driver_to_session:
  assumes a: "core_lookup_dst t pkt = Some i" "core_can_send env t i k"
    and p: "inner_ip_len pkt = int (length pkt)" "length pkt \<le> 16352"
    and b: "noise_reach cv (s_local s)" "can_receive env' s k' (keypairs (t_local t) k)" "cb_deliver_ip (s_cb s)"
      "owner_of s k' < length (s_peers s)" "session_lookup_inner_src s pkt = Some (owner_of s k')"
  shows "\<exists>dg t' s'. tx_handle_packet now env pkt t = Some t' \<and>
    sent_once dg (q_endpoint (t_peers t ! i)) (t_io t) (t_io t') \<and>
    wg_session_handle_udp cv env' dg sa n s = Some (0, s') \<and> s_out s' = s_out s @ [Deliver_ip pkt]"
  by (rule core_to_session [OF assms])

theorem driver_to_session_witness:
  "\<exists>l k a i dg t' s'. tx_handle_packet 7 demo_core_env demo_packet (demo_tunnel (s_local (demo_sender l k a)) 0) = Some t' \<and>
     sent_once dg (q_endpoint zero_peer_state) [] (t_io t') \<and>
     wg_session_handle_udp demo_curve demo_env dg Sa_other 16 (demo_wire l i) = Some (0, s') \<and> s_out s' = [Deliver_ip demo_packet]"
proof -
  obtain l k a where l: "noise_reach demo_curve l"
    "owner_of (demo_wire l (r_arg (remotes l 0))) k = r_arg (remotes l 0)"
    "can_receive demo_env (demo_wire l (r_arg (remotes l 0))) k (keypairs (s_local (demo_sender l k a)) 0)"
    using demo_pair by blast
  have o: "owner_of (demo_wire l (r_arg (remotes l 0))) k < length (s_peers (demo_wire l (r_arg (remotes l 0))))"
    "session_lookup_inner_src (demo_wire l (r_arg (remotes l 0))) demo_packet = Some (owner_of (demo_wire l (r_arg (remotes l 0))) k)"
    unfolding l(2) by (simp_all add: demo_wire_lookup)
  have "\<exists>dg t' s'. tx_handle_packet 7 demo_core_env demo_packet (demo_tunnel (s_local (demo_sender l k a)) 0) = Some t' \<and>
     sent_once dg (q_endpoint (t_peers (demo_tunnel (s_local (demo_sender l k a)) 0) ! 0)) (t_io (demo_tunnel (s_local (demo_sender l k a)) 0)) (t_io t') \<and>
     wg_session_handle_udp demo_curve demo_env dg Sa_other 16 (demo_wire l (r_arg (remotes l 0))) = Some (0, s') \<and>
     s_out s' = s_out (demo_wire l (r_arg (remotes l 0))) @ [Deliver_ip demo_packet]"
    by (rule driver_to_session [OF demo_tunnel_lookup(1) demo_core_can_send])
      (use l(1,3) o in \<open>simp_all add: demo_packet_facts\<close>)
  then show ?thesis by (simp add: del: replicate_Suc) blast
qed

text \<open>C7: A packet crosses from a session to the driver: the datagram that \<^verbatim>\<open>wg_session_handle_tun\<close> makes of an
  IP packet makes \<^verbatim>\<open>rx_handle_datagram\<close> of the driver write exactly one frame, which \<^verbatim>\<open>utun_read\<close> of another driver
  would read as the packet that went in.\<close>

theorem session_to_driver:
  assumes a: "session_lookup_dst s pkt = Some i" "can_send env s i k"
    and p: "inner_ip_len pkt = int (length pkt)" "length pkt \<le> 2000"
    and b: "noise_reach cv (t_local t)" "takes (env.truncate env') (t_local t) k' (keypairs (s_local s) k)" "e_utun_write env'"
      "aips_lookup_inner_src t pkt = Some (core_owner (t_local t) k')"
  shows "\<exists>dg s' t' f. wg_session_handle_tun env pkt s = Some (0, s') \<and>
    s_out s' = s_out s @ [Send_udp dg (p_endpoint (s_peers s ! i)) (p_endpoint_len (s_peers s ! i))] \<and>
    rx_handle_datagram cv env' dg sa n t = Some t' \<and> t_io t' = t_io t @ [Wrote_utun f] \<and> utun_read f WG_BUF_MAX = Some pkt"
proof -
  have len: "length pkt \<le> WG_BUF_MAX" using p(2) by (simp add: WG_BUF_MAX_def)
  have "\<not> length pkt < 1" using a(1) by (auto simp: session_lookup_dst_def)
  then have "wg_session_handle_tun env pkt s = wgs_encap env i pkt s"
    by (simp add: wg_session_handle_tun_def a(1))
  then show ?thesis
    using encap_sends [OF a(2) p(2)] utun_read_frame [OF len]
      core_takes [OF b(1,2,3) p(1) len b(4), of "kp_nonce_send (keypairs (s_local s) k)" _ sa n]
    unfolding padded_packet_def by fastforce
qed

lemma demo_session_to_driver:
  assumes l: "noise_reach demo_curve l" "core_owner l k = r_arg (remotes l 0)"
    "takes demo_env l k (keypairs (s_local (demo_sender l k a)) 0)"
  shows "session_lookup_dst (demo_sender l k a) demo_packet = Some 0"
    "noise_reach demo_curve (t_local (demo_tunnel l (r_arg (remotes l 0))))"
    "takes (env.truncate demo_core_env) (t_local (demo_tunnel l (r_arg (remotes l 0)))) k (keypairs (s_local (demo_sender l k a)) 0)"
    "aips_lookup_inner_src (demo_tunnel l (r_arg (remotes l 0))) demo_packet = Some (core_owner (t_local (demo_tunnel l (r_arg (remotes l 0)))) k)"
  using l by (simp_all add: demo_tunnel_lookup) (simp add: demo_sender_def demo_wire_lookup)

theorem session_to_driver_witness:
  "\<exists>l k a dg s' t' f. wg_session_handle_tun demo_env demo_packet (demo_sender l k a) = Some (0, s') \<and>
     rx_handle_datagram demo_curve demo_core_env dg Sa_other 16 (demo_tunnel l (r_arg (remotes l 0))) = Some t' \<and>
     t_io t' = [Wrote_utun f] \<and> utun_read f WG_BUF_MAX = Some demo_packet"
proof -
  obtain l k a where l: "noise_reach demo_curve l" "core_owner l k = r_arg (remotes l 0)"
    "takes demo_env l k (keypairs (s_local (demo_sender l k a)) 0)"
    using demo_core_pair by blast
  note d = demo_session_to_driver [OF l]
  have "e_utun_write demo_core_env" by (simp add: demo_core_env_def)
  from session_to_driver [OF d(1) demo_can_send _ _ d(2,3) this d(4), of Sa_other 16]
  show ?thesis by (simp add: demo_packet_facts) blast
qed

theorem core_delivery_authentic_witness:
  "\<exists>l k pkt m t' f. rx_handle_datagram demo_curve demo_core_env pkt Sa_other 16 (demo_tunnel l (r_arg (remotes l 0))) = Some t' \<and>
     drop 16 pkt = chacha20_poly1305_encrypt m [] (take 8 (drop 8 pkt)) (kp_recv (keypairs l k)) \<and> t_io t' = [Wrote_utun f]"
proof -
  obtain l k a where l: "noise_reach demo_curve l" "core_owner l k = r_arg (remotes l 0)"
    "takes demo_env l k (keypairs (s_local (demo_sender l k a)) 0)"
    using demo_core_pair by blast
  note d = demo_session_to_driver [OF l]
  have w: "e_utun_write demo_core_env" by (simp add: demo_core_env_def)
  obtain t' where t': "rx_handle_datagram demo_curve demo_core_env (data_dg (keypairs (s_local (demo_sender l k a)) 0) 0 (demo_packet @ []))
      Sa_other 16 (demo_tunnel l (r_arg (remotes l 0))) = Some t'"
    "t_io t' = t_io (demo_tunnel l (r_arg (remotes l 0))) @ [Wrote_utun (utun_frame demo_packet)]"
    using core_takes [OF d(2,3) w _ _ d(4), of 0 "[]" Sa_other 16] by (auto simp: demo_packet_facts WG_BUF_MAX_def)
  let ?dg = "data_dg (keypairs (s_local (demo_sender l k a)) 0) 0 (demo_packet @ [])"
  have "\<exists>k m. drop 16 ?dg = chacha20_poly1305_encrypt m [] (take 8 (drop 8 ?dg)) (kp_recv (keypairs l k))"
    using core_delivery_authentic [OF d(2) t'] by auto
  then show ?thesis using t' by (simp only: demo_tunnel_simps append_Nil) blast
qed

subsection \<open>Endpoints\<close>

text \<open>Roaming of the driver is authenticated. A datagram changes where the driver sends to only for one peer,
  only to the address it came from, and only if it is a data message that a keypair of that very peer opened, empty or with
  an inner source that is the peer's own, or an initiation with a valid first MAC that the noise layer
  accepted from that peer. This is stricter than \<^verbatim>\<open>wg_session.c\<close>, which moves the endpoint before it looks at the
  inner source.\<close>

theorem core_endpoint_roams:
  assumes reach: "noise_reach cv (t_local t)" and rx: "rx_handle_datagram cv env pkt sa n t = Some t'"
    and moved: "q_endpoint (t_peers t' ! j) \<noteq> q_endpoint (t_peers t ! j) \<or> q_endpoint_len (t_peers t' ! j) \<noteq> q_endpoint_len (t_peers t ! j)"
  shows "q_endpoint (t_peers t' ! j) = sa \<and> q_endpoint_len (t_peers t' ! j) = n \<and>
    (\<forall>i. i \<noteq> j \<longrightarrow> q_endpoint (t_peers t' ! i) = q_endpoint (t_peers t ! i) \<and> q_endpoint_len (t_peers t' ! i) = q_endpoint_len (t_peers t ! i)) \<and>
    ((\<exists>k m. opens (env.truncate env) (t_local t) pkt k m \<and> core_owner (t_local t) k = j \<and>
        (m = [] \<or> aips_lookup_inner_src t (take (nat (inner_ip_len m)) m) = Some j)) \<or>
     (\<exists>cc. t_checker t = Some cc \<and> accepts_initiation cv (env.truncate env) cc (t_local t) pkt sa j))"
proof -
  have "\<not> same_ends t t'" using moved by (auto simp: same_ends_def)
  then obtain i where i: "moved_to i sa n t t'" "(\<exists>k m. opens (env.truncate env) (t_local t) pkt k m \<and> core_owner (t_local t) k = i \<and>
        (m = [] \<or> aips_lookup_inner_src t (take (nat (inner_ip_len m)) m) = Some i)) \<or>
     (\<exists>cc. t_checker t = Some cc \<and> accepts_initiation cv (env.truncate env) cc (t_local t) pkt sa i)"
    using rx_ends [OF reach rx] by blast
  have "j = i" using moved_to_peer [OF i(1) moved] by simp
  then show ?thesis using i moved_to_peer [OF i(1)] moved by blast
qed

theorem core_endpoint_roams_witness:
  "\<exists>l i dg t'. rx_handle_datagram demo_curve demo_core_env dg (Sin [10, 0, 0, 9] [1, 2]) 16 (demo_tunnel l i) = Some t' \<and>
     q_endpoint (t_peers t' ! i) = Sin [10, 0, 0, 9] [1, 2] \<and> q_endpoint_len (t_peers t' ! i) = 16"
proof -
  let ?sa = "Sin [10, 0, 0, 9] [1, 2]"
  obtain l k a where l: "noise_reach demo_curve l" "core_owner l k = r_arg (remotes l 0)"
    "takes demo_env l k (keypairs (s_local (demo_sender l k a)) 0)"
    using demo_core_pair by blast
  let ?i = "r_arg (remotes l 0)" and ?dg = "data_dg (keypairs (s_local (demo_sender l k a)) 0) 0 []"
  let ?t = "demo_tunnel l ?i"
  have o: "opens (env.truncate demo_core_env) (t_local ?t) ?dg k []" using data_dg_opens [OF l(3)] by simp
  define t' where "t' = core_receive demo_core_env 0 [] (Some ?i) ?sa 16 (?t\<lparr>t_local := received_state k l\<rparr>)"
  have rx: "rx_handle_datagram demo_curve demo_core_env ?dg ?sa 16 ?t = Some t'"
    using rx_data [OF _ o, of demo_curve ?sa 16] l(1,2) by (simp add: decap_result_def t'_def)
  have ne: "q_endpoint (t_peers t' ! ?i) \<noteq> q_endpoint (t_peers ?t ! ?i)"
    by (simp add: t'_def core_receive_def peer_set_endpoint_def sockaddr_same_def) (simp add: zero_peer_state_def)
  have "noise_reach demo_curve (t_local ?t)" using l(1) by simp
  from core_endpoint_roams [OF this rx disjI1 [OF ne]] show ?thesis using rx by blast
qed

subsection \<open>Replayed data\<close>

text \<open>The driver does not check data datagrams for replay: nothing in \<^verbatim>\<open>wg_core.c\<close> calls
  \<^verbatim>\<open>noise_keypair_nonce_check\<close>. Whenever a datagram made the driver write a frame, the same datagram, handled once
  more in the resulting state, writes the same frame again.\<close>

theorem core_replay_written_again:
  assumes "noise_reach cv (t_local t)" "rx_handle_datagram cv env pkt sa n t = Some t'" "t_io t' = t_io t @ [Wrote_utun f]"
  shows "\<exists>t''. rx_handle_datagram cv env pkt sa n t' = Some t'' \<and> t_io t'' = t_io t' @ [Wrote_utun f]"
proof -
  obtain k m where ok: "opens (env.truncate env) (t_local t) pkt k m" using core_delivery [OF assms] by auto
  obtain inner buf src where d: "decap_result WG_BUF_MAX (core_owner (t_local t) k) m = (inner, buf, src)"
    by (metis surj_pair)
  let ?t = "t\<lparr>t_local := received_state k (t_local t)\<rparr>"
  have t': "t' = core_receive env inner buf src sa n ?t"
    using rx_data [OF assms(1) ok, of sa n] assms(2) d by simp
  have i: "src = Some (core_owner (t_local t) k)" using d by (auto simp: decap_result_def split: if_splits)
  have w: "0 < inner" "buf \<noteq> []" "aips_lookup_inner_src ?t buf = src" "f = utun_frame buf" "e_utun_write env"
    using core_receive_io [of env inner buf src sa n ?t "[Wrote_utun f]"] assms(3)
    by (auto simp: t' core_receive_def utun_write_frame split: if_splits option.splits)
  have f: "t_local t' = received_state k (t_local t)" "t_aips_v4 t' = t_aips_v4 t" "t_aips_v6 t' = t_aips_v6 t"
    by (auto simp: t' core_receive_def utun_write_frame split: option.split)
  have o: "core_owner (t_local t') k = core_owner (t_local t) k" by (simp add: f(1) core_owner_def)
  have again: "opens (env.truncate env) (t_local t') pkt k m" "noise_reach cv (t_local t')"
    using opens_again [OF assms(1) ok] by (simp_all add: f(1))
  have "aips_lookup_inner_src (t'\<lparr>t_local := l\<rparr>) buf = src" for l
    using lookup_inner_src_cong [of "t'\<lparr>t_local := l\<rparr>" ?t buf] w(3) f(2,3) by simp
  then show ?thesis
    using rx_data [OF again(2,1), of sa n] w(1,2,4,5) i
    by (simp add: o d core_receive_def utun_write_frame)
qed

theorem core_replay_written_again_witness:
  "\<exists>l i dg t' t'' f. rx_handle_datagram demo_curve demo_core_env dg Sa_other 16 (demo_tunnel l i) = Some t' \<and>
     rx_handle_datagram demo_curve demo_core_env dg Sa_other 16 t' = Some t'' \<and> t_io t'' = [Wrote_utun f, Wrote_utun f]"
proof -
  obtain l k a where l: "noise_reach demo_curve l" "core_owner l k = r_arg (remotes l 0)"
    "takes demo_env l k (keypairs (s_local (demo_sender l k a)) 0)"
    using demo_core_pair by blast
  note d = demo_session_to_driver [OF l]
  have w: "e_utun_write demo_core_env" by (simp add: demo_core_env_def)
  obtain t' where t': "rx_handle_datagram demo_curve demo_core_env (data_dg (keypairs (s_local (demo_sender l k a)) 0) 0 (demo_packet @ []))
      Sa_other 16 (demo_tunnel l (r_arg (remotes l 0))) = Some t'"
    "t_io t' = t_io (demo_tunnel l (r_arg (remotes l 0))) @ [Wrote_utun (utun_frame demo_packet)]"
    using core_takes [OF d(2,3) w _ _ d(4), of 0 "[]" Sa_other 16] by (auto simp: demo_packet_facts WG_BUF_MAX_def)
  from core_replay_written_again [OF d(2) t'] t' show ?thesis by fastforce
qed

subsection \<open>Start and invariant\<close>

text \<open>Once \<^verbatim>\<open>load_config\<close> accepted the file, the start of the tunnel succeeds exactly when the socket of the
  listener can be bound and the endpoint of every peer that has one resolves: unlike
  \<^verbatim>\<open>wg_session_create\<close>, one unknown host keeps all peers from starting. The tables of the noise layer
  cannot overflow.\<close>

theorem core_start_iff:
  assumes "netlib_ok nl" "load_config nl file = Some cfg"
  shows "(\<exists>t. core_start cv nl hash_key ctx bound cfg = Inr t) \<longleftrightarrow>
    bound \<noteq> None \<and> (\<forall>p \<in> set (cc_peers cfg). q_has_endpoint p \<longrightarrow>
      resolve_endpoint nl (q_endpoint_host p) (q_endpoint_port p) \<noteq> None)"
  using core_start_result [OF assms, of cv hash_key ctx bound] by (auto simp: resolves_def)

lemma demo_file_no_endpoint:
  "\<forall>cfg. load_config demo_netlib (Some demo_file) = Some cfg \<longrightarrow> list_all (\<lambda>p. \<not> q_has_endpoint p) (cc_peers cfg)"
proof -
  have "list_all (\<lambda>p. \<not> q_has_endpoint p) (cc_peers (the (load_config demo_netlib (Some demo_file))))" by code_simp
  then show ?thesis by auto
qed

lemma demo_tunnel_starts:
  "\<exists>cfg t. load_config demo_netlib (Some demo_file) = Some cfg \<and>
     core_start demo_curve demo_netlib (replicate 16 0) True (Some 9) cfg = Inr t"
proof -
  obtain cfg where c: "load_config demo_netlib (Some demo_file) = Some cfg" using demo_file_loads by blast
  then have "\<forall>p \<in> set (cc_peers cfg). resolves demo_netlib p"
    using demo_file_no_endpoint by (auto simp: resolves_def list_all_iff)
  then show ?thesis using core_start_result [OF demo_netlib_ok c] c by blast
qed

theorem core_start_iff_witness:
  "\<exists>cfg. load_config demo_netlib (Some demo_file) = Some cfg \<and>
     \<not> (\<exists>t. core_start demo_curve demo_netlib (replicate 16 0) True None cfg = Inr t)"
proof -
  obtain cfg where c: "load_config demo_netlib (Some demo_file) = Some cfg" using demo_file_loads by blast
  then show ?thesis using core_start_iff [OF demo_netlib_ok c, of demo_curve "replicate 16 0" True None] by blast
qed

text \<open>C16: The invariant of the driver: in every state that the loop of \<^verbatim>\<open>run_tunnel\<close> reaches from an accepted
  configuration, whatever arrives and whatever the system calls return, the noise state is
  consistent, every peer is well formed and has a remote that carries its key and points back to it, the
  tries hold exactly the configured AllowedIPs, and the connected sockets are in order: no descriptor was sent on
  after it was closed, or closed twice, the open ones are those of the peers, each of one peer.\<close>

theorem tunnel_invariant:
  assumes "netlib_ok nl" "core_reach cv nl t"
  shows "noise_reach cv (t_local t) \<and> (\<forall>p \<in> set (t_peers t). peer_state_ok p \<and> q_remote p \<noteq> None) \<and>
    core_links t \<and> core_routing t \<and> fd_run (t_io t) {} = Some (peer_fds t) \<and> fds_disjoint {..<length (t_peers t)} t"
  using core_reach_inv [OF assms(2,1)] by (simp add: tunnel_inv_def fds_ok_def)

text \<open>A round in which nothing arrives.\<close>

theorem tunnel_invariant_witness:
  "\<exists>t. core_reach demo_curve demo_netlib t \<and> t_peers t \<noteq> [] \<and> fd_run (t_io t) {} = Some (peer_fds t)"
proof -
  obtain cfg t where c: "load_config demo_netlib (Some demo_file) = Some cfg"
    and t: "core_start demo_curve demo_netlib (replicate 16 0) True (Some 9) cfg = Inr t"
    using demo_tunnel_starts by blast
  have r: "core_reach demo_curve demo_netlib t" by (rule core_reach.start [OF c t])
  have "t_peers t \<noteq> []" using core_start_length [OF demo_netlib_ok c t] load_config_parts [OF demo_netlib_ok c] by auto
  then show ?thesis using tunnel_invariant [OF demo_netlib_ok r] r by blast
qed

subsection \<open>A failed start\<close>

text \<open>A failed start closes descriptor 0. \<^verbatim>\<open>main\<close> gives a peer its \<^verbatim>\<open>tx_fd = -1\<close> only in the loop that sets
  the peers up, and leaves that loop at the first endpoint that does not resolve; the code at \<^verbatim>\<open>out\<close> closes the
  descriptor of every peer, so each peer after that one closes descriptor 0, the zero of \<^verbatim>\<open>memset\<close>: standard
  input.\<close>

theorem failed_start_closes_stdin:
  assumes "netlib_ok nl" "load_config nl file = Some cfg" "core_start cv nl hash_key ctx bound cfg = Inl t"
  shows "\<exists>j < length (cc_peers cfg). t_io t = replicate (length (cc_peers cfg) - Suc j) (Closed 0) \<and>
    (\<forall>i < length (cc_peers cfg). q_remote (t_peers t ! i) \<noteq> None \<longleftrightarrow> i \<le> j) \<and>
    (\<forall>i < j. resolves nl (cc_peers cfg ! i)) \<and> (resolves nl (cc_peers cfg ! j) \<longrightarrow> Suc j = length (cc_peers cfg))"
  using core_start_failed [OF assms] .

text \<open>A file with two peers, the first of them at a host that is not known.\<close>

definition demo_file2 :: string where
  "demo_file2 = ''[Interface]'' @ [CHR 0x0A] @ ''PrivateKey = '' @ replicate 43 (CHR ''A'') @ ''='' @ [CHR 0x0A] @
     ''[Peer]'' @ [CHR 0x0A] @ ''PublicKey = '' @ replicate 42 (CHR ''A'') @ ''E='' @ [CHR 0x0A] @
     ''Endpoint = x:1'' @ [CHR 0x0A] @
     ''[Peer]'' @ [CHR 0x0A] @ ''PublicKey = '' @ replicate 42 (CHR ''A'') @ ''I='' @ [CHR 0x0A]"

lemma demo_file2_loads:
  "case load_config demo_netlib (Some demo_file2) of
     None \<Rightarrow> False | Some cfg \<Rightarrow> length (cc_peers cfg) = 2 \<and> \<not> resolves demo_netlib (cc_peers cfg ! 0)"
  unfolding resolves_def by code_simp

theorem failed_start_closes_stdin_witness:
  "\<exists>cfg t. load_config demo_netlib (Some demo_file2) = Some cfg \<and>
     core_start demo_curve demo_netlib (replicate 16 0) True (Some 9) cfg = Inl t \<and> t_io t = [Closed 0]"
proof -
  obtain cfg where c: "load_config demo_netlib (Some demo_file2) = Some cfg" "length (cc_peers cfg) = 2"
    "\<not> resolves demo_netlib (cc_peers cfg ! 0)"
    using demo_file2_loads by (auto split: option.splits)
  have "\<not> (\<exists>t. core_start demo_curve demo_netlib (replicate 16 0) True (Some 9) cfg = Inr t)"
    using core_start_result [OF demo_netlib_ok c(1)] c(2,3) by (metis nth_mem zero_less_numeral)
  then obtain t where t: "core_start demo_curve demo_netlib (replicate 16 0) True (Some 9) cfg = Inl t"
    by (cases "core_start demo_curve demo_netlib (replicate 16 0) True (Some 9) cfg") auto
  obtain j where "j < 2" "t_io t = replicate (2 - Suc j) (Closed 0)" "\<forall>i < j. resolves demo_netlib (cc_peers cfg ! i)"
    using failed_start_closes_stdin [OF demo_netlib_ok c(1) t] c(2) by auto
  then have "t_io t = [Closed 0]" using c(3) by (cases j) auto
  then show ?thesis using c(1) t by blast
qed

end
