(* ===== verification/Interop.thy ===== *)
theory Interop
  imports CoreProps
begin

text \<open>
  The two drivers together: \<^verbatim>\<open>src/wg_core.c\<close> opens a handshake with a session of \<^verbatim>\<open>src/wg_session.c\<close>, the session
  answers, and packets cross. The messages are the datagrams that one side writes and the other reads.
\<close>

subsection \<open>Messages on the wire\<close>

text \<open>The sizes of the keys that the curve makes.\<close>

definition curve_sizes :: "curve \<Rightarrow> bool" where
  "curve_sizes cv \<longleftrightarrow> (\<forall>b. length b = 32 \<longrightarrow> length (c_clamp cv b) = 32 \<and> length (fst (c_pub cv b)) = 32)"

lemma public_size:
  "curve_sizes cv \<Longrightarrow> length rnd = 32 \<Longrightarrow> c_pub cv (generate_secret cv rnd) = (ue, ok) \<Longrightarrow> length ue = 32"
  by (metis curve_sizes_def fst_conv generate_secret_def)

lemma write_initiation_sizes:
  "write_initiation cv r time rnd l = (Some (ue, es, ets), l1) \<Longrightarrow>
   length es = length (l_public l) + 16 \<and> (\<exists>ok. c_pub cv (generate_secret cv rnd) = (ue, ok))"
  by (auto simp: write_initiation_def Let_def case_prod_unfold prod_eq_iff split: if_splits option.splits)

lemma write_response_sizes:
  "write_response cv r rnd l = (Some (ue, en), l1) \<Longrightarrow> length en = 16 \<and> (\<exists>ok. c_pub cv (generate_secret cv rnd) = (ue, ok))"
  by (auto simp: write_response_def Let_def case_prod_unfold prod_eq_iff split: if_splits option.splits)

lemma initiation_dg_fields:
  assumes "length (in_ue msg) = 32" "length (in_es msg) = 48" "length (in_ets msg) = 28" "length a = 16" "length b = 16"
  defines "dg \<equiv> initiation_pkt msg @ a @ b"
  shows "length dg = 148" "le32dec dg = WGS_PKT_INITIATION" "le32dec (drop 4 dg) = in_s_idx msg" "take 32 (drop 8 dg) = in_ue msg"
    "take 48 (drop 40 dg) = in_es msg" "take 28 (drop 88 dg) = in_ets msg" "take 16 (drop 116 dg) = a" "take 16 (drop 132 dg) = b"
    "take 116 dg = initiation_pkt msg"
  by (simp_all add: dg_def initiation_pkt_def assms(1-5))

lemma response_dg_fields:
  assumes "length (rs_ue msg) = 32" "length (rs_en msg) = 16" "length a = 16" "length b = 16"
  defines "dg \<equiv> response_pkt msg @ a @ b"
  shows "length dg = 92" "le32dec dg = WGS_PKT_RESPONSE" "le32dec (drop 4 dg) = rs_s_idx msg" "le32dec (drop 8 dg) = rs_r_idx msg"
    "take 32 (drop 12 dg) = rs_ue msg" "take 16 (drop 44 dg) = rs_en msg"
  by (simp_all add: dg_def response_pkt_def assms(1-4))

text \<open>A checker accepts the first MAC of a maker for its key.\<close>

lemma mac_lengths:
  assumes "maker_ok cm" "cookie_maker_mac cm buf now = (cm', m)"
  shows "length (mac1 m) = 16" "length (mac2 m) = 16"
  using cookie_maker_mac_spec [OF assms] by simp_all

lemma validate_own_mac:
  assumes "maker_for K cm" "checker_for K cc" "cookie_maker_mac cm buf now = (cm', m)"
  shows "cookie_checker_validate_macs g cc \<lparr>mac1 = mac1 m, mac2 = x\<rparr> buf False sa v t r1 r2 a = (OK, g, cc)"
proof -
  have "mac1 m = spec_blake2s 16 (cm_mac1_key cm) buf"
    using cookie_maker_mac_spec [OF _ assms(3)] assms(1) by (simp add: maker_for_def)
  then show ?thesis
    using assms(1,2)
    by (simp add: cookie_checker_validate_macs_def maker_for_def checker_for_def checker_ok_def macs_mac1_spec timingsafe_bcmp_neq)
qed

subsection \<open>The initiation of the driver\<close>

lemma sent_once_unique:
  assumes "sent_once a ep xs ys" "sent_once b ep' xs ys"
  shows "a = b"
  using assms by (auto simp: sent_once_def)

text \<open>The driver has sent the initiation \<open>msg\<close> with the MACs \<open>m\<close> and waits for its answer.\<close>

lemma initiation_leaves:
  assumes "i < length (t_peers t)" "q_remote (t_peers t ! i) = Some r" "tunnel_send_initiation cv now env i t = Some (0, t1)"
  obtains msg m cm l1 where
    "noise_create_initiation cv r (e_uptime env) (e_wall env) (e_rnd env) (e_draws env) (t_local t) = Some (OK, Some msg, l1)"
    "cookie_maker_mac (q_cookie (t_peers t ! i)) (initiation_pkt msg) (e_uptime env) = (cm, m)"
    "sent_once (initiation_pkt msg @ mac1 m @ mac2 m) (q_endpoint (t_peers t ! i)) (t_io t) (t_io t1)"
    "t_local t1 = l1" "t_aips_v4 t1 = t_aips_v4 t" "t_aips_v6 t1 = t_aips_v6 t" "length (t_peers t1) = length (t_peers t)"
    "q_hs_pending (t_peers t1 ! i)" "q_hs_local_idx (t_peers t1 ! i) = in_s_idx msg" "q_remote (t_peers t1 ! i) = Some r"
    "q_endpoint_len (t_peers t1 ! i) = q_endpoint_len (t_peers t ! i)" "q_endpoint_len (t_peers t ! i) \<noteq> 0"
    "q_endpoint (t_peers t1 ! i) = q_endpoint (t_peers t ! i)" "\<And>j. j \<noteq> i \<Longrightarrow> t_peers t1 ! j = t_peers t ! j"
proof -
  have len: "q_endpoint_len (t_peers t ! i) \<noteq> 0"
    by (rule notI) (use assms(3) in \<open>simp add: tunnel_send_initiation_def send_initiation_def\<close>)
  obtain e msg l1 where c: "noise_create_initiation cv r (e_uptime env) (e_wall env) (e_rnd env) (e_draws env) (t_local t) = Some (e, Some msg, l1)"
    using assms(2,3) len
    by (auto simp: tunnel_send_initiation_def send_initiation_def Let_def split: if_splits option.splits prod.splits)
  have e: "e = OK" using c by (auto simp: noise_create_initiation_def Let_def split: if_splits option.splits prod.splits)
  obtain cm m where m: "cookie_maker_mac (q_cookie (t_peers t ! i)) (initiation_pkt msg) (e_uptime env) = (cm, m)" by fastforce
  define u where "u = upd_q i (\<lambda>p. p\<lparr>q_cookie := cm\<rparr>) (t\<lparr>t_local := l1\<rparr>)"
  obtain rc v where v: "peer_send env i (initiation_pkt msg @ mac1 m @ mac2 m) u = (rc, v)" by fastforce
  have u: "length (t_peers u) = length (t_peers t)" "t_io u = t_io t" "t_peers u ! i = (t_peers t ! i)\<lparr>q_cookie := cm\<rparr>"
    "\<And>j. j \<noteq> i \<Longrightarrow> t_peers u ! j = t_peers t ! j" "t_local u = l1" "t_aips_v4 u = t_aips_v4 t" "t_aips_v6 u = t_aips_v6 t"
    using assms(1) by (simp_all add: u_def)
  have t1: "rc = 0 \<and> t1 = upd_q i (\<lambda>p. p\<lparr>q_hs_pending := True, q_hs_sent_at := now, q_hs_local_idx := in_s_idx msg,
      q_hs_attempts := q_hs_attempts p + 1, q_last_authd_tx := now\<rparr>) v"
    using assms(2,3) len v
    by (auto simp: tunnel_send_initiation_def send_initiation_def Let_def c m u_def split: if_splits)
  have f: "sock_frame i u v" using sock_frame_send [of i u env "initiation_pkt msg @ mac1 m @ mac2 m"] by (simp add: v)
  have i: "i < length (t_peers u)" "i < length (t_peers v)" using assms(1) u(1) f by (simp_all add: sock_frame_def)
  have tx: "tx_only (t_peers u ! i) (t_peers v ! i)" using f i(1) by (simp add: sock_frame_def)
  then have q: "q_remote (t_peers v ! i) = Some r" "q_endpoint_len (t_peers v ! i) = q_endpoint_len (t_peers t ! i)"
    "q_endpoint (t_peers v ! i) = q_endpoint (t_peers t ! i)"
    using assms(2) sock_frame_endpoint [OF f i(1)] u(3)
    by (cases "t_peers u ! i"; cases "t_peers v ! i"; auto simp: tx_only_def)+
  have "sent_once (initiation_pkt msg @ mac1 m @ mac2 m) (q_endpoint (t_peers t ! i)) (t_io t) (t_io v)"
    using peer_send_result [OF i(1) v] t1 u(2,3) by simp
  then show ?thesis
    using that [OF c [unfolded e] m] t1 f i(2) q len u by (simp add: sock_frame_def)
qed

subsection \<open>The answer of the session\<close>

lemma consume_initiation_found:
  "read_initiation cv ue es ets l = (Some r, Some (ts, hs), l1) \<Longrightarrow>
   noise_consume_initiation cv s_idx ue es ets now draws l = Some (e, Some r', l') \<Longrightarrow> e = OK \<and> r' = r"
  by (auto simp: noise_consume_initiation_def Let_def split: if_splits option.splits)

lemma create_response_some:
  "noise_create_response cv r now rnd a l = (e, Some msg, l') \<Longrightarrow> e = OK"
  by (auto simp: noise_create_response_def Let_def split: if_splits option.splits prod.splits)

text \<open>The response \<open>msg\<close> for remote \<open>r\<close> leaves, and what stays of the session.\<close>

lemma response_sent_result:
  assumes "cb_send_udp (s_cb s)" "maker_ok (p_cookie (s_peers s ! i))"
  shows "\<exists>(m :: cookie_macs) xs. length (mac1 m) = 16 \<and> length (mac2 m) = 16 \<and>
    s_out (response_sent env i r msg sa n s) = s_out s @ Send_udp (response_pkt msg @ mac1 m @ mac2 m) sa n # xs \<and>
    (\<forall>x \<in> set xs. \<exists>l. x = Log_line l) \<and>
    s_local (response_sent env i r msg sa n s) = noise_remote_put r (s_local s) \<and> s_cb (response_sent env i r msg sa n s) = s_cb s \<and>
    s_aips_v4 (response_sent env i r msg sa n s) = s_aips_v4 s \<and> s_aips_v6 (response_sent env i r msg sa n s) = s_aips_v6 s"
proof -
  obtain cm m where m: "cookie_maker_mac (p_cookie (s_peers s ! i)) (response_pkt msg) (e_uptime env) = (cm, m)" by fastforce
  show ?thesis
    using mac_lengths [OF assms(2) m] assms(1) m
    by (intro exI [of _ m] exI [of _ "if cb_log_line (s_cb s) then [Log_line (take 511 ''[hs] responded to incoming initiation'')] else []"])
      (simp add: response_sent_def upd_peer_def send_udp_def wgs_log_def Let_def)
qed

lemma session_answers:
  assumes cv: "curve_commutes cv" and look: "fst (noise_remote_lookup (s_local s) (l_public li)) = Some q"
    and conf: "configured_for cv li r (l_public (s_local s))" "configured_for cv (s_local s) q (l_public li)"
    and m1: "noise_create_initiation cv r t1 time rnd draws li = Some (OK, Some msg, li1)"
    and mac: "maker_for K cm" "checker_for K (s_checker s)" "cookie_maker_mac cm (initiation_pkt msg) t1' = (cm', m)"
    and sz: "length (in_ue msg) = 32" "length (in_es msg) = 48" "length (in_ets msg) = 28"
    and udp: "wg_session_handle_udp cv env (initiation_pkt msg @ mac1 m @ mac2 m) sa n s = Some (0, s1)"
  shows "\<exists>lr1 lr2 msg2.
    noise_consume_initiation cv (in_s_idx msg) (in_ue msg) (in_es msg) (in_ets msg) (e_uptime env) (e_draws env) (s_local s)
      = Some (OK, Some q, lr1) \<and>
    noise_create_response cv q (e_uptime env) (e_rnd env) (e_alloc env) lr1 = (OK, Some msg2, lr2) \<and>
    s1 = response_sent env (noise_remote_arg lr1 q) q msg2 sa n (s\<lparr>s_local := lr2\<rparr>)"
proof -
  have ml: "length (mac1 m) = 16" "length (mac2 m) = 16" using mac_lengths [OF _ mac(3)] mac(1) by (simp_all add: maker_for_def)
  note f = initiation_dg_fields [OF sz ml]
  obtain w1 where w: "write_initiation cv r time rnd li = (Some (in_ue msg, in_es msg, in_ets msg), w1)"
    using create_initiation_ok [OF m1] by blast
  obtain lr0 where lk: "noise_remote_lookup (s_local s) (l_public li) = (Some q, lr0)" using look by (metis prod.collapse)
  obtain ts hs where rd: "read_initiation cv (in_ue msg) (in_es msg) (in_ets msg) (s_local s) = (Some q, Some (ts, hs), lr0)"
    using write_read_initiation [OF cv conf w lk] by blast
  have h: "wgs_handle_initiation cv env (initiation_pkt msg @ mac1 m @ mac2 m) sa n s = Some (0, s1)"
    using udp f(1,2) by (simp add: wg_session_handle_udp_def Let_def WGS_PKT_INITIATION_def WGS_PKT_DATA_def)
  let ?c = "noise_consume_initiation cv (in_s_idx msg) (in_ue msg) (in_es msg) (in_ets msg) (e_uptime env) (e_draws env) (s_local s)"
  have v: "cookie_checker_validate_macs (e_globals env) (s_checker s) \<lparr>mac1 = mac1 m, mac2 = mac2 m\<rparr> (initiation_pkt msg) False sa 0
      (e_uptime env) [] [] True = (OK, e_globals env, s_checker s)"
    by (rule validate_own_mac [OF mac])
  have s: "s\<lparr>s_checker := s_checker s\<rparr> = s" by simp
  note h = h [unfolded wgs_handle_initiation_def f Let_def v prod.case s]
  obtain lr1 where c: "?c = Some (OK, Some q, lr1)"
    using h consume_initiation_found [OF rd] by (auto split: option.splits prod.splits)
  obtain msg2 lr2 where "noise_create_response cv q (e_uptime env) (e_rnd env) (e_alloc env) lr1 = (OK, Some msg2, lr2)"
    using h c create_response_some [of cv q "e_uptime env" "e_rnd env" "e_alloc env" lr1] by (auto split: option.splits prod.splits)
  then show ?thesis using h c by (intro exI [of _ lr1] exI [of _ lr2] exI [of _ msg2]) simp
qed

subsection \<open>The driver takes the answer\<close>

lemma find_pending:
  assumes "i < length (t_peers t)" "q_hs_pending (t_peers t ! i)" "q_hs_local_idx (t_peers t ! i) = x"
    "\<forall>k < i. q_hs_pending (t_peers t ! k) \<longrightarrow> q_hs_local_idx (t_peers t ! k) \<noteq> x"
  shows "find_peer_pending_response t x = Some i"
  unfolding find_peer_pending_response_def find_Some_iff
  by (intro exI [of _ i]) (use assms in auto)

lemma response_installs:
  assumes "noise_consume_response cv (rs_s_idx msg) (rs_r_idx msg) (rs_ue msg) (rs_en msg) (e_uptime env) (e_alloc env) (t_local t)
      = (OK, Some r, l2)"
    and i: "i < length (t_peers t)" "find_peer_pending_response t (rs_r_idx msg) = Some i" "q_remote (t_peers t ! i) = Some r"
    and sz: "length (rs_ue msg) = 32" "length (rs_en msg) = 16" "length a = 16" "length b = 16"
  shows "rx_handle_datagram cv env (response_pkt msg @ a @ b) sa n t =
    Some (upd_q i (\<lambda>p. peer_stamp_keypair (e_time env) (e_jitter env) (p\<lparr>q_hs_pending := False, q_hs_attempts := 0\<rparr>))
      (t\<lparr>t_local := noise_remote_put r l2\<rparr>))"
  using assms(1) i response_dg_fields [OF sz]
  by (simp add: rx_handle_datagram_def tunnel_consume_response_def Let_def WGS_PKT_INITIATION_def WGS_PKT_DATA_def WGS_PKT_RESPONSE_def)

text \<open>A session of the noise layer is a usable keypair.\<close>

lemma session_can_send:
  assumes "session_at (t_local t) r k birth True a b" "i < length (t_peers t)" "q_endpoint_len (t_peers t ! i) \<noteq> 0"
    "q_remote (t_peers t ! i) = Some r" "\<not> timer_expired (e_uptime env) birth REJECT_AFTER_TIME 0"
    "e_mbuf env" "e_append env" "e_sendto env" "e_send env \<noteq> Dropped"
  shows "core_can_send env t i k"
  using assms by (simp add: core_can_send_def session_at_def Let_def reject_pos)

lemma session_takes:
  assumes "noise_reach cv l" "session_at l r k birth False a b" "i_remote_index (kp_index kp) = a" "kp_send kp = kp_recv (keypairs l k)"
    "\<not> timer_expired (e_uptime env) birth REJECT_AFTER_TIME 0" "e_mbuf env"
  shows "takes env l k kp"
proof -
  have k: "kp_remote (keypairs l k) = r" "kp_refcnt (keypairs l k) = 1" "i_local_index (kp_index (keypairs l k)) = a"
    "kp_nonce_recv (keypairs l k) = 0" "kp_birthdate (keypairs l k) = birth" "r_next (remotes l r) = Some k"
    using assms(2) by (simp_all add: session_at_def)
  moreover have "k \<in> set (slots (remotes l r))" using k(6) by (simp add: in_slots)
  ultimately have "fst (noise_keypair_lookup l a) = Some k"
    using keypair_lookup_parts(1) [OF assms(1), of a k] by simp
  then show ?thesis using k assms(3-6) by (simp add: takes_def Let_def reject_pos)
qed

subsection \<open>From the configuration to the first packet\<close>

text \<open>Peer \<open>i\<close> of the driver, with remote \<open>r\<close>, and peer \<open>j\<close> of the session, with remote \<open>q\<close>, are
  configured for each other.\<close>

definition paired :: "curve \<Rightarrow> tunnel_ctx \<Rightarrow> nat \<Rightarrow> nat \<Rightarrow> wg_session \<Rightarrow> nat \<Rightarrow> nat \<Rightarrow> bool" where
  "paired cv t i r s j q \<longleftrightarrow>
     i < length (t_peers t) \<and> q_remote (t_peers t ! i) = Some r \<and> r < next_remote (t_local t) \<and>
     r_refcnt (remotes (t_local t) r) \<noteq> 0 \<and> length (l_public (t_local t)) = 32 \<and>
     maker_for (l_public (s_local s)) (q_cookie (t_peers t ! i)) \<and> configured_for cv (t_local t) r (l_public (s_local s)) \<and>
     j < length (s_peers s) \<and> q < next_remote (s_local s) \<and> r_arg (remotes (s_local s) q) = j \<and>
     fst (noise_remote_lookup (s_local s) (l_public (t_local t))) = Some q \<and> maker_ok (p_cookie (s_peers s ! j)) \<and>
     checker_for (l_public (s_local s)) (s_checker s) \<and> configured_for cv (s_local s) q (l_public (t_local t)) \<and>
     r_psk (remotes (t_local t) r) = r_psk (remotes (s_local s) q)"

text \<open>The handshake leaves matching sessions on both sides.\<close>

lemma handshake_completes:
  assumes cv: "curve_commutes cv" "curve_sizes cv" and reach: "noise_reach cv (t_local t)" "noise_reach cv (s_local s)"
    and cb: "cb_send_udp (s_cb s)" and pair: "paired cv t i r s j q"
    and init: "tunnel_send_initiation cv now env1 i t = Some (0, t1)" "length (e_rnd env1) = 32" "sent_once dg ep (t_io t) (t_io t1)"
    and answer: "wg_session_handle_udp cv env2 dg sa n s = Some (0, s1)" "length (e_rnd env2) = 32" "e_alloc env2"
      "Send_udp resp sa' n' \<in> set (drop (length (s_out s)) (s_out s1))"
    and idx: "\<forall>k < i. q_hs_pending (t_peers t ! k) \<longrightarrow> q_hs_local_idx (t_peers t ! k) \<noteq> le32dec (drop 4 dg)" and al: "e_alloc env3"
  obtains t2 k k' a b where "rx_handle_datagram cv env3 resp sa3 n3 t1 = Some t2" "\<not> q_hs_pending (t_peers t2 ! i)"
    "session_at (t_local t2) r k (e_uptime env3) True a b" "session_at (s_local s1) q k' (e_uptime env2) False b a"
    "kp_send (keypairs (t_local t2) k) = kp_recv (keypairs (s_local s1) k')"
    "kp_recv (keypairs (t_local t2) k) = kp_send (keypairs (s_local s1) k')"
    "t_aips_v4 t2 = t_aips_v4 t" "t_aips_v6 t2 = t_aips_v6 t" "i < length (t_peers t2)" "q_remote (t_peers t2 ! i) = Some r"
    "q_endpoint_len (t_peers t2 ! i) \<noteq> 0" "q_endpoint (t_peers t2 ! i) = q_endpoint (t_peers t ! i)"
    "s_aips_v4 s1 = s_aips_v4 s" "s_aips_v6 s1 = s_aips_v6 s" "s_cb s1 = s_cb s" "sa' = sa" "n' = n"
proof -
  note p = pair [unfolded paired_def]
  have pi: "i < length (t_peers t)" "q_remote (t_peers t ! i) = Some r" using p by blast+
  obtain msg m cm li1 where
    m1: "noise_create_initiation cv r (e_uptime env1) (e_wall env1) (e_rnd env1) (e_draws env1) (t_local t) = Some (OK, Some msg, li1)"
    and mk: "cookie_maker_mac (q_cookie (t_peers t ! i)) (initiation_pkt msg) (e_uptime env1) = (cm, m)"
    and out: "sent_once (initiation_pkt msg @ mac1 m @ mac2 m) (q_endpoint (t_peers t ! i)) (t_io t) (t_io t1)"
    and t1: "t_local t1 = li1" "t_aips_v4 t1 = t_aips_v4 t" "t_aips_v6 t1 = t_aips_v6 t" "length (t_peers t1) = length (t_peers t)"
      "q_hs_pending (t_peers t1 ! i)" "q_hs_local_idx (t_peers t1 ! i) = in_s_idx msg" "q_remote (t_peers t1 ! i) = Some r"
      "q_endpoint_len (t_peers t1 ! i) = q_endpoint_len (t_peers t ! i)" "q_endpoint_len (t_peers t ! i) \<noteq> 0"
      "q_endpoint (t_peers t1 ! i) = q_endpoint (t_peers t ! i)" "\<And>j. j \<noteq> i \<Longrightarrow> t_peers t1 ! j = t_peers t ! j"
    by (rule initiation_leaves [OF pi init(1)]) (rule that)
  have dg: "dg = initiation_pkt msg @ mac1 m @ mac2 m" by (rule sent_once_unique [OF init(3) out])
  obtain w1 where w: "write_initiation cv r (e_wall env1) (e_rnd env1) (t_local t) = (Some (in_ue msg, in_es msg, in_ets msg), w1)"
    using create_initiation_ok [OF m1] by blast
  have sz: "length (in_ue msg) = 32" "length (in_es msg) = 48" "length (in_ets msg) = 28"
    using write_initiation_sizes [OF w] public_size [OF cv(2) init(2)] p write_initiation_length [OF w] by auto
  have ml: "length (mac1 m) = 16" "length (mac2 m) = 16" using mac_lengths [OF _ mk] p by (simp_all add: maker_for_def)
  obtain lr1 lr2 msg2 where
    m2: "noise_consume_initiation cv (in_s_idx msg) (in_ue msg) (in_es msg) (in_ets msg) (e_uptime env2) (e_draws env2) (s_local s)
      = Some (OK, Some q, lr1)"
    and m3: "noise_create_response cv q (e_uptime env2) (e_rnd env2) (e_alloc env2) lr1 = (OK, Some msg2, lr2)"
    and s1: "s1 = response_sent env2 (noise_remote_arg lr1 q) q msg2 sa n (s\<lparr>s_local := lr2\<rparr>)"
    using session_answers [OF cv(1) _ _ _ m1 _ _ mk sz answer(1) [unfolded dg]] p by blast
  have rr: "run cv (s_local s) lr1" by (rule run_consume_initiation [OF sz(3) m2])
  have arg: "noise_remote_arg lr1 q = j" using run_ident [OF rr] p by (simp add: noise_remote_arg_def)
  have "cb_send_udp (s_cb (s\<lparr>s_local := lr2\<rparr>))" "maker_ok (p_cookie (s_peers (s\<lparr>s_local := lr2\<rparr>) ! j))" using cb p by simp_all
  from response_sent_result [OF this, of env2 q msg2 sa n] obtain m' :: cookie_macs and xs where
    ml': "length (mac1 m') = 16" "length (mac2 m') = 16"
    and o: "s_out s1 = s_out s @ Send_udp (response_pkt msg2 @ mac1 m' @ mac2 m') sa n # xs" "\<forall>x \<in> set xs. \<exists>l. x = Log_line l"
    and s1': "s_local s1 = noise_remote_put q lr2" "s_cb s1 = s_cb s" "s_aips_v4 s1 = s_aips_v4 s" "s_aips_v6 s1 = s_aips_v6 s"
    by (auto simp: s1 arg)
  have resp: "resp = response_pkt msg2 @ mac1 m' @ mac2 m'" "sa' = sa" "n' = n" using answer(4) o by auto
  obtain x1 where x: "write_response cv q (e_rnd env2) lr1 = (Some (rs_ue msg2, rs_en msg2), x1)"
    using create_response_ok [OF m3] by blast
  have sz2: "length (rs_ue msg2) = 32" "length (rs_en msg2) = 16"
    using write_response_sizes [OF x] public_size [OF cv(2) answer(2)] by auto
  obtain li2 k_i k_r where c: "noise_consume_response cv (rs_s_idx msg2) (rs_r_idx msg2) (rs_ue msg2) (rs_en msg2) (e_uptime env3) True li1
        = (OK, Some r, li2)" "rs_r_idx msg2 = in_s_idx msg"
    and k: "session_at li2 r k_i (e_uptime env3) True (in_s_idx msg) (rs_s_idx msg2)"
      "session_at lr2 q k_r (e_uptime env2) False (rs_s_idx msg2) (in_s_idx msg)"
      "kp_send (keypairs li2 k_i) = kp_recv (keypairs lr2 k_r)" "kp_recv (keypairs li2 k_i) = kp_send (keypairs lr2 k_r)"
    using handshake_agrees [OF cv(1) noise_reach_inv [OF reach(1)] _ _ noise_reach_inv [OF reach(2)] _ _ _ _ m1 m2, of "e_uptime env2" "e_rnd env2" msg2 lr2 "e_uptime env3"]
      p m3 answer(3) by auto
  have f: "find_peer_pending_response t1 (rs_r_idx msg2) = Some i"
    using t1 p idx initiation_dg_fields(3) [OF sz ml] unfolding c(2) by (intro find_pending) (auto simp: dg)
  let ?t2 = "upd_q i (\<lambda>p. peer_stamp_keypair (e_time env3) (e_jitter env3) (p\<lparr>q_hs_pending := False, q_hs_attempts := 0\<rparr>))
      (t1\<lparr>t_local := noise_remote_put r li2\<rparr>)"
  have rx: "rx_handle_datagram cv env3 resp sa3 n3 t1 = Some ?t2"
    unfolding resp(1) by (rule response_installs) (use c al t1 f p sz2 ml' in simp_all)
  have "session_at (noise_remote_put r li2) r k_i (e_uptime env3) True (in_s_idx msg) (rs_s_idx msg2)"
    by (rule session_at_cong [OF k(1)]) simp_all
  moreover have "session_at (noise_remote_put q lr2) q k_r (e_uptime env2) False (rs_s_idx msg2) (in_s_idx msg)"
    by (rule session_at_cong [OF k(2)]) simp_all
  ultimately show ?thesis
    using that [OF rx] k(3,4) t1 s1' resp p by (simp add: peer_stamp_keypair_def)
qed

text \<open>C3: Two configured programs talk. The driver and a session are configured for each other, by key, preshared
  key and MAC keys. The driver sends a handshake initiation; the session, when it accepts the datagram, answers to where it
  came from; the driver takes the answer, and its handshake is no longer pending. From then on, for as long as the
  keys live, an IP packet that the driver routes to the session's peer leaves in one datagram, and the
  session delivers exactly that packet.\<close>

theorem driver_connects_to_session:
  assumes cv: "curve_commutes cv" "curve_sizes cv" and reach: "noise_reach cv (t_local t)" "noise_reach cv (s_local s)"
    and cb: "cb_send_udp (s_cb s)" "cb_deliver_ip (s_cb s)" and pair: "paired cv t i r s j q"
    and init: "tunnel_send_initiation cv now env1 i t = Some (0, t1)" "length (e_rnd env1) = 32" "sent_once dg ep (t_io t) (t_io t1)"
    and answer: "wg_session_handle_udp cv env2 dg sa n s = Some (0, s1)" "length (e_rnd env2) = 32" "e_alloc env2"
      "Send_udp resp sa' n' \<in> set (drop (length (s_out s)) (s_out s1))"
    and idx: "\<forall>k < i. q_hs_pending (t_peers t ! k) \<longrightarrow> q_hs_local_idx (t_peers t ! k) \<noteq> le32dec (drop 4 dg)" and al: "e_alloc env3"
    and pkt: "core_lookup_dst t pkt = Some i" "session_lookup_inner_src s pkt = Some j"
      "inner_ip_len pkt = int (length pkt)" "length pkt \<le> 16352"
    and env4: "\<not> timer_expired (e_uptime env4) (e_uptime env3) REJECT_AFTER_TIME 0"
      "e_mbuf env4" "e_append env4" "e_sendto env4" "e_send env4 \<noteq> Dropped"
    and env5: "\<not> timer_expired (e_uptime env5) (e_uptime env2) REJECT_AFTER_TIME 0" "e_mbuf env5"
  shows "sa' = sa \<and> n' = n \<and> (\<exists>t2 t3 dg2 s2. rx_handle_datagram cv env3 resp sa3 n3 t1 = Some t2 \<and> \<not> q_hs_pending (t_peers t2 ! i) \<and>
    tx_handle_packet now4 env4 pkt t2 = Some t3 \<and> sent_once dg2 (q_endpoint (t_peers t ! i)) (t_io t2) (t_io t3) \<and>
    wg_session_handle_udp cv env5 dg2 sa5 n5 s1 = Some (0, s2) \<and> s_out s2 = s_out s1 @ [Deliver_ip pkt])"
proof -
  obtain t2 k k' a b where rx: "rx_handle_datagram cv env3 resp sa3 n3 t1 = Some t2" "\<not> q_hs_pending (t_peers t2 ! i)"
    and at: "session_at (t_local t2) r k (e_uptime env3) True a b" "session_at (s_local s1) q k' (e_uptime env2) False b a"
    and key: "kp_send (keypairs (t_local t2) k) = kp_recv (keypairs (s_local s1) k')"
    and t2: "t_aips_v4 t2 = t_aips_v4 t" "t_aips_v6 t2 = t_aips_v6 t" "i < length (t_peers t2)" "q_remote (t_peers t2 ! i) = Some r"
      "q_endpoint_len (t_peers t2 ! i) \<noteq> 0" "q_endpoint (t_peers t2 ! i) = q_endpoint (t_peers t ! i)"
    and s1: "s_aips_v4 s1 = s_aips_v4 s" "s_aips_v6 s1 = s_aips_v6 s" "s_cb s1 = s_cb s" and src: "sa' = sa" "n' = n"
    by (rule handshake_completes [OF cv reach cb(1) pair init answer idx al]) (rule that)
  have f: "run cv (s_local s) (s_local s1)" "length (s_peers s1) = length (s_peers s)"
    using frame_handle_udp [OF answer(1)] by (simp_all add: frame_ok_def)
  have q: "kp_remote (keypairs (s_local s1) k') = q" using at(2) by (simp add: session_at_def)
  then have own: "owner_of s1 k' = j" "j < length (s_peers s1)"
    using run_ident [OF f(1)] pair f(2) by (auto simp: owner_of_def paired_def)
  have reach1: "noise_reach cv (s_local s1)" using f(1) reach(2) steps_reach by (auto simp: run_def)
  have "core_lookup_dst t2 pkt = Some i" using pkt(1) unfolding core_lookup_dst_def t2(1,2) .
  moreover have "session_lookup_inner_src s1 pkt = Some j"
    using pkt(2) unfolding session_lookup_inner_src_def s1(1,2) .
  moreover have "core_can_send env4 t2 i k" by (rule session_can_send [OF at(1) t2(3,5,4) env4])
  moreover have "can_receive env5 s1 k' (keypairs (t_local t2) k)"
    unfolding can_receive_def by (rule session_takes [OF reach1 at(2) _ key env5]) (use at(1) in \<open>simp add: session_at_def\<close>)
  ultimately show ?thesis
    using core_to_session [of t2 pkt i env4 k cv s1 env5 k' now4 sa5 n5] pkt(3,4) reach1 cb(2) s1(3) own rx t2(6) src by auto
qed

subsection \<open>A concrete conversation\<close>

lemma initiation_sendable:
  assumes "noise_create_initiation cv r (e_uptime env) (e_wall env) (e_rnd env) (e_draws env) (t_local t) = Some (OK, Some msg, l1)"
    "i < length (t_peers t)" "q_remote (t_peers t ! i) = Some r" "q_endpoint_len (t_peers t ! i) \<noteq> 0" "e_sendto env" "e_send env \<noteq> Dropped"
  shows "\<exists>t1. tunnel_send_initiation cv now env i t = Some (0, t1)"
proof -
  obtain cm m where m: "cookie_maker_mac (q_cookie (t_peers t ! i)) (initiation_pkt msg) (e_uptime env) = (cm, m)" by fastforce
  let ?u = "upd_q i (\<lambda>p. p\<lparr>q_cookie := cm\<rparr>) (t\<lparr>t_local := l1\<rparr>)" and ?dg = "initiation_pkt msg @ mac1 m @ mac2 m"
  obtain rc v where v: "peer_send env i ?dg ?u = (rc, v)" by fastforce
  have "rc = 0" using peer_send_ok [of i ?u env ?dg] assms(2,4-6) by (simp add: v)
  then show ?thesis
    using assms(1,3,4) m v by (simp add: tunnel_send_initiation_def send_initiation_def Let_def)
qed

lemma initiation_answerable:
  assumes "noise_consume_initiation cv (in_s_idx msg) (in_ue msg) (in_es msg) (in_ets msg) (e_uptime env) (e_draws env) (s_local s)
      = Some (OK, Some q, lr1)"
    "noise_create_response cv q (e_uptime env) (e_rnd env) (e_alloc env) lr1 = (OK, Some msg2, lr2)"
    and mac: "maker_for K cm" "checker_for K (s_checker s)" "cookie_maker_mac cm (initiation_pkt msg) t1' = (cm', m)"
    and sz: "length (in_ue msg) = 32" "length (in_es msg) = 48" "length (in_ets msg) = 28"
  shows "wg_session_handle_udp cv env (initiation_pkt msg @ mac1 m @ mac2 m) sa n s =
    Some (0, response_sent env (noise_remote_arg lr1 q) q msg2 sa n (s\<lparr>s_local := lr2\<rparr>))"
proof -
  have ml: "length (mac1 m) = 16" "length (mac2 m) = 16" using mac_lengths [OF _ mac(3)] mac(1) by (simp_all add: maker_for_def)
  have v: "cookie_checker_validate_macs (e_globals env) (s_checker s) \<lparr>mac1 = mac1 m, mac2 = mac2 m\<rparr> (initiation_pkt msg) False sa 0
      (e_uptime env) [] [] True = (OK, e_globals env, s_checker s)"
    by (rule validate_own_mac [OF mac])
  define dg where "dg = initiation_pkt msg @ mac1 m @ mac2 m"
  show ?thesis
    unfolding dg_def [symmetric]
    using assms(1,2) initiation_dg_fields [OF sz ml, folded dg_def] v ml(2)
    by (simp add: wg_session_handle_udp_def wgs_handle_initiation_def Let_def WGS_PKT_INITIATION_def WGS_PKT_DATA_def)
qed

definition demo_driver :: tunnel_ctx where
  "demo_driver = upd_q 0 (\<lambda>p. p\<lparr>q_cookie := cookie_maker_init (replicate 32 2)\<rparr>) (demo_tunnel (demo_party 1 2) 0)"

definition demo_answerer :: wg_session where
  "demo_answerer = (demo_wire (demo_party 2 1) 7)
     \<lparr>s_checker := cookie_checker_update cookie_checker_init (Some (replicate 32 2))\<rparr>"

definition demo_env1 :: core_env where
  "demo_env1 = demo_core_env\<lparr>e_uptime := 0, e_draws := [4]\<rparr>"

definition demo_env2 :: env where
  "demo_env2 = demo_env\<lparr>e_uptime := 0, e_rnd := replicate 32 6\<rparr>"

lemma demo_env1_simps [simp]:
  "e_uptime demo_env1 = 0" "e_wall demo_env1 = (7, 0)" "e_rnd demo_env1 = replicate 32 5" "e_draws demo_env1 = [4]"
  "e_sendto demo_env1" "e_send demo_env1 \<noteq> Dropped" "e_alloc demo_env1" "e_mbuf demo_env1" "e_append demo_env1"
  by (simp_all add: demo_env1_def demo_core_env_def)

lemma demo_env2_simps [simp]:
  "e_uptime demo_env2 = 0" "e_rnd demo_env2 = replicate 32 6" "e_draws demo_env2 = [4, 5]" "e_alloc demo_env2" "e_mbuf demo_env2"
  by (simp_all add: demo_env2_def demo_env_def)

lemma demo_curve_sizes: "curve_sizes demo_curve"
  by (simp add: curve_sizes_def demo_curve_def)

lemma demo_driver_simps [simp]:
  "t_local demo_driver = demo_party 1 2" "length (t_peers demo_driver) = 1"
  "t_peers demo_driver ! 0 = zero_peer_state\<lparr>q_endpoint_len := 16, q_remote := Some 0, q_cookie := cookie_maker_init (replicate 32 2)\<rparr>"
  by (simp_all add: demo_driver_def)

lemma demo_answerer_simps [simp]:
  "s_local demo_answerer = demo_party 2 1" "length (s_peers demo_answerer) = 8"
  "s_cb demo_answerer = \<lparr>cb_send_udp = True, cb_deliver_ip = True, cb_log_line = True\<rparr>" "s_out demo_answerer = []"
  "s_checker demo_answerer = cookie_checker_update cookie_checker_init (Some (replicate 32 2))"
  by (simp_all add: demo_answerer_def)

lemma demo_paired: "paired demo_curve demo_driver 0 0 demo_answerer 7 0"
proof -
  have "maker_ok (p_cookie (s_peers demo_answerer ! 7))"
    by (simp add: demo_answerer_def demo_wire_def zero_peer_def maker_ok_def zero_cookie_maker_def del: replicate_Suc)
  moreover have "r_arg (remotes (demo_party 2 1) 0) = 7" by (simp add: demo_party_eq demo_remote_def)
  ultimately show ?thesis
    using demo_configured demo_lookup
    by (simp add: paired_def demo_party_fields maker_for_init checker_for_update checker_ok_init)
qed


theorem driver_connects_to_session_witness:
  "\<exists>dg t1 s1 resp t2 t3 dg2 s2. tunnel_send_initiation demo_curve 7 demo_env1 0 demo_driver = Some (0, t1) \<and>
     wg_session_handle_udp demo_curve demo_env2 dg Sa_other 16 demo_answerer = Some (0, s1) \<and>
     rx_handle_datagram demo_curve demo_env1 resp Sa_other 16 t1 = Some t2 \<and>
     tx_handle_packet 7 demo_env1 demo_packet t2 = Some t3 \<and>
     wg_session_handle_udp demo_curve demo_env2 dg2 Sa_other 16 s1 = Some (0, s2) \<and> s_out s2 = s_out s1 @ [Deliver_ip demo_packet]"
proof -
  obtain msg1 :: initiation_fields and li1 lr1 msg2 lr2 where
    m1: "noise_create_initiation demo_curve 0 0 (7, 0) (replicate 32 5) [4] (demo_party 1 2) = Some (OK, Some msg1, li1)"
    and m2: "noise_consume_initiation demo_curve (in_s_idx msg1) (in_ue msg1) (in_es msg1) (in_ets msg1) 0 [4, 5] (demo_party 2 1)
       = Some (OK, Some 0, lr1)"
    and m3: "noise_create_response demo_curve 0 0 (replicate 32 6) True lr1 = (OK, Some msg2, lr2)"
    using demo_run by blast
  have pos: "0 < length (t_peers demo_driver)" "q_remote (t_peers demo_driver ! 0) = Some 0" by simp_all
  have "\<exists>t1. tunnel_send_initiation demo_curve 7 demo_env1 0 demo_driver = Some (0, t1)"
    by (rule initiation_sendable [where r = 0 and msg = msg1 and ?l1.0 = li1]) (simp_all add: m1)
  then obtain t1 where t1: "tunnel_send_initiation demo_curve 7 demo_env1 0 demo_driver = Some (0, t1)" ..
  obtain m cm where mk: "cookie_maker_mac (cookie_maker_init (replicate 32 2)) (initiation_pkt msg1) 0 = (cm, m)"
    and out: "sent_once (initiation_pkt msg1 @ mac1 m @ mac2 m) (q_endpoint zero_peer_state) (t_io demo_driver) (t_io t1)"
    using m1 by (rule_tac initiation_leaves [OF pos t1]) auto
  obtain w1 where w: "write_initiation demo_curve 0 (7, 0) (replicate 32 5) (demo_party 1 2) = (Some (in_ue msg1, in_es msg1, in_ets msg1), w1)"
    using create_initiation_ok [OF m1] by blast
  have sz: "length (in_ue msg1) = 32" "length (in_es msg1) = 48" "length (in_ets msg1) = 28"
    using write_initiation_sizes [OF w] public_size [OF demo_curve_sizes, of "replicate 32 5"] write_initiation_length [OF w]
    by (auto simp: demo_party_fields)
  define s1 where "s1 = response_sent demo_env2 (noise_remote_arg lr1 0) 0 msg2 Sa_other 16 (demo_answerer\<lparr>s_local := lr2\<rparr>)"
  have s1: "wg_session_handle_udp demo_curve demo_env2 (initiation_pkt msg1 @ mac1 m @ mac2 m) Sa_other 16 demo_answerer = Some (0, s1)"
    unfolding s1_def
    by (rule initiation_answerable [OF _ _ maker_for_init _ mk sz]) (use m2 m3 in \<open>simp_all add: checker_for_update checker_ok_init\<close>)
  have "run demo_curve (demo_party 2 1) lr1" by (rule run_consume_initiation [OF sz(3) m2])
  then have arg: "noise_remote_arg lr1 0 = 7"
    using run_ident [of demo_curve "demo_party 2 1" lr1 0]
    by (simp add: noise_remote_arg_def demo_party_fields) (simp add: demo_party_eq demo_remote_def)
  have "maker_ok (p_cookie (s_peers (demo_answerer\<lparr>s_local := lr2\<rparr>) ! 7))"
    using demo_paired by (simp add: paired_def)
  from response_sent_result [OF _ this, of demo_env2 0 msg2 Sa_other 16] obtain m' :: cookie_macs and xs where
    "s_out s1 = s_out demo_answerer @ Send_udp (response_pkt msg2 @ mac1 m' @ mac2 m') Sa_other 16 # xs"
    by (auto simp: s1_def arg)
  then have resp: "Send_udp (response_pkt msg2 @ mac1 m' @ mac2 m') Sa_other 16 \<in> set (drop (length (s_out demo_answerer)) (s_out s1))"
    by simp
  have look: "core_lookup_dst demo_driver demo_packet = Some 0" "session_lookup_inner_src demo_answerer demo_packet = Some 7"
    by (simp_all add: core_lookup_dst_def session_lookup_inner_src_def demo_packet_facts)
      (simp_all add: demo_driver_def demo_answerer_def demo_tunnel_def demo_wire_v4)
  have alive: "\<not> timer_expired (e_uptime demo_env1) (e_uptime demo_env1) REJECT_AFTER_TIME 0"
    "\<not> timer_expired (e_uptime demo_env2) (e_uptime demo_env2) REJECT_AFTER_TIME 0"
    by (simp_all add: timer_expired_def SBT_1S_def nstosbt_def REJECT_AFTER_TIME_def)
  show ?thesis
    using driver_connects_to_session [OF demo_curve_commutes demo_curve_sizes _ _ _ _ demo_paired t1 _ out s1 _ _ resp _ _ look _ _ alive(1) _ _ _ _ alive(2),
        of Sa_other 16 7 Sa_other 16] t1 s1
    by (simp add: demo_party_reach demo_packet_facts) blast
qed

end
