(* ===== verification/CoreSystem.thy ===== *)
theory CoreSystem
  imports CoreStart Text
begin

text \<open>
  The commands that the driver \<^verbatim>\<open>src/wg_core.c\<close> hands to the shell to configure the utun device and the routes, and the
  names of its files under \<^verbatim>\<open>/var/run/wireguard\<close>.

  A function takes the commands that have run, in order, and returns them with its own. \<open>sys\<close> tells which
  command succeeds (\<^verbatim>\<open>system\<close> returns 0), given those before it.
\<close>

subsection \<open>Running commands\<close>

definition WG_MTU_DEFAULT :: int where "WG_MTU_DEFAULT = 1420"

text \<open>\<^verbatim>\<open>snprintf\<close> into a buffer of \<open>n\<close> characters.\<close>

definition snprintf :: "nat \<Rightarrow> string \<Rightarrow> string" where
  "snprintf n s = take (n - 1) s"

type_synonym shell = "string list \<Rightarrow> string \<Rightarrow> bool"

definition run_command :: "shell \<Rightarrow> string \<Rightarrow> string list \<Rightarrow> bool \<times> string list" where
  "run_command sys cmd hist = (sys hist cmd, hist @ [cmd])"

text \<open>\<^verbatim>\<open>addr.s_addr &= htonl(0xFFFFFFFFu << (32 - plen))\<close> on the bytes of the address, with the guards
  of the callers for the lengths 0 and 32.\<close>

definition net_mask :: "int \<Rightarrow> u32" where
  "net_mask plen = (if plen \<le> 0 then 0 else if plen \<ge> 32 then - 1 else push_bit (nat (32 - plen)) (- 1))"

definition mask4 :: "int \<Rightarrow> bytes \<Rightarrow> bytes" where
  "mask4 plen a = map2 (AND) (take 4 a) (be32enc (net_mask plen))"

definition dev_null :: string where
  "dev_null = '' >/dev/null 2>&1''"

subsection \<open>The interface\<close>

definition utun_apply_inet4 :: "netlib \<Rightarrow> shell \<Rightarrow> int \<Rightarrow> string \<Rightarrow> iface_addr \<Rightarrow> string list \<Rightarrow> int \<times> string list" where
  "utun_apply_inet4 nl sys mtu ifname a hist =
     (let (ok, hist) = run_command sys (snprintf 256 (''/sbin/ifconfig '' @ ifname @ '' inet '' @ a_addr_str a @ '' '' @
            a_addr_str a @ '' mtu '' @ fmt_int mtu @ '' up'')) hist
      in if \<not> ok then (- 1, hist)
      else if a_prefix_len a < 32 then
        (case inet_pton4 nl (a_addr_str a) of
           None \<Rightarrow> (- 1, hist)
         | Some addr \<Rightarrow>
             let net = inet_ntop4 nl (mask4 (a_prefix_len a) addr) @ ''/'' @ fmt_int (a_prefix_len a);
                 (_, hist) = run_command sys (snprintf 256 (''/sbin/route -q -n delete -net '' @ net @ dev_null)) hist;
                 (_, hist) = run_command sys (snprintf 256 (''/sbin/route -q -n add -net '' @ net @ '' -interface '' @ ifname)) hist
             in (0, hist))
      else (0, hist))"

definition utun_apply_inet6 :: "shell \<Rightarrow> string \<Rightarrow> iface_addr \<Rightarrow> string list \<Rightarrow> int \<times> string list" where
  "utun_apply_inet6 sys ifname a hist =
     (case run_command sys (snprintf 256 (''/sbin/ifconfig '' @ ifname @ '' inet6 '' @ a_addr_str a @ '' prefixlen '' @
        fmt_int (a_prefix_len a) @ '' alias'')) hist of
        (ok, hist) \<Rightarrow> (if ok then 0 else - 1, hist))"

subsection \<open>The routes\<close>

text \<open>The family flag and the network of a CIDR as \<^verbatim>\<open>route\<close> takes them; \<^verbatim>\<open>inet_ntop\<close> does not fail on these families.\<close>

definition route_net :: "netlib \<Rightarrow> allowed_cidr \<Rightarrow> string" where
  "route_net nl c =
     (case c_family c of
        AF_INET \<Rightarrow> ''-net '' @ inet_ntop4 nl (mask4 (c_prefix_len c) (c_addr c))
      | AF_INET6 \<Rightarrow> ''-inet6 '' @ inet_ntop6 nl (c_addr c)) @ ''/'' @ fmt_int (c_prefix_len c)"

definition add_route :: "netlib \<Rightarrow> shell \<Rightarrow> string \<Rightarrow> allowed_cidr \<Rightarrow> string list \<Rightarrow> string list" where
  "add_route nl sys ifname c hist =
     (if c_prefix_len c = 0 then hist
      else
        let (_, hist) = run_command sys (snprintf 256 (''/sbin/route -q -n delete '' @ route_net nl c @ dev_null)) hist;
            (_, hist) = run_command sys (snprintf 256 (''/sbin/route -q -n add '' @ route_net nl c @ '' -interface '' @ ifname)) hist
        in hist)"

definition utun_apply_peer_routes :: "netlib \<Rightarrow> shell \<Rightarrow> string \<Rightarrow> client_config \<Rightarrow> string list \<Rightarrow> string list" where
  "utun_apply_peer_routes nl sys ifname cfg hist =
     fold (\<lambda>p hist. fold (add_route nl sys ifname) (q_allowed p) hist) (cc_peers cfg) hist"

definition reassert_route :: "netlib \<Rightarrow> shell \<Rightarrow> string \<Rightarrow> allowed_cidr \<Rightarrow> string list \<Rightarrow> string list" where
  "reassert_route nl sys ifname c hist =
     (if c_prefix_len c = 0 then hist
      else
        let (ok, hist) = run_command sys (snprintf 256 (''/sbin/route -q -n change '' @ route_net nl c @ '' -interface '' @
              ifname @ dev_null)) hist
        in if ok then hist
           else snd (run_command sys (snprintf 256 (''/sbin/route -q -n add '' @ route_net nl c @ '' -interface '' @
              ifname @ dev_null)) hist))"

definition reassert_peer_routes :: "netlib \<Rightarrow> shell \<Rightarrow> string \<Rightarrow> peer_state list \<Rightarrow> string list \<Rightarrow> string list" where
  "reassert_peer_routes nl sys ifname peers hist =
     fold (\<lambda>p hist. fold (reassert_route nl sys ifname) (q_allowed p) hist) peers hist"

subsection \<open>The whole configuration\<close>

text \<open>The loop over the addresses; the flag is \<^verbatim>\<open>v4_done\<close>, \<open>None\<close> the early return.\<close>

fun apply_addrs :: "netlib \<Rightarrow> shell \<Rightarrow> int \<Rightarrow> string \<Rightarrow> iface_addr list \<Rightarrow> bool \<Rightarrow> string list \<Rightarrow> bool option \<times> string list" where
  "apply_addrs nl sys mtu ifname [] v4 hist = (Some v4, hist)"
| "apply_addrs nl sys mtu ifname (a # as) v4 hist =
     (case (case a_family a of AF_INET \<Rightarrow> utun_apply_inet4 nl sys mtu ifname a hist
            | AF_INET6 \<Rightarrow> utun_apply_inet6 sys ifname a hist) of
        (rc, hist) \<Rightarrow> if rc \<noteq> 0 then (None, hist)
                    else apply_addrs nl sys mtu ifname as (v4 \<or> a_family a = AF_INET) hist)"

definition utun_configure :: "netlib \<Rightarrow> shell \<Rightarrow> int \<Rightarrow> string \<Rightarrow> client_config \<Rightarrow> int \<times> string list" where
  "utun_configure nl sys mtu ifname cfg =
     (if cc_if_addrs cfg = [] then (- 1, [])
      else
        (case apply_addrs nl sys mtu ifname (cc_if_addrs cfg) False [] of
           (None, hist) \<Rightarrow> (- 1, hist)
         | (Some v4, hist) \<Rightarrow>
             let hist = (if v4 then hist
                        else snd (run_command sys (snprintf 64 (''/sbin/ifconfig '' @ ifname @ '' mtu '' @ fmt_int mtu @ '' up'')) hist))
             in (0, utun_apply_peer_routes nl sys ifname cfg hist)))"

text \<open>\<^verbatim>\<open>g_mtu\<close> once \<^verbatim>\<open>main\<close> has read the configuration.\<close>

definition effective_mtu :: "client_config \<Rightarrow> int" where
  "effective_mtu cfg = (if cc_mtu cfg > 0 then cc_mtu cfg else WG_MTU_DEFAULT)"

subsection \<open>The files of an instance\<close>

definition WG_RUNTIME_DIR :: string where
  "WG_RUNTIME_DIR = ''/var/run/wireguard''"

definition runtime_paths :: "string \<Rightarrow> string \<times> string \<times> string" where
  "runtime_paths logical =
     (snprintf 256 (WG_RUNTIME_DIR @ ''/'' @ logical @ ''.pid''), snprintf 256 (WG_RUNTIME_DIR @ ''/'' @ logical @ ''.name''),
      snprintf 256 (WG_RUNTIME_DIR @ ''/'' @ logical @ ''.sock''))"

subsection \<open>What the shell is given\<close>

text \<open>Characters that mean nothing to a shell, and those of a written address.\<close>

definition plain_char :: "char \<Rightarrow> bool" where
  "plain_char c \<longleftrightarrow> isdigit c \<or> (65 \<le> code c \<and> code c \<le> 90) \<or> (97 \<le> code c \<and> code c \<le> 122) \<or> c \<in> set ''./:- ''"

definition addr_char :: "char \<Rightarrow> bool" where
  "addr_char c \<longleftrightarrow> isdigit c \<or> (65 \<le> code c \<and> code c \<le> 70) \<or> (97 \<le> code c \<and> code c \<le> 102) \<or> c = CHR ''.'' \<or> c = CHR '':''"

text \<open>The command names one of the two programs by its path and is otherwise plain words, but for the
  redirection that the source itself writes at its end.\<close>

definition one_command :: "string \<Rightarrow> bool" where
  "one_command c \<longleftrightarrow> (\<exists>body. (c = body \<or> c = body @ dev_null) \<and> list_all plain_char body \<and>
     (\<exists>w. body = ''/sbin/ifconfig '' @ w \<or> body = ''/sbin/route '' @ w))"

text \<open>The documented grammar of \<^verbatim>\<open>inet_pton\<close> and of the output of \<^verbatim>\<open>inet_ntop\<close>, with the sizes
  \<^verbatim>\<open>INET_ADDRSTRLEN\<close> and \<^verbatim>\<open>INET6_ADDRSTRLEN\<close>.\<close>

definition netlib_plain :: "netlib \<Rightarrow> bool" where
  "netlib_plain nl \<longleftrightarrow> (\<forall>s a. inet_pton4 nl s = Some a \<or> inet_pton6 nl s = Some a \<longrightarrow> list_all addr_char s) \<and>
     (\<forall>a. list_all addr_char (inet_ntop4 nl a) \<and> length (inet_ntop4 nl a) < 16) \<and>
     (\<forall>a. list_all addr_char (inet_ntop6 nl a) \<and> length (inet_ntop6 nl a) < 46)"

lemma addr_plain: "list_all addr_char s \<Longrightarrow> list_all plain_char s"
  by (induction s) (auto simp: addr_char_def plain_char_def)

lemma fmt_plain: "list_all plain_char (fmt_int i)"
proof -
  have "list_all plain_char (fmt_nat n)" for n
    using fmt_nat_digits [of n] by (auto simp: list_all_iff plain_char_def)
  then show ?thesis by (simp add: fmt_int_def plain_char_def)
qed

lemma fmt_nat_length: "n < 10 ^ k \<Longrightarrow> 0 < k \<Longrightarrow> length (fmt_nat n) \<le> k"
proof (induction k arbitrary: n)
  case (Suc k)
  show ?case
  proof (cases "n < 10")
    case False
    then have "n div 10 < 10 ^ k" "0 < k" using Suc.prems by (auto intro: Suc_lessI gr0I)
    then show ?thesis using Suc.IH [of "n div 10"] False by (subst fmt_nat.simps) simp
  qed (subst fmt_nat.simps, simp)
qed simp

lemma fmt_int_length: "0 \<le> i \<Longrightarrow> i < 10 ^ k \<Longrightarrow> 0 < k \<Longrightarrow> length (fmt_int i) \<le> k"
  using fmt_nat_length [of "nat i" k] by (simp add: fmt_int_def nat_less_iff)

lemma one_command_body:
  "list_all plain_char body \<Longrightarrow> body = ''/sbin/ifconfig '' @ w \<or> body = ''/sbin/route '' @ w \<Longrightarrow>
   one_command body \<and> one_command (body @ dev_null)"
  unfolding one_command_def by blast

lemma one_command_plain:
  assumes "list_all plain_char w"
  shows "one_command (''/sbin/ifconfig '' @ w)" "one_command (''/sbin/route '' @ w)" "one_command (''/sbin/route '' @ w @ dev_null)"
proof -
  have "list_all plain_char (''/sbin/ifconfig '' @ w)" "list_all plain_char (''/sbin/route '' @ w)"
    using assms by (simp_all add: plain_char_def isdigit_def code_def)
  then show "one_command (''/sbin/ifconfig '' @ w)" "one_command (''/sbin/route '' @ w)" "one_command (''/sbin/route '' @ w @ dev_null)"
    using one_command_body [of "''/sbin/ifconfig '' @ w" w] one_command_body [of "''/sbin/route '' @ w" w] by simp_all
qed

text \<open>An interface address as the loader left it.\<close>

definition iface_text_ok :: "netlib \<Rightarrow> iface_addr \<Rightarrow> bool" where
  "iface_text_ok nl a \<longleftrightarrow> inet_pton4 nl (a_addr_str a) \<noteq> None \<or> inet_pton6 nl (a_addr_str a) \<noteq> None"

lemma strchr_length: "strchr d s = Some (a, b) \<Longrightarrow> length a < length s"
  by (induction s arbitrary: a) (auto split: if_splits option.splits)

lemma parse_iface_text: "core_parse_iface_addr nl s = Some a \<Longrightarrow> iface_text_ok nl a"
  using strchr_length [of "CHR ''/''" s]
  by (auto simp: core_parse_iface_addr_def iface_text_ok_def cidr_parts_def Let_def split: if_splits option.splits prod.splits)

lemma iface_entries_text:
  "iface_entries nl ts acc = Some as \<Longrightarrow> \<forall>a \<in> set acc. iface_text_ok nl a \<Longrightarrow> \<forall>a \<in> set as. iface_text_ok nl a"
  by (induction nl ts acc rule: iface_entries.induct)
    (auto simp: Let_def split: if_splits option.splits dest: parse_iface_text)

lemma load_peer_key_addrs: "load_peer_key nl p eq i c = Some c' \<Longrightarrow> cc_if_addrs c' = cc_if_addrs c"
  by (auto simp: load_peer_key_def upd_cfg_peer_def split: if_splits option.splits prod.splits)

lemma load_key_text:
  "load_key nl p eq st = Some st' \<Longrightarrow> \<forall>a \<in> set (cc_if_addrs (ld_config st)). iface_text_ok nl a \<Longrightarrow>
   \<forall>a \<in> set (cc_if_addrs (ld_config st')). iface_text_ok nl a"
  using iface_entries_text [of nl "strtok (CHR '','') eq" "cc_if_addrs (ld_config st)"]
  by (auto simp: load_key_def parse_iface_addrs_def Let_def split: if_splits option.splits dest: load_peer_key_addrs)

lemma load_line_text:
  "load_line nl line st = Some st' \<Longrightarrow> \<forall>a \<in> set (cc_if_addrs (ld_config st)). iface_text_ok nl a \<Longrightarrow>
   \<forall>a \<in> set (cc_if_addrs (ld_config st')). iface_text_ok nl a"
  by (auto simp: load_line_def load_section_def Let_def split: if_splits option.splits dest: load_key_text)

lemma load_lines_text:
  "load_lines nl ls st = Some st' \<Longrightarrow> \<forall>a \<in> set (cc_if_addrs (ld_config st)). iface_text_ok nl a \<Longrightarrow>
   \<forall>a \<in> set (cc_if_addrs (ld_config st')). iface_text_ok nl a"
  by (induction nl ls st rule: load_lines.induct) (auto split: option.splits dest: load_line_text)

lemma load_config_text:
  assumes "load_config nl file = Some c" "a \<in> set (cc_if_addrs c)"
  shows "iface_text_ok nl a"
  using assms load_lines_text [of nl]
  by (fastforce simp: load_config_def Let_def zero_client_config_def split: option.splits if_splits)

subsection \<open>Every command is one plain command\<close>

definition plain_commands :: "string list \<Rightarrow> bool" where
  "plain_commands cs \<longleftrightarrow> (\<forall>c \<in> set cs. one_command c)"

lemma plain_commands_simps [simp]:
  "plain_commands []" "plain_commands (cs @ ds) \<longleftrightarrow> plain_commands cs \<and> plain_commands ds"
  "plain_commands (c # cs) \<longleftrightarrow> one_command c \<and> plain_commands cs"
  by (auto simp: plain_commands_def)

lemma snprintf_fits: "length s < n \<Longrightarrow> snprintf n s = s"
  by (simp add: snprintf_def)

lemma plain_command_fits:
  assumes "list_all plain_char w" "length w + 33 < n"
  shows "one_command (snprintf n (''/sbin/ifconfig '' @ w))" "one_command (snprintf n (''/sbin/route '' @ w))"
    "one_command (snprintf n (''/sbin/route '' @ w @ dev_null))"
  using one_command_plain [OF assms(1)] assms(2) by (simp_all add: snprintf_fits dev_null_def)

lemma plain_words: "list_all plain_char ''inet ''" "list_all plain_char '' inet ''" "list_all plain_char '' inet6 ''"
  "list_all plain_char '' mtu ''" "list_all plain_char '' up''" "list_all plain_char '' prefixlen ''" "list_all plain_char '' alias''"
  "list_all plain_char ''-q -n delete ''" "list_all plain_char ''-q -n add ''" "list_all plain_char ''-q -n change ''"
  "list_all plain_char '' -interface ''" "list_all plain_char ''-net ''" "list_all plain_char ''-inet6 ''" "list_all plain_char ''/''"
  "list_all plain_char '' ''" "list_all plain_char ''-q -n delete -net ''" "list_all plain_char ''-q -n add -net ''"
  by (simp_all add: plain_char_def isdigit_def code_def)

text \<open>The names of the program are followed by words, so a command splits after its program.\<close>

lemma split_program:
  "''/sbin/route -q -n delete '' @ w = ''/sbin/route '' @ ''-q -n delete '' @ w"
  "''/sbin/route -q -n add '' @ w = ''/sbin/route '' @ ''-q -n add '' @ w"
  "''/sbin/route -q -n change '' @ w = ''/sbin/route '' @ ''-q -n change '' @ w"
  "''/sbin/route -q -n delete -net '' @ w = ''/sbin/route '' @ ''-q -n delete -net '' @ w"
  "''/sbin/route -q -n add -net '' @ w = ''/sbin/route '' @ ''-q -n add -net '' @ w"
  by simp_all

lemma route_net_plain:
  assumes "netlib_plain nl" "cidr_ok c"
  shows "list_all plain_char (route_net nl c)" "length (route_net nl c) \<le> 56"
proof -
  have n: "length (fmt_int (c_prefix_len c)) \<le> 3"
    using fmt_int_length [of "c_prefix_len c" 3] assms(2) by (auto simp: cidr_ok_def split: if_splits)
  have a: "list_all plain_char (inet_ntop4 nl x)" "length (inet_ntop4 nl x) \<le> 15" "list_all plain_char (inet_ntop6 nl x)"
    "length (inet_ntop6 nl x) \<le> 45" for x
    using assms(1) addr_plain by (auto simp: netlib_plain_def less_Suc_eq_le numeral_eq_Suc)
  show "list_all plain_char (route_net nl c)"
    unfolding route_net_def using plain_words a fmt_plain by (auto simp: list_all_append split: af.split)
  have "length (route_net nl c) \<le> 7 + 45 + 1 + length (fmt_int (c_prefix_len c))"
    using a(2,4) by (auto simp: route_net_def split: af.split intro: le_trans [OF a(2)] le_trans [OF a(4)])
  then show "length (route_net nl c) \<le> 56" using n by simp
qed

text \<open>A name of a device: plain and shorter than \<^verbatim>\<open>IFNAMSIZ\<close>.\<close>

definition device_name :: "string \<Rightarrow> bool" where
  "device_name s \<longleftrightarrow> list_all plain_char s \<and> length s < 16"

lemma add_route_plain:
  assumes "netlib_plain nl" "cidr_ok c" "device_name ifname" "plain_commands hist"
  shows "plain_commands (add_route nl sys ifname c hist)" "plain_commands (reassert_route nl sys ifname c hist)"
proof -
  note r = route_net_plain [OF assms(1,2)]
  have d: "list_all plain_char ifname" "length ifname \<le> 15" using assms(3) by (simp_all add: device_name_def)
  have w: "list_all plain_char (''-q -n delete '' @ route_net nl c)" "list_all plain_char (''-q -n add '' @ route_net nl c @ '' -interface '' @ ifname)"
    "list_all plain_char (''-q -n change '' @ route_net nl c @ '' -interface '' @ ifname)"
    using r(1) d(1) by (simp_all add: plain_char_def isdigit_def code_def)
  have l: "length (''-q -n delete '' @ route_net nl c) + 33 < 256" "length (''-q -n add '' @ route_net nl c @ '' -interface '' @ ifname) + 33 < 256"
    "length (''-q -n change '' @ route_net nl c @ '' -interface '' @ ifname) + 33 < 256"
    using r(2) d(2) by simp_all
  note p = plain_command_fits [OF w(1) l(1)] plain_command_fits [OF w(2) l(2)] plain_command_fits [OF w(3) l(3)]
  show "plain_commands (add_route nl sys ifname c hist)"
    using p(3,5) assms(4) unfolding add_route_def run_command_def Let_def split_program by simp
  show "plain_commands (reassert_route nl sys ifname c hist)"
    using p(6,9) assms(4) unfolding reassert_route_def run_command_def Let_def split_program by simp
qed

lemma fold_plain:
  "(\<And>x hist. x \<in> set xs \<Longrightarrow> plain_commands hist \<Longrightarrow> plain_commands (f x hist)) \<Longrightarrow> plain_commands hist \<Longrightarrow> plain_commands (fold f xs hist)"
  by (induction xs arbitrary: hist) auto

lemma routes_plain:
  assumes "netlib_plain nl" "\<forall>p \<in> set ps. \<forall>c \<in> set (q_allowed p). cidr_ok c" "device_name ifname" "plain_commands hist"
  shows "plain_commands (fold (\<lambda>p. fold (add_route nl sys ifname) (q_allowed p)) ps hist)"
    "plain_commands (reassert_peer_routes nl sys ifname ps hist)"
  unfolding reassert_peer_routes_def
  using assms by (auto intro!: fold_plain add_route_plain)

lemma iface_text_plain: "netlib_plain nl \<Longrightarrow> iface_text_ok nl a \<Longrightarrow> list_all plain_char (a_addr_str a)"
  by (auto simp: netlib_plain_def iface_text_ok_def intro!: addr_plain)

lemma mtu_length: "576 \<le> mtu \<Longrightarrow> mtu \<le> 16128 \<Longrightarrow> length (fmt_int mtu) \<le> 5"
  by (rule fmt_int_length) simp_all

lemma inet4_plain:
  assumes "netlib_plain nl" "iface_ok a" "iface_text_ok nl a" "device_name ifname" "576 \<le> mtu" "mtu \<le> 16128" "plain_commands hist"
    "a_family a = AF_INET" "utun_apply_inet4 nl sys mtu ifname a hist = (rc, hist')"
  shows "plain_commands hist'"
proof -
  have d: "list_all plain_char ifname" "length ifname \<le> 15" using assms(4) by (simp_all add: device_name_def)
  have t: "list_all plain_char (a_addr_str a)" "length (a_addr_str a) \<le> 63"
    using iface_text_plain [OF assms(1,3)] assms(2) by (simp_all add: iface_ok_def)
  have n: "length (fmt_int (a_prefix_len a)) \<le> 2"
    using fmt_int_length [of "a_prefix_len a" 2] assms(2,8) by (simp add: iface_ok_def)
  have ntop: "list_all plain_char (inet_ntop4 nl x)" "length (inet_ntop4 nl x) \<le> 15" for x
    using assms(1) addr_plain by (auto simp: netlib_plain_def less_Suc_eq_le numeral_eq_Suc)
  define net where "net = (\<lambda>x. inet_ntop4 nl (mask4 (a_prefix_len a) x) @ ''/'' @ fmt_int (a_prefix_len a))"
  have net: "list_all plain_char (net x)" "length (net x) \<le> 18" for x
    using ntop n fmt_plain le_trans [OF add_le_mono [OF ntop(2) n]] by (simp_all add: net_def plain_char_def)
  let ?w1 = "ifname @ '' inet '' @ a_addr_str a @ '' '' @ a_addr_str a @ '' mtu '' @ fmt_int mtu @ '' up''"
  let ?w2 = "\<lambda>x. ''-q -n delete -net '' @ net x" and ?w3 = "\<lambda>x. ''-q -n add -net '' @ net x @ '' -interface '' @ ifname"
  have w: "list_all plain_char ?w1" "list_all plain_char (?w2 x)" "list_all plain_char (?w3 x)" for x
    using d(1) t(1) net(1) fmt_plain by (simp_all add: plain_char_def isdigit_def code_def)
  have l: "length ?w1 + 33 < 256" "length (?w2 x) + 33 < 256" "length (?w3 x) + 33 < 256" for x
    using d(2) t(2) mtu_length [OF assms(5,6)] net(2) [of x] by simp_all
  note p = plain_command_fits(1) [OF w(1) l(1)] plain_command_fits(3) [OF w(2) l(2)] plain_command_fits(2) [OF w(3) l(3)]
  show ?thesis
    using assms(7,9) p unfolding utun_apply_inet4_def run_command_def Let_def prod.case net_def split_program append_assoc
    by (auto split: if_splits option.splits)
qed

lemma inet6_plain:
  assumes "netlib_plain nl" "iface_ok a" "iface_text_ok nl a" "device_name ifname" "plain_commands hist"
    "utun_apply_inet6 sys ifname a hist = (rc, hist')"
  shows "plain_commands hist'"
proof -
  have d: "list_all plain_char ifname" "length ifname \<le> 15" using assms(4) by (simp_all add: device_name_def)
  have t: "list_all plain_char (a_addr_str a)" "length (a_addr_str a) \<le> 63"
    using iface_text_plain [OF assms(1,3)] assms(2) by (simp_all add: iface_ok_def)
  have n: "length (fmt_int (a_prefix_len a)) \<le> 3"
    using fmt_int_length [of "a_prefix_len a" 3] assms(2) by (auto simp: iface_ok_def split: if_splits)
  let ?w = "ifname @ '' inet6 '' @ a_addr_str a @ '' prefixlen '' @ fmt_int (a_prefix_len a) @ '' alias''"
  have "list_all plain_char ?w" using d(1) t(1) fmt_plain by (simp add: plain_char_def isdigit_def code_def)
  moreover have "length ?w + 33 < 256" using d(2) t(2) n by simp
  ultimately have "one_command (snprintf 256 (''/sbin/ifconfig '' @ ?w))" by (rule plain_command_fits(1))
  then show ?thesis
    using assms(5,6) unfolding utun_apply_inet6_def run_command_def prod.case by (auto split: if_splits)
qed

lemma apply_addrs_plain:
  "apply_addrs nl sys mtu ifname as v4 hist = (r, hist') \<Longrightarrow> netlib_plain nl \<Longrightarrow> device_name ifname \<Longrightarrow> 576 \<le> mtu \<Longrightarrow> mtu \<le> 16128 \<Longrightarrow>
   \<forall>a \<in> set as. iface_ok a \<and> iface_text_ok nl a \<Longrightarrow> plain_commands hist \<Longrightarrow> plain_commands hist'"
proof (induction nl sys mtu ifname as v4 hist rule: apply_addrs.induct)
  case (2 nl sys mtu ifname a as v4 hist)
  let ?step = "case a_family a of AF_INET \<Rightarrow> utun_apply_inet4 nl sys mtu ifname a hist | AF_INET6 \<Rightarrow> utun_apply_inet6 sys ifname a hist"
  obtain rc h where s: "?step = (rc, h)" by (cases ?step)
  have h: "plain_commands h"
  proof (cases "a_family a")
    case AF_INET
    then show ?thesis using inet4_plain [of nl a ifname mtu hist sys rc h] 2(3-8) s by simp
  next
    case AF_INET6
    then show ?thesis using inet6_plain [of nl a ifname hist sys rc h] 2(3-8) s by simp
  qed
  show ?case
  proof (cases "rc = 0")
    case True
    then show ?thesis using 2(1) [OF s [symmetric]] 2(2-8) s h by simp
  next
    case False
    then show ?thesis using 2(2) s h by simp
  qed
qed simp


lemma demo_netlib_plain: "netlib_plain demo_netlib"
  by (simp add: netlib_plain_def demo_netlib_def addr_char_def isdigit_def code_def)

definition demo_file3 :: string where
  "demo_file3 = ''[Interface]'' @ [CHR 0x0A] @ ''PrivateKey = '' @ replicate 43 (CHR ''A'') @ ''='' @ [CHR 0x0A] @
     ''ListenPort = 9'' @ [CHR 0x0A] @ ''Address = 10.0.0.2/24'' @ [CHR 0x0A] @
     ''[Peer]'' @ [CHR 0x0A] @ ''PublicKey = '' @ replicate 42 (CHR ''A'') @ ''E='' @ [CHR 0x0A] @
     ''AllowedIPs = 10.0.0.2/32'' @ [CHR 0x0A]"

lemma demo_file3_loads:
  "case load_config demo_netlib (Some demo_file3) of None \<Rightarrow> False
   | Some cfg \<Rightarrow> length (snd (utun_configure demo_netlib (\<lambda>h c. True) (effective_mtu cfg) ''utun7'' cfg)) = 5"
  by code_simp


end
