(* ===== verification/CoreProbe.thy ===== *)
theory CoreProbe
  imports Interop
begin

text \<open>
  The one-shot mode of \<^verbatim>\<open>main\<close> in \<^verbatim>\<open>src/wg_core.c\<close>, without \<^verbatim>\<open>--tunnel\<close>: up to five handshake attempts with
  the first peer that has an endpoint, one keepalive, the end. What is shown: a probe that reports success
  holds a session that the answer to its last initiation opened, and its keepalive is the first message of that session;
  and in either mode the program closes every socket it opened, once.
\<close>

subsection \<open>The attempts\<close>

text \<open>One attempt: the outside when the initiation is sent, the datagram that arrives within the three
  seconds (\<open>None\<close>: none, or a failure of \<^verbatim>\<open>select\<close> or \<^verbatim>\<open>recvfrom\<close>), and the outside when it is handled.\<close>

type_synonym attempt = "core_env \<times> bytes option \<times> core_env"

definition wait_for_response ::
    "curve \<Rightarrow> core_env \<Rightarrow> bytes option \<Rightarrow> nat \<Rightarrow> u32 \<Rightarrow> tunnel_ctx \<Rightarrow> int \<times> tunnel_ctx" where
  "wait_for_response cv env arrival i expected_local_idx t =
     (case arrival of
        None \<Rightarrow> (- 1, t)
      | Some buf \<Rightarrow>
          if length buf < 4 then (- 1, t)
          else if le32dec buf = WGS_PKT_COOKIE then
            if length buf < 64 then (- 1, t)
            else
              let nonce = take 24 (drop 8 buf); ec = take 32 (drop 32 buf) in
              (1, upd_q i (\<lambda>p. p\<lparr>q_cookie := snd (cookie_maker_consume_payload (q_cookie p) nonce ec (e_uptime env))\<rparr>) t)
          else if le32dec buf \<noteq> WGS_PKT_RESPONSE \<or> length buf < 92 then (- 1, t)
          else
            let s_idx = le32dec (drop 4 buf); r_idx = le32dec (drop 8 buf); ue = take 32 (drop 12 buf);
                en = take 16 (drop 44 buf)
            in if r_idx \<noteq> expected_local_idx then (- 1, t)
               else
                 (case noise_consume_response cv s_idx r_idx ue en (e_uptime env) (e_alloc env) (t_local t) of
                    (_, None, l) \<Rightarrow> (- 1, t\<lparr>t_local := l\<rparr>)
                  | (_, Some r, l) \<Rightarrow>
                      (if q_remote (t_peers t ! i) \<noteq> Some r then - 1 else 0, t\<lparr>t_local := noise_remote_put r l\<rparr>)))"

text \<open>The loop; a signal ends the list early. The flag tells whether a handshake succeeded.\<close>

fun probe_attempts :: "curve \<Rightarrow> nat \<Rightarrow> attempt list \<Rightarrow> tunnel_ctx \<Rightarrow> (bool \<times> tunnel_ctx) option" where
  "probe_attempts cv i [] t = Some (False, t)"
| "probe_attempts cv i ((env, arrival, env') # as) t =
     (case send_initiation cv env i t of
        None \<Rightarrow> None
      | Some (None, t) \<Rightarrow> probe_attempts cv i as t
      | Some (Some s_idx, t) \<Rightarrow>
          (case wait_for_response cv env' arrival i s_idx t of
             (w, t) \<Rightarrow>
               if w = 0 then Some (True, upd_q i (peer_stamp_keypair (e_time env') (e_jitter env')) t)
               else probe_attempts cv i as t))"

definition send_keepalive_data :: "core_env \<Rightarrow> nat \<Rightarrow> tunnel_ctx \<Rightarrow> (int \<times> tunnel_ctx) option" where
  "send_keepalive_data env i t = wg_encap env i [] t"

definition first_initiator :: "tunnel_ctx \<Rightarrow> nat option" where
  "first_initiator t = List.find (\<lambda>i. q_has_endpoint (t_peers t ! i)) [0..<length (t_peers t)]"

text \<open>The part of \<^verbatim>\<open>main\<close> between the start and the label \<^verbatim>\<open>out\<close>, with the value of \<^verbatim>\<open>ret\<close>; \<open>sig_quit\<close> as it is
  after the loop.\<close>

definition probe :: "curve \<Rightarrow> attempt list \<Rightarrow> bool \<Rightarrow> core_env \<Rightarrow> tunnel_ctx \<Rightarrow> (int \<times> tunnel_ctx) option" where
  "probe cv as sig_quit env t =
     (case first_initiator t of
        None \<Rightarrow> Some (0, t)
      | Some i \<Rightarrow>
          (case probe_attempts cv i (take 5 as) t of
             None \<Rightarrow> None
           | Some (ok, t) \<Rightarrow>
               if sig_quit then Some (0, t)
               else if \<not> ok then Some (1, t)
               else (case send_keepalive_data env i t of None \<Rightarrow> None | Some (_, t) \<Rightarrow> Some (0, t))))"

text \<open>The whole program in this mode, with the state at its end.\<close>

definition probe_main ::
    "curve \<Rightarrow> netlib \<Rightarrow> bytes \<Rightarrow> bool \<Rightarrow> u16 option \<Rightarrow> client_config \<Rightarrow> attempt list \<Rightarrow> bool \<Rightarrow> core_env
     \<Rightarrow> (int \<times> tunnel_ctx) option" where
  "probe_main cv nl hash_key connected_tx bound cfg as sig_quit env =
     (case core_start cv nl hash_key connected_tx bound cfg of
        Inl t \<Rightarrow> Some (1, t)
      | Inr t \<Rightarrow>
          (case probe cv as sig_quit env t of
             None \<Rightarrow> None
           | Some (ret, t) \<Rightarrow> Some (ret, core_stop True t)))"

subsection \<open>The invariant of the tunnel\<close>

lemma op_wait: "op_ok cv env t (snd (wait_for_response cv env arrival i x t))"
proof -
  have 1: "run cv (t_local t) l" if "noise_consume_response cv a b ue en now ok (t_local t) = (e, x, l)" for a b ue en now ok e x l
    using run_interface(6) [of cv "t_local t" a b ue en now ok] by (simp add: that)
  have 2: "run cv (t_local t) (noise_remote_put r l)"
    if "noise_consume_response cv a b ue en now ok (t_local t) = (e, x, l)" for a b ue en now ok e x l r
    using 1 [OF that] run_puts(2) by (rule run_trans)
  have 3: "op_ok cv env t (upd_q i (\<lambda>p. p\<lparr>q_cookie := snd (cookie_maker_consume_payload (q_cookie p) nonce ec now)\<rparr>) t)"
    if "length ec = 32" for nonce ec now
    using consume_payload_ok [OF _ that] by (intro op_upd op_refl) (simp add: q_kept_def, metis prod.collapse)
  show ?thesis
    unfolding wait_for_response_def Let_def
    by (cases arrival) (auto split: option.split prod.split intro!: 3 op_local 1 2 dest: 1 2)
qed

lemma attempts_inv:
  assumes "probe_attempts cv i as t = Some (ok, t')" "tunnel_inv cv t" "i < length (t_peers t)"
    "\<forall>(e, _, e') \<in> set as. kernel_ok e \<and> kernel_ok e'"
  shows "tunnel_inv cv t' \<and> length (t_peers t') = length (t_peers t)"
  using assms
proof (induction cv i as t rule: probe_attempts.induct)
  case (2 cv i env arrival env' as t)
  have k: "kernel_ok env" "kernel_ok env'" using 2(6) by auto
  obtain x u where s: "send_initiation cv env i t = Some (x, u)" using 2(3) by (auto split: option.splits)
  have "remotes_in t" using 2(4) links_remotes_in by (simp add: tunnel_inv_def)
  note op = op_send_initiation [OF this 2(5) s]
  have u: "tunnel_inv cv u" "length (t_peers u) = length (t_peers t)" using inv_op [OF op k(1) 2(4)] op_length [OF op] by simp_all
  show ?case
  proof (cases x)
    case None
    then show ?thesis using 2(1) [OF s refl None _ u(1)] 2(3,5,6) s u by simp
  next
    case (Some s_idx)
    obtain w v where w: "wait_for_response cv env' arrival i s_idx u = (w, v)" by fastforce
    have op: "op_ok cv env' u v" using op_wait [of cv env' u arrival i s_idx] by (simp add: w)
    note v = inv_op [OF op k(2) u(1)] op_length [OF op]
    show ?thesis
    proof (cases "w = 0")
      case True
      have op: "op_ok cv env' v (upd_q i (peer_stamp_keypair (e_time env') (e_jitter env')) v)"
        by (rule op_upd) (simp_all add: q_kept_def peer_stamp_keypair_def)
      then show ?thesis using 2(3) s Some w True inv_op [OF op k(2) v(1)] v(2) u(2) by auto
    next
      case False
      then show ?thesis using 2(2) [OF s refl Some w [symmetric] False _ v(1)] 2(3,5,6) s Some w u v by simp
    qed
  qed
qed simp

lemma first_initiator_peer:
  "first_initiator t = Some i \<Longrightarrow> i < length (t_peers t) \<and> q_has_endpoint (t_peers t ! i)"
  by (auto simp: first_initiator_def find_Some_iff)

lemma probe_inv:
  assumes p: "probe cv as sig_quit env t = Some (ret, t')" and t: "tunnel_inv cv t"
    and k: "\<forall>(e, _, e') \<in> set as. kernel_ok e \<and> kernel_ok e'" "kernel_ok env"
  shows "tunnel_inv cv t'"
proof (cases "first_initiator t")
  case (Some i)
  have i: "i < length (t_peers t)" using first_initiator_peer [OF Some] by simp
  obtain ok u where u: "probe_attempts cv i (take 5 as) t = Some (ok, u)"
    using p Some by (auto simp: probe_def split: option.splits)
  have "\<forall>(e, _, e') \<in> set (take 5 as). kernel_ok e \<and> kernel_ok e'" using k(1) by (auto dest: in_set_takeD)
  then have v: "tunnel_inv cv u" "i < length (t_peers u)" using attempts_inv [OF u t i] i by simp_all
  show ?thesis
    using p Some u v inv_op [OF op_encap [OF v(2)] k(2) v(1)]
    by (auto simp: probe_def send_keepalive_data_def split: if_splits option.splits)
qed (use p t in \<open>simp add: probe_def\<close>)

subsection \<open>The sockets at the end\<close>

lemma core_release_fds:
  assumes "fds_ok t" "i < length (t_peers t)"
  shows "fds_ok (core_release_peer i t)" "q_tx_fd (t_peers (core_release_peer i t) ! i) = - 1"
proof -
  have c: "fds_ok (peer_tx_close i t)"
    using assms fds_ok_at [OF assms(2)] peer_tx_close_fds fds_at_ok by blast
  have "fds_same (peer_tx_close i t) (core_release_peer i t)"
    using fds_same_upd [of "\<lambda>p. p\<lparr>q_cookie := cookie_maker_free (q_cookie p)\<rparr>" "peer_tx_close i t" i]
    by (auto simp: core_release_peer_def Let_def fds_same_def split: option.split)
  then show "fds_ok (core_release_peer i t)" using fds_same_ok c by blast
  show "q_tx_fd (t_peers (core_release_peer i t) ! i) = - 1"
    using assms(2) peer_tx_close_fd [OF assms(2)] peer_tx_close_def [of i t]
    by (auto simp: core_release_peer_def Let_def upd_q_def split: option.split)
qed

lemma core_release_closes:
  "distinct is \<Longrightarrow> \<forall>i \<in> set is. i < length (t_peers t) \<Longrightarrow> fds_ok t \<Longrightarrow>
   fds_ok (fold core_release_peer is t) \<and> length (t_peers (fold core_release_peer is t)) = length (t_peers t) \<and>
   (\<forall>i < length (t_peers t). q_tx_fd (t_peers (fold core_release_peer is t) ! i) = (if i \<in> set is then - 1 else q_tx_fd (t_peers t ! i)))"
proof (induction "is" arbitrary: t)
  case (Cons i "is")
  have i: "i < length (t_peers t)" "i \<notin> set is" "distinct is" using Cons.prems by simp_all
  have len: "length (t_peers (core_release_peer i t)) = length (t_peers t)" by (rule core_release_one(2) [OF i(1)])
  note f = core_release_fds [OF Cons.prems(3) i(1)]
  have "\<forall>j \<in> set is. j < length (t_peers (core_release_peer i t))" using Cons.prems(2) len by simp
  note ih = Cons.IH [OF i(3) this f(1)]
  have "q_tx_fd (t_peers (core_release_peer i t) ! j) = (if j = i then - 1 else q_tx_fd (t_peers t ! j))" if "j < length (t_peers t)" for j
    using f(2) core_release_one(3) [OF i(1), of j] by simp
  then show ?case using ih len i(2) by simp
qed simp

lemma core_stop_closes:
  assumes "tunnel_inv cv t"
  shows "fd_run (t_io (core_stop a t)) {} = Some {}"
proof -
  define u where "u = (let t = (if a then t\<lparr>t_aips_v4 := aips_destroy (t_aips_v4 t), t_aips_v6 := aips_destroy (t_aips_v6 t)\<rparr> else t)
    in t\<lparr>t_checker := map_option cookie_checker_free (t_checker t)\<rparr>)"
  have "fds_same t u" by (simp add: u_def fds_same_def Let_def)
  then have u: "fds_ok u" "t_peers u = t_peers t" using fds_same_ok assms by (auto simp: tunnel_inv_def u_def Let_def)
  let ?v = "fold core_release_peer [0..<length (t_peers u)] u"
  have "fds_ok ?v \<and> length (t_peers ?v) = length (t_peers u) \<and> (\<forall>i < length (t_peers u). q_tx_fd (t_peers ?v ! i) = - 1)"
    using core_release_closes [of "[0..<length (t_peers u)]" u] u(1) by simp
  then have "fds_ok ?v" "peer_fds ?v = {}" by (auto simp: peer_fds_def own_fd_def)
  then have "fd_run (t_io ?v) {} = Some {}" by (simp add: fds_ok_def)
  moreover have "core_stop a t = ?v\<lparr>t_local := noise_local_put (t_local ?v)\<rparr>" by (simp add: core_stop_def u_def Let_def)
  ultimately show ?thesis by simp
qed

subsection \<open>A successful probe\<close>

lemma consume_response_session:
  assumes inv: "noise_inv l" and c: "noise_consume_response cv s_idx r_idx ue en now a l = (e, Some r, l')"
  shows "\<exists>k. session_at l' r k now True r_idx s_idx"
proof -
  obtain q l1 where lk: "noise_remote_index_lookup l r_idx False = (Some q, l1)"
    using c by (auto simp: noise_consume_response_def split: prod.splits option.splits)
  have i1: "noise_inv l1" using same_shape_inv [OF inv index_lookup_shape] lk by (metis snd_conv)
  obtain hs l2 where hs: "r_handshake_state (remotes l1 q) = HANDSHAKE_INITIATOR" "i_local_index (r_index (remotes l1 q)) = r_idx" "r = q"
    and b: "noise_begin_session q now a (upd_remote q (\<lambda>x. x\<lparr>r_handshake := hs, r_index := (r_index x)\<lparr>i_remote_index := s_idx\<rparr>\<rparr>) l1)
      = (OK, l2)" "l' = noise_remote_put q (noise_remote_ref q l2)"
    using c by (auto simp: noise_consume_response_def lk Let_def split: if_splits option.splits prod.splits)
  let ?m = "upd_remote q (\<lambda>x. x\<lparr>r_handshake := hs, r_index := (r_index x)\<lparr>i_remote_index := s_idx\<rparr>\<rparr>) l1"
  have m: "noise_inv ?m" by (rule same_shape_inv [OF i1]) (simp add: same_shape_def)
  have "session_at l2 q (next_keypair ?m) now True r_idx s_idx"
    using begin_session_result(1) [OF m _ b(1)] hs by simp
  then have "session_at l' q (next_keypair ?m) now True r_idx s_idx"
    by (rule session_at_cong) (simp_all add: b(2))
  then show ?thesis using hs(3) by blast
qed

lemma send_initiation_done:
  assumes i: "i < length (t_peers t)" and s: "send_initiation cv env i t = Some (x, t1)"
  shows "q_endpoint (t_peers t1 ! i) = q_endpoint (t_peers t ! i) \<and> q_remote (t_peers t1 ! i) = q_remote (t_peers t ! i) \<and>
    q_endpoint_len (t_peers t1 ! i) = q_endpoint_len (t_peers t ! i) \<and>
    (\<forall>s_idx. x = Some s_idx \<longrightarrow> q_endpoint_len (t_peers t ! i) \<noteq> 0 \<and> (\<exists>dg. sent_once dg (q_endpoint (t_peers t ! i)) (t_io t) (t_io t1) \<and>
       le32dec dg = WGS_PKT_INITIATION \<and> le32dec (drop 4 dg) = s_idx))"
proof (cases "\<exists>r e msg l. q_endpoint_len (t_peers t ! i) \<noteq> 0 \<and> q_remote (t_peers t ! i) = Some r \<and>
    noise_create_initiation cv r (e_uptime env) (e_wall env) (e_rnd env) (e_draws env) (t_local t) = Some (e, Some msg, l)")
  case True
  then obtain r e msg l where c: "q_endpoint_len (t_peers t ! i) \<noteq> 0" "q_remote (t_peers t ! i) = Some r"
    "noise_create_initiation cv r (e_uptime env) (e_wall env) (e_rnd env) (e_draws env) (t_local t) = Some (e, Some msg, l)" by blast
  obtain cm m where m: "cookie_maker_mac (q_cookie (t_peers t ! i)) (initiation_pkt msg) (e_uptime env) = (cm, m)" by fastforce
  define u where "u = upd_q i (\<lambda>p. p\<lparr>q_cookie := cm\<rparr>) (t\<lparr>t_local := l\<rparr>)"
  define dg where "dg = initiation_pkt msg @ mac1 m @ mac2 m"
  obtain rc v where v: "peer_send env i dg u = (rc, v)" by fastforce
  have t1: "t1 = v" "x = (if rc \<noteq> 0 then None else Some (in_s_idx msg))"
    using s c m v by (simp_all add: send_initiation_def Let_def u_def dg_def)
  have u: "length (t_peers u) = length (t_peers t)" "t_io u = t_io t" "t_peers u ! i = (t_peers t ! i)\<lparr>q_cookie := cm\<rparr>"
    using i by (simp_all add: u_def)
  have f: "sock_frame i u v" using sock_frame_send [of i u env dg] by (simp add: v)
  have iu: "i < length (t_peers u)" using i u(1) by simp
  have tx: "tx_only (t_peers u ! i) (t_peers v ! i)" using f iu by (simp add: sock_frame_def)
  have q: "q_remote (t_peers v ! i) = q_remote (t_peers t ! i)" "q_endpoint_len (t_peers v ! i) = q_endpoint_len (t_peers t ! i)"
    "q_endpoint (t_peers v ! i) = q_endpoint (t_peers t ! i)"
    using tx u(3) by (cases "t_peers u ! i"; cases "t_peers v ! i"; auto simp: tx_only_def)+
  have "le32dec dg = WGS_PKT_INITIATION" "le32dec (drop 4 dg) = in_s_idx msg"
    by (simp_all add: dg_def initiation_pkt_def)
  then show ?thesis using peer_send_result [OF iu v] u(2,3) t1 q c(1) by auto
next
  case False
  then have "x = None \<and> t_peers t1 = t_peers t"
    using s by (auto simp: send_initiation_def Let_def split: if_splits option.splits prod.splits)
  then show ?thesis by simp
qed

lemma wait_success:
  assumes "wait_for_response cv env arrival i s_idx t = (0, t')" "noise_inv (t_local t)"
  shows "\<exists>buf r k. arrival = Some buf \<and> le32dec buf = WGS_PKT_RESPONSE \<and> le32dec (drop 8 buf) = s_idx \<and>
    q_remote (t_peers t ! i) = Some r \<and> t_peers t' = t_peers t \<and> t_io t' = t_io t \<and>
    session_at (t_local t') r k (e_uptime env) True s_idx (le32dec (drop 4 buf))"
proof -
  obtain buf where buf: "arrival = Some buf" "\<not> length buf < 4" "le32dec buf = WGS_PKT_RESPONSE" "\<not> length buf < 92"
    "le32dec (drop 8 buf) = s_idx"
    using assms(1) by (auto simp: wait_for_response_def Let_def split: option.splits if_splits)
  let ?c = "noise_consume_response cv (le32dec (drop 4 buf)) s_idx (take 32 (drop 12 buf)) (take 16 (drop 44 buf)) (e_uptime env) (e_alloc env) (t_local t)"
  obtain e r l where c: "?c = (e, Some r, l)" "q_remote (t_peers t ! i) = Some r" "t' = t\<lparr>t_local := noise_remote_put r l\<rparr>"
    using assms(1) buf by (auto simp: wait_for_response_def Let_def WGS_PKT_RESPONSE_def WGS_PKT_COOKIE_def split: option.splits if_splits prod.splits)
  obtain k where "session_at l r k (e_uptime env) True s_idx (le32dec (drop 4 buf))"
    using consume_response_session [OF assms(2) c(1)] by blast
  then have "session_at (t_local t') r k (e_uptime env) True s_idx (le32dec (drop 4 buf))"
    by (rule session_at_cong) (simp_all add: c(3))
  then show ?thesis using buf c by auto
qed

text \<open>What a successful loop leaves: a session of the answer \<open>buf\<close> to the initiation that was sent last.\<close>

definition answered :: "tunnel_ctx \<Rightarrow> nat \<Rightarrow> attempt list \<Rightarrow> tunnel_ctx \<Rightarrow> nat \<Rightarrow> nat \<Rightarrow> core_env \<Rightarrow> bytes \<Rightarrow> bool" where
  "answered t i as t1 r k env' buf \<longleftrightarrow> (\<exists>env. (env, Some buf, env') \<in> set as) \<and> le32dec buf = WGS_PKT_RESPONSE \<and>
     q_remote (t_peers t ! i) = Some r \<and>
     session_at (t_local t1) r k (e_uptime env') True (le32dec (drop 8 buf)) (le32dec (drop 4 buf)) \<and>
     (\<exists>dg xs. sent_once dg (q_endpoint (t_peers t ! i)) xs (t_io t1) \<and> le32dec dg = WGS_PKT_INITIATION \<and>
        le32dec (drop 4 dg) = le32dec (drop 8 buf))"

lemma attempts_success:
  assumes "probe_attempts cv i as t = Some (True, t1)" "noise_reach cv (t_local t)" "remotes_in t" "i < length (t_peers t)"
  shows "(\<exists>r k env' buf. answered t i as t1 r k env' buf) \<and> i < length (t_peers t1) \<and> q_remote (t_peers t1 ! i) = q_remote (t_peers t ! i) \<and>
    q_endpoint (t_peers t1 ! i) = q_endpoint (t_peers t ! i) \<and> q_endpoint_len (t_peers t1 ! i) \<noteq> 0"
  using assms
proof (induction cv i as t rule: probe_attempts.induct)
  case (2 cv i env arrival env' as t)
  obtain x u where s: "send_initiation cv env i t = Some (x, u)" using 2(3) by (auto split: option.splits)
  note op = op_send_initiation [OF 2(5,6) s] and d = send_initiation_done [OF 2(6) s]
  have u: "noise_reach cv (t_local u)" "remotes_in u" "i < length (t_peers u)"
    using op op_length [OF op] remotes_in_frame [OF op 2(5)] 2(4,6) steps_reach
    by (auto simp: op_ok_def tunnel_frame_def run_def)
  have later: ?case if "probe_attempts cv i as v = Some (True, t1)" "op_ok cv env' u v" "t_peers v ! i = (t_peers u ! i)\<lparr>q_cookie := cm\<rparr>"
    "(\<exists>r k env' buf. answered v i as t1 r k env' buf) \<and> i < length (t_peers t1) \<and> q_remote (t_peers t1 ! i) = q_remote (t_peers v ! i) \<and>
      q_endpoint (t_peers t1 ! i) = q_endpoint (t_peers v ! i) \<and> q_endpoint_len (t_peers t1 ! i) \<noteq> 0" for v cm
  proof -
    note t = that
    obtain r k e buf where a: "answered v i as t1 r k e buf" using t(4) by blast
    have "answered t i ((env, arrival, env') # as) t1 r k e buf"
      using a d that(3) unfolding answered_def by auto
    then show ?thesis using that(3,4) d by auto
  qed
  show ?case
  proof (cases x)
    case None
    note ih = 2(1) [OF s refl None _ u]
    have "t_peers u ! i = (t_peers u ! i)\<lparr>q_cookie := q_cookie (t_peers u ! i)\<rparr>" by simp
    then show ?thesis using later [of u "q_cookie (t_peers u ! i)"] ih 2(3) s None by simp
  next
    case (Some s_idx)
    obtain w v where w: "wait_for_response cv env' arrival i s_idx u = (w, v)" by fastforce
    have opv: "op_ok cv env' u v" using op_wait [of cv env' u arrival i s_idx] by (simp add: w)
    have v: "noise_reach cv (t_local v)" "remotes_in v" "i < length (t_peers v)"
      using opv op_length [OF opv] remotes_in_frame [OF opv u(2)] u(1,3) steps_reach
      by (auto simp: op_ok_def tunnel_frame_def run_def)
    show ?thesis
    proof (cases "w = 0")
      case True
      obtain buf r k where b: "arrival = Some buf" "le32dec buf = WGS_PKT_RESPONSE" "le32dec (drop 8 buf) = s_idx"
        "q_remote (t_peers u ! i) = Some r" "t_peers v = t_peers u" "t_io v = t_io u"
        "session_at (t_local v) r k (e_uptime env') True s_idx (le32dec (drop 4 buf))"
        using wait_success [OF w [unfolded True] noise_reach_inv [OF u(1)]] by blast
      have t1: "t1 = upd_q i (peer_stamp_keypair (e_time env') (e_jitter env')) v" using 2(3) s Some w True by simp
      have "answered t i ((env, arrival, env') # as) t1 r k env' buf"
        using b d Some by (auto simp: answered_def t1)
      then show ?thesis using b d Some v(3) by (auto simp: t1 peer_stamp_keypair_def)
    next
      case False
      have pv: "probe_attempts cv i as v = Some (True, t1)" using 2(3) s Some w False by simp
      obtain cm where cm: "t_peers v ! i = (t_peers u ! i)\<lparr>q_cookie := cm\<rparr>"
      proof (cases "t_peers v = t_peers u")
        case True
        then show ?thesis using that [of "q_cookie (t_peers u ! i)"] by simp
      next
        case False
        then obtain f where "t_peers v = t_peers (upd_q i (\<lambda>p. p\<lparr>q_cookie := f p\<rparr>) u)"
          using w by (auto simp: wait_for_response_def Let_def split: if_splits option.splits prod.splits)
        then have "t_peers v ! i = (t_peers u ! i)\<lparr>q_cookie := f (t_peers u ! i)\<rparr>" using u(3) by simp
        then show ?thesis by (rule that)
      qed
      show ?thesis by (rule later [OF pv opv cm 2(2) [OF s refl Some w [symmetric] False pv v]])
    qed
  qed
qed simp


definition demo_prober :: tunnel_ctx where
  "demo_prober = upd_q 0 (\<lambda>p. p\<lparr>q_has_endpoint := True\<rparr>) demo_driver"

lemma demo_prober_simps [simp]:
  "t_local demo_prober = demo_party 1 2" "length (t_peers demo_prober) = 1"
  "t_peers demo_prober ! 0 = zero_peer_state\<lparr>q_endpoint_len := 16, q_remote := Some 0, q_cookie := cookie_maker_init (replicate 32 2),
     q_has_endpoint := True\<rparr>"
  by (simp_all add: demo_prober_def)

lemma encap_returns: "q_remote (t_peers t ! i) \<noteq> None \<Longrightarrow> \<exists>rc t'. wg_encap env i plain t = Some (rc, t')"
  by (auto simp: wg_encap_def Let_def split: option.split prod.split)

lemma demo_probe_succeeds:
  "\<exists>resp t'. probe demo_curve [(demo_env1, Some resp, demo_env1)] False demo_env1 demo_prober = Some (0, t')"
proof -
  obtain msg1 :: initiation_fields and li1 lr1 msg2 lr2 where
    m1: "noise_create_initiation demo_curve 0 0 (7, 0) (replicate 32 5) [4] (demo_party 1 2) = Some (OK, Some msg1, li1)"
    and m2: "noise_consume_initiation demo_curve (in_s_idx msg1) (in_ue msg1) (in_es msg1) (in_ets msg1) 0 [4, 5] (demo_party 2 1)
       = Some (OK, Some 0, lr1)"
    and m3: "noise_create_response demo_curve 0 0 (replicate 32 6) True lr1 = (OK, Some msg2, lr2)"
    using demo_run by blast
  have pos: "0 < length (t_peers demo_prober)" "q_remote (t_peers demo_prober ! 0) = Some 0" by simp_all
  have "\<exists>t1. tunnel_send_initiation demo_curve 7 demo_env1 0 demo_prober = Some (0, t1)"
    by (rule initiation_sendable [where r = 0 and msg = msg1 and ?l1.0 = li1]) (simp_all add: m1)
  then obtain t1 where t1: "tunnel_send_initiation demo_curve 7 demo_env1 0 demo_prober = Some (0, t1)" ..
  have l1: "t_local t1 = li1" "q_hs_local_idx (t_peers t1 ! 0) = in_s_idx msg1" "q_remote (t_peers t1 ! 0) = Some 0"
    using m1 by (rule_tac initiation_leaves [OF pos t1], simp)+
  obtain s_idx u where u: "send_initiation demo_curve demo_env1 0 demo_prober = Some (Some s_idx, u)"
    "t1 = upd_q 0 (\<lambda>p. p\<lparr>q_hs_pending := True, q_hs_sent_at := 7, q_hs_local_idx := s_idx,
       q_hs_attempts := q_hs_attempts p + 1, q_last_authd_tx := 7\<rparr>) u"
    using t1 by (auto simp: tunnel_send_initiation_def split: option.splits)
  have "remotes_in demo_prober" by (simp add: remotes_in_def demo_party_fields)
  then have lu: "0 < length (t_peers u)" using op_length [OF op_send_initiation [OF _ _ u(1)]] by simp
  have u': "t_local u = li1" "s_idx = in_s_idx msg1" "q_remote (t_peers u ! 0) = Some 0"
    using l1 lu by (simp_all add: u(2))
  obtain x1 where x: "write_response demo_curve 0 (replicate 32 6) lr1 = (Some (rs_ue msg2, rs_en msg2), x1)"
    using create_response_ok [OF m3] by blast
  have sz: "length (rs_ue msg2) = 32" "length (rs_en msg2) = 16"
    using write_response_sizes [OF x] public_size [OF demo_curve_sizes, of "replicate 32 6"] by auto
  obtain li2 k_i k_r where c: "noise_consume_response demo_curve (rs_s_idx msg2) (rs_r_idx msg2) (rs_ue msg2) (rs_en msg2) 0 True li1
      = (OK, Some 0, li2)" "rs_r_idx msg2 = in_s_idx msg1"
    using handshake_agrees [OF demo_curve_commutes noise_reach_inv [OF demo_party_reach] _ _ noise_reach_inv [OF demo_party_reach] _ _ _ _ m1 m2 m3, where ?t4.0 = 0]
      demo_configured demo_lookup by (auto simp: demo_party_fields)
  define resp where "resp = response_pkt msg2 @ replicate 16 0 @ replicate 16 0"
  note f = response_dg_fields [OF sz, of "replicate 16 0" "replicate 16 0", folded resp_def, simplified]
  have w: "wait_for_response demo_curve demo_env1 (Some resp) 0 s_idx u = (0, u\<lparr>t_local := noise_remote_put 0 li2\<rparr>)"
    using c u' f by (simp add: wait_for_response_def Let_def WGS_PKT_RESPONSE_def WGS_PKT_COOKIE_def)
  obtain v where v: "probe_attempts demo_curve 0 [(demo_env1, Some resp, demo_env1)] demo_prober = Some (True, v)" "q_remote (t_peers v ! 0) = Some 0"
    using u(1) w u'(3) lu by (simp add: peer_stamp_keypair_def)
  have "first_initiator demo_prober = Some 0" by (simp add: first_initiator_def)
  then have "\<exists>t'. probe demo_curve [(demo_env1, Some resp, demo_env1)] False demo_env1 demo_prober = Some (0, t')"
    using v encap_returns [of v 0 demo_env1 "[]"] by (auto simp: probe_def send_keepalive_data_def)
  then show ?thesis ..
qed


text \<open>C36: The program closes what it opened. From every state that the loop of the tunnel reaches, and after a probe from
  any of them, the code at \<^verbatim>\<open>out\<close> closes every connected socket that is still open: seen from the
  kernel, over the whole run no socket is used or closed when it is not open, and none is left.\<close>

theorem program_closes_sockets:
  assumes "netlib_ok nl" "core_reach cv nl t"
    and "\<forall>(e, _, e') \<in> set as. kernel_ok e \<and> kernel_ok e'" "kernel_ok env"
  shows "fd_run (t_io (core_stop True t)) {} = Some {} \<and>
    (\<forall>ret t'. probe cv as sig_quit env t = Some (ret, t') \<longrightarrow> fd_run (t_io (core_stop True t')) {} = Some {})"
  using core_stop_closes core_reach_inv [OF assms(2,1)] probe_inv [OF _ _ assms(3,4)] by blast

theorem program_closes_sockets_witness:
  "\<exists>cfg t. load_config demo_netlib (Some demo_file) = Some cfg \<and>
     core_start demo_curve demo_netlib (replicate 16 0) True (Some 9) cfg = Inr t \<and> fd_run (t_io (core_stop True t)) {} = Some {}"
proof -
  obtain cfg t where c: "load_config demo_netlib (Some demo_file) = Some cfg"
    "core_start demo_curve demo_netlib (replicate 16 0) True (Some 9) cfg = Inr t"
    using demo_tunnel_starts by blast
  have "kernel_ok (demo_core_env :: core_env)" by (simp add: kernel_ok_def demo_core_env_def)
  then show ?thesis
    using program_closes_sockets [OF demo_netlib_ok core_reach.start [OF c], of "[]"] c by auto
qed

end
