(* ===== verification/IfState.thy ===== *)
theory IfState
  imports SessionState
begin

text \<open>
  The state of \<^verbatim>\<open>src/if_wg.c\<close>, the FreeBSD network interface that the project was ported from: packets, their
  queues, peers, sockets, the table of allowed addresses, and the output of the interface.

  Memory that the driver allocates is numbered: a packet, a peer and an \<^verbatim>\<open>struct wg_aip\<close> are indices into a heap, and
  a pointer to a queue names the queue. An mbuf is the record of \<^verbatim>\<open>crypto_dispatch\<close>'s model, without metadata. The radix
  tree of the kernel is the parameter \<open>radix\<close>; a callout is the delay in milliseconds with which it is pending.
  What the kernel answers is in \<open>if_env\<close>.
\<close>

subsection \<open>Packets and queues\<close>

definition MAX_STAGED_PKT :: nat where "MAX_STAGED_PKT = 128"
definition MAX_QUEUED_PKT :: nat where "MAX_QUEUED_PKT = 1024"
definition MAX_QUEUED_HANDSHAKES :: nat where "MAX_QUEUED_HANDSHAKES = 4096"
definition WG_PKT_PADDING :: int where "WG_PKT_PADDING = 16"

record wg_endpoint =
  ep_remote :: sockaddr
  ep_local :: bytes

datatype wg_ring_state = WG_PACKET_UNCRYPTED | WG_PACKET_CRYPTED | WG_PACKET_DEAD

record wg_packet =
  pk_endpoint :: wg_endpoint
  pk_keypair :: "nat option"
  pk_nonce :: u64
  pk_mbuf :: "mbuf option"
  pk_mtu :: int
  pk_af :: "af option"
  pk_state :: wg_ring_state

record wg_queue =
  wq_list :: "nat list"
  wq_len :: nat

text \<open>The queues, by the structure and the field that holds them.\<close>

datatype queue_ref =
  Stage nat
| Encrypt_serial nat
| Decrypt_serial nat
| Handshake_queue
| Encrypt_parallel
| Decrypt_parallel

datatype task = Task_handshake | Task_encrypt nat | Task_decrypt nat | Task_send nat | Task_recv nat

subsection \<open>Peers and the interface\<close>

type_synonym wg_callout = "nat option"

record wg_peer =
  w_remote :: nat
  w_cookie :: cookie_maker
  w_endpoint :: wg_endpoint
  w_enabled :: bool
  w_need_another_keepalive :: bool
  w_persistent_keepalive_interval :: nat
  w_new_handshake :: wg_callout
  w_send_keepalive :: wg_callout
  w_retry_handshake :: wg_callout
  w_zero_key_material :: wg_callout
  w_persistent_keepalive :: wg_callout
  w_handshake_complete :: "u64 \<times> u64"
  w_handshake_retries :: nat
  w_tx_bytes :: u64
  w_rx_bytes :: u64
  w_aips :: "nat list"
  w_aips_num :: nat

record wg_aip =
  a_addr :: bytes
  a_mask :: bytes
  a_peer :: nat
  a_af :: af

record wg_socket =
  so_so4 :: bool
  so_so6 :: bool
  so_user_cookie :: u32
  so_fibnum :: int
  so_port :: nat

record if_counters =
  ic_ipackets :: u64
  ic_ibytes :: u64
  ic_opackets :: u64
  ic_obytes :: u64
  ic_ierrors :: u64
  ic_oerrors :: u64
  ic_iqdrops :: u64
  ic_oqdrops :: u64

text \<open>What the interface hands to the network stack: a datagram with its remote and, if it is set, its local address; an
  IP packet for \<^verbatim>\<open>netisr_dispatch\<close>; an ICMP error about a packet.\<close>

datatype if_out =
  Udp_out bytes sockaddr "bytes option"
| Ip_in af bytes
| Icmp_error af bytes

text \<open>The kernel's radix tree, with the entry that an address and a mask give, and the kernel's functions on prefix lengths.\<close>

record 'r radix =
  rn_inithead :: "nat \<Rightarrow> 'r option"
  rnh_addaddr :: "bytes \<Rightarrow> bytes \<Rightarrow> nat \<Rightarrow> 'r \<Rightarrow> bool \<times> 'r"
  rnh_lookup :: "bytes \<Rightarrow> bytes \<Rightarrow> 'r \<Rightarrow> nat option"
  rnh_deladdr :: "bytes \<Rightarrow> bytes \<Rightarrow> 'r \<Rightarrow> 'r option"
  rnh_matchaddr :: "bytes \<Rightarrow> 'r \<Rightarrow> nat option"
  in6_prefixlen2mask :: "nat \<Rightarrow> bytes"
  in6_mask2len :: "bytes \<Rightarrow> nat"
  bitcount32 :: "u32 \<Rightarrow> nat"

record 'r wg_softc =
  sc_running :: bool
  sc_dying :: bool
  sc_ucred :: bool
  sc_mtu :: int
  sc_link_up :: bool
  sc_socket :: wg_socket
  sc_peers :: "nat list"
  sc_peers_num :: nat
  sc_peer :: "nat \<Rightarrow> wg_peer"
  sc_next_peer :: nat
  sc_local :: noise_local
  sc_cookie :: cookie_checker
  sc_globals :: cookie_globals
  sc_last_underload :: sbintime
  sc_aip4 :: 'r
  sc_aip6 :: 'r
  sc_aip :: "nat \<Rightarrow> wg_aip"
  sc_next_aip :: nat
  sc_queue :: "queue_ref \<Rightarrow> wg_queue"
  sc_pkt :: "nat \<Rightarrow> wg_packet option"
  sc_next_pkt :: nat
  sc_tasks :: "task set"
  sc_ncpus :: nat
  sc_encrypt_last_cpu :: nat
  sc_decrypt_last_cpu :: nat
  sc_counters :: if_counters
  sc_out :: "if_out list"

text \<open>The outside of one call: besides \<open>env\<close>, the outcome of the allocations of packets and mbufs (of \<^verbatim>\<open>m_pullup\<close> by the length
  it is asked for), the result of \<^verbatim>\<open>sosend\<close>,
  the jitter of a timer, the test for nested tunnels, whether the interface is being destroyed, and the random bytes of a cookie.\<close>

record if_env = env +
  e_pkt :: bool
  e_pullup :: "nat \<Rightarrow> bool"
  e_unshare :: bool
  e_prepend :: bool
  e_control :: bool
  e_sosend :: "wg_endpoint \<Rightarrow> bytes \<Rightarrow> errno"
  e_jitter_ms :: nat
  e_nested :: bool
  e_if_dying :: bool
  e_cookie_nonce :: bytes
  e_secret :: bytes

definition upd_w :: "nat \<Rightarrow> (wg_peer \<Rightarrow> wg_peer) \<Rightarrow> 'r wg_softc \<Rightarrow> 'r wg_softc" where
  "upd_w i f sc = sc\<lparr>sc_peer := (sc_peer sc)(i := f (sc_peer sc i))\<rparr>"

definition upd_pk :: "nat \<Rightarrow> (wg_packet \<Rightarrow> wg_packet) \<Rightarrow> 'r wg_softc \<Rightarrow> 'r wg_softc" where
  "upd_pk p f sc = sc\<lparr>sc_pkt := (sc_pkt sc)(p := map_option f (sc_pkt sc p))\<rparr>"

definition upd_queue :: "queue_ref \<Rightarrow> (wg_queue \<Rightarrow> wg_queue) \<Rightarrow> 'r wg_softc \<Rightarrow> 'r wg_softc" where
  "upd_queue q f sc = sc\<lparr>sc_queue := (sc_queue sc)(q := f (sc_queue sc q))\<rparr>"

definition upd_local :: "(noise_local \<Rightarrow> noise_local) \<Rightarrow> 'r wg_softc \<Rightarrow> 'r wg_softc" where
  "upd_local f sc = sc\<lparr>sc_local := f (sc_local sc)\<rparr>"

definition count :: "(if_counters \<Rightarrow> if_counters) \<Rightarrow> 'r wg_softc \<Rightarrow> 'r wg_softc" where
  "count f sc = sc\<lparr>sc_counters := f (sc_counters sc)\<rparr>"

definition emit :: "if_out \<Rightarrow> 'r wg_softc \<Rightarrow> 'r wg_softc" where
  "emit x sc = sc\<lparr>sc_out := sc_out sc @ [x]\<rparr>"

definition enqueue_task :: "task \<Rightarrow> 'r wg_softc \<Rightarrow> 'r wg_softc" where
  "enqueue_task t sc = sc\<lparr>sc_tasks := insert t (sc_tasks sc)\<rparr>"

subsection \<open>Packets\<close>

definition no_endpoint :: wg_endpoint where
  "no_endpoint = \<lparr>ep_remote = Sa_other, ep_local = []\<rparr>"

definition wg_packet_alloc :: "if_env \<Rightarrow> mbuf \<Rightarrow> 'r wg_softc \<Rightarrow> nat option \<times> 'r wg_softc" where
  "wg_packet_alloc env m sc =
     (if \<not> e_pkt env then (None, sc)
      else
        let p = sc_next_pkt sc;
            pkt = \<lparr>pk_endpoint = no_endpoint, pk_keypair = None, pk_nonce = 0, pk_mbuf = Some m, pk_mtu = 0, pk_af = None,
                   pk_state = WG_PACKET_UNCRYPTED\<rparr>
        in (Some p, sc\<lparr>sc_pkt := (sc_pkt sc)(p \<mapsto> pkt), sc_next_pkt := p + 1\<rparr>))"

definition wg_packet_free :: "nat \<Rightarrow> 'r wg_softc \<Rightarrow> 'r wg_softc" where
  "wg_packet_free p sc =
     (let sc = (case sc_pkt sc p of
                  Some pkt \<Rightarrow> (case pk_keypair pkt of Some k \<Rightarrow> upd_local (noise_keypair_put k) sc | None \<Rightarrow> sc)
                | None \<Rightarrow> sc)
      in sc\<lparr>sc_pkt := (sc_pkt sc)(p := None)\<rparr>)"

subsection \<open>Queues\<close>

definition wg_queue_init :: wg_queue where
  "wg_queue_init = \<lparr>wq_list = [], wq_len = 0\<rparr>"

definition wg_queue_len :: "queue_ref \<Rightarrow> 'r wg_softc \<Rightarrow> nat" where
  "wg_queue_len q sc = wq_len (sc_queue sc q)"

definition insert_tail :: "nat \<Rightarrow> wg_queue \<Rightarrow> wg_queue" where
  "insert_tail p q = q\<lparr>wq_list := wq_list q @ [p], wq_len := wq_len q + 1\<rparr>"

definition remove_head :: "wg_queue \<Rightarrow> wg_queue" where
  "remove_head q = q\<lparr>wq_list := tl (wq_list q), wq_len := wq_len q - 1\<rparr>"

definition wg_queue_enqueue_handshake :: "queue_ref \<Rightarrow> nat \<Rightarrow> 'r wg_softc \<Rightarrow> errno \<times> 'r wg_softc" where
  "wg_queue_enqueue_handshake hs p sc =
     (if wq_len (sc_queue sc hs) < MAX_QUEUED_HANDSHAKES then (OK, upd_queue hs (insert_tail p) sc)
      else (ENOBUFS, wg_packet_free p sc))"

definition wg_queue_dequeue_handshake :: "queue_ref \<Rightarrow> 'r wg_softc \<Rightarrow> nat option \<times> 'r wg_softc" where
  "wg_queue_dequeue_handshake hs sc =
     (case wq_list (sc_queue sc hs) of
        [] \<Rightarrow> (None, sc)
      | p # _ \<Rightarrow> (Some p, upd_queue hs remove_head sc))"

definition wg_queue_push_staged :: "queue_ref \<Rightarrow> nat \<Rightarrow> 'r wg_softc \<Rightarrow> 'r wg_softc" where
  "wg_queue_push_staged staged p sc =
     (if wq_len (sc_queue sc staged) \<ge> MAX_STAGED_PKT then
        let old = hd (wq_list (sc_queue sc staged));
            sc = upd_queue staged (insert_tail p) (upd_queue staged remove_head sc)
        in wg_packet_free old sc
      else upd_queue staged (insert_tail p) sc)"

definition wg_queue_enlist_staged :: "queue_ref \<Rightarrow> nat list \<Rightarrow> 'r wg_softc \<Rightarrow> 'r wg_softc" where
  "wg_queue_enlist_staged staged list sc = fold (wg_queue_push_staged staged) list sc"

definition wg_queue_delist_staged :: "queue_ref \<Rightarrow> 'r wg_softc \<Rightarrow> nat list \<times> 'r wg_softc" where
  "wg_queue_delist_staged staged sc = (wq_list (sc_queue sc staged), upd_queue staged (\<lambda>_. wg_queue_init) sc)"

definition wg_queue_purge :: "queue_ref \<Rightarrow> 'r wg_softc \<Rightarrow> 'r wg_softc" where
  "wg_queue_purge staged sc =
     (case wg_queue_delist_staged staged sc of (list, sc) \<Rightarrow> fold wg_packet_free list sc)"

text \<open>\<^verbatim>\<open>wg_queue_both\<close> takes the lock of one queue after the other: two steps, of which the second runs when the first
  succeeded.\<close>

definition queue_both_serial :: "queue_ref \<Rightarrow> nat \<Rightarrow> 'r wg_softc \<Rightarrow> errno \<times> 'r wg_softc" where
  "queue_both_serial serial p sc =
     (let sc = upd_pk p (\<lambda>k. k\<lparr>pk_state := WG_PACKET_UNCRYPTED\<rparr>) sc in
      if wq_len (sc_queue sc serial) < MAX_QUEUED_PKT then (OK, upd_queue serial (insert_tail p) sc)
      else (ENOBUFS, wg_packet_free p sc))"

definition queue_both_parallel :: "queue_ref \<Rightarrow> nat \<Rightarrow> 'r wg_softc \<Rightarrow> errno \<times> 'r wg_softc" where
  "queue_both_parallel parallel p sc =
     (if wq_len (sc_queue sc parallel) < MAX_QUEUED_PKT then (OK, upd_queue parallel (insert_tail p) sc)
      else (ENOBUFS, upd_pk p (\<lambda>k. k\<lparr>pk_state := WG_PACKET_DEAD\<rparr>) sc))"

definition wg_queue_both :: "queue_ref \<Rightarrow> queue_ref \<Rightarrow> nat \<Rightarrow> 'r wg_softc \<Rightarrow> errno \<times> 'r wg_softc" where
  "wg_queue_both parallel serial p sc =
     (case queue_both_serial serial p sc of
        (rc, sc) \<Rightarrow> if rc \<noteq> OK then (rc, sc) else queue_both_parallel parallel p sc)"

definition wg_queue_dequeue_serial :: "queue_ref \<Rightarrow> 'r wg_softc \<Rightarrow> nat option \<times> 'r wg_softc" where
  "wg_queue_dequeue_serial serial sc =
     (case wq_list (sc_queue sc serial) of
        [] \<Rightarrow> (None, sc)
      | p # _ \<Rightarrow>
          if wq_len (sc_queue sc serial) > 0 \<and> map_option pk_state (sc_pkt sc p) \<noteq> Some WG_PACKET_UNCRYPTED
          then (Some p, upd_queue serial remove_head sc) else (None, sc))"

definition wg_queue_dequeue_parallel :: "queue_ref \<Rightarrow> 'r wg_softc \<Rightarrow> nat option \<times> 'r wg_softc" where
  "wg_queue_dequeue_parallel parallel sc =
     (if wq_len (sc_queue sc parallel) > 0
      then (Some (hd (wq_list (sc_queue sc parallel))), upd_queue parallel remove_head sc) else (None, sc))"

definition wg_encrypt_dispatch :: "'r wg_softc \<Rightarrow> 'r wg_softc" where
  "wg_encrypt_dispatch sc =
     (let cpu = (sc_encrypt_last_cpu sc + 1) mod sc_ncpus sc
      in enqueue_task (Task_encrypt cpu) (sc\<lparr>sc_encrypt_last_cpu := cpu\<rparr>))"

definition wg_decrypt_dispatch :: "'r wg_softc \<Rightarrow> 'r wg_softc" where
  "wg_decrypt_dispatch sc =
     (let cpu = (sc_decrypt_last_cpu sc + 1) mod sc_ncpus sc
      in enqueue_task (Task_decrypt cpu) (sc\<lparr>sc_decrypt_last_cpu := cpu\<rparr>))"

end
