(* ===== verification/IfTimers.thy ===== *)
theory IfTimers
  imports IfState
begin

text \<open>
  Sending and the timers of \<^verbatim>\<open>src/if_wg.c\<close>: the sockets, the five callouts of a peer and the events that
  schedule them, and what their handlers send. A function returns \<open>None\<close> only when the draws for a
  random index run out.
\<close>

definition REKEY_TIMEOUT_JITTER :: nat where "REKEY_TIMEOUT_JITTER = 334"
definition MAX_TIMER_HANDSHAKES :: nat where "MAX_TIMER_HANDSHAKES = 90 div unat REKEY_TIMEOUT"
definition NEW_HANDSHAKE_TIMEOUT :: nat where "NEW_HANDSHAKE_TIMEOUT = unat REKEY_TIMEOUT + unat KEEPALIVE_TIMEOUT"

subsection \<open>Sending a datagram\<close>

definition wg_send :: "if_env \<Rightarrow> wg_endpoint \<Rightarrow> mbuf \<Rightarrow> 'r wg_softc \<Rightarrow> errno \<times> 'r wg_softc" where
  "wg_send env e m sc =
     (let len = of_nat (length (m_data m));
          control = (if list_all (\<lambda>b. b = 0) (ep_local e) \<or> \<not> e_control env then None else Some (ep_local e))
      in if ep_remote e = Sa_other then (EAFNOSUPPORT, sc)
      else if case ep_remote e of Sin _ _ \<Rightarrow> so_so4 (sc_socket sc) | _ \<Rightarrow> so_so6 (sc_socket sc) then
        let ret = e_sosend env e (m_data m) in
        if ret = OK
        then (OK, count (\<lambda>c. c\<lparr>ic_opackets := ic_opackets c + 1, ic_obytes := ic_obytes c + len\<rparr>)
                    (emit (Udp_out (m_data m) (ep_remote e) control) sc))
        else (ret, sc)
      else (ENOTCONN, sc))"

definition wg_send_buf :: "if_env \<Rightarrow> wg_endpoint \<Rightarrow> bytes \<Rightarrow> 'r wg_softc \<Rightarrow> 'r wg_softc" where
  "wg_send_buf env e buf sc =
     (case m_devget (e_mbuf env) buf of
        None \<Rightarrow> sc
      | Some m \<Rightarrow>
          (case wg_send env e m sc of
             (ret, sc) \<Rightarrow>
               if ret = EADDRNOTAVAIL then snd (wg_send env (e\<lparr>ep_local := []\<rparr>) m sc) else sc))"

definition wg_peer_set_endpoint :: "nat \<Rightarrow> wg_endpoint \<Rightarrow> 'r wg_softc \<Rightarrow> 'r wg_softc" where
  "wg_peer_set_endpoint i e sc =
     (if e = w_endpoint (sc_peer sc i) then sc else upd_w i (\<lambda>w. w\<lparr>w_endpoint := e\<rparr>) sc)"

definition wg_peer_clear_src :: "nat \<Rightarrow> 'r wg_softc \<Rightarrow> 'r wg_softc" where
  "wg_peer_clear_src i sc = upd_w i (\<lambda>w. w\<lparr>w_endpoint := (w_endpoint w)\<lparr>ep_local := []\<rparr>\<rparr>) sc"

definition wg_peer_get_endpoint :: "nat \<Rightarrow> 'r wg_softc \<Rightarrow> wg_endpoint" where
  "wg_peer_get_endpoint i sc = w_endpoint (sc_peer sc i)"

subsection \<open>Events that only schedule\<close>

definition wg_timers_get_last_handshake :: "nat \<Rightarrow> 'r wg_softc \<Rightarrow> u64 \<times> u64" where
  "wg_timers_get_last_handshake i sc = w_handshake_complete (sc_peer sc i)"

definition wg_timers_disable :: "nat \<Rightarrow> 'r wg_softc \<Rightarrow> 'r wg_softc" where
  "wg_timers_disable i sc =
     upd_w i (\<lambda>w. w\<lparr>w_enabled := False, w_need_another_keepalive := False, w_new_handshake := None, w_send_keepalive := None,
        w_retry_handshake := None, w_persistent_keepalive := None, w_zero_key_material := None\<rparr>) sc"

definition wg_timers_event_data_sent :: "if_env \<Rightarrow> nat \<Rightarrow> 'r wg_softc \<Rightarrow> 'r wg_softc" where
  "wg_timers_event_data_sent env i sc =
     upd_w i (\<lambda>w. if w_enabled w \<and> w_new_handshake w = None
        then w\<lparr>w_new_handshake := Some (NEW_HANDSHAKE_TIMEOUT * 1000 + e_jitter_ms env)\<rparr> else w) sc"

definition wg_timers_event_data_received :: "nat \<Rightarrow> 'r wg_softc \<Rightarrow> 'r wg_softc" where
  "wg_timers_event_data_received i sc =
     upd_w i (\<lambda>w. if \<not> w_enabled w then w
        else if w_send_keepalive w = None then w\<lparr>w_send_keepalive := Some (unat KEEPALIVE_TIMEOUT * 1000)\<rparr>
        else w\<lparr>w_need_another_keepalive := True\<rparr>) sc"

definition wg_timers_event_any_authenticated_packet_sent :: "nat \<Rightarrow> 'r wg_softc \<Rightarrow> 'r wg_softc" where
  "wg_timers_event_any_authenticated_packet_sent i sc = upd_w i (\<lambda>w. w\<lparr>w_send_keepalive := None\<rparr>) sc"

definition wg_timers_event_any_authenticated_packet_received :: "nat \<Rightarrow> 'r wg_softc \<Rightarrow> 'r wg_softc" where
  "wg_timers_event_any_authenticated_packet_received i sc = upd_w i (\<lambda>w. w\<lparr>w_new_handshake := None\<rparr>) sc"

definition wg_timers_event_any_authenticated_packet_traversal :: "nat \<Rightarrow> 'r wg_softc \<Rightarrow> 'r wg_softc" where
  "wg_timers_event_any_authenticated_packet_traversal i sc =
     upd_w i (\<lambda>w. if w_enabled w \<and> w_persistent_keepalive_interval w > 0
        then w\<lparr>w_persistent_keepalive := Some (w_persistent_keepalive_interval w * 1000)\<rparr> else w) sc"

definition wg_timers_event_handshake_initiated :: "if_env \<Rightarrow> nat \<Rightarrow> 'r wg_softc \<Rightarrow> 'r wg_softc" where
  "wg_timers_event_handshake_initiated env i sc =
     upd_w i (\<lambda>w. if w_enabled w
        then w\<lparr>w_retry_handshake := Some (unat REKEY_TIMEOUT * 1000 + e_jitter_ms env)\<rparr> else w) sc"

definition wg_timers_event_session_derived :: "nat \<Rightarrow> 'r wg_softc \<Rightarrow> 'r wg_softc" where
  "wg_timers_event_session_derived i sc =
     upd_w i (\<lambda>w. if w_enabled w then w\<lparr>w_zero_key_material := Some (unat REJECT_AFTER_TIME * 3 * 1000)\<rparr> else w) sc"

subsection \<open>Handshake messages\<close>

definition wg_peer_send_buf :: "if_env \<Rightarrow> nat \<Rightarrow> bytes \<Rightarrow> 'r wg_softc \<Rightarrow> 'r wg_softc" where
  "wg_peer_send_buf env i buf sc =
     (let sc = upd_w i (\<lambda>w. w\<lparr>w_tx_bytes := w_tx_bytes w + of_nat (length buf)\<rparr>) sc;
          sc = wg_timers_event_any_authenticated_packet_traversal i sc;
          sc = wg_timers_event_any_authenticated_packet_sent i sc
      in wg_send_buf env (wg_peer_get_endpoint i sc) buf sc)"

text \<open>The message, its MACs by the maker of the peer, the datagram.\<close>

definition wg_send_macs :: "if_env \<Rightarrow> nat \<Rightarrow> bytes \<Rightarrow> 'r wg_softc \<Rightarrow> 'r wg_softc" where
  "wg_send_macs env i pkt sc =
     (case cookie_maker_mac (w_cookie (sc_peer sc i)) pkt (e_uptime env) of
        (cm, m) \<Rightarrow> wg_peer_send_buf env i (pkt @ mac1 m @ mac2 m) (upd_w i (\<lambda>w. w\<lparr>w_cookie := cm\<rparr>) sc))"

definition wg_send_initiation :: "curve \<Rightarrow> if_env \<Rightarrow> nat \<Rightarrow> 'r wg_softc \<Rightarrow> 'r wg_softc option" where
  "wg_send_initiation cv env i sc =
     (case noise_create_initiation cv (w_remote (sc_peer sc i)) (e_uptime env) (e_wall env) (e_rnd env) (e_draws env) (sc_local sc) of
        None \<Rightarrow> None
      | Some (_, None, l) \<Rightarrow> Some (sc\<lparr>sc_local := l\<rparr>)
      | Some (_, Some msg, l) \<Rightarrow>
          Some (wg_timers_event_handshake_initiated env i (wg_send_macs env i (initiation_pkt msg) (sc\<lparr>sc_local := l\<rparr>))))"

definition wg_send_response :: "curve \<Rightarrow> if_env \<Rightarrow> nat \<Rightarrow> 'r wg_softc \<Rightarrow> 'r wg_softc" where
  "wg_send_response cv env i sc =
     (case noise_create_response cv (w_remote (sc_peer sc i)) (e_uptime env) (e_rnd env) (e_alloc env) (sc_local sc) of
        (_, None, l) \<Rightarrow> sc\<lparr>sc_local := l\<rparr>
      | (_, Some msg, l) \<Rightarrow> wg_send_macs env i (response_pkt msg) (wg_timers_event_session_derived i (sc\<lparr>sc_local := l\<rparr>)))"

definition wg_send_cookie :: "if_env \<Rightarrow> cookie_macs \<Rightarrow> u32 \<Rightarrow> wg_endpoint \<Rightarrow> 'r wg_softc \<Rightarrow> 'r wg_softc" where
  "wg_send_cookie env cm idx e sc =
     (case cookie_checker_create_payload (sc_cookie sc) cm (e_cookie_nonce env) (ep_remote e) (e_uptime env) (e_secret env) [] of
        (cc, ec) \<Rightarrow>
          wg_send_buf env e (le32enc WGS_PKT_COOKIE @ le32enc idx @ e_cookie_nonce env @ ec) (sc\<lparr>sc_cookie := cc\<rparr>))"

subsection \<open>Events that send\<close>

definition wg_timers_run_send_initiation :: "curve \<Rightarrow> if_env \<Rightarrow> nat \<Rightarrow> bool \<Rightarrow> 'r wg_softc \<Rightarrow> 'r wg_softc option" where
  "wg_timers_run_send_initiation cv env i is_retry sc =
     (let sc = (if \<not> is_retry then upd_w i (\<lambda>w. w\<lparr>w_handshake_retries := 0\<rparr>) sc else sc) in
      if noise_remote_initiation_expired (sc_local sc) (w_remote (sc_peer sc i)) (e_uptime env)
      then wg_send_initiation cv env i sc else Some sc)"

definition wg_timers_event_want_initiation :: "curve \<Rightarrow> if_env \<Rightarrow> nat \<Rightarrow> 'r wg_softc \<Rightarrow> 'r wg_softc option" where
  "wg_timers_event_want_initiation cv env i sc =
     (if w_enabled (sc_peer sc i) then wg_timers_run_send_initiation cv env i False sc else Some sc)"

text \<open>The two loops of \<^verbatim>\<open>wg_peer_send_staged\<close>: the counters, up to the first that is refused, and the encryption queues.\<close>

fun assign_nonces :: "nat \<Rightarrow> nat list \<Rightarrow> 'r wg_softc \<Rightarrow> bool \<times> 'r wg_softc" where
  "assign_nonces k [] sc = (True, sc)"
| "assign_nonces k (p # ps) sc =
     (case nonce_next_at k (sc_local sc) of
        (e, nonce, l) \<Rightarrow>
          let sc = upd_pk p (\<lambda>pkt. pkt\<lparr>pk_nonce := nonce\<rparr>) (sc\<lparr>sc_local := l\<rparr>) in
          if e \<noteq> OK then (False, sc) else assign_nonces k ps sc)"

definition queue_encrypt :: "nat \<Rightarrow> nat \<Rightarrow> nat \<Rightarrow> 'r wg_softc \<Rightarrow> 'r wg_softc" where
  "queue_encrypt k i p sc =
     (let sc = upd_pk p (\<lambda>pkt. pkt\<lparr>pk_keypair := Some k\<rparr>) (upd_local (noise_keypair_ref k) sc) in
      (case wg_queue_both Encrypt_parallel (Encrypt_serial i) p sc of
         (rc, sc) \<Rightarrow> if rc \<noteq> OK then count (\<lambda>c. c\<lparr>ic_oqdrops := ic_oqdrops c + 1\<rparr>) sc else sc))"

definition wg_peer_send_staged :: "curve \<Rightarrow> if_env \<Rightarrow> nat \<Rightarrow> 'r wg_softc \<Rightarrow> 'r wg_softc option" where
  "wg_peer_send_staged cv env i sc =
     (case wg_queue_delist_staged (Stage i) sc of
        (list, sc) \<Rightarrow>
          if list = [] then Some sc
          else
            (case noise_keypair_current (w_remote (sc_peer sc i)) (e_uptime env) (sc_local sc) of
               (None, l) \<Rightarrow>
                 wg_timers_event_want_initiation cv env i (wg_queue_enlist_staged (Stage i) list (sc\<lparr>sc_local := l\<rparr>))
             | (Some k, l) \<Rightarrow>
                 (case assign_nonces k list (sc\<lparr>sc_local := l\<rparr>) of
                    (ok, sc) \<Rightarrow>
                      if \<not> ok then
                        wg_timers_event_want_initiation cv env i
                          (wg_queue_enlist_staged (Stage i) list (upd_local (noise_keypair_put k) sc))
                      else
                        Some (upd_local (noise_keypair_put k) (wg_encrypt_dispatch (fold (queue_encrypt k i) list sc))))))"

definition wg_send_keepalive :: "curve \<Rightarrow> if_env \<Rightarrow> nat \<Rightarrow> 'r wg_softc \<Rightarrow> 'r wg_softc option" where
  "wg_send_keepalive cv env i sc =
     (if wg_queue_len (Stage i) sc > 0 then wg_peer_send_staged cv env i sc
      else
        (case m_devget (e_mbuf env) [] of
           None \<Rightarrow> Some sc
         | Some m \<Rightarrow>
             (case wg_packet_alloc env m sc of
                (None, sc) \<Rightarrow> Some sc
              | (Some p, sc) \<Rightarrow> wg_peer_send_staged cv env i (wg_queue_push_staged (Stage i) p sc))))"

definition wg_timers_run_send_keepalive :: "curve \<Rightarrow> if_env \<Rightarrow> nat \<Rightarrow> 'r wg_softc \<Rightarrow> 'r wg_softc option" where
  "wg_timers_run_send_keepalive cv env i sc =
     map_option
       (upd_w i (\<lambda>w. if w_enabled w \<and> w_need_another_keepalive w
          then w\<lparr>w_need_another_keepalive := False, w_send_keepalive := Some (unat KEEPALIVE_TIMEOUT * 1000)\<rparr> else w))
       (wg_send_keepalive cv env i sc)"

definition wg_timers_event_handshake_complete :: "curve \<Rightarrow> if_env \<Rightarrow> nat \<Rightarrow> 'r wg_softc \<Rightarrow> 'r wg_softc option" where
  "wg_timers_event_handshake_complete cv env i sc =
     (if w_enabled (sc_peer sc i) then
        wg_timers_run_send_keepalive cv env i
          (upd_w i (\<lambda>w. w\<lparr>w_retry_handshake := None, w_handshake_retries := 0, w_handshake_complete := e_wall env\<rparr>) sc)
      else Some sc)"

definition wg_timers_run_persistent_keepalive :: "curve \<Rightarrow> if_env \<Rightarrow> nat \<Rightarrow> 'r wg_softc \<Rightarrow> 'r wg_softc option" where
  "wg_timers_run_persistent_keepalive cv env i sc =
     (if w_persistent_keepalive_interval (sc_peer sc i) > 0 then wg_send_keepalive cv env i sc else Some sc)"

definition wg_timers_enable :: "curve \<Rightarrow> if_env \<Rightarrow> nat \<Rightarrow> 'r wg_softc \<Rightarrow> 'r wg_softc option" where
  "wg_timers_enable cv env i sc = wg_timers_run_persistent_keepalive cv env i (upd_w i (\<lambda>w. w\<lparr>w_enabled := True\<rparr>) sc)"

definition wg_timers_set_persistent_keepalive :: "curve \<Rightarrow> if_env \<Rightarrow> nat \<Rightarrow> nat \<Rightarrow> 'r wg_softc \<Rightarrow> 'r wg_softc option" where
  "wg_timers_set_persistent_keepalive cv env i interval sc =
     (if interval \<noteq> w_persistent_keepalive_interval (sc_peer sc i) then
        let sc = upd_w i (\<lambda>w. w\<lparr>w_persistent_keepalive_interval := interval\<rparr>) sc in
        if w_enabled (sc_peer sc i) then wg_timers_run_persistent_keepalive cv env i sc else Some sc
      else Some sc)"

subsection \<open>The other handlers of the callouts\<close>

definition wg_timers_run_retry_handshake :: "curve \<Rightarrow> if_env \<Rightarrow> nat \<Rightarrow> 'r wg_softc \<Rightarrow> 'r wg_softc option" where
  "wg_timers_run_retry_handshake cv env i sc =
     (if w_handshake_retries (sc_peer sc i) \<le> MAX_TIMER_HANDSHAKES then
        wg_timers_run_send_initiation cv env i True
          (wg_peer_clear_src i (upd_w i (\<lambda>w. w\<lparr>w_handshake_retries := w_handshake_retries w + 1\<rparr>) sc))
      else
        let sc = upd_w i (\<lambda>w. w\<lparr>w_send_keepalive := None\<rparr>) sc;
            sc = wg_queue_purge (Stage i) sc
        in Some (upd_w i (\<lambda>w. if w_enabled w \<and> w_zero_key_material w = None
                   then w\<lparr>w_zero_key_material := Some (unat REJECT_AFTER_TIME * 3 * 1000)\<rparr> else w) sc))"

definition wg_timers_run_new_handshake :: "curve \<Rightarrow> if_env \<Rightarrow> nat \<Rightarrow> 'r wg_softc \<Rightarrow> 'r wg_softc option" where
  "wg_timers_run_new_handshake cv env i sc = wg_timers_run_send_initiation cv env i False (wg_peer_clear_src i sc)"

definition wg_timers_run_zero_key_material :: "nat \<Rightarrow> 'r wg_softc \<Rightarrow> 'r wg_softc" where
  "wg_timers_run_zero_key_material i sc = upd_local (noise_remote_keypairs_clear (w_remote (sc_peer sc i))) sc"

end
