(* ===== verification/IfData.thy ===== *)
theory IfData
  imports IfTimers
begin

text \<open>
  The data plane of \<^verbatim>\<open>src/if_wg.c\<close>: the lookup of allowed addresses, datagrams in, handshake messages, encryption and
  decryption of one packet, delivery in both directions, and packets out. \<open>None\<close> stands for a dereference of
  \<^verbatim>\<open>NULL\<close>, a \<^verbatim>\<open>panic\<close>, or draws that run out.
\<close>

subsection \<open>Allowed addresses\<close>

definition aip_root :: "af \<Rightarrow> 'r wg_softc \<Rightarrow> 'r" where
  "aip_root f sc = (case f of AF_INET \<Rightarrow> sc_aip4 sc | AF_INET6 \<Rightarrow> sc_aip6 sc)"

text \<open>\<^verbatim>\<open>wg_aip_lookup\<close> takes a reference of the remote of the peer that it returns.\<close>

definition wg_aip_lookup :: "'r radix \<Rightarrow> af \<Rightarrow> bytes \<Rightarrow> 'r wg_softc \<Rightarrow> nat option \<times> 'r wg_softc" where
  "wg_aip_lookup rx f a sc =
     (case rnh_matchaddr rx (take (case f of AF_INET \<Rightarrow> 4 | AF_INET6 \<Rightarrow> 16) a) (aip_root f sc) of
        None \<Rightarrow> (None, sc)
      | Some x \<Rightarrow>
          let i = a_peer (sc_aip sc x) in (Some i, upd_local (noise_remote_ref (w_remote (sc_peer sc i))) sc))"

text \<open>\<^verbatim>\<open>determine_af_and_pullup\<close>: the error, the family, and the mbuf, which is gone when the pullup fails.\<close>

definition determine_af_and_pullup :: "if_env \<Rightarrow> mbuf \<Rightarrow> errno \<times> af option \<times> mbuf option" where
  "determine_af_and_pullup env m =
     (if length (m_data m) < 20 then (EAFNOSUPPORT, None, Some m)
      else if \<not> e_pullup env (if length (m_data m) \<ge> 40 then 40 else 20) then (ENOBUFS, None, None)
      else
        let ipv = drop_bit 4 (m_data m ! 0) in
        if ipv = 4 then (OK, Some AF_INET, Some m)
        else if ipv = 6 \<and> length (m_data m) \<ge> 40 then (OK, Some AF_INET6, Some m)
        else (EAFNOSUPPORT, None, Some m))"

subsection \<open>Datagrams in\<close>

definition iqdrop :: "'r wg_softc \<Rightarrow> 'r wg_softc" where
  "iqdrop = count (\<lambda>c. c\<lparr>ic_iqdrops := ic_iqdrops c + 1\<rparr>)"

definition ierror :: "'r wg_softc \<Rightarrow> 'r wg_softc" where
  "ierror = count (\<lambda>c. c\<lparr>ic_ierrors := ic_ierrors c + 1\<rparr>)"

text \<open>The branch for data messages.\<close>

definition input_data :: "if_env \<Rightarrow> bytes \<Rightarrow> nat \<Rightarrow> 'r wg_softc \<Rightarrow> 'r wg_softc" where
  "input_data env dg p sc =
     (if \<not> e_pullup env 16 then ierror (wg_packet_free p (upd_pk p (\<lambda>k. k\<lparr>pk_mbuf := None\<rparr>) sc))
      else
        (case noise_keypair_lookup (sc_local sc) (le32dec (drop 4 dg)) of
           (None, l) \<Rightarrow> ierror (wg_packet_free p (sc\<lparr>sc_local := l\<rparr>))
         | (Some k, l) \<Rightarrow>
             let sc = upd_pk p (\<lambda>x. x\<lparr>pk_keypair := Some k\<rparr>) (sc\<lparr>sc_local := l\<rparr>);
                 (r, l) = noise_keypair_remote k (sc_local sc);
                 sc = sc\<lparr>sc_local := l\<rparr>;
                 i = noise_remote_arg l r;
                 (rc, sc) = wg_queue_both Decrypt_parallel (Decrypt_serial i) p sc;
                 sc = (if rc \<noteq> OK then iqdrop sc else sc)
             in upd_local (noise_remote_put r) (wg_decrypt_dispatch sc)))"

text \<open>\<^verbatim>\<open>wg_input\<close> on the datagram \<open>dg\<close> that came from \<open>sa\<close> to the local address \<open>dst\<close>.\<close>

definition wg_input :: "if_env \<Rightarrow> bytes \<Rightarrow> sockaddr \<Rightarrow> bytes \<Rightarrow> 'r wg_softc \<Rightarrow> 'r wg_softc" where
  "wg_input env dg sa dst sc =
     (if \<not> e_unshare env \<or> length dg < 4 \<or> \<not> e_pullup env 4 then iqdrop sc
      else
        (case wg_packet_alloc env \<lparr>m_data = dg, m_cap = length dg\<rparr> sc of
           (None, sc) \<Rightarrow> iqdrop sc
         | (Some p, sc) \<Rightarrow>
             if sa = Sa_other then ierror (wg_packet_free p sc)
             else
               let sc = upd_pk p (\<lambda>x. x\<lparr>pk_endpoint := \<lparr>ep_remote = sa, ep_local = dst\<rparr>\<rparr>) sc in
               if length dg = 148 \<and> le32dec dg = WGS_PKT_INITIATION \<or> length dg = 92 \<and> le32dec dg = WGS_PKT_RESPONSE \<or>
                  length dg = 64 \<and> le32dec dg = WGS_PKT_COOKIE
               then
                 (case wg_queue_enqueue_handshake Handshake_queue p sc of
                    (rc, sc) \<Rightarrow> enqueue_task Task_handshake (if rc \<noteq> OK then iqdrop sc else sc))
               else if length dg \<ge> 32 \<and> le32dec dg = WGS_PKT_DATA then input_data env dg p sc
               else ierror (wg_packet_free p sc)))"

subsection \<open>Handshake messages in\<close>

text \<open>The load test at the head of \<^verbatim>\<open>wg_handshake\<close>.\<close>

definition under_load :: "if_env \<Rightarrow> 'r wg_softc \<Rightarrow> bool \<times> 'r wg_softc" where
  "under_load env sc =
     (if wg_queue_len Handshake_queue sc \<ge> MAX_QUEUED_HANDSHAKES div 8 then (True, sc\<lparr>sc_last_underload := e_uptime env\<rparr>)
      else if sc_last_underload sc \<noteq> 0 then
        (if sc_last_underload sc + 1 * SBT_1S > e_uptime env then (True, sc) else (False, sc\<lparr>sc_last_underload := 0\<rparr>))
      else (False, sc))"

text \<open>The check of the MACs of an initiation or a response with the body \<open>body\<close>; \<open>True\<close> to go on.\<close>

definition check_macs :: "if_env \<Rightarrow> bool \<Rightarrow> bytes \<Rightarrow> cookie_macs \<Rightarrow> u32 \<Rightarrow> wg_endpoint \<Rightarrow> 'r wg_softc \<Rightarrow> (bool \<times> 'r wg_softc) option" where
  "check_macs env underload body m s_idx e sc =
     (case cookie_checker_validate_macs (sc_globals sc) (sc_cookie sc) m body underload (ep_remote e) 0 (e_uptime env)
             (e_secret env) [] (e_alloc env) of
        (res, g, cc) \<Rightarrow>
          let sc = sc\<lparr>sc_globals := g, sc_cookie := cc\<rparr> in
          if res = EINVAL \<or> res = ECONNREFUSED then Some (False, sc)
          else if res = EAGAIN then Some (False, wg_send_cookie env m s_idx e sc)
          else if res \<noteq> OK then None
          else Some (True, sc))"

text \<open>What follows an authenticated message of peer \<open>i\<close>, and what follows every message that was used.\<close>

definition handshake_counted :: "nat \<Rightarrow> nat \<Rightarrow> 'r wg_softc \<Rightarrow> 'r wg_softc" where
  "handshake_counted i len sc =
     count (\<lambda>c. c\<lparr>ic_ipackets := ic_ipackets c + 1, ic_ibytes := ic_ibytes c + of_nat len\<rparr>)
       (upd_w i (\<lambda>w. w\<lparr>w_rx_bytes := w_rx_bytes w + of_nat len\<rparr>) sc)"

definition handshake_authenticated :: "nat \<Rightarrow> nat \<Rightarrow> nat \<Rightarrow> 'r wg_softc \<Rightarrow> 'r wg_softc" where
  "handshake_authenticated i r len sc =
     upd_local (noise_remote_put r)
       (handshake_counted i len
         (wg_timers_event_any_authenticated_packet_traversal i (wg_timers_event_any_authenticated_packet_received i sc)))"

definition handshake_initiation :: "curve \<Rightarrow> if_env \<Rightarrow> bool \<Rightarrow> bytes \<Rightarrow> wg_endpoint \<Rightarrow> 'r wg_softc \<Rightarrow> 'r wg_softc option" where
  "handshake_initiation cv env underload dg e sc =
     (let s_idx = le32dec (drop 4 dg); ue = take 32 (drop 8 dg); es = take 48 (drop 40 dg); ets = take 28 (drop 88 dg);
          m = \<lparr>mac1 = take 16 (drop 116 dg), mac2 = take 16 (drop 132 dg)\<rparr>
      in Option.bind (check_macs env underload (take 116 dg) m s_idx e sc)
        (\<lambda>(ok, sc).
          if \<not> ok then Some sc
          else
            (case noise_consume_initiation cv s_idx ue es ets (e_uptime env) (e_draws env) (sc_local sc) of
               None \<Rightarrow> None
             | Some (_, None, l) \<Rightarrow> Some (sc\<lparr>sc_local := l\<rparr>)
             | Some (_, Some r, l) \<Rightarrow>
                 let i = noise_remote_arg l r;
                     sc = wg_peer_set_endpoint i e (sc\<lparr>sc_local := l\<rparr>);
                     sc = wg_send_response cv env i sc
                 in Some (handshake_authenticated i r (length dg) sc))))"

definition handshake_response :: "curve \<Rightarrow> if_env \<Rightarrow> bool \<Rightarrow> bytes \<Rightarrow> wg_endpoint \<Rightarrow> 'r wg_softc \<Rightarrow> 'r wg_softc option" where
  "handshake_response cv env underload dg e sc =
     (let s_idx = le32dec (drop 4 dg); r_idx = le32dec (drop 8 dg); ue = take 32 (drop 12 dg); en = take 16 (drop 44 dg);
          m = \<lparr>mac1 = take 16 (drop 60 dg), mac2 = take 16 (drop 76 dg)\<rparr>
      in Option.bind (check_macs env underload (take 60 dg) m s_idx e sc)
        (\<lambda>(ok, sc).
          if \<not> ok then Some sc
          else
            (case noise_consume_response cv s_idx r_idx ue en (e_uptime env) (e_alloc env) (sc_local sc) of
               (_, None, l) \<Rightarrow> Some (sc\<lparr>sc_local := l\<rparr>)
             | (_, Some r, l) \<Rightarrow>
                 let i = noise_remote_arg l r;
                     sc = wg_peer_set_endpoint i e (sc\<lparr>sc_local := l\<rparr>);
                     sc = wg_timers_event_session_derived i sc
                 in map_option (handshake_authenticated i r (length dg)) (wg_timers_event_handshake_complete cv env i sc))))"

definition handshake_cookie :: "if_env \<Rightarrow> bytes \<Rightarrow> 'r wg_softc \<Rightarrow> 'r wg_softc" where
  "handshake_cookie env dg sc =
     (case noise_remote_index (sc_local sc) (le32dec (drop 4 dg)) of
        (None, l) \<Rightarrow> sc\<lparr>sc_local := l\<rparr>
      | (Some r, l) \<Rightarrow>
          let i = noise_remote_arg l r; sc = sc\<lparr>sc_local := l\<rparr> in
          (case cookie_maker_consume_payload (w_cookie (sc_peer sc i)) (take 24 (drop 8 dg)) (take 32 (drop 32 dg)) (e_uptime env) of
             (ret, cm) \<Rightarrow>
               let sc = upd_w i (\<lambda>w. w\<lparr>w_cookie := cm\<rparr>) sc;
                   sc = (if ret = OK then handshake_counted i (length dg) sc else sc)
               in upd_local (noise_remote_put r) sc))"

definition wg_handshake :: "curve \<Rightarrow> if_env \<Rightarrow> nat \<Rightarrow> 'r wg_softc \<Rightarrow> 'r wg_softc option" where
  "wg_handshake cv env p sc =
     (case under_load env sc of
        (underload, sc) \<Rightarrow>
          Option.bind (sc_pkt sc p) (\<lambda>pkt. Option.bind (pk_mbuf pkt) (\<lambda>m.
            let dg = m_data m; e = pk_endpoint pkt in
            if \<not> e_pullup env (length dg) then Some (wg_packet_free p (upd_pk p (\<lambda>x. x\<lparr>pk_mbuf := None\<rparr>) sc))
            else
              map_option (wg_packet_free p)
                (if le32dec dg = WGS_PKT_INITIATION then handshake_initiation cv env underload dg e sc
                 else if le32dec dg = WGS_PKT_RESPONSE then handshake_response cv env underload dg e sc
                 else if le32dec dg = WGS_PKT_COOKIE then Some (handshake_cookie env dg sc)
                 else None))))"

subsection \<open>Encryption\<close>

text \<open>\<^verbatim>\<open>calculate_padding\<close> on the length and the MTU of the packet.\<close>

definition calculate_padding :: "int \<Rightarrow> int \<Rightarrow> int" where
  "calculate_padding mtu len =
     (let round_up = (\<lambda>n. (n + (WG_PKT_PADDING - 1)) div WG_PKT_PADDING * WG_PKT_PADDING) in
      if mtu = 0 then round_up len - len
      else
        let last_unit = (if len > mtu then len mod mtu else len);
            padded_size = round_up last_unit;
            padded_size = (if mtu < padded_size then mtu else padded_size)
        in padded_size - last_unit)"

text \<open>The mbuf and the state that \<^verbatim>\<open>wg_encrypt\<close> leaves in the packet.\<close>

definition encrypt_packet :: "if_env \<Rightarrow> noise_keypair \<Rightarrow> wg_packet \<Rightarrow> mbuf \<Rightarrow> mbuf option \<times> wg_ring_state" where
  "encrypt_packet env kp pkt m =
     (let padlen = calculate_padding (pk_mtu pkt) (int (length (m_data m))) in
      (case (if padlen \<noteq> 0 then m_append (e_append env) m (replicate (nat padlen) 0) else Some m) of
         None \<Rightarrow> (Some m, WG_PACKET_DEAD)
       | Some m \<Rightarrow>
           (case noise_keypair_encrypt (e_append env) kp (pk_nonce pkt) m of
              (e, idx, m) \<Rightarrow>
                if e \<noteq> OK then (Some m, WG_PACKET_DEAD)
                else if \<not> e_prepend env then (None, WG_PACKET_DEAD)
                else (Some (m\<lparr>m_data := le32enc WGS_PKT_DATA @ le32enc idx @ le64enc (pk_nonce pkt) @ m_data m\<rparr>),
                      WG_PACKET_CRYPTED))))"

text \<open>The packet that a worker has taken from a parallel queue, with its keypair and its mbuf.\<close>

definition work_of :: "nat \<Rightarrow> 'r wg_softc \<Rightarrow> (wg_packet \<times> nat \<times> mbuf) option" where
  "work_of p sc =
     Option.bind (sc_pkt sc p) (\<lambda>pkt. Option.bind (pk_keypair pkt) (\<lambda>k. map_option (\<lambda>m. (pkt, k, m)) (pk_mbuf pkt)))"

definition wg_encrypt :: "if_env \<Rightarrow> nat \<Rightarrow> 'r wg_softc \<Rightarrow> 'r wg_softc option" where
  "wg_encrypt env p sc =
     map_option
       (\<lambda>(pkt, k, m).
         let (r, l) = noise_keypair_remote k (sc_local sc);
             sc = sc\<lparr>sc_local := l\<rparr>;
             i = noise_remote_arg l r;
             (m, state) = encrypt_packet env (keypairs l k) pkt m;
             sc = upd_pk p (\<lambda>x. x\<lparr>pk_mbuf := m, pk_state := state\<rparr>) sc
         in upd_local (noise_remote_put r) (enqueue_task (Task_send i) sc))
       (work_of p sc)"

subsection \<open>Decryption\<close>

text \<open>The inner packet after \<^verbatim>\<open>noise_keypair_decrypt\<close>: whose source address it has, and the mbuf cut to the length in its header.\<close>

definition inner_source :: "'r radix \<Rightarrow> af \<Rightarrow> mbuf \<Rightarrow> 'r wg_softc \<Rightarrow> nat option \<times> mbuf \<times> 'r wg_softc" where
  "inner_source rx f m sc =
     (let d = m_data m in
      (case f of
         AF_INET \<Rightarrow>
           let (allowed, sc) = wg_aip_lookup rx AF_INET (drop 12 d) sc;
               len = 256 * uint (d ! 2) + uint (d ! 3)
           in (allowed, if len \<ge> 20 \<and> len < int (length d) then m_adj m (len - int (length d)) else m, sc)
       | AF_INET6 \<Rightarrow>
           let (allowed, sc) = wg_aip_lookup rx AF_INET6 (drop 8 d) sc;
               len = 256 * uint (d ! 4) + uint (d ! 5) + 40
           in (allowed, if len < int (length d) then m_adj m (len - int (length d)) else m, sc)))"

text \<open>The second half of \<^verbatim>\<open>wg_decrypt\<close>: the mbuf, the family and the state that the packet gets.\<close>

definition decrypted :: "'r radix \<Rightarrow> if_env \<Rightarrow> nat \<Rightarrow> errno \<times> mbuf \<Rightarrow> 'r wg_softc \<Rightarrow>
    mbuf option \<times> af option \<times> wg_ring_state \<times> 'r wg_softc" where
  "decrypted rx env i d sc =
     (case d of (e, m) \<Rightarrow>
       (if e \<noteq> OK then (Some m, None, WG_PACKET_DEAD, sc)
        else if length (m_data m) = 0 then (Some m, None, WG_PACKET_CRYPTED, sc)
        else
          (case determine_af_and_pullup env m of
             (OK, Some f, Some m) \<Rightarrow>
               let (allowed, m, sc) = inner_source rx f m sc;
                   sc = (case allowed of None \<Rightarrow> sc | Some j \<Rightarrow> upd_local (noise_remote_put (w_remote (sc_peer sc j))) sc)
               in (Some m, Some f, if allowed = Some i then WG_PACKET_CRYPTED else WG_PACKET_DEAD, sc)
           | (_, _, m) \<Rightarrow> (m, None, WG_PACKET_DEAD, sc))))"

definition wg_decrypt :: "'r radix \<Rightarrow> if_env \<Rightarrow> nat \<Rightarrow> 'r wg_softc \<Rightarrow> 'r wg_softc option" where
  "wg_decrypt rx env p sc =
     map_option
       (\<lambda>(pkt, k, m).
         let (r, l) = noise_keypair_remote k (sc_local sc);
             i = noise_remote_arg l r;
             nonce = le64dec (drop 8 (m_data m));
             sc = upd_pk p (\<lambda>x. x\<lparr>pk_nonce := nonce\<rparr>) (sc\<lparr>sc_local := l\<rparr>);
             (m, f, state, sc) =
               decrypted rx env i (noise_keypair_decrypt (keypairs l k) nonce (m_adj m 16) (e_uptime env)) sc;
             sc = upd_pk p (\<lambda>x. x\<lparr>pk_mbuf := m, pk_af := f, pk_state := state\<rparr>) sc
         in upd_local (noise_remote_put r) (enqueue_task (Task_recv i) sc))
       (work_of p sc)"

end
