(* ===== verification/IfDeliver.thy ===== *)
theory IfDeliver
  imports IfData
begin

text \<open>
  The tasks of \<^verbatim>\<open>src/if_wg.c\<close> that empty a queue, and the way of an IP packet into the staged queue of its peer. A loop runs at
  most once for each packet that is in its queue at the start: none of the loop bodies puts a packet into the queue that its loop empties.
\<close>

subsection \<open>Workers\<close>

fun run_handshakes :: "curve \<Rightarrow> (nat \<Rightarrow> if_env) \<Rightarrow> nat \<Rightarrow> 'r wg_softc \<Rightarrow> 'r wg_softc option" where
  "run_handshakes cv envs 0 sc = Some sc"
| "run_handshakes cv envs (Suc n) sc =
     (case wg_queue_dequeue_handshake Handshake_queue sc of
        (None, sc) \<Rightarrow> Some sc
      | (Some p, sc) \<Rightarrow> Option.bind (wg_handshake cv (envs n) p sc) (run_handshakes cv envs n))"

definition wg_softc_handshake_receive :: "curve \<Rightarrow> (nat \<Rightarrow> if_env) \<Rightarrow> 'r wg_softc \<Rightarrow> 'r wg_softc option" where
  "wg_softc_handshake_receive cv envs sc = run_handshakes cv envs (wq_len (sc_queue sc Handshake_queue)) sc"

fun run_parallel :: "queue_ref \<Rightarrow> (nat \<Rightarrow> 'r wg_softc \<Rightarrow> 'r wg_softc option) \<Rightarrow> nat \<Rightarrow> 'r wg_softc \<Rightarrow> 'r wg_softc option" where
  "run_parallel q work 0 sc = Some sc"
| "run_parallel q work (Suc n) sc =
     (case wg_queue_dequeue_parallel q sc of
        (None, sc) \<Rightarrow> Some sc
      | (Some p, sc) \<Rightarrow> Option.bind (work p sc) (run_parallel q work n))"

definition wg_softc_encrypt :: "if_env \<Rightarrow> 'r wg_softc \<Rightarrow> 'r wg_softc option" where
  "wg_softc_encrypt env sc = run_parallel Encrypt_parallel (wg_encrypt env) (wq_len (sc_queue sc Encrypt_parallel)) sc"

definition wg_softc_decrypt :: "'r radix \<Rightarrow> if_env \<Rightarrow> 'r wg_softc \<Rightarrow> 'r wg_softc option" where
  "wg_softc_decrypt rx env sc = run_parallel Decrypt_parallel (wg_decrypt rx env) (wq_len (sc_queue sc Decrypt_parallel)) sc"

subsection \<open>Delivery\<close>

definition oerror :: "nat \<Rightarrow> 'r wg_softc \<Rightarrow> 'r wg_softc" where
  "oerror p sc = wg_packet_free p (count (\<lambda>c. c\<lparr>ic_oerrors := ic_oerrors c + 1\<rparr>) sc)"

text \<open>One packet of \<^verbatim>\<open>wg_deliver_out\<close>, with the endpoint that the loop holds.\<close>

definition deliver_out_packet ::
    "curve \<Rightarrow> if_env \<Rightarrow> nat \<Rightarrow> nat \<Rightarrow> wg_endpoint \<Rightarrow> 'r wg_softc \<Rightarrow> (wg_endpoint \<times> 'r wg_softc) option" where
  "deliver_out_packet cv env i p ep sc =
     Option.bind (sc_pkt sc p) (\<lambda>pkt.
       if pk_state pkt \<noteq> WG_PACKET_CRYPTED then Some (ep, oerror p sc)
       else Option.bind (pk_mbuf pkt) (\<lambda>m.
         let sc = upd_pk p (\<lambda>x. x\<lparr>pk_mbuf := None\<rparr>) sc;
             len = length (m_data m);
             sc = wg_timers_event_any_authenticated_packet_traversal i sc;
             sc = wg_timers_event_any_authenticated_packet_sent i sc;
             (rc, sc) = wg_send env ep m sc
         in if rc = OK then
              let sc = (if len > 32 then wg_timers_event_data_sent env i sc else sc);
                  sc = upd_w i (\<lambda>w. w\<lparr>w_tx_bytes := w_tx_bytes w + of_nat len\<rparr>) sc;
                  sc = wg_packet_free p sc
              in if noise_keep_key_fresh_send (sc_local sc) (w_remote (sc_peer sc i)) (e_uptime env) \<noteq> OK
                 then map_option (Pair ep) (wg_timers_event_want_initiation cv env i sc) else Some (ep, sc)
            else if rc = EADDRNOTAVAIL then
              let sc = wg_peer_clear_src i sc in Some (wg_peer_get_endpoint i sc, oerror p sc)
            else Some (ep, oerror p sc)))"

fun deliver_out :: "curve \<Rightarrow> if_env \<Rightarrow> nat \<Rightarrow> nat \<Rightarrow> wg_endpoint \<Rightarrow> 'r wg_softc \<Rightarrow> 'r wg_softc option" where
  "deliver_out cv env i 0 ep sc = Some sc"
| "deliver_out cv env i (Suc n) ep sc =
     (case wg_queue_dequeue_serial (Encrypt_serial i) sc of
        (None, sc) \<Rightarrow> Some sc
      | (Some p, sc) \<Rightarrow> Option.bind (deliver_out_packet cv env i p ep sc) (\<lambda>(ep, sc). deliver_out cv env i n ep sc))"

definition wg_deliver_out :: "curve \<Rightarrow> if_env \<Rightarrow> nat \<Rightarrow> 'r wg_softc \<Rightarrow> 'r wg_softc option" where
  "wg_deliver_out cv env i sc =
     deliver_out cv env i (wq_len (sc_queue sc (Encrypt_serial i))) (wg_peer_get_endpoint i sc) sc"

definition ierror_packet :: "nat \<Rightarrow> 'r wg_softc \<Rightarrow> 'r wg_softc" where
  "ierror_packet p sc = wg_packet_free p (ierror sc)"

text \<open>The packet of \<^verbatim>\<open>wg_deliver_in\<close> after the replay check: the timers, the endpoint, the counters, the inner packet.\<close>

definition deliver_received ::
    "curve \<Rightarrow> if_env \<Rightarrow> nat \<Rightarrow> nat \<Rightarrow> wg_packet \<Rightarrow> mbuf \<Rightarrow> 'r wg_softc \<Rightarrow> 'r wg_softc option" where
  "deliver_received cv env i p pkt m sc =
     (let len = length (m_data m);
          sc = wg_timers_event_any_authenticated_packet_received i sc;
          sc = wg_timers_event_any_authenticated_packet_traversal i sc;
          sc = wg_peer_set_endpoint i (pk_endpoint pkt) sc;
          sc = upd_w i (\<lambda>w. w\<lparr>w_rx_bytes := w_rx_bytes w + of_nat (len + 16 + 16)\<rparr>) sc;
          sc = count (\<lambda>c. c\<lparr>ic_ipackets := ic_ipackets c + 1, ic_ibytes := ic_ibytes c + of_nat (len + 16 + 16)\<rparr>) sc
      in Option.bind
           (if len = 0 then Some sc
            else
              map_option (\<lambda>f. wg_timers_event_data_received i (emit (Ip_in f (m_data m)) (upd_pk p (\<lambda>x. x\<lparr>pk_mbuf := None\<rparr>) sc)))
                (pk_af pkt))
           (\<lambda>sc. map_option (wg_packet_free p)
              (if noise_keep_key_fresh_recv (sc_local sc) (w_remote (sc_peer sc i)) (e_uptime env) \<noteq> OK
               then wg_timers_event_want_initiation cv env i sc else Some sc)))"

definition deliver_in_packet :: "curve \<Rightarrow> if_env \<Rightarrow> nat \<Rightarrow> nat \<Rightarrow> 'r wg_softc \<Rightarrow> 'r wg_softc option" where
  "deliver_in_packet cv env i p sc =
     Option.bind (sc_pkt sc p) (\<lambda>pkt.
       if pk_state pkt \<noteq> WG_PACKET_CRYPTED then Some (ierror_packet p sc)
       else Option.bind (pk_mbuf pkt) (\<lambda>m. Option.bind (pk_keypair pkt) (\<lambda>k.
         (case noise_keypair_nonce_check (keypairs (sc_local sc) k) (pk_nonce pkt) of
            (e, kp) \<Rightarrow>
              let sc = upd_local (upd_keypair k (\<lambda>_. kp)) sc in
              if e \<noteq> OK then Some (ierror_packet p sc)
              else
                (case noise_keypair_received_with k (sc_local sc) of
                   (e, l) \<Rightarrow>
                     let sc = sc\<lparr>sc_local := l\<rparr> in
                     Option.bind (if e = ECONNRESET then wg_timers_event_handshake_complete cv env i sc else Some sc)
                       (deliver_received cv env i p pkt m))))))"

fun deliver_in :: "curve \<Rightarrow> if_env \<Rightarrow> nat \<Rightarrow> nat \<Rightarrow> 'r wg_softc \<Rightarrow> 'r wg_softc option" where
  "deliver_in cv env i 0 sc = Some sc"
| "deliver_in cv env i (Suc n) sc =
     (case wg_queue_dequeue_serial (Decrypt_serial i) sc of
        (None, sc) \<Rightarrow> Some sc
      | (Some p, sc) \<Rightarrow> Option.bind (deliver_in_packet cv env i p sc) (deliver_in cv env i n))"

definition wg_deliver_in :: "curve \<Rightarrow> if_env \<Rightarrow> nat \<Rightarrow> 'r wg_softc \<Rightarrow> 'r wg_softc option" where
  "wg_deliver_in cv env i sc = deliver_in cv env i (wq_len (sc_queue sc (Decrypt_serial i))) sc"

subsection \<open>Packets out\<close>

text \<open>\<^verbatim>\<open>xmit_err\<close>: the mbuf and the packet are released, the former by \<^verbatim>\<open>icmp_error\<close> when the family is known.\<close>

definition xmit_err :: "mbuf option \<Rightarrow> nat option \<Rightarrow> af option \<Rightarrow> 'r wg_softc \<Rightarrow> 'r wg_softc" where
  "xmit_err m pkt f sc =
     (let sc = count (\<lambda>c. c\<lparr>ic_oerrors := ic_oerrors c + 1\<rparr>) sc;
          sc = (case (m, f) of (Some m, Some f) \<Rightarrow> emit (Icmp_error f (m_data m)) sc | _ \<Rightarrow> sc)
      in (case pkt of
            None \<Rightarrow> sc
          | Some p \<Rightarrow> wg_packet_free p (upd_pk p (\<lambda>x. x\<lparr>pk_mbuf := (if f = None then pk_mbuf x else None)\<rparr>) sc)))"

definition wg_xmit :: "curve \<Rightarrow> 'r radix \<Rightarrow> if_env \<Rightarrow> mbuf \<Rightarrow> af \<Rightarrow> int \<Rightarrow> 'r wg_softc \<Rightarrow> (errno \<times> 'r wg_softc) option" where
  "wg_xmit cv rx env m f mtu sc =
     (if e_if_dying env then Some (ENXIO, xmit_err (Some m) None (Some f) sc)
      else
        (case wg_packet_alloc env m sc of
           (None, sc) \<Rightarrow> Some (ENOBUFS, xmit_err (Some m) None (Some f) sc)
         | (Some p, sc) \<Rightarrow>
             let sc = upd_pk p (\<lambda>x. x\<lparr>pk_mtu := mtu, pk_af := Some f\<rparr>) sc in
             (case wg_aip_lookup rx f (drop (case f of AF_INET \<Rightarrow> 16 | AF_INET6 \<Rightarrow> 24) (m_data m)) sc of
                (None, sc) \<Rightarrow> Some (ENETUNREACH, xmit_err (Some m) (Some p) (Some f) sc)
              | (Some i, sc) \<Rightarrow>
                  let put = upd_local (noise_remote_put (w_remote (sc_peer sc i))) in
                  if e_nested env then Some (ELOOP, xmit_err (Some m) (Some p) (Some f) (put sc))
                  else if ep_remote (w_endpoint (sc_peer sc i)) = Sa_other
                  then Some (EHOSTUNREACH, xmit_err (Some m) (Some p) (Some f) (put sc))
                  else
                    map_option (\<lambda>sc. (OK, put sc)) (wg_peer_send_staged cv env i (wg_queue_push_staged (Stage i) p sc)))))"

text \<open>\<^verbatim>\<open>wg_output\<close> with the family that the route or the header of a BPF write gives, and the MTU of the route (0: none).\<close>

definition wg_output ::
    "curve \<Rightarrow> 'r radix \<Rightarrow> if_env \<Rightarrow> mbuf \<Rightarrow> af option \<Rightarrow> int \<Rightarrow> 'r wg_softc \<Rightarrow> (errno \<times> 'r wg_softc) option" where
  "wg_output cv rx env m f ro_mtu sc =
     (if f = None then Some (EAFNOSUPPORT, xmit_err (Some m) None None sc)
      else if \<not> e_unshare env then Some (ENOBUFS, xmit_err None None None sc)
      else
        (case determine_af_and_pullup env m of
           (OK, Some parsed_af, Some m) \<Rightarrow> wg_xmit cv rx env m parsed_af (if ro_mtu > 0 then ro_mtu else sc_mtu sc) sc
         | (ret, _, m) \<Rightarrow> Some (ret, xmit_err m None None sc)))"

definition determine_ethertype_and_pullup :: "if_env \<Rightarrow> mbuf \<Rightarrow> errno \<times> mbuf option" where
  "determine_ethertype_and_pullup env m =
     (if length (m_data m) < 14 \<or> \<not> e_pullup env 14 then (ENOBUFS, None)
      else if take 2 (drop 12 (m_data m)) = [0x08, 0x00] \<or> take 2 (drop 12 (m_data m)) = [0x86, 0xdd] then (OK, Some m)
      else (EAFNOSUPPORT, Some m))"

definition wg_transmit :: "curve \<Rightarrow> 'r radix \<Rightarrow> if_env \<Rightarrow> mbuf \<Rightarrow> 'r wg_softc \<Rightarrow> (errno \<times> 'r wg_softc) option" where
  "wg_transmit cv rx env m sc =
     (if \<not> e_unshare env then Some (ENOBUFS, xmit_err None None None sc)
      else
        (case determine_ethertype_and_pullup env m of
           (OK, Some m) \<Rightarrow>
             (case determine_af_and_pullup env (m_adj m 14) of
                (OK, Some f, Some m) \<Rightarrow>
                  map_option (\<lambda>(ret, sc). (if ret = ENOBUFS then ret else OK, sc)) (wg_xmit cv rx env m f (sc_mtu sc) sc)
              | (ret, _, m) \<Rightarrow> Some (ret, xmit_err m None None sc))
         | (ret, m) \<Rightarrow> Some (ret, xmit_err m None None sc)))"

end
