(* ===== verification/IfConfig.thy ===== *)
theory IfConfig
  imports IfDeliver
begin

text \<open>
  The configuration of the interface of \<^verbatim>\<open>src/if_wg.c\<close>: the allowed addresses of a peer, peers, sockets, the requests
  \<^verbatim>\<open>SIOCSWG\<close> and \<^verbatim>\<open>SIOCGWG\<close>, the interface going up and down, its creation and its destruction. A name-value list
  is a record with one field per name that the code asks for, \<open>None\<close> when the name is absent. \<open>None\<close> as a
  result stands for a \<^verbatim>\<open>panic\<close>, or draws for a random index that run out.
\<close>

text \<open>What the socket layer answers, for the sockets of \<^verbatim>\<open>AF_INET\<close> and \<^verbatim>\<open>AF_INET6\<close>.\<close>

datatype sockopt = SO_USER_COOKIE u32 | SO_SETFIB int

record sock_env =
  se_socreate :: "af \<Rightarrow> errno"
  se_sosetopt :: "af \<Rightarrow> sockopt \<Rightarrow> errno"
  se_sobind :: "af \<Rightarrow> nat \<Rightarrow> errno"
  se_sosockaddr :: "af \<Rightarrow> errno \<times> nat"

text \<open>A step for each element of a list that was read before the first.\<close>

fun each_opt :: "('a \<Rightarrow> 's \<Rightarrow> 's option) \<Rightarrow> 'a list \<Rightarrow> 's \<Rightarrow> 's option" where
  "each_opt f [] s = Some s"
| "each_opt f (x # xs) s = Option.bind (f x s) (each_opt f xs)"

subsection \<open>Allowed addresses\<close>

definition mask4_of :: "nat \<Rightarrow> bytes" where
  "mask4_of cidr = be32enc (ucast (NOT (push_bit (32 - cidr) 1 - 1 :: u64) AND 0xffffffff))"

text \<open>\<^verbatim>\<open>wg_aip_addrinfo\<close>: the address cut to the prefix, and the mask.\<close>

definition wg_aip_addrinfo :: "'r radix \<Rightarrow> af \<Rightarrow> bytes \<Rightarrow> nat \<Rightarrow> bytes \<times> bytes" where
  "wg_aip_addrinfo rx f baddr cidr =
     (case f of
        AF_INET \<Rightarrow>
          let cidr = (if cidr > 32 then 32 else cidr); msk = mask4_of cidr
          in (map2 (AND) (take 4 baddr) msk, msk)
      | AF_INET6 \<Rightarrow>
          let cidr = (if cidr > 128 then 128 else cidr); msk = in6_prefixlen2mask rx cidr
          in (map2 (AND) (take 16 baddr) msk, msk))"

definition set_aip_root :: "af \<Rightarrow> 'r \<Rightarrow> 'r wg_softc \<Rightarrow> 'r wg_softc" where
  "set_aip_root f rt sc = (case f of AF_INET \<Rightarrow> sc\<lparr>sc_aip4 := rt\<rparr> | AF_INET6 \<Rightarrow> sc\<lparr>sc_aip6 := rt\<rparr>)"

definition link_aip :: "nat \<Rightarrow> nat \<Rightarrow> 'r wg_softc \<Rightarrow> 'r wg_softc" where
  "link_aip x i = upd_w i (\<lambda>w. w\<lparr>w_aips := x # w_aips w, w_aips_num := w_aips_num w + 1\<rparr>)"

definition unlink_aip :: "nat \<Rightarrow> nat \<Rightarrow> 'r wg_softc \<Rightarrow> 'r wg_softc" where
  "unlink_aip x i = upd_w i (\<lambda>w. w\<lparr>w_aips := remove1 x (w_aips w), w_aips_num := w_aips_num w - 1\<rparr>)"

definition wg_aip_add :: "'r radix \<Rightarrow> nat \<Rightarrow> af \<Rightarrow> bytes \<Rightarrow> nat \<Rightarrow> 'r wg_softc \<Rightarrow> errno \<times> 'r wg_softc" where
  "wg_aip_add rx i f baddr cidr sc =
     (case wg_aip_addrinfo rx f baddr cidr of
        (addr, msk) \<Rightarrow>
          let x = sc_next_aip sc;
              sc = sc\<lparr>sc_next_aip := x + 1\<rparr>;
              (added, rt) = rnh_addaddr rx addr msk x (aip_root f sc);
              sc = set_aip_root f rt sc
          in if added then
               (OK, link_aip x i (sc\<lparr>sc_aip := (sc_aip sc)(x := \<lparr>a_addr = addr, a_mask = msk, a_peer = i, a_af = f\<rparr>)\<rparr>))
             else
               (case rnh_lookup rx addr msk rt of
                  None \<Rightarrow> (ENOMEM, sc)
                | Some y \<Rightarrow>
                    let j = a_peer (sc_aip sc y) in
                    if j \<noteq> i then
                      (OK, link_aip y i ((unlink_aip y j sc)\<lparr>sc_aip := (sc_aip sc)(y := (sc_aip sc y)\<lparr>a_peer := i\<rparr>)\<rparr>))
                    else (OK, sc)))"

definition wg_aip_del :: "'r radix \<Rightarrow> nat \<Rightarrow> af \<Rightarrow> bytes \<Rightarrow> nat \<Rightarrow> 'r wg_softc \<Rightarrow> errno \<times> 'r wg_softc" where
  "wg_aip_del rx i f baddr cidr sc =
     (case wg_aip_addrinfo rx f baddr cidr of
        (addr, msk) \<Rightarrow>
          (case rnh_lookup rx addr msk (aip_root f sc) of
             None \<Rightarrow> (OK, sc)
           | Some y \<Rightarrow>
               if a_peer (sc_aip sc y) \<noteq> i then (OK, sc)
               else
                 let sc = (case rnh_deladdr rx (a_addr (sc_aip sc y)) (a_mask (sc_aip sc y)) (aip_root f sc) of
                             None \<Rightarrow> sc | Some rt \<Rightarrow> set_aip_root f rt sc)
                 in (OK, unlink_aip y i sc)))"

definition remove_aip :: "'r radix \<Rightarrow> af \<Rightarrow> nat \<Rightarrow> nat \<Rightarrow> 'r wg_softc \<Rightarrow> 'r wg_softc option" where
  "remove_aip rx f i x sc =
     (if a_af (sc_aip sc x) = f
      then map_option (\<lambda>rt. unlink_aip x i (set_aip_root f rt sc))
             (rnh_deladdr rx (a_addr (sc_aip sc x)) (a_mask (sc_aip sc x)) (aip_root f sc))
      else Some sc)"

definition wg_aip_remove_all :: "'r radix \<Rightarrow> nat \<Rightarrow> 'r wg_softc \<Rightarrow> 'r wg_softc option" where
  "wg_aip_remove_all rx i sc =
     Option.bind (each_opt (remove_aip rx AF_INET i) (w_aips (sc_peer sc i)) sc) (\<lambda>sc.
     Option.bind (each_opt (remove_aip rx AF_INET6 i) (w_aips (sc_peer sc i)) sc) (\<lambda>sc.
       if w_aips (sc_peer sc i) \<noteq> [] \<or> w_aips_num (sc_peer sc i) \<noteq> 0 then None else Some sc))"

subsection \<open>Peers\<close>

text \<open>The peer after its initialization, on the remote \<open>r\<close>.\<close>

definition new_peer :: "nat \<Rightarrow> bytes \<Rightarrow> wg_peer" where
  "new_peer r pub_key =
     \<lparr>w_remote = r, w_cookie = cookie_maker_init pub_key, w_endpoint = no_endpoint, w_enabled = False,
      w_need_another_keepalive = False, w_persistent_keepalive_interval = 0, w_new_handshake = None, w_send_keepalive = None,
      w_retry_handshake = None, w_zero_key_material = None, w_persistent_keepalive = None, w_handshake_complete = (0, 0),
      w_handshake_retries = 0, w_tx_bytes = 0, w_rx_bytes = 0, w_aips = [], w_aips_num = 0\<rparr>"

text \<open>The result is the new peer, or the error of \<^verbatim>\<open>noise_remote_enable\<close>.\<close>

definition wg_peer_create :: "curve \<Rightarrow> if_env \<Rightarrow> bytes \<Rightarrow> 'r wg_softc \<Rightarrow> ((errno + nat) \<times> 'r wg_softc) option" where
  "wg_peer_create cv env pub_key sc =
     (let i = sc_next_peer sc;
          sc = sc\<lparr>sc_next_peer := i + 1\<rparr>;
          (r, l) = noise_remote_alloc cv (sc_local sc) i pub_key;
          sc = upd_w i (\<lambda>_. new_peer r pub_key) sc;
          (err, l) = noise_remote_enable r l;
          sc = sc\<lparr>sc_local := l\<rparr>
      in if err \<noteq> OK then Some (Inl err, upd_local (noise_remote_free r False) sc)
      else
        let sc = upd_queue (Stage i) (\<lambda>_. wg_queue_init) sc;
            sc = upd_queue (Encrypt_serial i) (\<lambda>_. wg_queue_init) sc;
            sc = upd_queue (Decrypt_serial i) (\<lambda>_. wg_queue_init) sc;
            sc = sc\<lparr>sc_peers := sc_peers sc @ [i], sc_peers_num := sc_peers_num sc + 1\<rparr>
        in map_option (Pair (Inr i)) (if sc_link_up sc then wg_timers_enable cv env i sc else Some sc))"

text \<open>The callback that the last reference of a remote runs.\<close>

definition wg_peer_free_deferred :: "nat \<Rightarrow> 'r wg_softc \<Rightarrow> 'r wg_softc" where
  "wg_peer_free_deferred r sc =
     (let i = noise_remote_arg (sc_local sc) r;
          sc = sc\<lparr>sc_tasks := sc_tasks sc - {Task_recv i, Task_send i}\<rparr>;
          sc = wg_queue_purge (Decrypt_serial i) sc;
          sc = wg_queue_purge (Encrypt_serial i) sc;
          sc = wg_queue_purge (Stage i) sc
      in upd_w i (\<lambda>w. w\<lparr>w_cookie := cookie_maker_free (w_cookie w)\<rparr>) sc)"

definition wg_peer_destroy :: "'r radix \<Rightarrow> nat \<Rightarrow> 'r wg_softc \<Rightarrow> 'r wg_softc option" where
  "wg_peer_destroy rx i sc =
     (let sc = upd_local (noise_remote_disable (w_remote (sc_peer sc i))) sc;
          sc = wg_timers_disable i sc
      in map_option
           (\<lambda>sc. upd_local (noise_remote_free (w_remote (sc_peer sc i)) True)
              (sc\<lparr>sc_peers_num := sc_peers_num sc - 1, sc_peers := remove1 i (sc_peers sc)\<rparr>))
           (wg_aip_remove_all rx i sc))"

definition wg_peer_destroy_all :: "'r radix \<Rightarrow> 'r wg_softc \<Rightarrow> 'r wg_softc option" where
  "wg_peer_destroy_all rx sc = each_opt (wg_peer_destroy rx) (sc_peers sc) sc"

subsection \<open>Sockets\<close>

definition wg_socket_set :: "bool \<Rightarrow> bool \<Rightarrow> 'r wg_softc \<Rightarrow> 'r wg_softc" where
  "wg_socket_set so4 so6 sc = sc\<lparr>sc_socket := (sc_socket sc)\<lparr>so_so4 := so4, so_so6 := so6\<rparr>\<rparr>"

definition wg_socket_uninit :: "'r wg_softc \<Rightarrow> 'r wg_softc" where
  "wg_socket_uninit = wg_socket_set False False"

definition wg_socket_set_sockopt :: "sock_env \<Rightarrow> bool \<Rightarrow> bool \<Rightarrow> sockopt \<Rightarrow> errno" where
  "wg_socket_set_sockopt se so4 so6 opt =
     (let ret4 = (if so4 then se_sosetopt se AF_INET opt else OK);
          ret6 = (if so6 then se_sosetopt se AF_INET6 opt else OK)
      in if ret4 \<noteq> OK then ret4 else ret6)"

definition wg_socket_set_cookie :: "sock_env \<Rightarrow> u32 \<Rightarrow> 'r wg_softc \<Rightarrow> errno \<times> 'r wg_softc" where
  "wg_socket_set_cookie se user_cookie sc =
     (let so = sc_socket sc; ret = wg_socket_set_sockopt se (so_so4 so) (so_so6 so) (SO_USER_COOKIE user_cookie)
      in (ret, if ret = OK then sc\<lparr>sc_socket := so\<lparr>so_user_cookie := user_cookie\<rparr>\<rparr> else sc))"

definition wg_socket_set_fibnum :: "sock_env \<Rightarrow> int \<Rightarrow> 'r wg_softc \<Rightarrow> errno \<times> 'r wg_softc" where
  "wg_socket_set_fibnum se fibnum sc =
     (let so = sc_socket sc; ret = wg_socket_set_sockopt se (so_so4 so) (so_so6 so) (SO_SETFIB fibnum)
      in (ret, if ret = OK then sc\<lparr>sc_socket := so\<lparr>so_fibnum := fibnum\<rparr>\<rparr> else sc))"

text \<open>One socket is bound: the error and whether it is to be returned at once, and the port.\<close>

definition bind_one :: "sock_env \<Rightarrow> af \<Rightarrow> nat \<Rightarrow> errno + (errno \<times> nat)" where
  "bind_one se f port =
     (let ret = se_sobind se f port in
      if ret \<noteq> OK \<and> ret \<noteq> EADDRNOTAVAIL then Inl ret
      else if ret = OK \<and> port = 0 then
        (case se_sosockaddr se f of (e, bound) \<Rightarrow> if e \<noteq> OK then Inl e else Inr (ret, bound))
      else Inr (ret, port))"

text \<open>\<^verbatim>\<open>wg_socket_bind\<close> on two sockets: which of them remain, and the port.\<close>

definition wg_socket_bind :: "sock_env \<Rightarrow> nat \<Rightarrow> errno + (bool \<times> bool \<times> nat)" where
  "wg_socket_bind se port =
     (case bind_one se AF_INET port of
        Inl e \<Rightarrow> Inl e
      | Inr (ret4, port) \<Rightarrow>
          (case bind_one se AF_INET6 port of
             Inl e \<Rightarrow> Inl e
           | Inr (ret6, port) \<Rightarrow> if ret4 \<noteq> OK \<and> ret6 \<noteq> OK then Inl ret4 else Inr (ret4 = OK, ret6 = OK, port)))"

definition wg_socket_init :: "sock_env \<Rightarrow> nat \<Rightarrow> 'r wg_softc \<Rightarrow> errno \<times> 'r wg_softc" where
  "wg_socket_init se port sc =
     (if \<not> sc_ucred sc then (EBUSY, sc)
      else if se_socreate se AF_INET \<noteq> OK then (se_socreate se AF_INET, sc)
      else if se_socreate se AF_INET6 \<noteq> OK then (se_socreate se AF_INET6, sc)
      else
        let so = sc_socket sc;
            rc = (if so_user_cookie so \<noteq> 0 then wg_socket_set_sockopt se True True (SO_USER_COOKIE (so_user_cookie so)) else OK);
            rc = (if rc \<noteq> OK then rc else wg_socket_set_sockopt se True True (SO_SETFIB (so_fibnum so)))
        in if rc \<noteq> OK then (rc, sc)
           else
             (case wg_socket_bind se port of
                Inl rc \<Rightarrow> (rc, sc)
              | Inr (so4, so6, port) \<Rightarrow> (OK, wg_socket_set so4 so6 (sc\<lparr>sc_socket := so\<lparr>so_port := port\<rparr>\<rparr>))))"


subsection \<open>The interface up and down\<close>

definition wg_up :: "curve \<Rightarrow> if_env \<Rightarrow> sock_env \<Rightarrow> 'r wg_softc \<Rightarrow> (errno \<times> 'r wg_softc) option" where
  "wg_up cv env se sc =
     (if sc_dying sc then Some (EBUSY, sc)
      else if sc_running sc then Some (OK, sc)
      else
        (case wg_socket_init se (so_port (sc_socket sc)) (sc\<lparr>sc_running := True\<rparr>) of
           (rc, sc) \<Rightarrow>
             if rc = OK then
               map_option (\<lambda>sc. (rc, sc\<lparr>sc_link_up := True\<rparr>)) (each_opt (wg_timers_enable cv env) (sc_peers sc) sc)
             else Some (rc, sc\<lparr>sc_running := False\<rparr>)))"

definition stop_peer :: "nat \<Rightarrow> 'r wg_softc \<Rightarrow> 'r wg_softc" where
  "stop_peer i sc = wg_timers_disable i (wg_queue_purge (Stage i) sc)"

definition clear_peer :: "nat \<Rightarrow> 'r wg_softc \<Rightarrow> 'r wg_softc" where
  "clear_peer i sc =
     upd_local (\<lambda>l. noise_remote_keypairs_clear (w_remote (sc_peer sc i)) (noise_remote_handshake_clear (w_remote (sc_peer sc i)) l)) sc"

definition wg_down :: "'r wg_softc \<Rightarrow> 'r wg_softc" where
  "wg_down sc =
     (if \<not> sc_running sc then sc
      else
        let sc = sc\<lparr>sc_running := False\<rparr>;
            sc = fold stop_peer (sc_peers sc) sc;
            sc = wg_queue_purge Handshake_queue sc;
            sc = fold clear_peer (sc_peers sc) sc
        in wg_socket_uninit (sc\<lparr>sc_link_up := False\<rparr>))"

definition wg_init :: "curve \<Rightarrow> if_env \<Rightarrow> sock_env \<Rightarrow> 'r wg_softc \<Rightarrow> 'r wg_softc option" where
  "wg_init cv env se sc = map_option snd (wg_up cv env se sc)"

definition wg_reassign :: "'r wg_softc \<Rightarrow> 'r wg_softc" where
  "wg_reassign sc = wg_down sc"

text \<open>One interface of the list of \<^verbatim>\<open>wg_prison_remove\<close>; \<open>jailed\<close> when its credentials belong to the jail.\<close>

definition wg_prison_remove :: "bool \<Rightarrow> 'r wg_softc \<Rightarrow> 'r wg_softc" where
  "wg_prison_remove jailed sc =
     (if \<not> sc_dying sc \<and> sc_ucred sc \<and> jailed
      then (wg_socket_uninit (sc\<lparr>sc_link_up := False\<rparr>))\<lparr>sc_ucred := False, sc_dying := True\<rparr> else sc)"

subsection \<open>Creation and destruction\<close>

definition DEFAULT_MTU :: int where "DEFAULT_MTU = 1500 - 80"
definition MAX_MTU :: int where "MAX_MTU = 65535 - 80"

definition wg_clone_create :: "'r radix \<Rightarrow> bytes \<Rightarrow> cookie_globals \<Rightarrow> nat \<Rightarrow> int \<Rightarrow> errno + 'r wg_softc" where
  "wg_clone_create rx hash_key g ncpus fibnum =
     (case (rn_inithead rx 32, rn_inithead rx 128) of
        (Some rt4, Some rt6) \<Rightarrow>
          Inr \<lparr>sc_running = False, sc_dying = False, sc_ucred = True, sc_mtu = DEFAULT_MTU, sc_link_up = False,
               sc_socket = \<lparr>so_so4 = False, so_so6 = False, so_user_cookie = 0, so_fibnum = fibnum, so_port = 0\<rparr>,
               sc_peers = [], sc_peers_num = 0, sc_peer = (\<lambda>_. new_peer 0 []), sc_next_peer = 0,
               sc_local = noise_local_alloc 0 hash_key, sc_cookie = cookie_checker_init, sc_globals = g, sc_last_underload = 0,
               sc_aip4 = rt4, sc_aip6 = rt6, sc_aip = (\<lambda>_. \<lparr>a_addr = [], a_mask = [], a_peer = 0, a_af = AF_INET\<rparr>),
               sc_next_aip = 0, sc_queue = (\<lambda>_. wg_queue_init), sc_pkt = (\<lambda>_. None), sc_next_pkt = 0, sc_tasks = {},
               sc_ncpus = ncpus, sc_encrypt_last_cpu = 0, sc_decrypt_last_cpu = 0,
               sc_counters = \<lparr>ic_ipackets = 0, ic_ibytes = 0, ic_opackets = 0, ic_obytes = 0, ic_ierrors = 0, ic_oerrors = 0,
                  ic_iqdrops = 0, ic_oqdrops = 0\<rparr>,
               sc_out = []\<rparr>
      | _ \<Rightarrow> Inl ENOMEM)"

text \<open>\<^verbatim>\<open>wg_clone_destroy\<close> closes the sockets, waits until the tasks have emptied the queues, and releases everything.\<close>

definition clone_destroy_close :: "'r wg_softc \<Rightarrow> 'r wg_softc" where
  "clone_destroy_close sc = wg_socket_uninit (sc\<lparr>sc_dying := True, sc_ucred := False, sc_link_up := False\<rparr>)"

definition clone_destroy_free :: "'r radix \<Rightarrow> 'r wg_softc \<Rightarrow> 'r wg_softc option" where
  "clone_destroy_free rx sc =
     map_option
       (\<lambda>sc.
         let sc = wg_queue_purge Decrypt_parallel (wg_queue_purge Encrypt_parallel (wg_queue_purge Handshake_queue sc));
             sc = sc\<lparr>sc_cookie := cookie_checker_free (sc_cookie sc)\<rparr>
         in upd_local (\<lambda>l. noise_local_free l True) sc)
       (wg_peer_destroy_all rx sc)"

subsection \<open>SIOCSWG\<close>

record nv_aip =
  na_cidr :: "u64 option"
  na_flags :: "u64 option"
  na_ipv4 :: "bytes option"
  na_ipv6 :: "bytes option"

text \<open>The binary value of \<open>endpoint\<close> is a socket address and the size of the value.\<close>

record nv_peer =
  np_public_key :: "bytes option"
  np_remove :: "bool option"
  np_replace_allowedips :: "bool option"
  np_endpoint :: "(sockaddr \<times> nat) option"
  np_preshared_key :: "bytes option"
  np_persistent_keepalive_interval :: "u64 option"
  np_allowed_ips :: "nv_aip list option"

record nv_set =
  ns_replace_peers :: "bool option"
  ns_listen_port :: "u64 option"
  ns_private_key :: "bytes option"
  ns_user_cookie :: "u64 option"
  ns_peers :: "nv_peer list option"

definition WGALLOWEDIP_REMOVE_ME :: u32 where "WGALLOWEDIP_REMOVE_ME = 1"
definition WGALLOWEDIP_VALID_FLAGS :: u32 where "WGALLOWEDIP_VALID_FLAGS = WGALLOWEDIP_REMOVE_ME"

text \<open>One entry of \<open>allowed-ips\<close>: what to do with which prefix, nothing, or an error.\<close>

definition nv_allowed_ip :: "nv_aip \<Rightarrow> errno + (bool \<times> af \<times> bytes \<times> nat) option" where
  "nv_allowed_ip a =
     (case na_cidr a of
        None \<Rightarrow> Inr None
      | Some cidr \<Rightarrow>
          let ipflags = (case na_flags a of None \<Rightarrow> 0 :: u32 | Some n \<Rightarrow> ucast n);
              rm = ((ipflags AND WGALLOWEDIP_REMOVE_ME) \<noteq> 0)
          in if (ipflags AND (NOT WGALLOWEDIP_VALID_FLAGS)) \<noteq> 0 then Inl EOPNOTSUPP
             else
               (case (na_ipv4 a, na_ipv6 a) of
                  (Some addr, _) \<Rightarrow>
                    if cidr > 32 \<or> length addr \<noteq> 4 then Inl EINVAL else Inr (Some (rm, AF_INET, addr, unat cidr))
                | (None, Some addr) \<Rightarrow>
                    if cidr > 128 \<or> length addr \<noteq> 16 then Inl EINVAL else Inr (Some (rm, AF_INET6, addr, unat cidr))
                | (None, None) \<Rightarrow> Inr None))"

fun set_allowed_ips :: "'r radix \<Rightarrow> nat \<Rightarrow> nv_aip list \<Rightarrow> 'r wg_softc \<Rightarrow> errno \<times> 'r wg_softc" where
  "set_allowed_ips rx i [] sc = (OK, sc)"
| "set_allowed_ips rx i (a # as) sc =
     (case nv_allowed_ip a of
        Inl e \<Rightarrow> (e, sc)
      | Inr None \<Rightarrow> set_allowed_ips rx i as sc
      | Inr (Some (rm, f, addr, cidr)) \<Rightarrow>
          (case (if rm then wg_aip_del rx i f addr cidr sc else wg_aip_add rx i f addr cidr sc) of
             (err, sc) \<Rightarrow> if err \<noteq> OK then (err, sc) else set_allowed_ips rx i as sc))"

text \<open>What \<^verbatim>\<open>wg_peer_add\<close> sets once it has the peer.\<close>

definition peer_settings ::
    "curve \<Rightarrow> 'r radix \<Rightarrow> if_env \<Rightarrow> nv_peer \<Rightarrow> nat \<Rightarrow> 'r wg_softc \<Rightarrow> (errno \<times> 'r wg_softc) option" where
  "peer_settings cv rx env nvl i sc =
     (let too_long = (case np_endpoint nvl of None \<Rightarrow> False | Some (_, n) \<Rightarrow> n > 28) in
      if too_long then Some (EINVAL, sc)
      else
        let sc = (case np_endpoint nvl of
                    None \<Rightarrow> sc
                  | Some (sa, _) \<Rightarrow> upd_w i (\<lambda>w. w\<lparr>w_endpoint := (w_endpoint w)\<lparr>ep_remote := sa\<rparr>\<rparr>) sc);
            psk = np_preshared_key nvl
        in if psk \<noteq> None \<and> length (the psk) \<noteq> 32 then Some (EINVAL, sc)
        else
          let sc = (case psk of None \<Rightarrow> sc | Some k \<Rightarrow> upd_local (noise_remote_set_psk (w_remote (sc_peer sc i)) (Some k)) sc) in
          (case np_persistent_keepalive_interval nvl of
             Some pki \<Rightarrow>
               if pki > 65535 then Some (EINVAL, sc)
               else map_option (\<lambda>sc. (case np_allowed_ips nvl of None \<Rightarrow> (OK, sc) | Some as \<Rightarrow> set_allowed_ips rx i as sc))
                      (wg_timers_set_persistent_keepalive cv env i (unat pki) sc)
           | None \<Rightarrow> Some (case np_allowed_ips nvl of None \<Rightarrow> (OK, sc) | Some as \<Rightarrow> set_allowed_ips rx i as sc)))"

definition put_remote :: "nat option \<Rightarrow> 'r wg_softc \<Rightarrow> 'r wg_softc" where
  "put_remote remote sc = (case remote of None \<Rightarrow> sc | Some r \<Rightarrow> upd_local (noise_remote_put r) sc)"

text \<open>An existing peer is changed; a new one is destroyed again when a setting fails.\<close>

definition peer_change ::
    "curve \<Rightarrow> 'r radix \<Rightarrow> if_env \<Rightarrow> nv_peer \<Rightarrow> nat \<Rightarrow> nat \<Rightarrow> 'r wg_softc \<Rightarrow> (errno \<times> 'r wg_softc) option" where
  "peer_change cv rx env nvl r i sc =
     Option.bind (if np_replace_allowedips nvl = Some True then wg_aip_remove_all rx i sc else Some sc)
       (\<lambda>sc. map_option (\<lambda>(err, sc). (err, put_remote (Some r) sc)) (peer_settings cv rx env nvl i sc))"

definition peer_new ::
    "curve \<Rightarrow> 'r radix \<Rightarrow> if_env \<Rightarrow> nv_peer \<Rightarrow> bytes \<Rightarrow> 'r wg_softc \<Rightarrow> (errno \<times> 'r wg_softc) option" where
  "peer_new cv rx env nvl pub_key sc =
     Option.bind (wg_peer_create cv env pub_key sc) (\<lambda>(p, sc).
       case p of
         Inl err \<Rightarrow> Some (err, sc)
       | Inr i \<Rightarrow>
           Option.bind (peer_settings cv rx env nvl i sc) (\<lambda>(err, sc).
             if err \<noteq> OK then map_option (Pair err) (wg_peer_destroy rx i sc) else Some (OK, sc)))"

definition wg_peer_add :: "curve \<Rightarrow> 'r radix \<Rightarrow> if_env \<Rightarrow> nv_peer \<Rightarrow> 'r wg_softc \<Rightarrow> (errno \<times> 'r wg_softc) option" where
  "wg_peer_add cv rx env nvl sc =
     (case np_public_key nvl of
        None \<Rightarrow> Some (EINVAL, sc)
      | Some pub_key \<Rightarrow>
          if length pub_key \<noteq> 32 then Some (EINVAL, sc)
          else if map_option fst (snd (noise_local_keys (sc_local sc))) = Some pub_key then Some (OK, sc)
          else
            (case noise_remote_lookup (sc_local sc) pub_key of
               (remote, l) \<Rightarrow>
                 let sc = sc\<lparr>sc_local := l\<rparr> in
                 if np_remove nvl = Some True then
                   (case remote of
                      None \<Rightarrow> Some (OK, sc)
                    | Some r \<Rightarrow>
                        map_option (\<lambda>sc. (OK, put_remote remote sc)) (wg_peer_destroy rx (noise_remote_arg l r) sc))
                 else
                   (case remote of
                      None \<Rightarrow> peer_new cv rx env nvl pub_key sc
                    | Some r \<Rightarrow> peer_change cv rx env nvl r (noise_remote_arg l r) sc)))"

fun add_peers :: "curve \<Rightarrow> 'r radix \<Rightarrow> if_env \<Rightarrow> nv_peer list \<Rightarrow> 'r wg_softc \<Rightarrow> (errno \<times> 'r wg_softc) option" where
  "add_peers cv rx env [] sc = Some (OK, sc)"
| "add_peers cv rx env (nvl # nvls) sc =
     Option.bind (wg_peer_add cv rx env nvl sc)
       (\<lambda>(err, sc). if err \<noteq> OK then Some (err, sc) else add_peers cv rx env nvls sc)"


text \<open>A request: its size, whether its data pointer is set, the result of \<^verbatim>\<open>copyin\<close>, and what \<^verbatim>\<open>nvlist_unpack\<close> makes of it.\<close>

record set_request =
  sr_size :: nat
  sr_data :: bool
  sr_copyin :: errno
  sr_nvl :: "nv_set option"

definition set_listen_port :: "sock_env \<Rightarrow> u64 option \<Rightarrow> 'r wg_softc \<Rightarrow> errno \<times> 'r wg_softc" where
  "set_listen_port se port sc =
     (case port of
        None \<Rightarrow> (OK, sc)
      | Some new_port \<Rightarrow>
          if new_port > 65535 then (EINVAL, sc)
          else if unat new_port \<noteq> so_port (sc_socket sc) then
            (if sc_running sc then wg_socket_init se (unat new_port) sc
             else (OK, sc\<lparr>sc_socket := (sc_socket sc)\<lparr>so_port := unat new_port\<rparr>\<rparr>))
          else (OK, sc))"

definition set_private_key :: "curve \<Rightarrow> 'r radix \<Rightarrow> bytes option \<Rightarrow> 'r wg_softc \<Rightarrow> (errno \<times> 'r wg_softc) option" where
  "set_private_key cv rx key sc =
     (case key of
        None \<Rightarrow> Some (OK, sc)
      | Some k \<Rightarrow>
          if length k \<noteq> 32 then Some (EINVAL, sc)
          else if map_option snd (snd (noise_local_keys (sc_local sc))) = Some k then Some (OK, sc)
          else
            (case c_pub cv k of
               (public, ok) \<Rightarrow>
                 map_option
                   (\<lambda>sc.
                     let sc = upd_local (noise_local_private cv k) sc;
                         named = (if fst (noise_local_keys (sc_local sc)) = OK then Some public else None)
                     in (OK, sc\<lparr>sc_cookie := cookie_checker_update (sc_cookie sc) named\<rparr>))
                   (if ok then
                      (case noise_remote_lookup (sc_local sc) public of
                         (None, l) \<Rightarrow> Some (sc\<lparr>sc_local := l\<rparr>)
                       | (Some r, l) \<Rightarrow>
                           map_option (put_remote (Some r)) (wg_peer_destroy rx (noise_remote_arg l r) (sc\<lparr>sc_local := l\<rparr>)))
                    else Some sc)))"

definition set_user_cookie :: "sock_env \<Rightarrow> u64 option \<Rightarrow> 'r wg_softc \<Rightarrow> errno \<times> 'r wg_softc" where
  "set_user_cookie se cookie sc =
     (case cookie of
        None \<Rightarrow> (OK, sc)
      | Some c \<Rightarrow> if c > 0xffffffff then (EINVAL, sc) else wg_socket_set_cookie se (ucast c) sc)"

text \<open>The steps of \<^verbatim>\<open>wgc_set\<close> under the lock, each only when none before it failed.\<close>

definition after_ok :: "(errno \<times> 's) option \<Rightarrow> ('s \<Rightarrow> (errno \<times> 's) option) \<Rightarrow> (errno \<times> 's) option" where
  "after_ok x f = Option.bind x (\<lambda>(err, s). if err \<noteq> OK then Some (err, s) else f s)"

definition wgc_set_locked ::
    "curve \<Rightarrow> 'r radix \<Rightarrow> if_env \<Rightarrow> sock_env \<Rightarrow> nv_set \<Rightarrow> 'r wg_softc \<Rightarrow> (errno \<times> 'r wg_softc) option" where
  "wgc_set_locked cv rx env se nvl sc =
     after_ok (map_option (Pair OK) (if ns_replace_peers nvl = Some True then wg_peer_destroy_all rx sc else Some sc)) (\<lambda>sc.
     after_ok (Some (set_listen_port se (ns_listen_port nvl) sc)) (\<lambda>sc.
     after_ok (set_private_key cv rx (ns_private_key nvl) sc) (\<lambda>sc.
     after_ok (Some (set_user_cookie se (ns_user_cookie nvl) sc)) (\<lambda>sc.
       case ns_peers nvl of None \<Rightarrow> Some (OK, sc) | Some peers \<Rightarrow> add_peers cv rx env peers sc))))"

definition wgc_set ::
    "curve \<Rightarrow> 'r radix \<Rightarrow> if_env \<Rightarrow> sock_env \<Rightarrow> set_request \<Rightarrow> 'r wg_softc \<Rightarrow> (errno \<times> 'r wg_softc) option" where
  "wgc_set cv rx env se wgd sc =
     (if sr_size wgd = 0 \<or> \<not> sr_data wgd then Some (EFAULT, sc)
      else if sr_size wgd \<ge> 0xffffffff div 2 then Some (E2BIG, sc)
      else if sr_copyin wgd \<noteq> OK then Some (sr_copyin wgd, sc)
      else
        (case sr_nvl wgd of
           None \<Rightarrow> Some (EBADMSG, sc)
         | Some nvl \<Rightarrow> wgc_set_locked cv rx env se nvl sc))"

subsection \<open>SIOCGWG\<close>

record got_peer =
  gp_public_key :: bytes
  gp_preshared_key :: "bytes option"
  gp_endpoint :: "sockaddr option"
  gp_last_handshake_time :: "u64 \<times> u64"
  gp_persistent_keepalive_interval :: nat
  gp_rx_bytes :: u64
  gp_tx_bytes :: u64
  gp_allowed_ips :: "(af \<times> bytes \<times> nat) list"

record got =
  g_listen_port :: "nat option"
  g_user_cookie :: "u32 option"
  g_public_key :: "bytes option"
  g_private_key :: "bytes option"
  g_peers :: "got_peer list"

text \<open>A list with the counter that the code keeps of its length: \<open>None\<close> when they disagree.\<close>

definition counted :: "nat \<Rightarrow> 'a list \<Rightarrow> 'a list option" where
  "counted n xs = (if n = 0 then Some [] else if length xs \<noteq> n then None else Some xs)"

definition get_aip :: "'r radix \<Rightarrow> wg_aip \<Rightarrow> af \<times> bytes \<times> nat" where
  "get_aip rx a =
     (a_af a, a_addr a, case a_af a of AF_INET \<Rightarrow> bitcount32 rx (le32dec (a_mask a)) | AF_INET6 \<Rightarrow> in6_mask2len rx (a_mask a))"

definition get_peer :: "'r radix \<Rightarrow> bool \<Rightarrow> 'r wg_softc \<Rightarrow> nat \<Rightarrow> got_peer option" where
  "get_peer rx privileged sc i =
     (let w = sc_peer sc i in
      case noise_remote_keys (sc_local sc) (w_remote w) of
        (_, public_key, preshared_key) \<Rightarrow>
          map_option
            (\<lambda>aips.
              \<lparr>gp_public_key = public_key, gp_preshared_key = (if privileged then Some preshared_key else None),
               gp_endpoint = (if ep_remote (w_endpoint w) = Sa_other then None else Some (ep_remote (w_endpoint w))),
               gp_last_handshake_time = wg_timers_get_last_handshake i sc,
               gp_persistent_keepalive_interval = w_persistent_keepalive_interval w,
               gp_rx_bytes = w_rx_bytes w, gp_tx_bytes = w_tx_bytes w,
               gp_allowed_ips = map (\<lambda>x. get_aip rx (sc_aip sc x)) aips\<rparr>)
            (counted (w_aips_num w) (w_aips w)))"

definition get_interface :: "'r radix \<Rightarrow> bool \<Rightarrow> 'r wg_softc \<Rightarrow> got option" where
  "get_interface rx privileged sc =
     (let keys = snd (noise_local_keys (sc_local sc)) in
      Option.bind (counted (sc_peers_num sc) (sc_peers sc)) (\<lambda>peers.
        map_option
          (\<lambda>ps.
            \<lparr>g_listen_port = (if so_port (sc_socket sc) \<noteq> 0 then Some (so_port (sc_socket sc)) else None),
             g_user_cookie = (if so_user_cookie (sc_socket sc) \<noteq> 0 then Some (so_user_cookie (sc_socket sc)) else None),
             g_public_key = map_option fst keys,
             g_private_key = (if privileged then map_option snd keys else None),
             g_peers = ps\<rparr>)
          (those (map (get_peer rx privileged sc) peers))))"

text \<open>\<^verbatim>\<open>wgc_get\<close> with a buffer of \<open>size\<close> bytes: the error, the size that is returned, and what is copied out. \<open>nv_ok\<close>: no
  allocation of a list failed; \<open>pack\<close>: the size of the packed list; \<open>copyout\<close>: the result of the copy.\<close>

definition wgc_get ::
    "'r radix \<Rightarrow> bool \<Rightarrow> bool \<Rightarrow> (got \<Rightarrow> nat option) \<Rightarrow> errno \<Rightarrow> nat \<Rightarrow> 'r wg_softc \<Rightarrow> (errno \<times> nat \<times> got option) option" where
  "wgc_get rx privileged nv_ok pack copyout wgd_size sc =
     (if \<not> nv_ok then Some (ENOMEM, wgd_size, None)
      else
        map_option
          (\<lambda>g. case pack g of
                 None \<Rightarrow> (ENOMEM, wgd_size, None)
               | Some packed \<Rightarrow>
                   if wgd_size = 0 then (OK, packed, None)
                   else if wgd_size < packed then (ENOSPC, wgd_size, None)
                   else (copyout, packed, if copyout = OK then Some g else None))
          (get_interface rx privileged sc))"

subsection \<open>Requests\<close>

datatype if_request =
  SIOCSWG set_request
| SIOCGWG nat
| SIOCSIFADDR
| SIOCSIFFLAGS bool
| SIOCSIFMTU int
| SIOCADDMULTI
| SIOCDELMULTI
| SIOCGTUNFIB
| SIOCSTUNFIB int
| Other_request

datatype if_reply = No_reply | Reply_got nat "got option" | Reply_fib int

record ioctl_env =
  ie_priv_wg :: errno
  ie_priv_setiffib :: errno
  ie_nvlist :: bool
  ie_pack :: "got \<Rightarrow> nat option"
  ie_copyout :: errno

definition wgc_privileged :: "ioctl_env \<Rightarrow> bool" where
  "wgc_privileged ie = (ie_priv_wg ie = OK)"

text \<open>\<^verbatim>\<open>wg_ioctl\<close> on an interface whose \<^verbatim>\<open>softc\<close> is \<open>sc\<close>, or has gone.\<close>

definition wg_ioctl ::
    "curve \<Rightarrow> 'r radix \<Rightarrow> if_env \<Rightarrow> sock_env \<Rightarrow> ioctl_env \<Rightarrow> if_request \<Rightarrow> 'r wg_softc option \<Rightarrow>
     (errno \<times> if_reply \<times> 'r wg_softc option) option" where
  "wg_ioctl cv rx env se ie req softc =
     (case softc of
        None \<Rightarrow> Some (ENXIO, No_reply, None)
      | Some sc \<Rightarrow>
          (case req of
             SIOCSWG wgd \<Rightarrow>
               if ie_priv_wg ie \<noteq> OK then Some (ie_priv_wg ie, No_reply, Some sc)
               else map_option (\<lambda>(ret, sc). (ret, No_reply, Some sc)) (wgc_set cv rx env se wgd sc)
           | SIOCGWG n \<Rightarrow>
               map_option (\<lambda>(ret, m, g). (ret, Reply_got m g, Some sc))
                 (wgc_get rx (wgc_privileged ie) (ie_nvlist ie) (ie_pack ie) (ie_copyout ie) n sc)
           | SIOCSIFADDR \<Rightarrow> Some (OK, No_reply, Some sc)
           | SIOCSIFFLAGS up \<Rightarrow>
               if up then map_option (\<lambda>(ret, sc). (ret, No_reply, Some sc)) (wg_up cv env se sc)
               else Some (OK, No_reply, Some (wg_down sc))
           | SIOCSIFMTU mtu \<Rightarrow>
               if mtu \<le> 0 \<or> mtu > MAX_MTU then Some (EINVAL, No_reply, Some sc)
               else Some (OK, No_reply, Some (sc\<lparr>sc_mtu := mtu\<rparr>))
           | SIOCADDMULTI \<Rightarrow> Some (OK, No_reply, Some sc)
           | SIOCDELMULTI \<Rightarrow> Some (OK, No_reply, Some sc)
           | SIOCGTUNFIB \<Rightarrow> Some (OK, Reply_fib (so_fibnum (sc_socket sc)), Some sc)
           | SIOCSTUNFIB fib \<Rightarrow>
               if ie_priv_wg ie \<noteq> OK then Some (ie_priv_wg ie, No_reply, Some sc)
               else if ie_priv_setiffib ie \<noteq> OK then Some (ie_priv_setiffib ie, No_reply, Some sc)
               else (case wg_socket_set_fibnum se fib sc of (ret, sc) \<Rightarrow> Some (ret, No_reply, Some sc))
           | Other_request \<Rightarrow> Some (ENOTTY, No_reply, Some sc)))"

end
