(* ===== verification/NoiseWindow.thy ===== *)
theory NoiseWindow
  imports NoiseProps
begin

text \<open>
  The replay window over the life of a keypair: no call of the noise interface forgets a counter that the window of a
  keypair has seen, because a keypair is made once, with an empty window, and after that only \<^verbatim>\<open>noise_keypair_nonce_check\<close>
  touches its window. \<open>windows_grow\<close> relates two states of the noise layer, \<open>windows_ok\<close> says that every
  window stands for a set of counters; \<open>counter_seen\<close> is the memory of one counter.
\<close>

definition windows_grow :: "noise_local \<Rightarrow> noise_local \<Rightarrow> bool" where
  "windows_grow l l' \<longleftrightarrow> next_keypair l \<le> next_keypair l' \<and>
     (\<forall>k < next_keypair l. \<forall>seen. window_rel (keypairs l k) seen \<longrightarrow>
        (\<exists>seen'. seen \<subseteq> seen' \<and> window_rel (keypairs l' k) seen'))"

definition windows_ok :: "noise_local \<Rightarrow> bool" where
  "windows_ok l \<longleftrightarrow> (\<forall>k < next_keypair l. \<exists>seen. window_rel (keypairs l k) seen)"

definition same_windows :: "noise_local \<Rightarrow> noise_local \<Rightarrow> bool" where
  "same_windows l l' \<longleftrightarrow> next_keypair l' = next_keypair l \<and>
     (\<forall>k. kp_nonce_recv (keypairs l' k) = kp_nonce_recv (keypairs l k) \<and>
        kp_backtrack (keypairs l' k) = kp_backtrack (keypairs l k))"

text \<open>One call: the windows grow, and those of new keypairs stand for a set of counters too.\<close>

definition window_step :: "noise_local \<Rightarrow> noise_local \<Rightarrow> bool" where
  "window_step l l' \<longleftrightarrow> windows_grow l l' \<and>
     (\<forall>k. next_keypair l \<le> k \<longrightarrow> k < next_keypair l' \<longrightarrow> (\<exists>seen. window_rel (keypairs l' k) seen))"

lemma window_rel_cong:
  "kp_nonce_recv a = kp_nonce_recv b \<Longrightarrow> kp_backtrack a = kp_backtrack b \<Longrightarrow> window_rel a seen = window_rel b seen"
  by (simp add: window_rel_def)

lemma windows_grow_refl [simp]: "windows_grow l l"
  by (auto simp: windows_grow_def)

lemma windows_grow_trans [trans]:
  assumes "windows_grow a b" "windows_grow b c"
  shows "windows_grow a c"
proof -
  have "\<exists>s'. seen \<subseteq> s' \<and> window_rel (keypairs c k) s'" if k: "k < next_keypair a" "window_rel (keypairs a k) seen" for k seen
  proof -
    obtain s1 where 1: "seen \<subseteq> s1" "window_rel (keypairs b k) s1" using assms(1) k unfolding windows_grow_def by blast
    have "k < next_keypair b" using assms(1) k(1) by (simp add: windows_grow_def)
    then obtain s2 where "s1 \<subseteq> s2" "window_rel (keypairs c k) s2" using assms(2) 1(2) unfolding windows_grow_def by blast
    with 1(1) show ?thesis by blast
  qed
  then show ?thesis using assms by (auto simp: windows_grow_def)
qed

lemma window_step_ok: "window_step l l' \<Longrightarrow> windows_ok l \<Longrightarrow> windows_ok l'"
  unfolding window_step_def windows_ok_def windows_grow_def by (meson not_le)

lemma same_windows_rel:
  "same_windows l l' \<Longrightarrow> next_keypair l' = next_keypair l \<and> (\<forall>k. window_rel (keypairs l' k) = window_rel (keypairs l k))"
  by (auto simp: same_windows_def window_rel_def fun_eq_iff)

lemma same_windows_step: "same_windows l l' \<Longrightarrow> window_step l l'"
  using same_windows_rel [of l l'] by (auto simp: window_step_def windows_grow_def)

lemma same_windows_refl [simp]: "same_windows l l"
  by (simp add: same_windows_def)

lemma same_windows_trans [trans]: "same_windows a b \<Longrightarrow> same_windows b c \<Longrightarrow> same_windows a c"
  by (simp add: same_windows_def)

subsection \<open>The functions that leave every window alone\<close>

lemma win_handshake_clear: "same_windows l (noise_remote_handshake_clear r l)"
  by (simp add: same_windows_def noise_remote_handshake_clear_def noise_remote_index_remove_def Let_def case_prod_unfold)

lemma win_expire: "same_windows l (noise_remote_expire_current r (noise_precompute_ss cv r l))"
proof -
  have "same_windows l (noise_precompute_ss cv r l)"
    by (simp add: same_windows_def noise_precompute_ss_def split: prod.split)
  also have "same_windows (noise_precompute_ss cv r l) (noise_remote_handshake_clear r (noise_precompute_ss cv r l))"
    by (rule win_handshake_clear)
  also have "same_windows m (noise_remote_expire_current r l)" if "m = noise_remote_handshake_clear r l" for l m
    unfolding that by (simp add: same_windows_def noise_remote_expire_current_def Let_def split: option.split)
  from this [OF refl] have "same_windows (noise_remote_handshake_clear r (noise_precompute_ss cv r l))
      (noise_remote_expire_current r (noise_precompute_ss cv r l))" .
  finally show ?thesis .
qed

lemma win_local_private: "same_windows l (noise_local_private cv private l)"
proof -
  define P where "P = same_windows l"
  have one: "P (noise_remote_expire_current r (noise_precompute_ss cv r m))" if "P m" for r m
    using that win_expire unfolding P_def by (rule same_windows_trans)
  have bucket: "P (fold (\<lambda>r l. noise_remote_expire_current r (noise_precompute_ss cv r l)) rs m)" if "P m" for rs m
    by (rule fold_inv [of P, OF one that])
  have all: "P (fold (\<lambda>i l. fold (\<lambda>r l. noise_remote_expire_current r (noise_precompute_ss cv r l))
      (l_remote_hash l i) l) is m)" if "P m" for "is" m
    by (rule fold_inv [of P, OF bucket that])
  have "P (case c_pub cv (c_clamp cv private) of (pub, ok) \<Rightarrow>
      (l\<lparr>l_private := c_clamp cv private, l_public := pub, l_has_identity := ok\<rparr>))"
    by (simp add: P_def same_windows_def split: prod.split)
  from all [OF this] show ?thesis
    by (simp add: P_def noise_local_private_def Let_def case_prod_unfold)
qed

lemma win_disable: "same_windows l (noise_remote_disable r l)"
  by (simp add: same_windows_def noise_remote_disable_def)

lemma win_keypairs_clear: "same_windows l (noise_remote_keypairs_clear r l)"
  by (simp add: same_windows_def noise_remote_keypairs_clear_def Let_def)

lemma win_free: "same_windows l (noise_remote_free r c l)"
proof -
  let ?a = "upd_remote r (r_cleanup_update (\<lambda>_. c)) l"
  have "same_windows l ?a" by (simp add: same_windows_def)
  also note win_disable [of ?a r]
  also note win_handshake_clear [of "noise_remote_disable r ?a" r]
  also note win_keypairs_clear [of "noise_remote_handshake_clear r (noise_remote_disable r ?a)" r]
  finally show ?thesis by (simp add: same_windows_def noise_remote_free_def Let_def)
qed

lemma win_write:
  "same_windows l (snd (write_initiation cv r time rnd l))" "same_windows l (snd (write_response cv r rnd l))"
proof -
  have hs: "same_windows l (set_hs r a b (set_hs_e r e (set_hs r c d l)))" "same_windows l (set_hs r a b l)"
    "same_windows l (set_hs_e r e (set_hs r c d l))" for a b c d e
    by (simp_all add: same_windows_def set_hs_def set_hs_e_def)
  show "same_windows l (snd (write_initiation cv r time rnd l))"
    unfolding write_initiation_def Let_def using hs by (simp add: case_prod_unfold split: option.split)
  show "same_windows l (snd (write_response cv r rnd l))"
    unfolding write_response_def Let_def using hs by (simp add: case_prod_unfold split: option.split)
qed

lemma win_insert:
  assumes "noise_remote_index_insert r ds l = Some (l', rest)"
  shows "same_windows l l'"
proof -
  define m where "m = snd (noise_remote_index_remove r l)"
  obtain d where "l' = (upd_remote r (r_index_update (i_local_index_update (\<lambda>_. d))) m)
      \<lparr>l_index_hash := CK_LIST_INSERT_HEAD (index_bucket d) (IdxRemote r) (l_index_hash m)\<rparr>"
    using assign_id_cases assms unfolding noise_remote_index_insert_def m_def by blast
  then show ?thesis by (simp add: same_windows_def m_def noise_remote_index_remove_def)
qed

subsection \<open>Handshakes\<close>

lemma win_create_initiation:
  assumes "noise_create_initiation cv r now time rnd draws l = Some (e, out, l')"
  shows "same_windows l l'"
proof -
  obtain x l1 where w: "write_initiation cv r time rnd l = (x, l1)" by (metis surj_pair)
  then have 1: "same_windows l l1" using win_write(1) [of l cv r time rnd] by simp
  show ?thesis
    using assms 1 win_insert [of r draws l1]
    by (auto simp: noise_create_initiation_def w Let_def same_windows_def split: if_splits option.splits)
qed

lemma win_consume_initiation:
  assumes "noise_consume_initiation cv s_idx ue es ets now draws l = Some (e, ro, l')"
  shows "same_windows l l'"
proof -
  have rr: "same_windows l l1" if "read_initiation cv ue es ets l = (ro, x, l1)" for ro x l1
    using that by (cases ro) (auto simp: same_windows_def dest: read_initiation_ref)
  show ?thesis
    using assms
    by (auto simp: noise_consume_initiation_def Let_def same_windows_def
        split: if_splits option.splits prod.splits dest!: rr win_insert)
qed

lemma window_step_trans_same: "window_step a b \<Longrightarrow> same_windows b c \<Longrightarrow> window_step a c"
  using same_windows_rel [of b c] by (simp add: window_step_def windows_grow_def)

lemma same_windows_trans_step: "same_windows a b \<Longrightarrow> window_step b c \<Longrightarrow> window_step a c"
  using same_windows_rel [of a b] by (simp add: window_step_def windows_grow_def)

lemma win_begin_session: "window_step l (snd (noise_begin_session r now ok l))"
proof (cases ok)
  case True
  define m where "m = (noise_remote_ref r l)\<lparr>next_keypair := next_keypair l + 1,
     keypairs := (keypairs l)(next_keypair l := session_keypair r now l)\<rparr>"
  have "same_windows m (noise_add_new_keypair r (next_keypair l) m)"
    by (simp add: same_windows_def noise_add_new_keypair_def Let_def)
  moreover have "window_step l m"
  proof -
    have "fresh_window (session_keypair r now l)" by (simp add: fresh_window_def session_keypair_def zero_keypair_def Let_def split: prod.split)
    then have "window_rel (session_keypair r now l) {}" by (rule fresh_window_rel)
    then show ?thesis by (auto simp: window_step_def windows_grow_def m_def)
  qed
  ultimately show ?thesis using True window_step_trans_same by (simp add: begin_session_eq m_def)
qed (simp add: begin_session_eq same_windows_step)

lemma win_create_response: "window_step l (snd (snd (noise_create_response cv r now rnd ok l)))"
proof -
  obtain x l1 where w: "write_response cv r rnd l = (x, l1)" by (metis surj_pair)
  then have 1: "same_windows l l1" using win_write(2) [of l cv r rnd] by simp
  then have 2: "window_step l (snd (noise_begin_session r now ok l1))" using win_begin_session by (rule same_windows_trans_step)
  have 3: "window_step l (upd_remote r g m)" if "window_step l m" for g m
    using that by (rule window_step_trans_same) (simp add: same_windows_def)
  show ?thesis using same_windows_step [OF 1] 2 3 same_windows_step [OF same_windows_refl]
    by (simp add: noise_create_response_def w Let_def case_prod_unfold split: option.split)
qed

lemma win_consume_response: "window_step l (snd (snd (noise_consume_response cv s_idx r_idx ue en now ok l)))"
proof -
  obtain x l1 where lk: "noise_remote_index_lookup l r_idx False = (x, l1)" by (metis surj_pair)
  have 1: "same_windows l l1"
    using index_lookup_ref [of l r_idx False] lk by (cases x) (auto simp: same_windows_def)
  have 2: "window_step l (snd (noise_begin_session r now ok (upd_remote r (\<lambda>x. x\<lparr>r_handshake := hs,
      r_index := (r_index x)\<lparr>i_remote_index := s_idx\<rparr>\<rparr>) l1)))" for r hs
    by (rule same_windows_trans_step [OF _ win_begin_session]) (use 1 in \<open>simp add: same_windows_def\<close>)
  have 3: "window_step l (noise_remote_put r m)" "window_step l (noise_remote_put r (noise_remote_ref r m))"
    if "window_step l m" for r m
    by (rule window_step_trans_same [OF that], simp add: same_windows_def)+
  show ?thesis
    unfolding noise_consume_response_def Let_def lk
    using same_windows_step [OF 1] 2 3 by (simp add: case_prod_unfold split: option.split)
qed

subsection \<open>Every call\<close>

lemma win_nonce_check: "window_step l (upd_keypair k (\<lambda>kp. snd (noise_keypair_nonce_check kp recv)) l)"
proof -
  have "\<exists>seen'. seen \<subseteq> seen' \<and> window_rel (snd (noise_keypair_nonce_check (keypairs l k) recv)) seen'"
    if w: "window_rel (keypairs l k) seen" for seen
  proof (cases "acceptable (unat (kp_nonce_recv (keypairs l k))) seen (unat recv)")
    case True
    then obtain kp' where "noise_keypair_nonce_check (keypairs l k) recv = (OK, kp')" "window_rel kp' (insert (unat recv) seen)"
      using nonce_check_step [OF w, of recv] by auto
    then show ?thesis by (intro exI [of _ "insert (unat recv) seen"]) auto
  next
    case False
    then have "noise_keypair_nonce_check (keypairs l k) recv = (EEXIST, keypairs l k)"
      using nonce_check_step [OF w, of recv] by simp
    then show ?thesis using w by auto
  qed
  then show ?thesis by (auto simp: window_step_def windows_grow_def)
qed

lemma noise_step_window: "noise_step cv l l' \<Longrightarrow> window_step l l'"
proof (induction rule: noise_step.induct)
  case (5 l arg public)
  then show ?case
    by (intro same_windows_step)
      (auto simp: same_windows_def noise_remote_alloc_def Let_def noise_precompute_ss_def split: prod.split)
next
  case (8 l public)
  then show ?case using lookup_ref [of l public]
    by (intro same_windows_step) (cases "noise_remote_lookup l public", cases "fst (noise_remote_lookup l public)",
        auto simp: same_windows_def)
next
  case (9 l i)
  then show ?case using index_lookup_ref [of l i True]
    by (intro same_windows_step) (cases "noise_remote_index l i", cases "fst (noise_remote_index l i)",
        auto simp: same_windows_def noise_remote_index_def)
next
  case (23 l k)
  then show ?case
    by (intro same_windows_step) (simp add: same_windows_def noise_keypair_nonce_next_def Let_def)
next
  case (24 l k recv)
  then show ?case by (simp add: win_nonce_check)
next
  case (26 ets s_idx ue es now draws l e ro l')
  then show ?case using same_windows_step win_consume_initiation by blast
next
  case (27 l r now rnd alloc_ok)
  then show ?case by (rule win_create_response)
next
  case (28 l s_idx r_idx ue en now alloc_ok)
  then show ?case by (rule win_consume_response)
qed (auto intro!: same_windows_step intro: win_local_private win_disable win_free win_handshake_clear win_keypairs_clear
    win_create_initiation
    simp: same_windows_def noise_local_free_def noise_remote_enable_def noise_remote_local_def noise_remote_set_psk_def
      noise_keypair_lookup_def acquire_keypair_def noise_keypair_current_def noise_keypair_received_with_def
      noise_keypair_remote_def Let_def
    split: option.split index_ref.split)

text \<open>Any number of calls.\<close>

lemma steps_windows: "(noise_step cv)\<^sup>*\<^sup>* l l' \<Longrightarrow> windows_grow l l' \<and> (windows_ok l \<longrightarrow> windows_ok l')"
proof (induction rule: rtranclp_induct)
  case (step b c)
  then have "window_step b c" by (simp add: noise_step_window)
  then show ?case using step.IH windows_grow_trans window_step_ok by (auto simp: window_step_def)
qed simp

text \<open>A counter that the window has taken in is refused by every later state of the window.\<close>

lemma seen_refused:
  assumes "windows_ok l" "k < next_keypair l" "noise_keypair_nonce_check (keypairs l k) n = (OK, kp)"
    "windows_grow (upd_keypair k (\<lambda>_. kp) l) l'"
  shows "noise_keypair_nonce_check (keypairs l' k) n = (EEXIST, keypairs l' k)"
proof -
  obtain seen where w: "window_rel (keypairs l k) seen" using assms(1,2) by (auto simp: windows_ok_def)
  have a: "acceptable (unat (kp_nonce_recv (keypairs l k))) seen (unat n)"
    using nonce_check_step [OF w, of n] assms(3) by (auto split: if_splits)
  have "window_rel kp (insert (unat n) seen)" using nonce_check_step [OF w, of n] assms(3) a by simp
  moreover have "k < next_keypair (upd_keypair k (\<lambda>_. kp) l)" "keypairs (upd_keypair k (\<lambda>_. kp) l) k = kp"
    using assms(2) by simp_all
  ultimately obtain seen' where s: "insert (unat n) seen \<subseteq> seen'" "window_rel (keypairs l' k) seen'"
    using assms(4) unfolding windows_grow_def by metis
  then have "\<not> acceptable (unat (kp_nonce_recv (keypairs l' k))) seen' (unat n)" by (auto simp: acceptable_def)
  then show ?thesis using nonce_check_step [OF s(2), of n] by simp
qed

end
