(* ===== verification/IfFrame.thy ===== *)
theory IfFrame
  imports IfConfig SessionInv NoiseWindow
begin

text \<open>
  What the data plane and the timers of \<^verbatim>\<open>src/if_wg.c\<close> leave alone: every one of their functions moves the noise layer only
  by calls of its interface (\<open>run\<close>) and keeps the peers with their remotes and the tables of allowed addresses. The
  rules are stated for a state that was reached from \<open>s\<close>, so that \<open>intro\<close> follows the text of a function.
\<close>

named_theorems frame_intros

definition if_frame :: "curve \<Rightarrow> 'r wg_softc \<Rightarrow> 'r wg_softc \<Rightarrow> bool" where
  "if_frame cv s t \<longleftrightarrow> run cv (sc_local s) (sc_local t) \<and> sc_next_peer t = sc_next_peer s \<and> sc_peers t = sc_peers s \<and>
     (\<forall>i. w_remote (sc_peer t i) = w_remote (sc_peer s i)) \<and>
     sc_aip4 t = sc_aip4 s \<and> sc_aip6 t = sc_aip6 s \<and> sc_aip t = sc_aip s \<and> sc_next_aip t = sc_next_aip s \<and>
     (\<forall>p pkt k. sc_pkt t p = Some pkt \<longrightarrow> pk_keypair pkt = Some k \<longrightarrow>
        k < next_keypair (sc_local t) \<or> (\<exists>pkt'. sc_pkt s p = Some pkt' \<and> pk_keypair pkt' = Some k))"

text \<open>Peers and remotes name each other.\<close>

definition if_links :: "curve \<Rightarrow> 'r wg_softc \<Rightarrow> bool" where
  "if_links cv sc \<longleftrightarrow> noise_reach cv (sc_local sc) \<and>
     (\<forall>i < sc_next_peer sc. w_remote (sc_peer sc i) < next_remote (sc_local sc)) \<and>
     (\<forall>r < next_remote (sc_local sc). noise_remote_arg (sc_local sc) r < sc_next_peer sc)"

lemma if_frame_refl [frame_intros]: "if_frame cv s s"
  by (simp add: if_frame_def)

lemma run_keypairs: "run cv l l' \<Longrightarrow> next_keypair l \<le> next_keypair l'"
  using steps_windows by (auto simp: run_def windows_grow_def)

lemma if_frame_trans [trans]:
  assumes "if_frame cv a b" "if_frame cv b c"
  shows "if_frame cv a c"
proof -
  have "run cv (sc_local a) (sc_local c)" using assms run_trans by (auto simp: if_frame_def)
  moreover have "k < next_keypair (sc_local c) \<or> (\<exists>pkt'. sc_pkt a p = Some pkt' \<and> pk_keypair pkt' = Some k)"
    if "sc_pkt c p = Some pkt" "pk_keypair pkt = Some k" for p pkt k
  proof -
    have "next_keypair (sc_local b) \<le> next_keypair (sc_local c)" using assms(2) run_keypairs by (auto simp: if_frame_def)
    then show ?thesis using assms that unfolding if_frame_def by (meson less_le_trans)
  qed
  ultimately show ?thesis using assms by (simp add: if_frame_def)
qed

lemma frame_next_peer: "if_frame cv s t \<Longrightarrow> sc_next_peer t = sc_next_peer s"
  by (simp add: if_frame_def)

lemma frame_links:
  assumes "if_frame cv s t" "if_links cv s"
  shows "if_links cv t"
proof -
  have r: "run cv (sc_local s) (sc_local t)" using assms(1) by (simp add: if_frame_def)
  then have "noise_reach cv (sc_local t)" using assms(2) steps_reach by (auto simp: if_links_def run_def)
  moreover have "noise_remote_arg (sc_local t) x < sc_next_peer t" if "x < next_remote (sc_local t)" for x
    using run_ident [OF r, of x] that r frame_next_peer [OF assms(1)] assms(2)
    by (auto simp: if_links_def noise_remote_arg_def run_def)
  ultimately show ?thesis using assms r by (simp add: if_links_def if_frame_def run_def)
qed

lemma frame_set_local:
  assumes "if_frame cv s t" "run cv (sc_local t) l"
  shows "if_frame cv s (t\<lparr>sc_local := l\<rparr>)"
proof -
  have "if_frame cv t (t\<lparr>sc_local := l\<rparr>)" using assms(2) by (auto simp: if_frame_def)
  with assms(1) show ?thesis by (rule if_frame_trans)
qed

lemma frame_upd_local: "if_frame cv s t \<Longrightarrow> run cv (sc_local t) (f (sc_local t)) \<Longrightarrow> if_frame cv s (upd_local f t)"
  unfolding upd_local_def by (rule frame_set_local)

lemma frame_upd_w:
  "if_frame cv s t \<Longrightarrow> (\<And>w. w_remote (f w) = w_remote w) \<Longrightarrow> if_frame cv s (upd_w i f t)"
  by (simp add: if_frame_def upd_w_def)

lemma frame_fields [frame_intros]:
  "if_frame cv s t \<Longrightarrow> if_frame cv s (upd_queue q h t)"
  "if_frame cv s t \<Longrightarrow> if_frame cv s (count c t)"
  "if_frame cv s t \<Longrightarrow> if_frame cv s (emit x t)"
  "if_frame cv s t \<Longrightarrow> if_frame cv s (enqueue_task j t)"
  "if_frame cv s t \<Longrightarrow> if_frame cv s (t\<lparr>sc_cookie := cc\<rparr>)"
  "if_frame cv s t \<Longrightarrow> if_frame cv s (t\<lparr>sc_globals := g', sc_cookie := cc\<rparr>)"
  "if_frame cv s t \<Longrightarrow> if_frame cv s (t\<lparr>sc_last_underload := n\<rparr>)"
  "if_frame cv s t \<Longrightarrow> if_frame cv s (t\<lparr>sc_encrypt_last_cpu := n'\<rparr>)"
  "if_frame cv s t \<Longrightarrow> if_frame cv s (t\<lparr>sc_decrypt_last_cpu := n'\<rparr>)"
  "if_frame cv s t \<Longrightarrow> if_frame cv s (t\<lparr>sc_pkt := (sc_pkt t)(p := None)\<rparr>)"
  by (auto simp: if_frame_def upd_queue_def count_def emit_def enqueue_task_def)

lemma frame_upd_pk:
  assumes "if_frame cv s t" "\<And>x. pk_keypair (g x) = pk_keypair x"
  shows "if_frame cv s (upd_pk p g t)"
proof -
  have "if_frame cv t (upd_pk p g t)" using assms(2) by (auto simp: if_frame_def upd_pk_def)
  with assms(1) show ?thesis by (rule if_frame_trans)
qed

lemma frame_pk [frame_intros]:
  "if_frame cv s t \<Longrightarrow> if_frame cv s (upd_pk p (\<lambda>x. x\<lparr>pk_mbuf := fm x\<rparr>) t)"
  "if_frame cv s t \<Longrightarrow> if_frame cv s (upd_pk p (\<lambda>x. x\<lparr>pk_state := st\<rparr>) t)"
  "if_frame cv s t \<Longrightarrow> if_frame cv s (upd_pk p (\<lambda>x. x\<lparr>pk_nonce := nn\<rparr>) t)"
  "if_frame cv s t \<Longrightarrow> if_frame cv s (upd_pk p (\<lambda>x. x\<lparr>pk_endpoint := ep\<rparr>) t)"
  "if_frame cv s t \<Longrightarrow> if_frame cv s (upd_pk p (\<lambda>x. x\<lparr>pk_mtu := mtu, pk_af := fo\<rparr>) t)"
  "if_frame cv s t \<Longrightarrow> if_frame cv s (upd_pk p (\<lambda>x. x\<lparr>pk_mbuf := fm x, pk_state := st\<rparr>) t)"
  "if_frame cv s t \<Longrightarrow> if_frame cv s (upd_pk p (\<lambda>x. x\<lparr>pk_mbuf := fm x, pk_af := fo, pk_state := st\<rparr>) t)"
  by (auto intro: frame_upd_pk)

lemma frame_set_keypair:
  "if_frame cv s t \<Longrightarrow> k < next_keypair (sc_local t) \<Longrightarrow> if_frame cv s (upd_pk p (\<lambda>x. x\<lparr>pk_keypair := Some k\<rparr>) t)"
proof -
  assume "if_frame cv s t" "k < next_keypair (sc_local t)"
  moreover from this(2) have "if_frame cv t (upd_pk p (\<lambda>x. x\<lparr>pk_keypair := Some k\<rparr>) t)"
    by (auto simp: if_frame_def upd_pk_def)
  ultimately show ?thesis using if_frame_trans by blast
qed

lemma run_refs [simp]:
  "run cv l (noise_keypair_ref k l)" "run cv l (noise_remote_ref r l)" "run cv l (noise_remote_disable r l)"
  "run cv l (noise_remote_handshake_clear r l)" "run cv l (noise_remote_keypairs_clear r l)"
  by (auto intro!: run_same_ts noise_step.intros ts_disable ts_handshake_clear ts_keypairs_clear simp: same_ts_def)

lemma frame_puts [frame_intros]:
  "if_frame cv s t \<Longrightarrow> if_frame cv s (upd_local (noise_keypair_put k) t)"
  "if_frame cv s t \<Longrightarrow> if_frame cv s (upd_local (noise_remote_put r) t)"
  "if_frame cv s t \<Longrightarrow> if_frame cv s (upd_local (noise_keypair_ref k) t)"
  "if_frame cv s t \<Longrightarrow> if_frame cv s (upd_local (noise_remote_ref r) t)"
  by (simp_all add: frame_upd_local)

lemma run_nonce_check: "noise_keypair_nonce_check (keypairs l k) n = (e, kp) \<Longrightarrow> run cv l (upd_keypair k (\<lambda>_. kp) l)"
proof -
  assume "noise_keypair_nonce_check (keypairs l k) n = (e, kp)"
  then have "upd_keypair k (\<lambda>_. kp) l = upd_keypair k (\<lambda>kp. snd (noise_keypair_nonce_check kp n)) l"
    by (simp add: upd_keypair_def)
  then show ?thesis by (auto intro: run_step noise_step.intros)
qed

subsection \<open>Packets and queues\<close>

lemma frame_packet_free [frame_intros]: "if_frame cv s t \<Longrightarrow> if_frame cv s (wg_packet_free p t)"
  by (auto simp: wg_packet_free_def Let_def intro!: frame_intros split: option.split)

lemma frame_packet_alloc: "if_frame cv s t \<Longrightarrow> if_frame cv s (snd (wg_packet_alloc env m t))"
  by (auto simp: wg_packet_alloc_def Let_def if_frame_def)

lemma frame_push_staged [frame_intros]: "if_frame cv s t \<Longrightarrow> if_frame cv s (wg_queue_push_staged q p t)"
  by (auto simp: wg_queue_push_staged_def Let_def intro!: frame_intros)

lemma frame_fold: "(\<And>x t. if_frame cv s t \<Longrightarrow> if_frame cv s (f x t)) \<Longrightarrow> if_frame cv s t \<Longrightarrow> if_frame cv s (fold f xs t)"
  by (induction xs arbitrary: t) auto

lemma frame_enlist [frame_intros]: "if_frame cv s t \<Longrightarrow> if_frame cv s (wg_queue_enlist_staged q ps t)"
  unfolding wg_queue_enlist_staged_def by (rule frame_fold) (auto intro: frame_intros)

lemma frame_delist: "if_frame cv s t \<Longrightarrow> if_frame cv s (snd (wg_queue_delist_staged q t))"
  by (auto simp: wg_queue_delist_staged_def intro: frame_intros)

lemma frame_purge [frame_intros]: "if_frame cv s t \<Longrightarrow> if_frame cv s (wg_queue_purge q t)"
  using frame_delist [of cv s t q]
  by (auto simp: wg_queue_purge_def case_prod_unfold intro!: frame_fold frame_intros)

lemma frame_enqueue_handshake: "if_frame cv s t \<Longrightarrow> if_frame cv s (snd (wg_queue_enqueue_handshake q p t))"
  by (auto simp: wg_queue_enqueue_handshake_def intro: frame_intros)

lemma frame_dequeues:
  "if_frame cv s t \<Longrightarrow> if_frame cv s (snd (wg_queue_dequeue_handshake q t))"
  "if_frame cv s t \<Longrightarrow> if_frame cv s (snd (wg_queue_dequeue_serial q t))"
  "if_frame cv s t \<Longrightarrow> if_frame cv s (snd (wg_queue_dequeue_parallel q t))"
  by (auto simp: wg_queue_dequeue_handshake_def wg_queue_dequeue_serial_def wg_queue_dequeue_parallel_def
      intro: frame_intros split: list.split)

lemma frame_both: "if_frame cv s t \<Longrightarrow> if_frame cv s (snd (wg_queue_both a b p t))"
proof -
  assume t: "if_frame cv s t"
  have 1: "if_frame cv s (snd (queue_both_serial b p t))"
    using t by (auto simp: queue_both_serial_def Let_def intro!: frame_intros)
  have 2: "if_frame cv s (snd (queue_both_parallel a p u))" if "if_frame cv s u" for u
    using that by (auto simp: queue_both_parallel_def intro!: frame_intros)
  show ?thesis using 1 2 by (simp add: wg_queue_both_def case_prod_unfold)
qed

lemma frame_dispatch [frame_intros]:
  "if_frame cv s t \<Longrightarrow> if_frame cv s (wg_encrypt_dispatch t)"
  "if_frame cv s t \<Longrightarrow> if_frame cv s (wg_decrypt_dispatch t)"
  by (auto simp: wg_encrypt_dispatch_def wg_decrypt_dispatch_def Let_def intro!: frame_intros)


subsection \<open>Sending and scheduling\<close>

lemma frame_send: "if_frame cv s t \<Longrightarrow> if_frame cv s (snd (wg_send env e m t))"
  by (auto simp: wg_send_def Let_def intro!: frame_intros)

lemma frame_send_buf [frame_intros]: "if_frame cv s t \<Longrightarrow> if_frame cv s (wg_send_buf env e buf t)"
  by (auto simp: wg_send_buf_def case_prod_unfold intro!: frame_send split: option.split)

lemma frame_peer_fields [frame_intros]:
  "if_frame cv s t \<Longrightarrow> if_frame cv s (wg_peer_set_endpoint i e t)"
  "if_frame cv s t \<Longrightarrow> if_frame cv s (wg_peer_clear_src i t)"
  "if_frame cv s t \<Longrightarrow> if_frame cv s (wg_timers_disable i t)"
  "if_frame cv s t \<Longrightarrow> if_frame cv s (wg_timers_event_data_sent env i t)"
  "if_frame cv s t \<Longrightarrow> if_frame cv s (wg_timers_event_data_received i t)"
  "if_frame cv s t \<Longrightarrow> if_frame cv s (wg_timers_event_any_authenticated_packet_sent i t)"
  "if_frame cv s t \<Longrightarrow> if_frame cv s (wg_timers_event_any_authenticated_packet_received i t)"
  "if_frame cv s t \<Longrightarrow> if_frame cv s (wg_timers_event_any_authenticated_packet_traversal i t)"
  "if_frame cv s t \<Longrightarrow> if_frame cv s (wg_timers_event_handshake_initiated env i t)"
  "if_frame cv s t \<Longrightarrow> if_frame cv s (wg_timers_event_session_derived i t)"
  "if_frame cv s t \<Longrightarrow> if_frame cv s (upd_w i (\<lambda>w. w\<lparr>w_tx_bytes := tx w\<rparr>) t)"
  "if_frame cv s t \<Longrightarrow> if_frame cv s (upd_w i (\<lambda>w. w\<lparr>w_rx_bytes := tx w\<rparr>) t)"
  "if_frame cv s t \<Longrightarrow> if_frame cv s (upd_w i (\<lambda>w. w\<lparr>w_cookie := cm\<rparr>) t)"
  "if_frame cv s t \<Longrightarrow> if_frame cv s (upd_w i (\<lambda>w. w\<lparr>w_handshake_retries := rt w\<rparr>) t)"
  "if_frame cv s t \<Longrightarrow> if_frame cv s (upd_w i (\<lambda>w. w\<lparr>w_enabled := b\<rparr>) t)"
  "if_frame cv s t \<Longrightarrow> if_frame cv s (upd_w i (\<lambda>w. w\<lparr>w_send_keepalive := c\<rparr>) t)"
  "if_frame cv s t \<Longrightarrow> if_frame cv s (upd_w i (\<lambda>w. w\<lparr>w_persistent_keepalive_interval := pki\<rparr>) t)"
  "if_frame cv s t \<Longrightarrow> if_frame cv s (upd_w i (\<lambda>w. w\<lparr>w_retry_handshake := c, w_handshake_retries := 0, w_handshake_complete := tm\<rparr>) t)"
  by (auto simp: wg_peer_set_endpoint_def wg_peer_clear_src_def wg_timers_disable_def wg_timers_event_data_sent_def
      wg_timers_event_data_received_def wg_timers_event_any_authenticated_packet_sent_def
      wg_timers_event_any_authenticated_packet_received_def wg_timers_event_any_authenticated_packet_traversal_def
      wg_timers_event_handshake_initiated_def wg_timers_event_session_derived_def intro!: frame_upd_w)

lemma frame_peer_send_buf [frame_intros]: "if_frame cv s t \<Longrightarrow> if_frame cv s (wg_peer_send_buf env i buf t)"
  unfolding wg_peer_send_buf_def Let_def by (intro frame_intros)

lemma frame_send_macs [frame_intros]: "if_frame cv s t \<Longrightarrow> if_frame cv s (wg_send_macs env i pkt t)"
  unfolding wg_send_macs_def case_prod_unfold by (intro frame_intros)

lemma frame_send_cookie [frame_intros]: "if_frame cv s t \<Longrightarrow> if_frame cv s (wg_send_cookie env cm si e t)"
  unfolding wg_send_cookie_def case_prod_unfold by (intro frame_intros)

subsection \<open>Initiations and responses\<close>

lemma frame_wg_send_initiation:
  assumes "wg_send_initiation cv env i t = Some u" "if_frame cv s t" "i < sc_next_peer s" "if_links cv s"
  shows "if_frame cv s u"
proof -
  have r: "w_remote (sc_peer t i) < next_remote (sc_local t)"
    using frame_links [OF assms(2,4)] frame_next_peer [OF assms(2)] assms(3) by (simp add: if_links_def)
  obtain e out l where c: "noise_create_initiation cv (w_remote (sc_peer t i)) (e_uptime env) (e_wall env) (e_rnd env)
      (e_draws env) (sc_local t) = Some (e, out, l)"
    using assms(1) by (auto simp: wg_send_initiation_def split: option.splits)
  have "if_frame cv s (t\<lparr>sc_local := l\<rparr>)" by (rule frame_set_local [OF assms(2) run_create_initiation [OF r c]])
  then show ?thesis using assms(1) by (auto simp: wg_send_initiation_def c intro!: frame_intros split: option.splits)
qed

lemma frame_send_response [frame_intros]:
  assumes "if_frame cv s t"
  shows "if_frame cv s (wg_send_response cv env i t)"
proof -
  obtain e out l where c: "noise_create_response cv (w_remote (sc_peer t i)) (e_uptime env) (e_rnd env) (e_alloc env) (sc_local t)
      = (e, out, l)" by (metis prod_cases3)
  have "run cv (sc_local t) l" using run_interface(5) c by (metis snd_conv)
  then have "if_frame cv s (t\<lparr>sc_local := l\<rparr>)" by (rule frame_set_local [OF assms])
  then show ?thesis by (auto simp: wg_send_response_def c intro!: frame_intros split: option.splits)
qed

lemma frame_run_send_initiation:
  assumes "wg_timers_run_send_initiation cv env i retry t = Some u" "if_frame cv s t" "i < sc_next_peer s" "if_links cv s"
  shows "if_frame cv s u"
proof -
  have "if_frame cv s (if retry then t else upd_w i (\<lambda>w. w\<lparr>w_handshake_retries := 0\<rparr>) t)"
    using assms(2) by (auto intro: frame_intros)
  then show ?thesis using assms frame_wg_send_initiation
    by (auto simp: wg_timers_run_send_initiation_def Let_def split: if_splits)
qed

lemma frame_want_initiation:
  assumes "wg_timers_event_want_initiation cv env i t = Some u" "if_frame cv s t" "i < sc_next_peer s" "if_links cv s"
  shows "if_frame cv s u"
  using assms frame_run_send_initiation by (auto simp: wg_timers_event_want_initiation_def split: if_splits)

subsection \<open>Staged packets\<close>

lemma frame_assign_nonces: "if_frame cv s t \<Longrightarrow> if_frame cv s (snd (assign_nonces k ps t))"
proof (induction ps arbitrary: t)
  case (Cons p ps)
  obtain e n l where n: "nonce_next_at k (sc_local t) = (e, n, l)" by (metis prod_cases3)
  then have "run cv (sc_local t) l" using run_upd_nonce by (metis snd_conv)
  then have "if_frame cv s (t\<lparr>sc_local := l\<rparr>)" by (rule frame_set_local [OF Cons.prems])
  then have "if_frame cv s (upd_pk p (\<lambda>pkt. pkt\<lparr>pk_nonce := n\<rparr>) (t\<lparr>sc_local := l\<rparr>))" by (intro frame_intros)
  then show ?case using Cons.IH by (simp add: n Let_def)
qed simp

lemma slot_next: "noise_inv l \<Longrightarrow> k \<in> set (slots (remotes l r)) \<Longrightarrow> k < next_keypair l \<and> r < next_remote l"
  by (force simp: noise_inv_def slot_ok_def fresh_ok_def not_le [symmetric])

lemma current_next:
  "noise_inv l \<Longrightarrow> noise_keypair_current r now l = (Some k, l') \<Longrightarrow> k < next_keypair l'"
  using slot_next [of l k r]
  by (auto simp: noise_keypair_current_def acquire_keypair_def slots_def split: option.splits if_splits)

lemma frame_queue_encrypt:
  assumes "if_frame cv s t" "k < next_keypair (sc_local t)"
  shows "if_frame cv s (queue_encrypt k i p t)" "k < next_keypair (sc_local (queue_encrypt k i p t))"
proof -
  have 1: "if_frame cv u (queue_encrypt k i p t)" if "if_frame cv u t" for u
  proof -
    have "if_frame cv u (upd_local (noise_keypair_ref k) t)" using that by (intro frame_intros)
    moreover have "k < next_keypair (sc_local (upd_local (noise_keypair_ref k) t))" using assms(2) by (simp add: upd_local_def)
    ultimately have "if_frame cv u (snd (wg_queue_both Encrypt_parallel (Encrypt_serial i) p
        (upd_pk p (\<lambda>pkt. pkt\<lparr>pk_keypair := Some k\<rparr>) (upd_local (noise_keypair_ref k) t))))"
      by (intro frame_both frame_set_keypair)
    then show ?thesis by (auto simp: queue_encrypt_def Let_def case_prod_unfold intro: frame_intros)
  qed
  show "if_frame cv s (queue_encrypt k i p t)" using 1 assms(1) .
  show "k < next_keypair (sc_local (queue_encrypt k i p t))"
    using 1 [OF if_frame_refl] run_keypairs assms(2) by (force simp: if_frame_def)
qed

lemma frame_queue_all:
  "if_frame cv s t \<Longrightarrow> k < next_keypair (sc_local t) \<Longrightarrow> if_frame cv s (fold (queue_encrypt k i) ps t)"
  by (induction ps arbitrary: t) (auto simp: frame_queue_encrypt)

lemma frame_send_staged:
  assumes "wg_peer_send_staged cv env i t = Some u" "if_frame cv s t" "i < sc_next_peer s" "if_links cv s"
  shows "if_frame cv s u"
proof -
  obtain list t1 where d: "wg_queue_delist_staged (Stage i) t = (list, t1)" by fastforce
  then have 1: "if_frame cv s t1" using frame_delist [OF assms(2), of "Stage i"] by simp
  obtain ko l where c: "noise_keypair_current (w_remote (sc_peer t1 i)) (e_uptime env) (sc_local t1) = (ko, l)" by fastforce
  then have "run cv (sc_local t1) l" using run_interface(1) by (metis snd_conv)
  then have 2: "if_frame cv s (t1\<lparr>sc_local := l\<rparr>)" by (rule frame_set_local [OF 1])
  show ?thesis
  proof (cases ko)
    case None
    then show ?thesis
      using assms(1) 1 frame_want_initiation [OF _ frame_enlist [OF 2] assms(3,4)]
      by (auto simp: wg_peer_send_staged_def d c split: if_splits)
  next
    case (Some k)
    obtain ok t2 where a: "assign_nonces k list (t1\<lparr>sc_local := l\<rparr>) = (ok, t2)" by fastforce
    then have 3: "if_frame cv s t2" using frame_assign_nonces [OF 2, of k list] by simp
    have inv: "noise_inv (sc_local t1)" using frame_links [OF 1 assms(4)] noise_reach_inv by (auto simp: if_links_def)
    have "k < next_keypair (sc_local (t1\<lparr>sc_local := l\<rparr>))" using current_next [OF inv c [unfolded Some]] by simp
    moreover have "if_frame cv (t1\<lparr>sc_local := l\<rparr>) t2"
      using frame_assign_nonces [OF if_frame_refl, of cv "t1\<lparr>sc_local := l\<rparr>" k list] a by simp
    ultimately have kt: "k < next_keypair (sc_local t2)" using run_keypairs by (force simp: if_frame_def)
    have 4: "if_frame cv s (upd_local (noise_keypair_put k) (wg_encrypt_dispatch (fold (queue_encrypt k i) list t2)))"
      by (intro frame_intros frame_queue_all 3 kt)
    show ?thesis
      using assms(1) 1 4 frame_want_initiation [OF _ frame_enlist [OF frame_puts(1) [OF 3]] assms(3,4)]
      by (auto simp: wg_peer_send_staged_def d c a Some split: if_splits)
  qed
qed

lemma frame_send_keepalive:
  assumes "wg_send_keepalive cv env i t = Some u" "if_frame cv s t" "i < sc_next_peer s" "if_links cv s"
  shows "if_frame cv s u"
proof -
  have 1: "if_frame cv s t1" if "wg_packet_alloc env m t = (po, t1)" for m po t1
    using frame_packet_alloc [OF assms(2), of env m] that by simp
  have 2: "if_frame cv s u" if "wg_peer_send_staged cv env i w = Some u" "if_frame cv s w" for w
    using frame_send_staged [OF that assms(3,4)] .
  have 3: "if_frame cv s (wg_queue_push_staged (Stage i) p t1)" if "wg_packet_alloc env m t = (po, t1)" for m po t1 p
    by (rule frame_push_staged [OF 1 [OF that]])
  show ?thesis
    using assms(1,2)
    by (auto simp: wg_send_keepalive_def split: if_splits option.splits prod.splits dest: 2 1 intro: 3 dest!: 2 [OF _ 3])
qed


lemma frame_run_send_keepalive:
  assumes "wg_timers_run_send_keepalive cv env i t = Some u" "if_frame cv s t" "i < sc_next_peer s" "if_links cv s"
  shows "if_frame cv s u"
  using assms frame_send_keepalive by (fastforce simp: wg_timers_run_send_keepalive_def intro!: frame_upd_w)

lemma frame_handshake_complete:
  assumes "wg_timers_event_handshake_complete cv env i t = Some u" "if_frame cv s t" "i < sc_next_peer s" "if_links cv s"
  shows "if_frame cv s u"
  using assms(1,2) frame_run_send_keepalive [OF _ frame_peer_fields(18) [OF assms(2)] assms(3,4)]
  by (auto simp: wg_timers_event_handshake_complete_def split: if_splits)

lemma frame_persistent_keepalive:
  assumes "wg_timers_run_persistent_keepalive cv env i t = Some u" "if_frame cv s t" "i < sc_next_peer s" "if_links cv s"
  shows "if_frame cv s u"
  using assms frame_send_keepalive by (auto simp: wg_timers_run_persistent_keepalive_def split: if_splits)

lemma frame_timers_enable:
  assumes "wg_timers_enable cv env i t = Some u" "if_frame cv s t" "i < sc_next_peer s" "if_links cv s"
  shows "if_frame cv s u"
  using assms(1) frame_persistent_keepalive [OF _ frame_peer_fields(15) [OF assms(2)] assms(3,4)]
  by (simp add: wg_timers_enable_def)

lemma frame_set_keepalive:
  assumes "wg_timers_set_persistent_keepalive cv env i pki t = Some u" "if_frame cv s t" "i < sc_next_peer s" "if_links cv s"
  shows "if_frame cv s u"
  using assms(1,2) frame_persistent_keepalive [OF _ frame_peer_fields(17) [OF assms(2)] assms(3,4)]
  by (auto simp: wg_timers_set_persistent_keepalive_def Let_def intro: frame_intros split: if_splits)

lemma frame_retry_handshake:
  assumes "wg_timers_run_retry_handshake cv env i t = Some u" "if_frame cv s t" "i < sc_next_peer s" "if_links cv s"
  shows "if_frame cv s u"
  using assms(1,2) frame_run_send_initiation [OF _ frame_peer_fields(2) [OF frame_peer_fields(14) [OF assms(2)]] assms(3,4)]
  by (auto simp: wg_timers_run_retry_handshake_def Let_def intro!: frame_upd_w frame_intros split: if_splits)

lemma frame_new_handshake:
  assumes "wg_timers_run_new_handshake cv env i t = Some u" "if_frame cv s t" "i < sc_next_peer s" "if_links cv s"
  shows "if_frame cv s u"
  using assms(1) frame_run_send_initiation [OF _ frame_peer_fields(2) [OF assms(2)] assms(3,4)]
  by (simp add: wg_timers_run_new_handshake_def)

lemma frame_zero_key_material [frame_intros]: "if_frame cv s t \<Longrightarrow> if_frame cv s (wg_timers_run_zero_key_material i t)"
  unfolding wg_timers_run_zero_key_material_def by (rule frame_upd_local) simp_all


subsection \<open>The data plane\<close>

lemma frame_aip_lookup: "if_frame cv s t \<Longrightarrow> if_frame cv s (snd (wg_aip_lookup rx f a t))"
  by (auto simp: wg_aip_lookup_def Let_def intro!: frame_intros split: option.split)

lemma frame_drops [frame_intros]:
  "if_frame cv s t \<Longrightarrow> if_frame cv s (iqdrop t)"
  "if_frame cv s t \<Longrightarrow> if_frame cv s (ierror t)"
  "if_frame cv s t \<Longrightarrow> if_frame cv s (oerror p t)"
  "if_frame cv s t \<Longrightarrow> if_frame cv s (ierror_packet p t)"
  "if_frame cv s t \<Longrightarrow> if_frame cv s (handshake_counted i n t)"
  "if_frame cv s t \<Longrightarrow> if_frame cv s (handshake_authenticated i r n t)"
  by (auto simp: iqdrop_def ierror_def oerror_def ierror_packet_def handshake_counted_def handshake_authenticated_def
      intro!: frame_intros)

lemma frame_interface:
  "if_frame cv s t \<Longrightarrow> noise_keypair_lookup (sc_local t) i = (ko, l) \<Longrightarrow> if_frame cv s (t\<lparr>sc_local := l\<rparr>)"
  "if_frame cv s t \<Longrightarrow> noise_keypair_remote k (sc_local t) = (r, l) \<Longrightarrow> if_frame cv s (t\<lparr>sc_local := l\<rparr>)"
  "if_frame cv s t \<Longrightarrow> noise_keypair_received_with k (sc_local t) = (e, l) \<Longrightarrow> if_frame cv s (t\<lparr>sc_local := l\<rparr>)"
  "if_frame cv s t \<Longrightarrow> noise_remote_index (sc_local t) i = (ro, l) \<Longrightarrow> if_frame cv s (t\<lparr>sc_local := l\<rparr>)"
proof -
  have "run cv l (snd (noise_remote_index l i))" for l
    using index_lookup_ref [of l i True]
    by (intro run_step noise_step.intros(9)) (cases "noise_remote_index_lookup l i True", cases "fst (noise_remote_index_lookup l i True)",
        auto simp: noise_remote_index_def)
  then show "if_frame cv s t \<Longrightarrow> noise_remote_index (sc_local t) i = (ro, l) \<Longrightarrow> if_frame cv s (t\<lparr>sc_local := l\<rparr>)"
    by (metis frame_set_local snd_conv)
qed (metis frame_set_local run_interface snd_conv)+

lemma lookup_valid:
  assumes "noise_reach cv l" "noise_keypair_lookup l i = (Some k, l')"
  shows "l' = noise_keypair_ref k l" "k < next_keypair l" "kp_remote (keypairs l k) < next_remote l"
proof -
  show "l' = noise_keypair_ref k l" using keypair_lookup_parts(2) [OF assms(1), of i] assms(2) by simp
  have "k \<in> set (slots (remotes l (kp_remote (keypairs l k))))"
    using keypair_lookup_parts(1) [OF assms(1), of i k] assms(2) by simp
  from slot_next [OF noise_reach_inv [OF assms(1)] this]
  show "k < next_keypair l" "kp_remote (keypairs l k) < next_remote l" by simp_all
qed

lemma frame_input_data:
  assumes t: "if_frame cv s t" and links: "if_links cv s"
  shows "if_frame cv s (input_data env dg p t)"
proof -
  obtain ko l where lk: "noise_keypair_lookup (sc_local t) (le32dec (drop 4 dg)) = (ko, l)" by fastforce
  have reach: "noise_reach cv (sc_local t)" using frame_links [OF t links] by (simp add: if_links_def)
  have l: "if_frame cv s (t\<lparr>sc_local := l\<rparr>)" by (rule frame_interface(1) [OF t lk])
  show ?thesis
  proof (cases ko)
    case None
    then show ?thesis using t l by (simp add: input_data_def lk frame_intros)
  next
    case (Some k)
    let ?t = "upd_pk p (\<lambda>x. x\<lparr>pk_keypair := Some k\<rparr>) (t\<lparr>sc_local := l\<rparr>)"
    obtain r l2 where r: "noise_keypair_remote k (sc_local ?t) = (r, l2)" by fastforce
    have "k < next_keypair (sc_local (t\<lparr>sc_local := l\<rparr>))" using lookup_valid(1,2) [OF reach lk [unfolded Some]] by simp
    then have "if_frame cv s ?t" by (rule frame_set_keypair [OF l])
    then have "if_frame cv s (?t\<lparr>sc_local := l2\<rparr>)" using r by (rule frame_interface(2))
    note 2 = frame_both [OF this]
    show ?thesis
    proof (cases "e_pullup env 16")
      case True
      show ?thesis using True 2
        by (auto simp: input_data_def lk Some Let_def case_prod_unfold r intro!: frame_puts frame_dispatch frame_drops)
    qed (use t in \<open>simp add: input_data_def frame_intros\<close>)
  qed
qed

lemma frame_input:
  assumes t: "if_frame cv s t" and links: "if_links cv s"
  shows "if_frame cv s (wg_input env dg sa dst t)"
proof -
  obtain po t1 where a: "wg_packet_alloc env \<lparr>m_data = dg, m_cap = length dg\<rparr> t = (po, t1)" by fastforce
  then have 1: "if_frame cv s t1" using frame_packet_alloc [OF t, of env] by (metis snd_conv)
  have 2: "if_frame cv s (upd_pk p (\<lambda>x. x\<lparr>pk_endpoint := \<lparr>ep_remote = sa, ep_local = dst\<rparr>\<rparr>) t1)" for p
    using 1 by (intro frame_intros)
  show ?thesis using t 1 frame_enqueue_handshake [OF 2] frame_input_data [OF 2 links]
    by (auto simp: wg_input_def a Let_def case_prod_unfold intro!: frame_intros split: option.split)
qed

lemma frame_under_load: "if_frame cv s t \<Longrightarrow> if_frame cv s (snd (under_load env t))"
  by (auto simp: under_load_def intro!: frame_intros)

lemma frame_check_macs:
  "check_macs env ul body m si e t = Some (ok, u) \<Longrightarrow> if_frame cv s t \<Longrightarrow> if_frame cv s u"
  by (auto simp: check_macs_def Let_def intro!: frame_intros split: prod.splits if_splits)


lemma consume_response_remote:
  assumes "noise_inv l" "noise_consume_response cv s_idx r_idx ue en now ok l = (e, Some r, l')"
  shows "r < next_remote l"
proof -
  obtain x l1 where lk: "noise_remote_index_lookup l r_idx False = (x, l1)" by (metis surj_pair)
  have "x = Some r \<and> r_handshake_state (remotes l1 r) = HANDSHAKE_INITIATOR"
    using assms(2) by (auto simp: noise_consume_response_def lk Let_def split: option.splits if_splits prod.splits)
  then have "r_handshake_state (remotes l r) \<noteq> HANDSHAKE_DEAD" using index_lookup_ref(1) lk by fastforce
  then show ?thesis using assms(1) by (force simp: noise_inv_def fresh_ok_def not_le [symmetric])
qed

lemma frame_handshake_initiation:
  assumes "handshake_initiation cv env ul dg e t = Some u" "if_frame cv s t" "length dg = 148"
  shows "if_frame cv s u"
proof -
  obtain ok t1 where m: "check_macs env ul (take 116 dg) \<lparr>mac1 = take 16 (drop 116 dg), mac2 = take 16 (drop 132 dg)\<rparr>
      (le32dec (drop 4 dg)) e t = Some (ok, t1)"
    using assms(1) by (auto simp: handshake_initiation_def Let_def bind_eq_Some_conv)
  have 1: "if_frame cv s t1" using frame_check_macs [OF m assms(2)] .
  show ?thesis
  proof (cases ok)
    case True
    then obtain er ro l where c: "noise_consume_initiation cv (le32dec (drop 4 dg)) (take 32 (drop 8 dg)) (take 48 (drop 40 dg))
        (take 28 (drop 88 dg)) (e_uptime env) (e_draws env) (sc_local t1) = Some (er, ro, l)"
      using assms(1) m by (auto simp: handshake_initiation_def Let_def split: option.splits)
    have "run cv (sc_local t1) l" by (rule run_consume_initiation [OF _ c]) (simp add: assms(3))
    then have "if_frame cv s (t1\<lparr>sc_local := l\<rparr>)" by (rule frame_set_local [OF 1])
    then show ?thesis using assms(1) m True c
      by (auto simp: handshake_initiation_def Let_def intro!: frame_intros split: option.splits)
  next
    case False
    then show ?thesis using assms(1) m 1 by (simp add: handshake_initiation_def Let_def)
  qed
qed

lemma frame_handshake_response:
  assumes "handshake_response cv env ul dg e t = Some u" "if_frame cv s t" "if_links cv s"
  shows "if_frame cv s u"
proof -
  obtain ok t1 where m: "check_macs env ul (take 60 dg) \<lparr>mac1 = take 16 (drop 60 dg), mac2 = take 16 (drop 76 dg)\<rparr>
      (le32dec (drop 4 dg)) e t = Some (ok, t1)"
    using assms(1) by (auto simp: handshake_response_def Let_def bind_eq_Some_conv)
  have 1: "if_frame cv s t1" using frame_check_macs [OF m assms(2)] .
  obtain er ro l where c: "noise_consume_response cv (le32dec (drop 4 dg)) (le32dec (drop 8 dg)) (take 32 (drop 12 dg))
      (take 16 (drop 44 dg)) (e_uptime env) (e_alloc env) (sc_local t1) = (er, ro, l)" by (metis prod_cases3)
  have "run cv (sc_local t1) l" using run_interface(6) c by (metis snd_conv)
  then have 2: "if_frame cv s (t1\<lparr>sc_local := l\<rparr>)" by (rule frame_set_local [OF 1])
  show ?thesis
  proof (cases "ok \<and> ro \<noteq> None")
    case True
    then obtain r where r: "ro = Some r" by auto
    have l1: "if_links cv t1" "if_links cv (t1\<lparr>sc_local := l\<rparr>)" using frame_links 1 2 assms(3) by blast+
    have "r < next_remote (sc_local t1)"
      using consume_response_remote [OF _ c [unfolded r]] l1(1) noise_reach_inv by (auto simp: if_links_def)
    then have "r < next_remote l" using \<open>run cv (sc_local t1) l\<close> by (simp add: run_def)
    then have i: "noise_remote_arg l r < sc_next_peer s" using l1(2) frame_next_peer [OF 1] by (simp add: if_links_def)
    let ?w = "wg_timers_event_session_derived (noise_remote_arg l r) (wg_peer_set_endpoint (noise_remote_arg l r) e (t1\<lparr>sc_local := l\<rparr>))"
    obtain v where v: "wg_timers_event_handshake_complete cv env (noise_remote_arg l r) ?w = Some v"
      "u = handshake_authenticated (noise_remote_arg l r) r (length dg) v"
      using assms(1) m c True r by (auto simp: handshake_response_def Let_def)
    have "if_frame cv s ?w" using 2 by (intro frame_intros)
    then have "if_frame cv s v" using frame_handshake_complete [OF v(1) _ i] assms(3) by (simp add: if_links_def)
    then show ?thesis unfolding v(2) by (intro frame_intros)
  next
    case False
    then show ?thesis using assms(1) m c 1 2 by (auto simp: handshake_response_def Let_def split: if_splits)
  qed
qed

lemma frame_handshake_cookie [frame_intros]: "if_frame cv s t \<Longrightarrow> if_frame cv s (handshake_cookie env dg t)"
proof -
  assume t: "if_frame cv s t"
  obtain ro l where c: "noise_remote_index (sc_local t) (le32dec (drop 4 dg)) = (ro, l)" by fastforce
  then have 1: "if_frame cv s (t\<lparr>sc_local := l\<rparr>)" by (rule frame_interface(4) [OF t])
  then show ?thesis
    by (auto simp: handshake_cookie_def c Let_def case_prod_unfold intro!: frame_intros split: option.split)
qed


text \<open>What \<^verbatim>\<open>wg_input\<close> takes for a handshake message.\<close>

definition handshake_message :: "bytes \<Rightarrow> bool" where
  "handshake_message dg \<longleftrightarrow> length dg = 148 \<and> le32dec dg = WGS_PKT_INITIATION \<or> length dg = 92 \<and> le32dec dg = WGS_PKT_RESPONSE \<or>
     length dg = 64 \<and> le32dec dg = WGS_PKT_COOKIE"

lemma frame_handshake:
  assumes "wg_handshake cv env p t = Some u" "if_frame cv s t" "if_links cv s"
    "\<And>pkt m. sc_pkt t p = Some pkt \<Longrightarrow> pk_mbuf pkt = Some m \<Longrightarrow> handshake_message (m_data m)"
  shows "if_frame cv s u"
proof -
  obtain ul t1 where l: "under_load env t = (ul, t1)" by fastforce
  then have 1: "if_frame cv s t1" using frame_under_load [OF assms(2), of env] by simp
  have pk: "sc_pkt t1 = sc_pkt t" using l by (auto simp: under_load_def split: if_splits)
  obtain pkt m where p: "sc_pkt t p = Some pkt" "pk_mbuf pkt = Some m"
    using assms(1) by (auto simp: wg_handshake_def l pk bind_eq_Some_conv)
  have hm: "handshake_message (m_data m)" using assms(4) p by blast
  show ?thesis
  proof (cases "e_pullup env (length (m_data m))")
    case False
    then have "u = wg_packet_free p (upd_pk p (\<lambda>x. x\<lparr>pk_mbuf := None\<rparr>) t1)"
      using assms(1) p by (simp add: wg_handshake_def l pk Let_def)
    then show ?thesis using 1 by (auto intro: frame_intros)
  next
    case True
    then obtain v where v: "u = wg_packet_free p v"
      "(if le32dec (m_data m) = WGS_PKT_INITIATION then handshake_initiation cv env ul (m_data m) (pk_endpoint pkt) t1
        else if le32dec (m_data m) = WGS_PKT_RESPONSE then handshake_response cv env ul (m_data m) (pk_endpoint pkt) t1
        else if le32dec (m_data m) = WGS_PKT_COOKIE then Some (handshake_cookie env (m_data m) t1)
        else None) = Some v"
      using assms(1) p by (auto simp: wg_handshake_def l pk Let_def)
    have "length (m_data m) = 148" if "le32dec (m_data m) = WGS_PKT_INITIATION"
      using hm that by (auto simp: handshake_message_def WGS_PKT_INITIATION_def WGS_PKT_RESPONSE_def WGS_PKT_COOKIE_def)
    then have "if_frame cv s v"
      using v(2) frame_handshake_initiation [OF _ 1] frame_handshake_response [OF _ 1 assms(3)] frame_handshake_cookie [OF 1]
      by (auto split: if_splits)
    then show ?thesis unfolding v(1) by (intro frame_intros)
  qed
qed

subsection \<open>Encryption, decryption and delivery\<close>

lemma frame_encrypt: "wg_encrypt env p t = Some u \<Longrightarrow> if_frame cv s t \<Longrightarrow> if_frame cv s u"
proof -
  assume u: "wg_encrypt env p t = Some u" and t: "if_frame cv s t"
  obtain pkt k m where w: "work_of p t = Some (pkt, k, m)" using u by (auto simp: wg_encrypt_def)
  obtain r l where r: "noise_keypair_remote k (sc_local t) = (r, l)" by fastforce
  have "if_frame cv s (t\<lparr>sc_local := l\<rparr>)" using frame_interface(2) [OF t r] .
  then show ?thesis using u by (auto simp: wg_encrypt_def w r Let_def case_prod_unfold intro!: frame_intros)
qed

lemma frame_inner_source: "if_frame cv s t \<Longrightarrow> inner_source rx f m t = (a, m', u) \<Longrightarrow> if_frame cv s u"
  using frame_aip_lookup [of cv s t rx]
  by (auto simp: inner_source_def Let_def case_prod_unfold split: af.splits)

lemma frame_decrypted: "decrypted rx env i d t = (m, f, st, u) \<Longrightarrow> if_frame cv s t \<Longrightarrow> if_frame cv s u"
  by (auto simp: decrypted_def Let_def split: prod.splits if_splits errno.splits option.splits
      dest: frame_inner_source intro: frame_intros)

lemma frame_decrypt: "wg_decrypt rx env p t = Some u \<Longrightarrow> if_frame cv s t \<Longrightarrow> if_frame cv s u"
proof -
  assume u: "wg_decrypt rx env p t = Some u" and t: "if_frame cv s t"
  obtain pkt k m where w: "work_of p t = Some (pkt, k, m)" using u by (auto simp: wg_decrypt_def)
  obtain r l where r: "noise_keypair_remote k (sc_local t) = (r, l)" by fastforce
  let ?t = "upd_pk p (\<lambda>x. x\<lparr>pk_nonce := le64dec (drop 8 (m_data m))\<rparr>) (t\<lparr>sc_local := l\<rparr>)"
  obtain m' f st v where d: "decrypted rx env (noise_remote_arg l r)
      (noise_keypair_decrypt (keypairs l k) (le64dec (drop 8 (m_data m))) (m_adj m 16) (e_uptime env)) ?t = (m', f, st, v)"
    by (metis prod_cases4)
  have "if_frame cv s ?t" using frame_interface(2) [OF t r] by (intro frame_intros)
  then have "if_frame cv s v" by (rule frame_decrypted [OF d])
  then show ?thesis using u by (auto simp: wg_decrypt_def w r d Let_def intro!: frame_intros)
qed


lemma frame_deliver_out_packet:
  assumes "deliver_out_packet cv env i p ep t = Some (ep', u)" "if_frame cv s t" "i < sc_next_peer s" "if_links cv s"
  shows "if_frame cv s u"
proof -
  obtain pkt where p: "sc_pkt t p = Some pkt" using assms(1) by (auto simp: deliver_out_packet_def bind_eq_Some_conv)
  show ?thesis
  proof (cases "pk_state pkt = WG_PACKET_CRYPTED")
    case True
    then obtain m where m: "pk_mbuf pkt = Some m" using assms(1) p by (auto simp: deliver_out_packet_def bind_eq_Some_conv)
    let ?t = "wg_timers_event_any_authenticated_packet_sent i (wg_timers_event_any_authenticated_packet_traversal i
      (upd_pk p (\<lambda>x. x\<lparr>pk_mbuf := None\<rparr>) t))"
    obtain rc v where sent: "wg_send env ep m ?t = (rc, v)" by fastforce
    have "if_frame cv s ?t" using assms(2) by (intro frame_intros)
    then have v: "if_frame cv s v" using frame_send sent by (metis snd_conv)
    let ?v = "wg_packet_free p (upd_w i (\<lambda>w. w\<lparr>w_tx_bytes := w_tx_bytes w + of_nat (length (m_data m))\<rparr>)
      (if length (m_data m) > 32 then wg_timers_event_data_sent env i v else v))"
    have "if_frame cv s ?v" using v by (auto intro!: frame_intros)
    then show ?thesis
      using assms(1) p m True v frame_want_initiation [OF _ _ assms(3,4)]
      by (auto simp: deliver_out_packet_def Let_def sent intro!: frame_intros split: if_splits)
  next
    case False
    then show ?thesis using assms(1,2) p by (auto simp: deliver_out_packet_def intro: frame_intros)
  qed
qed

lemma frame_deliver_received:
  assumes "deliver_received cv env i p pkt m t = Some u" "if_frame cv s t" "i < sc_next_peer s" "if_links cv s"
  shows "if_frame cv s u"
proof -
  have 1: "if_frame cv s (count c (upd_w i (\<lambda>w. w\<lparr>w_rx_bytes := tx w\<rparr>) (wg_peer_set_endpoint i e
      (wg_timers_event_any_authenticated_packet_traversal i (wg_timers_event_any_authenticated_packet_received i t)))))" for c tx e
    using assms(2) by (intro frame_intros)
  have 2: "if_frame cv s (wg_timers_event_data_received i (emit x (upd_pk p (\<lambda>x. x\<lparr>pk_mbuf := None\<rparr>) (count c (upd_w i (\<lambda>w. w\<lparr>w_rx_bytes := tx w\<rparr>)
      (wg_peer_set_endpoint i e (wg_timers_event_any_authenticated_packet_traversal i
        (wg_timers_event_any_authenticated_packet_received i t))))))))" for x c tx e
    using assms(2) by (intro frame_intros)
  show ?thesis using assms(1)
    by (auto simp: deliver_received_def Let_def bind_eq_Some_conv intro!: frame_packet_free 1 2
        split: if_splits dest!: frame_want_initiation [OF _ 1 assms(3,4)] frame_want_initiation [OF _ 2 assms(3,4)])
qed

lemma frame_deliver_in_packet:
  assumes "deliver_in_packet cv env i p t = Some u" "if_frame cv s t" "i < sc_next_peer s" "if_links cv s"
  shows "if_frame cv s u"
proof -
  obtain pkt where p: "sc_pkt t p = Some pkt" using assms(1) by (auto simp: deliver_in_packet_def bind_eq_Some_conv)
  show ?thesis
  proof (cases "pk_state pkt = WG_PACKET_CRYPTED")
    case True
    then obtain m k where m: "pk_mbuf pkt = Some m" "pk_keypair pkt = Some k"
      using assms(1) p by (auto simp: deliver_in_packet_def bind_eq_Some_conv)
    obtain e kp where n: "noise_keypair_nonce_check (keypairs (sc_local t) k) (pk_nonce pkt) = (e, kp)" by fastforce
    let ?t = "upd_local (upd_keypair k (\<lambda>_. kp)) t"
    have 1: "if_frame cv s ?t" using run_nonce_check [OF n] by (intro frame_upd_local assms(2)) simp
    show ?thesis
    proof (cases "e = OK")
      case eok: True
      obtain e' l where r: "noise_keypair_received_with k (sc_local ?t) = (e', l)" by fastforce
      have 2: "if_frame cv s (?t\<lparr>sc_local := l\<rparr>)" by (rule frame_interface(3) [OF 1 r])
      then show ?thesis
        using assms(1) p True m n eok r frame_handshake_complete [OF _ 2 assms(3,4)] frame_deliver_received [OF _ _ assms(3,4)]
        by (auto simp: deliver_in_packet_def Let_def bind_eq_Some_conv split: if_splits)
    next
      case False
      then show ?thesis using assms(1) p True m n 1 by (auto simp: deliver_in_packet_def Let_def intro: frame_intros)
    qed
  next
    case False
    then show ?thesis using assms(1,2) p by (auto simp: deliver_in_packet_def intro: frame_intros)
  qed
qed

subsection \<open>Packets out\<close>

lemma frame_xmit_err [frame_intros]: "if_frame cv s t \<Longrightarrow> if_frame cv s (xmit_err m po f t)"
  by (auto simp: xmit_err_def Let_def intro!: frame_packet_free frame_upd_pk frame_fields split: option.split)

lemma frame_xmit:
  assumes "wg_xmit cv rx env m f mtu t = Some (rc, u)" "if_frame cv s t" "if_links cv s"
    "\<And>i t1 t2. wg_aip_lookup rx f (drop (case f of AF_INET \<Rightarrow> 16 | AF_INET6 \<Rightarrow> 24) (m_data m)) t1 = (Some i, t2) \<Longrightarrow>
       sc_aip t1 = sc_aip t \<Longrightarrow> aip_root f t1 = aip_root f t \<Longrightarrow> i < sc_next_peer s"
  shows "if_frame cv s u"
proof -
  obtain po t1 where a: "wg_packet_alloc env m t = (po, t1)" by fastforce
  have 1: "if_frame cv s t1" using frame_packet_alloc [OF assms(2), of env m] a by simp
  show ?thesis
  proof (cases "e_if_dying env \<or> po = None")
    case True
    then show ?thesis using assms(1,2) 1 by (auto simp: wg_xmit_def a intro: frame_intros split: if_splits)
  next
    case False
    then obtain p where p: "po = Some p" by auto
    define t2 where "t2 = upd_pk p (\<lambda>x. x\<lparr>pk_mtu := mtu, pk_af := Some f\<rparr>) t1"
    have 2: "if_frame cv s t2" using 1 by (auto simp: t2_def intro: frame_intros)
    have same: "sc_aip t2 = sc_aip t" "aip_root f t2 = aip_root f t"
      using a by (auto simp: t2_def upd_pk_def wg_packet_alloc_def Let_def aip_root_def split: if_splits af.splits)
    obtain io t3 where l: "wg_aip_lookup rx f (drop (case f of AF_INET \<Rightarrow> 16 | AF_INET6 \<Rightarrow> 24) (m_data m)) t2 = (io, t3)" by fastforce
    have 3: "if_frame cv s t3" using frame_aip_lookup [OF 2] l by (metis snd_conv)
    show ?thesis
    proof (cases io)
      case None
      then show ?thesis using assms(1) False p 3 by (auto simp: wg_xmit_def a Let_def t2_def [symmetric] l intro: frame_intros)
    next
      case (Some i)
      have i: "i < sc_next_peer s" using assms(4) l same unfolding Some by blast
      have "if_frame cv s v"
        if "wg_peer_send_staged cv env i (wg_queue_push_staged (Stage i) p t3) = Some v" for v
        using frame_send_staged [OF that frame_push_staged [OF 3] i assms(3)] .
      then show ?thesis using assms(1) False p 3 Some
        by (auto simp: wg_xmit_def a Let_def t2_def [symmetric] l intro!: frame_intros split: if_splits)
    qed
  qed
qed

end
