(* ===== verification/IfOwn.thy ===== *)
theory IfOwn
  imports IfFrame
begin

text \<open>
  Who owns a packet of \<^verbatim>\<open>src/if_wg.c\<close>. A packet is in one queue of a peer, in the queue of handshake messages, or in
  the hand of the function that runs; the two parallel queues and the workers only refer to packets that wait in a serial queue. \<open>owns H E D\<close> says so for a state in
  which the packets of \<open>H\<close> are in hand, the workers are encrypting those of \<open>E\<close> and decrypting those of \<open>D\<close>. The
  rules move packets between the three and serve as the specification of the queue functions.
\<close>

named_theorems same_intros

subsection \<open>The invariant\<close>

fun home :: "queue_ref \<Rightarrow> bool" where
  "home Encrypt_parallel = False"
| "home Decrypt_parallel = False"
| "home _ = True"

fun capacity :: "queue_ref \<Rightarrow> nat" where
  "capacity (Stage i) = MAX_STAGED_PKT"
| "capacity Handshake_queue = MAX_QUEUED_HANDSHAKES"
| "capacity _ = MAX_QUEUED_PKT"

fun queue_peer :: "queue_ref \<Rightarrow> nat option" where
  "queue_peer (Stage i) = Some i"
| "queue_peer (Encrypt_serial i) = Some i"
| "queue_peer (Decrypt_serial i) = Some i"
| "queue_peer _ = None"

text \<open>What a packet of a queue has.\<close>

fun packet_ok :: "queue_ref \<Rightarrow> wg_packet \<Rightarrow> bool" where
  "packet_ok (Stage i) pkt = (pk_mbuf pkt \<noteq> None)"
| "packet_ok (Encrypt_serial i) pkt = (pk_keypair pkt \<noteq> None \<and> (pk_state pkt = WG_PACKET_DEAD \<or> pk_mbuf pkt \<noteq> None))"
| "packet_ok (Decrypt_serial i) pkt = (pk_keypair pkt \<noteq> None \<and> (pk_state pkt = WG_PACKET_DEAD \<or> pk_mbuf pkt \<noteq> None) \<and>
     (pk_state pkt = WG_PACKET_CRYPTED \<longrightarrow> (\<forall>m. pk_mbuf pkt = Some m \<longrightarrow> m_data m \<noteq> [] \<longrightarrow> pk_af pkt \<noteq> None)))"
| "packet_ok Handshake_queue pkt = (\<exists>m. pk_mbuf pkt = Some m \<and> handshake_message (m_data m))"
| "packet_ok _ pkt = True"

abbreviation held :: "'r wg_softc \<Rightarrow> queue_ref \<Rightarrow> nat list" where
  "held sc q \<equiv> wq_list (sc_queue sc q)"

definition queues_ok :: "'r wg_softc \<Rightarrow> bool" where
  "queues_ok sc \<longleftrightarrow>
     (\<forall>q. wq_len (sc_queue sc q) = length (held sc q) \<and> length (held sc q) \<le> capacity q \<and> distinct (held sc q))"

datatype place = Hand | Queued queue_ref

definition placed :: "(nat \<Rightarrow> place option) \<Rightarrow> 'r wg_softc \<Rightarrow> bool" where
  "placed loc sc \<longleftrightarrow>
     (\<forall>q p. home q \<longrightarrow> (p \<in> set (held sc q) \<longleftrightarrow> loc p = Some (Queued q))) \<and>
     (\<forall>p. sc_pkt sc p = None \<longleftrightarrow> loc p = None) \<and> (\<forall>p \<ge> sc_next_pkt sc. loc p = None) \<and>
     (\<forall>p q pkt. loc p = Some (Queued q) \<longrightarrow> sc_pkt sc p = Some pkt \<longrightarrow> packet_ok q pkt) \<and>
     (\<forall>p q. loc p = Some (Queued q) \<longrightarrow> home q \<and> (\<forall>i. queue_peer q = Some i \<longrightarrow> i < sc_next_peer sc))"

text \<open>The packets of the serial queues \<open>ser\<close> that no worker has finished are those in the parallel queue \<open>par\<close> and
  those that a worker has taken.\<close>

definition working :: "queue_ref \<Rightarrow> (nat \<Rightarrow> queue_ref) \<Rightarrow> nat set \<Rightarrow> (nat \<Rightarrow> place option) \<Rightarrow> 'r wg_softc \<Rightarrow> bool" where
  "working par ser W loc sc \<longleftrightarrow> W \<inter> set (held sc par) = {} \<and>
     (\<forall>p \<in> set (held sc par) \<union> W. \<exists>i. loc p = Some (Queued (ser i))) \<and>
     (\<forall>p i pkt. loc p = Some (Queued (ser i)) \<longrightarrow> sc_pkt sc p = Some pkt \<longrightarrow>
        (pk_state pkt = WG_PACKET_UNCRYPTED \<longleftrightarrow> p \<in> set (held sc par) \<union> W))"

definition owns :: "nat set \<Rightarrow> nat set \<Rightarrow> nat set \<Rightarrow> 'r wg_softc \<Rightarrow> bool" where
  "owns H E D sc \<longleftrightarrow> queues_ok sc \<and>
     (\<exists>loc. placed loc sc \<and> working Encrypt_parallel Encrypt_serial E loc sc \<and>
        working Decrypt_parallel Decrypt_serial D loc sc \<and> {p. loc p = Some Hand} = H)"

lemma ownsI:
  "placed loc sc \<Longrightarrow> working Encrypt_parallel Encrypt_serial E loc sc \<Longrightarrow> working Decrypt_parallel Decrypt_serial D loc sc \<Longrightarrow>
   {p. loc p = Some Hand} = H \<Longrightarrow> queues_ok sc \<Longrightarrow> owns H E D sc"
  by (auto simp: owns_def)

lemma owns_cong:
  "sc_queue t = sc_queue s \<Longrightarrow> sc_pkt t = sc_pkt s \<Longrightarrow> sc_next_pkt t = sc_next_pkt s \<Longrightarrow> sc_next_peer t = sc_next_peer s \<Longrightarrow>
   owns H E D t = owns H E D s"
  by (simp add: owns_def queues_ok_def placed_def working_def)

lemma owns_simps [simp]:
  "owns H E D (upd_w i f t) = owns H E D t"
  "owns H E D (upd_local f' t) = owns H E D t"
  "owns H E D (count c t) = owns H E D t"
  "owns H E D (emit x t) = owns H E D t"
  "owns H E D (enqueue_task j t) = owns H E D t"
  "owns H E D (t\<lparr>sc_local := l\<rparr>) = owns H E D t"
  "owns H E D (t\<lparr>sc_cookie := cc\<rparr>) = owns H E D t"
  "owns H E D (t\<lparr>sc_globals := g'\<rparr>) = owns H E D t"
  "owns H E D (t\<lparr>sc_last_underload := n\<rparr>) = owns H E D t"
  "owns H E D (t\<lparr>sc_encrypt_last_cpu := n'\<rparr>) = owns H E D t"
  "owns H E D (t\<lparr>sc_decrypt_last_cpu := n'\<rparr>) = owns H E D t"
  by (rule owns_cong; simp add: upd_w_def upd_local_def count_def emit_def enqueue_task_def)+

lemma owns_hand: "owns H E D sc \<Longrightarrow> p \<in> H \<Longrightarrow> \<exists>pkt. sc_pkt sc p = Some pkt"
  unfolding owns_def placed_def by (metis (mono_tags, lifting) mem_Collect_eq not_None_eq)

lemma working_other:
  assumes "working par ser W loc s" "held t par = held s par"
    "\<And>x. x \<noteq> p \<Longrightarrow> loc' x = loc x" "\<And>x. x \<noteq> p \<Longrightarrow> sc_pkt t x = sc_pkt s x"
    "\<And>i. loc p \<noteq> Some (Queued (ser i))" "\<And>i. loc' p \<noteq> Some (Queued (ser i))"
  shows "working par ser W loc' t"
proof -
  have p: "p \<notin> set (held s par) \<union> W" using assms(1,5) by (force simp: working_def)
  have "\<exists>i. loc' x = Some (Queued (ser i))" if "x \<in> set (held s par) \<union> W" for x
    using assms(1,3) p that unfolding working_def by metis
  moreover have "pk_state pkt = WG_PACKET_UNCRYPTED \<longleftrightarrow> x \<in> set (held s par) \<union> W"
    if "loc' x = Some (Queued (ser i))" "sc_pkt t x = Some pkt" for x i pkt
  proof -
    have "x \<noteq> p" using that(1) assms(6) by blast
    then show ?thesis using assms(1,3,4) that unfolding working_def by metis
  qed
  ultimately show ?thesis using assms(1,2) by (simp add: working_def)
qed

subsection \<open>A packet in hand\<close>

lemma owns_alloc:
  assumes "owns H E D s" "wg_packet_alloc env m s = (Some p, t)"
  shows "owns (insert p H) E D t" "p \<notin> H" "\<exists>pkt. sc_pkt t p = Some pkt \<and> pk_mbuf pkt = Some m"
proof -
  have t: "p = sc_next_pkt s" "t = s\<lparr>sc_pkt := (sc_pkt s)(p \<mapsto> \<lparr>pk_endpoint = no_endpoint, pk_keypair = None, pk_nonce = 0,
      pk_mbuf = Some m, pk_mtu = 0, pk_af = None, pk_state = WG_PACKET_UNCRYPTED\<rparr>), sc_next_pkt := p + 1\<rparr>"
    using assms(2) by (auto simp: wg_packet_alloc_def Let_def split: if_splits)
  obtain loc where o: "queues_ok s" "placed loc s" "working Encrypt_parallel Encrypt_serial E loc s"
    "working Decrypt_parallel Decrypt_serial D loc s" "{p. loc p = Some Hand} = H"
    using assms(1) by (auto simp: owns_def)
  have n: "loc p = None" using o(2) t(1) by (simp add: placed_def)
  have q: "p \<notin> set (held s q)" if "home q" for q using o(2) n that by (simp add: placed_def)
  have "placed (loc(p \<mapsto> Hand)) t" using o(2) q unfolding placed_def by (auto simp: t)
  moreover have "working Encrypt_parallel Encrypt_serial E (loc(p \<mapsto> Hand)) t" "working Decrypt_parallel Decrypt_serial D (loc(p \<mapsto> Hand)) t"
    using n by (auto intro!: working_other [OF o(3), of _ p] working_other [OF o(4), of _ p] simp: t(2))
  moreover have "{x. (loc(p \<mapsto> Hand)) x = Some Hand} = insert p H" using o(5) by auto
  moreover have "queues_ok t" using o(1) by (simp add: queues_ok_def t)
  ultimately show "owns (insert p H) E D t" by (rule ownsI)
  show "p \<notin> H" using n o(5) by auto
  show "\<exists>pkt. sc_pkt t p = Some pkt \<and> pk_mbuf pkt = Some m" by (simp add: t)
qed

lemma owns_alloc_None: "owns H E D s \<Longrightarrow> wg_packet_alloc env m s = (None, t) \<Longrightarrow> t = s"
  by (auto simp: wg_packet_alloc_def Let_def split: if_splits)

lemma sc_pkt_free: "sc_pkt (wg_packet_free p s) = (sc_pkt s)(p := None)"
  by (auto simp: wg_packet_free_def upd_local_def Let_def split: option.split)

lemma packet_free_same [simp]:
  "sc_queue (wg_packet_free p s) = sc_queue s" "sc_next_pkt (wg_packet_free p s) = sc_next_pkt s"
  "sc_next_peer (wg_packet_free p s) = sc_next_peer s"
  by (auto simp: wg_packet_free_def upd_local_def Let_def split: option.split)

lemma owns_free:
  assumes "owns (insert p H) E D s" "p \<notin> H"
  shows "owns H E D (wg_packet_free p s)"
proof -
  obtain loc where o: "queues_ok s" "placed loc s" "working Encrypt_parallel Encrypt_serial E loc s"
    "working Decrypt_parallel Decrypt_serial D loc s" "{p. loc p = Some Hand} = insert p H"
    using assms(1) by (auto simp: owns_def)
  have h: "loc p = Some Hand" using o(5) by blast
  have "placed (loc(p := None)) (wg_packet_free p s)" using o(2) h unfolding placed_def sc_pkt_free packet_free_same by auto
  moreover have "working Encrypt_parallel Encrypt_serial E (loc(p := None)) (wg_packet_free p s)"
    "working Decrypt_parallel Decrypt_serial D (loc(p := None)) (wg_packet_free p s)"
    using h by (auto intro!: working_other [OF o(3), of _ p] working_other [OF o(4), of _ p] simp: sc_pkt_free)
  moreover have "{x. (loc(p := None)) x = Some Hand} = H" using o(5) assms(2) by auto
  moreover have "queues_ok (wg_packet_free p s)" using o(1) by (simp add: queues_ok_def)
  ultimately show ?thesis by (rule ownsI)
qed

lemma owns_upd_pk:
  assumes "owns H E D s" "p \<in> H"
  shows "owns H E D (upd_pk p f s)"
proof -
  obtain loc where o: "queues_ok s" "placed loc s" "working Encrypt_parallel Encrypt_serial E loc s"
    "working Decrypt_parallel Decrypt_serial D loc s" "{p. loc p = Some Hand} = H"
    using assms(1) by (auto simp: owns_def)
  have h: "loc p = Some Hand" using o(5) assms(2) by blast
  have "placed loc (upd_pk p f s)" using o(2) h unfolding placed_def upd_pk_def by auto
  moreover have "working Encrypt_parallel Encrypt_serial E loc (upd_pk p f s)" "working Decrypt_parallel Decrypt_serial D loc (upd_pk p f s)"
    using h by (auto intro!: working_other [OF o(3), of _ p] working_other [OF o(4), of _ p] simp: upd_pk_def)
  moreover note o(5)
  moreover have "queues_ok (upd_pk p f s)" using o(1) by (simp add: queues_ok_def upd_pk_def)
  ultimately show ?thesis by (rule ownsI)
qed


subsection \<open>In and out of a queue\<close>

lemma held_tail [simp]: "held (upd_queue q (insert_tail p) s) x = (if x = q then held s q @ [p] else held s x)"
  by (simp add: upd_queue_def insert_tail_def)

lemma held_tl [simp]: "held (upd_queue q remove_head s) x = (if x = q then tl (held s q) else held s x)"
  by (simp add: upd_queue_def remove_head_def)

lemma upd_queue_same [simp]:
  "sc_pkt (upd_queue q f s) = sc_pkt s" "sc_next_pkt (upd_queue q f s) = sc_next_pkt s"
  "sc_next_peer (upd_queue q f s) = sc_next_peer s"
  by (simp_all add: upd_queue_def)

lemma queues_tail:
  assumes "queues_ok s" "p \<notin> set (held s q)" "wq_len (sc_queue s q) < capacity q"
  shows "queues_ok (upd_queue q (insert_tail p) s)"
  using assms by (auto simp: queues_ok_def upd_queue_def insert_tail_def)

lemma queues_tl: "queues_ok s \<Longrightarrow> held s q \<noteq> [] \<Longrightarrow> queues_ok (upd_queue q remove_head s)"
  unfolding queues_ok_def upd_queue_def remove_head_def
  by (auto simp: distinct_tl) (metis diff_le_self le_trans)

lemma working_move:
  assumes "working par ser W loc s" "held t par = held s par" "sc_pkt t = sc_pkt s" "p \<notin> set (held s par) \<union> W"
    "\<And>x. x \<noteq> p \<Longrightarrow> loc' x = loc x"
    "\<And>i pkt. loc' p = Some (Queued (ser i)) \<Longrightarrow> sc_pkt s p = Some pkt \<Longrightarrow> pk_state pkt \<noteq> WG_PACKET_UNCRYPTED"
  shows "working par ser W loc' t"
proof -
  have "\<exists>i. loc' x = Some (Queued (ser i))" if "x \<in> set (held s par) \<union> W" for x
    using assms(1,4,5) that unfolding working_def by metis
  moreover have "pk_state pkt = WG_PACKET_UNCRYPTED \<longleftrightarrow> x \<in> set (held s par) \<union> W"
    if "loc' x = Some (Queued (ser i))" "sc_pkt s x = Some pkt" for x i pkt
  proof (cases "x = p")
    case True
    then show ?thesis using that assms(4,6) by blast
  next
    case False
    then show ?thesis using assms(1,5) that unfolding working_def by metis
  qed
  ultimately show ?thesis using assms(1-3) by (simp add: working_def)
qed

lemma working_idle: "working par ser W loc s \<Longrightarrow> (\<And>i. loc p \<noteq> Some (Queued (ser i))) \<Longrightarrow> p \<notin> set (held s par) \<union> W"
  by (force simp: working_def)

lemma owns_put:
  assumes "owns (insert p H) E D s" "p \<notin> H" "home q" "wq_len (sc_queue s q) < capacity q" "sc_pkt s p = Some pkt" "packet_ok q pkt"
    "\<And>i. queue_peer q = Some i \<Longrightarrow> i < sc_next_peer s"
    "\<And>i. q = Encrypt_serial i \<or> q = Decrypt_serial i \<Longrightarrow> pk_state pkt \<noteq> WG_PACKET_UNCRYPTED"
  shows "owns H E D (upd_queue q (insert_tail p) s)"
proof -
  obtain loc where o: "queues_ok s" "placed loc s" "working Encrypt_parallel Encrypt_serial E loc s"
    "working Decrypt_parallel Decrypt_serial D loc s" "{p. loc p = Some Hand} = insert p H"
    using assms(1) by (auto simp: owns_def)
  have h: "loc p = Some Hand" using o(5) by blast
  have n: "p \<notin> set (held s q)" using o(2) h assms(3) by (simp add: placed_def)
  have "placed (loc(p \<mapsto> Queued q)) (upd_queue q (insert_tail p) s)"
    using o(2) h assms(3,5,6,7) unfolding placed_def held_tail upd_queue_same by auto
  moreover have "working Encrypt_parallel Encrypt_serial E (loc(p \<mapsto> Queued q)) (upd_queue q (insert_tail p) s)"
    by (rule working_move [OF o(3), of _ p]) (use h assms(3,5,8) working_idle [OF o(3), of p] in auto)
  moreover have "working Decrypt_parallel Decrypt_serial D (loc(p \<mapsto> Queued q)) (upd_queue q (insert_tail p) s)"
    by (rule working_move [OF o(4), of _ p]) (use h assms(3,5,8) working_idle [OF o(4), of p] in auto)
  moreover have "{x. (loc(p \<mapsto> Queued q)) x = Some Hand} = H" using o(5) assms(2) by auto
  moreover have "queues_ok (upd_queue q (insert_tail p) s)" by (rule queues_tail [OF o(1) n assms(4)])
  ultimately show ?thesis by (rule ownsI)
qed

lemma owns_take:
  assumes "owns H E D s" "home q" "held s q = p # ps"
    "\<And>i pkt. q = Encrypt_serial i \<or> q = Decrypt_serial i \<Longrightarrow> sc_pkt s p = Some pkt \<Longrightarrow> pk_state pkt \<noteq> WG_PACKET_UNCRYPTED"
  shows "owns (insert p H) E D (upd_queue q remove_head s)" "p \<notin> H" "\<exists>pkt. sc_pkt s p = Some pkt \<and> packet_ok q pkt"
    "\<And>i. queue_peer q = Some i \<Longrightarrow> i < sc_next_peer s"
proof -
  obtain loc where o: "queues_ok s" "placed loc s" "working Encrypt_parallel Encrypt_serial E loc s"
    "working Decrypt_parallel Decrypt_serial D loc s" "{p. loc p = Some Hand} = H"
    using assms(1) by (auto simp: owns_def)
  have h: "loc p = Some (Queued q)" using o(2) assms(2,3) unfolding placed_def by (metis list.set_intros(1))
  have d: "p \<notin> set ps" using o(1) assms(3) unfolding queues_ok_def by (metis distinct.simps(2))
  obtain pkt where pkt: "sc_pkt s p = Some pkt" "packet_ok q pkt" using o(2) h unfolding placed_def by (metis option.exhaust option.distinct(1))
  then show "\<exists>pkt. sc_pkt s p = Some pkt \<and> packet_ok q pkt" by blast
  show "i < sc_next_peer s" if "queue_peer q = Some i" for i using o(2) h that unfolding placed_def by blast
  have idle: "p \<notin> set (held s par) \<union> W" if w: "working par ser W loc s" "\<And>i. q = ser i \<Longrightarrow> pk_state pkt \<noteq> WG_PACKET_UNCRYPTED" for par ser W
  proof
    assume a: "p \<in> set (held s par) \<union> W"
    then obtain i where i: "loc p = Some (Queued (ser i))" using w(1) unfolding working_def by blast
    then have "q = ser i" using h by simp
    moreover have "pk_state pkt = WG_PACKET_UNCRYPTED" using w(1) i pkt(1) a unfolding working_def by blast
    ultimately show False using w(2) by blast
  qed
  have rest: "x \<in> set ps \<longleftrightarrow> x \<noteq> p \<and> loc x = Some (Queued q)" for x
    using o(2) d assms(2,3) unfolding placed_def by (metis set_ConsD list.set_intros(2) list.set_intros(1))
  have "placed (loc(p \<mapsto> Hand)) (upd_queue q remove_head s)"
    using o(2) h rest assms(2,3) unfolding placed_def held_tl upd_queue_same by auto
  moreover have "working Encrypt_parallel Encrypt_serial E (loc(p \<mapsto> Hand)) (upd_queue q remove_head s)"
    by (rule working_move [OF o(3), of _ p]) (use assms(2) idle [OF o(3)] assms(4) pkt(1) in auto)
  moreover have "working Decrypt_parallel Decrypt_serial D (loc(p \<mapsto> Hand)) (upd_queue q remove_head s)"
    by (rule working_move [OF o(4), of _ p]) (use assms(2) idle [OF o(4)] assms(4) pkt(1) in auto)
  moreover have "{x. (loc(p \<mapsto> Hand)) x = Some Hand} = insert p H" using o(5) by auto
  moreover have "queues_ok (upd_queue q remove_head s)" by (rule queues_tl [OF o(1)]) (simp add: assms(3))
  ultimately show "owns (insert p H) E D (upd_queue q remove_head s)" by (rule ownsI)
  show "p \<notin> H" using o(5) h by auto
qed


subsection \<open>The parallel queues\<close>

lemma working_dequeue:
  assumes "working par ser W loc s" "held s par = p # ps" "p \<notin> set ps"
  shows "working par ser (insert p W) loc (upd_queue par remove_head s)" "p \<notin> W"
  using assms by (auto simp: working_def)

lemma working_par_other:
  "working par ser W loc s \<Longrightarrow> q \<noteq> par \<Longrightarrow> working par ser W loc (upd_queue q f s)"
  by (simp add: working_def upd_queue_def)

lemma placed_par: "\<not> home q \<Longrightarrow> placed loc s \<Longrightarrow> placed loc (upd_queue q f s)"
  by (auto simp: placed_def upd_queue_def)

lemma owns_dequeue_parallel:
  "owns H E D s \<Longrightarrow> wg_queue_dequeue_parallel Encrypt_parallel s = (Some p, t) \<Longrightarrow> owns H (insert p E) D t \<and> p \<notin> E"
  "owns H E D s \<Longrightarrow> wg_queue_dequeue_parallel Decrypt_parallel s = (Some p, t) \<Longrightarrow> owns H E (insert p D) t \<and> p \<notin> D"
proof -
  have st: "held s q = p # tl (held s q) \<and> p \<notin> set (tl (held s q)) \<and> t = upd_queue q remove_head s \<and> held s q \<noteq> []"
    if "queues_ok s" "wg_queue_dequeue_parallel q s = (Some p, t)" for q
  proof -
    have ne: "held s q \<noteq> []" and "p = hd (held s q)" "t = upd_queue q remove_head s" "distinct (held s q)"
      using that by (auto simp: wg_queue_dequeue_parallel_def queues_ok_def split: if_splits)
    then show ?thesis by (cases "held s q") auto
  qed
  {
    assume o: "owns H E D s" and d: "wg_queue_dequeue_parallel Encrypt_parallel s = (Some p, t)"
    obtain loc where l: "queues_ok s" "placed loc s" "working Encrypt_parallel Encrypt_serial E loc s"
      "working Decrypt_parallel Decrypt_serial D loc s" "{p. loc p = Some Hand} = H"
      using o by (auto simp: owns_def)
    note q = st [OF l(1) d]
    note w = working_dequeue [OF l(3)] q
    have t: "t = upd_queue Encrypt_parallel remove_head s" using q by blast
    have "placed loc t" using placed_par [OF _ l(2)] t by simp
    moreover have "working Encrypt_parallel Encrypt_serial (insert p E) loc t" using w t by blast
    moreover have "working Decrypt_parallel Decrypt_serial D loc t" using working_par_other [OF l(4)] t by simp
    moreover note l(5)
    moreover have "queues_ok t" using queues_tl [OF l(1)] q by blast
    ultimately have "owns H (insert p E) D t" by (rule ownsI)
    then show "owns H (insert p E) D t \<and> p \<notin> E" using w by blast
  }
  {
    assume o: "owns H E D s" and d: "wg_queue_dequeue_parallel Decrypt_parallel s = (Some p, t)"
    obtain loc where l: "queues_ok s" "placed loc s" "working Encrypt_parallel Encrypt_serial E loc s"
      "working Decrypt_parallel Decrypt_serial D loc s" "{p. loc p = Some Hand} = H"
      using o by (auto simp: owns_def)
    note q = st [OF l(1) d]
    note w = working_dequeue [OF l(4)] q
    have t: "t = upd_queue Decrypt_parallel remove_head s" using q by blast
    have "placed loc t" using placed_par [OF _ l(2)] t by simp
    moreover have "working Encrypt_parallel Encrypt_serial E loc t" using working_par_other [OF l(3)] t by simp
    moreover have "working Decrypt_parallel Decrypt_serial (insert p D) loc t" using w t by blast
    moreover note l(5)
    moreover have "queues_ok t" using queues_tl [OF l(1)] q by blast
    ultimately have "owns H E (insert p D) t" by (rule ownsI)
    then show "owns H E (insert p D) t \<and> p \<notin> D" using w by blast
  }
qed

text \<open>A worker ends: the packet is where it was, encrypted or dead.\<close>

lemma working_finish:
  assumes "working par ser W loc s" "p \<in> W" "\<And>pkt. sc_pkt s p = Some pkt \<Longrightarrow> pk_state (f pkt) \<noteq> WG_PACKET_UNCRYPTED"
  shows "working par ser (W - {p}) loc (upd_pk p f s)"
proof -
  have p: "p \<notin> set (held s par)" using assms(1,2) by (auto simp: working_def)
  have "(pk_state pkt = WG_PACKET_UNCRYPTED) = (x \<in> set (held s par) \<union> (W - {p}))"
    if "loc x = Some (Queued (ser i))" "sc_pkt (upd_pk p f s) x = Some pkt" for x i pkt
  proof (cases "x = p")
    case True
    then show ?thesis using that(2) assms(3) p by (auto simp: upd_pk_def)
  next
    case False
    then have "sc_pkt s x = Some pkt" using that(2) by (simp add: upd_pk_def)
    then show ?thesis using that(1) assms(1) False unfolding working_def by blast
  qed
  then show ?thesis using assms(1) unfolding working_def by (auto simp: upd_pk_def)
qed

lemma working_pk_other:
  assumes "working par ser W loc s" "\<And>i. loc p \<noteq> Some (Queued (ser i))"
  shows "working par ser W loc (upd_pk p f s)"
  by (rule working_other [OF assms(1), of _ p]) (use assms(2) in \<open>auto simp: upd_pk_def\<close>)

lemma placed_upd_pk:
  assumes "placed loc s" "loc p = Some (Queued q)" "\<And>pkt. sc_pkt s p = Some pkt \<Longrightarrow> packet_ok q pkt \<Longrightarrow> packet_ok q (f pkt)"
  shows "placed loc (upd_pk p f s)"
  using assms unfolding placed_def by (auto simp: upd_pk_def)

lemma owns_worker:
  assumes "owns H E D s" "p \<in> E \<union> D"
  shows "\<exists>pkt k m. work_of p s = Some (pkt, k, m)"
proof -
  obtain loc where l: "placed loc s" "working Encrypt_parallel Encrypt_serial E loc s" "working Decrypt_parallel Decrypt_serial D loc s"
    using assms(1) by (auto simp: owns_def)
  obtain q where q: "loc p = Some (Queued q)" "\<exists>i. q = Encrypt_serial i \<or> q = Decrypt_serial i"
    using assms(2) l(2,3) unfolding working_def by blast
  obtain pkt where pkt: "sc_pkt s p = Some pkt" "packet_ok q pkt"
    using l(1) q(1) unfolding placed_def by (metis option.exhaust option.distinct(1))
  have "pk_state pkt = WG_PACKET_UNCRYPTED"
  proof (cases "p \<in> E")
    case True
    then obtain i where "loc p = Some (Queued (Encrypt_serial i))" using l(2) unfolding working_def by blast
    then show ?thesis using l(2) pkt(1) True unfolding working_def by blast
  next
    case False
    then obtain i where "loc p = Some (Queued (Decrypt_serial i))" using l(3) assms(2) unfolding working_def by blast
    then show ?thesis using l(3) pkt(1) False assms(2) unfolding working_def by blast
  qed
  then show ?thesis using pkt q(2) by (auto simp: work_of_def)
qed

lemma owns_finish_encrypt:
  assumes "owns H E D s" "p \<in> E"
    "\<And>pkt. sc_pkt s p = Some pkt \<Longrightarrow> pk_state (f pkt) \<noteq> WG_PACKET_UNCRYPTED \<and> pk_keypair (f pkt) = pk_keypair pkt \<and>
       (pk_state (f pkt) = WG_PACKET_DEAD \<or> pk_mbuf (f pkt) \<noteq> None)"
  shows "owns H (E - {p}) D (upd_pk p f s)"
proof -
  obtain loc where l: "queues_ok s" "placed loc s" "working Encrypt_parallel Encrypt_serial E loc s"
    "working Decrypt_parallel Decrypt_serial D loc s" "{p. loc p = Some Hand} = H"
    using assms(1) by (auto simp: owns_def)
  obtain i where i: "loc p = Some (Queued (Encrypt_serial i))" using l(3) assms(2) unfolding working_def by blast
  have "placed loc (upd_pk p f s)" by (rule placed_upd_pk [OF l(2) i]) (use assms(3) in auto)
  moreover have "working Encrypt_parallel Encrypt_serial (E - {p}) loc (upd_pk p f s)"
    by (rule working_finish [OF l(3) assms(2)]) (use assms(3) in blast)
  moreover have "working Decrypt_parallel Decrypt_serial D loc (upd_pk p f s)" by (rule working_pk_other [OF l(4)]) (simp add: i)
  moreover note l(5)
  moreover have "queues_ok (upd_pk p f s)" using l(1) by (simp add: queues_ok_def upd_pk_def)
  ultimately show ?thesis by (rule ownsI)
qed

lemma owns_finish_decrypt:
  assumes "owns H E D s" "p \<in> D"
    "\<And>pkt. sc_pkt s p = Some pkt \<Longrightarrow> pk_state (f pkt) \<noteq> WG_PACKET_UNCRYPTED \<and> pk_keypair (f pkt) = pk_keypair pkt \<and>
       (pk_state (f pkt) = WG_PACKET_DEAD \<or> pk_mbuf (f pkt) \<noteq> None) \<and>
       (pk_state (f pkt) = WG_PACKET_CRYPTED \<longrightarrow> (\<forall>m. pk_mbuf (f pkt) = Some m \<longrightarrow> m_data m \<noteq> [] \<longrightarrow> pk_af (f pkt) \<noteq> None))"
  shows "owns H E (D - {p}) (upd_pk p f s)"
proof -
  obtain loc where l: "queues_ok s" "placed loc s" "working Encrypt_parallel Encrypt_serial E loc s"
    "working Decrypt_parallel Decrypt_serial D loc s" "{p. loc p = Some Hand} = H"
    using assms(1) by (auto simp: owns_def)
  obtain i where i: "loc p = Some (Queued (Decrypt_serial i))" using l(4) assms(2) unfolding working_def by blast
  have "placed loc (upd_pk p f s)" by (rule placed_upd_pk [OF l(2) i]) (use assms(3) in auto)
  moreover have "working Encrypt_parallel Encrypt_serial E loc (upd_pk p f s)" by (rule working_pk_other [OF l(3)]) (simp add: i)
  moreover have "working Decrypt_parallel Decrypt_serial (D - {p}) loc (upd_pk p f s)"
    by (rule working_finish [OF l(4) assms(2)]) (use assms(3) in blast)
  moreover note l(5)
  moreover have "queues_ok (upd_pk p f s)" using l(1) by (simp add: queues_ok_def upd_pk_def)
  ultimately show ?thesis by (rule ownsI)
qed


subsection \<open>Entering a serial and a parallel queue\<close>

lemma working_enter:
  assumes "working par ser W loc s" "loc p = Some Hand" "held t par = held s par @ [p]"
    "\<And>x. x \<noteq> p \<Longrightarrow> sc_pkt t x = sc_pkt s x" "\<And>pkt. sc_pkt t p = Some pkt \<Longrightarrow> pk_state pkt = WG_PACKET_UNCRYPTED"
  shows "working par ser W (loc(p \<mapsto> Queued (ser i))) t"
proof -
  have p: "p \<notin> set (held s par) \<union> W" using working_idle [OF assms(1), of p] assms(2) by simp
  have "(pk_state pkt = WG_PACKET_UNCRYPTED) = (x \<in> set (held t par) \<union> W)"
    if "(loc(p \<mapsto> Queued (ser i))) x = Some (Queued (ser j))" "sc_pkt t x = Some pkt" for x j pkt
  proof (cases "x = p")
    case True
    then show ?thesis using that(2) assms(3,5) by simp
  next
    case False
    then have "loc x = Some (Queued (ser j))" "sc_pkt s x = Some pkt" using that assms(4) by simp_all
    then have "(pk_state pkt = WG_PACKET_UNCRYPTED) = (x \<in> set (held s par) \<union> W)"
      using assms(1) unfolding working_def by blast
    then show ?thesis using False assms(3) by simp
  qed
  moreover have "\<exists>j. (loc(p \<mapsto> Queued (ser i))) x = Some (Queued (ser j))" if "x \<in> set (held t par) \<union> W" for x
    using assms(1,3) that unfolding working_def by (cases "x = p") auto
  ultimately show ?thesis using assms(1,3) p by (simp add: working_def)
qed

lemma owns_enter:
  assumes "owns (insert p H) E D s" "p \<notin> H" "sc_pkt s p = Some pkt" "pk_keypair pkt \<noteq> None" "pk_mbuf pkt \<noteq> None" "i < sc_next_peer s"
    and par: "par = Encrypt_parallel \<and> ser = Encrypt_serial i \<or> par = Decrypt_parallel \<and> ser = Decrypt_serial i"
    and room: "wq_len (sc_queue s ser) < MAX_QUEUED_PKT" "wq_len (sc_queue s par) < MAX_QUEUED_PKT"
    and t: "t = upd_queue par (insert_tail p) (upd_queue ser (insert_tail p) (upd_pk p (\<lambda>k. k\<lparr>pk_state := WG_PACKET_UNCRYPTED\<rparr>) s))"
  shows "owns H E D t"
proof -
  obtain loc where o: "queues_ok s" "placed loc s" "working Encrypt_parallel Encrypt_serial E loc s"
    "working Decrypt_parallel Decrypt_serial D loc s" "{p. loc p = Some Hand} = insert p H"
    using assms(1) by (auto simp: owns_def)
  have h: "loc p = Some Hand" using o(5) by blast
  have ser: "home ser" "\<not> home par" "capacity ser = MAX_QUEUED_PKT" "capacity par = MAX_QUEUED_PKT" "ser \<noteq> par" using par by auto
  have n: "p \<notin> set (held s ser)" using o(2) h ser(1) by (simp add: placed_def)
  have np: "p \<notin> set (held s par)"
    using working_idle [OF o(3), of p] working_idle [OF o(4), of p] h par by auto
  let ?s = "upd_pk p (\<lambda>k. k\<lparr>pk_state := WG_PACKET_UNCRYPTED\<rparr>) s"
  let ?loc = "loc(p \<mapsto> Queued ser)"
  have held: "held t q = (if q = par then held s par @ [p] else if q = ser then held s ser @ [p] else held s q)" for q
    using ser(5) unfolding t held_tail by (simp add: upd_pk_def)
  have pk: "sc_pkt t x = (if x = p then Some (pkt\<lparr>pk_state := WG_PACKET_UNCRYPTED\<rparr>) else sc_pkt s x)" for x
    unfolding t upd_queue_same by (simp add: upd_pk_def assms(3))
  have nx: "sc_next_pkt t = sc_next_pkt s" "sc_next_peer t = sc_next_peer s" unfolding t upd_queue_same by (simp_all add: upd_pk_def)
  have okp: "packet_ok ser (pkt\<lparr>pk_state := WG_PACKET_UNCRYPTED\<rparr>)" using par assms(4,5) by auto
  have "placed ?loc t"
    using o(2) h ser n okp assms(6) par unfolding placed_def held pk nx by auto
  moreover have "working Encrypt_parallel Encrypt_serial E ?loc t"
  proof (cases "par = Encrypt_parallel")
    case True
    then show ?thesis using par working_enter [OF o(3) h, of t i] by (auto simp: held pk)
  next
    case False
    then have "ser = Decrypt_serial i" "Encrypt_parallel \<noteq> par" using par by auto
    then show ?thesis by (intro working_other [OF o(3), of _ p]) (use h in \<open>auto simp: held pk\<close>)
  qed
  moreover have "working Decrypt_parallel Decrypt_serial D ?loc t"
  proof (cases "par = Decrypt_parallel")
    case True
    then show ?thesis using par working_enter [OF o(4) h, of t i] by (auto simp: held pk)
  next
    case False
    then have "ser = Encrypt_serial i" "Decrypt_parallel \<noteq> par" using par by auto
    then show ?thesis by (intro working_other [OF o(4), of _ p]) (use h in \<open>auto simp: held pk\<close>)
  qed
  moreover have "{x. ?loc x = Some Hand} = H" using o(5) assms(2) by auto
  moreover have "queues_ok t"
  proof -
    have 1: "queues_ok ?s" using o(1) by (simp add: queues_ok_def upd_pk_def)
    have 2: "queues_ok (upd_queue ser (insert_tail p) ?s)"
      by (rule queues_tail [OF 1]) (use n room(1) ser(3) in \<open>simp_all add: upd_pk_def\<close>)
    show ?thesis unfolding t
      by (rule queues_tail [OF 2]) (use np room(2) ser in \<open>simp_all add: upd_pk_def upd_queue_def\<close>)
  qed
  ultimately show ?thesis by (rule ownsI)
qed

lemma sc_queue_upd: "sc_queue (upd_queue q f s) x = (if x = q then f (sc_queue s q) else sc_queue s x)"
  by (simp add: upd_queue_def)

lemma upd_queue_pk: "upd_pk p f (upd_queue q g s) = upd_queue q g (upd_pk p f s)"
  by (simp add: upd_pk_def upd_queue_def)

lemma owns_both:
  assumes "owns (insert p H) E D s" "p \<notin> H" "sc_pkt s p = Some pkt" "pk_keypair pkt \<noteq> None" "pk_mbuf pkt \<noteq> None" "i < sc_next_peer s"
    and par: "par = Encrypt_parallel \<and> ser = Encrypt_serial i \<or> par = Decrypt_parallel \<and> ser = Decrypt_serial i"
  shows "owns H E D (snd (wg_queue_both par ser p s))"
proof -
  let ?s = "upd_pk p (\<lambda>k. k\<lparr>pk_state := WG_PACKET_UNCRYPTED\<rparr>) s"
  have 1: "owns (insert p H) E D ?s" by (rule owns_upd_pk [OF assms(1)]) simp
  have sq: "sc_queue ?s = sc_queue s" "sc_next_peer ?s = sc_next_peer s" by (simp_all add: upd_pk_def)
  have ne: "ser \<noteq> par" using par by auto
  show ?thesis
  proof (cases "wq_len (sc_queue s ser) < MAX_QUEUED_PKT")
    case False
    then show ?thesis using owns_free [OF 1 assms(2)] by (simp add: wg_queue_both_def queue_both_serial_def Let_def sq)
  next
    case room: True
    show ?thesis
    proof (cases "wq_len (sc_queue s par) < MAX_QUEUED_PKT")
      case True
      have "owns H E D (upd_queue par (insert_tail p) (upd_queue ser (insert_tail p) ?s))"
        by (rule owns_enter [OF assms(1-6) par room True refl])
      then show ?thesis using True room ne by (simp add: wg_queue_both_def queue_both_serial_def queue_both_parallel_def Let_def sq upd_queue_def)
    next
      case False
      let ?t = "upd_pk p (\<lambda>k. k\<lparr>pk_state := WG_PACKET_DEAD\<rparr>) ?s"
      have 2: "owns (insert p H) E D ?t" by (rule owns_upd_pk [OF 1]) simp
      have "owns H E D (upd_queue ser (insert_tail p) ?t)"
        by (rule owns_put [OF 2 assms(2)]) (use par room assms(3,4,6) in \<open>auto simp: upd_pk_def\<close>)
      then show ?thesis using False room ne
        by (simp add: wg_queue_both_def queue_both_serial_def queue_both_parallel_def Let_def sq upd_queue_pk sc_queue_upd)
    qed
  qed
qed


subsection \<open>Staged packets\<close>

lemma owns_push_staged:
  assumes "owns (insert p H) E D s" "p \<notin> H" "sc_pkt s p = Some pkt" "pk_mbuf pkt \<noteq> None" "i < sc_next_peer s"
  shows "owns H E D (wg_queue_push_staged (Stage i) p s)"
proof (cases "wq_len (sc_queue s (Stage i)) \<ge> MAX_STAGED_PKT")
  case True
  have q: "queues_ok s" using assms(1) by (simp add: owns_def)
  then have "held s (Stage i) \<noteq> []" using True by (auto simp: queues_ok_def MAX_STAGED_PKT_def)
  then obtain old ps where h: "held s (Stage i) = old # ps" by (cases "held s (Stage i)") auto
  let ?s = "upd_queue (Stage i) remove_head s"
  note take = owns_take [OF assms(1) _ h]
  have 1: "owns (insert old (insert p H)) E D ?s" "old \<notin> insert p H" by (rule take; simp)+
  have "owns (insert old H) E D (upd_queue (Stage i) (insert_tail p) ?s)"
  proof (rule owns_put)
    show "owns (insert p (insert old H)) E D ?s" using 1(1) by (simp add: insert_commute)
    show "wq_len (sc_queue ?s (Stage i)) < capacity (Stage i)"
      using q h unfolding queues_ok_def by (auto simp: sc_queue_upd remove_head_def dest!: spec [of _ "Stage i"])
  qed (use assms 1(2) in auto)
  then have "owns H E D (wg_packet_free old (upd_queue (Stage i) (insert_tail p) ?s))" by (rule owns_free) (use 1(2) in simp)
  then show ?thesis using True by (simp add: wg_queue_push_staged_def Let_def h)
next
  case False
  have "owns H E D (upd_queue (Stage i) (insert_tail p) s)"
    by (rule owns_put [OF assms(1,2)]) (use False assms(3-5) in auto)
  then show ?thesis using False by (simp add: wg_queue_push_staged_def)
qed

text \<open>A set of packets in hand, each with its mbuf.\<close>

definition with_mbufs :: "nat set \<Rightarrow> 'r wg_softc \<Rightarrow> bool" where
  "with_mbufs P s \<longleftrightarrow> (\<forall>p \<in> P. \<exists>pkt. sc_pkt s p = Some pkt \<and> pk_mbuf pkt \<noteq> None)"

lemma with_mbufs_cong [simp]:
  "with_mbufs P (upd_local f s) = with_mbufs P s" "with_mbufs P (upd_w i g s) = with_mbufs P s"
  "with_mbufs P (s\<lparr>sc_local := l\<rparr>) = with_mbufs P s"
  by (simp_all add: with_mbufs_def upd_local_def upd_w_def)

lemma push_staged_pkt:
  "queues_ok s \<Longrightarrow> x \<notin> set (held s (Stage i)) \<Longrightarrow> sc_pkt (wg_queue_push_staged (Stage i) p s) x = sc_pkt s x"
  by (cases "held s (Stage i)") (auto simp: wg_queue_push_staged_def Let_def sc_pkt_free queues_ok_def MAX_STAGED_PKT_def
      dest: spec [of _ "Stage i"])

lemma owns_not_queued: "owns H E D s \<Longrightarrow> x \<in> H \<Longrightarrow> home q \<Longrightarrow> x \<notin> set (held s q)"
  by (force simp: owns_def placed_def)

lemma next_peer_push [simp]: "sc_next_peer (wg_queue_push_staged q p s) = sc_next_peer s"
  by (simp add: wg_queue_push_staged_def Let_def)

lemma next_peer_enlist [simp]: "sc_next_peer (wg_queue_enlist_staged q ps s) = sc_next_peer s"
  unfolding wg_queue_enlist_staged_def by (induction ps arbitrary: s) auto

lemma owns_enlist:
  "owns (set ps \<union> H) E D s \<Longrightarrow> distinct ps \<Longrightarrow> set ps \<inter> H = {} \<Longrightarrow> with_mbufs (set ps) s \<Longrightarrow> i < sc_next_peer s \<Longrightarrow>
   owns H E D (wg_queue_enlist_staged (Stage i) ps s)"
proof (induction ps arbitrary: s)
  case (Cons p ps)
  obtain pkt where pkt: "sc_pkt s p = Some pkt" "pk_mbuf pkt \<noteq> None" using Cons.prems(4) by (auto simp: with_mbufs_def)
  have q: "queues_ok s" using Cons.prems(1) by (simp add: owns_def)
  have 1: "owns (set ps \<union> H) E D (wg_queue_push_staged (Stage i) p s)"
    by (rule owns_push_staged [OF _ _ pkt Cons.prems(5)]) (use Cons.prems(1-3) in auto)
  have "x \<notin> set (held s (Stage i))" if "x \<in> set ps" for x using owns_not_queued [OF Cons.prems(1)] that by simp
  then have "with_mbufs (set ps) (wg_queue_push_staged (Stage i) p s)"
    using Cons.prems(4) push_staged_pkt [OF q] by (simp add: with_mbufs_def)
  then show ?case using Cons.IH [OF 1] Cons.prems by (simp add: wg_queue_enlist_staged_def)
qed (simp add: wg_queue_enlist_staged_def)

lemma working_elsewhere:
  assumes "working par ser W loc s" "held t par = held s par" "sc_pkt t = sc_pkt s"
    "\<And>x i. loc' x = Some (Queued (ser i)) \<longleftrightarrow> loc x = Some (Queued (ser i))"
  shows "working par ser W loc' t"
  using assms by (simp add: working_def)

lemma owns_take_all:
  assumes "owns H E D s" "home q" "\<And>i. q \<noteq> Encrypt_serial i" "\<And>i. q \<noteq> Decrypt_serial i"
  shows "owns (set (held s q) \<union> H) E D (upd_queue q (\<lambda>_. wg_queue_init) s)" "distinct (held s q)" "set (held s q) \<inter> H = {}"
    "\<forall>p \<in> set (held s q). \<exists>pkt. sc_pkt s p = Some pkt \<and> packet_ok q pkt"
proof -
  obtain loc where o: "queues_ok s" "placed loc s" "working Encrypt_parallel Encrypt_serial E loc s"
    "working Decrypt_parallel Decrypt_serial D loc s" "{p. loc p = Some Hand} = H"
    using assms(1) by (auto simp: owns_def)
  let ?loc = "\<lambda>p. if p \<in> set (held s q) then Some Hand else loc p"
  let ?t = "upd_queue q (\<lambda>_. wg_queue_init) s"
  have m: "p \<in> set (held s q) \<longleftrightarrow> loc p = Some (Queued q)" for p using o(2) assms(2) unfolding placed_def by blast
  show "distinct (held s q)" using o(1) by (simp add: queues_ok_def)
  show "set (held s q) \<inter> H = {}" using o(5) m by auto
  show "\<forall>p \<in> set (held s q). \<exists>pkt. sc_pkt s p = Some pkt \<and> packet_ok q pkt"
    using o(2) m unfolding placed_def by (metis option.exhaust option.distinct(1))
  have held: "held ?t x = (if x = q then [] else held s x)" for x by (simp add: sc_queue_upd wg_queue_init_def)
  have "placed ?loc ?t" using o(2) m unfolding placed_def held upd_queue_same by auto
  moreover have "working Encrypt_parallel Encrypt_serial E ?loc ?t"
    by (rule working_elsewhere [OF o(3)]) (use m assms(2,3) held in auto)
  moreover have "working Decrypt_parallel Decrypt_serial D ?loc ?t"
    by (rule working_elsewhere [OF o(4)]) (use m assms(2,4) held in auto)
  moreover have "{x. ?loc x = Some Hand} = set (held s q) \<union> H" using o(5) by auto
  moreover have "queues_ok ?t" using o(1) by (simp add: queues_ok_def sc_queue_upd wg_queue_init_def)
  ultimately show "owns (set (held s q) \<union> H) E D ?t" by (rule ownsI)
qed

lemma owns_free_all:
  "owns (set ps \<union> H) E D s \<Longrightarrow> distinct ps \<Longrightarrow> set ps \<inter> H = {} \<Longrightarrow> owns H E D (fold wg_packet_free ps s)"
proof (induction ps arbitrary: s)
  case (Cons p ps)
  have "owns (set ps \<union> H) E D (wg_packet_free p s)" by (rule owns_free) (use Cons.prems in auto)
  then show ?case using Cons by simp
qed simp

lemma owns_purge:
  assumes "owns H E D s" "home q" "\<And>i. q \<noteq> Encrypt_serial i" "\<And>i. q \<noteq> Decrypt_serial i"
  shows "owns H E D (wg_queue_purge q s)"
  using owns_free_all [OF owns_take_all(1-3) [OF assms]] by (simp add: wg_queue_purge_def wg_queue_delist_staged_def)


subsection \<open>Functions that leave the packets alone\<close>

definition same_packets :: "'r wg_softc \<Rightarrow> 'r wg_softc \<Rightarrow> bool" where
  "same_packets s t \<longleftrightarrow> sc_queue t = sc_queue s \<and> sc_pkt t = sc_pkt s \<and> sc_next_pkt t = sc_next_pkt s \<and>
     sc_next_peer t = sc_next_peer s"

lemma owns_same: "same_packets s t \<Longrightarrow> owns H E D t = owns H E D s"
  unfolding same_packets_def by (rule owns_cong) simp_all

lemma same_refl [simp]: "same_packets s s"
  by (simp add: same_packets_def)

lemma same_next_peer: "same_packets s t \<Longrightarrow> sc_next_peer t = sc_next_peer s"
  by (simp add: same_packets_def)

lemma same_fields [simp]:
  "same_packets s (upd_w i f t) = same_packets s t"
  "same_packets s (upd_local f' t) = same_packets s t"
  "same_packets s (count c t) = same_packets s t"
  "same_packets s (emit x t) = same_packets s t"
  "same_packets s (enqueue_task j t) = same_packets s t"
  "same_packets s (t\<lparr>sc_local := l\<rparr>) = same_packets s t"
  "same_packets s (t\<lparr>sc_cookie := cc\<rparr>) = same_packets s t"
  "same_packets s (t\<lparr>sc_globals := g'\<rparr>) = same_packets s t"
  "same_packets s (t\<lparr>sc_last_underload := n\<rparr>) = same_packets s t"
  "same_packets s (t\<lparr>sc_encrypt_last_cpu := n'\<rparr>) = same_packets s t"
  "same_packets s (t\<lparr>sc_decrypt_last_cpu := n'\<rparr>) = same_packets s t"
  by (simp_all add: same_packets_def upd_w_def upd_local_def count_def emit_def enqueue_task_def)

lemma same_send [simp]: "same_packets s (snd (wg_send env e m t)) = same_packets s t"
  by (simp add: wg_send_def Let_def)

lemma same_send_buf [simp]: "same_packets s (wg_send_buf env e buf t) = same_packets s t"
  by (simp add: wg_send_buf_def case_prod_unfold split: option.split)

lemma same_events [simp]:
  "same_packets s (wg_peer_set_endpoint i e t) = same_packets s t"
  "same_packets s (wg_peer_clear_src i t) = same_packets s t"
  "same_packets s (wg_timers_disable i t) = same_packets s t"
  "same_packets s (wg_timers_event_data_sent env i t) = same_packets s t"
  "same_packets s (wg_timers_event_data_received i t) = same_packets s t"
  "same_packets s (wg_timers_event_any_authenticated_packet_sent i t) = same_packets s t"
  "same_packets s (wg_timers_event_any_authenticated_packet_received i t) = same_packets s t"
  "same_packets s (wg_timers_event_any_authenticated_packet_traversal i t) = same_packets s t"
  "same_packets s (wg_timers_event_handshake_initiated env i t) = same_packets s t"
  "same_packets s (wg_timers_event_session_derived i t) = same_packets s t"
  "same_packets s (wg_timers_run_zero_key_material i t) = same_packets s t"
  "same_packets s (iqdrop t) = same_packets s t"
  "same_packets s (ierror t) = same_packets s t"
  "same_packets s (handshake_counted i n t) = same_packets s t"
  "same_packets s (wg_encrypt_dispatch t) = same_packets s t"
  "same_packets s (wg_decrypt_dispatch t) = same_packets s t"
  by (simp_all add: wg_peer_set_endpoint_def wg_peer_clear_src_def wg_timers_disable_def wg_timers_event_data_sent_def
      wg_timers_event_data_received_def wg_timers_event_any_authenticated_packet_sent_def
      wg_timers_event_any_authenticated_packet_received_def wg_timers_event_any_authenticated_packet_traversal_def
      wg_timers_event_handshake_initiated_def wg_timers_event_session_derived_def wg_timers_run_zero_key_material_def
      iqdrop_def ierror_def handshake_counted_def wg_encrypt_dispatch_def wg_decrypt_dispatch_def Let_def)

lemma same_messages [simp]:
  "same_packets s (wg_peer_send_buf env i buf t) = same_packets s t"
  "same_packets s (wg_send_macs env i pkt t) = same_packets s t"
  "same_packets s (wg_send_cookie env cm si e t) = same_packets s t"
  "same_packets s (wg_send_response cv env i t) = same_packets s t"
  "same_packets s (handshake_authenticated i r n t) = same_packets s t"
  "same_packets s (handshake_cookie env dg t) = same_packets s t"
  by (simp_all add: wg_peer_send_buf_def wg_send_macs_def wg_send_cookie_def wg_send_response_def handshake_authenticated_def
      handshake_cookie_def Let_def case_prod_unfold split: option.split)

lemma same_initiation:
  "wg_send_initiation cv env i t = Some u \<Longrightarrow> same_packets t u"
  "wg_timers_run_send_initiation cv env i retry t = Some u \<Longrightarrow> same_packets t u"
  "wg_timers_event_want_initiation cv env i t = Some u \<Longrightarrow> same_packets t u"
proof -
  have 1: "same_packets t u" if "wg_send_initiation cv env i t = Some u" for t u
    using that by (auto simp: wg_send_initiation_def split: option.splits)
  then show "wg_send_initiation cv env i t = Some u \<Longrightarrow> same_packets t u" .
  have 2: "same_packets t u" if "wg_timers_run_send_initiation cv env i retry t = Some u" for t u retry
  proof -
    have "same_packets (if retry then t else upd_w i (\<lambda>w. w\<lparr>w_handshake_retries := 0\<rparr>) t) u"
      using that 1 by (auto simp: wg_timers_run_send_initiation_def Let_def split: if_splits)
    then show ?thesis by (auto simp: same_packets_def upd_w_def split: if_splits)
  qed
  then show "wg_timers_run_send_initiation cv env i retry t = Some u \<Longrightarrow> same_packets t u" .
  then show "wg_timers_event_want_initiation cv env i t = Some u \<Longrightarrow> same_packets t u"
    using 2 by (auto simp: wg_timers_event_want_initiation_def split: if_splits)
qed

lemma owns_want: "wg_timers_event_want_initiation cv env i t = Some u \<Longrightarrow> owns H E D u = owns H E D t"
  using owns_same [OF same_initiation(3)] .

lemma same_aip_lookup [simp]: "same_packets s (snd (wg_aip_lookup rx f a t)) = same_packets s t"
  by (simp add: wg_aip_lookup_def Let_def split: option.split)

lemma owns_events [simp]:
  "owns H E D (wg_peer_set_endpoint i e t) = owns H E D t"
  "owns H E D (wg_peer_clear_src i t) = owns H E D t"
  "owns H E D (wg_timers_disable i t) = owns H E D t"
  "owns H E D (wg_timers_event_data_sent env i t) = owns H E D t"
  "owns H E D (wg_timers_event_data_received i t) = owns H E D t"
  "owns H E D (wg_timers_event_any_authenticated_packet_sent i t) = owns H E D t"
  "owns H E D (wg_timers_event_any_authenticated_packet_received i t) = owns H E D t"
  "owns H E D (wg_timers_event_any_authenticated_packet_traversal i t) = owns H E D t"
  "owns H E D (wg_timers_event_handshake_initiated env i t) = owns H E D t"
  "owns H E D (wg_timers_event_session_derived i t) = owns H E D t"
  "owns H E D (wg_timers_run_zero_key_material i t) = owns H E D t"
  "owns H E D (iqdrop t) = owns H E D t"
  "owns H E D (ierror t) = owns H E D t"
  "owns H E D (handshake_counted i n t) = owns H E D t"
  "owns H E D (wg_encrypt_dispatch t) = owns H E D t"
  "owns H E D (wg_decrypt_dispatch t) = owns H E D t"
  "owns H E D (wg_peer_send_buf env i buf t) = owns H E D t"
  "owns H E D (wg_send_macs env i pkt t) = owns H E D t"
  "owns H E D (wg_send_cookie env cm si e t) = owns H E D t"
  "owns H E D (wg_send_response cv env i t) = owns H E D t"
  "owns H E D (handshake_authenticated i r n t) = owns H E D t"
  "owns H E D (handshake_cookie env dg t) = owns H E D t"
  "owns H E D (snd (wg_send env e m t)) = owns H E D t"
  "owns H E D (wg_send_buf env e buf t) = owns H E D t"
  "owns H E D (snd (wg_aip_lookup rx f a t)) = owns H E D t"
  by (rule owns_same; simp)+

lemma same_check_macs: "check_macs env ul body m si e t = Some (ok, u) \<Longrightarrow> same_packets t u"
  by (auto simp: check_macs_def Let_def split: prod.splits if_splits)

subsection \<open>Sending what is staged\<close>

lemma assign_nonces_facts:
  "set ps \<subseteq> H \<Longrightarrow> owns H E D s \<Longrightarrow> with_mbufs P s \<Longrightarrow>
   owns H E D (snd (assign_nonces k ps s)) \<and> with_mbufs P (snd (assign_nonces k ps s)) \<and>
   sc_next_peer (snd (assign_nonces k ps s)) = sc_next_peer s"
proof (induction ps arbitrary: s)
  case (Cons p ps)
  obtain e n l where n: "nonce_next_at k (sc_local s) = (e, n, l)" by (metis prod_cases3)
  let ?s = "upd_pk p (\<lambda>pkt. pkt\<lparr>pk_nonce := n\<rparr>) (s\<lparr>sc_local := l\<rparr>)"
  have "owns H E D ?s" using Cons.prems by (intro owns_upd_pk) auto
  moreover have "with_mbufs P ?s" using Cons.prems(3) by (auto simp: with_mbufs_def upd_pk_def)
  moreover have "sc_next_peer ?s = sc_next_peer s" by (simp add: upd_pk_def)
  ultimately show ?case using Cons.IH [of ?s] Cons.prems(1) by (simp add: n Let_def)
qed simp

lemma both_other:
  assumes "x \<noteq> p"
  shows "sc_pkt (snd (wg_queue_both a b p s)) x = sc_pkt s x"
  using assms
  by (simp add: wg_queue_both_def queue_both_serial_def queue_both_parallel_def Let_def sc_pkt_free upd_pk_def upd_queue_def)

lemma both_next_peer [simp]: "sc_next_peer (snd (wg_queue_both a b p s)) = sc_next_peer s"
  by (simp add: wg_queue_both_def queue_both_serial_def queue_both_parallel_def Let_def upd_pk_def upd_queue_def)

lemma queue_encrypt_facts:
  assumes "owns (insert p H) E D s" "p \<notin> H" "with_mbufs {p} s" "i < sc_next_peer s"
  shows "owns H E D (queue_encrypt k i p s)" "\<And>x. x \<noteq> p \<Longrightarrow> sc_pkt (queue_encrypt k i p s) x = sc_pkt s x"
    "sc_next_peer (queue_encrypt k i p s) = sc_next_peer s"
proof -
  let ?s = "upd_pk p (\<lambda>pkt. pkt\<lparr>pk_keypair := Some k\<rparr>) (upd_local (noise_keypair_ref k) s)"
  obtain pkt where pkt: "sc_pkt s p = Some pkt" "pk_mbuf pkt \<noteq> None" using assms(3) by (auto simp: with_mbufs_def)
  have e: "queue_encrypt k i p s = (let t = snd (wg_queue_both Encrypt_parallel (Encrypt_serial i) p ?s) in
      if fst (wg_queue_both Encrypt_parallel (Encrypt_serial i) p ?s) \<noteq> OK
      then count (\<lambda>c. c\<lparr>ic_oqdrops := ic_oqdrops c + 1\<rparr>) t else t)"
    by (simp add: queue_encrypt_def Let_def case_prod_unfold)
  have "owns (insert p H) E D ?s" using assms(1) by (intro owns_upd_pk) simp_all
  then have "owns H E D (snd (wg_queue_both Encrypt_parallel (Encrypt_serial i) p ?s))"
    using assms(2,4) pkt
    by (intro owns_both [where pkt = "pkt\<lparr>pk_keypair := Some k\<rparr>" and i = i]) (auto simp: upd_pk_def upd_local_def)
  then show "owns H E D (queue_encrypt k i p s)" by (simp add: e Let_def)
  show "sc_pkt (queue_encrypt k i p s) x = sc_pkt s x" if "x \<noteq> p" for x
  proof -
    have "sc_pkt (count c t) x = sc_pkt t x" for c and t :: "'a wg_softc" by (simp add: count_def)
    then show ?thesis using both_other [OF that, of Encrypt_parallel "Encrypt_serial i" ?s] that
      by (simp add: e Let_def upd_pk_def upd_local_def)
  qed
  have "sc_next_peer (count c t) = sc_next_peer t" for c and t :: "'a wg_softc" by (simp add: count_def)
  then show "sc_next_peer (queue_encrypt k i p s) = sc_next_peer s" by (simp add: e Let_def) (simp add: upd_pk_def upd_local_def)
qed

lemma owns_queue_all:
  "owns (set ps \<union> H) E D s \<Longrightarrow> distinct ps \<Longrightarrow> set ps \<inter> H = {} \<Longrightarrow> with_mbufs (set ps) s \<Longrightarrow> i < sc_next_peer s \<Longrightarrow>
   owns H E D (fold (queue_encrypt k i) ps s)"
proof (induction ps arbitrary: s)
  case (Cons p ps)
  have m: "with_mbufs {p} s" using Cons.prems(4) by (simp add: with_mbufs_def)
  note q = queue_encrypt_facts [OF _ _ m Cons.prems(5)]
  have 1: "owns (set ps \<union> H) E D (queue_encrypt k i p s)" by (rule q(1)) (use Cons.prems(1-3) in auto)
  have "sc_pkt (queue_encrypt k i p s) x = sc_pkt s x" if "x \<in> set ps" for x
    by (rule q(2) [of "set ps \<union> H" E D]) (use Cons.prems(1-3) that in auto)
  then have 2: "with_mbufs (set ps) (queue_encrypt k i p s)" using Cons.prems(4) by (simp add: with_mbufs_def)
  have "sc_next_peer (queue_encrypt k i p s) = sc_next_peer s"
    by (rule q(3) [of "set ps \<union> H" E D]) (use Cons.prems(1-3) in auto)
  then show ?case using Cons.IH [OF 1 _ _ 2] Cons.prems by simp
qed simp

end
