(* ===== verification/IfHandlers.thy ===== *)
theory IfHandlers
  imports IfOwn
begin

text \<open>
  The handlers of \<^verbatim>\<open>src/if_wg.c\<close> keep the ownership of packets: each of them gives every packet that it takes or makes
  to a queue, or frees it, once.
\<close>

lemma owns_send_staged:
  assumes "wg_peer_send_staged cv env i s = Some t" "owns H E D s" "i < sc_next_peer s"
  shows "owns H E D t"
proof -
  let ?list = "held s (Stage i)"
  let ?s = "upd_queue (Stage i) (\<lambda>_. wg_queue_init) s"
  have d: "wg_queue_delist_staged (Stage i) s = (?list, ?s)" by (simp add: wg_queue_delist_staged_def)
  note take = owns_take_all [OF assms(2), of "Stage i"]
  have o: "owns (set ?list \<union> H) E D ?s" "distinct ?list" "set ?list \<inter> H = {}" using take(1-3) by simp_all
  have m: "with_mbufs (set ?list) ?s" using take(4) by (auto simp: with_mbufs_def)
  obtain ko l where c: "noise_keypair_current (w_remote (sc_peer ?s i)) (e_uptime env) (sc_local ?s) = (ko, l)" by fastforce
  show ?thesis
  proof (cases "?list = []")
    case True
    then show ?thesis using assms(1) o(1) by (simp add: wg_peer_send_staged_def d)
  next
    case False
    show ?thesis
    proof (cases ko)
      case None
      have "owns H E D (wg_queue_enlist_staged (Stage i) ?list (?s\<lparr>sc_local := l\<rparr>))"
        by (rule owns_enlist) (use o m assms(3) in simp_all)
      moreover have "wg_timers_event_want_initiation cv env i (wg_queue_enlist_staged (Stage i) ?list (?s\<lparr>sc_local := l\<rparr>)) = Some t"
        using assms(1) None False by (simp add: wg_peer_send_staged_def d c)
      ultimately show ?thesis using owns_want by blast
    next
      case (Some k)
      obtain ok t2 where a: "assign_nonces k ?list (?s\<lparr>sc_local := l\<rparr>) = (ok, t2)" by fastforce
      have f: "owns (set ?list \<union> H) E D t2" "with_mbufs (set ?list) t2" "sc_next_peer t2 = sc_next_peer s"
        using assign_nonces_facts [of ?list "set ?list \<union> H" E D "?s\<lparr>sc_local := l\<rparr>" "set ?list" k] o m a by simp_all
      have "owns H E D (wg_queue_enlist_staged (Stage i) ?list (upd_local (noise_keypair_put k) t2))"
        by (rule owns_enlist) (use o f assms(3) in \<open>simp_all add: upd_local_def\<close>)
      moreover have "owns H E D (fold (queue_encrypt k i) ?list t2)"
        by (rule owns_queue_all) (use o f assms(3) in simp_all)
      moreover have "if ok then t = upd_local (noise_keypair_put k) (wg_encrypt_dispatch (fold (queue_encrypt k i) ?list t2))
          else wg_timers_event_want_initiation cv env i (wg_queue_enlist_staged (Stage i) ?list (upd_local (noise_keypair_put k) t2)) = Some t"
        using assms(1) Some False by (auto simp: wg_peer_send_staged_def d c a)
      ultimately show ?thesis by (auto dest: owns_want [where H = H and E = E and D = D] split: if_splits)
    qed
  qed
qed

lemma owns_send_keepalive:
  assumes "wg_send_keepalive cv env i s = Some t" "owns H E D s" "i < sc_next_peer s"
  shows "owns H E D t"
proof (cases "wg_queue_len (Stage i) s > 0")
  case True
  then show ?thesis using assms owns_send_staged by (simp add: wg_send_keepalive_def)
next
  case False
  show ?thesis
  proof (cases "m_devget (e_mbuf env) []")
    case None
    then show ?thesis using assms False by (simp add: wg_send_keepalive_def)
  next
    case (Some m)
    obtain po s1 where a: "wg_packet_alloc env m s = (po, s1)" by fastforce
    have n: "sc_next_peer s1 = sc_next_peer s" using a by (auto simp: wg_packet_alloc_def Let_def split: if_splits)
    show ?thesis
    proof (cases po)
      case None
      then show ?thesis using assms(1,2) False Some a owns_alloc_None [OF assms(2), of env m s1] by (simp add: wg_send_keepalive_def)
    next
      case po: (Some p)
      note al = owns_alloc [OF assms(2) a [unfolded po]]
      then obtain pkt where pkt: "sc_pkt s1 p = Some pkt" "pk_mbuf pkt = Some m" by blast
      have "owns H E D (wg_queue_push_staged (Stage i) p s1)"
        by (rule owns_push_staged [OF al(1,2) pkt(1)]) (use pkt(2) n assms(3) in simp_all)
      moreover have "wg_peer_send_staged cv env i (wg_queue_push_staged (Stage i) p s1) = Some t"
        using assms(1) False Some a po by (simp add: wg_send_keepalive_def)
      ultimately show ?thesis using owns_send_staged n assms(3) by fastforce
    qed
  qed
qed

lemma owns_run_send_keepalive:
  "wg_timers_run_send_keepalive cv env i s = Some t \<Longrightarrow> owns H E D s \<Longrightarrow> i < sc_next_peer s \<Longrightarrow> owns H E D t"
  using owns_send_keepalive by (fastforce simp: wg_timers_run_send_keepalive_def)

lemma next_peer_upd_w [simp]: "sc_next_peer (upd_w i f s) = sc_next_peer s"
  by (simp add: upd_w_def)

lemma owns_handshake_complete:
  "wg_timers_event_handshake_complete cv env i s = Some t \<Longrightarrow> owns H E D s \<Longrightarrow> i < sc_next_peer s \<Longrightarrow> owns H E D t"
  using owns_run_send_keepalive by (fastforce simp: wg_timers_event_handshake_complete_def split: if_splits)

lemma owns_persistent_keepalive:
  "wg_timers_run_persistent_keepalive cv env i s = Some t \<Longrightarrow> owns H E D s \<Longrightarrow> i < sc_next_peer s \<Longrightarrow> owns H E D t"
  using owns_send_keepalive by (fastforce simp: wg_timers_run_persistent_keepalive_def split: if_splits)

lemma owns_timers_enable:
  "wg_timers_enable cv env i s = Some t \<Longrightarrow> owns H E D s \<Longrightarrow> i < sc_next_peer s \<Longrightarrow> owns H E D t"
  using owns_persistent_keepalive by (fastforce simp: wg_timers_enable_def)

lemma owns_set_keepalive:
  "wg_timers_set_persistent_keepalive cv env i pki s = Some t \<Longrightarrow> owns H E D s \<Longrightarrow> i < sc_next_peer s \<Longrightarrow> owns H E D t"
  using owns_persistent_keepalive by (fastforce simp: wg_timers_set_persistent_keepalive_def Let_def split: if_splits)

lemma owns_retry_handshake:
  assumes "wg_timers_run_retry_handshake cv env i s = Some t" "owns H E D s"
  shows "owns H E D t"
proof (cases "w_handshake_retries (sc_peer s i) \<le> MAX_TIMER_HANDSHAKES")
  case True
  let ?s = "wg_peer_clear_src i (upd_w i (\<lambda>w. w\<lparr>w_handshake_retries := w_handshake_retries w + 1\<rparr>) s)"
  have "same_packets ?s t" using assms(1) True same_initiation(2) by (simp add: wg_timers_run_retry_handshake_def)
  then have "owns H E D t = owns H E D ?s" by (rule owns_same)
  then show ?thesis using assms(2) owns_same [of s ?s] by simp
next
  case False
  have "owns H E D (wg_queue_purge (Stage i) (upd_w i (\<lambda>w. w\<lparr>w_send_keepalive := None\<rparr>) s))"
    by (rule owns_purge) (use assms(2) in simp_all)
  then show ?thesis using assms(1) False by (auto simp: wg_timers_run_retry_handshake_def Let_def)
qed

lemma owns_new_handshake: "wg_timers_run_new_handshake cv env i s = Some t \<Longrightarrow> owns H E D s \<Longrightarrow> owns H E D t"
  using owns_same [OF same_initiation(2), of cv env i False "wg_peer_clear_src i s" t H E D] owns_same [of s "wg_peer_clear_src i s"]
  by (simp add: wg_timers_run_new_handshake_def)

subsection \<open>Datagrams in\<close>

lemma owns_input_data:
  assumes "owns (insert p H) E D s" "p \<notin> H" "with_mbufs {p} s" "if_links cv s"
  shows "owns H E D (input_data env dg p s)"
proof -
  have hand: "owns (insert p H) E D (upd_pk p f (s\<lparr>sc_local := l\<rparr>))" for f l using assms(1) by (intro owns_upd_pk) simp_all
  have none: "owns (insert p H) E D (upd_pk p f s)" for f using assms(1) by (intro owns_upd_pk) simp_all
  obtain ko l where lk: "noise_keypair_lookup (sc_local s) (le32dec (drop 4 dg)) = (ko, l)" by fastforce
  show ?thesis
  proof (cases "e_pullup env 16")
    case False
    then show ?thesis using owns_free [OF none assms(2)]
      by (simp add: input_data_def ierror_def)
  next
    case pull: True
    show ?thesis
    proof (cases ko)
      case None
      have "owns H E D (wg_packet_free p (s\<lparr>sc_local := l\<rparr>))" by (rule owns_free) (use assms(1,2) in simp_all)
      then show ?thesis using pull None by (simp add: input_data_def lk ierror_def)
    next
      case (Some k)
      let ?s = "upd_pk p (\<lambda>x. x\<lparr>pk_keypair := Some k\<rparr>) (s\<lparr>sc_local := l\<rparr>)"
      obtain r l2 where r: "noise_keypair_remote k (sc_local ?s) = (r, l2)" by fastforce
      have reach: "noise_reach cv (sc_local s)" using assms(4) by (simp add: if_links_def)
      have k: "fst (noise_keypair_lookup (sc_local s) (le32dec (drop 4 dg))) = Some k" "l = noise_keypair_ref k (sc_local s)"
        using keypair_lookup_parts(2) [OF reach, of "le32dec (drop 4 dg)"] lk Some by simp_all
      then have "k \<in> set (slots (remotes (sc_local s) (kp_remote (keypairs (sc_local s) k))))"
        using keypair_lookup_parts(1) [OF reach] by blast
      then have rn: "kp_remote (keypairs (sc_local s) k) < next_remote (sc_local s)"
        using noise_reach_inv [OF reach] by (force simp: noise_inv_def fresh_ok_def not_le [symmetric])
      have r2: "r = kp_remote (keypairs (sc_local s) k)" "l2 = noise_remote_ref r l"
        using r k(2) by (auto simp: noise_keypair_remote_def upd_pk_def)
      have i: "noise_remote_arg l2 r < sc_next_peer s"
        using assms(4) rn r2 k(2) by (simp add: if_links_def noise_remote_arg_def)
      obtain pkt where pkt: "sc_pkt s p = Some pkt" "pk_mbuf pkt \<noteq> None" using assms(3) by (auto simp: with_mbufs_def)
      have "owns H E D (snd (wg_queue_both Decrypt_parallel (Decrypt_serial (noise_remote_arg l2 r)) p (?s\<lparr>sc_local := l2\<rparr>)))"
        by (rule owns_both [where pkt = "pkt\<lparr>pk_keypair := Some k\<rparr>"])
          (use none [of "\<lambda>x. x\<lparr>pk_keypair := Some k\<rparr>"] assms(2) pkt i in \<open>simp_all add: upd_pk_def\<close>)
      then show ?thesis using pull Some by (simp add: input_data_def lk r Let_def case_prod_unfold)
    qed
  qed
qed

lemma next_peer_alloc: "wg_packet_alloc env m s = (po, t) \<Longrightarrow> sc_next_peer t = sc_next_peer s \<and> sc_local t = sc_local s \<and> sc_peer t = sc_peer s"
  by (auto simp: wg_packet_alloc_def Let_def split: if_splits)

lemma owns_input:
  assumes "owns H E D s" "if_links cv s"
  shows "owns H E D (wg_input env dg sa dst s)"
proof -
  obtain po t where a: "wg_packet_alloc env \<lparr>m_data = dg, m_cap = length dg\<rparr> s = (po, t)" by fastforce
  show ?thesis
  proof (cases "e_unshare env \<and> length dg \<ge> 4 \<and> e_pullup env 4 \<and> po \<noteq> None")
    case False
    then show ?thesis using assms(1) owns_alloc_None [OF assms(1)] a by (auto simp: wg_input_def iqdrop_def)
  next
    case True
    then obtain p where p: "po = Some p" by auto
    note al = owns_alloc [OF assms(1) a [unfolded p]]
    then obtain pkt where pkt: "sc_pkt t p = Some pkt" "pk_mbuf pkt = Some \<lparr>m_data = dg, m_cap = length dg\<rparr>" by blast
    let ?t = "upd_pk p (\<lambda>x. x\<lparr>pk_endpoint := \<lparr>ep_remote = sa, ep_local = dst\<rparr>\<rparr>) t"
    let ?pkt = "pkt\<lparr>pk_endpoint := \<lparr>ep_remote = sa, ep_local = dst\<rparr>\<rparr>"
    have 1: "owns (insert p H) E D ?t" using al(1) by (intro owns_upd_pk) simp_all
    have pk: "sc_pkt ?t p = Some ?pkt" by (simp add: upd_pk_def pkt(1))
    have links: "if_links cv ?t" using assms(2) next_peer_alloc [OF a]
      by (simp add: if_links_def upd_pk_def)
    have m: "with_mbufs {p} ?t" using pk pkt(2) by (simp add: with_mbufs_def)
    have hs: "owns H E D (snd (wg_queue_enqueue_handshake Handshake_queue p ?t))" if "handshake_message dg"
    proof (cases "wq_len (sc_queue ?t Handshake_queue) < MAX_QUEUED_HANDSHAKES")
      case True
      have "owns H E D (upd_queue Handshake_queue (insert_tail p) ?t)"
        by (rule owns_put [OF 1 al(2) _ _ pk]) (use True that pkt(2) in simp_all)
      then show ?thesis using True by (simp add: wg_queue_enqueue_handshake_def)
    next
      case False
      then show ?thesis using owns_free [OF 1 al(2)] by (simp add: wg_queue_enqueue_handshake_def)
    qed
    have hm: "handshake_message dg \<longleftrightarrow> length dg = 148 \<and> le32dec dg = WGS_PKT_INITIATION \<or> length dg = 92 \<and> le32dec dg = WGS_PKT_RESPONSE \<or>
        length dg = 64 \<and> le32dec dg = WGS_PKT_COOKIE"
      by (simp add: handshake_message_def)
    have e: "wg_input env dg sa dst s =
        (if sa = Sa_other then ierror (wg_packet_free p t)
         else if handshake_message dg
         then (let (rc, sc) = wg_queue_enqueue_handshake Handshake_queue p ?t in enqueue_task Task_handshake (if rc \<noteq> OK then iqdrop sc else sc))
         else if length dg \<ge> 32 \<and> le32dec dg = WGS_PKT_DATA then input_data env dg p ?t
         else ierror (wg_packet_free p ?t))"
      using True by (simp add: wg_input_def a p hm Let_def not_less)
    show ?thesis unfolding e
      using owns_free [OF al(1,2)] hs owns_input_data [OF 1 al(2) m links] owns_free [OF 1 al(2)]
      by (simp add: case_prod_unfold Let_def ierror_def iqdrop_def)
  qed
qed

subsection \<open>Handshake messages\<close>

lemma owns_handshake_initiation:
  assumes "handshake_initiation cv env ul dg e s = Some t" "owns H E D s"
  shows "owns H E D t"
proof -
  obtain ok s1 where m: "check_macs env ul (take 116 dg) \<lparr>mac1 = take 16 (drop 116 dg), mac2 = take 16 (drop 132 dg)\<rparr>
      (le32dec (drop 4 dg)) e s = Some (ok, s1)"
    using assms(1) by (auto simp: handshake_initiation_def Let_def bind_eq_Some_conv)
  have "owns H E D s1" using assms(2) owns_same [OF same_check_macs [OF m]] by simp
  then show ?thesis using assms(1) m by (auto simp: handshake_initiation_def Let_def split: if_splits option.splits)
qed

lemma owns_handshake_response:
  assumes "handshake_response cv env ul dg e s = Some t" "owns H E D s" "if_links cv s"
  shows "owns H E D t"
proof -
  obtain ok s1 where m: "check_macs env ul (take 60 dg) \<lparr>mac1 = take 16 (drop 60 dg), mac2 = take 16 (drop 76 dg)\<rparr>
      (le32dec (drop 4 dg)) e s = Some (ok, s1)"
    using assms(1) by (auto simp: handshake_response_def Let_def bind_eq_Some_conv)
  have o: "owns H E D s1" using assms(2) owns_same [OF same_check_macs [OF m]] by simp
  have links: "if_links cv s1" using frame_links [OF frame_check_macs [OF m if_frame_refl] assms(3)] .
  obtain er ro l where c: "noise_consume_response cv (le32dec (drop 4 dg)) (le32dec (drop 8 dg)) (take 32 (drop 12 dg))
      (take 16 (drop 44 dg)) (e_uptime env) (e_alloc env) (sc_local s1) = (er, ro, l)" by (metis prod_cases3)
  have run: "run cv (sc_local s1) l" using run_interface(6) c by (metis snd_conv)
  show ?thesis
  proof (cases "ok \<and> ro \<noteq> None")
    case True
    then obtain r where r: "ro = Some r" by auto
    have "r < next_remote (sc_local s1)"
      using consume_response_remote [OF _ c [unfolded r]] links noise_reach_inv by (auto simp: if_links_def)
    moreover have "if_links cv (s1\<lparr>sc_local := l\<rparr>)" using frame_links [OF frame_set_local [OF if_frame_refl run] links] .
    ultimately have i: "noise_remote_arg l r < sc_next_peer s1" using run by (simp add: if_links_def run_def)
    let ?w = "wg_timers_event_session_derived (noise_remote_arg l r) (wg_peer_set_endpoint (noise_remote_arg l r) e (s1\<lparr>sc_local := l\<rparr>))"
    obtain v where v: "wg_timers_event_handshake_complete cv env (noise_remote_arg l r) ?w = Some v"
      "t = handshake_authenticated (noise_remote_arg l r) r (length dg) v"
      using assms(1) m c True r by (auto simp: handshake_response_def Let_def)
    have "same_packets s1 ?w" by simp
    then have "sc_next_peer ?w = sc_next_peer s1" by (rule same_next_peer)
    then have "owns H E D v" using owns_handshake_complete [OF v(1)] i o by simp
    then show ?thesis by (simp add: v(2))
  next
    case False
    then show ?thesis using assms(1) m c o by (auto simp: handshake_response_def Let_def split: if_splits)
  qed
qed

lemma owns_handshake:
  assumes "wg_handshake cv env p s = Some t" "owns (insert p H) E D s" "p \<notin> H" "if_links cv s"
  shows "owns H E D t"
proof -
  obtain ul s1 where l: "under_load env s = (ul, s1)" by fastforce
  then have same: "same_packets s s1" "if_frame cv s s1"
    using frame_under_load [OF if_frame_refl, of cv s env] by (auto simp: under_load_def split: if_splits)
  have o: "owns (insert p H) E D s1" using assms(2) owns_same [OF same(1)] by simp
  obtain pkt m where p: "sc_pkt s1 p = Some pkt" "pk_mbuf pkt = Some m"
    using assms(1) by (auto simp: wg_handshake_def l bind_eq_Some_conv)
  show ?thesis
  proof (cases "e_pullup env (length (m_data m))")
    case False
    have "owns H E D (wg_packet_free p (upd_pk p (\<lambda>x. x\<lparr>pk_mbuf := None\<rparr>) s1))"
      by (intro owns_free owns_upd_pk) (use o assms(3) in simp_all)
    then show ?thesis using False assms(1) p by (simp add: wg_handshake_def l Let_def)
  next
    case True
    then obtain v where v: "t = wg_packet_free p v"
      "(if le32dec (m_data m) = WGS_PKT_INITIATION then handshake_initiation cv env ul (m_data m) (pk_endpoint pkt) s1
        else if le32dec (m_data m) = WGS_PKT_RESPONSE then handshake_response cv env ul (m_data m) (pk_endpoint pkt) s1
        else if le32dec (m_data m) = WGS_PKT_COOKIE then Some (handshake_cookie env (m_data m) s1)
        else None) = Some v"
      using assms(1) p by (auto simp: wg_handshake_def l Let_def)
    have "owns (insert p H) E D v"
      using v(2) owns_handshake_initiation [OF _ o] owns_handshake_response [OF _ o frame_links [OF same(2) assms(4)]] o
      by (auto split: if_splits)
    then show ?thesis unfolding v(1) by (rule owns_free) (rule assms(3))
  qed
qed

text \<open>A handshake message of the queue is one of the three kinds: \<^verbatim>\<open>panic("invalid packet in handshake queue")\<close> is not reached.\<close>

lemma owns_dequeue_handshake:
  assumes "wg_queue_dequeue_handshake Handshake_queue s = (Some p, t)" "owns H E D s"
  shows "owns (insert p H) E D t" "p \<notin> H" "\<exists>pkt. sc_pkt t p = Some pkt \<and> packet_ok Handshake_queue pkt"
proof -
  obtain ps where h: "held s Handshake_queue = p # ps" "t = upd_queue Handshake_queue remove_head s"
    using assms(1) by (auto simp: wg_queue_dequeue_handshake_def split: list.splits)
  note take = owns_take [OF assms(2) _ h(1)]
  show "owns (insert p H) E D t" "p \<notin> H" "\<exists>pkt. sc_pkt t p = Some pkt \<and> packet_ok Handshake_queue pkt"
    using take(1-3) by (simp_all add: h(2))
qed

subsection \<open>Workers\<close>

lemma owns_encrypt:
  assumes "wg_encrypt env p s = Some t" "owns H E D s" "p \<in> E"
  shows "owns H (E - {p}) D t"
proof -
  obtain pkt k m where w: "work_of p s = Some (pkt, k, m)" using assms(1) by (auto simp: wg_encrypt_def)
  obtain r l where r: "noise_keypair_remote k (sc_local s) = (r, l)" by fastforce
  obtain m' st where e: "encrypt_packet env (keypairs l k) pkt m = (m', st)" by fastforce
  have st: "st \<noteq> WG_PACKET_UNCRYPTED \<and> (st = WG_PACKET_DEAD \<or> m' \<noteq> None)"
    using e by (auto simp: encrypt_packet_def Let_def split: option.splits prod.splits if_splits)
  have "owns H (E - {p}) D (upd_pk p (\<lambda>x. x\<lparr>pk_mbuf := m', pk_state := st\<rparr>) (s\<lparr>sc_local := l\<rparr>))"
    by (rule owns_finish_encrypt) (use assms(2,3) st in simp_all)
  then show ?thesis using assms(1) by (auto simp: wg_encrypt_def w r e Let_def)
qed

lemma decrypted_facts:
  assumes "decrypted rx env i d s = (m, f, st, t)"
  shows "same_packets s t" "st \<noteq> WG_PACKET_UNCRYPTED"
    "st = WG_PACKET_DEAD \<or> m \<noteq> None \<and> (f \<noteq> None \<or> (\<exists>m'. m = Some m' \<and> m_data m' = []))"
proof -
  have src: "same_packets s u" if "inner_source rx f m s = (a, m', u)" for f m a m' u
    using that same_aip_lookup [of s rx _ _ s]
    by (auto simp: inner_source_def Let_def case_prod_unfold split: af.splits)
  show "same_packets s t" using assms
    by (auto simp: decrypted_def Let_def split: prod.splits if_splits errno.splits option.splits dest: src)
  show "st \<noteq> WG_PACKET_UNCRYPTED" "st = WG_PACKET_DEAD \<or> m \<noteq> None \<and> (f \<noteq> None \<or> (\<exists>m'. m = Some m' \<and> m_data m' = []))"
    using assms by (auto simp: decrypted_def Let_def split: prod.splits if_splits errno.splits option.splits)
qed

lemma owns_decrypt:
  assumes "wg_decrypt rx env p s = Some t" "owns H E D s" "p \<in> D"
  shows "owns H E (D - {p}) t"
proof -
  obtain pkt k m where w: "work_of p s = Some (pkt, k, m)" using assms(1) by (auto simp: wg_decrypt_def)
  obtain r l where r: "noise_keypair_remote k (sc_local s) = (r, l)" by fastforce
  let ?g = "\<lambda>x. x\<lparr>pk_nonce := le64dec (drop 8 (m_data m))\<rparr>"
  let ?s = "upd_pk p ?g (s\<lparr>sc_local := l\<rparr>)"
  obtain m' f st u where d: "decrypted rx env (noise_remote_arg l r)
      (noise_keypair_decrypt (keypairs l k) (le64dec (drop 8 (m_data m))) (m_adj m 16) (e_uptime env)) ?s = (m', f, st, u)"
    by (metis prod_cases4)
  note f = decrypted_facts [OF d]
  let ?h = "\<lambda>x. x\<lparr>pk_mbuf := m', pk_af := f, pk_state := st\<rparr>"
  have "owns H E (D - {p}) (upd_pk p (\<lambda>x. ?h (?g x)) (s\<lparr>sc_local := l\<rparr>))"
    by (rule owns_finish_decrypt) (use assms(2,3) f(2,3) in auto)
  moreover have "upd_pk p (\<lambda>x. ?h (?g x)) (s\<lparr>sc_local := l\<rparr>) = upd_pk p ?h ?s"
    by (simp add: upd_pk_def option.map_comp comp_def)
  ultimately have "owns H E (D - {p}) (upd_pk p ?h ?s)" by simp
  moreover have "same_packets (upd_pk p ?h ?s) (upd_pk p ?h u)" using f(1) by (simp add: same_packets_def upd_pk_def)
  ultimately have "owns H E (D - {p}) (upd_pk p ?h u)" using owns_same by blast
  then show ?thesis using assms(1) by (auto simp: wg_decrypt_def w r d Let_def)
qed


subsection \<open>Delivery\<close>

lemma owns_dequeue_serial:
  assumes "wg_queue_dequeue_serial q s = (Some p, t)" "owns H E D s" "q = Encrypt_serial i \<or> q = Decrypt_serial i"
  shows "owns (insert p H) E D t" "p \<notin> H" "\<exists>pkt. sc_pkt t p = Some pkt \<and> packet_ok q pkt \<and> pk_state pkt \<noteq> WG_PACKET_UNCRYPTED"
    "i < sc_next_peer t" "sc_local t = sc_local s" "sc_next_peer t = sc_next_peer s" "sc_pkt t = sc_pkt s"
proof -
  obtain ps where h: "held s q = p # ps" "t = upd_queue q remove_head s"
    "map_option pk_state (sc_pkt s p) \<noteq> Some WG_PACKET_UNCRYPTED"
    using assms(1) by (auto simp: wg_queue_dequeue_serial_def split: list.splits if_splits)
  have nu: "pk_state pkt \<noteq> WG_PACKET_UNCRYPTED" if "sc_pkt s p = Some pkt" for pkt using h(3) that by simp
  note take = owns_take [OF assms(2) _ h(1) nu]
  show "owns (insert p H) E D t" "p \<notin> H" using take(1,2) assms(3) by (auto simp: h(2))
  show "\<exists>pkt. sc_pkt t p = Some pkt \<and> packet_ok q pkt \<and> pk_state pkt \<noteq> WG_PACKET_UNCRYPTED"
    using take(3) nu assms(3) by (auto simp: h(2))
  show "i < sc_next_peer t" using take(4) assms(3) by (auto simp: h(2))
  show "sc_local t = sc_local s" "sc_next_peer t = sc_next_peer s" "sc_pkt t = sc_pkt s" by (simp_all add: h(2) upd_queue_def)
qed

lemma owns_drop_packet:
  "owns (insert p H) E D s \<Longrightarrow> p \<notin> H \<Longrightarrow> owns H E D (oerror p s)"
  "owns (insert p H) E D s \<Longrightarrow> p \<notin> H \<Longrightarrow> owns H E D (ierror_packet p s)"
  by (simp_all add: oerror_def ierror_packet_def owns_free)

lemma owns_deliver_out_packet:
  assumes "deliver_out_packet cv env i p ep s = Some (ep', t)" "owns (insert p H) E D s" "p \<notin> H"
  shows "owns H E D t"
proof -
  obtain pkt where p: "sc_pkt s p = Some pkt" using assms(1) by (auto simp: deliver_out_packet_def bind_eq_Some_conv)
  show ?thesis
  proof (cases "pk_state pkt = WG_PACKET_CRYPTED")
    case True
    then obtain m where m: "pk_mbuf pkt = Some m" using assms(1) p by (auto simp: deliver_out_packet_def bind_eq_Some_conv)
    let ?s = "wg_timers_event_any_authenticated_packet_sent i (wg_timers_event_any_authenticated_packet_traversal i
      (upd_pk p (\<lambda>x. x\<lparr>pk_mbuf := None\<rparr>) s))"
    obtain rc v where sent: "wg_send env ep m ?s = (rc, v)" by fastforce
    have "owns (insert p H) E D ?s" by (simp add: owns_upd_pk assms(2))
    moreover have "owns (insert p H) E D (snd (wg_send env ep m ?s)) = owns (insert p H) E D ?s" by (rule owns_events)
    ultimately have v: "owns (insert p H) E D v" using sent by simp
    let ?v = "wg_packet_free p (upd_w i (\<lambda>w. w\<lparr>w_tx_bytes := w_tx_bytes w + of_nat (length (m_data m))\<rparr>)
      (if length (m_data m) > 32 then wg_timers_event_data_sent env i v else v))"
    have "owns H E D ?v" by (rule owns_free) (use v assms(3) in simp_all)
    moreover have "owns H E D (oerror p v)" "owns H E D (oerror p (wg_peer_clear_src i v))"
      using v assms(3) by (simp_all add: owns_drop_packet)
    ultimately show ?thesis
      using assms(1) p m True
      by (auto simp: deliver_out_packet_def Let_def sent dest!: owns_want [where H = H and E = E and D = D] split: if_splits)
  next
    case False
    then show ?thesis using assms p owns_drop_packet(1) [OF assms(2,3)] by (simp add: deliver_out_packet_def)
  qed
qed

lemma owns_deliver_received:
  assumes "deliver_received cv env i p pkt m s = Some t" "owns (insert p H) E D s" "p \<notin> H"
  shows "owns H E D t"
proof -
  let ?s = "count (\<lambda>c. c\<lparr>ic_ipackets := ic_ipackets c + 1, ic_ibytes := ic_ibytes c + of_nat (length (m_data m) + 16 + 16)\<rparr>)
    (upd_w i (\<lambda>w. w\<lparr>w_rx_bytes := w_rx_bytes w + of_nat (length (m_data m) + 16 + 16)\<rparr>) (wg_peer_set_endpoint i (pk_endpoint pkt)
      (wg_timers_event_any_authenticated_packet_traversal i (wg_timers_event_any_authenticated_packet_received i s))))"
  have 1: "owns (insert p H) E D ?s" using assms(2) by simp
  obtain u where u: "(if length (m_data m) = 0 then Some ?s
      else map_option (\<lambda>f. wg_timers_event_data_received i (emit (Ip_in f (m_data m)) (upd_pk p (\<lambda>x. x\<lparr>pk_mbuf := None\<rparr>) ?s))) (pk_af pkt)) = Some u"
    "map_option (wg_packet_free p) (if noise_keep_key_fresh_recv (sc_local u) (w_remote (sc_peer u i)) (e_uptime env) \<noteq> OK
      then wg_timers_event_want_initiation cv env i u else Some u) = Some t"
    using assms(1) unfolding deliver_received_def Let_def bind_eq_Some_conv by blast
  have "owns (insert p H) E D (upd_pk p (\<lambda>x. x\<lparr>pk_mbuf := None\<rparr>) ?s)" by (rule owns_upd_pk [OF 1]) simp
  then have "owns (insert p H) E D u" using u(1) 1 by (auto split: if_splits)
  then obtain v where "owns (insert p H) E D v" "t = wg_packet_free p v"
    using u(2) by (auto dest: owns_want [where H = "insert p H" and E = E and D = D] split: if_splits)
  then show ?thesis using owns_free assms(3) by blast
qed

lemma owns_deliver_in_packet:
  assumes "deliver_in_packet cv env i p s = Some t" "owns (insert p H) E D s" "p \<notin> H" "i < sc_next_peer s"
  shows "owns H E D t"
proof -
  obtain pkt where p: "sc_pkt s p = Some pkt" using assms(1) by (auto simp: deliver_in_packet_def bind_eq_Some_conv)
  show ?thesis
  proof (cases "pk_state pkt = WG_PACKET_CRYPTED")
    case True
    then obtain m k where m: "pk_mbuf pkt = Some m" "pk_keypair pkt = Some k"
      using assms(1) p by (auto simp: deliver_in_packet_def bind_eq_Some_conv)
    obtain e kp where n: "noise_keypair_nonce_check (keypairs (sc_local s) k) (pk_nonce pkt) = (e, kp)" by fastforce
    let ?s = "upd_local (upd_keypair k (\<lambda>_. kp)) s"
    show ?thesis
    proof (cases "e = OK")
      case eok: True
      obtain e' l where r: "noise_keypair_received_with k (sc_local ?s) = (e', l)" by fastforce
      obtain u where u: "(if e' = ECONNRESET then wg_timers_event_handshake_complete cv env i (?s\<lparr>sc_local := l\<rparr>) else Some (?s\<lparr>sc_local := l\<rparr>)) = Some u"
        "deliver_received cv env i p pkt m u = Some t"
        using assms(1) p True m n eok r by (auto simp: deliver_in_packet_def Let_def bind_eq_Some_conv)
      have 1: "owns (insert p H) E D (?s\<lparr>sc_local := l\<rparr>)" "i < sc_next_peer (?s\<lparr>sc_local := l\<rparr>)"
        using assms(2,4) by (simp_all add: upd_local_def)
      have "owns (insert p H) E D u"
        using u(1) 1 owns_handshake_complete [of cv env i "?s\<lparr>sc_local := l\<rparr>" u "insert p H" E D] by (auto split: if_splits)
      then show ?thesis using owns_deliver_received [OF u(2)] assms(3) by blast
    next
      case False
      then show ?thesis using assms p True m n owns_drop_packet(2) [of p H E D ?s] by (simp add: deliver_in_packet_def Let_def)
    qed
  next
    case False
    then show ?thesis using assms p owns_drop_packet(2) [OF assms(2,3)] by (simp add: deliver_in_packet_def)
  qed
qed

subsection \<open>Packets out\<close>

lemma owns_xmit_err:
  "owns H E D s \<Longrightarrow> owns H E D (xmit_err m None f s)"
  "owns (insert p H) E D s \<Longrightarrow> p \<notin> H \<Longrightarrow> owns H E D (xmit_err m (Some p) f s)"
proof -
  show "owns H E D s \<Longrightarrow> owns H E D (xmit_err m None f s)" by (simp add: xmit_err_def Let_def split: option.split)
  assume o: "owns (insert p H) E D s" "p \<notin> H"
  have "owns (insert p H) E D (upd_pk p g (case (m, f) of (Some m, Some f) \<Rightarrow> emit (Icmp_error f (m_data m))
      (count (\<lambda>c. c\<lparr>ic_oerrors := ic_oerrors c + 1\<rparr>) s) | _ \<Rightarrow> count (\<lambda>c. c\<lparr>ic_oerrors := ic_oerrors c + 1\<rparr>) s))" for g
    by (rule owns_upd_pk) (use o in \<open>auto split: option.split\<close>)
  from owns_free [OF this o(2)] show "owns H E D (xmit_err m (Some p) f s)" by (simp add: xmit_err_def Let_def)
qed

lemma owns_xmit:
  assumes "wg_xmit cv rx env m f mtu s = Some (rc, t)" "owns H E D s"
    "\<And>i t1 t2. wg_aip_lookup rx f (drop (case f of AF_INET \<Rightarrow> 16 | AF_INET6 \<Rightarrow> 24) (m_data m)) t1 = (Some i, t2) \<Longrightarrow>
       sc_aip t1 = sc_aip s \<Longrightarrow> aip_root f t1 = aip_root f s \<Longrightarrow> i < sc_next_peer s"
  shows "owns H E D t"
proof -
  obtain po s1 where a: "wg_packet_alloc env m s = (po, s1)" by fastforce
  show ?thesis
  proof (cases "e_if_dying env \<or> po = None")
    case True
    then show ?thesis using assms(1,2) owns_alloc_None [OF assms(2), of env m s1] a owns_xmit_err(1)
      by (auto simp: wg_xmit_def split: if_splits)
  next
    case False
    then obtain p where p: "po = Some p" by auto
    note al = owns_alloc [OF assms(2) a [unfolded p]]
    then obtain pkt where pkt: "sc_pkt s1 p = Some pkt" "pk_mbuf pkt = Some m" by blast
    define s2 where "s2 = upd_pk p (\<lambda>x. x\<lparr>pk_mtu := mtu, pk_af := Some f\<rparr>) s1"
    have 2: "owns (insert p H) E D s2" unfolding s2_def by (rule owns_upd_pk [OF al(1)]) simp
    have same: "sc_aip s2 = sc_aip s" "aip_root f s2 = aip_root f s" "sc_next_peer s2 = sc_next_peer s"
      using a by (auto simp: s2_def upd_pk_def wg_packet_alloc_def Let_def aip_root_def split: if_splits af.splits)
    obtain io s3 where l: "wg_aip_lookup rx f (drop (case f of AF_INET \<Rightarrow> 16 | AF_INET6 \<Rightarrow> 24) (m_data m)) s2 = (io, s3)" by fastforce
    have sp: "same_packets s2 s3" using same_aip_lookup [of s2 rx f _ s2] l by (metis same_refl snd_conv)
    have 3: "owns (insert p H) E D s3" using 2 owns_same [OF sp] by simp
    have pk: "sc_pkt s3 p = Some (pkt\<lparr>pk_mtu := mtu, pk_af := Some f\<rparr>)"
      using sp pkt(1) by (simp add: same_packets_def s2_def upd_pk_def)
    show ?thesis
    proof (cases io)
      case None
      then show ?thesis using assms(1) False p owns_xmit_err(2) [OF 3 al(2)]
        by (auto simp: wg_xmit_def a Let_def s2_def [symmetric] l)
    next
      case (Some i)
      have i: "i < sc_next_peer s3" using assms(3) l same same_next_peer [OF sp] unfolding Some by simp
      have push: "owns H E D (wg_queue_push_staged (Stage i) p s3)"
        by (rule owns_push_staged [OF 3 al(2) pk]) (use pkt(2) i in simp_all)
      have "owns H E D v" if "wg_peer_send_staged cv env i (wg_queue_push_staged (Stage i) p s3) = Some v" for v
        using owns_send_staged [OF that push] i by simp
      then show ?thesis using assms(1) False p Some 3 owns_xmit_err(2) [of p H E D "upd_local g s3" for g, OF _ al(2)]
        by (auto simp: wg_xmit_def a Let_def s2_def [symmetric] l split: if_splits)
    qed
  qed
qed

end
