(* ===== verification/IfInv.thy ===== *)
theory IfInv
  imports IfHandlers SessionReach
begin

text \<open>
  The configuration of the interface keeps the invariant of \<^verbatim>\<open>src/if_wg.c\<close>. \<open>if_base\<close> is its part about the noise layer, the peers and
  the allowed addresses, \<open>owns\<close> the part about packets; \<open>if_ok\<close> relates two states of which the second has both when the
  first has, and is closed under composition, so that a request is a chain of such steps.

  The kernel's radix tree is a parameter. \<open>radix_ok\<close> is what the driver relies on: a tree has a set of entries, \<open>rnh_addaddr\<close> adds at most
  the entry that it is given, and the entries that come out are in the set.
\<close>

definition radix_ok :: "'r radix \<Rightarrow> ('r \<Rightarrow> nat set) \<Rightarrow> bool" where
  "radix_ok rx ents \<longleftrightarrow>
     (\<forall>n rt. rn_inithead rx n = Some rt \<longrightarrow> ents rt = {}) \<and>
     (\<forall>a m x rt b rt'. rnh_addaddr rx a m x rt = (b, rt') \<longrightarrow> ents rt' \<subseteq> (if b then insert x (ents rt) else ents rt)) \<and>
     (\<forall>a m rt y. rnh_lookup rx a m rt = Some y \<longrightarrow> y \<in> ents rt) \<and>
     (\<forall>a m rt rt'. rnh_deladdr rx a m rt = Some rt' \<longrightarrow> ents rt' \<subseteq> ents rt) \<and>
     (\<forall>a rt y. rnh_matchaddr rx a rt = Some y \<longrightarrow> y \<in> ents rt)"

definition aips_ok :: "('r \<Rightarrow> nat set) \<Rightarrow> 'r wg_softc \<Rightarrow> bool" where
  "aips_ok ents sc \<longleftrightarrow>
     (\<forall>x \<in> ents (sc_aip4 sc) \<union> ents (sc_aip6 sc). x < sc_next_aip sc \<and> a_peer (sc_aip sc x) < sc_next_peer sc)"

definition keypairs_ok :: "'r wg_softc \<Rightarrow> bool" where
  "keypairs_ok sc \<longleftrightarrow>
     (\<forall>p pkt k. sc_pkt sc p = Some pkt \<longrightarrow> pk_keypair pkt = Some k \<longrightarrow> k < next_keypair (sc_local sc))"

definition if_base :: "curve \<Rightarrow> ('r \<Rightarrow> nat set) \<Rightarrow> 'r wg_softc \<Rightarrow> bool" where
  "if_base cv ents sc \<longleftrightarrow> if_links cv sc \<and> windows_ok (sc_local sc) \<and> keypairs_ok sc \<and> aips_ok ents sc \<and>
     (\<forall>i \<in> set (sc_peers sc). i < sc_next_peer sc)"

definition if_ok :: "curve \<Rightarrow> ('r \<Rightarrow> nat set) \<Rightarrow> 'r wg_softc \<Rightarrow> 'r wg_softc \<Rightarrow> bool" where
  "if_ok cv ents s t \<longleftrightarrow> (if_base cv ents s \<longrightarrow> if_base cv ents t \<and> sc_next_peer s \<le> sc_next_peer t \<and>
     windows_grow (sc_local s) (sc_local t) \<and> (\<forall>H E D. owns H E D s \<longrightarrow> owns H E D t))"

lemma if_ok_refl [simp]: "if_ok cv ents s s"
  by (simp add: if_ok_def)

lemma if_ok_trans [trans]: "if_ok cv ents a b \<Longrightarrow> if_ok cv ents b c \<Longrightarrow> if_ok cv ents a c"
  unfolding if_ok_def using windows_grow_trans by (meson le_trans)

lemma run_windows: "run cv l l' \<Longrightarrow> windows_grow l l' \<and> (windows_ok l \<longrightarrow> windows_ok l')"
  using steps_windows by (auto simp: run_def)

lemma frame_base:
  assumes "if_frame cv s t" "if_base cv ents s"
  shows "if_base cv ents t"
proof -
  have "windows_ok (sc_local t)" using assms run_windows by (auto simp: if_frame_def if_base_def)
  moreover have "keypairs_ok t"
    unfolding keypairs_ok_def
  proof (intro allI impI)
    fix p pkt k assume a: "sc_pkt t p = Some pkt" "pk_keypair pkt = Some k"
    have "next_keypair (sc_local s) \<le> next_keypair (sc_local t)" using assms(1) run_keypairs by (auto simp: if_frame_def)
    then show "k < next_keypair (sc_local t)"
      using assms a unfolding if_frame_def if_base_def keypairs_ok_def by (meson less_le_trans)
  qed
  ultimately show ?thesis using assms frame_links by (auto simp: if_base_def aips_ok_def if_frame_def)
qed

text \<open>A step of the data plane that keeps the packets is a step of the invariant.\<close>

lemma frame_ok_step:
  assumes "if_base cv ents s \<Longrightarrow> if_frame cv s t" "\<And>H E D. if_base cv ents s \<Longrightarrow> owns H E D s \<Longrightarrow> owns H E D t"
  shows "if_ok cv ents s t"
  unfolding if_ok_def
proof (intro impI conjI allI)
  assume b: "if_base cv ents s"
  note f = assms(1) [OF b]
  show "if_base cv ents t" by (rule frame_base [OF f b])
  show "sc_next_peer s \<le> sc_next_peer t" using frame_next_peer [OF f] by simp
  show "windows_grow (sc_local s) (sc_local t)" using f run_windows by (auto simp: if_frame_def)
  show "owns H E D t" if "owns H E D s" for H E D using assms(2) [OF b that] .
qed

lemma frame_ok_same: "if_frame cv s t \<Longrightarrow> same_packets s t \<Longrightarrow> if_ok cv ents s t"
  by (rule frame_ok_step) (simp_all add: owns_same)

text \<open>A change of the configuration that touches neither the noise layer nor the packets.\<close>

lemma conf_ok_step:
  assumes "sc_local t = sc_local s" "same_packets s t" "\<And>i. w_remote (sc_peer t i) = w_remote (sc_peer s i)"
    "set (sc_peers t) \<subseteq> set (sc_peers s)" "if_base cv ents s \<Longrightarrow> aips_ok ents t"
  shows "if_ok cv ents s t"
  using assms owns_same [OF assms(2)]
  by (auto simp: if_ok_def if_base_def if_links_def keypairs_ok_def same_packets_def)

lemma each_ok:
  assumes "\<And>x a b. x \<in> set xs \<Longrightarrow> if_ok cv ents s a \<Longrightarrow> f x a = Some b \<Longrightarrow> if_ok cv ents a b" "if_ok cv ents s u" "each_opt f xs u = Some t"
  shows "if_ok cv ents s t"
  using assms
proof (induction xs arbitrary: u)
  case (Cons x xs)
  obtain b where b: "f x u = Some b" "each_opt f xs b = Some t" using Cons.prems(3) by (auto simp: bind_eq_Some_conv)
  have "if_ok cv ents s b" using if_ok_trans [OF Cons.prems(2) Cons.prems(1) [OF _ Cons.prems(2) b(1)]] by simp
  moreover have "if_ok cv ents a d" if "y \<in> set xs" "if_ok cv ents s a" "f y a = Some d" for y a d
    by (rule Cons.prems(1) [OF _ that(2,3)]) (simp add: that(1))
  ultimately show ?case using Cons.IH b(2) by blast
qed simp

lemma base_peer: "if_base cv ents s \<Longrightarrow> i \<in> set (sc_peers s) \<Longrightarrow> if_ok cv ents s t \<Longrightarrow> i < sc_next_peer t"
  by (fastforce simp: if_ok_def if_base_def)

subsection \<open>Allowed addresses\<close>

lemma aip_fields [simp]:
  "sc_local (set_aip_root f rt s) = sc_local s" "sc_peer (set_aip_root f rt s) = sc_peer s" "sc_peers (set_aip_root f rt s) = sc_peers s"
  "sc_aip (set_aip_root f rt s) = sc_aip s" "sc_next_aip (set_aip_root f rt s) = sc_next_aip s"
  "sc_next_peer (set_aip_root f rt s) = sc_next_peer s" "same_packets u (set_aip_root f rt s) = same_packets u s"
  "sc_aip4 (set_aip_root f rt s) = (if f = AF_INET then rt else sc_aip4 s)"
  "sc_aip6 (set_aip_root f rt s) = (if f = AF_INET6 then rt else sc_aip6 s)"
  by (simp_all add: set_aip_root_def same_packets_def split: af.split)

lemma upd_w_fields [simp]:
  "sc_local (upd_w i g s) = sc_local s" "sc_peers (upd_w i g s) = sc_peers s" "sc_aip (upd_w i g s) = sc_aip s"
  "sc_next_aip (upd_w i g s) = sc_next_aip s" "sc_aip4 (upd_w i g s) = sc_aip4 s" "sc_aip6 (upd_w i g s) = sc_aip6 s"
  "sc_peer (upd_w i g s) j = (if j = i then g (sc_peer s i) else sc_peer s j)"
  by (simp_all add: upd_w_def)

lemma lookup_entry: "radix_ok rx ents \<Longrightarrow> rnh_lookup rx a m (aip_root f s) = Some y \<Longrightarrow> y \<in> ents (sc_aip4 s) \<union> ents (sc_aip6 s)"
  unfolding radix_ok_def aip_root_def by (cases f) auto

lemma add_entries:
  assumes "radix_ok rx ents" "rnh_addaddr rx a m x (aip_root f s) = (b, rt)"
  shows "ents (sc_aip4 (set_aip_root f rt s)) \<union> ents (sc_aip6 (set_aip_root f rt s)) \<subseteq>
    (if b then {x} else {}) \<union> (ents (sc_aip4 s) \<union> ents (sc_aip6 s))"
proof -
  have "ents rt \<subseteq> (if b then insert x (ents (aip_root f s)) else ents (aip_root f s))" using assms unfolding radix_ok_def by blast
  then show ?thesis by (cases f) (auto simp: aip_root_def split: if_splits)
qed

lemma aip_del_ok:
  assumes "radix_ok rx ents"
  shows "if_ok cv ents s (snd (wg_aip_del rx i f baddr cidr s))"
proof -
  have del: "ents rt \<subseteq> ents (aip_root f s)" if "rnh_deladdr rx a m (aip_root f s) = Some rt" for a m rt
    using assms that unfolding radix_ok_def by blast
  have 1: "aips_ok ents (unlink_aip y j (set_aip_root f rt s))"
    if "rnh_deladdr rx a m (aip_root f s) = Some rt" "aips_ok ents s" for a m rt y j
    using del [OF that(1)] that(2) by (cases f) (auto simp: aips_ok_def unlink_aip_def aip_root_def)
  have 2: "aips_ok ents (unlink_aip y j s)" if "aips_ok ents s" for y j using that by (simp add: aips_ok_def unlink_aip_def)
  show ?thesis
    by (rule conf_ok_step)
      (use 1 2 in \<open>auto simp: wg_aip_del_def Let_def unlink_aip_def if_base_def split: prod.split option.split\<close>)
qed

lemma remove_aip_ok:
  assumes "radix_ok rx ents" "remove_aip rx f i x s = Some t"
  shows "if_ok cv ents s t"
proof (cases "a_af (sc_aip s x) = f")
  case True
  then obtain rt where rt: "rnh_deladdr rx (a_addr (sc_aip s x)) (a_mask (sc_aip s x)) (aip_root f s) = Some rt"
    "t = unlink_aip x i (set_aip_root f rt s)"
    using assms(2) by (auto simp: remove_aip_def)
  have "ents rt \<subseteq> ents (aip_root f s)" using assms(1) rt(1) unfolding radix_ok_def by blast
  then have "aips_ok ents t" if "aips_ok ents s"
    using that rt(2) by (cases f) (auto simp: aips_ok_def unlink_aip_def aip_root_def)
  then show ?thesis by (intro conf_ok_step) (auto simp: rt(2) unlink_aip_def if_base_def)
qed (use assms(2) in \<open>simp add: remove_aip_def\<close>)

lemma aip_remove_all_ok:
  assumes "radix_ok rx ents" "wg_aip_remove_all rx i s = Some t"
  shows "if_ok cv ents s t"
proof -
  obtain u where u: "each_opt (remove_aip rx AF_INET i) (w_aips (sc_peer s i)) s = Some u"
    "each_opt (remove_aip rx AF_INET6 i) (w_aips (sc_peer u i)) u = Some t"
    using assms(2) by (auto simp: wg_aip_remove_all_def bind_eq_Some_conv split: if_splits)
  have "if_ok cv ents s u" by (rule each_ok [OF _ if_ok_refl u(1)]) (rule remove_aip_ok [OF assms(1)])
  also have "if_ok cv ents u t" by (rule each_ok [OF _ if_ok_refl u(2)]) (rule remove_aip_ok [OF assms(1)])
  finally show ?thesis .
qed

lemma same_aip [simp]:
  "same_packets u (s\<lparr>sc_aip := q\<rparr>) = same_packets u s" "same_packets u (s\<lparr>sc_next_aip := n\<rparr>) = same_packets u s"
  by (simp_all add: same_packets_def)

lemma aip_add_ok:
  assumes "radix_ok rx ents" "i < sc_next_peer s"
  shows "if_ok cv ents s (snd (wg_aip_add rx i f baddr cidr s))"
proof -
  obtain addr msk where am: "wg_aip_addrinfo rx f baddr cidr = (addr, msk)" by fastforce
  let ?s = "s\<lparr>sc_next_aip := sc_next_aip s + 1\<rparr>"
  obtain b rt where ad: "rnh_addaddr rx addr msk (sc_next_aip s) (aip_root f ?s) = (b, rt)" by fastforce
  let ?t = "set_aip_root f rt ?s"
  note ent = add_entries [OF assms(1) ad]
  show ?thesis
  proof (cases b)
    case True
    let ?u = "link_aip (sc_next_aip s) i (?t\<lparr>sc_aip := (sc_aip ?t)(sc_next_aip s := \<lparr>a_addr = addr, a_mask = msk, a_peer = i, a_af = f\<rparr>)\<rparr>)"
    have "snd (wg_aip_add rx i f baddr cidr s) = ?u" using True by (simp add: wg_aip_add_def am ad [simplified] Let_def)
    moreover have "aips_ok ents ?u" if "if_base cv ents s" using ent that assms(2) True
      unfolding aips_ok_def link_aip_def if_base_def by (auto simp: less_Suc_eq split: if_splits)
    ultimately show ?thesis by (auto intro!: conf_ok_step simp: link_aip_def)
  next
    case False
    have ok: "aips_ok ents ?t" if "if_base cv ents s"
      using ent that False unfolding aips_ok_def if_base_def by (force simp: less_Suc_eq split: if_splits)
    show ?thesis
    proof (cases "rnh_lookup rx addr msk rt")
      case None
      then have "snd (wg_aip_add rx i f baddr cidr s) = ?t" using False by (simp add: wg_aip_add_def am ad [simplified] Let_def)
      then show ?thesis using ok by (auto intro!: conf_ok_step)
    next
      case (Some y)
      let ?j = "a_peer (sc_aip s y)"
      let ?u = "link_aip y i ((unlink_aip y ?j ?t)\<lparr>sc_aip := (sc_aip ?t)(y := (sc_aip ?t y)\<lparr>a_peer := i\<rparr>)\<rparr>)"
      have "snd (wg_aip_add rx i f baddr cidr s) = (if ?j \<noteq> i then ?u else ?t)"
        using False Some by (simp add: wg_aip_add_def am ad [simplified] Let_def)
      moreover have "aips_ok ents ?u" if "if_base cv ents s"
        using ok [OF that] assms(2) unfolding aips_ok_def link_aip_def unlink_aip_def by auto
      ultimately show ?thesis using ok by (auto intro!: conf_ok_step simp: link_aip_def unlink_aip_def)
    qed
  qed
qed


subsection \<open>Peers\<close>

lemma run_config:
  "run cv l (noise_remote_free r c l)" "run cv l (noise_local_private cv key l)" "run cv l (snd (noise_remote_lookup l pk))"
  by (auto intro!: run_same_ts noise_step.intros ts_free ts_local_private)
    (cases "noise_remote_lookup l pk", cases "fst (noise_remote_lookup l pk)", auto simp: same_ts_def dest: lookup_ref)

lemma local_ok: "run cv (sc_local s) l \<Longrightarrow> if_ok cv ents s (s\<lparr>sc_local := l\<rparr>)"
  by (rule frame_ok_same) (simp_all add: frame_set_local if_frame_refl)

lemma upd_local_ok: "run cv (sc_local s) (f (sc_local s)) \<Longrightarrow> if_ok cv ents s (upd_local f s)"
  unfolding upd_local_def by (rule local_ok)

lemma peer_destroy_ok:
  assumes "radix_ok rx ents" "wg_peer_destroy rx i s = Some t"
  shows "if_ok cv ents s t"
proof -
  let ?s = "wg_timers_disable i (upd_local (noise_remote_disable (w_remote (sc_peer s i))) s)"
  obtain u where u: "wg_aip_remove_all rx i ?s = Some u"
    "t = upd_local (noise_remote_free (w_remote (sc_peer u i)) True)
      (u\<lparr>sc_peers_num := sc_peers_num u - 1, sc_peers := remove1 i (sc_peers u)\<rparr>)"
    using assms(2) by (auto simp: wg_peer_destroy_def Let_def)
  have "if_ok cv ents s ?s" by (rule frame_ok_same) (auto intro!: frame_intros frame_upd_local)
  also have "if_ok cv ents ?s u" by (rule aip_remove_all_ok [OF assms(1) u(1)])
  also have "if_ok cv ents u (u\<lparr>sc_peers_num := sc_peers_num u - 1, sc_peers := remove1 i (sc_peers u)\<rparr>)"
    by (rule conf_ok_step) (auto simp: same_packets_def if_base_def aips_ok_def dest: in_set_remove1 [THEN iffD1, rotated] set_mp [OF set_remove1_subset])
  also have "if_ok cv ents \<dots> t" unfolding u(2) by (rule upd_local_ok) (rule run_config)
  finally show ?thesis .
qed

lemma peer_destroy_all_ok:
  assumes "radix_ok rx ents" "wg_peer_destroy_all rx s = Some t"
  shows "if_ok cv ents s t"
  by (rule each_ok [OF _ if_ok_refl assms(2) [unfolded wg_peer_destroy_all_def]]) (rule peer_destroy_ok [OF assms(1)])

lemma owns_grow:
  assumes "owns H E D s" "sc_queue t = sc_queue s" "sc_pkt t = sc_pkt s" "sc_next_pkt t = sc_next_pkt s" "sc_next_peer s \<le> sc_next_peer t"
  shows "owns H E D t"
proof -
  obtain loc where o: "queues_ok s" "placed loc s" "working Encrypt_parallel Encrypt_serial E loc s"
    "working Decrypt_parallel Decrypt_serial D loc s" "{p. loc p = Some Hand} = H"
    using assms(1) by (auto simp: owns_def)
  have "\<forall>p q. loc p = Some (Queued q) \<longrightarrow> home q \<and> (\<forall>i. queue_peer q = Some i \<longrightarrow> i < sc_next_peer t)"
    using o(2) assms(5) unfolding placed_def by (meson less_le_trans)
  then have "placed loc t" using o(2) assms(2-4) by (simp add: placed_def)
  moreover have "working Encrypt_parallel Encrypt_serial E loc t" "working Decrypt_parallel Decrypt_serial D loc t"
    using o(3,4) assms(2,3) by (simp_all add: working_def)
  moreover note o(5)
  moreover have "queues_ok t" using o(1) assms(2) by (simp add: queues_ok_def)
  ultimately show ?thesis by (rule ownsI)
qed

text \<open>The queues of a peer that is new are empty before they are initialized.\<close>

lemma owns_init_queue:
  assumes "owns H E D s" "home q" "queue_peer q = Some i" "sc_next_peer s \<le> i"
  shows "upd_queue q (\<lambda>_. wg_queue_init) s = s"
proof -
  obtain loc where o: "queues_ok s" "placed loc s" using assms(1) by (auto simp: owns_def)
  have "held s q = []"
  proof (rule ccontr)
    assume "held s q \<noteq> []"
    then obtain p where "p \<in> set (held s q)" using list.set_intros(1) by (cases "held s q") auto
    then have "loc p = Some (Queued q)" using o(2) assms(2) unfolding placed_def by blast
    then show False using o(2) assms(3,4) unfolding placed_def by (metis not_le)
  qed
  then have "sc_queue s q = wg_queue_init" using o(1) by (simp add: queues_ok_def wg_queue_init_def)
  then show ?thesis by (simp add: upd_queue_def fun_upd_idem)
qed

lemma owns_init_peer:
  assumes "owns H E D s" "sc_next_peer s = i" "\<And>q. sc_queue t q = (if queue_peer q = Some i \<and> home q then wg_queue_init else sc_queue s q)"
    "sc_pkt t = sc_pkt s" "sc_next_pkt t = sc_next_pkt s" "sc_next_peer s \<le> sc_next_peer t"
  shows "owns H E D t"
proof (rule owns_grow [OF assms(1) _ assms(4-6)])
  have "sc_queue s q = wg_queue_init" if "queue_peer q = Some i" "home q" for q
    using owns_init_queue [OF assms(1) that(2,1)] assms(2) by (metis order_refl sc_queue_upd)
  then show "sc_queue t = sc_queue s" using assms(3) by (auto simp: fun_eq_iff)
qed

lemma noise_new_remote:
  assumes "noise_reach cv l" "windows_ok l" "noise_remote_alloc cv l i pub = (r, l1)" "noise_remote_enable r l1 = (err, l2)"
  shows "noise_reach cv l2" "windows_ok l2" "windows_grow l l2" "next_remote l2 = Suc (next_remote l)" "r = next_remote l"
    "\<And>x. noise_remote_arg l2 x = (if x = r then i else noise_remote_arg l x)" "next_keypair l2 = next_keypair l"
proof -
  note a = remote_alloc_result [OF assms(3)]
  have s1: "noise_step cv l l1" using noise_step.intros(5) [of cv l i pub] assms(3) by simp
  have s2: "noise_step cv l1 l2" using noise_step.intros(6) [of r l1 cv] a(1,2) assms(4) by simp
  have steps: "(noise_step cv)\<^sup>*\<^sup>* l l2" using s1 s2 by auto
  show "noise_reach cv l2" using steps_reach [OF steps assms(1)] .
  show "windows_ok l2" "windows_grow l l2" using steps_windows [OF steps] assms(2) by auto
  have en: "next_remote l2 = next_remote l1" "\<And>x. r_arg (remotes l2 x) = r_arg (remotes l1 x)" "next_keypair l2 = next_keypair l1"
    using assms(4) by (auto simp: noise_remote_enable_def Let_def split: if_splits)
  show "next_remote l2 = Suc (next_remote l)" "r = next_remote l" using a en by simp_all
  show "noise_remote_arg l2 x = (if x = r then i else noise_remote_arg l x)" for x using a en by (simp add: noise_remote_arg_def)
  show "next_keypair l2 = next_keypair l"
    using en(3) assms(3) by (auto simp: noise_remote_alloc_def Let_def noise_precompute_ss_def noise_local_ref_def split: prod.splits)
qed

lemma timers_enable_ok:
  "wg_timers_enable cv env i s = Some t \<Longrightarrow> i < sc_next_peer s \<Longrightarrow> if_ok cv ents s t"
  by (rule frame_ok_step) (auto intro: frame_timers_enable if_frame_refl owns_timers_enable simp: if_base_def)

lemma peer_create_ok:
  assumes "wg_peer_create cv env pub s = Some (p, t)"
  shows "if_ok cv ents s t" "if_base cv ents s \<Longrightarrow> p = Inr i \<Longrightarrow> i < sc_next_peer t"
proof -
  let ?i = "sc_next_peer s"
  obtain r l1 where al: "noise_remote_alloc cv (sc_local s) ?i pub = (r, l1)" by fastforce
  obtain err l2 where en: "noise_remote_enable r l1 = (err, l2)" by fastforce
  let ?s = "(upd_w ?i (\<lambda>_. new_peer r pub) (s\<lparr>sc_next_peer := ?i + 1\<rparr>))\<lparr>sc_local := l2\<rparr>"
  let ?q = "upd_queue (Decrypt_serial ?i) (\<lambda>_. wg_queue_init) (upd_queue (Encrypt_serial ?i) (\<lambda>_. wg_queue_init)
    (upd_queue (Stage ?i) (\<lambda>_. wg_queue_init) ?s))"
  let ?u = "?q\<lparr>sc_peers := sc_peers ?q @ [?i], sc_peers_num := sc_peers_num ?q + 1\<rparr>"
  have base: "if_base cv ents ?s" if b: "if_base cv ents s"
  proof -
    have l: "noise_reach cv (sc_local s)" "windows_ok (sc_local s)" using b by (simp_all add: if_base_def if_links_def)
    note n = noise_new_remote [OF l al en]
    have w: "w_remote (sc_peer ?s j) = (if j = ?i then r else w_remote (sc_peer s j))" for j by (simp add: upd_w_def new_peer_def)
    have "if_links cv ?s" using b n(1,4-6) by (auto simp: if_links_def if_base_def new_peer_def upd_w_def less_Suc_eq)
    then show ?thesis using b n(2,7)
      by (auto simp: if_base_def keypairs_ok_def aips_ok_def upd_w_def less_Suc_eq)
  qed
  have step: "if_ok cv ents s ?s"
    unfolding if_ok_def
  proof (intro impI conjI allI)
    assume b: "if_base cv ents s"
    show "if_base cv ents ?s" using base [OF b] .
    have l: "noise_reach cv (sc_local s)" "windows_ok (sc_local s)" using b by (simp_all add: if_base_def if_links_def)
    show "windows_grow (sc_local s) (sc_local ?s)" using noise_new_remote(3) [OF l al en] by simp
    show "sc_next_peer s \<le> sc_next_peer ?s" by (simp add: upd_w_def)
    show "owns H E D ?s" if "owns H E D s" for H E D by (rule owns_grow [OF that]) (simp_all add: upd_w_def)
  qed
  have queues: "if_ok cv ents s ?u"
    unfolding if_ok_def
  proof (intro impI conjI allI)
    assume b: "if_base cv ents s"
    then show "if_base cv ents ?u" using base [OF b] by (auto simp: if_base_def if_links_def keypairs_ok_def aips_ok_def upd_queue_def upd_w_def)
    show "sc_next_peer s \<le> sc_next_peer ?u" by (simp add: upd_queue_def upd_w_def)
    show "windows_grow (sc_local s) (sc_local ?u)" using step b by (simp add: if_ok_def upd_queue_def)
    show "owns H E D ?u" if "owns H E D s" for H E D
    proof (rule owns_init_peer [OF that refl])
      show "sc_queue ?u q = (if queue_peer q = Some ?i \<and> home q then wg_queue_init else sc_queue s q)" for q
        by (cases q) (auto simp: upd_queue_def upd_w_def)
    qed (simp_all add: upd_queue_def upd_w_def)
  qed
  have res: "(err \<noteq> OK \<and> p = Inl err \<and> t = upd_local (noise_remote_free r False) ?s) \<or>
      (err = OK \<and> p = Inr ?i \<and> (if sc_link_up ?u then wg_timers_enable cv env ?i ?u = Some t else t = ?u))"
    using assms by (auto simp: wg_peer_create_def Let_def al en split: if_splits)
  have ni: "?i < sc_next_peer ?u" by (simp add: upd_queue_def upd_w_def)
  show ok: "if_ok cv ents s t"
  proof (cases "err = OK")
    case True
    then show ?thesis using res if_ok_trans [OF queues timers_enable_ok [OF _ ni]] queues by (auto split: if_splits)
  next
    case False
    then have t: "t = upd_local (noise_remote_free r False) ?s" using res by blast
    have "if_ok cv ents ?s t" unfolding t by (rule upd_local_ok) (rule run_config)
    then show ?thesis by (rule if_ok_trans [OF step])
  qed
  show "i < sc_next_peer t" if b: "if_base cv ents s" and p: "p = Inr i"
  proof -
    have i: "i = ?i" and t: "if sc_link_up ?u then wg_timers_enable cv env ?i ?u = Some t else t = ?u" using res p by auto
    have "if_ok cv ents ?u t" using t timers_enable_ok [OF _ ni] by (auto split: if_splits)
    moreover have "if_base cv ents ?u" using queues b by (simp add: if_ok_def)
    ultimately show ?thesis using ni i by (auto simp: if_ok_def)
  qed
qed

end
