(* ===== verification/IfReach.thy ===== *)
theory IfReach
  imports IfInv
begin

text \<open>
  The interface of \<^verbatim>\<open>src/if_wg.c\<close> as a transition system: every request keeps the invariant of \<open>IfInv\<close>, and so does every
  step of \<open>if_step\<close>, in which a packet that a worker encrypts or decrypts is in its hands from one step to a later one, so
  that the workers of all processors, the tasks of all peers and the system calls interleave.
\<close>

subsection \<open>Requests\<close>

lemma if_okI: "(if_base cv ents s \<Longrightarrow> if_ok cv ents s t) \<Longrightarrow> if_ok cv ents s t"
  by (auto simp: if_ok_def)

lemma if_ok_then:
  assumes "if_ok cv ents s u" "if_base cv ents u \<Longrightarrow> sc_next_peer s \<le> sc_next_peer u \<Longrightarrow> if_ok cv ents u t"
  shows "if_ok cv ents s t"
proof (rule if_okI)
  assume "if_base cv ents s"
  then have "if_base cv ents u" "sc_next_peer s \<le> sc_next_peer u" using assms(1) by (auto simp: if_ok_def)
  then show "if_ok cv ents s t" using if_ok_trans [OF assms(1)] assms(2) by blast
qed

lemma run_psk [simp]: "run cv l (noise_remote_set_psk r psk l)"
  by (rule run_step, rule noise_step.intros(14)) (simp add: noise_remote_set_psk_def split: option.split)

lemma base_noise: "if_base cv ents s \<Longrightarrow> noise_inv (sc_local s)"
  using noise_reach_inv by (auto simp: if_base_def if_links_def)

lemma lookup_peer:
  assumes "if_base cv ents s" "noise_remote_lookup (sc_local s) pk = (Some r, l)"
  shows "noise_remote_arg l r < sc_next_peer s"
  using lookup_inserted(1) [OF base_noise [OF assms(1)] assms(2)] lookup_ref(1) [OF assms(2)] assms(1)
  by (simp add: if_base_def if_links_def noise_remote_arg_def noise_remote_ref_def)

lemma lookup_ok: "noise_remote_lookup (sc_local s) pk = (ro, l) \<Longrightarrow> if_ok cv ents s (s\<lparr>sc_local := l\<rparr>)"
  using run_config(3) [of cv "sc_local s" pk] by (intro local_ok) simp

lemma upd_w_ok: "(\<And>w. w_remote (f w) = w_remote w) \<Longrightarrow> if_ok cv ents s (upd_w i f s)"
  by (rule frame_ok_same) (auto intro: frame_upd_w if_frame_refl)

lemma allowed_ips_ok:
  "radix_ok rx ents \<Longrightarrow> i < sc_next_peer s \<Longrightarrow> if_ok cv ents s (snd (set_allowed_ips rx i as s))"
proof (induction as arbitrary: s)
  case (Cons a as)
  note dels = aip_del_ok [OF Cons.prems(1)] and adds = aip_add_ok [OF Cons.prems]
  have step: "if_ok cv ents s (snd (case (if rm then wg_aip_del rx i f addr cidr s else wg_aip_add rx i f addr cidr s) of
      (err, sc) \<Rightarrow> if err \<noteq> OK then (err, sc) else set_allowed_ips rx i as sc))" for rm f addr cidr
  proof -
    obtain err u where u: "(if rm then wg_aip_del rx i f addr cidr s else wg_aip_add rx i f addr cidr s) = (err, u)" by fastforce
    have 1: "if_ok cv ents s u"
      using dels [of cv s i f addr cidr] adds [of cv f addr cidr] u by (auto split: if_splits)
    have "if_ok cv ents s (snd (set_allowed_ips rx i as u))"
      by (rule if_ok_then [OF 1]) (use Cons.IH [OF Cons.prems(1)] Cons.prems(2) in simp)
    then show ?thesis using 1 u by simp
  qed
  show ?case using step Cons.IH [OF Cons.prems] by (auto split: sum.split option.split)
qed simp

lemma keepalive_ok:
  "wg_timers_set_persistent_keepalive cv env i pki s = Some t \<Longrightarrow> i < sc_next_peer s \<Longrightarrow> if_ok cv ents s t"
  by (rule frame_ok_step) (auto intro: frame_set_keepalive if_frame_refl owns_set_keepalive simp: if_base_def)

lemma settings_ok:
  assumes "radix_ok rx ents" "peer_settings cv rx env nvl i s = Some (e, t)" "i < sc_next_peer s"
  shows "if_ok cv ents s t"
proof -
  let ?e = "case np_endpoint nvl of None \<Rightarrow> s | Some (sa, _) \<Rightarrow> upd_w i (\<lambda>w. w\<lparr>w_endpoint := (w_endpoint w)\<lparr>ep_remote := sa\<rparr>\<rparr>) s"
  let ?k = "case np_preshared_key nvl of None \<Rightarrow> ?e | Some k \<Rightarrow> upd_local (noise_remote_set_psk (w_remote (sc_peer ?e i)) (Some k)) ?e"
  define fin where "fin = (\<lambda>u. case np_allowed_ips nvl of None \<Rightarrow> (OK, u) | Some as \<Rightarrow> set_allowed_ips rx i as u)"
  have e: "if_ok cv ents s ?e" by (auto intro!: upd_w_ok split: option.split)
  have k: "if_ok cv ents s ?k"
    by (rule if_ok_trans [OF e]) (auto intro: upd_local_ok split: option.split)
  have fin: "if_ok cv ents u (snd (fin u))" if "sc_next_peer s \<le> sc_next_peer u" for u
    using allowed_ips_ok [OF assms(1), of i u cv] assms(3) that by (auto simp: fin_def split: option.split)
  have np: "sc_next_peer ?e = sc_next_peer s" "sc_next_peer ?k = sc_next_peer s"
    by (auto simp: upd_local_def split: option.split)
  have fin_eq: "(case np_allowed_ips nvl of None \<Rightarrow> (OK, u) | Some as \<Rightarrow> set_allowed_ips rx i as u) = fin u" for u
    by (simp add: fin_def)
  have 4: "if_ok cv ents s t" if "fin ?k = (e, t)" using if_ok_trans [OF k fin [of ?k]] np that by simp
  have 5: "if_ok cv ents s t" if "wg_timers_set_persistent_keepalive cv env i n ?k = Some u" "fin u = (e, t)" for n u
  proof -
    have "if_ok cv ents ?k u" using keepalive_ok [OF that(1)] assms(3) np by simp
    then have "if_ok cv ents ?k t" by (rule if_ok_then) (use fin [of u] that(2) np in simp)
    then show ?thesis by (rule if_ok_trans [OF k])
  qed
  show ?thesis
    using assms(2) e k 4 5 unfolding peer_settings_def Let_def fin_eq
    by (cases "np_persistent_keepalive_interval nvl") (auto simp del: split_paired_All split: if_split_asm)
qed

text \<open>Fields that the invariant does not read.\<close>

lemma field_ok:
  assumes "sc_local t = sc_local s" "sc_queue t = sc_queue s" "sc_pkt t = sc_pkt s" "sc_next_pkt t = sc_next_pkt s"
    "sc_next_peer t = sc_next_peer s" "sc_peer t = sc_peer s" "sc_peers t = sc_peers s" "sc_aip4 t = sc_aip4 s" "sc_aip6 t = sc_aip6 s"
    "sc_aip t = sc_aip s" "sc_next_aip t = sc_next_aip s"
  shows "if_ok cv ents s t"
  by (rule conf_ok_step) (use assms in \<open>simp_all add: same_packets_def if_base_def aips_ok_def\<close>)

lemma put_remote_ok: "if_ok cv ents s (put_remote r s)"
  by (auto simp: put_remote_def intro: upd_local_ok split: option.split)

lemma peer_change_ok:
  assumes "radix_ok rx ents" "peer_change cv rx env nvl r i s = Some (e, t)" "i < sc_next_peer s"
  shows "if_ok cv ents s t"
proof -
  obtain u v where u: "(if np_replace_allowedips nvl = Some True then wg_aip_remove_all rx i s else Some s) = Some u"
    "peer_settings cv rx env nvl i u = Some (e, v)" "t = put_remote (Some r) v"
    using assms(2) by (auto simp: peer_change_def bind_eq_Some_conv)
  have "if_ok cv ents s u" using u(1) aip_remove_all_ok [OF assms(1)] by (auto split: if_splits)
  then show ?thesis
  proof (rule if_ok_then)
    assume "sc_next_peer s \<le> sc_next_peer u"
    then have "if_ok cv ents u v" using settings_ok [OF assms(1) u(2)] assms(3) by simp
    then show "if_ok cv ents u t" unfolding u(3) using if_ok_trans put_remote_ok by blast
  qed
qed

lemma peer_new_ok:
  assumes "radix_ok rx ents" "peer_new cv rx env nvl pub s = Some (e, t)"
  shows "if_ok cv ents s t"
proof (rule if_okI)
  assume b: "if_base cv ents s"
  obtain p u where p: "wg_peer_create cv env pub s = Some (p, u)" using assms(2) by (auto simp: peer_new_def bind_eq_Some_conv)
  have u: "if_ok cv ents s u" by (rule peer_create_ok(1) [OF p])
  show "if_ok cv ents s t"
  proof (cases p)
    case (Inl err)
    then show ?thesis using assms(2) p u by (auto simp: peer_new_def)
  next
    case (Inr i)
    obtain err v where v: "peer_settings cv rx env nvl i u = Some (err, v)"
      "if err \<noteq> OK then wg_peer_destroy rx i v = Some t else t = v"
      using assms(2) p Inr by (auto simp: peer_new_def bind_eq_Some_conv split: if_splits)
    have "if_ok cv ents u v" by (rule settings_ok [OF assms(1) v(1) peer_create_ok(2) [OF p b Inr]])
    moreover have "if_ok cv ents v t" using v(2) peer_destroy_ok [OF assms(1)] by (auto split: if_splits)
    ultimately show ?thesis using u if_ok_trans by blast
  qed
qed

lemma peer_add_ok:
  assumes "radix_ok rx ents" "wg_peer_add cv rx env nvl s = Some (e, t)"
  shows "if_ok cv ents s t"
proof (rule if_okI)
  assume b: "if_base cv ents s"
  show "if_ok cv ents s t"
  proof (cases "np_public_key nvl")
    case None
    then show ?thesis using assms(2) by (simp add: wg_peer_add_def)
  next
    case (Some pub)
    obtain ro l where lk: "noise_remote_lookup (sc_local s) pub = (ro, l)" by fastforce
    let ?s = "s\<lparr>sc_local := l\<rparr>"
    have s: "if_ok cv ents s ?s" by (rule lookup_ok [OF lk])
    have destroy: "if_ok cv ents s (put_remote ro u)" if "wg_peer_destroy rx i ?s = Some u" for i u
      using if_ok_trans [OF s if_ok_trans [OF peer_destroy_ok [OF assms(1) that] put_remote_ok]] .
    have change: "if_ok cv ents s u" if "ro = Some r" "peer_change cv rx env nvl r (noise_remote_arg l r) ?s = Some (e, u)" for r u
      using if_ok_trans [OF s peer_change_ok [OF assms(1) that(2)]] lookup_peer [OF b lk [unfolded that(1)]] by simp
    have new: "if_ok cv ents s u" if "peer_new cv rx env nvl pub ?s = Some (e, u)" for u
      using if_ok_trans [OF s peer_new_ok [OF assms(1) that]] .
    show ?thesis using assms(2) s destroy change new
      by (cases ro) (auto simp: wg_peer_add_def Some lk Let_def split: if_splits)
  qed
qed

lemma add_peers_ok: "radix_ok rx ents \<Longrightarrow> add_peers cv rx env nvls s = Some (e, t) \<Longrightarrow> if_ok cv ents s t"
proof (induction nvls arbitrary: s)
  case (Cons nvl nvls)
  obtain err u where u: "wg_peer_add cv rx env nvl s = Some (err, u)" using Cons.prems(2) by (auto simp: bind_eq_Some_conv)
  note 1 = peer_add_ok [OF Cons.prems(1) u]
  then show ?case using Cons.IH [OF Cons.prems(1), THEN if_ok_trans [OF 1]] Cons.prems(2) u by (auto split: if_splits)
qed simp

lemma socket_ok:
  "if_ok cv ents s (snd (wg_socket_init se port s))" "if_ok cv ents s (snd (set_listen_port se lp s))"
  "if_ok cv ents s (snd (set_user_cookie se ck s))" "if_ok cv ents s (snd (wg_socket_set_fibnum se fib s))"
proof -
  show 1: "if_ok cv ents s (snd (wg_socket_init se port s))" for port
    by (rule field_ok) (auto simp: wg_socket_init_def Let_def wg_socket_set_def split: sum.split)
  show "if_ok cv ents s (snd (set_listen_port se lp s))"
    using 1 by (auto simp: set_listen_port_def intro: field_ok split: option.split)
  show "if_ok cv ents s (snd (set_user_cookie se ck s))"
    by (rule field_ok) (auto simp: set_user_cookie_def wg_socket_set_cookie_def Let_def split: option.split)
  show "if_ok cv ents s (snd (wg_socket_set_fibnum se fib s))"
    by (rule field_ok) (auto simp: wg_socket_set_fibnum_def Let_def)
qed

lemma private_key_ok:
  assumes "radix_ok rx ents" "set_private_key cv rx key s = Some (e, t)"
  shows "if_ok cv ents s t"
proof -
  have final: "if_ok cv ents u ((upd_local (noise_local_private cv k) u)\<lparr>sc_cookie := cc\<rparr>)" for u k cc
    by (rule if_ok_trans [OF upd_local_ok field_ok]) (simp_all add: run_config)
  show ?thesis
  proof (cases key)
    case None
    then show ?thesis using assms(2) by (simp add: set_private_key_def)
  next
    case (Some k)
    obtain public ok where pub: "c_pub cv k = (public, ok)" by fastforce
    obtain ro l where lk: "noise_remote_lookup (sc_local s) public = (ro, l)" by fastforce
    note s = lookup_ok [OF lk, of cv ents]
    have "if_ok cv ents s (put_remote ro u)" if "wg_peer_destroy rx i (s\<lparr>sc_local := l\<rparr>) = Some u" for i u
      using if_ok_trans [OF s if_ok_trans [OF peer_destroy_ok [OF assms(1) that] put_remote_ok]] .
    note destroyed = if_ok_trans [OF this final]
    show ?thesis using assms(2) destroyed if_ok_trans [OF s final] final
      by (cases ro) (auto simp: set_private_key_def Some pub lk Let_def split: if_splits)
  qed
qed

lemma after_ok_step:
  assumes "after_ok x f = Some (e, t)" "\<And>err u. x = Some (err, u) \<Longrightarrow> if_ok cv ents s u"
    "\<And>u. f u = Some (e, t) \<Longrightarrow> if_ok cv ents u t"
  shows "if_ok cv ents s t"
proof -
  obtain err u where u: "x = Some (err, u)" "if err \<noteq> OK then e = err \<and> t = u else f u = Some (e, t)"
    using assms(1) by (auto simp: after_ok_def bind_eq_Some_conv split: if_splits)
  then show ?thesis using assms(2) [OF u(1)] assms(3) [of u] if_ok_trans [of cv ents s u t] by (auto split: if_splits)
qed

lemma set_locked_ok:
  assumes "radix_ok rx ents" "wgc_set_locked cv rx env se nvl s = Some (e, t)"
  shows "if_ok cv ents s t"
  using assms(2) unfolding wgc_set_locked_def
proof (rule after_ok_step)
  fix err u
  assume "map_option (Pair OK) (if ns_replace_peers nvl = Some True then wg_peer_destroy_all rx s else Some s) = Some (err, u)"
  then show "if_ok cv ents s u" using peer_destroy_all_ok [OF assms(1)] by (auto split: if_splits)
next
  fix s
  assume "after_ok (Some (set_listen_port se (ns_listen_port nvl) s)) (\<lambda>sc. after_ok (set_private_key cv rx (ns_private_key nvl) sc)
    (\<lambda>sc. after_ok (Some (set_user_cookie se (ns_user_cookie nvl) sc))
       (\<lambda>sc. case ns_peers nvl of None \<Rightarrow> Some (OK, sc) | Some peers \<Rightarrow> add_peers cv rx env peers sc))) = Some (e, t)"
  then show "if_ok cv ents s t"
  proof (rule after_ok_step)
    show "if_ok cv ents s u" if "Some (set_listen_port se (ns_listen_port nvl) s) = Some (err, u)" for err u
      using socket_ok(2) [of cv ents s se "ns_listen_port nvl"] that by simp
  next
    fix s
    assume "after_ok (set_private_key cv rx (ns_private_key nvl) s) (\<lambda>sc. after_ok (Some (set_user_cookie se (ns_user_cookie nvl) sc))
         (\<lambda>sc. case ns_peers nvl of None \<Rightarrow> Some (OK, sc) | Some peers \<Rightarrow> add_peers cv rx env peers sc)) = Some (e, t)"
    then show "if_ok cv ents s t"
    proof (rule after_ok_step)
      show "if_ok cv ents s u" if "set_private_key cv rx (ns_private_key nvl) s = Some (err, u)" for err u
        by (rule private_key_ok [OF assms(1) that])
    next
      fix s
      assume "after_ok (Some (set_user_cookie se (ns_user_cookie nvl) s))
         (\<lambda>sc. case ns_peers nvl of None \<Rightarrow> Some (OK, sc) | Some peers \<Rightarrow> add_peers cv rx env peers sc) = Some (e, t)"
      then show "if_ok cv ents s t"
      proof (rule after_ok_step)
        show "if_ok cv ents s u" if "Some (set_user_cookie se (ns_user_cookie nvl) s) = Some (err, u)" for err u
          using socket_ok(3) [of cv ents s se "ns_user_cookie nvl"] that by simp
        show "if_ok cv ents u t"
          if "(case ns_peers nvl of None \<Rightarrow> Some (OK, u) | Some peers \<Rightarrow> add_peers cv rx env peers u) = Some (e, t)" for u
          using that add_peers_ok [OF assms(1)] by (auto split: option.splits)
      qed
    qed
  qed
qed

lemma wgc_set_ok: "radix_ok rx ents \<Longrightarrow> wgc_set cv rx env se wgd s = Some (e, t) \<Longrightarrow> if_ok cv ents s t"
  using set_locked_ok by (auto simp: wgc_set_def split: if_splits option.splits)

lemma wg_up_ok:
  assumes "wg_up cv env se s = Some (e, t)"
  shows "if_ok cv ents s t"
proof (rule if_okI)
  assume b: "if_base cv ents s"
  obtain rc u where u: "wg_socket_init se (so_port (sc_socket s)) (s\<lparr>sc_running := True\<rparr>) = (rc, u)" by fastforce
  have "if_ok cv ents s (s\<lparr>sc_running := True\<rparr>)" by (rule field_ok) simp_all
  also have "if_ok cv ents \<dots> u" using socket_ok(1) [of cv ents "s\<lparr>sc_running := True\<rparr>" se] u by (metis snd_conv)
  finally have 1: "if_ok cv ents s u" .
  have peers: "sc_peers u = sc_peers s"
    using u by (auto simp: wg_socket_init_def Let_def wg_socket_set_def split: if_splits sum.splits)
  have 2: "if_ok cv ents s v" if "each_opt (wg_timers_enable cv env) (sc_peers u) u = Some v" for v
  proof (rule each_ok [OF _ 1 that])
    fix i a c assume i: "i \<in> set (sc_peers u)" "if_ok cv ents s a" "wg_timers_enable cv env i a = Some c"
    then show "if_ok cv ents a c" using timers_enable_ok [OF i(3)] base_peer [OF b _ i(2)] peers by simp
  qed
  have 3: "if_ok cv ents v (v\<lparr>sc_link_up := True\<rparr>)" "if_ok cv ents v (v\<lparr>sc_running := False\<rparr>)" for v
    by (rule field_ok; simp)+
  show "if_ok cv ents s t"
    using assms u if_ok_trans [OF 1 3(2)] if_ok_trans [OF 2 3(1)] by (auto simp: wg_up_def split: if_splits)
qed

lemma fold_ok: "(\<And>x u. if_ok cv ents u (f x u)) \<Longrightarrow> if_ok cv ents s (fold f xs s)"
  by (induction xs arbitrary: s) (auto intro: if_ok_trans)

lemma purge_ok:
  assumes "home q" "\<And>i. q \<noteq> Encrypt_serial i" "\<And>i. q \<noteq> Decrypt_serial i"
  shows "if_ok cv ents s (wg_queue_purge q s)"
  by (rule frame_ok_step [OF frame_purge [OF if_frame_refl]]) (rule owns_purge [OF _ assms])

lemma wg_down_ok: "if_ok cv ents s (wg_down s)"
proof (cases "sc_running s")
  case True
  let ?a = "s\<lparr>sc_running := False\<rparr>"
  let ?b = "wg_queue_purge Handshake_queue (fold stop_peer (sc_peers ?a) ?a)"
  let ?c = "fold clear_peer (sc_peers ?b) ?b"
  have stop: "if_ok cv ents u (stop_peer i u)" for i u
    unfolding stop_peer_def
    by (rule if_ok_trans [OF purge_ok [of "Stage i"]]) (auto intro!: frame_ok_same frame_intros)
  have clear: "if_ok cv ents u (clear_peer i u)" for i u
    unfolding clear_peer_def by (rule upd_local_ok) (rule run_trans [OF run_refs(4) run_refs(5)])
  have "if_ok cv ents s ?a" by (rule field_ok) simp_all
  also have "if_ok cv ents \<dots> (fold stop_peer (sc_peers ?a) ?a)" by (rule fold_ok) (rule stop)
  also have "if_ok cv ents \<dots> ?b" by (rule purge_ok) simp_all
  also have "if_ok cv ents \<dots> ?c" by (rule fold_ok) (rule clear)
  also have "if_ok cv ents \<dots> (wg_socket_uninit (?c\<lparr>sc_link_up := False\<rparr>))"
    by (rule field_ok) (simp_all add: wg_socket_uninit_def wg_socket_set_def)
  finally show ?thesis using True by (simp add: wg_down_def Let_def)
qed (simp add: wg_down_def)

lemma prison_ok: "if_ok cv ents s (wg_prison_remove jailed s)"
  by (auto simp: wg_prison_remove_def wg_socket_uninit_def wg_socket_set_def intro: field_ok)

lemma ioctl_ok:
  assumes "radix_ok rx ents" "wg_ioctl cv rx env se ie req (Some s) = Some (e, reply, Some t)"
  shows "if_ok cv ents s t"
proof -
  have mtu: "if_ok cv ents s (s\<lparr>sc_mtu := n\<rparr>)" for n by (rule field_ok) simp_all
  have fib: "if_ok cv ents s u" if "wg_socket_set_fibnum se n s = (ret, u)" for n ret u
    using socket_ok(4) [of cv ents s se n] that by simp
  show ?thesis
    using assms(2) wgc_set_ok [OF assms(1)] wg_up_ok wg_down_ok mtu fib
    by (cases req) (auto simp: wg_ioctl_def split: if_splits prod.splits)
qed

subsection \<open>Packets out\<close>

lemma lookup_valid_peer:
  assumes "radix_ok rx ents" "aips_ok ents s" "wg_aip_lookup rx f a t = (Some i, u)" "sc_aip t = sc_aip s" "aip_root f t = aip_root f s"
  shows "i < sc_next_peer s"
proof -
  let ?a = "take (case f of AF_INET \<Rightarrow> 4 | AF_INET6 \<Rightarrow> 16) a"
  obtain x where x: "rnh_matchaddr rx ?a (aip_root f t) = Some x" "i = a_peer (sc_aip t x)"
    using assms(3) by (auto simp: wg_aip_lookup_def Let_def split: option.splits)
  have "x \<in> ents (aip_root f s)" using assms(1) x(1) unfolding radix_ok_def assms(5) by blast
  then have "x \<in> ents (sc_aip4 s) \<union> ents (sc_aip6 s)" by (cases f) (auto simp: aip_root_def)
  then show ?thesis using assms(2,4) x(2) by (simp add: aips_ok_def)
qed

lemma xmit_ok:
  assumes "wg_xmit cv rx env m f mtu s = Some (rc, t)" "radix_ok rx ents"
  shows "if_ok cv ents s t"
proof (rule frame_ok_step)
  assume b: "if_base cv ents s"
  show "if_frame cv s t"
    by (rule frame_xmit [OF assms(1) if_frame_refl]) (use lookup_valid_peer [OF assms(2)] b in \<open>auto simp: if_base_def\<close>)
  show "owns H E D t" if "owns H E D s" for H E D
    by (rule owns_xmit [OF assms(1) that]) (use lookup_valid_peer [OF assms(2)] b in \<open>auto simp: if_base_def\<close>)
qed

lemma xmit_err_ok: "if_ok cv ents s (xmit_err m None f s)"
  by (rule frame_ok_step) (auto intro: frame_intros owns_xmit_err)

lemma output_ok: "wg_output cv rx env m fo mtu s = Some (rc, t) \<Longrightarrow> radix_ok rx ents \<Longrightarrow> if_ok cv ents s t"
  using xmit_ok xmit_err_ok
  by (auto simp: wg_output_def split: if_splits prod.splits errno.splits option.splits)

lemma transmit_ok: "wg_transmit cv rx env m s = Some (rc, t) \<Longrightarrow> radix_ok rx ents \<Longrightarrow> if_ok cv ents s t"
  using xmit_ok xmit_err_ok
  by (auto simp: wg_transmit_def split: if_splits prod.splits errno.splits option.splits)

subsection \<open>The transition system\<close>

text \<open>The interface with the packets that its workers have taken and not yet finished.\<close>

record 'r if_system =
  y_sc :: "'r wg_softc"
  y_enc :: "nat set"
  y_dec :: "nat set"

datatype wg_timer = Retry_handshake | Send_keepalive | New_handshake | Zero_key_material | Persistent_keepalive

text \<open>A callout that is pending fires: it is no longer pending when its handler runs.\<close>

fun fire :: "curve \<Rightarrow> if_env \<Rightarrow> wg_timer \<Rightarrow> nat \<Rightarrow> 'r wg_softc \<Rightarrow> 'r wg_softc option" where
  "fire cv env Retry_handshake i sc =
     wg_timers_run_retry_handshake cv env i (upd_w i (\<lambda>w. w\<lparr>w_retry_handshake := None\<rparr>) sc)"
| "fire cv env Send_keepalive i sc =
     wg_timers_run_send_keepalive cv env i (upd_w i (\<lambda>w. w\<lparr>w_send_keepalive := None\<rparr>) sc)"
| "fire cv env New_handshake i sc =
     wg_timers_run_new_handshake cv env i (upd_w i (\<lambda>w. w\<lparr>w_new_handshake := None\<rparr>) sc)"
| "fire cv env Zero_key_material i sc =
     Some (wg_timers_run_zero_key_material i (upd_w i (\<lambda>w. w\<lparr>w_zero_key_material := None\<rparr>) sc))"
| "fire cv env Persistent_keepalive i sc =
     wg_timers_run_persistent_keepalive cv env i (upd_w i (\<lambda>w. w\<lparr>w_persistent_keepalive := None\<rparr>) sc)"

text \<open>One step: a datagram comes in; the handshake task handles a message; a worker takes a packet, or finishes one; a
  delivery task handles a packet, with the endpoint that its loop holds; a timer; a packet to send; a request.\<close>

inductive if_step :: "curve \<Rightarrow> 'r radix \<Rightarrow> 'r if_system \<Rightarrow> 'r if_system \<Rightarrow> bool" for cv rx where
  step_input: "if_step cv rx y (y\<lparr>y_sc := wg_input env dg sa dst (y_sc y)\<rparr>)"
| step_handshake: "wg_queue_dequeue_handshake Handshake_queue (y_sc y) = (Some p, s) \<Longrightarrow> wg_handshake cv env p s = Some t \<Longrightarrow>
     if_step cv rx y (y\<lparr>y_sc := t\<rparr>)"
| step_take_encrypt: "wg_queue_dequeue_parallel Encrypt_parallel (y_sc y) = (Some p, t) \<Longrightarrow>
     if_step cv rx y (y\<lparr>y_sc := t, y_enc := insert p (y_enc y)\<rparr>)"
| step_encrypt: "p \<in> y_enc y \<Longrightarrow> wg_encrypt env p (y_sc y) = Some t \<Longrightarrow>
     if_step cv rx y (y\<lparr>y_sc := t, y_enc := y_enc y - {p}\<rparr>)"
| step_take_decrypt: "wg_queue_dequeue_parallel Decrypt_parallel (y_sc y) = (Some p, t) \<Longrightarrow>
     if_step cv rx y (y\<lparr>y_sc := t, y_dec := insert p (y_dec y)\<rparr>)"
| step_decrypt: "p \<in> y_dec y \<Longrightarrow> wg_decrypt rx env p (y_sc y) = Some t \<Longrightarrow>
     if_step cv rx y (y\<lparr>y_sc := t, y_dec := y_dec y - {p}\<rparr>)"
| step_deliver_out: "wg_queue_dequeue_serial (Encrypt_serial i) (y_sc y) = (Some p, s) \<Longrightarrow>
     deliver_out_packet cv env i p ep s = Some (ep', t) \<Longrightarrow> if_step cv rx y (y\<lparr>y_sc := t\<rparr>)"
| step_deliver_in: "wg_queue_dequeue_serial (Decrypt_serial i) (y_sc y) = (Some p, s) \<Longrightarrow>
     deliver_in_packet cv env i p s = Some t \<Longrightarrow> if_step cv rx y (y\<lparr>y_sc := t\<rparr>)"
| step_timer: "i < sc_next_peer (y_sc y) \<Longrightarrow> fire cv env x i (y_sc y) = Some t \<Longrightarrow> if_step cv rx y (y\<lparr>y_sc := t\<rparr>)"
| step_output: "wg_output cv rx env m f mtu (y_sc y) = Some (ret, t) \<Longrightarrow> if_step cv rx y (y\<lparr>y_sc := t\<rparr>)"
| step_transmit: "wg_transmit cv rx env m (y_sc y) = Some (ret, t) \<Longrightarrow> if_step cv rx y (y\<lparr>y_sc := t\<rparr>)"
| step_ioctl: "wg_ioctl cv rx env se ie req (Some (y_sc y)) = Some (ret, reply, Some t) \<Longrightarrow> if_step cv rx y (y\<lparr>y_sc := t\<rparr>)"
| step_init: "wg_init cv env se (y_sc y) = Some t \<Longrightarrow> if_step cv rx y (y\<lparr>y_sc := t\<rparr>)"
| step_reassign: "if_step cv rx y (y\<lparr>y_sc := wg_reassign (y_sc y)\<rparr>)"
| step_prison: "if_step cv rx y (y\<lparr>y_sc := wg_prison_remove jailed (y_sc y)\<rparr>)"

inductive if_reach :: "curve \<Rightarrow> 'r radix \<Rightarrow> 'r if_system \<Rightarrow> bool" for cv rx where
  created: "wg_clone_create rx hash_key g ncpus fib = Inr s \<Longrightarrow> if_reach cv rx \<lparr>y_sc = s, y_enc = {}, y_dec = {}\<rparr>"
| stepped: "if_reach cv rx y \<Longrightarrow> if_step cv rx y y' \<Longrightarrow> if_reach cv rx y'"

definition if_inv :: "curve \<Rightarrow> ('r \<Rightarrow> nat set) \<Rightarrow> 'r if_system \<Rightarrow> bool" where
  "if_inv cv ents y \<longleftrightarrow> if_base cv ents (y_sc y) \<and> owns {} (y_enc y) (y_dec y) (y_sc y)"

text \<open>A step that leaves the workers alone, and one of a worker.\<close>

lemma inv_ok: "if_inv cv ents y \<Longrightarrow> if_ok cv ents (y_sc y) t \<Longrightarrow> if_inv cv ents (y\<lparr>y_sc := t\<rparr>)"
  by (auto simp: if_inv_def if_ok_def)

lemma fire_ok:
  assumes "fire cv env x i s = Some t" "i < sc_next_peer s"
  shows "if_ok cv ents s t"
proof -
  have fr: "if_frame cv s (upd_w i g s)" if "\<And>w. w_remote (g w) = w_remote w" for g
    using that by (intro frame_upd_w if_frame_refl)
  have b: "if_links cv s" if "if_base cv ents s" using that by (simp add: if_base_def)
  show ?thesis
  proof (cases x)
    case Retry_handshake
    with assms show ?thesis
      by (intro frame_ok_step) (auto intro!: frame_retry_handshake [OF _ fr] b elim: owns_retry_handshake)
  next
    case Send_keepalive
    with assms show ?thesis
      by (intro frame_ok_step) (auto intro!: frame_run_send_keepalive [OF _ fr] b elim: owns_run_send_keepalive)
  next
    case New_handshake
    with assms show ?thesis
      by (intro frame_ok_step) (auto intro!: frame_new_handshake [OF _ fr] b elim: owns_new_handshake)
  next
    case Zero_key_material
    with assms show ?thesis
      by (intro frame_ok_step) (auto intro!: frame_upd_local fr simp: wg_timers_run_zero_key_material_def)
  next
    case Persistent_keepalive
    with assms show ?thesis
      by (intro frame_ok_step) (auto intro!: frame_persistent_keepalive [OF _ fr] b elim: owns_persistent_keepalive)
  qed
qed

lemma take_ok:
  assumes "if_inv cv ents y" "if_frame cv (y_sc y) t" "owns {} E D t"
  shows "if_inv cv ents \<lparr>y_sc = t, y_enc = E, y_dec = D\<rparr>"
  using assms frame_base by (auto simp: if_inv_def)

lemma step_worker:
  assumes "if_inv cv ents y"
  shows "wg_queue_dequeue_parallel Encrypt_parallel (y_sc y) = (Some p, t) \<Longrightarrow> if_inv cv ents (y\<lparr>y_sc := t, y_enc := insert p (y_enc y)\<rparr>)"
    "p \<in> y_enc y \<Longrightarrow> wg_encrypt env p (y_sc y) = Some t \<Longrightarrow> if_inv cv ents (y\<lparr>y_sc := t, y_enc := y_enc y - {p}\<rparr>)"
    "wg_queue_dequeue_parallel Decrypt_parallel (y_sc y) = (Some p, t) \<Longrightarrow> if_inv cv ents (y\<lparr>y_sc := t, y_dec := insert p (y_dec y)\<rparr>)"
    "p \<in> y_dec y \<Longrightarrow> wg_decrypt rx env p (y_sc y) = Some t \<Longrightarrow> if_inv cv ents (y\<lparr>y_sc := t, y_dec := y_dec y - {p}\<rparr>)"
proof -
  have o: "owns {} (y_enc y) (y_dec y) (y_sc y)" using assms by (simp add: if_inv_def)
  have fr: "if_frame cv (y_sc y) u" if "wg_queue_dequeue_parallel q (y_sc y) = (x, u)" for q x u
    using frame_dequeues(3) [OF if_frame_refl, of cv "y_sc y" q] that by simp
  have rec: "y\<lparr>y_sc := t, y_enc := E\<rparr> = \<lparr>y_sc = t, y_enc = E, y_dec = y_dec y\<rparr>"
    "y\<lparr>y_sc := t, y_dec := D\<rparr> = \<lparr>y_sc = t, y_enc = y_enc y, y_dec = D\<rparr>" for E D t by simp_all
  show "wg_queue_dequeue_parallel Encrypt_parallel (y_sc y) = (Some p, t) \<Longrightarrow> if_inv cv ents (y\<lparr>y_sc := t, y_enc := insert p (y_enc y)\<rparr>)"
    unfolding rec by (rule take_ok [OF assms fr]) (auto dest: owns_dequeue_parallel(1) [OF o])
  show "p \<in> y_enc y \<Longrightarrow> wg_encrypt env p (y_sc y) = Some t \<Longrightarrow> if_inv cv ents (y\<lparr>y_sc := t, y_enc := y_enc y - {p}\<rparr>)"
    unfolding rec by (rule take_ok [OF assms frame_encrypt [OF _ if_frame_refl]]) (auto dest: owns_encrypt [OF _ o])
  show "wg_queue_dequeue_parallel Decrypt_parallel (y_sc y) = (Some p, t) \<Longrightarrow> if_inv cv ents (y\<lparr>y_sc := t, y_dec := insert p (y_dec y)\<rparr>)"
    unfolding rec by (rule take_ok [OF assms fr]) (auto dest: owns_dequeue_parallel(2) [OF o])
  show "p \<in> y_dec y \<Longrightarrow> wg_decrypt rx env p (y_sc y) = Some t \<Longrightarrow> if_inv cv ents (y\<lparr>y_sc := t, y_dec := y_dec y - {p}\<rparr>)"
    unfolding rec by (rule take_ok [OF assms frame_decrypt [OF _ if_frame_refl]]) (auto dest: owns_decrypt [OF _ o])
qed

text \<open>The steps that take a packet off a queue and finish with it.\<close>

lemma handshake_ok:
  assumes "wg_queue_dequeue_handshake Handshake_queue s = (Some p, u)" "wg_handshake cv env p u = Some t" "owns {} E D s"
  shows "if_ok cv ents s t"
proof (rule if_okI)
  assume b: "if_base cv ents s"
  have fu: "if_frame cv s u" using frame_dequeues(1) [OF if_frame_refl, of cv s Handshake_queue] assms(1) by simp
  have links: "if_links cv s" "if_links cv u" using b frame_links [OF fu] by (simp_all add: if_base_def)
  obtain pkt where "sc_pkt u p = Some pkt" "packet_ok Handshake_queue pkt" using owns_dequeue_handshake(3) [OF assms(1,3)] by blast
  then have ft: "if_frame cv s t" by (intro frame_handshake [OF assms(2) fu links(1)]) auto
  show "if_ok cv ents s t"
  proof (rule frame_ok_step)
    show "if_frame cv s t" by (rule ft)
    fix H E D assume o: "owns H E D s"
    show "owns H E D t"
      by (rule owns_handshake [OF assms(2) owns_dequeue_handshake(1,2) [OF assms(1) o] links(2)])
  qed
qed

lemma deliver_ok:
  assumes "wg_queue_dequeue_serial q s = (Some p, u)" "q = Encrypt_serial i \<or> q = Decrypt_serial i" "owns {} E D s"
  shows "deliver_out_packet cv env i p ep u = Some (ep', t) \<Longrightarrow> if_ok cv ents s t"
    "deliver_in_packet cv env i p u = Some t \<Longrightarrow> if_ok cv ents s t"
proof -
  have fu: "if_frame cv s u" using frame_dequeues(2) [OF if_frame_refl, of cv s q] assms(1) by simp
  have i: "i < sc_next_peer s" "i < sc_next_peer u" using owns_dequeue_serial(4,6) [OF assms(1,3,2)] by simp_all
  note d = owns_dequeue_serial(1,2) [OF assms(1) _ assms(2)]
  show "if_ok cv ents s t" if "deliver_out_packet cv env i p ep u = Some (ep', t)"
  proof (rule frame_ok_step)
    show "if_frame cv s t" if "if_base cv ents s"
      using frame_deliver_out_packet [OF _ fu i(1)] that \<open>deliver_out_packet cv env i p ep u = _\<close> by (simp add: if_base_def)
    show "owns H E D t" if "owns H E D s" for H E D
      by (rule owns_deliver_out_packet [OF \<open>deliver_out_packet cv env i p ep u = _\<close> d [OF that]])
  qed
  show "if_ok cv ents s t" if "deliver_in_packet cv env i p u = Some t"
  proof (rule frame_ok_step)
    show "if_frame cv s t" if "if_base cv ents s"
      using frame_deliver_in_packet [OF _ fu i(1)] that \<open>deliver_in_packet cv env i p u = _\<close> by (simp add: if_base_def)
    show "owns H E D t" if "owns H E D s" for H E D
      by (rule owns_deliver_in_packet [OF \<open>deliver_in_packet cv env i p u = _\<close> d [OF that] i(2)])
  qed
qed

lemma input_ok: "if_ok cv ents s (wg_input env dg sa dst s)"
  by (rule frame_ok_step) (auto intro: frame_input if_frame_refl owns_input simp: if_base_def)

theorem step_inv:
  assumes "if_step cv rx y y'" "radix_ok rx ents" "if_inv cv ents y"
  shows "if_inv cv ents y' \<and> windows_grow (sc_local (y_sc y)) (sc_local (y_sc y'))"
proof -
  have o: "owns {} (y_enc y) (y_dec y) (y_sc y)" and b: "if_base cv ents (y_sc y)" using assms(3) by (simp_all add: if_inv_def)
  have ok: "if_inv cv ents (y\<lparr>y_sc := t\<rparr>) \<and> windows_grow (sc_local (y_sc y)) (sc_local (y_sc (y\<lparr>y_sc := t\<rparr>)))"
    if "if_ok cv ents (y_sc y) t" for t using inv_ok [OF assms(3) that] that b by (simp add: if_ok_def)
  have win: "windows_grow (sc_local (y_sc y)) (sc_local t)" if "if_frame cv (y_sc y) t" for t
    using that run_windows by (auto simp: if_frame_def)
  have wpar: "windows_grow (sc_local (y_sc y)) (sc_local t)" if "wg_queue_dequeue_parallel q (y_sc y) = (x, t)" for q x t
    using win [OF frame_dequeues(3) [OF if_frame_refl, of cv "y_sc y" q]] that by simp
  note w = step_worker [OF assms(3)]
  from assms(1) show ?thesis
  proof cases
    case step_input
    then show ?thesis using ok [OF input_ok] by blast
  next
    case step_handshake
    then show ?thesis using ok [OF handshake_ok [OF _ _ o]] by blast
  next
    case step_take_encrypt
    then show ?thesis using w(1) wpar by simp
  next
    case step_encrypt
    then show ?thesis using w(2) win [OF frame_encrypt [OF _ if_frame_refl]] by simp
  next
    case step_take_decrypt
    then show ?thesis using w(3) wpar by simp
  next
    case step_decrypt
    then show ?thesis using w(4) win [OF frame_decrypt [OF _ if_frame_refl]] by simp
  next
    case step_deliver_out
    then show ?thesis using ok [OF deliver_ok(1) [OF _ _ o]] by blast
  next
    case step_deliver_in
    then show ?thesis using ok [OF deliver_ok(2) [OF _ _ o]] by blast
  next
    case step_timer
    then show ?thesis using ok [OF fire_ok] by blast
  next
    case step_output
    then show ?thesis using ok [OF output_ok [OF _ assms(2)]] by blast
  next
    case step_transmit
    then show ?thesis using ok [OF transmit_ok [OF _ assms(2)]] by blast
  next
    case step_ioctl
    then show ?thesis using ok [OF ioctl_ok [OF assms(2)]] by blast
  next
    case step_init
    then show ?thesis using ok [OF wg_up_ok] by (auto simp: wg_init_def)
  next
    case step_reassign
    then show ?thesis using ok [OF wg_down_ok] by (simp add: wg_reassign_def)
  next
    case step_prison
    then show ?thesis using ok [OF prison_ok] by blast
  qed
qed

lemma created_inv:
  assumes "wg_clone_create rx hash_key g ncpus fib = Inr s" "radix_ok rx ents"
  shows "if_inv cv ents \<lparr>y_sc = s, y_enc = {}, y_dec = {}\<rparr>"
proof -
  obtain rt4 rt6 where rt: "rn_inithead rx 32 = Some rt4" "rn_inithead rx 128 = Some rt6" "sc_aip4 s = rt4" "sc_aip6 s = rt6"
    using assms(1) by (auto simp: wg_clone_create_def split: option.splits)
  have f: "sc_local s = noise_local_alloc 0 hash_key" "sc_next_peer s = 0" "sc_peers s = []" "sc_pkt s = (\<lambda>_. None)"
    "sc_queue s = (\<lambda>_. wg_queue_init)" "sc_next_pkt s = 0"
    using assms(1) by (auto simp: wg_clone_create_def split: option.splits)
  have "ents rt = {}" if "rn_inithead rx n = Some rt" for n rt using assms(2) that by (simp add: radix_ok_def)
  note empty = this [OF rt(1)] this [OF rt(2)]
  then have "if_base cv ents s"
    using noise_reach.init [of cv 0 hash_key]
    by (simp add: if_base_def if_links_def f windows_ok_def keypairs_ok_def aips_ok_def rt noise_local_alloc_def)
  moreover have "owns {} {} {} s"
    by (rule ownsI [of "\<lambda>_. None"]) (simp_all add: placed_def working_def queues_ok_def f wg_queue_init_def)
  ultimately show ?thesis by (simp add: if_inv_def)
qed

lemma reach_if_inv: "if_reach cv rx y \<Longrightarrow> radix_ok rx ents \<Longrightarrow> if_inv cv ents y"
  by (induction rule: if_reach.induct) (auto dest: created_inv step_inv)

text \<open>The windows of the receiving keypairs only grow, over any number of steps.\<close>

lemma steps_if_windows:
  assumes "(if_step cv rx)\<^sup>*\<^sup>* y y'" "radix_ok rx ents" "if_inv cv ents y"
  shows "if_inv cv ents y' \<and> windows_grow (sc_local (y_sc y)) (sc_local (y_sc y'))"
  using assms
proof (induction rule: rtranclp_induct)
  case (step u v)
  then have u: "if_inv cv ents u" "windows_grow (sc_local (y_sc y)) (sc_local (y_sc u))" by simp_all
  then show ?case using step_inv [OF step.hyps(2) step.prems(1) u(1)] windows_grow_trans by blast
qed simp

end
