(* ===== verification/IfProps.thy ===== *)
theory IfProps
  imports IfReach SessionWire
begin

text \<open>
  What the invariant of \<open>IfReach\<close> means for \<^verbatim>\<open>src/if_wg.c\<close>: no packet is lost or has two owners, none is stuck, the loops of
  the tasks end with an empty queue, a counter that was received is refused for ever, and a packet that one interface encrypts is the
  one that another decrypts.
\<close>

lemma owned_once:
  assumes "owns {} E D s"
  shows "sc_pkt s p \<noteq> None \<longleftrightarrow> (\<exists>!q. home q \<and> p \<in> set (held s q))"
    "wq_len (sc_queue s q) = length (held s q) \<and> length (held s q) \<le> capacity q \<and> distinct (held s q)"
    "p \<in> set (held s q) \<Longrightarrow> sc_pkt s p \<noteq> None"
proof -
  obtain loc where o: "queues_ok s" "placed loc s" "working Encrypt_parallel Encrypt_serial E loc s"
    "working Decrypt_parallel Decrypt_serial D loc s" "{p. loc p = Some Hand} = {}"
    using assms by (auto simp: owns_def)
  have at: "home q \<Longrightarrow> p \<in> set (held s q) \<longleftrightarrow> loc p = Some (Queued q)" for q using o(2) by (simp add: placed_def)
  have pk: "sc_pkt s p = None \<longleftrightarrow> loc p = None" using o(2) by (simp add: placed_def)
  have home: "loc p = Some (Queued q) \<Longrightarrow> home q" for q using o(2) by (simp add: placed_def)
  have hand: "loc p \<noteq> Some Hand" using o(5) by blast
  show "sc_pkt s p \<noteq> None \<longleftrightarrow> (\<exists>!q. home q \<and> p \<in> set (held s q))"
  proof (cases "loc p")
    case None
    then show ?thesis using at pk by auto
  next
    case (Some x)
    then obtain q where q: "loc p = Some (Queued q)" using hand by (cases x) auto
    then have "home q' \<and> p \<in> set (held s q') \<longleftrightarrow> q' = q" for q' using at home by auto
    then show ?thesis using pk q by simp
  qed
  show "wq_len (sc_queue s q) = length (held s q) \<and> length (held s q) \<le> capacity q \<and> distinct (held s q)"
    using o(1) by (simp add: queues_ok_def)
  show "sc_pkt s p \<noteq> None" if "p \<in> set (held s q)"
  proof (cases "home q")
    case True
    then show ?thesis using at pk that by simp
  next
    case False
    then have "q = Encrypt_parallel \<or> q = Decrypt_parallel" by (cases q) auto
    then show ?thesis using that o(3,4) pk by (auto simp: working_def)
  qed
qed


subsection \<open>No packet is stuck\<close>

text \<open>Work that is left, and a state in which none is.\<close>

definition work_left :: "'r if_system \<Rightarrow> nat" where
  "work_left y = 2 * length (held (y_sc y) Encrypt_parallel) + card (y_enc y) +
     (2 * length (held (y_sc y) Decrypt_parallel) + card (y_dec y))"

lemma owns_finite: "owns H E D s \<Longrightarrow> finite E \<and> finite D"
proof -
  assume "owns H E D s"
  then obtain loc where o: "placed loc s" "working Encrypt_parallel Encrypt_serial E loc s"
    "working Decrypt_parallel Decrypt_serial D loc s"
    by (auto simp: owns_def)
  have "p < sc_next_pkt s" if "loc p = Some x" for p x using o(1) that unfolding placed_def by (metis not_le option.distinct(1))
  then have "E \<subseteq> {..<sc_next_pkt s}" "D \<subseteq> {..<sc_next_pkt s}" using o(2,3) unfolding working_def by blast+
  then show ?thesis using finite_subset by blast
qed

lemma encrypt_queues: "wg_encrypt env p s = Some t \<Longrightarrow> sc_queue t = sc_queue s"
  by (auto simp: wg_encrypt_def Let_def enqueue_task_def upd_local_def upd_pk_def case_prod_unfold)

lemma decrypted_queues: "sc_queue (snd (snd (snd (decrypted rx env i d s)))) = sc_queue s"
  using decrypted_facts(1) [of rx env i d s] by (cases "decrypted rx env i d s") (simp add: same_packets_def)

lemma decrypt_queues: "wg_decrypt rx env p s = Some t \<Longrightarrow> sc_queue t = sc_queue s"
  by (auto simp: wg_decrypt_def Let_def enqueue_task_def upd_local_def upd_pk_def case_prod_unfold decrypted_queues)

lemma worker_returns:
  assumes "owns H E D s"
  shows "p \<in> E \<Longrightarrow> \<exists>t. wg_encrypt env p s = Some t" "p \<in> D \<Longrightarrow> \<exists>t. wg_decrypt rx env p s = Some t"
  using owns_worker [OF assms, of p] by (auto simp: wg_encrypt_def wg_decrypt_def)

lemma dequeue_parallel_some:
  assumes "owns H E D s" "held s q = p # ps"
  shows "wg_queue_dequeue_parallel q s = (Some p, upd_queue q remove_head s)"
proof -
  have "wq_len (sc_queue s q) = Suc (length ps)" using assms by (simp add: owns_def queues_ok_def)
  then show ?thesis using assms(2) by (simp add: wg_queue_dequeue_parallel_def)
qed

text \<open>As long as there is work, a worker can do some of it, and the serial queues keep their packets.\<close>

lemma worker_step:
  assumes "if_inv cv ents y" "work_left y \<noteq> 0"
  shows "\<exists>y'. if_step cv rx y y' \<and> work_left y' < work_left y \<and>
    (\<forall>q. q \<noteq> Encrypt_parallel \<longrightarrow> q \<noteq> Decrypt_parallel \<longrightarrow> sc_queue (y_sc y') q = sc_queue (y_sc y) q)"
proof -
  have o: "owns {} (y_enc y) (y_dec y) (y_sc y)" using assms(1) by (simp add: if_inv_def)
  have fin: "finite (y_enc y)" "finite (y_dec y)" using owns_finite [OF o] by simp_all
  let ?env = "undefined :: if_env"
  consider p where "p \<in> y_enc y" | p where "p \<in> y_dec y" | p ps where "held (y_sc y) Encrypt_parallel = p # ps"
    | p ps where "held (y_sc y) Decrypt_parallel = p # ps"
    using assms(2) unfolding work_left_def
    by (cases "held (y_sc y) Encrypt_parallel"; cases "held (y_sc y) Decrypt_parallel"; cases "y_enc y = {}"; cases "y_dec y = {}") auto
  then show ?thesis
  proof cases
    case 1
    then obtain t where t: "wg_encrypt ?env p (y_sc y) = Some t" using worker_returns(1) [OF o] by blast
    let ?y = "y\<lparr>y_sc := t, y_enc := y_enc y - {p}\<rparr>"
    have "work_left ?y < work_left y"
      using card_Diff1_less [OF fin(1) 1] encrypt_queues [OF t] by (simp add: work_left_def)
    moreover have "if_step cv rx y ?y" by (rule step_encrypt [OF 1 t])
    ultimately show ?thesis by (intro exI [of _ ?y]) (simp add: encrypt_queues [OF t])
  next
    case 2
    then obtain t where t: "wg_decrypt rx ?env p (y_sc y) = Some t" using worker_returns(2) [OF o] by blast
    let ?y = "y\<lparr>y_sc := t, y_dec := y_dec y - {p}\<rparr>"
    have "work_left ?y < work_left y"
      using card_Diff1_less [OF fin(2) 2] decrypt_queues [OF t] by (simp add: work_left_def)
    moreover have "if_step cv rx y ?y" by (rule step_decrypt [OF 2 t])
    ultimately show ?thesis by (intro exI [of _ ?y]) (simp add: decrypt_queues [OF t])
  next
    case 3
    note d = dequeue_parallel_some [OF o 3]
    let ?y = "y\<lparr>y_sc := upd_queue Encrypt_parallel remove_head (y_sc y), y_enc := insert p (y_enc y)\<rparr>"
    have "work_left ?y < work_left y"
      using 3 fin by (simp add: work_left_def card_insert_if)
    moreover have "if_step cv rx y ?y" by (rule step_take_encrypt [OF d])
    ultimately show ?thesis by (intro exI [of _ ?y]) (simp add: upd_queue_def)
  next
    case 4
    note d = dequeue_parallel_some [OF o 4]
    let ?y = "y\<lparr>y_sc := upd_queue Decrypt_parallel remove_head (y_sc y), y_dec := insert p (y_dec y)\<rparr>"
    have "work_left ?y < work_left y"
      using 4 fin by (simp add: work_left_def card_insert_if)
    moreover have "if_step cv rx y ?y" by (rule step_take_decrypt [OF d])
    ultimately show ?thesis by (intro exI [of _ ?y]) (simp add: upd_queue_def)
  qed
qed

lemma workers_finish:
  assumes "if_inv cv ents y" "radix_ok rx ents"
  shows "\<exists>y'. (if_step cv rx)\<^sup>*\<^sup>* y y' \<and> if_inv cv ents y' \<and> work_left y' = 0 \<and>
    (\<forall>q. q \<noteq> Encrypt_parallel \<longrightarrow> q \<noteq> Decrypt_parallel \<longrightarrow> sc_queue (y_sc y') q = sc_queue (y_sc y) q)"
  using assms(1)
proof (induction "work_left y" arbitrary: y rule: less_induct)
  case less
  show ?case
  proof (cases "work_left y = 0")
    case True
    then show ?thesis using less.prems by blast
  next
    case False
    obtain z where z: "if_step cv rx y z" "work_left z < work_left y"
      "\<forall>q. q \<noteq> Encrypt_parallel \<longrightarrow> q \<noteq> Decrypt_parallel \<longrightarrow> sc_queue (y_sc z) q = sc_queue (y_sc y) q"
      using worker_step [OF less.prems False] by blast
    have iz: "if_inv cv ents z" using step_inv [OF z(1) assms(2) less.prems] by simp
    obtain y' where y': "(if_step cv rx)\<^sup>*\<^sup>* z y'" "if_inv cv ents y'" "work_left y' = 0"
      "\<forall>q. q \<noteq> Encrypt_parallel \<longrightarrow> q \<noteq> Decrypt_parallel \<longrightarrow> sc_queue (y_sc y') q = sc_queue (y_sc z) q"
      using less.hyps [OF z(2) iz] by blast
    show ?thesis
      by (rule exI [of _ y']) (use z y' converse_rtranclp_into_rtranclp [of "if_step cv rx" y z y'] in auto)
  qed
qed

lemma finished_serial:
  assumes "owns {} E D s" "E = {}" "D = {}" "held s Encrypt_parallel = []" "held s Decrypt_parallel = []"
    "q = Encrypt_serial i \<or> q = Decrypt_serial i" "p \<in> set (held s q)"
  shows "\<exists>pkt. sc_pkt s p = Some pkt \<and> pk_state pkt \<noteq> WG_PACKET_UNCRYPTED"
proof -
  obtain loc where o: "placed loc s" "working Encrypt_parallel Encrypt_serial E loc s" "working Decrypt_parallel Decrypt_serial D loc s"
    using assms(1) by (auto simp: owns_def)
  have loc: "loc p = Some (Queued q)" using o(1) assms(6,7) by (auto simp: placed_def)
  obtain pkt where pkt: "sc_pkt s p = Some pkt" using o(1) loc unfolding placed_def by (metis not_Some_eq)
  have "pk_state pkt \<noteq> WG_PACKET_UNCRYPTED" using o(2,3) assms(2-6) loc pkt unfolding working_def by auto
  then show ?thesis using pkt by blast
qed


subsection \<open>No counter is received twice\<close>

lemma dropped_simps [simp]:
  "sc_out (wg_packet_free p s) = sc_out s" "sc_counters (wg_packet_free p s) = sc_counters s" "sc_out (ierror s) = sc_out s"
  "ic_ierrors (sc_counters (ierror s)) = ic_ierrors (sc_counters s) + 1" "sc_pkt (ierror s) = sc_pkt s"
  "sc_counters (upd_local f s) = sc_counters s" "sc_out (upd_local f s) = sc_out s"
  by (auto simp: wg_packet_free_def ierror_def count_def upd_local_def Let_def split: option.split)

text \<open>A packet that is not counted as an error passed the check of its counter, and the window is in what follows.\<close>

lemma deliver_in_accepts:
  assumes "deliver_in_packet cv env i p s = Some t" "ic_ierrors (sc_counters t) = ic_ierrors (sc_counters s)"
    "sc_pkt s p = Some pkt" "pk_keypair pkt = Some k" "i < sc_next_peer s" "if_links cv s"
  shows "\<exists>kp. noise_keypair_nonce_check (keypairs (sc_local s) k) (pk_nonce pkt) = (OK, kp) \<and>
    if_frame cv (upd_local (upd_keypair k (\<lambda>_. kp)) s) t"
proof -
  obtain e kp where nc: "noise_keypair_nonce_check (keypairs (sc_local s) k) (pk_nonce pkt) = (e, kp)" by fastforce
  let ?s = "upd_local (upd_keypair k (\<lambda>_. kp)) s"
  obtain e' l where rw: "noise_keypair_received_with k (sc_local ?s) = (e', l)" by fastforce
  have ne: "x + 1 \<noteq> x" for x :: u64 by simp
  obtain m u where e: "e = OK" and m: "pk_mbuf pkt = Some m"
    and u: "(if e' = ECONNRESET then wg_timers_event_handshake_complete cv env i (?s\<lparr>sc_local := l\<rparr>) else Some (?s\<lparr>sc_local := l\<rparr>)) = Some u"
      "deliver_received cv env i p pkt m u = Some t"
    using assms(1-4) ne
    by (auto simp: deliver_in_packet_def nc rw Let_def bind_eq_Some_conv ierror_packet_def split: if_splits)
  have "if_frame cv s ?s" using run_nonce_check [OF nc] by (intro frame_upd_local if_frame_refl)
  note links = frame_links [OF this assms(6)]
  have i: "i < sc_next_peer ?s" using assms(5) by (simp add: upd_local_def)
  have "if_frame cv ?s (?s\<lparr>sc_local := l\<rparr>)" by (rule frame_interface(3) [OF if_frame_refl rw])
  then have "if_frame cv ?s u" using u(1) frame_handshake_complete [OF _ _ i links] by (auto split: if_splits)
  then show ?thesis using frame_deliver_received [OF u(2) _ i links] nc e by blast
qed

text \<open>C9: No replay. A data packet that the delivery task received, under a keypair and with a counter, is the only one: after any
  further steps of the interface, in any interleaving of workers and tasks, a packet with the same keypair and counter that reaches
  the delivery task is dropped and counted as an error, and nothing is handed to the network stack. Every state that the
  interface reaches satisfies the hypothesis \<open>if_inv\<close>.\<close>

theorem if_no_replay:
  assumes "if_inv cv ents y" "radix_ok rx ents"
    and first: "wg_queue_dequeue_serial (Decrypt_serial i) (y_sc y) = (Some p, s)" "sc_pkt s p = Some pkt" "pk_keypair pkt = Some k"
      "deliver_in_packet cv env i p s = Some t" "ic_ierrors (sc_counters t) = ic_ierrors (sc_counters s)"
    and later: "(if_step cv rx)\<^sup>*\<^sup>* (y\<lparr>y_sc := t\<rparr>) z"
      "wg_queue_dequeue_serial (Decrypt_serial j) (y_sc z) = (Some q, s')" "sc_pkt s' q = Some pkt'" "pk_keypair pkt' = Some k"
      "pk_nonce pkt' = pk_nonce pkt"
  shows "\<exists>t'. deliver_in_packet cv env' j q s' = Some t' \<and> sc_out t' = sc_out s' \<and>
    ic_ierrors (sc_counters t') = ic_ierrors (sc_counters s') + 1 \<and> sc_pkt t' q = None"
proof -
  have o: "owns {} (y_enc y) (y_dec y) (y_sc y)" and b: "if_base cv ents (y_sc y)" using assms(1) by (simp_all add: if_inv_def)
  note d = owns_dequeue_serial [OF first(1) o disjI2 [OF refl]]
  have k: "k < next_keypair (sc_local s)" using b first(2,3) d(5,7) by (simp add: if_base_def keypairs_ok_def)
  have fr: "if_frame cv (y_sc y) s" using frame_dequeues(2) [OF if_frame_refl, of cv "y_sc y" "Decrypt_serial i"] first(1) by simp
  have links: "if_links cv s" using frame_links [OF fr] b by (simp add: if_base_def)
  have win: "windows_ok (sc_local s)" using b d(5) by (simp add: if_base_def)
  obtain kp where kp: "noise_keypair_nonce_check (keypairs (sc_local s) k) (pk_nonce pkt) = (OK, kp)"
    "if_frame cv (upd_local (upd_keypair k (\<lambda>_. kp)) s) t"
    using deliver_in_accepts [OF first(4,5,2,3) d(4) links] by blast
  have 1: "windows_grow (upd_keypair k (\<lambda>_. kp) (sc_local s)) (sc_local t)"
    using kp(2) run_windows by (auto simp: if_frame_def upd_local_def)
  have it: "if_inv cv ents (y\<lparr>y_sc := t\<rparr>)"
    using inv_ok [OF assms(1) deliver_ok(2) [OF first(1) disjI2 [OF refl] o first(4)]] .
  have 2: "windows_grow (sc_local t) (sc_local (y_sc z))" "if_inv cv ents z"
    using steps_if_windows [OF later(1) assms(2) it] by simp_all
  have o': "owns {} (y_enc z) (y_dec z) (y_sc z)" using 2(2) by (simp add: if_inv_def)
  note d' = owns_dequeue_serial [OF later(2) o' disjI2 [OF refl]]
  have refused: "noise_keypair_nonce_check (keypairs (sc_local s') k) (pk_nonce pkt') = (EEXIST, keypairs (sc_local s') k)"
    using seen_refused [OF win k kp(1) windows_grow_trans [OF 1 2(1)]] later(5) d'(5) by simp
  obtain pkt2 where "sc_pkt s' q = Some pkt2" "packet_ok (Decrypt_serial j) pkt2" "pk_state pkt2 \<noteq> WG_PACKET_UNCRYPTED"
    using d'(3) by blast
  then have "pk_state pkt' = WG_PACKET_CRYPTED \<Longrightarrow> pk_mbuf pkt' \<noteq> None" using later(3) by auto
  then show ?thesis
    using later(3,4) refused
    by (cases "pk_state pkt' = WG_PACKET_CRYPTED")
      (auto simp: deliver_in_packet_def ierror_packet_def Let_def upd_local_def sc_pkt_free)
qed

subsection \<open>The loops of the tasks\<close>

text \<open>The queues that a function leaves alone.\<close>

lemma queue_upd [simp]:
  "sc_queue (upd_pk p f s) = sc_queue s" "sc_queue (upd_w i g s) = sc_queue s" "sc_queue (upd_local h s) = sc_queue s"
  "sc_queue (count c s) = sc_queue s" "sc_queue (emit x s) = sc_queue s" "sc_queue (enqueue_task j s) = sc_queue s"
  "sc_queue (oerror p s) = sc_queue s" "sc_queue (ierror_packet p s) = sc_queue s"
  by (simp_all add: upd_pk_def upd_w_def upd_local_def count_def emit_def enqueue_task_def oerror_def ierror_packet_def ierror_def)

lemma same_queues: "same_packets s t \<Longrightarrow> sc_queue t = sc_queue s"
  by (simp add: same_packets_def)

lemma queue_events [simp]:
  "sc_queue (snd (wg_send env e m s)) = sc_queue s" "sc_queue (wg_peer_clear_src i s) = sc_queue s"
  "sc_queue (wg_peer_set_endpoint i e s) = sc_queue s" "sc_queue (wg_timers_event_data_received i s) = sc_queue s"
  "sc_queue (wg_timers_event_data_sent env i s) = sc_queue s"
  "sc_queue (wg_timers_event_any_authenticated_packet_sent i s) = sc_queue s"
  "sc_queue (wg_timers_event_any_authenticated_packet_received i s) = sc_queue s"
  "sc_queue (wg_timers_event_any_authenticated_packet_traversal i s) = sc_queue s"
  by (rule same_queues, simp)+

lemma queue_want: "wg_timers_event_want_initiation cv env i s = Some t \<Longrightarrow> sc_queue t = sc_queue s"
  by (rule same_queues) (rule same_initiation(3))

lemma queue_deliver_out:
  assumes "deliver_out_packet cv env i p ep s = Some (ep', t)"
  shows "sc_queue t = sc_queue s"
proof -
  obtain pkt where pkt: "sc_pkt s p = Some pkt" using assms by (auto simp: deliver_out_packet_def bind_eq_Some_conv)
  show ?thesis
  proof (cases "pk_state pkt = WG_PACKET_CRYPTED")
    case True
    then obtain m where m: "pk_mbuf pkt = Some m" using assms pkt by (auto simp: deliver_out_packet_def bind_eq_Some_conv)
    let ?s = "wg_timers_event_any_authenticated_packet_sent i
      (wg_timers_event_any_authenticated_packet_traversal i (upd_pk p (\<lambda>x. x\<lparr>pk_mbuf := None\<rparr>) s))"
    obtain rc u where u: "wg_send env ep m ?s = (rc, u)" by fastforce
    have "sc_queue (snd (wg_send env ep m ?s)) = sc_queue s" by simp
    then have q: "sc_queue u = sc_queue s" unfolding u by simp
    consider "rc = OK" | "rc = EADDRNOTAVAIL" | "rc \<noteq> OK" "rc \<noteq> EADDRNOTAVAIL" by blast
    then show ?thesis
      by cases (use assms pkt True m u q in \<open>auto simp: deliver_out_packet_def Let_def dest!: queue_want split: if_splits\<close>)
  next
    case False
    then show ?thesis using assms pkt by (auto simp: deliver_out_packet_def)
  qed
qed

lemma queue_push_staged: "q \<noteq> Stage i \<Longrightarrow> sc_queue (wg_queue_push_staged (Stage i) p s) q = sc_queue s q"
  by (simp add: wg_queue_push_staged_def Let_def sc_queue_upd)

lemma queue_enlist: "q \<noteq> Stage i \<Longrightarrow> sc_queue (wg_queue_enlist_staged (Stage i) ps s) q = sc_queue s q"
  unfolding wg_queue_enlist_staged_def by (induction ps arbitrary: s) (simp_all add: queue_push_staged)

lemma queue_both:
  "q \<noteq> par \<Longrightarrow> q \<noteq> ser \<Longrightarrow> sc_queue (snd (wg_queue_both par ser p s)) q = sc_queue s q"
  by (auto simp: wg_queue_both_def queue_both_serial_def queue_both_parallel_def Let_def sc_queue_upd split: prod.split)

lemma queue_nonces: "sc_queue (snd (assign_nonces k ps s)) = sc_queue s"
  by (induction ps arbitrary: s) (auto simp: Let_def split: prod.split)

lemma queue_encrypt_all:
  "q \<noteq> Encrypt_parallel \<Longrightarrow> q \<noteq> Encrypt_serial i \<Longrightarrow> sc_queue (fold (queue_encrypt k i) ps s) q = sc_queue s q"
proof (induction ps arbitrary: s)
  case (Cons p ps)
  have "sc_queue (queue_encrypt k i p s) q = sc_queue s q"
    using Cons.prems by (simp add: queue_encrypt_def Let_def case_prod_unfold queue_both)
  then show ?case using Cons by simp
qed simp

lemma queue_send_staged:
  assumes "wg_peer_send_staged cv env i s = Some t" "q \<noteq> Stage i" "q \<noteq> Encrypt_parallel" "q \<noteq> Encrypt_serial i"
  shows "sc_queue t q = sc_queue s q"
proof -
  let ?s = "upd_queue (Stage i) (\<lambda>_. wg_queue_init) s"
  have s: "sc_queue ?s q = sc_queue s q" using assms(2) by (simp add: sc_queue_upd)
  obtain ko l where c: "noise_keypair_current (w_remote (sc_peer ?s i)) (e_uptime env) (sc_local ?s) = (ko, l)" by fastforce
  show ?thesis
  proof (cases ko)
    case None
    then show ?thesis using assms(1,2) s c
      by (auto simp: queue_enlist wg_peer_send_staged_def wg_queue_delist_staged_def dest!: queue_want split: if_splits)
  next
    case (Some k)
    obtain ok u where n: "assign_nonces k (held s (Stage i)) (?s\<lparr>sc_local := l\<rparr>) = (ok, u)" by fastforce
    have "sc_queue u = sc_queue ?s" using queue_nonces [of k "held s (Stage i)" "?s\<lparr>sc_local := l\<rparr>"] n by simp
    then show ?thesis using assms s c n Some
      by (auto simp: queue_enlist queue_encrypt_all wg_peer_send_staged_def wg_queue_delist_staged_def wg_encrypt_dispatch_def Let_def dest!: queue_want split: if_splits)
  qed
qed

lemma queue_handshake_complete:
  assumes "wg_timers_event_handshake_complete cv env i s = Some t" "q \<noteq> Stage i" "q \<noteq> Encrypt_parallel" "q \<noteq> Encrypt_serial i"
  shows "sc_queue t q = sc_queue s q"
proof -
  have "sc_queue u q = sc_queue v q" if "wg_send_keepalive cv env i v = Some u" for u v
    using that assms(2-4)
    by (auto simp: queue_push_staged wg_send_keepalive_def wg_packet_alloc_def Let_def dest!: queue_send_staged split: if_splits option.splits prod.splits)
  then show ?thesis using assms(1)
    by (fastforce simp: wg_timers_event_handshake_complete_def wg_timers_run_send_keepalive_def split: if_splits)
qed

lemma queue_deliver_received: "deliver_received cv env i p pkt m s = Some t \<Longrightarrow> sc_queue t = sc_queue s"
  by (auto simp: deliver_received_def bind_eq_Some_conv Let_def dest!: queue_want split: if_splits)

lemma queue_deliver_in:
  assumes "deliver_in_packet cv env i p s = Some t"
  shows "sc_queue t (Decrypt_serial j) = sc_queue s (Decrypt_serial j)"
proof -
  obtain pkt where pkt: "sc_pkt s p = Some pkt" using assms by (auto simp: deliver_in_packet_def bind_eq_Some_conv)
  show ?thesis
  proof (cases "pk_state pkt = WG_PACKET_CRYPTED")
    case True
    then obtain m k where m: "pk_mbuf pkt = Some m" "pk_keypair pkt = Some k"
      using assms pkt by (auto simp: deliver_in_packet_def bind_eq_Some_conv)
    obtain e kp where n: "noise_keypair_nonce_check (keypairs (sc_local s) k) (pk_nonce pkt) = (e, kp)" by fastforce
    let ?s = "upd_local (upd_keypair k (\<lambda>_. kp)) s"
    obtain e' l where r: "noise_keypair_received_with k (sc_local ?s) = (e', l)" by fastforce
    show ?thesis
      using assms pkt True m n r
      by (auto simp: deliver_in_packet_def Let_def bind_eq_Some_conv dest!: queue_deliver_received queue_handshake_complete [where q = "Decrypt_serial j"]
          split: if_splits)
  next
    case False
    then show ?thesis using assms pkt by (auto simp: deliver_in_packet_def)
  qed
qed

lemma queue_messages:
  "sc_queue (wg_send_cookie env m si e s) = sc_queue s" "sc_queue (handshake_authenticated i r n s) = sc_queue s"
  "sc_queue (handshake_cookie env dg s) = sc_queue s" "sc_queue (wg_send_response cv env i s) = sc_queue s"
  "sc_queue (wg_timers_event_session_derived i s) = sc_queue s"
  by (rule same_queues, simp)+

lemma queue_handshake:
  assumes "wg_handshake cv env p s = Some t"
  shows "sc_queue t Handshake_queue = sc_queue s Handshake_queue"
proof -
  obtain ul u where u: "under_load env s = (ul, u)" by fastforce
  then have qu: "sc_queue u = sc_queue s" by (auto simp: under_load_def split: if_splits)
  have cm: "sc_queue v = sc_queue u" if "check_macs env ul body m si e u = Some (ok, v)" for body m si e ok v
    using that by (auto simp: check_macs_def Let_def queue_messages split: prod.splits if_splits)
  have hi: "sc_queue v Handshake_queue = sc_queue u Handshake_queue" if "handshake_initiation cv env ul dg e u = Some v" for dg e v
    using that by (auto simp: handshake_initiation_def Let_def bind_eq_Some_conv queue_messages dest!: cm split: if_splits option.splits prod.splits)
  have hr: "sc_queue v Handshake_queue = sc_queue u Handshake_queue" if "handshake_response cv env ul dg e u = Some v" for dg e v
    using that by (auto simp: handshake_response_def Let_def bind_eq_Some_conv queue_messages dest!: cm queue_handshake_complete [where q = Handshake_queue]
        split: if_splits option.splits prod.splits)
  have free: "sc_queue (wg_packet_free p v) = sc_queue v" for v by simp
  show ?thesis
    using assms u qu by (auto simp: queue_messages wg_handshake_def Let_def bind_eq_Some_conv dest!: hi hr split: if_splits)
qed

text \<open>A loop ends at the condition of its \<^verbatim>\<open>while\<close>: the dequeue returns \<^verbatim>\<open>NULL\<close>.\<close>

lemma dequeue_serial_len:
  "wg_queue_dequeue_serial q s = (Some p, t) \<Longrightarrow> wq_len (sc_queue s q) = Suc (wq_len (sc_queue t q))"
  by (auto simp: wg_queue_dequeue_serial_def remove_head_def sc_queue_upd split: list.splits if_splits)

lemma dequeue_parallel_len:
  "wg_queue_dequeue_parallel q s = (Some p, t) \<Longrightarrow> wq_len (sc_queue s q) = Suc (wq_len (sc_queue t q))"
  by (auto simp: wg_queue_dequeue_parallel_def remove_head_def sc_queue_upd split: if_splits)

lemma dequeue_none:
  "wq_len (sc_queue s q) = 0 \<Longrightarrow> fst (wg_queue_dequeue_serial q s) = None" "wq_len (sc_queue s q) = 0 \<Longrightarrow> fst (wg_queue_dequeue_parallel q s) = None"
  "wg_queue_dequeue_serial q s = (None, t) \<Longrightarrow> t = s" "wg_queue_dequeue_parallel q s = (None, t) \<Longrightarrow> t = s"
  "wg_queue_dequeue_handshake q s = (None, t) \<Longrightarrow> t = s"
  by (auto simp: wg_queue_dequeue_serial_def wg_queue_dequeue_parallel_def wg_queue_dequeue_handshake_def split: list.splits if_splits)

lemma loop_out:
  "deliver_out cv env i n ep s = Some t \<Longrightarrow> wq_len (sc_queue s (Encrypt_serial i)) \<le> n \<Longrightarrow>
   fst (wg_queue_dequeue_serial (Encrypt_serial i) t) = None"
proof (induction n arbitrary: ep s)
  case (Suc n)
  obtain po u where d: "wg_queue_dequeue_serial (Encrypt_serial i) s = (po, u)" by fastforce
  show ?case
  proof (cases po)
    case None
    then show ?thesis using Suc.prems(1) d dequeue_none(3) [OF d [unfolded None]] by auto
  next
    case (Some p)
    obtain ep' v where v: "deliver_out_packet cv env i p ep u = Some (ep', v)" "deliver_out cv env i n ep' v = Some t"
      using Suc.prems(1) d Some by (auto simp: bind_eq_Some_conv)
    show ?thesis
      by (rule Suc.IH [OF v(2)]) (use Suc.prems(2) dequeue_serial_len [OF d [unfolded Some]] queue_deliver_out [OF v(1)] in simp)
  qed
qed (simp add: dequeue_none)

lemma loop_in:
  "deliver_in cv env i n s = Some t \<Longrightarrow> wq_len (sc_queue s (Decrypt_serial i)) \<le> n \<Longrightarrow>
   fst (wg_queue_dequeue_serial (Decrypt_serial i) t) = None"
proof (induction n arbitrary: s)
  case (Suc n)
  obtain po u where d: "wg_queue_dequeue_serial (Decrypt_serial i) s = (po, u)" by fastforce
  show ?case
  proof (cases po)
    case None
    then show ?thesis using Suc.prems(1) d dequeue_none(3) [OF d [unfolded None]] by auto
  next
    case (Some p)
    obtain v where v: "deliver_in_packet cv env i p u = Some v" "deliver_in cv env i n v = Some t"
      using Suc.prems(1) d Some by (auto simp: bind_eq_Some_conv)
    show ?thesis
      by (rule Suc.IH [OF v(2)]) (use Suc.prems(2) dequeue_serial_len [OF d [unfolded Some]] queue_deliver_in [OF v(1)] in simp)
  qed
qed (simp add: dequeue_none)

lemma loop_parallel:
  assumes "\<And>p u v. work p u = Some v \<Longrightarrow> sc_queue v = sc_queue u"
  shows "run_parallel q work n s = Some t \<Longrightarrow> wq_len (sc_queue s q) \<le> n \<Longrightarrow> fst (wg_queue_dequeue_parallel q t) = None"
proof (induction n arbitrary: s)
  case (Suc n)
  obtain po u where d: "wg_queue_dequeue_parallel q s = (po, u)" by fastforce
  show ?case
  proof (cases po)
    case None
    then show ?thesis using Suc.prems(1) d dequeue_none(4) [OF d [unfolded None]] by auto
  next
    case (Some p)
    obtain v where v: "work p u = Some v" "run_parallel q work n v = Some t"
      using Suc.prems(1) d Some by (auto simp: bind_eq_Some_conv)
    show ?thesis
      by (rule Suc.IH [OF v(2)]) (use Suc.prems(2) dequeue_parallel_len [OF d [unfolded Some]] assms [OF v(1)] in simp)
  qed
qed (simp add: dequeue_none)

lemma loop_handshakes:
  "run_handshakes cv envs n s = Some t \<Longrightarrow> length (held s Handshake_queue) \<le> n \<Longrightarrow> held t Handshake_queue = []"
proof (induction n arbitrary: s)
  case (Suc n)
  show ?case
  proof (cases "held s Handshake_queue")
    case Nil
    then show ?thesis using Suc.prems(1) by (simp add: wg_queue_dequeue_handshake_def)
  next
    case (Cons p ps)
    then obtain v where v: "wg_handshake cv (envs n) p (upd_queue Handshake_queue remove_head s) = Some v" "run_handshakes cv envs n v = Some t"
      using Suc.prems(1) by (auto simp: wg_queue_dequeue_handshake_def bind_eq_Some_conv)
    show ?thesis
      by (rule Suc.IH [OF v(2)]) (use Suc.prems(2) Cons queue_handshake [OF v(1)] in simp)
  qed
qed simp


subsection \<open>A packet between two interfaces\<close>

lemma round_up: "n \<le> (n + 15) div 16 * 16 \<and> (n + 15) div 16 * 16 < n + 16" for n :: int
  by presburger

text \<open>The padding: at most 15 bytes, to a multiple of 16 unless the MTU is reached first.\<close>

lemma padding_bounds:
  assumes "0 \<le> mtu" "0 \<le> len"
  shows "0 \<le> calculate_padding mtu len" "calculate_padding mtu len < 16"
    "0 < mtu \<Longrightarrow> len \<le> mtu \<Longrightarrow> len + calculate_padding mtu len \<le> mtu"
    "len \<le> mtu \<or> mtu = 0 \<Longrightarrow> 16 dvd len + calculate_padding mtu len \<or> len + calculate_padding mtu len = mtu"
proof -
  define u where "u = (if len > mtu then len mod mtu else len)"
  have u: "0 \<le> u" "0 < mtu \<Longrightarrow> u \<le> mtu"
  proof -
    have "0 < mtu \<Longrightarrow> 0 \<le> len mod mtu \<and> len mod mtu < mtu" by simp
    moreover have "mtu = 0 \<Longrightarrow> len mod mtu = len" by simp
    ultimately show "0 \<le> u" "0 < mtu \<Longrightarrow> u \<le> mtu" using assms by (auto simp: u_def not_less le_less)
  qed
  have c: "calculate_padding mtu len = (if mtu = 0 then (len + 15) div 16 * 16 - len
      else (if mtu < (u + 15) div 16 * 16 then mtu else (u + 15) div 16 * 16) - u)"
    by (simp add: calculate_padding_def WG_PKT_PADDING_def Let_def u_def)
  show "0 \<le> calculate_padding mtu len" "calculate_padding mtu len < 16"
    unfolding c using round_up [of len] round_up [of u] u assms(1) by (auto split: if_splits)
  show "len + calculate_padding mtu len \<le> mtu" if "0 < mtu" "len \<le> mtu"
    unfolding c using that by (auto simp: u_def)
  show "16 dvd len + calculate_padding mtu len \<or> len + calculate_padding mtu len = mtu" if "len \<le> mtu \<or> mtu = 0"
    unfolding c using that by (auto simp: u_def)
qed

lemma encrypt_packet_ok:
  assumes "e_append env" "e_prepend env"
  shows "\<exists>m'. encrypt_packet env kp pkt m = (Some m', WG_PACKET_CRYPTED) \<and> m_data m' = data_dg kp (pk_nonce pkt)
    (m_data m @ replicate (nat (calculate_padding (pk_mtu pkt) (int (length (m_data m))))) 0)"
proof -
  let ?n = "calculate_padding (pk_mtu pkt) (int (length (m_data m)))"
  obtain m1 where m1: "(if ?n \<noteq> 0 then m_append (e_append env) m (replicate (nat ?n) 0) else Some m) = Some m1"
    "m_data m1 = m_data m @ replicate (nat ?n) 0"
    using assms(1) by (cases "?n = 0"; cases "length (m_data m @ replicate (nat ?n) 0) \<le> m_cap m") (auto simp: m_append_def Let_def)
  obtain cap where c: "chacha20poly1305_encrypt_mbuf True m1 (pk_nonce pkt) (kp_send kp) =
      (OK, \<lparr>m_data = chacha20_poly1305_encrypt (m_data m1) [] (le64enc (pk_nonce pkt)) (kp_send kp), m_cap = cap\<rparr>)"
    using encrypt_mbuf_buffer [of True m1 "pk_nonce pkt" "kp_send kp"] by auto
  show ?thesis
    using assms m1 c by (simp add: encrypt_packet_def Let_def noise_keypair_encrypt_def data_dg_def)
qed

lemma wg_encrypt_result:
  assumes "sc_pkt s p = Some pkt" "pk_keypair pkt = Some k" "pk_mbuf pkt = Some m" "e_append env" "e_prepend env"
  shows "\<exists>t m'. wg_encrypt env p s = Some t \<and> sc_pkt t p = Some (pkt\<lparr>pk_mbuf := Some m', pk_state := WG_PACKET_CRYPTED\<rparr>) \<and>
    m_data m' = data_dg (keypairs (sc_local s) k) (pk_nonce pkt)
      (m_data m @ replicate (nat (calculate_padding (pk_mtu pkt) (int (length (m_data m))))) 0)"
proof -
  obtain r l where r: "noise_keypair_remote k (sc_local s) = (r, l)" by fastforce
  then have l: "keypairs l k = keypairs (sc_local s) k" by (auto simp: noise_keypair_remote_def)
  obtain m' where m: "encrypt_packet env (keypairs l k) pkt m = (Some m', WG_PACKET_CRYPTED)" "m_data m' = data_dg (keypairs l k) (pk_nonce pkt)
    (m_data m @ replicate (nat (calculate_padding (pk_mtu pkt) (int (length (m_data m))))) 0)"
    using encrypt_packet_ok [OF assms(4,5)] by blast
  let ?t = "upd_local (noise_remote_put r) (enqueue_task (Task_send (noise_remote_arg l r))
    (upd_pk p (\<lambda>x. x\<lparr>pk_mbuf := Some m', pk_state := WG_PACKET_CRYPTED\<rparr>) (s\<lparr>sc_local := l\<rparr>)))"
  have "wg_encrypt env p s = Some ?t"
    using assms(1-3) r m by (simp add: wg_encrypt_def work_of_def)
  then show ?thesis
    using assms(1) m(2) l by (intro exI [of _ ?t] exI [of _ m']) (simp add: upd_pk_def enqueue_task_def upd_local_def)
qed

text \<open>The peer to whose allowed addresses the source of the packet \<open>d\<close> belongs, by the tables of the kernel.\<close>

definition inner_af :: "bytes \<Rightarrow> af" where
  "inner_af d = (if drop_bit 4 (d ! 0) = 4 then AF_INET else AF_INET6)"

definition source_peer :: "'r radix \<Rightarrow> 'r wg_softc \<Rightarrow> bytes \<Rightarrow> nat option" where
  "source_peer rx s d =
     map_option (\<lambda>x. a_peer (sc_aip s x))
       (case inner_af d of
          AF_INET \<Rightarrow> rnh_matchaddr rx (take 4 (drop 12 d)) (sc_aip4 s)
        | AF_INET6 \<Rightarrow> rnh_matchaddr rx (take 16 (drop 8 d)) (sc_aip6 s))"

lemma be16: "unat (push_bit 8 (ucast a) OR ucast b :: u16) = 256 * unat a + unat b" for a b :: u8
proof -
  have ub: "unat x < 256" for x :: u8 by (rule unat_less_numeral)
  have "unat (ucast b OR push_bit 8 (ucast a) :: u16) = unat b + unat a * 256"
    using ub [of a] ub [of b] by (subst or_disjoint_range) (simp_all add: unsigned_ucast_eq take_bit_nat_eq_self)
  then show ?thesis by (simp add: or.commute)
qed

lemma inner_len_cases:
  assumes "inner_ip_len d = int (length d)"
  shows "drop_bit 4 (d ! 0) = 4 \<and> 20 \<le> length d \<and> 256 * uint (d ! 2) + uint (d ! 3) = int (length d) \<or>
    drop_bit 4 (d ! 0) = 6 \<and> 40 \<le> length d \<and> 256 * uint (d ! 4) + uint (d ! 5) + 40 = int (length d)"
  using assms by (auto simp: inner_ip_len_def be16 Let_def split: if_splits)

lemma wg_aip_lookup_fst:
  "fst (wg_aip_lookup rx f a s) =
     map_option (\<lambda>x. a_peer (sc_aip s x)) (rnh_matchaddr rx (take (case f of AF_INET \<Rightarrow> 4 | AF_INET6 \<Rightarrow> 16) a) (aip_root f s))"
  by (simp add: wg_aip_lookup_def Let_def split: option.split)

text \<open>What \<^verbatim>\<open>wg_decrypt\<close> makes of an authentic packet whose source belongs to the peer: the padding is cut off.\<close>

lemma decrypted_ok:
  assumes "inner_ip_len d = int (length d)" "m_data m = d @ replicate n 0" "\<And>l. e_pullup env l" "source_peer rx s d = Some i"
  shows "\<exists>t. decrypted rx env i (OK, m) s = (Some (m\<lparr>m_data := d\<rparr>), Some (inner_af d), WG_PACKET_CRYPTED, t)"
proof -
  have z: "length z = n \<Longrightarrow> take (length d) (d @ z) = d" for z :: bytes by simp
  consider "drop_bit 4 (d ! 0) = 4" "20 \<le> length d" "256 * uint (d ! 2) + uint (d ! 3) = int (length d)"
    | "drop_bit 4 (d ! 0) = 6" "40 \<le> length d" "256 * uint (d ! 4) + uint (d ! 5) + 40 = int (length d)"
    using inner_len_cases [OF assms(1)] by blast
  then show ?thesis
  proof cases
    case 1
    then have n: "m_data m ! 0 = d ! 0" "m_data m ! 2 = d ! 2" "m_data m ! 3 = d ! 3" "take 4 (drop 12 (m_data m)) = take 4 (drop 12 d)"
      "length (m_data m) = length d + n" "m_data m \<noteq> []"
      using assms(2) by (auto simp: nth_append)
    obtain u where l: "wg_aip_lookup rx AF_INET (drop 12 (m_data m)) s = (Some i, u)"
      using wg_aip_lookup_fst [of rx AF_INET "drop 12 (m_data m)" s] assms(4) 1 n
      by (cases "wg_aip_lookup rx AF_INET (drop 12 (m_data m)) s") (auto simp: source_peer_def inner_af_def aip_root_def)
    have "(if n = 0 then m else m_adj m (- int n)) = m\<lparr>m_data := d\<rparr>" using assms(2) by (simp add: m_adj_def)
    then show ?thesis using 1 n assms(3) l
      by (simp add: decrypted_def determine_af_and_pullup_def inner_source_def inner_af_def Let_def split: if_splits)
  next
    case 2
    then have n: "m_data m ! 0 = d ! 0" "m_data m ! 4 = d ! 4" "m_data m ! 5 = d ! 5" "take 16 (drop 8 (m_data m)) = take 16 (drop 8 d)"
      "length (m_data m) = length d + n" "m_data m \<noteq> []"
      using assms(2) by (auto simp: nth_append)
    obtain u where l: "wg_aip_lookup rx AF_INET6 (drop 8 (m_data m)) s = (Some i, u)"
      using wg_aip_lookup_fst [of rx AF_INET6 "drop 8 (m_data m)" s] assms(4) 2 n
      by (cases "wg_aip_lookup rx AF_INET6 (drop 8 (m_data m)) s") (auto simp: source_peer_def inner_af_def aip_root_def)
    have "(if n = 0 then m else m_adj m (- int n)) = m\<lparr>m_data := d\<rparr>" using assms(2) by (simp add: m_adj_def)
    then show ?thesis using 2 n assms(3) l
      by (simp add: decrypted_def determine_af_and_pullup_def inner_source_def inner_af_def Let_def split: if_splits)
  qed
qed

lemma decrypted_keypairs: "keypairs (sc_local (snd (snd (snd (decrypted rx env i d s))))) = keypairs (sc_local s)"
  by (auto simp: decrypted_def inner_source_def wg_aip_lookup_def upd_local_def noise_remote_ref_def upd_remote_def Let_def case_prod_unfold
      split: option.split errno.split af.split)

text \<open>A worker that decrypts the datagram of a matching keypair.\<close>

lemma wg_decrypt_result:
  assumes "sc_pkt s p = Some pkt" "pk_keypair pkt = Some k" "pk_mbuf pkt = Some m" "m_data m = data_dg kp nonce (d @ replicate n 0)"
    and kp: "kp_recv (keypairs (sc_local s) k) = kp_send kp" "kp_nonce_recv (keypairs (sc_local s) k) < REJECT_AFTER_MESSAGES"
      "\<not> timer_expired (e_uptime env) (kp_birthdate (keypairs (sc_local s) k)) REJECT_AFTER_TIME 0"
    and d: "inner_ip_len d = int (length d)" "\<And>l. e_pullup env l"
      "source_peer rx s d = Some (r_arg (remotes (sc_local s) (kp_remote (keypairs (sc_local s) k))))"
  shows "\<exists>t m'. wg_decrypt rx env p s = Some t \<and> m_data m' = d \<and> keypairs (sc_local t) = keypairs (sc_local s) \<and>
    sc_pkt t p = Some (pkt\<lparr>pk_nonce := nonce, pk_mbuf := Some m', pk_af := Some (inner_af d), pk_state := WG_PACKET_CRYPTED\<rparr>)"
proof -
  obtain r l where r: "noise_keypair_remote k (sc_local s) = (r, l)" by fastforce
  then have l: "keypairs l = keypairs (sc_local s)"
    "noise_remote_arg l r = r_arg (remotes (sc_local s) (kp_remote (keypairs (sc_local s) k)))"
    by (auto simp: noise_keypair_remote_def noise_remote_arg_def noise_remote_ref_def upd_remote_def)
  let ?s = "upd_pk p (\<lambda>x. x\<lparr>pk_nonce := nonce\<rparr>) (s\<lparr>sc_local := l\<rparr>)"
  let ?m = "m\<lparr>m_data := d @ replicate n 0\<rparr>"
  have nonce: "le64dec (drop 8 (m_data m)) = nonce" using assms(4) by (simp add: data_dg_fields)
  have dec: "noise_keypair_decrypt (keypairs l k) nonce (m_adj m 16) (e_uptime env) = (OK, ?m)"
    using kp l assms(4)
    by (simp add: noise_keypair_decrypt_def decrypt_mbuf_buffer m_adj_def data_dg_fields box.length_seal box.open_seal not_le)
  have "source_peer rx ?s d = Some (noise_remote_arg l r)" using d(3) l
    by (cases "inner_af d") (simp_all add: source_peer_def upd_pk_def)
  then obtain u where u: "decrypted rx env (noise_remote_arg l r) (OK, ?m) ?s = (Some (?m\<lparr>m_data := d\<rparr>), Some (inner_af d), WG_PACKET_CRYPTED, u)"
    using decrypted_ok [OF d(1), of ?m n env rx ?s] d(2) by auto
  let ?t = "upd_local (noise_remote_put r) (enqueue_task (Task_recv (noise_remote_arg l r))
    (upd_pk p (\<lambda>x. x\<lparr>pk_mbuf := Some (?m\<lparr>m_data := d\<rparr>), pk_af := Some (inner_af d), pk_state := WG_PACKET_CRYPTED\<rparr>) u))"
  have pk: "sc_pkt u = sc_pkt ?s" using decrypted_facts(1) [OF u] by (simp add: same_packets_def)
  have "wg_decrypt rx env p s = Some ?t"
    using assms(1-3) r nonce dec u by (simp add: wg_decrypt_def work_of_def)
  moreover have "keypairs (sc_local ?t) = keypairs (sc_local s)"
    using decrypted_keypairs [of rx env "noise_remote_arg l r" "(OK, ?m)" ?s] l(1) u
    by (simp add: upd_pk_def enqueue_task_def upd_local_def)
  moreover have "sc_pkt ?t p = Some (pkt\<lparr>pk_nonce := nonce, pk_mbuf := Some (?m\<lparr>m_data := d\<rparr>), pk_af := Some (inner_af d),
      pk_state := WG_PACKET_CRYPTED\<rparr>)"
    using assms(1) pk by (simp add: upd_pk_def enqueue_task_def upd_local_def)
  ultimately show ?thesis by (intro exI [of _ ?t] exI [of _ "?m\<lparr>m_data := d\<rparr>"]) simp
qed

text \<open>The datagram \<open>dg\<close> that arrives for the keypair \<open>k\<close> is queued, for the workers and for the peer of the keypair.\<close>

lemma wg_input_data:
  assumes "fst (noise_keypair_lookup (sc_local s) (le32dec (drop 4 dg))) = Some k" "le32dec dg = WGS_PKT_DATA" "32 \<le> length dg"
    and env: "\<And>l. e_pullup env l" "e_unshare env" "e_pkt env" "sa \<noteq> Sa_other"
    and room: "wq_len (sc_queue s Decrypt_parallel) < MAX_QUEUED_PKT"
      "wq_len (sc_queue s (Decrypt_serial (r_arg (remotes (sc_local s) (kp_remote (keypairs (sc_local s) k)))))) < MAX_QUEUED_PKT"
  shows "\<exists>t pkt. wg_input env dg sa dst s = t \<and> sc_pkt t (sc_next_pkt s) = Some pkt \<and> pk_keypair pkt = Some k \<and>
    pk_mbuf pkt = Some \<lparr>m_data = dg, m_cap = length dg\<rparr> \<and> pk_endpoint pkt = \<lparr>ep_remote = sa, ep_local = dst\<rparr> \<and>
    held t Decrypt_parallel = held s Decrypt_parallel @ [sc_next_pkt s] \<and>
    held t (Decrypt_serial (r_arg (remotes (sc_local s) (kp_remote (keypairs (sc_local s) k))))) =
      held s (Decrypt_serial (r_arg (remotes (sc_local s) (kp_remote (keypairs (sc_local s) k))))) @ [sc_next_pkt s] \<and>
    sc_aip t = sc_aip s \<and> sc_aip4 t = sc_aip4 s \<and> sc_aip6 t = sc_aip6 s \<and>
    keypairs (sc_local t) = keypairs (noise_keypair_ref k (sc_local s)) \<and>
    (\<forall>r. r_arg (remotes (sc_local t) r) = r_arg (remotes (sc_local s) r))"
proof -
  let ?r = "kp_remote (keypairs (sc_local s) k)"
  have l: "noise_keypair_lookup (sc_local s) (le32dec (drop 4 dg)) = (Some k, noise_keypair_ref k (sc_local s))"
    using assms(1) by (auto simp: noise_keypair_lookup_def acquire_keypair_def split: option.splits if_splits index_ref.splits)
  have types: "le32dec dg \<noteq> WGS_PKT_INITIATION" "le32dec dg \<noteq> WGS_PKT_RESPONSE" "le32dec dg \<noteq> WGS_PKT_COOKIE"
    using assms(2) by (simp_all add: WGS_PKT_DATA_def WGS_PKT_INITIATION_def WGS_PKT_RESPONSE_def WGS_PKT_COOKIE_def)
  have arg: "noise_remote_arg (noise_remote_ref ?r (noise_keypair_ref k (sc_local s))) ?r = r_arg (remotes (sc_local s) ?r)"
    by (simp add: noise_remote_arg_def noise_remote_ref_def noise_keypair_ref_def upd_remote_def upd_keypair_def)
  show ?thesis
    using assms(2,3) types l env room
    by (simp add: wg_input_def wg_packet_alloc_def input_data_def noise_keypair_remote_def arg wg_queue_both_def queue_both_serial_def
        queue_both_parallel_def wg_decrypt_dispatch_def Let_def upd_pk_def upd_queue_def insert_tail_def enqueue_task_def upd_local_def)
qed

text \<open>The upcalls that a function leaves alone or adds to.\<close>

lemma out_kept:
  "sc_out (upd_w i g s) = sc_out s" "sc_out (count c s) = sc_out s" "sc_out (upd_pk p f s) = sc_out s"
  "sc_out (emit x s) = sc_out s @ [x]" "sc_out (s\<lparr>sc_local := l\<rparr>) = sc_out s"
  "sc_out (wg_timers_event_data_received i s) = sc_out s"
  by (simp_all add: upd_w_def count_def upd_pk_def emit_def wg_timers_event_data_received_def)

lemma out_send: "x \<in> set (sc_out s) \<Longrightarrow> x \<in> set (sc_out (snd (wg_send env e m s)))"
  by (auto simp: wg_send_def Let_def out_kept)

lemma out_send_macs: "x \<in> set (sc_out s) \<Longrightarrow> x \<in> set (sc_out (wg_send_macs env i pkt s))"
  by (auto simp: wg_send_macs_def wg_peer_send_buf_def wg_send_buf_def Let_def case_prod_unfold out_kept out_send
      wg_timers_event_any_authenticated_packet_traversal_def wg_timers_event_any_authenticated_packet_sent_def split: option.split)

lemma out_want: "wg_timers_event_want_initiation cv env i s = Some t \<Longrightarrow> x \<in> set (sc_out s) \<Longrightarrow> x \<in> set (sc_out t)"
  by (auto simp: wg_timers_event_want_initiation_def wg_timers_run_send_initiation_def wg_send_initiation_def Let_def out_kept
      wg_timers_event_handshake_initiated_def out_send_macs split: if_splits option.splits)

lemma received_out:
  assumes "deliver_received cv env i p pkt m s = Some t" "pk_af pkt = Some f" "m_data m \<noteq> []"
  shows "Ip_in f (m_data m) \<in> set (sc_out t)"
  using assms by (auto simp: deliver_received_def bind_eq_Some_conv Let_def out_kept dest!: out_want split: if_splits)

lemma deliver_in_out:
  assumes "deliver_in_packet cv env i p s = Some t" "sc_pkt s p = Some pkt" "pk_state pkt = WG_PACKET_CRYPTED" "pk_mbuf pkt = Some m"
    "pk_keypair pkt = Some k" "fst (noise_keypair_nonce_check (keypairs (sc_local s) k) (pk_nonce pkt)) = OK" "pk_af pkt = Some f" "m_data m \<noteq> []"
  shows "Ip_in f (m_data m) \<in> set (sc_out t)"
proof -
  obtain kp where nc: "noise_keypair_nonce_check (keypairs (sc_local s) k) (pk_nonce pkt) = (OK, kp)"
    using assms(6) by (metis prod.collapse)
  obtain e' l where rw: "noise_keypair_received_with k (sc_local (upd_local (upd_keypair k (\<lambda>_. kp)) s)) = (e', l)" by fastforce
  obtain u where "deliver_received cv env i p pkt m u = Some t"
    using assms(1-5) nc rw by (auto simp: deliver_in_packet_def Let_def bind_eq_Some_conv split: if_splits)
  then show ?thesis by (rule received_out) (use assms(7,8) in simp_all)
qed

text \<open>The peer that a keypair of the interface belongs to, and an interface that takes the packet \<open>d\<close> from the keypair \<open>kp\<close> of
  another one: its keypair \<open>k\<close> matches and is alive, there is room in the queues, and the peer of \<open>k\<close> owns the source of \<open>d\<close>.\<close>

definition peer_of :: "'r wg_softc \<Rightarrow> nat \<Rightarrow> nat" where
  "peer_of s k = r_arg (remotes (sc_local s) (kp_remote (keypairs (sc_local s) k)))"

definition if_receives :: "'r radix \<Rightarrow> if_env \<Rightarrow> 'r wg_softc \<Rightarrow> nat \<Rightarrow> noise_keypair \<Rightarrow> bytes \<Rightarrow> bool" where
  "if_receives rx env s k kp d \<longleftrightarrow>
     fst (noise_keypair_lookup (sc_local s) (i_remote_index (kp_index kp))) = Some k \<and>
     kp_recv (keypairs (sc_local s) k) = kp_send kp \<and> kp_nonce_recv (keypairs (sc_local s) k) < REJECT_AFTER_MESSAGES \<and>
     \<not> timer_expired (e_uptime env) (kp_birthdate (keypairs (sc_local s) k)) REJECT_AFTER_TIME 0 \<and>
     (\<forall>l. e_pullup env l) \<and> e_unshare env \<and> e_pkt env \<and>
     wq_len (sc_queue s Decrypt_parallel) < MAX_QUEUED_PKT \<and> wq_len (sc_queue s (Decrypt_serial (peer_of s k))) < MAX_QUEUED_PKT \<and>
     source_peer rx s d = Some (peer_of s k)"

lemma nonce_check_ref:
  "fst (noise_keypair_nonce_check (keypairs (noise_keypair_ref k l) k) n) = fst (noise_keypair_nonce_check (keypairs l k) n)"
  by (simp add: noise_keypair_nonce_check_def noise_keypair_ref_def upd_keypair_def advance_window_def Let_def)

text \<open>The receiving half: the datagram that holds \<open>d\<close>, from its arrival to the network stack.\<close>

definition taken_in :: "'r radix \<Rightarrow> if_env \<Rightarrow> bytes \<Rightarrow> sockaddr \<Rightarrow> bytes \<Rightarrow> 'r wg_softc \<Rightarrow> nat \<Rightarrow> u64 \<Rightarrow> bytes \<Rightarrow> bool" where
  "taken_in rx env dg sa dst s k nonce d \<longleftrightarrow>
     (let p = sc_next_pkt s; i = peer_of s k; w = wg_input env dg sa dst s in
      held w Decrypt_parallel = held s Decrypt_parallel @ [p] \<and> held w (Decrypt_serial i) = held s (Decrypt_serial i) @ [p] \<and>
      (\<exists>u pkt m. wg_decrypt rx env p w = Some u \<and> sc_pkt u p = Some pkt \<and> pk_state pkt = WG_PACKET_CRYPTED \<and>
         pk_mbuf pkt = Some m \<and> m_data m = d \<and> pk_af pkt = Some (inner_af d) \<and> pk_nonce pkt = nonce \<and>
         (fst (noise_keypair_nonce_check (keypairs (sc_local s) k) nonce) = OK \<longrightarrow>
           (\<forall>cv env' v. deliver_in_packet cv env' i p u = Some v \<longrightarrow> Ip_in (inner_af d) d \<in> set (sc_out v)))))"

lemma datagram_taken_in:
  assumes d: "inner_ip_len d = int (length d)" and receiver: "if_receives rx env s k kp d" "sa \<noteq> Sa_other"
    and dg: "dg = data_dg kp nonce (d @ replicate n 0)"
  shows "taken_in rx env dg sa dst s k nonce d"
proof -
  let ?q = "sc_next_pkt s" and ?i = "peer_of s k" and ?w = "wg_input env dg sa dst s"
  have f: "le32dec dg = WGS_PKT_DATA" "le32dec (drop 4 dg) = i_remote_index (kp_index kp)" "32 \<le> length dg"
    by (simp_all add: dg data_dg_fields)
  have r: "fst (noise_keypair_lookup (sc_local s) (le32dec (drop 4 dg))) = Some k"
    "\<And>l. e_pullup env l" "e_unshare env" "e_pkt env" "wq_len (sc_queue s Decrypt_parallel) < MAX_QUEUED_PKT"
    "wq_len (sc_queue s (Decrypt_serial (r_arg (remotes (sc_local s) (kp_remote (keypairs (sc_local s) k)))))) < MAX_QUEUED_PKT"
    using receiver(1) f by (simp_all add: if_receives_def peer_of_def)
  obtain pkt where w: "sc_pkt ?w ?q = Some pkt" "pk_keypair pkt = Some k" "pk_mbuf pkt = Some \<lparr>m_data = dg, m_cap = length dg\<rparr>"
    "held ?w Decrypt_parallel = held s Decrypt_parallel @ [?q]" "held ?w (Decrypt_serial ?i) = held s (Decrypt_serial ?i) @ [?q]"
    "sc_aip ?w = sc_aip s" "sc_aip4 ?w = sc_aip4 s" "sc_aip6 ?w = sc_aip6 s"
    "keypairs (sc_local ?w) = keypairs (noise_keypair_ref k (sc_local s))"
    "\<And>r. r_arg (remotes (sc_local ?w) r) = r_arg (remotes (sc_local s) r)"
    using wg_input_data [OF r(1) f(1,3) r(2-4) receiver(2) r(5,6), where dst = dst] unfolding peer_of_def by blast
  have src: "source_peer rx ?w d = Some (r_arg (remotes (sc_local ?w) (kp_remote (keypairs (sc_local ?w) k))))"
    using receiver(1) w(6-10) by (cases "inner_af d") (simp_all add: if_receives_def source_peer_def peer_of_def)
  have kp: "kp_recv (keypairs (sc_local ?w) k) = kp_send kp" "kp_nonce_recv (keypairs (sc_local ?w) k) < REJECT_AFTER_MESSAGES"
    "\<not> timer_expired (e_uptime env) (kp_birthdate (keypairs (sc_local ?w) k)) REJECT_AFTER_TIME 0"
    using receiver(1) w(9) by (simp_all add: if_receives_def)
  have md: "m_data \<lparr>m_data = dg, m_cap = length dg\<rparr> = data_dg kp nonce (d @ replicate n 0)" using dg by simp
  obtain u m where u: "wg_decrypt rx env ?q ?w = Some u" "m_data m = d" "keypairs (sc_local u) = keypairs (sc_local ?w)"
    "sc_pkt u ?q = Some (pkt\<lparr>pk_nonce := nonce, pk_mbuf := Some m, pk_af := Some (inner_af d), pk_state := WG_PACKET_CRYPTED\<rparr>)"
    using wg_decrypt_result [OF w(1-3) md kp d r(2) src] by blast
  have ne: "d \<noteq> []" using d by (auto simp: inner_ip_len_def)
  have out: "Ip_in (inner_af d) d \<in> set (sc_out v)"
    if "fst (noise_keypair_nonce_check (keypairs (sc_local s) k) nonce) = OK" "deliver_in_packet cv env' ?i ?q u = Some v" for cv env' v
    using deliver_in_out [OF that(2) u(4), where m = m and k = k and f = "inner_af d"] u(2,3) w(2,9) that(1) ne by (simp add: nonce_check_ref)
  show ?thesis
    unfolding taken_in_def Let_def
    using w(4,5) u out
    by (intro conjI exI [of _ u] exI [of _ m]
        exI [of _ "pkt\<lparr>pk_nonce := nonce, pk_mbuf := Some m, pk_af := Some (inner_af d), pk_state := WG_PACKET_CRYPTED\<rparr>"]) simp_all
qed

text \<open>The sending half: what a worker makes of the packet \<open>p\<close>.\<close>

lemma packet_sent:
  assumes "sc_pkt s p = Some pkt" "pk_keypair pkt = Some k" "pk_mbuf pkt = Some m" "0 \<le> pk_mtu pkt" "e_append env" "e_prepend env"
    and "m_data m = d"
  shows "\<exists>t c n. wg_encrypt env p s = Some t \<and> sc_pkt t p = Some (pkt\<lparr>pk_mbuf := Some c, pk_state := WG_PACKET_CRYPTED\<rparr>) \<and>
    n < 16 \<and> m_data c = data_dg (keypairs (sc_local s) k) (pk_nonce pkt) (d @ replicate n 0)"
proof -
  define n where "n = nat (calculate_padding (pk_mtu pkt) (int (length d)))"
  have "n < 16" using padding_bounds(1,2) [OF assms(4), of "int (length d)"] by (simp add: n_def)
  then show ?thesis using wg_encrypt_result [OF assms(1-3,5,6)] assms(7) unfolding n_def by blast
qed


lemma padded_dg: "data_dg kp nonce (padded_packet d) = data_dg kp nonce (d @ replicate (padded_len (length d) - length d) 0)"
  by (simp add: padded_packet_def)

text \<open>C11: The interface and a session understand each other. The datagram that a worker of the interface makes of a packet makes a
  session with the matching keypair deliver exactly that packet, and the datagram that a session makes of a packet is taken in by an
  interface with the matching keypair as exactly that packet.\<close>

theorem if_session_compatible:
  assumes "sc_pkt s p = Some pkt" "pk_keypair pkt = Some k" "pk_mbuf pkt = Some m" "0 \<le> pk_mtu pkt" "e_append env" "e_prepend env"
    and d: "m_data m = d" "inner_ip_len d = int (length d)" "length d \<le> 2000"
    and session: "noise_reach cv (s_local t)" "can_receive env1 t k1 (keypairs (sc_local s) k)" "cb_deliver_ip (s_cb t)"
      "owner_of t k1 < length (s_peers t)" "session_lookup_inner_src t d = Some (owner_of t k1)"
    and sends: "session_lookup_dst v d = Some i" "can_send env2 v i k2"
    and takes: "if_receives rx env3 w k3 (keypairs (s_local v) k2) d" "sa \<noteq> Sa_other"
  shows "(\<exists>s' c t'. wg_encrypt env p s = Some s' \<and> sc_pkt s' p = Some (pkt\<lparr>pk_mbuf := Some c, pk_state := WG_PACKET_CRYPTED\<rparr>) \<and>
      wg_session_handle_udp cv env1 (m_data c) from_sa from_len t = Some (0, t') \<and> s_out t' = s_out t @ [Deliver_ip d]) \<and>
    (\<exists>dg v'. wg_session_handle_tun env2 d v = Some (0, v') \<and>
      s_out v' = s_out v @ [Send_udp dg (p_endpoint (s_peers v ! i)) (p_endpoint_len (s_peers v ! i))] \<and>
      taken_in rx env3 dg sa dst w k3 (kp_nonce_send (keypairs (s_local v) k2)) d)"
proof (intro conjI)
  obtain s' c n where s': "wg_encrypt env p s = Some s'" "sc_pkt s' p = Some (pkt\<lparr>pk_mbuf := Some c, pk_state := WG_PACKET_CRYPTED\<rparr>)"
    "m_data c = data_dg (keypairs (sc_local s) k) (pk_nonce pkt) (d @ replicate n 0)"
    using packet_sent [OF assms(1-7)] by blast
  obtain t' where "wgs_receive (owner_of t k1) (d @ replicate n 0) from_sa from_len t = (0, t')" "s_out t' = s_out t @ [Deliver_ip d]"
    using wgs_receive_ok [OF d(2) session(5,3,4)] by blast
  then show "\<exists>s' c t'. wg_encrypt env p s = Some s' \<and> sc_pkt s' p = Some (pkt\<lparr>pk_mbuf := Some c, pk_state := WG_PACKET_CRYPTED\<rparr>) \<and>
      wg_session_handle_udp cv env1 (m_data c) from_sa from_len t = Some (0, t') \<and> s_out t' = s_out t @ [Deliver_ip d]"
    using s' handle_udp_data [OF session(1) data_dg_ok [OF session(2)], of "pk_nonce pkt" "d @ replicate n 0" from_sa from_len]
    by (intro exI [of _ s'] exI [of _ c]) simp
next
  have "\<not> length d < 1" using sends(1) by (auto simp: session_lookup_dst_def)
  then have "wg_session_handle_tun env2 d v = wgs_encap env2 i d v" by (simp add: wg_session_handle_tun_def sends(1))
  moreover note encap_sends [OF sends(2) d(3)] datagram_taken_in [OF d(2) takes, of "data_dg (keypairs (s_local v) k2)
    (kp_nonce_send (keypairs (s_local v) k2)) (padded_packet d)" _ "padded_len (length d) - length d" dst, OF padded_dg]
  ultimately show "\<exists>dg v'. wg_session_handle_tun env2 d v = Some (0, v') \<and>
      s_out v' = s_out v @ [Send_udp dg (p_endpoint (s_peers v ! i)) (p_endpoint_len (s_peers v ! i))] \<and>
      taken_in rx env3 dg sa dst w k3 (kp_nonce_send (keypairs (s_local v) k2)) d"
    by fastforce
qed

subsection \<open>Nothing that was not authenticated\<close>

lemma decrypted_authentic:
  assumes "decrypted rx env i (e, m) s = (mo, f, WG_PACKET_CRYPTED, t)"
  shows "e = OK \<and> (\<exists>m'. mo = Some m' \<and> (m_data m = [] \<and> m_data m' = [] \<or>
    m_data m \<noteq> [] \<and> source_peer rx s (m_data m) = Some i \<and> f = Some (inner_af (m_data m)) \<and> (\<exists>n. m_data m' = take n (m_data m))))"
proof -
  consider "e \<noteq> OK" | "e = OK" "m_data m = []" | "e = OK" "m_data m \<noteq> []" by blast
  then show ?thesis
  proof cases
    case 1
    then show ?thesis using assms by (simp add: decrypted_def)
  next
    case 2
    then show ?thesis using assms by (auto simp: decrypted_def)
  next
    case 3
    obtain fam where fam: "determine_af_and_pullup env m = (OK, Some fam, Some m)" "inner_af (m_data m) = fam"
      using assms 3 by (auto simp: decrypted_def determine_af_and_pullup_def inner_af_def Let_def split: if_splits)
    obtain a m' u where src: "inner_source rx fam m s = (a, m', u)" by (metis prod_cases3)
    have r: "a = Some i" "mo = Some m'" "f = Some fam" using assms 3 fam(1) src by (auto simp: decrypted_def Let_def split: if_splits)
    have cut: "\<exists>n. m_data (m_adj m y) = take n (m_data m)" if "y < 0" for y using that by (auto simp: m_adj_def Let_def)
    have whole: "\<exists>n. m_data m = take n (m_data m)" by (rule exI [of _ "length (m_data m)"]) simp
    have "source_peer rx s (m_data m) = Some i \<and> (\<exists>n. m_data m' = take n (m_data m))"
    proof (cases fam)
      case AF_INET
      then show ?thesis
        using src r(1) fam(2) cut whole wg_aip_lookup_fst [of rx AF_INET "drop 12 (m_data m)" s]
        by (auto simp: inner_source_def source_peer_def aip_root_def Let_def split: prod.splits if_splits)
    next
      case AF_INET6
      then show ?thesis
        using src r(1) fam(2) cut whole wg_aip_lookup_fst [of rx AF_INET6 "drop 8 (m_data m)" s]
        by (auto simp: inner_source_def source_peer_def aip_root_def Let_def split: prod.splits if_splits)
    qed
    then show ?thesis using 3 r fam(2) by simp
  qed
qed

text \<open>C8: A worker lets nothing through that was not authenticated. When a worker leaves a packet for delivery, the keypair of the packet is
  alive, the datagram carries a tag that is valid under its receiving key for the counter of the datagram, which is the counter that the
  delivery task checks, and the content is empty or an IP packet, cut at most, whose source belongs to the peer of this very keypair.\<close>

theorem if_decrypt_authentic:
  assumes "wg_decrypt rx env p s = Some t" "sc_pkt t p = Some out" "pk_state out = WG_PACKET_CRYPTED"
  shows "\<exists>pkt k m plain m'. sc_pkt s p = Some pkt \<and> pk_keypair pkt = Some k \<and> pk_keypair out = Some k \<and> pk_mbuf pkt = Some m \<and>
    pk_mbuf out = Some m' \<and> pk_nonce out = le64dec (drop 8 (m_data m)) \<and>
    drop 16 (m_data m) = chacha20_poly1305_encrypt plain [] (le64enc (pk_nonce out)) (kp_recv (keypairs (sc_local s) k)) \<and>
    kp_nonce_recv (keypairs (sc_local s) k) < REJECT_AFTER_MESSAGES \<and>
    \<not> timer_expired (e_uptime env) (kp_birthdate (keypairs (sc_local s) k)) REJECT_AFTER_TIME 0 \<and>
    (plain = [] \<and> m_data m' = [] \<or>
     plain \<noteq> [] \<and> source_peer rx s plain = Some (peer_of s k) \<and> pk_af out = Some (inner_af plain) \<and> (\<exists>n. m_data m' = take n plain))"
proof -
  obtain pkt k m where w: "work_of p s = Some (pkt, k, m)" using assms(1) by (auto simp: wg_decrypt_def)
  then have pk: "sc_pkt s p = Some pkt" "pk_keypair pkt = Some k" "pk_mbuf pkt = Some m" by (auto simp: work_of_def bind_eq_Some_conv)
  obtain r l where r: "noise_keypair_remote k (sc_local s) = (r, l)" by fastforce
  then have l: "keypairs l = keypairs (sc_local s)" "noise_remote_arg l r = peer_of s k"
    by (auto simp: noise_keypair_remote_def noise_remote_arg_def noise_remote_ref_def upd_remote_def peer_of_def)
  let ?n = "le64dec (drop 8 (m_data m))" and ?kp = "keypairs (sc_local s) k"
  let ?s = "upd_pk p (\<lambda>x. x\<lparr>pk_nonce := ?n\<rparr>) (s\<lparr>sc_local := l\<rparr>)"
  obtain e m1 where d: "noise_keypair_decrypt ?kp ?n (m_adj m 16) (e_uptime env) = (e, m1)" by fastforce
  obtain mo f st u where u: "decrypted rx env (peer_of s k) (e, m1) ?s = (mo, f, st, u)" by (metis prod_cases4)
  have "sc_pkt u = sc_pkt ?s" using decrypted_facts(1) [OF u] by (simp add: same_packets_def)
  then have out: "out = pkt\<lparr>pk_nonce := ?n, pk_mbuf := mo, pk_af := f, pk_state := st\<rparr>"
    using assms(1,2) w pk(1) r l d u by (auto simp: wg_decrypt_def upd_pk_def upd_local_def enqueue_task_def)
  then have st: "st = WG_PACKET_CRYPTED" using assms(3) by simp
  obtain m' where m': "e = OK" "mo = Some m'" "m_data m1 = [] \<and> m_data m' = [] \<or>
    m_data m1 \<noteq> [] \<and> source_peer rx ?s (m_data m1) = Some (peer_of s k) \<and> f = Some (inner_af (m_data m1)) \<and> (\<exists>n. m_data m' = take n (m_data m1))"
    using decrypted_authentic [OF u [unfolded st]] by blast
  have sp: "source_peer rx ?s x = source_peer rx s x" for x by (simp add: source_peer_def upd_pk_def cong: af.case_cong)
  have adj: "m_data (m_adj m 16) = drop 16 (m_data m)" by (simp add: m_adj_def Let_def)
  have "chacha20_poly1305_decrypt (drop 16 (m_data m)) [] (le64enc ?n) (kp_recv ?kp) = Some (m_data m1) \<and>
      kp_nonce_recv ?kp < REJECT_AFTER_MESSAGES \<and> \<not> timer_expired (e_uptime env) (kp_birthdate ?kp) REJECT_AFTER_TIME 0"
    using d m'(1) by (auto simp: noise_keypair_decrypt_def decrypt_mbuf_buffer adj split: if_splits option.splits)
  then show ?thesis
    using pk out m'(2,3) sp by (intro exI [of _ pkt] exI [of _ k] exI [of _ m] exI [of _ "m_data m1"] exI [of _ m']) (simp add: box.open_iff)
qed

subsection \<open>Concrete interfaces\<close>

text \<open>A radix tree as a list of addresses with their masks and entries.\<close>

definition demo_radix :: "(bytes \<times> bytes \<times> nat) list radix" where
  "demo_radix = \<lparr>rn_inithead = (\<lambda>_. Some []), rnh_addaddr = (\<lambda>a m x rt. (True, (a, m, x) # rt)),
     rnh_lookup = (\<lambda>a m rt. map_option (\<lambda>e. snd (snd e)) (List.find (\<lambda>(b, n, _). b = a \<and> n = m) rt)),
     rnh_deladdr = (\<lambda>a m rt. Some (List.filter (\<lambda>(b, n, _). \<not> (b = a \<and> n = m)) rt)),
     rnh_matchaddr = (\<lambda>a rt. map_option (\<lambda>e. snd (snd e)) (List.find (\<lambda>(b, m, _). map2 (AND) a m = b) rt)),
     in6_prefixlen2mask = (\<lambda>n. replicate (n div 8) 255 @ replicate (16 - n div 8) 0),
     in6_mask2len = (\<lambda>m. 8 * length (takeWhile (\<lambda>b. b = 255) m)), bitcount32 = (\<lambda>w. length (List.filter (bit w) [0..<32]))\<rparr>"

definition demo_ents :: "(bytes \<times> bytes \<times> nat) list \<Rightarrow> nat set" where
  "demo_ents rt = (\<lambda>e. snd (snd e)) ` set rt"

lemma find_in_ents: "map_option (\<lambda>e. snd (snd e)) (List.find P rt) = Some y \<Longrightarrow> y \<in> demo_ents rt"
proof -
  assume "map_option (\<lambda>e. snd (snd e)) (List.find P rt) = Some y"
  then obtain e where e: "List.find P rt = Some e" "y = snd (snd e)" by auto
  then have "e \<in> set rt" by (auto simp: find_Some_iff)
  then show ?thesis using e(2) by (simp add: demo_ents_def)
qed

lemma demo_radix_ok: "radix_ok demo_radix demo_ents"
proof -
  have e: "demo_ents [] = {}" "demo_ents ((a, m, x) # rt) = insert x (demo_ents rt)" "demo_ents (List.filter P rt) \<subseteq> demo_ents rt" for a m x rt P
    by (auto simp: demo_ents_def)
  show ?thesis
    unfolding radix_ok_def demo_radix_def radix.simps
    by (intro conjI allI impI) (simp_all only: e prod.inject option.inject if_True find_in_ents, auto simp: e dest: find_in_ents simp del: map_option_eq_Some)
qed

text \<open>An interface over the noise state \<open>l\<close> with the packets \<open>ps\<close>, all in the queue \<open>ser i\<close> and those that are not finished also in
  the queue \<open>par\<close>; every IPv4 address belongs to peer \<open>j\<close>.\<close>

definition demo_if :: "noise_local \<Rightarrow> nat \<Rightarrow> nat \<Rightarrow> queue_ref \<Rightarrow> queue_ref \<Rightarrow> wg_packet list \<Rightarrow> (bytes \<times> bytes \<times> nat) list wg_softc" where
  "demo_if l n j par ser ps =
     \<lparr>sc_running = True, sc_dying = False, sc_ucred = True, sc_mtu = 1420, sc_link_up = True,
      sc_socket = \<lparr>so_so4 = True, so_so6 = True, so_user_cookie = 0, so_fibnum = 0, so_port = 51820\<rparr>,
      sc_peers = [0], sc_peers_num = 1, sc_peer = (\<lambda>_. new_peer 0 []), sc_next_peer = n,
      sc_local = l, sc_cookie = cookie_checker_init, sc_globals = e_globals demo_env, sc_last_underload = 0,
      sc_aip4 = [(replicate 4 0, replicate 4 0, 0)], sc_aip6 = [],
      sc_aip = (\<lambda>_. \<lparr>a_addr = replicate 4 0, a_mask = replicate 4 0, a_peer = j, a_af = AF_INET\<rparr>), sc_next_aip = 1,
      sc_queue = (\<lambda>q. if q = ser then \<lparr>wq_list = [0..<length ps], wq_len = length ps\<rparr>
        else if q = par then (let u = List.filter (\<lambda>p. pk_state (ps ! p) = WG_PACKET_UNCRYPTED) [0..<length ps] in \<lparr>wq_list = u, wq_len = length u\<rparr>)
        else wg_queue_init),
      sc_pkt = (\<lambda>p. if p < length ps then Some (ps ! p) else None), sc_next_pkt = length ps, sc_tasks = {},
      sc_ncpus = 2, sc_encrypt_last_cpu = 0, sc_decrypt_last_cpu = 0,
      sc_counters = \<lparr>ic_ipackets = 0, ic_ibytes = 0, ic_opackets = 0, ic_obytes = 0, ic_ierrors = 0, ic_oerrors = 0,
         ic_iqdrops = 0, ic_oqdrops = 0\<rparr>,
      sc_out = []\<rparr>"

definition demo_pk :: "nat \<Rightarrow> u64 \<Rightarrow> bytes \<Rightarrow> wg_ring_state \<Rightarrow> wg_packet" where
  "demo_pk k c d st = \<lparr>pk_endpoint = no_endpoint, pk_keypair = Some k, pk_nonce = c, pk_mbuf = Some \<lparr>m_data = d, m_cap = length d\<rparr>,
     pk_mtu = 1420, pk_af = Some AF_INET, pk_state = st\<rparr>"

definition demo_if_env :: if_env where
  "demo_if_env = env.extend demo_env (if_env.fields True (\<lambda>_. True) True True True (\<lambda>_ _. OK) 0 False False (replicate 24 0) (replicate 32 0))"

lemma demo_if_env_fields [simp]:
  "e_uptime demo_if_env = 5" "e_append demo_if_env" "e_prepend demo_if_env" "e_pullup demo_if_env n" "e_unshare demo_if_env" "e_pkt demo_if_env"
  by (simp_all add: demo_if_env_def env.defs if_env.defs demo_env_def)

lemma reach_windows: "noise_reach cv l \<Longrightarrow> windows_ok l"
proof (induction rule: noise_reach.induct)
  case (init arg hash_key)
  show ?case by (simp add: windows_ok_def noise_local_alloc_def)
next
  case (step l l')
  then show ?case using steps_windows [of cv l l'] by blast
qed

text \<open>The noise state of a responder whose session is new.\<close>

lemma demo_noise_session:
  "\<exists>l k a b n. noise_reach demo_curve l \<and> session_at l 0 k 0 False a b \<and> k < next_keypair l \<and>
     0 < next_remote l \<and> 0 < n \<and> (\<forall>r < next_remote l. noise_remote_arg l r < n)"
proof -
  obtain l k a b where l: "noise_reach demo_curve l" "session_at l 0 k 0 False a b" using demo_responder by blast
  have inv: "noise_inv l" using l(1) by (rule noise_reach_inv)
  have "r_next (remotes l 0) = Some k" using l(2) by (simp add: session_at_def)
  then have k: "k \<in> set (slots (remotes l 0))" by (simp add: in_slots)
  then have "k < next_keypair l" "0 < next_remote l"
    using inv unfolding noise_inv_def slot_ok_def fresh_ok_def by (blast, metis not_gr0 le0 empty_iff list.set(1))
  moreover have "\<exists>n > 0. \<forall>r < next_remote l. noise_remote_arg l r < n"
    by (rule exI [of _ "Suc (Max (insert 0 (noise_remote_arg l ` {..<next_remote l})))"]) (auto simp: less_Suc_eq_le)
  ultimately show ?thesis using l by blast
qed

lemma demo_if_inv:
  assumes "noise_reach demo_curve l" "k < next_keypair l" "0 < next_remote l" "0 < n" "\<forall>r < next_remote l. noise_remote_arg l r < n"
    and q: "par = Encrypt_parallel \<and> ser = Encrypt_serial i \<or> par = Decrypt_parallel \<and> ser = Decrypt_serial i" "i < n" "j < n"
    and ps: "length ps \<le> MAX_QUEUED_PKT" "\<forall>pkt \<in> set ps. \<exists>c d st. pkt = demo_pk k c d st"
  shows "if_inv demo_curve demo_ents \<lparr>y_sc = demo_if l n j par ser ps, y_enc = {}, y_dec = {}\<rparr>"
proof -
  let ?s = "demo_if l n j par ser ps"
  have pk: "\<exists>c d st. ps ! p = demo_pk k c d st" if "p < length ps" for p using ps(2) that by simp
  have "if_base demo_curve demo_ents ?s"
    using assms(1-5) reach_windows [OF assms(1)] q(3) pk
    by (fastforce simp: if_base_def if_links_def keypairs_ok_def aips_ok_def demo_if_def demo_ents_def new_peer_def demo_pk_def split: if_splits)
  moreover have "owns {} {} {} ?s"
  proof (rule ownsI [of "\<lambda>p. if p < length ps then Some (Queued ser) else None"])
    show "queues_ok ?s"
      using q(1) ps(1) by (auto simp: queues_ok_def demo_if_def wg_queue_init_def Let_def intro: le_trans [OF length_filter_le])
    show "placed (\<lambda>p. if p < length ps then Some (Queued ser) else None) ?s"
      using q pk by (fastforce simp: placed_def demo_if_def wg_queue_init_def demo_pk_def split: if_splits)
    show "working Encrypt_parallel Encrypt_serial {} (\<lambda>p. if p < length ps then Some (Queued ser) else None) ?s"
      "working Decrypt_parallel Decrypt_serial {} (\<lambda>p. if p < length ps then Some (Queued ser) else None) ?s"
      using q(1) by (auto simp: working_def demo_if_def wg_queue_init_def Let_def)
  qed auto
  ultimately show ?thesis by (simp add: if_inv_def)
qed




text \<open>The keypair of a sender for the keypair \<open>k\<close> of the noise state \<open>l\<close>, an interface that holds it, and one that receives.\<close>

definition demo_kp :: "noise_local \<Rightarrow> nat \<Rightarrow> u32 \<Rightarrow> noise_keypair" where
  "demo_kp l k a = demo_keypair\<lparr>kp_send := kp_recv (keypairs l k), kp_index := \<lparr>i_local_index = 9, i_remote_index = a, i_is_keypair = True\<rparr>\<rparr>"

definition demo_tx :: "noise_local \<Rightarrow> nat \<Rightarrow> u32 \<Rightarrow> (bytes \<times> bytes \<times> nat) list wg_softc" where
  "demo_tx l k a = demo_if ((noise_local_alloc 0 [])\<lparr>keypairs := (\<lambda>_. demo_kp l k a)\<rparr>) 1 0 Encrypt_parallel (Encrypt_serial 0)
     [demo_pk 0 0 demo_packet WG_PACKET_UNCRYPTED]"

definition demo_rx :: "noise_local \<Rightarrow> (bytes \<times> bytes \<times> nat) list wg_softc" where
  "demo_rx l = demo_if l 1 (r_arg (remotes l 0)) Decrypt_parallel (Decrypt_serial 0) []"

lemma demo_tx_facts:
  "sc_pkt (demo_tx l k a) 0 = Some (demo_pk 0 0 demo_packet WG_PACKET_UNCRYPTED)" "keypairs (sc_local (demo_tx l k a)) 0 = demo_kp l k a"
  "pk_keypair (demo_pk 0 0 demo_packet WG_PACKET_UNCRYPTED) = Some 0" "0 \<le> pk_mtu (demo_pk 0 0 demo_packet WG_PACKET_UNCRYPTED)"
  "pk_mbuf (demo_pk 0 0 demo_packet WG_PACKET_UNCRYPTED) = Some \<lparr>m_data = demo_packet, m_cap = length demo_packet\<rparr>"
  "pk_nonce (demo_pk 0 0 demo_packet WG_PACKET_UNCRYPTED) = 0" "m_data \<lparr>m_data = demo_packet, m_cap = length demo_packet\<rparr> = demo_packet"
  by (simp_all add: demo_tx_def demo_if_def demo_pk_def)

lemma demo_packet_len: "inner_ip_len demo_packet = int (length demo_packet)" "inner_af demo_packet = AF_INET"
  using demo_packet_facts by (simp_all add: inner_af_def)

lemma demo_receiver:
  "\<exists>l k a. noise_reach demo_curve l \<and> if_receives demo_radix demo_if_env (demo_rx l) k (demo_kp l k a) demo_packet \<and>
     fst (noise_keypair_nonce_check (keypairs l k) 0) = OK \<and> owner_of (demo_wire l (r_arg (remotes l 0))) k = r_arg (remotes l 0) \<and>
     can_receive demo_env (demo_wire l (r_arg (remotes l 0))) k (demo_kp l k a)"
proof -
  obtain l k a b where l: "noise_reach demo_curve l" "session_at l 0 k 0 False a b" "k < next_keypair l"
    using demo_noise_session by blast
  have x: "kp_remote (keypairs l k) = 0" "kp_refcnt (keypairs l k) = 1" "i_local_index (kp_index (keypairs l k)) = a"
    "kp_nonce_recv (keypairs l k) = 0" "kp_birthdate (keypairs l k) = 0" "r_next (remotes l 0) = Some k"
    using l(2) by (simp_all add: session_at_def)
  have "k \<in> set (slots (remotes l 0))" using x(6) by (simp add: in_slots)
  then have lk: "fst (noise_keypair_lookup l a) = Some k" using keypair_lookup_parts(1) [OF l(1), of a k] x by simp
  have src: "source_peer demo_radix (demo_rx l) demo_packet = Some (r_arg (remotes l 0))"
    by (simp add: source_peer_def demo_packet_len demo_radix_def demo_if_def demo_rx_def) (simp add: demo_packet_def)
  have t: "sc_local (demo_rx l) = l" "wq_len (sc_queue (demo_rx l) q) = 0" for q by (simp_all add: demo_rx_def demo_if_def wg_queue_init_def)
  have rec: "if_receives demo_radix demo_if_env (demo_rx l) k (demo_kp l k a) demo_packet"
    using x src lk t
    by (simp add: if_receives_def peer_of_def demo_kp_def reject_pos timer_expired_def REJECT_AFTER_TIME_def SBT_1S_def nstosbt_def MAX_QUEUED_PKT_def)
  obtain seen where w: "window_rel (keypairs l k) seen" using reach_windows [OF l(1)] l(3) by (auto simp: windows_ok_def)
  have nc: "fst (noise_keypair_nonce_check (keypairs l k) 0) = OK"
    using nonce_check_step [OF w, of 0] w x(4) by (auto simp: acceptable_def window_rel_def reject_after_def split: if_splits)
  have "keypairs (s_local (demo_sender l k a)) 0 = demo_kp l k a" by (simp add: demo_sender_def demo_kp_def)
  then have cr: "can_receive demo_env (demo_wire l (r_arg (remotes l 0))) k (demo_kp l k a)" using demo_can_receive [OF l(1,2)] by metis
  have "owner_of (demo_wire l (r_arg (remotes l 0))) k = r_arg (remotes l 0)" by (simp add: owner_of_def x(1))
  then show ?thesis using l(1) rec nc cr by blast
qed


lemma if_session_compatible_witness:
  "\<exists>l k a s' c t' v' dg i. wg_encrypt demo_if_env 0 (demo_tx l k a) = Some s' \<and> map_option pk_mbuf (sc_pkt s' 0) = Some (Some c) \<and>
     wg_session_handle_udp demo_curve demo_env (m_data c) Sa_other 16 (demo_wire l i) = Some (0, t') \<and> s_out t' = [Deliver_ip demo_packet] \<and>
     wg_session_handle_tun demo_env demo_packet (demo_sender l k a) = Some (0, v') \<and> s_out v' = [Send_udp dg Sa_other 16] \<and>
     taken_in demo_radix demo_if_env dg (Sin [10, 0, 0, 1] [0, 0]) [] (demo_rx l) k 0 demo_packet"
proof -
  obtain l k a where l: "noise_reach demo_curve l" "if_receives demo_radix demo_if_env (demo_rx l) k (demo_kp l k a) demo_packet"
    "owner_of (demo_wire l (r_arg (remotes l 0))) k = r_arg (remotes l 0)"
    "can_receive demo_env (demo_wire l (r_arg (remotes l 0))) k (demo_kp l k a)"
    using demo_receiver by blast
  note f = demo_tx_facts(1,2) [of l k a] demo_tx_facts(3-7)
  let ?t = "demo_wire l (r_arg (remotes l 0))"
  have sa: "Sin [10, 0, 0, 1] [0, 0] \<noteq> Sa_other" by simp
  have t: "noise_reach demo_curve (s_local ?t)" "cb_deliver_ip (s_cb ?t)" "owner_of ?t k < length (s_peers ?t)"
    "session_lookup_inner_src ?t demo_packet = Some (owner_of ?t k)" "length demo_packet \<le> 2000"
    using l(1,3) by (simp_all add: demo_wire_lookup demo_packet_facts)
  have v: "session_lookup_dst (demo_sender l k a) demo_packet = Some 0" "s_out (demo_sender l k a) = []"
    "s_peers (demo_sender l k a) ! 0 = zero_peer\<lparr>p_endpoint_len := 16, p_remote := Some 0\<rparr>"
    "keypairs (s_local (demo_sender l k a)) 0 = demo_kp l k a" "kp_nonce_send (demo_kp l k a) = 0"
    by (simp_all add: demo_sender_def demo_wire_lookup demo_kp_def demo_keypair_def)
  note c = if_session_compatible [OF f(1,3,5,4) demo_if_env_fields(2,3) f(7) demo_packet_len(1) t(5) t(1) l(4) [folded f(2)] t(2-4) v(1)
    demo_can_send l(2) [folded v(4)] sa, where dst = "[]" and from_sa = Sa_other and from_len = 16]
  show ?thesis
    by (rule exI [of _ l], rule exI [of _ k], rule exI [of _ a]) (use c v in \<open>fastforce simp: zero_peer_def\<close>)
qed

lemma if_decrypt_authentic_witness:
  "\<exists>(s :: (bytes \<times> bytes \<times> nat) list wg_softc) t k plain. wg_decrypt demo_radix demo_if_env 0 s = Some t \<and>
     map_option (\<lambda>m. drop 16 (m_data m)) (Option.bind (sc_pkt s 0) pk_mbuf) =
       Some (chacha20_poly1305_encrypt plain [] (le64enc 0) (kp_recv (keypairs (sc_local s) k))) \<and>
     source_peer demo_radix s plain = Some (peer_of s k)"
proof -
  obtain l k a where l: "if_receives demo_radix demo_if_env (demo_rx l) k (demo_kp l k a) demo_packet"
    using demo_receiver by blast
  have sa: "Sin [10, 0, 0, 1] [0, 0] \<noteq> Sa_other" by simp
  have q: "sc_next_pkt (demo_rx l) = 0" by (simp add: demo_rx_def demo_if_def)
  obtain s where "taken_in demo_radix demo_if_env (data_dg (demo_kp l k a) 0 (demo_packet @ replicate 0 0)) (Sin [10, 0, 0, 1] [0, 0]) []
      (demo_rx l) k 0 demo_packet" "s = wg_input demo_if_env (data_dg (demo_kp l k a) 0 (demo_packet @ replicate 0 0)) (Sin [10, 0, 0, 1] [0, 0]) [] (demo_rx l)"
    using datagram_taken_in [OF demo_packet_len(1) l sa refl] by blast
  then obtain u pkt m where u: "wg_decrypt demo_radix demo_if_env 0 s = Some u" "sc_pkt u 0 = Some pkt"
    "pk_state pkt = WG_PACKET_CRYPTED" "pk_mbuf pkt = Some m" "m_data m = demo_packet" "pk_nonce pkt = 0"
    unfolding taken_in_def Let_def q by blast
  have "demo_packet \<noteq> []" by (simp add: demo_packet_def)
  then show ?thesis using if_decrypt_authentic [OF u(1-3)] u by (intro exI [of _ s] exI [of _ u]) fastforce
qed

text \<open>The delivery of a keepalive at a peer whose timers are off.\<close>

lemma keepalive_delivered:
  assumes "sc_pkt s p = Some pkt" "pk_state pkt = WG_PACKET_CRYPTED" "pk_mbuf pkt = Some m" "m_data m = []" "pk_keypair pkt = Some k"
    "fst (noise_keypair_nonce_check (keypairs (sc_local s) k) (pk_nonce pkt)) = OK" "\<not> w_enabled (sc_peer s i)"
  shows "\<exists>t. deliver_in_packet cv env i p s = Some t \<and> ic_ierrors (sc_counters t) = ic_ierrors (sc_counters s) \<and> sc_pkt t = (sc_pkt s)(p := None)"
proof -
  obtain kp where nc: "noise_keypair_nonce_check (keypairs (sc_local s) k) (pk_nonce pkt) = (OK, kp)"
    using assms(6) by (metis prod.collapse)
  let ?s = "upd_local (upd_keypair k (\<lambda>_. kp)) s"
  obtain e l where rw: "noise_keypair_received_with k (sc_local ?s) = (e, l)" by fastforce
  have rec: "\<exists>t. deliver_received cv env i p pkt m u = Some t \<and> ic_ierrors (sc_counters t) = ic_ierrors (sc_counters u) \<and> sc_pkt t = (sc_pkt u)(p := None)"
    if "\<not> w_enabled (sc_peer u i)" for u :: "'a wg_softc"
    using that assms(4)
    by (simp add: deliver_received_def wg_timers_event_want_initiation_def wg_timers_event_any_authenticated_packet_received_def
        wg_timers_event_any_authenticated_packet_traversal_def wg_peer_set_endpoint_def upd_w_def count_def sc_pkt_free Let_def)
  have c: "(if e = ECONNRESET then wg_timers_event_handshake_complete cv env i (?s\<lparr>sc_local := l\<rparr>) else Some (?s\<lparr>sc_local := l\<rparr>)) =
      Some (?s\<lparr>sc_local := l\<rparr>)"
    using assms(7) by (simp add: wg_timers_event_handshake_complete_def upd_local_def)
  have "deliver_in_packet cv env i p s = deliver_received cv env i p pkt m (?s\<lparr>sc_local := l\<rparr>)"
    using assms(1-3,5) nc rw c by (simp add: deliver_in_packet_def Let_def)
  then show ?thesis using rec [of "?s\<lparr>sc_local := l\<rparr>"] assms(7) by (simp add: upd_local_def)
qed

lemma if_no_replay_witness:
  "\<exists>s t s' t'. wg_queue_dequeue_serial (Decrypt_serial 0) s = (Some 0, t) \<and>
     map_option (\<lambda>t. wg_queue_dequeue_serial (Decrypt_serial 0) t) (deliver_in_packet demo_curve demo_if_env 0 0 t) = Some (Some 1, s') \<and>
     map_option pk_nonce (sc_pkt s' 1) = map_option pk_nonce (sc_pkt t 0) \<and>
     deliver_in_packet demo_curve demo_if_env 0 1 s' = Some (t' :: (bytes \<times> bytes \<times> nat) list wg_softc) \<and>
     ic_ierrors (sc_counters t') = ic_ierrors (sc_counters s') + 1"
proof -
  obtain l k a b n where l: "noise_reach demo_curve l" "session_at l 0 k 0 False a b" "k < next_keypair l" "0 < next_remote l" "0 < n"
    "\<forall>r < next_remote l. noise_remote_arg l r < n"
    using demo_noise_session by blast
  let ?pk = "demo_pk k 0 [] WG_PACKET_CRYPTED" and ?q = "Decrypt_serial 0"
  let ?s = "demo_if l n 0 Decrypt_parallel ?q [?pk, ?pk]"
  let ?y = "\<lparr>y_sc = ?s, y_enc = {}, y_dec = {}\<rparr>" and ?t = "upd_queue ?q remove_head ?s"
  have inv: "if_inv demo_curve demo_ents ?y"
    by (rule demo_if_inv [OF l(1,3-6), of _ _ 0]) (use l(5) in \<open>auto simp: MAX_QUEUED_PKT_def\<close>)
  have pk: "pk_state ?pk = WG_PACKET_CRYPTED" "pk_mbuf ?pk = Some \<lparr>m_data = [], m_cap = 0\<rparr>" "pk_keypair ?pk = Some k" "pk_nonce ?pk = 0"
    by (simp_all add: demo_pk_def)
  have d: "wg_queue_dequeue_serial ?q (y_sc ?y) = (Some 0, ?t)" "sc_pkt ?t 0 = Some ?pk" "sc_pkt ?t 1 = Some ?pk"
    "sc_queue ?t ?q = \<lparr>wq_list = [1], wq_len = 1\<rparr>" "sc_local ?t = l" "\<not> w_enabled (sc_peer ?t 0)"
    by (simp_all add: demo_if_def wg_queue_dequeue_serial_def upd_queue_def remove_head_def pk new_peer_def)
  obtain seen where w: "window_rel (keypairs l k) seen" using reach_windows [OF l(1)] l(3) by (auto simp: windows_ok_def)
  have nc: "fst (noise_keypair_nonce_check (keypairs l k) 0) = OK"
    using nonce_check_step [OF w, of 0] w l(2) by (auto simp: acceptable_def window_rel_def reject_after_def session_at_def split: if_splits)
  obtain u where u: "deliver_in_packet demo_curve demo_if_env 0 0 ?t = Some u" "ic_ierrors (sc_counters u) = ic_ierrors (sc_counters ?t)"
    "sc_pkt u = (sc_pkt ?t)(0 := None)"
    using keepalive_delivered [OF d(2) pk(1,2) _ pk(3), of 0 demo_curve demo_if_env] nc d(5,6) pk(4) by auto
  have v: "wg_queue_dequeue_serial ?q u = (Some 1, upd_queue ?q remove_head u)" "sc_pkt (upd_queue ?q remove_head u) 1 = Some ?pk"
    using queue_deliver_in [OF u(1), of 0] d(3,4) u(3) by (simp_all add: wg_queue_dequeue_serial_def pk upd_queue_def)
  have z: "(if_step demo_curve demo_radix)\<^sup>*\<^sup>* (?y\<lparr>y_sc := u\<rparr>) (?y\<lparr>y_sc := u\<rparr>)"
    "wg_queue_dequeue_serial ?q (y_sc (?y\<lparr>y_sc := u\<rparr>)) = (Some 1, upd_queue ?q remove_head u)"
    using v(1) by simp_all
  obtain t' where "deliver_in_packet demo_curve demo_if_env 0 1 (upd_queue ?q remove_head u) = Some t'"
    "ic_ierrors (sc_counters t') = ic_ierrors (sc_counters (upd_queue ?q remove_head u)) + 1"
    using if_no_replay [OF inv demo_radix_ok d(1,2) pk(3) u(1,2) z v(2) pk(3) refl, of demo_if_env] by blast
  then show ?thesis
    using d u(1) v by (intro exI [of _ ?s] exI [of _ ?t] exI [of _ "upd_queue ?q remove_head u"] exI [of _ t']) simp
qed

end
